(* ===== verification/GY_Prelude.thy ===== *)
theory GY_Prelude
  imports Main "HOL-Library.Word"
begin

text \<open>
  Shared vocabulary of the development: byte strings and machine integers, the result type of
  fallible operations with its sequencing combinators, and the generic lemmas on lists and words
  that the components use.

  \<^item> A C buffer is a list of bytes; \<open>uint8_t\<close>, \<open>uint16_t\<close>, \<open>uint32_t\<close> and \<open>uint64_t\<close> are
    words of that width; a \<open>size_t\<close> length is a natural number.
  \<^item> A function that returns \<open>GY_OK\<close> and fills an output, or returns a negative code, is a
    function into \<open>'e + 'a\<close>: \<open>Inl\<close> the code, \<open>Inr\<close> the output. \<open>rbind\<close> is the
    "\<^verbatim>\<open>if (rc != GY_OK) return rc;\<close>" idiom.
  \<^item> A function that draws randomness threads a draw counter. A retry loop that may never
    leave its body is a value of option type, so such a computation is a function from the draw
    counter to an optional pair of result and new counter; \<open>None\<close> is "does not return".
\<close>

type_synonym u8 = "8 word"
type_synonym u16 = "16 word"
type_synonym u32 = "32 word"
type_synonym u64 = "64 word"
type_synonym bytes = "u8 list"
type_synonym rng = nat

named_theorems codec_simps \<open>length and round-trip facts of the byte codecs\<close>
named_theorems frame_simps \<open>fields an operation leaves unchanged\<close>

subsection \<open>Fallible operations\<close>

definition rbind :: "'e + 'a \<Rightarrow> ('a \<Rightarrow> 'e + 'b) \<Rightarrow> 'e + 'b" where
  "rbind m k = (case m of Inl e \<Rightarrow> Inl e | Inr x \<Rightarrow> k x)"

lemma rbind_Inl [simp]: "rbind (Inl e) k = Inl e"
  by (simp add: rbind_def)

lemma rbind_Inr [simp]: "rbind (Inr x) k = k x"
  by (simp add: rbind_def)

lemma rbind_eq_Inr_iff: "rbind m k = Inr y \<longleftrightarrow> (\<exists>x. m = Inr x \<and> k x = Inr y)"
  by (cases m) auto

lemma rbind_eq_Inl_iff: "rbind m k = Inl e \<longleftrightarrow> m = Inl e \<or> (\<exists>x. m = Inr x \<and> k x = Inl e)"
  by (cases m) auto

lemma rbind_assoc: "rbind (rbind m f) g = rbind m (\<lambda>x. rbind (f x) g)"
  by (cases m) auto

lemma rbind_cong [fundef_cong]:
  "m = m' \<Longrightarrow> (\<And>x. m' = Inr x \<Longrightarrow> k x = k' x) \<Longrightarrow> rbind m k = rbind m' k'"
  by (cases m') auto

subsection \<open>Fallible operations that draw randomness\<close>

definition cbind :: "(rng \<Rightarrow> (('e + 'a) \<times> rng) option) \<Rightarrow> ('a \<Rightarrow> rng \<Rightarrow> (('e + 'b) \<times> rng) option)
    \<Rightarrow> rng \<Rightarrow> (('e + 'b) \<times> rng) option" where
  "cbind m k r = (case m r of None \<Rightarrow> None
     | Some (Inl e, r') \<Rightarrow> Some (Inl e, r')
     | Some (Inr x, r') \<Rightarrow> k x r')"

definition clift :: "'e + 'a \<Rightarrow> rng \<Rightarrow> (('e + 'a) \<times> rng) option" where
  "clift x r = Some (x, r)"

definition ctot :: "(rng \<Rightarrow> ('e + 'a) \<times> rng) \<Rightarrow> rng \<Rightarrow> (('e + 'a) \<times> rng) option" where
  "ctot f r = Some (f r)"

lemma clift_apply [simp]: "clift x r = Some (x, r)"
  by (simp add: clift_def)

lemma ctot_apply [simp]: "ctot f r = Some (f r)"
  by (simp add: ctot_def)

lemma cbind_clift_Inr [simp]: "cbind (clift (Inr x)) k = k x"
  by (rule ext) (simp add: cbind_def)

lemma cbind_clift_Inl [simp]: "cbind (clift (Inl e)) k = clift (Inl e)"
  by (rule ext) (simp add: cbind_def)

lemma cbind_eq_Some_Inr_iff:
  "cbind m k r = Some (Inr y, r2) \<longleftrightarrow>
     (\<exists>x r1. m r = Some (Inr x, r1) \<and> k x r1 = Some (Inr y, r2))"
  by (auto simp: cbind_def split: option.splits sum.splits prod.splits)

lemma cbind_Some_Inr: "m r = Some (Inr x, r1) \<Longrightarrow> cbind m k r = k x r1"
  by (simp add: cbind_def)

lemma cbind_Some_Inl: "m r = Some (Inl e, r1) \<Longrightarrow> cbind m k r = Some (Inl e, r1)"
  by (simp add: cbind_def)

subsection \<open>Lists\<close>

lemma take_append_len: "length xs = n \<Longrightarrow> take n (xs @ ys) = xs"
  by simp

lemma drop_append_len: "length xs = n \<Longrightarrow> drop n (xs @ ys) = ys"
  by simp

lemma append_eq_append_len_iff:
  "length xs = length xs' \<Longrightarrow> xs @ ys = xs' @ ys' \<longleftrightarrow> xs = xs' \<and> ys = ys'"
  by simp

lemma append_inject_len:
  assumes "xs @ ys = xs' @ ys'" and "length xs = length xs'"
  shows "xs = xs'" and "ys = ys'"
  using assms by auto

lemma length4_conv: "length xs = 4 \<Longrightarrow> \<exists>a b c d. xs = [a, b, c, d]"
  by (auto simp: length_Suc_conv eval_nat_numeral)

lemma filter_length_le_one:
  "distinct xs \<Longrightarrow> length (filter (\<lambda>x. x = a) xs) \<le> 1"
  by (induction xs) (auto simp: filter_empty_conv)

lemma sum_indicator_filter:
  "(\<Sum>i<n. length (filter (\<lambda>x. f x = i) xs)) = length (filter (\<lambda>x. f x < n) xs)" for n :: nat
proof (induction n)
  case 0
  then show ?case by simp
next
  case (Suc n)
  have "length (filter (\<lambda>x. f x < Suc n) xs) =
      length (filter (\<lambda>x. f x < n) xs) + length (filter (\<lambda>x. f x = n) xs)"
    by (induction xs) (auto simp: less_Suc_eq)
  with Suc show ?case by simp
qed

lemma nth_take_drop_Cons: "i < length xs \<Longrightarrow> xs = take i xs @ xs ! i # drop (Suc i) xs"
  by (simp add: id_take_nth_drop)

subsection \<open>Machine words\<close>

lemma unat_Suc_less: "unat (x + 1) = Suc (unat x)" if "x < y" for x y :: "'a::len word"
proof -
  have "unat y < 2 ^ LENGTH('a)" by (rule unsigned_less)
  moreover have "unat x < unat y" using that by (simp add: word_less_nat_alt)
  ultimately have "Suc (unat x) < 2 ^ LENGTH('a)" by linarith
  then have "unat x + unat (1 :: 'a word) < 2 ^ LENGTH('a)" by simp
  then show ?thesis using unat_add_lem [of x 1] by simp
qed

lemma word_countdown: "x < y \<Longrightarrow> unat y - unat (x + 1) < unat y - unat x" for x y :: "'a::len word"
  by (simp add: unat_Suc_less word_less_nat_alt)

end
