(* ===== verification/GY_Encode.thy ===== *)
theory GY_Encode
  imports GY_Prelude
begin

text \<open>
  The wire-encoding helpers of \<^verbatim>\<open>src/core/encode.c\<close> and the return codes of
  \<^verbatim>\<open>src/core/error.h\<close>: big-endian integers, the EncodeEC public-key encoding, the PKID
  presence test and the two-byte frame prefix. Pointer arguments of the C code that are checked
  against NULL are values here, so those checks have no counterpart.
\<close>

unbundle bit_operations_syntax

subsection \<open>Return codes\<close>

datatype gy_err =
    GY_ERR_ARG | GY_ERR_CRYPTO | GY_ERR_VERIFY | GY_ERR_TOOLONG | GY_ERR_WEAK_KEY
  | GY_ERR_STATE | GY_ERR_UNSUPPORTED | GY_ERR_KEY_CHANGED | GY_ERR_EXPIRED
  | GY_ERR_NOT_FOUND | GY_ERR_NO_SPACE

type_synonym 'a res = "gy_err + 'a"
type_synonym 'a comp = "rng \<Rightarrow> ('a res \<times> rng) option"

text \<open>The numeric value of each code, as \<^verbatim>\<open>error.h\<close> fixes it; \<open>GY_OK\<close> is 0.\<close>

fun gy_code :: "gy_err \<Rightarrow> int" where
  "gy_code GY_ERR_ARG = -1"
| "gy_code GY_ERR_CRYPTO = -2"
| "gy_code GY_ERR_VERIFY = -3"
| "gy_code GY_ERR_TOOLONG = -4"
| "gy_code GY_ERR_WEAK_KEY = -5"
| "gy_code GY_ERR_STATE = -6"
| "gy_code GY_ERR_UNSUPPORTED = -7"
| "gy_code GY_ERR_KEY_CHANGED = -8"
| "gy_code GY_ERR_EXPIRED = -9"
| "gy_code GY_ERR_NOT_FOUND = -10"
| "gy_code GY_ERR_NO_SPACE = -11"

definition gy_strerror :: "int \<Rightarrow> string" where
  "gy_strerror code =
     (if code = 0 then ''success''
      else if code = -1 then ''bad argument or length''
      else if code = -2 then ''crypto provider failure''
      else if code = -3 then ''verification failure''
      else if code = -4 then ''input exceeds length bound''
      else if code = -5 then ''weak or degenerate key''
      else if code = -6 then ''invalid state for operation''
      else if code = -7 then ''unsupported feature''
      else if code = -8 then ''peer identity key changed''
      else if code = -9 then ''session expired''
      else if code = -10 then ''key handle or id not found''
      else if code = -11 then ''key-slot table exhausted''
      else ''unknown error'')"

subsection \<open>Constants\<close>

definition GY_SUITE_C25519 :: u8 where "GY_SUITE_C25519 = 0x01"
definition GY_SUITE_H25519_512 :: u8 where "GY_SUITE_H25519_512 = 0x02"
definition GY_SUITE_C448 :: u8 where "GY_SUITE_C448 = 0x03"
definition GY_SUITE_H448_1024 :: u8 where "GY_SUITE_H448_1024 = 0x04"
definition GY_CURVE_TYPE_25519 :: u8 where "GY_CURVE_TYPE_25519 = 0x20"
definition GY_CURVE_TYPE_448 :: u8 where "GY_CURVE_TYPE_448 = 0x38"
definition GY_WIRE_VERSION :: u8 where "GY_WIRE_VERSION = 0x01"

lemmas suite_id_defs = GY_SUITE_C25519_def GY_SUITE_H25519_512_def GY_SUITE_C448_def
  GY_SUITE_H448_1024_def
lemmas wire_const_defs = GY_CURVE_TYPE_25519_def GY_CURVE_TYPE_448_def GY_WIRE_VERSION_def

subsection \<open>Big-endian integers\<close>

definition gy_be16_put :: "u16 \<Rightarrow> bytes" where
  "gy_be16_put v = [ucast (drop_bit 8 v), ucast v]"

definition gy_be32_put :: "u32 \<Rightarrow> bytes" where
  "gy_be32_put v = [ucast (drop_bit 24 v), ucast (drop_bit 16 v), ucast (drop_bit 8 v), ucast v]"

definition gy_be64_put :: "u64 \<Rightarrow> bytes" where
  "gy_be64_put v =
     [ucast (drop_bit 56 v), ucast (drop_bit 48 v), ucast (drop_bit 40 v), ucast (drop_bit 32 v),
      ucast (drop_bit 24 v), ucast (drop_bit 16 v), ucast (drop_bit 8 v), ucast v]"

definition gy_be16_get :: "bytes \<Rightarrow> u16" where
  "gy_be16_get b = push_bit 8 (ucast (b ! 0)) OR ucast (b ! 1)"

definition gy_be32_get :: "bytes \<Rightarrow> u32" where
  "gy_be32_get b = push_bit 24 (ucast (b ! 0)) OR push_bit 16 (ucast (b ! 1)) OR
     push_bit 8 (ucast (b ! 2)) OR ucast (b ! 3)"

definition gy_be64_get :: "bytes \<Rightarrow> u64" where
  "gy_be64_get b =
     push_bit 56 (ucast (b ! 0)) OR push_bit 48 (ucast (b ! 1)) OR
     push_bit 40 (ucast (b ! 2)) OR push_bit 32 (ucast (b ! 3)) OR
     push_bit 24 (ucast (b ! 4)) OR push_bit 16 (ucast (b ! 5)) OR
     push_bit 8 (ucast (b ! 6)) OR ucast (b ! 7)"

subsection \<open>EncodeEC, PKID presence, frame prefix\<close>

definition gy_encode_ec :: "nat \<Rightarrow> u8 \<Rightarrow> bytes \<Rightarrow> bytes res" where
  "gy_encode_ec cap ctype pk =
     (if ctype \<noteq> GY_CURVE_TYPE_25519 \<and> ctype \<noteq> GY_CURVE_TYPE_448 then Inl GY_ERR_ARG
      else let pk_len = unat ctype in
        if cap < 1 + pk_len then Inl GY_ERR_ARG
        else Inr (ctype # take pk_len pk))"

definition gy_pkid_is_present :: "u32 \<Rightarrow> bool" where
  "gy_pkid_is_present pkid \<longleftrightarrow> gy_be32_put pkid \<noteq> [0, 0, 0, 0]"

definition gy_frame_put :: "u8 \<Rightarrow> bytes" where
  "gy_frame_put suite = [GY_WIRE_VERSION, suite]"

definition gy_frame_check :: "bytes \<Rightarrow> u8 \<Rightarrow> unit res" where
  "gy_frame_check buf expected_suite =
     (if length buf < 2 then Inl GY_ERR_ARG
      else if buf ! 0 \<noteq> GY_WIRE_VERSION then Inl GY_ERR_ARG
      else if buf ! 1 \<noteq> expected_suite then Inl GY_ERR_STATE
      else Inr ())"

subsection \<open>Facts about the integer codecs\<close>

lemma length_be_put [simp, codec_simps]:
  "length (gy_be16_put v) = 2" "length (gy_be32_put w) = 4" "length (gy_be64_put x) = 8"
  by (simp_all add: gy_be16_put_def gy_be32_put_def gy_be64_put_def)

lemmas byte_bit_simps = bit_or_iff bit_push_bit_iff bit_unsigned_iff bit_drop_bit_eq

lemma be16_get_Cons: "gy_be16_get (a # b # xs) = push_bit 8 (ucast a) OR ucast b"
  by (simp add: gy_be16_get_def)

lemma be32_get_Cons:
  "gy_be32_get (a # b # c # d # xs) =
     push_bit 24 (ucast a) OR push_bit 16 (ucast b) OR push_bit 8 (ucast c) OR ucast d"
  by (simp add: gy_be32_get_def numeral_2_eq_2 numeral_3_eq_3)

lemma ucast_push_bit_u8:
  "k \<le> 24 \<Longrightarrow> ucast (push_bit k (ucast (a :: u8)) :: u32) = (push_bit k (ucast a) :: u64)"
  by (rule bit_word_eqI) (auto simp: byte_bit_simps dest: bit_imp_le_length)

text \<open>The 64-bit codec is two 32-bit ones.\<close>

lemma be64_get_Cons:
  "gy_be64_get (a # b # c # d # e # f # g # h # xs) =
     push_bit 32 (ucast (gy_be32_get [a, b, c, d])) OR ucast (gy_be32_get [e, f, g, h])"
proof -
  have u0: "ucast (ucast (y :: u8) :: u32) = (ucast y :: u64)" for y
    using ucast_push_bit_u8 [of 0 y] by simp
  show ?thesis
    by (simp add: gy_be64_get_def be32_get_Cons unsigned_or_eq ucast_push_bit_u8 u0 push_bit_or
        push_bit_push_bit or.assoc nth_Cons_numeral del: push_bit_numeral)
qed

lemma be64_put_halves: "gy_be64_put v = gy_be32_put (ucast (drop_bit 32 v)) @ gy_be32_put (ucast v)"
  unfolding gy_be64_put_def gy_be32_put_def
  by (simp, intro conjI; rule bit_word_eqI; simp add: byte_bit_simps add.commute)

lemma join16: "push_bit 8 (ucast (ucast (drop_bit 8 v) :: u8)) OR ucast (ucast v :: u8) = (v :: u16)"
  by (rule bit_word_eqI) (auto simp: bit_simps)

lemma join32:
  "push_bit 24 (ucast (ucast (drop_bit 24 v) :: u8)) OR push_bit 16 (ucast (ucast (drop_bit 16 v) :: u8))
     OR push_bit 8 (ucast (ucast (drop_bit 8 v) :: u8)) OR ucast (ucast v :: u8) = (v :: u32)"
  apply (rule bit_word_eqI)
  subgoal for n
    by (cases "n < 8"; cases "n < 16"; cases "n < 24")
      (auto simp: byte_bit_simps simp del: push_bit_numeral)
  done

lemma join64: "push_bit 32 (ucast (ucast (drop_bit 32 v) :: u32)) OR ucast (ucast v :: u32) = (v :: u64)"
  apply (rule bit_word_eqI)
  subgoal for n
    by (cases "n < 32") (auto simp: byte_bit_simps simp del: push_bit_numeral)
  done

lemma be16_get_put_append: "gy_be16_get (gy_be16_put v @ xs) = v"
  by (simp only: gy_be16_put_def append_Cons append_Nil be16_get_Cons join16)

lemma be32_get_put_append: "gy_be32_get (gy_be32_put v @ xs) = v"
  by (simp only: gy_be32_put_def append_Cons append_Nil be32_get_Cons join32)

lemma be64_get_put_append: "gy_be64_get (gy_be64_put v @ xs) = v"
proof -
  obtain a b c d where h: "gy_be32_put (ucast (drop_bit 32 v)) = [a, b, c, d]"
    by (simp add: gy_be32_put_def)
  obtain e f g i where l: "gy_be32_put (ucast v) = [e, f, g, i]"
    by (simp add: gy_be32_put_def)
  have "gy_be64_get (gy_be64_put v @ xs) =
      push_bit 32 (ucast (gy_be32_get [a, b, c, d])) OR ucast (gy_be32_get [e, f, g, i])"
    by (simp add: be64_put_halves h l be64_get_Cons)
  also have "gy_be32_get [a, b, c, d] = ucast (drop_bit 32 v)"
    using be32_get_put_append [of "ucast (drop_bit 32 v)" "[]"] h by simp
  also have "gy_be32_get [e, f, g, i] = ucast v"
    using be32_get_put_append [of "ucast v" "[]"] l by simp
  finally show ?thesis by (simp only: join64)
qed

text \<open>
  A fixed-width codec: the interface every field writer and reader of the wire formats relies
  on. Injectivity and prefix freeness follow from the two laws.
\<close>

locale fixed_codec =
  fixes enc :: "'a \<Rightarrow> bytes" and dec :: "bytes \<Rightarrow> 'a" and width :: nat
  assumes enc_width: "length (enc x) = width"
    and dec_enc_append: "dec (enc x @ rest) = x"
begin

lemma dec_enc: "dec (enc x) = x"
  using dec_enc_append [of x "[]"] by simp

lemma enc_inject: "enc x = enc y \<longleftrightarrow> x = y"
  by (metis dec_enc)

lemma enc_prefix_free: "enc x @ r = enc y @ s \<longleftrightarrow> x = y \<and> r = s"
  by (metis append_eq_append_len_iff dec_enc enc_width)

lemma take_enc: "take width (enc x @ rest) = enc x"
  by (simp add: enc_width)

lemma drop_enc: "drop width (enc x @ rest) = rest"
  by (simp add: enc_width)

end

interpretation be16: fixed_codec gy_be16_put gy_be16_get 2
  by unfold_locales (simp_all add: be16_get_put_append)

interpretation be32: fixed_codec gy_be32_put gy_be32_get 4
  by unfold_locales (simp_all add: be32_get_put_append)

interpretation be64: fixed_codec gy_be64_put gy_be64_get 8
  by unfold_locales (simp_all add: be64_get_put_append)

lemmas be_codec_simps [simp, codec_simps] =
  be16.dec_enc be32.dec_enc be64.dec_enc
  be16.dec_enc_append be32.dec_enc_append be64.dec_enc_append
  be16.enc_inject be32.enc_inject be64.enc_inject

text \<open>The other direction: every byte string of the width is a canonical encoding.\<close>

lemma be16_put_get: "2 \<le> length b \<Longrightarrow> gy_be16_put (gy_be16_get b) = take 2 b"
proof -
  have e: "gy_be16_put (push_bit 8 (ucast x) OR ucast y) = [x, y]" for x y :: u8
    unfolding gy_be16_put_def
    by (simp, intro conjI; rule bit_word_eqI)
      (auto simp: byte_bit_simps simp del: push_bit_numeral dest: bit_imp_le_length)
  assume "2 \<le> length b"
  then obtain x y r where b: "b = x # y # r"
    by (cases b; cases "tl b") auto
  show ?thesis by (simp only: b be16_get_Cons e) (simp add: numeral_2_eq_2)
qed

lemma be32_put_get: "4 \<le> length b \<Longrightarrow> gy_be32_put (gy_be32_get b) = take 4 b"
proof -
  have e: "gy_be32_put (push_bit 24 (ucast x) OR push_bit 16 (ucast y) OR push_bit 8 (ucast z) OR ucast w)
      = [x, y, z, w]" for x y z w :: u8
    unfolding gy_be32_put_def
    by (simp del: push_bit_numeral, intro conjI; rule bit_word_eqI)
      (auto simp: byte_bit_simps simp del: push_bit_numeral dest: bit_imp_le_length)
  assume "4 \<le> length b"
  then have "length (take 4 b) = 4" by simp
  then obtain x y z w where t: "take 4 b = [x, y, z, w]"
    using length4_conv by blast
  then have b: "b = x # y # z # w # drop 4 b"
    by (metis append_Cons append_Nil append_take_drop_id)
  have "gy_be32_get b = push_bit 24 (ucast x) OR push_bit 16 (ucast y) OR push_bit 8 (ucast z) OR ucast w"
    by (subst b) (simp only: be32_get_Cons)
  then show ?thesis by (simp only: e t)
qed

lemma be64_put_get:
  assumes "length b = 8"
  shows "gy_be64_put (gy_be64_get b) = b"
proof -
  obtain x0 x1 x2 x3 x4 x5 x6 x7 where b: "b = [x0, x1, x2, x3, x4, x5, x6, x7]"
    using assms by (auto simp: length_Suc_conv eval_nat_numeral)
  have hi: "ucast (drop_bit 32 (push_bit 32 (ucast (x :: u32)) OR ucast (y :: u32) :: u64)) = x" for x y
    by (rule bit_word_eqI) (auto simp: byte_bit_simps simp del: push_bit_numeral dest: bit_imp_le_length)
  have lo: "ucast (push_bit 32 (ucast (x :: u32)) OR ucast (y :: u32) :: u64) = y" for x y
    by (rule bit_word_eqI) (auto simp: byte_bit_simps simp del: push_bit_numeral dest: bit_imp_le_length)
  show ?thesis
    by (simp only: b be64_get_Cons be64_put_halves hi lo) (simp add: be32_put_get)
qed

subsection \<open>Facts about EncodeEC, PKID and the frame\<close>

lemma pkid_present_iff [simp]: "gy_pkid_is_present pkid \<longleftrightarrow> pkid \<noteq> 0"
proof -
  have "gy_be32_put 0 = [0, 0, 0, 0]" by (simp add: gy_be32_put_def)
  then show ?thesis unfolding gy_pkid_is_present_def by (metis be32.enc_inject)
qed

lemma encode_ec_ok:
  "gy_encode_ec cap ct pk = Inr e \<longleftrightarrow>
     ct \<in> {GY_CURVE_TYPE_25519, GY_CURVE_TYPE_448} \<and> 1 + unat ct \<le> cap \<and> e = ct # take (unat ct) pk"
  by (auto simp: gy_encode_ec_def Let_def)

lemma frame_check_ok:
  "gy_frame_check buf s = Inr () \<longleftrightarrow> 2 \<le> length buf \<and> take 2 buf = gy_frame_put s"
proof (cases "length buf < 2")
  case True
  then show ?thesis by (simp add: gy_frame_check_def)
next
  case False
  then obtain x y r where "buf = x # y # r" by (cases buf; cases "tl buf") auto
  then show ?thesis by (auto simp: gy_frame_check_def gy_frame_put_def numeral_2_eq_2)
qed

lemma frame_check_put [simp]: "gy_frame_check (gy_frame_put s @ xs) s = Inr ()"
  by (simp add: gy_frame_check_def gy_frame_put_def)

lemma length_frame_put [simp]: "length (gy_frame_put s) = 2"
  by (simp add: gy_frame_put_def)

end
