(* ===== verification/GY_Provider.thy ===== *)
theory GY_Provider
  imports GY_Encode
begin

text \<open>
  The third-party libraries the code calls: libsodium, libdecaf, monocypher and liboqs. Their
  code is not part of the repository, so it is a parameter of the model: a \<open>provider\<close> record with
  one field per entry point, named after it. A C function that fills an output and returns an
  \<open>int\<close> status is a function into \<open>option\<close> (\<open>None\<close> is a nonzero status); field elements of
  libdecaf's \<open>gf\<close> and its scalars are represented by integers.

  Randomness comes from \<open>randombytes_buf\<close>: the n-th draw of the process yields the bytes
  \<open>randombytes_buf L n len\<close>. The liboqs entry points that draw through the registered callback
  (\<^verbatim>\<open>src/core/pqinit.c\<close>) get the draw counter and return the advanced one.

  What the code relies on is stated as the named predicates at the end of the theory: the
  documented output lengths, that decryption inverts encryption, that Diffie-Hellman commutes and
  that decapsulation inverts encapsulation.
\<close>

datatype aead_prim = AEAD_CHACHA20POLY1305_IETF | AEAD_AES256GCM | AEAD_AEGIS256 | AEAD_XCHACHA20POLY1305_IETF
datatype kem_alg = ML_KEM_512 | ML_KEM_1024
datatype sig_alg = ML_DSA_44 | ML_DSA_87

type_synonym gf = int
type_synonym decaf_448_scalar = int
type_synonym 'a rcomp = "rng \<Rightarrow> 'a res \<times> rng"

record provider =
  randombytes_buf :: "rng \<Rightarrow> nat \<Rightarrow> bytes"
  crypto_hash_sha256 :: "bytes \<Rightarrow> bytes"
  crypto_hash_sha512 :: "bytes \<Rightarrow> bytes"
  crypto_auth_hmacsha256 :: "bytes \<Rightarrow> bytes \<Rightarrow> bytes"
  crypto_auth_hmacsha512 :: "bytes \<Rightarrow> bytes \<Rightarrow> bytes"
  crypto_kdf_hkdf_sha256_expand :: "nat \<Rightarrow> bytes \<Rightarrow> bytes \<Rightarrow> bytes option"
  crypto_kdf_hkdf_sha512_expand :: "nat \<Rightarrow> bytes \<Rightarrow> bytes \<Rightarrow> bytes option"
  crypto_aead_encrypt :: "aead_prim \<Rightarrow> bytes \<Rightarrow> bytes \<Rightarrow> bytes \<Rightarrow> bytes \<Rightarrow> bytes option"
  crypto_aead_decrypt :: "aead_prim \<Rightarrow> bytes \<Rightarrow> bytes \<Rightarrow> bytes \<Rightarrow> bytes \<Rightarrow> bytes option"
  crypto_aead_aes256gcm_is_available :: bool
  sodium_malloc :: "nat \<Rightarrow> bool"
  crypto_pwhash :: "nat \<Rightarrow> bytes \<Rightarrow> bytes \<Rightarrow> u32 \<Rightarrow> nat \<Rightarrow> bytes option"
  crypto_scalarmult_curve25519_base :: "bytes \<Rightarrow> bytes option"
  crypto_scalarmult_curve25519 :: "bytes \<Rightarrow> bytes \<Rightarrow> bytes option"
  crypto_scalarmult_ed25519_base_noclamp :: "bytes \<Rightarrow> bytes option"
  crypto_core_ed25519_scalar_negate :: "bytes \<Rightarrow> bytes"
  crypto_core_ed25519_scalar_reduce :: "bytes \<Rightarrow> bytes"
  crypto_core_ed25519_scalar_mul :: "bytes \<Rightarrow> bytes \<Rightarrow> bytes"
  crypto_core_ed25519_scalar_add :: "bytes \<Rightarrow> bytes \<Rightarrow> bytes"
  crypto_x25519_to_eddsa :: "bytes \<Rightarrow> bytes"
  crypto_sign_verify_detached :: "bytes \<Rightarrow> bytes \<Rightarrow> bytes \<Rightarrow> bool"
  decaf_x448_derive_public_key :: "bytes \<Rightarrow> bytes"
  decaf_x448 :: "bytes \<Rightarrow> bytes \<Rightarrow> bytes option"
  gf_add :: "gf \<Rightarrow> gf \<Rightarrow> gf"
  gf_sub :: "gf \<Rightarrow> gf \<Rightarrow> gf"
  gf_mul :: "gf \<Rightarrow> gf \<Rightarrow> gf"
  gf_mulw :: "gf \<Rightarrow> int \<Rightarrow> gf"
  gf_sqr :: "gf \<Rightarrow> gf"
  gf_cond_sel :: "gf \<Rightarrow> gf \<Rightarrow> bool \<Rightarrow> gf"
  gf_cond_neg :: "gf \<Rightarrow> bool \<Rightarrow> gf"
  gf_isr :: "gf \<Rightarrow> gf \<times> bool"
  gf_lobit :: "gf \<Rightarrow> bool"
  gf_serialize :: "gf \<Rightarrow> bytes"
  gf_deserialize :: "bytes \<Rightarrow> gf \<times> bool"
  decaf_448_scalar_decode_long :: "bytes \<Rightarrow> decaf_448_scalar"
  decaf_448_scalar_decode :: "bytes \<Rightarrow> decaf_448_scalar option"
  decaf_448_scalar_encode :: "decaf_448_scalar \<Rightarrow> bytes"
  decaf_448_scalar_add :: "decaf_448_scalar \<Rightarrow> decaf_448_scalar \<Rightarrow> decaf_448_scalar"
  decaf_448_scalar_sub :: "decaf_448_scalar \<Rightarrow> decaf_448_scalar \<Rightarrow> decaf_448_scalar"
  decaf_448_scalar_mul :: "decaf_448_scalar \<Rightarrow> decaf_448_scalar \<Rightarrow> decaf_448_scalar"
  decaf_448_scalar_cond_sel :: "decaf_448_scalar \<Rightarrow> decaf_448_scalar \<Rightarrow> bool \<Rightarrow> decaf_448_scalar"
  OQS_KEM_keypair :: "kem_alg \<Rightarrow> rng \<Rightarrow> (bytes \<times> bytes) option \<times> rng"
  OQS_KEM_keypair_derand :: "kem_alg \<Rightarrow> bytes \<Rightarrow> (bytes \<times> bytes) option"
  OQS_KEM_encaps :: "kem_alg \<Rightarrow> bytes \<Rightarrow> rng \<Rightarrow> (bytes \<times> bytes) option \<times> rng"
  OQS_KEM_decaps :: "kem_alg \<Rightarrow> bytes \<Rightarrow> bytes \<Rightarrow> bytes option"
  OQS_SIG_keypair :: "sig_alg \<Rightarrow> rng \<Rightarrow> (bytes \<times> bytes) option \<times> rng"
  OQS_SIG_sign_with_ctx_str :: "sig_alg \<Rightarrow> bytes \<Rightarrow> bytes \<Rightarrow> bytes \<Rightarrow> rng \<Rightarrow> bytes option \<times> rng"
  OQS_SIG_verify_with_ctx_str :: "sig_alg \<Rightarrow> bytes \<Rightarrow> bytes \<Rightarrow> bytes \<Rightarrow> bytes \<Rightarrow> bool"

subsection \<open>Documented sizes of the primitives\<close>

fun aead_npubbytes :: "aead_prim \<Rightarrow> nat" where
  "aead_npubbytes AEAD_CHACHA20POLY1305_IETF = 12"
| "aead_npubbytes AEAD_AES256GCM = 12"
| "aead_npubbytes AEAD_AEGIS256 = 32"
| "aead_npubbytes AEAD_XCHACHA20POLY1305_IETF = 24"

fun aead_abytes :: "aead_prim \<Rightarrow> nat" where
  "aead_abytes AEAD_CHACHA20POLY1305_IETF = 16"
| "aead_abytes AEAD_AES256GCM = 16"
| "aead_abytes AEAD_AEGIS256 = 32"
| "aead_abytes AEAD_XCHACHA20POLY1305_IETF = 16"

fun kem_sizes :: "kem_alg \<Rightarrow> nat \<times> nat \<times> nat" where
  "kem_sizes ML_KEM_512 = (800, 1632, 768)"
| "kem_sizes ML_KEM_1024 = (1568, 3168, 1568)"

fun sig_sizes :: "sig_alg \<Rightarrow> nat \<times> nat \<times> nat" where
  "sig_sizes ML_DSA_44 = (1312, 2560, 2420)"
| "sig_sizes ML_DSA_87 = (2592, 4896, 4627)"

definition crypto_kdf_hkdf_sha256_BYTES_MAX :: nat where "crypto_kdf_hkdf_sha256_BYTES_MAX = 255 * 32"
definition crypto_kdf_hkdf_sha512_BYTES_MAX :: nat where "crypto_kdf_hkdf_sha512_BYTES_MAX = 255 * 64"
definition crypto_pwhash_BYTES_MIN :: nat where "crypto_pwhash_BYTES_MIN = 16"
definition crypto_pwhash_BYTES_MAX :: nat where "crypto_pwhash_BYTES_MAX = 2 ^ 32 - 1"

subsection \<open>What the code relies on\<close>

text \<open>Output lengths of the hash, MAC and key-derivation functions, and of the generator.\<close>

definition hash_lengths :: "provider \<Rightarrow> bool" where
  "hash_lengths L \<longleftrightarrow>
     (\<forall>i n. length (randombytes_buf L i n) = n) \<and>
     (\<forall>m. length (crypto_hash_sha256 L m) = 32) \<and> (\<forall>m. length (crypto_hash_sha512 L m) = 64) \<and>
     (\<forall>k m. length (crypto_auth_hmacsha256 L k m) = 32) \<and>
     (\<forall>k m. length (crypto_auth_hmacsha512 L k m) = 64) \<and>
     (\<forall>n i k o1. crypto_kdf_hkdf_sha256_expand L n i k = Some o1 \<longrightarrow> length o1 = n) \<and>
     (\<forall>n i k o1. crypto_kdf_hkdf_sha512_expand L n i k = Some o1 \<longrightarrow> length o1 = n)"

text \<open>The key-derivation function succeeds on every length in its documented range.\<close>

definition hkdf_total :: "provider \<Rightarrow> bool" where
  "hkdf_total L \<longleftrightarrow>
     (\<forall>n i k. n \<le> crypto_kdf_hkdf_sha256_BYTES_MAX \<longrightarrow> crypto_kdf_hkdf_sha256_expand L n i k \<noteq> None) \<and>
     (\<forall>n i k. n \<le> crypto_kdf_hkdf_sha512_BYTES_MAX \<longrightarrow> crypto_kdf_hkdf_sha512_expand L n i k \<noteq> None)"

text \<open>An AEAD ciphertext is the plaintext length plus the tag, and decrypts to its plaintext.\<close>

definition aead_lengths :: "provider \<Rightarrow> bool" where
  "aead_lengths L \<longleftrightarrow>
     (\<forall>p k n ad pt ct. crypto_aead_encrypt L p k n ad pt = Some ct \<longrightarrow> length ct = length pt + aead_abytes p) \<and>
     (\<forall>p k n ad ct pt. crypto_aead_decrypt L p k n ad ct = Some pt \<longrightarrow> length ct = length pt + aead_abytes p)"

definition aead_correct :: "provider \<Rightarrow> bool" where
  "aead_correct L \<longleftrightarrow>
     (\<forall>p k n ad pt ct. crypto_aead_encrypt L p k n ad pt = Some ct \<longrightarrow>
        crypto_aead_decrypt L p k n ad ct = Some pt)"

text \<open>AEAD encryption does not fail.\<close>

definition aead_total :: "provider \<Rightarrow> bool" where
  "aead_total L \<longleftrightarrow> (\<forall>p k n ad pt. crypto_aead_encrypt L p k n ad pt \<noteq> None)"

text \<open>Diffie-Hellman commutes on public keys derived from the two secrets.\<close>

definition dh_commutes :: "provider \<Rightarrow> bool" where
  "dh_commutes L \<longleftrightarrow>
     (\<forall>a b pa pb. crypto_scalarmult_curve25519_base L a = Some pa \<longrightarrow>
        crypto_scalarmult_curve25519_base L b = Some pb \<longrightarrow>
        crypto_scalarmult_curve25519 L a pb = crypto_scalarmult_curve25519 L b pa) \<and>
     (\<forall>a b. decaf_x448 L (decaf_x448_derive_public_key L b) a =
            decaf_x448 L (decaf_x448_derive_public_key L a) b)"

definition dh_lengths :: "provider \<Rightarrow> bool" where
  "dh_lengths L \<longleftrightarrow>
     (\<forall>a pa. crypto_scalarmult_curve25519_base L a = Some pa \<longrightarrow> length pa = 32) \<and>
     (\<forall>a p s. crypto_scalarmult_curve25519 L a p = Some s \<longrightarrow> length s = 32) \<and>
     (\<forall>a. length (decaf_x448_derive_public_key L a) = 56) \<and>
     (\<forall>p a s. decaf_x448 L p a = Some s \<longrightarrow> length s = 56)"

text \<open>A ciphertext encapsulated to a generated key decapsulates to the encapsulated secret.\<close>

definition kem_correct :: "provider \<Rightarrow> bool" where
  "kem_correct L \<longleftrightarrow>
     (\<forall>alg r pk sk r1 r' ct ss r1'.
        OQS_KEM_keypair L alg r = (Some (pk, sk), r1) \<longrightarrow>
        OQS_KEM_encaps L alg pk r' = (Some (ct, ss), r1') \<longrightarrow>
        OQS_KEM_decaps L alg ct sk = Some ss)"

definition kem_lengths :: "provider \<Rightarrow> bool" where
  "kem_lengths L \<longleftrightarrow>
     (\<forall>alg r pk sk r1. OQS_KEM_keypair L alg r = (Some (pk, sk), r1) \<longrightarrow>
        length pk = fst (kem_sizes alg) \<and> length sk = fst (snd (kem_sizes alg))) \<and>
     (\<forall>alg pk r ct ss r1. OQS_KEM_encaps L alg pk r = (Some (ct, ss), r1) \<longrightarrow>
        length ct = snd (snd (kem_sizes alg)) \<and> length ss = 32) \<and>
     (\<forall>alg ct sk ss. OQS_KEM_decaps L alg ct sk = Some ss \<longrightarrow> length ss = 32)"

end
