(* ===== verification/GY_Primitives.thy ===== *)
theory GY_Primitives
  imports GY_Provider
begin

text \<open>
  The core wrappers around the providers: \<^verbatim>\<open>rng.c\<close>, \<^verbatim>\<open>aead.c\<close>, \<^verbatim>\<open>hash.c\<close>, \<^verbatim>\<open>x25519.c\<close>, \<^verbatim>\<open>x448.c\<close>,
  \<^verbatim>\<open>mlkem512.c\<close>, \<^verbatim>\<open>mlkem1024.c\<close>, \<^verbatim>\<open>mldsa44.c\<close>, \<^verbatim>\<open>mldsa87.c\<close>, \<^verbatim>\<open>pwhash.c\<close> and the XEdDSA signatures of
  \<^verbatim>\<open>ed25519.c\<close> (all under \<^verbatim>\<open>src/core\<close>). An output buffer with its capacity is a \<open>cap\<close> argument.
  A scatter/gather array is a list of byte strings, fed to the MAC in order.
\<close>

subsection \<open>Random bytes and zero test\<close>

definition gy_random_bytes :: "provider \<Rightarrow> nat \<Rightarrow> bytes rcomp" where
  "gy_random_bytes L n r =
     (if n = 0 then (Inl GY_ERR_ARG, r) else (Inr (randombytes_buf L r n), Suc r))"

definition gy_is_zero :: "bytes \<Rightarrow> bool" where
  "gy_is_zero p \<longleftrightarrow> list_all (\<lambda>b. b = 0) p"

subsection \<open>AEAD dispatch\<close>

definition GY_AEAD_CHACHA20POLY1305 :: u8 where "GY_AEAD_CHACHA20POLY1305 = 0x01"
definition GY_AEAD_AES256GCM :: u8 where "GY_AEAD_AES256GCM = 0x02"
definition GY_AEAD_AEGIS256 :: u8 where "GY_AEAD_AEGIS256 = 0x03"

lemmas aead_id_defs = GY_AEAD_CHACHA20POLY1305_def GY_AEAD_AES256GCM_def GY_AEAD_AEGIS256_def

definition aead_prim_of :: "u8 \<Rightarrow> aead_prim option" where
  "aead_prim_of aead_id =
     (if aead_id = GY_AEAD_CHACHA20POLY1305 then Some AEAD_CHACHA20POLY1305_IETF
      else if aead_id = GY_AEAD_AES256GCM then Some AEAD_AES256GCM
      else if aead_id = GY_AEAD_AEGIS256 then Some AEAD_AEGIS256
      else None)"

definition gy_aead_available :: "provider \<Rightarrow> u8 \<Rightarrow> bool" where
  "gy_aead_available L aead_id =
     (case aead_prim_of aead_id of None \<Rightarrow> False
      | Some p \<Rightarrow> (if p = AEAD_AES256GCM then crypto_aead_aes256gcm_is_available L else True))"

definition gy_aead_nonce_len :: "u8 \<Rightarrow> nat" where
  "gy_aead_nonce_len aead_id =
     (case aead_prim_of aead_id of None \<Rightarrow> 0 | Some p \<Rightarrow> aead_npubbytes p)"

definition gy_aead_tag_len :: "u8 \<Rightarrow> nat" where
  "gy_aead_tag_len aead_id =
     (case aead_prim_of aead_id of None \<Rightarrow> 0 | Some p \<Rightarrow> aead_abytes p)"

definition SIZE_MAX :: nat where "SIZE_MAX = 2 ^ 64 - 1"

definition gy_aead_encrypt ::
    "provider \<Rightarrow> u8 \<Rightarrow> nat \<Rightarrow> bytes \<Rightarrow> bytes \<Rightarrow> bytes \<Rightarrow> bytes \<Rightarrow> bytes res" where
  "gy_aead_encrypt L aead_id cap key nonce ad pt =
     (let taglen = gy_aead_tag_len aead_id in
      if taglen = 0 then Inl GY_ERR_ARG
      else if length nonce \<noteq> gy_aead_nonce_len aead_id then Inl GY_ERR_ARG
      else if aead_id = GY_AEAD_AES256GCM \<and> \<not> gy_aead_available L aead_id then Inl GY_ERR_UNSUPPORTED
      else if length pt > SIZE_MAX - taglen \<or> cap < length pt + taglen then Inl GY_ERR_ARG
      else case aead_prim_of aead_id of
          None \<Rightarrow> Inl GY_ERR_ARG
        | Some p \<Rightarrow> (case crypto_aead_encrypt L p key nonce ad pt of
              None \<Rightarrow> Inl GY_ERR_CRYPTO
            | Some ct \<Rightarrow> Inr ct))"

definition gy_aead_decrypt ::
    "provider \<Rightarrow> u8 \<Rightarrow> nat \<Rightarrow> bytes \<Rightarrow> bytes \<Rightarrow> bytes \<Rightarrow> bytes \<Rightarrow> bytes res" where
  "gy_aead_decrypt L aead_id cap key nonce ad ct =
     (let taglen = gy_aead_tag_len aead_id in
      if taglen = 0 then Inl GY_ERR_ARG
      else if length nonce \<noteq> gy_aead_nonce_len aead_id then Inl GY_ERR_ARG
      else if aead_id = GY_AEAD_AES256GCM \<and> \<not> gy_aead_available L aead_id then Inl GY_ERR_UNSUPPORTED
      else if length ct < taglen then Inl GY_ERR_VERIFY
      else if cap < length ct - taglen then Inl GY_ERR_ARG
      else case aead_prim_of aead_id of
          None \<Rightarrow> Inl GY_ERR_ARG
        | Some p \<Rightarrow> (case crypto_aead_decrypt L p key nonce ad ct of
              None \<Rightarrow> Inl GY_ERR_VERIFY
            | Some pt \<Rightarrow> Inr pt))"

subsection \<open>Hash, HMAC and HKDF\<close>

definition gy_sha256 :: "provider \<Rightarrow> bytes \<Rightarrow> bytes res" where
  "gy_sha256 L m = Inr (crypto_hash_sha256 L m)"

definition gy_sha512 :: "provider \<Rightarrow> bytes \<Rightarrow> bytes res" where
  "gy_sha512 L m = Inr (crypto_hash_sha512 L m)"

definition gy_hmac_sha256_iov :: "provider \<Rightarrow> bytes \<Rightarrow> bytes list \<Rightarrow> bytes res" where
  "gy_hmac_sha256_iov L key iov = Inr (crypto_auth_hmacsha256 L key (foldl (@) [] iov))"

definition gy_hmac_sha512_iov :: "provider \<Rightarrow> bytes \<Rightarrow> bytes list \<Rightarrow> bytes res" where
  "gy_hmac_sha512_iov L key iov = Inr (crypto_auth_hmacsha512 L key (foldl (@) [] iov))"

definition gy_hkdf_sha256_extract_iov :: "provider \<Rightarrow> bytes \<Rightarrow> bytes list \<Rightarrow> bytes res" where
  "gy_hkdf_sha256_extract_iov L salt iov = gy_hmac_sha256_iov L salt iov"

definition gy_hkdf_sha512_extract_iov :: "provider \<Rightarrow> bytes \<Rightarrow> bytes list \<Rightarrow> bytes res" where
  "gy_hkdf_sha512_extract_iov L salt iov = gy_hmac_sha512_iov L salt iov"

definition gy_hkdf_sha256_expand :: "provider \<Rightarrow> nat \<Rightarrow> bytes \<Rightarrow> bytes \<Rightarrow> bytes res" where
  "gy_hkdf_sha256_expand L outlen prk info =
     (if outlen = 0 \<or> outlen > crypto_kdf_hkdf_sha256_BYTES_MAX then Inl GY_ERR_ARG
      else case crypto_kdf_hkdf_sha256_expand L outlen info prk of
          None \<Rightarrow> Inl GY_ERR_CRYPTO | Some o1 \<Rightarrow> Inr o1)"

definition gy_hkdf_sha512_expand :: "provider \<Rightarrow> nat \<Rightarrow> bytes \<Rightarrow> bytes \<Rightarrow> bytes res" where
  "gy_hkdf_sha512_expand L outlen prk info =
     (if outlen = 0 \<or> outlen > crypto_kdf_hkdf_sha512_BYTES_MAX then Inl GY_ERR_ARG
      else case crypto_kdf_hkdf_sha512_expand L outlen info prk of
          None \<Rightarrow> Inl GY_ERR_CRYPTO | Some o1 \<Rightarrow> Inr o1)"

subsection \<open>X25519 and X448\<close>

definition clamp25519 :: "bytes \<Rightarrow> bytes" where
  "clamp25519 sk =
     (let s1 = sk[0 := (sk ! 0) AND 248];
          s2 = s1[31 := (s1 ! 31) AND 127]
      in s2[31 := (s2 ! 31) OR 64])"

definition gy_x25519_keypair :: "provider \<Rightarrow> (bytes \<times> bytes) rcomp" where
  "gy_x25519_keypair L r =
     (case gy_random_bytes L 32 r of
        (Inl e, r1) \<Rightarrow> (Inl e, r1)
      | (Inr raw, r1) \<Rightarrow>
          (let sk = clamp25519 raw in
           case crypto_scalarmult_curve25519_base L sk of
             None \<Rightarrow> (Inl GY_ERR_CRYPTO, r1)
           | Some pk \<Rightarrow> (Inr (pk, sk), r1)))"

definition gy_x25519 :: "provider \<Rightarrow> bytes \<Rightarrow> bytes \<Rightarrow> bytes res" where
  "gy_x25519 L sk peer_pk =
     (case crypto_scalarmult_curve25519 L sk peer_pk of
        None \<Rightarrow> Inl GY_ERR_WEAK_KEY
      | Some out \<Rightarrow> if gy_is_zero out then Inl GY_ERR_WEAK_KEY else Inr out)"

definition clamp448 :: "bytes \<Rightarrow> bytes" where
  "clamp448 sk = (let s1 = sk[0 := (sk ! 0) AND 252] in s1[55 := (s1 ! 55) OR 128])"

definition gy_x448_keypair :: "provider \<Rightarrow> (bytes \<times> bytes) rcomp" where
  "gy_x448_keypair L r =
     (case gy_random_bytes L 56 r of
        (Inl e, r1) \<Rightarrow> (Inl e, r1)
      | (Inr raw, r1) \<Rightarrow>
          (let sk = clamp448 raw in (Inr (decaf_x448_derive_public_key L sk, sk), r1)))"

definition gy_x448 :: "provider \<Rightarrow> bytes \<Rightarrow> bytes \<Rightarrow> bytes res" where
  "gy_x448 L sk peer_pk =
     (case decaf_x448 L peer_pk sk of
        None \<Rightarrow> Inl GY_ERR_WEAK_KEY
      | Some out \<Rightarrow> if gy_is_zero out then Inl GY_ERR_WEAK_KEY else Inr out)"

subsection \<open>ML-KEM and ML-DSA\<close>

text \<open>
  The wrappers of the two parameter sets have the same text up to the entry points they call;
  the parameter set is an argument here.
\<close>

definition gy_mlkem_keypair :: "provider \<Rightarrow> kem_alg \<Rightarrow> (bytes \<times> bytes) rcomp" where
  "gy_mlkem_keypair L alg r =
     (case OQS_KEM_keypair L alg r of
        (None, r1) \<Rightarrow> (Inl GY_ERR_CRYPTO, r1) | (Some kp, r1) \<Rightarrow> (Inr kp, r1))"

definition gy_mlkem_encaps :: "provider \<Rightarrow> kem_alg \<Rightarrow> bytes \<Rightarrow> (bytes \<times> bytes) rcomp" where
  "gy_mlkem_encaps L alg pk r =
     (case OQS_KEM_encaps L alg pk r of
        (None, r1) \<Rightarrow> (Inl GY_ERR_CRYPTO, r1) | (Some p, r1) \<Rightarrow> (Inr p, r1))"

definition gy_mlkem_decaps :: "provider \<Rightarrow> kem_alg \<Rightarrow> bytes \<Rightarrow> bytes \<Rightarrow> bytes res" where
  "gy_mlkem_decaps L alg ct sk =
     (case OQS_KEM_decaps L alg ct sk of None \<Rightarrow> Inl GY_ERR_CRYPTO | Some ss \<Rightarrow> Inr ss)"

definition gy_mlkem_keypair_derand :: "provider \<Rightarrow> kem_alg \<Rightarrow> bytes \<Rightarrow> (bytes \<times> bytes) res" where
  "gy_mlkem_keypair_derand L alg seed =
     (case OQS_KEM_keypair_derand L alg seed of None \<Rightarrow> Inl GY_ERR_CRYPTO | Some kp \<Rightarrow> Inr kp)"

definition GY_MLDSA_CTX_MAX :: nat where "GY_MLDSA_CTX_MAX = 255"

definition gy_mldsa_keypair :: "provider \<Rightarrow> sig_alg \<Rightarrow> (bytes \<times> bytes) rcomp" where
  "gy_mldsa_keypair L alg r =
     (case OQS_SIG_keypair L alg r of
        (None, r1) \<Rightarrow> (Inl GY_ERR_CRYPTO, r1) | (Some kp, r1) \<Rightarrow> (Inr kp, r1))"

definition gy_mldsa_sign :: "provider \<Rightarrow> sig_alg \<Rightarrow> bytes \<Rightarrow> bytes \<Rightarrow> bytes \<Rightarrow> bytes rcomp" where
  "gy_mldsa_sign L alg sk msg ctx r =
     (if length ctx > GY_MLDSA_CTX_MAX then (Inl GY_ERR_TOOLONG, r)
      else case OQS_SIG_sign_with_ctx_str L alg msg ctx sk r of
          (None, r1) \<Rightarrow> (Inl GY_ERR_CRYPTO, r1)
        | (Some sig, r1) \<Rightarrow>
            if length sig \<noteq> snd (snd (sig_sizes alg)) then (Inl GY_ERR_CRYPTO, r1)
            else (Inr sig, r1))"

definition gy_mldsa_verify :: "provider \<Rightarrow> sig_alg \<Rightarrow> bytes \<Rightarrow> bytes \<Rightarrow> bytes \<Rightarrow> bytes \<Rightarrow> unit res" where
  "gy_mldsa_verify L alg sig pk msg ctx =
     (if length ctx > GY_MLDSA_CTX_MAX then Inl GY_ERR_TOOLONG
      else if OQS_SIG_verify_with_ctx_str L alg msg sig ctx pk then Inr () else Inl GY_ERR_VERIFY)"

subsection \<open>XEdDSA over Curve25519\<close>

definition GY_XEDDSA_MAX_MSG :: nat where "GY_XEDDSA_MAX_MSG = 8192"

definition hash1_prefix25519 :: bytes where
  "hash1_prefix25519 = 0xfe # replicate 31 0xff"

definition ct_cmov32 :: "bytes \<Rightarrow> bytes \<Rightarrow> u8 \<Rightarrow> bytes" where
  "ct_cmov32 a b flag =
     (let mask = - (flag AND 1) in
      map (\<lambda>i. ((a ! i) AND (NOT mask)) OR ((b ! i) AND mask)) [0..<32])"

definition gy_xeddsa_calculate_key_pair :: "provider \<Rightarrow> bytes \<Rightarrow> (bytes \<times> bytes) res" where
  "gy_xeddsa_calculate_key_pair L mont_sk =
     (case crypto_scalarmult_ed25519_base_noclamp L mont_sk of
        None \<Rightarrow> Inl GY_ERR_CRYPTO
      | Some e \<Rightarrow>
          (let k_neg = crypto_core_ed25519_scalar_negate L mont_sk;
               sign_bit = drop_bit 7 (e ! 31);
               scalar_a = ct_cmov32 mont_sk k_neg sign_bit
           in Inr (e[31 := (e ! 31) AND 0x7f], scalar_a)))"

definition gy_xeddsa_sign_z :: "provider \<Rightarrow> bytes \<Rightarrow> bytes \<Rightarrow> bytes \<Rightarrow> bytes res" where
  "gy_xeddsa_sign_z L mont_sk msg z =
     (if length msg > GY_XEDDSA_MAX_MSG then Inl GY_ERR_TOOLONG
      else rbind (gy_xeddsa_calculate_key_pair L mont_sk) (\<lambda>(ed_pk, a).
        let r = crypto_core_ed25519_scalar_reduce L
                  (crypto_hash_sha512 L (hash1_prefix25519 @ a @ msg @ z)) in
        case crypto_scalarmult_ed25519_base_noclamp L r of
          None \<Rightarrow> Inl GY_ERR_CRYPTO
        | Some bigr \<Rightarrow>
            (let h = crypto_core_ed25519_scalar_reduce L (crypto_hash_sha512 L (bigr @ ed_pk @ msg));
                 ha = crypto_core_ed25519_scalar_mul L h a
             in Inr (bigr @ crypto_core_ed25519_scalar_add L r ha))))"

definition gy_xeddsa_sign :: "provider \<Rightarrow> bytes \<Rightarrow> bytes \<Rightarrow> bytes rcomp" where
  "gy_xeddsa_sign L mont_sk msg r =
     (if length msg > GY_XEDDSA_MAX_MSG then (Inl GY_ERR_TOOLONG, r)
      else case gy_random_bytes L 64 r of
          (Inl e, r1) \<Rightarrow> (Inl e, r1)
        | (Inr z, r1) \<Rightarrow> (gy_xeddsa_sign_z L mont_sk msg z, r1))"

definition curve25519_p :: bytes where
  "curve25519_p = 0xed # replicate 30 0xff @ [0x7f]"

fun u_ge_p_from :: "nat \<Rightarrow> bytes \<Rightarrow> bool" where
  "u_ge_p_from 0 u = True"
| "u_ge_p_from (Suc i) u =
     (if u ! i > curve25519_p ! i then True
      else if u ! i < curve25519_p ! i then False
      else u_ge_p_from i u)"

definition u_ge_p :: "bytes \<Rightarrow> bool" where
  "u_ge_p u = u_ge_p_from 32 u"

definition gy_xeddsa_verify :: "provider \<Rightarrow> bytes \<Rightarrow> bytes \<Rightarrow> bytes \<Rightarrow> unit res" where
  "gy_xeddsa_verify L sig mont_pk msg =
     (if length msg > GY_XEDDSA_MAX_MSG then Inl GY_ERR_TOOLONG
      else if u_ge_p mont_pk then Inl GY_ERR_VERIFY
      else if crypto_sign_verify_detached L sig msg (crypto_x25519_to_eddsa L mont_pk)
        then Inr () else Inl GY_ERR_VERIFY)"

subsection \<open>Facts about the wrappers\<close>

lemma foldl_append_concat: "foldl (@) acc xs = acc @ concat xs"
  by (induction xs arbitrary: acc) auto

lemma hmac_iov_concat [simp]:
  "gy_hmac_sha256_iov L key iov = Inr (crypto_auth_hmacsha256 L key (concat iov))"
  "gy_hmac_sha512_iov L key iov = Inr (crypto_auth_hmacsha512 L key (concat iov))"
  by (simp_all add: gy_hmac_sha256_iov_def gy_hmac_sha512_iov_def foldl_append_concat)

lemma aead_len_bounds [simp]: "gy_aead_nonce_len i \<le> 32" "gy_aead_tag_len i \<le> 32"
  by (auto simp: gy_aead_nonce_len_def gy_aead_tag_len_def aead_prim_of_def)

lemma aead_len_pos_iff:
  "0 < gy_aead_nonce_len i \<longleftrightarrow> aead_prim_of i \<noteq> None"
  "0 < gy_aead_tag_len i \<longleftrightarrow> aead_prim_of i \<noteq> None"
  by (auto simp: gy_aead_nonce_len_def gy_aead_tag_len_def aead_prim_of_def)

lemma aead_available_prim: "gy_aead_available L i \<Longrightarrow> aead_prim_of i \<noteq> None"
  by (auto simp: gy_aead_available_def split: option.splits)

lemma aead_encrypt_ok:
  "gy_aead_encrypt L i cap k n ad pt = Inr ct \<longleftrightarrow>
     (\<exists>p. aead_prim_of i = Some p \<and> length n = gy_aead_nonce_len i \<and>
        (i = GY_AEAD_AES256GCM \<longrightarrow> gy_aead_available L i) \<and>
        length pt \<le> SIZE_MAX - gy_aead_tag_len i \<and> length pt + gy_aead_tag_len i \<le> cap \<and>
        crypto_aead_encrypt L p k n ad pt = Some ct)"
proof (cases "aead_prim_of i")
  case None
  then show ?thesis by (simp add: gy_aead_encrypt_def gy_aead_tag_len_def)
next
  case (Some p)
  then have "gy_aead_tag_len i \<noteq> 0" by (simp add: gy_aead_tag_len_def) (cases p; simp)
  with Some show ?thesis
    by (auto simp: gy_aead_encrypt_def Let_def not_less split: option.splits)
qed

lemma aead_encrypt_succeeds:
  assumes "aead_total L" "gy_aead_available L i" "length n = gy_aead_nonce_len i"
    and "length pt \<le> SIZE_MAX - gy_aead_tag_len i" "length pt + gy_aead_tag_len i \<le> cap"
  shows "\<exists>ct. gy_aead_encrypt L i cap k n ad pt = Inr ct"
  using assms aead_available_prim [OF assms(2)] by (auto simp: aead_encrypt_ok aead_total_def)

lemma aead_encrypt_len:
  "aead_lengths L \<Longrightarrow> gy_aead_encrypt L i cap k n ad pt = Inr ct \<Longrightarrow>
     length ct = length pt + gy_aead_tag_len i \<and> length ct \<le> cap"
  by (auto simp: aead_encrypt_ok aead_lengths_def gy_aead_tag_len_def)

lemma aead_decrypt_encrypt:
  assumes "aead_lengths L" "aead_correct L" "gy_aead_encrypt L i cap k n ad pt = Inr ct"
    and "length pt \<le> cap'"
  shows "gy_aead_decrypt L i cap' k n ad ct = Inr pt"
proof -
  have len: "length ct = length pt + gy_aead_tag_len i"
    using aead_encrypt_len assms(1,3) by blast
  obtain p where p: "aead_prim_of i = Some p" "length n = gy_aead_nonce_len i"
      "i = GY_AEAD_AES256GCM \<longrightarrow> gy_aead_available L i"
      "crypto_aead_encrypt L p k n ad pt = Some ct"
    using assms(3) by (auto simp: aead_encrypt_ok)
  have "gy_aead_tag_len i \<noteq> 0" using aead_len_pos_iff(2) [of i] p(1) by simp
  moreover have "crypto_aead_decrypt L p k n ad ct = Some pt"
    using assms(2) p(4) by (simp add: aead_correct_def)
  ultimately show ?thesis
    using assms(4) p len by (auto simp: gy_aead_decrypt_def Let_def)
qed

lemma aead_decrypt_len:
  assumes "aead_lengths L" "gy_aead_decrypt L i cap k n ad ct = Inr pt"
  shows "length ct = length pt + gy_aead_tag_len i" "length pt \<le> cap"
proof -
  show "length ct = length pt + gy_aead_tag_len i"
    using assms by (auto simp: gy_aead_decrypt_def gy_aead_tag_len_def aead_lengths_def Let_def
        split: option.splits if_splits)
  then show "length pt \<le> cap"
    using assms by (auto simp: gy_aead_decrypt_def Let_def split: option.splits if_splits)
qed

text \<open>The Diffie-Hellman wrappers never hand out the all-zero secret.\<close>

lemma x25519_nonzero: "gy_x25519 L sk pk = Inr s \<Longrightarrow> \<not> gy_is_zero s"
  by (auto simp: gy_x25519_def split: option.splits if_splits)

lemma x448_nonzero: "gy_x448 L sk pk = Inr s \<Longrightarrow> \<not> gy_is_zero s"
  by (auto simp: gy_x448_def split: option.splits if_splits)

lemma x25519_keypair_ok:
  "gy_x25519_keypair L r = (Inr (pk, sk), r1) \<Longrightarrow>
     crypto_scalarmult_curve25519_base L sk = Some pk \<and> r1 = Suc r \<and>
     sk = clamp25519 (randombytes_buf L r 32)"
  by (auto simp: gy_x25519_keypair_def gy_random_bytes_def Let_def split: option.splits)

lemma x448_keypair_ok:
  "gy_x448_keypair L r = (Inr (pk, sk), r1) \<Longrightarrow>
     pk = decaf_x448_derive_public_key L sk \<and> r1 = Suc r \<and> sk = clamp448 (randombytes_buf L r 56)"
  by (auto simp: gy_x448_keypair_def gy_random_bytes_def Let_def)

lemma length_clamp [simp]: "length (clamp25519 sk) = length sk" "length (clamp448 sk) = length sk"
  by (simp_all add: clamp25519_def clamp448_def Let_def)

text \<open>The constant-time select is a select.\<close>

lemma and_one_cases: "(flag :: u8) AND 1 = 0 \<or> flag AND 1 = 1"
  by (simp add: and_one_eq mod2_eq_if)

lemma ct_cmov32_select:
  assumes "length a = 32" "length b = 32"
  shows "ct_cmov32 a b flag = (if flag AND 1 = 1 then b else a)"
  using and_one_cases [of flag] assms
  by (auto simp: ct_cmov32_def Let_def intro!: nth_equalityI)

text \<open>The byte-wise comparison loop is the comparison of the little-endian values.\<close>

fun le_val :: "bytes \<Rightarrow> nat" where
  "le_val [] = 0"
| "le_val (b # bs) = unat b + 256 * le_val bs"

lemma le_val_snoc: "le_val (xs @ [b]) = le_val xs + 256 ^ length xs * unat b"
  by (induction xs) (simp_all add: algebra_simps)

lemma le_val_bound: "le_val xs < 256 ^ length xs"
proof (induction xs)
  case Nil
  then show ?case by simp
next
  case (Cons b xs)
  have "unat b < 256" using unsigned_less [of b, where 'a = nat] by simp
  then have "unat b + 256 * le_val xs < 256 * (le_val xs + 1)" by simp
  also have "\<dots> \<le> 256 * 256 ^ length xs" using Cons by simp
  finally show ?case by simp
qed

lemma digit_compare:
  assumes "(x :: nat) < B" "y < B" "u < v"
  shows "x + B * u < y + B * v"
proof -
  have "x + B * u < B * (u + 1)" using assms(1) by simp
  also have "\<dots> \<le> B * v" using assms(3) by (intro mult_le_mono2) simp
  finally show ?thesis by simp
qed

lemma le_val_take_Suc:
  "n < length xs \<Longrightarrow> le_val (take (Suc n) xs) = le_val (take n xs) + 256 ^ n * unat (xs ! n)"
  by (simp add: take_Suc_conv_app_nth le_val_snoc)

lemma u_ge_p_from_le_val:
  "n \<le> length u \<Longrightarrow> n \<le> 32 \<Longrightarrow>
     u_ge_p_from n u \<longleftrightarrow> le_val (take n curve25519_p) \<le> le_val (take n u)"
proof (induction n)
  case 0
  then show ?case by simp
next
  case (Suc n)
  have lp: "length curve25519_p = 32" by (simp add: curve25519_p_def)
  have b: "le_val (take n u) < 256 ^ n" "le_val (take n curve25519_p) < 256 ^ n"
    using Suc.prems lp le_val_bound [of "take n u"] le_val_bound [of "take n curve25519_p"]
    by (simp_all add: min_absorb2)
  have s: "le_val (take (Suc n) u) = le_val (take n u) + 256 ^ n * unat (u ! n)"
      "le_val (take (Suc n) curve25519_p) =
         le_val (take n curve25519_p) + 256 ^ n * unat (curve25519_p ! n)"
    using Suc.prems lp by (simp_all add: le_val_take_Suc)
  consider "u ! n > curve25519_p ! n" | "u ! n < curve25519_p ! n" | "u ! n = curve25519_p ! n"
    by (meson linorder_cases)
  then show ?case
  proof cases
    case 1
    then have "unat (curve25519_p ! n) < unat (u ! n)" by (simp add: word_less_nat_alt)
    from digit_compare [OF b(2) b(1) this] 1 show ?thesis by (simp add: s)
  next
    case 2
    then have "unat (u ! n) < unat (curve25519_p ! n)" by (simp add: word_less_nat_alt)
    from digit_compare [OF b(1) b(2) this] 2 show ?thesis by (simp add: s)
  next
    case 3
    then show ?thesis using Suc by (simp add: s)
  qed
qed

lemma le_val_replicate_ff: "le_val (replicate n 0xff @ [0x7f]) = 128 * 256 ^ n - 1"
  by (induction n) (auto simp: diff_mult_distrib2)

lemma curve25519_p_val: "le_val curve25519_p = 2 ^ 255 - 19"
  by (simp add: curve25519_p_def le_val_replicate_ff)

text \<open>
  C40. The non-canonical test on an XEdDSA public key, a loop comparing the bytes from the top, is
  exactly the comparison of the 32-byte little-endian u-coordinate with the prime 2^255 - 19.
\<close>

theorem u_ge_p_iff_ge_prime:
  assumes "length u = 32"
  shows "u_ge_p u \<longleftrightarrow> 2 ^ 255 - 19 \<le> le_val u"
proof -
  have "length curve25519_p = 32" by (simp add: curve25519_p_def)
  with u_ge_p_from_le_val [of 32 u] assms show ?thesis
    by (simp add: u_ge_p_def curve25519_p_val)
qed

end
