(* ===== verification/GY_Ed448.thy ===== *)
theory GY_Ed448
  imports GY_Primitives
begin

text \<open>
  XEd448 signatures, \<^verbatim>\<open>src/core/ed448.c\<close>: the in-house point layer in extended twisted Edwards
  coordinates over libdecaf's field, and the sign and verify routines on it. A \<open>mask_t\<close> that is
  all ones or zero is a boolean; the field and scalar operations are the provider's.
\<close>

definition GY_XED448_MAX_MSG :: nat where "GY_XED448_MAX_MSG = 8192"

definition hash1_prefix448 :: bytes where
  "hash1_prefix448 = 0xfe # replicate 56 0xff"

record pt =
  pt_x :: gf
  pt_y :: gf
  pt_z :: gf
  pt_t :: gf

definition gf_ZERO :: gf where "gf_ZERO = 0"
definition gf_ONE :: gf where "gf_ONE = 1"

definition gf_invert :: "provider \<Rightarrow> gf \<Rightarrow> gf" where
  "gf_invert L z =
     (let z2 = gf_sqr L z; r = fst (gf_isr L z2); r2 = gf_sqr L r in gf_mul L r2 z)"

definition curve_d :: "provider \<Rightarrow> gf" where
  "curve_d L =
     (let num = gf_mulw L gf_ONE 39082; den = gf_mulw L gf_ONE 39081; iden = gf_invert L den
      in gf_mul L num iden)"

definition pt_identity :: pt where
  "pt_identity = \<lparr>pt_x = gf_ZERO, pt_y = gf_ONE, pt_z = gf_ONE, pt_t = gf_ZERO\<rparr>"

definition pt_negate :: "provider \<Rightarrow> pt \<Rightarrow> pt" where
  "pt_negate L p =
     \<lparr>pt_x = gf_sub L gf_ZERO (pt_x p), pt_y = pt_y p, pt_z = pt_z p,
      pt_t = gf_sub L gf_ZERO (pt_t p)\<rparr>"

definition pt_cond_sel :: "provider \<Rightarrow> pt \<Rightarrow> pt \<Rightarrow> bool \<Rightarrow> pt" where
  "pt_cond_sel L a b bt =
     \<lparr>pt_x = gf_cond_sel L (pt_x a) (pt_x b) bt, pt_y = gf_cond_sel L (pt_y a) (pt_y b) bt,
      pt_z = gf_cond_sel L (pt_z a) (pt_z b) bt, pt_t = gf_cond_sel L (pt_t a) (pt_t b) bt\<rparr>"

definition pt_add :: "provider \<Rightarrow> pt \<Rightarrow> pt \<Rightarrow> gf \<Rightarrow> pt" where
  "pt_add L p q d =
     (let a = gf_mul L (pt_x p) (pt_x q);
          b = gf_mul L (pt_y p) (pt_y q);
          c = gf_mul L (pt_t p) (pt_t q);
          cd = gf_mul L c d;
          dd = gf_mul L (pt_z p) (pt_z q);
          t0 = gf_add L (pt_x p) (pt_y p);
          t1 = gf_add L (pt_x q) (pt_y q);
          e0 = gf_mul L t0 t1;
          e1 = gf_sub L e0 a;
          e = gf_sub L e1 b;
          f = gf_sub L dd cd;
          g = gf_add L dd cd;
          h = gf_sub L b a
      in \<lparr>pt_x = gf_mul L e f, pt_y = gf_mul L g h, pt_z = gf_mul L f g, pt_t = gf_mul L e h\<rparr>)"

definition pt_double :: "provider \<Rightarrow> pt \<Rightarrow> pt" where
  "pt_double L p =
     (let a = gf_sqr L (pt_x p);
          b = gf_sqr L (pt_y p);
          c0 = gf_sqr L (pt_z p);
          c = gf_add L c0 c0;
          t0 = gf_add L (pt_x p) (pt_y p);
          e0 = gf_sqr L t0;
          e1 = gf_sub L e0 a;
          e = gf_sub L e1 b;
          g = gf_add L a b;
          f = gf_sub L g c;
          h = gf_sub L a b
      in \<lparr>pt_x = gf_mul L e f, pt_y = gf_mul L g h, pt_z = gf_mul L f g, pt_t = gf_mul L e h\<rparr>)"

text \<open>The loop runs over the bits \<open>i = 447, \<dots>, 0\<close>; the first argument counts the bits left.\<close>

fun pt_scalarmul_loop :: "provider \<Rightarrow> nat \<Rightarrow> pt \<Rightarrow> pt \<Rightarrow> bytes \<Rightarrow> gf \<Rightarrow> pt" where
  "pt_scalarmul_loop L 0 acc base scalar d = acc"
| "pt_scalarmul_loop L (Suc i) acc base scalar d =
     (let acc1 = pt_double L acc;
          sm = pt_add L acc1 base d;
          bt = (drop_bit (i mod 8) (scalar ! (i div 8)) AND 1 = 1)
      in pt_scalarmul_loop L i (pt_cond_sel L acc1 sm bt) base scalar d)"

definition pt_scalarmul :: "provider \<Rightarrow> pt \<Rightarrow> bytes \<Rightarrow> gf \<Rightarrow> pt" where
  "pt_scalarmul L base scalar d = pt_scalarmul_loop L 448 pt_identity base scalar d"

definition pt_from_y :: "provider \<Rightarrow> gf \<Rightarrow> bool \<Rightarrow> bool \<Rightarrow> gf \<Rightarrow> pt \<times> bool" where
  "pt_from_y L y force_zero want_sign d =
     (let y2 = gf_sqr L y;
          num = gf_sub L gf_ONE y2;
          den = gf_sub L gf_ONE (gf_mul L d y2);
          prod = gf_mul L num den;
          r = fst (gf_isr L prod);
          ok = snd (gf_isr L prod);
          x0 = gf_mul L num r;
          want = (if force_zero then False else want_sign);
          sgn = gf_lobit L x0;
          x = gf_cond_neg L x0 (sgn \<noteq> want)
      in (\<lparr>pt_x = x, pt_y = y, pt_z = gf_ONE, pt_t = gf_mul L x y\<rparr>, ok))"

definition pt_encode :: "provider \<Rightarrow> pt \<Rightarrow> bool \<Rightarrow> bytes" where
  "pt_encode L p force_zero =
     (let zi = gf_invert L (pt_z p);
          x = gf_mul L (pt_x p) zi;
          y = gf_mul L (pt_y p) zi;
          sgn = (if force_zero then False else gf_lobit L x)
      in gf_serialize L y @ [if sgn then 0x80 else 0])"

definition u_to_y :: "provider \<Rightarrow> bytes \<Rightarrow> gf \<times> bool" where
  "u_to_y L u_bytes =
     (let u = fst (gf_deserialize L u_bytes);
          canon = snd (gf_deserialize L u_bytes);
          onepu = gf_add L u gf_ONE;
          umone = gf_sub L u gf_ONE;
          inv = gf_invert L umone
      in (gf_mul L onepu inv, canon))"

definition base_point :: "provider \<Rightarrow> gf \<Rightarrow> pt" where
  "base_point L d =
     (let five = gf_mulw L gf_ONE 5;
          onepu = gf_add L five gf_ONE;
          umone = gf_sub L five gf_ONE;
          inv = gf_invert L umone;
          y = gf_mul L onepu inv
      in fst (pt_from_y L y True False d))"

definition derive_key :: "provider \<Rightarrow> bytes \<Rightarrow> gf \<Rightarrow> pt \<Rightarrow> pt \<times> decaf_448_scalar" where
  "derive_key L mont_sk d b =
     (let k_sc = decaf_448_scalar_decode_long L mont_sk;
          k_bytes = decaf_448_scalar_encode L k_sc;
          e = pt_scalarmul L b k_bytes d;
          zi = gf_invert L (pt_z e);
          xa = gf_mul L (pt_x e) zi;
          sign = gf_lobit L xa;
          k_neg = decaf_448_scalar_sub L 0 k_sc
      in (e, decaf_448_scalar_cond_sel L k_sc k_neg sign))"

definition gy_xed448_calculate_key_pair :: "provider \<Rightarrow> bytes \<Rightarrow> (bytes \<times> bytes) res" where
  "gy_xed448_calculate_key_pair L mont_sk =
     (let d = curve_d L;
          b = base_point L d;
          (a_pt, a) = derive_key L mont_sk d b
      in Inr (pt_encode L a_pt True, decaf_448_scalar_encode L a @ [0]))"

definition gy_xed448_mont_to_ed :: "provider \<Rightarrow> bytes \<Rightarrow> bytes res" where
  "gy_xed448_mont_to_ed L mont_pk =
     (let d = curve_d L;
          (y, canon) = u_to_y L mont_pk;
          (a, oncurve) = pt_from_y L y True False d
      in if \<not> canon \<or> \<not> oncurve then Inl GY_ERR_VERIFY else Inr (pt_encode L a True))"

definition xed448_sign_core :: "provider \<Rightarrow> bytes \<Rightarrow> bytes \<Rightarrow> bytes \<Rightarrow> bytes res" where
  "xed448_sign_core L mont_sk msg z =
     (if length msg > GY_XED448_MAX_MSG then Inl GY_ERR_TOOLONG
      else
        let d = curve_d L;
            b = base_point L d;
            (a_pt, a) = derive_key L mont_sk d b;
            ed_pk = pt_encode L a_pt True;
            a_enc = decaf_448_scalar_encode L a;
            r = decaf_448_scalar_decode_long L (crypto_hash_sha512 L (hash1_prefix448 @ a_enc @ msg @ z));
            r_pt = pt_scalarmul L b (decaf_448_scalar_encode L r) d;
            bigr = pt_encode L r_pt False;
            h = decaf_448_scalar_decode_long L (crypto_hash_sha512 L (bigr @ ed_pk @ msg));
            ha = decaf_448_scalar_mul L h a;
            s = decaf_448_scalar_add L r ha
        in Inr (bigr @ decaf_448_scalar_encode L s @ [0]))"

definition gy_xed448_sign :: "provider \<Rightarrow> bytes \<Rightarrow> bytes \<Rightarrow> bytes rcomp" where
  "gy_xed448_sign L mont_sk msg r =
     (if length msg > GY_XED448_MAX_MSG then (Inl GY_ERR_TOOLONG, r)
      else case gy_random_bytes L 64 r of
          (Inl e, r1) \<Rightarrow> (Inl e, r1)
        | (Inr z, r1) \<Rightarrow> (xed448_sign_core L mont_sk msg z, r1))"

definition decode_canonical_s :: "provider \<Rightarrow> bytes \<Rightarrow> decaf_448_scalar res" where
  "decode_canonical_s L s_enc =
     (if s_enc ! 56 \<noteq> 0 then Inl GY_ERR_VERIFY
      else case decaf_448_scalar_decode L (take 56 s_enc) of
          None \<Rightarrow> Inl GY_ERR_VERIFY | Some s \<Rightarrow> Inr s)"

definition gy_xed448_verify :: "provider \<Rightarrow> bytes \<Rightarrow> bytes \<Rightarrow> bytes \<Rightarrow> unit res" where
  "gy_xed448_verify L sig mont_pk msg =
     (if length msg > GY_XED448_MAX_MSG then Inl GY_ERR_TOOLONG
      else case decode_canonical_s L (drop 57 sig) of
          Inl e \<Rightarrow> Inl GY_ERR_VERIFY
        | Inr s \<Rightarrow>
            (let d = curve_d L;
                 b = base_point L d;
                 (y, canon) = u_to_y L mont_pk;
                 (a_pt, oncurve) = pt_from_y L y True False d
             in if \<not> canon \<or> \<not> oncurve then Inl GY_ERR_VERIFY
                else
                  let a_enc = pt_encode L a_pt True;
                      h = decaf_448_scalar_decode_long L
                            (crypto_hash_sha512 L (take 57 sig @ a_enc @ msg));
                      sb = pt_scalarmul L b (decaf_448_scalar_encode L s) d;
                      ha = pt_scalarmul L a_pt (decaf_448_scalar_encode L h) d;
                      rc_pt = pt_add L sb (pt_negate L ha) d;
                      rc_enc = pt_encode L rc_pt False
                  in if rc_enc = take 57 sig then Inr () else Inl GY_ERR_VERIFY))"

end
