(* ===== verification/GY_Suite.thy ===== *)
theory GY_Suite
  imports GY_Ed448
begin

text \<open>
  The suite descriptor table of \<^verbatim>\<open>src/core/suite.c\<close>, the counter-mode key derivation of
  \<^verbatim>\<open>src/core/kdf.c\<close> that is generic over it, and the two functions of \<^verbatim>\<open>src/core/encode.c\<close> that look a
  suite up: the public-key identifier and the info string. A descriptor carries its operations as
  function fields, as the C struct does; an operation that is NULL in the classical rows has
  option type.
\<close>

record gy_suite_desc =
  suite_id :: u8
  curve_type :: u8
  is_hybrid :: bool
  suite_name :: string
  curve_pk_len :: nat
  curve_sk_len :: nat
  dh_len :: nat
  sig_len :: nat
  hash_len :: nat
  f_len :: nat
  op_keypair :: "(bytes \<times> bytes) rcomp"
  op_dh :: "bytes \<Rightarrow> bytes \<Rightarrow> bytes res"
  op_sign :: "bytes \<Rightarrow> bytes \<Rightarrow> bytes rcomp"
  op_verify :: "bytes \<Rightarrow> bytes \<Rightarrow> bytes \<Rightarrow> unit res"
  op_hash :: "bytes \<Rightarrow> bytes res"
  op_hmac :: "bytes \<Rightarrow> bytes list \<Rightarrow> bytes res"
  op_hkdf_extract :: "bytes \<Rightarrow> bytes list \<Rightarrow> bytes res"
  op_hkdf_expand :: "nat \<Rightarrow> bytes \<Rightarrow> bytes \<Rightarrow> bytes res"
  kem_pk_len :: nat
  kem_sk_len :: nat
  kem_ct_len :: nat
  kem_ss_len :: nat
  dsa_pk_len :: nat
  dsa_sk_len :: nat
  dsa_sig_len :: nat
  op_kem_keypair :: "(bytes \<times> bytes) rcomp option"
  op_kem_encap :: "(bytes \<Rightarrow> (bytes \<times> bytes) rcomp) option"
  op_kem_decap :: "(bytes \<Rightarrow> bytes \<Rightarrow> bytes res) option"
  op_dsa_keypair :: "(bytes \<times> bytes) rcomp option"
  op_dsa_sign :: "(bytes \<Rightarrow> bytes \<Rightarrow> bytes \<Rightarrow> bytes rcomp) option"
  op_dsa_verify :: "(bytes \<Rightarrow> bytes \<Rightarrow> bytes \<Rightarrow> bytes \<Rightarrow> unit res) option"

definition suite_c25519 :: "provider \<Rightarrow> gy_suite_desc" where
  "suite_c25519 L =
     \<lparr>suite_id = GY_SUITE_C25519, curve_type = GY_CURVE_TYPE_25519, is_hybrid = False,
      suite_name = ''c25519'', curve_pk_len = 32, curve_sk_len = 32, dh_len = 32, sig_len = 64,
      hash_len = 32, f_len = 32,
      op_keypair = gy_x25519_keypair L, op_dh = gy_x25519 L,
      op_sign = gy_xeddsa_sign L, op_verify = gy_xeddsa_verify L,
      op_hash = gy_sha256 L, op_hmac = gy_hmac_sha256_iov L,
      op_hkdf_extract = gy_hkdf_sha256_extract_iov L, op_hkdf_expand = gy_hkdf_sha256_expand L,
      kem_pk_len = 0, kem_sk_len = 0, kem_ct_len = 0, kem_ss_len = 0,
      dsa_pk_len = 0, dsa_sk_len = 0, dsa_sig_len = 0,
      op_kem_keypair = None, op_kem_encap = None, op_kem_decap = None,
      op_dsa_keypair = None, op_dsa_sign = None, op_dsa_verify = None\<rparr>"

definition suite_h25519_512 :: "provider \<Rightarrow> gy_suite_desc" where
  "suite_h25519_512 L =
     \<lparr>suite_id = GY_SUITE_H25519_512, curve_type = GY_CURVE_TYPE_25519, is_hybrid = True,
      suite_name = ''h25519_512'', curve_pk_len = 32, curve_sk_len = 32, dh_len = 32, sig_len = 64,
      hash_len = 32, f_len = 32,
      op_keypair = gy_x25519_keypair L, op_dh = gy_x25519 L,
      op_sign = gy_xeddsa_sign L, op_verify = gy_xeddsa_verify L,
      op_hash = gy_sha256 L, op_hmac = gy_hmac_sha256_iov L,
      op_hkdf_extract = gy_hkdf_sha256_extract_iov L, op_hkdf_expand = gy_hkdf_sha256_expand L,
      kem_pk_len = 800, kem_sk_len = 1632, kem_ct_len = 768, kem_ss_len = 32,
      dsa_pk_len = 1312, dsa_sk_len = 2560, dsa_sig_len = 2420,
      op_kem_keypair = Some (gy_mlkem_keypair L ML_KEM_512),
      op_kem_encap = Some (gy_mlkem_encaps L ML_KEM_512),
      op_kem_decap = Some (gy_mlkem_decaps L ML_KEM_512),
      op_dsa_keypair = Some (gy_mldsa_keypair L ML_DSA_44),
      op_dsa_sign = Some (gy_mldsa_sign L ML_DSA_44),
      op_dsa_verify = Some (gy_mldsa_verify L ML_DSA_44)\<rparr>"

definition suite_c448 :: "provider \<Rightarrow> gy_suite_desc" where
  "suite_c448 L =
     \<lparr>suite_id = GY_SUITE_C448, curve_type = GY_CURVE_TYPE_448, is_hybrid = False,
      suite_name = ''c448'', curve_pk_len = 56, curve_sk_len = 56, dh_len = 56, sig_len = 114,
      hash_len = 64, f_len = 57,
      op_keypair = gy_x448_keypair L, op_dh = gy_x448 L,
      op_sign = gy_xed448_sign L, op_verify = gy_xed448_verify L,
      op_hash = gy_sha512 L, op_hmac = gy_hmac_sha512_iov L,
      op_hkdf_extract = gy_hkdf_sha512_extract_iov L, op_hkdf_expand = gy_hkdf_sha512_expand L,
      kem_pk_len = 0, kem_sk_len = 0, kem_ct_len = 0, kem_ss_len = 0,
      dsa_pk_len = 0, dsa_sk_len = 0, dsa_sig_len = 0,
      op_kem_keypair = None, op_kem_encap = None, op_kem_decap = None,
      op_dsa_keypair = None, op_dsa_sign = None, op_dsa_verify = None\<rparr>"

definition suite_h448_1024 :: "provider \<Rightarrow> gy_suite_desc" where
  "suite_h448_1024 L =
     \<lparr>suite_id = GY_SUITE_H448_1024, curve_type = GY_CURVE_TYPE_448, is_hybrid = True,
      suite_name = ''h448_1024'', curve_pk_len = 56, curve_sk_len = 56, dh_len = 56, sig_len = 114,
      hash_len = 64, f_len = 57,
      op_keypair = gy_x448_keypair L, op_dh = gy_x448 L,
      op_sign = gy_xed448_sign L, op_verify = gy_xed448_verify L,
      op_hash = gy_sha512 L, op_hmac = gy_hmac_sha512_iov L,
      op_hkdf_extract = gy_hkdf_sha512_extract_iov L, op_hkdf_expand = gy_hkdf_sha512_expand L,
      kem_pk_len = 1568, kem_sk_len = 3168, kem_ct_len = 1568, kem_ss_len = 32,
      dsa_pk_len = 2592, dsa_sk_len = 4896, dsa_sig_len = 4627,
      op_kem_keypair = Some (gy_mlkem_keypair L ML_KEM_1024),
      op_kem_encap = Some (gy_mlkem_encaps L ML_KEM_1024),
      op_kem_decap = Some (gy_mlkem_decaps L ML_KEM_1024),
      op_dsa_keypair = Some (gy_mldsa_keypair L ML_DSA_87),
      op_dsa_sign = Some (gy_mldsa_sign L ML_DSA_87),
      op_dsa_verify = Some (gy_mldsa_verify L ML_DSA_87)\<rparr>"

definition gy_suites :: "provider \<Rightarrow> gy_suite_desc list" where
  "gy_suites L = [suite_c25519 L, suite_h25519_512 L, suite_c448 L, suite_h448_1024 L]"

definition gy_suite_desc :: "provider \<Rightarrow> u8 \<Rightarrow> gy_suite_desc option" where
  "gy_suite_desc L sid = find (\<lambda>d. suite_id d = sid) (gy_suites L)"

definition gy_suite_f :: "gy_suite_desc \<Rightarrow> bytes" where
  "gy_suite_f desc = replicate (f_len desc) 0xff"

subsection \<open>Counter-mode key derivation\<close>

definition GY_KDF_CTR_MAX_FIXED :: nat where "GY_KDF_CTR_MAX_FIXED = 7"

text \<open>
  The loop of \<open>gy_kdf_ctr_raw\<close>: \<open>rem\<close> is \<open>outlen - done\<close> and the 32-bit counter wraps. A
  \<open>hash_len\<close> of zero, which no row of the table has, ends the recursion.
\<close>

function kdf_ctr_loop :: "gy_suite_desc \<Rightarrow> bytes \<Rightarrow> bytes list \<Rightarrow> u32 \<Rightarrow> nat \<Rightarrow> bytes res" where
  "kdf_ctr_loop desc key fixd counter rem =
     (if rem = 0 \<or> hash_len desc = 0 then Inr []
      else rbind (op_hmac desc key (gy_be32_put counter # fixd)) (\<lambda>block.
        let tk = (if rem < hash_len desc then rem else hash_len desc) in
        rbind (kdf_ctr_loop desc key fixd (counter + 1) (rem - tk)) (\<lambda>rest.
          Inr (take tk block @ rest))))"
  by auto
termination
  by (relation "measure (\<lambda>(_, _, _, _, rem). rem)") (auto split: if_splits)

declare kdf_ctr_loop.simps [simp del]

definition gy_kdf_ctr_raw :: "gy_suite_desc \<Rightarrow> nat \<Rightarrow> bytes \<Rightarrow> bytes list \<Rightarrow> bytes res" where
  "gy_kdf_ctr_raw desc outlen key fixd =
     (if length fixd > GY_KDF_CTR_MAX_FIXED then Inl GY_ERR_ARG
      else if outlen = 0 then Inl GY_ERR_ARG
      else kdf_ctr_loop desc key fixd 1 outlen)"

definition gy_kdf_ctr :: "gy_suite_desc \<Rightarrow> nat \<Rightarrow> bytes \<Rightarrow> bytes \<Rightarrow> bytes \<Rightarrow> bytes res" where
  "gy_kdf_ctr desc outlen key label context =
     (if outlen = 0 \<or> outlen > 255 * hash_len desc then Inl GY_ERR_ARG
      else gy_kdf_ctr_raw desc outlen key
             [label, [0x00], context, gy_be32_put (of_nat (outlen * 8))])"

subsection \<open>PKID and info string\<close>

definition gy_pkid :: "provider \<Rightarrow> u8 \<Rightarrow> bytes \<Rightarrow> u32 res" where
  "gy_pkid L sid encoded_key =
     (case gy_suite_desc L sid of
        None \<Rightarrow> Inl GY_ERR_ARG
      | Some desc \<Rightarrow>
          Inr (gy_be32_get (if hash_len desc = 32 then crypto_hash_sha256 L encoded_key
                            else crypto_hash_sha512 L encoded_key)))"

definition ascii :: "string \<Rightarrow> bytes" where
  "ascii s = map (\<lambda>c. word_of_nat (of_char c)) s"

definition gy_info :: "provider \<Rightarrow> nat \<Rightarrow> u8 \<Rightarrow> string \<Rightarrow> bytes res" where
  "gy_info L cap sid purpose =
     (case gy_suite_desc L sid of
        None \<Rightarrow> Inl GY_ERR_ARG
      | Some desc \<Rightarrow>
          (let nlen = length (suite_name desc); plen = length purpose;
               need = 6 + 1 + 1 + 1 + nlen + 1 + plen in
           if cap < need then Inl GY_ERR_TOOLONG
           else Inr (ascii ''geryon'' @ ascii ''.'' @ ascii ''1'' @ ascii ''.'' @
                     ascii (suite_name desc) @ ascii ''.'' @ ascii purpose)))"

subsection \<open>Facts about the table\<close>

lemmas suite_row_defs = suite_c25519_def suite_h25519_512_def suite_c448_def suite_h448_1024_def

lemma suite_row_ids [simp]:
  "suite_id (suite_c25519 L) = 1" "suite_id (suite_h25519_512 L) = 2"
  "suite_id (suite_c448 L) = 3" "suite_id (suite_h448_1024 L) = 4"
  by (simp_all add: suite_row_defs suite_id_defs)

lemma suite_desc_eq:
  "gy_suite_desc L sid =
     (if sid = 1 then Some (suite_c25519 L) else if sid = 2 then Some (suite_h25519_512 L)
      else if sid = 3 then Some (suite_c448 L) else if sid = 4 then Some (suite_h448_1024 L) else None)"
  unfolding gy_suite_desc_def gy_suites_def by (simp add: eq_commute [of _ sid])

lemma suite_desc_cases:
  assumes "gy_suite_desc L sid = Some d"
  obtains "d = suite_c25519 L" "sid = 1" | "d = suite_h25519_512 L" "sid = 2"
    | "d = suite_c448 L" "sid = 3" | "d = suite_h448_1024 L" "sid = 4"
  using assms unfolding suite_desc_eq by (metis option.distinct(1) option.inject)

lemma suite_desc_id [simp]: "gy_suite_desc L sid = Some d \<Longrightarrow> suite_id d = sid"
  by (auto simp: gy_suite_desc_def find_Some_iff)

lemma suite_desc_lookup [simp]:
  "gy_suite_desc L 1 = Some (suite_c25519 L)" "gy_suite_desc L 2 = Some (suite_h25519_512 L)"
  "gy_suite_desc L 3 = Some (suite_c448 L)" "gy_suite_desc L 4 = Some (suite_h448_1024 L)"
  by (simp_all add: suite_desc_eq)

text \<open>
  What the layers above rely on in a descriptor: sizes that agree, a MAC and a hash of the hash
  length, a key derivation of the requested length. Every row of the table has it.
\<close>

definition suite_ok :: "gy_suite_desc \<Rightarrow> bool" where
  "suite_ok d \<longleftrightarrow>
     (hash_len d = 32 \<or> hash_len d = 64) \<and> curve_pk_len d \<le> 56 \<and>
     curve_type d \<in> {GY_CURVE_TYPE_25519, GY_CURVE_TYPE_448} \<and> unat (curve_type d) = curve_pk_len d \<and>
     (\<forall>k iov. \<exists>m. op_hmac d k iov = Inr m \<and> length m = hash_len d) \<and>
     (\<forall>k iov. \<exists>m. op_hkdf_extract d k iov = Inr m \<and> length m = hash_len d) \<and>
     (\<forall>m. \<exists>h. op_hash d m = Inr h \<and> length h = hash_len d) \<and>
     (\<forall>n prk info. 0 < n \<longrightarrow> n \<le> 255 * hash_len d \<longrightarrow>
        (\<exists>o1. op_hkdf_expand d n prk info = Inr o1 \<and> length o1 = n))"

lemma suite_desc_ok:
  assumes "hash_lengths L" "hkdf_total L" "gy_suite_desc L sid = Some d"
  shows "suite_ok d"
proof -
  have e: "\<exists>o1. crypto_kdf_hkdf_sha256_expand L n i k = Some o1 \<and> length o1 = n" if "n \<le> 255 * 32" for n i k
    using assms(1,2) that unfolding hash_lengths_def hkdf_total_def crypto_kdf_hkdf_sha256_BYTES_MAX_def
    by (metis not_None_eq)
  have f: "\<exists>o1. crypto_kdf_hkdf_sha512_expand L n i k = Some o1 \<and> length o1 = n" if "n \<le> 255 * 64" for n i k
    using assms(1,2) that unfolding hash_lengths_def hkdf_total_def crypto_kdf_hkdf_sha512_BYTES_MAX_def
    by (metis not_None_eq)
  have g: "\<exists>o1. gy_hkdf_sha256_expand L n k i = Inr o1 \<and> length o1 = n" if "0 < n" "n \<le> 255 * 32" for n i k
    using e [of n i k] that
    by (auto simp: gy_hkdf_sha256_expand_def crypto_kdf_hkdf_sha256_BYTES_MAX_def)
  have h: "\<exists>o1. gy_hkdf_sha512_expand L n k i = Inr o1 \<and> length o1 = n" if "0 < n" "n \<le> 255 * 64" for n i k
    using f [of n i k] that
    by (auto simp: gy_hkdf_sha512_expand_def crypto_kdf_hkdf_sha512_BYTES_MAX_def)
  have l: "length (crypto_auth_hmacsha256 L k m) = 32" "length (crypto_auth_hmacsha512 L k m) = 64"
      "length (crypto_hash_sha256 L m) = 32" "length (crypto_hash_sha512 L m) = 64" for k m
    using assms(1) by (simp_all add: hash_lengths_def)
  from assms(3) show ?thesis
    by (cases rule: suite_desc_cases)
      (use g h l in \<open>simp_all add: suite_ok_def suite_row_defs wire_const_defs
         gy_hkdf_sha256_extract_iov_def gy_hkdf_sha512_extract_iov_def gy_sha256_def gy_sha512_def\<close>)
qed

lemma suite_ok_hash_pos: "suite_ok d \<Longrightarrow> 0 < hash_len d"
  by (auto simp: suite_ok_def)

lemma suite_ok_hmac: "suite_ok d \<Longrightarrow> \<exists>m. op_hmac d k iov = Inr m \<and> length m = hash_len d"
  by (simp add: suite_ok_def)

lemma suite_ok_expand:
  "suite_ok d \<Longrightarrow> 0 < n \<Longrightarrow> n \<le> 255 * hash_len d \<Longrightarrow>
     \<exists>o1. op_hkdf_expand d n prk info = Inr o1 \<and> length o1 = n"
  by (simp add: suite_ok_def)

lemma suite_ok_extract:
  "suite_ok d \<Longrightarrow> \<exists>m. op_hkdf_extract d k iov = Inr m \<and> length m = hash_len d"
  by (simp add: suite_ok_def)

subsection \<open>Counter mode produces exactly the requested bytes\<close>

lemma kdf_ctr_loop_total:
  assumes "suite_ok d"
  shows "\<exists>o1. kdf_ctr_loop d key fixd c n = Inr o1 \<and> length o1 = n"
proof (induction n arbitrary: c rule: less_induct)
  case (less n)
  show ?case
  proof (cases "n = 0")
    case True
    then show ?thesis by (simp add: kdf_ctr_loop.simps)
  next
    case False
    obtain m where m: "op_hmac d key (gy_be32_put c # fixd) = Inr m" "length m = hash_len d"
      using suite_ok_hmac [OF assms] by blast
    let ?t = "if n < hash_len d then n else hash_len d"
    have t: "0 < ?t" "?t \<le> n" "?t \<le> length m"
      using False suite_ok_hash_pos [OF assms] m(2) by auto
    then obtain rest where "kdf_ctr_loop d key fixd (c + 1) (n - ?t) = Inr rest" "length rest = n - ?t"
      using less.IH [of "n - ?t" "c + 1"] by force
    then show ?thesis
      using m t False suite_ok_hash_pos [OF assms]
      by (subst kdf_ctr_loop.simps) (simp add: Let_def)
  qed
qed

lemma kdf_ctr_total:
  assumes "suite_ok d" "0 < n" "n \<le> 255 * hash_len d"
  shows "\<exists>o1. gy_kdf_ctr d n key label ctx = Inr o1 \<and> length o1 = n"
  using assms kdf_ctr_loop_total [OF assms(1)]
  by (simp add: gy_kdf_ctr_def gy_kdf_ctr_raw_def GY_KDF_CTR_MAX_FIXED_def)

text \<open>The reference: block \<open>i\<close> is the MAC over counter \<open>i\<close> and the fixed input, for \<open>i = 1, 2, \<dots>\<close>.\<close>

definition kdf_ctr_block :: "gy_suite_desc \<Rightarrow> bytes \<Rightarrow> bytes list \<Rightarrow> nat \<Rightarrow> bytes" where
  "kdf_ctr_block d key fixd i =
     (case op_hmac d key (gy_be32_put (of_nat i) # fixd) of Inl _ \<Rightarrow> [] | Inr b \<Rightarrow> b)"

lemma kdf_ctr_loop_blocks:
  assumes "suite_ok d" "n \<le> m * hash_len d"
  shows "kdf_ctr_loop d key fixd (of_nat i) n =
     Inr (take n (concat (map (kdf_ctr_block d key fixd) [i..<i + m])))"
  using assms(2)
proof (induction m arbitrary: i n)
  case 0
  then show ?case by (simp add: kdf_ctr_loop.simps)
next
  case (Suc m)
  show ?case
  proof (cases "n = 0")
    case True
    then show ?thesis by (simp add: kdf_ctr_loop.simps)
  next
    case False
    obtain b where b: "op_hmac d key (gy_be32_put (of_nat i) # fixd) = Inr b" "length b = hash_len d"
      using suite_ok_hmac [OF assms(1)] by blast
    let ?t = "if n < hash_len d then n else hash_len d"
    have "n - ?t \<le> m * hash_len d" using Suc.prems by auto
    from Suc.IH [OF this, of "Suc i"]
    have ih: "kdf_ctr_loop d key fixd (of_nat i + 1) (n - ?t) =
        Inr (take (n - ?t) (concat (map (kdf_ctr_block d key fixd) [Suc i..<i + Suc m])))"
      by (simp add: add.commute)
    have "[i..<i + Suc m] = i # [Suc i..<i + Suc m]" by (simp add: upt_conv_Cons)
    then show ?thesis
      using b False ih suite_ok_hash_pos [OF assms(1)]
      by (subst kdf_ctr_loop.simps) (auto simp: Let_def kdf_ctr_block_def)
  qed
qed

subsection \<open>Info strings separate domains\<close>

lemma ascii_append [simp]: "ascii (a @ b) = ascii a @ ascii b"
  by (simp add: ascii_def)

lemma length_ascii [simp]: "length (ascii s) = length s"
  by (simp add: ascii_def)

lemma ascii_char_inj: "word_of_nat (of_char c) = (word_of_nat (of_char c') :: u8) \<longleftrightarrow> c = c'"
proof
  assume "word_of_nat (of_char c) = (word_of_nat (of_char c') :: u8)"
  then have "unat (word_of_nat (of_char c) :: u8) = unat (word_of_nat (of_char c') :: u8)" by simp
  moreover have "of_char x < (256 :: nat)" for x by simp
  ultimately have "(of_char c :: nat) = of_char c'" by (simp add: unat_of_nat)
  then show "c = c'" by simp
qed simp

lemma ascii_inj: "ascii a = ascii b \<longleftrightarrow> a = b"
proof
  assume "ascii a = ascii b"
  then show "a = b"
    unfolding ascii_def by (subst (asm) inj_map_eq_map) (auto simp: inj_on_def ascii_char_inj)
qed simp

lemma info_ok:
  "gy_info L cap sid p = Inr i \<longleftrightarrow>
     (\<exists>d. gy_suite_desc L sid = Some d \<and> 10 + length (suite_name d) + length p \<le> cap \<and>
        i = ascii (''geryon.1.'' @ suite_name d @ ''.'' @ p))"
  by (auto simp: gy_info_def Let_def ascii_def split: option.splits if_splits)

lemma info_total:
  "gy_suite_desc L sid = Some d \<Longrightarrow> 10 + length (suite_name d) + length p \<le> cap \<Longrightarrow>
     \<exists>i. gy_info L cap sid p = Inr i"
  by (auto simp: info_ok)

lemma suite_name_len: "gy_suite_desc L sid = Some d \<Longrightarrow> length (suite_name d) \<le> 10"
  by (erule suite_desc_cases) (simp_all add: suite_row_defs)

lemma split_at_dot:
  "n @ CHR ''.'' # p = n' @ CHR ''.'' # p' \<Longrightarrow> CHR ''.'' \<notin> set n \<Longrightarrow> CHR ''.'' \<notin> set n' \<Longrightarrow>
     n = n' \<and> p = p'"
proof (induction n arbitrary: n')
  case Nil
  then show ?case by (cases n') auto
next
  case (Cons a n)
  then show ?case by (cases n') auto
qed

lemma suite_name_no_dot: "gy_suite_desc L sid = Some d \<Longrightarrow> CHR ''.'' \<notin> set (suite_name d)"
  by (erule suite_desc_cases) (simp_all add: suite_row_defs)

lemma suite_name_inj:
  assumes "gy_suite_desc L sid = Some d" "gy_suite_desc L' sid' = Some d'"
    and "suite_name d = suite_name d'"
  shows "sid = sid'"
  using assms(1)
  by (cases rule: suite_desc_cases; use assms(2) in \<open>cases rule: suite_desc_cases\<close>;
      use assms(3) in \<open>simp add: suite_row_defs\<close>)

subsection \<open>Properties\<close>

text \<open>
  Counter-mode derivation. For every suite row and every length in range the derivation
  succeeds, and its output is the prefix of that length of the blocks
  MAC(key, i || label || 0 || context || bit length) for i = 1, 2, \<dots>; the 32-bit counter does not
  wrap in between.
\<close>

lemma kdf_ctr_matches_reference:
  assumes "suite_ok d" "0 < n" "n \<le> 255 * hash_len d"
  shows "gy_kdf_ctr d n key label ctx =
     Inr (take n (concat (map (kdf_ctr_block d key
       [label, [0], ctx, gy_be32_put (of_nat (n * 8))]) [1..<256])))"
  using assms kdf_ctr_loop_blocks [OF assms(1,3), of key _ 1]
  by (simp add: gy_kdf_ctr_def gy_kdf_ctr_raw_def GY_KDF_CTR_MAX_FIXED_def)

text \<open>
  Domain separation. The info string determines the suite and the purpose: two calls that
  produce the same string were made for the same suite identifier and the same purpose, although
  purposes contain the separator.
\<close>

lemma info_injective:
  assumes "gy_info L cap sid p = Inr i" "gy_info L' cap' sid' p' = Inr i"
  shows "sid = sid' \<and> p = p'"
proof -
  obtain d d' where d: "gy_suite_desc L sid = Some d" "i = ascii (''geryon.1.'' @ suite_name d @ ''.'' @ p)"
    and d': "gy_suite_desc L' sid' = Some d'" "i = ascii (''geryon.1.'' @ suite_name d' @ ''.'' @ p')"
    using assms by (auto simp: info_ok)
  have "suite_name d @ CHR ''.'' # p = suite_name d' @ CHR ''.'' # p'"
    using d(2) d'(2) by (simp add: ascii_inj)
  from split_at_dot [OF this suite_name_no_dot [OF d(1)] suite_name_no_dot [OF d'(1)]]
  show ?thesis using suite_name_inj [OF d(1) d'(1)] by simp
qed

end
