(* ===== verification/GY_Header.thy ===== *)
theory GY_Header
  imports GY_Suite
begin

text \<open>
  The message headers of \<^verbatim>\<open>src/ratchet/header.c\<close>: the classical layout and the hybrid layout with
  its two flagged optional fields. Encoders take the capacity of the output buffer; decoders return
  the header and the number of bytes consumed. The theorems are the two round trips and that a
  decoder accepts canonical encodings only.
\<close>

definition GY_DR_HEADER_MAX :: nat where "GY_DR_HEADER_MAX = 4 + 56 + 4 + 4"
definition GY_DR_HYBRID_HEADER_MAX :: nat where
  "GY_DR_HYBRID_HEADER_MAX = 4 + 56 + 1568 + 4 + 4 + 1568 + 1568"
definition GY_DR_FLAG_CURVE_MASK :: u32 where "GY_DR_FLAG_CURVE_MASK = 0x000000ff"
definition GY_DR_FLAG_MLKEM_EK_PRESENT :: u32 where "GY_DR_FLAG_MLKEM_EK_PRESENT = push_bit 8 1"
definition GY_DR_FLAG_CONFIRM_CT_PRESENT :: u32 where "GY_DR_FLAG_CONFIRM_CT_PRESENT = push_bit 9 1"
definition GY_DR_FLAG_NONCURVE_MASK :: u32 where "GY_DR_FLAG_NONCURVE_MASK = 0xffffff00"
definition GY_DR_FLAG_RESERVED_MASK :: u32 where "GY_DR_FLAG_RESERVED_MASK = 0xfffffc00"

lemmas dr_flag_defs = GY_DR_FLAG_CURVE_MASK_def GY_DR_FLAG_MLKEM_EK_PRESENT_def
  GY_DR_FLAG_CONFIRM_CT_PRESENT_def GY_DR_FLAG_NONCURVE_MASK_def GY_DR_FLAG_RESERVED_MASK_def

record gy_dr_header =
  hdr_flags :: u32
  hdr_ratchet_pk :: bytes
  hdr_pn :: u32
  hdr_n :: u32

record gy_dr_hybrid_header =
  hh_flags :: u32
  hh_ratchet_pk :: bytes
  hh_kem_ct :: bytes
  hh_pn :: u32
  hh_n :: u32
  hh_mlkem_ek :: bytes
  hh_confirm_ct :: bytes

subsection \<open>Classical header\<close>

definition gy_dr_header_encode :: "gy_suite_desc \<Rightarrow> gy_dr_header \<Rightarrow> nat \<Rightarrow> bytes res" where
  "gy_dr_header_encode desc h cap =
     (let cpl = curve_pk_len desc; need = 4 + cpl + 4 + 4 in
      if cap < need then Inl GY_ERR_ARG
      else Inr (gy_be32_put (hdr_flags h) @ take cpl (hdr_ratchet_pk h) @
                gy_be32_put (hdr_pn h) @ gy_be32_put (hdr_n h)))"

definition gy_dr_header_decode :: "gy_suite_desc \<Rightarrow> bytes \<Rightarrow> (gy_dr_header \<times> nat) res" where
  "gy_dr_header_decode desc buf =
     (let cpl = curve_pk_len desc; need = 4 + cpl + 4 + 4 in
      if length buf < need then Inl GY_ERR_ARG
      else
        let flags = gy_be32_get buf in
        if flags AND GY_DR_FLAG_CURVE_MASK \<noteq> ucast (curve_type desc) then Inl GY_ERR_STATE
        else if flags AND GY_DR_FLAG_NONCURVE_MASK \<noteq> 0 then Inl GY_ERR_ARG
        else Inr (\<lparr>hdr_flags = flags, hdr_ratchet_pk = take cpl (drop 4 buf),
                   hdr_pn = gy_be32_get (drop (4 + cpl) buf),
                   hdr_n = gy_be32_get (drop (8 + cpl) buf)\<rparr>, need))"

subsection \<open>Hybrid header\<close>

definition gy_dr_hybrid_header_len :: "gy_suite_desc \<Rightarrow> bool \<Rightarrow> bool \<Rightarrow> nat" where
  "gy_dr_hybrid_header_len desc ek_present confirm_present =
     (if \<not> is_hybrid desc then 0
      else 4 + curve_pk_len desc + kem_ct_len desc + 4 + 4 +
           (if ek_present then kem_pk_len desc else 0) +
           (if confirm_present then kem_ct_len desc else 0))"

definition ek_present :: "u32 \<Rightarrow> bool" where
  "ek_present flags \<longleftrightarrow> flags AND GY_DR_FLAG_MLKEM_EK_PRESENT \<noteq> 0"

definition confirm_present :: "u32 \<Rightarrow> bool" where
  "confirm_present flags \<longleftrightarrow> flags AND GY_DR_FLAG_CONFIRM_CT_PRESENT \<noteq> 0"

definition gy_dr_hybrid_header_encode :: "gy_suite_desc \<Rightarrow> gy_dr_hybrid_header \<Rightarrow> nat \<Rightarrow> bytes res" where
  "gy_dr_hybrid_header_encode desc h cap =
     (let cpl = curve_pk_len desc; ctl = kem_ct_len desc; ekl = kem_pk_len desc;
          ekp = ek_present (hh_flags h); cfp = confirm_present (hh_flags h) in
      if cap < 4 + cpl + ctl + 4 + 4 + (if ekp then ekl else 0) + (if cfp then ctl else 0)
      then Inl GY_ERR_ARG
      else Inr (gy_be32_put (hh_flags h) @ take cpl (hh_ratchet_pk h) @ take ctl (hh_kem_ct h) @
                gy_be32_put (hh_pn h) @ gy_be32_put (hh_n h) @
                (if ekp then take ekl (hh_mlkem_ek h) else []) @
                (if cfp then take ctl (hh_confirm_ct h) else [])))"

definition gy_dr_hybrid_header_decode ::
    "gy_suite_desc \<Rightarrow> bytes \<Rightarrow> (gy_dr_hybrid_header \<times> nat) res" where
  "gy_dr_hybrid_header_decode desc buf =
     (let cpl = curve_pk_len desc; ctl = kem_ct_len desc; ekl = kem_pk_len desc in
      if length buf < 4 then Inl GY_ERR_ARG
      else
        let flags = gy_be32_get buf in
        if flags AND GY_DR_FLAG_CURVE_MASK \<noteq> ucast (curve_type desc) then Inl GY_ERR_STATE
        else if flags AND GY_DR_FLAG_RESERVED_MASK \<noteq> 0 then Inl GY_ERR_ARG
        else
          let ekp = ek_present flags; cfp = confirm_present flags;
              need = 4 + cpl + ctl + 4 + 4 + (if ekp then ekl else 0) + (if cfp then ctl else 0) in
          if length buf < need then Inl GY_ERR_ARG
          else
            let pos = 4 + cpl + ctl + 4 + 4;
                pos2 = pos + (if ekp then ekl else 0)
            in Inr (\<lparr>hh_flags = flags, hh_ratchet_pk = take cpl (drop 4 buf),
                     hh_kem_ct = take ctl (drop (4 + cpl) buf),
                     hh_pn = gy_be32_get (drop (4 + cpl + ctl) buf),
                     hh_n = gy_be32_get (drop (4 + cpl + ctl + 4) buf),
                     hh_mlkem_ek = (if ekp then take ekl (drop pos buf) else []),
                     hh_confirm_ct = (if cfp then take ctl (drop pos2 buf) else [])\<rparr>,
                    pos2 + (if cfp then ctl else 0)))"

subsection \<open>Well-formed headers\<close>

definition header_wf :: "gy_suite_desc \<Rightarrow> gy_dr_header \<Rightarrow> bool" where
  "header_wf desc h \<longleftrightarrow>
     hdr_flags h = ucast (curve_type desc) \<and> length (hdr_ratchet_pk h) = curve_pk_len desc"

definition hybrid_header_wf :: "gy_suite_desc \<Rightarrow> gy_dr_hybrid_header \<Rightarrow> bool" where
  "hybrid_header_wf desc h \<longleftrightarrow>
     hh_flags h AND GY_DR_FLAG_CURVE_MASK = ucast (curve_type desc) \<and>
     hh_flags h AND GY_DR_FLAG_RESERVED_MASK = 0 \<and>
     length (hh_ratchet_pk h) = curve_pk_len desc \<and> length (hh_kem_ct h) = kem_ct_len desc \<and>
     length (hh_mlkem_ek h) = (if ek_present (hh_flags h) then kem_pk_len desc else 0) \<and>
     length (hh_confirm_ct h) = (if confirm_present (hh_flags h) then kem_ct_len desc else 0)"

lemma flag_masks_as_masks:
  "GY_DR_FLAG_CURVE_MASK = mask 8" "GY_DR_FLAG_NONCURVE_MASK = NOT (mask 8)"
  "GY_DR_FLAG_RESERVED_MASK = NOT (mask 10)"
  by (simp_all add: dr_flag_defs mask_eq_exp_minus_1)

lemma curve_flags_masks [simp]:
  "ucast (ct :: u8) AND GY_DR_FLAG_CURVE_MASK = ucast ct"
  "ucast (ct :: u8) AND GY_DR_FLAG_NONCURVE_MASK = 0"
  unfolding flag_masks_as_masks
  by (rule bit_word_eqI, auto simp: bit_and_iff bit_unsigned_iff bit_mask_iff bit_not_iff
      dest: bit_imp_le_length)+

lemma curve_flags_exact:
  assumes "f AND GY_DR_FLAG_CURVE_MASK = ucast ct" "f AND GY_DR_FLAG_NONCURVE_MASK = 0"
  shows "f = ucast (ct :: u8)"
proof -
  have "f = (f AND mask 8) OR (f AND NOT (mask 8))"
    by (rule bit_word_eqI) (auto simp: bit_and_iff bit_or_iff bit_not_iff)
  with assms show ?thesis by (simp add: flag_masks_as_masks)
qed

subsection \<open>Round trips\<close>

lemma header_encode_ok:
  "header_wf desc h \<Longrightarrow> gy_dr_header_encode desc h cap = Inr e \<Longrightarrow>
     length e = 12 + curve_pk_len desc"
  by (auto simp: gy_dr_header_encode_def header_wf_def Let_def split: if_splits)

lemma header_decode_encode_append:
  assumes "header_wf desc h" "gy_dr_header_encode desc h cap = Inr e"
  shows "gy_dr_header_decode desc (e @ rest) = Inr (h, length e)"
proof -
  have e: "e = gy_be32_put (hdr_flags h) @ hdr_ratchet_pk h @ gy_be32_put (hdr_pn h) @ gy_be32_put (hdr_n h)"
    using assms by (auto simp: gy_dr_header_encode_def header_wf_def Let_def split: if_splits)
  have l: "length (hdr_ratchet_pk h) = curve_pk_len desc" using assms(1) by (simp add: header_wf_def)
  have d8: "drop (8 + curve_pk_len desc) (e @ rest) = gy_be32_put (hdr_n h) @ rest"
    by (simp add: e l)
  show ?thesis
    unfolding gy_dr_header_decode_def Let_def d8
    using assms(1) l by (simp add: e header_wf_def)
qed

lemma header_decode_wf:
  assumes "gy_dr_header_decode desc buf = Inr (h, c)"
  shows "header_wf desc h" "c = 12 + curve_pk_len desc" "c \<le> length buf"
  using assms curve_flags_exact [of "gy_be32_get buf" "curve_type desc"]
  by (auto simp: gy_dr_header_decode_def header_wf_def Let_def split: if_splits)

lemma header_encode_decode:
  assumes "gy_dr_header_decode desc buf = Inr (h, c)" "c \<le> cap"
  shows "gy_dr_header_encode desc h cap = Inr (take c buf)"
proof -
  let ?l = "curve_pk_len desc"
  have c: "c = 4 + (?l + (4 + 4))" and len: "4 + (?l + (4 + 4)) \<le> length buf"
    using header_decode_wf [OF assms(1)] by simp_all
  have h: "h = \<lparr>hdr_flags = gy_be32_get buf, hdr_ratchet_pk = take ?l (drop 4 buf),
      hdr_pn = gy_be32_get (drop (4 + ?l) buf), hdr_n = gy_be32_get (drop (8 + ?l) buf)\<rparr>"
    using assms(1) by (auto simp: gy_dr_header_decode_def Let_def split: if_splits)
  have "take c buf = take 4 buf @ take ?l (drop 4 buf) @ take 4 (drop (4 + ?l) buf) @ take 4 (drop (8 + ?l) buf)"
    unfolding c take_add by (simp add: add.commute add.left_commute)
  then show ?thesis
    using len assms(2) by (simp add: gy_dr_header_encode_def h c Let_def be32_put_get)
qed

lemma hybrid_header_encode_bytes:
  assumes "hybrid_header_wf desc h" "gy_dr_hybrid_header_encode desc h cap = Inr e"
  shows "e = gy_be32_put (hh_flags h) @ hh_ratchet_pk h @ hh_kem_ct h @ gy_be32_put (hh_pn h) @
     gy_be32_put (hh_n h) @ hh_mlkem_ek h @ hh_confirm_ct h"
  using assms by (auto simp: gy_dr_hybrid_header_encode_def hybrid_header_wf_def Let_def split: if_splits)

lemma hybrid_header_encode_len:
  assumes "hybrid_header_wf desc h" "gy_dr_hybrid_header_encode desc h cap = Inr e" "is_hybrid desc"
  shows "length e = gy_dr_hybrid_header_len desc (ek_present (hh_flags h)) (confirm_present (hh_flags h))"
  using hybrid_header_encode_bytes [OF assms(1,2)] assms(1,3)
  by (simp add: hybrid_header_wf_def gy_dr_hybrid_header_len_def)

lemma hybrid_header_decode_encode_append:
  assumes "hybrid_header_wf desc h" "gy_dr_hybrid_header_encode desc h cap = Inr e"
  shows "gy_dr_hybrid_header_decode desc (e @ rest) = Inr (h, length e)"
proof -
  note e = hybrid_header_encode_bytes [OF assms]
  note w = assms(1) [unfolded hybrid_header_wf_def]
  let ?p = "curve_pk_len desc" and ?c = "kem_ct_len desc"
  have d: "drop 4 (e @ rest) = hh_ratchet_pk h @ hh_kem_ct h @ gy_be32_put (hh_pn h) @
        gy_be32_put (hh_n h) @ hh_mlkem_ek h @ hh_confirm_ct h @ rest"
    by (simp add: e)
  have d1: "drop (4 + ?p) (e @ rest) = hh_kem_ct h @ gy_be32_put (hh_pn h) @
        gy_be32_put (hh_n h) @ hh_mlkem_ek h @ hh_confirm_ct h @ rest"
    using w by (simp add: e)
  have d2: "drop (4 + ?p + ?c) (e @ rest) =
        gy_be32_put (hh_pn h) @ gy_be32_put (hh_n h) @ hh_mlkem_ek h @ hh_confirm_ct h @ rest"
    using w by (simp add: e)
  have d3: "drop (4 + ?p + ?c + 4) (e @ rest) =
        gy_be32_put (hh_n h) @ hh_mlkem_ek h @ hh_confirm_ct h @ rest"
    using w by (simp add: e)
  have d4: "drop (4 + ?p + ?c + 4 + 4) (e @ rest) = hh_mlkem_ek h @ hh_confirm_ct h @ rest"
    using w by (simp add: e)
  have d5: "drop (4 + ?p + ?c + 4 + 4 + length (hh_mlkem_ek h)) (e @ rest) = hh_confirm_ct h @ rest"
    using w by (simp add: e)
  have g: "gy_be32_get (e @ rest) = hh_flags h" by (simp add: e)
  have len: "length e = 4 + ?p + ?c + 4 + 4 + length (hh_mlkem_ek h) + length (hh_confirm_ct h)"
    using w by (simp add: e)
  show ?thesis
    unfolding gy_dr_hybrid_header_decode_def Let_def g d d1 d2 d3 d4
    using w len d5 by (cases "ek_present (hh_flags h)"; cases "confirm_present (hh_flags h)") simp_all
qed

lemma hybrid_header_decode_wf:
  assumes "gy_dr_hybrid_header_decode desc buf = Inr (h, c)"
  shows "hybrid_header_wf desc h" "c \<le> length buf"
  using assms
  by (auto simp: gy_dr_hybrid_header_decode_def hybrid_header_wf_def Let_def split: if_splits)

lemma hybrid_header_encode_decode:
  assumes "gy_dr_hybrid_header_decode desc buf = Inr (h, c)" "c \<le> cap"
  shows "gy_dr_hybrid_header_encode desc h cap = Inr (take c buf)"
proof -
  let ?p = "curve_pk_len desc" and ?c = "kem_ct_len desc" and ?k = "kem_pk_len desc"
  define e where "e = (if ek_present (gy_be32_get buf) then ?k else 0)"
  define f where "f = (if confirm_present (gy_be32_get buf) then ?c else 0)"
  have len: "4 + ?p + ?c + 4 + 4 + e + f \<le> length buf"
    using assms(1) by (auto simp: gy_dr_hybrid_header_decode_def e_def f_def Let_def split: if_splits)
  have c: "c = 4 + (?p + (?c + (4 + (4 + (e + f)))))"
    and h: "h = \<lparr>hh_flags = gy_be32_get buf, hh_ratchet_pk = take ?p (drop 4 buf),
      hh_kem_ct = take ?c (drop (4 + ?p) buf), hh_pn = gy_be32_get (drop (4 + ?p + ?c) buf),
      hh_n = gy_be32_get (drop (4 + ?p + ?c + 4) buf),
      hh_mlkem_ek = take e (drop (4 + ?p + ?c + 4 + 4) buf),
      hh_confirm_ct = take f (drop (4 + ?p + ?c + 4 + 4 + e) buf)\<rparr>"
    using assms(1)
    by (auto simp: gy_dr_hybrid_header_decode_def e_def f_def Let_def split: if_splits)
  have t: "take c buf = take 4 buf @ take ?p (drop 4 buf) @ take ?c (drop (4 + ?p) buf) @
      take 4 (drop (4 + ?p + ?c) buf) @ take 4 (drop (4 + ?p + ?c + 4) buf) @
      take e (drop (4 + ?p + ?c + 4 + 4) buf) @ take f (drop (4 + ?p + ?c + 4 + 4 + e) buf)"
    unfolding c take_add drop_drop by (simp add: ac_simps)
  have w: "hybrid_header_wf desc h" using hybrid_header_decode_wf assms(1) by blast
  have "\<exists>b. gy_dr_hybrid_header_encode desc h cap = Inr b"
    using assms(2) by (simp add: gy_dr_hybrid_header_encode_def h c e_def f_def Let_def)
  then obtain b where b: "gy_dr_hybrid_header_encode desc h cap = Inr b" ..
  have "b = take c buf"
    unfolding hybrid_header_encode_bytes [OF w b] t using len by (simp add: h be32_put_get)
  with b show ?thesis by simp
qed

subsection \<open>Properties\<close>

text \<open>
  Classical header. Decoding an encoded well-formed header, whatever follows it, gives the
  header back and consumes exactly its bytes.
\<close>

theorem dr_header_roundtrip:
  assumes "header_wf desc h" "gy_dr_header_encode desc h cap = Inr e"
  shows "gy_dr_header_decode desc (e @ rest) = Inr (h, length e)"
  by (rule header_decode_encode_append [OF assms])

text \<open>
  Hybrid header. Decoding inverts encoding in all four combinations of the optional fields, and
  the encoded length is the one that the length function promises for them.
\<close>

lemma hybrid_header_roundtrip:
  assumes "hybrid_header_wf desc h" "is_hybrid desc" "gy_dr_hybrid_header_encode desc h cap = Inr e"
  shows "gy_dr_hybrid_header_decode desc (e @ rest) = Inr (h, length e) \<and>
     length e = gy_dr_hybrid_header_len desc (ek_present (hh_flags h)) (confirm_present (hh_flags h))"
  using hybrid_header_decode_encode_append [OF assms(1,3)] hybrid_header_encode_len [OF assms(1,3,2)]
  by simp

end
