(* ===== verification/GY_SkipStore.thy ===== *)
theory GY_SkipStore
  imports GY_Header
begin

text \<open>
  The skipped-message-key store and the ratchet key derivations of \<^verbatim>\<open>src/ratchet/dr_common.c\<close>.
  The compacted entry array with its \<open>count\<close> is a list; the epoch table is a list of exactly
  \<open>GY_MAX_SKIP\<close> slots, never compacted, in which a slot is live while its reference count is
  positive. \<open>store_inv\<close> is the invariant the comments of the header file promise: reference counts
  are the number of entries of the slot, live header keys are distinct, dead slots are wiped.

  The abstract view is the list of (header key, number, age, message key) tuples, a bounded
  first-in first-out queue; \<open>skip_contract\<close> states what the ratchet engines use of it and is
  interpreted on the store.
\<close>

subsection \<open>Constants and data\<close>

definition GY_DR_KEY_LEN :: nat where "GY_DR_KEY_LEN = 32"
definition GY_DR_INFO_MAX :: nat where "GY_DR_INFO_MAX = 48"
definition GY_DR_RK_OUT_LEN :: nat where "GY_DR_RK_OUT_LEN = 96"
definition GY_MAX_SKIP :: nat where "GY_MAX_SKIP = 1000"
definition GY_SKIP_AGE_LIMIT :: u64 where "GY_SKIP_AGE_LIMIT = 1000"

record gy_skipped_key =
  sk_epoch :: nat
  sk_n :: u32
  sk_age :: u64
  sk_mk :: bytes

record gy_skip_epoch =
  ep_hk :: bytes
  ep_refs :: nat

record gy_skip_store =
  ss_ent :: "gy_skipped_key list"
  ss_epochs :: "gy_skip_epoch list"
  ss_recv_count :: u64

abbreviation zero_key :: bytes where "zero_key \<equiv> replicate 32 0"

definition zero_epoch :: gy_skip_epoch where
  "zero_epoch = \<lparr>ep_hk = zero_key, ep_refs = 0\<rparr>"

definition empty_store :: gy_skip_store where
  "empty_store = \<lparr>ss_ent = [], ss_epochs = replicate GY_MAX_SKIP zero_epoch, ss_recv_count = 0\<rparr>"

subsection \<open>Key derivations\<close>

definition gy_drc_kdf_rk ::
    "provider \<Rightarrow> gy_suite_desc \<Rightarrow> bytes \<Rightarrow> bytes \<Rightarrow> (bytes \<times> bytes \<times> bytes) res" where
  "gy_drc_kdf_rk L desc rk ikm =
     rbind (op_hkdf_extract desc rk [ikm]) (\<lambda>prk.
     rbind (gy_info L GY_DR_INFO_MAX (suite_id desc) ''dr.root'') (\<lambda>info.
     rbind (op_hkdf_expand desc GY_DR_RK_OUT_LEN prk info) (\<lambda>okm.
       Inr (take 32 okm, take 32 (drop 32 okm), take 32 (drop 64 okm)))))"

definition kdf_ck_one :: "provider \<Rightarrow> gy_suite_desc \<Rightarrow> bytes \<Rightarrow> string \<Rightarrow> bytes res" where
  "kdf_ck_one L desc ck purpose =
     rbind (gy_info L GY_DR_INFO_MAX (suite_id desc) purpose) (\<lambda>info.
       gy_kdf_ctr desc 32 ck info [])"

definition gy_drc_kdf_ck :: "provider \<Rightarrow> gy_suite_desc \<Rightarrow> bytes \<Rightarrow> (bytes \<times> bytes) res" where
  "gy_drc_kdf_ck L desc ck =
     rbind (kdf_ck_one L desc ck ''dr.msg'') (\<lambda>mk.
     rbind (kdf_ck_one L desc ck ''dr.chain'') (\<lambda>ck_next. Inr (mk, ck_next)))"

definition gy_drc_derive_aead ::
    "provider \<Rightarrow> gy_suite_desc \<Rightarrow> bytes \<Rightarrow> u8 \<Rightarrow> u32 \<Rightarrow> (bytes \<times> bytes) res" where
  "gy_drc_derive_aead L desc mk aead_id n =
     (let nl = gy_aead_nonce_len aead_id in
      if nl = 0 then Inl GY_ERR_UNSUPPORTED
      else
        rbind (gy_info L GY_DR_INFO_MAX (suite_id desc) ''dr.aead'') (\<lambda>info.
        rbind (gy_kdf_ctr desc (32 + nl) mk info (aead_id # gy_be32_put n)) (\<lambda>buf.
          Inr (take 32 buf, take nl (drop 32 buf)))))"

subsection \<open>Store operations\<close>

definition epoch_unref :: "gy_skip_store \<Rightarrow> nat \<Rightarrow> gy_skip_store" where
  "epoch_unref s ep =
     (let e = ss_epochs s ! ep in
      if ep_refs e > 0 then
        (if ep_refs e - 1 = 0 then s\<lparr>ss_epochs := (ss_epochs s)[ep := zero_epoch]\<rparr>
         else s\<lparr>ss_epochs := (ss_epochs s)[ep := e\<lparr>ep_refs := ep_refs e - 1\<rparr>]\<rparr>)
      else s)"

definition gy_drc_store_remove :: "gy_skip_store \<Rightarrow> nat \<Rightarrow> gy_skip_store" where
  "gy_drc_store_remove s idx =
     (let s1 = epoch_unref s (sk_epoch (ss_ent s ! idx)) in
      s1\<lparr>ss_ent := take idx (ss_ent s1) @ drop (Suc idx) (ss_ent s1)\<rparr>)"

text \<open>The scan of \<open>epoch_intern\<close>: index, first free slot so far (\<open>GY_MAX_SKIP\<close> when none), rest.\<close>

fun epoch_scan :: "nat \<Rightarrow> nat \<Rightarrow> gy_skip_epoch list \<Rightarrow> bytes \<Rightarrow> nat + nat" where
  "epoch_scan i free_slot [] hk = Inr free_slot"
| "epoch_scan i free_slot (e # es) hk =
     (if ep_refs e = 0 then
        (if free_slot = GY_MAX_SKIP then epoch_scan (Suc i) i es hk
         else epoch_scan (Suc i) free_slot es hk)
      else if ep_hk e = hk then Inl i
      else epoch_scan (Suc i) free_slot es hk)"

definition epoch_intern :: "gy_skip_store \<Rightarrow> bytes \<Rightarrow> gy_skip_store \<times> nat" where
  "epoch_intern s hk =
     (case epoch_scan 0 GY_MAX_SKIP (ss_epochs s) hk of
        Inl i \<Rightarrow> (s, i)
      | Inr free_slot \<Rightarrow>
          (s\<lparr>ss_epochs := (ss_epochs s)[free_slot := (ss_epochs s ! free_slot)\<lparr>ep_hk := hk\<rparr>]\<rparr>,
           free_slot))"

definition store_insert :: "gy_skip_store \<Rightarrow> bytes \<Rightarrow> u32 \<Rightarrow> bytes \<Rightarrow> gy_skip_store" where
  "store_insert s hk n mk =
     (let s0 = (if length (ss_ent s) = GY_MAX_SKIP then gy_drc_store_remove s 0 else s);
          (s1, ep) = epoch_intern s0 hk;
          e = \<lparr>sk_epoch = ep, sk_n = n, sk_age = ss_recv_count s1, sk_mk = mk\<rparr>;
          r = ss_epochs s1 ! ep
      in s1\<lparr>ss_ent := ss_ent s1 @ [e],
            ss_epochs := (ss_epochs s1)[ep := r\<lparr>ep_refs := ep_refs r + 1\<rparr>]\<rparr>)"

function post_success_loop :: "gy_skip_store \<Rightarrow> nat \<Rightarrow> gy_skip_store" where
  "post_success_loop s i =
     (if i < length (ss_ent s) then
        (if ss_recv_count s - sk_age (ss_ent s ! i) \<ge> GY_SKIP_AGE_LIMIT
         then post_success_loop (gy_drc_store_remove s i) i
         else post_success_loop s (Suc i))
      else s)"
  by auto
termination
  by (relation "measure (\<lambda>(s, i). length (ss_ent s) - i)")
    (auto simp: gy_drc_store_remove_def epoch_unref_def Let_def)

declare post_success_loop.simps [simp del]

definition gy_drc_store_post_success :: "gy_skip_store \<Rightarrow> gy_skip_store" where
  "gy_drc_store_post_success s =
     post_success_loop (s\<lparr>ss_recv_count := ss_recv_count s + 1\<rparr>) 0"

text \<open>
  The receiving chain advance. The C function updates the store, the chain key and the counter in
  place and stops at the first failing derivation, so all three are returned with the status.
\<close>

function gy_drc_skip_forward ::
    "provider \<Rightarrow> gy_suite_desc \<Rightarrow> gy_skip_store \<Rightarrow> bytes \<Rightarrow> u32 \<Rightarrow> u32 \<Rightarrow> bytes
      \<Rightarrow> unit res \<times> gy_skip_store \<times> bytes \<times> u32" where
  "gy_drc_skip_forward L desc store ck nr to hk =
     (if nr < to then
        (case gy_drc_kdf_ck L desc ck of
           Inl e \<Rightarrow> (Inl e, store, ck, nr)
         | Inr (mk, ckn) \<Rightarrow>
             gy_drc_skip_forward L desc (store_insert store hk nr mk) ckn (nr + 1) to hk)
      else (Inr (), store, ck, nr))"
  by auto
termination
  by (relation "measure (\<lambda>(_, _, _, _, nr, to, _). unat to - unat nr)") (auto intro: word_countdown)

declare gy_drc_skip_forward.simps [simp del]

subsection \<open>Invariant and abstract view\<close>

definition refs_of :: "gy_skipped_key list \<Rightarrow> nat \<Rightarrow> nat" where
  "refs_of es i = length (filter (\<lambda>e. sk_epoch e = i) es)"

definition store_inv :: "gy_skip_store \<Rightarrow> bool" where
  "store_inv s \<longleftrightarrow>
     length (ss_epochs s) = GY_MAX_SKIP \<and> length (ss_ent s) \<le> GY_MAX_SKIP \<and>
     (\<forall>e \<in> set (ss_ent s). sk_epoch e < GY_MAX_SKIP) \<and>
     (\<forall>i < GY_MAX_SKIP. ep_refs (ss_epochs s ! i) = refs_of (ss_ent s) i) \<and>
     (\<forall>i < GY_MAX_SKIP. ep_refs (ss_epochs s ! i) = 0 \<longrightarrow> ss_epochs s ! i = zero_epoch) \<and>
     (\<forall>i < GY_MAX_SKIP. \<forall>j < GY_MAX_SKIP. ep_refs (ss_epochs s ! i) > 0 \<longrightarrow>
        ep_refs (ss_epochs s ! j) > 0 \<longrightarrow> ep_hk (ss_epochs s ! i) = ep_hk (ss_epochs s ! j) \<longrightarrow> i = j)"

type_synonym skip_item = "bytes \<times> u32 \<times> u64 \<times> bytes"

definition item_of :: "gy_skip_epoch list \<Rightarrow> gy_skipped_key \<Rightarrow> skip_item" where
  "item_of eps e = (ep_hk (eps ! sk_epoch e), sk_n e, sk_age e, sk_mk e)"

definition store_abs :: "gy_skip_store \<Rightarrow> skip_item list" where
  "store_abs s = map (item_of (ss_epochs s)) (ss_ent s)"

text \<open>The abstract queue: push evicts the oldest item at capacity; deletion is by position.\<close>

definition fifo_push :: "nat \<Rightarrow> 'a list \<Rightarrow> 'a \<Rightarrow> 'a list" where
  "fifo_push cap q x = (if length q = cap then tl q else q) @ [x]"

definition del_at :: "nat \<Rightarrow> 'a list \<Rightarrow> 'a list" where
  "del_at i xs = take i xs @ drop (Suc i) xs"

lemma length_store_abs [simp]: "length (store_abs s) = length (ss_ent s)"
  by (simp add: store_abs_def)

lemma length_del_at [simp]: "i < length xs \<Longrightarrow> length (del_at i xs) = length xs - 1"
  by (simp add: del_at_def)

lemma set_del_at: "set (del_at i xs) \<subseteq> set xs"
  by (auto simp: del_at_def dest: in_set_takeD in_set_dropD)

lemma del_at_0: "del_at 0 xs = tl xs"
  by (simp add: del_at_def drop_Suc)

lemma map_del_at: "map f (del_at i xs) = del_at i (map f xs)"
  by (simp add: del_at_def take_map drop_map)

lemma refs_of_append [simp]: "refs_of (a @ b) i = refs_of a i + refs_of b i"
  by (simp add: refs_of_def)

lemma refs_of_Cons [simp]: "refs_of (e # b) i = (if sk_epoch e = i then 1 else 0) + refs_of b i"
  by (simp add: refs_of_def)

lemma refs_of_Nil [simp]: "refs_of [] i = 0"
  by (simp add: refs_of_def)

lemma refs_of_mem: "e \<in> set es \<Longrightarrow> 0 < refs_of es (sk_epoch e)"
  by (auto simp: refs_of_def filter_empty_conv)

lemma refs_of_del_at:
  assumes "i < length es"
  shows "refs_of es k = (if sk_epoch (es ! i) = k then 1 else 0) + refs_of (del_at i es) k"
proof -
  have "refs_of es k = refs_of (take i es @ es ! i # drop (Suc i) es) k"
    using nth_take_drop_Cons [OF assms] by simp
  then show ?thesis by (simp add: del_at_def)
qed

lemma store_inv_live_unique:
  "store_inv s \<Longrightarrow> i < GY_MAX_SKIP \<Longrightarrow> j < GY_MAX_SKIP \<Longrightarrow> 0 < ep_refs (ss_epochs s ! i) \<Longrightarrow>
     0 < ep_refs (ss_epochs s ! j) \<Longrightarrow> ep_hk (ss_epochs s ! i) = ep_hk (ss_epochs s ! j) \<Longrightarrow> i = j"
  by (simp add: store_inv_def)

lemma store_invI:
  assumes "length (ss_epochs s) = GY_MAX_SKIP" "length (ss_ent s) \<le> GY_MAX_SKIP"
    and "\<And>e. e \<in> set (ss_ent s) \<Longrightarrow> sk_epoch e < GY_MAX_SKIP"
    and "\<And>i. i < GY_MAX_SKIP \<Longrightarrow> ep_refs (ss_epochs s ! i) = refs_of (ss_ent s) i"
    and "\<And>i. i < GY_MAX_SKIP \<Longrightarrow> ep_refs (ss_epochs s ! i) = 0 \<Longrightarrow> ss_epochs s ! i = zero_epoch"
    and "\<And>i j. i < GY_MAX_SKIP \<Longrightarrow> j < GY_MAX_SKIP \<Longrightarrow> 0 < ep_refs (ss_epochs s ! i) \<Longrightarrow>
       0 < ep_refs (ss_epochs s ! j) \<Longrightarrow> ep_hk (ss_epochs s ! i) = ep_hk (ss_epochs s ! j) \<Longrightarrow> i = j"
  shows "store_inv s"
  using assms by (simp add: store_inv_def)

lemma store_inv_empty: "store_inv empty_store"
  by (simp add: store_inv_def empty_store_def zero_epoch_def)

lemma store_abs_empty [simp]: "store_abs empty_store = []"
  by (simp add: store_abs_def empty_store_def)

subsection \<open>Removal\<close>

lemma unref_ent [simp]: "ss_ent (epoch_unref s ep) = ss_ent s"
    "ss_recv_count (epoch_unref s ep) = ss_recv_count s"
    "length (ss_epochs (epoch_unref s ep)) = length (ss_epochs s)"
  by (simp_all add: epoch_unref_def Let_def)

lemma remove_fields:
  "ss_ent (gy_drc_store_remove s i) = del_at i (ss_ent s)"
  "ss_epochs (gy_drc_store_remove s i) = ss_epochs (epoch_unref s (sk_epoch (ss_ent s ! i)))"
  "ss_recv_count (gy_drc_store_remove s i) = ss_recv_count s"
  by (simp_all add: gy_drc_store_remove_def Let_def del_at_def)

lemma unref_nth:
  assumes "ep < length (ss_epochs s)" "0 < ep_refs (ss_epochs s ! ep)"
  shows "ss_epochs (epoch_unref s ep) ! i =
     (if i = ep then (if ep_refs (ss_epochs s ! ep) = 1 then zero_epoch
        else (ss_epochs s ! ep)\<lparr>ep_refs := ep_refs (ss_epochs s ! ep) - 1\<rparr>)
      else ss_epochs s ! i)"
  using assms by (simp add: epoch_unref_def Let_def)

lemma remove_inv_abs:
  assumes inv: "store_inv s" and i: "i < length (ss_ent s)"
  shows "store_inv (gy_drc_store_remove s i)"
    and "store_abs (gy_drc_store_remove s i) = del_at i (store_abs s)"
proof -
  let ?ep = "sk_epoch (ss_ent s ! i)"
  let ?s = "gy_drc_store_remove s i"
  have ep: "?ep < GY_MAX_SKIP" "?ep < length (ss_epochs s)"
    using inv i by (auto simp: store_inv_def)
  have pos: "0 < ep_refs (ss_epochs s ! ?ep)"
    using inv i ep(1) refs_of_mem [of "ss_ent s ! i" "ss_ent s"] by (auto simp: store_inv_def)
  note nth = unref_nth [OF ep(2) pos]
  have refs: "ep_refs (ss_epochs ?s ! k) = refs_of (ss_ent ?s) k" if "k < GY_MAX_SKIP" for k
    using inv that refs_of_del_at [OF i, of k]
    by (auto simp: remove_fields nth store_inv_def zero_epoch_def)
  have hk: "ep_hk (ss_epochs ?s ! k) = ep_hk (ss_epochs s ! k)"
    if "0 < ep_refs (ss_epochs ?s ! k)" for k
    using that by (auto simp: remove_fields nth zero_epoch_def split: if_splits)
  have live: "0 < ep_refs (ss_epochs s ! k)" if "0 < ep_refs (ss_epochs ?s ! k)" for k
    using that pos by (auto simp: remove_fields nth zero_epoch_def split: if_splits)
  have dead: "ss_epochs ?s ! k = zero_epoch" if "k < GY_MAX_SKIP" "ep_refs (ss_epochs ?s ! k) = 0" for k
    using that inv pos by (auto simp: remove_fields nth store_inv_def split: if_splits)
  have sub: "set (ss_ent ?s) \<subseteq> set (ss_ent s)" by (simp add: remove_fields set_del_at)
  show "store_inv ?s"
    using inv i refs dead hk live sub unfolding store_inv_def
    by (auto simp: remove_fields(1) remove_fields(2) remove_fields(3) simp del: One_nat_def)
  have "item_of (ss_epochs ?s) e = item_of (ss_epochs s) e" if "e \<in> set (ss_ent ?s)" for e
  proof -
    have "sk_epoch e < GY_MAX_SKIP" using that sub inv by (auto simp: store_inv_def)
    then show ?thesis
      using hk [of "sk_epoch e"] refs refs_of_mem [OF that] by (simp add: item_of_def)
  qed
  then have "store_abs ?s = map (item_of (ss_epochs s)) (ss_ent ?s)" by (simp add: store_abs_def)
  then show "store_abs ?s = del_at i (store_abs s)"
    by (simp add: store_abs_def remove_fields(1) map_del_at)
qed

subsection \<open>Interning a header key\<close>

lemma epoch_scan_found:
  "epoch_scan i f es hk = Inl k \<Longrightarrow>
     i \<le> k \<and> k < i + length es \<and> 0 < ep_refs (es ! (k - i)) \<and> ep_hk (es ! (k - i)) = hk"
proof (induction i f es hk rule: epoch_scan.induct)
  case (1 i f hk)
  then show ?case by simp
next
  case (2 i f e es hk)
  have step: "i \<le> k \<and> k < i + length (e # es) \<and> 0 < ep_refs ((e # es) ! (k - i)) \<and> ep_hk ((e # es) ! (k - i)) = hk"
    if "Suc i \<le> k \<and> k < Suc i + length es \<and> 0 < ep_refs (es ! (k - Suc i)) \<and> ep_hk (es ! (k - Suc i)) = hk"
    using that by (auto simp: nth_Cons' Suc_diff_Suc)
  show ?case
    using 2 step by (auto split: if_splits)
qed

lemma epoch_scan_absent:
  "epoch_scan i f es hk = Inr k \<Longrightarrow> j < length es \<Longrightarrow> 0 < ep_refs (es ! j) \<Longrightarrow> ep_hk (es ! j) \<noteq> hk"
proof (induction i f es hk arbitrary: j rule: epoch_scan.induct)
  case (1 i f hk)
  then show ?case by simp
next
  case (2 i f e es hk)
  then show ?case by (cases j) (auto split: if_splits)
qed

lemma epoch_scan_free:
  "epoch_scan i f es hk = Inr k \<Longrightarrow> i + length es \<le> GY_MAX_SKIP \<Longrightarrow>
     (if f \<noteq> GY_MAX_SKIP then k = f
      else (k = GY_MAX_SKIP \<and> (\<forall>j < length es. 0 < ep_refs (es ! j))) \<or>
           (i \<le> k \<and> k < i + length es \<and> ep_refs (es ! (k - i)) = 0))"
proof (induction i f es hk rule: epoch_scan.induct)
  case (1 i f hk)
  then show ?case by auto
next
  case (2 i f e es hk)
  have i: "i \<noteq> GY_MAX_SKIP" using "2.prems" by simp
  have all: "\<forall>j < length (e # es). 0 < ep_refs ((e # es) ! j)"
    if "0 < ep_refs e" "\<forall>j < length es. 0 < ep_refs (es ! j)"
    using that by (auto simp: nth_Cons')
  have shift: "(e # es) ! (k - i) = es ! (k - Suc i)" if "Suc i \<le> k"
    using that by (simp add: nth_Cons' Suc_diff_Suc)
  show ?case
  proof (cases "ep_refs e = 0")
    case True
    then show ?thesis using 2 i by (auto split: if_splits)
  next
    case False
    then show ?thesis using 2 all shift by (auto split: if_splits) (metis less_irrefl)+
  qed
qed

text \<open>Counting: the live slots hold the entries, so a store below capacity has a dead slot.\<close>

lemma store_inv_sum_refs:
  assumes "store_inv s"
  shows "(\<Sum>i<GY_MAX_SKIP. ep_refs (ss_epochs s ! i)) = length (ss_ent s)"
proof -
  have "(\<Sum>i<GY_MAX_SKIP. ep_refs (ss_epochs s ! i)) = (\<Sum>i<GY_MAX_SKIP. refs_of (ss_ent s) i)"
    using assms by (intro sum.cong) (auto simp: store_inv_def)
  also have "\<dots> = length (filter (\<lambda>e. sk_epoch e < GY_MAX_SKIP) (ss_ent s))"
    unfolding refs_of_def by (rule sum_indicator_filter)
  also have "\<dots> = length (ss_ent s)"
    using assms by (subst filter_True) (auto simp: store_inv_def)
  finally show ?thesis .
qed

lemma store_free_slot_exists:
  assumes "store_inv s" "length (ss_ent s) < GY_MAX_SKIP"
  shows "\<exists>i < GY_MAX_SKIP. ep_refs (ss_epochs s ! i) = 0"
proof (rule ccontr)
  assume "\<not> ?thesis"
  then have "(\<Sum>i<GY_MAX_SKIP. 1) \<le> (\<Sum>i<GY_MAX_SKIP. ep_refs (ss_epochs s ! i))"
    by (intro sum_mono) (auto simp: Suc_le_eq)
  with assms store_inv_sum_refs [OF assms(1)] show False by simp
qed

lemma epoch_scan_slot:
  assumes "store_inv s" "length (ss_ent s) < GY_MAX_SKIP"
  shows "(\<exists>k. epoch_scan 0 GY_MAX_SKIP (ss_epochs s) hk = Inl k \<and> k < GY_MAX_SKIP \<and>
            0 < ep_refs (ss_epochs s ! k) \<and> ep_hk (ss_epochs s ! k) = hk) \<or>
         (\<exists>k. epoch_scan 0 GY_MAX_SKIP (ss_epochs s) hk = Inr k \<and> k < GY_MAX_SKIP \<and>
            ss_epochs s ! k = zero_epoch \<and>
            (\<forall>j < GY_MAX_SKIP. 0 < ep_refs (ss_epochs s ! j) \<longrightarrow> ep_hk (ss_epochs s ! j) \<noteq> hk))"
proof (cases "epoch_scan 0 GY_MAX_SKIP (ss_epochs s) hk")
  case (Inl k)
  with epoch_scan_found [OF Inl] assms(1) show ?thesis by (auto simp: store_inv_def)
next
  case (Inr k)
  have len: "length (ss_epochs s) = GY_MAX_SKIP" using assms(1) by (simp add: store_inv_def)
  have "\<exists>i < GY_MAX_SKIP. ep_refs (ss_epochs s ! i) = 0" by (rule store_free_slot_exists [OF assms])
  then have "k < GY_MAX_SKIP" "ep_refs (ss_epochs s ! k) = 0"
    using epoch_scan_free [OF Inr] len by auto
  moreover have "ss_epochs s ! k = zero_epoch"
    using calculation assms(1) by (simp add: store_inv_def)
  ultimately show ?thesis using Inr epoch_scan_absent [OF Inr] len by auto
qed

lemma intern_spec:
  assumes inv: "store_inv s" and room: "length (ss_ent s) < GY_MAX_SKIP"
  obtains s' ep where "epoch_intern s hk = (s', ep)" "ep < GY_MAX_SKIP"
    "ss_ent s' = ss_ent s" "ss_recv_count s' = ss_recv_count s"
    "ss_epochs s' = (ss_epochs s)[ep := \<lparr>ep_hk = hk, ep_refs = refs_of (ss_ent s) ep\<rparr>]"
    "\<forall>j < GY_MAX_SKIP. 0 < ep_refs (ss_epochs s ! j) \<longrightarrow> ep_hk (ss_epochs s ! j) = hk \<longrightarrow> j = ep"
    "0 < refs_of (ss_ent s) ep \<longrightarrow> ep_hk (ss_epochs s ! ep) = hk"
  using epoch_scan_slot [OF inv room, of hk]
proof (elim disjE exE conjE)
  fix k assume k: "epoch_scan 0 GY_MAX_SKIP (ss_epochs s) hk = Inl k" "k < GY_MAX_SKIP"
    "0 < ep_refs (ss_epochs s ! k)" "ep_hk (ss_epochs s ! k) = hk"
  have r: "\<lparr>ep_hk = hk, ep_refs = refs_of (ss_ent s) k\<rparr> = ss_epochs s ! k"
    using k inv by (auto simp: store_inv_def intro: gy_skip_epoch.equality)
  show thesis
  proof (rule that [of s k])
    show "epoch_intern s hk = (s, k)" by (simp add: epoch_intern_def k(1))
    show "ss_epochs s = (ss_epochs s)[k := \<lparr>ep_hk = hk, ep_refs = refs_of (ss_ent s) k\<rparr>]"
      by (simp only: r list_update_id)
    show "\<forall>j < GY_MAX_SKIP. 0 < ep_refs (ss_epochs s ! j) \<longrightarrow> ep_hk (ss_epochs s ! j) = hk \<longrightarrow> j = k"
      using store_inv_live_unique [OF inv] k by blast
  qed (simp_all add: k)
next
  fix k assume k: "epoch_scan 0 GY_MAX_SKIP (ss_epochs s) hk = Inr k" "k < GY_MAX_SKIP"
    "ss_epochs s ! k = zero_epoch"
    "\<forall>j < GY_MAX_SKIP. 0 < ep_refs (ss_epochs s ! j) \<longrightarrow> ep_hk (ss_epochs s ! j) \<noteq> hk"
  have "ep_refs (ss_epochs s ! k) = refs_of (ss_ent s) k"
    using inv k(2) by (simp add: store_inv_def)
  then have "refs_of (ss_ent s) k = 0" using k(3) by (simp add: zero_epoch_def)
  then show thesis
    using k by (intro that [of "s\<lparr>ss_epochs := (ss_epochs s)[k := \<lparr>ep_hk = hk, ep_refs = 0\<rparr>]\<rparr>" k])
      (simp_all add: epoch_intern_def zero_epoch_def)
qed

subsection \<open>Insertion\<close>

lemma insert_room_inv_abs:
  assumes inv: "store_inv s" and room: "length (ss_ent s) < GY_MAX_SKIP"
  shows "store_inv (store_insert s hk n mk)"
    and "store_abs (store_insert s hk n mk) = store_abs s @ [(hk, n, ss_recv_count s, mk)]"
    and "ss_recv_count (store_insert s hk n mk) = ss_recv_count s"
proof -
  obtain s' ep where i: "epoch_intern s hk = (s', ep)" "ep < GY_MAX_SKIP"
      "ss_ent s' = ss_ent s" "ss_recv_count s' = ss_recv_count s"
      "ss_epochs s' = (ss_epochs s)[ep := \<lparr>ep_hk = hk, ep_refs = refs_of (ss_ent s) ep\<rparr>]"
      "\<forall>j < GY_MAX_SKIP. 0 < ep_refs (ss_epochs s ! j) \<longrightarrow> ep_hk (ss_epochs s ! j) = hk \<longrightarrow> j = ep"
      "0 < refs_of (ss_ent s) ep \<longrightarrow> ep_hk (ss_epochs s ! ep) = hk"
    by (rule intern_spec [OF inv room])
  let ?e = "\<lparr>sk_epoch = ep, sk_n = n, sk_age = ss_recv_count s, sk_mk = mk\<rparr>"
  let ?r = "\<lparr>ep_hk = hk, ep_refs = refs_of (ss_ent s) ep + 1\<rparr>"
  let ?t = "store_insert s hk n mk"
  have len: "length (ss_epochs s) = GY_MAX_SKIP" using inv by (simp add: store_inv_def)
  have f: "ss_ent ?t = ss_ent s @ [?e]" "ss_epochs ?t = (ss_epochs s)[ep := ?r]"
      "ss_recv_count ?t = ss_recv_count s"
    using i room len by (simp_all add: store_insert_def Let_def)
  show "ss_recv_count ?t = ss_recv_count s" by (rule f)
  have nth: "ss_epochs ?t ! k = (if k = ep then ?r else ss_epochs s ! k)" for k
    using i(2) len by (simp add: f)
  have refs: "ep_refs (ss_epochs s ! k) = refs_of (ss_ent s) k" if "k < GY_MAX_SKIP" for k
    using inv that by (simp add: store_inv_def)
  show "store_inv ?t"
  proof (rule store_invI)
    show "length (ss_epochs ?t) = GY_MAX_SKIP" "length (ss_ent ?t) \<le> GY_MAX_SKIP"
      using len room by (simp_all add: f)
    show "sk_epoch e < GY_MAX_SKIP" if "e \<in> set (ss_ent ?t)" for e
      using that inv i(2) by (auto simp: f(1) store_inv_def)
    show "ep_refs (ss_epochs ?t ! k) = refs_of (ss_ent ?t) k" if "k < GY_MAX_SKIP" for k
      using refs [OF that] by (simp add: nth f(1))
    show "ss_epochs ?t ! k = zero_epoch" if "k < GY_MAX_SKIP" "ep_refs (ss_epochs ?t ! k) = 0" for k
      using that inv by (simp add: nth store_inv_def split: if_splits)
    show "k = l" if "k < GY_MAX_SKIP" "l < GY_MAX_SKIP" "0 < ep_refs (ss_epochs ?t ! k)"
        "0 < ep_refs (ss_epochs ?t ! l)" "ep_hk (ss_epochs ?t ! k) = ep_hk (ss_epochs ?t ! l)" for k l
    proof (cases "k = ep \<or> l = ep")
      case True
      moreover have "m = ep" if "m < GY_MAX_SKIP" "0 < ep_refs (ss_epochs ?t ! m)"
          "ep_hk (ss_epochs ?t ! m) = hk" for m
      proof (cases "m = ep")
        case False
        then show ?thesis using that i(6) unfolding nth if_not_P [OF False] by blast
      qed
      moreover have "ep_hk (ss_epochs ?t ! ep) = hk" by (simp add: nth)
      ultimately show ?thesis using that by metis
    next
      case False
      then show ?thesis using that by (intro store_inv_live_unique [OF inv]) (simp_all add: nth)
    qed
  qed
  have "item_of (ss_epochs ?t) e = item_of (ss_epochs s) e" if "e \<in> set (ss_ent s)" for e
    using refs_of_mem [OF that] i(7) nth by (auto simp: item_of_def)
  then show "store_abs ?t = store_abs s @ [(hk, n, ss_recv_count s, mk)]"
    by (simp add: store_abs_def f(1) item_of_def [of _ ?e] nth)
qed

lemma insert_inv_abs:
  assumes inv: "store_inv s"
  shows "store_inv (store_insert s hk n mk)"
    and "store_abs (store_insert s hk n mk) =
           fifo_push GY_MAX_SKIP (store_abs s) (hk, n, ss_recv_count s, mk)"
    and "ss_recv_count (store_insert s hk n mk) = ss_recv_count s"
proof -
  let ?t = "if length (ss_ent s) = GY_MAX_SKIP then gy_drc_store_remove s 0 else s"
  have pos: "0 < GY_MAX_SKIP" by (simp add: GY_MAX_SKIP_def)
  have le: "length (ss_ent s) \<le> GY_MAX_SKIP" using inv by (simp add: store_inv_def)
  have ne: "0 < length (ss_ent s)" if "length (ss_ent s) = GY_MAX_SKIP" using that pos by simp
  have r: "store_inv (gy_drc_store_remove s 0)" if "length (ss_ent s) = GY_MAX_SKIP"
    using remove_inv_abs(1) [OF inv ne [OF that]] .
  have t: "store_inv ?t" "length (ss_ent ?t) < GY_MAX_SKIP" "ss_recv_count ?t = ss_recv_count s"
    using inv le pos r by (simp_all add: remove_fields del_at_0)
  have a: "store_abs ?t = (if length (store_abs s) = GY_MAX_SKIP then tl (store_abs s) else store_abs s)"
    using remove_inv_abs(2) [OF inv ne] by (simp add: del_at_0)
  have "store_insert s hk n mk = store_insert ?t hk n mk"
    using t(2) by (simp add: store_insert_def)
  then show "store_inv (store_insert s hk n mk)"
    "store_abs (store_insert s hk n mk) = fifo_push GY_MAX_SKIP (store_abs s) (hk, n, ss_recv_count s, mk)"
    "ss_recv_count (store_insert s hk n mk) = ss_recv_count s"
    using insert_room_inv_abs [OF t(1,2), of hk n mk] t(3) a by (simp_all add: fifo_push_def)
qed

subsection \<open>Aging\<close>

definition item_fresh :: "u64 \<Rightarrow> skip_item \<Rightarrow> bool" where
  "item_fresh clock = (\<lambda>(hk, n, age, mk). \<not> clock - age \<ge> GY_SKIP_AGE_LIMIT)"

lemma store_abs_nth: "i < length (ss_ent s) \<Longrightarrow> store_abs s ! i = item_of (ss_epochs s) (ss_ent s ! i)"
  by (simp add: store_abs_def)

lemma filter_drop_del_at:
  assumes "i < length xs"
  shows "take i (del_at i xs) = take i xs" "drop i (del_at i xs) = drop (Suc i) xs"
    "drop i xs = xs ! i # drop (Suc i) xs"
  using assms by (simp_all add: del_at_def Cons_nth_drop_Suc)

lemma post_success_loop_spec:
  "store_inv s \<Longrightarrow> i \<le> length (ss_ent s) \<Longrightarrow>
     store_inv (post_success_loop s i) \<and>
     ss_recv_count (post_success_loop s i) = ss_recv_count s \<and>
     store_abs (post_success_loop s i) =
       take i (store_abs s) @ filter (item_fresh (ss_recv_count s)) (drop i (store_abs s))"
proof (induction s i rule: post_success_loop.induct)
  case (1 s i)
  show ?case
  proof (cases "i < length (ss_ent s)")
    case False
    then show ?thesis using 1 by (simp add: post_success_loop.simps)
  next
    case True
    note d = filter_drop_del_at [of i "store_abs s", simplified, OF True]
    have fr: "item_fresh (ss_recv_count s) (store_abs s ! i) \<longleftrightarrow>
        \<not> ss_recv_count s - sk_age (ss_ent s ! i) \<ge> GY_SKIP_AGE_LIMIT"
      using True by (simp add: store_abs_nth item_fresh_def item_of_def)
    show ?thesis
    proof (cases "ss_recv_count s - sk_age (ss_ent s ! i) \<ge> GY_SKIP_AGE_LIMIT")
      case age: True
      have "i \<le> length (ss_ent (gy_drc_store_remove s i))"
        using True by (simp add: remove_fields)
      then show ?thesis
        using "1.IH"(1) [OF True age remove_inv_abs(1) [OF "1.prems"(1) True]] True age fr
        by (subst (1 2 3) post_success_loop.simps)
          (simp add: remove_fields remove_inv_abs(2) [OF "1.prems"(1) True] d)
    next
      case age: False
      have "take (Suc i) (store_abs s) = take i (store_abs s) @ [store_abs s ! i]"
        using True by (simp add: take_Suc_conv_app_nth)
      then show ?thesis
        using "1.IH"(2) [OF True age "1.prems"(1)] True age fr
        by (subst (1 2 3) post_success_loop.simps) (simp add: d)
    qed
  qed
qed

lemma store_inv_recv_count [simp]: "store_inv (s\<lparr>ss_recv_count := c\<rparr>) = store_inv s"
    "store_abs (s\<lparr>ss_recv_count := c\<rparr>) = store_abs s"
  by (simp_all add: store_inv_def store_abs_def)

lemma post_success_inv_abs:
  assumes "store_inv s"
  shows "store_inv (gy_drc_store_post_success s)"
    and "ss_recv_count (gy_drc_store_post_success s) = ss_recv_count s + 1"
    and "store_abs (gy_drc_store_post_success s) =
           filter (item_fresh (ss_recv_count s + 1)) (store_abs s)"
  using post_success_loop_spec [of "s\<lparr>ss_recv_count := ss_recv_count s + 1\<rparr>" 0] assms
  by (simp_all add: gy_drc_store_post_success_def)

subsection \<open>Advancing a receiving chain\<close>

text \<open>The reference: \<open>k\<close> steps of the symmetric ratchet, with the message keys they yield.\<close>

fun chain_run :: "provider \<Rightarrow> gy_suite_desc \<Rightarrow> nat \<Rightarrow> bytes \<Rightarrow> (bytes list \<times> bytes) res" where
  "chain_run L desc 0 ck = Inr ([], ck)"
| "chain_run L desc (Suc k) ck =
     rbind (gy_drc_kdf_ck L desc ck) (\<lambda>(mk, ckn).
     rbind (chain_run L desc k ckn) (\<lambda>(mks, ck'). Inr (mk # mks, ck')))"

fun skip_items :: "bytes \<Rightarrow> u32 \<Rightarrow> u64 \<Rightarrow> bytes list \<Rightarrow> skip_item list" where
  "skip_items hk nr age [] = []"
| "skip_items hk nr age (mk # mks) = (hk, nr, age, mk) # skip_items hk (nr + 1) age mks"

lemma length_skip_items [simp]: "length (skip_items hk nr age mks) = length mks"
  by (induction mks arbitrary: nr) auto

lemma chain_run_length: "chain_run L desc k ck = Inr (mks, ck') \<Longrightarrow> length mks = k"
  by (induction k arbitrary: ck mks ck') (auto simp: rbind_eq_Inr_iff)

lemma fifo_pushes:
  assumes "0 < cap" "length q \<le> cap"
  shows "foldl (fifo_push cap) q xs = drop (length q + length xs - cap) (q @ xs)"
  using assms(2)
proof (induction xs arbitrary: q)
  case Nil
  then show ?case by simp
next
  case (Cons x xs)
  show ?case
  proof (cases "length q = cap")
    case True
    have "foldl (fifo_push cap) q (x # xs) = foldl (fifo_push cap) (tl q @ [x]) xs"
      using True by (simp add: fifo_push_def)
    also have "\<dots> = drop (length xs) (tl q @ x # xs)"
      using True assms(1) Cons.IH [of "tl q @ [x]"] by simp
    also have "\<dots> = drop (Suc (length xs)) (q @ x # xs)"
      using True assms(1) by (cases q) auto
    finally show ?thesis using True by simp
  next
    case False
    then have "length (q @ [x]) \<le> cap" using Cons.prems by simp
    then show ?thesis using Cons.IH [of "q @ [x]"] False by (simp add: fifo_push_def)
  qed
qed

lemma fifo_pushes_bound:
  assumes "0 < cap" "length q \<le> cap"
  shows "length (foldl (fifo_push cap) q xs) \<le> cap"
  by (simp add: fifo_pushes [OF assms])

lemma skip_forward_spec:
  assumes "store_inv s" "nr \<le> to" "chain_run L desc (unat to - unat nr) ck = Inr (mks, ck')"
  shows "\<exists>s'. gy_drc_skip_forward L desc s ck nr to hk = (Inr (), s', ck', to) \<and> store_inv s' \<and>
     ss_recv_count s' = ss_recv_count s \<and>
     store_abs s' = foldl (fifo_push GY_MAX_SKIP) (store_abs s) (skip_items hk nr (ss_recv_count s) mks)"
  using assms
proof (induction "unat to - unat nr" arbitrary: s nr ck mks)
  case 0
  then have "nr = to" by (metis diff_is_0_eq order_antisym word_le_nat_alt)
  then show ?case using 0 by (auto simp: gy_drc_skip_forward.simps [of L desc s _ to to])
next
  case (Suc k)
  then have lt: "nr < to" by (simp add: word_less_nat_alt)
  have k: "k = unat to - unat (nr + 1)" using Suc.hyps(2) lt by (simp add: unat_Suc_less)
  have le: "nr + 1 \<le> to" using lt by (simp add: word_le_nat_alt unat_Suc_less word_less_nat_alt)
  obtain mk ckn mks1 where ck: "gy_drc_kdf_ck L desc ck = Inr (mk, ckn)"
      "chain_run L desc k ckn = Inr (mks1, ck')" "mks = mk # mks1"
    using Suc.prems(3) unfolding Suc.hyps(2) [symmetric] by (auto simp: rbind_eq_Inr_iff)
  note ins = insert_inv_abs [OF Suc.prems(1), of hk nr mk]
  from Suc.hyps(1) [OF k ins(1) le ck(2) [unfolded k]] obtain s' where
    "gy_drc_skip_forward L desc (store_insert s hk nr mk) ckn (nr + 1) to hk = (Inr (), s', ck', to)"
    "store_inv s'" "ss_recv_count s' = ss_recv_count s"
    "store_abs s' = foldl (fifo_push GY_MAX_SKIP) (store_abs (store_insert s hk nr mk))
       (skip_items hk (nr + 1) (ss_recv_count s) mks1)"
    by (auto simp: ins(3))
  then show ?case using lt ck by (simp add: gy_drc_skip_forward.simps [of L desc s ck nr to] ins(2))
qed

lemma skip_forward_inv:
  "store_inv s \<Longrightarrow> gy_drc_skip_forward L desc s ck nr to hk = (rc, s', ck', nr') \<Longrightarrow>
     store_inv s' \<and> ss_recv_count s' = ss_recv_count s"
proof (induction L desc s ck nr to hk rule: gy_drc_skip_forward.induct)
  case (1 L desc store ck nr to hk)
  show ?case
  proof (cases "nr < to")
    case False
    then show ?thesis using 1 by (simp add: gy_drc_skip_forward.simps)
  next
    case True
    show ?thesis
    proof (cases "gy_drc_kdf_ck L desc ck")
      case (Inl e)
      then show ?thesis using 1 True by (simp add: gy_drc_skip_forward.simps)
    next
      case (Inr p)
      obtain mk ckn where p: "p = (mk, ckn)" by (cases p)
      have "gy_drc_skip_forward L desc (store_insert store hk nr mk) ckn (nr + 1) to hk = (rc, s', ck', nr')"
        using "1.prems"(2) True Inr p by (simp add: gy_drc_skip_forward.simps)
      then show ?thesis
        using "1.IH" [OF True Inr p [symmetric]] insert_inv_abs [OF "1.prems"(1), of hk nr mk] by simp
    qed
  qed
qed

subsection \<open>The contract of the store\<close>

text \<open>
  What the ratchet engines may assume of a skipped-key store: an invariant every operation keeps,
  and the effect of each operation on the abstract queue. The engine's bounds follow from it for
  any provider of the contract.
\<close>

locale skip_contract =
  fixes inv :: "'s \<Rightarrow> bool" and abs :: "'s \<Rightarrow> skip_item list" and clock :: "'s \<Rightarrow> u64"
    and insert :: "'s \<Rightarrow> bytes \<Rightarrow> u32 \<Rightarrow> bytes \<Rightarrow> 's" and remove :: "'s \<Rightarrow> nat \<Rightarrow> 's"
    and post :: "'s \<Rightarrow> 's" and cap :: nat
  assumes cap_pos: "0 < cap"
    and abs_bound: "inv s \<Longrightarrow> length (abs s) \<le> cap"
    and insert_inv: "inv s \<Longrightarrow> inv (insert s hk n mk)"
    and insert_abs: "inv s \<Longrightarrow> abs (insert s hk n mk) = fifo_push cap (abs s) (hk, n, clock s, mk)"
    and remove_inv: "inv s \<Longrightarrow> i < length (abs s) \<Longrightarrow> inv (remove s i)"
    and remove_abs: "inv s \<Longrightarrow> i < length (abs s) \<Longrightarrow> abs (remove s i) = del_at i (abs s)"
    and remove_clock: "clock (remove s i) = clock s"
    and post_inv: "inv s \<Longrightarrow> inv (post s)"
    and post_abs: "inv s \<Longrightarrow> abs (post s) = filter (item_fresh (clock s + 1)) (abs s)"
begin

lemma insert_last: "inv s \<Longrightarrow> last (abs (insert s hk n mk)) = (hk, n, clock s, mk)"
  by (simp add: insert_abs fifo_push_def)

lemma insert_keeps_recent:
  "inv s \<Longrightarrow> x \<in> set (tl (abs s)) \<Longrightarrow> x \<in> set (abs (insert s hk n mk))"
  by (cases "abs s") (auto simp: insert_abs fifo_push_def)

lemma consume_abs:
  "inv s \<Longrightarrow> i < length (abs s) \<Longrightarrow>
     abs (post (remove s i)) = filter (item_fresh (clock s + 1)) (del_at i (abs s))"
  by (simp add: post_abs remove_inv remove_abs remove_clock)

lemma consume_gone:
  assumes "inv s" "i < length (abs s)" "distinct (abs s)"
  shows "abs s ! i \<notin> set (abs (post (remove s i)))"
proof -
  have "distinct (take i (abs s) @ abs s ! i # drop (Suc i) (abs s))"
    using assms(2,3) nth_take_drop_Cons by metis
  then show ?thesis by (auto simp: consume_abs [OF assms(1,2)] del_at_def)
qed

lemma consume_subset:
  "inv s \<Longrightarrow> i < length (abs s) \<Longrightarrow> set (abs (post (remove s i))) \<subseteq> set (abs s)"
  using set_del_at by (fastforce simp: consume_abs)

lemma consume_inv: "inv s \<Longrightarrow> i < length (abs s) \<Longrightarrow> inv (post (remove s i))"
  by (simp add: post_inv remove_inv)

end

interpretation skipq: skip_contract store_inv store_abs ss_recv_count store_insert gy_drc_store_remove
  gy_drc_store_post_success GY_MAX_SKIP
  by unfold_locales
    (simp_all add: insert_inv_abs remove_inv_abs post_success_inv_abs remove_fields,
     simp_all add: GY_MAX_SKIP_def store_inv_def)

subsection \<open>The key derivations always succeed on a suite of the table\<close>

definition live_suite :: "provider \<Rightarrow> gy_suite_desc \<Rightarrow> bool" where
  "live_suite L d \<longleftrightarrow> gy_suite_desc L (suite_id d) = Some d \<and> suite_ok d"

lemma live_suite_info:
  assumes "live_suite L d" "length p + 20 \<le> cap"
  shows "\<exists>i. gy_info L cap (suite_id d) p = Inr i"
  using assms suite_name_len [of L "suite_id d" d] unfolding live_suite_def
  by (intro info_total) auto

lemma live_suite_hash: "live_suite L d \<Longrightarrow> hash_len d = 32 \<or> hash_len d = 64"
  by (auto simp: live_suite_def suite_ok_def)

lemma kdf_ck_one_total:
  assumes "live_suite L d" "length p \<le> 28"
  shows "\<exists>k. kdf_ck_one L d ck p = Inr k \<and> length k = 32"
proof -
  obtain i where "gy_info L GY_DR_INFO_MAX (suite_id d) p = Inr i"
    using live_suite_info [OF assms(1)] assms(2) by (fastforce simp: GY_DR_INFO_MAX_def)
  moreover have "\<exists>k. gy_kdf_ctr d 32 ck i [] = Inr k \<and> length k = 32"
    using assms(1) live_suite_hash [OF assms(1)] by (intro kdf_ctr_total) (auto simp: live_suite_def)
  ultimately show ?thesis by (simp add: kdf_ck_one_def)
qed

lemma kdf_ck_total:
  assumes "live_suite L d"
  shows "\<exists>mk ck'. gy_drc_kdf_ck L d ck = Inr (mk, ck') \<and> length mk = 32 \<and> length ck' = 32"
  using kdf_ck_one_total [OF assms, of "''dr.msg''" ck] kdf_ck_one_total [OF assms, of "''dr.chain''" ck]
  by (auto simp: gy_drc_kdf_ck_def)

lemma derive_aead_total:
  assumes "live_suite L d" "aead_prim_of a \<noteq> None"
  shows "\<exists>k n. gy_drc_derive_aead L d mk a i = Inr (k, n) \<and> length k = 32 \<and>
     length n = gy_aead_nonce_len a"
proof -
  have pos: "0 < gy_aead_nonce_len a" using assms(2) by (simp add: aead_len_pos_iff)
  obtain info where info: "gy_info L GY_DR_INFO_MAX (suite_id d) ''dr.aead'' = Inr info"
    using live_suite_info [OF assms(1), of "''dr.aead''" GY_DR_INFO_MAX]
    by (auto simp: GY_DR_INFO_MAX_def)
  have "32 + gy_aead_nonce_len a \<le> 255 * hash_len d"
    using live_suite_hash [OF assms(1)] aead_len_bounds(1) [of a] by (elim disjE) linarith+
  then have "\<exists>b. gy_kdf_ctr d (32 + gy_aead_nonce_len a) mk info (a # gy_be32_put i) = Inr b \<and>
      length b = 32 + gy_aead_nonce_len a"
    using assms(1) by (intro kdf_ctr_total) (auto simp: live_suite_def)
  then show ?thesis using pos info by (auto simp: gy_drc_derive_aead_def Let_def)
qed

lemma kdf_rk_total:
  assumes "live_suite L d"
  shows "\<exists>rk ck nhk. gy_drc_kdf_rk L d rk0 ikm = Inr (rk, ck, nhk) \<and> length rk = 32 \<and>
     length ck = 32 \<and> length nhk = 32"
proof -
  have ok: "suite_ok d" using assms by (simp add: live_suite_def)
  obtain info where info: "gy_info L GY_DR_INFO_MAX (suite_id d) ''dr.root'' = Inr info"
    using live_suite_info [OF assms, of "''dr.root''" GY_DR_INFO_MAX] by (auto simp: GY_DR_INFO_MAX_def)
  obtain prk where prk: "op_hkdf_extract d rk0 [ikm] = Inr prk"
    using suite_ok_extract [OF ok] by blast
  have "\<exists>o1. op_hkdf_expand d 96 prk info = Inr o1 \<and> length o1 = 96"
    using live_suite_hash [OF assms] by (intro suite_ok_expand [OF ok]) auto
  then show ?thesis using info prk by (auto simp: gy_drc_kdf_rk_def GY_DR_RK_OUT_LEN_def)
qed

lemma chain_run_total:
  assumes "live_suite L d"
  shows "\<exists>mks ck'. chain_run L d k ck = Inr (mks, ck')"
proof (induction k arbitrary: ck)
  case 0
  then show ?case by simp
next
  case (Suc k)
  obtain mk ckn where "gy_drc_kdf_ck L d ck = Inr (mk, ckn)" using kdf_ck_total [OF assms] by blast
  then show ?case using Suc [of ckn] by auto
qed

subsection \<open>Properties\<close>


text \<open>
  A free slot always exists. Below capacity, interning a header key yields an index inside the
  epoch table: the sentinel for "no free slot" never reaches the array access.
\<close>

theorem epoch_intern_in_range:
  assumes "store_inv s" "length (ss_ent s) < GY_MAX_SKIP"
  shows "snd (epoch_intern s hk) < GY_MAX_SKIP \<and>
     ep_hk (ss_epochs (fst (epoch_intern s hk)) ! snd (epoch_intern s hk)) = hk"
proof -
  have len: "length (ss_epochs s) = GY_MAX_SKIP" using assms(1) by (simp add: store_inv_def)
  show ?thesis by (rule intern_spec [OF assms, of hk]) (simp add: len)
qed

text \<open>
  Without the invariant it does not: a table whose slots are all live while the entry list is
  empty, as a decoded session blob may contain, makes interning a new header key return the
  sentinel, one past the last slot.
\<close>

theorem epoch_intern_out_of_range:
  "snd (epoch_intern \<lparr>ss_ent = [], ss_epochs = replicate GY_MAX_SKIP \<lparr>ep_hk = [1], ep_refs = 1\<rparr>,
     ss_recv_count = 0\<rparr> [2]) = length (replicate GY_MAX_SKIP \<lparr>ep_hk = [1], ep_refs = 1\<rparr>)"
proof -
  have "epoch_scan i GY_MAX_SKIP (replicate k \<lparr>ep_hk = [1], ep_refs = 1\<rparr>) [2] = Inr GY_MAX_SKIP" for i k
    by (induction k arbitrary: i) simp_all
  then show ?thesis by (simp add: epoch_intern_def)
qed

text \<open>
  Advancing a receiving chain. From number nr to number to the chain key moves exactly that many
  steps of the symmetric ratchet, the derivations do not fail, and the store afterwards holds the
  last 1000 items of what it held followed by the message key of each number passed over.
\<close>

theorem skip_forward_stores_missed:
  assumes "store_inv s" "nr \<le> to" "live_suite L d"
  shows "\<exists>s' mks ck'. gy_drc_skip_forward L d s ck nr to hk = (Inr (), s', ck', to) \<and>
     chain_run L d (unat to - unat nr) ck = Inr (mks, ck') \<and> length mks = unat to - unat nr \<and>
     store_inv s' \<and>
     (let items = store_abs s @ skip_items hk nr (ss_recv_count s) mks in
      store_abs s' = drop (length items - GY_MAX_SKIP) items)"
proof -
  obtain mks ck' where run: "chain_run L d (unat to - unat nr) ck = Inr (mks, ck')"
    using chain_run_total [OF assms(3)] by blast
  with skip_forward_spec [OF assms(1,2) run] chain_run_length [OF run]
    fifo_pushes [OF skipq.cap_pos skipq.abs_bound [OF assms(1)]]
  show ?thesis by (auto simp: Let_def)
qed

end
