(* ===== verification/GY_HeaderEnc.thy ===== *)
theory GY_HeaderEnc
  imports GY_SkipStore
begin

text \<open>
  Header encryption, \<^verbatim>\<open>src/ratchet/he.c\<close>: a fresh 16-byte salt per header, key and nonce derived from
  the header key and the salt, and the AEAD over the encoded header with the frame prefix as
  associated data.
\<close>

definition GY_HE_SALT_LEN :: nat where "GY_HE_SALT_LEN = 16"
definition GY_INFO_MAX :: nat where "GY_INFO_MAX = 48"

definition gen_salt :: "provider \<Rightarrow> bytes rcomp" where
  "gen_salt L r = gy_random_bytes L GY_HE_SALT_LEN r"

definition he_derive :: "provider \<Rightarrow> gy_suite_desc \<Rightarrow> u8 \<Rightarrow> bytes \<Rightarrow> bytes \<Rightarrow> (bytes \<times> bytes) res" where
  "he_derive L desc aead_id hk salt =
     (let nl = gy_aead_nonce_len aead_id in
      if nl = 0 then Inl GY_ERR_UNSUPPORTED
      else
        rbind (gy_info L GY_INFO_MAX (suite_id desc) ''he.aead'') (\<lambda>info.
        rbind (gy_kdf_ctr desc (32 + nl) hk info (aead_id # salt)) (\<lambda>buf.
          Inr (take 32 buf, take nl (drop 32 buf)))))"

definition gy_he_encrypt ::
    "provider \<Rightarrow> gy_suite_desc \<Rightarrow> u8 \<Rightarrow> bytes \<Rightarrow> bytes \<Rightarrow> bytes \<Rightarrow> nat \<Rightarrow> (bytes \<times> bytes) rcomp" where
  "gy_he_encrypt L desc aead_id hk header ad2 cap r =
     (let taglen = gy_aead_tag_len aead_id in
      if taglen = 0 then (Inl GY_ERR_UNSUPPORTED, r)
      else if cap < length header + taglen then (Inl GY_ERR_ARG, r)
      else case gen_salt L r of
          (Inl e, r1) \<Rightarrow> (Inl e, r1)
        | (Inr salt, r1) \<Rightarrow>
            (rbind (he_derive L desc aead_id hk salt) (\<lambda>(key, nonce).
             rbind (gy_aead_encrypt L aead_id cap key nonce ad2 header) (\<lambda>enc.
               Inr (salt, enc))), r1))"

definition gy_he_decrypt ::
    "provider \<Rightarrow> gy_suite_desc \<Rightarrow> u8 \<Rightarrow> bytes \<Rightarrow> bytes \<Rightarrow> bytes \<Rightarrow> bytes \<Rightarrow> nat \<Rightarrow> bytes res" where
  "gy_he_decrypt L desc aead_id hk salt enc ad2 cap =
     (let taglen = gy_aead_tag_len aead_id in
      if taglen = 0 then Inl GY_ERR_UNSUPPORTED
      else if length enc < taglen then Inl GY_ERR_VERIFY
      else rbind (he_derive L desc aead_id hk salt) (\<lambda>(key, nonce).
             gy_aead_decrypt L aead_id cap key nonce ad2 enc))"

lemma he_derive_total:
  assumes "live_suite L d" "aead_prim_of a \<noteq> None"
  shows "\<exists>k n. he_derive L d a hk salt = Inr (k, n) \<and> length k = 32 \<and> length n = gy_aead_nonce_len a"
proof -
  have pos: "0 < gy_aead_nonce_len a" using assms(2) by (simp add: aead_len_pos_iff)
  obtain info where info: "gy_info L GY_INFO_MAX (suite_id d) ''he.aead'' = Inr info"
    using live_suite_info [OF assms(1), of "''he.aead''" GY_INFO_MAX] by (auto simp: GY_INFO_MAX_def)
  have "32 + gy_aead_nonce_len a \<le> 255 * hash_len d"
    using live_suite_hash [OF assms(1)] aead_len_bounds(1) [of a] by (elim disjE) linarith+
  then have "\<exists>b. gy_kdf_ctr d (32 + gy_aead_nonce_len a) hk info (a # salt) = Inr b \<and>
      length b = 32 + gy_aead_nonce_len a"
    using assms(1) by (intro kdf_ctr_total) (auto simp: live_suite_def)
  then show ?thesis using pos info by (auto simp: he_derive_def Let_def)
qed

lemma he_encrypt_ok:
  assumes "gy_he_encrypt L d a hk header ad2 cap r = (Inr (salt, enc), r1)"
  shows "r1 = Suc r" "salt = randombytes_buf L r GY_HE_SALT_LEN"
    "\<exists>key nonce. he_derive L d a hk salt = Inr (key, nonce) \<and>
       gy_aead_encrypt L a cap key nonce ad2 header = Inr enc"
  using assms
  by (auto simp: gy_he_encrypt_def Let_def gen_salt_def gy_random_bytes_def GY_HE_SALT_LEN_def
      rbind_eq_Inr_iff split: if_splits)

lemma he_encrypt_succeeds:
  assumes "live_suite L d" "aead_total L" "gy_aead_available L a"
    and "length header \<le> SIZE_MAX - gy_aead_tag_len a" "length header + gy_aead_tag_len a \<le> cap"
  shows "\<exists>salt enc. gy_he_encrypt L d a hk header ad2 cap r = (Inr (salt, enc), Suc r)"
proof -
  have p: "aead_prim_of a \<noteq> None" by (rule aead_available_prim [OF assms(3)])
  let ?salt = "randombytes_buf L r GY_HE_SALT_LEN"
  obtain key nonce where d: "he_derive L d a hk ?salt = Inr (key, nonce)" "length nonce = gy_aead_nonce_len a"
    using he_derive_total [OF assms(1) p] by blast
  obtain ct where "gy_aead_encrypt L a cap key nonce ad2 header = Inr ct"
    using aead_encrypt_succeeds [OF assms(2,3) d(2) assms(4,5)] by blast
  moreover have "gy_aead_tag_len a \<noteq> 0" using p aead_len_pos_iff(2) [of a] by simp
  ultimately show ?thesis
    using d assms(5) by (simp add: gy_he_encrypt_def gen_salt_def gy_random_bytes_def GY_HE_SALT_LEN_def)
qed

lemma he_encrypt_len:
  assumes "hash_lengths L" "aead_lengths L" "gy_he_encrypt L d a hk header ad2 cap r = (Inr (salt, enc), r1)"
  shows "length salt = 16" "length enc = length header + gy_aead_tag_len a"
proof -
  note ok = he_encrypt_ok [OF assms(3)]
  show "length salt = 16" using ok(2) assms(1) by (simp add: hash_lengths_def GY_HE_SALT_LEN_def)
  show "length enc = length header + gy_aead_tag_len a"
    using ok(3) aead_encrypt_len [OF assms(2)] by blast
qed

text \<open>Header decryption inverts header encryption under the same key, salt and prefix.\<close>

lemma he_decrypt_encrypt:
  assumes "aead_lengths L" "aead_correct L"
    and "gy_he_encrypt L d a hk header ad2 cap r = (Inr (salt, enc), r1)" "length header \<le> cap'"
  shows "gy_he_decrypt L d a hk salt enc ad2 cap' = Inr header"
proof -
  obtain key nonce where k: "he_derive L d a hk salt = Inr (key, nonce)"
      "gy_aead_encrypt L a cap key nonce ad2 header = Inr enc"
    using he_encrypt_ok(3) [OF assms(3)] by blast
  have "gy_aead_tag_len a \<noteq> 0" using assms(3) by (auto simp: gy_he_encrypt_def Let_def split: if_splits)
  moreover have "length enc = length header + gy_aead_tag_len a"
    using aead_encrypt_len [OF assms(1) k(2)] by simp
  moreover have "gy_aead_decrypt L a cap' key nonce ad2 enc = Inr header"
    by (rule aead_decrypt_encrypt [OF assms(1,2) k(2) assms(4)])
  ultimately show ?thesis using k(1) by (simp add: gy_he_decrypt_def Let_def)
qed

lemma he_decrypt_error:
  "gy_he_decrypt L d a hk salt enc ad2 cap = Inl e \<Longrightarrow> live_suite L d \<Longrightarrow>
     length enc - gy_aead_tag_len a \<le> cap \<Longrightarrow> e \<in> {GY_ERR_UNSUPPORTED, GY_ERR_VERIFY}"
proof -
  assume a: "gy_he_decrypt L d a hk salt enc ad2 cap = Inl e" "live_suite L d"
    "length enc - gy_aead_tag_len a \<le> cap"
  show ?thesis
  proof (cases "aead_prim_of a")
    case None
    then show ?thesis using a(1) by (simp add: gy_he_decrypt_def gy_aead_tag_len_def)
  next
    case (Some p)
    then obtain k n where k: "he_derive L d a hk salt = Inr (k, n)" "length n = gy_aead_nonce_len a"
      using he_derive_total [OF a(2), of a] by blast
    show ?thesis
      using a(1,3) k Some
      by (auto simp: gy_he_decrypt_def gy_aead_decrypt_def Let_def split: if_splits option.splits)
  qed
qed

end
