(* ===== verification/GY_Prekeys.thy ===== *)
theory GY_Prekeys
  imports GY_Suite
begin

text \<open>
  Key pairs, signed prekeys, one-time prekey batches, bundles and their validation:
  \<^verbatim>\<open>src/kex/prekeys.c\<close>, classical and hybrid. The three generators retry until the public-key
  identifier is present and not taken; the loops have no bound in the code, so they are partial
  functions whose value \<open>None\<close> means that the loop does not end.
\<close>

definition GY_OPK_BATCH_MAX :: nat where "GY_OPK_BATCH_MAX = 100"
definition GY_ENCODED_KEY_MAX :: nat where "GY_ENCODED_KEY_MAX = 1 + 56"
definition GY_SPK_SIGNED_MAX :: nat where "GY_SPK_SIGNED_MAX = GY_ENCODED_KEY_MAX + 8"
definition GY_HYBRID_PUB_ENC_MAX :: nat where "GY_HYBRID_PUB_ENC_MAX = 1 + 56 + 1568"
definition GY_HYBRID_ID_ENC_MAX :: nat where "GY_HYBRID_ID_ENC_MAX = GY_HYBRID_PUB_ENC_MAX + 2592"
definition GY_HYBRID_SIGNED_MAX :: nat where "GY_HYBRID_SIGNED_MAX = GY_HYBRID_PUB_ENC_MAX + 16"
definition GY_PREKEY_CTX_MAX :: nat where "GY_PREKEY_CTX_MAX = 64"

record gy_public_key =
  pub_pkid :: u32
  pub_curve_type :: u8
  pub_pk :: bytes

record gy_keypair =
  kp_pub :: gy_public_key
  kp_sk :: bytes

record gy_signed_prekey =
  spk_kp :: gy_keypair
  spk_ts :: u64
  spk_sig :: bytes

record gy_prekey_bundle =
  pb_ik :: gy_public_key
  pb_spk :: gy_public_key
  pb_spk_timestamp :: u64
  pb_spk_sig :: bytes
  pb_opk :: gy_public_key

record gy_hybrid_public_key =
  hp_curve :: gy_public_key
  hp_mlkem_ek :: bytes

record gy_hybrid_identity_public_key =
  hi_base :: gy_hybrid_public_key
  hi_mldsa_pk :: bytes

record gy_hybrid_keypair =
  hk_pub :: gy_hybrid_public_key
  hk_curve_sk :: bytes
  hk_mlkem_dk :: bytes

record gy_hybrid_identity_keypair =
  hik_pub :: gy_hybrid_identity_public_key
  hik_curve_sk :: bytes
  hik_mlkem_dk :: bytes
  hik_mldsa_sk :: bytes

record gy_hybrid_signed_prekey =
  hspk_kp :: gy_hybrid_keypair
  hspk_timestamp :: u64
  hspk_flags :: u64
  hspk_ik_id :: u32
  hspk_ed_sig :: bytes
  hspk_mldsa_sig :: bytes

record gy_hybrid_prekey_bundle =
  hpb_ik :: gy_hybrid_identity_public_key
  hpb_spk :: gy_hybrid_public_key
  hpb_spk_timestamp :: u64
  hpb_spk_flags :: u64
  hpb_spk_ik_id :: u32
  hpb_spk_ed_sig :: bytes
  hpb_spk_mldsa_sig :: bytes
  hpb_opk :: gy_hybrid_public_key

subsection \<open>The retry loop\<close>

text \<open>
  \<^verbatim>\<open>for (;;)\<close> around a body that returns an error, continues (\<open>Inr None\<close>) or returns a value.
\<close>

partial_function (option) retry_loop :: "'a option rcomp \<Rightarrow> rng \<Rightarrow> ('a res \<times> rng) option" where
  "retry_loop body r =
     (case body r of
        (Inl e, r1) \<Rightarrow> Some (Inl e, r1)
      | (Inr None, r1) \<Rightarrow> retry_loop body r1
      | (Inr (Some k), r1) \<Rightarrow> Some (Inr k, r1))"

declare retry_loop.simps [code]

subsection \<open>Classical suites\<close>

definition check_pkid :: "provider \<Rightarrow> gy_suite_desc \<Rightarrow> gy_public_key \<Rightarrow> unit res" where
  "check_pkid L desc key =
     (if \<not> gy_pkid_is_present (pub_pkid key) then Inl GY_ERR_VERIFY
      else
        rbind (gy_encode_ec GY_ENCODED_KEY_MAX (pub_curve_type key) (pub_pk key)) (\<lambda>enc.
        rbind (gy_pkid L (suite_id desc) enc) (\<lambda>recomputed.
          if recomputed \<noteq> pub_pkid key then Inl GY_ERR_VERIFY else Inr ())))"

definition spk_signed_data :: "gy_public_key \<Rightarrow> u64 \<Rightarrow> nat \<Rightarrow> bytes res" where
  "spk_signed_data pub timestamp cap =
     rbind (gy_encode_ec cap (pub_curve_type pub) (pub_pk pub)) (\<lambda>enc.
       if cap < length enc + 8 then Inl GY_ERR_ARG
       else Inr (enc @ gy_be64_put timestamp))"

definition pkid_forbidden :: "u32 \<Rightarrow> u32 list \<Rightarrow> gy_keypair list \<Rightarrow> bool" where
  "pkid_forbidden pkid existing batch \<longleftrightarrow>
     pkid \<in> set existing \<or> pkid \<in> set (map (\<lambda>k. pub_pkid (kp_pub k)) batch)"

text \<open>One turn of the generation loop: \<open>Inr None\<close> is "continue".\<close>

definition gen_keypair_once ::
    "provider \<Rightarrow> gy_suite_desc \<Rightarrow> u32 list \<Rightarrow> gy_keypair list \<Rightarrow> gy_keypair option rcomp" where
  "gen_keypair_once L desc existing batch r =
     (case op_keypair desc r of
        (Inl e, r1) \<Rightarrow> (Inl e, r1)
      | (Inr (pk, sk), r1) \<Rightarrow>
          (rbind (gy_encode_ec GY_ENCODED_KEY_MAX (curve_type desc) pk) (\<lambda>enc.
           rbind (gy_pkid L (suite_id desc) enc) (\<lambda>pkid.
             if \<not> gy_pkid_is_present pkid then Inr None
             else if pkid_forbidden pkid existing batch then Inr None
             else Inr (Some \<lparr>kp_pub = \<lparr>pub_pkid = pkid, pub_curve_type = curve_type desc, pub_pk = pk\<rparr>,
                             kp_sk = sk\<rparr>))), r1))"

definition gen_keypair :: "provider \<Rightarrow> gy_suite_desc \<Rightarrow> u32 list \<Rightarrow> gy_keypair list \<Rightarrow> gy_keypair comp" where
  "gen_keypair L desc existing batch = retry_loop (gen_keypair_once L desc existing batch)"

definition gy_keypair_generate :: "provider \<Rightarrow> gy_suite_desc \<Rightarrow> gy_keypair comp" where
  "gy_keypair_generate L desc = gen_keypair L desc [] []"

definition gy_spk_create :: "provider \<Rightarrow> gy_suite_desc \<Rightarrow> bytes \<Rightarrow> u64 \<Rightarrow> gy_signed_prekey comp" where
  "gy_spk_create L desc identity_sk timestamp =
     cbind (gen_keypair L desc [] []) (\<lambda>kp.
     cbind (clift (spk_signed_data (kp_pub kp) timestamp GY_SPK_SIGNED_MAX)) (\<lambda>signed_data.
     cbind (ctot (op_sign desc identity_sk signed_data)) (\<lambda>sig.
       clift (Inr \<lparr>spk_kp = kp, spk_ts = timestamp, spk_sig = sig\<rparr>))))"

fun opk_batch_loop ::
    "provider \<Rightarrow> gy_suite_desc \<Rightarrow> nat \<Rightarrow> u32 list \<Rightarrow> gy_keypair list \<Rightarrow> gy_keypair list comp" where
  "opk_batch_loop L desc 0 existing out = clift (Inr out)"
| "opk_batch_loop L desc (Suc k) existing out =
     cbind (gen_keypair L desc existing out) (\<lambda>kp. opk_batch_loop L desc k existing (out @ [kp]))"

definition gy_opk_batch :: "provider \<Rightarrow> gy_suite_desc \<Rightarrow> nat \<Rightarrow> u32 list \<Rightarrow> gy_keypair list comp" where
  "gy_opk_batch L desc n existing =
     (if n = 0 \<or> n > GY_OPK_BATCH_MAX then clift (Inl GY_ERR_ARG)
      else opk_batch_loop L desc n existing [])"

definition gy_bundle_validate :: "provider \<Rightarrow> gy_suite_desc \<Rightarrow> gy_prekey_bundle \<Rightarrow> unit res" where
  "gy_bundle_validate L desc bundle =
     (let opk_present = gy_pkid_is_present (pub_pkid (pb_opk bundle)) in
      if pub_curve_type (pb_ik bundle) \<noteq> curve_type desc then Inl GY_ERR_STATE
      else if pub_curve_type (pb_spk bundle) \<noteq> curve_type desc then Inl GY_ERR_STATE
      else if opk_present \<and> pub_curve_type (pb_opk bundle) \<noteq> curve_type desc then Inl GY_ERR_STATE
      else
        rbind (check_pkid L desc (pb_ik bundle)) (\<lambda>_.
        rbind (check_pkid L desc (pb_spk bundle)) (\<lambda>_.
        rbind (if opk_present then check_pkid L desc (pb_opk bundle) else Inr ()) (\<lambda>_.
        rbind (spk_signed_data (pb_spk bundle) (pb_spk_timestamp bundle) GY_SPK_SIGNED_MAX) (\<lambda>signed_data.
          case op_verify desc (pb_spk_sig bundle) (pub_pk (pb_ik bundle)) signed_data of
            Inl _ \<Rightarrow> Inl GY_ERR_VERIFY
          | Inr _ \<Rightarrow> Inr ())))))"

definition gy_fingerprint :: "gy_suite_desc \<Rightarrow> gy_public_key \<Rightarrow> bytes res" where
  "gy_fingerprint desc ik =
     rbind (gy_encode_ec GY_ENCODED_KEY_MAX (pub_curve_type ik) (pub_pk ik)) (\<lambda>enc. op_hash desc enc)"

subsection \<open>Hybrid suites\<close>

definition gy_hybrid_encode_pub :: "gy_suite_desc \<Rightarrow> gy_hybrid_public_key \<Rightarrow> nat \<Rightarrow> bytes res" where
  "gy_hybrid_encode_pub desc pub cap =
     rbind (gy_encode_ec cap (pub_curve_type (hp_curve pub)) (pub_pk (hp_curve pub))) (\<lambda>enc.
       if cap < length enc + kem_pk_len desc then Inl GY_ERR_ARG
       else Inr (enc @ take (kem_pk_len desc) (hp_mlkem_ek pub)))"

definition gy_hybrid_encode_identity ::
    "gy_suite_desc \<Rightarrow> gy_hybrid_identity_public_key \<Rightarrow> nat \<Rightarrow> bytes res" where
  "gy_hybrid_encode_identity desc pub cap =
     rbind (gy_hybrid_encode_pub desc (hi_base pub) cap) (\<lambda>base.
       if cap < length base + dsa_pk_len desc then Inl GY_ERR_ARG
       else Inr (base @ take (dsa_pk_len desc) (hi_mldsa_pk pub)))"

definition hybrid_check_pkid :: "provider \<Rightarrow> gy_suite_desc \<Rightarrow> bytes \<Rightarrow> u32 \<Rightarrow> unit res" where
  "hybrid_check_pkid L desc enc pkid =
     (if \<not> gy_pkid_is_present pkid then Inl GY_ERR_VERIFY
      else rbind (gy_pkid L (suite_id desc) enc) (\<lambda>recomputed.
        if recomputed \<noteq> pkid then Inl GY_ERR_VERIFY else Inr ()))"

definition hybrid_signed_data ::
    "gy_suite_desc \<Rightarrow> gy_hybrid_public_key \<Rightarrow> u64 \<Rightarrow> u64 \<Rightarrow> nat \<Rightarrow> bytes res" where
  "hybrid_signed_data desc pub timestamp flags cap =
     rbind (gy_hybrid_encode_pub desc pub cap) (\<lambda>enc.
       if cap < length enc + 16 then Inl GY_ERR_ARG
       else Inr (enc @ gy_be64_put timestamp @ gy_be64_put flags))"

definition prekey_ctx :: "provider \<Rightarrow> gy_suite_desc \<Rightarrow> nat \<Rightarrow> bytes res" where
  "prekey_ctx L desc cap = gy_info L cap (suite_id desc) ''prekey''"

definition hybrid_pkid_forbidden :: "u32 \<Rightarrow> u32 list \<Rightarrow> gy_hybrid_keypair list \<Rightarrow> bool" where
  "hybrid_pkid_forbidden pkid existing batch \<longleftrightarrow>
     pkid \<in> set existing \<or> pkid \<in> set (map (\<lambda>k. pub_pkid (hp_curve (hk_pub k))) batch)"

definition gen_hybrid_keypair_once ::
    "provider \<Rightarrow> gy_suite_desc \<Rightarrow> u32 list \<Rightarrow> gy_hybrid_keypair list \<Rightarrow> gy_hybrid_keypair option rcomp" where
  "gen_hybrid_keypair_once L desc existing batch r =
     (case op_keypair desc r of
        (Inl e, r1) \<Rightarrow> (Inl e, r1)
      | (Inr (pk, sk), r1) \<Rightarrow>
          (case the (op_kem_keypair desc) r1 of
             (Inl e, r2) \<Rightarrow> (Inl e, r2)
           | (Inr (ek, dk), r2) \<Rightarrow>
               (let pub0 = \<lparr>hp_curve = \<lparr>pub_pkid = 0, pub_curve_type = curve_type desc, pub_pk = pk\<rparr>,
                            hp_mlkem_ek = ek\<rparr> in
                rbind (gy_hybrid_encode_pub desc pub0 GY_HYBRID_PUB_ENC_MAX) (\<lambda>enc.
                rbind (gy_pkid L (suite_id desc) enc) (\<lambda>pkid.
                  if \<not> gy_pkid_is_present pkid then Inr None
                  else if hybrid_pkid_forbidden pkid existing batch then Inr None
                  else Inr (Some \<lparr>hk_pub = pub0\<lparr>hp_curve := (hp_curve pub0)\<lparr>pub_pkid := pkid\<rparr>\<rparr>,
                                  hk_curve_sk = sk, hk_mlkem_dk = dk\<rparr>))), r2)))"

definition gen_hybrid_keypair ::
    "provider \<Rightarrow> gy_suite_desc \<Rightarrow> u32 list \<Rightarrow> gy_hybrid_keypair list \<Rightarrow> gy_hybrid_keypair comp" where
  "gen_hybrid_keypair L desc existing batch = retry_loop (gen_hybrid_keypair_once L desc existing batch)"

definition gy_hybrid_keypair_generate :: "provider \<Rightarrow> gy_suite_desc \<Rightarrow> gy_hybrid_keypair comp" where
  "gy_hybrid_keypair_generate L desc =
     (if \<not> is_hybrid desc then clift (Inl GY_ERR_STATE) else gen_hybrid_keypair L desc [] [])"

definition gen_identity_once ::
    "provider \<Rightarrow> gy_suite_desc \<Rightarrow> gy_hybrid_identity_keypair option rcomp" where
  "gen_identity_once L desc r =
     (case op_keypair desc r of
        (Inl e, r1) \<Rightarrow> (Inl e, r1)
      | (Inr (pk, sk), r1) \<Rightarrow>
          (case the (op_kem_keypair desc) r1 of
             (Inl e, r2) \<Rightarrow> (Inl e, r2)
           | (Inr (ek, dk), r2) \<Rightarrow>
               (case the (op_dsa_keypair desc) r2 of
                  (Inl e, r3) \<Rightarrow> (Inl e, r3)
                | (Inr (dpk, dsk), r3) \<Rightarrow>
                    (let pub0 = \<lparr>hi_base = \<lparr>hp_curve = \<lparr>pub_pkid = 0, pub_curve_type = curve_type desc,
                                                        pub_pk = pk\<rparr>, hp_mlkem_ek = ek\<rparr>,
                                 hi_mldsa_pk = dpk\<rparr> in
                     rbind (gy_hybrid_encode_identity desc pub0 GY_HYBRID_ID_ENC_MAX) (\<lambda>enc.
                     rbind (gy_pkid L (suite_id desc) enc) (\<lambda>pkid.
                       if \<not> gy_pkid_is_present pkid then Inr None
                       else Inr (Some
                         \<lparr>hik_pub = pub0\<lparr>hi_base := (hi_base pub0)\<lparr>hp_curve :=
                                      (hp_curve (hi_base pub0))\<lparr>pub_pkid := pkid\<rparr>\<rparr>\<rparr>,
                          hik_curve_sk = sk, hik_mlkem_dk = dk, hik_mldsa_sk = dsk\<rparr>))), r3))))"

definition gy_hybrid_identity_keypair_generate ::
    "provider \<Rightarrow> gy_suite_desc \<Rightarrow> gy_hybrid_identity_keypair comp" where
  "gy_hybrid_identity_keypair_generate L desc =
     (if \<not> is_hybrid desc then clift (Inl GY_ERR_STATE) else retry_loop (gen_identity_once L desc))"

definition gy_hybrid_flags_validate :: "u64 \<Rightarrow> unit res" where
  "gy_hybrid_flags_validate flags =
     (let mn = (ucast (flags AND 0xFFFF) :: u16);
          mx = (ucast (drop_bit 16 flags AND 0xFFFF) :: u16) in
      if flags AND push_bit 32 1 = 0 then Inl GY_ERR_VERIFY
      else if drop_bit 35 flags \<noteq> 0 then Inl GY_ERR_VERIFY
      else if mn < 1 \<or> mn > mx \<or> mx > 100 then Inl GY_ERR_VERIFY
      else Inr ())"

definition gy_hybrid_spk_create ::
    "provider \<Rightarrow> gy_suite_desc \<Rightarrow> gy_hybrid_identity_keypair \<Rightarrow> u64 \<Rightarrow> u64 \<Rightarrow> gy_hybrid_signed_prekey comp" where
  "gy_hybrid_spk_create L desc ik timestamp flags =
     (if \<not> is_hybrid desc then clift (Inl GY_ERR_STATE)
      else
        cbind (clift (gy_hybrid_flags_validate flags)) (\<lambda>_.
        cbind (gen_hybrid_keypair L desc [] []) (\<lambda>kp.
        cbind (clift (hybrid_signed_data desc (hk_pub kp) timestamp flags GY_HYBRID_SIGNED_MAX)) (\<lambda>signed_data.
        cbind (ctot (op_sign desc (hik_curve_sk ik) signed_data)) (\<lambda>ed_sig.
        cbind (clift (prekey_ctx L desc GY_PREKEY_CTX_MAX)) (\<lambda>ctx.
        cbind (ctot (the (op_dsa_sign desc) (hik_mldsa_sk ik) signed_data ctx)) (\<lambda>mldsa_sig.
          clift (Inr \<lparr>hspk_kp = kp, hspk_timestamp = timestamp, hspk_flags = flags,
                      hspk_ik_id = pub_pkid (hp_curve (hi_base (hik_pub ik))),
                      hspk_ed_sig = ed_sig, hspk_mldsa_sig = mldsa_sig\<rparr>))))))))"

fun hybrid_opk_batch_loop ::
    "provider \<Rightarrow> gy_suite_desc \<Rightarrow> nat \<Rightarrow> u32 list \<Rightarrow> gy_hybrid_keypair list \<Rightarrow> gy_hybrid_keypair list comp" where
  "hybrid_opk_batch_loop L desc 0 existing out = clift (Inr out)"
| "hybrid_opk_batch_loop L desc (Suc k) existing out =
     cbind (gen_hybrid_keypair L desc existing out)
       (\<lambda>kp. hybrid_opk_batch_loop L desc k existing (out @ [kp]))"

definition gy_hybrid_opk_batch ::
    "provider \<Rightarrow> gy_suite_desc \<Rightarrow> nat \<Rightarrow> u32 list \<Rightarrow> gy_hybrid_keypair list comp" where
  "gy_hybrid_opk_batch L desc n existing =
     (if \<not> is_hybrid desc then clift (Inl GY_ERR_STATE)
      else if n = 0 \<or> n > GY_OPK_BATCH_MAX then clift (Inl GY_ERR_ARG)
      else hybrid_opk_batch_loop L desc n existing [])"

text \<open>
  The hybrid validation; the second component is what the call leaves in \<open>*diag_out\<close> when it writes
  it.
\<close>

definition gy_hybrid_bundle_validate ::
    "provider \<Rightarrow> gy_suite_desc \<Rightarrow> gy_hybrid_prekey_bundle \<Rightarrow> unit res \<times> u8 option" where
  "gy_hybrid_bundle_validate L desc bundle =
     (let ik = hpb_ik bundle; spk = hpb_spk bundle; opk = hpb_opk bundle;
          opk_present = gy_pkid_is_present (pub_pkid (hp_curve opk));
          ik_pkid = pub_pkid (hp_curve (hi_base ik));
          checks =
            (if \<not> is_hybrid desc then Inl GY_ERR_STATE
             else if pub_curve_type (hp_curve (hi_base ik)) \<noteq> curve_type desc then Inl GY_ERR_STATE
             else if pub_curve_type (hp_curve spk) \<noteq> curve_type desc then Inl GY_ERR_STATE
             else if opk_present \<and> pub_curve_type (hp_curve opk) \<noteq> curve_type desc then Inl GY_ERR_STATE
             else
               rbind (gy_hybrid_encode_identity desc ik GY_HYBRID_ID_ENC_MAX) (\<lambda>enc.
               rbind (hybrid_check_pkid L desc enc ik_pkid) (\<lambda>_.
               rbind (gy_hybrid_encode_pub desc spk GY_HYBRID_ID_ENC_MAX) (\<lambda>enc.
               rbind (hybrid_check_pkid L desc enc (pub_pkid (hp_curve spk))) (\<lambda>_.
               if hpb_spk_ik_id bundle \<noteq> ik_pkid then Inl GY_ERR_VERIFY
               else
                 rbind (if opk_present then
                          rbind (gy_hybrid_encode_pub desc opk GY_HYBRID_ID_ENC_MAX) (\<lambda>enc.
                            hybrid_check_pkid L desc enc (pub_pkid (hp_curve opk)))
                        else Inr ()) (\<lambda>_.
                 rbind (gy_hybrid_flags_validate (hpb_spk_flags bundle)) (\<lambda>_.
                 hybrid_signed_data desc spk (hpb_spk_timestamp bundle) (hpb_spk_flags bundle)
                   GY_HYBRID_SIGNED_MAX)))))))
      in case checks of
           Inl e \<Rightarrow> (Inl e, None)
         | Inr signed_data \<Rightarrow>
             (let ed_ok = (op_verify desc (hpb_spk_ed_sig bundle) (pub_pk (hp_curve (hi_base ik))) signed_data
                             = Inr ()) in
              case prekey_ctx L desc GY_PREKEY_CTX_MAX of
                Inl e \<Rightarrow> (Inl e, None)
              | Inr ctx \<Rightarrow>
                  (let pq_ok = (the (op_dsa_verify desc) (hpb_spk_mldsa_sig bundle) (hi_mldsa_pk ik)
                                  signed_data ctx = Inr ()) in
                   if \<not> ed_ok \<or> \<not> pq_ok then
                     (Inl GY_ERR_VERIFY, Some ((if \<not> ed_ok then 1 else 0) OR (if \<not> pq_ok then 2 else 0)))
                   else (Inr (), None))))"

definition gy_hybrid_ikhash :: "gy_suite_desc \<Rightarrow> gy_hybrid_identity_public_key \<Rightarrow> bytes res" where
  "gy_hybrid_ikhash desc ik =
     rbind (gy_hybrid_encode_identity desc ik GY_HYBRID_ID_ENC_MAX) (\<lambda>enc. op_hash desc enc)"

subsection \<open>Key generation\<close>

lemma gen_keypair_once_ok:
  assumes "gen_keypair_once L desc existing batch r = (Inr (Some kp), r1)"
  shows "pub_pkid (kp_pub kp) \<noteq> 0" "\<not> pkid_forbidden (pub_pkid (kp_pub kp)) existing batch"
    "check_pkid L desc (kp_pub kp) = Inr ()" "pub_curve_type (kp_pub kp) = curve_type desc"
    "op_keypair desc r = (Inr (pub_pk (kp_pub kp), kp_sk kp), r1)"
  using assms
  by (auto simp: gen_keypair_once_def check_pkid_def rbind_eq_Inr_iff split: prod.splits sum.splits if_splits)

text \<open>Whatever the loop returns, some turn of it returned.\<close>

lemma retry_loop_result:
  assumes "retry_loop body r = Some (x, r1)"
  shows "\<exists>r0. body r0 = (map_sum id Some x, r1)"
proof -
  have "\<exists>r0. body r0 = (map_sum id Some (fst y), snd y)" if "retry_loop body r = Some y" for y
    by (rule retry_loop.raw_induct
        [of "\<lambda>body r y. \<exists>r0. body r0 = (map_sum id Some (fst y), snd y)", OF _ that])
      (fastforce split: prod.splits sum.splits option.splits)
  from this [OF assms] show ?thesis by simp
qed

text \<open>It returns when some later turn does not continue.\<close>

lemma retry_loop_returns:
  assumes "\<And>i. i < k \<Longrightarrow> body (draw i) = (Inr None, draw (Suc i))" "fst (body (draw k)) \<noteq> Inr None"
  shows "\<exists>y. retry_loop body (draw 0) = Some y"
  using assms
proof (induction k arbitrary: draw)
  case 0
  then show ?case by (subst retry_loop.simps) (auto split: prod.splits sum.splits option.splits)
next
  case (Suc k)
  have "\<exists>y. retry_loop body (draw (Suc 0)) = Some y"
    using Suc.prems by (intro Suc.IH [of "\<lambda>i. draw (Suc i)"]) auto
  moreover have "body (draw 0) = (Inr None, draw (Suc 0))" using Suc.prems(1) [of 0] by simp
  ultimately show ?case by (subst retry_loop.simps) simp
qed

lemma gen_keypair_ok:
  assumes "gen_keypair L desc existing batch r = Some (Inr kp, r1)"
  shows "pub_pkid (kp_pub kp) \<noteq> 0" "\<not> pkid_forbidden (pub_pkid (kp_pub kp)) existing batch"
    "check_pkid L desc (kp_pub kp) = Inr ()" "pub_curve_type (kp_pub kp) = curve_type desc"
    "\<exists>r0. op_keypair desc r0 = (Inr (pub_pk (kp_pub kp), kp_sk kp), r1)"
proof -
  obtain r0 where "gen_keypair_once L desc existing batch r0 = (Inr (Some kp), r1)"
    using retry_loop_result assms unfolding gen_keypair_def by fastforce
  from gen_keypair_once_ok [OF this] show "pub_pkid (kp_pub kp) \<noteq> 0"
    "\<not> pkid_forbidden (pub_pkid (kp_pub kp)) existing batch" "check_pkid L desc (kp_pub kp) = Inr ()"
    "pub_curve_type (kp_pub kp) = curve_type desc"
    "\<exists>r0. op_keypair desc r0 = (Inr (pub_pk (kp_pub kp), kp_sk kp), r1)" by auto
qed

lemma opk_batch_loop_ok:
  assumes "opk_batch_loop L desc k existing out r = Some (Inr res, r1)"
    and "distinct (map (\<lambda>x. pub_pkid (kp_pub x)) out)"
    and "set (map (\<lambda>x. pub_pkid (kp_pub x)) out) \<inter> set existing = {}" "0 \<notin> set (map (\<lambda>x. pub_pkid (kp_pub x)) out)"
  shows "length res = length out + k \<and> distinct (map (\<lambda>x. pub_pkid (kp_pub x)) res) \<and>
     set (map (\<lambda>x. pub_pkid (kp_pub x)) res) \<inter> set existing = {} \<and> 0 \<notin> set (map (\<lambda>x. pub_pkid (kp_pub x)) res)"
  using assms
proof (induction k arbitrary: out r)
  case 0
  then show ?case by simp
next
  case (Suc k)
  from Suc.prems(1) obtain kp r2 where g: "gen_keypair L desc existing out r = Some (Inr kp, r2)"
      "opk_batch_loop L desc k existing (out @ [kp]) r2 = Some (Inr res, r1)"
    by (auto simp: cbind_eq_Some_Inr_iff)
  note ok = gen_keypair_ok(1,2) [OF g(1), unfolded pkid_forbidden_def]
  have "distinct (map (\<lambda>x. pub_pkid (kp_pub x)) (out @ [kp]))"
    "set (map (\<lambda>x. pub_pkid (kp_pub x)) (out @ [kp])) \<inter> set existing = {}"
    "0 \<notin> set (map (\<lambda>x. pub_pkid (kp_pub x)) (out @ [kp]))"
    using Suc.prems(2,3,4) ok by auto
  from Suc.IH [OF g(2) this] show ?case by simp
qed

subsection \<open>Properties\<close>

text \<open>
  One-time prekeys. A batch that is returned has the requested size, and its identifiers are
  present, pairwise different and different from every identifier the caller already uses.
\<close>

lemma opk_batch_unique:
  assumes "gy_opk_batch L desc n existing r = Some (Inr out, r')"
  shows "length out = n \<and> 1 \<le> n \<and> n \<le> GY_OPK_BATCH_MAX \<and>
     distinct (map (\<lambda>k. pub_pkid (kp_pub k)) out) \<and>
     set (map (\<lambda>k. pub_pkid (kp_pub k)) out) \<inter> set existing = {} \<and>
     0 \<notin> set (map (\<lambda>k. pub_pkid (kp_pub k)) out)"
proof -
  have n: "n \<noteq> 0" "n \<le> GY_OPK_BATCH_MAX" and b: "opk_batch_loop L desc n existing [] r = Some (Inr out, r')"
    using assms by (auto simp: gy_opk_batch_def split: if_splits)
  from opk_batch_loop_ok [OF b] n show ?thesis by auto
qed

text \<open>
  C39. The unbounded generation loop. It returns if some later draw yields an error or a key with a
  usable identifier; and a key it returns has a present identifier that recomputes from the key and
  is not taken.
\<close>

theorem gen_keypair_returns:
  assumes "\<And>i. i < k \<Longrightarrow> gen_keypair_once L desc existing batch (draw i) = (Inr None, draw (Suc i))"
    and "fst (gen_keypair_once L desc existing batch (draw k)) \<noteq> Inr None"
  shows "\<exists>res r'. gen_keypair L desc existing batch (draw 0) = Some (res, r') \<and>
     (\<forall>kp. res = Inr kp \<longrightarrow> pub_pkid (kp_pub kp) \<noteq> 0 \<and> check_pkid L desc (kp_pub kp) = Inr () \<and>
        \<not> pkid_forbidden (pub_pkid (kp_pub kp)) existing batch)"
proof -
  obtain y where y: "gen_keypair L desc existing batch (draw 0) = Some y"
    using retry_loop_returns [of k "gen_keypair_once L desc existing batch" draw] assms
    unfolding gen_keypair_def by blast
  then show ?thesis using gen_keypair_ok by (cases y) fastforce
qed

end
