(* ===== verification/GY_DoubleRatchet.thy ===== *)
theory GY_DoubleRatchet
  imports GY_HeaderEnc GY_Prekeys
begin

text \<open>
  The classical Double Ratchet engine with header encryption, \<^verbatim>\<open>src/ratchet/double_ratchet.c\<close>.
  The receive path is split the way the function is: frame parse, trial decryption under the
  header keys of skipped epochs, trial under the current and the next receiving header key, the
  chain advance on a staged copy, and the payload decryption that commits the stage.

  A call returns the status with its output, whether a header key opened the header, the state it
  leaves and the draw counter; \<open>None\<close> means that key generation does not end.
\<close>

definition GY_DR_SECRET_LEN :: nat where "GY_DR_SECRET_LEN = 32"
definition GY_X3DH_AD_MAX :: nat where "GY_X3DH_AD_MAX = 2 * (1 + 56)"

record gy_dr_secrets =
  sd_sk_dr :: bytes
  sd_shared_hka :: bytes
  sd_shared_nhkb :: bytes

record gy_dr_state =
  dr_desc :: gy_suite_desc
  dr_aead_id :: u8
  dr_dhs :: gy_keypair
  dr_dhr :: bytes
  dr_rk :: bytes
  dr_cks :: bytes
  dr_ckr :: bytes
  dr_hks :: bytes
  dr_hkr :: bytes
  dr_nhks :: bytes
  dr_nhkr :: bytes
  dr_ns :: u32
  dr_nr :: u32
  dr_pn :: u32
  dr_have_dhr :: u8
  dr_have_cks :: u8
  dr_have_ckr :: u8
  dr_have_hks :: u8
  dr_have_hkr :: u8
  dr_have_nhks :: u8
  dr_have_nhkr :: u8
  dr_skipped :: gy_skip_store

definition zero_keypair :: gy_keypair where
  "zero_keypair = \<lparr>kp_pub = \<lparr>pub_pkid = 0, pub_curve_type = 0, pub_pk = []\<rparr>, kp_sk = []\<rparr>"

text \<open>The state after \<open>memset\<close> with the descriptor and the AEAD identifier set.\<close>

definition dr_zero :: "gy_suite_desc \<Rightarrow> u8 \<Rightarrow> gy_dr_state" where
  "dr_zero desc aead_id =
     \<lparr>dr_desc = desc, dr_aead_id = aead_id, dr_dhs = zero_keypair, dr_dhr = [],
      dr_rk = zero_key, dr_cks = zero_key, dr_ckr = zero_key,
      dr_hks = zero_key, dr_hkr = zero_key, dr_nhks = zero_key, dr_nhkr = zero_key,
      dr_ns = 0, dr_nr = 0, dr_pn = 0,
      dr_have_dhr = 0, dr_have_cks = 0, dr_have_ckr = 0, dr_have_hks = 0, dr_have_hkr = 0,
      dr_have_nhks = 0, dr_have_nhkr = 0, dr_skipped = empty_store\<rparr>"

subsection \<open>Initialisation\<close>

definition gen_ratchet_keypair :: "provider \<Rightarrow> gy_suite_desc \<Rightarrow> gy_keypair comp" where
  "gen_ratchet_keypair L desc = gy_keypair_generate L desc"

definition gy_dr_init_alice ::
    "provider \<Rightarrow> gy_suite_desc \<Rightarrow> u8 \<Rightarrow> gy_dr_secrets \<Rightarrow> bytes \<Rightarrow> gy_dr_state comp" where
  "gy_dr_init_alice L desc aead_id secrets remote_ratchet_pk =
     (let st = (dr_zero desc aead_id)
            \<lparr>dr_rk := sd_sk_dr secrets, dr_dhr := remote_ratchet_pk, dr_have_dhr := 1,
             dr_hks := sd_shared_hka secrets, dr_nhkr := sd_shared_nhkb secrets,
             dr_have_hks := 1, dr_have_nhkr := 1\<rparr> in
      cbind (gen_ratchet_keypair L desc) (\<lambda>dhs.
      cbind (clift (op_dh desc (kp_sk dhs) (dr_dhr st))) (\<lambda>dh.
      cbind (clift (gy_drc_kdf_rk L desc (dr_rk st) dh)) (\<lambda>(rk, cks, nhks).
        clift (Inr (st\<lparr>dr_dhs := dhs, dr_rk := rk, dr_cks := cks, dr_nhks := nhks,
                       dr_have_cks := 1, dr_have_nhks := 1\<rparr>))))))"

definition gy_dr_init_bob ::
    "gy_suite_desc \<Rightarrow> u8 \<Rightarrow> gy_dr_secrets \<Rightarrow> gy_keypair \<Rightarrow> gy_dr_state" where
  "gy_dr_init_bob desc aead_id secrets spk_keypair =
     (dr_zero desc aead_id)
       \<lparr>dr_rk := sd_sk_dr secrets, dr_nhks := sd_shared_nhkb secrets,
        dr_nhkr := sd_shared_hka secrets, dr_have_nhks := 1, dr_have_nhkr := 1,
        dr_dhs := spk_keypair\<rparr>"

subsection \<open>The DH ratchet step\<close>

definition dh_ratchet :: "provider \<Rightarrow> gy_dr_state \<Rightarrow> bytes \<Rightarrow> gy_dr_state comp" where
  "dh_ratchet L st new_rpk =
     (let desc = dr_desc st;
          st1 = st\<lparr>dr_pn := dr_ns st, dr_ns := 0, dr_nr := 0, dr_dhr := new_rpk, dr_have_dhr := 1,
                   dr_hkr := dr_nhkr st, dr_have_hkr := 1\<rparr> in
      cbind (clift (op_dh desc (kp_sk (dr_dhs st1)) (dr_dhr st1))) (\<lambda>dh.
      cbind (clift (gy_drc_kdf_rk L desc (dr_rk st1) dh)) (\<lambda>(rk, ckr, nhkr).
      let st2 = st1\<lparr>dr_rk := rk, dr_ckr := ckr, dr_nhkr := nhkr, dr_have_ckr := 1, dr_have_nhkr := 1\<rparr> in
      cbind (gen_ratchet_keypair L desc) (\<lambda>dhs.
      let st3 = st2\<lparr>dr_dhs := dhs, dr_hks := dr_nhks st2, dr_have_hks := 1\<rparr> in
      cbind (clift (op_dh desc (kp_sk (dr_dhs st3)) (dr_dhr st3))) (\<lambda>dh2.
      cbind (clift (gy_drc_kdf_rk L desc (dr_rk st3) dh2)) (\<lambda>(rk', cks, nhks).
        clift (Inr (st3\<lparr>dr_rk := rk', dr_cks := cks, dr_nhks := nhks,
                        dr_have_cks := 1, dr_have_nhks := 1\<rparr>))))))))"

subsection \<open>Encryption\<close>

definition dr_header_of :: "gy_dr_state \<Rightarrow> gy_dr_header" where
  "dr_header_of st =
     \<lparr>hdr_flags = ucast (curve_type (dr_desc st)), hdr_ratchet_pk = pub_pk (kp_pub (dr_dhs st)),
      hdr_pn = dr_pn st, hdr_n = dr_ns st\<rparr>"

text \<open>
  The header wire unit: salt, 16-bit length, encrypted header. Payload encryption follows the
  chain step, whose effect on the state stays even when a later call fails.
\<close>

definition hdr_wire :: "bytes \<Rightarrow> bytes \<Rightarrow> bytes" where
  "hdr_wire salt enc = salt @ gy_be16_put (of_nat (length enc)) @ enc"

definition gy_dr_encrypt ::
    "provider \<Rightarrow> gy_dr_state \<Rightarrow> nat \<Rightarrow> bytes \<Rightarrow> bytes \<Rightarrow> rng \<Rightarrow> bytes res \<times> gy_dr_state \<times> rng" where
  "gy_dr_encrypt L st cap pt ad r =
     (if dr_have_cks st = 0 \<or> dr_have_hks st = 0 then (Inl GY_ERR_STATE, st, r)
      else if length ad > GY_X3DH_AD_MAX then (Inl GY_ERR_ARG, st, r)
      else
        let desc = dr_desc st; taglen = gy_aead_tag_len (dr_aead_id st) in
        case gy_dr_header_encode desc (dr_header_of st) GY_DR_HEADER_MAX of
          Inl e \<Rightarrow> (Inl e, st, r)
        | Inr hdrp \<Rightarrow>
            (let hwlen = GY_HE_SALT_LEN + 2 + (length hdrp + taglen); ppos = 2 + hwlen in
             if cap < ppos + length pt + taglen then (Inl GY_ERR_ARG, st, r)
             else
               let frame = gy_frame_put (suite_id desc) in
               case gy_he_encrypt L desc (dr_aead_id st) (dr_hks st) hdrp frame
                      (cap - (2 + GY_HE_SALT_LEN + 2)) r of
                 (Inl e, r1) \<Rightarrow> (Inl e, st, r1)
               | (Inr (salt, enc), r1) \<Rightarrow>
                   (case gy_drc_kdf_ck L desc (dr_cks st) of
                      Inl e \<Rightarrow> (Inl e, st, r1)
                    | Inr (mk, ckn) \<Rightarrow>
                        (let n = dr_ns st;
                             st1 = st\<lparr>dr_cks := ckn, dr_ns := dr_ns st + 1\<rparr>;
                             wire = hdr_wire salt enc in
                         (rbind (gy_drc_derive_aead L desc mk (dr_aead_id st) n) (\<lambda>(key, nonce).
                          rbind (gy_aead_encrypt L (dr_aead_id st) (cap - ppos) key nonce (ad @ wire) pt) (\<lambda>ct.
                            Inr (frame @ wire @ ct))),
                          st1, r1)))))"

subsection \<open>Decryption: frame\<close>

text \<open>The parsed frame: salt, encrypted header, payload, and the header wire unit bound by the AD.\<close>

record dr_frame =
  fr_salt :: bytes
  fr_enc :: bytes
  fr_payload :: bytes
  fr_wire :: bytes
  fr_ad2 :: bytes

definition dr_parse_frame :: "gy_dr_state \<Rightarrow> bytes \<Rightarrow> dr_frame res" where
  "dr_parse_frame st msg =
     (let desc = dr_desc st; taglen = gy_aead_tag_len (dr_aead_id st) in
      rbind (gy_frame_check msg (suite_id desc)) (\<lambda>_.
        if length msg < 2 + GY_HE_SALT_LEN + 2 then Inl GY_ERR_ARG
        else
          let ehl = unat (gy_be16_get (drop (2 + GY_HE_SALT_LEN) msg));
              exp_ehl = 4 + curve_pk_len desc + 8 + taglen in
          if ehl \<noteq> exp_ehl then Inl GY_ERR_ARG
          else
            let hwlen = GY_HE_SALT_LEN + 2 + ehl in
            if length msg < 2 + hwlen + taglen then Inl GY_ERR_ARG
            else Inr \<lparr>fr_salt = take GY_HE_SALT_LEN (drop 2 msg),
                      fr_enc = take ehl (drop (2 + GY_HE_SALT_LEN + 2) msg),
                      fr_payload = drop (2 + hwlen) msg,
                      fr_wire = take hwlen (drop 2 msg),
                      fr_ad2 = take 2 msg\<rparr>))"

subsection \<open>Decryption: skipped epochs\<close>

text \<open>
  The outer loop over the epoch slots: the header of the first live slot that opens and decodes,
  with its slot, and whether any slot opened.
\<close>

fun dr_scan_epochs ::
    "provider \<Rightarrow> gy_dr_state \<Rightarrow> dr_frame \<Rightarrow> nat \<Rightarrow> gy_skip_epoch list \<Rightarrow> bool
      \<Rightarrow> bool \<times> (nat \<times> gy_dr_header) option" where
  "dr_scan_epochs L st fr slot [] matched = (matched, None)"
| "dr_scan_epochs L st fr slot (e # es) matched =
     (if ep_refs e = 0 then dr_scan_epochs L st fr (Suc slot) es matched
      else case gy_he_decrypt L (dr_desc st) (dr_aead_id st) (ep_hk e) (fr_salt fr) (fr_enc fr)
                  (fr_ad2 fr) GY_DR_HEADER_MAX of
          Inl _ \<Rightarrow> dr_scan_epochs L st fr (Suc slot) es matched
        | Inr hdrp \<Rightarrow>
            (case gy_dr_header_decode (dr_desc st) hdrp of
               Inl _ \<Rightarrow> dr_scan_epochs L st fr (Suc slot) es True
             | Inr (h, _) \<Rightarrow> (True, Some (slot, h))))"

definition dr_open_payload ::
    "provider \<Rightarrow> gy_dr_state \<Rightarrow> bytes \<Rightarrow> u32 \<Rightarrow> dr_frame \<Rightarrow> nat \<Rightarrow> bytes \<Rightarrow> bytes res" where
  "dr_open_payload L st mk n fr cap ad =
     rbind (gy_drc_derive_aead L (dr_desc st) mk (dr_aead_id st) n) (\<lambda>(key, nonce).
       gy_aead_decrypt L (dr_aead_id st) cap key nonce (ad @ fr_wire fr) (fr_payload fr))"

text \<open>
  The whole phase: \<open>Inl e\<close> returns the code \<open>e\<close>, \<open>Inr (Some (pt, st'))\<close> returns the plaintext with
  the entry consumed, \<open>Inr None\<close> falls through to the receiving chain.
\<close>

definition dr_try_skipped ::
    "provider \<Rightarrow> gy_dr_state \<Rightarrow> dr_frame \<Rightarrow> nat \<Rightarrow> bytes \<Rightarrow> bool \<times> (bytes \<times> gy_dr_state) option res" where
  "dr_try_skipped L st fr cap ad =
     (case dr_scan_epochs L st fr 0 (ss_epochs (dr_skipped st)) False of
        (matched, None) \<Rightarrow> (matched, Inr None)
      | (matched, Some (slot, h)) \<Rightarrow>
          (case find (\<lambda>i. sk_epoch (ss_ent (dr_skipped st) ! i) = slot \<and>
                          sk_n (ss_ent (dr_skipped st) ! i) = hdr_n h)
                  [0..<length (ss_ent (dr_skipped st))] of
             None \<Rightarrow> (matched, Inr None)
           | Some i \<Rightarrow>
               (case gy_drc_derive_aead L (dr_desc st) (sk_mk (ss_ent (dr_skipped st) ! i))
                       (dr_aead_id st) (hdr_n h) of
                  Inl e \<Rightarrow> (matched, Inl e)
                | Inr (key, nonce) \<Rightarrow>
                    (case gy_aead_decrypt L (dr_aead_id st) cap key nonce (ad @ fr_wire fr) (fr_payload fr) of
                       Inr pt \<Rightarrow>
                         (matched, Inr (Some (pt, st\<lparr>dr_skipped :=
                            gy_drc_store_post_success (gy_drc_store_remove (dr_skipped st) i)\<rparr>)))
                     | Inl _ \<Rightarrow> (matched, Inr None)))))"

subsection \<open>Decryption: current and next header key\<close>

definition dr_open_header :: "provider \<Rightarrow> gy_dr_state \<Rightarrow> dr_frame \<Rightarrow> bytes option" where
  "dr_open_header L st fr =
     (let try = (\<lambda>hk. case gy_he_decrypt L (dr_desc st) (dr_aead_id st) hk (fr_salt fr) (fr_enc fr)
                          (fr_ad2 fr) GY_DR_HEADER_MAX of Inr hdrp \<Rightarrow> Some hdrp | Inl _ \<Rightarrow> None);
          got = (if dr_have_hkr st \<noteq> 0 then try (dr_hkr st) else None)
      in case got of
           Some hdrp \<Rightarrow> Some hdrp
         | None \<Rightarrow> if dr_have_nhkr st \<noteq> 0 then try (dr_nhkr st) else None)"

subsection \<open>Decryption: chain advance on the staged copy\<close>

definition dr_skip_to :: "provider \<Rightarrow> gy_dr_state \<Rightarrow> u32 \<Rightarrow> gy_dr_state res" where
  "dr_skip_to L st to =
     (case gy_drc_skip_forward L (dr_desc st) (dr_skipped st) (dr_ckr st) (dr_nr st) to (dr_hkr st) of
        (Inl e, _) \<Rightarrow> Inl e
      | (Inr _, store, ckr, nr) \<Rightarrow> Inr (st\<lparr>dr_skipped := store, dr_ckr := ckr, dr_nr := nr\<rparr>))"

definition dr_new_remote :: "gy_dr_state \<Rightarrow> gy_dr_header \<Rightarrow> bool" where
  "dr_new_remote st h \<longleftrightarrow> dr_have_dhr st = 0 \<or> hdr_ratchet_pk h \<noteq> dr_dhr st"

definition dr_advance :: "provider \<Rightarrow> gy_dr_state \<Rightarrow> gy_dr_header \<Rightarrow> gy_dr_state comp" where
  "dr_advance L stage h =
     (if dr_new_remote stage h then
        (if dr_have_ckr stage \<noteq> 0 \<and>
            (hdr_pn h < dr_nr stage \<or> hdr_pn h - dr_nr stage > of_nat GY_MAX_SKIP)
         then clift (Inl GY_ERR_STATE)
         else if hdr_n h > of_nat GY_MAX_SKIP then clift (Inl GY_ERR_STATE)
         else
           cbind (clift (if dr_have_ckr stage \<noteq> 0 then dr_skip_to L stage (hdr_pn h) else Inr stage)) (\<lambda>st1.
           cbind (dh_ratchet L st1 (hdr_ratchet_pk h)) (\<lambda>st2.
             clift (dr_skip_to L st2 (hdr_n h)))))
      else
        (if dr_have_ckr stage = 0 then clift (Inl GY_ERR_STATE)
         else if hdr_n h < dr_nr stage then clift (Inl GY_ERR_VERIFY)
         else if hdr_n h - dr_nr stage > of_nat GY_MAX_SKIP then clift (Inl GY_ERR_STATE)
         else clift (dr_skip_to L stage (hdr_n h))))"

text \<open>The target message key, the chain step past it, and the payload.\<close>

definition dr_finish ::
    "provider \<Rightarrow> gy_dr_state \<Rightarrow> gy_dr_header \<Rightarrow> dr_frame \<Rightarrow> nat \<Rightarrow> bytes \<Rightarrow> (bytes \<times> gy_dr_state) res" where
  "dr_finish L stage h fr cap ad =
     rbind (gy_drc_kdf_ck L (dr_desc stage) (dr_ckr stage)) (\<lambda>(mk, ckn).
       let stage1 = stage\<lparr>dr_ckr := ckn, dr_nr := dr_nr stage + 1\<rparr> in
       rbind (dr_open_payload L stage1 mk (hdr_n h) fr cap ad) (\<lambda>pt.
         Inr (pt, stage1\<lparr>dr_skipped := gy_drc_store_post_success (dr_skipped stage1)\<rparr>)))"

definition gy_dr_decrypt_assoc ::
    "provider \<Rightarrow> gy_dr_state \<Rightarrow> nat \<Rightarrow> bytes \<Rightarrow> bytes \<Rightarrow> rng
      \<Rightarrow> (bytes res \<times> bool \<times> gy_dr_state \<times> rng) option" where
  "gy_dr_decrypt_assoc L st cap msg ad r =
     (if length ad > GY_X3DH_AD_MAX then Some (Inl GY_ERR_ARG, False, st, r)
      else case dr_parse_frame st msg of
          Inl e \<Rightarrow> Some (Inl e, False, st, r)
        | Inr fr \<Rightarrow>
            (case dr_try_skipped L st fr cap ad of
               (matched, Inl e) \<Rightarrow> Some (Inl e, matched, st, r)
             | (matched, Inr (Some (pt, st'))) \<Rightarrow> Some (Inr pt, matched, st', r)
             | (matched, Inr None) \<Rightarrow>
                 (case dr_open_header L st fr of
                    None \<Rightarrow> Some (Inl GY_ERR_VERIFY, matched, st, r)
                  | Some hdrp \<Rightarrow>
                      (case gy_dr_header_decode (dr_desc st) hdrp of
                         Inl e \<Rightarrow> Some (Inl e, True, st, r)
                       | Inr (h, _) \<Rightarrow>
                           (case dr_advance L st h r of
                              None \<Rightarrow> None
                            | Some (Inl e, r1) \<Rightarrow> Some (Inl e, True, st, r1)
                            | Some (Inr stage, r1) \<Rightarrow>
                                (case dr_finish L stage h fr cap ad of
                                   Inl e \<Rightarrow> Some (Inl e, True, st, r1)
                                 | Inr (pt, st') \<Rightarrow> Some (Inr pt, True, st', r1)))))))"

definition gy_dr_decrypt ::
    "provider \<Rightarrow> gy_dr_state \<Rightarrow> nat \<Rightarrow> bytes \<Rightarrow> bytes \<Rightarrow> rng
      \<Rightarrow> (bytes res \<times> gy_dr_state \<times> rng) option" where
  "gy_dr_decrypt L st cap msg ad r =
     map_option (\<lambda>(rc, _, st', r'). (rc, st', r')) (gy_dr_decrypt_assoc L st cap msg ad r)"

subsection \<open>What a successful encryption produced\<close>

lemma dr_encrypt_ok:
  assumes "gy_dr_encrypt L st cap pt ad r = (Inr msg, st', r')"
  obtains hdrp salt enc mk ckn key nonce ct where
    "gy_dr_header_encode (dr_desc st) (dr_header_of st) GY_DR_HEADER_MAX = Inr hdrp"
    "gy_he_encrypt L (dr_desc st) (dr_aead_id st) (dr_hks st) hdrp (gy_frame_put (suite_id (dr_desc st)))
       (cap - (2 + GY_HE_SALT_LEN + 2)) r = (Inr (salt, enc), r')"
    "gy_drc_kdf_ck L (dr_desc st) (dr_cks st) = Inr (mk, ckn)"
    "gy_drc_derive_aead L (dr_desc st) mk (dr_aead_id st) (dr_ns st) = Inr (key, nonce)"
    "gy_aead_encrypt L (dr_aead_id st)
       (cap - (2 + (GY_HE_SALT_LEN + 2 + (length hdrp + gy_aead_tag_len (dr_aead_id st)))))
       key nonce (ad @ hdr_wire salt enc) pt = Inr ct"
    "msg = gy_frame_put (suite_id (dr_desc st)) @ hdr_wire salt enc @ ct"
    "st' = st\<lparr>dr_cks := ckn, dr_ns := dr_ns st + 1\<rparr>" "length ad \<le> GY_X3DH_AD_MAX"
    "dr_have_cks st \<noteq> 0" "dr_have_hks st \<noteq> 0"
  using assms
  by (auto simp: gy_dr_encrypt_def Let_def rbind_eq_Inr_iff
      split: if_splits sum.splits prod.splits)

lemma dr_encrypt_succeeds:
  assumes "live_suite L (dr_desc st)" "aead_total L" "aead_lengths L" "gy_aead_available L (dr_aead_id st)"
    and "dr_have_cks st \<noteq> 0" "dr_have_hks st \<noteq> 0" "length ad \<le> GY_X3DH_AD_MAX"
    and pk: "length (pub_pk (kp_pub (dr_dhs st))) = curve_pk_len (dr_desc st)"
    and size: "length pt + 200 \<le> SIZE_MAX"
    and cap: "32 + curve_pk_len (dr_desc st) + length pt + 2 * gy_aead_tag_len (dr_aead_id st) \<le> cap"
  shows "\<exists>msg st'. gy_dr_encrypt L st cap pt ad r = (Inr msg, st', Suc r)"
proof -
  let ?t = "gy_aead_tag_len (dr_aead_id st)"
  have p: "aead_prim_of (dr_aead_id st) \<noteq> None" by (rule aead_available_prim [OF assms(4)])
  have t: "?t \<le> 32" by (rule aead_len_bounds)
  have c: "curve_pk_len (dr_desc st) \<le> 56" using assms(1) by (simp add: live_suite_def suite_ok_def)
  define hdrp where "hdrp = gy_be32_put (ucast (curve_type (dr_desc st))) @ pub_pk (kp_pub (dr_dhs st)) @
    gy_be32_put (dr_pn st) @ gy_be32_put (dr_ns st)"
  have h: "gy_dr_header_encode (dr_desc st) (dr_header_of st) GY_DR_HEADER_MAX = Inr hdrp"
    using pk c by (simp add: gy_dr_header_encode_def dr_header_of_def hdrp_def GY_DR_HEADER_MAX_def)
  have lh: "length hdrp = 12 + curve_pk_len (dr_desc st)" using pk by (simp add: hdrp_def)
  have salt: "GY_HE_SALT_LEN = 16" by (simp add: GY_HE_SALT_LEN_def)
  have a: "length hdrp \<le> SIZE_MAX - ?t" "length hdrp + ?t \<le> cap - (2 + GY_HE_SALT_LEN + 2)"
      "length pt \<le> SIZE_MAX - ?t" "length pt + ?t \<le> cap - (2 + (GY_HE_SALT_LEN + 2 + (length hdrp + ?t)))"
    using lh c t size cap unfolding salt by linarith+
  obtain salt enc where e: "gy_he_encrypt L (dr_desc st) (dr_aead_id st) (dr_hks st) hdrp
      (gy_frame_put (suite_id (dr_desc st))) (cap - (2 + GY_HE_SALT_LEN + 2)) r = (Inr (salt, enc), Suc r)"
    using he_encrypt_succeeds [OF assms(1,2,4) a(1,2)] by blast
  obtain mk ckn where k: "gy_drc_kdf_ck L (dr_desc st) (dr_cks st) = Inr (mk, ckn)"
    using kdf_ck_total [OF assms(1)] by blast
  obtain key nonce where n: "gy_drc_derive_aead L (dr_desc st) mk (dr_aead_id st) (dr_ns st) = Inr (key, nonce)"
      "length nonce = gy_aead_nonce_len (dr_aead_id st)"
    using derive_aead_total [OF assms(1) p] by blast
  let ?cap = "cap - (2 + (GY_HE_SALT_LEN + 2 + (length hdrp + ?t)))"
  obtain ct where ct: "gy_aead_encrypt L (dr_aead_id st) ?cap key nonce (ad @ hdr_wire salt enc) pt = Inr ct"
    using aead_encrypt_succeeds [OF assms(2,4) n(2) a(3,4)] by blast
  have fits: "\<not> cap < 2 + (GY_HE_SALT_LEN + 2 + (length hdrp + ?t)) + length pt + ?t"
    using lh cap by (simp add: GY_HE_SALT_LEN_def)
  show ?thesis
    using assms(5,6,7) h e k n(1) ct fits by (simp add: gy_dr_encrypt_def Let_def)
qed

lemma header_of_wf:
  "length (pub_pk (kp_pub (dr_dhs st))) = curve_pk_len (dr_desc st) \<Longrightarrow> header_wf (dr_desc st) (dr_header_of st)"
  by (simp add: header_wf_def dr_header_of_def)

lemma dr_parse_frame_wire:
  assumes "suite_id (dr_desc st) = sid" "length salt = 16" "gy_aead_tag_len (dr_aead_id st) \<le> length ct"
    and "length enc = 12 + curve_pk_len (dr_desc st) + gy_aead_tag_len (dr_aead_id st)"
    and "length enc < 2 ^ 16"
  shows "dr_parse_frame st (gy_frame_put sid @ hdr_wire salt enc @ ct) =
     Inr \<lparr>fr_salt = salt, fr_enc = enc, fr_payload = ct, fr_wire = hdr_wire salt enc,
          fr_ad2 = gy_frame_put sid\<rparr>"
proof -
  have e: "unat (of_nat (length enc) :: u16) = length enc" using assms(5) by (simp add: unat_of_nat)
  have f: "length (gy_frame_put sid) = 2" by simp
  let ?m = "gy_frame_put sid @ hdr_wire salt enc @ ct"
  have d18: "drop 18 ?m = gy_be16_put (of_nat (length enc)) @ enc @ ct"
    using assms(2) by (simp add: hdr_wire_def)
  have d20: "drop 20 ?m = enc @ ct" using assms(2) by (simp add: hdr_wire_def)
  have dh: "drop (2 + (18 + length enc)) ?m = ct" using assms(2) by (simp add: hdr_wire_def)
  have lw: "length (hdr_wire salt enc) = 18 + length enc" using assms(2) by (simp add: hdr_wire_def)
  have s: "take 16 (hdr_wire salt enc @ ct) = salt" using assms(2) by (simp add: hdr_wire_def)
  have t: "take (18 + length enc) (hdr_wire salt enc @ ct) = hdr_wire salt enc" using lw by simp
  have c: "gy_frame_check ?m (suite_id (dr_desc st)) = Inr ()" using assms(1) by simp
  show ?thesis
    unfolding dr_parse_frame_def using assms(3,4) d18 d20 dh s t e lw
    by (simp add: Let_def GY_HE_SALT_LEN_def c)
qed

text \<open>The tie between a message and the states that sent it, for the receiver's use.\<close>

definition dr_receiver_of :: "gy_dr_state \<Rightarrow> gy_dr_state \<Rightarrow> bool" where
  "dr_receiver_of A B \<longleftrightarrow> dr_desc B = dr_desc A \<and> dr_aead_id B = dr_aead_id A"

lemma dr_encrypt_receive:
  assumes prov: "hash_lengths L" "aead_lengths L" "aead_correct L" and live: "live_suite L (dr_desc A)"
    and pk: "length (pub_pk (kp_pub (dr_dhs A))) = curve_pk_len (dr_desc A)"
    and enc: "gy_dr_encrypt L A cap pt ad r = (Inr msg, A', r')" and B: "dr_receiver_of A B"
  obtains fr hdrp mk ckn where
    "dr_parse_frame B msg = Inr fr"
    "gy_he_decrypt L (dr_desc B) (dr_aead_id B) (dr_hks A) (fr_salt fr) (fr_enc fr) (fr_ad2 fr)
       GY_DR_HEADER_MAX = Inr hdrp"
    "gy_dr_header_decode (dr_desc B) hdrp = Inr (dr_header_of A, length hdrp)"
    "gy_drc_kdf_ck L (dr_desc A) (dr_cks A) = Inr (mk, ckn)"
    "A' = A\<lparr>dr_cks := ckn, dr_ns := dr_ns A + 1\<rparr>" "length ad \<le> GY_X3DH_AD_MAX"
    "\<forall>cap' st. length pt \<le> cap' \<longrightarrow> dr_desc st = dr_desc A \<longrightarrow> dr_aead_id st = dr_aead_id A \<longrightarrow>
       dr_open_payload L st mk (dr_ns A) fr cap' ad = Inr pt"
    "dr_have_cks A \<noteq> 0" "dr_have_hks A \<noteq> 0"
proof -
  obtain hdrp salt enc mk ckn key nonce ct where e:
    "gy_dr_header_encode (dr_desc A) (dr_header_of A) GY_DR_HEADER_MAX = Inr hdrp"
    "gy_he_encrypt L (dr_desc A) (dr_aead_id A) (dr_hks A) hdrp (gy_frame_put (suite_id (dr_desc A)))
       (cap - (2 + GY_HE_SALT_LEN + 2)) r = (Inr (salt, enc), r')"
    "gy_drc_kdf_ck L (dr_desc A) (dr_cks A) = Inr (mk, ckn)"
    "gy_drc_derive_aead L (dr_desc A) mk (dr_aead_id A) (dr_ns A) = Inr (key, nonce)"
    "gy_aead_encrypt L (dr_aead_id A)
       (cap - (2 + (GY_HE_SALT_LEN + 2 + (length hdrp + gy_aead_tag_len (dr_aead_id A)))))
       key nonce (ad @ hdr_wire salt enc) pt = Inr ct"
    "msg = gy_frame_put (suite_id (dr_desc A)) @ hdr_wire salt enc @ ct"
    "A' = A\<lparr>dr_cks := ckn, dr_ns := dr_ns A + 1\<rparr>" "length ad \<le> GY_X3DH_AD_MAX"
    "dr_have_cks A \<noteq> 0" "dr_have_hks A \<noteq> 0"
    using dr_encrypt_ok [OF enc] by metis
  note wf = header_of_wf [OF pk]
  have cpl: "curve_pk_len (dr_desc A) \<le> 56" using live by (simp add: live_suite_def suite_ok_def)
  have lh: "length hdrp = 12 + curve_pk_len (dr_desc A)" by (rule header_encode_ok [OF wf e(1)])
  note le = he_encrypt_len [OF prov(1,2) e(2)]
  have lc: "length ct = length pt + gy_aead_tag_len (dr_aead_id A)"
    using aead_encrypt_len [OF prov(2) e(5)] by simp
  have small: "length enc < 2 ^ 16"
  proof -
    have "length enc < 65536" using le(2) lh cpl aead_len_bounds(2) [of "dr_aead_id A"] by linarith
    then show ?thesis by simp
  qed
  let ?fr = "\<lparr>fr_salt = salt, fr_enc = enc, fr_payload = ct, fr_wire = hdr_wire salt enc,
      fr_ad2 = gy_frame_put (suite_id (dr_desc A))\<rparr>"
  show thesis
  proof (rule that [of ?fr hdrp mk ckn])
    show "dr_parse_frame B msg = Inr ?fr"
      unfolding e(6) using B le lh lc small
      by (intro dr_parse_frame_wire) (simp_all add: dr_receiver_of_def)
    have "length hdrp \<le> GY_DR_HEADER_MAX" using lh cpl by (simp add: GY_DR_HEADER_MAX_def)
    then show "gy_he_decrypt L (dr_desc B) (dr_aead_id B) (dr_hks A) (fr_salt ?fr) (fr_enc ?fr)
        (fr_ad2 ?fr) GY_DR_HEADER_MAX = Inr hdrp"
      using B he_decrypt_encrypt [OF prov(2,3) e(2)] by (simp add: dr_receiver_of_def)
    show "gy_dr_header_decode (dr_desc B) hdrp = Inr (dr_header_of A, length hdrp)"
      using header_decode_encode_append [OF wf e(1), of "[]"] B by (simp add: dr_receiver_of_def)
    show "\<forall>cap' st. length pt \<le> cap' \<longrightarrow> dr_desc st = dr_desc A \<longrightarrow> dr_aead_id st = dr_aead_id A \<longrightarrow>
        dr_open_payload L st mk (dr_ns A) ?fr cap' ad = Inr pt"
      using e(4) aead_decrypt_encrypt [OF prov(2,3) e(5)] by (simp add: dr_open_payload_def)
  qed (use e in simp_all)
qed

subsection \<open>State invariant\<close>

text \<open>Keys have their length, the store is consistent, a receiving chain has its header key.\<close>

definition dr_inv :: "gy_dr_state \<Rightarrow> bool" where
  "dr_inv st \<longleftrightarrow>
     store_inv (dr_skipped st) \<and> length (dr_rk st) = 32 \<and> length (dr_cks st) = 32 \<and>
     length (dr_ckr st) = 32 \<and> length (dr_hks st) = 32 \<and> length (dr_hkr st) = 32 \<and>
     length (dr_nhks st) = 32 \<and> length (dr_nhkr st) = 32 \<and>
     (dr_have_dhr st \<noteq> 0 \<longrightarrow> length (dr_dhr st) = curve_pk_len (dr_desc st)) \<and>
     (dr_have_ckr st \<noteq> 0 \<longrightarrow> dr_have_hkr st \<noteq> 0 \<and> dr_have_dhr st \<noteq> 0)"

lemma kdf_ck_len:
  "live_suite L d \<Longrightarrow> gy_drc_kdf_ck L d ck = Inr (mk, ck') \<Longrightarrow> length mk = 32 \<and> length ck' = 32"
  using kdf_ck_total [of L d ck] by auto

lemma kdf_rk_len:
  "live_suite L d \<Longrightarrow> gy_drc_kdf_rk L d rk ikm = Inr (rk', ck, nhk) \<Longrightarrow>
     length rk' = 32 \<and> length ck = 32 \<and> length nhk = 32"
  using kdf_rk_total [of L d rk ikm] by auto

lemma skip_forward_ck_len:
  "live_suite L d \<Longrightarrow> length ck = 32 \<Longrightarrow> gy_drc_skip_forward L d s ck nr to hk = (rc, s', ck', nr') \<Longrightarrow>
     length ck' = 32"
proof (induction L d s ck nr to hk rule: gy_drc_skip_forward.induct)
  case (1 L d s ck nr to hk)
  show ?case
  proof (cases "nr < to")
    case False
    then show ?thesis using "1.prems" by (simp add: gy_drc_skip_forward.simps)
  next
    case True
    obtain mk ckn where k: "gy_drc_kdf_ck L d ck = Inr (mk, ckn)" "length ckn = 32"
      using kdf_ck_total [OF "1.prems"(1)] by blast
    then have "gy_drc_skip_forward L d (store_insert s hk nr mk) ckn (nr + 1) to hk = (rc, s', ck', nr')"
      using "1.prems"(3) True by (simp add: gy_drc_skip_forward.simps [of L d s ck])
    then show ?thesis using "1.IH" [OF True k(1) refl "1.prems"(1) k(2)] by simp
  qed
qed

lemma dr_skip_to_inv:
  assumes "live_suite L (dr_desc st)" "dr_inv st" "dr_skip_to L st n = Inr st'"
  shows "dr_inv st'" "dr_desc st' = dr_desc st" "dr_have_ckr st' = dr_have_ckr st"
proof -
  obtain s ck nr where f: "gy_drc_skip_forward L (dr_desc st) (dr_skipped st) (dr_ckr st) (dr_nr st) n (dr_hkr st)
      = (Inr (), s, ck, nr)" "st' = st\<lparr>dr_skipped := s, dr_ckr := ck, dr_nr := nr\<rparr>"
    using assms(3) by (auto simp: dr_skip_to_def split: prod.splits sum.splits)
  have "store_inv s" using skip_forward_inv [OF _ f(1)] assms(2) by (simp add: dr_inv_def)
  moreover have "length ck = 32" using skip_forward_ck_len [OF assms(1) _ f(1)] assms(2) by (simp add: dr_inv_def)
  ultimately show "dr_inv st'" "dr_desc st' = dr_desc st" "dr_have_ckr st' = dr_have_ckr st"
    using assms(2) by (simp_all add: f(2) dr_inv_def)
qed

lemma dh_ratchet_inv:
  assumes "live_suite L (dr_desc st)" "dr_inv st" "length pk = curve_pk_len (dr_desc st)"
    and "dh_ratchet L st pk r = Some (Inr st', r')"
  shows "dr_inv st' \<and> dr_desc st' = dr_desc st"
  using assms(4) kdf_rk_len [OF assms(1)] assms(2,3)
  by (auto simp: dh_ratchet_def Let_def cbind_eq_Some_Inr_iff dr_inv_def)

lemma dr_advance_inv:
  assumes "live_suite L (dr_desc st)" "dr_inv st" "header_wf (dr_desc st) h"
    and "dr_advance L st h r = Some (Inr st', r')"
  shows "dr_inv st' \<and> dr_desc st' = dr_desc st"
proof (cases "dr_new_remote st h")
  case True
  then obtain st1 st2 r1 where a: "(if dr_have_ckr st \<noteq> 0 then dr_skip_to L st (hdr_pn h) else Inr st) = Inr st1"
      "dh_ratchet L st1 (hdr_ratchet_pk h) r = Some (Inr st2, r1)" "dr_skip_to L st2 (hdr_n h) = Inr st'"
    using assms(4) by (auto simp: dr_advance_def cbind_eq_Some_Inr_iff split: if_splits)
  have 1: "dr_inv st1" "dr_desc st1 = dr_desc st"
    using a(1) dr_skip_to_inv [OF assms(1,2)] assms(2) by (auto split: if_splits)
  have 2: "dr_inv st2" "dr_desc st2 = dr_desc st"
    using dh_ratchet_inv [OF _ 1(1) _ a(2)] 1(2) assms(1,3) by (simp_all add: header_wf_def)
  show ?thesis using dr_skip_to_inv [OF _ 2(1) a(3)] 2(2) assms(1) by simp
next
  case False
  then have "dr_skip_to L st (hdr_n h) = Inr st'"
    using assms(4) by (auto simp: dr_advance_def split: if_splits)
  from dr_skip_to_inv [OF assms(1,2) this] show ?thesis by simp
qed

text \<open>The suite and the negotiated cipher never change.\<close>

lemma dr_skip_to_frame:
  "dr_skip_to L st n = Inr st' \<Longrightarrow> dr_desc st' = dr_desc st \<and> dr_aead_id st' = dr_aead_id st"
  by (auto simp: dr_skip_to_def split: prod.splits sum.splits)

lemma dh_ratchet_frame:
  "dh_ratchet L st pk r = Some (Inr st', r') \<Longrightarrow> dr_desc st' = dr_desc st \<and> dr_aead_id st' = dr_aead_id st"
  by (auto simp: dh_ratchet_def Let_def cbind_eq_Some_Inr_iff)

lemma dr_advance_frame:
  assumes "dr_advance L st h r = Some (Inr st', r')"
  shows "dr_desc st' = dr_desc st \<and> dr_aead_id st' = dr_aead_id st"
proof (cases "dr_new_remote st h")
  case True
  then obtain st1 st2 r1 where a: "(if dr_have_ckr st \<noteq> 0 then dr_skip_to L st (hdr_pn h) else Inr st) = Inr st1"
      "dh_ratchet L st1 (hdr_ratchet_pk h) r = Some (Inr st2, r1)" "dr_skip_to L st2 (hdr_n h) = Inr st'"
    using assms by (auto simp: dr_advance_def cbind_eq_Some_Inr_iff split: if_splits)
  then show ?thesis
    using dr_skip_to_frame [of L st "hdr_pn h" st1] dh_ratchet_frame [OF a(2)] dr_skip_to_frame [OF a(3)]
    by (auto split: if_splits)
next
  case False
  then have "dr_skip_to L st (hdr_n h) = Inr st'"
    using assms by (auto simp: dr_advance_def split: if_splits)
  from dr_skip_to_frame [OF this] show ?thesis .
qed

lemma dr_finish_inv:
  assumes "live_suite L (dr_desc st)" "dr_inv st" "dr_finish L st h fr cap ad = Inr (pt, st')"
  shows "dr_inv st' \<and> dr_desc st' = dr_desc st"
  using assms(3) kdf_ck_len [OF assms(1)] assms(2) post_success_inv_abs(1) [of "dr_skipped st"]
  by (auto simp: dr_finish_def Let_def rbind_eq_Inr_iff dr_inv_def)

lemma dr_try_skipped_inv:
  assumes "dr_inv st" "dr_try_skipped L st fr cap ad = (m, Inr (Some (pt, st')))"
  shows "dr_inv st' \<and> dr_desc st' = dr_desc st"
proof -
  obtain i where i: "i < length (ss_ent (dr_skipped st))"
      "st' = st\<lparr>dr_skipped := gy_drc_store_post_success (gy_drc_store_remove (dr_skipped st) i)\<rparr>"
    using assms(2)
    by (auto simp: dr_try_skipped_def find_Some_iff split: prod.splits option.splits sum.splits)
  then show ?thesis
    using assms(1) skipq.consume_inv [of "dr_skipped st" i] by (simp add: dr_inv_def)
qed

lemma dr_decrypt_cases:
  assumes "gy_dr_decrypt_assoc L st cap msg ad r = Some (res, m, st', r')"
  obtains e where "res = Inl e" "st' = st"
  | fr m' pt where "res = Inr pt" "dr_parse_frame st msg = Inr fr" "r' = r"
      "dr_try_skipped L st fr cap ad = (m', Inr (Some (pt, st')))"
  | fr hdrp h c stage pt where "res = Inr pt" "dr_parse_frame st msg = Inr fr"
      "dr_open_header L st fr = Some hdrp" "gy_dr_header_decode (dr_desc st) hdrp = Inr (h, c)"
      "dr_advance L st h r = Some (Inr stage, r')" "dr_finish L stage h fr cap ad = Inr (pt, st')"
  using assms
  by (auto simp: gy_dr_decrypt_assoc_def split: if_splits sum.splits option.splits prod.splits)

text \<open>
  C13. Commit after verify. When decryption reports an error the state is the one before the call,
  bit for bit, whatever the message was; when it succeeds, the plaintext is what the payload opened
  to under a message key that came from a stored entry or from the staged receiving chain.
\<close>

theorem dr_decrypt_commit_after_verify:
  assumes "gy_dr_decrypt_assoc L st cap msg ad r = Some (res, m, st', r')"
  shows "case res of
      Inl e \<Rightarrow> st' = st
    | Inr pt \<Rightarrow> (\<exists>fr mk n. dr_parse_frame st msg = Inr fr \<and> dr_open_payload L st mk n fr cap ad = Inr pt \<and>
        ((\<exists>e \<in> set (ss_ent (dr_skipped st)). sk_mk e = mk \<and> sk_n e = n) \<or>
         (\<exists>h stage r1 ckn. dr_advance L st h r = Some (Inr stage, r1) \<and> n = hdr_n h \<and>
            gy_drc_kdf_ck L (dr_desc stage) (dr_ckr stage) = Inr (mk, ckn))))"
  using assms
proof (cases rule: dr_decrypt_cases)
  case (1 e)
  then show ?thesis by simp
next
  case (2 fr m' pt)
  have "\<exists>mk n. dr_open_payload L st mk n fr cap ad = Inr pt \<and>
      (\<exists>e \<in> set (ss_ent (dr_skipped st)). sk_mk e = mk \<and> sk_n e = n)"
    using 2(4)
    by (auto simp: dr_try_skipped_def find_Some_iff dr_open_payload_def
        split: prod.splits option.splits sum.splits) (metis nth_mem rbind_Inr case_prod_conv)
  then show ?thesis using 2(1,2) by auto
next
  case (3 fr hdrp h c stage pt)
  obtain mk ckn where k: "gy_drc_kdf_ck L (dr_desc stage) (dr_ckr stage) = Inr (mk, ckn)"
      "dr_open_payload L (stage\<lparr>dr_ckr := ckn, dr_nr := dr_nr stage + 1\<rparr>) mk (hdr_n h) fr cap ad = Inr pt"
    using 3(6) by (auto simp: dr_finish_def Let_def rbind_eq_Inr_iff)
  have "dr_desc stage = dr_desc st \<and> dr_aead_id stage = dr_aead_id st"
    using dr_advance_frame [OF 3(5)] .
  then have "dr_open_payload L st mk (hdr_n h) fr cap ad = Inr pt" using k(2) by (simp add: dr_open_payload_def)
  then show ?thesis using 3(2,5) k(1) unfolding 3(1) sum.case by blast
qed

text \<open>
  C14. The state invariant (key lengths, consistency of the skipped-key store, a header key for every
  receiving chain) holds after every call of decrypt and encrypt that returns.
\<close>

theorem dr_inv_preserved:
  assumes "live_suite L (dr_desc st)" "dr_inv st"
  shows "(gy_dr_decrypt_assoc L st cap msg ad r = Some (res, m, st', r') \<longrightarrow> dr_inv st') \<and>
    (gy_dr_encrypt L st cap' pt ad r = (res', st'', r'') \<longrightarrow> dr_inv st'')"
proof (intro conjI impI)
  assume "gy_dr_decrypt_assoc L st cap msg ad r = Some (res, m, st', r')"
  then show "dr_inv st'"
  proof (cases rule: dr_decrypt_cases)
    case (1 e)
    then show ?thesis using assms(2) by simp
  next
    case (2 fr m' pt)
    then show ?thesis using dr_try_skipped_inv [OF assms(2)] by blast
  next
    case (3 fr hdrp h c stage pt)
    have "dr_inv stage \<and> dr_desc stage = dr_desc st"
      using dr_advance_inv [OF assms header_decode_wf(1) [OF 3(4)] 3(5)] .
    then show ?thesis using dr_finish_inv [OF _ _ 3(6)] assms(1) by simp
  qed
next
  assume "gy_dr_encrypt L st cap' pt ad r = (res', st'', r'')"
  then show "dr_inv st''"
    using assms kdf_ck_len [OF assms(1)]
    by (auto simp: gy_dr_encrypt_def Let_def dr_inv_def split: if_splits sum.splits prod.splits)
qed

end
