(* ===== verification/GY_KeyAgree.thy ===== *)
theory GY_KeyAgree
  imports GY_Prekeys GY_SkipStore
begin

text \<open>
  Key agreement at the level of a suite descriptor: two generated curve key pairs agree on the
  Diffie-Hellman value, and a secret encapsulated to a generated KEM key is the one decapsulated.
  Both follow from the documented behaviour of the primitives for every row of the suite table.
\<close>

subsection \<open>Key pairs agree\<close>

definition keypair_of :: "gy_suite_desc \<Rightarrow> gy_keypair \<Rightarrow> bool" where
  "keypair_of desc kp \<longleftrightarrow> (\<exists>r r'. op_keypair desc r = (Inr (pub_pk (kp_pub kp), kp_sk kp), r'))"

lemma suite_keypair_dh:
  assumes "gy_suite_desc L sid = Some d" "dh_commutes L" "op_keypair d r = (Inr (pk, sk), r1)"
    "op_keypair d r' = (Inr (pk', sk'), r1')"
  shows "op_dh d sk pk' = op_dh d sk' pk"
proof -
  have c25: "gy_x25519 L sk pk' = gy_x25519 L sk' pk"
    if "gy_x25519_keypair L r = (Inr (pk, sk), r1)" "gy_x25519_keypair L r' = (Inr (pk', sk'), r1')"
  proof -
    have "crypto_scalarmult_curve25519 L sk pk' = crypto_scalarmult_curve25519 L sk' pk"
      using x25519_keypair_ok [OF that(1)] x25519_keypair_ok [OF that(2)] assms(2)
      unfolding dh_commutes_def by blast
    then show ?thesis by (simp add: gy_x25519_def)
  qed
  have c448: "gy_x448 L sk pk' = gy_x448 L sk' pk"
    if "gy_x448_keypair L r = (Inr (pk, sk), r1)" "gy_x448_keypair L r' = (Inr (pk', sk'), r1')"
  proof -
    have "decaf_x448 L pk' sk = decaf_x448 L pk sk'"
      using x448_keypair_ok [OF that(1)] x448_keypair_ok [OF that(2)] assms(2)
      unfolding dh_commutes_def by blast
    then show ?thesis by (simp add: gy_x448_def)
  qed
  from assms(1) show ?thesis
    by (cases rule: suite_desc_cases) (use assms(3,4) c25 c448 in \<open>simp_all add: suite_row_defs\<close>)
qed

lemma keypair_dh_agree:
  assumes "live_suite L d" "dh_commutes L" "keypair_of d a" "keypair_of d b"
  shows "op_dh d (kp_sk a) (pub_pk (kp_pub b)) = op_dh d (kp_sk b) (pub_pk (kp_pub a))"
  using assms suite_keypair_dh unfolding live_suite_def keypair_of_def by metis

lemma keypair_pk_len:
  assumes "live_suite L d" "dh_lengths L" "keypair_of d kp"
  shows "length (pub_pk (kp_pub kp)) = curve_pk_len d"
proof -
  have "gy_suite_desc L (suite_id d) = Some d" using assms(1) by (simp add: live_suite_def)
  then show ?thesis
    by (cases rule: suite_desc_cases)
      (use assms(2,3) in \<open>auto simp: keypair_of_def suite_row_defs dh_lengths_def
         dest!: x25519_keypair_ok x448_keypair_ok\<close>)
qed

subsection \<open>Encapsulation agrees\<close>

definition kem_pair_of :: "gy_suite_desc \<Rightarrow> bytes \<Rightarrow> bytes \<Rightarrow> bool" where
  "kem_pair_of desc ek dk \<longleftrightarrow> (\<exists>r r'. the (op_kem_keypair desc) r = (Inr (ek, dk), r'))"

lemma suite_kem_agree:
  assumes "live_suite L d" "is_hybrid d" "kem_correct L" "kem_pair_of d ek dk"
    and "the (op_kem_encap d) ek r = (Inr (ct, ss), r')"
  shows "the (op_kem_decap d) ct dk = Inr ss"
proof -
  have k: "gy_mlkem_decaps L alg ct dk = Inr ss"
    if "gy_mlkem_keypair L alg r1 = (Inr (ek, dk), r2)" "gy_mlkem_encaps L alg ek r = (Inr (ct, ss), r')"
    for alg r1 r2
  proof -
    have "OQS_KEM_keypair L alg r1 = (Some (ek, dk), r2)" "OQS_KEM_encaps L alg ek r = (Some (ct, ss), r')"
      using that by (auto simp: gy_mlkem_keypair_def gy_mlkem_encaps_def split: prod.splits option.splits)
    then have "OQS_KEM_decaps L alg ct dk = Some ss" using assms(3) unfolding kem_correct_def by blast
    then show ?thesis by (simp add: gy_mlkem_decaps_def)
  qed
  have "gy_suite_desc L (suite_id d) = Some d" using assms(1) by (simp add: live_suite_def)
  then show ?thesis
    by (cases rule: suite_desc_cases)
      (use assms(2,4,5) k in \<open>auto simp: kem_pair_of_def suite_row_defs\<close>)
qed

lemma suite_kem_ct_len:
  assumes "live_suite L d" "is_hybrid d" "kem_lengths L" "the (op_kem_encap d) ek r = (Inr (ct, ss), r')"
  shows "length ct = kem_ct_len d \<and> length ss = kem_ss_len d"
proof -
  have k: "length ct = snd (snd (kem_sizes alg)) \<and> length ss = 32"
    if "gy_mlkem_encaps L alg ek r = (Inr (ct, ss), r')" for alg
  proof -
    have "OQS_KEM_encaps L alg ek r = (Some (ct, ss), r')"
      using that by (auto simp: gy_mlkem_encaps_def split: prod.splits option.splits)
    then show ?thesis using assms(3) unfolding kem_lengths_def by blast
  qed
  have "gy_suite_desc L (suite_id d) = Some d" using assms(1) by (simp add: live_suite_def)
  then show ?thesis
    by (cases rule: suite_desc_cases)
      (use assms(2,4) k [of ML_KEM_512] k [of ML_KEM_1024] in \<open>auto simp: suite_row_defs\<close>)
qed

end
