(* ===== verification/GY_DRSync.thy ===== *)
theory GY_DRSync
  imports GY_DoubleRatchet GY_KeyAgree
begin

text \<open>
  Two ends of a classical Double Ratchet session: the relation between a sending state and the
  receiving state of the peer, and that messages keep it. \<open>recv_sync\<close> relates a sender to a
  receiver that follows its current chain, possibly with messages in flight; \<open>turn_sync\<close> relates a
  sender to a receiver that has not yet seen the sender's current ratchet key. The theorems: a
  message decrypts to its plaintext in either situation, with gaps up to the bound, the skipped
  keys are stored, the peer can answer, a replay is rejected.
\<close>

subsection \<open>Header trials\<close>

definition opens :: "provider \<Rightarrow> gy_dr_state \<Rightarrow> dr_frame \<Rightarrow> bytes \<Rightarrow> bool" where
  "opens L st fr hk \<longleftrightarrow>
     (\<exists>hdrp. gy_he_decrypt L (dr_desc st) (dr_aead_id st) hk (fr_salt fr) (fr_enc fr) (fr_ad2 fr)
        GY_DR_HEADER_MAX = Inr hdrp)"

text \<open>
  No header key of a skipped epoch other than \<open>hk\<close> opens the header of the frame: the AEAD is not
  key committing by contract, so this is a hypothesis on the message, not a law of the provider.
\<close>

definition no_stray :: "provider \<Rightarrow> gy_dr_state \<Rightarrow> bytes \<Rightarrow> bytes \<Rightarrow> bool" where
  "no_stray L st msg hk \<longleftrightarrow>
     (\<forall>fr. dr_parse_frame st msg = Inr fr \<longrightarrow>
        list_all (\<lambda>x. fst x = hk \<or> \<not> opens L st fr (fst x)) (store_abs (dr_skipped st)))"

lemma store_inv_length: "store_inv s \<Longrightarrow> length (ss_epochs s) = GY_MAX_SKIP"
  by (simp add: store_inv_def)

lemma live_epoch_item:
  assumes "store_inv s" "i < GY_MAX_SKIP" "0 < ep_refs (ss_epochs s ! i)"
  shows "\<exists>x \<in> set (store_abs s). fst x = ep_hk (ss_epochs s ! i)"
proof -
  have "0 < refs_of (ss_ent s) i" using assms by (simp add: store_inv_def)
  then obtain e where "e \<in> set (ss_ent s)" "sk_epoch e = i"
    by (auto simp: refs_of_def filter_empty_conv)
  then show ?thesis by (force simp: store_abs_def item_of_def)
qed

lemma no_stray_epochs:
  assumes "store_inv (dr_skipped st)" "no_stray L st msg hk" "dr_parse_frame st msg = Inr fr"
  shows "list_all (\<lambda>e. ep_refs e = 0 \<or> ep_hk e = hk \<or> \<not> opens L st fr (ep_hk e)) (ss_epochs (dr_skipped st))"
proof -
  have "ep_hk e = hk \<or> \<not> opens L st fr (ep_hk e)"
    if m: "e \<in> set (ss_epochs (dr_skipped st))" "ep_refs e \<noteq> 0" for e
  proof -
    obtain i where "i < GY_MAX_SKIP" "e = ss_epochs (dr_skipped st) ! i"
      using m(1) unfolding in_set_conv_nth store_inv_length [OF assms(1)] by blast
    then obtain x where "x \<in> set (store_abs (dr_skipped st))" "fst x = ep_hk e"
      using live_epoch_item [OF assms(1)] m(2) by blast
    then show ?thesis using assms(2,3) by (auto simp: no_stray_def list_all_iff)
  qed
  then show ?thesis by (auto simp: list_all_iff)
qed

lemma scan_only:
  assumes "list_all (\<lambda>e. ep_refs e = 0 \<or> ep_hk e = hk \<or> \<not> opens L st fr (ep_hk e)) es"
    and "gy_he_decrypt L (dr_desc st) (dr_aead_id st) hk (fr_salt fr) (fr_enc fr) (fr_ad2 fr)
           GY_DR_HEADER_MAX = Inr hdrp"
    and "gy_dr_header_decode (dr_desc st) hdrp = Inr (h, c)"
  shows "(dr_scan_epochs L st fr slot es m = (m, None) \<and> (\<forall>e \<in> set es. ep_refs e > 0 \<longrightarrow> ep_hk e \<noteq> hk)) \<or>
     (\<exists>i < length es. dr_scan_epochs L st fr slot es m = (True, Some (slot + i, h)) \<and>
        0 < ep_refs (es ! i) \<and> ep_hk (es ! i) = hk)"
  using assms(1)
proof (induction es arbitrary: slot)
  case Nil
  then show ?case by simp
next
  case (Cons e es)
  show ?case
  proof (cases "ep_refs e > 0 \<and> ep_hk e = hk")
    case True
    then have "dr_scan_epochs L st fr slot (e # es) m = (True, Some (slot + 0, h))"
      using assms(2,3) by simp
    then show ?thesis using True by fastforce
  next
    case False
    then have "dr_scan_epochs L st fr slot (e # es) m = dr_scan_epochs L st fr (Suc slot) es m"
      using Cons.prems by (auto simp: opens_def split: sum.splits)
    then show ?thesis
      using Cons.IH [of "Suc slot"] Cons.prems False by fastforce
  qed
qed

subsection \<open>Relation on one chain\<close>

definition below :: "gy_skip_store \<Rightarrow> bytes \<Rightarrow> u32 \<Rightarrow> bool" where
  "below s hk n \<longleftrightarrow> (\<forall>x \<in> set (store_abs s). fst x = hk \<longrightarrow> fst (snd x) < n)"

definition recv_sync :: "provider \<Rightarrow> gy_dr_state \<Rightarrow> gy_dr_state \<Rightarrow> bool" where
  "recv_sync L A B \<longleftrightarrow>
     dr_receiver_of A B \<and> dr_have_ckr B \<noteq> 0 \<and> dr_have_hkr B \<noteq> 0 \<and> dr_have_dhr B \<noteq> 0 \<and>
     dr_hkr B = dr_hks A \<and> dr_dhr B = pub_pk (kp_pub (dr_dhs A)) \<and> dr_nr B \<le> dr_ns A \<and>
     (\<exists>mks. chain_run L (dr_desc A) (unat (dr_ns A) - unat (dr_nr B)) (dr_ckr B) = Inr (mks, dr_cks A)) \<and>
     store_inv (dr_skipped B) \<and> below (dr_skipped B) (dr_hkr B) (dr_nr B)"

lemma below_no_entry:
  assumes "store_inv s" "below s hk n" "n \<le> m" "slot < GY_MAX_SKIP" "ep_hk (ss_epochs s ! slot) = hk"
  shows "find (\<lambda>i. sk_epoch (ss_ent s ! i) = slot \<and> sk_n (ss_ent s ! i) = m) [0..<length (ss_ent s)] = None"
proof -
  have "\<not> (sk_epoch (ss_ent s ! i) = slot \<and> sk_n (ss_ent s ! i) = m)" if "i < length (ss_ent s)" for i
  proof
    assume a: "sk_epoch (ss_ent s ! i) = slot \<and> sk_n (ss_ent s ! i) = m"
    have "store_abs s ! i \<in> set (store_abs s)" using that by simp
    then have "sk_n (ss_ent s ! i) < n"
      using assms(2,5) a that unfolding below_def by (auto simp: store_abs_nth item_of_def)
    with a assms(3) show False by simp
  qed
  then show ?thesis by (auto simp: find_None_iff)
qed

lemma try_skipped_passes:
  assumes "store_inv (dr_skipped B)" "below (dr_skipped B) hk n" "n \<le> hdr_n h"
    and "dr_parse_frame B msg = Inr fr" "no_stray L B msg hk"
    and "gy_he_decrypt L (dr_desc B) (dr_aead_id B) hk (fr_salt fr) (fr_enc fr) (fr_ad2 fr)
           GY_DR_HEADER_MAX = Inr hdrp"
    and "gy_dr_header_decode (dr_desc B) hdrp = Inr (h, c)"
  shows "\<exists>m. dr_try_skipped L B fr cap ad = (m, Inr None)"
proof -
  have len: "length (ss_epochs (dr_skipped B)) = GY_MAX_SKIP" using assms(1) by (simp add: store_inv_def)
  have "list_all (\<lambda>e. ep_refs e = 0 \<or> ep_hk e = hk \<or> \<not> opens L B fr (ep_hk e)) (ss_epochs (dr_skipped B))"
    by (rule no_stray_epochs [OF assms(1,5,4)])
  from scan_only [OF this assms(6,7), of 0 False]
  show ?thesis
  proof (elim disjE exE conjE)
    assume "dr_scan_epochs L B fr 0 (ss_epochs (dr_skipped B)) False = (False, None)"
    then show ?thesis by (intro exI [of _ False]) (simp add: dr_try_skipped_def)
  next
    fix i assume i: "i < length (ss_epochs (dr_skipped B))"
      "dr_scan_epochs L B fr 0 (ss_epochs (dr_skipped B)) False = (True, Some (0 + i, h))"
      "ep_hk (ss_epochs (dr_skipped B) ! i) = hk"
    then have "find (\<lambda>j. sk_epoch (ss_ent (dr_skipped B) ! j) = i \<and>
        sk_n (ss_ent (dr_skipped B) ! j) = hdr_n h) [0..<length (ss_ent (dr_skipped B))] = None"
      using below_no_entry [OF assms(1,2,3)] len by simp
    then show ?thesis using i by (intro exI [of _ True]) (simp add: dr_try_skipped_def)
  qed
qed

lemma set_skip_items:
  assumes "x \<in> set (skip_items hk nr age mks)" "unat nr + length mks < 2 ^ 32"
  shows "fst x = hk \<and> nr \<le> fst (snd x) \<and> unat (fst (snd x)) < unat nr + length mks"
  using assms
proof (induction mks arbitrary: nr)
  case Nil
  then show ?case by simp
next
  case (Cons mk mks)
  have s: "unat (nr + 1) = Suc (unat nr)"
    using Cons.prems(2) unat_add_lem [of nr 1] by simp
  show ?case
  proof (cases "x = (hk, nr, age, mk)")
    case True
    then show ?thesis by simp
  next
    case False
    then have "x \<in> set (skip_items hk (nr + 1) age mks)" using Cons.prems(1) by simp
    from Cons.IH [OF this] show ?thesis using Cons.prems(2) s by (simp add: word_le_nat_alt)
  qed
qed

lemma set_fifo_pushes:
  "0 < cap \<Longrightarrow> length q \<le> cap \<Longrightarrow> set (foldl (fifo_push cap) q xs) \<subseteq> set q \<union> set xs"
  by (auto simp: fifo_pushes dest: in_set_dropD)

lemma chain_run_snoc:
  "chain_run L d k ck = Inr (mks, ck1) \<Longrightarrow> gy_drc_kdf_ck L d ck1 = Inr (mk, ck2) \<Longrightarrow>
     chain_run L d (Suc k) ck = Inr (mks @ [mk], ck2)"
proof (induction k arbitrary: ck mks)
  case 0
  then show ?case by simp
next
  case (Suc k)
  then obtain m c ms where "gy_drc_kdf_ck L d ck = Inr (m, c)" "chain_run L d k c = Inr (ms, ck1)"
      "mks = m # ms"
    by (auto simp: rbind_eq_Inr_iff)
  then show ?case using Suc.IH [of c ms] Suc.prems(2) by simp
qed

text \<open>Skipping to \<open>n\<close> along a chain: the state reached, and that nothing at or above \<open>n\<close> is stored.\<close>

lemma skip_to_spec:
  assumes "store_inv (dr_skipped st)" "below (dr_skipped st) (dr_hkr st) (dr_nr st)" "dr_nr st \<le> n"
    and "chain_run L (dr_desc st) (unat n - unat (dr_nr st)) (dr_ckr st) = Inr (mks, ck)"
  obtains s' where
    "dr_skip_to L st n = Inr (st\<lparr>dr_skipped := s', dr_ckr := ck, dr_nr := n\<rparr>)"
    "store_inv s'" "below s' (dr_hkr st) n" "ss_recv_count s' = ss_recv_count (dr_skipped st)"
    "store_abs s' = foldl (fifo_push GY_MAX_SKIP) (store_abs (dr_skipped st))
       (skip_items (dr_hkr st) (dr_nr st) (ss_recv_count (dr_skipped st)) mks)"
proof -
  obtain s' where s': "gy_drc_skip_forward L (dr_desc st) (dr_skipped st) (dr_ckr st) (dr_nr st) n (dr_hkr st)
        = (Inr (), s', ck, n)" "store_inv s'" "ss_recv_count s' = ss_recv_count (dr_skipped st)"
      "store_abs s' = foldl (fifo_push GY_MAX_SKIP) (store_abs (dr_skipped st))
         (skip_items (dr_hkr st) (dr_nr st) (ss_recv_count (dr_skipped st)) mks)"
    using skip_forward_spec [OF assms(1,3,4)] by blast
  have len: "length mks = unat n - unat (dr_nr st)" by (rule chain_run_length [OF assms(4)])
  have le: "unat (dr_nr st) \<le> unat n" using assms(3) by (simp add: word_le_nat_alt)
  have "unat n < 2 ^ 32" using unsigned_less [of n, where 'a = nat] by simp
  then have bound: "unat (dr_nr st) + length mks < 2 ^ 32" using len le by simp
  have "fst (snd x) < n" if x: "x \<in> set (store_abs s')" "fst x = dr_hkr st" for x
  proof -
    have "x \<in> set (store_abs (dr_skipped st)) \<union>
        set (skip_items (dr_hkr st) (dr_nr st) (ss_recv_count (dr_skipped st)) mks)"
      using x(1) set_fifo_pushes [of GY_MAX_SKIP "store_abs (dr_skipped st)"] skipq.abs_bound [OF assms(1)]
        skipq.cap_pos unfolding s'(4) by blast
    then show ?thesis
    proof
      assume "x \<in> set (store_abs (dr_skipped st))"
      then have "fst (snd x) < dr_nr st" using assms(2) x(2) by (simp add: below_def)
      with assms(3) show ?thesis by simp
    next
      assume "x \<in> set (skip_items (dr_hkr st) (dr_nr st) (ss_recv_count (dr_skipped st)) mks)"
      from set_skip_items [OF this bound] show ?thesis using len le by (simp add: word_less_nat_alt)
    qed
  qed
  then have "below s' (dr_hkr st) n" by (simp add: below_def)
  with s' that show thesis by (simp add: dr_skip_to_def)
qed

lemma below_post_success:
  "store_inv s \<Longrightarrow> below s hk n \<Longrightarrow> below (gy_drc_store_post_success s) hk n"
  by (simp add: below_def post_success_inv_abs)

lemma below_mono: "below s hk n \<Longrightarrow> n \<le> m \<Longrightarrow> below s hk m"
  unfolding below_def by (meson order_less_le_trans)

subsection \<open>Delivery on the current chain\<close>

lemma finish_spec:
  assumes "gy_drc_kdf_ck L (dr_desc st) (dr_ckr st) = Inr (mk, ckn)"
    and "dr_open_payload L (st\<lparr>dr_ckr := ckn, dr_nr := dr_nr st + 1\<rparr>) mk (hdr_n h) fr cap ad = Inr pt"
  shows "dr_finish L st h fr cap ad =
     Inr (pt, st\<lparr>dr_ckr := ckn, dr_nr := dr_nr st + 1,
                  dr_skipped := gy_drc_store_post_success (dr_skipped st)\<rparr>)"
  using assms by (simp add: dr_finish_def Let_def)

lemma not_greater_MAX_SKIP:
  fixes a b :: u32
  assumes "b \<le> a" "unat a - unat b \<le> GY_MAX_SKIP"
  shows "\<not> a - b > of_nat GY_MAX_SKIP"
proof -
  have "unat (a - b) = unat a - unat b" using assms(1) by (rule unat_sub)
  with assms(2) show ?thesis
    by (simp add: word_less_nat_alt GY_MAX_SKIP_def)
qed

lemma chain_delivery:
  assumes prov: "hash_lengths L" "aead_lengths L" "aead_correct L" and live: "live_suite L (dr_desc A)"
    and pk: "length (pub_pk (kp_pub (dr_dhs A))) = curve_pk_len (dr_desc A)"
    and enc: "gy_dr_encrypt L A cap pt ad r = (Inr msg, A', r')"
    and sync: "recv_sync L A B" and stray: "no_stray L B msg (dr_hkr B)"
    and gap: "unat (dr_ns A) - unat (dr_nr B) \<le> GY_MAX_SKIP" and top: "dr_ns A < - 1"
    and cap: "length pt \<le> cap'"
  obtains B' mks where
    "gy_dr_decrypt_assoc L B cap' msg ad q = Some (Inr pt, True, B', q)"
    "recv_sync L A' B'" "dr_nr B' = dr_ns A + 1" "below (dr_skipped B') (dr_hkr B') (dr_ns A)"
    "chain_run L (dr_desc A) (unat (dr_ns A) - unat (dr_nr B)) (dr_ckr B) = Inr (mks, dr_cks A)"
    "store_abs (dr_skipped B') = filter (item_fresh (ss_recv_count (dr_skipped B) + 1))
       (foldl (fifo_push GY_MAX_SKIP) (store_abs (dr_skipped B))
         (skip_items (dr_hkr B) (dr_nr B) (ss_recv_count (dr_skipped B)) mks))"
proof -
  note s = sync [unfolded recv_sync_def]
  have rcv: "dr_receiver_of A B" and desc: "dr_desc B = dr_desc A" "dr_aead_id B = dr_aead_id A"
    using s by (simp_all add: dr_receiver_of_def)
  obtain fr hdrp mk ckn where e: "dr_parse_frame B msg = Inr fr"
    "gy_he_decrypt L (dr_desc B) (dr_aead_id B) (dr_hks A) (fr_salt fr) (fr_enc fr) (fr_ad2 fr)
       GY_DR_HEADER_MAX = Inr hdrp"
    "gy_dr_header_decode (dr_desc B) hdrp = Inr (dr_header_of A, length hdrp)"
    "gy_drc_kdf_ck L (dr_desc A) (dr_cks A) = Inr (mk, ckn)"
    "A' = A\<lparr>dr_cks := ckn, dr_ns := dr_ns A + 1\<rparr>" "length ad \<le> GY_X3DH_AD_MAX"
    "\<forall>cap' st. length pt \<le> cap' \<longrightarrow> dr_desc st = dr_desc A \<longrightarrow> dr_aead_id st = dr_aead_id A \<longrightarrow>
       dr_open_payload L st mk (dr_ns A) fr cap' ad = Inr pt"
    "dr_have_cks A \<noteq> 0" "dr_have_hks A \<noteq> 0"
    by (rule dr_encrypt_receive [OF prov live pk enc rcv])
  obtain mks where run: "chain_run L (dr_desc A) (unat (dr_ns A) - unat (dr_nr B)) (dr_ckr B) = Inr (mks, dr_cks A)"
    using s by blast
  let ?h = "dr_header_of A"
  have hn: "hdr_n ?h = dr_ns A" by (simp add: dr_header_of_def)
  have hk: "dr_hkr B = dr_hks A" using s by simp
  have "\<exists>m. dr_try_skipped L B fr cap' ad = (m, Inr None)"
    using s e(1-3) stray hn hk
    by (intro try_skipped_passes [of B "dr_hkr B" "dr_nr B" ?h msg fr L hdrp "length hdrp"]) simp_all
  then obtain m where skip: "dr_try_skipped L B fr cap' ad = (m, Inr None)" ..
  have opn: "dr_open_header L B fr = Some hdrp"
    using s e(2) hk by (simp add: dr_open_header_def Let_def)
  obtain s' where s': "dr_skip_to L B (dr_ns A) = Inr (B\<lparr>dr_skipped := s', dr_ckr := dr_cks A, dr_nr := dr_ns A\<rparr>)"
    "store_inv s'" "below s' (dr_hkr B) (dr_ns A)" "ss_recv_count s' = ss_recv_count (dr_skipped B)"
    "store_abs s' = foldl (fifo_push GY_MAX_SKIP) (store_abs (dr_skipped B))
       (skip_items (dr_hkr B) (dr_nr B) (ss_recv_count (dr_skipped B)) mks)"
    using skip_to_spec [of B "dr_ns A" L mks "dr_cks A"] s run desc by metis
  let ?st = "B\<lparr>dr_skipped := s', dr_ckr := dr_cks A, dr_nr := dr_ns A\<rparr>"
  have adv: "dr_advance L B ?h q = Some (Inr ?st, q)"
    using s s'(1) hn not_greater_MAX_SKIP [OF _ gap]
    by (simp add: dr_advance_def dr_new_remote_def dr_header_of_def not_less)
  let ?B' = "?st\<lparr>dr_ckr := ckn, dr_nr := dr_ns A + 1, dr_skipped := gy_drc_store_post_success s'\<rparr>"
  have fin: "dr_finish L ?st ?h fr cap' ad = Inr (pt, ?B')"
    using finish_spec [of L ?st mk ckn ?h fr cap' ad pt] e(4) e(7) cap desc hn by simp
  have dec: "gy_dr_decrypt_assoc L B cap' msg ad q = Some (Inr pt, True, ?B', q)"
    using e(1,3,6) skip opn adv fin by (simp add: gy_dr_decrypt_assoc_def)
  have suc: "dr_ns A \<le> dr_ns A + 1" using top unat_Suc_less [OF top] by (simp add: word_le_nat_alt)
  have bel: "below (gy_drc_store_post_success s') (dr_hkr B) (dr_ns A)"
    by (rule below_post_success [OF s'(2,3)])
  have sync': "recv_sync L A' ?B'"
    using s e(5) rcv post_success_inv_abs(1) [OF s'(2)] below_mono [OF bel suc]
    by (simp add: recv_sync_def dr_receiver_of_def)
  show thesis
    using that [OF dec sync' _ _ run] bel post_success_inv_abs(3) [OF s'(2)] s'(4,5) by simp
qed

text \<open>
  C10. Delivery on one chain. If Alice's state and Bob's are in step up to messages in flight, at
  most 1000 of them missing, then the message Alice's next encryption produces decrypts on Bob's
  side to her plaintext, the two states are in step again with nothing missing, and Bob's
  skipped-key store has gained exactly the message keys of the missing numbers, under the bounded
  first-in first-out policy and the aging rule.
\<close>

theorem dr_delivery_in_chain:
  assumes "hash_lengths L" "aead_lengths L" "aead_correct L" "live_suite L (dr_desc A)"
    and "length (pub_pk (kp_pub (dr_dhs A))) = curve_pk_len (dr_desc A)"
    and "gy_dr_encrypt L A cap pt ad r = (Inr msg, A', r')"
    and "recv_sync L A B" "no_stray L B msg (dr_hkr B)"
    and "unat (dr_ns A) - unat (dr_nr B) \<le> GY_MAX_SKIP" "dr_ns A < - 1" "length pt \<le> cap'"
  shows "\<exists>B' mks. gy_dr_decrypt_assoc L B cap' msg ad q = Some (Inr pt, True, B', q) \<and>
     recv_sync L A' B' \<and> dr_nr B' = dr_ns A' \<and>
     chain_run L (dr_desc A) (unat (dr_ns A) - unat (dr_nr B)) (dr_ckr B) = Inr (mks, dr_cks A) \<and>
     store_abs (dr_skipped B') = filter (item_fresh (ss_recv_count (dr_skipped B) + 1))
       (foldl (fifo_push GY_MAX_SKIP) (store_abs (dr_skipped B))
         (skip_items (dr_hkr B) (dr_nr B) (ss_recv_count (dr_skipped B)) mks))"
proof -
  have "dr_ns A' = dr_ns A + 1" by (rule dr_encrypt_ok [OF assms(6)]) simp
  then show ?thesis using chain_delivery [OF assms, of q] by metis
qed

subsection \<open>Replay\<close>

lemma opens_cong:
  "dr_desc st = dr_desc st' \<Longrightarrow> dr_aead_id st = dr_aead_id st' \<Longrightarrow> opens L st fr hk = opens L st' fr hk"
  by (simp add: opens_def)

lemma parse_frame_cong:
  "dr_desc st = dr_desc st' \<Longrightarrow> dr_aead_id st = dr_aead_id st' \<Longrightarrow> dr_parse_frame st msg = dr_parse_frame st' msg"
  by (simp add: dr_parse_frame_def)

lemma no_stray_mono:
  assumes "no_stray L B msg hk" "dr_desc B' = dr_desc B" "dr_aead_id B' = dr_aead_id B"
    and "\<And>x. x \<in> set (store_abs (dr_skipped B')) \<Longrightarrow> fst x = hk \<or> x \<in> set (store_abs (dr_skipped B))"
  shows "no_stray L B' msg hk"
  using assms parse_frame_cong [OF assms(2,3)] opens_cong [OF assms(2,3)]
  unfolding no_stray_def list_all_iff by metis

lemma skip_items_key: "x \<in> set (skip_items hk n age mks) \<Longrightarrow> fst x = hk"
  by (induction mks arbitrary: n) auto

lemma old_number_rejected:
  assumes prov: "hash_lengths L" "aead_lengths L" "aead_correct L" and live: "live_suite L (dr_desc A)"
    and pk: "length (pub_pk (kp_pub (dr_dhs A))) = curve_pk_len (dr_desc A)"
    and enc: "gy_dr_encrypt L A cap pt ad r = (Inr msg, A', r')"
    and sync: "recv_sync L A' B" and bel: "below (dr_skipped B) (dr_hkr B) (dr_ns A)"
    and stray: "no_stray L B msg (dr_hkr B)" and old: "dr_ns A < dr_nr B"
  shows "gy_dr_decrypt_assoc L B cap' msg ad q = Some (Inl GY_ERR_VERIFY, True, B, q)"
proof -
  have A': "dr_desc A' = dr_desc A" "dr_aead_id A' = dr_aead_id A" "dr_hks A' = dr_hks A"
      "dr_dhs A' = dr_dhs A"
    by (rule dr_encrypt_ok [OF enc], simp)+
  note s = sync [unfolded recv_sync_def]
  have rcv: "dr_receiver_of A B" using s A' by (simp add: dr_receiver_of_def)
  obtain fr hdrp where e: "dr_parse_frame B msg = Inr fr"
    "gy_he_decrypt L (dr_desc B) (dr_aead_id B) (dr_hks A) (fr_salt fr) (fr_enc fr) (fr_ad2 fr)
       GY_DR_HEADER_MAX = Inr hdrp"
    "gy_dr_header_decode (dr_desc B) hdrp = Inr (dr_header_of A, length hdrp)"
    "length ad \<le> GY_X3DH_AD_MAX"
    by (rule dr_encrypt_receive [OF prov live pk enc rcv])
  have hk: "dr_hkr B = dr_hks A" using s A' by simp
  have hn: "hdr_n (dr_header_of A) = dr_ns A" by (simp add: dr_header_of_def)
  have "\<exists>m. dr_try_skipped L B fr cap' ad = (m, Inr None)"
    using s e(1-3) stray bel hn hk
    by (intro try_skipped_passes [of B "dr_hkr B" "dr_ns A" "dr_header_of A" msg fr L hdrp "length hdrp"]) simp_all
  then obtain m where skip: "dr_try_skipped L B fr cap' ad = (m, Inr None)" ..
  have opn: "dr_open_header L B fr = Some hdrp"
    using s e(2) hk by (simp add: dr_open_header_def Let_def)
  have adv: "dr_advance L B (dr_header_of A) q = Some (Inl GY_ERR_VERIFY, q)"
    using s A' old by (simp add: dr_advance_def dr_new_remote_def dr_header_of_def)
  show ?thesis using e skip opn adv by (simp add: gy_dr_decrypt_assoc_def)
qed


subsection \<open>Generated key pairs\<close>

lemma generated_keypair_of:
  "gen_ratchet_keypair L d r = Some (Inr kp, r') \<Longrightarrow> keypair_of d kp"
  using gen_keypair_ok(5) unfolding gen_ratchet_keypair_def gy_keypair_generate_def keypair_of_def by blast

subsection \<open>Relation across a ratchet step\<close>

text \<open>
  \<open>A\<close> sends on a chain whose ratchet key \<open>B\<close> has not seen: \<open>B\<close>'s next receiving header key is
  \<open>A\<close>'s sending one, the root key derivation \<open>B\<close> will make is the one \<open>A\<close> made, and \<open>A\<close> will be able
  to receive \<open>B\<close>'s answer.
\<close>

definition turn_sync :: "provider \<Rightarrow> gy_dr_state \<Rightarrow> gy_dr_state \<Rightarrow> bool" where
  "turn_sync L A B \<longleftrightarrow>
     dr_receiver_of A B \<and> keypair_of (dr_desc A) (dr_dhs A) \<and> keypair_of (dr_desc A) (dr_dhs B) \<and>
     dr_have_nhkr B \<noteq> 0 \<and> dr_nhkr B = dr_hks A \<and> dr_have_nhkr A \<noteq> 0 \<and> dr_nhkr A = dr_nhks B \<and>
     (dr_have_dhr B = 0 \<or> pub_pk (kp_pub (dr_dhs A)) \<noteq> dr_dhr B) \<and>
     (\<exists>dh ck0 mks. op_dh (dr_desc A) (kp_sk (dr_dhs B)) (pub_pk (kp_pub (dr_dhs A))) = Inr dh \<and>
        gy_drc_kdf_rk L (dr_desc A) (dr_rk B) dh = Inr (dr_rk A, ck0, dr_nhks A) \<and>
        chain_run L (dr_desc A) (unat (dr_ns A)) ck0 = Inr (mks, dr_cks A)) \<and>
     store_inv (dr_skipped A) \<and> store_inv (dr_skipped B) \<and>
     (dr_have_ckr B \<noteq> 0 \<longrightarrow> dr_have_hkr B \<noteq> 0 \<and> dr_nr B \<le> dr_pn A) \<and>
     (dr_have_ckr A \<noteq> 0 \<longrightarrow> dr_have_hkr A \<noteq> 0 \<and> dr_nr A \<le> dr_ns B)"

text \<open>No header key that \<open>st\<close> tries before its next one opens the message.\<close>

definition no_stray_epoch :: "provider \<Rightarrow> gy_dr_state \<Rightarrow> bytes \<Rightarrow> bool" where
  "no_stray_epoch L st msg \<longleftrightarrow>
     (\<forall>fr. dr_parse_frame st msg = Inr fr \<longrightarrow>
        list_all (\<lambda>x. \<not> opens L st fr (fst x)) (store_abs (dr_skipped st)) \<and>
        (dr_have_hkr st \<noteq> 0 \<longrightarrow> \<not> opens L st fr (dr_hkr st)))"

lemma scan_none:
  assumes "list_all (\<lambda>e. ep_refs e = 0 \<or> \<not> opens L st fr (ep_hk e)) es"
  shows "dr_scan_epochs L st fr slot es m = (m, None)"
  using assms
proof (induction es arbitrary: slot)
  case Nil
  then show ?case by simp
next
  case (Cons e es)
  then show ?case by (auto simp: opens_def split: sum.splits)
qed

lemma try_skipped_epoch_passes:
  assumes "store_inv (dr_skipped B)" "no_stray_epoch L B msg" "dr_parse_frame B msg = Inr fr"
  shows "dr_try_skipped L B fr cap ad = (False, Inr None)"
proof -
  have "ep_refs e = 0 \<or> \<not> opens L B fr (ep_hk e)" if m: "e \<in> set (ss_epochs (dr_skipped B))" for e
  proof (cases "ep_refs e = 0")
    case False
    obtain i where i: "i < GY_MAX_SKIP" "e = ss_epochs (dr_skipped B) ! i"
      using m unfolding in_set_conv_nth store_inv_length [OF assms(1)] by blast
    then obtain x where "x \<in> set (store_abs (dr_skipped B))" "fst x = ep_hk e"
      using live_epoch_item [OF assms(1)] False by blast
    then show ?thesis using assms(2,3) by (auto simp: no_stray_epoch_def list_all_iff)
  qed simp
  then have "dr_scan_epochs L B fr 0 (ss_epochs (dr_skipped B)) False = (False, None)"
    by (intro scan_none) (simp add: list_all_iff)
  then show ?thesis by (simp add: dr_try_skipped_def)
qed

lemma skip_to_any:
  assumes "live_suite L (dr_desc st)" "store_inv (dr_skipped st)" "dr_nr st \<le> n"
  obtains s' ck where
    "dr_skip_to L st n = Inr (st\<lparr>dr_skipped := s', dr_ckr := ck, dr_nr := n\<rparr>)" "store_inv s'"
    "\<forall>x \<in> set (store_abs s'). x \<in> set (store_abs (dr_skipped st)) \<or> fst x = dr_hkr st"
proof -
  obtain mks ck where run: "chain_run L (dr_desc st) (unat n - unat (dr_nr st)) (dr_ckr st) = Inr (mks, ck)"
    using chain_run_total [OF assms(1)] by blast
  obtain s' where s': "gy_drc_skip_forward L (dr_desc st) (dr_skipped st) (dr_ckr st) (dr_nr st) n (dr_hkr st)
        = (Inr (), s', ck, n)" "store_inv s'"
      "store_abs s' = foldl (fifo_push GY_MAX_SKIP) (store_abs (dr_skipped st))
         (skip_items (dr_hkr st) (dr_nr st) (ss_recv_count (dr_skipped st)) mks)"
    using skip_forward_spec [OF assms(2,3) run] by blast
  have "x \<in> set (store_abs (dr_skipped st)) \<or> fst x = dr_hkr st" if "x \<in> set (store_abs s')" for x
    using that set_fifo_pushes [OF skipq.cap_pos skipq.abs_bound [OF assms(2)]] skip_items_key
    unfolding s'(3) by fastforce
  then show thesis using s'(1,2) by (intro that [of ck s']) (auto simp: dr_skip_to_def)
qed

text \<open>The state the ratchet step builds, with every derivation in place.\<close>

lemma dh_ratchet_ok:
  assumes "op_dh (dr_desc st) (kp_sk (dr_dhs st)) pk = Inr dh"
    "gy_drc_kdf_rk L (dr_desc st) (dr_rk st) dh = Inr (rk1, ckr, nhkr)"
    "gen_ratchet_keypair L (dr_desc st) q = Some (Inr kp, q')"
    "op_dh (dr_desc st) (kp_sk kp) pk = Inr dhn"
    "gy_drc_kdf_rk L (dr_desc st) rk1 dhn = Inr (rk2, cks, nhks)"
  shows "dh_ratchet L st pk q = Some (Inr
     (st\<lparr>dr_pn := dr_ns st, dr_ns := 0, dr_nr := 0, dr_dhr := pk, dr_have_dhr := 1,
         dr_hkr := dr_nhkr st, dr_have_hkr := 1, dr_ckr := ckr, dr_nhkr := nhkr, dr_have_ckr := 1,
         dr_have_nhkr := 1, dr_dhs := kp, dr_hks := dr_nhks st, dr_have_hks := 1, dr_rk := rk2,
         dr_cks := cks, dr_nhks := nhks, dr_have_cks := 1, dr_have_nhks := 1\<rparr>), q')"
  using assms by (simp add: dh_ratchet_def Let_def cbind_def)

lemma first_skip:
  assumes "live_suite L (dr_desc B)" "store_inv (dr_skipped B)"
    and "dr_have_ckr B \<noteq> 0 \<longrightarrow> dr_nr B \<le> n"
  obtains s' ck nr where
    "(if dr_have_ckr B \<noteq> 0 then dr_skip_to L B n else Inr B) =
       Inr (B\<lparr>dr_skipped := s', dr_ckr := ck, dr_nr := nr\<rparr>)" "store_inv s'"
    "\<forall>x \<in> set (store_abs s'). x \<in> set (store_abs (dr_skipped B)) \<or> (dr_have_ckr B \<noteq> 0 \<and> fst x = dr_hkr B)"
proof (cases "dr_have_ckr B \<noteq> 0")
  case True
  obtain s' ck where "dr_skip_to L B n = Inr (B\<lparr>dr_skipped := s', dr_ckr := ck, dr_nr := n\<rparr>)" "store_inv s'"
    "\<forall>x \<in> set (store_abs s'). x \<in> set (store_abs (dr_skipped B)) \<or> fst x = dr_hkr B"
    using skip_to_any [OF assms(1,2), of n] assms(3) True by blast
  then show ?thesis using True by (intro that [of n ck s']) auto
next
  case False
  then show ?thesis using assms(2) by (intro that [of "dr_nr B" "dr_ckr B" "dr_skipped B"]) auto
qed

lemma epoch_delivery:
  assumes prov: "hash_lengths L" "aead_lengths L" "aead_correct L" and live: "live_suite L (dr_desc A)"
    and pk: "length (pub_pk (kp_pub (dr_dhs A))) = curve_pk_len (dr_desc A)"
    and enc: "gy_dr_encrypt L A cap pt ad r = (Inr msg, A', r')"
    and sync: "turn_sync L A B" and stray: "no_stray_epoch L B msg"
    and gap: "dr_have_ckr B \<noteq> 0 \<longrightarrow> unat (dr_pn A) - unat (dr_nr B) \<le> GY_MAX_SKIP"
    and n: "unat (dr_ns A) \<le> GY_MAX_SKIP"
    and gen: "gen_ratchet_keypair L (dr_desc A) q = Some (Inr kp, q')"
    and dhn: "op_dh (dr_desc A) (kp_sk kp) (pub_pk (kp_pub (dr_dhs A))) = Inr dhn"
    and cap: "length pt \<le> cap'"
  obtains B' where
    "gy_dr_decrypt_assoc L B cap' msg ad q = Some (Inr pt, True, B', q')"
    "recv_sync L A' B'" "dr_dhs B' = kp" "dr_hks B' = dr_nhks B" "dr_nhkr B' = dr_nhks A"
    "dr_pn B' = dr_ns B" "dr_ns B' = 0" "dr_have_cks B' \<noteq> 0" "dr_have_hks B' \<noteq> 0" "dr_have_nhkr B' \<noteq> 0"
    "gy_drc_kdf_rk L (dr_desc A) (dr_rk A) dhn = Inr (dr_rk B', dr_cks B', dr_nhks B')"
    "dr_nr B' = dr_ns A + 1" "dr_have_hkr B' \<noteq> 0"
proof -
  note s = sync [unfolded turn_sync_def]
  have rcv: "dr_receiver_of A B" and desc: "dr_desc B = dr_desc A" "dr_aead_id B = dr_aead_id A"
    using s by (simp_all add: dr_receiver_of_def)
  obtain fr hdrp mk ckn where e: "dr_parse_frame B msg = Inr fr"
    "gy_he_decrypt L (dr_desc B) (dr_aead_id B) (dr_hks A) (fr_salt fr) (fr_enc fr) (fr_ad2 fr)
       GY_DR_HEADER_MAX = Inr hdrp"
    "gy_dr_header_decode (dr_desc B) hdrp = Inr (dr_header_of A, length hdrp)"
    "gy_drc_kdf_ck L (dr_desc A) (dr_cks A) = Inr (mk, ckn)"
    "A' = A\<lparr>dr_cks := ckn, dr_ns := dr_ns A + 1\<rparr>" "length ad \<le> GY_X3DH_AD_MAX"
    "\<forall>cap' st. length pt \<le> cap' \<longrightarrow> dr_desc st = dr_desc A \<longrightarrow> dr_aead_id st = dr_aead_id A \<longrightarrow>
       dr_open_payload L st mk (dr_ns A) fr cap' ad = Inr pt"
    by (rule dr_encrypt_receive [OF prov live pk enc rcv])
  obtain dh ck0 mks where kx: "op_dh (dr_desc A) (kp_sk (dr_dhs B)) (pub_pk (kp_pub (dr_dhs A))) = Inr dh"
      "gy_drc_kdf_rk L (dr_desc A) (dr_rk B) dh = Inr (dr_rk A, ck0, dr_nhks A)"
      "chain_run L (dr_desc A) (unat (dr_ns A)) ck0 = Inr (mks, dr_cks A)"
    using s by blast
  obtain rk2 cks2 nhks2 where rk2: "gy_drc_kdf_rk L (dr_desc A) (dr_rk A) dhn = Inr (rk2, cks2, nhks2)"
    using kdf_rk_total [OF live] by blast
  have skip: "dr_try_skipped L B fr cap' ad = (False, Inr None)"
    using s stray e(1) by (intro try_skipped_epoch_passes) auto
  have closed: "\<not> opens L B fr (dr_hkr B)" if "dr_have_hkr B \<noteq> 0"
    using stray e(1) that by (auto simp: no_stray_epoch_def)
  have nh: "opens L B fr (dr_nhkr B)" using e(2) s by (simp add: opens_def)
  have opn: "dr_open_header L B fr = Some hdrp"
    using s e(2) closed by (auto simp: dr_open_header_def Let_def opens_def split: sum.splits)
  obtain s1 ck1 nr1 where st1:
    "(if dr_have_ckr B \<noteq> 0 then dr_skip_to L B (dr_pn A) else Inr B) =
       Inr (B\<lparr>dr_skipped := s1, dr_ckr := ck1, dr_nr := nr1\<rparr>)" "store_inv s1"
    "\<forall>x \<in> set (store_abs s1). x \<in> set (store_abs (dr_skipped B)) \<or> (dr_have_ckr B \<noteq> 0 \<and> fst x = dr_hkr B)"
    by (rule first_skip [of L B "dr_pn A"]) (use live desc s in auto)
  let ?st1 = "B\<lparr>dr_skipped := s1, dr_ckr := ck1, dr_nr := nr1\<rparr>"
  let ?st2 = "?st1\<lparr>dr_pn := dr_ns B, dr_ns := 0, dr_nr := 0, dr_dhr := pub_pk (kp_pub (dr_dhs A)), dr_have_dhr := 1,
         dr_hkr := dr_nhkr B, dr_have_hkr := 1, dr_ckr := ck0, dr_nhkr := dr_nhks A, dr_have_ckr := 1,
         dr_have_nhkr := 1, dr_dhs := kp, dr_hks := dr_nhks B, dr_have_hks := 1, dr_rk := rk2,
         dr_cks := cks2, dr_nhks := nhks2, dr_have_cks := 1, dr_have_nhks := 1\<rparr>"
  have rat: "dh_ratchet L ?st1 (pub_pk (kp_pub (dr_dhs A))) q = Some (Inr ?st2, q')"
    using dh_ratchet_ok [of ?st1 "pub_pk (kp_pub (dr_dhs A))" dh L "dr_rk A" ck0 "dr_nhks A" q kp q' dhn rk2 cks2 nhks2]
      kx(1,2) rk2 gen dhn desc by simp
  have fresh: "\<not> (x \<in> set (store_abs s1) \<and> fst x = dr_nhkr B)" for x
    using st1(3) s stray e(1) nh closed unfolding no_stray_epoch_def list_all_iff by metis
  then have bel0: "below (dr_skipped ?st2) (dr_hkr ?st2) (dr_nr ?st2)" by (auto simp: below_def)
  obtain s2 where s2: "dr_skip_to L ?st2 (dr_ns A) =
      Inr (?st2\<lparr>dr_skipped := s2, dr_ckr := dr_cks A, dr_nr := dr_ns A\<rparr>)"
    "store_inv s2" "below s2 (dr_hkr ?st2) (dr_ns A)"
    by (rule skip_to_spec [OF _ bel0, of "dr_ns A" L mks "dr_cks A"]) (use st1(2) kx(3) desc in simp_all)
  let ?st3 = "?st2\<lparr>dr_skipped := s2, dr_ckr := dr_cks A, dr_nr := dr_ns A\<rparr>"
  have g1: "\<not> dr_ns A > of_nat GY_MAX_SKIP" using not_greater_MAX_SKIP [of 0 "dr_ns A"] n by simp
  have g2: "\<not> (dr_have_ckr B \<noteq> 0 \<and> (dr_pn A < dr_nr B \<or> dr_pn A - dr_nr B > of_nat GY_MAX_SKIP))"
    using s gap not_greater_MAX_SKIP [of "dr_nr B" "dr_pn A"] by auto
  have nrm: "dr_new_remote B (dr_header_of A)" using s by (auto simp: dr_new_remote_def dr_header_of_def)
  have h: "hdr_n (dr_header_of A) = dr_ns A" "hdr_pn (dr_header_of A) = dr_pn A"
      "hdr_ratchet_pk (dr_header_of A) = pub_pk (kp_pub (dr_dhs A))"
    by (simp_all add: dr_header_of_def)
  have adv: "dr_advance L B (dr_header_of A) q = Some (Inr ?st3, q')"
    unfolding dr_advance_def h if_P [OF nrm] if_not_P [OF g2] if_not_P [OF g1] st1(1)
    using rat s2(1) by (simp add: cbind_def)
  let ?B' = "?st3\<lparr>dr_ckr := ckn, dr_nr := dr_ns A + 1, dr_skipped := gy_drc_store_post_success s2\<rparr>"
  have fin: "dr_finish L ?st3 (dr_header_of A) fr cap' ad = Inr (pt, ?B')"
    using finish_spec [of L ?st3 mk ckn "dr_header_of A" fr cap' ad pt] e(4) e(7) cap desc h by simp
  have dec: "gy_dr_decrypt_assoc L B cap' msg ad q = Some (Inr pt, True, ?B', q')"
    using e(1,3,6) skip opn adv fin by (simp add: gy_dr_decrypt_assoc_def)
  have suc: "dr_ns A \<le> dr_ns A + 1"
    using n unat_add_lem [of "dr_ns A" 1] by (simp add: word_le_nat_alt GY_MAX_SKIP_def)
  have bel: "below (gy_drc_store_post_success s2) (dr_nhkr B) (dr_ns A + 1)"
    using below_mono [OF below_post_success [OF s2(2,3)] suc] by simp
  have sync': "recv_sync L A' ?B'"
    using s e(5) rcv post_success_inv_abs(1) [OF s2(2)] bel
    by (simp add: recv_sync_def dr_receiver_of_def)
  show thesis by (rule that [OF dec sync']) (use rk2 in simp_all)
qed

text \<open>
  C2. Delivery across a ratchet step. If Bob has not seen the ratchet key of Alice's current chain
  and the two root keys agree, the message of Alice decrypts on Bob's side: he finishes his old
  receiving chain, ratchets, skips to the message number and opens the payload. Afterwards he
  follows Alice's chain, and his own fresh sending chain stands to Alice as hers stood to him, so
  the answer direction works by the same theorem.
\<close>

theorem dr_delivery_new_epoch:
  assumes "hash_lengths L" "aead_lengths L" "aead_correct L" "live_suite L (dr_desc A)"
    and "length (pub_pk (kp_pub (dr_dhs A))) = curve_pk_len (dr_desc A)"
    and "gy_dr_encrypt L A cap pt ad r = (Inr msg, A', r')"
    and "turn_sync L A B" "no_stray_epoch L B msg"
    and "dr_have_ckr B \<noteq> 0 \<longrightarrow> unat (dr_pn A) - unat (dr_nr B) \<le> GY_MAX_SKIP"
    and "unat (dr_ns A) \<le> GY_MAX_SKIP"
    and "gen_ratchet_keypair L (dr_desc A) q = Some (Inr kp, q')"
    and "op_dh (dr_desc A) (kp_sk kp) (pub_pk (kp_pub (dr_dhs A))) = Inr dhn"
    and "length pt \<le> cap'" "dh_commutes L" "pub_pk (kp_pub kp) \<noteq> dr_dhr A"
  shows "\<exists>B'. gy_dr_decrypt_assoc L B cap' msg ad q = Some (Inr pt, True, B', q') \<and>
     recv_sync L A' B' \<and> turn_sync L B' A'"
proof -
  obtain B' where d: "gy_dr_decrypt_assoc L B cap' msg ad q = Some (Inr pt, True, B', q')"
    "recv_sync L A' B'" "dr_dhs B' = kp" "dr_hks B' = dr_nhks B" "dr_nhkr B' = dr_nhks A"
    "dr_pn B' = dr_ns B" "dr_ns B' = 0" "dr_have_cks B' \<noteq> 0" "dr_have_hks B' \<noteq> 0" "dr_have_nhkr B' \<noteq> 0"
    "gy_drc_kdf_rk L (dr_desc A) (dr_rk A) dhn = Inr (dr_rk B', dr_cks B', dr_nhks B')"
    "dr_nr B' = dr_ns A + 1" "dr_have_hkr B' \<noteq> 0"
    by (rule epoch_delivery [OF assms(1-13)])
  obtain ckn where A': "A' = A\<lparr>dr_cks := ckn, dr_ns := dr_ns A + 1\<rparr>"
    by (rule dr_encrypt_ok [OF assms(6)])
  have kp: "keypair_of (dr_desc A) kp" by (rule generated_keypair_of [OF assms(11)])
  have kA: "keypair_of (dr_desc A) (dr_dhs A)" using assms(7) by (simp add: turn_sync_def)
  have "op_dh (dr_desc A) (kp_sk (dr_dhs A)) (pub_pk (kp_pub kp)) = Inr dhn"
    using keypair_dh_agree [OF assms(4,14) kp kA] assms(12) by simp
  then have "turn_sync L B' A'"
    using assms(7,15) d kp kA
    by (simp add: turn_sync_def recv_sync_def dr_receiver_of_def A')
  with d(1,2) show ?thesis by blast
qed

lemma init_alice_ok:
  assumes "gy_dr_init_alice L desc aead_id secrets rpk r = Some (Inr A, r')"
  obtains dh where "gen_ratchet_keypair L desc r = Some (Inr (dr_dhs A), r')"
    "op_dh desc (kp_sk (dr_dhs A)) rpk = Inr dh"
    "gy_drc_kdf_rk L desc (sd_sk_dr secrets) dh = Inr (dr_rk A, dr_cks A, dr_nhks A)"
    "A = (dr_zero desc aead_id)
       \<lparr>dr_dhr := rpk, dr_have_dhr := 1,
        dr_hks := sd_shared_hka secrets, dr_nhkr := sd_shared_nhkb secrets,
        dr_have_hks := 1, dr_have_nhkr := 1, dr_dhs := dr_dhs A, dr_rk := dr_rk A,
        dr_cks := dr_cks A, dr_nhks := dr_nhks A, dr_have_cks := 1, dr_have_nhks := 1\<rparr>"
  using assms by (auto simp: gy_dr_init_alice_def Let_def cbind_eq_Some_Inr_iff)

lemma init_turn_sync:
  assumes "live_suite L desc" "dh_commutes L" "keypair_of desc spk"
    and "gy_dr_init_alice L desc aead_id secrets (pub_pk (kp_pub spk)) r = Some (Inr A, r')"
  shows "turn_sync L A (gy_dr_init_bob desc aead_id secrets spk) \<and>
     dr_have_cks A \<noteq> 0 \<and> dr_have_hks A \<noteq> 0 \<and> dr_ns A = 0"
proof -
  let ?B = "gy_dr_init_bob desc aead_id secrets spk"
  obtain dh where i: "gen_ratchet_keypair L desc r = Some (Inr (dr_dhs A), r')"
    "op_dh desc (kp_sk (dr_dhs A)) (pub_pk (kp_pub spk)) = Inr dh"
    "gy_drc_kdf_rk L desc (sd_sk_dr secrets) dh = Inr (dr_rk A, dr_cks A, dr_nhks A)"
    "A = (dr_zero desc aead_id)
       \<lparr>dr_dhr := pub_pk (kp_pub spk), dr_have_dhr := 1,
        dr_hks := sd_shared_hka secrets, dr_nhkr := sd_shared_nhkb secrets,
        dr_have_hks := 1, dr_have_nhkr := 1, dr_dhs := dr_dhs A, dr_rk := dr_rk A,
        dr_cks := dr_cks A, dr_nhks := dr_nhks A, dr_have_cks := 1, dr_have_nhks := 1\<rparr>"
    by (rule init_alice_ok [OF assms(4)])
  define dhs rk cks nhks where f: "dhs = dr_dhs A" "rk = dr_rk A" "cks = dr_cks A" "nhks = dr_nhks A"
  note A = i(4) [folded f]
  have kA: "keypair_of desc dhs" using generated_keypair_of [OF i(1)] by (simp add: f)
  have "op_dh desc (kp_sk spk) (pub_pk (kp_pub dhs)) = Inr dh"
    using keypair_dh_agree [OF assms(1,2,3) kA] i(2) by (simp add: f)
  moreover have "gy_drc_kdf_rk L desc (sd_sk_dr secrets) dh = Inr (rk, cks, nhks)" using i(3) by (simp add: f)
  ultimately show ?thesis
    using kA assms(3) store_inv_empty unfolding A
    by (simp add: turn_sync_def dr_receiver_of_def gy_dr_init_bob_def dr_zero_def)
qed

subsection \<open>Late delivery\<close>

lemma find_Some_nth: "find P xs = Some i \<Longrightarrow> P i \<and> i \<in> set xs"
  by (auto simp: find_Some_iff)

lemma late_delivery:
  assumes prov: "hash_lengths L" "aead_lengths L" "aead_correct L" and live: "live_suite L (dr_desc A)"
    and pk: "length (pub_pk (kp_pub (dr_dhs A))) = curve_pk_len (dr_desc A)"
    and enc: "gy_dr_encrypt L A cap pt ad r = (Inr msg, A', r')"
    and rcv: "dr_receiver_of A B" and inv: "store_inv (dr_skipped B)" and stray: "no_stray L B msg (dr_hks A)"
    and kdf: "gy_drc_kdf_ck L (dr_desc A) (dr_cks A) = Inr (mk, ckn)"
    and stored: "(dr_hks A, dr_ns A, age, mk) \<in> set (store_abs (dr_skipped B))"
    and uniq: "\<forall>x \<in> set (store_abs (dr_skipped B)). fst x = dr_hks A \<longrightarrow> fst (snd x) = dr_ns A \<longrightarrow>
       snd (snd (snd x)) = mk"
    and cap: "length pt \<le> cap'"
  shows "\<exists>i B'. i < length (store_abs (dr_skipped B)) \<and> fst (store_abs (dr_skipped B) ! i) = dr_hks A \<and>
     fst (snd (store_abs (dr_skipped B) ! i)) = dr_ns A \<and>
     gy_dr_decrypt_assoc L B cap' msg ad q = Some (Inr pt, True, B', q) \<and>
     B' = B\<lparr>dr_skipped := gy_drc_store_post_success (gy_drc_store_remove (dr_skipped B) i)\<rparr>"
proof -
  let ?S = "dr_skipped B"
  have desc: "dr_desc B = dr_desc A" "dr_aead_id B = dr_aead_id A"
    using rcv by (simp_all add: dr_receiver_of_def)
  obtain fr hdrp mk' ckn' where e: "dr_parse_frame B msg = Inr fr"
    "gy_he_decrypt L (dr_desc B) (dr_aead_id B) (dr_hks A) (fr_salt fr) (fr_enc fr) (fr_ad2 fr)
       GY_DR_HEADER_MAX = Inr hdrp"
    "gy_dr_header_decode (dr_desc B) hdrp = Inr (dr_header_of A, length hdrp)"
    "gy_drc_kdf_ck L (dr_desc A) (dr_cks A) = Inr (mk', ckn')" "length ad \<le> GY_X3DH_AD_MAX"
    "\<forall>cap' st. length pt \<le> cap' \<longrightarrow> dr_desc st = dr_desc A \<longrightarrow> dr_aead_id st = dr_aead_id A \<longrightarrow>
       dr_open_payload L st mk' (dr_ns A) fr cap' ad = Inr pt"
    by (rule dr_encrypt_receive [OF prov live pk enc rcv])
  have mk': "mk' = mk" using e(4) kdf by simp
  obtain k where k: "k < length (ss_ent ?S)" "store_abs ?S ! k = (dr_hks A, dr_ns A, age, mk)"
    using stored by (auto simp: in_set_conv_nth)
  let ?slot = "sk_epoch (ss_ent ?S ! k)"
  have slot: "?slot < GY_MAX_SKIP" "ep_hk (ss_epochs ?S ! ?slot) = dr_hks A" "sk_n (ss_ent ?S ! k) = dr_ns A"
      "0 < ep_refs (ss_epochs ?S ! ?slot)"
    using k inv refs_of_mem [of "ss_ent ?S ! k" "ss_ent ?S"]
    by (auto simp: store_abs_nth item_of_def store_inv_def)
  have scan: "dr_scan_epochs L B fr 0 (ss_epochs ?S) False = (True, Some (?slot, dr_header_of A))"
    using scan_only [OF no_stray_epochs [OF inv stray e(1)] e(2,3), of 0 False]
      slot store_inv_length [OF inv] store_inv_live_unique [OF inv, of _ ?slot] by fastforce
  let ?P = "\<lambda>i. sk_epoch (ss_ent ?S ! i) = ?slot \<and> sk_n (ss_ent ?S ! i) = hdr_n (dr_header_of A)"
  have "find ?P [0..<length (ss_ent ?S)] \<noteq> None"
    using k(1) slot(3) by (auto simp: find_None_iff dr_header_of_def)
  then obtain i where i: "find ?P [0..<length (ss_ent ?S)] = Some i" by blast
  have Pi: "?P i" "i < length (ss_ent ?S)" using find_Some_nth [OF i] by auto
  have abs_i: "fst (store_abs ?S ! i) = dr_hks A" "fst (snd (store_abs ?S ! i)) = dr_ns A"
    using Pi slot(2) by (simp_all add: store_abs_nth item_of_def dr_header_of_def)
  then have "snd (snd (snd (store_abs ?S ! i))) = mk" using uniq Pi(2) by simp
  then have mki: "sk_mk (ss_ent ?S ! i) = mk" using Pi(2) by (simp add: store_abs_nth item_of_def)
  have "dr_open_payload L B mk (dr_ns A) fr cap' ad = Inr pt" using e(6) mk' cap desc by simp
  then obtain key nonce where kn: "gy_drc_derive_aead L (dr_desc B) mk (dr_aead_id B) (dr_ns A) = Inr (key, nonce)"
      "gy_aead_decrypt L (dr_aead_id B) cap' key nonce (ad @ fr_wire fr) (fr_payload fr) = Inr pt"
    by (auto simp: dr_open_payload_def rbind_eq_Inr_iff)
  have hn: "hdr_n (dr_header_of A) = dr_ns A" by (simp add: dr_header_of_def)
  have "dr_try_skipped L B fr cap' ad = (True, Inr (Some (pt, B\<lparr>dr_skipped :=
      gy_drc_store_post_success (gy_drc_store_remove ?S i)\<rparr>)))"
    using scan i kn mki hn by (simp add: dr_try_skipped_def)
  then show ?thesis
    using e(1,5) abs_i Pi(2) by (intro exI [of _ i]) (simp add: gy_dr_decrypt_assoc_def)
qed

text \<open>
  C11. Out-of-order delivery. A message whose key was stored when a later one overtook it decrypts
  from the store to its plaintext; exactly one stored entry for its header key and number is
  consumed, the aging clock advances, and no chain state changes.
\<close>

theorem dr_delivery_out_of_order:
  assumes "hash_lengths L" "aead_lengths L" "aead_correct L" "live_suite L (dr_desc A)"
    and "length (pub_pk (kp_pub (dr_dhs A))) = curve_pk_len (dr_desc A)"
    and "gy_dr_encrypt L A cap pt ad r = (Inr msg, A', r')"
    and "dr_receiver_of A B" "store_inv (dr_skipped B)" "no_stray L B msg (dr_hks A)"
    and "gy_drc_kdf_ck L (dr_desc A) (dr_cks A) = Inr (mk, ckn)"
    and "(dr_hks A, dr_ns A, age, mk) \<in> set (store_abs (dr_skipped B))"
    and "\<forall>x \<in> set (store_abs (dr_skipped B)). fst x = dr_hks A \<longrightarrow> fst (snd x) = dr_ns A \<longrightarrow>
       snd (snd (snd x)) = mk"
    and "length pt \<le> cap'"
  shows "\<exists>i B'. i < length (store_abs (dr_skipped B)) \<and> fst (store_abs (dr_skipped B) ! i) = dr_hks A \<and>
     fst (snd (store_abs (dr_skipped B) ! i)) = dr_ns A \<and>
     gy_dr_decrypt_assoc L B cap' msg ad q = Some (Inr pt, True, B', q) \<and>
     B'\<lparr>dr_skipped := dr_skipped B\<rparr> = B \<and> store_inv (dr_skipped B') \<and>
     store_abs (dr_skipped B') =
       filter (item_fresh (ss_recv_count (dr_skipped B) + 1)) (del_at i (store_abs (dr_skipped B)))"
  using late_delivery [OF assms, of q] skipq.consume_abs [OF assms(8)] skipq.consume_inv [OF assms(8)]
  by force

end
