(* ===== verification/GY_Toy.thy ===== *)
theory GY_Toy
  imports GY_SkipStore
begin

text \<open>
  A concrete provider that has every property the development assumes of the third-party
  libraries. It is not cryptography: it shows that the hypotheses are consistent, and it is the
  input at which the theorems are evaluated.
\<close>

definition pad :: "nat \<Rightarrow> bytes \<Rightarrow> bytes" where
  "pad n xs = take n (xs @ replicate n 0)"

definition toy_aead_enc :: "aead_prim \<Rightarrow> bytes \<Rightarrow> bytes \<Rightarrow> bytes \<Rightarrow> bytes \<Rightarrow> bytes option" where
  "toy_aead_enc p k n ad pt = Some (pt @ pad (aead_abytes p) k)"

definition toy_aead_dec :: "aead_prim \<Rightarrow> bytes \<Rightarrow> bytes \<Rightarrow> bytes \<Rightarrow> bytes \<Rightarrow> bytes option" where
  "toy_aead_dec p k n ad ct =
     (let m = length ct - aead_abytes p in
      if aead_abytes p \<le> length ct \<and> drop m ct = pad (aead_abytes p) k then Some (take m ct) else None)"

definition toy :: provider where
  "toy =
    \<lparr>randombytes_buf = (\<lambda>r n. replicate n (of_nat r + 7)),
     crypto_hash_sha256 = (\<lambda>m. 1 # pad 31 m),
     crypto_hash_sha512 = (\<lambda>m. 1 # pad 63 m),
     crypto_auth_hmacsha256 = (\<lambda>k m. 2 # pad 31 k),
     crypto_auth_hmacsha512 = (\<lambda>k m. 2 # pad 63 k),
     crypto_kdf_hkdf_sha256_expand = (\<lambda>n i k. Some (pad n (3 # k))),
     crypto_kdf_hkdf_sha512_expand = (\<lambda>n i k. Some (pad n (3 # k))),
     crypto_aead_encrypt = toy_aead_enc,
     crypto_aead_decrypt = toy_aead_dec,
     crypto_aead_aes256gcm_is_available = True,
     sodium_malloc = (\<lambda>n. True),
     crypto_pwhash = (\<lambda>n c s o1 m. Some (pad n c)),
     crypto_scalarmult_curve25519_base = (\<lambda>k. Some (pad 32 k)),
     crypto_scalarmult_curve25519 = (\<lambda>k p. Some (map2 (OR) (pad 32 k) (pad 32 p))),
     crypto_scalarmult_ed25519_base_noclamp = (\<lambda>k. Some (pad 32 k)),
     crypto_core_ed25519_scalar_negate = pad 32,
     crypto_core_ed25519_scalar_reduce = pad 32,
     crypto_core_ed25519_scalar_mul = (\<lambda>a b. pad 32 a),
     crypto_core_ed25519_scalar_add = (\<lambda>a b. pad 32 a),
     crypto_x25519_to_eddsa = pad 32,
     crypto_sign_verify_detached = (\<lambda>s m p. True),
     decaf_x448_derive_public_key = pad 56,
     decaf_x448 = (\<lambda>p k. Some (map2 (OR) (pad 56 k) (pad 56 p))),
     gf_add = (+), gf_sub = (-), gf_mul = (*), gf_mulw = (*),
     gf_sqr = (\<lambda>a. a * a),
     gf_cond_sel = (\<lambda>a b c. if c then b else a),
     gf_cond_neg = (\<lambda>a c. if c then - a else a),
     gf_isr = (\<lambda>a. (a, True)),
     gf_lobit = odd,
     gf_serialize = (\<lambda>a. replicate 56 0),
     gf_deserialize = (\<lambda>b. (0, True)),
     decaf_448_scalar_decode_long = (\<lambda>b. 0),
     decaf_448_scalar_decode = (\<lambda>b. Some 0),
     decaf_448_scalar_encode = (\<lambda>a. replicate 56 0),
     decaf_448_scalar_add = (+), decaf_448_scalar_sub = (-), decaf_448_scalar_mul = (*),
     decaf_448_scalar_cond_sel = (\<lambda>a b c. if c then b else a),
     OQS_KEM_keypair = (\<lambda>alg r. (Some (replicate (fst (kem_sizes alg)) (of_nat r),
                                      replicate (fst (snd (kem_sizes alg))) (of_nat r)), Suc r)),
     OQS_KEM_keypair_derand = (\<lambda>alg s. Some (replicate (fst (kem_sizes alg)) 1,
                                             replicate (fst (snd (kem_sizes alg))) 1)),
     OQS_KEM_encaps = (\<lambda>alg pk r. (Some (replicate (snd (snd (kem_sizes alg))) 3, replicate 32 4), Suc r)),
     OQS_KEM_decaps = (\<lambda>alg ct sk. Some (replicate 32 4)),
     OQS_SIG_keypair = (\<lambda>alg r. (Some (replicate (fst (sig_sizes alg)) (of_nat r),
                                      replicate (fst (snd (sig_sizes alg))) (of_nat r)), Suc r)),
     OQS_SIG_sign_with_ctx_str = (\<lambda>alg m c sk r. (Some (replicate (snd (snd (sig_sizes alg))) 5), Suc r)),
     OQS_SIG_verify_with_ctx_str = (\<lambda>alg m s c p. True)\<rparr>"

lemma length_pad [simp]: "length (pad n xs) = n"
  by (simp add: pad_def)

lemma pad_pad [simp]: "pad n (pad n xs) = pad n xs"
  by (simp add: pad_def)

lemma map2_or_commute: "map2 (OR) xs ys = map2 (OR) ys (xs :: bytes)"
  by (rule nth_equalityI) (simp_all add: or.commute)

lemma toy_hash_lengths: "hash_lengths toy"
  by (simp add: hash_lengths_def toy_def)

lemma toy_hkdf_total: "hkdf_total toy"
  by (simp add: hkdf_total_def toy_def)

lemma toy_aead_lengths: "aead_lengths toy"
  by (auto simp: aead_lengths_def toy_def toy_aead_enc_def toy_aead_dec_def Let_def split: if_splits)

lemma toy_aead_correct: "aead_correct toy"
  by (auto simp: aead_correct_def toy_def toy_aead_enc_def toy_aead_dec_def Let_def)

lemma toy_aead_total: "aead_total toy"
  by (auto simp: aead_total_def toy_def toy_aead_enc_def)

lemma toy_dh_commutes: "dh_commutes toy"
  by (auto simp: dh_commutes_def toy_def map2_or_commute)

lemma toy_dh_lengths: "dh_lengths toy"
  by (auto simp: dh_lengths_def toy_def)

lemma toy_kem_correct: "kem_correct toy"
  by (auto simp: kem_correct_def toy_def)

lemma toy_kem_lengths: "kem_lengths toy"
  by (auto simp: kem_lengths_def toy_def)

lemma toy_live:
  "gy_suite_desc toy sid = Some d \<Longrightarrow> live_suite toy d"
  using suite_desc_ok [OF toy_hash_lengths toy_hkdf_total] suite_desc_id [of toy sid d]
  by (simp add: live_suite_def)

lemma toy_live_rows [simp]:
  "live_suite toy (suite_c25519 toy)" "live_suite toy (suite_h25519_512 toy)"
  "live_suite toy (suite_c448 toy)" "live_suite toy (suite_h448_1024 toy)"
  by (rule toy_live, rule suite_desc_lookup)+

lemmas toy_facts = toy_hash_lengths toy_hkdf_total toy_aead_lengths toy_aead_correct toy_aead_total toy_dh_commutes
  toy_dh_lengths toy_kem_correct toy_kem_lengths

lemma case_Some_InrD:
  assumes "case x of None \<Rightarrow> False | Some (Inl e, r) \<Rightarrow> False | Some (Inr k, r) \<Rightarrow> P k r"
  shows "\<exists>k r. x = Some (Inr k, r) \<and> P k r"
  using assms by (cases x; cases "fst (the x)") auto

end
