(* ===== verification/GY_DRWitness.thy ===== *)
theory GY_DRWitness
  imports GY_DRSync GY_Toy
begin

text \<open>
  Concrete sessions over the concrete provider: the states at which the delivery theorems of the
  classical ratchet are applied, with every hypothesis discharged.
\<close>

abbreviation c25519 :: gy_suite_desc where "c25519 \<equiv> suite_c25519 toy"

definition toy_spk :: gy_keypair where
  "toy_spk = \<lparr>kp_pub = \<lparr>pub_pkid = 0x01200007, pub_curve_type = 0x20, pub_pk = clamp25519 (replicate 32 7)\<rparr>,
      kp_sk = clamp25519 (replicate 32 7)\<rparr>"

definition toy_secrets :: gy_dr_secrets where
  "toy_secrets = \<lparr>sd_sk_dr = replicate 32 11, sd_shared_hka = replicate 32 12, sd_shared_nhkb = replicate 32 13\<rparr>"

definition toy_alice :: gy_dr_state where
  "toy_alice = (case gy_dr_init_alice toy c25519 1 toy_secrets (pub_pk (kp_pub toy_spk)) 1 of
     Some (Inr s, r) \<Rightarrow> s | _ \<Rightarrow> dr_zero c25519 1)"

definition toy_bob :: gy_dr_state where
  "toy_bob = gy_dr_init_bob c25519 1 toy_secrets toy_spk"

text \<open>A sender two messages ahead of a receiver on the same chain.\<close>

definition toy_ck :: bytes where "toy_ck = replicate 32 5"

definition toy_sender :: gy_dr_state where
  "toy_sender = (dr_zero c25519 1)\<lparr>dr_dhs := toy_spk, dr_have_cks := 1, dr_have_hks := 1,
     dr_hks := replicate 32 9, dr_cks := toy_ck\<rparr>"

definition toy_sender2 :: gy_dr_state where
  "toy_sender2 = toy_sender\<lparr>dr_ns := 2,
     dr_cks := (case chain_run toy c25519 2 toy_ck of Inr (_, ck) \<Rightarrow> ck | Inl _ \<Rightarrow> [])\<rparr>"

definition toy_receiver :: gy_dr_state where
  "toy_receiver = (dr_zero c25519 1)\<lparr>dr_have_ckr := 1, dr_have_hkr := 1, dr_have_dhr := 1,
     dr_hkr := replicate 32 9, dr_ckr := toy_ck, dr_dhr := pub_pk (kp_pub toy_spk)\<rparr>"

definition toy_mk :: bytes where
  "toy_mk = (case gy_drc_kdf_ck toy c25519 toy_ck of Inr (mk, _) \<Rightarrow> mk | Inl _ \<Rightarrow> [])"

definition toy_overtaken :: gy_dr_state where
  "toy_overtaken = toy_receiver\<lparr>dr_nr := 1,
     dr_skipped := store_insert empty_store (replicate 32 9) 0 toy_mk\<rparr>"

subsection \<open>Facts about them\<close>

lemma toy_spk_generated: "op_keypair c25519 0 = (Inr (pub_pk (kp_pub toy_spk), kp_sk toy_spk), 1)"
  by code_simp

lemma toy_spk_keypair: "keypair_of c25519 toy_spk"
  using toy_spk_generated unfolding keypair_of_def by blast

lemma toy_alice_init:
  "gy_dr_init_alice toy c25519 1 toy_secrets (pub_pk (kp_pub toy_spk)) 1 = Some (Inr toy_alice, 2)"
proof -
  have "case gy_dr_init_alice toy c25519 1 toy_secrets (pub_pk (kp_pub toy_spk)) 1 of
      Some (Inr s, r) \<Rightarrow> r = 2 | _ \<Rightarrow> False"
    by code_simp
  from case_Some_InrD [OF this] show ?thesis by (auto simp: toy_alice_def)
qed

lemma toy_alice_fields:
  "dr_desc toy_alice = c25519" "dr_aead_id toy_alice = 1" "dr_have_cks toy_alice = 1"
  "dr_have_hks toy_alice = 1" "dr_ns toy_alice = 0" "dr_dhr toy_alice = pub_pk (kp_pub toy_spk)"
proof -
  obtain dhs rk cks nhks where eq: "toy_alice = (dr_zero c25519 1)
       \<lparr>dr_dhr := pub_pk (kp_pub toy_spk), dr_have_dhr := 1,
        dr_hks := sd_shared_hka toy_secrets, dr_nhkr := sd_shared_nhkb toy_secrets,
        dr_have_hks := 1, dr_have_nhkr := 1, dr_dhs := dhs, dr_rk := rk,
        dr_cks := cks, dr_nhks := nhks, dr_have_cks := 1, dr_have_nhks := 1\<rparr>"
    using init_alice_ok [OF toy_alice_init] by metis
  show "dr_desc toy_alice = c25519" "dr_aead_id toy_alice = 1" "dr_have_cks toy_alice = 1"
    "dr_have_hks toy_alice = 1" "dr_ns toy_alice = 0" "dr_dhr toy_alice = pub_pk (kp_pub toy_spk)"
    unfolding eq by (simp_all add: dr_zero_def)
qed

lemma toy_alice_pk: "length (pub_pk (kp_pub (dr_dhs toy_alice))) = curve_pk_len c25519"
  by code_simp

lemma toy_aead_available: "gy_aead_available toy 1"
  by code_simp

lemma toy_sizes: "curve_pk_len c25519 = 32" "gy_aead_tag_len 1 = 16"
  by code_simp+

lemma toy_encrypts:
  assumes "dr_desc st = c25519" "dr_aead_id st = 1" "dr_have_cks st \<noteq> 0" "dr_have_hks st \<noteq> 0"
    and "length (pub_pk (kp_pub (dr_dhs st))) = curve_pk_len c25519"
  shows "\<exists>msg st'. gy_dr_encrypt toy st 300 [1, 2, 3] [] r = (Inr msg, st', Suc r)"
  using assms by (intro dr_encrypt_succeeds)
    (simp_all add: toy_facts toy_aead_available toy_sizes SIZE_MAX_def)

lemma toy_fresh_key:
  obtains kp dhn where "gen_ratchet_keypair toy c25519 5 = Some (Inr kp, 6)"
    "op_dh c25519 (kp_sk kp) (pub_pk (kp_pub (dr_dhs toy_alice))) = Inr dhn"
    "pub_pk (kp_pub kp) \<noteq> dr_dhr toy_alice"
proof -
  have "case gen_ratchet_keypair toy c25519 5 of
      Some (Inr kp, r) \<Rightarrow> r = 6 \<and> pub_pk (kp_pub kp) \<noteq> pub_pk (kp_pub toy_spk) \<and>
        (case op_dh c25519 (kp_sk kp) (pub_pk (kp_pub (dr_dhs toy_alice))) of Inr _ \<Rightarrow> True | Inl _ \<Rightarrow> False)
    | _ \<Rightarrow> False"
    by code_simp
  from case_Some_InrD [OF this] obtain kp where kp: "gen_ratchet_keypair toy c25519 5 = Some (Inr kp, 6)"
      "pub_pk (kp_pub kp) \<noteq> pub_pk (kp_pub toy_spk)"
      "case op_dh c25519 (kp_sk kp) (pub_pk (kp_pub (dr_dhs toy_alice))) of Inr _ \<Rightarrow> True | Inl _ \<Rightarrow> False"
    by blast
  then show thesis using that [OF kp(1)] toy_alice_fields(6) by (auto split: sum.splits)
qed

lemma toy_bob_closed: "no_stray_epoch toy toy_bob msg"
  by (simp add: no_stray_epoch_def toy_bob_def gy_dr_init_bob_def dr_zero_def)

lemma toy_receiver_closed: "no_stray toy toy_receiver msg hk"
  by (simp add: no_stray_def toy_receiver_def dr_zero_def)

lemma toy_pair_sync: "recv_sync toy toy_sender2 toy_receiver"
proof -
  obtain mks ck where "chain_run toy c25519 2 toy_ck = Inr (mks, ck)"
    using chain_run_total [OF toy_live_rows(1)] by blast
  then show ?thesis
    by (simp add: recv_sync_def toy_sender2_def toy_sender_def toy_receiver_def dr_zero_def
        dr_receiver_of_def store_inv_empty below_def)
qed

lemma toy_sender_pk: "length (pub_pk (kp_pub (dr_dhs toy_sender))) = curve_pk_len c25519"
    "length (pub_pk (kp_pub (dr_dhs toy_sender2))) = curve_pk_len c25519"
  by (simp_all add: toy_sender2_def toy_sender_def toy_spk_def toy_sizes)

lemma toy_overtaken_store:
  "store_inv (dr_skipped toy_overtaken)"
  "store_abs (dr_skipped toy_overtaken) = [(replicate 32 9, 0, 0, toy_mk)]"
  by (simp_all add: toy_overtaken_def skipq.insert_inv skipq.insert_abs store_inv_empty fifo_push_def
      GY_MAX_SKIP_def) (simp add: empty_store_def)

subsection \<open>The theorems at these states\<close>

theorem dr_delivery_new_epoch_witness:
  "\<exists>msg A' B'. gy_dr_encrypt toy toy_alice 300 [1, 2, 3] [] 2 = (Inr msg, A', 3) \<and>
     gy_dr_decrypt_assoc toy toy_bob 300 msg [] 5 = Some (Inr [1, 2, 3], True, B', 6) \<and>
     recv_sync toy A' B' \<and> turn_sync toy B' A'"
proof -
  obtain msg A' where e: "gy_dr_encrypt toy toy_alice 300 [1, 2, 3] [] 2 = (Inr msg, A', Suc 2)"
    using toy_encrypts [of toy_alice 2] toy_alice_fields toy_alice_pk by auto
  obtain kp dhn where k: "gen_ratchet_keypair toy c25519 5 = Some (Inr kp, 6)"
    "op_dh c25519 (kp_sk kp) (pub_pk (kp_pub (dr_dhs toy_alice))) = Inr dhn"
    "pub_pk (kp_pub kp) \<noteq> dr_dhr toy_alice"
    by (rule toy_fresh_key)
  have t: "turn_sync toy toy_alice toy_bob"
    using init_turn_sync [OF toy_live_rows(1) toy_dh_commutes toy_spk_keypair toy_alice_init]
    by (simp add: toy_bob_def)
  have "dr_have_ckr toy_bob = 0" by (simp add: toy_bob_def gy_dr_init_bob_def dr_zero_def)
  then have "\<exists>B'. gy_dr_decrypt_assoc toy toy_bob 300 msg [] 5 = Some (Inr [1, 2, 3], True, B', 6) \<and>
      recv_sync toy A' B' \<and> turn_sync toy B' A'"
    using k toy_alice_fields toy_alice_pk
    by (intro dr_delivery_new_epoch [OF toy_hash_lengths toy_aead_lengths toy_aead_correct _ _ e t
          toy_bob_closed, where kp = kp and dhn = dhn]) (simp_all add: toy_dh_commutes GY_MAX_SKIP_def)
  with e show ?thesis by auto
qed

theorem dr_delivery_in_chain_witness:
  "\<exists>msg A' B'. gy_dr_encrypt toy toy_sender2 300 [1, 2, 3] [] 0 = (Inr msg, A', 1) \<and>
     gy_dr_decrypt_assoc toy toy_receiver 300 msg [] 0 = Some (Inr [1, 2, 3], True, B', 0) \<and>
     recv_sync toy A' B' \<and> dr_nr B' = dr_ns A'"
proof -
  obtain msg A' where e: "gy_dr_encrypt toy toy_sender2 300 [1, 2, 3] [] 0 = (Inr msg, A', Suc 0)"
    using toy_encrypts [of toy_sender2] toy_sender_pk
    by (fastforce simp: toy_sender2_def toy_sender_def dr_zero_def)
  have "dr_desc toy_sender2 = c25519" "dr_ns toy_sender2 = 2" "dr_nr toy_receiver = 0"
    by (simp_all add: toy_sender2_def toy_sender_def toy_receiver_def dr_zero_def)
  then have "\<exists>B' mks. gy_dr_decrypt_assoc toy toy_receiver 300 msg [] 0 = Some (Inr [1, 2, 3], True, B', 0) \<and>
     recv_sync toy A' B' \<and> dr_nr B' = dr_ns A' \<and>
     chain_run toy (dr_desc toy_sender2) (unat (dr_ns toy_sender2) - unat (dr_nr toy_receiver)) (dr_ckr toy_receiver)
       = Inr (mks, dr_cks toy_sender2) \<and>
     store_abs (dr_skipped B') = filter (item_fresh (ss_recv_count (dr_skipped toy_receiver) + 1))
       (foldl (fifo_push GY_MAX_SKIP) (store_abs (dr_skipped toy_receiver))
         (skip_items (dr_hkr toy_receiver) (dr_nr toy_receiver) (ss_recv_count (dr_skipped toy_receiver)) mks))"
    using toy_sender_pk
    by (intro dr_delivery_in_chain [OF toy_hash_lengths toy_aead_lengths toy_aead_correct _ _ e toy_pair_sync
          toy_receiver_closed]) (simp_all add: GY_MAX_SKIP_def)
  with e show ?thesis by auto
qed


theorem dr_delivery_out_of_order_witness:
  "\<exists>msg A' B'. gy_dr_encrypt toy toy_sender 300 [1, 2, 3] [] 0 = (Inr msg, A', 1) \<and>
     gy_dr_decrypt_assoc toy toy_overtaken 300 msg [] 0 = Some (Inr [1, 2, 3], True, B', 0) \<and>
     store_abs (dr_skipped B') = []"
proof -
  obtain msg A' where e: "gy_dr_encrypt toy toy_sender 300 [1, 2, 3] [] 0 = (Inr msg, A', Suc 0)"
    using toy_encrypts [of toy_sender] toy_sender_pk
    by (fastforce simp: toy_sender_def dr_zero_def)
  have f: "dr_desc toy_sender = c25519" "dr_ns toy_sender = 0" "dr_hks toy_sender = replicate 32 9"
      "dr_cks toy_sender = toy_ck" "dr_receiver_of toy_sender toy_overtaken"
    by (simp_all add: toy_sender_def toy_overtaken_def toy_receiver_def dr_zero_def dr_receiver_of_def)
  obtain ckn where k: "gy_drc_kdf_ck toy c25519 toy_ck = Inr (toy_mk, ckn)"
    using kdf_ck_total [OF toy_live_rows(1), of toy_ck] by (auto simp: toy_mk_def)
  have closed: "no_stray toy toy_overtaken msg (replicate 32 9)"
    by (simp add: no_stray_def toy_overtaken_store)
  have "\<exists>i B'. i < length (store_abs (dr_skipped toy_overtaken)) \<and>
     fst (store_abs (dr_skipped toy_overtaken) ! i) = dr_hks toy_sender \<and>
     fst (snd (store_abs (dr_skipped toy_overtaken) ! i)) = dr_ns toy_sender \<and>
     gy_dr_decrypt_assoc toy toy_overtaken 300 msg [] 0 = Some (Inr [1, 2, 3], True, B', 0) \<and>
     B'\<lparr>dr_skipped := dr_skipped toy_overtaken\<rparr> = toy_overtaken \<and> store_inv (dr_skipped B') \<and>
     store_abs (dr_skipped B') = filter (item_fresh (ss_recv_count (dr_skipped toy_overtaken) + 1))
       (del_at i (store_abs (dr_skipped toy_overtaken)))"
    using f k closed toy_sender_pk(1) toy_overtaken_store
    by (intro dr_delivery_out_of_order [OF toy_hash_lengths toy_aead_lengths toy_aead_correct _ _ e f(5),
          where mk = toy_mk and ckn = ckn and age = 0]) simp_all
  with e show ?thesis by (auto simp: toy_overtaken_store del_at_def)
qed

end
