(* ===== verification/GY_CoreWitness.thy ===== *)
theory GY_CoreWitness
  imports GY_DRWitness
begin

text \<open>
  The properties of the core, the headers, the skipped-key store, the prekeys and the ratchet
  invariant, each applied at a concrete input with its hypotheses discharged.
\<close>

subsection \<open>Core\<close>

theorem u_ge_p_iff_ge_prime_witness:
  "u_ge_p (replicate 32 0xff) \<longleftrightarrow> 2 ^ 255 - 19 \<le> le_val (replicate 32 0xff)"
  using u_ge_p_iff_ge_prime [of "replicate 32 0xff"] by simp

subsection \<open>Headers\<close>

definition toy_header :: gy_dr_header where
  "toy_header = \<lparr>hdr_flags = 0x20, hdr_ratchet_pk = replicate 32 7, hdr_pn = 3, hdr_n = 5\<rparr>"

theorem dr_header_roundtrip_witness:
  "\<exists>e. gy_dr_header_encode c25519 toy_header 68 = Inr e \<and>
     gy_dr_header_decode c25519 (e @ [9, 9]) = Inr (toy_header, length e)"
proof -
  have "header_wf c25519 toy_header" by code_simp
  moreover obtain e where "gy_dr_header_encode c25519 toy_header 68 = Inr e"
    by (auto simp: gy_dr_header_encode_def toy_header_def suite_row_defs Let_def)
  ultimately show ?thesis using dr_header_roundtrip [of c25519 toy_header 68 e "[9, 9]"] by blast
qed

subsection \<open>Skipped keys\<close>

definition toy_store :: gy_skip_store where
  "toy_store = store_insert empty_store [1] 0 [2]"

lemma toy_store_facts: "store_inv toy_store" "store_abs toy_store = [([1], 0, 0, [2])]"
  by (simp_all add: toy_store_def skipq.insert_inv skipq.insert_abs store_inv_empty fifo_push_def GY_MAX_SKIP_def)
    (simp add: empty_store_def)


theorem epoch_intern_in_range_witness: "snd (epoch_intern toy_store [3]) < GY_MAX_SKIP"
  using epoch_intern_in_range [of toy_store "[3]"] toy_store_facts length_store_abs [of toy_store]
  by (simp add: GY_MAX_SKIP_def)

theorem skip_forward_stores_missed_witness:
  "\<exists>s' mks ck'. gy_drc_skip_forward toy c25519 toy_store [5] 2 4 [6] = (Inr (), s', ck', 4) \<and>
     length mks = 2 \<and> store_abs s' = store_abs toy_store @ skip_items [6] 2 (ss_recv_count toy_store) mks"
  using skip_forward_stores_missed [of toy_store 2 4 toy c25519 "[5]" "[6]"] toy_store_facts toy_live_rows
  by (auto simp: Let_def GY_MAX_SKIP_def)

subsection \<open>Prekeys\<close>

theorem gen_keypair_returns_witness:
  "\<exists>res r'. gen_keypair toy c25519 [] [] 0 = Some (res, r')"
proof -
  have "fst (gen_keypair_once toy c25519 [] [] 0) \<noteq> Inr None"
  proof -
    have "case fst (gen_keypair_once toy c25519 [] [] 0) of Inr None \<Rightarrow> False | _ \<Rightarrow> True" by code_simp
    then show ?thesis by (auto split: sum.splits option.splits)
  qed
  then show ?thesis using gen_keypair_returns [of 0 toy c25519 "[]" "[]" "\<lambda>i. i"] by auto
qed

subsection \<open>The ratchet\<close>

lemma toy_bad_message: "gy_dr_decrypt_assoc toy toy_bob 300 [1, 2] [] 0 = Some (Inl GY_ERR_STATE, False, toy_bob, 0)"
  by (simp add: gy_dr_decrypt_assoc_def dr_parse_frame_def toy_bob_def gy_dr_init_bob_def dr_zero_def
      gy_frame_check_def wire_const_defs Let_def GY_X3DH_AD_MAX_def)

theorem dr_decrypt_commit_after_verify_witness:
  "gy_dr_decrypt_assoc toy toy_bob 300 [1, 2] [] 0 = Some (Inl GY_ERR_STATE, False, toy_bob, 0) \<and> toy_bob = toy_bob"
  using dr_decrypt_commit_after_verify [OF toy_bad_message] toy_bad_message by simp

lemma toy_bob_inv: "dr_inv toy_bob" "dr_desc toy_bob = c25519"
  by (simp_all add: dr_inv_def toy_bob_def gy_dr_init_bob_def dr_zero_def store_inv_empty toy_secrets_def
      GY_DR_KEY_LEN_def)

theorem dr_inv_preserved_witness: "dr_inv toy_bob \<and> dr_inv (fst (snd (gy_dr_encrypt toy toy_bob 300 [1] [] 0)))"
proof -
  obtain res' st'' r'' where e: "gy_dr_encrypt toy toy_bob 300 [1] [] 0 = (res', st'', r'')"
    by (cases "gy_dr_encrypt toy toy_bob 300 [1] [] 0")
  have "live_suite toy (dr_desc toy_bob)" using toy_bob_inv(2) by simp
  from dr_inv_preserved [OF this toy_bob_inv(1), where cap' = 300 and pt = "[1]" and ad = "[]" and r = 0] e
  show ?thesis using toy_bob_inv(1) by auto
qed

end
