(* ===== verification/GY_X3DH.thy ===== *)
theory GY_X3DH
  imports GY_DoubleRatchet GY_KeyAgree
begin

text \<open>
  The X3DH handshake of \<^verbatim>\<open>src/kex/x3dh.c\<close>: the initiator's and the responder's computation for the
  classical and the hybrid suites, the handshake prefix they exchange, and the check of the
  negotiated hybrid flag. The main theorems: what the initiator computes from a bundle, the
  responder computes from the initiator's prefix; and a responder that accepts has checked every
  identifier in it.
\<close>

definition GY_ENC_MAX :: nat where "GY_ENC_MAX = 1 + 56"
definition GY_X3DH_KEY_WIRE_MAX :: nat where "GY_X3DH_KEY_WIRE_MAX = 4 + 1 + 56"
definition GY_X3DH_PREFIX_MAX :: nat where "GY_X3DH_PREFIX_MAX = 2 + 2 * GY_X3DH_KEY_WIRE_MAX + 16"
definition GY_HYBRID_AD_MAX :: nat where "GY_HYBRID_AD_MAX = 2 * 64 + 4"
definition GY_HYBRID_IK_WIRE :: nat where "GY_HYBRID_IK_WIRE = 4 + 1 + 56 + 1568 + 2592"
definition GY_HYBRID_EK_WIRE :: nat where "GY_HYBRID_EK_WIRE = 4 + 1 + 56"
definition GY_HYBRID_X3DH_PREFIX_MAX :: nat where
  "GY_HYBRID_X3DH_PREFIX_MAX = 2 + GY_HYBRID_IK_WIRE + GY_HYBRID_EK_WIRE + 3 * 1568 + 12 + 4"

record gy_x3dh_opk_ref =
  ref_present :: u8
  ref_pkid :: u32

record gy_x3dh_local =
  xl_ik :: gy_keypair
  xl_spk :: gy_keypair
  xl_opks :: "gy_keypair list"

record gy_hybrid_x3dh_local =
  hxl_ik :: gy_hybrid_identity_keypair
  hxl_spk :: gy_hybrid_keypair
  hxl_spk_flags :: u64
  hxl_opks :: "gy_hybrid_keypair list"

subsection \<open>Key derivation and associated data\<close>

definition expand_one :: "provider \<Rightarrow> gy_suite_desc \<Rightarrow> bytes \<Rightarrow> string \<Rightarrow> bytes res" where
  "expand_one L desc sk purpose =
     rbind (gy_info L GY_INFO_MAX (suite_id desc) purpose) (\<lambda>info.
       op_hkdf_expand desc GY_DR_SECRET_LEN sk info)"

definition expand_secrets :: "provider \<Rightarrow> gy_suite_desc \<Rightarrow> bytes \<Rightarrow> gy_dr_secrets res" where
  "expand_secrets L desc sk =
     rbind (expand_one L desc sk ''dr.sk'') (\<lambda>sk_dr.
     rbind (expand_one L desc sk ''he.hka'') (\<lambda>hka.
     rbind (expand_one L desc sk ''he.nhkb'') (\<lambda>nhkb.
       Inr \<lparr>sd_sk_dr = sk_dr, sd_shared_hka = hka, sd_shared_nhkb = nhkb\<rparr>)))"

definition derive_secrets :: "provider \<Rightarrow> gy_suite_desc \<Rightarrow> bytes list \<Rightarrow> gy_dr_secrets res" where
  "derive_secrets L desc dh =
     rbind (op_hkdf_extract desc (replicate (hash_len desc) 0) (gy_suite_f desc # dh)) (\<lambda>prk.
     rbind (gy_info L GY_INFO_MAX (suite_id desc) ''x3dh'') (\<lambda>info.
     rbind (op_hkdf_expand desc (hash_len desc) prk info) (\<lambda>sk.
       expand_secrets L desc sk)))"

definition build_ad :: "gy_public_key \<Rightarrow> gy_public_key \<Rightarrow> bytes res" where
  "build_ad ik_a ik_b =
     rbind (gy_encode_ec GY_X3DH_AD_MAX (pub_curve_type ik_a) (pub_pk ik_a)) (\<lambda>e1.
     rbind (gy_encode_ec (GY_X3DH_AD_MAX - length e1) (pub_curve_type ik_b) (pub_pk ik_b)) (\<lambda>e2.
       Inr (e1 @ e2)))"

definition put_pubkey :: "gy_public_key \<Rightarrow> nat \<Rightarrow> bytes" where
  "put_pubkey k pk_len = gy_be32_put (pub_pkid k) @ [pub_curve_type k] @ take pk_len (pub_pk k)"

definition parse_pubkey :: "bytes \<Rightarrow> nat \<Rightarrow> gy_public_key" where
  "parse_pubkey buf pk_len =
     \<lparr>pub_pkid = gy_be32_get buf, pub_curve_type = buf ! 4, pub_pk = take pk_len (drop 5 buf)\<rparr>"

definition pkid_matches :: "provider \<Rightarrow> gy_suite_desc \<Rightarrow> gy_public_key \<Rightarrow> unit res" where
  "pkid_matches L desc k =
     rbind (gy_encode_ec GY_ENC_MAX (pub_curve_type k) (pub_pk k)) (\<lambda>enc.
       case gy_pkid L (suite_id desc) enc of
         Inl _ \<Rightarrow> Inl GY_ERR_ARG
       | Inr recomputed \<Rightarrow> if recomputed = pub_pkid k then Inr () else Inl GY_ERR_VERIFY)"

subsection \<open>Classical handshake\<close>

text \<open>
  The ephemeral secret is erased on every path that gets past bundle validation; the second
  component of the result is the ephemeral key pair as the call leaves it.
\<close>

definition erase_sk :: "gy_keypair \<Rightarrow> gy_keypair" where
  "erase_sk kp = kp\<lparr>kp_sk := replicate (length (kp_sk kp)) 0\<rparr>"

definition x3dh_prefix ::
    "gy_suite_desc \<Rightarrow> gy_public_key \<Rightarrow> gy_public_key \<Rightarrow> u32 \<Rightarrow> u32 \<Rightarrow> u32 \<Rightarrow> bytes" where
  "x3dh_prefix desc ik ek ik_id spk_id opk_id =
     [GY_WIRE_VERSION, suite_id desc] @ put_pubkey ik (curve_pk_len desc) @ put_pubkey ek (curve_pk_len desc) @
     gy_be32_put ik_id @ gy_be32_put spk_id @ gy_be32_put opk_id @ gy_be32_put 0"

definition gy_x3dh_initiate ::
    "provider \<Rightarrow> gy_suite_desc \<Rightarrow> gy_keypair \<Rightarrow> gy_prekey_bundle \<Rightarrow> gy_keypair
      \<Rightarrow> (gy_dr_secrets \<times> bytes \<times> bytes) res \<times> gy_keypair" where
  "gy_x3dh_initiate L desc local_ik peer ek =
     (case gy_bundle_validate L desc peer of
        Inl e \<Rightarrow> (Inl e, ek)
      | Inr _ \<Rightarrow>
          (let have_opk = gy_pkid_is_present (pub_pkid (pb_opk peer)) in
           (rbind (op_dh desc (kp_sk local_ik) (pub_pk (pb_spk peer))) (\<lambda>dh0.
            rbind (op_dh desc (kp_sk ek) (pub_pk (pb_ik peer))) (\<lambda>dh1.
            rbind (op_dh desc (kp_sk ek) (pub_pk (pb_spk peer))) (\<lambda>dh2.
            rbind (if have_opk then rbind (op_dh desc (kp_sk ek) (pub_pk (pb_opk peer))) (\<lambda>d. Inr [d])
                   else Inr []) (\<lambda>dh3.
            rbind (derive_secrets L desc ([dh0, dh1, dh2] @ dh3)) (\<lambda>secrets.
            rbind (build_ad (kp_pub local_ik) (pb_ik peer)) (\<lambda>ad.
              Inr (secrets, ad,
                   x3dh_prefix desc (kp_pub local_ik) (kp_pub ek) (pub_pkid (pb_ik peer)) (pub_pkid (pb_spk peer))
                     (if have_opk then pub_pkid (pb_opk peer) else 0)))))))),
            erase_sk ek)))"

definition find_opk :: "gy_x3dh_local \<Rightarrow> u32 \<Rightarrow> gy_keypair option" where
  "find_opk local opk_id = find (\<lambda>k. pub_pkid (kp_pub k) = opk_id) (xl_opks local)"

definition gy_x3dh_respond ::
    "provider \<Rightarrow> gy_suite_desc \<Rightarrow> gy_x3dh_local \<Rightarrow> bytes
      \<Rightarrow> (gy_dr_secrets \<times> bytes \<times> gy_x3dh_opk_ref) res" where
  "gy_x3dh_respond L desc local msg =
     rbind (gy_frame_check msg (suite_id desc)) (\<lambda>_.
       let kw = 4 + 1 + curve_pk_len desc; prefix_len = 2 + 2 * kw + 16 in
       if length msg < prefix_len then Inl GY_ERR_ARG
       else
         let ik = parse_pubkey (drop 2 msg) (curve_pk_len desc);
             ek = parse_pubkey (drop (2 + kw) msg) (curve_pk_len desc);
             ik_id = gy_be32_get (drop (2 + 2 * kw) msg);
             spk_id = gy_be32_get (drop (2 + 2 * kw + 4) msg);
             opk_id = gy_be32_get (drop (2 + 2 * kw + 8) msg) in
         if pub_curve_type ik \<noteq> curve_type desc \<or> pub_curve_type ek \<noteq> curve_type desc then Inl GY_ERR_STATE
         else
           rbind (pkid_matches L desc ik) (\<lambda>_.
           rbind (pkid_matches L desc ek) (\<lambda>_.
           if ik_id \<noteq> pub_pkid (kp_pub (xl_ik local)) then Inl GY_ERR_STATE
           else if spk_id \<noteq> pub_pkid (kp_pub (xl_spk local)) then Inl GY_ERR_VERIFY
           else
             let have_opk = gy_pkid_is_present opk_id; opk = (if have_opk then find_opk local opk_id else None) in
             if have_opk \<and> opk = None then Inl GY_ERR_VERIFY
             else
               rbind (op_dh desc (kp_sk (xl_spk local)) (pub_pk ik)) (\<lambda>dh0.
               rbind (op_dh desc (kp_sk (xl_ik local)) (pub_pk ek)) (\<lambda>dh1.
               rbind (op_dh desc (kp_sk (xl_spk local)) (pub_pk ek)) (\<lambda>dh2.
               rbind (if have_opk then rbind (op_dh desc (kp_sk (the opk)) (pub_pk ek)) (\<lambda>d. Inr [d])
                      else Inr []) (\<lambda>dh3.
               rbind (derive_secrets L desc ([dh0, dh1, dh2] @ dh3)) (\<lambda>secrets.
               rbind (build_ad ik (kp_pub (xl_ik local))) (\<lambda>ad.
                 Inr (secrets, ad, \<lparr>ref_present = (if have_opk then 1 else 0),
                                    ref_pkid = (if have_opk then opk_id else 0)\<rparr>)))))))))) "

subsection \<open>Hybrid handshake\<close>

definition hybrid_combine :: "gy_suite_desc \<Rightarrow> bytes \<Rightarrow> bytes \<Rightarrow> bytes res" where
  "hybrid_combine desc kem_ss dh = op_hash desc (kem_ss @ dh)"

definition hybrid_derive_secrets :: "provider \<Rightarrow> gy_suite_desc \<Rightarrow> bytes list \<Rightarrow> gy_dr_secrets res" where
  "hybrid_derive_secrets L desc hdh =
     rbind (op_hkdf_extract desc (replicate (hash_len desc) 0) (gy_suite_f desc # hdh)) (\<lambda>prk.
     rbind (gy_info L GY_INFO_MAX (suite_id desc) ''x3dh'') (\<lambda>info.
     rbind (op_hkdf_expand desc (hash_len desc) prk info) (\<lambda>sk.
       expand_secrets L desc sk)))"

definition hybrid_flag_check :: "u32 \<Rightarrow> u64 \<Rightarrow> unit res" where
  "hybrid_flag_check flag spk_flags =
     (let interval = (ucast (flag AND 0xFFFF) :: u16);
          aead_id = (ucast (drop_bit 16 flag AND 0xFF) :: u8);
          mn = (ucast (spk_flags AND 0xFFFF) :: u16);
          mx = (ucast (drop_bit 16 spk_flags AND 0xFFFF) :: u16) in
      if drop_bit 24 flag \<noteq> 0 then Inl GY_ERR_VERIFY
      else if interval < 1 \<or> interval > 100 then Inl GY_ERR_VERIFY
      else if interval < mn \<or> interval > mx then Inl GY_ERR_VERIFY
      else if aead_id < 1 \<or> aead_id > 3 then Inl GY_ERR_VERIFY
      else if spk_flags AND push_bit (31 + unat aead_id) 1 = 0 then Inl GY_ERR_VERIFY
      else Inr ())"

definition hybrid_build_ad ::
    "gy_suite_desc \<Rightarrow> gy_hybrid_identity_public_key \<Rightarrow> gy_hybrid_identity_public_key \<Rightarrow> u32 \<Rightarrow> bytes res" where
  "hybrid_build_ad desc a b hybrid_flag =
     rbind (gy_hybrid_ikhash desc a) (\<lambda>ha.
     rbind (gy_hybrid_ikhash desc b) (\<lambda>hb.
       Inr (ha @ hb @ gy_be32_put hybrid_flag)))"

definition put_hybrid_identity :: "gy_suite_desc \<Rightarrow> gy_hybrid_identity_public_key \<Rightarrow> bytes res" where
  "put_hybrid_identity desc k =
     rbind (gy_hybrid_encode_identity desc k (GY_HYBRID_IK_WIRE - 4)) (\<lambda>enc.
       Inr (gy_be32_put (pub_pkid (hp_curve (hi_base k))) @ enc))"

definition parse_hybrid_identity :: "gy_suite_desc \<Rightarrow> bytes \<Rightarrow> gy_hybrid_identity_public_key" where
  "parse_hybrid_identity desc buf =
     (let off1 = 5 + curve_pk_len desc; off2 = off1 + kem_pk_len desc in
      \<lparr>hi_base = \<lparr>hp_curve = \<lparr>pub_pkid = gy_be32_get buf, pub_curve_type = buf ! 4,
                               pub_pk = take (curve_pk_len desc) (drop 5 buf)\<rparr>,
                  hp_mlkem_ek = take (kem_pk_len desc) (drop off1 buf)\<rparr>,
       hi_mldsa_pk = take (dsa_pk_len desc) (drop off2 buf)\<rparr>)"

definition hybrid_ik_pkid_matches :: "provider \<Rightarrow> gy_suite_desc \<Rightarrow> gy_hybrid_identity_public_key \<Rightarrow> unit res" where
  "hybrid_ik_pkid_matches L desc k =
     rbind (gy_hybrid_encode_identity desc k GY_HYBRID_IK_WIRE) (\<lambda>enc.
       case gy_pkid L (suite_id desc) enc of
         Inl _ \<Rightarrow> Inl GY_ERR_ARG
       | Inr recomputed \<Rightarrow>
           if recomputed = pub_pkid (hp_curve (hi_base k)) then Inr () else Inl GY_ERR_VERIFY)"

text \<open>
  The four fused values: the KEM secret of the peer's signed prekey pairs the first and the third
  Diffie-Hellman value, that of the identity the second, that of the one-time prekey the fourth.
\<close>

definition hybrid_fuse ::
    "gy_suite_desc \<Rightarrow> bytes \<Rightarrow> bytes \<Rightarrow> bytes list \<Rightarrow> bytes \<Rightarrow> bytes \<Rightarrow> bytes \<Rightarrow> bytes list \<Rightarrow> bytes list res" where
  "hybrid_fuse desc ss_ik ss_spk ss_opk dh0 dh1 dh2 dh3 =
     rbind (hybrid_combine desc ss_spk dh0) (\<lambda>h0.
     rbind (hybrid_combine desc ss_ik dh1) (\<lambda>h1.
     rbind (hybrid_combine desc ss_spk dh2) (\<lambda>h2.
     rbind (if dh3 \<noteq> [] then rbind (hybrid_combine desc (hd ss_opk) (hd dh3)) (\<lambda>h. Inr [h]) else Inr []) (\<lambda>h3.
       Inr ([h0, h1, h2] @ h3)))))"

text \<open>The initiator, after validation: encapsulations, Diffie-Hellman values, fusion, prefix.\<close>

definition hybrid_x3dh_prefix ::
    "gy_suite_desc \<Rightarrow> gy_hybrid_identity_public_key \<Rightarrow> gy_public_key \<Rightarrow> bytes \<Rightarrow> bytes \<Rightarrow> bytes
      \<Rightarrow> u32 \<Rightarrow> u32 \<Rightarrow> u32 \<Rightarrow> u32 \<Rightarrow> bytes res" where
  "hybrid_x3dh_prefix desc ik ek ct_ik ct_spk ct_opk ik_id spk_id opk_id hybrid_flag =
     rbind (put_hybrid_identity desc ik) (\<lambda>ikw.
       Inr ([GY_WIRE_VERSION, suite_id desc] @ ikw @ put_pubkey ek (curve_pk_len desc) @
            take (kem_ct_len desc) ct_ik @ take (kem_ct_len desc) ct_spk @ take (kem_ct_len desc) ct_opk @
            gy_be32_put ik_id @ gy_be32_put spk_id @ gy_be32_put opk_id @ gy_be32_put hybrid_flag))"

definition hybrid_initiate_core ::
    "provider \<Rightarrow> gy_suite_desc \<Rightarrow> gy_hybrid_identity_keypair \<Rightarrow> gy_hybrid_prekey_bundle \<Rightarrow> gy_keypair \<Rightarrow> u32
      \<Rightarrow> (gy_dr_secrets \<times> bytes \<times> bytes) comp" where
  "hybrid_initiate_core L desc local_ik peer ek hybrid_flag =
     (let have_opk = gy_pkid_is_present (pub_pkid (hp_curve (hpb_opk peer)));
          spk_pk = pub_pk (hp_curve (hpb_spk peer)); ik_pk = pub_pk (hp_curve (hi_base (hpb_ik peer))) in
      cbind (ctot (the (op_kem_encap desc) (hp_mlkem_ek (hi_base (hpb_ik peer))))) (\<lambda>(ct0, ss0).
      cbind (ctot (the (op_kem_encap desc) (hp_mlkem_ek (hpb_spk peer)))) (\<lambda>(ct1, ss1).
      cbind (if have_opk then
               cbind (ctot (the (op_kem_encap desc) (hp_mlkem_ek (hpb_opk peer)))) (\<lambda>(ct2, ss2).
                 clift (Inr (ct2, [ss2])))
             else clift (Inr (replicate (kem_ct_len desc) 0, []))) (\<lambda>(ct2, ss2).
        clift (
          rbind (op_dh desc (hik_curve_sk local_ik) spk_pk) (\<lambda>dh0.
          rbind (op_dh desc (kp_sk ek) ik_pk) (\<lambda>dh1.
          rbind (op_dh desc (kp_sk ek) spk_pk) (\<lambda>dh2.
          rbind (if have_opk then rbind (op_dh desc (kp_sk ek) (pub_pk (hp_curve (hpb_opk peer)))) (\<lambda>d. Inr [d])
                 else Inr []) (\<lambda>dh3.
          rbind (hybrid_fuse desc ss0 ss1 ss2 dh0 dh1 dh2 dh3) (\<lambda>hdh.
          rbind (hybrid_derive_secrets L desc hdh) (\<lambda>secrets.
          rbind (hybrid_build_ad desc (hik_pub local_ik) (hpb_ik peer) hybrid_flag) (\<lambda>ad.
          rbind (hybrid_x3dh_prefix desc (hik_pub local_ik) (kp_pub ek) ct0 ct1 ct2
                   (pub_pkid (hp_curve (hi_base (hpb_ik peer)))) (pub_pkid (hp_curve (hpb_spk peer)))
                   (if have_opk then pub_pkid (hp_curve (hpb_opk peer)) else 0) hybrid_flag) (\<lambda>prefix.
            Inr (secrets, ad, prefix))))))))))))))"

definition gy_hybrid_x3dh_initiate ::
    "provider \<Rightarrow> gy_suite_desc \<Rightarrow> gy_hybrid_identity_keypair \<Rightarrow> gy_hybrid_prekey_bundle \<Rightarrow> gy_keypair \<Rightarrow> u32
      \<Rightarrow> rng \<Rightarrow> (gy_dr_secrets \<times> bytes \<times> bytes) res \<times> gy_keypair \<times> rng" where
  "gy_hybrid_x3dh_initiate L desc local_ik peer ek hybrid_flag r =
     (if \<not> is_hybrid desc then (Inl GY_ERR_STATE, ek, r)
      else case fst (gy_hybrid_bundle_validate L desc peer) of
          Inl e \<Rightarrow> (Inl e, ek, r)
        | Inr _ \<Rightarrow>
            (case hybrid_flag_check hybrid_flag (hpb_spk_flags peer) of
               Inl e \<Rightarrow> (Inl e, ek, r)
             | Inr _ \<Rightarrow>
                 (case the (hybrid_initiate_core L desc local_ik peer ek hybrid_flag r) of
                    (res, r') \<Rightarrow> (res, erase_sk ek, r'))))"

definition find_hybrid_opk :: "gy_hybrid_x3dh_local \<Rightarrow> u32 \<Rightarrow> gy_hybrid_keypair option" where
  "find_hybrid_opk local opk_id = find (\<lambda>k. pub_pkid (hp_curve (hk_pub k)) = opk_id) (hxl_opks local)"

text \<open>The parsed prefix of a hybrid initial message.\<close>

record hybrid_prefix =
  hx_ik :: gy_hybrid_identity_public_key
  hx_ek :: gy_public_key
  hx_ct_ik :: bytes
  hx_ct_spk :: bytes
  hx_ct_opk :: bytes
  hx_ik_id :: u32
  hx_spk_id :: u32
  hx_opk_id :: u32
  hx_flag :: u32

definition hybrid_ik_wire_len :: "gy_suite_desc \<Rightarrow> nat" where
  "hybrid_ik_wire_len desc = 4 + 1 + curve_pk_len desc + kem_pk_len desc + dsa_pk_len desc"

definition hybrid_prefix_len :: "gy_suite_desc \<Rightarrow> nat" where
  "hybrid_prefix_len desc =
     2 + hybrid_ik_wire_len desc + (4 + 1 + curve_pk_len desc) + 3 * kem_ct_len desc + 12 + 4"

definition parse_hybrid_prefix :: "gy_suite_desc \<Rightarrow> bytes \<Rightarrow> hybrid_prefix" where
  "parse_hybrid_prefix desc msg =
     (let o1 = 2 + hybrid_ik_wire_len desc; o2 = o1 + (4 + 1 + curve_pk_len desc);
          ctl = kem_ct_len desc; o3 = o2 + 3 * ctl in
      \<lparr>hx_ik = parse_hybrid_identity desc (drop 2 msg),
       hx_ek = parse_pubkey (drop o1 msg) (curve_pk_len desc),
       hx_ct_ik = take ctl (drop o2 msg), hx_ct_spk = take ctl (drop (o2 + ctl) msg),
       hx_ct_opk = take ctl (drop (o2 + 2 * ctl) msg),
       hx_ik_id = gy_be32_get (drop o3 msg), hx_spk_id = gy_be32_get (drop (o3 + 4) msg),
       hx_opk_id = gy_be32_get (drop (o3 + 8) msg), hx_flag = gy_be32_get (drop (o3 + 12) msg)\<rparr>)"

text \<open>Decapsulations, mirrored Diffie-Hellman values, fusion: the responder after its checks.\<close>

definition hybrid_respond_core ::
    "provider \<Rightarrow> gy_suite_desc \<Rightarrow> gy_hybrid_x3dh_local \<Rightarrow> hybrid_prefix \<Rightarrow> gy_hybrid_keypair option
      \<Rightarrow> (gy_dr_secrets \<times> bytes) res" where
  "hybrid_respond_core L desc local p opk =
     rbind (the (op_kem_decap desc) (hx_ct_ik p) (hik_mlkem_dk (hxl_ik local))) (\<lambda>ss0.
     rbind (the (op_kem_decap desc) (hx_ct_spk p) (hk_mlkem_dk (hxl_spk local))) (\<lambda>ss1.
     rbind (case opk of Some k \<Rightarrow> rbind (the (op_kem_decap desc) (hx_ct_opk p) (hk_mlkem_dk k)) (\<lambda>s. Inr [s])
            | None \<Rightarrow> Inr []) (\<lambda>ss2.
     rbind (op_dh desc (hk_curve_sk (hxl_spk local)) (pub_pk (hp_curve (hi_base (hx_ik p))))) (\<lambda>dh0.
     rbind (op_dh desc (hik_curve_sk (hxl_ik local)) (pub_pk (hx_ek p))) (\<lambda>dh1.
     rbind (op_dh desc (hk_curve_sk (hxl_spk local)) (pub_pk (hx_ek p))) (\<lambda>dh2.
     rbind (case opk of Some k \<Rightarrow> rbind (op_dh desc (hk_curve_sk k) (pub_pk (hx_ek p))) (\<lambda>d. Inr [d])
            | None \<Rightarrow> Inr []) (\<lambda>dh3.
     rbind (hybrid_fuse desc ss0 ss1 ss2 dh0 dh1 dh2 dh3) (\<lambda>hdh.
     rbind (hybrid_derive_secrets L desc hdh) (\<lambda>secrets.
     rbind (hybrid_build_ad desc (hx_ik p) (hik_pub (hxl_ik local)) (hx_flag p)) (\<lambda>ad.
       Inr (secrets, ad)))))))))))"

definition gy_hybrid_x3dh_respond ::
    "provider \<Rightarrow> gy_suite_desc \<Rightarrow> gy_hybrid_x3dh_local \<Rightarrow> bytes
      \<Rightarrow> (gy_dr_secrets \<times> bytes \<times> gy_x3dh_opk_ref \<times> u32) res" where
  "gy_hybrid_x3dh_respond L desc local msg =
     (if \<not> is_hybrid desc then Inl GY_ERR_STATE
      else
        rbind (gy_frame_check msg (suite_id desc)) (\<lambda>_.
          if length msg < hybrid_prefix_len desc then Inl GY_ERR_ARG
          else
            let p = parse_hybrid_prefix desc msg in
            if pub_curve_type (hp_curve (hi_base (hx_ik p))) \<noteq> curve_type desc \<or>
               pub_curve_type (hx_ek p) \<noteq> curve_type desc then Inl GY_ERR_STATE
            else
              rbind (hybrid_ik_pkid_matches L desc (hx_ik p)) (\<lambda>_.
              rbind (pkid_matches L desc (hx_ek p)) (\<lambda>_.
              if gy_be32_put (hx_ik_id p) \<noteq> gy_be32_put (pub_pkid (hp_curve (hi_base (hik_pub (hxl_ik local)))))
              then Inl GY_ERR_STATE
              else if hx_spk_id p \<noteq> pub_pkid (hp_curve (hk_pub (hxl_spk local))) then Inl GY_ERR_VERIFY
              else
                let have_opk = gy_pkid_is_present (hx_opk_id p);
                    opk = (if have_opk then find_hybrid_opk local (hx_opk_id p) else None) in
                if have_opk \<and> opk = None then Inl GY_ERR_VERIFY
                else
                  rbind (hybrid_flag_check (hx_flag p) (hxl_spk_flags local)) (\<lambda>_.
                  rbind (hybrid_respond_core L desc local p opk) (\<lambda>(secrets, ad).
                    Inr (secrets, ad, \<lparr>ref_present = (if have_opk then 1 else 0),
                                       ref_pkid = (if have_opk then hx_opk_id p else 0)\<rparr>, hx_flag p)))))))"

subsection \<open>Prefix codec\<close>

lemma length_put_pubkey: "length (pub_pk k) = n \<Longrightarrow> length (put_pubkey k n) = 4 + 1 + n"
  by (simp add: put_pubkey_def)

lemma parse_put_pubkey: "length (pub_pk k) = n \<Longrightarrow> parse_pubkey (put_pubkey k n @ rest) n = k"
  by (simp add: put_pubkey_def parse_pubkey_def nth_append)

lemma drop_prefix: "msg = pre @ suf \<Longrightarrow> length pre = k \<Longrightarrow> drop k msg = suf"
  by simp

lemma strip_be32: "prefix = xs @ gy_be32_put v \<Longrightarrow> take (length prefix - 4) prefix = xs"
  by simp

lemma pkid_matches_of_check: "check_pkid L d k = Inr () \<Longrightarrow> pkid_matches L d k = Inr ()"
  by (auto simp: check_pkid_def pkid_matches_def rbind_eq_Inr_iff GY_ENCODED_KEY_MAX_def GY_ENC_MAX_def
      split: if_splits)

text \<open>What the responder reads from a prefix whose last field, the length, was replaced.\<close>

lemma x3dh_prefix_fields:
  fixes d :: gy_suite_desc
  defines "n \<equiv> curve_pk_len d"
  assumes "length (pub_pk ik) = n" "length (pub_pk ek) = n"
    and "msg = [GY_WIRE_VERSION, suite_id d] @ put_pubkey ik n @ put_pubkey ek n @
       gy_be32_put ia @ gy_be32_put ib @ gy_be32_put ic @ rest"
  shows "gy_frame_check msg (suite_id d) = Inr ()"
    "parse_pubkey (drop 2 msg) n = ik" "parse_pubkey (drop (2 + (4 + 1 + n)) msg) n = ek"
    "gy_be32_get (drop (2 + 2 * (4 + 1 + n)) msg) = ia" "gy_be32_get (drop (2 + 2 * (4 + 1 + n) + 4) msg) = ib"
    "gy_be32_get (drop (2 + 2 * (4 + 1 + n) + 8) msg) = ic"
    "length msg = 2 + 2 * (4 + 1 + n) + 12 + length rest"
proof -
  note m = assms(4)
  have l: "length (put_pubkey ik n) = 4 + 1 + n" "length (put_pubkey ek n) = 4 + 1 + n"
    using assms(2,3) by (simp_all add: length_put_pubkey)
  have d0: "drop 2 msg = put_pubkey ik n @ put_pubkey ek n @ gy_be32_put ia @ gy_be32_put ib @ gy_be32_put ic @ rest"
    by (rule drop_prefix [OF m]) simp
  have d1: "drop (2 + (4 + 1 + n)) msg = put_pubkey ek n @ gy_be32_put ia @ gy_be32_put ib @ gy_be32_put ic @ rest"
    by (rule drop_prefix [of _ "[GY_WIRE_VERSION, suite_id d] @ put_pubkey ik n"]) (simp_all add: m l)
  have d2: "drop (2 + 2 * (4 + 1 + n)) msg = gy_be32_put ia @ gy_be32_put ib @ gy_be32_put ic @ rest"
    by (rule drop_prefix [of _ "[GY_WIRE_VERSION, suite_id d] @ put_pubkey ik n @ put_pubkey ek n"])
      (simp_all add: m l)
  have d3: "drop (2 + 2 * (4 + 1 + n) + 4) msg = gy_be32_put ib @ gy_be32_put ic @ rest"
    by (rule drop_prefix [of _ "[GY_WIRE_VERSION, suite_id d] @ put_pubkey ik n @ put_pubkey ek n @ gy_be32_put ia"])
      (simp_all add: m l)
  have d4: "drop (2 + 2 * (4 + 1 + n) + 8) msg = gy_be32_put ic @ rest"
    by (rule drop_prefix [of _ "[GY_WIRE_VERSION, suite_id d] @ put_pubkey ik n @ put_pubkey ek n @
           gy_be32_put ia @ gy_be32_put ib"]) (simp_all add: m l)
  show "gy_frame_check msg (suite_id d) = Inr ()" by (simp add: m gy_frame_check_def)
  show "parse_pubkey (drop 2 msg) n = ik" "parse_pubkey (drop (2 + (4 + 1 + n)) msg) n = ek"
    unfolding d0 d1 using assms(2,3) by (simp_all only: parse_put_pubkey)
  show "gy_be32_get (drop (2 + 2 * (4 + 1 + n)) msg) = ia" "gy_be32_get (drop (2 + 2 * (4 + 1 + n) + 4) msg) = ib"
    "gy_be32_get (drop (2 + 2 * (4 + 1 + n) + 8) msg) = ic"
    unfolding d2 d3 d4 by simp_all
  show "length msg = 2 + 2 * (4 + 1 + n) + 12 + length rest" by (simp add: m l)
qed

subsection \<open>Classical agreement\<close>

lemma x3dh_initiate_ok:
  assumes "gy_x3dh_initiate L d A peer ek = (Inr (sec, ad, prefix), ek')"
  obtains dh0 dh1 dh2 dh3 where
    "gy_bundle_validate L d peer = Inr ()" "op_dh d (kp_sk A) (pub_pk (pb_spk peer)) = Inr dh0"
    "op_dh d (kp_sk ek) (pub_pk (pb_ik peer)) = Inr dh1" "op_dh d (kp_sk ek) (pub_pk (pb_spk peer)) = Inr dh2"
    "(if pub_pkid (pb_opk peer) \<noteq> 0 then rbind (op_dh d (kp_sk ek) (pub_pk (pb_opk peer))) (\<lambda>x. Inr [x]) else Inr [])
       = Inr dh3"
    "derive_secrets L d ([dh0, dh1, dh2] @ dh3) = Inr sec" "build_ad (kp_pub A) (pb_ik peer) = Inr ad"
    "prefix = x3dh_prefix d (kp_pub A) (kp_pub ek) (pub_pkid (pb_ik peer)) (pub_pkid (pb_spk peer)) (pub_pkid (pb_opk peer))"
    "ek' = erase_sk ek"
  using assms
  by (auto simp: gy_x3dh_initiate_def Let_def rbind_eq_Inr_iff split: sum.splits)

text \<open>
  A key pair as the generator makes it, and a bundle that publishes the keys of a responder: the
  offered one-time prekey, if any, is the one found under its identifier.
\<close>

definition own_key :: "provider \<Rightarrow> gy_suite_desc \<Rightarrow> gy_keypair \<Rightarrow> bool" where
  "own_key L d kp \<longleftrightarrow> keypair_of d kp \<and> pub_curve_type (kp_pub kp) = curve_type d \<and> check_pkid L d (kp_pub kp) = Inr ()"

lemma generated_own_key: "gen_keypair L d existing batch r = Some (Inr kp, r') \<Longrightarrow> own_key L d kp"
  using gen_keypair_ok [of L d existing batch r kp r'] unfolding own_key_def keypair_of_def by blast

definition bundle_of_local :: "gy_suite_desc \<Rightarrow> gy_x3dh_local \<Rightarrow> gy_prekey_bundle \<Rightarrow> bool" where
  "bundle_of_local d local peer \<longleftrightarrow>
     keypair_of d (xl_ik local) \<and> keypair_of d (xl_spk local) \<and>
     pb_ik peer = kp_pub (xl_ik local) \<and> pb_spk peer = kp_pub (xl_spk local) \<and>
     (pub_pkid (pb_opk peer) = 0 \<or>
      (case find_opk local (pub_pkid (pb_opk peer)) of
         None \<Rightarrow> False | Some k \<Rightarrow> keypair_of d k \<and> kp_pub k = pb_opk peer))"

lemma x3dh_respond_mirror:
  assumes "live_suite L d" "dh_commutes L" "dh_lengths L" "own_key L d A" "own_key L d ek"
    "bundle_of_local d B peer"
    and i: "gy_x3dh_initiate L d A peer ek = (Inr (sec, ad, prefix), ek')"
    and msg: "msg = take (length prefix - 4) prefix @ rest" "4 \<le> length rest"
  shows "gy_x3dh_respond L d B msg =
     Inr (sec, ad, \<lparr>ref_present = (if pub_pkid (pb_opk peer) \<noteq> 0 then 1 else 0), ref_pkid = pub_pkid (pb_opk peer)\<rparr>)"
proof -
  obtain dh0 dh1 dh2 dh3 where o:
    "gy_bundle_validate L d peer = Inr ()" "op_dh d (kp_sk A) (pub_pk (pb_spk peer)) = Inr dh0"
    "op_dh d (kp_sk ek) (pub_pk (pb_ik peer)) = Inr dh1" "op_dh d (kp_sk ek) (pub_pk (pb_spk peer)) = Inr dh2"
    "(if pub_pkid (pb_opk peer) \<noteq> 0 then rbind (op_dh d (kp_sk ek) (pub_pk (pb_opk peer))) (\<lambda>x. Inr [x]) else Inr [])
       = Inr dh3"
    "derive_secrets L d ([dh0, dh1, dh2] @ dh3) = Inr sec" "build_ad (kp_pub A) (pb_ik peer) = Inr ad"
    "prefix = x3dh_prefix d (kp_pub A) (kp_pub ek) (pub_pkid (pb_ik peer)) (pub_pkid (pb_spk peer)) (pub_pkid (pb_opk peer))"
    by (rule x3dh_initiate_ok [OF i])
  have kA: "keypair_of d A" "pub_curve_type (kp_pub A) = curve_type d" "pkid_matches L d (kp_pub A) = Inr ()"
    and kE: "keypair_of d ek" "pub_curve_type (kp_pub ek) = curve_type d" "pkid_matches L d (kp_pub ek) = Inr ()"
    using assms(4,5) by (simp_all add: own_key_def pkid_matches_of_check)
  have b: "keypair_of d (xl_ik B)" "keypair_of d (xl_spk B)" "pb_ik peer = kp_pub (xl_ik B)"
      "pb_spk peer = kp_pub (xl_spk B)"
    using assms(6) by (simp_all add: bundle_of_local_def)
  note len = keypair_pk_len [OF assms(1,3) kA(1)] keypair_pk_len [OF assms(1,3) kE(1)]
  have m: "msg = [GY_WIRE_VERSION, suite_id d] @ put_pubkey (kp_pub A) (curve_pk_len d) @
       put_pubkey (kp_pub ek) (curve_pk_len d) @ gy_be32_put (pub_pkid (pb_ik peer)) @
       gy_be32_put (pub_pkid (pb_spk peer)) @ gy_be32_put (pub_pkid (pb_opk peer)) @ rest"
  proof -
    have "prefix = ([GY_WIRE_VERSION, suite_id d] @ put_pubkey (kp_pub A) (curve_pk_len d) @
       put_pubkey (kp_pub ek) (curve_pk_len d) @ gy_be32_put (pub_pkid (pb_ik peer)) @
       gy_be32_put (pub_pkid (pb_spk peer)) @ gy_be32_put (pub_pkid (pb_opk peer))) @ gy_be32_put 0"
      by (simp add: o(8) x3dh_prefix_def)
    from strip_be32 [OF this] show ?thesis unfolding msg(1) by simp
  qed
  note f = x3dh_prefix_fields [OF len m]
  note agree = keypair_dh_agree [OF assms(1,2)]
  have dh: "op_dh d (kp_sk (xl_spk B)) (pub_pk (kp_pub A)) = Inr dh0"
      "op_dh d (kp_sk (xl_ik B)) (pub_pk (kp_pub ek)) = Inr dh1"
      "op_dh d (kp_sk (xl_spk B)) (pub_pk (kp_pub ek)) = Inr dh2"
    using o(2-4) agree [OF b(2) kA(1)] agree [OF b(1) kE(1)] agree [OF b(2) kE(1)] b(3,4) by simp_all
  show ?thesis
  proof (cases "pub_pkid (pb_opk peer) = 0")
    case True
    then show ?thesis
      using o(5-7) dh kA(2,3) kE(2,3) b(3,4) msg(2)
      unfolding gy_x3dh_respond_def Let_def f by simp
  next
    case False
    then obtain k where k: "find_opk B (pub_pkid (pb_opk peer)) = Some k" "keypair_of d k" "kp_pub k = pb_opk peer"
      using assms(6) by (auto simp: bundle_of_local_def split: option.splits)
    have "op_dh d (kp_sk k) (pub_pk (kp_pub ek)) = op_dh d (kp_sk ek) (pub_pk (pb_opk peer))"
      using agree [OF k(2) kE(1)] k(3) by simp
    then show ?thesis
      using o(5-7) dh kA(2,3) kE(2,3) b(3,4) msg(2) False k(1)
      unfolding gy_x3dh_respond_def Let_def f by simp
  qed
qed

lemma expand_one_len:
  assumes "live_suite L d" "expand_one L d sk p = Inr x"
  shows "length x = 32"
proof -
  obtain info where "op_hkdf_expand d 32 sk info = Inr x"
    using assms(2) by (auto simp: expand_one_def rbind_eq_Inr_iff GY_DR_SECRET_LEN_def)
  moreover have "suite_ok d" using assms(1) by (simp add: live_suite_def)
  moreover have "32 \<le> 255 * hash_len d" using live_suite_hash [OF assms(1)] by auto
  ultimately show ?thesis using suite_ok_expand [of d 32 sk info] by auto
qed

definition secrets_wf :: "gy_dr_secrets \<Rightarrow> bool" where
  "secrets_wf s \<longleftrightarrow> length (sd_sk_dr s) = GY_DR_SECRET_LEN \<and> length (sd_shared_hka s) = GY_DR_SECRET_LEN \<and>
     length (sd_shared_nhkb s) = GY_DR_SECRET_LEN"

lemma expand_one_total:
  assumes "live_suite L d" "length p \<le> 10"
  shows "\<exists>x. expand_one L d sk p = Inr x"
proof -
  obtain i where "gy_info L GY_INFO_MAX (suite_id d) p = Inr i"
    using live_suite_info [OF assms(1), of p GY_INFO_MAX] assms(2) by (auto simp: GY_INFO_MAX_def)
  moreover have "\<exists>x. op_hkdf_expand d 32 sk i = Inr x"
    using assms(1) live_suite_hash [OF assms(1)] suite_ok_expand [of d 32 sk i] by (auto simp: live_suite_def)
  ultimately show ?thesis by (simp add: expand_one_def GY_DR_SECRET_LEN_def)
qed

lemma derive_secrets_total:
  assumes "live_suite L d"
  shows "\<exists>s. derive_secrets L d dhs = Inr s" "\<exists>s. hybrid_derive_secrets L d dhs = Inr s"
proof -
  obtain prk where p: "op_hkdf_extract d (replicate (hash_len d) 0) (gy_suite_f d # dhs) = Inr prk"
    using assms unfolding live_suite_def suite_ok_def by blast
  obtain i where i: "gy_info L GY_INFO_MAX (suite_id d) ''x3dh'' = Inr i"
    using live_suite_info [OF assms, of "''x3dh''" GY_INFO_MAX] by (auto simp: GY_INFO_MAX_def)
  obtain sk where k: "op_hkdf_expand d (hash_len d) prk i = Inr sk"
    using assms live_suite_hash [OF assms] suite_ok_expand [of d "hash_len d" prk i] by (auto simp: live_suite_def)
  obtain a b c where "expand_one L d sk ''dr.sk'' = Inr a" "expand_one L d sk ''he.hka'' = Inr b" "expand_one L d sk ''he.nhkb'' = Inr c"
    using expand_one_total [OF assms, of "''dr.sk''" sk] expand_one_total [OF assms, of "''he.hka''" sk]
      expand_one_total [OF assms, of "''he.nhkb''" sk] by auto
  with p i k show "\<exists>s. derive_secrets L d dhs = Inr s" "\<exists>s. hybrid_derive_secrets L d dhs = Inr s"
    by (simp_all add: derive_secrets_def hybrid_derive_secrets_def expand_secrets_def)
qed

lemma derive_secrets_wf:
  assumes "live_suite L d"
  shows "derive_secrets L d dhs = Inr s \<Longrightarrow> secrets_wf s"
    and "hybrid_derive_secrets L d dhs = Inr s \<Longrightarrow> secrets_wf s"
  by (auto simp: derive_secrets_def hybrid_derive_secrets_def expand_secrets_def rbind_eq_Inr_iff secrets_wf_def
      GY_DR_SECRET_LEN_def dest: expand_one_len [OF assms])

subsection \<open>Classical properties\<close>

text \<open>
  C17. X3DH agreement. If the initiator completes the handshake against a bundle that publishes a
  responder's keys, the responder, reading the initiator's prefix followed by anything (the code
  overwrites the four-byte length at its end), completes with the same three secrets and the same
  associated data, and reports the one-time prekey that was used. The prefix fits the fixed buffer,
  the secrets have their fixed length, and the initiator's ephemeral secret is erased.
\<close>

theorem x3dh_agreement:
  assumes "live_suite L d" "dh_commutes L" "dh_lengths L" "own_key L d A" "own_key L d ek"
    "bundle_of_local d B peer" "gy_x3dh_initiate L d A peer ek = (Inr (sec, ad, prefix), ek')" "4 \<le> length rest"
  shows "gy_x3dh_respond L d B (take (length prefix - 4) prefix @ rest) =
       Inr (sec, ad, \<lparr>ref_present = (if pub_pkid (pb_opk peer) \<noteq> 0 then 1 else 0), ref_pkid = pub_pkid (pb_opk peer)\<rparr>) \<and>
     secrets_wf sec \<and> length prefix \<le> GY_X3DH_PREFIX_MAX \<and> length ad \<le> GY_X3DH_AD_MAX \<and>
     kp_sk ek' = replicate (length (kp_sk ek)) 0"
proof -
  have cl: "curve_pk_len d \<le> 56" using assms(1) by (simp add: live_suite_def suite_ok_def)
  have "length (pub_pk (kp_pub A)) = curve_pk_len d" "length (pub_pk (kp_pub ek)) = curve_pk_len d"
    using keypair_pk_len [OF assms(1,3)] assms(4,5) by (simp_all add: own_key_def)
  moreover have "ek' = erase_sk ek" "secrets_wf sec" "build_ad (kp_pub A) (pb_ik peer) = Inr ad"
      "prefix = x3dh_prefix d (kp_pub A) (kp_pub ek) (pub_pkid (pb_ik peer)) (pub_pkid (pb_spk peer)) (pub_pkid (pb_opk peer))"
    by (rule x3dh_initiate_ok [OF assms(7)], auto intro: derive_secrets_wf [OF assms(1)])+
  ultimately show ?thesis
    using x3dh_respond_mirror [OF assms(1-7) refl assms(8)] cl
    by (auto simp: x3dh_prefix_def length_put_pubkey GY_X3DH_PREFIX_MAX_def GY_X3DH_KEY_WIRE_MAX_def
        erase_sk_def build_ad_def rbind_eq_Inr_iff encode_ec_ok GY_X3DH_AD_MAX_def)
qed

text \<open>
  A responder that accepts an initial message has recomputed both identifiers embedded in it,
  has recognised its own identity and its current signed prekey, and refers to a one-time prekey
  exactly if the message names one, which is then one it holds.
\<close>

lemma x3dh_respond_checks:
  assumes "gy_x3dh_respond L d B msg = Inr (sec, ad, ref)"
  shows "let kw = 4 + 1 + curve_pk_len d; ik = parse_pubkey (drop 2 msg) (curve_pk_len d);
            ek = parse_pubkey (drop (2 + kw) msg) (curve_pk_len d); tail = drop (2 + 2 * kw) msg in
     2 + 2 * kw + 16 \<le> length msg \<and> take 2 msg = gy_frame_put (suite_id d) \<and>
     pub_curve_type ik = curve_type d \<and> pub_curve_type ek = curve_type d \<and>
     gy_pkid L (suite_id d) (curve_type d # take (unat (curve_type d)) (pub_pk ik)) = Inr (pub_pkid ik) \<and>
     gy_pkid L (suite_id d) (curve_type d # take (unat (curve_type d)) (pub_pk ek)) = Inr (pub_pkid ek) \<and>
     gy_be32_get tail = pub_pkid (kp_pub (xl_ik B)) \<and> gy_be32_get (drop 4 tail) = pub_pkid (kp_pub (xl_spk B)) \<and>
     ref_pkid ref = gy_be32_get (drop 8 tail) \<and> (ref_present ref = 0 \<longleftrightarrow> ref_pkid ref = 0) \<and>
     (ref_pkid ref \<noteq> 0 \<longrightarrow> (\<exists>k \<in> set (xl_opks B). pub_pkid (kp_pub k) = ref_pkid ref))"
  using assms
  by (auto simp: gy_x3dh_respond_def Let_def rbind_eq_Inr_iff pkid_matches_def encode_ec_ok frame_check_ok
      find_opk_def find_Some_iff add.commute split: if_splits sum.splits)

subsection \<open>Hybrid agreement\<close>

definition curve_half :: "gy_hybrid_keypair \<Rightarrow> gy_keypair" where
  "curve_half k = \<lparr>kp_pub = hp_curve (hk_pub k), kp_sk = hk_curve_sk k\<rparr>"

definition identity_curve_half :: "gy_hybrid_identity_keypair \<Rightarrow> gy_keypair" where
  "identity_curve_half k = \<lparr>kp_pub = hp_curve (hi_base (hik_pub k)), kp_sk = hik_curve_sk k\<rparr>"

text \<open>A hybrid key pair both of whose halves were generated, and the same for an identity.\<close>

definition hybrid_keypair_of :: "gy_suite_desc \<Rightarrow> gy_hybrid_keypair \<Rightarrow> bool" where
  "hybrid_keypair_of d k \<longleftrightarrow> keypair_of d (curve_half k) \<and> kem_pair_of d (hp_mlkem_ek (hk_pub k)) (hk_mlkem_dk k)"

definition hybrid_identity_of :: "gy_suite_desc \<Rightarrow> gy_hybrid_identity_keypair \<Rightarrow> bool" where
  "hybrid_identity_of d k \<longleftrightarrow>
     keypair_of d (identity_curve_half k) \<and> kem_pair_of d (hp_mlkem_ek (hi_base (hik_pub k))) (hik_mlkem_dk k)"

text \<open>The initiator's identity: its public part has the sizes of the suite and its own identifier.\<close>

definition hybrid_own_identity :: "provider \<Rightarrow> gy_suite_desc \<Rightarrow> gy_hybrid_identity_keypair \<Rightarrow> bool" where
  "hybrid_own_identity L d k \<longleftrightarrow>
     keypair_of d (identity_curve_half k) \<and> pub_curve_type (hp_curve (hi_base (hik_pub k))) = curve_type d \<and>
     length (hp_mlkem_ek (hi_base (hik_pub k))) = kem_pk_len d \<and> length (hi_mldsa_pk (hik_pub k)) = dsa_pk_len d \<and>
     hybrid_ik_pkid_matches L d (hik_pub k) = Inr ()"

definition hybrid_bundle_of_local :: "gy_suite_desc \<Rightarrow> gy_hybrid_x3dh_local \<Rightarrow> gy_hybrid_prekey_bundle \<Rightarrow> bool" where
  "hybrid_bundle_of_local d local peer \<longleftrightarrow>
     hybrid_identity_of d (hxl_ik local) \<and> hybrid_keypair_of d (hxl_spk local) \<and>
     hpb_ik peer = hik_pub (hxl_ik local) \<and> hpb_spk peer = hk_pub (hxl_spk local) \<and>
     hpb_spk_flags peer = hxl_spk_flags local \<and>
     (pub_pkid (hp_curve (hpb_opk peer)) = 0 \<or>
      (case find_hybrid_opk local (pub_pkid (hp_curve (hpb_opk peer))) of
         None \<Rightarrow> False | Some k \<Rightarrow> hybrid_keypair_of d k \<and> hk_pub k = hpb_opk peer))"

lemma hybrid_encode_identity_bytes:
  assumes "gy_hybrid_encode_identity d k cap = Inr enc" "pub_curve_type (hp_curve (hi_base k)) = curve_type d"
    "live_suite L d" "length (pub_pk (hp_curve (hi_base k))) = curve_pk_len d"
    "length (hp_mlkem_ek (hi_base k)) = kem_pk_len d" "length (hi_mldsa_pk k) = dsa_pk_len d"
  shows "enc = [curve_type d] @ pub_pk (hp_curve (hi_base k)) @ hp_mlkem_ek (hi_base k) @ hi_mldsa_pk k"
proof -
  have "unat (curve_type d) = curve_pk_len d" using assms(3) by (simp add: live_suite_def suite_ok_def)
  then show ?thesis
    using assms by (auto simp: gy_hybrid_encode_identity_def gy_hybrid_encode_pub_def rbind_eq_Inr_iff encode_ec_ok
        split: if_splits)
qed

lemma put_hybrid_identity_bytes:
  assumes "put_hybrid_identity d k = Inr w" "pub_curve_type (hp_curve (hi_base k)) = curve_type d"
    "live_suite L d" "length (pub_pk (hp_curve (hi_base k))) = curve_pk_len d"
    "length (hp_mlkem_ek (hi_base k)) = kem_pk_len d" "length (hi_mldsa_pk k) = dsa_pk_len d"
  shows "length w = hybrid_ik_wire_len d" "parse_hybrid_identity d (w @ rest) = k"
proof -
  have w: "w = gy_be32_put (pub_pkid (hp_curve (hi_base k))) @ [curve_type d] @ pub_pk (hp_curve (hi_base k)) @
      hp_mlkem_ek (hi_base k) @ hi_mldsa_pk k"
    using assms(1) hybrid_encode_identity_bytes [OF _ assms(2-6)]
    by (auto simp: put_hybrid_identity_def rbind_eq_Inr_iff)
  show "length w = hybrid_ik_wire_len d" using assms(4-6) by (simp add: w hybrid_ik_wire_len_def)
  have d1: "drop (5 + curve_pk_len d) (w @ rest) = hp_mlkem_ek (hi_base k) @ hi_mldsa_pk k @ rest"
    by (rule drop_prefix [of _ "gy_be32_put (pub_pkid (hp_curve (hi_base k))) @ [curve_type d] @ pub_pk (hp_curve (hi_base k))"])
      (simp_all add: w assms(4))
  have d2: "drop (5 + curve_pk_len d + kem_pk_len d) (w @ rest) = hi_mldsa_pk k @ rest"
    by (rule drop_prefix [of _ "gy_be32_put (pub_pkid (hp_curve (hi_base k))) @ [curve_type d] @
          pub_pk (hp_curve (hi_base k)) @ hp_mlkem_ek (hi_base k)"]) (simp_all add: w assms(4,5))
  have d0: "drop 5 (w @ rest) = pub_pk (hp_curve (hi_base k)) @ hp_mlkem_ek (hi_base k) @ hi_mldsa_pk k @ rest"
    by (rule drop_prefix [of _ "gy_be32_put (pub_pkid (hp_curve (hi_base k))) @ [curve_type d]"]) (simp_all add: w)
  have h: "gy_be32_get (w @ rest) = pub_pkid (hp_curve (hi_base k))" "(w @ rest) ! 4 = curve_type d"
    by (simp_all add: w nth_append)
  show "parse_hybrid_identity d (w @ rest) = k"
    unfolding parse_hybrid_identity_def Let_def d0 d1 d2 h using assms(2,4-6) by simp
qed

lemma hybrid_prefix_parses:
  assumes "live_suite L d" "hybrid_x3dh_prefix d ik ek c0 c1 c2 ia ib ic fl = Inr prefix"
    and "pub_curve_type (hp_curve (hi_base ik)) = curve_type d" "length (pub_pk (hp_curve (hi_base ik))) = curve_pk_len d"
    "length (hp_mlkem_ek (hi_base ik)) = kem_pk_len d" "length (hi_mldsa_pk ik) = dsa_pk_len d"
    "length (pub_pk ek) = curve_pk_len d"
    and "length c0 = kem_ct_len d" "length c1 = kem_ct_len d" "length c2 = kem_ct_len d"
  shows "gy_frame_check (prefix @ rest) (suite_id d) = Inr ()" "length prefix = hybrid_prefix_len d"
    "parse_hybrid_prefix d (prefix @ rest) = \<lparr>hx_ik = ik, hx_ek = ek, hx_ct_ik = c0, hx_ct_spk = c1, hx_ct_opk = c2,
       hx_ik_id = ia, hx_spk_id = ib, hx_opk_id = ic, hx_flag = fl\<rparr>"
proof -
  obtain w where w: "put_hybrid_identity d ik = Inr w" and p: "prefix = [GY_WIRE_VERSION, suite_id d] @ w @
      put_pubkey ek (curve_pk_len d) @ c0 @ c1 @ c2 @ gy_be32_put ia @ gy_be32_put ib @ gy_be32_put ic @ gy_be32_put fl"
    using assms(2,8-10) by (auto simp: hybrid_x3dh_prefix_def rbind_eq_Inr_iff)
  note wl = put_hybrid_identity_bytes(1) [OF w assms(3,1,4-6)] and wp = put_hybrid_identity_bytes(2) [OF w assms(3,1,4-6)]
  note l = wl length_put_pubkey [OF assms(7)] assms(8-10)
  show "gy_frame_check (prefix @ rest) (suite_id d) = Inr ()" by (simp add: p gy_frame_check_def)
  show "length prefix = hybrid_prefix_len d" using l by (simp add: p hybrid_prefix_len_def)
  let ?o1 = "2 + hybrid_ik_wire_len d" and ?E = "put_pubkey ek (curve_pk_len d)"
  let ?o2 = "?o1 + (4 + 1 + curve_pk_len d)"
  let ?v = "[GY_WIRE_VERSION, suite_id d]"
  have m: "prefix @ rest = ?v @ w @ ?E @ c0 @ c1 @ c2 @ gy_be32_put ia @ gy_be32_put ib @ gy_be32_put ic @ gy_be32_put fl @ rest"
    by (simp add: p)
  have "drop 2 (prefix @ rest) = w @ ?E @ c0 @ c1 @ c2 @ gy_be32_put ia @ gy_be32_put ib @ gy_be32_put ic @ gy_be32_put fl @ rest"
    by (rule drop_prefix [OF m]) simp
  moreover have "drop ?o1 (prefix @ rest) = ?E @ c0 @ c1 @ c2 @ gy_be32_put ia @ gy_be32_put ib @ gy_be32_put ic @ gy_be32_put fl @ rest"
    by (rule drop_prefix [of _ "?v @ w"]) (simp_all add: m l)
  moreover have "drop ?o2 (prefix @ rest) = c0 @ c1 @ c2 @ gy_be32_put ia @ gy_be32_put ib @ gy_be32_put ic @ gy_be32_put fl @ rest"
    by (rule drop_prefix [of _ "?v @ w @ ?E"]) (simp_all add: m l)
  moreover have "drop (?o2 + kem_ct_len d) (prefix @ rest) = c1 @ c2 @ gy_be32_put ia @ gy_be32_put ib @ gy_be32_put ic @ gy_be32_put fl @ rest"
    by (rule drop_prefix [of _ "?v @ w @ ?E @ c0"]) (simp_all add: m l)
  moreover have "drop (?o2 + 2 * kem_ct_len d) (prefix @ rest) = c2 @ gy_be32_put ia @ gy_be32_put ib @ gy_be32_put ic @ gy_be32_put fl @ rest"
    by (rule drop_prefix [of _ "?v @ w @ ?E @ c0 @ c1"]) (simp_all add: m l)
  moreover have "drop (?o2 + 3 * kem_ct_len d) (prefix @ rest) = gy_be32_put ia @ gy_be32_put ib @ gy_be32_put ic @ gy_be32_put fl @ rest"
    by (rule drop_prefix [of _ "?v @ w @ ?E @ c0 @ c1 @ c2"]) (simp_all add: m l)
  moreover have "drop (?o2 + 3 * kem_ct_len d + 4) (prefix @ rest) = gy_be32_put ib @ gy_be32_put ic @ gy_be32_put fl @ rest"
    by (rule drop_prefix [of _ "?v @ w @ ?E @ c0 @ c1 @ c2 @ gy_be32_put ia"]) (simp_all add: m l)
  moreover have "drop (?o2 + 3 * kem_ct_len d + 8) (prefix @ rest) = gy_be32_put ic @ gy_be32_put fl @ rest"
    by (rule drop_prefix [of _ "?v @ w @ ?E @ c0 @ c1 @ c2 @ gy_be32_put ia @ gy_be32_put ib"]) (simp_all add: m l)
  moreover have "drop (?o2 + 3 * kem_ct_len d + 12) (prefix @ rest) = gy_be32_put fl @ rest"
    by (rule drop_prefix [of _ "?v @ w @ ?E @ c0 @ c1 @ c2 @ gy_be32_put ia @ gy_be32_put ib @ gy_be32_put ic"])
      (simp_all add: m l)
  ultimately show "parse_hybrid_prefix d (prefix @ rest) = \<lparr>hx_ik = ik, hx_ek = ek, hx_ct_ik = c0, hx_ct_spk = c1,
       hx_ct_opk = c2, hx_ik_id = ia, hx_spk_id = ib, hx_opk_id = ic, hx_flag = fl\<rparr>"
    unfolding parse_hybrid_prefix_def Let_def
    by (simp only: wp parse_put_pubkey [OF assms(7)] be_codec_simps take_append_len assms(8-10))
qed

text \<open>The encapsulations of a completed initiator, as the responder will undo them.\<close>

lemma hybrid_initiate_core_ok:
  assumes "hybrid_initiate_core L d A peer ek fl r = Some (Inr (sec, ad, prefix), r')"
  obtains c0 s0 r0 c1 s1 r1 c2 s2 dh0 dh1 dh2 dh3 hdh where
    "the (op_kem_encap d) (hp_mlkem_ek (hi_base (hpb_ik peer))) r = (Inr (c0, s0), r0)"
    "the (op_kem_encap d) (hp_mlkem_ek (hpb_spk peer)) r0 = (Inr (c1, s1), r1)"
    "if pub_pkid (hp_curve (hpb_opk peer)) \<noteq> 0
     then \<exists>x. the (op_kem_encap d) (hp_mlkem_ek (hpb_opk peer)) r1 = (Inr (c2, x), r') \<and> s2 = [x]
     else c2 = replicate (kem_ct_len d) 0 \<and> s2 = []"
    "op_dh d (hik_curve_sk A) (pub_pk (hp_curve (hpb_spk peer))) = Inr dh0"
    "op_dh d (kp_sk ek) (pub_pk (hp_curve (hi_base (hpb_ik peer)))) = Inr dh1"
    "op_dh d (kp_sk ek) (pub_pk (hp_curve (hpb_spk peer))) = Inr dh2"
    "if pub_pkid (hp_curve (hpb_opk peer)) \<noteq> 0
     then \<exists>x. op_dh d (kp_sk ek) (pub_pk (hp_curve (hpb_opk peer))) = Inr x \<and> dh3 = [x] else dh3 = []"
    "hybrid_fuse d s0 s1 s2 dh0 dh1 dh2 dh3 = Inr hdh" "hybrid_derive_secrets L d hdh = Inr sec"
    "hybrid_build_ad d (hik_pub A) (hpb_ik peer) fl = Inr ad"
    "hybrid_x3dh_prefix d (hik_pub A) (kp_pub ek) c0 c1 c2 (pub_pkid (hp_curve (hi_base (hpb_ik peer))))
       (pub_pkid (hp_curve (hpb_spk peer))) (pub_pkid (hp_curve (hpb_opk peer))) fl = Inr prefix"
  using assms
  by (cases "pub_pkid (hp_curve (hpb_opk peer)) = 0")
    (auto simp: hybrid_initiate_core_def Let_def cbind_eq_Some_Inr_iff rbind_eq_Inr_iff)

lemma hybrid_respond_mirror:
  assumes "live_suite L d" "is_hybrid d" "dh_commutes L" "dh_lengths L" "kem_correct L" "kem_lengths L"
    "hybrid_own_identity L d A" "own_key L d ek" "hybrid_bundle_of_local d B peer"
    "hybrid_flag_check fl (hpb_spk_flags peer) = Inr ()"
    "hybrid_initiate_core L d A peer ek fl r = Some (Inr (sec, ad, prefix), r')"
  shows "gy_hybrid_x3dh_respond L d B (prefix @ rest) =
     Inr (sec, ad, \<lparr>ref_present = (if pub_pkid (hp_curve (hpb_opk peer)) \<noteq> 0 then 1 else 0),
                    ref_pkid = pub_pkid (hp_curve (hpb_opk peer))\<rparr>, fl)"
    and "length prefix = hybrid_prefix_len d"
proof -
  obtain c0 s0 r0 c1 s1 r1 c2 s2 dh0 dh1 dh2 dh3 hdh where
    e: "the (op_kem_encap d) (hp_mlkem_ek (hi_base (hpb_ik peer))) r = (Inr (c0, s0), r0)"
      "the (op_kem_encap d) (hp_mlkem_ek (hpb_spk peer)) r0 = (Inr (c1, s1), r1)"
      "if pub_pkid (hp_curve (hpb_opk peer)) \<noteq> 0
       then \<exists>x. the (op_kem_encap d) (hp_mlkem_ek (hpb_opk peer)) r1 = (Inr (c2, x), r') \<and> s2 = [x]
       else c2 = replicate (kem_ct_len d) 0 \<and> s2 = []"
    and dh: "op_dh d (hik_curve_sk A) (pub_pk (hp_curve (hpb_spk peer))) = Inr dh0"
      "op_dh d (kp_sk ek) (pub_pk (hp_curve (hi_base (hpb_ik peer)))) = Inr dh1"
      "op_dh d (kp_sk ek) (pub_pk (hp_curve (hpb_spk peer))) = Inr dh2"
      "if pub_pkid (hp_curve (hpb_opk peer)) \<noteq> 0
       then \<exists>x. op_dh d (kp_sk ek) (pub_pk (hp_curve (hpb_opk peer))) = Inr x \<and> dh3 = [x] else dh3 = []"
    and k: "hybrid_fuse d s0 s1 s2 dh0 dh1 dh2 dh3 = Inr hdh" "hybrid_derive_secrets L d hdh = Inr sec"
      "hybrid_build_ad d (hik_pub A) (hpb_ik peer) fl = Inr ad"
      "hybrid_x3dh_prefix d (hik_pub A) (kp_pub ek) c0 c1 c2 (pub_pkid (hp_curve (hi_base (hpb_ik peer))))
         (pub_pkid (hp_curve (hpb_spk peer))) (pub_pkid (hp_curve (hpb_opk peer))) fl = Inr prefix"
    by (rule hybrid_initiate_core_ok [OF assms(11)])
  have kA: "keypair_of d (identity_curve_half A)" "pub_curve_type (hp_curve (hi_base (hik_pub A))) = curve_type d"
      "length (hp_mlkem_ek (hi_base (hik_pub A))) = kem_pk_len d" "length (hi_mldsa_pk (hik_pub A)) = dsa_pk_len d"
      "hybrid_ik_pkid_matches L d (hik_pub A) = Inr ()"
    and kE: "keypair_of d ek" "pub_curve_type (kp_pub ek) = curve_type d" "pkid_matches L d (kp_pub ek) = Inr ()"
    using assms(7,8) by (simp_all add: hybrid_own_identity_def own_key_def pkid_matches_of_check)
  have lA: "length (pub_pk (hp_curve (hi_base (hik_pub A)))) = curve_pk_len d" "length (pub_pk (kp_pub ek)) = curve_pk_len d"
    using keypair_pk_len [OF assms(1,4) kA(1)] keypair_pk_len [OF assms(1,4) kE(1)] by (simp_all add: identity_curve_half_def)
  note ctl = suite_kem_ct_len [OF assms(1,2,6)]
  have lc: "length c0 = kem_ct_len d" "length c1 = kem_ct_len d" "length c2 = kem_ct_len d"
    using ctl [OF e(1)] ctl [OF e(2)] ctl e(3) by (auto split: if_splits)
  have b: "kem_pair_of d (hp_mlkem_ek (hi_base (hpb_ik peer))) (hik_mlkem_dk (hxl_ik B))"
      "kem_pair_of d (hp_mlkem_ek (hpb_spk peer)) (hk_mlkem_dk (hxl_spk B))"
      "keypair_of d (identity_curve_half (hxl_ik B))" "keypair_of d (curve_half (hxl_spk B))"
      "hpb_ik peer = hik_pub (hxl_ik B)" "hpb_spk peer = hk_pub (hxl_spk B)" "hpb_spk_flags peer = hxl_spk_flags B"
    using assms(9) by (simp_all add: hybrid_bundle_of_local_def hybrid_identity_of_def hybrid_keypair_of_def)
  note agree = keypair_dh_agree [OF assms(1,3)] and kem = suite_kem_agree [OF assms(1,2,5)]
  have dh': "op_dh d (hk_curve_sk (hxl_spk B)) (pub_pk (hp_curve (hi_base (hik_pub A)))) = Inr dh0"
      "op_dh d (hik_curve_sk (hxl_ik B)) (pub_pk (kp_pub ek)) = Inr dh1"
      "op_dh d (hk_curve_sk (hxl_spk B)) (pub_pk (kp_pub ek)) = Inr dh2"
    using dh(1-3) agree [OF b(4) kA(1)] agree [OF b(3) kE(1)] agree [OF b(4) kE(1)] b(5,6)
    by (simp_all add: identity_curve_half_def curve_half_def)
  have ss: "the (op_kem_decap d) c0 (hik_mlkem_dk (hxl_ik B)) = Inr s0"
      "the (op_kem_decap d) c1 (hk_mlkem_dk (hxl_spk B)) = Inr s1"
    using kem [OF b(1) e(1)] kem [OF b(2) e(2)] by simp_all
  note f = hybrid_prefix_parses [OF assms(1) k(4) kA(2) lA(1) kA(3,4) lA(2) lc]
  show "length prefix = hybrid_prefix_len d" by (rule f(2))
  have le: "\<not> length (prefix @ rest) < hybrid_prefix_len d" using f(2) by simp
  show "gy_hybrid_x3dh_respond L d B (prefix @ rest) =
     Inr (sec, ad, \<lparr>ref_present = (if pub_pkid (hp_curve (hpb_opk peer)) \<noteq> 0 then 1 else 0),
                    ref_pkid = pub_pkid (hp_curve (hpb_opk peer))\<rparr>, fl)"
  proof (cases "pub_pkid (hp_curve (hpb_opk peer)) = 0")
    case True
    then show ?thesis
      using e(3) dh(4) k(1-3) kA(2,5) kE(2,3) b(5-7) dh' ss assms(2,10) le
      unfolding gy_hybrid_x3dh_respond_def Let_def f(1) f(3) by (simp add: hybrid_respond_core_def)
  next
    case False
    then obtain q where q: "find_hybrid_opk B (pub_pkid (hp_curve (hpb_opk peer))) = Some q"
        "keypair_of d (curve_half q)" "kem_pair_of d (hp_mlkem_ek (hk_pub q)) (hk_mlkem_dk q)" "hk_pub q = hpb_opk peer"
      using assms(9) by (auto simp: hybrid_bundle_of_local_def hybrid_keypair_of_def split: option.splits)
    obtain x y where x: "the (op_kem_encap d) (hp_mlkem_ek (hpb_opk peer)) r1 = (Inr (c2, x), r')" "s2 = [x]"
        "op_dh d (kp_sk ek) (pub_pk (hp_curve (hpb_opk peer))) = Inr y" "dh3 = [y]"
      using e(3) dh(4) False by auto
    have "the (op_kem_decap d) c2 (hk_mlkem_dk q) = Inr x" using kem [OF q(3)] x(1) q(4) by simp
    moreover have "op_dh d (hk_curve_sk q) (pub_pk (kp_pub ek)) = Inr y"
      using agree [OF q(2) kE(1)] x(3) q(4) by (simp add: curve_half_def)
    ultimately show ?thesis
      using x(2,4) k(1-3) kA(2,5) kE(2,3) b(5-7) dh' ss assms(2,10) le False q(1)
      unfolding gy_hybrid_x3dh_respond_def Let_def f(1) f(3) by (simp add: hybrid_respond_core_def)
  qed
qed

subsection \<open>The negotiated flag\<close>

text \<open>The two fields of the flag word and of the advertisement, as numbers.\<close>

definition flag_interval :: "u32 \<Rightarrow> nat" where "flag_interval fl = unat fl mod 65536"
definition flag_aead :: "u32 \<Rightarrow> nat" where "flag_aead fl = unat fl div 65536"
definition adv_min :: "u64 \<Rightarrow> nat" where "adv_min f = unat f mod 65536"
definition adv_max :: "u64 \<Rightarrow> nat" where "adv_max f = unat f div 65536 mod 65536"

lemma low16_unat: "unat (ucast (w AND 0xFFFF) :: u16) = unat w mod 65536" for w :: "'a::len word"
proof -
  have m: "(0xFFFF :: 'a word) = mask 16" by (simp add: mask_eq_exp_minus_1)
  have "unat (ucast (w AND 0xFFFF) :: u16) = take_bit 16 (take_bit 16 (unat w))"
    unfolding m by (simp only: take_bit_eq_mask [symmetric] unsigned_ucast_eq unsigned_take_bit_eq) simp
  then show ?thesis by (simp add: take_bit_eq_mod)
qed

lemma unat_drop: "unat (drop_bit n w) = unat w div 2 ^ n" for w :: "'a::len word"
  unfolding unat_drop_bit_eq by (rule drop_bit_eq_div)

lemma next16_unat: "unat (ucast (drop_bit 16 w AND 0xFFFF) :: u16) = unat w div 65536 mod 65536" for w :: "'a::len word"
  by (simp only: low16_unat unat_drop) simp

lemma drop24_zero: "drop_bit 24 fl = (0 :: u32) \<longleftrightarrow> unat fl < 2 ^ 24"
proof -
  have "drop_bit 24 fl = 0 \<longleftrightarrow> unat (drop_bit 24 fl) = 0" by (simp add: unsigned_eq_0_iff)
  also have "\<dots> \<longleftrightarrow> unat fl div 2 ^ 24 = 0" by (simp only: unat_drop)
  finally show ?thesis by (simp add: div_eq_0_iff)
qed

lemma aead_field_unat: "unat (ucast (drop_bit 16 fl AND 0xFF) :: u8) = flag_aead fl mod 256" for fl :: u32
proof -
  have m: "(0xFF :: u32) = mask 8" by (simp add: mask_eq_exp_minus_1)
  have "unat (ucast (drop_bit 16 fl AND 0xFF) :: u8) = take_bit 8 (take_bit 8 (unat (drop_bit 16 fl)))"
    unfolding m by (simp only: take_bit_eq_mask [symmetric] unsigned_ucast_eq unsigned_take_bit_eq) simp
  then show ?thesis
    by (simp only: take_bit_eq_mod unat_drop flag_aead_def) simp
qed

lemma and_bit_zero_iff: "(w AND 2 ^ n = 0) \<longleftrightarrow> \<not> bit w n" for w :: "'a::len word"
proof
  assume z: "w AND 2 ^ n = 0"
  show "\<not> bit w n"
  proof
    assume b: "bit w n"
    then have "n < LENGTH('a)" by (rule bit_imp_le_length)
    with b have "bit (w AND 2 ^ n) n" by (simp add: bit_and_iff bit_exp_iff)
    with z show False by simp
  qed
next
  assume "\<not> bit w n"
  then show "w AND 2 ^ n = 0" by (intro bit_word_eqI) (auto simp: bit_and_iff bit_exp_iff)
qed

lemma flag_check_iff:
  "hybrid_flag_check fl f = Inr () \<longleftrightarrow>
     unat fl < 2 ^ 24 \<and> 1 \<le> flag_interval fl \<and> flag_interval fl \<le> 100 \<and>
     adv_min f \<le> flag_interval fl \<and> flag_interval fl \<le> adv_max f \<and>
     1 \<le> flag_aead fl \<and> flag_aead fl \<le> 3 \<and> bit f (31 + flag_aead fl)"
proof (cases "unat fl < 2 ^ 24")
  case False
  then show ?thesis by (simp add: hybrid_flag_check_def Let_def drop24_zero)
next
  case True
  then have a: "unat (ucast (drop_bit 16 fl AND 0xFF) :: u8) = flag_aead fl"
    unfolding aead_field_unat by (simp add: flag_aead_def less_mult_imp_div_less)
  note n = low16_unat [of fl] low16_unat [of f] next16_unat [of f] a
  show ?thesis
    using True
    by (auto simp: hybrid_flag_check_def Let_def drop24_zero word_less_nat_alt n and_bit_zero_iff
        flag_interval_def adv_min_def adv_max_def)
qed

text \<open>
  The flag check is exactly the range conditions of the specification: no reserved bit, an
  interval from 1 to 100 inside the advertised window, and an AEAD identifier from 1 to 3 that the
  advertisement lists.
\<close>

lemma hybrid_flag_check_spec:
  "hybrid_flag_check fl f = Inr () \<longleftrightarrow>
     unat fl < 2 ^ 24 \<and> 1 \<le> flag_interval fl \<and> flag_interval fl \<le> 100 \<and>
     adv_min f \<le> flag_interval fl \<and> flag_interval fl \<le> adv_max f \<and>
     1 \<le> flag_aead fl \<and> flag_aead fl \<le> 3 \<and> bit f (31 + flag_aead fl)"
  by (rule flag_check_iff)

text \<open>An advertisement that validates: its window and its mandatory cipher.\<close>

lemma flags_validate_spec:
  "gy_hybrid_flags_validate f = Inr () \<longleftrightarrow>
     bit f 32 \<and> drop_bit 35 f = 0 \<and> 1 \<le> adv_min f \<and> adv_min f \<le> adv_max f \<and> adv_max f \<le> 100"
  using low16_unat [of f] next16_unat [of f] and_bit_zero_iff [of f 32]
  by (auto simp: gy_hybrid_flags_validate_def Let_def word_less_nat_alt adv_min_def adv_max_def)

text \<open>
  Negotiation never gets stuck. Every advertisement that a signed prekey may carry admits a
  flag: the smallest advertised interval with the mandatory cipher passes the check of both ends.
\<close>

theorem hybrid_flag_negotiable:
  assumes "gy_hybrid_flags_validate f = Inr ()"
  shows "hybrid_flag_check (of_nat (adv_min f) OR push_bit 16 1) f = Inr ()"
proof -
  let ?fl = "of_nat (adv_min f) OR push_bit 16 1 :: u32"
  have f: "bit f 32" "1 \<le> adv_min f" "adv_min f \<le> adv_max f" "adv_max f \<le> 100"
    using assms by (simp_all add: flags_validate_spec)
  have lt: "adv_min f < 65536" by (simp add: adv_min_def)
  have "?fl = of_nat (adv_min f) + push_bit 16 1"
  proof (rule disjunctive_add_eq_or [symmetric])
    show "of_nat (adv_min f) AND push_bit 16 (1 :: u32) = 0"
    proof (rule bit_word_eqI)
      fix n assume n: "n < LENGTH(32)"
      have "\<not> bit (adv_min f) 16" using lt by (simp add: bit_iff_odd)
      then show "bit (of_nat (adv_min f) AND push_bit 16 (1 :: u32)) n = bit (0 :: u32) n"
        by (auto simp: bit_and_iff bit_push_bit_iff bit_1_iff bit_of_nat_iff simp del: push_bit_of_1)
    qed
  qed
  then have "unat ?fl = adv_min f + 65536"
    using lt by (simp add: unat_word_ariths unat_of_nat)
  then have "flag_interval ?fl = adv_min f" "flag_aead ?fl = 1" "unat ?fl < 2 ^ 24"
    using lt by (simp_all add: flag_interval_def flag_aead_def)
  then show ?thesis using f by (simp add: flag_check_iff)
qed

subsection \<open>Hybrid properties\<close>

lemma suite_kem_bounds:
  assumes "live_suite L d"
  shows "kem_pk_len d \<le> 1568" "kem_ct_len d \<le> 1568" "dsa_pk_len d \<le> 2592" "curve_pk_len d \<le> 56" "hash_len d \<le> 64"
proof -
  have "gy_suite_desc L (suite_id d) = Some d" using assms by (simp add: live_suite_def)
  then have "kem_pk_len d \<le> 1568 \<and> kem_ct_len d \<le> 1568 \<and> dsa_pk_len d \<le> 2592 \<and> curve_pk_len d \<le> 56 \<and> hash_len d \<le> 64"
    by (cases rule: suite_desc_cases) (simp_all add: suite_row_defs)
  then show "kem_pk_len d \<le> 1568" "kem_ct_len d \<le> 1568" "dsa_pk_len d \<le> 2592" "curve_pk_len d \<le> 56" "hash_len d \<le> 64"
    by simp_all
qed

lemma hybrid_initiate_core_total: "\<exists>y. hybrid_initiate_core L d A peer ek fl r = Some y"
  by (auto simp: hybrid_initiate_core_def Let_def cbind_def split: prod.splits sum.splits)

lemma hybrid_initiate_ok:
  assumes "gy_hybrid_x3dh_initiate L d A peer ek fl r = (Inr (sec, ad, prefix), ek', r')"
  shows "is_hybrid d" "hybrid_flag_check fl (hpb_spk_flags peer) = Inr ()" "ek' = erase_sk ek"
    "hybrid_initiate_core L d A peer ek fl r = Some (Inr (sec, ad, prefix), r')"
    "fst (gy_hybrid_bundle_validate L d peer) = Inr ()"
proof -
  obtain y where y: "hybrid_initiate_core L d A peer ek fl r = Some y" using hybrid_initiate_core_total by blast
  show "is_hybrid d" "hybrid_flag_check fl (hpb_spk_flags peer) = Inr ()" "ek' = erase_sk ek"
    "hybrid_initiate_core L d A peer ek fl r = Some (Inr (sec, ad, prefix), r')"
    "fst (gy_hybrid_bundle_validate L d peer) = Inr ()"
    using assms y by (auto simp: gy_hybrid_x3dh_initiate_def split: if_splits sum.splits prod.splits)
qed

lemma ikhash_len:
  assumes "live_suite L d" "gy_hybrid_ikhash d ik = Inr h"
  shows "length h = hash_len d"
proof -
  obtain x where "op_hash d x = Inr h" using assms(2) by (auto simp: gy_hybrid_ikhash_def rbind_eq_Inr_iff)
  moreover have "\<exists>h. op_hash d x = Inr h \<and> length h = hash_len d" using assms(1) by (simp add: live_suite_def suite_ok_def)
  ultimately show ?thesis by auto
qed

text \<open>
  C18. Hybrid agreement. The same for the hybrid handshake, given that the KEM is correct: the
  responder decapsulates what the initiator encapsulated to its identity, its signed prekey and the
  one-time prekey, and both end with the same secrets, associated data and flag; the flag was
  checked against the responder's own advertisement.
\<close>

theorem hybrid_x3dh_agreement:
  assumes "live_suite L d" "dh_commutes L" "dh_lengths L" "kem_correct L" "kem_lengths L"
    "hybrid_own_identity L d A" "own_key L d ek" "hybrid_bundle_of_local d B peer"
    "gy_hybrid_x3dh_initiate L d A peer ek fl r = (Inr (sec, ad, prefix), ek', r')"
  shows "gy_hybrid_x3dh_respond L d B (prefix @ rest) =
       Inr (sec, ad, \<lparr>ref_present = (if pub_pkid (hp_curve (hpb_opk peer)) \<noteq> 0 then 1 else 0),
                      ref_pkid = pub_pkid (hp_curve (hpb_opk peer))\<rparr>, fl) \<and>
     secrets_wf sec \<and> length prefix \<le> GY_HYBRID_X3DH_PREFIX_MAX \<and> length ad \<le> GY_HYBRID_AD_MAX \<and>
     kp_sk ek' = replicate (length (kp_sk ek)) 0"
proof -
  note i = hybrid_initiate_ok [OF assms(9)]
  note m = hybrid_respond_mirror [OF assms(1) i(1) assms(2-8) i(2,4)]
  have "secrets_wf sec" "\<exists>ha hb. gy_hybrid_ikhash d (hik_pub A) = Inr ha \<and> gy_hybrid_ikhash d (hpb_ik peer) = Inr hb \<and>
      ad = ha @ hb @ gy_be32_put fl"
    by (rule hybrid_initiate_core_ok [OF i(4)],
        auto intro: derive_secrets_wf [OF assms(1)] simp: hybrid_build_ad_def rbind_eq_Inr_iff)+
  moreover have "length prefix \<le> GY_HYBRID_X3DH_PREFIX_MAX"
    using suite_kem_bounds [OF assms(1)] unfolding m(2)
    by (simp add: hybrid_prefix_len_def hybrid_ik_wire_len_def GY_HYBRID_X3DH_PREFIX_MAX_def GY_HYBRID_IK_WIRE_def
        GY_HYBRID_EK_WIRE_def)
  ultimately show ?thesis
    using m(1) i(3) ikhash_len [OF assms(1)] suite_kem_bounds(5) [OF assms(1)]
    by (auto simp: erase_sk_def GY_HYBRID_AD_MAX_def)
qed

text \<open>
  C30. Bundles are checked before any private-key operation. When the hybrid initiator completes, the
  bundle passed validation, which includes both signatures of the signed prekey; when validation or
  the flag check fails, its error is the result, no randomness is drawn and the ephemeral key is
  untouched.
\<close>

theorem hybrid_initiate_validates_first:
  "(\<forall>out ek' r'. gy_hybrid_x3dh_initiate L d A peer ek fl r = (Inr out, ek', r') \<longrightarrow>
      fst (gy_hybrid_bundle_validate L d peer) = Inr () \<and>
      (\<exists>sd ctx. op_verify d (hpb_spk_ed_sig peer) (pub_pk (hp_curve (hi_base (hpb_ik peer)))) sd = Inr () \<and>
         the (op_dsa_verify d) (hpb_spk_mldsa_sig peer) (hi_mldsa_pk (hpb_ik peer)) sd ctx = Inr () \<and>
         hybrid_signed_data d (hpb_spk peer) (hpb_spk_timestamp peer) (hpb_spk_flags peer) GY_HYBRID_SIGNED_MAX = Inr sd)) \<and>
   (\<forall>e. is_hybrid d \<longrightarrow> fst (gy_hybrid_bundle_validate L d peer) = Inl e \<longrightarrow>
      gy_hybrid_x3dh_initiate L d A peer ek fl r = (Inl e, ek, r))"
proof (intro conjI allI impI)
  fix out ek' r' assume a: "gy_hybrid_x3dh_initiate L d A peer ek fl r = (Inr out, ek', r')"
  obtain sec ad prefix where "out = (sec, ad, prefix)" by (cases out)
  with a have v: "fst (gy_hybrid_bundle_validate L d peer) = Inr ()" using hybrid_initiate_ok(5) by blast
  then show "fst (gy_hybrid_bundle_validate L d peer) = Inr ()" .
  from v show "\<exists>sd ctx. op_verify d (hpb_spk_ed_sig peer) (pub_pk (hp_curve (hi_base (hpb_ik peer)))) sd = Inr () \<and>
      the (op_dsa_verify d) (hpb_spk_mldsa_sig peer) (hi_mldsa_pk (hpb_ik peer)) sd ctx = Inr () \<and>
      hybrid_signed_data d (hpb_spk peer) (hpb_spk_timestamp peer) (hpb_spk_flags peer) GY_HYBRID_SIGNED_MAX = Inr sd"
    unfolding gy_hybrid_bundle_validate_def Let_def
    by (auto simp: rbind_eq_Inr_iff split: sum.splits if_splits)
next
  fix e assume "is_hybrid d" "fst (gy_hybrid_bundle_validate L d peer) = Inl e"
  then show "gy_hybrid_x3dh_initiate L d A peer ek fl r = (Inl e, ek, r)"
    by (simp add: gy_hybrid_x3dh_initiate_def)
qed

end
