(* ===== verification/GY_Seal.thy ===== *)
theory GY_Seal
  imports GY_Primitives
begin

text \<open>
  Sealing at rest: the authenticated blob format of \<^verbatim>\<open>src/core/seal.c\<close>, the password hash of
  \<^verbatim>\<open>src/core/pwhash.c\<close>, the protection of the key-encryption key by a credential
  (\<^verbatim>\<open>src/core/kekprot.c\<close>) and the keystore that holds the live key (\<^verbatim>\<open>src/session/keystore.c\<close>).
  The guarded allocation that holds a derived key succeeds or fails as the provider says.
\<close>

subsection \<open>Sealing\<close>

definition GY_SEAL_ALG_AEGIS256 :: u8 where "GY_SEAL_ALG_AEGIS256 = 0x11"
definition GY_SEAL_ALG_XCHACHA20POLY1305 :: u8 where "GY_SEAL_ALG_XCHACHA20POLY1305 = 0x12"
definition GY_SEAL_VERSION :: u8 where "GY_SEAL_VERSION = 1"
definition GY_SEAL_KEY_LEN :: nat where "GY_SEAL_KEY_LEN = 32"
definition GY_SEAL_MAX_AD :: nat where "GY_SEAL_MAX_AD = 96"
definition GY_SEAL_MAX_OVERHEAD :: nat where "GY_SEAL_MAX_OVERHEAD = 66"
definition SEAL_HDR_LEN :: nat where "SEAL_HDR_LEN = 2"

lemmas seal_const_defs = GY_SEAL_ALG_AEGIS256_def GY_SEAL_ALG_XCHACHA20POLY1305_def GY_SEAL_VERSION_def
  GY_SEAL_KEY_LEN_def GY_SEAL_MAX_AD_def GY_SEAL_MAX_OVERHEAD_def SEAL_HDR_LEN_def

definition seal_alg_lengths :: "u8 \<Rightarrow> (nat \<times> nat) res" where
  "seal_alg_lengths alg_id =
     (if alg_id = GY_SEAL_ALG_AEGIS256
      then Inr (gy_aead_nonce_len GY_AEAD_AEGIS256, gy_aead_tag_len GY_AEAD_AEGIS256)
      else if alg_id = GY_SEAL_ALG_XCHACHA20POLY1305
      then Inr (aead_npubbytes AEAD_XCHACHA20POLY1305_IETF, aead_abytes AEAD_XCHACHA20POLY1305_IETF)
      else Inl GY_ERR_ARG)"

definition gy_seal :: "provider \<Rightarrow> nat \<Rightarrow> bytes \<Rightarrow> u8 \<Rightarrow> bytes \<Rightarrow> bytes \<Rightarrow> bytes rcomp" where
  "gy_seal L cap key alg_id ad pt r =
     (if length ad > GY_SEAL_MAX_AD then (Inl GY_ERR_TOOLONG, r)
      else case seal_alg_lengths alg_id of
          Inl e \<Rightarrow> (Inl e, r)
        | Inr (nlen, taglen) \<Rightarrow>
            if cap < SEAL_HDR_LEN + nlen + length pt + taglen then (Inl GY_ERR_ARG, r)
            else
              let full_ad = [GY_SEAL_VERSION, alg_id] @ ad in
              case gy_random_bytes L nlen r of
                (Inl e, r1) \<Rightarrow> (Inl e, r1)
              | (Inr nonce, r1) \<Rightarrow>
                  (let hdr = [GY_SEAL_VERSION, alg_id] @ nonce in
                   if alg_id = GY_SEAL_ALG_AEGIS256 then
                     rbind (gy_aead_encrypt L GY_AEAD_AEGIS256 (cap - SEAL_HDR_LEN - nlen) key nonce full_ad pt)
                       (\<lambda>ct. Inr (hdr @ ct))
                   else case crypto_aead_encrypt L AEAD_XCHACHA20POLY1305_IETF key nonce full_ad pt of
                       None \<Rightarrow> Inl GY_ERR_CRYPTO
                     | Some ct \<Rightarrow> Inr (hdr @ ct), r1))"

definition gy_unseal :: "provider \<Rightarrow> nat \<Rightarrow> bytes \<Rightarrow> bytes \<Rightarrow> bytes \<Rightarrow> bytes res" where
  "gy_unseal L cap key ad blob =
     (if length ad > GY_SEAL_MAX_AD then Inl GY_ERR_TOOLONG
      else if length blob < SEAL_HDR_LEN then Inl GY_ERR_VERIFY
      else
        let version = blob ! 0; alg_id = blob ! 1 in
        if version \<noteq> GY_SEAL_VERSION then Inl GY_ERR_VERIFY
        else case seal_alg_lengths alg_id of
            Inl _ \<Rightarrow> Inl GY_ERR_VERIFY
          | Inr (nlen, taglen) \<Rightarrow>
              if length blob < SEAL_HDR_LEN + nlen + taglen then Inl GY_ERR_VERIFY
              else
                let nonce = take nlen (drop SEAL_HDR_LEN blob);
                    ct = drop (SEAL_HDR_LEN + nlen) blob;
                    full_ad = [version, alg_id] @ ad in
                if alg_id = GY_SEAL_ALG_AEGIS256 then
                  gy_aead_decrypt L GY_AEAD_AEGIS256 cap key nonce full_ad ct
                else if cap < length ct - taglen then Inl GY_ERR_ARG
                else case crypto_aead_decrypt L AEAD_XCHACHA20POLY1305_IETF key nonce full_ad ct of
                    None \<Rightarrow> Inl GY_ERR_VERIFY
                  | Some pt \<Rightarrow> Inr pt)"

subsection \<open>Password hash\<close>

definition GY_PWHASH_SALT_LEN :: nat where "GY_PWHASH_SALT_LEN = 16"
definition GY_PWHASH_OPSLIMIT_MIN :: u32 where "GY_PWHASH_OPSLIMIT_MIN = 3"
definition GY_PWHASH_OPSLIMIT_MAX :: u32 where "GY_PWHASH_OPSLIMIT_MAX = 4"
definition GY_PWHASH_MEMLIMIT_MIN :: u64 where "GY_PWHASH_MEMLIMIT_MIN = 268435456"
definition GY_PWHASH_MEMLIMIT_MAX :: u64 where "GY_PWHASH_MEMLIMIT_MAX = 1073741824"

definition gy_pwhash_derive :: "provider \<Rightarrow> nat \<Rightarrow> bytes \<Rightarrow> bytes \<Rightarrow> u32 \<Rightarrow> u64 \<Rightarrow> bytes res" where
  "gy_pwhash_derive L outlen cred salt opslimit memlimit =
     (if outlen < crypto_pwhash_BYTES_MIN \<or> outlen > crypto_pwhash_BYTES_MAX then Inl GY_ERR_ARG
      else if opslimit < GY_PWHASH_OPSLIMIT_MIN \<or> opslimit > GY_PWHASH_OPSLIMIT_MAX then Inl GY_ERR_ARG
      else if memlimit < GY_PWHASH_MEMLIMIT_MIN \<or> memlimit > GY_PWHASH_MEMLIMIT_MAX then Inl GY_ERR_ARG
      else case crypto_pwhash L outlen cred salt opslimit (unat memlimit) of
          None \<Rightarrow> Inl GY_ERR_CRYPTO
        | Some o1 \<Rightarrow> Inr o1)"

subsection \<open>Protection of the key-encryption key\<close>

definition GY_KEKPROT_KEK_LEN :: nat where "GY_KEKPROT_KEK_LEN = GY_SEAL_KEY_LEN"
definition GY_KEKPROT_HDR_LEN :: nat where "GY_KEKPROT_HDR_LEN = GY_PWHASH_SALT_LEN + 4 + 8"
definition GY_KEKPROT_MAX_BLOB :: nat where
  "GY_KEKPROT_MAX_BLOB = GY_KEKPROT_HDR_LEN + GY_SEAL_MAX_OVERHEAD + GY_KEKPROT_KEK_LEN"

text \<open>On a 64-bit target \<open>size_t\<close> has the width of the stored memory limit.\<close>

definition gy_kekprot_wrap ::
    "provider \<Rightarrow> nat \<Rightarrow> u8 \<Rightarrow> u32 \<Rightarrow> u64 \<Rightarrow> bytes \<Rightarrow> bytes \<Rightarrow> bytes \<Rightarrow> bytes rcomp" where
  "gy_kekprot_wrap L cap alg_id opslimit memlimit cred ad kek r =
     (if cap < GY_KEKPROT_HDR_LEN + GY_SEAL_MAX_OVERHEAD + GY_KEKPROT_KEK_LEN then (Inl GY_ERR_ARG, r)
      else if \<not> sodium_malloc L GY_SEAL_KEY_LEN then (Inl GY_ERR_CRYPTO, r)
      else case gy_random_bytes L GY_PWHASH_SALT_LEN r of
          (Inl e, r1) \<Rightarrow> (Inl e, r1)
        | (Inr salt, r1) \<Rightarrow>
            (case gy_pwhash_derive L GY_SEAL_KEY_LEN cred salt opslimit memlimit of
               Inl e \<Rightarrow> (Inl e, r1)
             | Inr pdk \<Rightarrow>
                 (case gy_seal L (cap - GY_KEKPROT_HDR_LEN) pdk alg_id ad kek r1 of
                    (Inl e, r2) \<Rightarrow> (Inl e, r2)
                  | (Inr sealed, r2) \<Rightarrow>
                      (Inr (salt @ gy_be32_put opslimit @ gy_be64_put memlimit @ sealed), r2))))"

definition gy_kekprot_unwrap :: "provider \<Rightarrow> bytes \<Rightarrow> bytes \<Rightarrow> bytes \<Rightarrow> bytes res" where
  "gy_kekprot_unwrap L cred ad blob =
     (if length blob < GY_KEKPROT_HDR_LEN then Inl GY_ERR_VERIFY
      else
        let salt = take GY_PWHASH_SALT_LEN blob;
            opslimit = gy_be32_get (drop GY_PWHASH_SALT_LEN blob);
            memlimit64 = gy_be64_get (drop (GY_PWHASH_SALT_LEN + 4) blob) in
        if memlimit64 > GY_PWHASH_MEMLIMIT_MAX then Inl GY_ERR_VERIFY
        else if \<not> sodium_malloc L GY_SEAL_KEY_LEN then Inl GY_ERR_CRYPTO
        else case gy_pwhash_derive L GY_SEAL_KEY_LEN cred salt opslimit memlimit64 of
            Inl e \<Rightarrow> Inl (if e = GY_ERR_ARG then GY_ERR_VERIFY else e)
          | Inr pdk \<Rightarrow>
              (case gy_unseal L GY_KEKPROT_KEK_LEN pdk ad (drop GY_KEKPROT_HDR_LEN blob) of
                 Inl e \<Rightarrow> Inl e
               | Inr kek \<Rightarrow> if length kek \<noteq> GY_KEKPROT_KEK_LEN then Inl GY_ERR_VERIFY else Inr kek))"

subsection \<open>Keystore\<close>

text \<open>\<open>ks_kek\<close> is the guarded allocation, absent when the pointer is NULL.\<close>

record gy_keystore =
  ks_kek :: "bytes option"
  ks_unlocked :: bool

definition gy_keystore_create ::
    "provider \<Rightarrow> gy_keystore \<Rightarrow> u8 \<Rightarrow> u32 \<Rightarrow> u64 \<Rightarrow> bytes \<Rightarrow> nat \<Rightarrow> rng \<Rightarrow> bytes res \<times> gy_keystore \<times> rng" where
  "gy_keystore_create L ks alg_id opslimit memlimit cred cap r =
     (if ks_unlocked ks then (Inl GY_ERR_STATE, ks, r)
      else if \<not> sodium_malloc L GY_KEKPROT_KEK_LEN then (Inl GY_ERR_CRYPTO, ks\<lparr>ks_kek := None\<rparr>, r)
      else case gy_random_bytes L GY_KEKPROT_KEK_LEN r of
          (Inl e, r1) \<Rightarrow> (Inl e, ks\<lparr>ks_kek := None\<rparr>, r1)
        | (Inr kek, r1) \<Rightarrow>
            (case gy_kekprot_wrap L cap alg_id opslimit memlimit cred [] kek r1 of
               (Inl e, r2) \<Rightarrow> (Inl e, ks\<lparr>ks_kek := None\<rparr>, r2)
             | (Inr wrap, r2) \<Rightarrow> (Inr wrap, ks\<lparr>ks_kek := Some kek, ks_unlocked := True\<rparr>, r2)))"

definition gy_keystore_open :: "provider \<Rightarrow> gy_keystore \<Rightarrow> bytes \<Rightarrow> bytes \<Rightarrow> unit res \<times> gy_keystore" where
  "gy_keystore_open L ks cred wrap =
     (if ks_unlocked ks then (Inl GY_ERR_STATE, ks)
      else if \<not> sodium_malloc L GY_KEKPROT_KEK_LEN then (Inl GY_ERR_CRYPTO, ks\<lparr>ks_kek := None\<rparr>)
      else case gy_kekprot_unwrap L cred [] wrap of
          Inl e \<Rightarrow> (Inl e, ks\<lparr>ks_kek := None\<rparr>)
        | Inr kek \<Rightarrow> (Inr (), ks\<lparr>ks_kek := Some kek, ks_unlocked := True\<rparr>))"

definition gy_keystore_close :: "gy_keystore \<Rightarrow> gy_keystore" where
  "gy_keystore_close ks = ks\<lparr>ks_kek := None, ks_unlocked := False\<rparr>"

definition gy_keystore_change_credential ::
    "provider \<Rightarrow> gy_keystore \<Rightarrow> u8 \<Rightarrow> u32 \<Rightarrow> u64 \<Rightarrow> bytes \<Rightarrow> nat \<Rightarrow> bytes rcomp" where
  "gy_keystore_change_credential L ks alg_id opslimit memlimit new_cred cap r =
     (if \<not> ks_unlocked ks then (Inl GY_ERR_STATE, r)
      else gy_kekprot_wrap L cap alg_id opslimit memlimit new_cred [] (the (ks_kek ks)) r)"

definition gy_keystore_seal ::
    "provider \<Rightarrow> gy_keystore \<Rightarrow> u8 \<Rightarrow> bytes \<Rightarrow> bytes \<Rightarrow> nat \<Rightarrow> bytes rcomp" where
  "gy_keystore_seal L ks alg_id ad pt cap r =
     (if \<not> ks_unlocked ks then (Inl GY_ERR_STATE, r) else gy_seal L cap (the (ks_kek ks)) alg_id ad pt r)"

definition gy_keystore_unseal :: "provider \<Rightarrow> gy_keystore \<Rightarrow> bytes \<Rightarrow> bytes \<Rightarrow> nat \<Rightarrow> bytes res" where
  "gy_keystore_unseal L ks ad blob cap =
     (if \<not> ks_unlocked ks then Inl GY_ERR_STATE else gy_unseal L cap (the (ks_kek ks)) ad blob)"

subsection \<open>Facts\<close>

lemma seal_alg_cases:
  "seal_alg_lengths a = Inr (nlen, taglen) \<longleftrightarrow>
     (a = 0x11 \<and> nlen = 32 \<and> taglen = 32) \<or> (a = 0x12 \<and> nlen = 24 \<and> taglen = 16)"
  by (auto simp: seal_alg_lengths_def seal_const_defs gy_aead_nonce_len_def gy_aead_tag_len_def aead_prim_of_def aead_id_defs)

lemma aegis_lens: "gy_aead_nonce_len GY_AEAD_AEGIS256 = 32" "gy_aead_tag_len GY_AEAD_AEGIS256 = 32"
  by (simp_all add: gy_aead_nonce_len_def gy_aead_tag_len_def aead_prim_of_def aead_id_defs)

lemma aegis_prim: "aead_prim_of GY_AEAD_AEGIS256 = Some AEAD_AEGIS256" "GY_AEAD_AEGIS256 \<noteq> GY_AEAD_AES256GCM"
  by (simp_all add: aead_prim_of_def aead_id_defs)

lemma seal_ok:
  assumes "gy_seal L cap key a ad pt r = (Inr blob, r')"
  obtains nlen taglen nonce ct where "seal_alg_lengths a = Inr (nlen, taglen)" "nonce = randombytes_buf L r nlen"
    "blob = [GY_SEAL_VERSION, a] @ nonce @ ct" "length ad \<le> GY_SEAL_MAX_AD" "r' = Suc r"
    "if a = GY_SEAL_ALG_AEGIS256
     then gy_aead_encrypt L GY_AEAD_AEGIS256 (cap - SEAL_HDR_LEN - nlen) key nonce ([GY_SEAL_VERSION, a] @ ad) pt = Inr ct
     else crypto_aead_encrypt L AEAD_XCHACHA20POLY1305_IETF key nonce ([GY_SEAL_VERSION, a] @ ad) pt = Some ct"
  using assms
  by (auto simp: gy_seal_def Let_def gy_random_bytes_def rbind_eq_Inr_iff split: if_splits sum.splits option.splits)

lemma seal_roundtrip:
  assumes "hash_lengths L" "aead_lengths L" "aead_correct L" "gy_seal L cap key a ad pt r = (Inr blob, r')" "length pt \<le> cap'"
  shows "gy_unseal L cap' key ad blob = Inr pt"
    and "\<exists>nlen taglen. seal_alg_lengths a = Inr (nlen, taglen) \<and> length blob = 2 + nlen + length pt + taglen"
proof -
  obtain nlen taglen nonce ct where s: "seal_alg_lengths a = Inr (nlen, taglen)" "nonce = randombytes_buf L r nlen"
    "blob = [GY_SEAL_VERSION, a] @ nonce @ ct" "length ad \<le> GY_SEAL_MAX_AD" "r' = Suc r"
    "if a = GY_SEAL_ALG_AEGIS256
     then gy_aead_encrypt L GY_AEAD_AEGIS256 (cap - SEAL_HDR_LEN - nlen) key nonce ([GY_SEAL_VERSION, a] @ ad) pt = Inr ct
     else crypto_aead_encrypt L AEAD_XCHACHA20POLY1305_IETF key nonce ([GY_SEAL_VERSION, a] @ ad) pt = Some ct"
    by (rule seal_ok [OF assms(4)])
  have nl: "length nonce = nlen" using assms(1) s(2) by (simp add: hash_lengths_def)
  have cl: "length ct = length pt + taglen"
    using s(1,6) aead_encrypt_len [OF assms(2), of GY_AEAD_AEGIS256] assms(2)
    by (auto simp: seal_alg_cases seal_const_defs aegis_lens aead_lengths_def split: if_splits)
  then show "\<exists>nlen taglen. seal_alg_lengths a = Inr (nlen, taglen) \<and> length blob = 2 + nlen + length pt + taglen"
    using s(1,3) nl by auto
  have x: "a \<noteq> GY_SEAL_ALG_AEGIS256 \<Longrightarrow>
      crypto_aead_decrypt L AEAD_XCHACHA20POLY1305_IETF key nonce ([GY_SEAL_VERSION, a] @ ad) ct = Some pt"
    using s(6) assms(3) by (simp add: aead_correct_def)
  have y: "a = GY_SEAL_ALG_AEGIS256 \<Longrightarrow>
      gy_aead_decrypt L GY_AEAD_AEGIS256 cap' key nonce ([GY_SEAL_VERSION, a] @ ad) ct = Inr pt"
    using s(6) aead_decrypt_encrypt [OF assms(2,3) _ assms(5)] by simp
  have d: "take nlen (drop SEAL_HDR_LEN blob) = nonce" "drop (SEAL_HDR_LEN + nlen) blob = ct"
    using s(3) nl by (simp_all add: SEAL_HDR_LEN_def)
  have h: "blob ! 0 = GY_SEAL_VERSION" "blob ! 1 = a" "length blob = 2 + nlen + length ct" using s(3) nl by simp_all
  show "gy_unseal L cap' key ad blob = Inr pt"
    unfolding gy_unseal_def Let_def h(1,2) s(1)
    using s(4) x y cl h(3) assms(5) by (simp add: d) (simp add: SEAL_HDR_LEN_def)
qed

lemma unseal_error:
  assumes "gy_unseal L cap key ad blob = Inl e" "length ad \<le> GY_SEAL_MAX_AD" "length blob \<le> cap"
  shows "e = GY_ERR_VERIFY"
proof -
  have a: "e = GY_ERR_VERIFY"
    if "gy_aead_decrypt L GY_AEAD_AEGIS256 cap key n fad ct = Inl e" "length n = 32" "length ct \<le> cap" "32 \<le> length ct" for n fad ct
    using that by (auto simp: gy_aead_decrypt_def Let_def aegis_lens aegis_prim split: if_splits option.splits)
  show ?thesis
    using assms
    by (auto simp: gy_unseal_def Let_def seal_alg_cases SEAL_HDR_LEN_def GY_SEAL_ALG_AEGIS256_def
        split: if_splits sum.splits prod.splits option.splits dest!: a)
qed

lemma unwrap_wrap:
  assumes "hash_lengths L" "aead_lengths L" "aead_correct L" "length kek = GY_KEKPROT_KEK_LEN"
    and "gy_kekprot_wrap L cap a ops mem cred ad kek r = (Inr blob, r')"
  shows "gy_kekprot_unwrap L cred ad blob = Inr kek" "length blob \<le> GY_KEKPROT_MAX_BLOB"
proof -
  obtain salt pdk sealed r1 where w: "salt = randombytes_buf L r GY_PWHASH_SALT_LEN" "sodium_malloc L GY_SEAL_KEY_LEN"
      "gy_pwhash_derive L GY_SEAL_KEY_LEN cred salt ops mem = Inr pdk"
      "gy_seal L (cap - GY_KEKPROT_HDR_LEN) pdk a ad kek r1 = (Inr sealed, r')"
      "blob = salt @ gy_be32_put ops @ gy_be64_put mem @ sealed"
    using assms(5)
    by (auto simp: gy_kekprot_wrap_def gy_random_bytes_def split: if_splits sum.splits prod.splits)
  have sl: "length salt = 16" using assms(1) w(1) by (simp add: hash_lengths_def GY_PWHASH_SALT_LEN_def)
  have "\<not> mem > GY_PWHASH_MEMLIMIT_MAX"
    using w(3) by (auto simp: gy_pwhash_derive_def split: if_splits)
  moreover have "gy_be64_get (drop (GY_PWHASH_SALT_LEN + 4) blob) = mem" "gy_be32_get (drop GY_PWHASH_SALT_LEN blob) = ops"
      "take GY_PWHASH_SALT_LEN blob = salt" "drop GY_KEKPROT_HDR_LEN blob = sealed"
    using sl by (simp_all add: w(5) GY_PWHASH_SALT_LEN_def GY_KEKPROT_HDR_LEN_def)
  moreover have "gy_unseal L GY_KEKPROT_KEK_LEN pdk ad sealed = Inr kek"
    by (rule seal_roundtrip(1) [OF assms(1-3) w(4)]) (simp add: assms(4))
  moreover have "GY_KEKPROT_HDR_LEN \<le> length blob" using sl by (simp add: w(5) GY_PWHASH_SALT_LEN_def GY_KEKPROT_HDR_LEN_def)
  ultimately show "gy_kekprot_unwrap L cred ad blob = Inr kek"
    using w(2,3) assms(4) by (simp add: gy_kekprot_unwrap_def Let_def)
  show "length blob \<le> GY_KEKPROT_MAX_BLOB"
    using seal_roundtrip(2) [OF assms(1-3) w(4) order_refl] sl assms(4)
    by (auto simp: w(5) seal_alg_cases GY_KEKPROT_MAX_BLOB_def GY_KEKPROT_HDR_LEN_def GY_PWHASH_SALT_LEN_def GY_SEAL_MAX_OVERHEAD_def)
qed

subsection \<open>Keystore life cycle\<close>

definition ks_inv :: "gy_keystore \<Rightarrow> bool" where
  "ks_inv ks \<longleftrightarrow> (case ks_kek ks of None \<Rightarrow> \<not> ks_unlocked ks | Some k \<Rightarrow> ks_unlocked ks \<and> length k = GY_KEKPROT_KEK_LEN)"

text \<open>The calls that change a keystore, as steps; an open or locked store is what they reach.\<close>

inductive ks_step :: "provider \<Rightarrow> gy_keystore \<Rightarrow> gy_keystore \<Rightarrow> bool" for L where
  create: "gy_keystore_create L ks a ops mem cred cap r = (res, ks', r') \<Longrightarrow> ks_step L ks ks'"
| opened: "gy_keystore_open L ks cred wrap = (res, ks') \<Longrightarrow> ks_step L ks ks'"
| close: "ks_step L ks (gy_keystore_close ks)"

inductive_cases ks_stepE: "ks_step L ks ks'"

lemma create_cases:
  assumes "gy_keystore_create L ks a ops mem cred cap r = (res, ks', r')" "hash_lengths L"
  obtains e where "res = Inl e" "ks' = ks" "ks_unlocked ks" "e = GY_ERR_STATE"
  | e where "res = Inl e" "ks' = ks\<lparr>ks_kek := None\<rparr>" "\<not> ks_unlocked ks"
  | kek wrap r1 where "res = Inr wrap" "ks' = ks\<lparr>ks_kek := Some kek, ks_unlocked := True\<rparr>" "\<not> ks_unlocked ks"
      "length kek = GY_KEKPROT_KEK_LEN" "gy_kekprot_wrap L cap a ops mem cred [] kek r1 = (Inr wrap, r')"
  using assms
  by (auto simp: gy_keystore_create_def gy_random_bytes_def hash_lengths_def split: if_splits sum.splits prod.splits)

lemma unwrap_len: "gy_kekprot_unwrap L cred ad blob = Inr kek \<Longrightarrow> length kek = GY_KEKPROT_KEK_LEN"
  by (auto simp: gy_kekprot_unwrap_def Let_def split: if_splits sum.splits)

lemma ks_step_inv: "ks_step L ks ks' \<Longrightarrow> hash_lengths L \<Longrightarrow> ks_inv ks \<Longrightarrow> ks_inv ks'"
proof (induction rule: ks_step.induct)
  case (create ks a ops mem cred cap r res ks' r')
  from create(1,2) show ?case by (cases rule: create_cases) (use create(3) in \<open>auto simp: ks_inv_def split: option.splits\<close>)
next
  case (opened ks cred wrap res ks')
  then show ?case
    by (auto simp: gy_keystore_open_def ks_inv_def dest: unwrap_len split: if_splits sum.splits option.splits)
next
  case (close ks)
  then show ?case by (simp add: ks_inv_def gy_keystore_close_def)
qed

subsection \<open>Properties\<close>

text \<open>
  Sealing round trip. What was sealed under a key, an algorithm and associated data unseals
  under the same key and associated data to the same plaintext, for both ciphers, and the blob is
  exactly header, nonce, plaintext and tag long.
\<close>

lemma seal_unseal_roundtrip:
  assumes "hash_lengths L" "aead_lengths L" "aead_correct L" "gy_seal L cap key a ad pt r = (Inr blob, r')" "length pt \<le> cap'"
  shows "gy_unseal L cap' key ad blob = Inr pt \<and> length blob \<le> length pt + GY_SEAL_MAX_OVERHEAD \<and> length blob \<le> cap"
proof -
  have "length blob \<le> length pt + GY_SEAL_MAX_OVERHEAD"
    using seal_roundtrip(2) [OF assms] by (auto simp: seal_alg_cases GY_SEAL_MAX_OVERHEAD_def)
  moreover have "length blob \<le> cap"
    using seal_roundtrip(2) [OF assms] assms(4)
    by (auto simp: gy_seal_def SEAL_HDR_LEN_def split: if_splits)
  ultimately show ?thesis using seal_roundtrip(1) [OF assms] by simp
qed

text \<open>
  The keystore invariant: the key is present exactly when the store is unlocked, and has its
  fixed length; creating, opening (successfully or not) and closing keep it.
\<close>

lemma keystore_inv_steps:
  assumes "(ks_step L)\<^sup>*\<^sup>* \<lparr>ks_kek = None, ks_unlocked = False\<rparr> ks" "hash_lengths L"
  shows "ks_inv ks"
  using assms
proof (induction rule: rtranclp_induct)
  case base
  then show ?case by (simp add: ks_inv_def)
next
  case (step ks ks')
  then show ?case using ks_step_inv by blast
qed

text \<open>
  Reopening. The blob a created keystore returns, opened with the same credential after the
  store was closed, restores the key that was live; so does the blob of a credential change with
  the new credential. What was sealed before therefore unseals afterwards.
\<close>

lemma keystore_reopen:
  assumes "hash_lengths L" "aead_lengths L" "aead_correct L"
    and "gy_keystore_create L ks a ops mem cred cap r = (Inr wrap, ks1, r1)"
    and "gy_keystore_change_credential L ks1 a' ops' mem' cred' cap' r2 = (Inr wrap', r3)"
  shows "gy_keystore_open L (gy_keystore_close ks1) cred wrap = (Inr (), ks1) \<and>
     gy_keystore_open L (gy_keystore_close ks1) cred' wrap' = (Inr (), ks1)"
proof -
  obtain kek r0 where k: "ks1 = ks\<lparr>ks_kek := Some kek, ks_unlocked := True\<rparr>" "length kek = GY_KEKPROT_KEK_LEN"
      "gy_kekprot_wrap L cap a ops mem cred [] kek r0 = (Inr wrap, r1)"
    using assms(4,1) by (cases rule: create_cases) auto
  have m: "sodium_malloc L GY_KEKPROT_KEK_LEN"
    using assms(4) by (auto simp: gy_keystore_create_def split: if_splits)
  have w: "gy_kekprot_wrap L cap' a' ops' mem' cred' [] kek r2 = (Inr wrap', r3)"
    using assms(5) k(1) by (simp add: gy_keystore_change_credential_def)
  show ?thesis
    using unwrap_wrap(1) [OF assms(1-3) k(2,3)] unwrap_wrap(1) [OF assms(1-3) k(2) w] m
    by (simp add: gy_keystore_open_def gy_keystore_close_def k(1))
qed

text \<open>
  C31. A wrap blob that was lengthened is not refused with the verification error. If the parameter
  header is in range and the password hash succeeds, a sealed part with a valid header but more than
  32 plaintext bytes is refused with the argument error, whatever the credential.
\<close>

theorem kekprot_unwrap_overlong:
  assumes "hdr = salt @ gy_be32_put ops @ gy_be64_put mem" "length salt = GY_PWHASH_SALT_LEN"
    and "gy_pwhash_derive L GY_SEAL_KEY_LEN cred salt ops mem = Inr pdk" "sodium_malloc L GY_SEAL_KEY_LEN"
    and "length ad \<le> GY_SEAL_MAX_AD" "seal_alg_lengths a = Inr (nlen, taglen)" "length body > nlen + taglen + GY_KEKPROT_KEK_LEN"
  shows "gy_kekprot_unwrap L cred ad (hdr @ [GY_SEAL_VERSION, a] @ body) = Inl GY_ERR_ARG"
proof -
  let ?b = "hdr @ [GY_SEAL_VERSION, a] @ body"
  have m: "\<not> mem > GY_PWHASH_MEMLIMIT_MAX" using assms(3) by (auto simp: gy_pwhash_derive_def split: if_splits)
  have f: "gy_be64_get (drop (GY_PWHASH_SALT_LEN + 4) ?b) = mem" "gy_be32_get (drop GY_PWHASH_SALT_LEN ?b) = ops"
      "take GY_PWHASH_SALT_LEN ?b = salt" "drop GY_KEKPROT_HDR_LEN ?b = [GY_SEAL_VERSION, a] @ body"
      "GY_KEKPROT_HDR_LEN \<le> length ?b"
    using assms(2) by (simp_all add: assms(1) GY_KEKPROT_HDR_LEN_def)
  have "gy_unseal L GY_KEKPROT_KEK_LEN pdk ad ([GY_SEAL_VERSION, a] @ body) = Inl GY_ERR_ARG"
  proof (cases "a = GY_SEAL_ALG_AEGIS256")
    case True
    then have "nlen = 32" "taglen = 32" using assms(6) by (simp_all add: seal_alg_cases GY_SEAL_ALG_AEGIS256_def)
    then show ?thesis
      using True assms(5-7)
      by (simp add: gy_unseal_def Let_def SEAL_HDR_LEN_def gy_aead_decrypt_def aegis_lens aegis_prim) linarith
  next
    case False
    have "GY_KEKPROT_KEK_LEN < length body - (nlen + taglen)" using assms(7) by linarith
    then show ?thesis using False assms(5-7) by (simp add: gy_unseal_def Let_def SEAL_HDR_LEN_def)
  qed
  then show ?thesis using m f assms(3,4) by (simp add: gy_kekprot_unwrap_def Let_def)
qed

end
