(* ===== verification/GY_KexWitness.thy ===== *)
theory GY_KexWitness
  imports GY_CoreWitness GY_X3DH GY_Seal
begin

text \<open>
  The handshake and the sealing theorems applied at concrete inputs over the concrete provider:
  keys made by the generators, a bundle that publishes them, a wrapped key with bytes appended.
\<close>

subsection \<open>Sealing\<close>

lemma case_InrD: "case x of Inl e \<Rightarrow> False | Inr y \<Rightarrow> P y \<Longrightarrow> \<exists>y. x = Inr y \<and> P y"
  by (cases x) auto

lemma case_fst_InrD: "case fst p of Inl e \<Rightarrow> False | Inr y \<Rightarrow> True \<Longrightarrow> \<exists>y r. p = (Inr y, r)"
  by (cases p; cases "fst p") auto

lemma toy_malloc: "sodium_malloc toy n"
  by (simp add: toy_def)

lemma toy_pwhash: "gy_pwhash_derive toy 32 cred salt 3 268435456 = Inr (pad 32 cred)"
  by (simp add: gy_pwhash_derive_def toy_def crypto_pwhash_BYTES_MIN_def crypto_pwhash_BYTES_MAX_def
      GY_PWHASH_OPSLIMIT_MIN_def GY_PWHASH_OPSLIMIT_MAX_def GY_PWHASH_MEMLIMIT_MIN_def GY_PWHASH_MEMLIMIT_MAX_def)

theorem kekprot_unwrap_overlong_witness:
  "gy_kekprot_unwrap toy [1] []
     (replicate 16 0 @ gy_be32_put 3 @ gy_be64_put 268435456 @ [GY_SEAL_VERSION, 0x12] @ replicate 73 0) = Inl GY_ERR_ARG"
  using kekprot_unwrap_overlong [OF refl, of "replicate 16 0" toy "[1]" 3 268435456 "pad 32 [1]" "[]" "0x12" 24 16 "replicate 73 0"]
  by (simp add: toy_pwhash GY_PWHASH_SALT_LEN_def seal_alg_cases GY_KEKPROT_KEK_LEN_def GY_SEAL_KEY_LEN_def toy_malloc)

subsection \<open>The classical handshake\<close>

definition toy_key :: "rng \<Rightarrow> gy_keypair" where
  "toy_key r = (case gen_keypair toy c25519 [] [] r of Some (Inr kp, r') \<Rightarrow> kp | _ \<Rightarrow> toy_spk)"

definition toy_local :: gy_x3dh_local where
  "toy_local = \<lparr>xl_ik = toy_key 1, xl_spk = toy_key 2, xl_opks = [toy_key 3, toy_key 4]\<rparr>"

definition toy_bundle :: gy_prekey_bundle where
  "toy_bundle = \<lparr>pb_ik = kp_pub (toy_key 1), pb_spk = kp_pub (toy_key 2), pb_spk_timestamp = 9,
     pb_spk_sig = replicate 64 0, pb_opk = kp_pub (toy_key 4)\<rparr>"

lemma toy_key_own: "own_key toy c25519 (toy_key r)" if "r \<in> {1, 2, 3, 4, 5, 6}"
proof -
  have "case gen_keypair toy c25519 [] [] k of None \<Rightarrow> False | Some (Inl e, r) \<Rightarrow> False | Some (Inr kp, r) \<Rightarrow> True"
    if "k \<in> {1, 2, 3, 4, 5, 6}" for k
    using that by (elim insertE emptyE) (simp only:, code_simp)+
  from case_Some_InrD [OF this [OF that]] show ?thesis
    using generated_own_key by (auto simp: toy_key_def)
qed

lemma toy_bundle_local: "bundle_of_local c25519 toy_local toy_bundle"
proof -
  have "find_opk toy_local (pub_pkid (pb_opk toy_bundle)) = Some (toy_key 4)"
  proof -
    have "pub_pkid (kp_pub (toy_key 3)) \<noteq> pub_pkid (kp_pub (toy_key 4))" by code_simp
    then show ?thesis by (simp add: find_opk_def toy_local_def toy_bundle_def)
  qed
  then show ?thesis using toy_key_own by (simp add: bundle_of_local_def toy_local_def toy_bundle_def own_key_def)
qed

lemma toy_initiates:
  obtains sec ad prefix ek' where "gy_x3dh_initiate toy c25519 (toy_key 5) toy_bundle (toy_key 6) = (Inr (sec, ad, prefix), ek')"
proof -
  have "case fst (gy_x3dh_initiate toy c25519 (toy_key 5) toy_bundle (toy_key 6)) of Inl e \<Rightarrow> False | Inr y \<Rightarrow> True"
    by code_simp
  from case_fst_InrD [OF this] show thesis using that by auto
qed

lemma toy_opk_present: "pub_pkid (pb_opk toy_bundle) \<noteq> 0"
  by code_simp

theorem x3dh_agreement_witness:
  "\<exists>sec ad prefix ek'. gy_x3dh_initiate toy c25519 (toy_key 5) toy_bundle (toy_key 6) = (Inr (sec, ad, prefix), ek') \<and>
     gy_x3dh_respond toy c25519 toy_local (take (length prefix - 4) prefix @ [0, 0, 0, 1, 7]) =
       Inr (sec, ad, \<lparr>ref_present = 1, ref_pkid = pub_pkid (pb_opk toy_bundle)\<rparr>)"
proof -
  obtain sec ad prefix ek' where
    i: "gy_x3dh_initiate toy c25519 (toy_key 5) toy_bundle (toy_key 6) = (Inr (sec, ad, prefix), ek')"
    by (rule toy_initiates)
  have o: "own_key toy c25519 (toy_key 5)" "own_key toy c25519 (toy_key 6)" by (simp_all add: toy_key_own)
  from x3dh_agreement [OF toy_live_rows(1) toy_dh_commutes toy_dh_lengths o toy_bundle_local i, of "[0, 0, 0, 1, 7]"] i
  show ?thesis using toy_opk_present by simp
qed

subsection \<open>The hybrid handshake\<close>

theorem hybrid_flag_negotiable_witness:
  "gy_hybrid_flags_validate 0x700640005 = Inr () \<and> hybrid_flag_check (of_nat (adv_min 0x700640005) OR push_bit 16 1) 0x700640005 = Inr ()"
proof -
  have "gy_hybrid_flags_validate 0x700640005 = Inr ()" by code_simp
  with hybrid_flag_negotiable [OF this] show ?thesis by simp
qed

abbreviation h25519 :: gy_suite_desc where "h25519 \<equiv> suite_h25519_512 toy"

lemma toy_fields:
  "randombytes_buf toy r n = replicate n (of_nat r + 7)" "crypto_scalarmult_curve25519_base toy k = Some (pad 32 k)"
  "crypto_hash_sha256 toy m = 1 # pad 31 m" "crypto_sign_verify_detached toy s m p = True"
  "OQS_KEM_keypair toy alg r = (Some (replicate (fst (kem_sizes alg)) (of_nat r),
                                      replicate (fst (snd (kem_sizes alg))) (of_nat r)), Suc r)"
  "OQS_KEM_encaps toy alg m r = (Some (replicate (snd (snd (kem_sizes alg))) 3, replicate 32 4), Suc r)"
  "OQS_SIG_verify_with_ctx_str toy sa m s c p = True"
  by (simp_all add: toy_def)

lemma h25519_row:
  "curve_type h25519 = 0x20" "is_hybrid h25519" "curve_pk_len h25519 = 32" "hash_len h25519 = 32"
  "kem_pk_len h25519 = 800" "kem_ct_len h25519 = 768" "dsa_pk_len h25519 = 1312"
  "op_keypair h25519 = gy_x25519_keypair toy" "op_dh h25519 = gy_x25519 toy" "op_verify h25519 = gy_xeddsa_verify toy"
  "op_kem_keypair h25519 = Some (gy_mlkem_keypair toy ML_KEM_512)"
  "op_kem_encap h25519 = Some (gy_mlkem_encaps toy ML_KEM_512)"
  "op_dsa_verify h25519 = Some (gy_mldsa_verify toy ML_DSA_44)"
  by (simp_all add: suite_row_defs wire_const_defs)

lemma suite_name_h25519: "suite_name h25519 = ''h25519_512''"
  by (simp add: suite_row_defs)

definition toy_curve :: "u8 \<Rightarrow> gy_keypair" where
  "toy_curve b = (let k = clamp25519 (replicate 32 (b + 7)) in
     \<lparr>kp_pub = \<lparr>pub_pkid = gy_be32_get (1 # 0x20 # take 2 k), pub_curve_type = 0x20, pub_pk = k\<rparr>, kp_sk = k\<rparr>)"

definition toy_hybrid_key :: "u8 \<Rightarrow> gy_hybrid_keypair" where
  "toy_hybrid_key b = \<lparr>hk_pub = \<lparr>hp_curve = kp_pub (toy_curve b), hp_mlkem_ek = replicate 800 b\<rparr>,
     hk_curve_sk = kp_sk (toy_curve b), hk_mlkem_dk = replicate 1632 b\<rparr>"

definition toy_identity :: "u8 \<Rightarrow> gy_hybrid_identity_keypair" where
  "toy_identity b = \<lparr>hik_pub = \<lparr>hi_base = hk_pub (toy_hybrid_key b), hi_mldsa_pk = replicate 1312 b\<rparr>,
     hik_curve_sk = kp_sk (toy_curve b), hik_mlkem_dk = replicate 1632 b, hik_mldsa_sk = replicate 2560 b\<rparr>"

definition toy_hybrid_local :: gy_hybrid_x3dh_local where
  "toy_hybrid_local = \<lparr>hxl_ik = toy_identity 1, hxl_spk = toy_hybrid_key 2, hxl_spk_flags = 0x700640005,
     hxl_opks = [toy_hybrid_key 3]\<rparr>"

definition toy_hybrid_bundle :: gy_hybrid_prekey_bundle where
  "toy_hybrid_bundle = \<lparr>hpb_ik = hik_pub (toy_identity 1), hpb_spk = hk_pub (toy_hybrid_key 2), hpb_spk_timestamp = 9,
     hpb_spk_flags = 0x700640005, hpb_spk_ik_id = pub_pkid (kp_pub (toy_curve 1)),
     hpb_spk_ed_sig = replicate 64 0, hpb_spk_mldsa_sig = replicate 2420 0, hpb_opk = hk_pub (toy_hybrid_key 3)\<rparr>"

lemma length_clamp25519 [simp]: "length (clamp25519 k) = length k"
  by (simp add: clamp25519_def Let_def)

lemma toy_curve_shape:
  "length (pub_pk (kp_pub (toy_curve b))) = 32" "pub_curve_type (kp_pub (toy_curve b)) = 0x20"
  "kp_sk (toy_curve b) = pub_pk (kp_pub (toy_curve b))"
  "pub_pkid (kp_pub (toy_curve b)) = gy_be32_get (1 # 0x20 # take 2 (pub_pk (kp_pub (toy_curve b))))"
  by (simp_all add: toy_curve_def Let_def)

lemma toy_curve_generated: "keypair_of h25519 (toy_curve b)"
proof -
  have "op_keypair h25519 (unat b) = (Inr (pub_pk (kp_pub (toy_curve b)), kp_sk (toy_curve b)), Suc (unat b))"
    by (simp add: h25519_row gy_x25519_keypair_def gy_random_bytes_def toy_fields toy_curve_def Let_def pad_def)
  then show ?thesis unfolding keypair_of_def by blast
qed

lemma toy_kem_generated: "kem_pair_of h25519 (replicate 800 b) (replicate 1632 b)"
proof -
  have "the (op_kem_keypair h25519) (unat b) = (Inr (replicate 800 b, replicate 1632 b), Suc (unat b))"
    by (simp add: h25519_row gy_mlkem_keypair_def toy_fields)
  then show ?thesis unfolding kem_pair_of_def by blast
qed

lemma be32_first: "gy_be32_get (1 # xs) \<noteq> 0" if "3 \<le> length xs"
proof -
  have "bit (gy_be32_get (1 # xs)) 24" using that by (simp add: gy_be32_get_def byte_bit_simps)
  then show ?thesis by auto
qed

lemma toy_pkid: "gy_pkid toy 2 (0x20 # pub_pk (kp_pub (toy_curve b)) @ xs) = Inr (pub_pkid (kp_pub (toy_curve b)))"
proof -
  obtain x y zs where k: "pub_pk (kp_pub (toy_curve b)) = x # y # zs"
    using toy_curve_shape(1) [of b] by (cases "pub_pk (kp_pub (toy_curve b))" rule: remdups_adj.cases) auto
  show ?thesis unfolding toy_curve_shape(4) k
    by (simp add: gy_pkid_def h25519_row toy_fields pad_def gy_be32_get_def)
qed

lemma toy_pkid_nonzero: "pub_pkid (kp_pub (toy_curve b)) \<noteq> 0"
  unfolding toy_curve_shape(4) by (rule be32_first) (simp add: toy_curve_shape(1))

lemma toy_curve_own: "own_key toy h25519 (toy_curve b)"
  using toy_curve_generated toy_pkid [of b "[]"] toy_pkid_nonzero toy_curve_shape
  by (simp add: own_key_def check_pkid_def gy_encode_ec_def wire_const_defs GY_ENCODED_KEY_MAX_def h25519_row)

lemma keypair_surj [simp]: "\<lparr>kp_pub = kp_pub k, kp_sk = kp_sk k\<rparr> = (k :: gy_keypair)"
  by simp

lemma toy_hybrid_key_of: "hybrid_keypair_of h25519 (toy_hybrid_key b)"
  using toy_curve_generated toy_kem_generated
  by (simp add: hybrid_keypair_of_def curve_half_def toy_hybrid_key_def)

lemma toy_identity_of: "hybrid_identity_of h25519 (toy_identity b)"
  using toy_curve_generated toy_kem_generated
  by (simp add: hybrid_identity_of_def identity_curve_half_def toy_identity_def toy_hybrid_key_def)

lemma toy_identity_own: "hybrid_own_identity toy h25519 (toy_identity b)"
  using toy_curve_generated toy_pkid toy_curve_shape(1,2)
  by (simp add: hybrid_own_identity_def identity_curve_half_def toy_identity_def toy_hybrid_key_def h25519_row
     hybrid_ik_pkid_matches_def gy_hybrid_encode_identity_def gy_hybrid_encode_pub_def gy_encode_ec_def wire_const_defs
     GY_HYBRID_IK_WIRE_def)

lemma toy_hybrid_bundle_local: "hybrid_bundle_of_local h25519 toy_hybrid_local toy_hybrid_bundle"
proof -
  have "find_hybrid_opk toy_hybrid_local (pub_pkid (hp_curve (hpb_opk toy_hybrid_bundle))) = Some (toy_hybrid_key 3)"
    by (simp add: find_hybrid_opk_def toy_hybrid_local_def toy_hybrid_bundle_def)
  then show ?thesis
    using toy_hybrid_key_of toy_identity_of
    by (simp add: hybrid_bundle_of_local_def toy_hybrid_local_def toy_hybrid_bundle_def)
qed

lemma toy_not_ge_p: "\<not> u_ge_p (pub_pk (kp_pub (toy_curve 1)))"
  by code_simp

lemma toy_hybrid_validates: "gy_hybrid_bundle_validate toy h25519 toy_hybrid_bundle = (Inr (), None)"
proof -
  have "gy_hybrid_flags_validate 0x700640005 = Inr ()" by code_simp
  then show ?thesis
    using toy_pkid toy_pkid_nonzero toy_curve_shape toy_not_ge_p
    by (simp add: gy_hybrid_bundle_validate_def toy_hybrid_bundle_def toy_hybrid_key_def toy_identity_def h25519_row
       hybrid_check_pkid_def gy_hybrid_encode_identity_def gy_hybrid_encode_pub_def gy_encode_ec_def wire_const_defs
       GY_HYBRID_ID_ENC_MAX_def GY_HYBRID_PUB_ENC_MAX_def GY_HYBRID_SIGNED_MAX_def hybrid_signed_data_def
       gy_xeddsa_verify_def GY_XEDDSA_MAX_MSG_def prekey_ctx_def gy_info_def gy_mldsa_verify_def GY_MLDSA_CTX_MAX_def
       GY_PREKEY_CTX_MAX_def ascii_def toy_fields suite_name_h25519 Let_def)
qed

lemma toy_curve_dh: "(\<exists>x. op_dh h25519 (kp_sk (toy_curve a)) (pub_pk (kp_pub (toy_curve b))) = Inr x)"
  if "a \<in> {5, 6}" "b \<in> {1, 2, 3}"
proof -
  have "case op_dh h25519 (kp_sk (toy_curve a)) (pub_pk (kp_pub (toy_curve b))) of Inl e \<Rightarrow> False | Inr y \<Rightarrow> True"
    using that by (elim insertE emptyE) (simp only:, code_simp)+
  from case_InrD [OF this] show ?thesis by blast
qed

lemma toy_identity_encodes: "\<exists>e. gy_hybrid_encode_identity h25519 (hik_pub (toy_identity b)) cap = Inr e" if "cap \<ge> 3000"
  using that toy_curve_shape(1,2)
  by (simp add: gy_hybrid_encode_identity_def gy_hybrid_encode_pub_def gy_encode_ec_def wire_const_defs h25519_row
      toy_identity_def toy_hybrid_key_def)

lemma toy_hybrid_initiates:
  "\<exists>sec ad prefix ek' r'. gy_hybrid_x3dh_initiate toy h25519 (toy_identity 5) toy_hybrid_bundle (toy_curve 6) 0x10005 0 =
     (Inr (sec, ad, prefix), ek', r')"
proof -
  have f: "hybrid_flag_check 0x10005 0x700640005 = Inr ()" by code_simp
  have h: "\<exists>h. op_hash h25519 x = Inr h" for x using toy_live_rows(2) unfolding live_suite_def suite_ok_def by blast
  have hk: "\<exists>h. hybrid_combine h25519 x y = Inr h" for x y using h by (simp add: hybrid_combine_def)
  have fu: "\<exists>y. hybrid_fuse h25519 s0 s1 s2 d0 d1 d2 d3 = Inr y" for s0 s1 s2 d0 d1 d2 d3
    using hk [of s1 d0] hk [of s0 d1] hk [of s1 d2] hk [of "hd s2" "hd d3"] by (auto simp: hybrid_fuse_def)
  have ih: "\<exists>h. gy_hybrid_ikhash h25519 (hik_pub (toy_identity b)) = Inr h" for b
    using toy_identity_encodes [of GY_HYBRID_ID_ENC_MAX b] h by (auto simp: gy_hybrid_ikhash_def GY_HYBRID_ID_ENC_MAX_def GY_HYBRID_PUB_ENC_MAX_def)
  have ad: "\<exists>h. hybrid_build_ad h25519 (hik_pub (toy_identity 5)) (hpb_ik toy_hybrid_bundle) fl = Inr h" for fl
    using ih [of 5] ih [of 1] by (auto simp: hybrid_build_ad_def toy_hybrid_bundle_def)
  have px: "\<exists>h. hybrid_x3dh_prefix h25519 (hik_pub (toy_identity 5)) ek c0 c1 c2 i1 i2 i3 fl = Inr h" for ek c0 c1 c2 i1 i2 i3 fl
    using toy_identity_encodes [of "GY_HYBRID_IK_WIRE - 4" 5]
    by (auto simp: hybrid_x3dh_prefix_def put_hybrid_identity_def GY_HYBRID_IK_WIRE_def)
  have kem: "the (op_kem_encap h25519) k r = (Inr (replicate 768 3, replicate 32 4), Suc r)" for k r
    by (simp add: h25519_row gy_mlkem_encaps_def toy_fields)
  have pk: "pub_pk (hp_curve (hpb_spk toy_hybrid_bundle)) = pub_pk (kp_pub (toy_curve 2))"
      "pub_pk (hp_curve (hi_base (hpb_ik toy_hybrid_bundle))) = pub_pk (kp_pub (toy_curve 1))"
      "pub_pk (hp_curve (hpb_opk toy_hybrid_bundle)) = pub_pk (kp_pub (toy_curve 3))"
      "hik_curve_sk (toy_identity 5) = kp_sk (toy_curve 5)" "hpb_spk_flags toy_hybrid_bundle = 0x700640005"
    by (simp_all add: toy_hybrid_bundle_def toy_identity_def toy_hybrid_key_def)
  obtain d0 d1 d2 d3 where dh: "op_dh h25519 (kp_sk (toy_curve 5)) (pub_pk (kp_pub (toy_curve 2))) = Inr d0"
      "op_dh h25519 (kp_sk (toy_curve 6)) (pub_pk (kp_pub (toy_curve 1))) = Inr d1"
      "op_dh h25519 (kp_sk (toy_curve 6)) (pub_pk (kp_pub (toy_curve 2))) = Inr d2"
      "op_dh h25519 (kp_sk (toy_curve 6)) (pub_pk (kp_pub (toy_curve 3))) = Inr d3"
    using toy_curve_dh [of 5 2] toy_curve_dh [of 6 1] toy_curve_dh [of 6 2] toy_curve_dh [of 6 3] by auto
  have id: "pub_pkid (hp_curve (hpb_opk toy_hybrid_bundle)) \<noteq> 0"
    using toy_pkid_nonzero by (simp add: toy_hybrid_bundle_def toy_hybrid_key_def)
  obtain y where y: "hybrid_fuse h25519 (replicate 32 4) (replicate 32 4) [replicate 32 4] d0 d1 d2 [d3] = Inr y" using fu by blast
  obtain sec where sec: "hybrid_derive_secrets toy h25519 y = Inr sec" using derive_secrets_total(2) [OF toy_live_rows(2)] by blast
  obtain a where a: "hybrid_build_ad h25519 (hik_pub (toy_identity 5)) (hpb_ik toy_hybrid_bundle) 0x10005 = Inr a" using ad by blast
  let ?ct = "replicate 768 3"
  obtain w where w: "hybrid_x3dh_prefix h25519 (hik_pub (toy_identity 5)) (kp_pub (toy_curve 6)) ?ct ?ct ?ct
      (pub_pkid (hp_curve (hi_base (hpb_ik toy_hybrid_bundle)))) (pub_pkid (hp_curve (hpb_spk toy_hybrid_bundle)))
      (pub_pkid (hp_curve (hpb_opk toy_hybrid_bundle))) 0x10005 = Inr w" using px by blast
  obtain z where z: "hybrid_initiate_core toy h25519 (toy_identity 5) toy_hybrid_bundle (toy_curve 6) 0x10005 0 = Some (Inr z, 3)"
    by (simp add: hybrid_initiate_core_def Let_def kem pk dh id y sec a w cbind_def)
  then show ?thesis by (cases z) (simp add: gy_hybrid_x3dh_initiate_def toy_hybrid_validates h25519_row(2) pk(5) f)
qed

theorem hybrid_x3dh_agreement_witness:
  "\<exists>sec ad prefix ek' r'. gy_hybrid_x3dh_initiate toy h25519 (toy_identity 5) toy_hybrid_bundle (toy_curve 6) 0x10005 0 =
       (Inr (sec, ad, prefix), ek', r') \<and>
     gy_hybrid_x3dh_respond toy h25519 toy_hybrid_local (prefix @ [8]) =
       Inr (sec, ad, \<lparr>ref_present = 1, ref_pkid = pub_pkid (kp_pub (toy_curve 3))\<rparr>, 0x10005)"
proof -
  obtain sec ad prefix ek' r' where
    i: "gy_hybrid_x3dh_initiate toy h25519 (toy_identity 5) toy_hybrid_bundle (toy_curve 6) 0x10005 0 = (Inr (sec, ad, prefix), ek', r')"
    using toy_hybrid_initiates by blast
  from hybrid_x3dh_agreement [OF toy_live_rows(2) toy_dh_commutes toy_dh_lengths toy_kem_correct toy_kem_lengths
      toy_identity_own toy_curve_own toy_hybrid_bundle_local i, of "[8]"] i
  show ?thesis using toy_pkid_nonzero by (simp add: toy_hybrid_bundle_def toy_hybrid_key_def)
qed

theorem hybrid_initiate_validates_first_witness:
  "\<exists>out ek' r'. gy_hybrid_x3dh_initiate toy h25519 (toy_identity 5) toy_hybrid_bundle (toy_curve 6) 0x10005 0 = (Inr out, ek', r') \<and>
     fst (gy_hybrid_bundle_validate toy h25519 toy_hybrid_bundle) = Inr ()"
  using toy_hybrid_initiates
    hybrid_initiate_validates_first [of toy h25519 "toy_identity 5" toy_hybrid_bundle "toy_curve 6" "0x10005" 0] by blast

end
