(* ===== verification/GY_HybridRatchet.thy ===== *)
theory GY_HybridRatchet
  imports GY_X3DH GY_DRSync
begin

text \<open>
  The hybrid Double Ratchet engine, \<^verbatim>\<open>src/ratchet/hybrid_double_ratchet.c\<close>: the classical ratchet state
  with an ML-KEM ratchet beside it and the one-time KEM confirmation that binds the initiator's
  post-quantum identity. A ratchet step is split the way the function is commented: the gate on the
  confirmation flag, the receiving half, the refresh of the key pairs, the sending half, the
  transition of the confirmation state.
\<close>

definition GY_HYBRID_ROLE_INITIATOR :: u8 where "GY_HYBRID_ROLE_INITIATOR = 0"
definition GY_HYBRID_ROLE_RESPONDER :: u8 where "GY_HYBRID_ROLE_RESPONDER = 1"
definition GY_HYBRID_PQ_CLASSICAL_ONLY :: u8 where "GY_HYBRID_PQ_CLASSICAL_ONLY = 0"
definition GY_HYBRID_PQ_CONFIRM_SENT :: u8 where "GY_HYBRID_PQ_CONFIRM_SENT = 1"
definition GY_HYBRID_PQ_CONFIRMED :: u8 where "GY_HYBRID_PQ_CONFIRMED = 2"

lemmas pq_const_defs = GY_HYBRID_ROLE_INITIATOR_def GY_HYBRID_ROLE_RESPONDER_def GY_HYBRID_PQ_CLASSICAL_ONLY_def
  GY_HYBRID_PQ_CONFIRM_SENT_def GY_HYBRID_PQ_CONFIRMED_def

record gy_hybrid_dr_state =
  hd_base :: gy_dr_state
  hd_mlkem_ek :: bytes
  hd_mlkem_dk :: bytes
  hd_remote_ek :: bytes
  hd_kem_ct :: bytes
  hd_mlkem_counter :: u32
  hd_mlkem_interval :: u32
  hd_have_remote_ek :: u8
  hd_have_kem_ct :: u8
  hd_send_ek_pending :: u8
  hd_role :: u8
  hd_pq_state :: u8
  hd_id_mlkem_ek :: bytes
  hd_id_mlkem_dk :: bytes
  hd_confirm_ct :: bytes
  hd_confirm_pending :: u8
  hd_send_confirm_pending :: u8
  hd_have_confirm_ct :: u8
  hd_have_id_dk :: u8

definition hd_zero :: "gy_suite_desc \<Rightarrow> u8 \<Rightarrow> gy_hybrid_dr_state" where
  "hd_zero desc aead_id =
     \<lparr>hd_base = dr_zero desc aead_id, hd_mlkem_ek = [], hd_mlkem_dk = [], hd_remote_ek = [], hd_kem_ct = [],
      hd_mlkem_counter = 0, hd_mlkem_interval = 0, hd_have_remote_ek = 0, hd_have_kem_ct = 0,
      hd_send_ek_pending = 0, hd_role = 0, hd_pq_state = 0, hd_id_mlkem_ek = [], hd_id_mlkem_dk = [],
      hd_confirm_ct = [], hd_confirm_pending = 0, hd_send_confirm_pending = 0, hd_have_confirm_ct = 0,
      hd_have_id_dk = 0\<rparr>"

subsection \<open>Key material\<close>

definition gen_curve_keypair :: "provider \<Rightarrow> gy_suite_desc \<Rightarrow> gy_keypair comp" where
  "gen_curve_keypair L desc = gy_keypair_generate L desc"

definition gen_kem_keypair :: "gy_suite_desc \<Rightarrow> (bytes \<times> bytes) comp" where
  "gen_kem_keypair desc = ctot (the (op_kem_keypair desc))"

definition kem_encaps :: "gy_suite_desc \<Rightarrow> bytes \<Rightarrow> (bytes \<times> bytes) comp" where
  "kem_encaps desc ek = ctot (the (op_kem_encap desc) ek)"

definition hybrid_combine3 :: "gy_suite_desc \<Rightarrow> bytes \<Rightarrow> bytes \<Rightarrow> bytes \<Rightarrow> bytes res" where
  "hybrid_combine3 desc confirm_ss kem_ss dh = op_hash desc (confirm_ss @ kem_ss @ dh)"

definition root_kdf :: "provider \<Rightarrow> gy_suite_desc \<Rightarrow> bytes \<Rightarrow> bytes \<Rightarrow> (bytes \<times> bytes \<times> bytes) res" where
  "root_kdf L desc rk hdh = gy_drc_kdf_rk L desc rk hdh"

subsection \<open>Initialisation\<close>

definition gy_hybrid_dr_init_alice ::
    "provider \<Rightarrow> gy_suite_desc \<Rightarrow> u8 \<Rightarrow> gy_dr_secrets \<Rightarrow> gy_hybrid_public_key \<Rightarrow> u32 \<Rightarrow> bytes
      \<Rightarrow> gy_hybrid_dr_state comp" where
  "gy_hybrid_dr_init_alice L desc aead_id secrets remote_spk mlkem_interval id_mlkem_dk =
     (if \<not> is_hybrid desc \<or> mlkem_interval < 1 then clift (Inl GY_ERR_ARG)
      else
        let b = (dr_zero desc aead_id)
              \<lparr>dr_rk := sd_sk_dr secrets, dr_dhr := pub_pk (hp_curve remote_spk), dr_have_dhr := 1,
               dr_hks := sd_shared_hka secrets, dr_nhkr := sd_shared_nhkb secrets,
               dr_have_hks := 1, dr_have_nhkr := 1\<rparr>;
            st = (hd_zero desc aead_id)
              \<lparr>hd_remote_ek := hp_mlkem_ek remote_spk, hd_have_remote_ek := 1, hd_mlkem_interval := mlkem_interval,
               hd_role := GY_HYBRID_ROLE_INITIATOR, hd_pq_state := GY_HYBRID_PQ_CLASSICAL_ONLY,
               hd_id_mlkem_dk := id_mlkem_dk, hd_have_id_dk := 1\<rparr> in
        cbind (gen_curve_keypair L desc) (\<lambda>dhs.
        cbind (gen_kem_keypair desc) (\<lambda>(ek, dk).
        cbind (kem_encaps desc (hd_remote_ek st)) (\<lambda>(kem_ct, kem_ss).
        cbind (clift (op_dh desc (kp_sk dhs) (dr_dhr b))) (\<lambda>dh.
        cbind (clift (hybrid_combine desc kem_ss dh)) (\<lambda>hdh.
        cbind (clift (root_kdf L desc (dr_rk b) hdh)) (\<lambda>(rk, cks, nhks).
          clift (Inr (st
            \<lparr>hd_base := b\<lparr>dr_dhs := dhs, dr_rk := rk, dr_cks := cks, dr_nhks := nhks,
                          dr_have_cks := 1, dr_have_nhks := 1\<rparr>,
             hd_mlkem_ek := ek, hd_mlkem_dk := dk, hd_send_ek_pending := 1,
             hd_kem_ct := kem_ct, hd_have_kem_ct := 1\<rparr>)))))))))"

definition gy_hybrid_dr_init_bob ::
    "gy_suite_desc \<Rightarrow> u8 \<Rightarrow> gy_dr_secrets \<Rightarrow> gy_hybrid_keypair \<Rightarrow> u32 \<Rightarrow> bytes \<Rightarrow> gy_hybrid_dr_state res" where
  "gy_hybrid_dr_init_bob desc aead_id secrets spk_keypair mlkem_interval initiator_id_mlkem_ek =
     (if \<not> is_hybrid desc \<or> mlkem_interval < 1 then Inl GY_ERR_ARG
      else Inr ((hd_zero desc aead_id)
        \<lparr>hd_base := (dr_zero desc aead_id)
           \<lparr>dr_rk := sd_sk_dr secrets, dr_nhks := sd_shared_nhkb secrets, dr_nhkr := sd_shared_hka secrets,
            dr_have_nhks := 1, dr_have_nhkr := 1,
            dr_dhs := \<lparr>kp_pub = hp_curve (hk_pub spk_keypair), kp_sk = hk_curve_sk spk_keypair\<rparr>\<rparr>,
         hd_mlkem_ek := hp_mlkem_ek (hk_pub spk_keypair), hd_mlkem_dk := hk_mlkem_dk spk_keypair,
         hd_mlkem_interval := mlkem_interval, hd_mlkem_counter := mlkem_interval,
         hd_role := GY_HYBRID_ROLE_RESPONDER, hd_pq_state := GY_HYBRID_PQ_CLASSICAL_ONLY,
         hd_id_mlkem_ek := initiator_id_mlkem_ek, hd_confirm_pending := 1\<rparr>))"

subsection \<open>The hybrid ratchet step\<close>

text \<open>Whether the header must carry, and carries, the confirmation.\<close>

definition confirm_gate :: "gy_hybrid_dr_state \<Rightarrow> bool \<Rightarrow> bool res" where
  "confirm_gate st has_confirm =
     (if hd_role st = GY_HYBRID_ROLE_RESPONDER then
        (if has_confirm then Inl GY_ERR_STATE else Inr False)
      else if hd_pq_state st = GY_HYBRID_PQ_CLASSICAL_ONLY then
        (if \<not> has_confirm then Inl GY_ERR_STATE else Inr True)
      else if has_confirm then Inl GY_ERR_STATE else Inr False)"

text \<open>
  Counters, the remote keys, and the receiving chain under the current decapsulation key. The base
  state with the three keys the root derivation returns is \<open>recv_chain\<close>; the remote encapsulation
  key is the one of the header or the cached one.
\<close>

definition recv_chain :: "gy_dr_state \<Rightarrow> bytes \<Rightarrow> bytes \<times> bytes \<times> bytes \<Rightarrow> gy_dr_state" where
  "recv_chain b pk k =
     b\<lparr>dr_pn := dr_ns b, dr_ns := 0, dr_nr := 0, dr_dhr := pk, dr_have_dhr := 1,
       dr_hkr := dr_nhkr b, dr_have_hkr := 1,
       dr_rk := fst k, dr_ckr := fst (snd k), dr_nhkr := snd (snd k), dr_have_ckr := 1, dr_have_nhkr := 1\<rparr>"

definition remote_ek_of :: "gy_hybrid_dr_state \<Rightarrow> gy_dr_hybrid_header \<Rightarrow> bytes res" where
  "remote_ek_of st h =
     (if ek_present (hh_flags h) then Inr (hh_mlkem_ek h)
      else if hd_have_remote_ek st = 0 then Inl GY_ERR_STATE else Inr (hd_remote_ek st))"

definition recv_fuse ::
    "gy_hybrid_dr_state \<Rightarrow> gy_dr_hybrid_header \<Rightarrow> bool \<Rightarrow> bytes \<Rightarrow> bytes \<Rightarrow> bytes res" where
  "recv_fuse st h recv_confirm kem_ss dh =
     (let desc = dr_desc (hd_base st) in
      if recv_confirm
      then rbind (the (op_kem_decap desc) (hh_confirm_ct h) (hd_id_mlkem_dk st)) (\<lambda>confirm_ss.
             hybrid_combine3 desc confirm_ss kem_ss dh)
      else hybrid_combine desc kem_ss dh)"

definition hybrid_recv_half ::
    "provider \<Rightarrow> gy_hybrid_dr_state \<Rightarrow> gy_dr_hybrid_header \<Rightarrow> bool \<Rightarrow> gy_hybrid_dr_state res" where
  "hybrid_recv_half L st h recv_confirm =
     (let b = hd_base st; desc = dr_desc b in
      rbind (remote_ek_of st h) (\<lambda>rek.
      rbind (the (op_kem_decap desc) (hh_kem_ct h) (hd_mlkem_dk st)) (\<lambda>kem_ss.
      rbind (op_dh desc (kp_sk (dr_dhs b)) (hh_ratchet_pk h)) (\<lambda>dh.
      rbind (recv_fuse st h recv_confirm kem_ss dh) (\<lambda>hdh.
      rbind (root_kdf L desc (dr_rk b) hdh) (\<lambda>k.
        Inr (st\<lparr>hd_remote_ek := rek, hd_have_remote_ek := 1, hd_base := recv_chain b (hh_ratchet_pk h) k\<rparr>)))))))"

text \<open>The ML-KEM key pair on the interval, the curve key pair every step; and whether the former was renewed.\<close>

definition hybrid_refresh :: "provider \<Rightarrow> gy_hybrid_dr_state \<Rightarrow> (gy_hybrid_dr_state \<times> bool) comp" where
  "hybrid_refresh L st =
     (let desc = dr_desc (hd_base st); counter = hd_mlkem_counter st + 1 in
      cbind (if counter \<ge> hd_mlkem_interval st
             then cbind (gen_kem_keypair desc) (\<lambda>(ek, dk). clift (Inr (ek, dk, 0, True)))
             else clift (Inr (hd_mlkem_ek st, hd_mlkem_dk st, counter, False))) (\<lambda>(ek, dk, c, regen).
      cbind (gen_curve_keypair L desc) (\<lambda>dhs.
        clift (Inr (st\<lparr>hd_mlkem_ek := ek, hd_mlkem_dk := dk, hd_mlkem_counter := c,
                       hd_base := (hd_base st)\<lparr>dr_dhs := dhs\<rparr>\<rparr>, regen)))))"

text \<open>The sending chain: a fresh encapsulation, and on the responder's first chain the confirmation.\<close>

definition send_chain :: "gy_dr_state \<Rightarrow> bytes \<times> bytes \<times> bytes \<Rightarrow> gy_dr_state" where
  "send_chain b k =
     b\<lparr>dr_hks := dr_nhks b, dr_have_hks := 1, dr_rk := fst k, dr_cks := fst (snd k), dr_nhks := snd (snd k),
       dr_have_cks := 1, dr_have_nhks := 1\<rparr>"

definition confirm_encaps :: "gy_hybrid_dr_state \<Rightarrow> (bytes \<times> u8 \<times> bytes) comp" where
  "confirm_encaps st =
     (if hd_confirm_pending st \<noteq> 0
      then cbind (kem_encaps (dr_desc (hd_base st)) (hd_id_mlkem_ek st)) (\<lambda>(ct, ss). clift (Inr (ct, 1, ss)))
      else clift (Inr (hd_confirm_ct st, hd_have_confirm_ct st, [])))"

definition send_fuse :: "gy_hybrid_dr_state \<Rightarrow> bytes \<Rightarrow> bytes \<Rightarrow> bytes \<Rightarrow> bytes res" where
  "send_fuse st confirm_ss kem_ss dh =
     (let desc = dr_desc (hd_base st) in
      if hd_confirm_pending st \<noteq> 0 then hybrid_combine3 desc confirm_ss kem_ss dh else hybrid_combine desc kem_ss dh)"

definition hybrid_send_half ::
    "provider \<Rightarrow> gy_hybrid_dr_state \<Rightarrow> bool \<Rightarrow> gy_hybrid_dr_state comp" where
  "hybrid_send_half L st regen =
     (let b = hd_base st; desc = dr_desc b in
      cbind (kem_encaps desc (hd_remote_ek st)) (\<lambda>(kem_ct, kem_ss).
      cbind (confirm_encaps st) (\<lambda>(confirm_ct, have_confirm, confirm_ss).
      cbind (clift (op_dh desc (kp_sk (dr_dhs b)) (dr_dhr b))) (\<lambda>dh.
      cbind (clift (send_fuse st confirm_ss kem_ss dh)) (\<lambda>hdh.
      cbind (clift (root_kdf L desc (dr_rk b) hdh)) (\<lambda>k.
        clift (Inr (st\<lparr>hd_kem_ct := kem_ct, hd_have_kem_ct := 1, hd_confirm_ct := confirm_ct,
                       hd_have_confirm_ct := have_confirm, hd_base := send_chain b k,
                       hd_send_ek_pending := (if regen then 1 else 0)\<rparr>))))))))"

definition pq_transition :: "gy_hybrid_dr_state \<Rightarrow> bool \<Rightarrow> bool \<Rightarrow> bool \<Rightarrow> gy_hybrid_dr_state" where
  "pq_transition st send_confirm recv_confirm was_confirm_sent =
     (let st1 = (if send_confirm
                 then st\<lparr>hd_send_confirm_pending := 1, hd_confirm_pending := 0, hd_pq_state := GY_HYBRID_PQ_CONFIRM_SENT\<rparr>
                 else st\<lparr>hd_send_confirm_pending := 0\<rparr>);
          st2 = (if recv_confirm
                 then st1\<lparr>hd_pq_state := GY_HYBRID_PQ_CONFIRMED,
                          hd_id_mlkem_dk := replicate (length (hd_id_mlkem_dk st1)) 0, hd_have_id_dk := 0\<rparr>
                 else st1)
      in if hd_role st2 = GY_HYBRID_ROLE_RESPONDER \<and> was_confirm_sent
         then st2\<lparr>hd_pq_state := GY_HYBRID_PQ_CONFIRMED\<rparr> else st2)"

definition hybrid_dh_ratchet ::
    "provider \<Rightarrow> gy_hybrid_dr_state \<Rightarrow> gy_dr_hybrid_header \<Rightarrow> gy_hybrid_dr_state comp" where
  "hybrid_dh_ratchet L st h =
     (let was_confirm_sent = (hd_pq_state st = GY_HYBRID_PQ_CONFIRM_SENT) in
      cbind (clift (confirm_gate st (confirm_present (hh_flags h)))) (\<lambda>recv_confirm.
      cbind (clift (hybrid_recv_half L st h recv_confirm)) (\<lambda>st1.
      cbind (hybrid_refresh L st1) (\<lambda>(st2, regen).
      cbind (hybrid_send_half L st2 regen) (\<lambda>st3.
        clift (Inr (pq_transition st3 (hd_confirm_pending st2 \<noteq> 0) recv_confirm was_confirm_sent)))))))"

subsection \<open>Encryption\<close>

definition hybrid_header_of :: "gy_hybrid_dr_state \<Rightarrow> gy_dr_hybrid_header" where
  "hybrid_header_of st =
     (let b = hd_base st in
      \<lparr>hh_flags = ucast (curve_type (dr_desc b)) OR
          (if hd_send_ek_pending st \<noteq> 0 then GY_DR_FLAG_MLKEM_EK_PRESENT else 0) OR
          (if hd_send_confirm_pending st \<noteq> 0 then GY_DR_FLAG_CONFIRM_CT_PRESENT else 0),
       hh_ratchet_pk = pub_pk (kp_pub (dr_dhs b)), hh_kem_ct = hd_kem_ct st,
       hh_pn = dr_pn b, hh_n = dr_ns b,
       hh_mlkem_ek = (if hd_send_ek_pending st \<noteq> 0 then hd_mlkem_ek st else []),
       hh_confirm_ct = (if hd_send_confirm_pending st \<noteq> 0 then hd_confirm_ct st else [])\<rparr>)"

text \<open>The chain step and the payload under its key; the step stays even when the payload fails.\<close>

definition hybrid_seal_payload ::
    "provider \<Rightarrow> gy_hybrid_dr_state \<Rightarrow> nat \<Rightarrow> bytes \<Rightarrow> bytes \<Rightarrow> bytes \<Rightarrow> bytes res \<times> gy_hybrid_dr_state" where
  "hybrid_seal_payload L st room wire pt ad =
     (let b = hd_base st; desc = dr_desc b in
      case gy_drc_kdf_ck L desc (dr_cks b) of
        Inl e \<Rightarrow> (Inl e, st)
      | Inr (mk, ckn) \<Rightarrow>
          (rbind (gy_drc_derive_aead L desc mk (dr_aead_id b) (dr_ns b)) (\<lambda>(key, nonce).
           rbind (gy_aead_encrypt L (dr_aead_id b) room key nonce (ad @ wire) pt) (\<lambda>ct.
             Inr (gy_frame_put (suite_id desc) @ wire @ ct))),
           st\<lparr>hd_base := b\<lparr>dr_cks := ckn, dr_ns := dr_ns b + 1\<rparr>\<rparr>))"

definition gy_hybrid_dr_encrypt ::
    "provider \<Rightarrow> gy_hybrid_dr_state \<Rightarrow> nat \<Rightarrow> bytes \<Rightarrow> bytes \<Rightarrow> rng
      \<Rightarrow> bytes res \<times> gy_hybrid_dr_state \<times> rng" where
  "gy_hybrid_dr_encrypt L st cap pt ad r =
     (let b = hd_base st in
      if dr_have_cks b = 0 \<or> dr_have_hks b = 0 \<or> hd_have_kem_ct st = 0 then (Inl GY_ERR_STATE, st, r)
      else if length ad > GY_HYBRID_AD_MAX then (Inl GY_ERR_ARG, st, r)
      else
        let desc = dr_desc b; taglen = gy_aead_tag_len (dr_aead_id b) in
        case gy_dr_hybrid_header_encode desc (hybrid_header_of st) GY_DR_HYBRID_HEADER_MAX of
          Inl e \<Rightarrow> (Inl e, st, r)
        | Inr hdrp \<Rightarrow>
            (let ppos = 2 + (GY_HE_SALT_LEN + 2 + (length hdrp + taglen)) in
             if cap < ppos + length pt + taglen then (Inl GY_ERR_ARG, st, r)
             else
               case gy_he_encrypt L desc (dr_aead_id b) (dr_hks b) hdrp (gy_frame_put (suite_id desc))
                      (cap - (2 + GY_HE_SALT_LEN + 2)) r of
                 (Inl e, r1) \<Rightarrow> (Inl e, st, r1)
               | (Inr (salt, enc), r1) \<Rightarrow>
                   (case hybrid_seal_payload L st (cap - ppos) (hdr_wire salt enc) pt ad of
                      (res, st1) \<Rightarrow> (res, st1, r1))))"

subsection \<open>Decryption\<close>

definition enc_header_len_ok :: "gy_suite_desc \<Rightarrow> nat \<Rightarrow> nat \<Rightarrow> bool" where
  "enc_header_len_ok desc ehl taglen \<longleftrightarrow>
     ehl = gy_dr_hybrid_header_len desc False False + taglen \<or> ehl = gy_dr_hybrid_header_len desc True False + taglen \<or>
     ehl = gy_dr_hybrid_header_len desc False True + taglen \<or> ehl = gy_dr_hybrid_header_len desc True True + taglen"

definition hybrid_parse_frame :: "gy_dr_state \<Rightarrow> bytes \<Rightarrow> dr_frame res" where
  "hybrid_parse_frame b msg =
     (let desc = dr_desc b; taglen = gy_aead_tag_len (dr_aead_id b) in
      rbind (gy_frame_check msg (suite_id desc)) (\<lambda>_.
        if length msg < 2 + GY_HE_SALT_LEN + 2 then Inl GY_ERR_ARG
        else
          let ehl = unat (gy_be16_get (drop (2 + GY_HE_SALT_LEN) msg)) in
          if \<not> enc_header_len_ok desc ehl taglen then Inl GY_ERR_ARG
          else
            let hwlen = GY_HE_SALT_LEN + 2 + ehl in
            if length msg < 2 + hwlen + taglen then Inl GY_ERR_ARG
            else Inr \<lparr>fr_salt = take GY_HE_SALT_LEN (drop 2 msg),
                      fr_enc = take ehl (drop (2 + GY_HE_SALT_LEN + 2) msg),
                      fr_payload = drop (2 + hwlen) msg,
                      fr_wire = take hwlen (drop 2 msg),
                      fr_ad2 = take 2 msg\<rparr>))"

fun hybrid_scan_epochs ::
    "provider \<Rightarrow> gy_dr_state \<Rightarrow> dr_frame \<Rightarrow> nat \<Rightarrow> gy_skip_epoch list \<Rightarrow> bool
      \<Rightarrow> bool \<times> (nat \<times> gy_dr_hybrid_header) option" where
  "hybrid_scan_epochs L b fr slot [] matched = (matched, None)"
| "hybrid_scan_epochs L b fr slot (e # es) matched =
     (if ep_refs e = 0 then hybrid_scan_epochs L b fr (Suc slot) es matched
      else case gy_he_decrypt L (dr_desc b) (dr_aead_id b) (ep_hk e) (fr_salt fr) (fr_enc fr)
                  (fr_ad2 fr) GY_DR_HYBRID_HEADER_MAX of
          Inl _ \<Rightarrow> hybrid_scan_epochs L b fr (Suc slot) es matched
        | Inr hdrp \<Rightarrow>
            (case gy_dr_hybrid_header_decode (dr_desc b) hdrp of
               Inl _ \<Rightarrow> hybrid_scan_epochs L b fr (Suc slot) es True
             | Inr (h, hdrlen) \<Rightarrow>
                 if hdrlen \<noteq> length hdrp then hybrid_scan_epochs L b fr (Suc slot) es True
                 else (True, Some (slot, h))))"

definition hybrid_try_skipped ::
    "provider \<Rightarrow> gy_dr_state \<Rightarrow> dr_frame \<Rightarrow> nat \<Rightarrow> bytes \<Rightarrow> bool \<times> (bytes \<times> gy_dr_state) option res" where
  "hybrid_try_skipped L b fr cap ad =
     (case hybrid_scan_epochs L b fr 0 (ss_epochs (dr_skipped b)) False of
        (matched, None) \<Rightarrow> (matched, Inr None)
      | (matched, Some (slot, h)) \<Rightarrow>
          (case find (\<lambda>i. sk_epoch (ss_ent (dr_skipped b) ! i) = slot \<and>
                          sk_n (ss_ent (dr_skipped b) ! i) = hh_n h)
                  [0..<length (ss_ent (dr_skipped b))] of
             None \<Rightarrow> (matched, Inr None)
           | Some i \<Rightarrow>
               (case gy_drc_derive_aead L (dr_desc b) (sk_mk (ss_ent (dr_skipped b) ! i))
                       (dr_aead_id b) (hh_n h) of
                  Inl e \<Rightarrow> (matched, Inl e)
                | Inr (key, nonce) \<Rightarrow>
                    (case gy_aead_decrypt L (dr_aead_id b) cap key nonce (ad @ fr_wire fr) (fr_payload fr) of
                       Inr pt \<Rightarrow>
                         (matched, Inr (Some (pt, b\<lparr>dr_skipped :=
                            gy_drc_store_post_success (gy_drc_store_remove (dr_skipped b) i)\<rparr>)))
                     | Inl _ \<Rightarrow> (matched, Inr None)))))"

definition hybrid_open_header :: "provider \<Rightarrow> gy_dr_state \<Rightarrow> dr_frame \<Rightarrow> bytes option" where
  "hybrid_open_header L b fr =
     (let try = (\<lambda>hk. case gy_he_decrypt L (dr_desc b) (dr_aead_id b) hk (fr_salt fr) (fr_enc fr)
                          (fr_ad2 fr) GY_DR_HYBRID_HEADER_MAX of Inr hdrp \<Rightarrow> Some hdrp | Inl _ \<Rightarrow> None);
          got = (if dr_have_hkr b \<noteq> 0 then try (dr_hkr b) else None)
      in case got of
           Some hdrp \<Rightarrow> Some hdrp
         | None \<Rightarrow> if dr_have_nhkr b \<noteq> 0 then try (dr_nhkr b) else None)"

definition on_base :: "gy_hybrid_dr_state \<Rightarrow> gy_dr_state res \<Rightarrow> gy_hybrid_dr_state res" where
  "on_base st b' = rbind b' (\<lambda>b. Inr (st\<lparr>hd_base := b\<rparr>))"

definition hybrid_new_remote :: "gy_dr_state \<Rightarrow> gy_dr_hybrid_header \<Rightarrow> bool" where
  "hybrid_new_remote b h \<longleftrightarrow> dr_have_dhr b = 0 \<or> hh_ratchet_pk h \<noteq> dr_dhr b"

definition hybrid_advance ::
    "provider \<Rightarrow> gy_hybrid_dr_state \<Rightarrow> gy_dr_hybrid_header \<Rightarrow> gy_hybrid_dr_state comp" where
  "hybrid_advance L stage h =
     (let b = hd_base stage in
      if hybrid_new_remote b h then
        (if dr_have_ckr b \<noteq> 0 \<and> (hh_pn h < dr_nr b \<or> hh_pn h - dr_nr b > of_nat GY_MAX_SKIP)
         then clift (Inl GY_ERR_STATE)
         else if hh_n h > of_nat GY_MAX_SKIP then clift (Inl GY_ERR_STATE)
         else
           cbind (clift (if dr_have_ckr b \<noteq> 0 then on_base stage (dr_skip_to L b (hh_pn h)) else Inr stage)) (\<lambda>st1.
           cbind (hybrid_dh_ratchet L st1 h) (\<lambda>st2.
             clift (on_base st2 (dr_skip_to L (hd_base st2) (hh_n h))))))
      else
        (if dr_have_ckr b = 0 then clift (Inl GY_ERR_STATE)
         else if hh_n h < dr_nr b then clift (Inl GY_ERR_VERIFY)
         else if hh_n h - dr_nr b > of_nat GY_MAX_SKIP then clift (Inl GY_ERR_STATE)
         else clift (on_base stage (dr_skip_to L b (hh_n h)))))"

definition hybrid_finish ::
    "provider \<Rightarrow> gy_dr_state \<Rightarrow> gy_dr_hybrid_header \<Rightarrow> dr_frame \<Rightarrow> nat \<Rightarrow> bytes \<Rightarrow> (bytes \<times> gy_dr_state) res" where
  "hybrid_finish L b h fr cap ad =
     rbind (gy_drc_kdf_ck L (dr_desc b) (dr_ckr b)) (\<lambda>(mk, ckn).
       let b1 = b\<lparr>dr_ckr := ckn, dr_nr := dr_nr b + 1\<rparr> in
       rbind (dr_open_payload L b1 mk (hh_n h) fr cap ad) (\<lambda>pt.
         Inr (pt, b1\<lparr>dr_skipped := gy_drc_store_post_success (dr_skipped b1)\<rparr>)))"

text \<open>From the opened header on: the state is replaced only when the payload verifies.\<close>

definition hybrid_decrypt_chain ::
    "provider \<Rightarrow> gy_hybrid_dr_state \<Rightarrow> dr_frame \<Rightarrow> nat \<Rightarrow> bytes \<Rightarrow> bytes \<Rightarrow> rng
      \<Rightarrow> (bytes res \<times> gy_hybrid_dr_state \<times> rng) option" where
  "hybrid_decrypt_chain L st fr cap ad hdrp r =
     (case gy_dr_hybrid_header_decode (dr_desc (hd_base st)) hdrp of
        Inl e \<Rightarrow> Some (Inl e, st, r)
      | Inr (h, hdrlen) \<Rightarrow>
          if hdrlen \<noteq> length hdrp then Some (Inl GY_ERR_ARG, st, r)
          else if confirm_present (hh_flags h) \<and> hd_role st = GY_HYBRID_ROLE_RESPONDER
          then Some (Inl GY_ERR_STATE, st, r)
          else
            (case hybrid_advance L st h r of
               None \<Rightarrow> None
             | Some (Inl e, r1) \<Rightarrow> Some (Inl e, st, r1)
             | Some (Inr stage, r1) \<Rightarrow>
                 (case hybrid_finish L (hd_base stage) h fr cap ad of
                    Inl e \<Rightarrow> Some (Inl e, st, r1)
                  | Inr (pt, b') \<Rightarrow> Some (Inr pt, stage\<lparr>hd_base := b'\<rparr>, r1))))"

definition gy_hybrid_dr_decrypt_assoc ::
    "provider \<Rightarrow> gy_hybrid_dr_state \<Rightarrow> nat \<Rightarrow> bytes \<Rightarrow> bytes \<Rightarrow> rng
      \<Rightarrow> (bytes res \<times> bool \<times> gy_hybrid_dr_state \<times> rng) option" where
  "gy_hybrid_dr_decrypt_assoc L st cap msg ad r =
     (if length ad > GY_HYBRID_AD_MAX then Some (Inl GY_ERR_ARG, False, st, r)
      else case hybrid_parse_frame (hd_base st) msg of
          Inl e \<Rightarrow> Some (Inl e, False, st, r)
        | Inr fr \<Rightarrow>
            (case hybrid_try_skipped L (hd_base st) fr cap ad of
               (matched, Inl e) \<Rightarrow> Some (Inl e, matched, st, r)
             | (matched, Inr (Some (pt, b'))) \<Rightarrow> Some (Inr pt, matched, st\<lparr>hd_base := b'\<rparr>, r)
             | (matched, Inr None) \<Rightarrow>
                 (case hybrid_open_header L (hd_base st) fr of
                    None \<Rightarrow> Some (Inl GY_ERR_VERIFY, matched, st, r)
                  | Some hdrp \<Rightarrow>
                      map_option (\<lambda>(rc, st', r'). (rc, True, st', r')) (hybrid_decrypt_chain L st fr cap ad hdrp r))))"

definition gy_hybrid_dr_decrypt ::
    "provider \<Rightarrow> gy_hybrid_dr_state \<Rightarrow> nat \<Rightarrow> bytes \<Rightarrow> bytes \<Rightarrow> rng
      \<Rightarrow> (bytes res \<times> gy_hybrid_dr_state \<times> rng) option" where
  "gy_hybrid_dr_decrypt L st cap msg ad r =
     map_option (\<lambda>(rc, _, st', r'). (rc, st', r')) (gy_hybrid_dr_decrypt_assoc L st cap msg ad r)"

definition gy_hybrid_dr_pq_state :: "gy_hybrid_dr_state \<Rightarrow> u8" where
  "gy_hybrid_dr_pq_state st = hd_pq_state st"

subsection \<open>What the parts of a step leave alone\<close>

text \<open>The fields that only the confirmation machinery writes.\<close>

definition pq_view :: "gy_hybrid_dr_state \<Rightarrow> u8 \<times> u8 \<times> bytes \<times> u8 \<times> u8 \<times> u8" where
  "pq_view st = (hd_role st, hd_pq_state st, hd_id_mlkem_dk st, hd_confirm_pending st, hd_send_confirm_pending st,
     hd_have_id_dk st)"

lemma recv_half_ok:
  assumes "hybrid_recv_half L st h c = Inr st'"
  obtains rek kem_ss dh hdh k where "remote_ek_of st h = Inr rek"
    "the (op_kem_decap (dr_desc (hd_base st))) (hh_kem_ct h) (hd_mlkem_dk st) = Inr kem_ss"
    "op_dh (dr_desc (hd_base st)) (kp_sk (dr_dhs (hd_base st))) (hh_ratchet_pk h) = Inr dh"
    "recv_fuse st h c kem_ss dh = Inr hdh" "root_kdf L (dr_desc (hd_base st)) (dr_rk (hd_base st)) hdh = Inr k"
    "st' = st\<lparr>hd_remote_ek := rek, hd_have_remote_ek := 1, hd_base := recv_chain (hd_base st) (hh_ratchet_pk h) k\<rparr>"
  using assms by (auto simp: hybrid_recv_half_def Let_def rbind_eq_Inr_iff)

lemma refresh_ok:
  assumes "hybrid_refresh L st r = Some (Inr (st', regen), r')"
  obtains ek dk r1 dhs where "regen \<longleftrightarrow> hd_mlkem_interval st \<le> hd_mlkem_counter st + 1"
    "if regen then gen_kem_keypair (dr_desc (hd_base st)) r = Some (Inr (ek, dk), r1)
     else r1 = r \<and> ek = hd_mlkem_ek st \<and> dk = hd_mlkem_dk st"
    "gen_curve_keypair L (dr_desc (hd_base st)) r1 = Some (Inr dhs, r')"
    "st' = st\<lparr>hd_mlkem_ek := ek, hd_mlkem_dk := dk, hd_mlkem_counter := (if regen then 0 else hd_mlkem_counter st + 1),
       hd_base := (hd_base st)\<lparr>dr_dhs := dhs\<rparr>\<rparr>"
  using assms by (auto simp: hybrid_refresh_def Let_def cbind_eq_Some_Inr_iff split: if_splits)

lemma send_half_ok:
  assumes "hybrid_send_half L st regen r = Some (Inr st', r')"
  obtains kem_ct kem_ss r1 cct hcc css dh hdh k where
    "kem_encaps (dr_desc (hd_base st)) (hd_remote_ek st) r = Some (Inr (kem_ct, kem_ss), r1)"
    "confirm_encaps st r1 = Some (Inr (cct, hcc, css), r')"
    "op_dh (dr_desc (hd_base st)) (kp_sk (dr_dhs (hd_base st))) (dr_dhr (hd_base st)) = Inr dh"
    "send_fuse st css kem_ss dh = Inr hdh" "root_kdf L (dr_desc (hd_base st)) (dr_rk (hd_base st)) hdh = Inr k"
    "st' = st\<lparr>hd_kem_ct := kem_ct, hd_have_kem_ct := 1, hd_confirm_ct := cct, hd_have_confirm_ct := hcc,
       hd_base := send_chain (hd_base st) k, hd_send_ek_pending := (if regen then 1 else 0)\<rparr>"
  using assms by (auto simp: hybrid_send_half_def Let_def cbind_eq_Some_Inr_iff)

lemma chain_frames [simp]:
  "dr_desc (recv_chain b pk k) = dr_desc b" "dr_aead_id (recv_chain b pk k) = dr_aead_id b"
  "dr_desc (send_chain b k) = dr_desc b" "dr_aead_id (send_chain b k) = dr_aead_id b"
  by (simp_all add: recv_chain_def send_chain_def)

lemma recv_half_frame:
  assumes "hybrid_recv_half L st h c = Inr st'"
  shows "pq_view st' = pq_view st" "hd_mlkem_counter st' = hd_mlkem_counter st"
    "hd_mlkem_interval st' = hd_mlkem_interval st" "dr_desc (hd_base st') = dr_desc (hd_base st)"
    "dr_aead_id (hd_base st') = dr_aead_id (hd_base st)" "hd_have_remote_ek st' \<noteq> 0"
  by (rule recv_half_ok [OF assms], simp add: pq_view_def)+

lemma refresh_frame:
  assumes "hybrid_refresh L st r = Some (Inr (st', regen), r')"
  shows "pq_view st' = pq_view st" "hd_mlkem_interval st' = hd_mlkem_interval st"
    "dr_desc (hd_base st') = dr_desc (hd_base st)" "dr_aead_id (hd_base st') = dr_aead_id (hd_base st)"
    "hd_have_remote_ek st' = hd_have_remote_ek st"
    "hd_mlkem_counter st' = (if regen then 0 else hd_mlkem_counter st + 1)"
    "regen \<longleftrightarrow> hd_mlkem_interval st \<le> hd_mlkem_counter st + 1"
  by (rule refresh_ok [OF assms], simp add: pq_view_def)+

lemma send_half_frame:
  assumes "hybrid_send_half L st regen r = Some (Inr st', r')"
  shows "pq_view st' = pq_view st" "hd_mlkem_interval st' = hd_mlkem_interval st" "hd_have_kem_ct st' \<noteq> 0"
    "dr_desc (hd_base st') = dr_desc (hd_base st)" "dr_aead_id (hd_base st') = dr_aead_id (hd_base st)"
    "hd_have_remote_ek st' = hd_have_remote_ek st" "hd_mlkem_counter st' = hd_mlkem_counter st"
    "hd_send_ek_pending st' = (if regen then 1 else 0)"
  by (rule send_half_ok [OF assms], simp add: pq_view_def)+

lemma pq_transition_frame [simp]:
  "hd_base (pq_transition st a b c) = hd_base st" "hd_mlkem_counter (pq_transition st a b c) = hd_mlkem_counter st"
  "hd_mlkem_interval (pq_transition st a b c) = hd_mlkem_interval st"
  "hd_have_kem_ct (pq_transition st a b c) = hd_have_kem_ct st"
  "hd_have_remote_ek (pq_transition st a b c) = hd_have_remote_ek st" "hd_role (pq_transition st a b c) = hd_role st"
  by (simp_all add: pq_transition_def Let_def)

lemma hybrid_dh_ratchet_ok:
  assumes "hybrid_dh_ratchet L st h r = Some (Inr st', r')"
  obtains recv_confirm st1 st2 regen r1 st3 where
    "confirm_gate st (confirm_present (hh_flags h)) = Inr recv_confirm"
    "hybrid_recv_half L st h recv_confirm = Inr st1" "hybrid_refresh L st1 r = Some (Inr (st2, regen), r1)"
    "hybrid_send_half L st2 regen r1 = Some (Inr st3, r')"
    "st' = pq_transition st3 (hd_confirm_pending st \<noteq> 0) recv_confirm (hd_pq_state st = GY_HYBRID_PQ_CONFIRM_SENT)"
proof -
  obtain rc st1 st2 regen r1 st3 where p:
    "confirm_gate st (confirm_present (hh_flags h)) = Inr rc"
    "hybrid_recv_half L st h rc = Inr st1" "hybrid_refresh L st1 r = Some (Inr (st2, regen), r1)"
    "hybrid_send_half L st2 regen r1 = Some (Inr st3, r')"
    "st' = pq_transition st3 (hd_confirm_pending st2 \<noteq> 0) rc (hd_pq_state st = GY_HYBRID_PQ_CONFIRM_SENT)"
    using assms by (auto simp: hybrid_dh_ratchet_def Let_def cbind_eq_Some_Inr_iff)
  have "hd_confirm_pending st2 = hd_confirm_pending st"
    using recv_half_frame(1) [OF p(2)] refresh_frame(1) [OF p(3)] by (simp add: pq_view_def)
  then show thesis using that p by auto
qed

subsection \<open>Invariant\<close>

text \<open>
  The confirmation state: an initiator holds its decapsulation key exactly until it is confirmed,
  and the erased key is all zero; a responder owes the confirmation exactly in the first state and
  carries it in its headers exactly in the second.
\<close>

definition pq_inv :: "gy_hybrid_dr_state \<Rightarrow> bool" where
  "pq_inv st \<longleftrightarrow>
     (if hd_role st = GY_HYBRID_ROLE_RESPONDER then
        (hd_pq_state st = GY_HYBRID_PQ_CLASSICAL_ONLY \<longleftrightarrow> hd_confirm_pending st \<noteq> 0) \<and>
        (hd_pq_state st = GY_HYBRID_PQ_CONFIRM_SENT \<longleftrightarrow> hd_send_confirm_pending st \<noteq> 0) \<and>
        hd_pq_state st \<in> {GY_HYBRID_PQ_CLASSICAL_ONLY, GY_HYBRID_PQ_CONFIRM_SENT, GY_HYBRID_PQ_CONFIRMED}
      else
        hd_confirm_pending st = 0 \<and> hd_send_confirm_pending st = 0 \<and>
        hd_pq_state st \<in> {GY_HYBRID_PQ_CLASSICAL_ONLY, GY_HYBRID_PQ_CONFIRMED} \<and>
        (hd_pq_state st = GY_HYBRID_PQ_CLASSICAL_ONLY \<longleftrightarrow> hd_have_id_dk st \<noteq> 0) \<and>
        (hd_have_id_dk st = 0 \<longrightarrow> set (hd_id_mlkem_dk st) \<subseteq> {0}))"

definition hd_inv :: "gy_hybrid_dr_state \<Rightarrow> bool" where
  "hd_inv st \<longleftrightarrow> dr_inv (hd_base st) \<and> pq_inv st \<and> hd_mlkem_interval st \<noteq> 0 \<and>
     hd_mlkem_counter st \<le> hd_mlkem_interval st \<and>
     (dr_have_cks (hd_base st) \<noteq> 0 \<longrightarrow> hd_have_kem_ct st \<noteq> 0 \<and> hd_have_remote_ek st \<noteq> 0)"

text \<open>The only ways the confirmation state moves.\<close>

definition pq_move :: "u8 \<Rightarrow> u8 \<Rightarrow> u8 \<Rightarrow> bool" where
  "pq_move role a b \<longleftrightarrow> a = b \<or>
     (if role = GY_HYBRID_ROLE_RESPONDER
      then (a, b) \<in> {(GY_HYBRID_PQ_CLASSICAL_ONLY, GY_HYBRID_PQ_CONFIRM_SENT),
                     (GY_HYBRID_PQ_CONFIRM_SENT, GY_HYBRID_PQ_CONFIRMED)}
      else (a, b) = (GY_HYBRID_PQ_CLASSICAL_ONLY, GY_HYBRID_PQ_CONFIRMED))"

lemma pq_inv_view: "pq_view st = pq_view st' \<Longrightarrow> pq_inv st = pq_inv st'"
  by (simp add: pq_view_def pq_inv_def)

lemma confirm_gate_cases:
  assumes "confirm_gate st c = Inr rc"
  shows "rc = c" "rc \<longrightarrow> hd_role st \<noteq> GY_HYBRID_ROLE_RESPONDER \<and> hd_pq_state st = GY_HYBRID_PQ_CLASSICAL_ONLY"
    "hd_role st \<noteq> GY_HYBRID_ROLE_RESPONDER \<and> hd_pq_state st = GY_HYBRID_PQ_CLASSICAL_ONLY \<longrightarrow> rc"
  using assms by (auto simp: confirm_gate_def split: if_splits)

lemma pq_transition_inv:
  assumes "pq_inv st" "confirm_gate st c = Inr rc" "pq_view st3 = pq_view st"
    and "st' = pq_transition st3 (hd_confirm_pending st \<noteq> 0) rc (hd_pq_state st = GY_HYBRID_PQ_CONFIRM_SENT)"
  shows "pq_inv st'" "pq_move (hd_role st) (hd_pq_state st) (hd_pq_state st')"
    "hd_pq_state st' \<noteq> GY_HYBRID_PQ_CLASSICAL_ONLY"
proof -
  have v: "hd_role st3 = hd_role st" "hd_pq_state st3 = hd_pq_state st" "hd_id_mlkem_dk st3 = hd_id_mlkem_dk st"
      "hd_confirm_pending st3 = hd_confirm_pending st" "hd_send_confirm_pending st3 = hd_send_confirm_pending st"
      "hd_have_id_dk st3 = hd_have_id_dk st"
    using assms(3) by (simp_all add: pq_view_def)
  note g = confirm_gate_cases [OF assms(2)]
  show "pq_inv st'" "pq_move (hd_role st) (hd_pq_state st) (hd_pq_state st')" "hd_pq_state st' \<noteq> GY_HYBRID_PQ_CLASSICAL_ONLY"
    using assms(1) g(2,3) unfolding assms(4) pq_inv_def pq_move_def pq_transition_def Let_def
    by (cases "hd_role st = GY_HYBRID_ROLE_RESPONDER"; cases rc; auto simp: v pq_const_defs)+
qed

lemma recv_half_inv:
  assumes "live_suite L (dr_desc (hd_base st))" "dr_inv (hd_base st)"
    and "length (hh_ratchet_pk h) = curve_pk_len (dr_desc (hd_base st))" "hybrid_recv_half L st h c = Inr st'"
  shows "dr_inv (hd_base st')"
proof -
  obtain rek hdh k where k: "root_kdf L (dr_desc (hd_base st)) (dr_rk (hd_base st)) hdh = Inr k"
      "st' = st\<lparr>hd_remote_ek := rek, hd_have_remote_ek := 1, hd_base := recv_chain (hd_base st) (hh_ratchet_pk h) k\<rparr>"
    by (rule recv_half_ok [OF assms(4)])
  obtain a b c where "k = (a, b, c)" by (cases k)
  with kdf_rk_len [OF assms(1)] k(1) have "length a = 32 \<and> length b = 32 \<and> length c = 32" by (auto simp: root_kdf_def)
  then show ?thesis using assms(2,3) \<open>k = (a, b, c)\<close> by (simp add: k(2) recv_chain_def dr_inv_def)
qed

lemma refresh_inv:
  assumes "dr_inv (hd_base st)" "hybrid_refresh L st r = Some (Inr (st', regen), r')"
  shows "dr_inv (hd_base st')"
  by (rule refresh_ok [OF assms(2)]) (use assms(1) in \<open>simp add: dr_inv_def\<close>)

lemma send_half_inv:
  assumes "live_suite L (dr_desc (hd_base st))" "dr_inv (hd_base st)" "hybrid_send_half L st regen r = Some (Inr st', r')"
  shows "dr_inv (hd_base st')"
proof -
  obtain kem_ct cct hcc hdh k where k: "root_kdf L (dr_desc (hd_base st)) (dr_rk (hd_base st)) hdh = Inr k"
      "st' = st\<lparr>hd_kem_ct := kem_ct, hd_have_kem_ct := 1, hd_confirm_ct := cct, hd_have_confirm_ct := hcc,
       hd_base := send_chain (hd_base st) k, hd_send_ek_pending := (if regen then 1 else 0)\<rparr>"
    by (rule send_half_ok [OF assms(3)])
  obtain a b c where "k = (a, b, c)" by (cases k)
  with kdf_rk_len [OF assms(1)] k(1) have "length a = 32 \<and> length b = 32 \<and> length c = 32" by (auto simp: root_kdf_def)
  then show ?thesis using assms(2) \<open>k = (a, b, c)\<close> by (simp add: k(2) send_chain_def dr_inv_def)
qed

lemma hybrid_ratchet_inv:
  assumes "live_suite L (dr_desc (hd_base st))" "hd_inv st"
    and "length (hh_ratchet_pk h) = curve_pk_len (dr_desc (hd_base st))"
    and "hybrid_dh_ratchet L st h r = Some (Inr st', r')"
  shows "hd_inv st'" "dr_desc (hd_base st') = dr_desc (hd_base st)" "dr_aead_id (hd_base st') = dr_aead_id (hd_base st)"
    "hd_role st' = hd_role st" "pq_move (hd_role st) (hd_pq_state st) (hd_pq_state st')"
    "hd_pq_state st' \<noteq> GY_HYBRID_PQ_CLASSICAL_ONLY"
    "hd_role st \<noteq> GY_HYBRID_ROLE_RESPONDER \<and> hd_pq_state st = GY_HYBRID_PQ_CLASSICAL_ONLY \<longrightarrow> confirm_present (hh_flags h)"
proof -
  obtain rc st1 st2 regen r1 st3 where p:
    "confirm_gate st (confirm_present (hh_flags h)) = Inr rc"
    "hybrid_recv_half L st h rc = Inr st1" "hybrid_refresh L st1 r = Some (Inr (st2, regen), r1)"
    "hybrid_send_half L st2 regen r1 = Some (Inr st3, r')"
    "st' = pq_transition st3 (hd_confirm_pending st \<noteq> 0) rc (hd_pq_state st = GY_HYBRID_PQ_CONFIRM_SENT)"
    by (rule hybrid_dh_ratchet_ok [OF assms(4)])
  note f = recv_half_frame [OF p(2)] refresh_frame [OF p(3)] send_half_frame [OF p(4)]
  have view: "pq_view st3 = pq_view st" using f by simp
  have pinv: "pq_inv st" and dinv: "dr_inv (hd_base st)" using assms(2) by (simp_all add: hd_inv_def)
  note t = pq_transition_inv [OF pinv p(1) view p(5)]
  have d1: "dr_inv (hd_base st1)" by (rule recv_half_inv [OF assms(1) dinv assms(3) p(2)])
  have d2: "dr_inv (hd_base st2)" by (rule refresh_inv [OF d1 p(3)])
  have d3: "dr_inv (hd_base st3)" by (rule send_half_inv [OF _ d2 p(4)]) (use f assms(1) in simp)
  have role: "hd_role st3 = hd_role st" using view by (simp add: pq_view_def)
  have cnt: "hd_mlkem_counter st3 \<le> hd_mlkem_interval st3"
  proof -
    have "hd_mlkem_counter st3 = (if hd_mlkem_interval st \<le> hd_mlkem_counter st + 1 then 0 else hd_mlkem_counter st + 1)"
        "hd_mlkem_interval st3 = hd_mlkem_interval st"
      using f by simp_all
    then show ?thesis by (auto simp: not_le less_imp_le)
  qed
  show "hd_inv st'"
    using t(1) d3 cnt f assms(2) by (simp add: hd_inv_def p(5))
  show "dr_desc (hd_base st') = dr_desc (hd_base st)" "dr_aead_id (hd_base st') = dr_aead_id (hd_base st)"
    using f by (simp_all add: p(5))
  show "hd_role st' = hd_role st" using role by (simp add: p(5))
  show "pq_move (hd_role st) (hd_pq_state st) (hd_pq_state st')" "hd_pq_state st' \<noteq> GY_HYBRID_PQ_CLASSICAL_ONLY"
    using t(2,3) by simp_all
  show "hd_role st \<noteq> GY_HYBRID_ROLE_RESPONDER \<and> hd_pq_state st = GY_HYBRID_PQ_CLASSICAL_ONLY \<longrightarrow> confirm_present (hh_flags h)"
    using confirm_gate_cases [OF p(1)] by blast
qed

lemma on_base_ok: "on_base st b = Inr st' \<longleftrightarrow> (\<exists>b'. b = Inr b' \<and> st' = st\<lparr>hd_base := b'\<rparr>)"
  by (auto simp: on_base_def rbind_eq_Inr_iff)

lemma base_update_inv:
  assumes "hd_inv st" "dr_inv b" "dr_have_cks b = dr_have_cks (hd_base st)"
  shows "hd_inv (st\<lparr>hd_base := b\<rparr>)"
proof -
  have "pq_inv (st\<lparr>hd_base := b\<rparr>) = pq_inv st" by (rule pq_inv_view) (simp add: pq_view_def)
  then show ?thesis using assms by (simp add: hd_inv_def)
qed

lemma skip_to_keeps: "dr_skip_to L st n = Inr st' \<Longrightarrow> dr_have_cks st' = dr_have_cks st"
  by (auto simp: dr_skip_to_def split: prod.splits sum.splits)

lemma on_base_skip_inv:
  assumes "live_suite L (dr_desc (hd_base st))" "hd_inv st" "on_base st (dr_skip_to L (hd_base st) n) = Inr st'"
  shows "hd_inv st'" "dr_desc (hd_base st') = dr_desc (hd_base st)" "dr_aead_id (hd_base st') = dr_aead_id (hd_base st)"
    "pq_view st' = pq_view st"
proof -
  obtain b where b: "dr_skip_to L (hd_base st) n = Inr b" "st' = st\<lparr>hd_base := b\<rparr>" using assms(3) by (auto simp: on_base_ok)
  have "dr_inv (hd_base st)" using assms(2) by (simp add: hd_inv_def)
  from dr_skip_to_inv [OF assms(1) this b(1)] dr_skip_to_frame [OF b(1)] skip_to_keeps [OF b(1)]
  show "hd_inv st'" "dr_desc (hd_base st') = dr_desc (hd_base st)" "dr_aead_id (hd_base st') = dr_aead_id (hd_base st)"
    "pq_view st' = pq_view st"
    using base_update_inv [OF assms(2)] by (simp_all add: b(2) pq_view_def)
qed

text \<open>An accepted header advances the chain or takes one ratchet step between two advances.\<close>

lemma hybrid_advance_cases:
  assumes "hybrid_advance L st h r = Some (Inr st', r')"
  obtains "\<not> hybrid_new_remote (hd_base st) h" "r' = r" "on_base st (dr_skip_to L (hd_base st) (hh_n h)) = Inr st'"
  | st1 st2 where "hybrid_new_remote (hd_base st) h"
      "(if dr_have_ckr (hd_base st) \<noteq> 0 then on_base st (dr_skip_to L (hd_base st) (hh_pn h)) else Inr st) = Inr st1"
      "hybrid_dh_ratchet L st1 h r = Some (Inr st2, r')" "on_base st2 (dr_skip_to L (hd_base st2) (hh_n h)) = Inr st'"
  using assms by (auto simp: hybrid_advance_def Let_def cbind_eq_Some_Inr_iff split: if_splits)

lemma hybrid_advance_inv:
  assumes "live_suite L (dr_desc (hd_base st))" "hd_inv st"
    and "length (hh_ratchet_pk h) = curve_pk_len (dr_desc (hd_base st))"
    and "hybrid_advance L st h r = Some (Inr st', r')"
  shows "hd_inv st' \<and> dr_desc (hd_base st') = dr_desc (hd_base st) \<and> dr_aead_id (hd_base st') = dr_aead_id (hd_base st) \<and>
     hd_role st' = hd_role st \<and> pq_move (hd_role st) (hd_pq_state st) (hd_pq_state st') \<and>
     (hd_role st \<noteq> GY_HYBRID_ROLE_RESPONDER \<and> hd_pq_state st \<noteq> hd_pq_state st' \<longrightarrow> confirm_present (hh_flags h))"
  using assms(4)
proof (cases rule: hybrid_advance_cases)
  case 1
  from on_base_skip_inv [OF assms(1,2) 1(3)] show ?thesis by (auto simp: pq_view_def pq_move_def)
next
  case (2 st1 st2)
  have 1: "hd_inv st1" "dr_desc (hd_base st1) = dr_desc (hd_base st)" "dr_aead_id (hd_base st1) = dr_aead_id (hd_base st)"
      "pq_view st1 = pq_view st"
    using 2(2) on_base_skip_inv [OF assms(1,2)] assms(2) by (auto split: if_splits)
  note r = hybrid_ratchet_inv [OF _ 1(1) _ 2(3)]
  have l: "live_suite L (dr_desc (hd_base st1))" "length (hh_ratchet_pk h) = curve_pk_len (dr_desc (hd_base st1))"
    using assms(1,3) 1(2) by simp_all
  have "live_suite L (dr_desc (hd_base st2))" using r(2) [OF l] l(1) by simp
  note k = on_base_skip_inv [OF this r(1) [OF l] 2(4)]
  have m: "pq_move (hd_role st1) (hd_pq_state st1) (hd_pq_state st2)" by (rule r(5) [OF l])
  have c: "hd_role st1 \<noteq> GY_HYBRID_ROLE_RESPONDER \<and> hd_pq_state st1 = GY_HYBRID_PQ_CLASSICAL_ONLY \<longrightarrow> confirm_present (hh_flags h)"
    by (rule r(7) [OF l])
  show ?thesis
    using k r(2-4) [OF l] 1 m c by (auto simp: pq_view_def pq_move_def split: if_splits)
qed

lemma hybrid_finish_inv:
  assumes "live_suite L (dr_desc b)" "dr_inv b" "hybrid_finish L b h fr cap ad = Inr (pt, b')"
  shows "dr_inv b' \<and> dr_have_cks b' = dr_have_cks b"
  using assms(3) kdf_ck_len [OF assms(1)] assms(2) post_success_inv_abs(1) [of "dr_skipped b"]
  by (auto simp: hybrid_finish_def Let_def rbind_eq_Inr_iff dr_inv_def)

lemma hybrid_try_skipped_ok:
  assumes "hybrid_try_skipped L b fr cap ad = (m, Inr (Some (pt, b')))"
  obtains i where "i < length (ss_ent (dr_skipped b))"
    "b' = b\<lparr>dr_skipped := gy_drc_store_post_success (gy_drc_store_remove (dr_skipped b) i)\<rparr>"
    "dr_open_payload L b (sk_mk (ss_ent (dr_skipped b) ! i)) (sk_n (ss_ent (dr_skipped b) ! i)) fr cap ad = Inr pt"
proof -
  let ?e = "ss_ent (dr_skipped b)"
  obtain m' slot h where s: "hybrid_scan_epochs L b fr 0 (ss_epochs (dr_skipped b)) False = (m', Some (slot, h))"
    using assms by (auto simp: hybrid_try_skipped_def split: prod.splits option.splits)
  obtain i where i: "find (\<lambda>i. sk_epoch (?e ! i) = slot \<and> sk_n (?e ! i) = hh_n h) [0..<length ?e] = Some i"
    using assms s by (auto simp: hybrid_try_skipped_def split: option.splits)
  obtain key nonce where f: "gy_drc_derive_aead L (dr_desc b) (sk_mk (?e ! i)) (dr_aead_id b) (hh_n h) = Inr (key, nonce)"
    "gy_aead_decrypt L (dr_aead_id b) cap key nonce (ad @ fr_wire fr) (fr_payload fr) = Inr pt"
    "b' = b\<lparr>dr_skipped := gy_drc_store_post_success (gy_drc_store_remove (dr_skipped b) i)\<rparr>"
    using assms s i by (auto simp: hybrid_try_skipped_def split: sum.splits)
  have "i < length (ss_ent (dr_skipped b))" "sk_n (ss_ent (dr_skipped b) ! i) = hh_n h"
    using i by (auto simp: find_Some_iff)
  then show thesis using that [OF _ f(3)] f(1,2) by (simp add: dr_open_payload_def)
qed

lemma hybrid_chain_cases:
  assumes "hybrid_decrypt_chain L st fr cap ad hdrp r = Some (res, st', r')"
  obtains e where "res = Inl e" "st' = st"
  | h stage pt b' where "res = Inr pt" "gy_dr_hybrid_header_decode (dr_desc (hd_base st)) hdrp = Inr (h, length hdrp)"
      "\<not> (confirm_present (hh_flags h) \<and> hd_role st = GY_HYBRID_ROLE_RESPONDER)"
      "hybrid_advance L st h r = Some (Inr stage, r')" "hybrid_finish L (hd_base stage) h fr cap ad = Inr (pt, b')"
      "st' = stage\<lparr>hd_base := b'\<rparr>"
  using assms
  by (auto simp: hybrid_decrypt_chain_def split: if_splits sum.splits option.splits prod.splits)

lemma hybrid_decrypt_cases:
  assumes "gy_hybrid_dr_decrypt_assoc L st cap msg ad r = Some (res, m, st', r')"
  obtains e where "res = Inl e" "st' = st"
  | fr m' pt b' where "res = Inr pt" "hybrid_parse_frame (hd_base st) msg = Inr fr" "r' = r"
      "hybrid_try_skipped L (hd_base st) fr cap ad = (m', Inr (Some (pt, b')))" "st' = st\<lparr>hd_base := b'\<rparr>"
  | fr hdrp h stage pt b' where "res = Inr pt" "hybrid_parse_frame (hd_base st) msg = Inr fr"
      "hybrid_open_header L (hd_base st) fr = Some hdrp"
      "gy_dr_hybrid_header_decode (dr_desc (hd_base st)) hdrp = Inr (h, length hdrp)"
      "\<not> (confirm_present (hh_flags h) \<and> hd_role st = GY_HYBRID_ROLE_RESPONDER)"
      "hybrid_advance L st h r = Some (Inr stage, r')" "hybrid_finish L (hd_base stage) h fr cap ad = Inr (pt, b')"
      "st' = stage\<lparr>hd_base := b'\<rparr>"
proof -
  note d = assms [unfolded gy_hybrid_dr_decrypt_assoc_def]
  consider (early) e where "length ad > GY_HYBRID_AD_MAX \<or> hybrid_parse_frame (hd_base st) msg = Inl e"
    | (framed) fr where "\<not> length ad > GY_HYBRID_AD_MAX" "hybrid_parse_frame (hd_base st) msg = Inr fr"
    by (cases "hybrid_parse_frame (hd_base st) msg") auto
  then show thesis
  proof cases
    case early
    then show ?thesis using d that(1) by (auto split: if_splits sum.splits)
  next
    case framed
    obtain m0 x where t: "hybrid_try_skipped L (hd_base st) fr cap ad = (m0, x)" by fastforce
    note d' = d [unfolded if_not_P [OF framed(1)] framed(2) sum.case t prod.case]
    show ?thesis
    proof (cases x)
      case (Inl e)
      then show ?thesis using d' by (intro that(1)) auto
    next
      case x: (Inr y)
      show ?thesis
      proof (cases y)
        case (Some z)
        obtain pt b' where z: "z = (pt, b')" by fastforce
        show ?thesis using d' t framed(2) by (intro that(2) [of pt fr m0 b']) (simp_all add: x Some z)
      next
        case None
        show ?thesis
        proof (cases "hybrid_open_header L (hd_base st) fr")
          case h: None
          show ?thesis using d' that(1) by (auto simp: x None h)
        next
          case h: (Some hdrp)
          have "hybrid_decrypt_chain L st fr cap ad hdrp r = Some (res, st', r')"
            using d' by (auto simp: x None h)
          then show ?thesis by (cases rule: hybrid_chain_cases) (use that(1,3) framed(2) h in blast)+
        qed
      qed
    qed
  qed
qed

subsection \<open>Steps\<close>

text \<open>A session state moves by encrypting or by decrypting, whatever the outcome of the call.\<close>

inductive hd_step :: "provider \<Rightarrow> gy_hybrid_dr_state \<Rightarrow> gy_hybrid_dr_state \<Rightarrow> bool" for L where
  encrypt: "gy_hybrid_dr_encrypt L st cap pt ad r = (res, st', r') \<Longrightarrow> hd_step L st st'"
| decrypt: "gy_hybrid_dr_decrypt_assoc L st cap msg ad r = Some (res, m, st', r') \<Longrightarrow> hd_step L st st'"

inductive_cases hd_stepE: "hd_step L st st'"

text \<open>The states a session can start from.\<close>

inductive hd_start :: "provider \<Rightarrow> gy_hybrid_dr_state \<Rightarrow> bool" for L where
  alice: "gy_hybrid_dr_init_alice L desc aead sec spk iv dk r = Some (Inr st, r') \<Longrightarrow> live_suite L desc \<Longrightarrow>
    secrets_wf sec \<Longrightarrow> length (pub_pk (hp_curve spk)) = curve_pk_len desc \<Longrightarrow> hd_start L st"
| bob: "gy_hybrid_dr_init_bob desc aead sec spkp iv ek = Inr st \<Longrightarrow> live_suite L desc \<Longrightarrow> secrets_wf sec \<Longrightarrow> hd_start L st"

lemma init_bob_inv:
  assumes "gy_hybrid_dr_init_bob desc aead sec spkp iv ek = Inr st" "secrets_wf sec"
  shows "hd_inv st" "dr_desc (hd_base st) = desc" "hd_role st = GY_HYBRID_ROLE_RESPONDER"
    "hd_pq_state st = GY_HYBRID_PQ_CLASSICAL_ONLY"
  using assms
  by (auto simp: gy_hybrid_dr_init_bob_def hd_inv_def pq_inv_def dr_inv_def hd_zero_def dr_zero_def store_inv_empty secrets_wf_def
      GY_DR_SECRET_LEN_def GY_DR_KEY_LEN_def pq_const_defs not_less split: if_splits)

lemma init_alice_cases:
  assumes "gy_hybrid_dr_init_alice L desc aead sec spk iv dk r = Some (Inr st, r')"
  obtains dhs ek mdk kem_ct kem_ss dh hdh rk cks nhks r1 r2 where
    "is_hybrid desc" "\<not> iv < 1" "gen_curve_keypair L desc r = Some (Inr dhs, r1)"
    "gen_kem_keypair desc r1 = Some (Inr (ek, mdk), r2)" "kem_encaps desc (hp_mlkem_ek spk) r2 = Some (Inr (kem_ct, kem_ss), r')"
    "op_dh desc (kp_sk dhs) (pub_pk (hp_curve spk)) = Inr dh" "hybrid_combine desc kem_ss dh = Inr hdh"
    "root_kdf L desc (sd_sk_dr sec) hdh = Inr (rk, cks, nhks)"
    "st = (hd_zero desc aead)
      \<lparr>hd_remote_ek := hp_mlkem_ek spk, hd_have_remote_ek := 1, hd_mlkem_interval := iv,
       hd_role := GY_HYBRID_ROLE_INITIATOR, hd_pq_state := GY_HYBRID_PQ_CLASSICAL_ONLY, hd_id_mlkem_dk := dk, hd_have_id_dk := 1,
       hd_base := (dr_zero desc aead)
         \<lparr>dr_dhr := pub_pk (hp_curve spk), dr_have_dhr := 1, dr_hks := sd_shared_hka sec, dr_nhkr := sd_shared_nhkb sec,
          dr_have_hks := 1, dr_have_nhkr := 1, dr_dhs := dhs, dr_rk := rk, dr_cks := cks, dr_nhks := nhks,
          dr_have_cks := 1, dr_have_nhks := 1\<rparr>,
       hd_mlkem_ek := ek, hd_mlkem_dk := mdk, hd_send_ek_pending := 1, hd_kem_ct := kem_ct, hd_have_kem_ct := 1\<rparr>"
  using assms
  by (auto simp: gy_hybrid_dr_init_alice_def Let_def cbind_eq_Some_Inr_iff split: if_splits)

lemma init_alice_inv:
  assumes "gy_hybrid_dr_init_alice L desc aead sec spk iv dk r = Some (Inr st, r')" "live_suite L desc" "secrets_wf sec"
    "length (pub_pk (hp_curve spk)) = curve_pk_len desc"
  shows "hd_inv st \<and> dr_desc (hd_base st) = desc"
proof -
  obtain dhs ek mdk kem_ct hdh rk cks nhks where i: "\<not> iv < 1" "root_kdf L desc (sd_sk_dr sec) hdh = Inr (rk, cks, nhks)"
    "st = (hd_zero desc aead)
      \<lparr>hd_remote_ek := hp_mlkem_ek spk, hd_have_remote_ek := 1, hd_mlkem_interval := iv,
       hd_role := GY_HYBRID_ROLE_INITIATOR, hd_pq_state := GY_HYBRID_PQ_CLASSICAL_ONLY, hd_id_mlkem_dk := dk, hd_have_id_dk := 1,
       hd_base := (dr_zero desc aead)
         \<lparr>dr_dhr := pub_pk (hp_curve spk), dr_have_dhr := 1, dr_hks := sd_shared_hka sec, dr_nhkr := sd_shared_nhkb sec,
          dr_have_hks := 1, dr_have_nhkr := 1, dr_dhs := dhs, dr_rk := rk, dr_cks := cks, dr_nhks := nhks,
          dr_have_cks := 1, dr_have_nhks := 1\<rparr>,
       hd_mlkem_ek := ek, hd_mlkem_dk := mdk, hd_send_ek_pending := 1, hd_kem_ct := kem_ct, hd_have_kem_ct := 1\<rparr>"
    by (rule init_alice_cases [OF assms(1)])
  have "length rk = 32 \<and> length cks = 32 \<and> length nhks = 32" using kdf_rk_len [OF assms(2)] i(2) by (auto simp: root_kdf_def)
  then show ?thesis
    using assms(3,4) i(1)
    by (simp add: i(3) hd_inv_def pq_inv_def dr_inv_def hd_zero_def dr_zero_def store_inv_empty secrets_wf_def
        GY_DR_SECRET_LEN_def GY_DR_KEY_LEN_def pq_const_defs not_less)
qed

lemma hybrid_seal_payload_state:
  "hybrid_seal_payload L st room wire pt ad = (res, st') \<Longrightarrow> st' = st \<or>
     (\<exists>mk ckn. gy_drc_kdf_ck L (dr_desc (hd_base st)) (dr_cks (hd_base st)) = Inr (mk, ckn) \<and>
        st' = st\<lparr>hd_base := (hd_base st)\<lparr>dr_cks := ckn, dr_ns := dr_ns (hd_base st) + 1\<rparr>\<rparr>)"
  by (auto simp: hybrid_seal_payload_def Let_def split: sum.splits prod.splits)

lemma hybrid_encrypt_state:
  "gy_hybrid_dr_encrypt L st cap pt ad r = (res, st', r') \<Longrightarrow> st' = st \<or>
     (\<exists>room wire. hybrid_seal_payload L st room wire pt ad = (res, st'))"
  by (auto simp: gy_hybrid_dr_encrypt_def Let_def split: if_splits sum.splits prod.splits)

lemma encrypt_keeps:
  assumes "live_suite L (dr_desc (hd_base st))" "hd_inv st" "gy_hybrid_dr_encrypt L st cap pt ad r = (res, st', r')"
  shows "hd_inv st'" "pq_view st' = pq_view st" "dr_desc (hd_base st') = dr_desc (hd_base st)"
proof -
  consider "st' = st" | mk ckn where "gy_drc_kdf_ck L (dr_desc (hd_base st)) (dr_cks (hd_base st)) = Inr (mk, ckn)"
      "st' = st\<lparr>hd_base := (hd_base st)\<lparr>dr_cks := ckn, dr_ns := dr_ns (hd_base st) + 1\<rparr>\<rparr>"
    using hybrid_encrypt_state [OF assms(3)] hybrid_seal_payload_state by metis
  then have "hd_inv st' \<and> pq_view st' = pq_view st \<and> dr_desc (hd_base st') = dr_desc (hd_base st)"
  proof cases
    case 1
    then show ?thesis using assms(2) by simp
  next
    case (2 mk ckn)
    have "dr_inv ((hd_base st)\<lparr>dr_cks := ckn, dr_ns := dr_ns (hd_base st) + 1\<rparr>)"
      using assms(2) kdf_ck_len [OF assms(1) 2(1)] by (simp add: hd_inv_def dr_inv_def)
    from base_update_inv [OF assms(2) this] show ?thesis by (simp add: 2(2) pq_view_def)
  qed
  then show "hd_inv st'" "pq_view st' = pq_view st" "dr_desc (hd_base st') = dr_desc (hd_base st)" by simp_all
qed

lemma decrypt_keeps:
  assumes "live_suite L (dr_desc (hd_base st))" "hd_inv st" "gy_hybrid_dr_decrypt_assoc L st cap msg ad r = Some (res, m, st', r')"
  shows "hd_inv st' \<and> dr_desc (hd_base st') = dr_desc (hd_base st) \<and> hd_role st' = hd_role st \<and>
     pq_move (hd_role st) (hd_pq_state st) (hd_pq_state st') \<and> (hd_pq_state st' \<noteq> hd_pq_state st \<longrightarrow> (\<exists>pt. res = Inr pt))"
  using assms(3)
proof (cases rule: hybrid_decrypt_cases)
  case (1 e)
  then show ?thesis using assms(2) by (simp add: pq_move_def)
next
  case (2 fr m' pt b')
  obtain i where i: "i < length (ss_ent (dr_skipped (hd_base st)))"
      "b' = (hd_base st)\<lparr>dr_skipped := gy_drc_store_post_success (gy_drc_store_remove (dr_skipped (hd_base st)) i)\<rparr>"
    by (rule hybrid_try_skipped_ok [OF 2(4)])
  have "dr_inv b'" using assms(2) skipq.consume_inv [of "dr_skipped (hd_base st)" i] i(1) by (simp add: i(2) hd_inv_def dr_inv_def)
  then show ?thesis using base_update_inv [OF assms(2)] 2(5) by (simp add: i(2) pq_move_def)
next
  case (3 fr hdrp h stage pt b')
  have "length (hh_ratchet_pk h) = curve_pk_len (dr_desc (hd_base st))"
    using hybrid_header_decode_wf(1) [OF 3(4)] by (simp add: hybrid_header_wf_def)
  note a = hybrid_advance_inv [OF assms(1,2) this 3(6)]
  then have d: "dr_inv (hd_base stage)" "live_suite L (dr_desc (hd_base stage))" using assms(1) by (simp_all add: hd_inv_def)
  have "dr_desc b' = dr_desc (hd_base stage)"
    using 3(7) by (auto simp: hybrid_finish_def Let_def rbind_eq_Inr_iff)
  then show ?thesis
    using a hybrid_finish_inv [OF d(2,1) 3(7)] base_update_inv [of stage b'] 3(1,8) by simp
qed

lemma hd_reachable:
  assumes "(hd_step L)\<^sup>*\<^sup>* st0 st" "hd_start L st0"
  shows "hd_inv st \<and> live_suite L (dr_desc (hd_base st)) \<and> hd_role st = hd_role st0"
  using assms
proof (induction rule: rtranclp_induct)
  case base
  then show ?case by (cases rule: hd_start.cases) (use init_alice_inv init_bob_inv in auto)
next
  case (step st st')
  then have i: "hd_inv st" "live_suite L (dr_desc (hd_base st))" "hd_role st = hd_role st0" by simp_all
  from step(2) show ?case
    by (cases rule: hd_stepE) (use encrypt_keeps [OF i(2,1)] decrypt_keeps [OF i(2,1)] i in \<open>auto simp: pq_view_def\<close>)
qed

subsection \<open>Properties\<close>

text \<open>
  C16. The confirmation state machine. In every state a hybrid session reaches, an initiator holds
  its identity decapsulation key exactly until it is confirmed and afterwards the key is erased; a
  responder owes the confirmation exactly before its first sending chain and carries it exactly
  during that chain; the ML-KEM refresh counter stays within the interval. A further step moves the
  state along CLASSICAL-ONLY, CONFIRM-SENT, CONFIRMED for the responder and CLASSICAL-ONLY, CONFIRMED
  for the initiator, never back, and never changes the role.
\<close>

theorem hybrid_pq_machine:
  assumes "hd_start L st0" "(hd_step L)\<^sup>*\<^sup>* st0 st" "hd_step L st st'"
  shows "hd_inv st \<and> hd_inv st' \<and> hd_role st' = hd_role st0 \<and> pq_move (hd_role st0) (hd_pq_state st) (hd_pq_state st')"
proof -
  have i: "hd_inv st" "live_suite L (dr_desc (hd_base st))" "hd_role st = hd_role st0"
    using hd_reachable [OF assms(2,1)] by simp_all
  have "hd_inv st' \<and> hd_role st' = hd_role st" using hd_reachable [OF rtranclp.rtrancl_into_rtrancl [OF assms(2,3)] assms(1)] i(3) by simp
  moreover from assms(3) have "pq_move (hd_role st) (hd_pq_state st) (hd_pq_state st')"
  proof (cases rule: hd_step.cases)
    case (encrypt cap pt ad r res r')
    from encrypt_keeps(2) [OF i(2,1) this] show ?thesis by (simp add: pq_view_def pq_move_def)
  next
    case (decrypt cap msg ad r res m r')
    from decrypt_keeps [OF i(2,1) this] show ?thesis by simp
  qed
  ultimately show ?thesis using i by simp
qed

text \<open>
  Commit after verify, for the hybrid ratchet. A decryption that reports an error leaves the
  whole state (keys, ML-KEM keys, counters, confirmation state) as it was. One that succeeds opened
  the payload under the key of a stored entry, or under the key of the staged chain; and the
  confirmation state moves only in a call that returned a plaintext.
\<close>

lemma hybrid_commit_after_verify:
  assumes "gy_hybrid_dr_decrypt_assoc L st cap msg ad r = Some (res, m, st', r')"
  shows "case res of
      Inl e \<Rightarrow> st' = st
    | Inr pt \<Rightarrow> (\<exists>fr. hybrid_parse_frame (hd_base st) msg = Inr fr \<and>
        ((\<exists>e \<in> set (ss_ent (dr_skipped (hd_base st))).
            dr_open_payload L (hd_base st) (sk_mk e) (sk_n e) fr cap ad = Inr pt \<and> pq_view st' = pq_view st) \<or>
         (\<exists>h stage mk ckn. hybrid_advance L st h r = Some (Inr stage, r') \<and>
            gy_drc_kdf_ck L (dr_desc (hd_base stage)) (dr_ckr (hd_base stage)) = Inr (mk, ckn) \<and>
            dr_open_payload L (hd_base stage) mk (hh_n h) fr cap ad = Inr pt \<and> pq_view st' = pq_view stage)))"
  using assms
proof (cases rule: hybrid_decrypt_cases)
  case (1 e)
  then show ?thesis by simp
next
  case (2 fr m' pt b')
  obtain i where "i < length (ss_ent (dr_skipped (hd_base st)))"
    "dr_open_payload L (hd_base st) (sk_mk (ss_ent (dr_skipped (hd_base st)) ! i)) (sk_n (ss_ent (dr_skipped (hd_base st)) ! i)) fr cap ad = Inr pt"
    by (rule hybrid_try_skipped_ok [OF 2(4)])
  then have "\<exists>e \<in> set (ss_ent (dr_skipped (hd_base st))). dr_open_payload L (hd_base st) (sk_mk e) (sk_n e) fr cap ad = Inr pt"
    using nth_mem by blast
  moreover have "pq_view st' = pq_view st" by (simp add: 2(5) pq_view_def)
  ultimately show ?thesis using 2(1,2) by auto
next
  case (3 fr hdrp h stage pt b')
  obtain mk ckn where k: "gy_drc_kdf_ck L (dr_desc (hd_base stage)) (dr_ckr (hd_base stage)) = Inr (mk, ckn)"
      "dr_open_payload L ((hd_base stage)\<lparr>dr_ckr := ckn, dr_nr := dr_nr (hd_base stage) + 1\<rparr>) mk (hh_n h) fr cap ad = Inr pt"
    using 3(7) by (auto simp: hybrid_finish_def Let_def rbind_eq_Inr_iff)
  then have "dr_open_payload L (hd_base stage) mk (hh_n h) fr cap ad = Inr pt" by (simp add: dr_open_payload_def)
  moreover have "pq_view st' = pq_view stage" by (simp add: 3(8) pq_view_def)
  ultimately show ?thesis using 3(2,6) k(1) unfolding 3(1) sum.case by blast
qed

end
