(* ===== verification/GY_HybridSync.thy ===== *)
theory GY_HybridSync
  imports GY_HybridRatchet
begin

text \<open>
  The two ends of a hybrid session. \<open>hd_turn_sync\<close> relates a sender to a receiver that has not seen
  the sender's current ratchet keys: the classical relation, the ML-KEM ratchet (whose public key
  each end holds of the other, and that the receiver can decapsulate) and the phase of the KEM
  confirmation. A message of a new epoch is delivered and the relation holds in the other direction
  afterwards; so the confirmation, carried by the responder's first chain, completes.
\<close>

subsection \<open>Headers of a state\<close>

lemma bit_flags:
  "bit (ucast (ct :: u8) :: u32) n \<longleftrightarrow> n < 8 \<and> bit ct n"
  by (auto simp: bit_unsigned_iff dest: bit_imp_le_length)

lemma flag_bits:
  "bit GY_DR_FLAG_MLKEM_EK_PRESENT n \<longleftrightarrow> n = 8" "bit GY_DR_FLAG_CONFIRM_CT_PRESENT n \<longleftrightarrow> n = 9"
  unfolding GY_DR_FLAG_MLKEM_EK_PRESENT_def GY_DR_FLAG_CONFIRM_CT_PRESENT_def push_bit_of_1 bit_exp_iff by auto

lemma header_flags:
  "ek_present (hh_flags (hybrid_header_of st)) \<longleftrightarrow> hd_send_ek_pending st \<noteq> 0"
  "confirm_present (hh_flags (hybrid_header_of st)) \<longleftrightarrow> hd_send_confirm_pending st \<noteq> 0"
  "hh_flags (hybrid_header_of st) AND GY_DR_FLAG_CURVE_MASK = ucast (curve_type (dr_desc (hd_base st)))"
  "hh_flags (hybrid_header_of st) AND GY_DR_FLAG_RESERVED_MASK = 0"
proof -
  let ?f = "hh_flags (hybrid_header_of st)"
  have b: "bit ?f n \<longleftrightarrow> (n < 8 \<and> bit (curve_type (dr_desc (hd_base st))) n) \<or> (n = 8 \<and> hd_send_ek_pending st \<noteq> 0) \<or>
      (n = 9 \<and> hd_send_confirm_pending st \<noteq> 0)" for n
    by (auto simp: hybrid_header_of_def Let_def bit_or_iff bit_flags flag_bits)
  show "ek_present ?f \<longleftrightarrow> hd_send_ek_pending st \<noteq> 0"
    using and_bit_zero_iff [of ?f 8] b [of 8] by (simp add: ek_present_def dr_flag_defs)
  show "confirm_present ?f \<longleftrightarrow> hd_send_confirm_pending st \<noteq> 0"
    using and_bit_zero_iff [of ?f 9] b [of 9] by (simp add: confirm_present_def dr_flag_defs)
  show "?f AND GY_DR_FLAG_CURVE_MASK = ucast (curve_type (dr_desc (hd_base st)))"
    unfolding flag_masks_as_masks by (rule bit_word_eqI) (auto simp: bit_and_iff bit_mask_iff bit_flags b)
  show "?f AND GY_DR_FLAG_RESERVED_MASK = 0"
    unfolding flag_masks_as_masks by (rule bit_word_eqI) (auto simp: bit_and_iff bit_mask_iff bit_not_iff b)
qed

lemma header_fields:
  "hh_ratchet_pk (hybrid_header_of st) = pub_pk (kp_pub (dr_dhs (hd_base st)))"
  "hh_kem_ct (hybrid_header_of st) = hd_kem_ct st" "hh_pn (hybrid_header_of st) = dr_pn (hd_base st)"
  "hh_n (hybrid_header_of st) = dr_ns (hd_base st)"
  "hh_mlkem_ek (hybrid_header_of st) = (if hd_send_ek_pending st \<noteq> 0 then hd_mlkem_ek st else [])"
  "hh_confirm_ct (hybrid_header_of st) = (if hd_send_confirm_pending st \<noteq> 0 then hd_confirm_ct st else [])"
  by (simp_all add: hybrid_header_of_def Let_def)

lemma hybrid_header_of_wf:
  assumes "length (pub_pk (kp_pub (dr_dhs (hd_base st)))) = curve_pk_len (dr_desc (hd_base st))"
    "length (hd_kem_ct st) = kem_ct_len (dr_desc (hd_base st))"
    "hd_send_ek_pending st \<noteq> 0 \<longrightarrow> length (hd_mlkem_ek st) = kem_pk_len (dr_desc (hd_base st))"
    "hd_send_confirm_pending st \<noteq> 0 \<longrightarrow> length (hd_confirm_ct st) = kem_ct_len (dr_desc (hd_base st))"
  shows "hybrid_header_wf (dr_desc (hd_base st)) (hybrid_header_of st)"
  using assms by (simp add: hybrid_header_wf_def header_flags header_fields)

lemma suite_kem_pair_len:
  assumes "live_suite L d" "is_hybrid d" "kem_lengths L" "kem_pair_of d ek dk"
  shows "length ek = kem_pk_len d"
proof -
  have k: "length ek = fst (kem_sizes alg)" if "gy_mlkem_keypair L alg r = (Inr (ek, dk), r')" for alg r r'
  proof -
    have "OQS_KEM_keypair L alg r = (Some (ek, dk), r')"
      using that by (auto simp: gy_mlkem_keypair_def split: prod.splits option.splits)
    then show ?thesis using assms(3) unfolding kem_lengths_def by blast
  qed
  have "gy_suite_desc L (suite_id d) = Some d" using assms(1) by (simp add: live_suite_def)
  then show ?thesis
    by (cases rule: suite_desc_cases)
      (use assms(2,4) k [of ML_KEM_512] k [of ML_KEM_1024] in \<open>auto simp: kem_pair_of_def suite_row_defs\<close>)
qed

subsection \<open>Encryption\<close>

lemma hybrid_parse_frame_wire:
  assumes "suite_id (dr_desc b) = sid" "length salt = 16" "gy_aead_tag_len (dr_aead_id b) \<le> length ct"
    and "length enc = gy_dr_hybrid_header_len (dr_desc b) e c + gy_aead_tag_len (dr_aead_id b)" "length enc < 2 ^ 16"
  shows "hybrid_parse_frame b (gy_frame_put sid @ hdr_wire salt enc @ ct) =
     Inr \<lparr>fr_salt = salt, fr_enc = enc, fr_payload = ct, fr_wire = hdr_wire salt enc, fr_ad2 = gy_frame_put sid\<rparr>"
proof -
  have u: "unat (of_nat (length enc) :: u16) = length enc" using assms(5) by (simp add: unat_of_nat)
  let ?m = "gy_frame_put sid @ hdr_wire salt enc @ ct"
  have d18: "drop 18 ?m = gy_be16_put (of_nat (length enc)) @ enc @ ct"
    using assms(2) by (simp add: hdr_wire_def)
  have d20: "drop 20 ?m = enc @ ct" using assms(2) by (simp add: hdr_wire_def)
  have dh: "drop (2 + (18 + length enc)) ?m = ct" using assms(2) by (simp add: hdr_wire_def)
  have lw: "length (hdr_wire salt enc) = 18 + length enc" using assms(2) by (simp add: hdr_wire_def)
  have s: "take 16 (hdr_wire salt enc @ ct) = salt" using assms(2) by (simp add: hdr_wire_def)
  have t: "take (18 + length enc) (hdr_wire salt enc @ ct) = hdr_wire salt enc" using lw by simp
  have c: "gy_frame_check ?m (suite_id (dr_desc b)) = Inr ()" using assms(1) by simp
  have ok: "enc_header_len_ok (dr_desc b) (length enc) (gy_aead_tag_len (dr_aead_id b))"
    using assms(4) by (cases e; cases c) (simp_all add: enc_header_len_ok_def)
  show ?thesis
    unfolding hybrid_parse_frame_def using assms(3) ok d18 d20 dh s t u lw
    by (simp add: Let_def GY_HE_SALT_LEN_def c)
qed

lemma hybrid_encrypt_ok:
  assumes "gy_hybrid_dr_encrypt L A cap pt ad r = (Inr msg, A', r')"
  obtains hdrp salt enc mk ckn key nonce ct room where
    "gy_dr_hybrid_header_encode (dr_desc (hd_base A)) (hybrid_header_of A) GY_DR_HYBRID_HEADER_MAX = Inr hdrp"
    "gy_he_encrypt L (dr_desc (hd_base A)) (dr_aead_id (hd_base A)) (dr_hks (hd_base A)) hdrp
       (gy_frame_put (suite_id (dr_desc (hd_base A)))) (cap - (2 + GY_HE_SALT_LEN + 2)) r = (Inr (salt, enc), r')"
    "gy_drc_kdf_ck L (dr_desc (hd_base A)) (dr_cks (hd_base A)) = Inr (mk, ckn)"
    "gy_drc_derive_aead L (dr_desc (hd_base A)) mk (dr_aead_id (hd_base A)) (dr_ns (hd_base A)) = Inr (key, nonce)"
    "gy_aead_encrypt L (dr_aead_id (hd_base A)) room key nonce (ad @ hdr_wire salt enc) pt = Inr ct"
    "msg = gy_frame_put (suite_id (dr_desc (hd_base A))) @ hdr_wire salt enc @ ct"
    "A' = A\<lparr>hd_base := (hd_base A)\<lparr>dr_cks := ckn, dr_ns := dr_ns (hd_base A) + 1\<rparr>\<rparr>" "length ad \<le> GY_HYBRID_AD_MAX"
proof -
  obtain hdrp salt enc room where h:
    "gy_dr_hybrid_header_encode (dr_desc (hd_base A)) (hybrid_header_of A) GY_DR_HYBRID_HEADER_MAX = Inr hdrp"
    "gy_he_encrypt L (dr_desc (hd_base A)) (dr_aead_id (hd_base A)) (dr_hks (hd_base A)) hdrp
       (gy_frame_put (suite_id (dr_desc (hd_base A)))) (cap - (2 + GY_HE_SALT_LEN + 2)) r = (Inr (salt, enc), r')"
    "hybrid_seal_payload L A room (hdr_wire salt enc) pt ad = (Inr msg, A')" "length ad \<le> GY_HYBRID_AD_MAX"
    using assms by (auto simp: gy_hybrid_dr_encrypt_def Let_def split: if_splits sum.splits prod.splits)
  obtain mk ckn key nonce ct where k: "gy_drc_kdf_ck L (dr_desc (hd_base A)) (dr_cks (hd_base A)) = Inr (mk, ckn)"
    "gy_drc_derive_aead L (dr_desc (hd_base A)) mk (dr_aead_id (hd_base A)) (dr_ns (hd_base A)) = Inr (key, nonce)"
    "gy_aead_encrypt L (dr_aead_id (hd_base A)) room key nonce (ad @ hdr_wire salt enc) pt = Inr ct"
    "msg = gy_frame_put (suite_id (dr_desc (hd_base A))) @ hdr_wire salt enc @ ct"
    "A' = A\<lparr>hd_base := (hd_base A)\<lparr>dr_cks := ckn, dr_ns := dr_ns (hd_base A) + 1\<rparr>\<rparr>"
    using h(3) by (auto simp: hybrid_seal_payload_def Let_def rbind_eq_Inr_iff split: sum.splits)
  show thesis by (rule that [OF h(1,2) k h(4)])
qed

lemma hybrid_encrypt_receive:
  assumes prov: "hash_lengths L" "aead_lengths L" "aead_correct L" and live: "live_suite L (dr_desc (hd_base A))"
    and hy: "is_hybrid (dr_desc (hd_base A))" and wf: "hybrid_header_wf (dr_desc (hd_base A)) (hybrid_header_of A)"
    and enc: "gy_hybrid_dr_encrypt L A cap pt ad r = (Inr msg, A', r')" and rcv: "dr_receiver_of (hd_base A) b"
  obtains fr hdrp mk ckn where
    "hybrid_parse_frame b msg = Inr fr"
    "gy_he_decrypt L (dr_desc b) (dr_aead_id b) (dr_hks (hd_base A)) (fr_salt fr) (fr_enc fr) (fr_ad2 fr)
       GY_DR_HYBRID_HEADER_MAX = Inr hdrp"
    "gy_dr_hybrid_header_decode (dr_desc b) hdrp = Inr (hybrid_header_of A, length hdrp)"
    "gy_drc_kdf_ck L (dr_desc b) (dr_cks (hd_base A)) = Inr (mk, ckn)"
    "A' = A\<lparr>hd_base := (hd_base A)\<lparr>dr_cks := ckn, dr_ns := dr_ns (hd_base A) + 1\<rparr>\<rparr>" "length ad \<le> GY_HYBRID_AD_MAX"
    "\<forall>cap' st. length pt \<le> cap' \<longrightarrow> dr_desc st = dr_desc b \<longrightarrow> dr_aead_id st = dr_aead_id b \<longrightarrow>
       dr_open_payload L st mk (dr_ns (hd_base A)) fr cap' ad = Inr pt"
proof -
  let ?d = "dr_desc (hd_base A)" and ?t = "gy_aead_tag_len (dr_aead_id (hd_base A))"
  obtain hdrp salt enc mk ckn key nonce ct room where e:
    "gy_dr_hybrid_header_encode ?d (hybrid_header_of A) GY_DR_HYBRID_HEADER_MAX = Inr hdrp"
    "gy_he_encrypt L ?d (dr_aead_id (hd_base A)) (dr_hks (hd_base A)) hdrp
       (gy_frame_put (suite_id ?d)) (cap - (2 + GY_HE_SALT_LEN + 2)) r = (Inr (salt, enc), r')"
    "gy_drc_kdf_ck L ?d (dr_cks (hd_base A)) = Inr (mk, ckn)"
    "gy_drc_derive_aead L ?d mk (dr_aead_id (hd_base A)) (dr_ns (hd_base A)) = Inr (key, nonce)"
    "gy_aead_encrypt L (dr_aead_id (hd_base A)) room key nonce (ad @ hdr_wire salt enc) pt = Inr ct"
    "msg = gy_frame_put (suite_id ?d) @ hdr_wire salt enc @ ct"
    "A' = A\<lparr>hd_base := (hd_base A)\<lparr>dr_cks := ckn, dr_ns := dr_ns (hd_base A) + 1\<rparr>\<rparr>" "length ad \<le> GY_HYBRID_AD_MAX"
    by (rule hybrid_encrypt_ok [OF enc])
  have B: "dr_desc b = ?d" "dr_aead_id b = dr_aead_id (hd_base A)" using rcv by (simp_all add: dr_receiver_of_def)
  note lh = hybrid_header_encode_len [OF wf e(1) hy]
  have lm: "length hdrp \<le> GY_DR_HYBRID_HEADER_MAX"
    using lh suite_kem_bounds [OF live] hy by (simp add: gy_dr_hybrid_header_len_def GY_DR_HYBRID_HEADER_MAX_def)
  note le = he_encrypt_len [OF prov(1,2) e(2)]
  have lc: "length ct = length pt + ?t" using aead_encrypt_len [OF prov(2) e(5)] by simp
  have small: "length enc < 2 ^ 16"
  proof -
    have "length enc \<le> GY_DR_HYBRID_HEADER_MAX + 32" using le(2) lm aead_len_bounds(2) [of "dr_aead_id (hd_base A)"] by linarith
    then show ?thesis by (simp add: GY_DR_HYBRID_HEADER_MAX_def)
  qed
  let ?fr = "\<lparr>fr_salt = salt, fr_enc = enc, fr_payload = ct, fr_wire = hdr_wire salt enc, fr_ad2 = gy_frame_put (suite_id ?d)\<rparr>"
  show thesis
  proof (rule that [of ?fr hdrp mk ckn])
    show "hybrid_parse_frame b msg = Inr ?fr"
      unfolding e(6)
      by (rule hybrid_parse_frame_wire [of b _ salt ct enc "ek_present (hh_flags (hybrid_header_of A))"
          "confirm_present (hh_flags (hybrid_header_of A))"]) (use B le lh lc small in simp_all)
    show "gy_he_decrypt L (dr_desc b) (dr_aead_id b) (dr_hks (hd_base A)) (fr_salt ?fr) (fr_enc ?fr)
        (fr_ad2 ?fr) GY_DR_HYBRID_HEADER_MAX = Inr hdrp"
      using B lm he_decrypt_encrypt [OF prov(2,3) e(2)] by simp
    show "gy_dr_hybrid_header_decode (dr_desc b) hdrp = Inr (hybrid_header_of A, length hdrp)"
      using hybrid_header_decode_encode_append [OF wf e(1), of "[]"] B by simp
    show "\<forall>cap' st. length pt \<le> cap' \<longrightarrow> dr_desc st = dr_desc b \<longrightarrow> dr_aead_id st = dr_aead_id b \<longrightarrow>
        dr_open_payload L st mk (dr_ns (hd_base A)) ?fr cap' ad = Inr pt"
      using e(4) aead_decrypt_encrypt [OF prov(2,3) e(5)] B by (simp add: dr_open_payload_def)
  qed (use e B in simp_all)
qed

lemma hybrid_encrypt_succeeds:
  assumes "live_suite L (dr_desc (hd_base st))" "is_hybrid (dr_desc (hd_base st))" "aead_total L" "aead_lengths L"
    and "gy_aead_available L (dr_aead_id (hd_base st))" "dr_have_cks (hd_base st) \<noteq> 0" "dr_have_hks (hd_base st) \<noteq> 0"
    and "hd_have_kem_ct st \<noteq> 0" "length ad \<le> GY_HYBRID_AD_MAX"
    and wf: "hybrid_header_wf (dr_desc (hd_base st)) (hybrid_header_of st)"
    and size: "length pt + GY_DR_HYBRID_HEADER_MAX + 200 \<le> SIZE_MAX" "length pt + GY_DR_HYBRID_HEADER_MAX + 200 \<le> cap"
  shows "\<exists>msg st' r'. gy_hybrid_dr_encrypt L st cap pt ad r = (Inr msg, st', r')"
proof -
  let ?b = "hd_base st" and ?d = "dr_desc (hd_base st)"
  let ?t = "gy_aead_tag_len (dr_aead_id ?b)"
  have p: "aead_prim_of (dr_aead_id ?b) \<noteq> None" by (rule aead_available_prim [OF assms(5)])
  have t: "?t \<le> 32" by (rule aead_len_bounds)
  have "4 + curve_pk_len ?d + kem_ct_len ?d + 4 + 4 + kem_pk_len ?d + kem_ct_len ?d \<le> GY_DR_HYBRID_HEADER_MAX"
    using suite_kem_bounds [OF assms(1)] by (simp add: GY_DR_HYBRID_HEADER_MAX_def)
  then obtain hdrp where h: "gy_dr_hybrid_header_encode ?d (hybrid_header_of st) GY_DR_HYBRID_HEADER_MAX = Inr hdrp"
    by (fastforce simp: gy_dr_hybrid_header_encode_def Let_def)
  have lh: "length hdrp \<le> GY_DR_HYBRID_HEADER_MAX"
    using hybrid_header_encode_len [OF wf h assms(2)] suite_kem_bounds [OF assms(1)] assms(2)
    by (simp add: gy_dr_hybrid_header_len_def GY_DR_HYBRID_HEADER_MAX_def)
  have salt: "GY_HE_SALT_LEN = 16" by (simp add: GY_HE_SALT_LEN_def)
  let ?room = "cap - (2 + (GY_HE_SALT_LEN + 2 + (length hdrp + ?t)))"
  have a: "length hdrp \<le> SIZE_MAX - ?t" "length hdrp + ?t \<le> cap - (2 + GY_HE_SALT_LEN + 2)"
      "length pt \<le> SIZE_MAX - ?t" "length pt + ?t \<le> ?room"
      "\<not> cap < 2 + (GY_HE_SALT_LEN + 2 + (length hdrp + ?t)) + length pt + ?t"
    using lh t size unfolding salt by linarith+
  obtain sl enc where e: "gy_he_encrypt L ?d (dr_aead_id ?b) (dr_hks ?b) hdrp
      (gy_frame_put (suite_id ?d)) (cap - (2 + GY_HE_SALT_LEN + 2)) r = (Inr (sl, enc), Suc r)"
    using he_encrypt_succeeds [OF assms(1,3,5) a(1,2)] by blast
  obtain mk ckn where k: "gy_drc_kdf_ck L ?d (dr_cks ?b) = Inr (mk, ckn)" using kdf_ck_total [OF assms(1)] by blast
  obtain key nonce where n: "gy_drc_derive_aead L ?d mk (dr_aead_id ?b) (dr_ns ?b) = Inr (key, nonce)"
      "length nonce = gy_aead_nonce_len (dr_aead_id ?b)"
    using derive_aead_total [OF assms(1) p] by blast
  obtain ct where "gy_aead_encrypt L (dr_aead_id ?b) ?room key nonce (ad @ hdr_wire sl enc) pt = Inr ct"
    using aead_encrypt_succeeds [OF assms(3,5) n(2) a(3,4)] by blast
  then have "\<exists>msg st'. hybrid_seal_payload L st ?room (hdr_wire sl enc) pt ad = (Inr msg, st')"
    using k n(1) by (simp add: hybrid_seal_payload_def Let_def)
  then show ?thesis using assms(6-9) h e a(5) by (auto simp: gy_hybrid_dr_encrypt_def Let_def)
qed

subsection \<open>Header trials\<close>

definition hd_opens :: "provider \<Rightarrow> gy_dr_state \<Rightarrow> dr_frame \<Rightarrow> bytes \<Rightarrow> bool" where
  "hd_opens L b fr hk \<longleftrightarrow>
     (\<exists>hdrp. gy_he_decrypt L (dr_desc b) (dr_aead_id b) hk (fr_salt fr) (fr_enc fr) (fr_ad2 fr)
        GY_DR_HYBRID_HEADER_MAX = Inr hdrp)"

definition hd_no_stray :: "provider \<Rightarrow> gy_dr_state \<Rightarrow> bytes \<Rightarrow> bool" where
  "hd_no_stray L b msg \<longleftrightarrow>
     (\<forall>fr. hybrid_parse_frame b msg = Inr fr \<longrightarrow>
        list_all (\<lambda>x. \<not> hd_opens L b fr (fst x)) (store_abs (dr_skipped b)) \<and>
        (dr_have_hkr b \<noteq> 0 \<longrightarrow> \<not> hd_opens L b fr (dr_hkr b)))"

lemma hybrid_scan_none:
  assumes "list_all (\<lambda>e. ep_refs e = 0 \<or> \<not> hd_opens L b fr (ep_hk e)) es"
  shows "hybrid_scan_epochs L b fr slot es m = (m, None)"
  using assms
proof (induction es arbitrary: slot)
  case Nil
  then show ?case by simp
next
  case (Cons e es)
  then show ?case by (auto simp: hd_opens_def split: sum.splits)
qed

lemma hybrid_try_skipped_passes:
  assumes "store_inv (dr_skipped b)" "hd_no_stray L b msg" "hybrid_parse_frame b msg = Inr fr"
  shows "hybrid_try_skipped L b fr cap ad = (False, Inr None)"
proof -
  have "ep_refs e = 0 \<or> \<not> hd_opens L b fr (ep_hk e)" if m: "e \<in> set (ss_epochs (dr_skipped b))" for e
  proof (cases "ep_refs e = 0")
    case False
    obtain i where i: "i < GY_MAX_SKIP" "e = ss_epochs (dr_skipped b) ! i"
      using m unfolding in_set_conv_nth store_inv_length [OF assms(1)] by blast
    then obtain x where "x \<in> set (store_abs (dr_skipped b))" "fst x = ep_hk e"
      using live_epoch_item [OF assms(1)] False by blast
    then show ?thesis using assms(2,3) by (auto simp: hd_no_stray_def list_all_iff)
  qed simp
  then have "hybrid_scan_epochs L b fr 0 (ss_epochs (dr_skipped b)) False = (False, None)"
    by (intro hybrid_scan_none) (simp add: list_all_iff)
  then show ?thesis by (simp add: hybrid_try_skipped_def)
qed

subsection \<open>The confirmation phase\<close>

definition pq_sync :: "gy_suite_desc \<Rightarrow> gy_hybrid_dr_state \<Rightarrow> gy_hybrid_dr_state \<Rightarrow> bool" where
  "pq_sync d S R \<longleftrightarrow> pq_inv S \<and> pq_inv R \<and>
     (if hd_role S = GY_HYBRID_ROLE_RESPONDER
      then hd_role R \<noteq> GY_HYBRID_ROLE_RESPONDER \<and>
        (hd_pq_state S, hd_pq_state R) \<in>
          {(GY_HYBRID_PQ_CONFIRM_SENT, GY_HYBRID_PQ_CLASSICAL_ONLY), (GY_HYBRID_PQ_CONFIRMED, GY_HYBRID_PQ_CONFIRMED)}
      else hd_role R = GY_HYBRID_ROLE_RESPONDER \<and>
        (hd_pq_state S, hd_pq_state R) \<in>
          {(GY_HYBRID_PQ_CLASSICAL_ONLY, GY_HYBRID_PQ_CLASSICAL_ONLY), (GY_HYBRID_PQ_CONFIRMED, GY_HYBRID_PQ_CONFIRM_SENT),
           (GY_HYBRID_PQ_CONFIRMED, GY_HYBRID_PQ_CONFIRMED)} \<and>
        (hd_pq_state S = GY_HYBRID_PQ_CLASSICAL_ONLY \<longrightarrow> kem_pair_of d (hd_id_mlkem_ek R) (hd_id_mlkem_dk S)))"

lemma pq_sync_base: "pq_sync d (S\<lparr>hd_base := b\<rparr>) R = pq_sync d S R"
proof -
  have "pq_inv (S\<lparr>hd_base := b\<rparr>) = pq_inv S" by (rule pq_inv_view) (simp add: pq_view_def)
  then show ?thesis unfolding pq_sync_def by simp
qed

lemma pq_sync_gate:
  assumes "pq_sync d S R"
  shows "confirm_gate R (hd_send_confirm_pending S \<noteq> 0) = Inr (hd_send_confirm_pending S \<noteq> 0)"
    "hd_confirm_pending R \<noteq> 0 \<longrightarrow> hd_send_confirm_pending S = 0 \<and> kem_pair_of d (hd_id_mlkem_ek R) (hd_id_mlkem_dk S)"
    "\<not> (hd_send_confirm_pending S \<noteq> 0 \<and> hd_role R = GY_HYBRID_ROLE_RESPONDER)"
  using assms
  by (cases "hd_role S = GY_HYBRID_ROLE_RESPONDER"; auto simp: pq_sync_def pq_inv_def confirm_gate_def pq_const_defs)+

lemma pq_sync_step:
  assumes "pq_sync d S R" "pq_view R3 = pq_view R" "pq_view S' = pq_view S"
    and "R' = pq_transition R3 (hd_confirm_pending R \<noteq> 0) (hd_send_confirm_pending S \<noteq> 0) (hd_pq_state R = GY_HYBRID_PQ_CONFIRM_SENT)"
  shows "pq_sync d R' S'" "hd_send_confirm_pending R' \<noteq> 0 \<longleftrightarrow> hd_confirm_pending R \<noteq> 0"
    "hd_role R \<noteq> GY_HYBRID_ROLE_RESPONDER \<longrightarrow> hd_pq_state R' = GY_HYBRID_PQ_CONFIRMED"
proof -
  have p: "pq_inv S" "pq_inv R" using assms(1) by (simp_all add: pq_sync_def)
  note t = pq_transition_inv [OF p(2) pq_sync_gate(1) [OF assms(1)] assms(2,4)]
  have s: "pq_inv S'" using p(1) pq_inv_view [OF assms(3)] by simp
  have v: "hd_role S' = hd_role S" "hd_pq_state S' = hd_pq_state S" "hd_id_mlkem_dk S' = hd_id_mlkem_dk S"
      "hd_role R3 = hd_role R" "hd_pq_state R3 = hd_pq_state R" "hd_confirm_pending R3 = hd_confirm_pending R"
    using assms(2,3) by (simp_all add: pq_view_def)
  show c: "hd_send_confirm_pending R' \<noteq> 0 \<longleftrightarrow> hd_confirm_pending R \<noteq> 0"
    unfolding assms(4) by (simp add: pq_transition_def Let_def)
  have f: "hd_role R' = hd_role R"
      "hd_pq_state R' = (if hd_role R = GY_HYBRID_ROLE_RESPONDER \<and> hd_pq_state R = GY_HYBRID_PQ_CONFIRM_SENT \<or> hd_send_confirm_pending S \<noteq> 0
         then GY_HYBRID_PQ_CONFIRMED else if hd_confirm_pending R \<noteq> 0 then GY_HYBRID_PQ_CONFIRM_SENT else hd_pq_state R)"
    unfolding assms(4) by (auto simp: pq_transition_def Let_def v)
  show "hd_role R \<noteq> GY_HYBRID_ROLE_RESPONDER \<longrightarrow> hd_pq_state R' = GY_HYBRID_PQ_CONFIRMED"
    using assms(1) p unfolding f pq_sync_def pq_inv_def
    by (cases "hd_role S = GY_HYBRID_ROLE_RESPONDER"; auto simp: pq_const_defs)
  have q: "if hd_role S = GY_HYBRID_ROLE_RESPONDER
      then hd_role R \<noteq> GY_HYBRID_ROLE_RESPONDER \<and> hd_confirm_pending R = 0 \<and>
        (hd_pq_state S = GY_HYBRID_PQ_CONFIRM_SENT \<and> hd_send_confirm_pending S \<noteq> 0 \<or>
         hd_pq_state S = GY_HYBRID_PQ_CONFIRMED \<and> hd_send_confirm_pending S = 0 \<and> hd_pq_state R = GY_HYBRID_PQ_CONFIRMED)
      else hd_role R = GY_HYBRID_ROLE_RESPONDER \<and> hd_send_confirm_pending S = 0 \<and>
        (hd_pq_state S = GY_HYBRID_PQ_CLASSICAL_ONLY \<and> hd_confirm_pending R \<noteq> 0 \<and> hd_pq_state R = GY_HYBRID_PQ_CLASSICAL_ONLY \<or>
         hd_pq_state S = GY_HYBRID_PQ_CONFIRMED \<and> hd_confirm_pending R = 0 \<and>
           (hd_pq_state R = GY_HYBRID_PQ_CONFIRM_SENT \<or> hd_pq_state R = GY_HYBRID_PQ_CONFIRMED))"
    using assms(1) p unfolding pq_sync_def pq_inv_def
    by (cases "hd_role S = GY_HYBRID_ROLE_RESPONDER"; auto simp: pq_const_defs)
  show "pq_sync d R' S'"
    unfolding pq_sync_def f v
    using t(1) s q by (cases "hd_role S = GY_HYBRID_ROLE_RESPONDER"; auto simp: pq_const_defs)
qed

subsection \<open>Relation across a ratchet step\<close>

text \<open>The receiver's root derivation for the sender's header yields the sender's root and chain.\<close>

definition hd_root_sync :: "provider \<Rightarrow> gy_hybrid_dr_state \<Rightarrow> gy_hybrid_dr_state \<Rightarrow> bool" where
  "hd_root_sync L A B \<longleftrightarrow>
     (let a = hd_base A; b = hd_base B; d = dr_desc a in
      \<exists>kem_ss dh hdh ck0 mks. the (op_kem_decap d) (hd_kem_ct A) (hd_mlkem_dk B) = Inr kem_ss \<and>
        op_dh d (kp_sk (dr_dhs b)) (pub_pk (kp_pub (dr_dhs a))) = Inr dh \<and>
        recv_fuse B (hybrid_header_of A) (hd_send_confirm_pending A \<noteq> 0) kem_ss dh = Inr hdh \<and>
        root_kdf L d (dr_rk b) hdh = Inr (dr_rk a, ck0, dr_nhks a) \<and>
        chain_run L d (unat (dr_ns a)) ck0 = Inr (mks, dr_cks a))"

text \<open>The ML-KEM ratchet: each end's pair is a pair, and each knows the other's public half in time.\<close>

definition hd_kem_sync :: "gy_hybrid_dr_state \<Rightarrow> gy_hybrid_dr_state \<Rightarrow> bool" where
  "hd_kem_sync A B \<longleftrightarrow>
     (let d = dr_desc (hd_base A) in
      kem_pair_of d (hd_mlkem_ek A) (hd_mlkem_dk A) \<and> kem_pair_of d (hd_mlkem_ek B) (hd_mlkem_dk B) \<and>
      hd_have_remote_ek A \<noteq> 0 \<and> hd_remote_ek A = hd_mlkem_ek B \<and>
      remote_ek_of B (hybrid_header_of A) = Inr (hd_mlkem_ek A))"

definition hd_base_sync :: "gy_dr_state \<Rightarrow> gy_dr_state \<Rightarrow> bool" where
  "hd_base_sync a b \<longleftrightarrow>
     dr_receiver_of a b \<and> keypair_of (dr_desc a) (dr_dhs a) \<and> keypair_of (dr_desc a) (dr_dhs b) \<and>
     dr_have_nhkr b \<noteq> 0 \<and> dr_nhkr b = dr_hks a \<and> dr_have_nhkr a \<noteq> 0 \<and> dr_nhkr a = dr_nhks b \<and>
     (dr_have_dhr b = 0 \<or> pub_pk (kp_pub (dr_dhs a)) \<noteq> dr_dhr b) \<and>
     store_inv (dr_skipped a) \<and> store_inv (dr_skipped b) \<and>
     (dr_have_ckr b \<noteq> 0 \<longrightarrow> dr_have_hkr b \<noteq> 0 \<and> dr_nr b \<le> dr_pn a) \<and>
     (dr_have_ckr a \<noteq> 0 \<longrightarrow> dr_have_hkr a \<noteq> 0 \<and> dr_nr a \<le> dr_ns b)"

definition hd_turn_sync :: "provider \<Rightarrow> gy_hybrid_dr_state \<Rightarrow> gy_hybrid_dr_state \<Rightarrow> bool" where
  "hd_turn_sync L A B \<longleftrightarrow>
     is_hybrid (dr_desc (hd_base A)) \<and> hd_base_sync (hd_base A) (hd_base B) \<and>
     hybrid_header_wf (dr_desc (hd_base A)) (hybrid_header_of A) \<and>
     hd_kem_sync A B \<and> pq_sync (dr_desc (hd_base A)) A B \<and> hd_root_sync L A B"

text \<open>The refresh of the key pairs depends on few fields of the state.\<close>

lemma refresh_transfer:
  assumes "hybrid_refresh L B q = Some (Inr (R, regen), q1)" "dr_desc (hd_base S) = dr_desc (hd_base B)"
    "hd_mlkem_counter S = hd_mlkem_counter B" "hd_mlkem_interval S = hd_mlkem_interval B"
    "hd_mlkem_ek S = hd_mlkem_ek B" "hd_mlkem_dk S = hd_mlkem_dk B"
  shows "hybrid_refresh L S q = Some (Inr (S\<lparr>hd_mlkem_ek := hd_mlkem_ek R, hd_mlkem_dk := hd_mlkem_dk R,
      hd_mlkem_counter := hd_mlkem_counter R, hd_base := (hd_base S)\<lparr>dr_dhs := dr_dhs (hd_base R)\<rparr>\<rparr>, regen), q1)"
  using assms by (auto simp: hybrid_refresh_def Let_def cbind_def split: option.splits sum.splits prod.splits if_splits)

lemma confirm_encaps_cong:
  assumes "dr_desc (hd_base S) = dr_desc (hd_base B)" "hd_confirm_pending S = hd_confirm_pending B"
    "hd_id_mlkem_ek S = hd_id_mlkem_ek B" "hd_confirm_ct S = hd_confirm_ct B" "hd_have_confirm_ct S = hd_have_confirm_ct B"
  shows "confirm_encaps S = confirm_encaps B"
  using assms by (simp add: confirm_encaps_def)

text \<open>The step a receiver takes when every derivation it needs is available.\<close>

lemma hybrid_ratchet_runs:
  fixes B b1 d
  defines "d \<equiv> dr_desc (hd_base B)"
  assumes b1: "dr_desc b1 = d" "dr_dhs b1 = dr_dhs (hd_base B)" "dr_rk b1 = dr_rk (hd_base B)"
    and gate: "confirm_gate B (confirm_present (hh_flags h)) = Inr rc" and rek: "remote_ek_of B h = Inr ek"
    and dec: "the (op_kem_decap d) (hh_kem_ct h) (hd_mlkem_dk B) = Inr kem_ss"
    and dh: "op_dh d (kp_sk (dr_dhs (hd_base B))) (hh_ratchet_pk h) = Inr dh"
    and fuse: "recv_fuse B h rc kem_ss dh = Inr hdh" and root: "root_kdf L d (dr_rk (hd_base B)) hdh = Inr (rk1, ckr, nhkr)"
    and ref: "hybrid_refresh L B q = Some (Inr (R, regen), q1)"
    and enc: "kem_encaps d ek q1 = Some (Inr (kct, kss), q2)" and cenc: "confirm_encaps B q2 = Some (Inr (cct, hcc, css), q')"
    and dh2: "op_dh d (kp_sk (dr_dhs (hd_base R))) (hh_ratchet_pk h) = Inr dhn"
    and fuse2: "send_fuse B css kss dhn = Inr hdh2" and root2: "root_kdf L d rk1 hdh2 = Inr k2"
  shows "hybrid_dh_ratchet L (B\<lparr>hd_base := b1\<rparr>) h q = Some (Inr (pq_transition
      (B\<lparr>hd_remote_ek := ek, hd_have_remote_ek := 1, hd_mlkem_ek := hd_mlkem_ek R, hd_mlkem_dk := hd_mlkem_dk R,
         hd_mlkem_counter := hd_mlkem_counter R, hd_kem_ct := kct, hd_have_kem_ct := 1, hd_confirm_ct := cct,
         hd_have_confirm_ct := hcc,
         hd_base := send_chain ((recv_chain b1 (hh_ratchet_pk h) (rk1, ckr, nhkr))\<lparr>dr_dhs := dr_dhs (hd_base R)\<rparr>) k2,
         hd_send_ek_pending := (if regen then 1 else 0)\<rparr>)
      (hd_confirm_pending B \<noteq> 0) rc (hd_pq_state B = GY_HYBRID_PQ_CONFIRM_SENT)), q')"
proof -
  let ?B = "B\<lparr>hd_base := b1\<rparr>"
  let ?S1 = "?B\<lparr>hd_remote_ek := ek, hd_have_remote_ek := 1, hd_base := recv_chain b1 (hh_ratchet_pk h) (rk1, ckr, nhkr)\<rparr>"
  have "confirm_gate ?B c = confirm_gate B c" for c by (simp add: confirm_gate_def)
  then have g: "confirm_gate ?B (confirm_present (hh_flags h)) = Inr rc" using gate by simp
  have "remote_ek_of ?B h = remote_ek_of B h" by (simp add: remote_ek_of_def)
  then have r: "remote_ek_of ?B h = Inr ek" using rek by simp
  have "recv_fuse ?B h rc kem_ss dh = recv_fuse B h rc kem_ss dh" using b1(1) by (simp add: recv_fuse_def d_def Let_def)
  then have f: "recv_fuse ?B h rc kem_ss dh = Inr hdh" using fuse by simp
  have recv: "hybrid_recv_half L ?B h rc = Inr ?S1"
    using r f dec dh root b1 by (simp add: hybrid_recv_half_def Let_def)
  let ?S2 = "?S1\<lparr>hd_mlkem_ek := hd_mlkem_ek R, hd_mlkem_dk := hd_mlkem_dk R,
      hd_mlkem_counter := hd_mlkem_counter R, hd_base := (hd_base ?S1)\<lparr>dr_dhs := dr_dhs (hd_base R)\<rparr>\<rparr>"
  have refr: "hybrid_refresh L ?S1 q = Some (Inr (?S2, regen), q1)"
    by (rule refresh_transfer [OF ref]) (use b1(1) in \<open>simp_all add: d_def\<close>)
  have c: "confirm_encaps ?S2 = confirm_encaps B"
    by (rule confirm_encaps_cong) (use b1(1) in \<open>simp_all add: d_def\<close>)
  have "send_fuse ?S2 css kss dhn = send_fuse B css kss dhn" using b1(1) by (simp add: send_fuse_def d_def Let_def)
  then have sf: "send_fuse ?S2 css kss dhn = Inr hdh2" using fuse2 by simp
  have chain: "dr_dhr (recv_chain b1 (hh_ratchet_pk h) (rk1, ckr, nhkr)) = hh_ratchet_pk h"
      "dr_rk (recv_chain b1 (hh_ratchet_pk h) (rk1, ckr, nhkr)) = rk1"
    by (simp_all add: recv_chain_def)
  have send: "hybrid_send_half L ?S2 regen q1 = Some (Inr (?S2\<lparr>hd_kem_ct := kct, hd_have_kem_ct := 1, hd_confirm_ct := cct,
      hd_have_confirm_ct := hcc, hd_base := send_chain (hd_base ?S2) k2, hd_send_ek_pending := (if regen then 1 else 0)\<rparr>), q')"
    using enc cenc c sf dh2 root2 b1(1) chain by (simp add: hybrid_send_half_def Let_def cbind_def)
  show ?thesis
    using g recv refr send by (simp add: hybrid_dh_ratchet_def Let_def cbind_def)
qed

text \<open>The receiver's side of an epoch: what it computes and what it keeps.\<close>

lemma hybrid_epoch_delivery:
  fixes A B :: gy_hybrid_dr_state
  defines "a \<equiv> hd_base A" and "b \<equiv> hd_base B" and "d \<equiv> dr_desc (hd_base A)"
  assumes prov: "hash_lengths L" "aead_lengths L" "aead_correct L" and live: "live_suite L d"
    and enc: "gy_hybrid_dr_encrypt L A cap pt ad r = (Inr msg, A', r')"
    and sync: "hd_turn_sync L A B" and stray: "hd_no_stray L b msg"
    and gap: "dr_have_ckr b \<noteq> 0 \<longrightarrow> unat (dr_pn a) - unat (dr_nr b) \<le> GY_MAX_SKIP"
    and n: "unat (dr_ns a) \<le> GY_MAX_SKIP" and cap: "length pt \<le> cap'"
    and ref: "hybrid_refresh L B q = Some (Inr (R, regen), q1)"
    and kenc: "kem_encaps d (hd_mlkem_ek A) q1 = Some (Inr (kct, kss), q2)"
    and cenc: "confirm_encaps B q2 = Some (Inr (cct, hcc, css), q')"
    and dh2: "op_dh d (kp_sk (dr_dhs (hd_base R))) (pub_pk (kp_pub (dr_dhs a))) = Inr dhn"
  obtains B3 b' hdh2 k2 where
    "gy_hybrid_dr_decrypt_assoc L B cap' msg ad q = Some (Inr pt, True, (pq_transition B3 (hd_confirm_pending B \<noteq> 0)
       (hd_send_confirm_pending A \<noteq> 0) (hd_pq_state B = GY_HYBRID_PQ_CONFIRM_SENT))\<lparr>hd_base := b'\<rparr>, q')"
    "pq_view B3 = pq_view B" "hd_remote_ek B3 = hd_mlkem_ek A" "hd_have_remote_ek B3 = 1"
    "hd_mlkem_ek B3 = hd_mlkem_ek R" "hd_mlkem_dk B3 = hd_mlkem_dk R" "hd_kem_ct B3 = kct" "hd_confirm_ct B3 = cct"
    "hd_send_ek_pending B3 = (if regen then 1 else 0)"
    "send_fuse B css kss dhn = Inr hdh2" "root_kdf L d (dr_rk a) hdh2 = Inr k2"
    "dr_receiver_of a b'" "dr_dhs b' = dr_dhs (hd_base R)" "dr_hks b' = dr_nhks b" "dr_nhkr b' = dr_nhks a"
    "dr_pn b' = dr_ns b" "dr_ns b' = 0" "dr_have_nhkr b' \<noteq> 0" "(dr_rk b', dr_cks b', dr_nhks b') = k2"
    "dr_nr b' = dr_ns a + 1" "dr_have_hkr b' \<noteq> 0" "store_inv (dr_skipped b')"
proof -
  note s = sync [unfolded hd_turn_sync_def hd_base_sync_def, folded a_def b_def d_def]
  have rcv: "dr_receiver_of a b" and desc: "dr_desc b = d" "dr_aead_id b = dr_aead_id a" "is_hybrid d"
      "dr_desc a = d" "dr_desc (hd_base B) = d"
    using s by (simp_all add: dr_receiver_of_def a_def b_def d_def)
  let ?h = "hybrid_header_of A"
  have hf: "hh_ratchet_pk ?h = pub_pk (kp_pub (dr_dhs a))" "hh_kem_ct ?h = hd_kem_ct A" "hh_pn ?h = dr_pn a" "hh_n ?h = dr_ns a"
      "confirm_present (hh_flags ?h) = (hd_send_confirm_pending A \<noteq> 0)"
    by (simp_all add: header_fields header_flags a_def)
  obtain fr hdrp mk ckn where e: "hybrid_parse_frame b msg = Inr fr"
    "gy_he_decrypt L (dr_desc b) (dr_aead_id b) (dr_hks a) (fr_salt fr) (fr_enc fr) (fr_ad2 fr) GY_DR_HYBRID_HEADER_MAX = Inr hdrp"
    "gy_dr_hybrid_header_decode (dr_desc b) hdrp = Inr (?h, length hdrp)"
    "gy_drc_kdf_ck L (dr_desc b) (dr_cks a) = Inr (mk, ckn)" "length ad \<le> GY_HYBRID_AD_MAX"
    "\<forall>cap' st. length pt \<le> cap' \<longrightarrow> dr_desc st = dr_desc b \<longrightarrow> dr_aead_id st = dr_aead_id b \<longrightarrow>
       dr_open_payload L st mk (dr_ns a) fr cap' ad = Inr pt"
    using hybrid_encrypt_receive [OF prov live [unfolded d_def] desc(3) [unfolded d_def] _ enc rcv [unfolded a_def]] s
    unfolding a_def d_def by metis
  obtain kem_ss dh hdh ck0 mks where k: "the (op_kem_decap d) (hd_kem_ct A) (hd_mlkem_dk B) = Inr kem_ss"
      "op_dh d (kp_sk (dr_dhs b)) (pub_pk (kp_pub (dr_dhs a))) = Inr dh"
      "recv_fuse B ?h (hd_send_confirm_pending A \<noteq> 0) kem_ss dh = Inr hdh"
      "root_kdf L d (dr_rk b) hdh = Inr (dr_rk a, ck0, dr_nhks a)" "chain_run L d (unat (dr_ns a)) ck0 = Inr (mks, dr_cks a)"
    using s unfolding hd_root_sync_def Let_def a_def b_def d_def by blast
  have "\<exists>y. op_hash d x = Inr y" for x using live unfolding live_suite_def suite_ok_def by blast
  then have "\<exists>y. send_fuse B css kss dhn = Inr y"
    by (cases "hd_confirm_pending B \<noteq> 0") (simp_all add: send_fuse_def hybrid_combine3_def hybrid_combine_def Let_def desc(5))
  then obtain hdh2 where f2: "send_fuse B css kss dhn = Inr hdh2" ..
  obtain rk2 cks2 nhks2 where r2: "root_kdf L d (dr_rk a) hdh2 = Inr (rk2, cks2, nhks2)"
    using kdf_rk_total [OF live] unfolding root_kdf_def by blast
  have pq: "pq_sync d A B" and kem: "remote_ek_of B ?h = Inr (hd_mlkem_ek A)"
    using s by (simp_all add: hd_kem_sync_def Let_def)
  note gate = pq_sync_gate [OF pq]
  have skip: "hybrid_try_skipped L b fr cap' ad = (False, Inr None)"
    by (rule hybrid_try_skipped_passes [OF _ stray e(1)]) (use s in simp)
  have closed: "\<not> hd_opens L b fr (dr_hkr b)" if "dr_have_hkr b \<noteq> 0"
    using stray e(1) that by (auto simp: hd_no_stray_def)
  have nh: "hd_opens L b fr (dr_nhkr b)" using e(2) s by (simp add: hd_opens_def)
  have opn: "hybrid_open_header L b fr = Some hdrp"
    using s e(2) closed by (auto simp: hybrid_open_header_def Let_def hd_opens_def split: sum.splits)
  obtain s1 ck1 nr1 where st1:
    "(if dr_have_ckr b \<noteq> 0 then dr_skip_to L b (dr_pn a) else Inr b) =
       Inr (b\<lparr>dr_skipped := s1, dr_ckr := ck1, dr_nr := nr1\<rparr>)" "store_inv s1"
    "\<forall>x \<in> set (store_abs s1). x \<in> set (store_abs (dr_skipped b)) \<or> (dr_have_ckr b \<noteq> 0 \<and> fst x = dr_hkr b)"
    by (rule first_skip [of L b "dr_pn a"]) (use live desc s in auto)
  let ?b1 = "b\<lparr>dr_skipped := s1, dr_ckr := ck1, dr_nr := nr1\<rparr>"
  let ?B1 = "B\<lparr>hd_base := ?b1\<rparr>"
  let ?b2 = "send_chain ((recv_chain ?b1 (pub_pk (kp_pub (dr_dhs a))) (dr_rk a, ck0, dr_nhks a))\<lparr>dr_dhs := dr_dhs (hd_base R)\<rparr>) (rk2, cks2, nhks2)"
  let ?B3 = "B\<lparr>hd_remote_ek := hd_mlkem_ek A, hd_have_remote_ek := 1, hd_mlkem_ek := hd_mlkem_ek R, hd_mlkem_dk := hd_mlkem_dk R,
         hd_mlkem_counter := hd_mlkem_counter R, hd_kem_ct := kct, hd_have_kem_ct := 1, hd_confirm_ct := cct,
         hd_have_confirm_ct := hcc, hd_base := ?b2, hd_send_ek_pending := (if regen then 1 else 0)\<rparr>"
  let ?T = "pq_transition ?B3 (hd_confirm_pending B \<noteq> 0) (hd_send_confirm_pending A \<noteq> 0) (hd_pq_state B = GY_HYBRID_PQ_CONFIRM_SENT)"
  have rat: "hybrid_dh_ratchet L ?B1 ?h q = Some (Inr ?T, q')"
    unfolding hf(1) [symmetric]
  proof (rule hybrid_ratchet_runs)
    show "confirm_gate B (confirm_present (hh_flags ?h)) = Inr (hd_send_confirm_pending A \<noteq> 0)"
      using gate(1) by (simp add: hf(5))
  qed (use kem k ref kenc cenc dh2 f2 r2 desc in \<open>simp_all add: hf b_def [symmetric]\<close>)
  have b2: "dr_hkr ?b2 = dr_nhkr b" "dr_nr ?b2 = 0" "dr_ckr ?b2 = ck0" "dr_skipped ?b2 = s1" "dr_desc ?b2 = d"
      "dr_aead_id ?b2 = dr_aead_id b"
    by (simp_all add: send_chain_def recv_chain_def desc)
  have fresh: "\<not> (x \<in> set (store_abs s1) \<and> fst x = dr_nhkr b)" for x
    using st1(3) stray e(1) nh closed s unfolding hd_no_stray_def list_all_iff by metis
  then have bel0: "below (dr_skipped ?b2) (dr_hkr ?b2) (dr_nr ?b2)" unfolding b2 by (auto simp: below_def)
  obtain s2 where s2: "dr_skip_to L ?b2 (dr_ns a) = Inr (?b2\<lparr>dr_skipped := s2, dr_ckr := dr_cks a, dr_nr := dr_ns a\<rparr>)"
    "store_inv s2"
    by (rule skip_to_spec [OF _ bel0, of "dr_ns a" L mks "dr_cks a"]) (use st1(2) k(5) desc(1) in \<open>simp_all add: b2\<close>)
  let ?b3 = "?b2\<lparr>dr_skipped := s2, dr_ckr := dr_cks a, dr_nr := dr_ns a\<rparr>"
  have g1: "\<not> dr_ns a > of_nat GY_MAX_SKIP" using not_greater_MAX_SKIP [of 0 "dr_ns a"] n by simp
  have g2: "\<not> (dr_have_ckr b \<noteq> 0 \<and> (dr_pn a < dr_nr b \<or> dr_pn a - dr_nr b > of_nat GY_MAX_SKIP))"
    using s gap not_greater_MAX_SKIP [of "dr_nr b" "dr_pn a"] by auto
  have nrm: "hybrid_new_remote b ?h" using s by (auto simp: hybrid_new_remote_def hf)
  have first: "(if dr_have_ckr b \<noteq> 0 then on_base B (dr_skip_to L b (dr_pn a)) else Inr B) = Inr ?B1"
    using st1(1) by (auto simp: on_base_def b_def split: if_splits)
  have adv: "hybrid_advance L B ?h q = Some (Inr (?T\<lparr>hd_base := ?b3\<rparr>), q')"
    unfolding hybrid_advance_def Let_def hf b_def [symmetric] if_P [OF nrm] if_not_P [OF g2] if_not_P [OF g1] first
    using rat s2(1) by (simp add: cbind_def on_base_def)
  let ?b' = "?b3\<lparr>dr_ckr := ckn, dr_nr := dr_ns a + 1, dr_skipped := gy_drc_store_post_success s2\<rparr>"
  have fin: "hybrid_finish L ?b3 ?h fr cap' ad = Inr (pt, ?b')"
    using e(4,6) cap desc b2 by (simp add: hybrid_finish_def Let_def hf)
  have chain: "hybrid_decrypt_chain L B fr cap' ad hdrp q = Some (Inr pt, ?T\<lparr>hd_base := ?b'\<rparr>, q')"
    using e(3) gate(3) adv fin by (simp add: hybrid_decrypt_chain_def hf b_def [symmetric])
  have dec: "gy_hybrid_dr_decrypt_assoc L B cap' msg ad q = Some (Inr pt, True, ?T\<lparr>hd_base := ?b'\<rparr>, q')"
    using e(1,5) skip opn chain by (simp add: gy_hybrid_dr_decrypt_assoc_def b_def [symmetric])
  show thesis
    by (rule that [OF dec _ _ _ _ _ _ _ _ f2 r2])
      (use rcv post_success_inv_abs(1) [OF s2(2)] in
        \<open>simp_all add: pq_view_def dr_receiver_of_def send_chain_def recv_chain_def\<close>)
qed

lemma pq_transition_ct: "hd_confirm_ct (pq_transition st x y z) = hd_confirm_ct st"
  by (simp add: pq_transition_def Let_def)

lemma generated_curve_pair:
  "gen_curve_keypair L d r = Some (Inr kp, r') \<Longrightarrow> keypair_of d kp"
  using generated_keypair_of unfolding gen_ratchet_keypair_def gen_curve_keypair_def by blast

lemma refresh_pairs:
  assumes "hybrid_refresh L B q = Some (Inr (R, regen), q1)" "kem_pair_of (dr_desc (hd_base B)) (hd_mlkem_ek B) (hd_mlkem_dk B)"
  shows "kem_pair_of (dr_desc (hd_base B)) (hd_mlkem_ek R) (hd_mlkem_dk R)" "keypair_of (dr_desc (hd_base B)) (dr_dhs (hd_base R))"
    "\<not> regen \<longrightarrow> hd_mlkem_ek R = hd_mlkem_ek B"
proof -
  obtain ek dk r1 dhs where r: "if regen then gen_kem_keypair (dr_desc (hd_base B)) q = Some (Inr (ek, dk), r1)
     else r1 = q \<and> ek = hd_mlkem_ek B \<and> dk = hd_mlkem_dk B"
    "gen_curve_keypair L (dr_desc (hd_base B)) r1 = Some (Inr dhs, q1)"
    "R = B\<lparr>hd_mlkem_ek := ek, hd_mlkem_dk := dk, hd_mlkem_counter := (if regen then 0 else hd_mlkem_counter B + 1),
       hd_base := (hd_base B)\<lparr>dr_dhs := dhs\<rparr>\<rparr>"
    by (rule refresh_ok [OF assms(1)])
  have "kem_pair_of (dr_desc (hd_base B)) ek dk"
  proof (cases regen)
    case True
    then have "the (op_kem_keypair (dr_desc (hd_base B))) q = (Inr (ek, dk), r1)"
      using r(1) by (simp add: gen_kem_keypair_def)
    then show ?thesis unfolding kem_pair_of_def by blast
  qed (use r(1) assms(2) in simp)
  then show "kem_pair_of (dr_desc (hd_base B)) (hd_mlkem_ek R) (hd_mlkem_dk R)"
      "keypair_of (dr_desc (hd_base B)) (dr_dhs (hd_base R))" "\<not> regen \<longrightarrow> hd_mlkem_ek R = hd_mlkem_ek B"
    using generated_curve_pair [OF r(2)] r(1) by (simp_all add: r(3))
qed

text \<open>The confirmation ciphertext, when the state owes one.\<close>

lemma confirm_encaps_pending:
  assumes "confirm_encaps B q = Some (Inr (cct, hcc, css), q')" "hd_confirm_pending B \<noteq> 0"
  shows "the (op_kem_encap (dr_desc (hd_base B))) (hd_id_mlkem_ek B) q = (Inr (cct, css), q')"
  using assms by (auto simp: confirm_encaps_def cbind_eq_Some_Inr_iff kem_encaps_def)

text \<open>
  C15. Delivery across a hybrid ratchet step. If Bob has not seen the ratchet keys of Alice's current
  chain and the two ends are in step (root keys, ML-KEM keys, phase of the confirmation), Alice's
  message decrypts on Bob's side; afterwards his fresh sending chain, with its own encapsulation,
  stands to Alice as hers stood to him, so the answer is delivered by the same theorem. An initiator
  that receives a new epoch of the responder ends confirmed.
\<close>

theorem hybrid_delivery_new_epoch:
  assumes "hash_lengths L" "aead_lengths L" "aead_correct L" "live_suite L (dr_desc (hd_base A))"
    and "dh_commutes L" "dh_lengths L" "kem_correct L" "kem_lengths L"
    and "gy_hybrid_dr_encrypt L A cap pt ad r = (Inr msg, A', r')"
    and "hd_turn_sync L A B" "hd_no_stray L (hd_base B) msg"
    and "dr_have_ckr (hd_base B) \<noteq> 0 \<longrightarrow> unat (dr_pn (hd_base A)) - unat (dr_nr (hd_base B)) \<le> GY_MAX_SKIP"
    and "unat (dr_ns (hd_base A)) \<le> GY_MAX_SKIP" "length pt \<le> cap'"
    and "hybrid_refresh L B q = Some (Inr (R, regen), q1)"
    and "kem_encaps (dr_desc (hd_base A)) (hd_mlkem_ek A) q1 = Some (Inr (kct, kss), q2)"
    and "confirm_encaps B q2 = Some (Inr (cct, hcc, css), q')"
    and "op_dh (dr_desc (hd_base A)) (kp_sk (dr_dhs (hd_base R))) (pub_pk (kp_pub (dr_dhs (hd_base A)))) = Inr dhn"
    and "pub_pk (kp_pub (dr_dhs (hd_base R))) \<noteq> dr_dhr (hd_base A)"
  shows "\<exists>B'. gy_hybrid_dr_decrypt_assoc L B cap' msg ad q = Some (Inr pt, True, B', q') \<and> hd_turn_sync L B' A' \<and>
     (hd_role B \<noteq> GY_HYBRID_ROLE_RESPONDER \<longrightarrow> hd_pq_state B' = GY_HYBRID_PQ_CONFIRMED)"
proof -
  let ?d = "dr_desc (hd_base A)"
  obtain B3 b' hdh2 k2 where d:
    "gy_hybrid_dr_decrypt_assoc L B cap' msg ad q = Some (Inr pt, True, (pq_transition B3 (hd_confirm_pending B \<noteq> 0)
       (hd_send_confirm_pending A \<noteq> 0) (hd_pq_state B = GY_HYBRID_PQ_CONFIRM_SENT))\<lparr>hd_base := b'\<rparr>, q')"
    "pq_view B3 = pq_view B" "hd_remote_ek B3 = hd_mlkem_ek A" "hd_have_remote_ek B3 = 1"
    "hd_mlkem_ek B3 = hd_mlkem_ek R" "hd_mlkem_dk B3 = hd_mlkem_dk R" "hd_kem_ct B3 = kct" "hd_confirm_ct B3 = cct"
    "hd_send_ek_pending B3 = (if regen then 1 else 0)"
    "send_fuse B css kss dhn = Inr hdh2" "root_kdf L ?d (dr_rk (hd_base A)) hdh2 = Inr k2"
    "dr_receiver_of (hd_base A) b'" "dr_dhs b' = dr_dhs (hd_base R)" "dr_hks b' = dr_nhks (hd_base B)" "dr_nhkr b' = dr_nhks (hd_base A)"
    "dr_pn b' = dr_ns (hd_base B)" "dr_ns b' = 0" "dr_have_nhkr b' \<noteq> 0" "(dr_rk b', dr_cks b', dr_nhks b') = k2"
    "dr_nr b' = dr_ns (hd_base A) + 1" "dr_have_hkr b' \<noteq> 0" "store_inv (dr_skipped b')"
    by (rule hybrid_epoch_delivery [OF assms(1-4,9-18)])
  let ?T = "pq_transition B3 (hd_confirm_pending B \<noteq> 0) (hd_send_confirm_pending A \<noteq> 0) (hd_pq_state B = GY_HYBRID_PQ_CONFIRM_SENT)"
  let ?B' = "?T\<lparr>hd_base := b'\<rparr>"
  obtain ckn where A': "A' = A\<lparr>hd_base := (hd_base A)\<lparr>dr_cks := ckn, dr_ns := dr_ns (hd_base A) + 1\<rparr>\<rparr>"
    by (rule hybrid_encrypt_ok [OF assms(9)])
  note s = assms(10) [unfolded hd_turn_sync_def hd_base_sync_def hd_kem_sync_def Let_def]
  have pq: "pq_sync ?d A B" and hy: "is_hybrid ?d" and dB: "dr_desc (hd_base B) = ?d" "dr_desc b' = ?d"
    using s d(12) by (simp_all add: dr_receiver_of_def)
  have "pq_view A' = pq_view A" by (simp add: A' pq_view_def)
  note t = pq_sync_step [OF pq d(2) this refl]
  have pqs: "pq_sync ?d ?B' A'" "hd_send_confirm_pending ?B' \<noteq> 0 \<longleftrightarrow> hd_confirm_pending B \<noteq> 0"
      "hd_role B \<noteq> GY_HYBRID_ROLE_RESPONDER \<longrightarrow> hd_pq_state ?B' = GY_HYBRID_PQ_CONFIRMED"
    using t by (simp_all add: pq_sync_base)
  have kB: "kem_pair_of ?d (hd_mlkem_ek R) (hd_mlkem_dk R)" "keypair_of ?d (dr_dhs (hd_base R))" "\<not> regen \<longrightarrow> hd_mlkem_ek R = hd_mlkem_ek B"
    using refresh_pairs [OF assms(15)] s dB(1) by simp_all
  have ke: "the (op_kem_encap ?d) (hd_mlkem_ek A) q1 = (Inr (kct, kss), q2)"
    using assms(16) by (simp add: kem_encaps_def)
  have T: "hd_remote_ek ?B' = hd_mlkem_ek A" "hd_have_remote_ek ?B' = 1" "hd_mlkem_ek ?B' = hd_mlkem_ek R" "hd_mlkem_dk ?B' = hd_mlkem_dk R"
      "hd_kem_ct ?B' = kct" "hd_confirm_ct ?B' = cct" "hd_send_ek_pending ?B' = (if regen then 1 else 0)" "hd_base ?B' = b'"
    using d(3-9) by (simp_all add: pq_transition_def Let_def)
  have len: "length kct = kem_ct_len ?d" "hd_confirm_pending B \<noteq> 0 \<longrightarrow> length cct = kem_ct_len ?d" "length (hd_mlkem_ek R) = kem_pk_len ?d"
      "length (pub_pk (kp_pub (dr_dhs (hd_base R)))) = curve_pk_len ?d"
    using suite_kem_ct_len [OF assms(4) hy assms(8)] ke confirm_encaps_pending [OF assms(17)] dB(1)
      suite_kem_pair_len [OF assms(4) hy assms(8) kB(1)] keypair_pk_len [OF assms(4,6) kB(2)] by auto
  have wf: "hybrid_header_wf ?d (hybrid_header_of ?B')"
    using hybrid_header_of_wf [of ?B'] len d(13) dB(2) pqs(2) by (simp add: T)
  have base: "hd_base_sync b' (hd_base A')"
    using s d kB(2) assms(19) dB(2) by (simp add: hd_base_sync_def dr_receiver_of_def A')
  have kem: "hd_kem_sync ?B' A'"
    using s kB dB by (auto simp: hd_kem_sync_def Let_def T remote_ek_of_def header_flags header_fields A')
  have css: "the (op_kem_decap ?d) cct (hd_id_mlkem_dk A) = Inr css" if "hd_confirm_pending B \<noteq> 0"
    using suite_kem_agree [OF assms(4) hy assms(7)] pq_sync_gate(2) [OF pq] that confirm_encaps_pending [OF assms(17) that] dB(1)
    by auto
  have fuse: "recv_fuse A' (hybrid_header_of ?B') (hd_send_confirm_pending ?B' \<noteq> 0) kss dhn = Inr hdh2"
    using d(10) css dB t(2)
    by (cases "hd_confirm_pending B = 0") (simp_all add: recv_fuse_def send_fuse_def Let_def header_fields T A' pq_transition_ct d(8))
  have dec: "the (op_kem_decap ?d) kct (hd_mlkem_dk A) = Inr kss"
    using suite_kem_agree [OF assms(4) hy assms(7) _ ke] s by blast
  have dh: "op_dh ?d (kp_sk (dr_dhs (hd_base A))) (pub_pk (kp_pub (dr_dhs (hd_base R)))) = Inr dhn"
    using keypair_dh_agree [OF assms(4,5) kB(2), of "dr_dhs (hd_base A)"] assms(18) s by simp
  have root: "hd_root_sync L ?B' A'"
    unfolding hd_root_sync_def Let_def T dB(2) d(13,17)
    using fuse dec dh d(11,19) by (fastforce simp: A')
  have "hd_turn_sync L ?B' A'"
    unfolding hd_turn_sync_def T(8) dB(2) using hy base wf kem pqs(1) root by (simp add: T)
  then show ?thesis using d(1) pqs(3) by blast
qed

text \<open>
  A hybrid session starts in step. The states the two initialisers make from the same secrets,
  the responder's signed prekey and the initiator's identity key are related as the delivery theorem
  needs, in the first phase of the confirmation.
\<close>

lemma hybrid_init_turn_sync:
  assumes "live_suite L desc" "dh_commutes L" "dh_lengths L" "kem_correct L" "kem_lengths L" "hybrid_keypair_of desc spk"
    and "kem_pair_of desc id_ek id_dk"
    and "gy_hybrid_dr_init_alice L desc aead sec (hk_pub spk) iv id_dk r = Some (Inr A, r')"
  shows "\<exists>B. gy_hybrid_dr_init_bob desc aead sec spk iv id_ek = Inr B \<and> hd_turn_sync L A B \<and>
     hd_pq_state A = GY_HYBRID_PQ_CLASSICAL_ONLY \<and> hd_pq_state B = GY_HYBRID_PQ_CLASSICAL_ONLY"
proof -
  obtain dhs ek mdk kem_ct kem_ss dh hdh rk cks nhks r1 r2 where i:
    "is_hybrid desc" "\<not> iv < 1" "gen_curve_keypair L desc r = Some (Inr dhs, r1)"
    "gen_kem_keypair desc r1 = Some (Inr (ek, mdk), r2)" "kem_encaps desc (hp_mlkem_ek (hk_pub spk)) r2 = Some (Inr (kem_ct, kem_ss), r')"
    "op_dh desc (kp_sk dhs) (pub_pk (hp_curve (hk_pub spk))) = Inr dh" "hybrid_combine desc kem_ss dh = Inr hdh"
    "root_kdf L desc (sd_sk_dr sec) hdh = Inr (rk, cks, nhks)"
    "A = (hd_zero desc aead)
      \<lparr>hd_remote_ek := hp_mlkem_ek (hk_pub spk), hd_have_remote_ek := 1, hd_mlkem_interval := iv,
       hd_role := GY_HYBRID_ROLE_INITIATOR, hd_pq_state := GY_HYBRID_PQ_CLASSICAL_ONLY, hd_id_mlkem_dk := id_dk, hd_have_id_dk := 1,
       hd_base := (dr_zero desc aead)
         \<lparr>dr_dhr := pub_pk (hp_curve (hk_pub spk)), dr_have_dhr := 1, dr_hks := sd_shared_hka sec, dr_nhkr := sd_shared_nhkb sec,
          dr_have_hks := 1, dr_have_nhkr := 1, dr_dhs := dhs, dr_rk := rk, dr_cks := cks, dr_nhks := nhks,
          dr_have_cks := 1, dr_have_nhks := 1\<rparr>,
       hd_mlkem_ek := ek, hd_mlkem_dk := mdk, hd_send_ek_pending := 1, hd_kem_ct := kem_ct, hd_have_kem_ct := 1\<rparr>"
    by (rule init_alice_cases [OF assms(8)])
  obtain B where B: "gy_hybrid_dr_init_bob desc aead sec spk iv id_ek = Inr B" using i(1,2) by (simp add: gy_hybrid_dr_init_bob_def)
  have Bf: "B = (hd_zero desc aead)
        \<lparr>hd_base := (dr_zero desc aead)
           \<lparr>dr_rk := sd_sk_dr sec, dr_nhks := sd_shared_nhkb sec, dr_nhkr := sd_shared_hka sec,
            dr_have_nhks := 1, dr_have_nhkr := 1, dr_dhs := curve_half spk\<rparr>,
         hd_mlkem_ek := hp_mlkem_ek (hk_pub spk), hd_mlkem_dk := hk_mlkem_dk spk,
         hd_mlkem_interval := iv, hd_mlkem_counter := iv,
         hd_role := GY_HYBRID_ROLE_RESPONDER, hd_pq_state := GY_HYBRID_PQ_CLASSICAL_ONLY,
         hd_id_mlkem_ek := id_ek, hd_confirm_pending := 1\<rparr>"
    using B i(1,2) by (simp add: gy_hybrid_dr_init_bob_def curve_half_def)
  have kA: "keypair_of desc dhs" by (rule generated_curve_pair [OF i(3)])
  have kB: "keypair_of desc (curve_half spk)" "kem_pair_of desc (hp_mlkem_ek (hk_pub spk)) (hk_mlkem_dk spk)"
    using assms(6) by (simp_all add: hybrid_keypair_of_def)
  have kp: "kem_pair_of desc ek mdk" using i(4) unfolding gen_kem_keypair_def kem_pair_of_def by (auto simp: ctot_def)
  have en: "the (op_kem_encap desc) (hp_mlkem_ek (hk_pub spk)) r2 = (Inr (kem_ct, kem_ss), r')"
    using i(5) by (simp add: kem_encaps_def)
  have dA: "dr_desc (hd_base A) = desc" "dr_desc (hd_base B) = desc" by (simp_all add: i(9) Bf dr_zero_def)
  have dhB: "op_dh desc (kp_sk (curve_half spk)) (pub_pk (kp_pub dhs)) = Inr dh"
    using keypair_dh_agree [OF assms(1,2) kA kB(1)] i(6) by (simp add: curve_half_def)
  have dec: "the (op_kem_decap desc) kem_ct (hk_mlkem_dk spk) = Inr kem_ss"
    by (rule suite_kem_agree [OF assms(1) i(1) assms(4) kB(2) en])
  have base: "hd_base_sync (hd_base A) (hd_base B)"
    using kA kB(1) by (simp add: hd_base_sync_def dr_receiver_of_def i(9) Bf dr_zero_def store_inv_empty)
  have wf: "hybrid_header_wf desc (hybrid_header_of A)"
    using hybrid_header_of_wf [of A] keypair_pk_len [OF assms(1,3) kA] suite_kem_ct_len [OF assms(1) i(1) assms(5) en]
      suite_kem_pair_len [OF assms(1) i(1) assms(5) kp] dA(1) by (simp add: i(9) hd_zero_def)
  have kem: "hd_kem_sync A B"
    using kp kB(2) by (simp add: hd_kem_sync_def Let_def remote_ek_of_def header_flags header_fields dA) (simp add: i(9) Bf)
  have pq: "pq_sync desc A B"
    using assms(7) by (simp add: pq_sync_def pq_inv_def i(9) Bf hd_zero_def pq_const_defs)
  have sc: "hd_send_confirm_pending A = 0" by (simp add: i(9) hd_zero_def)
  have root: "hd_root_sync L A B"
    unfolding hd_root_sync_def Let_def dA
    using dec dhB i(7,8) by (simp add: sc recv_fuse_def dA Let_def) (simp add: i(9) Bf dr_zero_def)
  show ?thesis
    using B base wf kem pq root i(1) by (simp add: hd_turn_sync_def dA) (simp add: i(9) Bf)
qed

end
