(* ===== verification/GY_HybridWitness.thy ===== *)
theory GY_HybridWitness
  imports GY_KexWitness GY_HybridSync
begin

text \<open>
  A hybrid session over the concrete provider: both initial states, the first message, and the
  theorems on the hybrid ratchet applied to them.
\<close>

lemma toy_gen_curve: "gen_curve_keypair toy h25519 r = Some (Inr (toy_curve (of_nat r)), Suc r)"
proof -
  let ?k = "toy_curve (of_nat r)"
  have "op_keypair h25519 r = (Inr (pub_pk (kp_pub ?k), kp_sk ?k), Suc r)"
    by (simp add: h25519_row gy_x25519_keypair_def gy_random_bytes_def toy_fields toy_curve_def Let_def pad_def)
  then have "gen_keypair_once toy h25519 [] [] r = (Inr (Some ?k), Suc r)"
    using toy_pkid [of "of_nat r" "[]"] toy_pkid_nonzero [of "of_nat r"] toy_curve_shape(1,2) [of "of_nat r"]
    by (simp add: gen_keypair_once_def gy_encode_ec_def wire_const_defs GY_ENCODED_KEY_MAX_def h25519_row pkid_forbidden_def)
  then show ?thesis
    by (simp add: gen_curve_keypair_def gy_keypair_generate_def gen_keypair_def retry_loop.simps)
qed

lemma toy_gen_kem: "gen_kem_keypair h25519 r = Some (Inr (replicate 800 (of_nat r), replicate 1632 (of_nat r)), Suc r)"
  by (simp add: gen_kem_keypair_def h25519_row gy_mlkem_keypair_def toy_fields)

lemma toy_encaps: "kem_encaps h25519 ek r = Some (Inr (replicate 768 3, replicate 32 4), Suc r)"
  by (simp add: kem_encaps_def h25519_row gy_mlkem_encaps_def toy_fields)

lemma toy_dh_pairs:
  "\<exists>x. op_dh h25519 (kp_sk (toy_curve 20)) (pub_pk (kp_pub (toy_curve 2))) = Inr x"
  "\<exists>x. op_dh h25519 (kp_sk (toy_curve 41)) (pub_pk (kp_pub (toy_curve 20))) = Inr x"
  "pub_pk (kp_pub (toy_curve 41)) \<noteq> pub_pk (kp_pub (toy_curve 2))"
proof -
  have "case op_dh h25519 (kp_sk (toy_curve 20)) (pub_pk (kp_pub (toy_curve 2))) of Inl e \<Rightarrow> False | Inr y \<Rightarrow> True" by code_simp
  from case_InrD [OF this] show "\<exists>x. op_dh h25519 (kp_sk (toy_curve 20)) (pub_pk (kp_pub (toy_curve 2))) = Inr x" by blast
  have "case op_dh h25519 (kp_sk (toy_curve 41)) (pub_pk (kp_pub (toy_curve 20))) of Inl e \<Rightarrow> False | Inr y \<Rightarrow> True" by code_simp
  from case_InrD [OF this] show "\<exists>x. op_dh h25519 (kp_sk (toy_curve 41)) (pub_pk (kp_pub (toy_curve 20))) = Inr x" by blast
  show "pub_pk (kp_pub (toy_curve 41)) \<noteq> pub_pk (kp_pub (toy_curve 2))" by code_simp
qed

abbreviation toy_id_ek :: bytes where "toy_id_ek \<equiv> replicate 800 5"
abbreviation toy_id_dk :: bytes where "toy_id_dk \<equiv> replicate 1632 5"

lemma toy_hash_total: "\<exists>y. op_hash h25519 x = Inr y"
  using toy_live_rows(2) unfolding live_suite_def suite_ok_def by blast

lemma toy_hybrid_alice:
  obtains A r' where "gy_hybrid_dr_init_alice toy h25519 1 toy_secrets (hk_pub (toy_hybrid_key 2)) 5 toy_id_dk 20 = Some (Inr A, r')"
    "dr_dhs (hd_base A) = toy_curve 20" "dr_desc (hd_base A) = h25519" "hd_mlkem_ek A = replicate 800 21"
    "dr_have_cks (hd_base A) = 1" "dr_have_hks (hd_base A) = 1" "hd_have_kem_ct A = 1" "dr_aead_id (hd_base A) = 1"
    "dr_ns (hd_base A) = 0" "dr_dhr (hd_base A) = pub_pk (kp_pub (toy_curve 2))"
proof -
  obtain dh where dh: "op_dh h25519 (kp_sk (toy_curve 20)) (pub_pk (kp_pub (toy_curve 2))) = Inr dh" using toy_dh_pairs(1) by blast
  obtain hdh where f: "hybrid_combine h25519 (replicate 32 4) dh = Inr hdh" using toy_hash_total by (auto simp: hybrid_combine_def)
  obtain rk cks nhks where r: "root_kdf toy h25519 (sd_sk_dr toy_secrets) hdh = Inr (rk, cks, nhks)"
    using kdf_rk_total [OF toy_live_rows(2)] unfolding root_kdf_def by blast
  have pk: "pub_pk (hp_curve (hk_pub (toy_hybrid_key 2))) = pub_pk (kp_pub (toy_curve 2))" by (simp add: toy_hybrid_key_def)
  have g: "gen_curve_keypair toy h25519 20 = Some (Inr (toy_curve 20), 21)" "gen_kem_keypair h25519 21 = Some (Inr (replicate 800 21, replicate 1632 21), 22)"
    using toy_gen_curve [of 20] toy_gen_kem [of 21] by simp_all
  obtain A where A: "gy_hybrid_dr_init_alice toy h25519 1 toy_secrets (hk_pub (toy_hybrid_key 2)) 5 toy_id_dk 20 = Some (Inr A, 23)"
    using g dh f r toy_encaps
    by (simp add: gy_hybrid_dr_init_alice_def Let_def h25519_row(2) cbind_def pk hd_zero_def dr_zero_def)
  show thesis
  proof (rule that [OF A])
    show "dr_dhs (hd_base A) = toy_curve 20" "dr_desc (hd_base A) = h25519" "hd_mlkem_ek A = replicate 800 21"
      "dr_have_cks (hd_base A) = 1" "dr_have_hks (hd_base A) = 1" "hd_have_kem_ct A = 1" "dr_aead_id (hd_base A) = 1"
      "dr_ns (hd_base A) = 0" "dr_dhr (hd_base A) = pub_pk (kp_pub (toy_curve 2))"
      by (rule init_alice_cases [OF A], use g in \<open>simp add: dr_zero_def pk\<close>)+
  qed
qed

lemmas toy_kem_laws = toy_live_rows(2) toy_dh_commutes toy_dh_lengths toy_kem_correct toy_kem_lengths

lemma toy_bob_start:
  obtains B where "gy_hybrid_dr_init_bob h25519 1 toy_secrets (toy_hybrid_key 2) 5 toy_id_ek = Inr B"
    "hd_start toy B" "dr_skipped (hd_base B) = empty_store" "dr_have_hkr (hd_base B) = 0" "dr_have_ckr (hd_base B) = 0"
    "hd_mlkem_counter B = 5" "hd_mlkem_interval B = 5" "hd_confirm_pending B = 1" "dr_desc (hd_base B) = h25519"
    "hd_id_mlkem_ek B = toy_id_ek" "hd_role B = GY_HYBRID_ROLE_RESPONDER"
proof -
  obtain B where B: "gy_hybrid_dr_init_bob h25519 1 toy_secrets (toy_hybrid_key 2) 5 toy_id_ek = Inr B"
    by (simp add: gy_hybrid_dr_init_bob_def h25519_row(2))
  have w: "secrets_wf toy_secrets" by (simp add: secrets_wf_def toy_secrets_def GY_DR_SECRET_LEN_def)
  show thesis
    by (rule that [OF B hd_start.bob [OF B toy_live_rows(2) w]])
      (use B in \<open>auto simp: gy_hybrid_dr_init_bob_def h25519_row(2) hd_zero_def dr_zero_def\<close>)
qed

theorem hybrid_delivery_new_epoch_witness:
  "\<exists>A r' B msg A' r1 B' q'.
     gy_hybrid_dr_init_alice toy h25519 1 toy_secrets (hk_pub (toy_hybrid_key 2)) 5 toy_id_dk 20 = Some (Inr A, r') \<and>
     gy_hybrid_dr_init_bob h25519 1 toy_secrets (toy_hybrid_key 2) 5 toy_id_ek = Inr B \<and>
     gy_hybrid_dr_encrypt toy A 9000 [1, 2, 3] [] 30 = (Inr msg, A', r1) \<and>
     gy_hybrid_dr_decrypt_assoc toy B 300 msg [] 40 = Some (Inr [1, 2, 3], True, B', q') \<and> hd_turn_sync toy B' A'"
proof -
  obtain A r' where A: "gy_hybrid_dr_init_alice toy h25519 1 toy_secrets (hk_pub (toy_hybrid_key 2)) 5 toy_id_dk 20 = Some (Inr A, r')"
    "dr_dhs (hd_base A) = toy_curve 20" "dr_desc (hd_base A) = h25519" "hd_mlkem_ek A = replicate 800 21"
    "dr_have_cks (hd_base A) = 1" "dr_have_hks (hd_base A) = 1" "hd_have_kem_ct A = 1" "dr_aead_id (hd_base A) = 1"
    "dr_ns (hd_base A) = 0" "dr_dhr (hd_base A) = pub_pk (kp_pub (toy_curve 2))"
    by (rule toy_hybrid_alice)
  obtain B where B: "gy_hybrid_dr_init_bob h25519 1 toy_secrets (toy_hybrid_key 2) 5 toy_id_ek = Inr B"
    "dr_skipped (hd_base B) = empty_store" "dr_have_hkr (hd_base B) = 0" "dr_have_ckr (hd_base B) = 0"
    "hd_mlkem_counter B = 5" "hd_mlkem_interval B = 5" "hd_confirm_pending B = 1" "dr_desc (hd_base B) = h25519"
    by (rule toy_bob_start)
  have sync: "hd_turn_sync toy A B"
    using hybrid_init_turn_sync [OF toy_kem_laws toy_hybrid_key_of toy_kem_generated A(1)] B(1) by auto
  have wf: "hybrid_header_wf h25519 (hybrid_header_of A)" using sync A(3) by (simp add: hd_turn_sync_def)
  obtain msg A' r1 where enc: "gy_hybrid_dr_encrypt toy A 9000 [1, 2, 3] [] 30 = (Inr msg, A', r1)"
    using hybrid_encrypt_succeeds [of toy A "[]" "[1, 2, 3]" 9000 30] A wf toy_facts toy_aead_available
    by (auto simp: h25519_row(2) SIZE_MAX_def GY_DR_HYBRID_HEADER_MAX_def)
  obtain R where R: "hybrid_refresh toy B 40 = Some (Inr (R, True), 42)" "dr_dhs (hd_base R) = toy_curve 41"
    using toy_gen_kem [of 40] toy_gen_curve [of 41] B(5,6,8) by (simp add: hybrid_refresh_def Let_def cbind_def)
  obtain dhn where dhn: "op_dh h25519 (kp_sk (toy_curve 41)) (pub_pk (kp_pub (toy_curve 20))) = Inr dhn" using toy_dh_pairs(2) by blast
  have c: "confirm_encaps B 43 = Some (Inr (replicate 768 3, 1, replicate 32 4), 44)"
    using toy_encaps [of _ 43] B(7,8) by (simp add: confirm_encaps_def cbind_def)
  have e: "kem_encaps (dr_desc (hd_base A)) (hd_mlkem_ek A) 42 = Some (Inr (replicate 768 3, replicate 32 4), 43)"
    using toy_encaps [of _ 42] A(3) by simp
  have stray: "hd_no_stray toy (hd_base B) msg" using B(2,3) by (simp add: hd_no_stray_def)
  have live: "live_suite toy (dr_desc (hd_base A))" using A(3) by simp
  have "\<exists>B'. gy_hybrid_dr_decrypt_assoc toy B 300 msg [] 40 = Some (Inr [1, 2, 3], True, B', 44) \<and> hd_turn_sync toy B' A' \<and>
     (hd_role B \<noteq> GY_HYBRID_ROLE_RESPONDER \<longrightarrow> hd_pq_state B' = GY_HYBRID_PQ_CONFIRMED)"
    by (rule hybrid_delivery_new_epoch [OF toy_hash_lengths toy_aead_lengths toy_aead_correct live toy_dh_commutes toy_dh_lengths
        toy_kem_correct toy_kem_lengths enc sync stray _ _ _ R(1) e c])
      (use A B R dhn toy_dh_pairs(3) in simp_all)
  then show ?thesis using A(1) B(1) enc by blast
qed

theorem hybrid_pq_machine_witness:
  "\<exists>B B'. hd_start toy B \<and> hd_step toy B B' \<and> hd_inv B' \<and> hd_role B' = GY_HYBRID_ROLE_RESPONDER"
proof -
  obtain B where B: "hd_start toy B" "hd_role B = GY_HYBRID_ROLE_RESPONDER" by (rule toy_bob_start)
  obtain res B' r' where "gy_hybrid_dr_encrypt toy B 9000 [1] [] 0 = (res, B', r')"
    by (cases "gy_hybrid_dr_encrypt toy B 9000 [1] [] 0")
  then have s: "hd_step toy B B'" by (rule hd_step.encrypt)
  from hybrid_pq_machine [OF B(1) rtranclp.rtrancl_refl s] show ?thesis using B s by auto
qed

end
