(* ===== verification/GY_Session.thy ===== *)
theory GY_Session
  imports GY_HybridRatchet
begin

text \<open>
  The Sesame records of \<^verbatim>\<open>src/session/session.c\<close>: sessions, device records (classical and
  hybrid) and user records, with their versioned blob codecs.

  A fixed C array together with its length field is a list; a fixed array without a length field
  is a list whose missing tail is the zero tail of the array, and \<open>arr n b\<close> is what the first
  \<open>n\<close> bytes of such an array hold. The cursors \<open>wcur\<close> and \<open>rcur\<close> keep the \<open>ok\<close> flag of the code.
  The reader functions return \<open>None\<close> where the code clears \<open>ok\<close> and returns at once because a
  value is out of range; every caller answers that with \<open>GY_ERR_ARG\<close>.
\<close>

subsection \<open>Constants and records\<close>

definition GY_SESSION_ID_LEN :: nat where "GY_SESSION_ID_LEN = 4"
definition GY_SESSION_INACTIVE_MAX :: nat where "GY_SESSION_INACTIVE_MAX = 40"
definition GY_DEVICE_MAX :: nat where "GY_DEVICE_MAX = 32"
definition GY_USER_ID_MAX :: nat where "GY_USER_ID_MAX = 64"
definition GY_DEVICE_ID_MAX :: nat where "GY_DEVICE_ID_MAX = 64"
definition GY_DEVKEY_LEN :: nat where "GY_DEVKEY_LEN = 64"
definition GY_REC_FMT_V1 :: u8 where "GY_REC_FMT_V1 = 0x01"
definition GY_SESSION_BLOB_MAX :: nat where "GY_SESSION_BLOB_MAX = 106000"
definition GY_DEVICE_BLOB_MAX :: nat where "GY_DEVICE_BLOB_MAX = 512"
definition GY_USER_BLOB_MAX :: nat where "GY_USER_BLOB_MAX = 2304"
definition GY_HYBRID_DEVICE_BLOB_MAX :: nat where
  "GY_HYBRID_DEVICE_BLOB_MAX = GY_DEVICE_BLOB_MAX + 1568 + 2592"
definition GY_SESSION_AD_MAX :: nat where "GY_SESSION_AD_MAX = 2 * 64 + 4"
definition GY_SESSION_HASH_MAX :: nat where "GY_SESSION_HASH_MAX = 64"

lemmas session_consts = GY_SESSION_ID_LEN_def GY_SESSION_INACTIVE_MAX_def GY_DEVICE_MAX_def
  GY_USER_ID_MAX_def GY_DEVICE_ID_MAX_def GY_DEVKEY_LEN_def GY_REC_FMT_V1_def GY_SESSION_AD_MAX_def
  GY_SESSION_HASH_MAX_def

record gy_session =
  s_ratchet :: gy_hybrid_dr_state
  s_id :: bytes
  s_base :: bytes
  s_pq_pending :: u8
  s_ad :: bytes
  s_created_at :: u64
  s_activated_at :: u64
  s_last_recv_at :: u64
  s_nsend :: u32
  s_nrecv :: u32

record gy_device_record =
  d_suite_id :: u8
  d_device_id :: bytes
  d_ik :: gy_public_key
  d_fingerprint :: bytes
  d_has_active :: u8
  d_active :: bytes
  d_inactive :: "bytes list"
  d_stale :: u8
  d_stale_at :: u64

record gy_hybrid_device_record =
  hdv_base :: gy_device_record
  hdv_mlkem_ek :: bytes
  hdv_mldsa_pk :: bytes

record user_device =
  ud_id :: bytes
  ud_stale :: u8

record gy_user_record =
  u_suite_id :: u8
  u_user_id :: bytes
  u_devices :: "user_device list"
  u_stale :: u8

subsection \<open>Cursors\<close>

definition arr :: "nat \<Rightarrow> bytes \<Rightarrow> bytes" where
  "arr n b = take n b @ replicate (n - length b) 0"

record wcur =
  wc_out :: bytes
  wc_cap :: nat
  wc_ok :: bool

record rcur =
  rc_rest :: bytes
  rc_ok :: bool

definition w_raw :: "bytes \<Rightarrow> nat \<Rightarrow> wcur \<Rightarrow> wcur" where
  "w_raw b n w =
     (if \<not> wc_ok w then w
      else if n > wc_cap w - length (wc_out w) then w\<lparr>wc_ok := False\<rparr>
      else w\<lparr>wc_out := wc_out w @ arr n b\<rparr>)"

definition w_u8 :: "u8 \<Rightarrow> wcur \<Rightarrow> wcur" where
  "w_u8 v w = w_raw [v] 1 w"

definition w_be32 :: "u32 \<Rightarrow> wcur \<Rightarrow> wcur" where
  "w_be32 v w = w_raw (gy_be32_put v) 4 w"

definition w_be64 :: "u64 \<Rightarrow> wcur \<Rightarrow> wcur" where
  "w_be64 v w = w_raw (gy_be64_put v) 8 w"

type_synonym 'a rd = "rcur \<Rightarrow> ('a \<times> rcur) option"

definition r_raw :: "nat \<Rightarrow> bytes rd" where
  "r_raw n r =
     (if \<not> rc_ok r then Some (replicate n 0, r)
      else if n > length (rc_rest r) then Some (replicate n 0, r\<lparr>rc_ok := False\<rparr>)
      else Some (take n (rc_rest r), r\<lparr>rc_rest := drop n (rc_rest r)\<rparr>))"

definition rd_bind :: "'a rd \<Rightarrow> ('a \<Rightarrow> 'b rd) \<Rightarrow> 'b rd" where
  "rd_bind m k r = (case m r of None \<Rightarrow> None | Some (x, r') \<Rightarrow> k x r')"

definition rd_return :: "'a \<Rightarrow> 'a rd" where
  "rd_return x r = Some (x, r)"

text \<open>The range tests: \<^verbatim>\<open>if (bad) { r->ok = 0; return; }\<close>.\<close>

definition rd_refuse :: "bool \<Rightarrow> 'a rd \<Rightarrow> 'a rd" where
  "rd_refuse bad k r = (if bad then None else k r)"

definition r_u8 :: "u8 rd" where
  "r_u8 = rd_bind (r_raw 1) (\<lambda>b. rd_return (b ! 0))"

definition r_be32 :: "u32 rd" where
  "r_be32 = rd_bind (r_raw 4) (\<lambda>b. rd_return (gy_be32_get b))"

definition r_be64 :: "u64 rd" where
  "r_be64 = rd_bind (r_raw 8) (\<lambda>b. rd_return (gy_be64_get b))"

text \<open>A reader run by a public decoder: the whole input has to be consumed with the flag up.\<close>

definition rd_finish :: "('a \<times> rcur) option \<Rightarrow> 'a res" where
  "rd_finish x = (case x of None \<Rightarrow> Inl GY_ERR_ARG
     | Some (v, r) \<Rightarrow> if \<not> rc_ok r \<or> rc_rest r \<noteq> [] then Inl GY_ERR_ARG else Inr v)"

definition w_finish :: "wcur \<Rightarrow> bytes res" where
  "w_finish w = (if \<not> wc_ok w then Inl GY_ERR_ARG else Inr (wc_out w))"

subsection \<open>Session identifier\<close>

definition gy_session_id ::
    "gy_suite_desc \<Rightarrow> gy_public_key \<Rightarrow> gy_public_key \<Rightarrow> gy_session \<Rightarrow> gy_session res" where
  "gy_session_id desc ik_a ek_a s =
     (if pub_curve_type ik_a \<noteq> curve_type desc \<or> pub_curve_type ek_a \<noteq> curve_type desc
      then Inl GY_ERR_STATE
      else
        rbind (gy_encode_ec 114 (pub_curve_type ik_a) (pub_pk ik_a)) (\<lambda>a.
        rbind (gy_encode_ec (114 - length a) (pub_curve_type ek_a) (pub_pk ek_a)) (\<lambda>e.
        rbind (op_hash desc (suite_id desc # a @ e)) (\<lambda>hash.
          Inr (s\<lparr>s_base := take (hash_len desc) hash, s_id := take GY_SESSION_ID_LEN hash\<rparr>)))))"

subsection \<open>Ratchet state\<close>

definition hybrid_pq_encode :: "gy_hybrid_dr_state \<Rightarrow> wcur \<Rightarrow> wcur" where
  "hybrid_pq_encode rt w =
     (let d = dr_desc (hd_base rt); ek = kem_pk_len d; dk = kem_sk_len d; ct = kem_ct_len d;
          w = w_raw (hd_mlkem_ek rt) ek w;
          w = w_raw (hd_mlkem_dk rt) dk w;
          w = w_raw (hd_remote_ek rt) ek w;
          w = w_raw (hd_kem_ct rt) ct w;
          w = w_raw (hd_confirm_ct rt) ct w;
          w = w_raw (hd_id_mlkem_ek rt) ek w;
          w = w_raw (hd_id_mlkem_dk rt) dk w;
          w = w_be32 (hd_mlkem_counter rt) w;
          w = w_be32 (hd_mlkem_interval rt) w;
          w = w_u8 (hd_have_remote_ek rt) w;
          w = w_u8 (hd_have_kem_ct rt) w;
          w = w_u8 (hd_send_ek_pending rt) w;
          w = w_u8 (hd_role rt) w;
          w = w_u8 (hd_pq_state rt) w;
          w = w_u8 (hd_confirm_pending rt) w;
          w = w_u8 (hd_send_confirm_pending rt) w;
          w = w_u8 (hd_have_confirm_ct rt) w
      in w_u8 (hd_have_id_dk rt) w)"

definition dr_keys_encode :: "gy_dr_state \<Rightarrow> wcur \<Rightarrow> wcur" where
  "dr_keys_encode dr w =
     (let d = dr_desc dr; pk = curve_pk_len d; sk = curve_sk_len d;
          w = w_u8 (dr_aead_id dr) w;
          w = w_be32 (pub_pkid (kp_pub (dr_dhs dr))) w;
          w = w_u8 (pub_curve_type (kp_pub (dr_dhs dr))) w;
          w = w_raw (pub_pk (kp_pub (dr_dhs dr))) pk w;
          w = w_raw (kp_sk (dr_dhs dr)) sk w;
          w = w_u8 (dr_have_dhr dr) w;
          w = w_raw (dr_dhr dr) pk w;
          w = w_raw (dr_rk dr) 32 w;
          w = w_raw (dr_cks dr) 32 w;
          w = w_raw (dr_ckr dr) 32 w;
          w = w_raw (dr_hks dr) 32 w;
          w = w_raw (dr_hkr dr) 32 w;
          w = w_raw (dr_nhks dr) 32 w;
          w = w_raw (dr_nhkr dr) 32 w;
          w = w_be32 (dr_ns dr) w;
          w = w_be32 (dr_nr dr) w;
          w = w_be32 (dr_pn dr) w;
          w = w_u8 (dr_have_cks dr) w;
          w = w_u8 (dr_have_ckr dr) w;
          w = w_u8 (dr_have_hks dr) w;
          w = w_u8 (dr_have_hkr dr) w;
          w = w_u8 (dr_have_nhks dr) w
      in w_u8 (dr_have_nhkr dr) w)"

definition skipped_key_encode :: "gy_skipped_key \<Rightarrow> wcur \<Rightarrow> wcur" where
  "skipped_key_encode e w =
     (let w = w_be32 (word_of_nat (sk_epoch e)) w;
          w = w_be32 (sk_n e) w;
          w = w_be64 (sk_age e) w
      in w_raw (sk_mk e) 32 w)"

definition epoch_encode :: "nat \<times> gy_skip_epoch \<Rightarrow> wcur \<Rightarrow> wcur" where
  "epoch_encode p w =
     (let w = w_be32 (word_of_nat (fst p)) w;
          w = w_be32 (word_of_nat (ep_refs (snd p))) w
      in w_raw (ep_hk (snd p)) 32 w)"

text \<open>The live slots of the epoch table with their indices, in the order of the table.\<close>

definition live_epochs :: "gy_skip_store \<Rightarrow> (nat \<times> gy_skip_epoch) list" where
  "live_epochs s = filter (\<lambda>p. ep_refs (snd p) > 0) (enumerate 0 (ss_epochs s))"

definition skipped_encode :: "gy_skip_store \<Rightarrow> wcur \<Rightarrow> wcur" where
  "skipped_encode s w =
     (let w = w_be64 (ss_recv_count s) w;
          w = w_be32 (word_of_nat (length (ss_ent s))) w;
          w = fold skipped_key_encode (ss_ent s) w;
          w = w_be32 (word_of_nat (length (live_epochs s))) w
      in fold epoch_encode (live_epochs s) w)"

definition dr_encode :: "gy_hybrid_dr_state \<Rightarrow> wcur \<Rightarrow> wcur" where
  "dr_encode rt w =
     (let w = dr_keys_encode (hd_base rt) w;
          w = skipped_encode (dr_skipped (hd_base rt)) w
      in if is_hybrid (dr_desc (hd_base rt)) then hybrid_pq_encode rt w else w)"

definition hybrid_pq_decode :: "gy_suite_desc \<Rightarrow> gy_hybrid_dr_state \<Rightarrow> gy_hybrid_dr_state rd" where
  "hybrid_pq_decode d rt =
     (let ek = kem_pk_len d; dk = kem_sk_len d; ct = kem_ct_len d in
      rd_bind (r_raw ek) (\<lambda>mek. rd_bind (r_raw dk) (\<lambda>mdk. rd_bind (r_raw ek) (\<lambda>rek.
      rd_bind (r_raw ct) (\<lambda>kct. rd_bind (r_raw ct) (\<lambda>cct.
      rd_bind (r_raw ek) (\<lambda>iek. rd_bind (r_raw dk) (\<lambda>idk.
      rd_bind r_be32 (\<lambda>counter. rd_bind r_be32 (\<lambda>interval.
      rd_bind r_u8 (\<lambda>have_remote. rd_bind r_u8 (\<lambda>have_ct. rd_bind r_u8 (\<lambda>ek_pending.
      rd_bind r_u8 (\<lambda>role. rd_bind r_u8 (\<lambda>pq_state. rd_bind r_u8 (\<lambda>confirm.
      rd_bind r_u8 (\<lambda>send_confirm. rd_bind r_u8 (\<lambda>have_confirm. rd_bind r_u8 (\<lambda>have_id.
        rd_return (rt\<lparr>hd_mlkem_ek := mek, hd_mlkem_dk := mdk, hd_remote_ek := rek, hd_kem_ct := kct,
          hd_confirm_ct := cct, hd_id_mlkem_ek := iek, hd_id_mlkem_dk := idk,
          hd_mlkem_counter := counter, hd_mlkem_interval := interval,
          hd_have_remote_ek := have_remote, hd_have_kem_ct := have_ct,
          hd_send_ek_pending := ek_pending, hd_role := role, hd_pq_state := pq_state,
          hd_confirm_pending := confirm, hd_send_confirm_pending := send_confirm,
          hd_have_confirm_ct := have_confirm, hd_have_id_dk := have_id\<rparr>))))))))))))))))))))"

definition dr_keys_decode :: "gy_suite_desc \<Rightarrow> gy_dr_state rd" where
  "dr_keys_decode d =
     (let pk = curve_pk_len d; sk = curve_sk_len d in
      rd_bind r_u8 (\<lambda>aead. rd_bind r_be32 (\<lambda>pkid. rd_bind r_u8 (\<lambda>ct.
      rd_bind (r_raw pk) (\<lambda>pub. rd_bind (r_raw sk) (\<lambda>sec.
      rd_bind r_u8 (\<lambda>have_dhr. rd_bind (r_raw pk) (\<lambda>dhr.
      rd_bind (r_raw 32) (\<lambda>rk. rd_bind (r_raw 32) (\<lambda>cks. rd_bind (r_raw 32) (\<lambda>ckr.
      rd_bind (r_raw 32) (\<lambda>hks. rd_bind (r_raw 32) (\<lambda>hkr.
      rd_bind (r_raw 32) (\<lambda>nhks. rd_bind (r_raw 32) (\<lambda>nhkr.
      rd_bind r_be32 (\<lambda>ns. rd_bind r_be32 (\<lambda>nr. rd_bind r_be32 (\<lambda>pn.
      rd_bind r_u8 (\<lambda>have_cks. rd_bind r_u8 (\<lambda>have_ckr.
      rd_bind r_u8 (\<lambda>have_hks. rd_bind r_u8 (\<lambda>have_hkr.
      rd_bind r_u8 (\<lambda>have_nhks. rd_bind r_u8 (\<lambda>have_nhkr.
        rd_return \<lparr>dr_desc = d, dr_aead_id = aead,
          dr_dhs = \<lparr>kp_pub = \<lparr>pub_pkid = pkid, pub_curve_type = ct, pub_pk = pub\<rparr>, kp_sk = sec\<rparr>,
          dr_dhr = dhr, dr_rk = rk, dr_cks = cks, dr_ckr = ckr, dr_hks = hks, dr_hkr = hkr,
          dr_nhks = nhks, dr_nhkr = nhkr, dr_ns = ns, dr_nr = nr, dr_pn = pn,
          dr_have_dhr = have_dhr, dr_have_cks = have_cks, dr_have_ckr = have_ckr,
          dr_have_hks = have_hks, dr_have_hkr = have_hkr, dr_have_nhks = have_nhks,
          dr_have_nhkr = have_nhkr, dr_skipped = empty_store\<rparr>))))))))))))))))))))))))"

definition skipped_key_decode :: "gy_skipped_key rd" where
  "skipped_key_decode =
     rd_bind r_be32 (\<lambda>epoch. rd_bind r_be32 (\<lambda>n. rd_bind r_be64 (\<lambda>age. rd_bind (r_raw 32) (\<lambda>mk.
       rd_refuse (unat epoch \<ge> GY_MAX_SKIP)
         (rd_return \<lparr>sk_epoch = unat epoch, sk_n = n, sk_age = age, sk_mk = mk\<rparr>)))))"

text \<open>One turn of the loop over the live slots: slot number, reference count and header key.\<close>

definition epoch_decode :: "gy_skip_epoch list \<Rightarrow> gy_skip_epoch list rd" where
  "epoch_decode es =
     rd_bind r_be32 (\<lambda>slot. rd_bind r_be32 (\<lambda>refs.
       rd_refuse (unat slot \<ge> GY_MAX_SKIP \<or> refs = 0 \<or> unat refs > GY_MAX_SKIP)
         (rd_bind (r_raw 32) (\<lambda>hk.
           rd_return (es[unat slot := \<lparr>ep_hk = hk, ep_refs = unat refs\<rparr>])))))"

fun rd_list :: "nat \<Rightarrow> 'a rd \<Rightarrow> 'a list rd" where
  "rd_list 0 f = rd_return []"
| "rd_list (Suc n) f = rd_bind f (\<lambda>x. rd_bind (rd_list n f) (\<lambda>xs. rd_return (x # xs)))"

fun rd_iter :: "nat \<Rightarrow> ('a \<Rightarrow> 'a rd) \<Rightarrow> 'a \<Rightarrow> 'a rd" where
  "rd_iter 0 f x = rd_return x"
| "rd_iter (Suc n) f x = rd_bind (f x) (rd_iter n f)"

definition skipped_decode :: "gy_skip_store rd" where
  "skipped_decode =
     rd_bind r_be64 (\<lambda>recv_count. rd_bind r_be32 (\<lambda>count.
       rd_refuse (unat count > GY_MAX_SKIP)
         (rd_bind (rd_list (unat count) skipped_key_decode) (\<lambda>ent.
          rd_bind r_be32 (\<lambda>live.
            rd_refuse (unat live > GY_MAX_SKIP)
              (rd_bind (rd_iter (unat live) epoch_decode (ss_epochs empty_store)) (\<lambda>epochs.
                rd_return \<lparr>ss_ent = ent, ss_epochs = epochs, ss_recv_count = recv_count\<rparr>)))))))"

definition dr_decode :: "gy_suite_desc \<Rightarrow> gy_hybrid_dr_state rd" where
  "dr_decode d =
     rd_bind (dr_keys_decode d) (\<lambda>dr. rd_bind skipped_decode (\<lambda>sk.
       let rt = (hd_zero d 0)\<lparr>hd_base := dr\<lparr>dr_skipped := sk\<rparr>\<rparr> in
       if is_hybrid d then hybrid_pq_decode d rt else rd_return rt))"

subsection \<open>Session blobs\<close>

definition gy_session_encode :: "nat \<Rightarrow> gy_session \<Rightarrow> bytes res" where
  "gy_session_encode cap s =
     (let w = \<lparr>wc_out = [], wc_cap = cap, wc_ok = True\<rparr>;
          d = dr_desc (hd_base (s_ratchet s));
          w = w_u8 GY_REC_FMT_V1 w;
          w = w_u8 0 w;
          w = w_u8 (suite_id d) w;
          w = w_u8 (word_of_nat (length (s_base s))) w;
          w = w_raw (s_base s) (length (s_base s)) w;
          w = w_raw (s_id s) GY_SESSION_ID_LEN w;
          w = w_be64 (s_created_at s) w;
          w = w_be64 (s_activated_at s) w;
          w = w_be64 (s_last_recv_at s) w;
          w = w_be32 (s_nsend s) w;
          w = w_be32 (s_nrecv s) w;
          w = w_u8 (s_pq_pending s) w;
          w = w_u8 (word_of_nat (length (s_ad s))) w;
          w = w_raw (s_ad s) (length (s_ad s)) w;
          w = dr_encode (s_ratchet s) w
      in w_finish w)"

definition session_body_decode :: "gy_suite_desc \<Rightarrow> gy_session rd" where
  "session_body_decode d =
     rd_bind r_u8 (\<lambda>base_len. rd_refuse (unat base_len > GY_SESSION_HASH_MAX)
     (rd_bind (r_raw (unat base_len)) (\<lambda>base. rd_bind (r_raw GY_SESSION_ID_LEN) (\<lambda>id1.
      rd_bind r_be64 (\<lambda>created. rd_bind r_be64 (\<lambda>activated. rd_bind r_be64 (\<lambda>last_recv.
      rd_bind r_be32 (\<lambda>nsend. rd_bind r_be32 (\<lambda>nrecv. rd_bind r_u8 (\<lambda>pq_pending.
      rd_bind r_u8 (\<lambda>ad_len. rd_refuse (unat ad_len > GY_SESSION_AD_MAX)
     (rd_bind (r_raw (unat ad_len)) (\<lambda>ad. rd_bind (dr_decode d) (\<lambda>rt.
        rd_return \<lparr>s_ratchet = rt, s_id = id1, s_base = base, s_pq_pending = pq_pending, s_ad = ad,
          s_created_at = created, s_activated_at = activated, s_last_recv_at = last_recv,
          s_nsend = nsend, s_nrecv = nrecv\<rparr>))))))))))))))"

text \<open>
  The three-byte prefix every blob starts with: format, reserved byte, suite. The decoders
  of the record types differ only in what they require of the suite and in the body.
\<close>

definition r_prefix :: "u8 rd" where
  "r_prefix = rd_bind r_u8 (\<lambda>fmt. rd_refuse (fmt \<noteq> GY_REC_FMT_V1)
     (rd_bind r_u8 (\<lambda>reserved. rd_refuse (reserved \<noteq> 0) r_u8)))"

definition gy_session_decode :: "provider \<Rightarrow> bytes \<Rightarrow> gy_session res" where
  "gy_session_decode L inp =
     rd_finish (rd_bind r_prefix (\<lambda>sid. case gy_suite_desc L sid of
         None \<Rightarrow> (\<lambda>_. None) | Some d \<Rightarrow> session_body_decode d)
       \<lparr>rc_rest = inp, rc_ok = True\<rparr>)"

subsection \<open>Device records\<close>

definition devrec_body_encode :: "gy_suite_desc \<Rightarrow> gy_device_record \<Rightarrow> wcur \<Rightarrow> wcur" where
  "devrec_body_encode dd d w =
     (let w = w_u8 (word_of_nat (length (d_device_id d))) w;
          w = w_raw (d_device_id d) (length (d_device_id d)) w;
          w = w_be32 (pub_pkid (d_ik d)) w;
          w = w_u8 (pub_curve_type (d_ik d)) w;
          w = w_raw (pub_pk (d_ik d)) (curve_pk_len dd) w;
          w = w_u8 (word_of_nat (length (d_fingerprint d))) w;
          w = w_raw (d_fingerprint d) (length (d_fingerprint d)) w;
          w = w_u8 (d_has_active d) w;
          w = w_raw (d_active d) GY_SESSION_ID_LEN w;
          w = w_u8 (d_stale d) w;
          w = w_be64 (d_stale_at d) w;
          w = w_be32 (word_of_nat (length (d_inactive d))) w
      in fold (\<lambda>i. w_raw i GY_SESSION_ID_LEN) (d_inactive d) w)"

definition devrec_body_decode :: "u8 \<Rightarrow> gy_suite_desc \<Rightarrow> gy_device_record rd" where
  "devrec_body_decode sid dd =
     rd_bind r_u8 (\<lambda>id_len. rd_refuse (id_len = 0 \<or> unat id_len > GY_DEVICE_ID_MAX)
     (rd_bind (r_raw (unat id_len)) (\<lambda>dev. rd_bind r_be32 (\<lambda>pkid. rd_bind r_u8 (\<lambda>ct.
      rd_bind (r_raw (curve_pk_len dd)) (\<lambda>pk.
      rd_bind r_u8 (\<lambda>fp_len. rd_refuse (unat fp_len > GY_SESSION_HASH_MAX)
     (rd_bind (r_raw (unat fp_len)) (\<lambda>fp. rd_bind r_u8 (\<lambda>has_active.
      rd_bind (r_raw GY_SESSION_ID_LEN) (\<lambda>active. rd_bind r_u8 (\<lambda>stale. rd_bind r_be64 (\<lambda>stale_at.
      rd_bind r_be32 (\<lambda>n. rd_refuse (unat n > GY_SESSION_INACTIVE_MAX)
     (rd_bind (rd_list (unat n) (r_raw GY_SESSION_ID_LEN)) (\<lambda>ids.
        rd_return \<lparr>d_suite_id = sid, d_device_id = dev,
          d_ik = \<lparr>pub_pkid = pkid, pub_curve_type = ct, pub_pk = pk\<rparr>, d_fingerprint = fp,
          d_has_active = has_active, d_active = active, d_inactive = ids, d_stale = stale,
          d_stale_at = stale_at\<rparr>))))))))))))))))"

definition gy_device_record_encode :: "provider \<Rightarrow> nat \<Rightarrow> gy_device_record \<Rightarrow> bytes res" where
  "gy_device_record_encode L cap d =
     (case gy_suite_desc L (d_suite_id d) of None \<Rightarrow> Inl GY_ERR_STATE
      | Some dd \<Rightarrow>
          let w = \<lparr>wc_out = [], wc_cap = cap, wc_ok = True\<rparr>;
              w = w_u8 GY_REC_FMT_V1 w; w = w_u8 0 w; w = w_u8 (d_suite_id d) w
          in w_finish (devrec_body_encode dd d w))"

definition gy_device_record_decode :: "provider \<Rightarrow> bytes \<Rightarrow> gy_device_record res" where
  "gy_device_record_decode L inp =
     rd_finish (rd_bind r_prefix (\<lambda>sid. case gy_suite_desc L sid of
         None \<Rightarrow> (\<lambda>_. None) | Some dd \<Rightarrow> devrec_body_decode sid dd)
       \<lparr>rc_rest = inp, rc_ok = True\<rparr>)"

definition gy_hybrid_device_record_encode ::
    "provider \<Rightarrow> nat \<Rightarrow> gy_hybrid_device_record \<Rightarrow> bytes res" where
  "gy_hybrid_device_record_encode L cap d =
     (case gy_suite_desc L (d_suite_id (hdv_base d)) of None \<Rightarrow> Inl GY_ERR_STATE
      | Some dd \<Rightarrow>
          if \<not> is_hybrid dd then Inl GY_ERR_STATE
          else
            let w = \<lparr>wc_out = [], wc_cap = cap, wc_ok = True\<rparr>;
                w = w_u8 GY_REC_FMT_V1 w; w = w_u8 0 w; w = w_u8 (d_suite_id (hdv_base d)) w;
                w = devrec_body_encode dd (hdv_base d) w;
                w = w_raw (hdv_mlkem_ek d) (kem_pk_len dd) w
            in w_finish (w_raw (hdv_mldsa_pk d) (dsa_pk_len dd) w))"

definition gy_hybrid_device_record_decode :: "provider \<Rightarrow> bytes \<Rightarrow> gy_hybrid_device_record res" where
  "gy_hybrid_device_record_decode L inp =
     rd_finish (rd_bind r_prefix (\<lambda>sid. case gy_suite_desc L sid of
         None \<Rightarrow> (\<lambda>_. None)
       | Some dd \<Rightarrow> rd_refuse (\<not> is_hybrid dd)
           (rd_bind (devrec_body_decode sid dd) (\<lambda>base.
            rd_bind (r_raw (kem_pk_len dd)) (\<lambda>ek. rd_bind (r_raw (dsa_pk_len dd)) (\<lambda>pk.
              rd_return \<lparr>hdv_base = base, hdv_mlkem_ek = ek, hdv_mldsa_pk = pk\<rparr>)))))
       \<lparr>rc_rest = inp, rc_ok = True\<rparr>)"

subsection \<open>User records\<close>

definition user_device_encode :: "user_device \<Rightarrow> wcur \<Rightarrow> wcur" where
  "user_device_encode v w =
     (let w = w_u8 (word_of_nat (length (ud_id v))) w;
          w = w_raw (ud_id v) (length (ud_id v)) w
      in w_u8 (ud_stale v) w)"

definition user_device_decode :: "user_device rd" where
  "user_device_decode =
     rd_bind r_u8 (\<lambda>n. rd_refuse (n = 0 \<or> unat n > GY_DEVICE_ID_MAX)
       (rd_bind (r_raw (unat n)) (\<lambda>dev. rd_bind r_u8 (\<lambda>stale.
          rd_return \<lparr>ud_id = dev, ud_stale = stale\<rparr>))))"

definition gy_user_record_encode :: "nat \<Rightarrow> gy_user_record \<Rightarrow> bytes res" where
  "gy_user_record_encode cap u =
     (let w = \<lparr>wc_out = [], wc_cap = cap, wc_ok = True\<rparr>;
          w = w_u8 GY_REC_FMT_V1 w; w = w_u8 0 w; w = w_u8 (u_suite_id u) w;
          w = w_u8 (word_of_nat (length (u_user_id u))) w;
          w = w_raw (u_user_id u) (length (u_user_id u)) w;
          w = w_u8 (u_stale u) w;
          w = w_be32 (word_of_nat (length (u_devices u))) w
      in w_finish (fold user_device_encode (u_devices u) w))"

definition gy_user_record_decode :: "bytes \<Rightarrow> gy_user_record res" where
  "gy_user_record_decode inp =
     rd_finish (rd_bind r_prefix (\<lambda>sid.
       rd_bind r_u8 (\<lambda>n. rd_refuse (n = 0 \<or> unat n > GY_USER_ID_MAX)
       (rd_bind (r_raw (unat n)) (\<lambda>user. rd_bind r_u8 (\<lambda>stale.
        rd_bind r_be32 (\<lambda>k. rd_refuse (unat k > GY_DEVICE_MAX)
       (rd_bind (rd_list (unat k) user_device_decode) (\<lambda>devs.
          rd_return \<lparr>u_suite_id = sid, u_user_id = user, u_devices = devs, u_stale = stale\<rparr>))))))))
       \<lparr>rc_rest = inp, rc_ok = True\<rparr>)"

subsection \<open>Cursor facts\<close>

lemma length_arr [simp]: "length (arr n b) = n"
  by (auto simp: arr_def)

lemma arr_id: "length b = n \<Longrightarrow> arr n b = b"
  by (simp add: arr_def)

lemma arr_arr [simp]: "arr n (arr n b) = arr n b"
  by (simp add: arr_id)

text \<open>\<open>wst w cap bs\<close>: the bytes \<open>bs\<close> have been sent to a cursor of capacity \<open>cap\<close>.\<close>

definition wst :: "wcur \<Rightarrow> nat \<Rightarrow> bytes \<Rightarrow> bool" where
  "wst w cap bs \<longleftrightarrow> wc_cap w = cap \<and> (wc_ok w \<longleftrightarrow> length bs \<le> cap) \<and> (wc_ok w \<longrightarrow> wc_out w = bs)"

lemma wst_init: "wst \<lparr>wc_out = [], wc_cap = cap, wc_ok = True\<rparr> cap []"
  by (simp add: wst_def)

lemma wst_raw: "wst w cap bs \<Longrightarrow> wst (w_raw b n w) cap (bs @ arr n b)"
  by (auto simp: wst_def w_raw_def)

lemma wst_u8: "wst w cap bs \<Longrightarrow> wst (w_u8 v w) cap (bs @ [v])"
  using wst_raw [of w cap bs "[v]" 1] by (simp add: w_u8_def arr_id)

lemma wst_be32: "wst w cap bs \<Longrightarrow> wst (w_be32 v w) cap (bs @ gy_be32_put v)"
  using wst_raw [of w cap bs "gy_be32_put v" 4] by (simp add: w_be32_def arr_id)

lemma wst_be64: "wst w cap bs \<Longrightarrow> wst (w_be64 v w) cap (bs @ gy_be64_put v)"
  using wst_raw [of w cap bs "gy_be64_put v" 8] by (simp add: w_be64_def arr_id)

lemma wst_fold:
  assumes "\<And>x w bs. wst w cap bs \<Longrightarrow> wst (f x w) cap (bs @ enc x)" and "wst w cap bs"
  shows "wst (fold f xs w) cap (bs @ concat (map enc xs))"
  using assms(2)
proof (induction xs arbitrary: w bs)
  case Nil
  then show ?case by simp
next
  case (Cons x xs)
  from Cons.IH [OF assms(1) [OF Cons.prems]] show ?case by simp
qed

lemma wst_eq: "wst w cap xs \<Longrightarrow> xs = ys \<Longrightarrow> wst w cap ys"
  by simp

lemma wst_finish: "wst w cap bs \<Longrightarrow> w_finish w = (if length bs \<le> cap then Inr bs else Inl GY_ERR_ARG)"
  by (auto simp: wst_def w_finish_def)

lemmas wst_rules = wst_raw wst_u8 wst_be32 wst_be64

abbreviation rok :: "bytes \<Rightarrow> rcur" where
  "rok b \<equiv> \<lparr>rc_rest = b, rc_ok = True\<rparr>"

named_theorems rd_simps \<open>running a reader on the bytes of its writer\<close>

lemma rd_raw [rd_simps]: "length a = n \<Longrightarrow> rd_bind (r_raw n) k (rok (a @ b)) = k a (rok b)"
  by (simp add: rd_bind_def r_raw_def)

lemma rd_raw_last [rd_simps]: "length a = n \<Longrightarrow> rd_bind (r_raw n) k (rok a) = k a (rok [])"
  using rd_raw [of a n k "[]"] by simp

lemma r_raw_run [rd_simps]: "length a = n \<Longrightarrow> r_raw n (rok (a @ b)) = Some (a, rok b)"
  by (simp add: r_raw_def)

lemma r_u8_run [rd_simps]: "r_u8 (rok (v # b)) = Some (v, rok b)"
  by (simp add: r_u8_def rd_bind_def rd_return_def r_raw_def)

lemma rd_u8 [rd_simps]: "rd_bind r_u8 k (rok (v # b)) = k v (rok b)"
  by (simp add: rd_bind_def r_u8_run)

lemma rd_be32 [rd_simps]: "rd_bind r_be32 k (rok (gy_be32_put v @ b)) = k v (rok b)"
  by (simp add: rd_bind_def r_be32_def rd_return_def r_raw_def)

lemma rd_be64 [rd_simps]: "rd_bind r_be64 k (rok (gy_be64_put v @ b)) = k v (rok b)"
  by (simp add: rd_bind_def r_be64_def rd_return_def r_raw_def)

lemma rd_refuse_run [rd_simps]: "rd_refuse bad k r = (if bad then None else k r)"
  by (simp add: rd_refuse_def)

lemma rd_return_run [rd_simps]: "rd_return x r = Some (x, r)"
  by (simp add: rd_return_def)

lemma rd_bind_run: "m r = Some (x, r') \<Longrightarrow> rd_bind m k r = k x r'"
  by (simp add: rd_bind_def)

lemma rd_list_run:
  assumes "\<And>x rest. x \<in> set xs \<Longrightarrow> f (rok (enc x @ rest)) = Some (nm x, rok rest)"
  shows "rd_list (length xs) f (rok (concat (map enc xs) @ rest)) = Some (map nm xs, rok rest)"
  using assms by (induction xs) (auto simp: rd_simps rd_bind_def)

lemma rd_iter_run:
  assumes "\<And>x acc rest. x \<in> set xs \<Longrightarrow> f acc (rok (enc x @ rest)) = Some (step acc x, rok rest)"
  shows "rd_iter (length xs) f acc (rok (concat (map enc xs) @ rest)) = Some (foldl step acc xs, rok rest)"
  using assms by (induction xs arbitrary: acc) (auto simp: rd_simps rd_bind_def)

lemma unat_nat_u8: "n < 256 \<Longrightarrow> unat (word_of_nat n :: u8) = n"
  by (simp add: unsigned_of_nat take_bit_nat_eq_self)

lemma unat_nat_u32: "n \<le> GY_MAX_SKIP \<Longrightarrow> unat (word_of_nat n :: u32) = n"
  by (simp add: unsigned_of_nat take_bit_nat_eq_self GY_MAX_SKIP_def)

lemma nat_u8_zero: "n < 256 \<Longrightarrow> (word_of_nat n :: u8) = 0 \<longleftrightarrow> n = 0"
  using unat_eq_zero [of "word_of_nat n :: u8"] by (simp only: unat_nat_u8)

lemma nat_u32_zero: "n \<le> GY_MAX_SKIP \<Longrightarrow> (word_of_nat n :: u32) = 0 \<longleftrightarrow> n = 0"
  using unat_eq_zero [of "word_of_nat n :: u32"] by (simp only: unat_nat_u32)

subsection \<open>The layout of a session blob\<close>

definition keys_bytes :: "gy_dr_state \<Rightarrow> bytes" where
  "keys_bytes dr = (let d = dr_desc dr; p = kp_pub (dr_dhs dr) in
     [dr_aead_id dr] @ gy_be32_put (pub_pkid p) @ [pub_curve_type p] @
     arr (curve_pk_len d) (pub_pk p) @ arr (curve_sk_len d) (kp_sk (dr_dhs dr)) @
     [dr_have_dhr dr] @ arr (curve_pk_len d) (dr_dhr dr) @
     arr 32 (dr_rk dr) @ arr 32 (dr_cks dr) @ arr 32 (dr_ckr dr) @ arr 32 (dr_hks dr) @
     arr 32 (dr_hkr dr) @ arr 32 (dr_nhks dr) @ arr 32 (dr_nhkr dr) @
     gy_be32_put (dr_ns dr) @ gy_be32_put (dr_nr dr) @ gy_be32_put (dr_pn dr) @
     [dr_have_cks dr, dr_have_ckr dr, dr_have_hks dr, dr_have_hkr dr, dr_have_nhks dr, dr_have_nhkr dr])"

definition key_bytes :: "gy_skipped_key \<Rightarrow> bytes" where
  "key_bytes e = gy_be32_put (word_of_nat (sk_epoch e)) @ gy_be32_put (sk_n e) @ gy_be64_put (sk_age e) @
     arr 32 (sk_mk e)"

definition epoch_bytes :: "nat \<times> gy_skip_epoch \<Rightarrow> bytes" where
  "epoch_bytes p = gy_be32_put (word_of_nat (fst p)) @ gy_be32_put (word_of_nat (ep_refs (snd p))) @
     arr 32 (ep_hk (snd p))"

definition skipped_bytes :: "gy_skip_store \<Rightarrow> bytes" where
  "skipped_bytes s = gy_be64_put (ss_recv_count s) @ gy_be32_put (word_of_nat (length (ss_ent s))) @
     concat (map key_bytes (ss_ent s)) @ gy_be32_put (word_of_nat (length (live_epochs s))) @
     concat (map epoch_bytes (live_epochs s))"

definition pq_bytes :: "gy_hybrid_dr_state \<Rightarrow> bytes" where
  "pq_bytes rt = (let d = dr_desc (hd_base rt); ek = kem_pk_len d; dk = kem_sk_len d; ct = kem_ct_len d in
     arr ek (hd_mlkem_ek rt) @ arr dk (hd_mlkem_dk rt) @ arr ek (hd_remote_ek rt) @ arr ct (hd_kem_ct rt) @
     arr ct (hd_confirm_ct rt) @ arr ek (hd_id_mlkem_ek rt) @ arr dk (hd_id_mlkem_dk rt) @
     gy_be32_put (hd_mlkem_counter rt) @ gy_be32_put (hd_mlkem_interval rt) @
     [hd_have_remote_ek rt, hd_have_kem_ct rt, hd_send_ek_pending rt, hd_role rt, hd_pq_state rt,
      hd_confirm_pending rt, hd_send_confirm_pending rt, hd_have_confirm_ct rt, hd_have_id_dk rt])"

definition ratchet_bytes :: "gy_hybrid_dr_state \<Rightarrow> bytes" where
  "ratchet_bytes rt = keys_bytes (hd_base rt) @ skipped_bytes (dr_skipped (hd_base rt)) @
     (if is_hybrid (dr_desc (hd_base rt)) then pq_bytes rt else [])"

definition session_bytes :: "gy_session \<Rightarrow> bytes" where
  "session_bytes s =
     [GY_REC_FMT_V1, 0, suite_id (dr_desc (hd_base (s_ratchet s))), word_of_nat (length (s_base s))] @
     s_base s @ arr 4 (s_id s) @ gy_be64_put (s_created_at s) @ gy_be64_put (s_activated_at s) @
     gy_be64_put (s_last_recv_at s) @ gy_be32_put (s_nsend s) @ gy_be32_put (s_nrecv s) @
     [s_pq_pending s, word_of_nat (length (s_ad s))] @ s_ad s @ ratchet_bytes (s_ratchet s)"

lemma keys_encode: "wst w cap bs \<Longrightarrow> wst (dr_keys_encode dr w) cap (bs @ keys_bytes dr)"
  unfolding dr_keys_encode_def Let_def
  by (rule wst_eq, (rule wst_rules)+, assumption) (simp add: keys_bytes_def Let_def)

lemma key_encode: "wst w cap bs \<Longrightarrow> wst (skipped_key_encode e w) cap (bs @ key_bytes e)"
  unfolding skipped_key_encode_def Let_def
  by (rule wst_eq, (rule wst_rules)+, assumption) (simp add: key_bytes_def)

lemma epoch_encode: "wst w cap bs \<Longrightarrow> wst (epoch_encode p w) cap (bs @ epoch_bytes p)"
  unfolding epoch_encode_def Let_def
  by (rule wst_eq, (rule wst_rules)+, assumption) (simp add: epoch_bytes_def)

lemma skipped_encode: "wst w cap bs \<Longrightarrow> wst (skipped_encode s w) cap (bs @ skipped_bytes s)"
  unfolding skipped_encode_def Let_def
  by (rule wst_eq, rule wst_fold [where enc = epoch_bytes], erule epoch_encode, rule wst_rules,
      rule wst_fold [where enc = key_bytes], erule key_encode, (rule wst_rules)+, assumption)
    (simp add: skipped_bytes_def)

lemma pq_encode: "wst w cap bs \<Longrightarrow> wst (hybrid_pq_encode rt w) cap (bs @ pq_bytes rt)"
  unfolding hybrid_pq_encode_def Let_def
  by (rule wst_eq, (rule wst_rules)+, assumption) (simp add: pq_bytes_def Let_def)

lemma ratchet_encode: "wst w cap bs \<Longrightarrow> wst (dr_encode rt w) cap (bs @ ratchet_bytes rt)"
  using pq_encode [OF skipped_encode [OF keys_encode]] skipped_encode [OF keys_encode]
  by (simp add: dr_encode_def ratchet_bytes_def Let_def)

lemma session_encode:
  "gy_session_encode cap s =
     (if length (session_bytes s) \<le> cap then Inr (session_bytes s) else Inl GY_ERR_ARG)"
  unfolding gy_session_encode_def Let_def
  by (rule wst_finish, rule wst_eq, rule ratchet_encode, (rule wst_rules)+, rule wst_init)
    (simp add: session_bytes_def arr_id GY_SESSION_ID_LEN_def)

subsection \<open>What a session blob decodes to\<close>

text \<open>
  The decoder fills every array to its declared length, and dead epoch slots are zero. These are
  the values the C structure has in any case; the lists of the model may leave out a zero tail.
\<close>

definition key_full :: "gy_skipped_key \<Rightarrow> gy_skipped_key" where
  "key_full e = e\<lparr>sk_mk := arr 32 (sk_mk e)\<rparr>"

definition epoch_full :: "gy_skip_epoch \<Rightarrow> gy_skip_epoch" where
  "epoch_full e = (if ep_refs e > 0 then e\<lparr>ep_hk := arr 32 (ep_hk e)\<rparr> else zero_epoch)"

definition skipped_full :: "gy_skip_store \<Rightarrow> gy_skip_store" where
  "skipped_full s = s\<lparr>ss_ent := map key_full (ss_ent s), ss_epochs := map epoch_full (ss_epochs s)\<rparr>"

definition dr_full :: "gy_dr_state \<Rightarrow> gy_dr_state" where
  "dr_full dr = (let d = dr_desc dr; pk = curve_pk_len d in
     dr\<lparr>dr_dhs := \<lparr>kp_pub = (kp_pub (dr_dhs dr))\<lparr>pub_pk := arr pk (pub_pk (kp_pub (dr_dhs dr)))\<rparr>,
           kp_sk = arr (curve_sk_len d) (kp_sk (dr_dhs dr))\<rparr>,
        dr_dhr := arr pk (dr_dhr dr), dr_rk := arr 32 (dr_rk dr), dr_cks := arr 32 (dr_cks dr),
        dr_ckr := arr 32 (dr_ckr dr), dr_hks := arr 32 (dr_hks dr), dr_hkr := arr 32 (dr_hkr dr),
        dr_nhks := arr 32 (dr_nhks dr), dr_nhkr := arr 32 (dr_nhkr dr),
        dr_skipped := skipped_full (dr_skipped dr)\<rparr>)"

definition ratchet_full :: "gy_hybrid_dr_state \<Rightarrow> gy_hybrid_dr_state" where
  "ratchet_full rt = (let d = dr_desc (hd_base rt); ek = kem_pk_len d; dk = kem_sk_len d; ct = kem_ct_len d in
     if is_hybrid d then
       rt\<lparr>hd_base := dr_full (hd_base rt), hd_mlkem_ek := arr ek (hd_mlkem_ek rt),
          hd_mlkem_dk := arr dk (hd_mlkem_dk rt), hd_remote_ek := arr ek (hd_remote_ek rt),
          hd_kem_ct := arr ct (hd_kem_ct rt), hd_confirm_ct := arr ct (hd_confirm_ct rt),
          hd_id_mlkem_ek := arr ek (hd_id_mlkem_ek rt), hd_id_mlkem_dk := arr dk (hd_id_mlkem_dk rt)\<rparr>
     else (hd_zero d 0)\<lparr>hd_base := dr_full (hd_base rt)\<rparr>)"

definition session_full :: "gy_session \<Rightarrow> gy_session" where
  "session_full s = s\<lparr>s_ratchet := ratchet_full (s_ratchet s), s_id := arr 4 (s_id s)\<rparr>"

text \<open>The bounds the code's own operations keep.\<close>

definition skip_shape :: "gy_skip_store \<Rightarrow> bool" where
  "skip_shape s \<longleftrightarrow> length (ss_ent s) \<le> GY_MAX_SKIP \<and> length (ss_epochs s) = GY_MAX_SKIP \<and>
     (\<forall>e \<in> set (ss_ent s). sk_epoch e < GY_MAX_SKIP) \<and> (\<forall>e \<in> set (ss_epochs s). ep_refs e \<le> GY_MAX_SKIP)"

definition session_ok :: "provider \<Rightarrow> gy_session \<Rightarrow> bool" where
  "session_ok L s \<longleftrightarrow> (let d = dr_desc (hd_base (s_ratchet s)) in gy_suite_desc L (suite_id d) = Some d) \<and>
     length (s_base s) \<le> GY_SESSION_HASH_MAX \<and> length (s_ad s) \<le> GY_SESSION_AD_MAX \<and>
     skip_shape (dr_skipped (hd_base (s_ratchet s)))"

lemma keys_decode [rd_simps]:
  "rd_bind (dr_keys_decode (dr_desc dr)) k (rok (keys_bytes dr @ rest)) =
     k ((dr_full dr)\<lparr>dr_skipped := empty_store\<rparr>) (rok rest)"
proof -
  have "dr_keys_decode (dr_desc dr) (rok (keys_bytes dr @ rest)) =
      Some ((dr_full dr)\<lparr>dr_skipped := empty_store\<rparr>, rok rest)"
    by (cases dr) (simp add: dr_keys_decode_def keys_bytes_def Let_def rd_simps dr_full_def)
  then show ?thesis by (rule rd_bind_run)
qed

lemma key_decode:
  "sk_epoch e < GY_MAX_SKIP \<Longrightarrow> skipped_key_decode (rok (key_bytes e @ rest)) = Some (key_full e, rok rest)"
  by (simp add: skipped_key_decode_def key_bytes_def rd_simps unat_nat_u32 key_full_def)

lemma epoch_decode:
  "i < GY_MAX_SKIP \<Longrightarrow> 0 < ep_refs e \<Longrightarrow> ep_refs e \<le> GY_MAX_SKIP \<Longrightarrow>
     epoch_decode es (rok (epoch_bytes (i, e) @ rest)) = Some (es[i := epoch_full e], rok rest)"
  by (cases e) (simp add: epoch_decode_def epoch_bytes_def rd_simps unat_nat_u32 nat_u32_zero epoch_full_def)

lemma length_live_epochs: "length (live_epochs s) \<le> length (ss_epochs s)"
  unfolding live_epochs_def by (metis length_filter_le length_enumerate)

lemma live_epochs_rebuild:
  "foldl (\<lambda>es p. es[fst p := epoch_full (snd p)]) (pre @ replicate (length eps) zero_epoch)
     (filter (\<lambda>p. ep_refs (snd p) > 0) (enumerate (length pre) eps)) = pre @ map epoch_full eps"
proof (induction eps arbitrary: pre)
  case Nil
  then show ?case by simp
next
  case (Cons e eps)
  have IH: "foldl (\<lambda>es p. es[fst p := epoch_full (snd p)]) (pre @ epoch_full e # replicate (length eps) zero_epoch)
      (filter (\<lambda>p. ep_refs (snd p) > 0) (enumerate (Suc (length pre)) eps)) =
      pre @ epoch_full e # map epoch_full eps"
    using Cons.IH [of "pre @ [epoch_full e]"] by simp
  show ?case
  proof (cases "ep_refs e > 0")
    case True
    then show ?thesis using IH by simp
  next
    case False
    then have "epoch_full e = zero_epoch" by (simp add: epoch_full_def)
    then show ?thesis using IH False by simp
  qed
qed

lemma live_epochs_mem:
  "p \<in> set (live_epochs s) \<Longrightarrow> fst p < length (ss_epochs s) \<and> snd p \<in> set (ss_epochs s) \<and> 0 < ep_refs (snd p)"
  by (cases p) (auto simp: live_epochs_def in_set_enumerate_eq)

lemma skipped_decode [rd_simps]:
  assumes "skip_shape s"
  shows "rd_bind skipped_decode k (rok (skipped_bytes s @ rest)) = k (skipped_full s) (rok rest)"
proof -
  note sh = assms [unfolded skip_shape_def]
  have n: "length (ss_ent s) \<le> GY_MAX_SKIP" "length (live_epochs s) \<le> GY_MAX_SKIP"
    using sh length_live_epochs [of s] by auto
  have ent: "rd_list (length (ss_ent s)) skipped_key_decode (rok (concat (map key_bytes (ss_ent s)) @ r)) =
      Some (map key_full (ss_ent s), rok r)" for r
    by (rule rd_list_run) (use sh key_decode in auto)
  have "rd_iter (length (live_epochs s)) epoch_decode z (rok (concat (map epoch_bytes (live_epochs s)) @ r)) =
      Some (foldl (\<lambda>es p. es[fst p := epoch_full (snd p)]) z (live_epochs s), rok r)" for z r
    by (rule rd_iter_run) (use sh live_epochs_mem [of _ s] epoch_decode in force)
  moreover have "foldl (\<lambda>es p. es[fst p := epoch_full (snd p)]) (ss_epochs empty_store) (live_epochs s) =
      map epoch_full (ss_epochs s)"
    using live_epochs_rebuild [of "[]" "ss_epochs s"] sh by (simp add: live_epochs_def empty_store_def)
  ultimately have "skipped_decode (rok (skipped_bytes s @ rest)) = Some (skipped_full s, rok rest)"
    using n ent
    by (simp add: skipped_decode_def skipped_bytes_def rd_simps unat_nat_u32 rd_bind_run skipped_full_def)
  then show ?thesis by (rule rd_bind_run)
qed

lemma pq_decode:
  "is_hybrid (dr_desc (hd_base rt)) \<Longrightarrow>
     hybrid_pq_decode (dr_desc (hd_base rt)) ((hd_zero d 0)\<lparr>hd_base := dr_full (hd_base rt)\<rparr>)
       (rok (pq_bytes rt @ rest)) = Some (ratchet_full rt, rok rest)"
  by (cases rt) (simp add: hybrid_pq_decode_def pq_bytes_def Let_def rd_simps ratchet_full_def hd_zero_def)

lemma dr_full_parts: "(dr_full dr)\<lparr>dr_skipped := skipped_full (dr_skipped dr)\<rparr> = dr_full dr"
  by (simp add: dr_full_def Let_def)

lemma ratchet_decode:
  assumes "skip_shape (dr_skipped (hd_base rt))"
  shows "dr_decode (dr_desc (hd_base rt)) (rok (ratchet_bytes rt @ rest)) = Some (ratchet_full rt, rok rest)"
  using assms pq_decode [of rt] by (simp add: dr_decode_def ratchet_bytes_def rd_simps dr_full_parts)
    (simp add: ratchet_full_def Let_def)

lemma ratchet_decode_bind [rd_simps]:
  assumes "skip_shape (dr_skipped (hd_base rt))"
  shows "rd_bind (dr_decode (dr_desc (hd_base rt))) k (rok (ratchet_bytes rt)) = k (ratchet_full rt) (rok [])"
  using ratchet_decode [OF assms, of "[]"] by (simp add: rd_bind_run)

lemma session_decode:
  assumes "session_ok L s"
  shows "gy_session_decode L (session_bytes s) = Inr (session_full s)"
proof -
  note ok = assms [unfolded session_ok_def Let_def session_consts]
  have n: "length (s_base s) < 256" "length (s_ad s) < 256" using ok by auto
  have "session_body_decode (dr_desc (hd_base (s_ratchet s)))
      (rok (drop 3 (session_bytes s))) = Some (session_full s, rok [])"
    using ok n by (cases s) (simp add: session_body_decode_def session_bytes_def rd_simps unat_nat_u8
        session_consts session_full_def)
  then show ?thesis
    using ok by (simp add: gy_session_decode_def r_prefix_def session_bytes_def rd_simps rd_finish_def)
      (simp add: rd_bind_def rd_simps session_consts)
qed

subsection \<open>The contract of a blob codec\<close>

text \<open>
  What the store relies on for each record type: a record within its bounds encodes into a buffer
  of the advertised size, and the blob decodes to the same record with its arrays filled.
\<close>

locale blob_codec =
  fixes enc :: "nat \<Rightarrow> 'r \<Rightarrow> bytes res" and dec :: "bytes \<Rightarrow> 'r res" and ok :: "'r \<Rightarrow> bool"
    and full :: "'r \<Rightarrow> 'r" and maxlen :: nat
  assumes enc_dec: "ok r \<Longrightarrow> \<exists>b. enc maxlen r = Inr b \<and> length b \<le> maxlen \<and> dec b = Inr (full r)"
    and enc_full: "enc cap (full r) = enc cap r"
    and full_full: "full (full r) = full r"
begin

lemma dec_enc: "ok r \<Longrightarrow> enc maxlen r = Inr b \<Longrightarrow> dec b = Inr (full r)"
  using enc_dec by fastforce

lemma enc_ok: "ok r \<Longrightarrow> \<exists>b. enc maxlen r = Inr b \<and> length b \<le> maxlen"
  using enc_dec by blast

lemma blob_stable: "ok r \<Longrightarrow> enc maxlen r = Inr b \<Longrightarrow> \<exists>r'. dec b = Inr r' \<and> enc maxlen r' = Inr b \<and> full r' = r'"
  using dec_enc enc_full full_full by metis

lemma blob_inj: "ok r \<Longrightarrow> ok r' \<Longrightarrow> enc maxlen r = enc maxlen r' \<Longrightarrow> full r = full r'"
  using enc_dec [of r] enc_dec [of r'] by auto

end

subsection \<open>Session blobs keep the contract\<close>

lemma length_concat_same: "(\<And>x. x \<in> set xs \<Longrightarrow> length (f x) = n) \<Longrightarrow> length (concat (map f xs)) = n * length xs"
  by (induction xs) auto

lemma length_keys_bytes:
  "length (keys_bytes dr) = 249 + 2 * curve_pk_len (dr_desc dr) + curve_sk_len (dr_desc dr)"
  by (simp add: keys_bytes_def Let_def)

lemma length_skipped_bytes:
  "length (skipped_bytes s) = 16 + 48 * length (ss_ent s) + 40 * length (live_epochs s)"
  by (simp add: skipped_bytes_def key_bytes_def epoch_bytes_def length_concat_same)

lemma length_pq_bytes:
  "length (pq_bytes rt) = (let d = dr_desc (hd_base rt) in
     17 + 3 * kem_pk_len d + 2 * kem_sk_len d + 2 * kem_ct_len d)"
  by (simp add: pq_bytes_def Let_def)

lemma suite_sizes:
  assumes "gy_suite_desc L sid = Some d"
  shows "curve_pk_len d \<le> 56 \<and> curve_sk_len d \<le> 56 \<and> kem_pk_len d \<le> 1568 \<and> kem_sk_len d \<le> 3168 \<and>
    kem_ct_len d \<le> 1568 \<and> dsa_pk_len d \<le> 2592"
  using assms by (cases rule: suite_desc_cases) (simp_all add: suite_row_defs)

lemma session_fits:
  assumes "session_ok L s"
  shows "length (session_bytes s) \<le> GY_SESSION_BLOB_MAX"
proof -
  let ?d = "dr_desc (hd_base (s_ratchet s))"
  note ok = assms [unfolded session_ok_def Let_def skip_shape_def session_consts]
  have sizes: "curve_pk_len ?d \<le> 56 \<and> curve_sk_len ?d \<le> 56 \<and>
      kem_pk_len ?d \<le> 1568 \<and> kem_sk_len ?d \<le> 3168 \<and> kem_ct_len ?d \<le> 1568"
    using ok suite_sizes [of L "suite_id ?d" ?d] by auto
  show ?thesis
    using ok sizes length_live_epochs [of "dr_skipped (hd_base (s_ratchet s))"]
    by (simp add: session_bytes_def ratchet_bytes_def length_keys_bytes length_skipped_bytes length_pq_bytes
        Let_def GY_SESSION_BLOB_MAX_def GY_MAX_SKIP_def)
qed

lemma epoch_full_simps [simp]:
  "epoch_full (epoch_full e) = epoch_full e" "ep_refs (epoch_full e) = ep_refs e"
  by (simp_all add: epoch_full_def zero_epoch_def)

lemma live_epochs_full: "live_epochs (skipped_full s) = map (map_prod id epoch_full) (live_epochs s)"
proof -
  have "filter (\<lambda>p. ep_refs (snd p) > 0) (enumerate n (map epoch_full es)) =
      map (map_prod id epoch_full) (filter (\<lambda>p. ep_refs (snd p) > 0) (enumerate n es))" for n es
    by (induction es arbitrary: n) auto
  then show ?thesis by (simp add: live_epochs_def skipped_full_def)
qed

lemma epoch_bytes_full: "0 < ep_refs e \<Longrightarrow> epoch_bytes (i, epoch_full e) = epoch_bytes (i, e)"
  by (simp add: epoch_bytes_def epoch_full_def)

lemma skipped_bytes_full: "skipped_bytes (skipped_full s) = skipped_bytes s"
proof -
  have A: "map epoch_bytes (live_epochs (skipped_full s)) = map epoch_bytes (live_epochs s)"
    using live_epochs_mem [of _ s] by (fastforce simp: live_epochs_full epoch_bytes_full)
  have B: "map key_bytes (ss_ent (skipped_full s)) = map key_bytes (ss_ent s)"
    by (simp add: skipped_full_def key_full_def key_bytes_def)
  have "length (live_epochs (skipped_full s)) = length (live_epochs s)"
      "ss_recv_count (skipped_full s) = ss_recv_count s"
      "length (ss_ent (skipped_full s)) = length (ss_ent s)"
    by (simp_all add: live_epochs_full) (simp_all add: skipped_full_def)
  then show ?thesis unfolding skipped_bytes_def by (simp only: A B)
qed

lemma keys_bytes_full: "keys_bytes (dr_full dr) = keys_bytes dr"
  by (simp add: keys_bytes_def dr_full_def Let_def)

lemma full_frames [simp]:
  "dr_desc (dr_full dr) = dr_desc dr" "dr_skipped (dr_full dr) = skipped_full (dr_skipped dr)"
  "hd_base (ratchet_full rt) = dr_full (hd_base rt)"
  by (simp_all add: dr_full_def ratchet_full_def Let_def)

lemma pq_bytes_full: "is_hybrid (dr_desc (hd_base rt)) \<Longrightarrow> pq_bytes (ratchet_full rt) = pq_bytes rt"
  by (simp add: pq_bytes_def Let_def) (simp add: ratchet_full_def Let_def)

lemma session_bytes_full: "session_bytes (session_full s) = session_bytes s"
  by (simp add: session_bytes_def session_full_def ratchet_bytes_def keys_bytes_full skipped_bytes_full
      pq_bytes_full)

lemma skipped_full_full: "skipped_full (skipped_full s) = skipped_full s"
  by (cases s) (simp add: skipped_full_def key_full_def)

lemma dr_full_full: "dr_full (dr_full dr) = dr_full dr"
  by (cases dr) (simp add: dr_full_def Let_def skipped_full_full)

lemma ratchet_full_full: "ratchet_full (ratchet_full rt) = ratchet_full rt"
proof (cases "is_hybrid (dr_desc (hd_base rt))")
  case True
  then show ?thesis
    by (cases rt) (simp add: ratchet_full_def Let_def dr_full_full)
next
  case False
  then have "ratchet_full rt = (hd_zero (dr_desc (hd_base rt)) 0)\<lparr>hd_base := dr_full (hd_base rt)\<rparr>"
    by (simp add: ratchet_full_def Let_def)
  with False show ?thesis
    by (simp add: ratchet_full_def [of "_\<lparr>hd_base := _\<rparr>"] Let_def dr_full_full)
qed

lemma session_full_full: "session_full (session_full s) = session_full s"
  by (simp add: session_full_def ratchet_full_full)

interpretation session_blob: blob_codec gy_session_encode "gy_session_decode L" "session_ok L"
    session_full GY_SESSION_BLOB_MAX for L
  by unfold_locales
    (simp_all add: session_encode session_fits session_decode session_bytes_full session_full_full)

subsection \<open>Device and user blobs keep the contract\<close>

definition devrec_bytes :: "gy_suite_desc \<Rightarrow> gy_device_record \<Rightarrow> bytes" where
  "devrec_bytes dd d =
     [word_of_nat (length (d_device_id d))] @ d_device_id d @ gy_be32_put (pub_pkid (d_ik d)) @
     [pub_curve_type (d_ik d)] @ arr (curve_pk_len dd) (pub_pk (d_ik d)) @
     [word_of_nat (length (d_fingerprint d))] @ d_fingerprint d @
     [d_has_active d] @ arr 4 (d_active d) @ [d_stale d] @ gy_be64_put (d_stale_at d) @
     gy_be32_put (word_of_nat (length (d_inactive d))) @ concat (map (arr 4) (d_inactive d))"

definition devrec_full :: "gy_suite_desc \<Rightarrow> gy_device_record \<Rightarrow> gy_device_record" where
  "devrec_full dd d =
     d\<lparr>d_ik := (d_ik d)\<lparr>pub_pk := arr (curve_pk_len dd) (pub_pk (d_ik d))\<rparr>,
       d_active := arr 4 (d_active d), d_inactive := map (arr 4) (d_inactive d)\<rparr>"

definition devrec_shape :: "gy_device_record \<Rightarrow> bool" where
  "devrec_shape d \<longleftrightarrow> d_device_id d \<noteq> [] \<and> length (d_device_id d) \<le> GY_DEVICE_ID_MAX \<and>
     length (d_fingerprint d) \<le> GY_SESSION_HASH_MAX \<and> length (d_inactive d) \<le> GY_SESSION_INACTIVE_MAX"

lemma devrec_encode: "wst w cap bs \<Longrightarrow> wst (devrec_body_encode dd d w) cap (bs @ devrec_bytes dd d)"
  unfolding devrec_body_encode_def Let_def
  by (rule wst_eq, rule wst_fold [where enc = "arr 4"], simp only: GY_SESSION_ID_LEN_def, erule wst_raw,
      (rule wst_rules)+, assumption) (simp add: devrec_bytes_def arr_id GY_SESSION_ID_LEN_def)

lemma inactive_decode [rd_simps]:
  "rd_bind (rd_list (length ids) (r_raw 4)) k (rok (concat (map (arr 4) ids) @ rest)) =
     k (map (arr 4) ids) (rok rest)"
  by (rule rd_bind_run, rule rd_list_run) (simp add: rd_simps)

lemma devrec_decode [rd_simps]:
  assumes "devrec_shape d"
  shows "rd_bind (devrec_body_decode (d_suite_id d) dd) k (rok (devrec_bytes dd d @ rest)) =
     k (devrec_full dd d) (rok rest)"
proof -
  note sh = assms [unfolded devrec_shape_def session_consts]
  have n: "length (d_device_id d) < 256" "length (d_fingerprint d) < 256"
      "unat (word_of_nat (length (d_inactive d)) :: u32) = length (d_inactive d)"
    using sh by (auto intro: unat_nat_u32 simp: GY_MAX_SKIP_def)
  have "devrec_body_decode (d_suite_id d) dd (rok (devrec_bytes dd d @ rest)) = Some (devrec_full dd d, rok rest)"
    using sh n by (cases d) (simp add: devrec_body_decode_def devrec_bytes_def rd_simps unat_nat_u8 nat_u8_zero
        session_consts devrec_full_def)
  then show ?thesis by (rule rd_bind_run)
qed

lemma length_devrec_bytes:
  assumes "devrec_shape d" and "gy_suite_desc L sid = Some dd"
  shows "length (devrec_bytes dd d) + 3 \<le> GY_DEVICE_BLOB_MAX"
proof -
  have "curve_pk_len dd \<le> 56" using suite_sizes [OF assms(2)] by blast
  then show ?thesis using assms(1)
    by (simp add: devrec_bytes_def devrec_shape_def session_consts GY_DEVICE_BLOB_MAX_def
        length_concat_same [where n = 4])
qed

lemma devrec_full_facts [simp]:
  "devrec_bytes dd (devrec_full dd d) = devrec_bytes dd d"
  "devrec_full dd (devrec_full dd d) = devrec_full dd d"
  "d_suite_id (devrec_full dd d) = d_suite_id d"
  by (simp_all add: devrec_bytes_def devrec_full_def comp_def)

definition device_ok :: "provider \<Rightarrow> gy_device_record \<Rightarrow> bool" where
  "device_ok L d \<longleftrightarrow> gy_suite_desc L (d_suite_id d) \<noteq> None \<and> devrec_shape d"

definition device_full :: "provider \<Rightarrow> gy_device_record \<Rightarrow> gy_device_record" where
  "device_full L d = (case gy_suite_desc L (d_suite_id d) of None \<Rightarrow> d | Some dd \<Rightarrow> devrec_full dd d)"

lemma device_encode:
  "gy_suite_desc L (d_suite_id d) = Some dd \<Longrightarrow> gy_device_record_encode L cap d =
     (let b = [GY_REC_FMT_V1, 0, d_suite_id d] @ devrec_bytes dd d in
      if length b \<le> cap then Inr b else Inl GY_ERR_ARG)"
  using wst_finish [OF devrec_encode [OF wst_u8 [OF wst_u8 [OF wst_u8 [OF wst_init]]]]]
  by (simp add: gy_device_record_encode_def Let_def)

lemma r_prefix_run: "rd_bind r_prefix k (rok (GY_REC_FMT_V1 # 0 # sid # rest)) = k sid (rok rest)"
  by (simp add: r_prefix_def rd_simps rd_bind_def)

lemma rd_bind_return: "rd_bind m rd_return = m"
  by (rule ext) (simp add: rd_bind_def rd_return_def split: option.split)

lemma device_decode:
  assumes "device_ok L d" and dd: "gy_suite_desc L (d_suite_id d) = Some dd"
  shows "gy_device_record_decode L ([GY_REC_FMT_V1, 0, d_suite_id d] @ devrec_bytes dd d) = Inr (devrec_full dd d)"
  using assms devrec_decode [of d dd rd_return "[]"]
  by (simp add: gy_device_record_decode_def r_prefix_run rd_finish_def device_ok_def rd_bind_return rd_return_def)

interpretation device_blob: blob_codec "gy_device_record_encode L" "gy_device_record_decode L" "device_ok L"
    "device_full L" GY_DEVICE_BLOB_MAX for L
proof unfold_locales
  fix r assume ok: "device_ok L r"
  then obtain dd where dd: "gy_suite_desc L (d_suite_id r) = Some dd" by (auto simp: device_ok_def)
  show "\<exists>b. gy_device_record_encode L GY_DEVICE_BLOB_MAX r = Inr b \<and> length b \<le> GY_DEVICE_BLOB_MAX \<and>
      gy_device_record_decode L b = Inr (device_full L r)"
    using device_encode [OF dd, of GY_DEVICE_BLOB_MAX] device_decode [OF ok dd]
      length_devrec_bytes [OF _ dd, of r] ok
    by (simp add: Let_def device_full_def dd device_ok_def)
next
  fix cap r
  show "gy_device_record_encode L cap (device_full L r) = gy_device_record_encode L cap r"
    by (cases "gy_suite_desc L (d_suite_id r)") (simp_all add: device_full_def device_encode)
next
  fix r
  show "device_full L (device_full L r) = device_full L r"
    by (cases "gy_suite_desc L (d_suite_id r)") (simp_all add: device_full_def)
qed

definition hybrid_device_ok :: "provider \<Rightarrow> gy_hybrid_device_record \<Rightarrow> bool" where
  "hybrid_device_ok L d \<longleftrightarrow> devrec_shape (hdv_base d) \<and>
     (case gy_suite_desc L (d_suite_id (hdv_base d)) of None \<Rightarrow> False | Some dd \<Rightarrow> is_hybrid dd)"

definition hybrid_device_full :: "provider \<Rightarrow> gy_hybrid_device_record \<Rightarrow> gy_hybrid_device_record" where
  "hybrid_device_full L d = (case gy_suite_desc L (d_suite_id (hdv_base d)) of None \<Rightarrow> d
     | Some dd \<Rightarrow> \<lparr>hdv_base = devrec_full dd (hdv_base d), hdv_mlkem_ek = arr (kem_pk_len dd) (hdv_mlkem_ek d),
         hdv_mldsa_pk = arr (dsa_pk_len dd) (hdv_mldsa_pk d)\<rparr>)"

definition hybrid_devrec_bytes :: "gy_suite_desc \<Rightarrow> gy_hybrid_device_record \<Rightarrow> bytes" where
  "hybrid_devrec_bytes dd d = [GY_REC_FMT_V1, 0, d_suite_id (hdv_base d)] @ devrec_bytes dd (hdv_base d) @
     arr (kem_pk_len dd) (hdv_mlkem_ek d) @ arr (dsa_pk_len dd) (hdv_mldsa_pk d)"

lemma hybrid_device_encode:
  "gy_suite_desc L (d_suite_id (hdv_base d)) = Some dd \<Longrightarrow> gy_hybrid_device_record_encode L cap d =
     (if \<not> is_hybrid dd then Inl GY_ERR_STATE
      else if length (hybrid_devrec_bytes dd d) \<le> cap then Inr (hybrid_devrec_bytes dd d) else Inl GY_ERR_ARG)"
  using wst_finish [OF wst_raw [OF wst_raw [OF devrec_encode [OF wst_u8 [OF wst_u8 [OF wst_u8 [OF wst_init]]]]]]]
  by (simp add: gy_hybrid_device_record_encode_def hybrid_devrec_bytes_def Let_def)

lemma hybrid_device_decode:
  assumes "hybrid_device_ok L d" and dd: "gy_suite_desc L (d_suite_id (hdv_base d)) = Some dd"
  shows "gy_hybrid_device_record_decode L (hybrid_devrec_bytes dd d) = Inr (hybrid_device_full L d)"
  using assms
  by (simp add: gy_hybrid_device_record_decode_def hybrid_devrec_bytes_def r_prefix_run rd_finish_def
      hybrid_device_ok_def rd_simps hybrid_device_full_def)

interpretation hybrid_device_blob: blob_codec "gy_hybrid_device_record_encode L"
    "gy_hybrid_device_record_decode L" "hybrid_device_ok L" "hybrid_device_full L" GY_HYBRID_DEVICE_BLOB_MAX for L
proof unfold_locales
  fix r assume ok: "hybrid_device_ok L r"
  then obtain dd where dd: "gy_suite_desc L (d_suite_id (hdv_base r)) = Some dd" "is_hybrid dd"
    by (auto simp: hybrid_device_ok_def split: option.splits)
  have "length (hybrid_devrec_bytes dd r) \<le> GY_HYBRID_DEVICE_BLOB_MAX"
    using length_devrec_bytes [OF _ dd(1), of "hdv_base r"] suite_sizes [OF dd(1)] ok
    by (simp add: hybrid_devrec_bytes_def GY_HYBRID_DEVICE_BLOB_MAX_def hybrid_device_ok_def)
  then show "\<exists>b. gy_hybrid_device_record_encode L GY_HYBRID_DEVICE_BLOB_MAX r = Inr b \<and>
      length b \<le> GY_HYBRID_DEVICE_BLOB_MAX \<and>
      gy_hybrid_device_record_decode L b = Inr (hybrid_device_full L r)"
    using hybrid_device_encode [OF dd(1)] hybrid_device_decode [OF ok dd(1)] dd(2) by simp
next
  fix cap r
  show "gy_hybrid_device_record_encode L cap (hybrid_device_full L r) = gy_hybrid_device_record_encode L cap r"
    by (cases "gy_suite_desc L (d_suite_id (hdv_base r))")
      (simp_all add: hybrid_device_full_def hybrid_device_encode hybrid_devrec_bytes_def)
next
  fix r
  show "hybrid_device_full L (hybrid_device_full L r) = hybrid_device_full L r"
    by (cases "gy_suite_desc L (d_suite_id (hdv_base r))") (simp_all add: hybrid_device_full_def)
qed

definition user_ok :: "gy_user_record \<Rightarrow> bool" where
  "user_ok u \<longleftrightarrow> u_user_id u \<noteq> [] \<and> length (u_user_id u) \<le> GY_USER_ID_MAX \<and>
     length (u_devices u) \<le> GY_DEVICE_MAX \<and>
     (\<forall>v \<in> set (u_devices u). ud_id v \<noteq> [] \<and> length (ud_id v) \<le> GY_DEVICE_ID_MAX)"

definition user_device_bytes :: "user_device \<Rightarrow> bytes" where
  "user_device_bytes v = [word_of_nat (length (ud_id v))] @ ud_id v @ [ud_stale v]"

definition user_bytes :: "gy_user_record \<Rightarrow> bytes" where
  "user_bytes u = [GY_REC_FMT_V1, 0, u_suite_id u, word_of_nat (length (u_user_id u))] @ u_user_id u @
     [u_stale u] @ gy_be32_put (word_of_nat (length (u_devices u))) @ concat (map user_device_bytes (u_devices u))"

lemma user_device_encode: "wst w cap bs \<Longrightarrow> wst (user_device_encode v w) cap (bs @ user_device_bytes v)"
  unfolding user_device_encode_def Let_def
  by (rule wst_eq, (rule wst_rules)+, assumption) (simp add: user_device_bytes_def arr_id)

lemma user_encode:
  "gy_user_record_encode cap u = (if length (user_bytes u) \<le> cap then Inr (user_bytes u) else Inl GY_ERR_ARG)"
  unfolding gy_user_record_encode_def Let_def
  by (rule wst_finish, rule wst_eq, rule wst_fold [where enc = user_device_bytes], erule user_device_encode,
      (rule wst_rules)+, rule wst_init) (simp add: user_bytes_def arr_id)

lemma user_device_decode:
  "ud_id v \<noteq> [] \<Longrightarrow> length (ud_id v) \<le> GY_DEVICE_ID_MAX \<Longrightarrow>
     user_device_decode (rok (user_device_bytes v @ rest)) = Some (v, rok rest)"
  by (cases v) (simp add: user_device_decode_def user_device_bytes_def rd_simps unat_nat_u8 nat_u8_zero
      GY_DEVICE_ID_MAX_def)

lemma user_decode:
  assumes "user_ok u"
  shows "gy_user_record_decode (user_bytes u) = Inr u"
proof -
  note ok = assms [unfolded user_ok_def]
  have n: "length (u_user_id u) < 256" "length (u_devices u) \<le> GY_MAX_SKIP"
    using ok by (auto simp: session_consts GY_MAX_SKIP_def)
  have "rd_list (length (u_devices u)) user_device_decode (rok (concat (map user_device_bytes (u_devices u)) @ [])) =
      Some (map id (u_devices u), rok [])"
    by (rule rd_list_run) (use ok user_device_decode in auto)
  then show ?thesis
    using ok n by (cases u) (simp add: gy_user_record_decode_def user_bytes_def r_prefix_run rd_simps unat_nat_u8
        nat_u8_zero unat_nat_u32 rd_finish_def rd_bind_run)
qed

lemma user_fits:
  assumes "user_ok u"
  shows "length (user_bytes u) \<le> GY_USER_BLOB_MAX"
proof -
  note ok = assms [unfolded user_ok_def session_consts]
  have "length (concat (map user_device_bytes vs)) \<le> 66 * length vs"
    if "\<forall>v \<in> set vs. length (ud_id v) \<le> 64" for vs
    using that by (induction vs) (auto simp: user_device_bytes_def)
  from this [of "u_devices u"] ok show ?thesis
    by (simp add: user_bytes_def GY_USER_BLOB_MAX_def)
qed

interpretation user_blob: blob_codec gy_user_record_encode gy_user_record_decode user_ok id GY_USER_BLOB_MAX
  by unfold_locales (simp_all add: user_encode user_fits user_decode)

subsection \<open>Sessions survive storage\<close>

lemma store_inv_shape: "store_inv s \<Longrightarrow> skip_shape s"
proof -
  assume inv: "store_inv s"
  have "ep_refs e \<le> GY_MAX_SKIP" if e: "e \<in> set (ss_epochs s)" for e
  proof -
    obtain i where i: "i < length (ss_epochs s)" "e = ss_epochs s ! i" using e by (auto simp: in_set_conv_nth)
    then have "ep_refs e = refs_of (ss_ent s) i" using inv by (simp add: store_inv_def)
    also have "\<dots> \<le> length (ss_ent s)" by (simp add: refs_of_def)
    also have "\<dots> \<le> GY_MAX_SKIP" using inv by (simp add: store_inv_def)
    finally show ?thesis .
  qed
  with inv show "skip_shape s" by (auto simp: store_inv_def skip_shape_def)
qed

text \<open>
  C37. A session that the ratchet can reach survives storage: it encodes into a buffer of the
  advertised size, so persisting it never fails for lack of room even with a full skipped-key store,
  and decoding the blob gives the session back with every array filled to its length. The decoded
  session encodes to the same blob, and two sessions with the same blob are equal up to that filling.
\<close>

theorem session_blob_roundtrip:
  assumes "gy_suite_desc L (suite_id (dr_desc (hd_base (s_ratchet s)))) = Some (dr_desc (hd_base (s_ratchet s)))"
    and "dr_inv (hd_base (s_ratchet s))"
    and "length (s_base s) \<le> GY_SESSION_HASH_MAX" and "length (s_ad s) \<le> GY_SESSION_AD_MAX"
  shows "\<exists>b. gy_session_encode GY_SESSION_BLOB_MAX s = Inr b \<and> length b \<le> GY_SESSION_BLOB_MAX \<and>
      gy_session_decode L b = Inr (session_full s) \<and>
      gy_session_encode GY_SESSION_BLOB_MAX (session_full s) = Inr b \<and>
      (\<forall>s'. session_ok L s' \<and> gy_session_encode GY_SESSION_BLOB_MAX s' = Inr b \<longrightarrow>
         session_full s' = session_full s)"
proof -
  have ok: "session_ok L s"
    unfolding session_ok_def Let_def using assms store_inv_shape unfolding dr_inv_def by blast
  obtain b where b: "gy_session_encode GY_SESSION_BLOB_MAX s = Inr b" "length b \<le> GY_SESSION_BLOB_MAX"
    using session_blob.enc_ok [OF ok] by blast
  then show ?thesis
    using session_blob.dec_enc [OF ok b(1)] session_blob.blob_inj [OF _ ok]
    by (intro exI [of _ b]) (simp add: session_blob.enc_full)
qed

text \<open>
  C38. The decoder accepts a blob whose epoch table is full while its entry list is empty, a store the
  ratchet never builds. On the session it returns, interning a new header key yields the index one
  past the epoch table.
\<close>

theorem session_decode_admits_full_epochs:
  assumes "gy_suite_desc L sid = Some d" and "s_ratchet s = (hd_zero d aead)\<lparr>hd_base := (dr_zero d aead)\<lparr>dr_skipped :=
      \<lparr>ss_ent = [], ss_epochs = replicate GY_MAX_SKIP \<lparr>ep_hk = replicate 32 1, ep_refs = 1\<rparr>, ss_recv_count = 0\<rparr>\<rparr>\<rparr>"
    and "s_base s = []" and "s_ad s = []"
  shows "\<exists>b s'. gy_session_encode GY_SESSION_BLOB_MAX s = Inr b \<and> gy_session_decode L b = Inr s' \<and>
      snd (epoch_intern (dr_skipped (hd_base (s_ratchet s'))) (replicate 32 2)) =
        length (ss_epochs (dr_skipped (hd_base (s_ratchet s'))))"
proof -
  let ?e = "\<lparr>ep_hk = replicate 32 1, ep_refs = 1\<rparr>"
  have d: "gy_suite_desc L (suite_id d) = Some d" using assms(1) by (simp add: suite_desc_lookup)
  have ok: "session_ok L s"
    using assms d by (auto simp: session_ok_def skip_shape_def dr_zero_def session_consts GY_MAX_SKIP_def)
  have st: "dr_skipped (hd_base (s_ratchet (session_full s))) =
      \<lparr>ss_ent = [], ss_epochs = replicate GY_MAX_SKIP ?e, ss_recv_count = 0\<rparr>"
    by (simp add: session_full_def assms(2) skipped_full_def epoch_full_def arr_id)
  have "epoch_scan i GY_MAX_SKIP (replicate k ?e) (replicate 32 2) = Inr GY_MAX_SKIP" for i k
    by (induction k arbitrary: i) simp_all
  then have "snd (epoch_intern (dr_skipped (hd_base (s_ratchet (session_full s)))) (replicate 32 2)) =
      length (ss_epochs (dr_skipped (hd_base (s_ratchet (session_full s)))))"
    by (simp add: epoch_intern_def st)
  then show ?thesis using session_blob.enc_ok [OF ok] session_blob.dec_enc [OF ok] by blast
qed

end
