(* ===== verification/GY_SessionList.thy ===== *)
theory GY_SessionList
  imports GY_Session
begin

text \<open>
  The list operations on the Sesame records (\<^verbatim>\<open>src/session/session.c\<close>): the SessionID list of a
  device record (active session first, then the inactive ones, most recent first), the device index
  of a user record, record initialisation and the store key of a device record.
\<close>

subsection \<open>Device records: initialisation and store key\<close>

definition gy_device_record_init ::
    "provider \<Rightarrow> u8 \<Rightarrow> bytes \<Rightarrow> gy_public_key \<Rightarrow> bytes \<Rightarrow> gy_device_record res" where
  "gy_device_record_init L sid device_id ik fingerprint =
     (case gy_suite_desc L sid of None \<Rightarrow> Inl GY_ERR_ARG
      | Some dd \<Rightarrow>
          if device_id = [] \<or> length device_id > GY_DEVICE_ID_MAX then Inl GY_ERR_ARG
          else if length fingerprint > GY_SESSION_HASH_MAX then Inl GY_ERR_ARG
          else Inr \<lparr>d_suite_id = sid, d_device_id = device_id,
                 d_ik = \<lparr>pub_pkid = pub_pkid ik, pub_curve_type = pub_curve_type ik,
                         pub_pk = take (curve_pk_len dd) (pub_pk ik)\<rparr>,
                 d_fingerprint = fingerprint, d_has_active = 0, d_active = [], d_inactive = [],
                 d_stale = 0, d_stale_at = 0\<rparr>)"

definition gy_hybrid_device_record_init ::
    "provider \<Rightarrow> u8 \<Rightarrow> bytes \<Rightarrow> gy_hybrid_identity_public_key \<Rightarrow> bytes \<Rightarrow> gy_hybrid_device_record res" where
  "gy_hybrid_device_record_init L sid device_id ik fingerprint =
     (case gy_suite_desc L sid of None \<Rightarrow> Inl GY_ERR_ARG
      | Some dd \<Rightarrow>
          if \<not> is_hybrid dd then Inl GY_ERR_ARG
          else
            rbind (gy_device_record_init L sid device_id (hp_curve (hi_base ik)) fingerprint) (\<lambda>base.
              Inr \<lparr>hdv_base = base, hdv_mlkem_ek = take (kem_pk_len dd) (hp_mlkem_ek (hi_base ik)),
                   hdv_mldsa_pk = take (dsa_pk_len dd) (hi_mldsa_pk ik)\<rparr>))"

definition gy_devrec_key :: "provider \<Rightarrow> bytes \<Rightarrow> bytes \<Rightarrow> bytes res" where
  "gy_devrec_key L user_id device_id =
     (if user_id = [] \<or> length user_id > GY_USER_ID_MAX \<or>
         device_id = [] \<or> length device_id > GY_DEVICE_ID_MAX then Inl GY_ERR_ARG
      else gy_sha512 L (ascii ''geryon-devrec-key'' @
             gy_be32_put (word_of_nat (length user_id)) @ user_id @
             gy_be32_put (word_of_nat (length device_id)) @ device_id))"

subsection \<open>The session list of a device record\<close>

definition device_has_id :: "gy_device_record \<Rightarrow> bytes \<Rightarrow> bool" where
  "device_has_id d i \<longleftrightarrow> d_has_active d \<noteq> 0 \<and> d_active d = i \<or> list_ex (\<lambda>j. j = i) (d_inactive d)"

text \<open>Pushes at the head of the inactive list; the second component is the evicted tail, if any.\<close>

definition inactive_push_head :: "gy_device_record \<Rightarrow> bytes \<Rightarrow> gy_device_record \<times> bytes option" where
  "inactive_push_head d i =
     (if length (d_inactive d) = GY_SESSION_INACTIVE_MAX then
        (d\<lparr>d_inactive := i # take (GY_SESSION_INACTIVE_MAX - 1) (d_inactive d)\<rparr>,
         Some (d_inactive d ! (GY_SESSION_INACTIVE_MAX - 1)))
      else (d\<lparr>d_inactive := i # d_inactive d\<rparr>, None))"

definition gy_device_session_insert ::
    "gy_device_record \<Rightarrow> bytes \<Rightarrow> (gy_device_record \<times> bytes option) res" where
  "gy_device_session_insert d i =
     (if device_has_id d i then Inl GY_ERR_STATE
      else
        let (d1, ev) = (if d_has_active d \<noteq> 0 then inactive_push_head d (d_active d) else (d, None))
        in Inr (d1\<lparr>d_active := i, d_has_active := 1\<rparr>, ev))"

text \<open>The index of the first element that satisfies a test.\<close>

fun first_index :: "('a \<Rightarrow> bool) \<Rightarrow> 'a list \<Rightarrow> nat option" where
  "first_index p [] = None"
| "first_index p (x # xs) = (if p x then Some 0 else map_option Suc (first_index p xs))"

definition gy_device_session_activate :: "gy_device_record \<Rightarrow> bytes \<Rightarrow> gy_device_record res" where
  "gy_device_session_activate d i =
     (case first_index (\<lambda>j. j = i) (d_inactive d) of None \<Rightarrow> Inl GY_ERR_STATE
      | Some k \<Rightarrow>
          let tmp = d_inactive d ! k;
              d1 = d\<lparr>d_inactive := take k (d_inactive d) @ drop (Suc k) (d_inactive d)\<rparr>;
              d2 = (if d_has_active d1 \<noteq> 0 then fst (inactive_push_head d1 (d_active d1)) else d1)
          in Inr (d2\<lparr>d_active := tmp, d_has_active := 1\<rparr>))"

subsection \<open>The device index of a user record\<close>

definition user_find :: "gy_user_record \<Rightarrow> bytes \<Rightarrow> nat option" where
  "user_find u dev = first_index (\<lambda>v. ud_id v = dev) (u_devices u)"

definition user_remove :: "gy_user_record \<Rightarrow> nat \<Rightarrow> gy_user_record" where
  "user_remove u k = u\<lparr>u_devices := take k (u_devices u) @ drop (Suc k) (u_devices u)\<rparr>"

definition gy_user_record_init :: "u8 \<Rightarrow> bytes \<Rightarrow> gy_user_record res" where
  "gy_user_record_init sid user_id =
     (if user_id = [] \<or> length user_id > GY_USER_ID_MAX then Inl GY_ERR_ARG
      else Inr \<lparr>u_suite_id = sid, u_user_id = user_id, u_devices = [], u_stale = 0\<rparr>)"

definition gy_user_device_insert :: "gy_user_record \<Rightarrow> bytes \<Rightarrow> (gy_user_record \<times> bytes option) res" where
  "gy_user_device_insert u dev =
     (if dev = [] \<or> length dev > GY_DEVICE_ID_MAX then Inl GY_ERR_ARG
      else if user_find u dev \<noteq> None then Inl GY_ERR_STATE
      else
        let add = (\<lambda>u. u\<lparr>u_devices := u_devices u @ [\<lparr>ud_id = dev, ud_stale = 0\<rparr>]\<rparr>) in
        if length (u_devices u) = GY_DEVICE_MAX then
          (case first_index (\<lambda>v. ud_stale v \<noteq> 0) (u_devices u) of None \<Rightarrow> Inl GY_ERR_STATE
           | Some k \<Rightarrow> Inr (add (user_remove u k), Some (ud_id (u_devices u ! k))))
        else Inr (add u, None))"

definition gy_user_device_mark_stale :: "gy_user_record \<Rightarrow> bytes \<Rightarrow> gy_user_record res" where
  "gy_user_device_mark_stale u dev =
     (case user_find u dev of None \<Rightarrow> Inl GY_ERR_STATE
      | Some k \<Rightarrow> Inr (u\<lparr>u_devices := (u_devices u)[k := (u_devices u ! k)\<lparr>ud_stale := 1\<rparr>]\<rparr>))"

definition gy_user_device_index :: "gy_user_record \<Rightarrow> bytes \<Rightarrow> int" where
  "gy_user_device_index u dev = (case user_find u dev of None \<Rightarrow> -1 | Some k \<Rightarrow> int k)"

definition gy_user_device_remove :: "gy_user_record \<Rightarrow> bytes \<Rightarrow> gy_user_record res" where
  "gy_user_device_remove u dev =
     (case user_find u dev of None \<Rightarrow> Inl GY_ERR_STATE | Some k \<Rightarrow> Inr (user_remove u k))"

subsection \<open>Facts about searching\<close>

lemma first_index_None: "first_index p xs = None \<longleftrightarrow> (\<forall>x \<in> set xs. \<not> p x)"
  by (induction xs) auto

lemma first_index_split:
  "first_index p xs = Some k \<Longrightarrow> k < length xs \<and> p (xs ! k) \<and> (\<forall>x \<in> set (take k xs). \<not> p x) \<and>
     xs = take k xs @ xs ! k # drop (Suc k) xs"
proof (induction xs arbitrary: k)
  case Nil
  then show ?case by simp
next
  case (Cons x xs)
  then show ?case by (cases k) (auto split: if_splits)
qed

lemma first_index_remove:
  assumes "first_index (\<lambda>y. y = x) xs = Some k"
  shows "take k xs @ drop (Suc k) xs = remove1 x xs"
  using assms by (induction xs arbitrary: k) (auto split: if_splits)

subsection \<open>The session list as a bounded most-recently-used list\<close>

definition dev_ids :: "gy_device_record \<Rightarrow> bytes list" where
  "dev_ids d = (if d_has_active d \<noteq> 0 then [d_active d] else []) @ d_inactive d"

definition dev_inv :: "gy_device_record \<Rightarrow> bool" where
  "dev_inv d \<longleftrightarrow> distinct (dev_ids d) \<and> length (d_inactive d) \<le> GY_SESSION_INACTIVE_MAX"

lemma device_has_id_iff: "device_has_id d i \<longleftrightarrow> i \<in> set (dev_ids d)"
  by (auto simp: device_has_id_def dev_ids_def list_ex_iff)

lemma push_head_spec:
  assumes "length (d_inactive d) \<le> GY_SESSION_INACTIVE_MAX" and "inactive_push_head d i = (d', ev)"
  shows "d_inactive d' @ (case ev of None \<Rightarrow> [] | Some e \<Rightarrow> [e]) = i # d_inactive d"
    "length (d_inactive d') \<le> GY_SESSION_INACTIVE_MAX" "d_inactive d' = take 40 (i # d_inactive d)"
    "d_has_active d' = d_has_active d"
proof -
  have "take 39 xs @ [xs ! 39] = xs" if "length xs = 40" for xs :: "bytes list"
    using that take_Suc_conv_app_nth [of 39 xs] by simp
  then show "d_inactive d' @ (case ev of None \<Rightarrow> [] | Some e \<Rightarrow> [e]) = i # d_inactive d"
      "length (d_inactive d') \<le> GY_SESSION_INACTIVE_MAX" "d_inactive d' = take 40 (i # d_inactive d)"
      "d_has_active d' = d_has_active d"
    using assms by (auto simp: inactive_push_head_def GY_SESSION_INACTIVE_MAX_def split: if_splits)
qed

lemma insert_spec:
  assumes inv: "dev_inv d" and ins: "gy_device_session_insert d i = Inr (d', ev)"
  shows "dev_ids d' @ (case ev of None \<Rightarrow> [] | Some e \<Rightarrow> [e]) = i # dev_ids d"
    "d_has_active d' = 1" "d_active d' = i" "dev_inv d'"
proof -
  have new: "i \<notin> set (dev_ids d)"
    using ins by (auto simp: gy_device_session_insert_def device_has_id_iff split: if_splits)
  obtain d1 where d1: "(if d_has_active d \<noteq> 0 then inactive_push_head d (d_active d) else (d, None)) = (d1, ev)"
      "d' = d1\<lparr>d_active := i, d_has_active := 1\<rparr>"
    using ins by (auto simp: gy_device_session_insert_def split: if_splits prod.splits)
  have len: "length (d_inactive d) \<le> GY_SESSION_INACTIVE_MAX" using inv by (simp add: dev_inv_def)
  have l: "d_inactive d1 @ (case ev of None \<Rightarrow> [] | Some e \<Rightarrow> [e]) = dev_ids d \<and>
      length (d_inactive d1) \<le> GY_SESSION_INACTIVE_MAX"
    using d1(1) push_head_spec [OF len] len by (cases "d_has_active d = 0") (auto simp: dev_ids_def)
  have ids: "dev_ids d' = i # d_inactive d1" using d1(2) by (simp add: dev_ids_def)
  show e: "dev_ids d' @ (case ev of None \<Rightarrow> [] | Some e \<Rightarrow> [e]) = i # dev_ids d"
    using l ids by simp
  have "distinct (i # dev_ids d)" using inv new by (simp add: dev_inv_def)
  then have "distinct (dev_ids d')" by (metis e distinct_append)
  then show "dev_inv d'" using d1(2) l by (simp add: dev_inv_def)
  show "d_has_active d' = 1" "d_active d' = i" using d1(2) by simp_all
qed

lemma activate_spec:
  assumes inv: "dev_inv d" and act: "gy_device_session_activate d i = Inr d'"
  shows "dev_ids d' = i # remove1 i (dev_ids d)" "i \<in> set (d_inactive d)" "d_has_active d' = 1" "dev_inv d'"
proof -
  obtain k where k: "first_index (\<lambda>j. j = i) (d_inactive d) = Some k"
    using act by (auto simp: gy_device_session_activate_def split: option.splits)
  note sp = first_index_split [OF k]
  define d1 where "d1 = d\<lparr>d_inactive := remove1 i (d_inactive d)\<rparr>"
  define d2 where "d2 = (if d_has_active d \<noteq> 0 then fst (inactive_push_head d1 (d_active d)) else d1)"
  have rm: "take k (d_inactive d) @ drop (Suc k) (d_inactive d) = remove1 i (d_inactive d)"
    by (rule first_index_remove [OF k])
  have at: "d_inactive d ! k = i" using sp by blast
  have d': "d' = d2\<lparr>d_active := i, d_has_active := 1\<rparr>"
    using act by (auto simp: gy_device_session_activate_def k Let_def rm at d2_def d1_def)
  show mem: "i \<in> set (d_inactive d)" using sp by (metis nth_mem)
  have len: "Suc (length (remove1 i (d_inactive d))) \<le> 40"
    using inv mem by (cases "d_inactive d")
      (auto simp: dev_inv_def GY_SESSION_INACTIVE_MAX_def length_remove1 split: if_splits)
  have "d_inactive d2 = (if d_has_active d \<noteq> 0 then [d_active d] else []) @ remove1 i (d_inactive d)"
    using push_head_spec(3) [of d1 "d_active d"] len
    by (cases "inactive_push_head d1 (d_active d)") (auto simp: d2_def d1_def GY_SESSION_INACTIVE_MAX_def)
  moreover have "d_has_active d \<noteq> 0 \<longrightarrow> d_active d \<noteq> i"
    using inv mem by (auto simp: dev_inv_def dev_ids_def)
  ultimately show ids: "dev_ids d' = i # remove1 i (dev_ids d)"
    by (auto simp: d' dev_ids_def)
  show "d_has_active d' = 1" by (simp add: d')
  have "distinct (dev_ids d')" using inv by (auto simp: ids dev_inv_def)
  moreover have "length (d_inactive d') \<le> 40"
    using len \<open>d_inactive d2 = _\<close> by (auto simp: d')
  ultimately show "dev_inv d'" by (simp add: dev_inv_def GY_SESSION_INACTIVE_MAX_def)
qed

text \<open>Exactly when the two operations refuse.\<close>

lemma insert_refused: "(\<exists>e. gy_device_session_insert d i = Inl e) \<longleftrightarrow> i \<in> set (dev_ids d)"
  by (auto simp: gy_device_session_insert_def device_has_id_iff split: prod.split)

lemma activate_refused: "(\<exists>e. gy_device_session_activate d i = Inl e) \<longleftrightarrow> i \<notin> set (d_inactive d)"
  by (auto simp: gy_device_session_activate_def Let_def first_index_None split: option.split
      dest: first_index_split)

subsection \<open>The device index\<close>

definition user_inv :: "gy_user_record \<Rightarrow> bool" where
  "user_inv u \<longleftrightarrow> user_ok u \<and> distinct (map ud_id (u_devices u))"

lemma user_find_None: "user_find u dev = None \<longleftrightarrow> dev \<notin> ud_id ` set (u_devices u)"
  by (auto simp: user_find_def first_index_None)

lemma user_remove_inv:
  assumes "user_inv u"
  shows "user_inv (user_remove u k)"
proof -
  let ?xs = "u_devices u"
  have "distinct (map ud_id (take k ?xs @ drop (Suc k) ?xs))"
  proof (cases "k < length ?xs")
    case True
    then have "distinct (map ud_id (take k ?xs @ ?xs ! k # drop (Suc k) ?xs))"
      using assms by (simp add: user_inv_def id_take_nth_drop [symmetric])
    then show ?thesis by auto
  next
    case False
    then show ?thesis using assms by (simp add: user_inv_def)
  qed
  then show ?thesis
    using assms by (auto simp: user_inv_def user_ok_def user_remove_def dest: in_set_takeD in_set_dropD)
qed

text \<open>
  The abstract insertion: the new device goes to the end; a full index first drops its oldest stale
  device (\<open>gone\<close>), every other device keeps its place.
\<close>

definition index_insert :: "user_device list \<Rightarrow> bytes \<Rightarrow> bytes option \<Rightarrow> user_device list \<Rightarrow> bool" where
  "index_insert vs dev ev vs' \<longleftrightarrow> (\<exists>pre gone post. vs = pre @ gone @ post \<and>
     vs' = pre @ post @ [\<lparr>ud_id = dev, ud_stale = 0\<rparr>] \<and>
     map ud_id gone = (case ev of None \<Rightarrow> [] | Some e \<Rightarrow> [e]) \<and>
     (\<forall>v \<in> set gone. ud_stale v \<noteq> 0) \<and> (gone \<noteq> [] \<longrightarrow> (\<forall>v \<in> set pre. ud_stale v = 0)) \<and>
     (gone \<noteq> [] \<longleftrightarrow> length vs = GY_DEVICE_MAX))"

lemma user_add_inv:
  assumes "user_inv w" "length (u_devices w) < GY_DEVICE_MAX" "dev \<noteq> []" "length dev \<le> GY_DEVICE_ID_MAX"
    and "dev \<notin> ud_id ` set (u_devices w)"
  shows "user_inv (w\<lparr>u_devices := u_devices w @ [\<lparr>ud_id = dev, ud_stale = 0\<rparr>]\<rparr>)"
  using assms by (auto simp: user_inv_def user_ok_def)

lemma user_insert_spec:
  assumes inv: "user_inv u" and ins: "gy_user_device_insert u dev = Inr (u', ev)"
  shows "user_inv u' \<and> index_insert (u_devices u) dev ev (u_devices u')"
proof -
  let ?v = "\<lparr>ud_id = dev, ud_stale = 0\<rparr>"
  have dev: "dev \<noteq> []" "length dev \<le> GY_DEVICE_ID_MAX" "dev \<notin> ud_id ` set (u_devices u)"
    using ins by (auto simp: gy_user_device_insert_def user_find_None [symmetric] split: if_splits)
  show ?thesis
  proof (cases "length (u_devices u) = GY_DEVICE_MAX")
    case True
    then obtain k where k: "first_index (\<lambda>v. ud_stale v \<noteq> 0) (u_devices u) = Some k"
        "u' = (user_remove u k)\<lparr>u_devices := u_devices (user_remove u k) @ [?v]\<rparr>" "ev = Some (ud_id (u_devices u ! k))"
      using ins dev by (auto simp: gy_user_device_insert_def user_find_None Let_def split: option.splits if_splits)
    note sp = first_index_split [OF k(1)]
    have "user_inv u'" unfolding k(2)
      by (rule user_add_inv) (use sp True dev user_remove_inv [OF inv] in
          \<open>auto simp: user_remove_def dest: in_set_takeD in_set_dropD\<close>)
    moreover have "index_insert (u_devices u) dev ev (u_devices u')"
      unfolding index_insert_def using sp True
      by (intro exI [of _ "take k (u_devices u)"] exI [of _ "[u_devices u ! k]"]
          exI [of _ "drop (Suc k) (u_devices u)"] conjI) (simp_all add: k(2,3) user_remove_def)
    ultimately show ?thesis by simp
  next
    case False
    then have u': "u' = u\<lparr>u_devices := u_devices u @ [?v]\<rparr>" "ev = None"
      using ins dev by (auto simp: gy_user_device_insert_def user_find_None Let_def split: if_splits)
    have "length (u_devices u) < GY_DEVICE_MAX" using inv False by (simp add: user_inv_def user_ok_def)
    then have "user_inv u'" using user_add_inv [OF inv _ dev] by (simp add: u')
    moreover have "index_insert (u_devices u) dev ev (u_devices u')"
      unfolding index_insert_def using False by (intro exI [of _ "u_devices u"] exI [of _ "[]"]) (simp add: u')
    ultimately show ?thesis by simp
  qed
qed

lemma user_removed:
  assumes inv: "user_inv u" and rm: "gy_user_device_remove u dev = Inr u'"
  shows "user_inv u' \<and> ud_id ` set (u_devices u') = ud_id ` set (u_devices u) - {dev}"
proof -
  obtain k where k: "first_index (\<lambda>v. ud_id v = dev) (u_devices u) = Some k" "u' = user_remove u k"
    using rm by (auto simp: gy_user_device_remove_def user_find_def split: option.splits)
  note sp = first_index_split [OF k(1)]
  define pre post v where "pre = take k (u_devices u)" and "post = drop (Suc k) (u_devices u)"
    and "v = u_devices u ! k"
  have u: "u_devices u = pre @ v # post" "ud_id v = dev" "u_devices u' = pre @ post"
    using sp by (simp_all add: pre_def post_def v_def k(2) user_remove_def)
  have "distinct (map ud_id (pre @ v # post))" using inv u(1) by (simp add: user_inv_def)
  then have "dev \<notin> ud_id ` set (pre @ post)" using u(2) by (simp add: image_Un)
  then have "ud_id ` set (pre @ post) = ud_id ` set (pre @ v # post) - {dev}"
    using u(2) by (simp add: image_Un)
  then show ?thesis unfolding u(1,3) using user_remove_inv [OF inv, of k] k(2) by blast
qed

lemma user_mark_spec:
  assumes "gy_user_device_mark_stale u dev = Inr u'"
  shows "map ud_id (u_devices u') = map ud_id (u_devices u)" "user_inv u \<Longrightarrow> user_inv u'"
proof -
  obtain k where k: "user_find u dev = Some k"
      "u' = u\<lparr>u_devices := (u_devices u)[k := (u_devices u ! k)\<lparr>ud_stale := 1\<rparr>]\<rparr>"
    using assms by (auto simp: gy_user_device_mark_stale_def split: option.splits)
  have kl: "k < length (u_devices u)" using k(1) first_index_split by (fastforce simp: user_find_def)
  show ids: "map ud_id (u_devices u') = map ud_id (u_devices u)"
    using kl by (simp add: k(2) map_update list_update_same_conv)
  have "\<exists>w \<in> set (u_devices u). ud_id w = ud_id v" if "v \<in> set (u_devices u')" for v
    using ids that by (metis (no_types, lifting) image_iff list.set_map)
  then show "user_inv u'" if "user_inv u"
    using that ids by (fastforce simp: user_inv_def user_ok_def k(2))
qed

subsection \<open>What the list operations guarantee\<close>

text \<open>
  The session list of a device record is a most-recently-used list of at most 41 identifiers
  without repetition. Inserting puts the new session in front and gives back exactly the identifier
  that fell off the end; activating an inactive session moves it to the front and loses none;
  insertion is refused exactly for a known identifier, activation exactly for one that is not an
  inactive session.
\<close>

lemma device_list_mru:
  assumes "dev_inv d"
  shows "(\<forall>d' ev. gy_device_session_insert d i = Inr (d', ev) \<longrightarrow>
      dev_inv d' \<and> d_active d' = i \<and> d_has_active d' = 1 \<and>
      dev_ids d' @ (case ev of None \<Rightarrow> [] | Some e \<Rightarrow> [e]) = i # dev_ids d) \<and>
    (\<forall>d'. gy_device_session_activate d i = Inr d' \<longrightarrow>
      dev_inv d' \<and> d_has_active d' = 1 \<and> dev_ids d' = i # remove1 i (dev_ids d)) \<and>
    ((\<exists>e. gy_device_session_insert d i = Inl e) \<longleftrightarrow> i \<in> set (dev_ids d)) \<and>
    ((\<exists>e. gy_device_session_activate d i = Inl e) \<longleftrightarrow> i \<notin> set (d_inactive d))"
  using insert_spec [OF assms] activate_spec [OF assms] insert_refused activate_refused by simp

text \<open>
  The device index of a user record keeps at most 32 devices with different identifiers.
  Inserting appends the device; when the index is full the oldest stale device makes room and is
  reported, a device that is not stale is never dropped. Marking a device stale and removing one keep
  the index consistent.
\<close>

lemma user_index_oldest_stale:
  assumes "user_inv u"
  shows "(\<forall>u' ev. gy_user_device_insert u dev = Inr (u', ev) \<longrightarrow>
      user_inv u' \<and> index_insert (u_devices u) dev ev (u_devices u')) \<and>
    (\<forall>u'. gy_user_device_mark_stale u dev = Inr u' \<longrightarrow>
      user_inv u' \<and> map ud_id (u_devices u') = map ud_id (u_devices u)) \<and>
    (\<forall>u'. gy_user_device_remove u dev = Inr u' \<longrightarrow>
      user_inv u' \<and> ud_id ` set (u_devices u') = ud_id ` set (u_devices u) - {dev})"
  using user_insert_spec [OF assms] user_mark_spec assms user_removed [OF assms] by blast

end
