(* ===== verification/GY_Store.thy ===== *)
theory GY_Store
  imports GY_SessionList GY_Seal
begin

text \<open>
  The transactional staging engine of \<^verbatim>\<open>src/session/store.c\<close> over the application's store
  callbacks, and the sealing wrapper of \<^verbatim>\<open>src/proto/sealed_store.c\<close> around such callbacks.

  The callbacks are the application's code, so they are a parameter: a record \<open>gy_store\<close> of
  functions on a world, which is the application's own state together with the draw counter of the
  process (a sealing store draws nonces). An in-use slot of the stage is \<open>Some\<close>. The functions
  that stage take no world, and the loads call \<open>load_record\<close> only.

  On an error the staging functions yield the old stage. The records are encoded into a local buffer
  and copied, a session is encoded in place; that encoder fails only on lengths beyond the fixed
  arrays of the source, which no session of the program has. The assertion of the debug build against
  re-entrant callbacks has no counterpart, since a callback cannot reach the stage here.
\<close>

subsection \<open>Callbacks and the stage\<close>

datatype gy_rec_kind = GY_REC_USER | GY_REC_DEVICE | GY_REC_SESSION
datatype gy_prekey_kind = GY_PREKEY_SPK | GY_PREKEY_OPK

type_synonym ('w, 'a) cb = "'w \<times> rng \<Rightarrow> 'a res \<times> ('w \<times> rng)"

record 'w gy_store =
  load_record :: "gy_rec_kind \<Rightarrow> bytes \<Rightarrow> nat \<Rightarrow> ('w, bytes) cb"
  store_record :: "gy_rec_kind \<Rightarrow> bytes \<Rightarrow> bytes \<Rightarrow> ('w, unit) cb"
  delete_record :: "gy_rec_kind \<Rightarrow> bytes \<Rightarrow> ('w, unit) cb"
  load_identity :: "nat \<Rightarrow> ('w, bytes) cb"
  store_identity :: "bytes \<Rightarrow> ('w, unit) cb"
  load_prekey :: "gy_prekey_kind \<Rightarrow> u32 \<Rightarrow> nat \<Rightarrow> ('w, bytes) cb"
  consume_opk :: "u32 \<Rightarrow> ('w, unit) cb"

definition GY_OP_MAX_RECORDS :: nat where "GY_OP_MAX_RECORDS = 40"
definition GY_OP_MAX_SESSIONS :: nat where "GY_OP_MAX_SESSIONS = 34"
definition GY_OP_MAX_DEFER :: nat where "GY_OP_MAX_DEFER = 64"

record gy_op_rec =
  or_kind :: gy_rec_kind
  or_id :: bytes
  or_blob :: bytes

record gy_op_sess =
  os_id :: bytes
  os_blob :: bytes

datatype gy_op_defer = GY_OP_DELETE_RECORD gy_rec_kind bytes | GY_OP_CONSUME_OPK u32

record 'w gy_op =
  op_store :: "'w gy_store"
  op_rec :: "gy_op_rec option list"
  op_sess :: "gy_op_sess option list"
  op_defer :: "gy_op_defer list"

definition op_clear :: "'w gy_op \<Rightarrow> 'w gy_op" where
  "op_clear op1 = op1\<lparr>op_rec := replicate GY_OP_MAX_RECORDS None, op_sess := replicate GY_OP_MAX_SESSIONS None,
     op_defer := []\<rparr>"

definition gy_op_begin :: "'w gy_op \<Rightarrow> 'w gy_store \<Rightarrow> 'w gy_op" where
  "gy_op_begin op1 st = (op_clear op1)\<lparr>op_store := st\<rparr>"

definition gy_op_abort :: "'w gy_op \<Rightarrow> 'w gy_op" where
  "gy_op_abort op1 = op_clear op1"

subsection \<open>Loads\<close>

fun find_rec :: "gy_rec_kind \<Rightarrow> bytes \<Rightarrow> gy_op_rec option list \<Rightarrow> bytes option" where
  "find_rec k i [] = None"
| "find_rec k i (None # rs) = find_rec k i rs"
| "find_rec k i (Some r # rs) = (if or_kind r = k \<and> or_id r = i then Some (or_blob r) else find_rec k i rs)"

fun find_sess :: "bytes \<Rightarrow> gy_op_sess option list \<Rightarrow> bytes option" where
  "find_sess i [] = None"
| "find_sess i (None # es) = find_sess i es"
| "find_sess i (Some e # es) = (if os_id e = take GY_SESSION_ID_LEN i then Some (os_blob e) else find_sess i es)"

fun find_delete :: "gy_rec_kind \<Rightarrow> bytes \<Rightarrow> gy_op_defer list \<Rightarrow> bool" where
  "find_delete k i [] = False"
| "find_delete k i (GY_OP_DELETE_RECORD k' i' # ds) = (k' = k \<and> i' = i \<or> find_delete k i ds)"
| "find_delete k i (GY_OP_CONSUME_OPK _ # ds) = find_delete k i ds"

text \<open>\<open>Some []\<close> is a staged deletion, \<open>None\<close> is "ask the store".\<close>

definition stage_lookup :: "'w gy_op \<Rightarrow> gy_rec_kind \<Rightarrow> bytes \<Rightarrow> bytes option" where
  "stage_lookup op1 k i =
     (case (if k = GY_REC_SESSION then find_sess i (op_sess op1) else find_rec k i (op_rec op1)) of
        Some b \<Rightarrow> Some b
      | None \<Rightarrow> if find_delete k i (op_defer op1) then Some [] else None)"

definition op_load :: "'w gy_op \<Rightarrow> gy_rec_kind \<Rightarrow> bytes \<Rightarrow> ('w, bytes) cb" where
  "op_load op1 k i w =
     (case stage_lookup op1 k i of
        Some b \<Rightarrow> (Inr b, w)
      | None \<Rightarrow> load_record (op_store op1) k i GY_SESSION_BLOB_MAX w)"

text \<open>The tail the loaders share: absent is \<open>Inr None\<close>, otherwise the decoded record.\<close>

definition load_with :: "'w gy_op \<Rightarrow> gy_rec_kind \<Rightarrow> bytes \<Rightarrow> (bytes \<Rightarrow> 'r res) \<Rightarrow> ('w, 'r option) cb" where
  "load_with op1 k i dec w =
     (case op_load op1 k i w of
        (Inl e, w1) \<Rightarrow> (Inl e, w1)
      | (Inr b, w1) \<Rightarrow> if b = [] then (Inr None, w1) else (rbind (dec b) (\<lambda>x. Inr (Some x)), w1))"

definition gy_op_load_user :: "'w gy_op \<Rightarrow> bytes \<Rightarrow> ('w, gy_user_record option) cb" where
  "gy_op_load_user op1 i = load_with op1 GY_REC_USER i gy_user_record_decode"

definition gy_op_load_device :: "provider \<Rightarrow> 'w gy_op \<Rightarrow> bytes \<Rightarrow> ('w, gy_device_record option) cb" where
  "gy_op_load_device L op1 i = load_with op1 GY_REC_DEVICE i (gy_device_record_decode L)"

definition gy_op_load_hybrid_device ::
    "provider \<Rightarrow> 'w gy_op \<Rightarrow> bytes \<Rightarrow> ('w, gy_hybrid_device_record option) cb" where
  "gy_op_load_hybrid_device L op1 i = load_with op1 GY_REC_DEVICE i (gy_hybrid_device_record_decode L)"

text \<open>The record and whether it is hybrid; a classical record has empty post-quantum keys.\<close>

definition device_any_decode :: "provider \<Rightarrow> bytes \<Rightarrow> (gy_hybrid_device_record \<times> bool) res" where
  "device_any_decode L b =
     (if length b < 3 then Inl GY_ERR_ARG
      else case gy_suite_desc L (b ! 2) of None \<Rightarrow> Inl GY_ERR_ARG
        | Some d \<Rightarrow>
            if is_hybrid d then rbind (gy_hybrid_device_record_decode L b) (\<lambda>r. Inr (r, True))
            else rbind (gy_device_record_decode L b) (\<lambda>r.
              Inr (\<lparr>hdv_base = r, hdv_mlkem_ek = [], hdv_mldsa_pk = []\<rparr>, False)))"

definition gy_op_load_device_any ::
    "provider \<Rightarrow> 'w gy_op \<Rightarrow> bytes \<Rightarrow> ('w, (gy_hybrid_device_record \<times> bool) option) cb" where
  "gy_op_load_device_any L op1 i = load_with op1 GY_REC_DEVICE i (device_any_decode L)"

definition gy_op_load_session :: "provider \<Rightarrow> 'w gy_op \<Rightarrow> bytes \<Rightarrow> ('w, gy_session option) cb" where
  "gy_op_load_session L op1 i = load_with op1 GY_REC_SESSION i (gy_session_decode L)"

subsection \<open>Stages\<close>

text \<open>The slot to write: the in-use slot of the same key, else the first free one.\<close>

fun find_slot :: "('a \<Rightarrow> bool) \<Rightarrow> nat \<Rightarrow> nat option \<Rightarrow> 'a option list \<Rightarrow> nat option" where
  "find_slot p n avail [] = avail"
| "find_slot p n avail (Some r # rs) = (if p r then Some n else find_slot p (Suc n) avail rs)"
| "find_slot p n avail (None # rs) =
     find_slot p (Suc n) (case avail of None \<Rightarrow> Some n | Some a \<Rightarrow> Some a) rs"

definition rec_slot :: "'w gy_op \<Rightarrow> gy_rec_kind \<Rightarrow> bytes \<Rightarrow> nat option" where
  "rec_slot op1 k i = find_slot (\<lambda>r. or_kind r = k \<and> or_id r = i) 0 None (op_rec op1)"

definition put_rec :: "'w gy_op \<Rightarrow> gy_rec_kind \<Rightarrow> bytes \<Rightarrow> bytes \<Rightarrow> 'w gy_op res" where
  "put_rec op1 k i blob =
     (case rec_slot op1 k i of None \<Rightarrow> Inl GY_ERR_STATE
      | Some n \<Rightarrow> Inr (op1\<lparr>op_rec := (op_rec op1)[n := Some \<lparr>or_kind = k, or_id = i, or_blob = blob\<rparr>]\<rparr>))"

definition gy_op_put_user :: "'w gy_op \<Rightarrow> gy_user_record \<Rightarrow> 'w gy_op res" where
  "gy_op_put_user op1 u =
     rbind (gy_user_record_encode GY_USER_BLOB_MAX u) (\<lambda>blob. put_rec op1 GY_REC_USER (u_user_id u) blob)"

definition gy_op_put_device :: "provider \<Rightarrow> 'w gy_op \<Rightarrow> gy_device_record \<Rightarrow> bytes \<Rightarrow> 'w gy_op res" where
  "gy_op_put_device L op1 d key =
     (if key = [] \<or> length key > GY_DEVICE_ID_MAX then Inl GY_ERR_ARG
      else rbind (gy_device_record_encode L GY_DEVICE_BLOB_MAX d) (\<lambda>blob. put_rec op1 GY_REC_DEVICE key blob))"

definition gy_op_put_hybrid_device ::
    "provider \<Rightarrow> 'w gy_op \<Rightarrow> gy_hybrid_device_record \<Rightarrow> bytes \<Rightarrow> 'w gy_op res" where
  "gy_op_put_hybrid_device L op1 d key =
     (if key = [] \<or> length key > GY_DEVICE_ID_MAX then Inl GY_ERR_ARG
      else rbind (gy_hybrid_device_record_encode L GY_HYBRID_DEVICE_BLOB_MAX d) (\<lambda>blob.
        put_rec op1 GY_REC_DEVICE key blob))"

definition gy_op_put_device_any ::
    "provider \<Rightarrow> 'w gy_op \<Rightarrow> gy_hybrid_device_record \<Rightarrow> bool \<Rightarrow> bytes \<Rightarrow> 'w gy_op res" where
  "gy_op_put_device_any L op1 d hyb key =
     (if hyb then gy_op_put_hybrid_device L op1 d key else gy_op_put_device L op1 (hdv_base d) key)"

definition gy_op_put_session :: "'w gy_op \<Rightarrow> gy_session \<Rightarrow> 'w gy_op res" where
  "gy_op_put_session op1 s =
     (case find_slot (\<lambda>e. os_id e = arr GY_SESSION_ID_LEN (s_id s)) 0 None (op_sess op1) of
        None \<Rightarrow> Inl GY_ERR_STATE
      | Some n \<Rightarrow>
          rbind (gy_session_encode GY_SESSION_BLOB_MAX s) (\<lambda>blob.
            Inr (op1\<lparr>op_sess := (op_sess op1)[n :=
              Some \<lparr>os_id = arr GY_SESSION_ID_LEN (s_id s), os_blob = blob\<rparr>]\<rparr>)))"

definition gy_op_delete :: "'w gy_op \<Rightarrow> gy_rec_kind \<Rightarrow> bytes \<Rightarrow> 'w gy_op res" where
  "gy_op_delete op1 k i =
     (if i = [] \<or> length i > GY_DEVICE_ID_MAX then Inl GY_ERR_ARG
      else if length (op_defer op1) \<ge> GY_OP_MAX_DEFER then Inl GY_ERR_STATE
      else Inr (op1\<lparr>op_defer := op_defer op1 @ [GY_OP_DELETE_RECORD k i]\<rparr>))"

definition gy_op_consume_opk :: "'w gy_op \<Rightarrow> u32 \<Rightarrow> 'w gy_op res" where
  "gy_op_consume_opk op1 pkid =
     (if length (op_defer op1) \<ge> GY_OP_MAX_DEFER then Inl GY_ERR_STATE
      else Inr (op1\<lparr>op_defer := op_defer op1 @ [GY_OP_CONSUME_OPK pkid]\<rparr>))"

subsection \<open>Commit\<close>

fun commit_recs :: "'w gy_store \<Rightarrow> gy_op_rec option list \<Rightarrow> ('w, unit) cb" where
  "commit_recs st [] w = (Inr (), w)"
| "commit_recs st (None # rs) w = commit_recs st rs w"
| "commit_recs st (Some r # rs) w =
     (case store_record st (or_kind r) (or_id r) (or_blob r) w of
        (Inl e, w1) \<Rightarrow> (Inl e, w1)
      | (Inr _, w1) \<Rightarrow> commit_recs st rs w1)"

fun commit_sess :: "'w gy_store \<Rightarrow> gy_op_sess option list \<Rightarrow> ('w, unit) cb" where
  "commit_sess st [] w = (Inr (), w)"
| "commit_sess st (None # es) w = commit_sess st es w"
| "commit_sess st (Some e # es) w =
     (case store_record st GY_REC_SESSION (os_id e) (os_blob e) w of
        (Inl e1, w1) \<Rightarrow> (Inl e1, w1)
      | (Inr _, w1) \<Rightarrow> commit_sess st es w1)"

definition run_defer :: "'w gy_store \<Rightarrow> gy_op_defer \<Rightarrow> ('w, unit) cb" where
  "run_defer st d = (case d of GY_OP_DELETE_RECORD k i \<Rightarrow> delete_record st k i | GY_OP_CONSUME_OPK p \<Rightarrow> consume_opk st p)"

fun commit_defer :: "'w gy_store \<Rightarrow> gy_op_defer list \<Rightarrow> ('w, unit) cb" where
  "commit_defer st [] w = (Inr (), w)"
| "commit_defer st (d # ds) w =
     (case run_defer st d w of
        (Inl e, w1) \<Rightarrow> (Inl e, w1)
      | (Inr _, w1) \<Rightarrow> commit_defer st ds w1)"

definition gy_op_commit :: "'w gy_op \<Rightarrow> 'w \<times> rng \<Rightarrow> unit res \<times> 'w gy_op \<times> ('w \<times> rng)" where
  "gy_op_commit op1 w =
     (let st = op_store op1 in
      case commit_recs st (op_rec op1) w of
        (Inl e, w1) \<Rightarrow> (Inl e, gy_op_abort op1, w1)
      | (Inr _, w1) \<Rightarrow>
          (case commit_sess st (op_sess op1) w1 of
             (Inl e, w2) \<Rightarrow> (Inl e, gy_op_abort op1, w2)
           | (Inr _, w2) \<Rightarrow>
               (case commit_defer st (op_defer op1) w2 of
                  (Inl e, w3) \<Rightarrow> (Inl e, gy_op_abort op1, w3)
                | (Inr _, w3) \<Rightarrow> (Inr (), gy_op_abort op1, w3))))"

subsection \<open>The sealing wrapper\<close>

definition TAG_RECORD :: u8 where "TAG_RECORD = 0x01"
definition TAG_IDENTITY :: u8 where "TAG_IDENTITY = 0x02"
definition TAG_PREKEY :: u8 where "TAG_PREKEY = 0x03"

fun rec_kind_code :: "gy_rec_kind \<Rightarrow> u8" where
  "rec_kind_code GY_REC_USER = 1" | "rec_kind_code GY_REC_DEVICE = 2" | "rec_kind_code GY_REC_SESSION = 3"

fun prekey_kind_code :: "gy_prekey_kind \<Rightarrow> u8" where
  "prekey_kind_code GY_PREKEY_SPK = 1" | "prekey_kind_code GY_PREKEY_OPK = 2"

definition SS_SCRATCH :: nat where "SS_SCRATCH = GY_SESSION_BLOB_MAX + GY_SEAL_MAX_OVERHEAD"

record 'w gy_sealed_store =
  ss_ks :: gy_keystore
  ss_real :: "'w gy_store"
  ss_alg_id :: u8

definition record_ad :: "gy_rec_kind \<Rightarrow> bytes \<Rightarrow> bytes" where
  "record_ad k i = TAG_RECORD # rec_kind_code k # i"

definition prekey_ad :: "gy_prekey_kind \<Rightarrow> u32 \<Rightarrow> bytes" where
  "prekey_ad k pkid = TAG_PREKEY # prekey_kind_code k # gy_be32_put pkid"

text \<open>The common tail of the three sealed loads: an absent blob passes, any other is unsealed.\<close>

definition ss_open :: "provider \<Rightarrow> 'w gy_sealed_store \<Rightarrow> bytes \<Rightarrow> nat \<Rightarrow> bytes res \<times> ('w \<times> rng)
    \<Rightarrow> bytes res \<times> ('w \<times> rng)" where
  "ss_open L ss ad cap res1 =
     (case res1 of (Inl e, w1) \<Rightarrow> (Inl e, w1)
      | (Inr blob, w1) \<Rightarrow> if blob = [] then (Inr [], w1) else (gy_keystore_unseal L (ss_ks ss) ad blob cap, w1))"

definition ss_load_record ::
    "provider \<Rightarrow> 'w gy_sealed_store \<Rightarrow> gy_rec_kind \<Rightarrow> bytes \<Rightarrow> nat \<Rightarrow> ('w, bytes) cb" where
  "ss_load_record L ss k i cap w =
     (if length i > GY_DEVICE_ID_MAX then (Inl GY_ERR_ARG, w)
      else ss_open L ss (record_ad k i) cap (load_record (ss_real ss) k i SS_SCRATCH w))"

definition ss_store_record ::
    "provider \<Rightarrow> 'w gy_sealed_store \<Rightarrow> gy_rec_kind \<Rightarrow> bytes \<Rightarrow> bytes \<Rightarrow> ('w, unit) cb" where
  "ss_store_record L ss k i blob w =
     (if length i > GY_DEVICE_ID_MAX then (Inl GY_ERR_ARG, w)
      else case gy_keystore_seal L (ss_ks ss) (ss_alg_id ss) (record_ad k i) blob SS_SCRATCH (snd w) of
          (Inl e, r1) \<Rightarrow> (Inl e, (fst w, r1))
        | (Inr sealed, r1) \<Rightarrow> store_record (ss_real ss) k i sealed (fst w, r1))"

definition ss_delete_record :: "'w gy_sealed_store \<Rightarrow> gy_rec_kind \<Rightarrow> bytes \<Rightarrow> ('w, unit) cb" where
  "ss_delete_record ss k i = delete_record (ss_real ss) k i"

definition ss_load_identity :: "provider \<Rightarrow> 'w gy_sealed_store \<Rightarrow> nat \<Rightarrow> ('w, bytes) cb" where
  "ss_load_identity L ss cap w = ss_open L ss [TAG_IDENTITY] cap (load_identity (ss_real ss) SS_SCRATCH w)"

definition ss_store_identity :: "provider \<Rightarrow> 'w gy_sealed_store \<Rightarrow> bytes \<Rightarrow> ('w, unit) cb" where
  "ss_store_identity L ss blob w =
     (case gy_keystore_seal L (ss_ks ss) (ss_alg_id ss) [TAG_IDENTITY] blob SS_SCRATCH (snd w) of
          (Inl e, r1) \<Rightarrow> (Inl e, (fst w, r1))
        | (Inr sealed, r1) \<Rightarrow> store_identity (ss_real ss) sealed (fst w, r1))"

definition ss_load_prekey ::
    "provider \<Rightarrow> 'w gy_sealed_store \<Rightarrow> gy_prekey_kind \<Rightarrow> u32 \<Rightarrow> nat \<Rightarrow> ('w, bytes) cb" where
  "ss_load_prekey L ss k pkid cap w =
     ss_open L ss (prekey_ad k pkid) cap (load_prekey (ss_real ss) k pkid SS_SCRATCH w)"

definition ss_consume_opk :: "'w gy_sealed_store \<Rightarrow> u32 \<Rightarrow> ('w, unit) cb" where
  "ss_consume_opk ss pkid = consume_opk (ss_real ss) pkid"

definition gy_sealed_store_bind ::
    "provider \<Rightarrow> gy_keystore \<Rightarrow> 'w gy_store \<Rightarrow> u8 \<Rightarrow> 'w gy_store" where
  "gy_sealed_store_bind L ks real alg_id =
     (let ss = \<lparr>ss_ks = ks, ss_real = real, ss_alg_id = alg_id\<rparr> in
      \<lparr>load_record = ss_load_record L ss, store_record = ss_store_record L ss,
       delete_record = ss_delete_record ss, load_identity = ss_load_identity L ss,
       store_identity = ss_store_identity L ss, load_prekey = ss_load_prekey L ss,
       consume_opk = ss_consume_opk ss\<rparr>)"

subsection \<open>What the application promises\<close>

text \<open>
  The documented contract of the callbacks, for the records: a load that succeeds returns what is
  stored under the key, empty when nothing is, and no load changes the records; a store or a
  deletion that succeeds changes exactly its key; consuming a prekey changes no record. Any callback
  may fail. \<open>view\<close> reads the records off the application's state.
\<close>

definition store_contract :: "'w gy_store \<Rightarrow> ('w \<Rightarrow> gy_rec_kind \<times> bytes \<Rightarrow> bytes) \<Rightarrow> bool" where
  "store_contract st view \<longleftrightarrow>
     (\<forall>k i cap w x w'. load_record st k i cap w = (x, w') \<longrightarrow>
        view (fst w') = view (fst w) \<and> (\<forall>b. x = Inr b \<longrightarrow> b = view (fst w) (k, i))) \<and>
     (\<forall>k i b w w'. store_record st k i b w = (Inr (), w') \<longrightarrow> view (fst w') = (view (fst w))((k, i) := b)) \<and>
     (\<forall>k i w w'. delete_record st k i w = (Inr (), w') \<longrightarrow> view (fst w') = (view (fst w))((k, i) := [])) \<and>
     (\<forall>p w w'. consume_opk st p w = (Inr (), w') \<longrightarrow> view (fst w') = view (fst w))"

text \<open>
  What the computations before a commit need of a store: its loads do not change the observed part of
  the application's state.
\<close>

definition loads_keep :: "'w gy_store \<Rightarrow> ('w \<Rightarrow> 'v) \<Rightarrow> bool" where
  "loads_keep st view \<longleftrightarrow> (\<forall>k i cap w. view (fst (snd (load_record st k i cap w))) = view (fst w))"

lemma contract_loads: "store_contract st view \<Longrightarrow> loads_keep st view"
  unfolding store_contract_def loads_keep_def by (metis prod.collapse)

lemma contractD:
  assumes "store_contract st view"
  shows "load_record st k i cap w = (x, w') \<Longrightarrow> view (fst w') = view (fst w)"
    "load_record st k i cap w = (Inr b, w') \<Longrightarrow> b = view (fst w) (k, i)"
    "store_record st k i b w = (Inr (), w') \<Longrightarrow> view (fst w') = (view (fst w))((k, i) := b)"
    "delete_record st k i w = (Inr (), w') \<Longrightarrow> view (fst w') = (view (fst w))((k, i) := [])"
    "consume_opk st p w = (Inr (), w') \<Longrightarrow> view (fst w') = view (fst w)"
  using assms unfolding store_contract_def by blast+

subsection \<open>The plan of a commit\<close>

text \<open>
  What a commit asks of the store, as data: the staged records, the staged sessions, then the deferred
  actions in the order they were requested.
\<close>

datatype store_act = Act_Store gy_rec_kind bytes bytes | Act_Delete gy_rec_kind bytes | Act_Consume u32

definition in_use :: "'a option list \<Rightarrow> 'a list" where
  "in_use xs = map the (filter (\<lambda>x. x \<noteq> None) xs)"

definition rec_act :: "gy_op_rec \<Rightarrow> store_act" where
  "rec_act r = Act_Store (or_kind r) (or_id r) (or_blob r)"

definition sess_act :: "gy_op_sess \<Rightarrow> store_act" where
  "sess_act e = Act_Store GY_REC_SESSION (os_id e) (os_blob e)"

definition defer_act :: "gy_op_defer \<Rightarrow> store_act" where
  "defer_act d = (case d of GY_OP_DELETE_RECORD k i \<Rightarrow> Act_Delete k i | GY_OP_CONSUME_OPK p \<Rightarrow> Act_Consume p)"

definition commit_plan :: "'w gy_op \<Rightarrow> store_act list" where
  "commit_plan op1 = map rec_act (in_use (op_rec op1)) @ map sess_act (in_use (op_sess op1)) @
     map defer_act (op_defer op1)"

definition run_act :: "'w gy_store \<Rightarrow> store_act \<Rightarrow> ('w, unit) cb" where
  "run_act st a = (case a of Act_Store k i b \<Rightarrow> store_record st k i b | Act_Delete k i \<Rightarrow> delete_record st k i
     | Act_Consume p \<Rightarrow> consume_opk st p)"

fun run_acts :: "'w gy_store \<Rightarrow> store_act list \<Rightarrow> ('w, unit) cb" where
  "run_acts st [] w = (Inr (), w)"
| "run_acts st (a # as) w = (case run_act st a w of (Inl e, w1) \<Rightarrow> (Inl e, w1) | (Inr _, w1) \<Rightarrow> run_acts st as w1)"

lemma in_use_simps [simp]: "in_use [] = []" "in_use (None # xs) = in_use xs" "in_use (Some x # xs) = x # in_use xs"
    "in_use (replicate n None) = []" "set (in_use xs) = {x. Some x \<in> set xs}"
  by (force simp: in_use_def)+

lemma in_use_append: "in_use (xs @ ys) = in_use xs @ in_use ys"
  by (simp add: in_use_def)

lemma run_acts_append:
  "run_acts st (as @ bs) w = (case run_acts st as w of (Inl e, w1) \<Rightarrow> (Inl e, w1) | (Inr _, w1) \<Rightarrow> run_acts st bs w1)"
  by (induction as arbitrary: w) (simp_all split: prod.split sum.split)

lemma commit_recs_acts: "commit_recs st rs w = run_acts st (map rec_act (in_use rs)) w"
  by (induction st rs w rule: commit_recs.induct) (simp_all add: run_act_def rec_act_def split: prod.split sum.split)

lemma commit_sess_acts: "commit_sess st es w = run_acts st (map sess_act (in_use es)) w"
  by (induction st es w rule: commit_sess.induct) (simp_all add: run_act_def sess_act_def split: prod.split sum.split)

lemma run_defer_act: "run_defer st d = run_act st (defer_act d)"
  by (cases d) (simp_all add: run_defer_def run_act_def defer_act_def)

lemma commit_defer_acts: "commit_defer st ds w = run_acts st (map defer_act ds) w"
  by (induction st ds w rule: commit_defer.induct) (simp_all add: run_defer_act split: prod.split sum.split)

lemma commit_runs_plan:
  "gy_op_commit op1 w = (let (x, w') = run_acts (op_store op1) (commit_plan op1) w in (x, gy_op_abort op1, w'))"
  unfolding gy_op_commit_def commit_plan_def Let_def run_acts_append commit_recs_acts commit_sess_acts
    commit_defer_acts
  by (auto split: prod.split sum.split)

lemma run_acts_error:
  "run_acts st as w = (Inl e, w') \<Longrightarrow>
     \<exists>done a rest w1. as = done @ a # rest \<and> run_acts st done w = (Inr (), w1) \<and> run_act st a w1 = (Inl e, w')"
proof (induction as arbitrary: w)
  case Nil
  then show ?case by simp
next
  case (Cons a as)
  obtain x w1 where x: "run_act st a w = (x, w1)" by (cases "run_act st a w")
  show ?case
  proof (cases x)
    case (Inl e')
    then show ?thesis using Cons.prems x by (intro exI [of _ "[]"]) simp
  next
    case (Inr u)
    then have "run_acts st as w1 = (Inl e, w')" using Cons.prems x by simp
    from Cons.IH [OF this] obtain as1 b rest w2 where
      "as = as1 @ b # rest" "run_acts st as1 w1 = (Inr (), w2)" "run_act st b w2 = (Inl e, w')" by blast
    then have "a # as = (a # as1) @ b # rest" "run_acts st (a # as1) w = (Inr (), w2)" "run_act st b w2 = (Inl e, w')"
      using x Inr by simp_all
    then show ?thesis by blast
  qed
qed

subsection \<open>What a completed plan leaves in the store\<close>

fun act_effect :: "(gy_rec_kind \<times> bytes \<Rightarrow> bytes) \<Rightarrow> store_act \<Rightarrow> gy_rec_kind \<times> bytes \<Rightarrow> bytes" where
  "act_effect v (Act_Store k i b) = v((k, i) := b)"
| "act_effect v (Act_Delete k i) = v((k, i) := [])"
| "act_effect v (Act_Consume p) = v"

lemma run_acts_view:
  assumes "store_contract st view" "run_acts st as w = (Inr (), w')"
  shows "view (fst w') = foldl act_effect (view (fst w)) as"
  using assms(2)
proof (induction as arbitrary: w)
  case Nil
  then show ?case by simp
next
  case (Cons a as)
  then obtain w1 where w1: "run_act st a w = (Inr (), w1)" "run_acts st as w1 = (Inr (), w')"
    by (auto split: prod.splits sum.splits)
  have "view (fst w1) = act_effect (view (fst w)) a"
    using w1(1) contractD [OF assms(1)] by (cases a) (auto simp: run_act_def)
  then show ?case using Cons.IH [OF w1(2)] by simp
qed

lemma find_key_None: "q \<notin> key ` set xs \<Longrightarrow> find (\<lambda>x. key x = q) xs = None"
  by (induction xs) auto

lemma foldl_updates:
  assumes "distinct (map key xs)"
  shows "foldl (\<lambda>v x. v(key x := val x)) v xs q = (case find (\<lambda>x. key x = q) xs of Some x \<Rightarrow> val x | None \<Rightarrow> v q)"
  using assms
proof (induction xs arbitrary: v)
  case Nil
  then show ?case by simp
next
  case (Cons x xs)
  have "find (\<lambda>y. key y = key x) xs = None" using Cons.prems by (simp add: find_key_None)
  then show ?case using Cons by (auto split: option.split)
qed

lemma foldl_defer:
  "foldl act_effect v (map defer_act ds) (k, i) = (if find_delete k i ds then [] else v (k, i))"
  by (induction k i ds arbitrary: v rule: find_delete.induct) (auto simp: defer_act_def)

subsection \<open>The stage invariant\<close>

definition rec_key :: "gy_op_rec \<Rightarrow> gy_rec_kind \<times> bytes" where
  "rec_key r = (or_kind r, or_id r)"

definition op_inv :: "'w gy_op \<Rightarrow> bool" where
  "op_inv op1 \<longleftrightarrow> length (op_rec op1) = GY_OP_MAX_RECORDS \<and> length (op_sess op1) = GY_OP_MAX_SESSIONS \<and>
     length (op_defer op1) \<le> GY_OP_MAX_DEFER \<and>
     distinct (map rec_key (in_use (op_rec op1))) \<and> distinct (map os_id (in_use (op_sess op1))) \<and>
     (\<forall>r \<in> set (in_use (op_rec op1)). or_kind r \<noteq> GY_REC_SESSION \<and> or_blob r \<noteq> []) \<and>
     (\<forall>e \<in> set (in_use (op_sess op1)). length (os_id e) = GY_SESSION_ID_LEN \<and> os_blob e \<noteq> [])"

lemma op_inv_clear: "op_inv (op_clear op1)"
  by (simp add: op_inv_def op_clear_def)

lemma find_rec_in_use: "find_rec k i rs = map_option or_blob (find (\<lambda>r. rec_key r = (k, i)) (in_use rs))"
  by (induction k i rs rule: find_rec.induct) (auto simp: rec_key_def)

lemma find_sess_in_use:
  "find_sess i es = map_option os_blob (find (\<lambda>e. os_id e = take GY_SESSION_ID_LEN i) (in_use es))"
  by (induction i es rule: find_sess.induct) auto

text \<open>The slot a search finds holds the key, or is free and then no slot holds it.\<close>

lemma find_slot_spec:
  assumes "find_slot p n avail rs = Some m" and "\<forall>a. avail = Some a \<longrightarrow> a < n"
  shows "(n \<le> m \<and> m < n + length rs \<and> (\<exists>r. rs ! (m - n) = Some r \<and> p r)) \<or>
     ((avail = Some m \<or> n \<le> m \<and> m < n + length rs \<and> rs ! (m - n) = None) \<and> (\<forall>r \<in> set (in_use rs). \<not> p r))"
  using assms
proof (induction p n avail rs rule: find_slot.induct)
  case (1 p n avail)
  then show ?case by simp
next
  case (2 p n avail r rs)
  show ?case
  proof (cases "p r")
    case True
    then show ?thesis using 2 by auto
  next
    case False
    then have "find_slot p (Suc n) avail rs = Some m" "\<forall>a. avail = Some a \<longrightarrow> a < Suc n"
      using 2 by auto
    from 2(1) [OF False this] False show ?thesis by (auto simp: nth_Cons')
  qed
next
  case (3 p n avail rs)
  from 3(1) 3(2,3) show ?case by (cases avail) (auto simp: nth_Cons')
qed

text \<open>Staging in the slot found keeps the keys different and changes the lookup at that key only.\<close>

lemma slot_put:
  assumes slot: "find_slot (\<lambda>r. key r = key x) 0 None rs = Some m" and "distinct (map key (in_use rs))"
  shows "distinct (map key (in_use (rs[m := Some x])))"
    "find (\<lambda>r. key r = q) (in_use (rs[m := Some x])) = (if q = key x then Some x else find (\<lambda>r. key r = q) (in_use rs))"
    "set (in_use (rs[m := Some x])) \<subseteq> insert x (set (in_use rs))"
proof -
  have m: "m < length rs" "(\<exists>r. rs ! m = Some r \<and> key r = key x) \<or>
      rs ! m = None \<and> (\<forall>r \<in> set (in_use rs). key r \<noteq> key x)"
    using find_slot_spec [OF slot] by auto
  define pre post where "pre = take m rs" and "post = drop (Suc m) rs"
  have rs: "in_use rs = in_use pre @ in_use [rs ! m] @ in_use post"
    unfolding pre_def post_def in_use_append [symmetric] using m(1) by (simp add: id_take_nth_drop [symmetric])
  have upd: "in_use (rs[m := Some x]) = in_use pre @ x # in_use post"
    using m(1) by (simp add: upd_conv_take_nth_drop pre_def post_def in_use_append)
  have keys: "distinct (map key (in_use pre @ x # in_use post))"
  proof (cases "rs ! m")
    case None
    then have "\<forall>r \<in> set (in_use pre) \<union> set (in_use post). key r \<noteq> key x" using m(2) rs by (auto simp del: in_use_simps(5))
    then show ?thesis using assms(2) rs None by (auto simp del: in_use_simps(5))
  next
    case (Some r)
    then show ?thesis using assms(2) rs m(2) by (auto simp del: in_use_simps(5))
  qed
  then show "distinct (map key (in_use (rs[m := Some x])))" by (simp only: upd)
  have none: "find (\<lambda>r. key r = key x) (in_use pre) = None"
    by (rule find_key_None) (use keys in \<open>simp del: in_use_simps(5)\<close>)
  have fa: "find p (as @ bs) = (case find p as of Some y \<Rightarrow> Some y | None \<Rightarrow> find p bs)" for p and as bs :: "'a list"
    by (induction as) auto
  have "find (\<lambda>r. key r = q) (in_use [rs ! m]) = None" if "q \<noteq> key x"
    using m(2) that by (cases "rs ! m") auto
  then show "find (\<lambda>r. key r = q) (in_use (rs[m := Some x])) =
      (if q = key x then Some x else find (\<lambda>r. key r = q) (in_use rs))"
    unfolding upd rs fa using none by (auto split: option.split)
  show "set (in_use (rs[m := Some x])) \<subseteq> insert x (set (in_use rs))"
    unfolding upd rs by auto
qed

lemma put_rec_spec:
  assumes inv: "op_inv op1" and put: "put_rec op1 k i blob = Inr op2" and "k \<noteq> GY_REC_SESSION" "blob \<noteq> []"
  shows "op_inv op2" "op_store op2 = op_store op1" "op_defer op2 = op_defer op1"
    "k' \<noteq> GY_REC_SESSION \<Longrightarrow> find_rec k' i' (op_rec op2) = (if (k', i') = (k, i) then Some blob else find_rec k' i' (op_rec op1))"
    "op_sess op2 = op_sess op1"
proof -
  let ?x = "\<lparr>or_kind = k, or_id = i, or_blob = blob\<rparr>"
  obtain m where m: "find_slot (\<lambda>r. rec_key r = rec_key ?x) 0 None (op_rec op1) = Some m"
      "op2 = op1\<lparr>op_rec := (op_rec op1)[m := Some ?x]\<rparr>"
    using put by (auto simp: put_rec_def rec_slot_def rec_key_def split: option.splits)
  have d: "distinct (map rec_key (in_use (op_rec op1)))" using inv by (simp add: op_inv_def)
  note sp = slot_put [OF m(1) d]
  show "op_inv op2" unfolding op_inv_def
    using inv assms(3,4) sp(1,3) by (auto simp: m(2) op_inv_def simp del: in_use_simps(5))
  show "find_rec k' i' (op_rec op2) = (if (k', i') = (k, i) then Some blob else find_rec k' i' (op_rec op1))"
    using sp(2) [of "(k', i')"] by (simp add: m(2) find_rec_in_use) (auto simp: rec_key_def)
qed (use put in \<open>auto simp: put_rec_def split: option.splits\<close>)

lemma put_session_spec:
  assumes inv: "op_inv op1" and put: "gy_op_put_session op1 s = Inr op2"
  shows "op_inv op2" "op_store op2 = op_store op1" "op_defer op2 = op_defer op1" "op_rec op2 = op_rec op1"
    "\<exists>blob. gy_session_encode GY_SESSION_BLOB_MAX s = Inr blob \<and> (\<forall>i. find_sess i (op_sess op2) =
       (if take GY_SESSION_ID_LEN i = arr GY_SESSION_ID_LEN (s_id s) then Some blob else find_sess i (op_sess op1)))"
proof -
  obtain m blob where b: "gy_session_encode GY_SESSION_BLOB_MAX s = Inr blob"
      "find_slot (\<lambda>e. os_id e = arr GY_SESSION_ID_LEN (s_id s)) 0 None (op_sess op1) = Some m"
      "op2 = op1\<lparr>op_sess := (op_sess op1)[m := Some \<lparr>os_id = arr GY_SESSION_ID_LEN (s_id s), os_blob = blob\<rparr>]\<rparr>"
    using put by (auto simp: gy_op_put_session_def rbind_eq_Inr_iff split: option.splits)
  let ?x = "\<lparr>os_id = arr GY_SESSION_ID_LEN (s_id s), os_blob = blob\<rparr>"
  have d: "distinct (map os_id (in_use (op_sess op1)))" using inv by (simp add: op_inv_def)
  have m: "find_slot (\<lambda>e. os_id e = os_id ?x) 0 None (op_sess op1) = Some m" using b(2) by simp
  note sp = slot_put [OF m d]
  have "blob \<noteq> []" using b(1) by (auto simp: session_encode session_bytes_def split: if_splits)
  then show "op_inv op2" unfolding op_inv_def
    using inv sp(1,3) by (auto simp: b(3) op_inv_def simp del: in_use_simps(5))
  show "\<exists>blob. gy_session_encode GY_SESSION_BLOB_MAX s = Inr blob \<and> (\<forall>i. find_sess i (op_sess op2) =
       (if take GY_SESSION_ID_LEN i = arr GY_SESSION_ID_LEN (s_id s) then Some blob else find_sess i (op_sess op1)))"
    using b(1) sp(2) by (auto simp: b(3) find_sess_in_use)
  show "op_store op2 = op_store op1" "op_defer op2 = op_defer op1" "op_rec op2 = op_rec op1" by (simp_all add: b(3))
qed

text \<open>The calls an operation makes on its stage between its begin and its commit.\<close>

inductive op_step :: "provider \<Rightarrow> 'w gy_op \<Rightarrow> 'w gy_op \<Rightarrow> bool" for L where
  put_user: "gy_op_put_user op1 u = Inr op2 \<Longrightarrow> op_step L op1 op2"
| put_device: "gy_op_put_device L op1 d key = Inr op2 \<Longrightarrow> op_step L op1 op2"
| put_hybrid: "gy_op_put_hybrid_device L op1 h key = Inr op2 \<Longrightarrow> op_step L op1 op2"
| put_any: "gy_op_put_device_any L op1 h hyb key = Inr op2 \<Longrightarrow> op_step L op1 op2"
| put_session: "gy_op_put_session op1 s = Inr op2 \<Longrightarrow> op_step L op1 op2"
| delete: "gy_op_delete op1 k i = Inr op2 \<Longrightarrow> op_step L op1 op2"
| consume: "gy_op_consume_opk op1 p = Inr op2 \<Longrightarrow> op_step L op1 op2"
| abort: "op_step L op1 (gy_op_abort op1)"

lemma device_blob_nonempty: "gy_device_record_encode L cap d = Inr b \<Longrightarrow> b \<noteq> []"
  by (cases "gy_suite_desc L (d_suite_id d)")
    (auto simp: device_encode Let_def split: if_splits, simp add: gy_device_record_encode_def)

lemma hybrid_device_blob_nonempty: "gy_hybrid_device_record_encode L cap d = Inr b \<Longrightarrow> b \<noteq> []"
  by (cases "gy_suite_desc L (d_suite_id (hdv_base d))")
    (auto simp: hybrid_device_encode hybrid_devrec_bytes_def split: if_splits,
     simp add: gy_hybrid_device_record_encode_def)

lemma put_user_rec:
  "gy_op_put_user op1 u = Inr op2 \<Longrightarrow> \<exists>b. b \<noteq> [] \<and> put_rec op1 GY_REC_USER (u_user_id u) b = Inr op2"
  by (auto simp: gy_op_put_user_def rbind_eq_Inr_iff user_encode user_bytes_def split: if_splits)

lemma put_hybrid_rec:
  "gy_op_put_hybrid_device L op1 h key = Inr op2 \<Longrightarrow> \<exists>b. b \<noteq> [] \<and> put_rec op1 GY_REC_DEVICE key b = Inr op2"
  by (auto simp: gy_op_put_hybrid_device_def rbind_eq_Inr_iff split: if_splits dest!: hybrid_device_blob_nonempty)

lemma put_device_rec:
  "gy_op_put_device L op1 d key = Inr op2 \<Longrightarrow> \<exists>b. b \<noteq> [] \<and> put_rec op1 GY_REC_DEVICE key b = Inr op2"
  by (auto simp: gy_op_put_device_def rbind_eq_Inr_iff split: if_splits dest!: device_blob_nonempty)

lemma op_step_inv:
  assumes "op_step L op1 op2" "op_inv op1"
  shows "op_inv op2 \<and> op_store op2 = op_store op1"
  using assms
proof (cases rule: op_step.cases)
  case (put_user u)
  then show ?thesis using put_user_rec put_rec_spec(1,2) [OF assms(2)] by (metis gy_rec_kind.distinct(3))
next
  case (put_device d key)
  then show ?thesis using put_device_rec put_rec_spec(1,2) [OF assms(2)] by (metis gy_rec_kind.distinct(5))
next
  case (put_hybrid h key)
  then show ?thesis using put_hybrid_rec put_rec_spec(1,2) [OF assms(2)] by (metis gy_rec_kind.distinct(5))
next
  case (put_any h hyb key)
  then show ?thesis using put_hybrid_rec put_device_rec put_rec_spec(1,2) [OF assms(2)]
    unfolding gy_op_put_device_any_def by (metis gy_rec_kind.distinct(5))
next
  case (put_session s)
  then show ?thesis using put_session_spec(1,2) [OF assms(2)] by blast
next
  case (delete k i)
  then show ?thesis using assms(2) by (auto simp: gy_op_delete_def op_inv_def split: if_splits)
next
  case (consume p)
  then show ?thesis using assms(2) by (auto simp: gy_op_consume_opk_def op_inv_def split: if_splits)
next
  case abort
  then show ?thesis using op_inv_clear by (simp add: gy_op_abort_def) (simp add: op_clear_def)
qed

lemma op_reach_inv:
  assumes "(op_step L)\<^sup>*\<^sup>* (gy_op_begin op0 st) op1"
  shows "op_inv op1 \<and> op_store op1 = st"
  using assms
proof (induction rule: rtranclp_induct)
  case base
  have "op_inv (gy_op_begin op0 st)"
    using op_inv_clear [of op0] by (simp add: gy_op_begin_def op_inv_def)
  then show ?case by (simp add: gy_op_begin_def)
next
  case (step op1 op2)
  then show ?case using op_step_inv by metis
qed

subsection \<open>A commit makes the stage durable\<close>

definition slot_blob :: "'w gy_op \<Rightarrow> gy_rec_kind \<Rightarrow> bytes \<Rightarrow> bytes option" where
  "slot_blob op1 k i = (if k = GY_REC_SESSION then find_sess i (op_sess op1) else find_rec k i (op_rec op1))"

lemma stage_lookup_slot:
  "stage_lookup op1 k i = (case slot_blob op1 k i of Some b \<Rightarrow> Some b
     | None \<Rightarrow> if find_delete k i (op_defer op1) then Some [] else None)"
  by (simp add: stage_lookup_def slot_blob_def)

lemma foldl_rec_acts: "foldl act_effect v (map rec_act rs) = foldl (\<lambda>v r. v(rec_key r := or_blob r)) v rs"
  by (induction rs arbitrary: v) (simp_all add: rec_act_def rec_key_def)

lemma foldl_sess_acts:
  "foldl act_effect v (map sess_act es) = foldl (\<lambda>v e. v((GY_REC_SESSION, os_id e) := os_blob e)) v es"
  by (induction es arbitrary: v) (simp_all add: sess_act_def)

lemma slots_effect:
  assumes inv: "op_inv op1" and "k = GY_REC_SESSION \<Longrightarrow> length i = GY_SESSION_ID_LEN"
  shows "foldl act_effect v (map rec_act (in_use (op_rec op1)) @ map sess_act (in_use (op_sess op1))) (k, i) =
     (case slot_blob op1 k i of Some b \<Rightarrow> b | None \<Rightarrow> v (k, i))"
proof -
  have d: "distinct (map rec_key (in_use (op_rec op1)))"
      "distinct (map (\<lambda>e. (GY_REC_SESSION, os_id e)) (in_use (op_sess op1)))"
    using inv by (auto simp: op_inv_def distinct_map inj_on_def)
  have none: "find (\<lambda>e. False) es = None" for es :: "gy_op_sess list" by (induction es) auto
  have rs: "find (\<lambda>r. rec_key r = (GY_REC_SESSION, i)) (in_use (op_rec op1)) = None"
    using inv by (auto simp: op_inv_def find_None_iff rec_key_def)
  show ?thesis
    unfolding foldl_append foldl_rec_acts foldl_sess_acts foldl_updates [OF d(2)] foldl_updates [OF d(1)]
    using assms(2) rs
    by (cases k) (auto simp: slot_blob_def find_rec_in_use find_sess_in_use none split: option.split)
qed

lemma commit_view:
  assumes "store_contract (op_store op1) view" "op_inv op1"
    and "gy_op_commit op1 w = (Inr (), op2, w')"
    and "k = GY_REC_SESSION \<Longrightarrow> length i = GY_SESSION_ID_LEN"
  shows "view (fst w') (k, i) = (if find_delete k i (op_defer op1) then []
     else case slot_blob op1 k i of Some b \<Rightarrow> b | None \<Rightarrow> view (fst w) (k, i))"
proof -
  have "run_acts (op_store op1) (commit_plan op1) w = (Inr (), w')"
    using assms(3) by (auto simp: commit_runs_plan split: prod.splits)
  from run_acts_view [OF assms(1) this] show ?thesis
    using slots_effect [OF assms(2,4), where v = "view (fst w)"]
    by (simp add: commit_plan_def foldl_defer)
qed

subsection \<open>Sealed stores\<close>

text \<open>The records an application sees through the sealing wrapper: the unsealed contents.\<close>

definition sealed_view :: "provider \<Rightarrow> gy_keystore \<Rightarrow> ('w \<Rightarrow> gy_rec_kind \<times> bytes \<Rightarrow> bytes) \<Rightarrow>
    'w \<Rightarrow> gy_rec_kind \<times> bytes \<Rightarrow> bytes" where
  "sealed_view L ks view w q = (let b = view w q in
     if b = [] then []
     else case gy_unseal L (length b) (the (ks_kek ks)) (record_ad (fst q) (snd q)) b of Inr pt \<Rightarrow> pt | Inl _ \<Rightarrow> [])"

lemma aead_decrypt_room:
  "gy_aead_decrypt L a cap k n ad ct = Inr pt \<Longrightarrow> length ct \<le> cap' \<Longrightarrow> gy_aead_decrypt L a cap' k n ad ct = Inr pt"
  by (auto simp: gy_aead_decrypt_def Let_def split: if_splits)

lemma unseal_room:
  assumes "gy_unseal L cap key ad b = Inr pt"
  shows "gy_unseal L (length b) key ad b = Inr pt"
proof -
  obtain nlen taglen where a: "seal_alg_lengths (b ! 1) = Inr (nlen, taglen)"
    using assms by (auto simp: gy_unseal_def Let_def split: if_splits sum.splits)
  show ?thesis
    using assms aead_decrypt_room [where cap' = "length b"]
    unfolding gy_unseal_def Let_def a by (auto split: if_splits option.splits)
qed

lemma sealed_store_keeps_contract:
  assumes L: "hash_lengths L" "aead_lengths L" "aead_correct L" and ks: "ks_unlocked ks"
    and real: "store_contract real view"
  shows "store_contract (gy_sealed_store_bind L ks real alg) (sealed_view L ks view)"
proof -
  define ss where "ss = \<lparr>ss_ks = ks, ss_real = real, ss_alg_id = alg\<rparr>"
  have bind: "gy_sealed_store_bind L ks real alg =
      \<lparr>load_record = ss_load_record L ss, store_record = ss_store_record L ss,
       delete_record = ss_delete_record ss, load_identity = ss_load_identity L ss,
       store_identity = ss_store_identity L ss, load_prekey = ss_load_prekey L ss,
       consume_opk = ss_consume_opk ss\<rparr>"
    by (simp add: gy_sealed_store_bind_def ss_def Let_def)
  note C = contractD [OF real]
  let ?sv = "sealed_view L ks view"
  have cong: "view (fst w') = view (fst w) \<Longrightarrow> ?sv (fst w') = ?sv (fst w)" for w w' :: "'a \<times> rng"
    by (simp add: sealed_view_def fun_eq_iff)
  have upd: "view (fst w') = (view (fst w))(q := b) \<Longrightarrow>
      ?sv (fst w') = (?sv (fst w))(q := ?sv (fst w') q)" for w w' :: "'a \<times> rng" and q b
    by (rule ext) (auto simp: sealed_view_def)
  have load: "?sv (fst w') = ?sv (fst w) \<and> (\<forall>b. x = Inr b \<longrightarrow> b = ?sv (fst w) (k, i))"
    if ld: "ss_load_record L ss k i cap w = (x, w')" for k i cap and w w' :: "'a \<times> rng" and x
  proof (cases "length i > GY_DEVICE_ID_MAX")
    case True
    then show ?thesis using ld by (auto simp: ss_load_record_def)
  next
    case False
    obtain y w1 where y: "load_record real k i SS_SCRATCH w = (y, w1)" by (cases "load_record real k i SS_SCRATCH w")
    have "w' = w1" using ld False y by (auto simp: ss_load_record_def ss_open_def ss_def split: sum.splits if_splits)
    moreover have "b = ?sv (fst w) (k, i)" if "x = Inr b" for b
    proof -
      obtain blob where blob: "y = Inr blob" using ld False y \<open>x = Inr b\<close>
        by (cases y) (auto simp: ss_load_record_def ss_open_def ss_def)
      have v: "view (fst w) (k, i) = blob" using C(2) y blob by blast
      show ?thesis
      proof (cases "blob = []")
        case True
        then show ?thesis using ld False y blob \<open>x = Inr b\<close> v
          by (simp add: ss_load_record_def ss_open_def ss_def sealed_view_def)
      next
        case nonempty: False
        then have "gy_unseal L cap (the (ks_kek ks)) (record_ad k i) blob = Inr b"
          using ld False y blob \<open>x = Inr b\<close> ks
          by (simp add: ss_load_record_def ss_open_def ss_def gy_keystore_unseal_def)
        from unseal_room [OF this] nonempty v show ?thesis by (simp add: sealed_view_def Let_def)
      qed
    qed
    ultimately show ?thesis using cong [OF C(1) [OF y]] by blast
  qed
  have store: "?sv (fst w') = (?sv (fst w))((k, i) := b)"
    if st: "ss_store_record L ss k i b w = (Inr (), w')" for k i b and w w' :: "'a \<times> rng"
  proof -
    obtain blob r1 where sl: "gy_seal L SS_SCRATCH (the (ks_kek ks)) alg (record_ad k i) b (snd w) = (Inr blob, r1)"
        "store_record real k i blob (fst w, r1) = (Inr (), w')"
      using st ks by (auto simp: ss_store_record_def ss_def gy_keystore_seal_def split: if_splits prod.splits sum.splits)
    have v: "view (fst w') = (view (fst w))((k, i) := blob)" using C(3) [OF sl(2)] by simp
    have len: "length b \<le> length blob" "blob \<noteq> []"
      using seal_roundtrip(2) [OF L sl(1) order_refl] by auto
    have "gy_unseal L (length blob) (the (ks_kek ks)) (record_ad k i) blob = Inr b"
      by (rule seal_roundtrip(1) [OF L sl(1) len(1)])
    then have "?sv (fst w') (k, i) = b" using v len(2) by (simp add: sealed_view_def Let_def)
    then show ?thesis using upd [OF v] by simp
  qed
  have delete: "?sv (fst w') = (?sv (fst w))((k, i) := [])"
    if "delete_record real k i w = (Inr (), w')" for k i and w w' :: "'a \<times> rng"
  proof -
    have "?sv (fst w') (k, i) = []" by (simp add: sealed_view_def C(4) [OF that])
    with upd [OF C(4) [OF that]] show ?thesis by simp
  qed
  have real_ss: "ss_real ss = real" by (simp add: ss_def)
  have consume: "?sv (fst w') = ?sv (fst w)" if "consume_opk real p w = (Inr (), w')" for p and w w' :: "'a \<times> rng"
    by (rule cong [OF C(5) [OF that]])
  show ?thesis
    unfolding store_contract_def bind gy_store.select_convs ss_delete_record_def ss_consume_opk_def real_ss
    using load store delete consume by (intro conjI allI impI) blast+
qed

subsection \<open>Properties\<close>

text \<open>
  C34. Commit order and failure. A commit asks the store for every staged record, then every staged
  session, then the deferred deletions and prekey consumptions in the order they were requested. It
  stops at the first callback that fails, asks nothing after it and returns its code; success means
  that every request succeeded. In every case the stage is cleared.
\<close>

theorem commit_order_and_failure:
  "\<exists>x w'. gy_op_commit op1 w = (x, gy_op_abort op1, w') \<and>
     (x = Inr () \<longleftrightarrow> run_acts (op_store op1) (commit_plan op1) w = (Inr (), w')) \<and>
     (\<forall>e. x = Inl e \<longrightarrow> (\<exists>before a after w1. commit_plan op1 = before @ a # after \<and>
        run_acts (op_store op1) before w = (Inr (), w1) \<and> run_act (op_store op1) a w1 = (Inl e, w')))"
proof -
  obtain x w' where x: "run_acts (op_store op1) (commit_plan op1) w = (x, w')"
    by (cases "run_acts (op_store op1) (commit_plan op1) w")
  then have "gy_op_commit op1 w = (x, gy_op_abort op1, w')" by (simp add: commit_runs_plan)
  then show ?thesis using x run_acts_error [of "op_store op1" "commit_plan op1" w] by auto
qed

text \<open>
  Read your writes. On the stage of any operation in progress, a session that was staged is what
  the next load of its identifier returns, decoded, without a call to the store; loads of other
  sessions and of all other records see what they saw before.
\<close>

lemma stage_read_your_writes:
  assumes "(op_step L)\<^sup>*\<^sup>* (gy_op_begin op0 st) op1" and "session_ok L s" and "length (s_id s) = GY_SESSION_ID_LEN"
    and "gy_op_put_session op1 s = Inr op2"
  shows "gy_op_load_session L op2 (s_id s) w = (Inr (Some (session_full s)), w) \<and>
     (\<forall>k i. (k = GY_REC_SESSION \<longrightarrow> length i = GY_SESSION_ID_LEN) \<longrightarrow> (k, i) \<noteq> (GY_REC_SESSION, s_id s) \<longrightarrow>
        op_load op2 k i w = op_load op1 k i w)"
proof -
  have inv: "op_inv op1" using op_reach_inv [OF assms(1)] by simp
  obtain blob where b: "gy_session_encode GY_SESSION_BLOB_MAX s = Inr blob"
      "\<And>i. find_sess i (op_sess op2) =
       (if take GY_SESSION_ID_LEN i = arr GY_SESSION_ID_LEN (s_id s) then Some blob else find_sess i (op_sess op1))"
    using put_session_spec(5) [OF inv assms(4)] by blast
  have id1: "arr GY_SESSION_ID_LEN (s_id s) = s_id s" using assms(3) by (simp add: arr_id)
  have "blob \<noteq> []" using b(1) by (auto simp: session_encode session_bytes_def split: if_splits)
  moreover have "stage_lookup op2 GY_REC_SESSION (s_id s) = Some blob"
    using b(2) [of "s_id s"] id1 assms(3) by (simp add: stage_lookup_def)
  ultimately have "gy_op_load_session L op2 (s_id s) w = (Inr (Some (session_full s)), w)"
    using session_blob.dec_enc [OF assms(2) b(1)]
    by (simp add: gy_op_load_session_def load_with_def op_load_def)
  moreover have "op_load op2 k i w = op_load op1 k i w"
    if "k = GY_REC_SESSION \<longrightarrow> length i = GY_SESSION_ID_LEN" "(k, i) \<noteq> (GY_REC_SESSION, s_id s)" for k i
    using that b(2) [of i] id1
    by (auto simp: op_load_def stage_lookup_def put_session_spec(2-4) [OF inv assms(4)]
        split: option.split)
  ultimately show ?thesis by blast
qed

text \<open>
  C33. Durability. When a commit succeeds on a store that keeps its contract, the records in the store
  are exactly what the operation itself was reading: staged records are stored, staged deletions are
  gone, everything else is unchanged. The key must not be staged and deferred for deletion at once.
\<close>

theorem commit_makes_stage_durable:
  assumes "(op_step L)\<^sup>*\<^sup>* (gy_op_begin op0 st) op1" and "store_contract st view"
    and "gy_op_commit op1 w = (Inr (), op2, w')"
    and "k = GY_REC_SESSION \<Longrightarrow> length i = GY_SESSION_ID_LEN"
    and "find_delete k i (op_defer op1) \<Longrightarrow> slot_blob op1 k i = None"
  shows "view (fst w') (k, i) = (case stage_lookup op1 k i of Some b \<Rightarrow> b | None \<Rightarrow> view (fst w) (k, i)) \<and>
     op_defer op2 = [] \<and> slot_blob op2 k i = None"
proof -
  have inv: "op_inv op1" "op_store op1 = st" using op_reach_inv [OF assms(1)] by simp_all
  have c: "store_contract (op_store op1) view" using assms(2) inv(2) by simp
  have "op2 = gy_op_abort op1" using assms(3) by (auto simp: commit_runs_plan split: prod.splits)
  then have "op_defer op2 = [] \<and> slot_blob op2 k i = None"
    by (simp add: gy_op_abort_def op_clear_def slot_blob_def find_rec_in_use find_sess_in_use)
  moreover have "view (fst w') (k, i) = (case stage_lookup op1 k i of Some b \<Rightarrow> b | None \<Rightarrow> view (fst w) (k, i))"
    using commit_view [OF c inv(1) assms(3,4)] assms(5) by (auto simp: stage_lookup_slot split: option.split)
  ultimately show ?thesis by simp
qed

text \<open>
  C35. The exception is real: a record that is staged and also deferred for deletion in the same
  operation is returned by every load of the operation, and is absent after a successful commit.
\<close>

theorem staged_and_deleted_is_lost:
  assumes "(op_step L)\<^sup>*\<^sup>* (gy_op_begin op0 st) op1" and "store_contract st view"
    and "gy_op_commit op1 w = (Inr (), op2, w')"
    and "k = GY_REC_SESSION \<Longrightarrow> length i = GY_SESSION_ID_LEN"
    and "find_delete k i (op_defer op1)" and "slot_blob op1 k i = Some b"
  shows "op_load op1 k i w = (Inr b, w) \<and> view (fst w') (k, i) = []"
proof -
  have inv: "op_inv op1" "op_store op1 = st" using op_reach_inv [OF assms(1)] by simp_all
  have c: "store_contract (op_store op1) view" using assms(2) inv(2) by simp
  show ?thesis
    using commit_view [OF c inv(1) assms(3,4)] assms(5,6) by (simp add: op_load_def stage_lookup_slot)
qed

text \<open>
  C36. Sealing preserves the contract. Wrapping an application store that keeps its contract in the
  sealing callbacks, with an unlocked keystore, yields callbacks that keep the same contract for the
  unsealed records: what was stored is what a load returns, key by key, and deletions delete.
\<close>

theorem sealed_store_contract:
  assumes "hash_lengths L" "aead_lengths L" "aead_correct L" "ks_unlocked ks" "store_contract real view"
  shows "store_contract (gy_sealed_store_bind L ks real alg) (sealed_view L ks view)"
  by (rule sealed_store_keeps_contract [OF assms])

end
