(* ===== verification/GY_SessionWitness.thy ===== *)
theory GY_SessionWitness
  imports GY_KexWitness GY_Store
begin

text \<open>
  The theorems about records, lists, the stage and the sealed store at concrete inputs: a session on
  a zero ratchet state, small records, and a store in memory that keeps its contract.
\<close>

subsection \<open>Records\<close>

definition toy_session :: gy_session where
  "toy_session = \<lparr>s_ratchet = hd_zero (suite_c25519 toy) 1, s_id = [1, 2, 3, 4], s_base = [9], s_pq_pending = 0,
     s_ad = [7, 7], s_created_at = 5, s_activated_at = 6, s_last_recv_at = 0, s_nsend = 0, s_nrecv = 0\<rparr>"

definition toy_device :: gy_device_record where
  "toy_device = \<lparr>d_suite_id = 1, d_device_id = [4], d_ik = \<lparr>pub_pkid = 3, pub_curve_type = 0x20, pub_pk = []\<rparr>,
     d_fingerprint = [], d_has_active = 1, d_active = [1, 1, 1, 1], d_inactive = [[2, 2, 2, 2]], d_stale = 0,
     d_stale_at = 0\<rparr>"

definition toy_user :: gy_user_record where
  "toy_user = \<lparr>u_suite_id = 1, u_user_id = [5], u_devices = [\<lparr>ud_id = [4], ud_stale = 0\<rparr>], u_stale = 0\<rparr>"

lemma zero_dr_inv: "dr_inv (dr_zero d a)"
  by (simp add: dr_inv_def dr_zero_def store_inv_empty)

lemma toy_session_suite:
  "gy_suite_desc toy (suite_id (dr_desc (hd_base (s_ratchet toy_session)))) = Some (dr_desc (hd_base (s_ratchet toy_session)))"
  by (simp add: toy_session_def hd_zero_def dr_zero_def)

lemma toy_session_ok: "session_ok toy toy_session"
  unfolding session_ok_def Let_def
  using toy_session_suite store_inv_shape [OF store_inv_empty]
  by (simp add: session_consts toy_session_def hd_zero_def dr_zero_def)

theorem session_blob_roundtrip_witness:
  "\<exists>b. gy_session_encode GY_SESSION_BLOB_MAX toy_session = Inr b \<and> gy_session_decode toy b = Inr (session_full toy_session)"
proof -
  have "dr_inv (hd_base (s_ratchet toy_session))"
    by (simp add: toy_session_def hd_zero_def zero_dr_inv)
  from session_blob_roundtrip [OF toy_session_suite this] show ?thesis
    by (auto simp: session_consts toy_session_def)
qed

theorem session_decode_admits_full_epochs_witness:
  "\<exists>s b s'. gy_session_encode GY_SESSION_BLOB_MAX s = Inr b \<and> gy_session_decode toy b = Inr s' \<and>
      snd (epoch_intern (dr_skipped (hd_base (s_ratchet s'))) (replicate 32 2)) =
        length (ss_epochs (dr_skipped (hd_base (s_ratchet s'))))"
proof -
  let ?s = "toy_session\<lparr>s_ratchet := (hd_zero (suite_c25519 toy) 1)\<lparr>hd_base := (dr_zero (suite_c25519 toy) 1)\<lparr>dr_skipped :=
      \<lparr>ss_ent = [], ss_epochs = replicate GY_MAX_SKIP \<lparr>ep_hk = replicate 32 1, ep_refs = 1\<rparr>, ss_recv_count = 0\<rparr>\<rparr>\<rparr>,
      s_base := [], s_ad := []\<rparr>"
  have "s_ratchet ?s = (hd_zero (suite_c25519 toy) 1)\<lparr>hd_base := (dr_zero (suite_c25519 toy) 1)\<lparr>dr_skipped :=
      \<lparr>ss_ent = [], ss_epochs = replicate GY_MAX_SKIP \<lparr>ep_hk = replicate 32 1, ep_refs = 1\<rparr>, ss_recv_count = 0\<rparr>\<rparr>\<rparr>"
      "s_base ?s = []" "s_ad ?s = []"
    by simp_all
  from session_decode_admits_full_epochs [OF suite_desc_lookup(1) this] show ?thesis by blast
qed

subsection \<open>Lists\<close>

subsection \<open>A store in memory\<close>

type_synonym mem = "gy_rec_kind \<times> bytes \<Rightarrow> bytes"

definition mem_store :: "mem gy_store" where
  "mem_store = \<lparr>load_record = (\<lambda>k i cap w. (Inr (fst w (k, i)), w)),
     store_record = (\<lambda>k i b w. (Inr (), ((fst w)((k, i) := b), snd w))),
     delete_record = (\<lambda>k i w. (Inr (), ((fst w)((k, i) := []), snd w))),
     load_identity = (\<lambda>cap w. (Inr [], w)), store_identity = (\<lambda>b w. (Inr (), w)),
     load_prekey = (\<lambda>k p cap w. (Inr [], w)), consume_opk = (\<lambda>p w. (Inr (), w))\<rparr>"

lemma mem_store_contract: "store_contract mem_store (\<lambda>m. m)"
  by (auto simp: store_contract_def mem_store_def)

definition toy_op0 :: "mem gy_op" where
  "toy_op0 = \<lparr>op_store = mem_store, op_rec = [], op_sess = [], op_defer = []\<rparr>"

definition toy_op :: "mem gy_op" where
  "toy_op = gy_op_begin toy_op0 mem_store"

lemma find_slot_free: "0 < k \<Longrightarrow> find_slot p 0 None (replicate k None) = Some 0"
proof -
  have "find_slot p n (Some a) (replicate j None) = Some a" for n a j
    by (induction j arbitrary: n) auto
  then show "0 < k \<Longrightarrow> find_slot p 0 None (replicate k None) = Some 0" by (cases k) simp_all
qed

definition toy_defer_op :: "mem gy_op" where
  "toy_defer_op = toy_op\<lparr>op_defer := [GY_OP_DELETE_RECORD GY_REC_USER [5], GY_OP_CONSUME_OPK 3]\<rparr>"

lemma toy_defer_reach: "(op_step toy)\<^sup>*\<^sup>* (gy_op_begin toy_op0 mem_store) toy_defer_op"
proof -
  have "gy_op_delete toy_op GY_REC_USER [5] = Inr (toy_op\<lparr>op_defer := [GY_OP_DELETE_RECORD GY_REC_USER [5]]\<rparr>)"
    by (simp add: gy_op_delete_def toy_op_def gy_op_begin_def op_clear_def session_consts GY_OP_MAX_DEFER_def)
  then have a: "op_step toy toy_op (toy_op\<lparr>op_defer := [GY_OP_DELETE_RECORD GY_REC_USER [5]]\<rparr>)" by (rule op_step.delete)
  have "gy_op_consume_opk (toy_op\<lparr>op_defer := [GY_OP_DELETE_RECORD GY_REC_USER [5]]\<rparr>) 3 = Inr toy_defer_op"
    by (simp add: gy_op_consume_opk_def toy_defer_op_def GY_OP_MAX_DEFER_def)
  then have "op_step toy (toy_op\<lparr>op_defer := [GY_OP_DELETE_RECORD GY_REC_USER [5]]\<rparr>) toy_defer_op" by (rule op_step.consume)
  with a show ?thesis by (simp add: toy_op_def)
qed

lemma toy_defer_fields:
  "op_rec toy_defer_op = replicate GY_OP_MAX_RECORDS None" "op_sess toy_defer_op = replicate GY_OP_MAX_SESSIONS None"
  "op_store toy_defer_op = mem_store"
  "op_defer toy_defer_op = [GY_OP_DELETE_RECORD GY_REC_USER [5], GY_OP_CONSUME_OPK 3]"
  by (simp_all add: toy_defer_op_def toy_op_def gy_op_begin_def op_clear_def)

lemma toy_defer_commits: "gy_op_commit toy_defer_op (m, r) = (Inr (), gy_op_abort toy_defer_op, (m((GY_REC_USER, [5]) := []), r))"
  by (simp add: commit_runs_plan commit_plan_def toy_defer_fields defer_act_def run_act_def mem_store_def)

theorem commit_makes_stage_durable_witness:
  "\<exists>op2 m'. gy_op_commit toy_defer_op ((\<lambda>_. [8]), 0) = (Inr (), op2, m', 0) \<and>
     m' (GY_REC_USER, [5]) = [] \<and> op_defer op2 = []"
  using commit_makes_stage_durable [OF toy_defer_reach mem_store_contract toy_defer_commits, of GY_REC_USER "[5]" "\<lambda>_. [8]" 0]
    toy_defer_commits [of "\<lambda>_. [8]" 0]
  by (auto simp: stage_lookup_slot slot_blob_def toy_defer_fields find_rec_in_use)

theorem commit_order_and_failure_witness:
  "\<exists>w'. gy_op_commit toy_defer_op ((\<lambda>_. [8]), 0) = (Inr (), gy_op_abort toy_defer_op, w') \<and>
     run_acts mem_store [Act_Delete GY_REC_USER [5], Act_Consume 3] ((\<lambda>_. [8]), 0) = (Inr (), w')"
  using commit_order_and_failure [of toy_defer_op "((\<lambda>_. [8]), 0)"] toy_defer_commits [of "\<lambda>_. [8]" 0]
  by (auto simp: commit_plan_def toy_defer_fields defer_act_def)

subsection \<open>A record staged and deleted\<close>

definition toy_both_op :: "bytes \<Rightarrow> mem gy_op" where
  "toy_both_op b = toy_op\<lparr>op_rec := (op_rec toy_op)[0 := Some \<lparr>or_kind = GY_REC_USER, or_id = [5], or_blob = b\<rparr>],
     op_defer := [GY_OP_DELETE_RECORD GY_REC_USER [5]]\<rparr>"

lemma toy_both_reach: "\<exists>b. (op_step toy)\<^sup>*\<^sup>* (gy_op_begin toy_op0 mem_store) (toy_both_op b)"
proof -
  have "user_ok toy_user" by (simp add: user_ok_def toy_user_def session_consts)
  then obtain b where b: "gy_user_record_encode GY_USER_BLOB_MAX toy_user = Inr b"
    using user_blob.enc_ok by blast
  have slot: "find_slot p 0 None (replicate GY_OP_MAX_RECORDS None) = Some 0" for p :: "gy_op_rec \<Rightarrow> bool"
    by (simp add: find_slot_free GY_OP_MAX_RECORDS_def)
  define op1 where "op1 = toy_op\<lparr>op_rec := (op_rec toy_op)[0 := Some \<lparr>or_kind = GY_REC_USER, or_id = [5], or_blob = b\<rparr>]\<rparr>"
  have "op_rec toy_op = replicate GY_OP_MAX_RECORDS None" by (simp add: toy_op_def gy_op_begin_def op_clear_def)
  then have "gy_op_put_user toy_op toy_user = Inr op1"
    by (simp add: gy_op_put_user_def b put_rec_def rec_slot_def slot op1_def) (simp add: toy_user_def)
  then have a: "op_step toy toy_op op1" by (rule op_step.put_user)
  have "gy_op_delete op1 GY_REC_USER [5] = Inr (toy_both_op b)"
    by (simp add: gy_op_delete_def op1_def toy_both_op_def toy_op_def gy_op_begin_def op_clear_def session_consts
        GY_OP_MAX_DEFER_def)
  then have "op_step toy op1 (toy_both_op b)" by (rule op_step.delete)
  with a have "(op_step toy)\<^sup>*\<^sup>* toy_op (toy_both_op b)" by (meson converse_rtranclp_into_rtranclp r_into_rtranclp)
  then show ?thesis by (auto simp: toy_op_def)
qed

theorem staged_and_deleted_is_lost_witness:
  "\<exists>b m'. fst (gy_op_commit (toy_both_op b) ((\<lambda>_. []), 0)) = Inr () \<and>
     fst (op_load (toy_both_op b) GY_REC_USER [5] ((\<lambda>_. []), 0)) = Inr b \<and>
     snd (snd (gy_op_commit (toy_both_op b) ((\<lambda>_. []), 0))) = (m', 0) \<and> m' (GY_REC_USER, [5]) = []"
proof -
  obtain b where r: "(op_step toy)\<^sup>*\<^sup>* (gy_op_begin toy_op0 mem_store) (toy_both_op b)" using toy_both_reach by blast
  have rec1: "op_rec (toy_both_op b) = Some \<lparr>or_kind = GY_REC_USER, or_id = [5], or_blob = b\<rparr> # replicate 39 None"
    by (simp add: toy_both_op_def toy_op_def gy_op_begin_def op_clear_def GY_OP_MAX_RECORDS_def numeral_eq_Suc)
  have f: "op_sess (toy_both_op b) = replicate GY_OP_MAX_SESSIONS None" "op_store (toy_both_op b) = mem_store"
      "op_defer (toy_both_op b) = [GY_OP_DELETE_RECORD GY_REC_USER [5]]"
    by (simp_all add: toy_both_op_def toy_op_def gy_op_begin_def op_clear_def)
  have c: "gy_op_commit (toy_both_op b) ((\<lambda>_. []), 0) =
      (Inr (), gy_op_abort (toy_both_op b), (((\<lambda>_. [])((GY_REC_USER, [5]) := b))((GY_REC_USER, [5]) := []), 0))"
    by (simp add: commit_runs_plan commit_plan_def rec1 f rec_act_def defer_act_def run_act_def mem_store_def)
  have "slot_blob (toy_both_op b) GY_REC_USER [5] = Some b" by (simp add: slot_blob_def rec1)
  from staged_and_deleted_is_lost [OF r mem_store_contract c _ _ this] c f show ?thesis
    by (intro exI [of _ b]) auto
qed

subsection \<open>The sealed store\<close>

theorem sealed_store_contract_witness:
  "store_contract (gy_sealed_store_bind toy \<lparr>ks_kek = Some (replicate 32 9), ks_unlocked = True\<rparr> mem_store 0x12)
     (sealed_view toy \<lparr>ks_kek = Some (replicate 32 9), ks_unlocked = True\<rparr> (\<lambda>m. m))"
  by (rule sealed_store_contract [OF toy_hash_lengths toy_aead_lengths toy_aead_correct _ mem_store_contract]) simp

end
