(* ===== verification/GY_Lifecycle.thy ===== *)
theory GY_Lifecycle
  imports GY_Store
begin

text \<open>
  The Sesame lifecycle of \<^verbatim>\<open>src/session/lifecycle.c\<close>: session expiration, the identity-key
  conditional update that fails closed on a key change, insertion and activation of sessions through
  the staging engine, and the deletion of devices and users.

  These functions thread the stage of the open operation and the world of the store. A computation is
  a function from a state to an optional pair of result and new state: \<open>None\<close> is "does not return"
  (a key generation that retries for ever), and the state is kept on an error, because the code stages
  in place and a caller may go on with the operation after a failed call. \<open>sbind\<close> is again
  "\<^verbatim>\<open>if (rc != GY_OK) return rc;\<close>".

  The out-parameter \<open>chg\<close> of the conditional updates is part of the error value: it is filled exactly
  when the code reports \<open>GY_ERR_KEY_CHANGED\<close> to a caller that passed one (\<open>want\<close>).
\<close>

subsection \<open>Computations on a stage\<close>

type_synonym ('s, 'e, 'a) sm = "'s \<Rightarrow> (('e + 'a) \<times> 's) option"
type_synonym 'w opst = "'w gy_op \<times> ('w \<times> rng)"

definition sbind :: "('s, 'e, 'a) sm \<Rightarrow> ('a \<Rightarrow> ('s, 'e, 'b) sm) \<Rightarrow> ('s, 'e, 'b) sm" where
  "sbind m k s = (case m s of None \<Rightarrow> None | Some (Inl e, s1) \<Rightarrow> Some (Inl e, s1) | Some (Inr x, s1) \<Rightarrow> k x s1)"

definition s_res :: "'e + 'a \<Rightarrow> ('s, 'e, 'a) sm" where
  "s_res x s = Some (x, s)"

definition s_map_err :: "('e \<Rightarrow> 'f) \<Rightarrow> ('s, 'e, 'a) sm \<Rightarrow> ('s, 'f, 'a) sm" where
  "s_map_err f m s = map_option (\<lambda>(x, s1). (case x of Inl e \<Rightarrow> Inl (f e) | Inr y \<Rightarrow> Inr y, s1)) (m s)"

definition s_load :: "('w gy_op \<Rightarrow> ('w, 'a) cb) \<Rightarrow> ('w opst, gy_err, 'a) sm" where
  "s_load f s = (let (x, w1) = f (fst s) (snd s) in Some (x, (fst s, w1)))"

definition s_put :: "('w gy_op \<Rightarrow> 'w gy_op res) \<Rightarrow> ('w opst, gy_err, unit) sm" where
  "s_put f s = (case f (fst s) of Inl e \<Rightarrow> Some (Inl e, s) | Inr op2 \<Rightarrow> Some (Inr (), (op2, snd s)))"

definition s_begin :: "'w gy_store \<Rightarrow> ('w opst, gy_err, unit) sm" where
  "s_begin st s = Some (Inr (), (gy_op_begin (fst s) st, snd s))"

definition s_abort :: "('w opst, gy_err, unit) sm" where
  "s_abort s = Some (Inr (), (gy_op_abort (fst s), snd s))"

definition s_commit :: "('w opst, gy_err, unit) sm" where
  "s_commit s = Some (gy_op_commit (fst s) (snd s))"

text \<open>The idiom "on an error abort the operation and return the code".\<close>

definition s_or_abort :: "('w opst, gy_err, 'a) sm \<Rightarrow> ('w opst, gy_err, 'a) sm" where
  "s_or_abort m s = (case m s of Some (Inl e, s1) \<Rightarrow> Some (Inl e, (gy_op_abort (fst s1), snd s1)) | z \<Rightarrow> z)"

subsection \<open>Expiration\<close>

record gy_expiry_cfg =
  ex_enabled :: u8
  ex_max_send :: u32
  ex_max_recv :: u32
  ex_max_latency :: u64

definition gy_expiry_cfg_disable :: gy_expiry_cfg where
  "gy_expiry_cfg_disable = \<lparr>ex_enabled = 0, ex_max_send = 0, ex_max_recv = 0, ex_max_latency = 0\<rparr>"

text \<open>The sum and the product are those of \<open>uint64_t\<close>; a refused configuration is left disabled.\<close>

definition gy_expiry_cfg_init :: "u32 \<Rightarrow> u32 \<Rightarrow> u64 \<Rightarrow> gy_expiry_cfg res" where
  "gy_expiry_cfg_init max_send max_recv max_latency =
     (if max_send = 0 \<or> max_recv = 0 then Inl GY_ERR_ARG
      else if (ucast max_recv :: u64) \<le> ucast max_send + 2 * max_latency then Inl GY_ERR_ARG
      else Inr \<lparr>ex_enabled = 1, ex_max_send = max_send, ex_max_recv = max_recv, ex_max_latency = max_latency\<rparr>)"

definition gy_session_expired :: "gy_expiry_cfg \<Rightarrow> gy_session \<Rightarrow> bool" where
  "gy_session_expired cfg s =
     (if ex_enabled cfg = 0 then False
      else if s_nsend s \<ge> ex_max_send cfg then True
      else if s_nrecv s \<ge> ex_max_recv cfg then True
      else False)"

definition gy_session_stale :: "gy_expiry_cfg \<Rightarrow> gy_session \<Rightarrow> u64 \<Rightarrow> bool" where
  "gy_session_stale cfg s now =
     (if ex_enabled cfg = 0 \<or> s_last_recv_at s = 0 then False
      else if now \<le> s_last_recv_at s then False
      else now - s_last_recv_at s > ex_max_latency cfg)"

definition gy_identity_fingerprint :: "gy_suite_desc \<Rightarrow> gy_public_key \<Rightarrow> bytes res" where
  "gy_identity_fingerprint desc ik = gy_fingerprint desc ik"

definition gy_hybrid_identity_fingerprint :: "gy_suite_desc \<Rightarrow> gy_hybrid_identity_public_key \<Rightarrow> bytes res" where
  "gy_hybrid_identity_fingerprint desc ik = gy_hybrid_ikhash desc ik"

subsection \<open>Deferred deletion of a device\<close>

fun delete_sessions :: "bytes list \<Rightarrow> ('w opst, gy_err, unit) sm" where
  "delete_sessions [] = s_res (Inr ())"
| "delete_sessions (i # is) =
     sbind (s_put (\<lambda>op1. gy_op_delete op1 GY_REC_SESSION i)) (\<lambda>_. delete_sessions is)"

text \<open>Defers the deletion of the active session and of every inactive one.\<close>

definition delete_device_sessions :: "gy_device_record \<Rightarrow> ('w opst, gy_err, unit) sm" where
  "delete_device_sessions d =
     sbind (if d_has_active d \<noteq> 0 then s_put (\<lambda>op1. gy_op_delete op1 GY_REC_SESSION (d_active d)) else s_res (Inr ()))
       (\<lambda>_. delete_sessions (d_inactive d))"

definition defer_delete_device_inner :: "provider \<Rightarrow> bytes \<Rightarrow> bytes \<Rightarrow> ('w opst, gy_err, unit) sm" where
  "defer_delete_device_inner L user_id device_id =
     sbind (s_res (gy_devrec_key L user_id device_id)) (\<lambda>dk.
     sbind (s_load (\<lambda>op1. gy_op_load_device_any L op1 dk)) (\<lambda>found.
     case found of None \<Rightarrow> s_res (Inr ())
     | Some (dev, _) \<Rightarrow>
         sbind (delete_device_sessions (hdv_base dev)) (\<lambda>_.
           s_put (\<lambda>op1. gy_op_delete op1 GY_REC_DEVICE dk))))"

subsection \<open>Conditional update\<close>

record gy_key_change =
  chg_old_fp :: bytes
  chg_new_fp :: bytes

type_synonym upd_err = "gy_err \<times> gy_key_change option"

definition ik_equal :: "gy_suite_desc \<Rightarrow> gy_public_key \<Rightarrow> gy_public_key \<Rightarrow> bool" where
  "ik_equal desc a b \<longleftrightarrow> pub_curve_type a = pub_curve_type b \<and>
     take (curve_pk_len desc) (pub_pk a) = take (curve_pk_len desc) (pub_pk b)"

definition hybrid_ik_equal ::
    "gy_suite_desc \<Rightarrow> gy_hybrid_device_record \<Rightarrow> gy_hybrid_identity_public_key \<Rightarrow> bool" where
  "hybrid_ik_equal desc dev ik \<longleftrightarrow>
     pub_curve_type (d_ik (hdv_base dev)) = pub_curve_type (hp_curve (hi_base ik)) \<and>
     take (curve_pk_len desc) (pub_pk (d_ik (hdv_base dev))) = take (curve_pk_len desc) (pub_pk (hp_curve (hi_base ik))) \<and>
     take (kem_pk_len desc) (hdv_mlkem_ek dev) = take (kem_pk_len desc) (hp_mlkem_ek (hi_base ik)) \<and>
     take (dsa_pk_len desc) (hdv_mldsa_pk dev) = take (dsa_pk_len desc) (hi_mldsa_pk ik)"

text \<open>The fail-closed answer: the stored and the new fingerprint, when the caller wants them.\<close>

definition key_changed :: "bool \<Rightarrow> gy_suite_desc \<Rightarrow> bytes \<Rightarrow> bytes res \<Rightarrow> upd_err" where
  "key_changed want desc old_fp new_fp =
     (if want then
        (case new_fp of Inl e \<Rightarrow> (e, None)
         | Inr fp \<Rightarrow> (GY_ERR_KEY_CHANGED, Some \<lparr>chg_old_fp = take (hash_len desc) old_fp, chg_new_fp = fp\<rparr>))
      else (GY_ERR_KEY_CHANGED, None))"

text \<open>The device record to stage: the known one when the identity is the same, else a fresh one.\<close>

definition conditional_device ::
    "provider \<Rightarrow> u8 \<Rightarrow> gy_suite_desc \<Rightarrow> bytes \<Rightarrow> gy_public_key \<Rightarrow> bool \<Rightarrow> gy_device_record option
      \<Rightarrow> upd_err + gy_device_record" where
  "conditional_device L sid desc device_id ik want found =
     (case found of
        Some dev \<Rightarrow>
          if d_suite_id dev \<noteq> sid then Inl (GY_ERR_STATE, None)
          else if \<not> ik_equal desc (d_ik dev) ik then
            Inl (key_changed want desc (d_fingerprint dev) (gy_fingerprint desc ik))
          else Inr dev
      | None \<Rightarrow>
          (case rbind (gy_fingerprint desc ik) (\<lambda>fp. gy_device_record_init L sid device_id ik (take (hash_len desc) fp)) of
             Inl e \<Rightarrow> Inl (e, None) | Inr dev \<Rightarrow> Inr dev))"

definition hybrid_conditional_device ::
    "provider \<Rightarrow> u8 \<Rightarrow> gy_suite_desc \<Rightarrow> bytes \<Rightarrow> gy_hybrid_identity_public_key \<Rightarrow> bool
      \<Rightarrow> gy_hybrid_device_record option \<Rightarrow> upd_err + gy_hybrid_device_record" where
  "hybrid_conditional_device L sid desc device_id ik want found =
     (case found of
        Some dev \<Rightarrow>
          if d_suite_id (hdv_base dev) \<noteq> sid then Inl (GY_ERR_STATE, None)
          else if \<not> hybrid_ik_equal desc dev ik then
            Inl (key_changed want desc (d_fingerprint (hdv_base dev)) (gy_hybrid_ikhash desc ik))
          else Inr dev
      | None \<Rightarrow>
          (case rbind (gy_hybrid_ikhash desc ik) (\<lambda>fp.
                  gy_hybrid_device_record_init L sid device_id ik (take (hash_len desc) fp)) of
             Inl e \<Rightarrow> Inl (e, None) | Inr dev \<Rightarrow> Inr dev))"

text \<open>
  The user record with the device in its index, created when absent. A device the index evicts is
  deleted with its sessions.
\<close>

definition index_device :: "provider \<Rightarrow> u8 \<Rightarrow> bytes \<Rightarrow> bytes \<Rightarrow> ('w opst, gy_err, gy_user_record) sm" where
  "index_device L sid user_id device_id =
     sbind (s_load (\<lambda>op1. gy_op_load_user op1 user_id)) (\<lambda>found.
     sbind (s_res (case found of None \<Rightarrow> gy_user_record_init sid user_id | Some usr \<Rightarrow> Inr usr)) (\<lambda>usr.
     if gy_user_device_index usr device_id < 0 then
       sbind (s_res (gy_user_device_insert usr device_id)) (\<lambda>(usr1, ev).
       sbind (case ev of None \<Rightarrow> s_res (Inr ()) | Some gone \<Rightarrow> defer_delete_device_inner L user_id gone) (\<lambda>_.
         s_res (Inr usr1)))
     else s_res (Inr usr)))"

definition plain :: "('w opst, gy_err, 'a) sm \<Rightarrow> ('w opst, upd_err, 'a) sm" where
  "plain m = s_map_err (\<lambda>e. (e, None)) m"

definition ids_out_of_range :: "bytes \<Rightarrow> bytes \<Rightarrow> bool" where
  "ids_out_of_range user_id device_id \<longleftrightarrow> device_id = [] \<or> length device_id > GY_DEVICE_ID_MAX \<or>
     user_id = [] \<or> length user_id > GY_USER_ID_MAX"

definition gy_conditional_update ::
    "provider \<Rightarrow> u8 \<Rightarrow> bytes \<Rightarrow> bytes \<Rightarrow> gy_public_key \<Rightarrow> bool \<Rightarrow> ('w opst, upd_err, unit) sm" where
  "gy_conditional_update L sid user_id device_id ik want =
     (case gy_suite_desc L sid of None \<Rightarrow> s_res (Inl (GY_ERR_ARG, None))
      | Some desc \<Rightarrow>
          if ids_out_of_range user_id device_id then s_res (Inl (GY_ERR_ARG, None))
          else if pub_curve_type ik \<noteq> curve_type desc then s_res (Inl (GY_ERR_STATE, None))
          else
            sbind (plain (s_res (gy_devrec_key L user_id device_id))) (\<lambda>dk.
            sbind (plain (s_load (\<lambda>op1. gy_op_load_device L op1 dk))) (\<lambda>found.
            sbind (s_res (conditional_device L sid desc device_id ik want found)) (\<lambda>dev.
            sbind (plain (index_device L sid user_id device_id)) (\<lambda>usr.
            sbind (plain (s_put (\<lambda>op1. gy_op_put_device L op1 dev dk))) (\<lambda>_.
              plain (s_put (\<lambda>op1. gy_op_put_user op1 usr))))))))"

definition gy_hybrid_conditional_update ::
    "provider \<Rightarrow> u8 \<Rightarrow> bytes \<Rightarrow> bytes \<Rightarrow> gy_hybrid_identity_public_key \<Rightarrow> bool \<Rightarrow> ('w opst, upd_err, unit) sm" where
  "gy_hybrid_conditional_update L sid user_id device_id ik want =
     (case gy_suite_desc L sid of None \<Rightarrow> s_res (Inl (GY_ERR_ARG, None))
      | Some desc \<Rightarrow>
          if \<not> is_hybrid desc \<or> ids_out_of_range user_id device_id then s_res (Inl (GY_ERR_ARG, None))
          else if pub_curve_type (hp_curve (hi_base ik)) \<noteq> curve_type desc then s_res (Inl (GY_ERR_STATE, None))
          else
            sbind (plain (s_res (gy_devrec_key L user_id device_id))) (\<lambda>dk.
            sbind (plain (s_load (\<lambda>op1. gy_op_load_hybrid_device L op1 dk))) (\<lambda>found.
            sbind (s_res (hybrid_conditional_device L sid desc device_id ik want found)) (\<lambda>dev.
            sbind (plain (index_device L sid user_id device_id)) (\<lambda>usr.
            sbind (plain (s_put (\<lambda>op1. gy_op_put_hybrid_device L op1 dev dk))) (\<lambda>_.
              plain (s_put (\<lambda>op1. gy_op_put_user op1 usr))))))))"

subsection \<open>Accepting a key change\<close>

definition gy_accept_key_change ::
    "provider \<Rightarrow> u8 \<Rightarrow> bytes \<Rightarrow> bytes \<Rightarrow> gy_public_key \<Rightarrow> ('w opst, gy_err, unit) sm" where
  "gy_accept_key_change L sid user_id device_id ik =
     (case gy_suite_desc L sid of None \<Rightarrow> s_res (Inl GY_ERR_ARG)
      | Some desc \<Rightarrow>
          if ids_out_of_range user_id device_id then s_res (Inl GY_ERR_ARG)
          else if pub_curve_type ik \<noteq> curve_type desc then s_res (Inl GY_ERR_STATE)
          else
            sbind (s_res (gy_devrec_key L user_id device_id)) (\<lambda>dk.
            sbind (s_load (\<lambda>op1. gy_op_load_device L op1 dk)) (\<lambda>found.
            case found of None \<Rightarrow> s_res (Inl GY_ERR_STATE)
            | Some dev \<Rightarrow>
                if d_suite_id dev \<noteq> sid then s_res (Inl GY_ERR_STATE)
                else
                  sbind (delete_device_sessions dev) (\<lambda>_.
                  sbind (s_res (gy_fingerprint desc ik)) (\<lambda>fp.
                  sbind (s_res (gy_device_record_init L sid device_id ik (take (hash_len desc) fp))) (\<lambda>ndev.
                    s_put (\<lambda>op1. gy_op_put_device L op1 ndev dk)))))))"

definition gy_hybrid_accept_key_change ::
    "provider \<Rightarrow> u8 \<Rightarrow> bytes \<Rightarrow> bytes \<Rightarrow> gy_hybrid_identity_public_key \<Rightarrow> ('w opst, gy_err, unit) sm" where
  "gy_hybrid_accept_key_change L sid user_id device_id ik =
     (case gy_suite_desc L sid of None \<Rightarrow> s_res (Inl GY_ERR_ARG)
      | Some desc \<Rightarrow>
          if \<not> is_hybrid desc \<or> ids_out_of_range user_id device_id then s_res (Inl GY_ERR_ARG)
          else if pub_curve_type (hp_curve (hi_base ik)) \<noteq> curve_type desc then s_res (Inl GY_ERR_STATE)
          else
            sbind (s_res (gy_devrec_key L user_id device_id)) (\<lambda>dk.
            sbind (s_load (\<lambda>op1. gy_op_load_hybrid_device L op1 dk)) (\<lambda>found.
            case found of None \<Rightarrow> s_res (Inl GY_ERR_STATE)
            | Some dev \<Rightarrow>
                if d_suite_id (hdv_base dev) \<noteq> sid then s_res (Inl GY_ERR_STATE)
                else
                  sbind (delete_device_sessions (hdv_base dev)) (\<lambda>_.
                  sbind (s_res (gy_hybrid_ikhash desc ik)) (\<lambda>fp.
                  sbind (s_res (gy_hybrid_device_record_init L sid device_id ik (take (hash_len desc) fp))) (\<lambda>ndev.
                    s_put (\<lambda>op1. gy_op_put_hybrid_device L op1 ndev dk)))))))"

subsection \<open>Sessions of a device\<close>

definition gy_device_insert_session :: "provider \<Rightarrow> bytes \<Rightarrow> bytes \<Rightarrow> bytes \<Rightarrow> ('w opst, gy_err, unit) sm" where
  "gy_device_insert_session L user_id device_id i =
     sbind (s_res (gy_devrec_key L user_id device_id)) (\<lambda>dk.
     sbind (s_load (\<lambda>op1. gy_op_load_device_any L op1 dk)) (\<lambda>found.
     case found of None \<Rightarrow> s_res (Inl GY_ERR_STATE)
     | Some (dev, is_hyb) \<Rightarrow>
         sbind (s_res (gy_device_session_insert (hdv_base dev) i)) (\<lambda>(base, evicted).
         sbind (case evicted of None \<Rightarrow> s_res (Inr ())
                | Some e \<Rightarrow> s_put (\<lambda>op1. gy_op_delete op1 GY_REC_SESSION e)) (\<lambda>_.
           s_put (\<lambda>op1. gy_op_put_device_any L op1 (dev\<lparr>hdv_base := base\<rparr>) is_hyb dk)))))"

definition gy_device_activate_session :: "provider \<Rightarrow> bytes \<Rightarrow> bytes \<Rightarrow> bytes \<Rightarrow> ('w opst, gy_err, unit) sm" where
  "gy_device_activate_session L user_id device_id i =
     sbind (s_res (gy_devrec_key L user_id device_id)) (\<lambda>dk.
     sbind (s_load (\<lambda>op1. gy_op_load_device_any L op1 dk)) (\<lambda>found.
     case found of None \<Rightarrow> s_res (Inl GY_ERR_STATE)
     | Some (dev, is_hyb) \<Rightarrow>
         sbind (s_res (gy_device_session_activate (hdv_base dev) i)) (\<lambda>base.
           s_put (\<lambda>op1. gy_op_put_device_any L op1 (dev\<lparr>hdv_base := base\<rparr>) is_hyb dk))))"

text \<open>\<open>None\<close> is "not found"; otherwise whether the peer is confirmed post-quantum.\<close>

definition gy_device_pq_state :: "provider \<Rightarrow> bytes \<Rightarrow> bytes \<Rightarrow> ('w opst, gy_err, bool option) sm" where
  "gy_device_pq_state L user_id device_id =
     sbind (s_res (gy_devrec_key L user_id device_id)) (\<lambda>dk.
     sbind (s_load (\<lambda>op1. gy_op_load_device_any L op1 dk)) (\<lambda>found.
     case found of None \<Rightarrow> s_res (Inr None)
     | Some (dev, _) \<Rightarrow>
         if d_has_active (hdv_base dev) = 0 then s_res (Inr None)
         else
           sbind (s_load (\<lambda>op1. gy_op_load_session L op1 (d_active (hdv_base dev)))) (\<lambda>sfound.
             s_res (Inr (map_option (\<lambda>s. s_pq_pending s = GY_HYBRID_PQ_CONFIRMED) sfound)))))"

subsection \<open>Deleting devices and users\<close>

definition gy_delete_device :: "provider \<Rightarrow> bytes \<Rightarrow> bytes \<Rightarrow> ('w opst, gy_err, unit) sm" where
  "gy_delete_device L user_id device_id =
     (if ids_out_of_range user_id device_id then s_res (Inl GY_ERR_ARG)
      else
        sbind (defer_delete_device_inner L user_id device_id) (\<lambda>_.
        sbind (s_load (\<lambda>op1. gy_op_load_user op1 user_id)) (\<lambda>found.
        case found of None \<Rightarrow> s_res (Inr ())
        | Some usr \<Rightarrow>
            (case gy_user_device_remove usr device_id of
               Inl e \<Rightarrow> s_res (if e = GY_ERR_STATE then Inr () else Inl e)
             | Inr usr1 \<Rightarrow> s_put (\<lambda>op1. gy_op_put_user op1 usr1)))))"

text \<open>One transaction per device.\<close>

fun delete_user_devices :: "provider \<Rightarrow> 'w gy_store \<Rightarrow> bytes \<Rightarrow> bytes list \<Rightarrow> ('w opst, gy_err, unit) sm" where
  "delete_user_devices L st user_id [] = s_res (Inr ())"
| "delete_user_devices L st user_id (i # is) =
     sbind (s_begin st) (\<lambda>_.
     sbind (s_or_abort (defer_delete_device_inner L user_id i)) (\<lambda>_.
     sbind s_commit (\<lambda>_.
       delete_user_devices L st user_id is)))"

definition gy_delete_user :: "provider \<Rightarrow> 'w gy_store \<Rightarrow> bytes \<Rightarrow> ('w opst, gy_err, unit) sm" where
  "gy_delete_user L st user_id =
     (if user_id = [] \<or> length user_id > GY_USER_ID_MAX then s_res (Inl GY_ERR_ARG)
      else
        sbind (s_begin st) (\<lambda>_.
        sbind (s_or_abort (s_load (\<lambda>op1. gy_op_load_user op1 user_id))) (\<lambda>found.
        sbind s_abort (\<lambda>_.
        case found of None \<Rightarrow> s_res (Inr ())
        | Some usr \<Rightarrow>
            sbind (delete_user_devices L st user_id (map ud_id (u_devices usr))) (\<lambda>_.
            sbind (s_begin st) (\<lambda>_.
            sbind (s_or_abort (s_put (\<lambda>op1. gy_op_delete op1 GY_REC_USER user_id))) (\<lambda>_.
              s_commit)))))))"

subsection \<open>Running computations\<close>

named_theorems sm_simps \<open>running the combinators\<close>

lemma s_res_run [sm_simps]: "s_res x s = Some (x, s)"
  by (simp add: s_res_def)

lemma sbind_Inr [sm_simps]: "m s = Some (Inr x, s1) \<Longrightarrow> sbind m k s = k x s1"
  by (simp add: sbind_def)

lemma sbind_Inl [sm_simps]: "m s = Some (Inl e, s1) \<Longrightarrow> sbind m k s = Some (Inl e, s1)"
  by (simp add: sbind_def)

lemma s_load_run [sm_simps]: "f op1 w = (x, w1) \<Longrightarrow> s_load f (op1, w) = Some (x, (op1, w1))"
  by (simp add: s_load_def)

lemma s_put_run [sm_simps]:
  "f op1 = Inr op2 \<Longrightarrow> s_put f (op1, w) = Some (Inr (), (op2, w))"
  "f op1 = Inl e \<Longrightarrow> s_put f (op1, w) = Some (Inl e, (op1, w))"
  by (simp_all add: s_put_def)

lemma plain_run [sm_simps]:
  "m s = Some (Inr x, s1) \<Longrightarrow> plain m s = Some (Inr x, s1)"
  "m s = Some (Inl e, s1) \<Longrightarrow> plain m s = Some (Inl (e, None), s1)"
  by (simp_all add: plain_def s_map_err_def)

lemma sbind_eq_Inr: "sbind m k s = Some (Inr y, s2) \<longleftrightarrow> (\<exists>x s1. m s = Some (Inr x, s1) \<and> k x s1 = Some (Inr y, s2))"
  by (auto simp: sbind_def split: option.splits sum.splits prod.splits)

lemma s_res_eq: "s_res x s = Some (y, s2) \<longleftrightarrow> x = y \<and> s2 = s"
  by (auto simp: s_res_def)

lemma s_put_eq: "s_put f s = Some (Inr y, s2) \<longleftrightarrow> (\<exists>op2. f (fst s) = Inr op2 \<and> s2 = (op2, snd s))"
  by (auto simp: s_put_def split: sum.splits)

lemma s_load_eq: "s_load f s = Some (x, s2) \<longleftrightarrow> (\<exists>w1. f (fst s) (snd s) = (x, w1) \<and> s2 = (fst s, w1))"
  by (auto simp: s_load_def split: prod.splits)

lemma plain_eq: "plain m s = Some (Inr y, s2) \<longleftrightarrow> m s = Some (Inr y, s2)"
proof (cases "m s")
  case None
  then show ?thesis by (simp add: plain_def s_map_err_def)
next
  case (Some p)
  then show ?thesis by (cases p; cases "fst p") (auto simp: plain_def s_map_err_def)
qed

lemma s_map_err_Some: "s_map_err f m s = Some (x, s') \<Longrightarrow> \<exists>y. m s = Some (y, s')"
  by (cases "m s") (auto simp: s_map_err_def)

lemma s_commit_eq: "s_commit s = Some (x, s2) \<longleftrightarrow> gy_op_commit (fst s) (snd s) = (x, s2)"
  by (auto simp: s_commit_def)

lemma s_or_abort_eq: "s_or_abort m s = Some (Inr y, s2) \<longleftrightarrow> m s = Some (Inr y, s2)"
  by (auto simp: s_or_abort_def split: option.splits prod.splits sum.splits)

lemmas sm_eqs = sbind_eq_Inr s_res_eq s_put_eq s_load_eq plain_eq s_commit_eq s_or_abort_eq

subsection \<open>Relations that computations keep\<close>

text \<open>
  \<open>keeps R m\<close>: whenever the computation returns, whether it succeeds or fails, the states before and
  after are related. For a reflexive and transitive relation this is closed under the combinators.
\<close>

definition keeps :: "('s \<Rightarrow> 's \<Rightarrow> bool) \<Rightarrow> ('s, 'e, 'a) sm \<Rightarrow> bool" where
  "keeps R m \<longleftrightarrow> (\<forall>s x s'. m s = Some (x, s') \<longrightarrow> R s s')"

locale state_preorder =
  fixes R :: "'s \<Rightarrow> 's \<Rightarrow> bool"
  assumes rel_refl: "R s s" and rel_trans: "R s t \<Longrightarrow> R t u \<Longrightarrow> R s u"
begin

lemma keeps_res: "keeps R (s_res x)"
  by (simp add: keeps_def s_res_def rel_refl)

lemma keeps_bind:
  assumes "keeps R m" "\<And>x. keeps R (k x)"
  shows "keeps R (sbind m k)"
  unfolding keeps_def
proof (intro allI impI)
  fix s x s' assume s: "sbind m k s = Some (x, s')"
  then obtain y s1 where y: "m s = Some (y, s1)" by (cases "m s") (auto simp: sbind_def)
  have 1: "R s s1" using assms(1) y by (simp add: keeps_def)
  show "R s s'"
  proof (cases y)
    case (Inl e)
    then show ?thesis using s y 1 by (simp add: sm_simps)
  next
    case (Inr z)
    then have "k z s1 = Some (x, s')" using s y by (simp add: sm_simps)
    then have "R s1 s'" using assms(2) unfolding keeps_def by blast
    with 1 show ?thesis by (rule rel_trans)
  qed
qed

lemma keeps_map_err: "keeps R m \<Longrightarrow> keeps R (s_map_err f m)"
  unfolding keeps_def by (intro allI impI, drule s_map_err_Some) blast

lemma keeps_if: "keeps R a \<Longrightarrow> keeps R b \<Longrightarrow> keeps R (if c then a else b)"
  by simp

lemma keeps_option: "keeps R a \<Longrightarrow> (\<And>y. keeps R (f y)) \<Longrightarrow> keeps R (case x of None \<Rightarrow> a | Some y \<Rightarrow> f y)"
  by (cases x) simp_all

lemma keeps_prod: "(\<And>y z. keeps R (f y z)) \<Longrightarrow> keeps R (case x of (y, z) \<Rightarrow> f y z)"
  by (cases x) simp

lemma keeps_sum:
  "(\<And>y. keeps R (f y)) \<Longrightarrow> (\<And>z. keeps R (g z)) \<Longrightarrow> keeps R (case x of Inl y \<Rightarrow> f y | Inr z \<Rightarrow> g z)"
  by (cases x) simp_all

lemmas keeps_combinators = keeps_res keeps_bind keeps_map_err keeps_if keeps_option keeps_prod keeps_sum

end

subsection \<open>Staging computations\<close>

text \<open>
  A computation between the begin and the commit of an operation: it changes the stage by the calls of
  \<open>op_step\<close> only and never the records of the store, or whatever else its loads leave alone.
\<close>

definition stage_rel ::
    "provider \<Rightarrow> 'w gy_store \<Rightarrow> ('w \<Rightarrow> 'v) \<Rightarrow> 'w opst \<Rightarrow> 'w opst \<Rightarrow> bool" where
  "stage_rel L st view s s' \<longleftrightarrow> (op_store (fst s) = st \<longrightarrow>
     (op_step L)\<^sup>*\<^sup>* (fst s) (fst s') \<and> op_store (fst s') = st \<and> view (fst (snd s')) = view (fst (snd s)))"

interpretation staged: state_preorder "stage_rel L st view" for L st view
  by unfold_locales (auto simp: stage_rel_def)

abbreviation staging ::
    "provider \<Rightarrow> 'w gy_store \<Rightarrow> ('w \<Rightarrow> 'v) \<Rightarrow> ('w opst, 'e, 'a) sm \<Rightarrow> bool" where
  "staging L st view m \<equiv> keeps (stage_rel L st view) m"

named_theorems staging_intros \<open>computations that only stage\<close>

lemmas [staging_intros] = staged.keeps_combinators

lemma stagingD:
  "staging L st view m \<Longrightarrow> m s = Some (x, s') \<Longrightarrow> op_store (fst s) = st \<Longrightarrow>
     (op_step L)\<^sup>*\<^sup>* (fst s) (fst s') \<and> op_store (fst s') = st \<and> view (fst (snd s')) = view (fst (snd s))"
  unfolding keeps_def stage_rel_def by blast

lemma put_rec_store: "put_rec op1 k i b = Inr op2 \<Longrightarrow> op_store op2 = op_store op1"
  by (auto simp: put_rec_def split: option.splits)

lemma op_step_store: "op_step L op1 op2 \<Longrightarrow> op_store op2 = op_store op1"
proof (induction rule: op_step.induct)
  case (put_any op1 h hyb key op2)
  then show ?case using put_hybrid_rec put_device_rec put_rec_store unfolding gy_op_put_device_any_def by metis
next
  case (put_session op1 s op2)
  then show ?case by (auto simp: gy_op_put_session_def rbind_eq_Inr_iff split: option.splits)
next
  case (delete op1 k i op2)
  then show ?case by (auto simp: gy_op_delete_def split: if_splits)
next
  case (consume op1 p op2)
  then show ?case by (auto simp: gy_op_consume_opk_def split: if_splits)
next
  case (abort op1)
  then show ?case by (simp add: gy_op_abort_def op_clear_def)
qed (use put_user_rec put_device_rec put_hybrid_rec put_rec_store in metis)+

lemma staging_plain [staging_intros]: "staging L st view m \<Longrightarrow> staging L st view (plain m)"
  by (simp add: plain_def staged.keeps_map_err)

lemma staging_put:
  assumes "\<And>op1 op2. f op1 = Inr op2 \<Longrightarrow> op_step L op1 op2"
  shows "staging L st view (s_put f)"
  using assms op_step_store by (fastforce simp: keeps_def stage_rel_def s_put_def split: sum.splits)

lemma load_with_view:
  assumes "loads_keep (op_store op1) view" "load_with op1 k i dec w = (x, w1)"
  shows "view (fst w1) = view (fst w)"
proof -
  have "view (fst w2) = view (fst w)" if "load_record (op_store op1) k i cap w = (y, w2)" for cap y w2
    using assms(1) that unfolding loads_keep_def by (metis snd_conv)
  then show ?thesis
    using assms(2) by (auto simp: load_with_def op_load_def split: option.splits prod.splits sum.splits if_splits)
qed

lemma staging_load:
  assumes "loads_keep st view" "\<And>op1. f op1 = load_with op1 k i dec"
  shows "staging L st view (s_load f)"
  using assms load_with_view by (fastforce simp: keeps_def stage_rel_def s_load_eq)

lemma staging_loads [staging_intros]:
  assumes "loads_keep st view"
  shows "staging L st view (s_load (\<lambda>op1. gy_op_load_user op1 i))"
    "staging L st view (s_load (\<lambda>op1. gy_op_load_device L' op1 i))"
    "staging L st view (s_load (\<lambda>op1. gy_op_load_hybrid_device L' op1 i))"
    "staging L st view (s_load (\<lambda>op1. gy_op_load_device_any L' op1 i))"
    "staging L st view (s_load (\<lambda>op1. gy_op_load_session L' op1 i))"
  by (rule staging_load [OF assms],
      simp add: gy_op_load_user_def gy_op_load_device_def gy_op_load_hybrid_device_def gy_op_load_device_any_def
        gy_op_load_session_def)+

lemma staging_puts [staging_intros]:
  "staging L st view (s_put (\<lambda>op1. gy_op_put_user op1 u))"
  "staging L st view (s_put (\<lambda>op1. gy_op_put_device L op1 d key))"
  "staging L st view (s_put (\<lambda>op1. gy_op_put_hybrid_device L op1 h key))"
  "staging L st view (s_put (\<lambda>op1. gy_op_put_device_any L op1 h hyb key))"
  "staging L st view (s_put (\<lambda>op1. gy_op_put_session op1 s))"
  "staging L st view (s_put (\<lambda>op1. gy_op_delete op1 k i))"
  "staging L st view (s_put (\<lambda>op1. gy_op_consume_opk op1 p))"
  by (rule staging_put, erule op_step.intros)+

lemma staging_delete_sessions [staging_intros]: "staging L st view (delete_sessions is)"
  by (induction "is") (auto intro!: staging_intros)

text \<open>Every operation of the lifecycle below the transactions is a staging computation.\<close>

lemma lifecycle_staging [staging_intros]:
  assumes "loads_keep st view"
  shows "staging L st view (delete_device_sessions d)"
    "staging L st view (defer_delete_device_inner L u i)"
    "staging L st view (index_device L sid u i)"
    "staging L st view (gy_conditional_update L sid u i ik want)"
    "staging L st view (gy_hybrid_conditional_update L sid u i hik want)"
    "staging L st view (gy_accept_key_change L sid u i ik)"
    "staging L st view (gy_hybrid_accept_key_change L sid u i hik)"
    "staging L st view (gy_device_insert_session L u i sess)"
    "staging L st view (gy_device_activate_session L u i sess)"
    "staging L st view (gy_device_pq_state L u i)"
    "staging L st view (gy_delete_device L u i)"
proof -
  show 1: "staging L st view (delete_device_sessions d)" for d
    unfolding delete_device_sessions_def by (intro staging_intros)
  show 2: "staging L st view (defer_delete_device_inner L u i)" for u i
    unfolding defer_delete_device_inner_def by (intro staging_intros 1 assms)
  show 3: "staging L st view (index_device L sid u i)"
    unfolding index_device_def by (intro staging_intros 2 assms)
  show "staging L st view (gy_conditional_update L sid u i ik want)"
    unfolding gy_conditional_update_def by (intro staging_intros 3 assms)
  show "staging L st view (gy_hybrid_conditional_update L sid u i hik want)"
    unfolding gy_hybrid_conditional_update_def by (intro staging_intros 3 assms)
  show "staging L st view (gy_accept_key_change L sid u i ik)"
    unfolding gy_accept_key_change_def by (intro staging_intros 1 assms)
  show "staging L st view (gy_hybrid_accept_key_change L sid u i hik)"
    unfolding gy_hybrid_accept_key_change_def by (intro staging_intros 1 assms)
  show "staging L st view (gy_device_insert_session L u i sess)"
    unfolding gy_device_insert_session_def by (intro staging_intros assms)
  show "staging L st view (gy_device_activate_session L u i sess)"
    unfolding gy_device_activate_session_def by (intro staging_intros assms)
  show "staging L st view (gy_device_pq_state L u i)"
    unfolding gy_device_pq_state_def by (intro staging_intros assms)
  show "staging L st view (gy_delete_device L u i)"
    unfolding gy_delete_device_def by (intro staging_intros 2 assms)
qed

subsection \<open>Decoded records are within their bounds\<close>

lemma rd_bind_Some: "rd_bind m k r = Some z \<longleftrightarrow> (\<exists>x r1. m r = Some (x, r1) \<and> k x r1 = Some z)"
  by (auto simp: rd_bind_def split: option.splits)

lemma rd_refuse_Some: "rd_refuse bad k r = Some z \<longleftrightarrow> \<not> bad \<and> k r = Some z"
  by (simp add: rd_refuse_def)

lemma r_raw_Some: "r_raw n r = Some (x, r1) \<Longrightarrow> length x = n"
  by (auto simp: r_raw_def split: if_splits)

lemma rd_list_Some:
  "rd_list n f r = Some (xs, r1) \<Longrightarrow> length xs = n \<and> (\<forall>x \<in> set xs. \<exists>q q1. f q = Some (x, q1))"
  by (induction n arbitrary: r xs) (fastforce simp: rd_bind_Some rd_return_def)+

lemma rd_finish_Inr: "rd_finish z = Inr v \<Longrightarrow> \<exists>r. z = Some (v, r)"
  by (auto simp: rd_finish_def split: option.splits if_splits)

definition devrec_wf :: "gy_device_record \<Rightarrow> bool" where
  "devrec_wf d \<longleftrightarrow> devrec_shape d \<and> (\<forall>i \<in> set (dev_ids d). length i = GY_SESSION_ID_LEN)"

lemma devrec_body_wf:
  assumes "devrec_body_decode sid dd r = Some (d, r1)"
  shows "devrec_wf d \<and> d_suite_id d = sid \<and> devrec_full dd d = d"
  using assms unfolding devrec_body_decode_def
  by (clarsimp simp: rd_bind_Some rd_refuse_Some rd_return_def devrec_wf_def devrec_shape_def dev_ids_def
      dest!: r_raw_Some rd_list_Some)
    (auto simp: unat_eq_zero devrec_full_def arr_id GY_SESSION_ID_LEN_def intro!: map_idI arr_id dest: r_raw_Some)

lemma device_decode_wf:
  assumes "gy_device_record_decode L b = Inr d"
  shows "devrec_wf d \<and> device_ok L d \<and> device_full L d = d"
proof -
  obtain r where "rd_bind r_prefix (\<lambda>sid. case gy_suite_desc L sid of None \<Rightarrow> (\<lambda>_. None)
      | Some dd \<Rightarrow> devrec_body_decode sid dd) (rok b) = Some (d, r)"
    using rd_finish_Inr [OF assms [unfolded gy_device_record_decode_def]] by (elim exE)
  then obtain sid r1 dd where "gy_suite_desc L sid = Some dd" "devrec_body_decode sid dd r1 = Some (d, r)"
    by (auto simp: rd_bind_Some split: option.splits)
  with devrec_body_wf [of sid dd r1 d r] show ?thesis by (auto simp: device_ok_def device_full_def devrec_wf_def)
qed

lemma hybrid_device_decode_wf:
  assumes "gy_hybrid_device_record_decode L b = Inr h"
  shows "devrec_wf (hdv_base h) \<and> hybrid_device_ok L h \<and> hybrid_device_full L h = h"
proof -
  obtain r where "rd_bind r_prefix (\<lambda>sid. case gy_suite_desc L sid of
         None \<Rightarrow> (\<lambda>_. None)
       | Some dd \<Rightarrow> rd_refuse (\<not> is_hybrid dd)
           (rd_bind (devrec_body_decode sid dd) (\<lambda>base.
            rd_bind (r_raw (kem_pk_len dd)) (\<lambda>ek. rd_bind (r_raw (dsa_pk_len dd)) (\<lambda>pk.
              rd_return \<lparr>hdv_base = base, hdv_mlkem_ek = ek, hdv_mldsa_pk = pk\<rparr>))))) (rok b) = Some (h, r)"
    using rd_finish_Inr [OF assms [unfolded gy_hybrid_device_record_decode_def]] by (elim exE)
  then obtain sid r1 r2 dd where "gy_suite_desc L sid = Some dd" "is_hybrid dd"
      "devrec_body_decode sid dd r1 = Some (hdv_base h, r2)" "length (hdv_mlkem_ek h) = kem_pk_len dd"
      "length (hdv_mldsa_pk h) = dsa_pk_len dd"
    by (auto simp: rd_bind_Some rd_refuse_Some rd_return_def split: option.splits dest!: r_raw_Some)
  with devrec_body_wf [of sid dd r1 "hdv_base h" r2] show ?thesis
    by (cases h) (auto simp: hybrid_device_ok_def hybrid_device_full_def arr_id devrec_wf_def)
qed

lemma device_any_decode_wf: "device_any_decode L b = Inr (h, hyb) \<Longrightarrow> devrec_wf (hdv_base h)"
  by (auto simp: device_any_decode_def rbind_eq_Inr_iff dest: device_decode_wf hybrid_device_decode_wf
      split: if_splits option.splits)

lemma user_device_decode_Some:
  "user_device_decode r = Some (v, r1) \<Longrightarrow> ud_id v \<noteq> [] \<and> length (ud_id v) \<le> GY_DEVICE_ID_MAX"
  unfolding user_device_decode_def
  by (clarsimp simp: rd_bind_Some rd_refuse_Some rd_return_def dest!: r_raw_Some) (auto simp: unat_eq_zero)

lemma user_decode_ok:
  assumes "gy_user_record_decode b = Inr u"
  shows "user_ok u"
proof -
  obtain r where "rd_bind r_prefix (\<lambda>sid.
       rd_bind r_u8 (\<lambda>n. rd_refuse (n = 0 \<or> unat n > GY_USER_ID_MAX)
       (rd_bind (r_raw (unat n)) (\<lambda>user. rd_bind r_u8 (\<lambda>stale.
        rd_bind r_be32 (\<lambda>k. rd_refuse (unat k > GY_DEVICE_MAX)
       (rd_bind (rd_list (unat k) user_device_decode) (\<lambda>devs.
          rd_return \<lparr>u_suite_id = sid, u_user_id = user, u_devices = devs, u_stale = stale\<rparr>))))))))
       (rok b) = Some (u, r)"
    using rd_finish_Inr [OF assms [unfolded gy_user_record_decode_def]] by (elim exE)
  then have "u_user_id u \<noteq> [] \<and> length (u_user_id u) \<le> GY_USER_ID_MAX \<and> length (u_devices u) \<le> GY_DEVICE_MAX \<and>
      (\<forall>v \<in> set (u_devices u). \<exists>q q1. user_device_decode q = Some (v, q1))"
    by (clarsimp simp: rd_bind_Some rd_refuse_Some rd_return_def dest!: r_raw_Some rd_list_Some)
      (auto simp: unat_eq_zero)
  then show ?thesis using user_device_decode_Some unfolding user_ok_def by blast
qed

lemma load_with_Some:
  assumes "load_with op1 k i dec w = (Inr (Some v), w1)"
  shows "\<exists>b. b \<noteq> [] \<and> dec b = Inr v"
  using assms by (auto simp: load_with_def rbind_eq_Inr_iff split: prod.splits sum.splits if_splits)

lemma load_wf:
  "gy_op_load_device L op1 i w = (Inr (Some d), w1) \<Longrightarrow> devrec_wf d \<and> device_ok L d \<and> device_full L d = d"
  "gy_op_load_hybrid_device L op1 i w = (Inr (Some h), w1) \<Longrightarrow> devrec_wf (hdv_base h) \<and> hybrid_device_ok L h \<and> hybrid_device_full L h = h"
  "gy_op_load_device_any L op1 i w = (Inr (Some (h, hyb)), w1) \<Longrightarrow> devrec_wf (hdv_base h)"
  "gy_op_load_user op1 i w = (Inr (Some u), w1) \<Longrightarrow> user_ok u"
  unfolding gy_op_load_device_def gy_op_load_hybrid_device_def gy_op_load_device_any_def gy_op_load_user_def
  by (blast dest: load_with_Some device_decode_wf hybrid_device_decode_wf device_any_decode_wf user_decode_ok)+

subsection \<open>What a staged device record reads as\<close>

lemma put_device_find:
  assumes "op_inv op1" "gy_op_put_device L op1 d dk = Inr op2" "device_ok L d"
  shows "\<exists>b. gy_device_record_decode L b = Inr (device_full L d) \<and> b \<noteq> [] \<and>
     find_rec GY_REC_DEVICE dk (op_rec op2) = Some b"
proof -
  obtain b where b: "gy_device_record_encode L GY_DEVICE_BLOB_MAX d = Inr b" "put_rec op1 GY_REC_DEVICE dk b = Inr op2"
    using assms(2) by (auto simp: gy_op_put_device_def rbind_eq_Inr_iff split: if_splits)
  have ne: "b \<noteq> []" by (rule device_blob_nonempty [OF b(1)])
  show ?thesis
    using put_rec_spec(4) [OF assms(1) b(2) _ ne, of GY_REC_DEVICE dk] device_blob.dec_enc [OF assms(3) b(1)] ne
    by auto
qed

lemma put_hybrid_device_find:
  assumes "op_inv op1" "gy_op_put_hybrid_device L op1 d dk = Inr op2" "hybrid_device_ok L d"
  shows "\<exists>b. gy_hybrid_device_record_decode L b = Inr (hybrid_device_full L d) \<and> b \<noteq> [] \<and>
     find_rec GY_REC_DEVICE dk (op_rec op2) = Some b"
proof -
  obtain b where b: "gy_hybrid_device_record_encode L GY_HYBRID_DEVICE_BLOB_MAX d = Inr b"
      "put_rec op1 GY_REC_DEVICE dk b = Inr op2"
    using assms(2) by (auto simp: gy_op_put_hybrid_device_def rbind_eq_Inr_iff split: if_splits)
  have ne: "b \<noteq> []" by (rule hybrid_device_blob_nonempty [OF b(1)])
  show ?thesis
    using put_rec_spec(4) [OF assms(1) b(2) _ ne, of GY_REC_DEVICE dk] hybrid_device_blob.dec_enc [OF assms(3) b(1)] ne
    by auto
qed

lemma put_user_keeps_devices:
  assumes "op_inv op1" "gy_op_put_user op1 u = Inr op2"
  shows "find_rec GY_REC_DEVICE dk (op_rec op2) = find_rec GY_REC_DEVICE dk (op_rec op1)"
    "op_sess op2 = op_sess op1" "op_defer op2 = op_defer op1"
proof -
  obtain b where b: "b \<noteq> []" "put_rec op1 GY_REC_USER (u_user_id u) b = Inr op2"
    using put_user_rec [OF assms(2)] by blast
  show "find_rec GY_REC_DEVICE dk (op_rec op2) = find_rec GY_REC_DEVICE dk (op_rec op1)"
      "op_sess op2 = op_sess op1" "op_defer op2 = op_defer op1"
    using put_rec_spec [OF assms(1) b(2) _ b(1)] by simp_all
qed

lemma staged_load:
  "find_rec k i (op_rec op1) = Some b \<Longrightarrow> k \<noteq> GY_REC_SESSION \<Longrightarrow> b \<noteq> [] \<Longrightarrow> dec b = Inr v \<Longrightarrow>
     load_with op1 k i dec w = (Inr (Some v), w)"
  by (simp add: load_with_def op_load_def stage_lookup_def)

lemma staging_inv:
  assumes "staging L st view m" "m (op1, w) = Some (x, (op2, w2))" "op_store op1 = st" "op_inv op1"
  shows "op_inv op2" "op_store op2 = st" "view (fst w2) = view (fst w)"
proof -
  note d = stagingD [OF assms(1,2)]
  have "(op_step L)\<^sup>*\<^sup>* op1 op2" using d assms(3) by simp
  then show "op_inv op2" using assms(4)
    by (induction rule: rtranclp_induct) (auto dest: op_step_inv)
  show "op_store op2 = st" "view (fst w2) = view (fst w)" using d assms(3) by simp_all
qed

subsection \<open>Identity pinning\<close>

lemma conditional_device_ok:
  assumes "conditional_device L sid desc i ik want found = Inr d" "gy_suite_desc L sid = Some desc"
    "length (pub_pk ik) = curve_pk_len desc" "\<forall>d0. found = Some d0 \<longrightarrow> device_ok L d0 \<and> device_full L d0 = d0"
  shows "device_ok L d \<and> ik_equal desc (d_ik (device_full L d)) ik \<and> d_suite_id (device_full L d) = sid \<and>
     (\<forall>d0. found = Some d0 \<longrightarrow> d = d0)"
proof (cases found)
  case None
  then show ?thesis using assms
    by (auto simp: conditional_device_def rbind_eq_Inr_iff gy_device_record_init_def device_ok_def devrec_shape_def
        device_full_def devrec_full_def ik_equal_def arr_id session_consts split: sum.splits if_splits)
next
  case (Some d0)
  then show ?thesis using assms by (auto simp: conditional_device_def split: if_splits)
qed

lemma hybrid_conditional_device_ok:
  assumes "hybrid_conditional_device L sid desc i ik want found = Inr d" "gy_suite_desc L sid = Some desc"
    "length (pub_pk (hp_curve (hi_base ik))) = curve_pk_len desc" "length (hp_mlkem_ek (hi_base ik)) = kem_pk_len desc"
    "length (hi_mldsa_pk ik) = dsa_pk_len desc"
    "\<forall>d0. found = Some d0 \<longrightarrow> hybrid_device_ok L d0 \<and> hybrid_device_full L d0 = d0"
  shows "hybrid_device_ok L d \<and> hybrid_ik_equal desc (hybrid_device_full L d) ik \<and>
     d_suite_id (hdv_base (hybrid_device_full L d)) = sid \<and> (\<forall>d0. found = Some d0 \<longrightarrow> d = d0)"
proof (cases found)
  case None
  then show ?thesis using assms
    by (auto simp: hybrid_conditional_device_def rbind_eq_Inr_iff gy_hybrid_device_record_init_def
        gy_device_record_init_def hybrid_device_ok_def devrec_shape_def hybrid_device_full_def devrec_full_def
        hybrid_ik_equal_def arr_id session_consts split: sum.splits if_splits)
next
  case (Some d0)
  then show ?thesis using assms by (auto simp: hybrid_conditional_device_def split: if_splits)
qed

lemma conditional_update_ok:
  assumes st: "store_contract st view" "op_inv op1" "op_store op1 = st"
    and ik: "gy_suite_desc L sid = Some desc" "length (pub_pk ik) = curve_pk_len desc"
    and dk: "gy_devrec_key L u i = Inr dk"
    and run: "gy_conditional_update L sid u i ik want (op1, w) = Some (Inr (), (op2, w2))"
  obtains d found w1 where "gy_op_load_device L op1 dk w = (Inr found, w1)" "\<forall>d0. found = Some d0 \<longrightarrow> d = d0"
    "gy_op_load_device L op2 dk w3 = (Inr (Some d), w3)" "ik_equal desc (d_ik d) ik" "d_suite_id d = sid"
proof -
  obtain found w1 d0 usr opa wa opb where r: "gy_op_load_device L op1 dk w = (Inr found, w1)"
      "conditional_device L sid desc i ik want found = Inr d0"
      "index_device L sid u i (op1, w1) = Some (Inr usr, (opa, wa))"
      "gy_op_put_device L opa d0 dk = Inr opb" "gy_op_put_user opb usr = Inr op2"
    using run ik(1) dk by (auto simp: gy_conditional_update_def sm_eqs split: if_splits)
  have f: "\<forall>d0. found = Some d0 \<longrightarrow> device_ok L d0 \<and> device_full L d0 = d0" using r(1) load_wf(1) by blast
  note d0 = conditional_device_ok [OF r(2) ik f]
  have ia: "op_inv opa" by (rule staging_inv(1) [OF lifecycle_staging(3) [OF contract_loads [OF st(1)]] r(3) st(3,2)])
  have ib: "op_inv opb" using op_step_inv [OF op_step.put_device [OF r(4)] ia] by blast
  obtain b where b: "gy_device_record_decode L b = Inr (device_full L d0)" "b \<noteq> []"
      "find_rec GY_REC_DEVICE dk (op_rec opb) = Some b"
    using put_device_find [OF ia r(4)] d0 by blast
  have "find_rec GY_REC_DEVICE dk (op_rec op2) = Some b" using put_user_keeps_devices(1) [OF ib r(5)] b(3) by simp
  then have "gy_op_load_device L op2 dk w3 = (Inr (Some (device_full L d0)), w3)"
    unfolding gy_op_load_device_def by (rule staged_load) (simp_all add: b)
  moreover have "\<forall>d1. found = Some d1 \<longrightarrow> device_full L d0 = d1" using d0 f by auto
  ultimately show ?thesis using that r(1) d0 by blast
qed

lemma hybrid_conditional_update_ok:
  assumes st: "store_contract st view" "op_inv op1" "op_store op1 = st"
    and ik: "gy_suite_desc L sid = Some desc" "length (pub_pk (hp_curve (hi_base ik))) = curve_pk_len desc"
      "length (hp_mlkem_ek (hi_base ik)) = kem_pk_len desc" "length (hi_mldsa_pk ik) = dsa_pk_len desc"
    and dk: "gy_devrec_key L u i = Inr dk"
    and run: "gy_hybrid_conditional_update L sid u i ik want (op1, w) = Some (Inr (), (op2, w2))"
  obtains d found w1 where "gy_op_load_hybrid_device L op1 dk w = (Inr found, w1)" "\<forall>d0. found = Some d0 \<longrightarrow> d = d0"
    "gy_op_load_hybrid_device L op2 dk w3 = (Inr (Some d), w3)" "hybrid_ik_equal desc d ik"
    "d_suite_id (hdv_base d) = sid"
proof -
  obtain found w1 d0 usr opa wa opb where r: "gy_op_load_hybrid_device L op1 dk w = (Inr found, w1)"
      "hybrid_conditional_device L sid desc i ik want found = Inr d0"
      "index_device L sid u i (op1, w1) = Some (Inr usr, (opa, wa))"
      "gy_op_put_hybrid_device L opa d0 dk = Inr opb" "gy_op_put_user opb usr = Inr op2"
    using run ik(1) dk by (auto simp: gy_hybrid_conditional_update_def sm_eqs split: if_splits)
  have f: "\<forall>d0. found = Some d0 \<longrightarrow> hybrid_device_ok L d0 \<and> hybrid_device_full L d0 = d0"
    using r(1) load_wf(2) by blast
  note d0 = hybrid_conditional_device_ok [OF r(2) ik f]
  have ia: "op_inv opa" by (rule staging_inv(1) [OF lifecycle_staging(3) [OF contract_loads [OF st(1)]] r(3) st(3,2)])
  have ib: "op_inv opb" using op_step_inv [OF op_step.put_hybrid [OF r(4)] ia] by blast
  obtain b where b: "gy_hybrid_device_record_decode L b = Inr (hybrid_device_full L d0)" "b \<noteq> []"
      "find_rec GY_REC_DEVICE dk (op_rec opb) = Some b"
    using put_hybrid_device_find [OF ia r(4)] d0 by blast
  have "find_rec GY_REC_DEVICE dk (op_rec op2) = Some b" using put_user_keeps_devices(1) [OF ib r(5)] b(3) by simp
  then have "gy_op_load_hybrid_device L op2 dk w3 = (Inr (Some (hybrid_device_full L d0)), w3)"
    unfolding gy_op_load_hybrid_device_def by (rule staged_load) (simp_all add: b)
  moreover have "\<forall>d1. found = Some d1 \<longrightarrow> hybrid_device_full L d0 = d1" using d0 f by auto
  ultimately show ?thesis using that r(1) d0 by blast
qed

text \<open>A known device with another identity: the update reports the change and stages nothing.\<close>

lemma conditional_update_changed:
  assumes "gy_suite_desc L sid = Some desc" "gy_devrec_key L u i = Inr dk"
    and "gy_op_load_device L op1 dk w = (Inr (Some d), w1)" "\<not> ik_equal desc (d_ik d) ik"
  shows "\<exists>e w'. gy_conditional_update L sid u i ik want (op1, w) = Some (Inl e, (op1, w')) \<and>
     (\<not> ids_out_of_range u i \<and> pub_curve_type ik = curve_type desc \<and> d_suite_id d = sid \<longrightarrow>
        e = key_changed want desc (d_fingerprint d) (gy_fingerprint desc ik))"
  using assms by (auto simp: gy_conditional_update_def conditional_device_def sm_simps simp del: split_paired_Ex)

lemma hybrid_conditional_update_changed:
  assumes "gy_suite_desc L sid = Some desc" "gy_devrec_key L u i = Inr dk"
    and "gy_op_load_hybrid_device L op1 dk w = (Inr (Some d), w1)" "\<not> hybrid_ik_equal desc d ik"
  shows "\<exists>e w'. gy_hybrid_conditional_update L sid u i ik want (op1, w) = Some (Inl e, (op1, w')) \<and>
     (is_hybrid desc \<and> \<not> ids_out_of_range u i \<and> pub_curve_type (hp_curve (hi_base ik)) = curve_type desc \<and>
        d_suite_id (hdv_base d) = sid \<longrightarrow>
        e = key_changed want desc (d_fingerprint (hdv_base d)) (gy_hybrid_ikhash desc ik))"
  using assms by (auto simp: gy_hybrid_conditional_update_def hybrid_conditional_device_def sm_simps simp del: split_paired_Ex)

subsection \<open>Deletion\<close>

lemma delete_sessions_ok:
  "delete_sessions is s = Some (Inr (), s') \<Longrightarrow>
     s' = ((fst s)\<lparr>op_defer := op_defer (fst s) @ map (GY_OP_DELETE_RECORD GY_REC_SESSION) is\<rparr>, snd s)"
  by (induction "is" arbitrary: s) (fastforce simp: sm_eqs gy_op_delete_def split: if_splits)+

lemma delete_device_sessions_ok:
  assumes "delete_device_sessions d s = Some (Inr (), s')"
  shows "s' = ((fst s)\<lparr>op_defer := op_defer (fst s) @ map (GY_OP_DELETE_RECORD GY_REC_SESSION) (dev_ids d)\<rparr>, snd s)"
  using assms by (cases "d_has_active d = 0")
    (auto simp: delete_device_sessions_def sm_eqs gy_op_delete_def dev_ids_def split: if_splits
      dest!: delete_sessions_ok)

lemma defer_delete_device_ok:
  assumes "defer_delete_device_inner L u i s = Some (Inr (), s')" "gy_devrec_key L u i = Inr dk"
  obtains w1 where "gy_op_load_device_any L (fst s) dk (snd s) = (Inr None, w1)" "s' = (fst s, w1)"
  | h hyb w1 where "gy_op_load_device_any L (fst s) dk (snd s) = (Inr (Some (h, hyb)), w1)"
      "s' = ((fst s)\<lparr>op_defer := op_defer (fst s) @
         map (GY_OP_DELETE_RECORD GY_REC_SESSION) (dev_ids (hdv_base h)) @ [GY_OP_DELETE_RECORD GY_REC_DEVICE dk]\<rparr>, w1)"
proof -
  obtain found w1 where l: "gy_op_load_device_any L (fst s) dk (snd s) = (Inr found, w1)"
    using assms by (auto simp: defer_delete_device_inner_def sm_eqs)
  show ?thesis
  proof (cases found)
    case None
    then show ?thesis using assms l that(1) by (auto simp: defer_delete_device_inner_def sm_eqs)
  next
    case (Some p)
    then show ?thesis using assms l that(2) by (cases p)
      (auto simp: defer_delete_device_inner_def sm_eqs gy_op_delete_def split: if_splits
        dest!: delete_device_sessions_ok)
  qed
qed

lemma find_delete_append: "find_delete k i (ds @ es) \<longleftrightarrow> find_delete k i ds \<or> find_delete k i es"
  by (induction k i ds rule: find_delete.induct) auto

lemma find_delete_map: "find_delete k i (map (GY_OP_DELETE_RECORD k') is) \<longleftrightarrow> k = k' \<and> i \<in> set is"
  by (induction "is") auto

text \<open>On a fresh operation a load reads the store, and a commit of deferred deletions only deletes.\<close>

lemma fresh_op:
  "op_inv (gy_op_begin op0 st)" "op_store (gy_op_begin op0 st) = st" "op_defer (gy_op_begin op0 st) = []"
  "slot_blob (gy_op_begin op0 st) k i = None" "in_use (op_rec (gy_op_begin op0 st)) = []"
  "in_use (op_sess (gy_op_begin op0 st)) = []"
  using op_inv_clear [of op0]
  by (simp_all add: gy_op_begin_def op_inv_def op_clear_def slot_blob_def find_rec_in_use find_sess_in_use)

lemma load_unstaged:
  assumes "store_contract (op_store op1) view" "stage_lookup op1 k i = None" "load_with op1 k i dec w = (Inr x, w1)"
  shows "view (fst w1) = view (fst w)" "x = None \<longleftrightarrow> view (fst w) (k, i) = []"
    "x = Some v \<Longrightarrow> dec (view (fst w) (k, i)) = Inr v"
proof -
  obtain b where b: "load_record (op_store op1) k i GY_SESSION_BLOB_MAX w = (Inr b, w1)"
      "(if b = [] then Inr None else rbind (dec b) (\<lambda>x. Inr (Some x))) = Inr x"
    using assms(2,3) by (auto simp: load_with_def op_load_def split: prod.splits sum.splits if_splits)
  note c = contractD(1,2) [OF assms(1) b(1)]
  show "view (fst w1) = view (fst w)" by (rule c(1))
  show "x = None \<longleftrightarrow> view (fst w) (k, i) = []" "x = Some v \<Longrightarrow> dec (view (fst w) (k, i)) = Inr v"
    using b(2) c(2) by (auto simp: rbind_eq_Inr_iff split: if_splits)
qed

lemma fresh_load:
  assumes "store_contract st view" "load_with (gy_op_begin op0 st) k i dec w = (Inr x, w1)"
  shows "view (fst w1) = view (fst w)" "x = None \<longleftrightarrow> view (fst w) (k, i) = []"
    "x = Some v \<Longrightarrow> dec (view (fst w) (k, i)) = Inr v"
proof -
  have n: "stage_lookup (gy_op_begin op0 st) k i = None" by (simp add: stage_lookup_slot fresh_op)
  note l = load_unstaged [of "gy_op_begin op0 st" view, unfolded fresh_op(2), OF assms(1) n assms(2)]
  show "view (fst w1) = view (fst w)" "x = None \<longleftrightarrow> view (fst w) (k, i) = []"
    "x = Some v \<Longrightarrow> dec (view (fst w) (k, i)) = Inr v" using l by blast+
qed

text \<open>The records of one device: its device record and the sessions this record lists.\<close>

definition device_keys :: "provider \<Rightarrow> (gy_rec_kind \<times> bytes \<Rightarrow> bytes) \<Rightarrow> bytes \<Rightarrow> (gy_rec_kind \<times> bytes) set" where
  "device_keys L v dk = insert (GY_REC_DEVICE, dk)
     (case device_any_decode L (v (GY_REC_DEVICE, dk)) of Inl _ \<Rightarrow> {}
      | Inr (h, _) \<Rightarrow> (\<lambda>i. (GY_REC_SESSION, i)) ` set (dev_ids (hdv_base h)))"

lemma device_decode_nil: "\<exists>e. device_any_decode L [] = Inl e"
  by (simp add: device_any_decode_def)

lemma fresh_defer_delete:
  assumes st: "store_contract st view" and dk: "gy_devrec_key L u i = Inr dk"
    and run: "defer_delete_device_inner L u i (gy_op_begin op0 st, w) = Some (Inr (), (op2, w2))"
  shows "view (fst w2) = view (fst w)" "op_inv op2" "op_store op2 = st" "in_use (op_rec op2) = []" "in_use (op_sess op2) = []"
    "find_delete k j (op_defer op2) \<Longrightarrow> (k, j) \<in> device_keys L (view (fst w)) dk"
    "(k, j) \<in> device_keys L (view (fst w)) dk \<Longrightarrow> find_delete k j (op_defer op2) \<or> view (fst w) (k, j) = []"
proof -
  note inv = staging_inv [OF lifecycle_staging(2) [OF contract_loads [OF st]] run fresh_op(2,1)]
  show "view (fst w2) = view (fst w)" "op_inv op2" "op_store op2 = st" by (rule inv)+
  have "in_use (op_rec op2) = [] \<and> in_use (op_sess op2) = [] \<and>
     (find_delete k j (op_defer op2) \<longrightarrow> (k, j) \<in> device_keys L (view (fst w)) dk) \<and>
     ((k, j) \<in> device_keys L (view (fst w)) dk \<longrightarrow> find_delete k j (op_defer op2) \<or> view (fst w) (k, j) = [])" for k j
    using run dk
  proof (cases rule: defer_delete_device_ok)
    case (1 w1)
    then have "view (fst w) (GY_REC_DEVICE, dk) = []"
      using fresh_load(2) [OF st] unfolding gy_op_load_device_any_def by fastforce
    then have "device_keys L (view (fst w)) dk = {(GY_REC_DEVICE, dk)}"
      using device_decode_nil [of L] by (auto simp: device_keys_def)
    then show ?thesis using 1 \<open>view (fst w) (GY_REC_DEVICE, dk) = []\<close> by (auto simp: fresh_op)
  next
    case (2 h hyb w1)
    then have "device_any_decode L (view (fst w) (GY_REC_DEVICE, dk)) = Inr (h, hyb)"
      using fresh_load(3) [OF st] unfolding gy_op_load_device_any_def by fastforce
    then show ?thesis using 2 by (auto simp: device_keys_def fresh_op find_delete_append find_delete_map)
  qed
  then show "in_use (op_rec op2) = []" "in_use (op_sess op2) = []"
    "find_delete k j (op_defer op2) \<Longrightarrow> (k, j) \<in> device_keys L (view (fst w)) dk"
    "(k, j) \<in> device_keys L (view (fst w)) dk \<Longrightarrow> find_delete k j (op_defer op2) \<or> view (fst w) (k, j) = []"
    by blast+
qed

lemma device_transaction:
  assumes st: "store_contract st view" and dk: "gy_devrec_key L u i = Inr dk"
    and run: "defer_delete_device_inner L u i (gy_op_begin op0 st, w) = Some (Inr (), (op2, w2))"
    and commit: "gy_op_commit op2 w2 = (Inr (), op3, w3)"
  shows "view (fst w3) = (\<lambda>q. if q \<in> device_keys L (view (fst w)) dk then [] else view (fst w) q)"
proof (rule ext)
  fix q :: "gy_rec_kind \<times> bytes"
  obtain k j where q: "q = (k, j)" by (cases q)
  note d = fresh_defer_delete [OF st dk run]
  have "run_acts st (map defer_act (op_defer op2)) w2 = (Inr (), w3)"
    using commit d(3-5) by (auto simp: commit_runs_plan commit_plan_def split: prod.splits)
  from run_acts_view [OF st this] have "view (fst w3) q = (if find_delete k j (op_defer op2) then [] else view (fst w) q)"
    by (simp add: foldl_defer d(1) q)
  then show "view (fst w3) q = (if q \<in> device_keys L (view (fst w)) dk then [] else view (fst w) q)"
    using d(6,7) [of k j] q by auto
qed

lemma delete_user_devices_ok:
  assumes st: "store_contract st view"
    and run: "delete_user_devices L st u is (op1, w) = Some (Inr (), (op2, w2))"
  shows "(\<forall>q. view (fst w2) q = view (fst w) q \<or> view (fst w2) q = []) \<and>
     (\<forall>i \<in> set is. \<forall>dk. gy_devrec_key L u i = Inr dk \<longrightarrow> (\<forall>q \<in> device_keys L (view (fst w)) dk. view (fst w2) q = []))"
  using run
proof (induction "is" arbitrary: op1 w)
  case Nil
  then show ?case by (simp add: s_res_eq)
next
  case (Cons i "is")
  then obtain opa wa opb wb where r: "defer_delete_device_inner L u i (gy_op_begin op1 st, w) = Some (Inr (), (opa, wa))"
      "gy_op_commit opa wa = (Inr (), opb, wb)" "delete_user_devices L st u is (opb, wb) = Some (Inr (), (op2, w2))"
    by (auto simp: sm_eqs s_begin_def)
  obtain dk where dk: "gy_devrec_key L u i = Inr dk"
    using r(1) by (auto simp: defer_delete_device_inner_def sm_eqs)
  note tr = device_transaction [OF st dk r(1,2)]
  note ih = Cons.IH [OF r(3)]
  have "view (fst w2) q = []" if "i' \<in> set is" "gy_devrec_key L u i' = Inr dk'" "q \<in> device_keys L (view (fst w)) dk'" for i' dk' q
  proof (cases "dk' = dk")
    case True
    then show ?thesis using that tr ih by (metis (no_types, lifting))
  next
    case False
    then have "view (fst wb) (GY_REC_DEVICE, dk') = view (fst w) (GY_REC_DEVICE, dk')"
      by (auto simp: tr device_keys_def split: sum.splits)
    then have "device_keys L (view (fst wb)) dk' = device_keys L (view (fst w)) dk'" by (simp add: device_keys_def)
    then show ?thesis using ih that by blast
  qed
  moreover have "view (fst w2) q = view (fst w) q \<or> view (fst w2) q = []" for q
    using conjunct1 [OF ih, THEN spec, of q] by (simp add: tr split: if_splits)
  moreover have "view (fst w2) q = []" if "q \<in> device_keys L (view (fst w)) dk" for q
    using ih that tr by metis
  ultimately show ?case using dk by auto
qed

lemma device_keys_kind: "(GY_REC_USER, i) \<notin> device_keys L v dk"
  by (auto simp: device_keys_def split: sum.splits)

lemma user_decode_nil: "gy_user_record_decode [] = Inr u \<Longrightarrow> False"
  by (auto simp: gy_user_record_decode_def rd_bind_def r_prefix_def r_u8_def r_raw_def rd_return_def
      rd_finish_def rd_refuse_def split: option.splits if_splits)

lemma delete_device_ok:
  assumes st: "store_contract st view" and dk: "gy_devrec_key L u i = Inr dk"
    and run: "gy_delete_device L u i (gy_op_begin op0 st, w) = Some (Inr (), (op2, w2))"
    and usr: "gy_user_record_decode (view (fst w) (GY_REC_USER, u)) = Inr usr"
  obtains opa wa where "defer_delete_device_inner L u i (gy_op_begin op0 st, w) = Some (Inr (), (opa, wa))"
    "view (fst w2) = view (fst w)"
    "gy_user_device_remove usr i = Inl GY_ERR_STATE \<and> op2 = opa \<or>
     (\<exists>usr1. gy_user_device_remove usr i = Inr usr1 \<and> gy_op_put_user opa usr1 = Inr op2)"
proof -
  obtain opa wa found where r: "defer_delete_device_inner L u i (gy_op_begin op0 st, w) = Some (Inr (), (opa, wa))"
      "gy_op_load_user opa u wa = (Inr found, w2)"
      "(case found of None \<Rightarrow> s_res (Inr ())
        | Some usr \<Rightarrow>
            (case gy_user_device_remove usr i of
               Inl e \<Rightarrow> s_res (if e = GY_ERR_STATE then Inr () else Inl e)
             | Inr usr1 \<Rightarrow> s_put (\<lambda>op1. gy_op_put_user op1 usr1))) (opa, w2) = Some (Inr (), (op2, w2))"
  proof -
    obtain opa wa found w3 where r: "defer_delete_device_inner L u i (gy_op_begin op0 st, w) = Some (Inr (), (opa, wa))"
      "gy_op_load_user opa u wa = (Inr found, w3)"
      "(case found of None \<Rightarrow> s_res (Inr ())
        | Some usr \<Rightarrow>
            (case gy_user_device_remove usr i of
               Inl e \<Rightarrow> s_res (if e = GY_ERR_STATE then Inr () else Inl e)
             | Inr usr1 \<Rightarrow> s_put (\<lambda>op1. gy_op_put_user op1 usr1))) (opa, w3) = Some (Inr (), (op2, w2))"
      using run by (auto simp: gy_delete_device_def sbind_eq_Inr s_load_eq s_res_eq split: if_splits)
    moreover have "w3 = w2" using r(3) by (auto simp: sm_eqs split: option.splits sum.splits)
    ultimately show ?thesis using that by blast
  qed
  note d = fresh_defer_delete [OF st dk r(1)]
  have "stage_lookup opa GY_REC_USER u = None"
    using d(4) d(6) [of GY_REC_USER u] device_keys_kind
    by (auto simp: stage_lookup_slot slot_blob_def find_rec_in_use)
  note l = load_unstaged [of opa view, unfolded d(3), OF st this r(2) [unfolded gy_op_load_user_def], unfolded d(1)]
  have ne: "view (fst w) (GY_REC_USER, u) \<noteq> []" using usr user_decode_nil by metis
  obtain usr' where u': "found = Some usr'" "gy_user_record_decode (view (fst w) (GY_REC_USER, u)) = Inr usr'"
    using l(2) l(3) ne by (cases found) auto
  have "found = Some usr" using u' usr by simp
  then show ?thesis using that [OF r(1) l(1)] r(3)
    by (auto simp: sm_eqs split: sum.splits if_splits)
qed

lemma device_keys_len:
  assumes "(k, j) \<in> device_keys L v dk" "k = GY_REC_SESSION"
  shows "length j = GY_SESSION_ID_LEN"
  using assms by (auto simp: device_keys_def devrec_wf_def dest!: device_any_decode_wf split: sum.splits)

text \<open>The user record after the index has been updated, staged or, when the device was not listed, in the store.\<close>

lemma delete_device_index:
  assumes "op_inv opa" "op_store opa = st" "in_use (op_rec opa) = []" "in_use (op_sess opa) = []"
    and upd: "gy_user_device_remove usr i = Inl GY_ERR_STATE \<and> op2 = opa \<or>
       (\<exists>usr1. gy_user_device_remove usr i = Inr usr1 \<and> gy_op_put_user opa usr1 = Inr op2)"
    and usr: "gy_user_record_decode b0 = Inr usr" "user_inv usr" "u_user_id usr = u"
  obtains usr' where "op_inv op2" "op_store op2 = st" "op_defer op2 = op_defer opa"
    "\<forall>k j. k \<noteq> GY_REC_USER \<longrightarrow> slot_blob op2 k j = None"
    "gy_user_record_decode (case slot_blob op2 GY_REC_USER u of Some b \<Rightarrow> b | None \<Rightarrow> b0) = Inr usr'"
    "ud_id ` set (u_devices usr') = ud_id ` set (u_devices usr) - {i}"
proof -
  have empty: "slot_blob opa k j = None" for k j
    using assms(3,4) by (simp add: slot_blob_def find_rec_in_use find_sess_in_use)
  from upd show ?thesis
  proof (elim disjE conjE exE)
    assume "gy_user_device_remove usr i = Inl GY_ERR_STATE" "op2 = opa"
    moreover from this have "i \<notin> ud_id ` set (u_devices usr)"
      by (auto simp: gy_user_device_remove_def user_find_None [symmetric] split: option.splits)
    ultimately show ?thesis using that [of usr] empty assms(1,2) usr(1) by auto
  next
    fix usr1 assume r: "gy_user_device_remove usr i = Inr usr1" "gy_op_put_user opa usr1 = Inr op2"
    note u1 = user_removed [OF usr(2) r(1)]
    have id1: "u_user_id usr1 = u"
      using r(1) usr(3) by (auto simp: gy_user_device_remove_def user_remove_def split: option.splits)
    obtain b where b: "gy_user_record_encode GY_USER_BLOB_MAX usr1 = Inr b" "put_rec opa GY_REC_USER u b = Inr op2"
      using r(2) id1 by (auto simp: gy_op_put_user_def rbind_eq_Inr_iff)
    have ne: "b \<noteq> []" using b(1) by (auto simp: user_encode user_bytes_def split: if_splits)
    have "gy_user_record_decode b = Inr usr1"
      using user_blob.dec_enc [OF _ b(1)] u1 by (simp add: user_inv_def)
    moreover have "slot_blob op2 GY_REC_USER u = Some b"
      using put_rec_spec(4) [OF assms(1) b(2) _ ne, of GY_REC_USER u] by (simp add: slot_blob_def)
    moreover have "slot_blob op2 k j = None" if "k \<noteq> GY_REC_USER" for k j
      using put_rec_spec(4) [OF assms(1) b(2) _ ne, of k j] put_rec_spec(5) [OF assms(1) b(2) _ ne] empty [of k j] that
      by (auto simp: slot_blob_def)
    ultimately show ?thesis
      using that [of usr1] put_rec_spec(1-3) [OF assms(1) b(2) _ ne] assms(2) u1 by auto
  qed
qed

subsection \<open>Properties\<close>

text \<open>
  C3. Identities are pinned. In any operation in progress, a conditional update for a device that is
  already known under another identity (another curve key; for a hybrid device any of the three key
  components) fails and leaves the stage untouched, and with the identifiers in range it reports both
  fingerprints. When an update succeeds the device is staged under exactly the identity given, and a
  record that was known before is staged unchanged.
\<close>

theorem identity_pinned:
  assumes "(op_step L)\<^sup>*\<^sup>* (gy_op_begin op0 st) op1" and "store_contract st view"
    and "gy_suite_desc L sid = Some desc" and "gy_devrec_key L u i = Inr dk"
    and "length (pub_pk (hp_curve (hi_base hik))) = curve_pk_len desc"
    and "length (hp_mlkem_ek (hi_base hik)) = kem_pk_len desc" and "length (hi_mldsa_pk hik) = dsa_pk_len desc"
    and "ik = hp_curve (hi_base hik)"
  shows "(\<forall>d w1. gy_op_load_device L op1 dk w = (Inr (Some d), w1) \<and> \<not> ik_equal desc (d_ik d) ik \<longrightarrow>
      (\<exists>e w'. gy_conditional_update L sid u i ik want (op1, w) = Some (Inl e, (op1, w')) \<and>
        (\<not> ids_out_of_range u i \<and> pub_curve_type ik = curve_type desc \<and> d_suite_id d = sid \<longrightarrow>
          e = key_changed want desc (d_fingerprint d) (gy_fingerprint desc ik)))) \<and>
    (\<forall>d w1. gy_op_load_hybrid_device L op1 dk w = (Inr (Some d), w1) \<and> \<not> hybrid_ik_equal desc d hik \<longrightarrow>
      (\<exists>e w'. gy_hybrid_conditional_update L sid u i hik want (op1, w) = Some (Inl e, (op1, w')))) \<and>
    (\<forall>op2 w2. gy_conditional_update L sid u i ik want (op1, w) = Some (Inr (), (op2, w2)) \<longrightarrow>
      (\<exists>d found w1. gy_op_load_device L op2 dk w2 = (Inr (Some d), w2) \<and> ik_equal desc (d_ik d) ik \<and>
        gy_op_load_device L op1 dk w = (Inr found, w1) \<and> (\<forall>d0. found = Some d0 \<longrightarrow> d = d0))) \<and>
    (\<forall>op2 w2. gy_hybrid_conditional_update L sid u i hik want (op1, w) = Some (Inr (), (op2, w2)) \<longrightarrow>
      (\<exists>d found w1. gy_op_load_hybrid_device L op2 dk w2 = (Inr (Some d), w2) \<and> hybrid_ik_equal desc d hik \<and>
        gy_op_load_hybrid_device L op1 dk w = (Inr found, w1) \<and> (\<forall>d0. found = Some d0 \<longrightarrow> d = d0)))"
proof -
  have inv: "op_inv op1" "op_store op1 = st" using op_reach_inv [OF assms(1)] by simp_all
  have len: "length (pub_pk ik) = curve_pk_len desc" using assms(5,8) by simp
  note c = conditional_update_ok [OF assms(2) inv assms(3) len assms(4)]
  note h = hybrid_conditional_update_ok [OF assms(2) inv assms(3,5,6,7,4)]
  show ?thesis
  proof (intro conjI allI impI)
    fix d w1 assume "gy_op_load_device L op1 dk w = (Inr (Some d), w1) \<and> \<not> ik_equal desc (d_ik d) ik"
    then show "\<exists>e w'. gy_conditional_update L sid u i ik want (op1, w) = Some (Inl e, (op1, w')) \<and>
        (\<not> ids_out_of_range u i \<and> pub_curve_type ik = curve_type desc \<and> d_suite_id d = sid \<longrightarrow>
          e = key_changed want desc (d_fingerprint d) (gy_fingerprint desc ik))"
      using conditional_update_changed [OF assms(3,4)] by blast
  next
    fix d w1 assume "gy_op_load_hybrid_device L op1 dk w = (Inr (Some d), w1) \<and> \<not> hybrid_ik_equal desc d hik"
    then show "\<exists>e w'. gy_hybrid_conditional_update L sid u i hik want (op1, w) = Some (Inl e, (op1, w'))"
      using hybrid_conditional_update_changed [OF assms(3,4)] by blast
  next
    fix op2 w2 assume "gy_conditional_update L sid u i ik want (op1, w) = Some (Inr (), (op2, w2))"
    from c [OF this, of w2] obtain d found w1 where "gy_op_load_device L op2 dk w2 = (Inr (Some d), w2)"
        "ik_equal desc (d_ik d) ik" "gy_op_load_device L op1 dk w = (Inr found, w1)" "\<forall>d0. found = Some d0 \<longrightarrow> d = d0" .
    then show "\<exists>d found w1. gy_op_load_device L op2 dk w2 = (Inr (Some d), w2) \<and> ik_equal desc (d_ik d) ik \<and>
        gy_op_load_device L op1 dk w = (Inr found, w1) \<and> (\<forall>d0. found = Some d0 \<longrightarrow> d = d0)"
      by (intro exI conjI)
  next
    fix op2 w2 assume "gy_hybrid_conditional_update L sid u i hik want (op1, w) = Some (Inr (), (op2, w2))"
    from h [OF this, of w2] obtain d found w1 where "gy_op_load_hybrid_device L op2 dk w2 = (Inr (Some d), w2)"
        "hybrid_ik_equal desc d hik" "gy_op_load_hybrid_device L op1 dk w = (Inr found, w1)"
        "\<forall>d0. found = Some d0 \<longrightarrow> d = d0" .
    then show "\<exists>d found w1. gy_op_load_hybrid_device L op2 dk w2 = (Inr (Some d), w2) \<and> hybrid_ik_equal desc d hik \<and>
        gy_op_load_hybrid_device L op1 dk w = (Inr found, w1) \<and> (\<forall>d0. found = Some d0 \<longrightarrow> d = d0)"
      by (intro exI conjI)
  qed
qed

text \<open>
  C6. Deleting a device for compromise recovery is complete. On a store that keeps its contract, when
  the deletion and its commit succeed, the device record and every session it listed are gone, and the
  user's index lists every device but this one.
\<close>

theorem delete_device_complete:
  assumes "store_contract st view" and "gy_devrec_key L u i = Inr dk"
    and "gy_delete_device L u i (gy_op_begin op0 st, w) = Some (Inr (), (op2, w2))"
    and "gy_op_commit op2 w2 = (Inr (), op3, w3)"
    and "gy_user_record_decode (view (fst w) (GY_REC_USER, u)) = Inr usr" and "user_inv usr" and "u_user_id usr = u"
  shows "(\<forall>q \<in> device_keys L (view (fst w)) dk. view (fst w3) q = []) \<and>
    (\<exists>usr'. gy_user_record_decode (view (fst w3) (GY_REC_USER, u)) = Inr usr' \<and>
      ud_id ` set (u_devices usr') = ud_id ` set (u_devices usr) - {i})"
proof -
  obtain opa wa where r: "defer_delete_device_inner L u i (gy_op_begin op0 st, w) = Some (Inr (), (opa, wa))"
      "view (fst w2) = view (fst w)"
      "gy_user_device_remove usr i = Inl GY_ERR_STATE \<and> op2 = opa \<or>
       (\<exists>usr1. gy_user_device_remove usr i = Inr usr1 \<and> gy_op_put_user opa usr1 = Inr op2)"
    by (rule delete_device_ok [OF assms(1,2,3,5)])
  note d = fresh_defer_delete [OF assms(1,2) r(1)]
  have no_user: "\<not> find_delete GY_REC_USER u (op_defer opa)" using d(6) device_keys_kind by blast
  obtain usr' where u': "op_inv op2" "op_store op2 = st" "op_defer op2 = op_defer opa"
      "\<forall>k j. k \<noteq> GY_REC_USER \<longrightarrow> slot_blob op2 k j = None"
      "gy_user_record_decode (case slot_blob op2 GY_REC_USER u of Some b \<Rightarrow> b | None \<Rightarrow> view (fst w) (GY_REC_USER, u)) = Inr usr'"
      "ud_id ` set (u_devices usr') = ud_id ` set (u_devices usr) - {i}"
    by (rule delete_device_index [OF d(2-5) r(3) assms(5-7)])
  note cv = commit_view [OF assms(1) [folded u'(2)] u'(1) assms(4), unfolded r(2) u'(3)]
  have "view (fst w3) (k, j) = []" if q: "(k, j) \<in> device_keys L (view (fst w)) dk" for k j
    using cv [of k j] d(7) [OF q] u'(4) device_keys_len [OF q] device_keys_kind q
    by (cases k) (auto split: if_splits)
  moreover have "gy_user_record_decode (view (fst w3) (GY_REC_USER, u)) = Inr usr'"
    using cv [of GY_REC_USER u] no_user u'(5) by simp
  ultimately show ?thesis using u'(6) by auto
qed

text \<open>
  C7. Deleting a user is complete. When the sequence of transactions succeeds on a store that keeps its
  contract, the user record is gone, and so are the device record and the sessions of every device
  that the index listed; no record is changed otherwise than by deletion.
\<close>

theorem delete_user_complete:
  assumes "store_contract st view" and "gy_delete_user L st u (op1, w) = Some (Inr (), (op2, w2))"
    and "gy_user_record_decode (view (fst w) (GY_REC_USER, u)) = Inr usr"
  shows "view (fst w2) (GY_REC_USER, u) = [] \<and>
    (\<forall>v \<in> set (u_devices usr). \<forall>dk. gy_devrec_key L u (ud_id v) = Inr dk \<longrightarrow>
      (\<forall>q \<in> device_keys L (view (fst w)) dk. view (fst w2) q = [])) \<and>
    (\<forall>q. view (fst w2) q = view (fst w) q \<or> view (fst w2) q = [])"
proof -
  obtain found w1 where l: "gy_op_load_user (gy_op_begin op1 st) u w = (Inr found, w1)"
    using assms(2) by (auto simp: gy_delete_user_def sm_eqs s_begin_def split: if_splits)
  note fl = fresh_load [OF assms(1) l [unfolded gy_op_load_user_def]]
  have "found = Some usr"
    using fl(2,3) assms(3) user_decode_nil by (cases found) auto
  then obtain opa wa opb where r: "delete_user_devices L st u (map ud_id (u_devices usr)) (gy_op_abort (gy_op_begin op1 st), w1)
        = Some (Inr (), (opa, wa))"
      "gy_op_delete (gy_op_begin opa st) GY_REC_USER u = Inr opb" "gy_op_commit opb wa = (Inr (), op2, w2)"
    using assms(2) l by (auto simp: gy_delete_user_def sm_eqs s_begin_def s_abort_def split: if_splits)
  note dd = delete_user_devices_ok [OF assms(1) r(1), unfolded fl(1)]
  have opb: "opb = (gy_op_begin opa st)\<lparr>op_defer := [GY_OP_DELETE_RECORD GY_REC_USER u]\<rparr>"
    using r(2) by (auto simp: gy_op_delete_def fresh_op split: if_splits)
  have "run_acts st [Act_Delete GY_REC_USER u] wa = (Inr (), w2)"
    using r(3) by (auto simp: opb commit_runs_plan commit_plan_def fresh_op defer_act_def simp del: run_acts.simps
        split: prod.splits)
  from run_acts_view [OF assms(1) this] have "view (fst w2) = (view (fst wa))((GY_REC_USER, u) := [])" by simp
  then show ?thesis using dd by auto
qed

text \<open>
  C9. Expiry. For a latency below \<open>2 ^ 62\<close> a configuration is accepted exactly if the send limit is
  positive and the receive limit exceeds it by more than twice the latency, and under an accepted
  configuration a session that is not expired can count one more message in each direction without
  wrapping. The bound on the latency is needed: the product is taken in 64 bits, so the latency
  \<open>2 ^ 63\<close> is accepted with the limits 1 and 2.
\<close>

theorem expiry_bounds:
  assumes "max_latency < 2 ^ 62"
  shows "((\<exists>cfg. gy_expiry_cfg_init max_send max_recv max_latency = Inr cfg) \<longleftrightarrow>
      0 < max_send \<and> unat max_send + 2 * unat max_latency < unat max_recv) \<and>
    (\<forall>cfg. gy_expiry_cfg_init max_send max_recv max_latency = Inr cfg \<and> \<not> gy_session_expired cfg s \<longrightarrow>
      unat (s_nsend s + 1) = unat (s_nsend s) + 1 \<and> unat (s_nrecv s + 1) = unat (s_nrecv s) + 1) \<and>
    (\<exists>cfg. gy_expiry_cfg_init 1 2 (2 ^ 63) = Inr cfg)"
proof -
  have lat: "unat max_latency < 2 ^ 62" using assms by (simp add: word_less_nat_alt)
  have small: "unat x < 4294967296" for x :: u32 using unsigned_less [of x, where ?'a = nat] by simp
  have wide: "unat (ucast x :: u64) = unat x" for x :: u32
    using small [of x] take_bit_nat_eq_self [of "unat x" 64] by (simp add: unsigned_ucast_eq)
  have "unat (ucast max_send + 2 * max_latency :: u64) = unat max_send + 2 * unat max_latency"
    using lat small [of max_send] by (simp add: unat_word_ariths wide)
  then have le: "(ucast max_recv :: u64) \<le> ucast max_send + 2 * max_latency \<longleftrightarrow>
      unat max_recv \<le> unat max_send + 2 * unat max_latency"
    by (simp add: word_le_nat_alt wide)
  have "0 < max_recv" if "unat max_send + 2 * unat max_latency < unat max_recv"
    using that by (simp add: word_less_nat_alt)
  then have "(\<exists>cfg. gy_expiry_cfg_init max_send max_recv max_latency = Inr cfg) \<longleftrightarrow>
      0 < max_send \<and> unat max_send + 2 * unat max_latency < unat max_recv"
    by (auto simp: gy_expiry_cfg_init_def le word_neq_0_conv)
  moreover have "unat (s_nsend s + 1) = unat (s_nsend s) + 1 \<and> unat (s_nrecv s + 1) = unat (s_nrecv s) + 1"
    if "gy_expiry_cfg_init max_send max_recv max_latency = Inr cfg" "\<not> gy_session_expired cfg s" for cfg
  proof -
    have "s_nsend s < max_send" "s_nrecv s < max_recv"
      using that by (auto simp: gy_expiry_cfg_init_def gy_session_expired_def split: if_splits)
    then show ?thesis using unat_Suc_less [of "s_nsend s" max_send] unat_Suc_less [of "s_nrecv s" max_recv] by simp
  qed
  moreover have "\<exists>cfg. gy_expiry_cfg_init 1 2 (2 ^ 63) = Inr cfg" by (simp add: gy_expiry_cfg_init_def)
  ultimately show ?thesis by blast
qed

end
