(* ===== verification/GY_Send.thy ===== *)
theory GY_Send
  imports GY_Lifecycle GY_X3DH
begin

text \<open>
  The Sesame send path of \<^verbatim>\<open>src/session/send.c\<close>. A send context holds the open transaction; the entry points run on the
  context and the world, everything below them on the stage and the world.

  The two-call sizing idiom (output pointer \<open>NULL\<close>) is a pair of definitions: the advertised size,
  and the operation with the capacity of the buffer. The user and device identifiers are never
  \<open>NULL\<close>. A context before its first begin has an empty stage, which the guard on \<open>begun\<close> keeps
  unread.
\<close>

subsection \<open>Sizes\<close>

definition GY_AEAD_MAX_TAG :: nat where "GY_AEAD_MAX_TAG = 32"
definition GY_DR_ENC_HEADER_MAX :: nat where "GY_DR_ENC_HEADER_MAX = GY_DR_HEADER_MAX + GY_AEAD_MAX_TAG"
definition GY_DR_HYBRID_ENC_HEADER_MAX :: nat where
  "GY_DR_HYBRID_ENC_HEADER_MAX = GY_DR_HYBRID_HEADER_MAX + GY_AEAD_MAX_TAG"

definition GY_SEND_MSG_SIZE :: "nat \<Rightarrow> nat" where
  "GY_SEND_MSG_SIZE ptlen = (2 + GY_HE_SALT_LEN + 2 + GY_DR_ENC_HEADER_MAX + GY_AEAD_MAX_TAG) + ptlen"
definition GY_SEND_INIT_SIZE :: "nat \<Rightarrow> nat" where
  "GY_SEND_INIT_SIZE ptlen = GY_X3DH_PREFIX_MAX + GY_SEND_MSG_SIZE ptlen"
definition GY_SEND_HYBRID_DR_OVERHEAD :: nat where
  "GY_SEND_HYBRID_DR_OVERHEAD = 2 + GY_HE_SALT_LEN + 2 + GY_DR_HYBRID_ENC_HEADER_MAX + GY_AEAD_MAX_TAG"
definition GY_SEND_INIT_HYBRID_SIZE :: "nat \<Rightarrow> nat" where
  "GY_SEND_INIT_HYBRID_SIZE ptlen = GY_HYBRID_X3DH_PREFIX_MAX + GY_SEND_HYBRID_DR_OVERHEAD + ptlen"

subsection \<open>Encrypting on a session\<close>

text \<open>The frame and the advanced session; on an error the caller drops its copy of the session.\<close>

definition sess_encrypt :: "provider \<Rightarrow> gy_session \<Rightarrow> nat \<Rightarrow> bytes \<Rightarrow> (bytes \<times> gy_session) comp" where
  "sess_encrypt L s cap pt r =
     (if is_hybrid (dr_desc (hd_base (s_ratchet s))) then
        (case gy_hybrid_dr_encrypt L (s_ratchet s) cap pt (s_ad s) r of
           (Inl e, _, r1) \<Rightarrow> Some (Inl e, r1)
         | (Inr m, st, r1) \<Rightarrow> Some (Inr (m, s\<lparr>s_ratchet := st, s_pq_pending := hd_pq_state st\<rparr>), r1))
      else
        (case gy_dr_encrypt L (hd_base (s_ratchet s)) cap pt (s_ad s) r of
           (Inl e, _, r1) \<Rightarrow> Some (Inl e, r1)
         | (Inr m, b, r1) \<Rightarrow> Some (Inr (m, s\<lparr>s_ratchet := (s_ratchet s)\<lparr>hd_base := b\<rparr>\<rparr>), r1)))"

text \<open>A computation on the draw counter, run inside an operation.\<close>

definition s_comp :: "'a comp \<Rightarrow> ('w opst, gy_err, 'a) sm" where
  "s_comp m s = map_option (\<lambda>(x, r1). (x, (fst s, (fst (snd s), r1)))) (m (snd (snd s)))"

subsection \<open>The context and its transaction\<close>

record 'w gy_send_ctx =
  sc_store :: "'w gy_store"
  sc_desc :: gy_suite_desc
  sc_local_ik :: "gy_keypair option"
  sc_aead_id :: u8
  sc_expiry :: gy_expiry_cfg
  sc_self_user_id :: "bytes option"
  sc_self_device_id :: "bytes option"
  sc_op :: "'w gy_op"
  sc_begun :: bool

definition op_zero :: "'w gy_store \<Rightarrow> 'w gy_op" where
  "op_zero st = \<lparr>op_store = st, op_rec = replicate GY_OP_MAX_RECORDS None,
     op_sess = replicate GY_OP_MAX_SESSIONS None, op_defer = []\<rparr>"

definition id_len :: "bytes option \<Rightarrow> nat" where
  "id_len i = (case i of None \<Rightarrow> 0 | Some b \<Rightarrow> length b)"

definition gy_send_ctx_init ::
    "'w gy_store \<Rightarrow> gy_suite_desc \<Rightarrow> gy_keypair option \<Rightarrow> u8 \<Rightarrow> gy_expiry_cfg option \<Rightarrow> bytes option \<Rightarrow> bytes option
      \<Rightarrow> 'w gy_send_ctx res" where
  "gy_send_ctx_init st desc local_ik aead_id expiry self_user self_device =
     (if id_len self_user > GY_USER_ID_MAX \<or> id_len self_device > GY_DEVICE_ID_MAX then Inl GY_ERR_ARG
      else Inr \<lparr>sc_store = st, sc_desc = desc, sc_local_ik = local_ik, sc_aead_id = aead_id,
        sc_expiry = (case expiry of None \<Rightarrow> gy_expiry_cfg_disable | Some e \<Rightarrow> e),
        sc_self_user_id = self_user, sc_self_device_id = self_device, sc_op = op_zero st, sc_begun = False\<rparr>)"

definition gy_send_begin :: "'w gy_send_ctx \<Rightarrow> 'w gy_send_ctx" where
  "gy_send_begin c = c\<lparr>sc_op := gy_op_begin (sc_op c) (sc_store c), sc_begun := True\<rparr>"

definition gy_send_abort :: "'w gy_send_ctx \<Rightarrow> 'w gy_send_ctx" where
  "gy_send_abort c = c\<lparr>sc_op := gy_op_abort (sc_op c), sc_begun := False\<rparr>"

type_synonym 'w sendst = "'w gy_send_ctx \<times> ('w \<times> rng)"

definition gy_send_commit :: "('w sendst, gy_err, unit) sm" where
  "gy_send_commit s = (let c = fst s in
     if \<not> sc_begun c then Some (Inl GY_ERR_STATE, s)
     else case gy_op_commit (sc_op c) (snd s) of (x, op1, w1) \<Rightarrow> Some (x, (c\<lparr>sc_op := op1, sc_begun := False\<rparr>, w1)))"

text \<open>An entry point: run on the stage of the context, and put the stage back.\<close>

definition send_run :: "('w gy_send_ctx \<Rightarrow> ('w opst, 'e, 'a) sm) \<Rightarrow> ('w sendst, 'e, 'a) sm" where
  "send_run f s = map_option (\<lambda>(x, (op1, w1)). (x, ((fst s)\<lparr>sc_op := op1\<rparr>, w1))) (f (fst s) (sc_op (fst s), snd s))"

subsection \<open>Fan-out\<close>

datatype gy_send_status = GY_SEND_MESSAGE | GY_SEND_NEEDS_BUNDLE | GY_SEND_STALE

record gy_send_desc =
  sd_user_id :: bytes
  sd_device_id :: bytes
  sd_status :: gy_send_status

definition is_self_device :: "'w gy_send_ctx \<Rightarrow> bytes \<Rightarrow> bytes \<Rightarrow> bool" where
  "is_self_device c user_id device_id \<longleftrightarrow>
     (case (sc_self_user_id c, sc_self_device_id c) of
        (Some u, Some d) \<Rightarrow> length u = length user_id \<and> length d = length device_id \<and> u = user_id \<and> d = device_id
      | _ \<Rightarrow> False)"

definition classify_device ::
    "provider \<Rightarrow> 'w gy_send_ctx \<Rightarrow> bytes \<Rightarrow> bytes \<Rightarrow> ('w opst, gy_err, gy_send_status) sm" where
  "classify_device L c user_id device_id =
     sbind (s_res (gy_devrec_key L user_id device_id)) (\<lambda>dk.
     sbind (s_load (\<lambda>op1. gy_op_load_device_any L op1 dk)) (\<lambda>found.
     case found of None \<Rightarrow> s_res (Inr GY_SEND_NEEDS_BUNDLE)
     | Some (dev, _) \<Rightarrow>
         if d_has_active (hdv_base dev) = 0 then s_res (Inr GY_SEND_NEEDS_BUNDLE)
         else
           sbind (s_load (\<lambda>op1. gy_op_load_session L op1 (d_active (hdv_base dev)))) (\<lambda>sfound.
           case sfound of None \<Rightarrow> s_res (Inr GY_SEND_NEEDS_BUNDLE)
           | Some s \<Rightarrow> s_res (Inr (if gy_session_expired (sc_expiry c) s then GY_SEND_STALE else GY_SEND_MESSAGE)))))"

fun prepare_devices ::
    "provider \<Rightarrow> 'w gy_send_ctx \<Rightarrow> bytes \<Rightarrow> user_device list \<Rightarrow> ('w opst, gy_err, gy_send_desc list) sm" where
  "prepare_devices L c user_id [] = s_res (Inr [])"
| "prepare_devices L c user_id (v # vs) =
     (if is_self_device c user_id (ud_id v) then prepare_devices L c user_id vs
      else
        sbind (classify_device L c user_id (ud_id v)) (\<lambda>status.
        sbind (prepare_devices L c user_id vs) (\<lambda>ds.
          s_res (Inr (\<lparr>sd_user_id = user_id, sd_device_id = ud_id v, sd_status = status\<rparr> # ds)))))"

fun prepare_targets ::
    "provider \<Rightarrow> 'w gy_send_ctx \<Rightarrow> bytes list \<Rightarrow> ('w opst, gy_err, gy_send_desc list) sm" where
  "prepare_targets L c [] = s_res (Inr [])"
| "prepare_targets L c (t # ts) =
     sbind (s_load (\<lambda>op1. gy_op_load_user op1 t)) (\<lambda>found.
     case found of None \<Rightarrow> prepare_targets L c ts
     | Some usr \<Rightarrow>
         sbind (prepare_devices L c t (u_devices usr)) (\<lambda>ds.
         sbind (prepare_targets L c ts) (\<lambda>es. s_res (Inr (ds @ es)))))"

text \<open>
  \<open>cap = None\<close> is the call without a descriptor array. The count that is needed is reported on
  success and, with the error, when the array is too small.
\<close>

definition gy_send_prepare ::
    "provider \<Rightarrow> bytes list \<Rightarrow> nat option
      \<Rightarrow> ('w sendst, gy_err \<times> nat option, nat \<times> gy_send_desc list) sm" where
  "gy_send_prepare L targets cap = send_run (\<lambda>c.
     if \<not> sc_begun c then s_res (Inl (GY_ERR_STATE, None))
     else
       sbind (s_map_err (\<lambda>e. (e, None)) (prepare_targets L c targets)) (\<lambda>ds.
       case cap of None \<Rightarrow> s_res (Inr (length ds, []))
       | Some n \<Rightarrow> s_res (if length ds > n then Inl (GY_ERR_ARG, Some (length ds)) else Inr (length ds, ds))))"

subsection \<open>Encrypting to a device\<close>

definition gy_send_encrypt_size :: "'w gy_send_ctx \<Rightarrow> nat \<Rightarrow> nat" where
  "gy_send_encrypt_size c ptlen =
     (if is_hybrid (sc_desc c) then GY_SEND_HYBRID_DR_OVERHEAD + ptlen else GY_SEND_MSG_SIZE ptlen)"

definition gy_send_encrypt :: "provider \<Rightarrow> bytes \<Rightarrow> bytes \<Rightarrow> bytes \<Rightarrow> nat \<Rightarrow> ('w sendst, gy_err, bytes) sm" where
  "gy_send_encrypt L user_id device_id pt cap = send_run (\<lambda>c.
     if \<not> sc_begun c then s_res (Inl GY_ERR_STATE)
     else
       sbind (s_res (gy_devrec_key L user_id device_id)) (\<lambda>dk.
       sbind (s_load (\<lambda>op1. gy_op_load_device_any L op1 dk)) (\<lambda>found.
       case found of None \<Rightarrow> s_res (Inl GY_ERR_STATE)
       | Some (dev, _) \<Rightarrow>
           if d_has_active (hdv_base dev) = 0 then s_res (Inl GY_ERR_STATE)
           else
             sbind (s_load (\<lambda>op1. gy_op_load_session L op1 (d_active (hdv_base dev)))) (\<lambda>sfound.
             case sfound of None \<Rightarrow> s_res (Inl GY_ERR_STATE)
             | Some s \<Rightarrow>
                 if gy_session_expired (sc_expiry c) s then s_res (Inl GY_ERR_EXPIRED)
                 else
                   sbind (s_comp (sess_encrypt L s cap pt)) (\<lambda>(out, s1).
                   sbind (s_put (\<lambda>op1. gy_op_put_session op1 (s1\<lparr>s_nsend := s_nsend s1 + 1\<rparr>))) (\<lambda>_.
                     s_res (Inr out)))))))"

subsection \<open>Initiation\<close>

definition emit_initial ::
    "provider \<Rightarrow> gy_session \<Rightarrow> bytes \<Rightarrow> bool \<Rightarrow> bytes \<Rightarrow> nat \<Rightarrow> (bytes \<times> gy_session) comp" where
  "emit_initial L s prefix patch_ctlen pt cap =
     (if length prefix < 4 \<or> length prefix > cap then clift (Inl GY_ERR_ARG)
      else
        cbind (sess_encrypt L s (cap - length prefix) pt) (\<lambda>(frame, s1).
          clift (Inr
            ((if patch_ctlen then take (length prefix - 4) prefix @ gy_be32_put (word_of_nat (length frame)) else prefix) @
             frame, s1\<lparr>s_nsend := s_nsend s1 + 1\<rparr>))))"

definition finish_initiate :: "provider \<Rightarrow> bytes \<Rightarrow> bytes \<Rightarrow> gy_session \<Rightarrow> ('w opst, gy_err, unit) sm" where
  "finish_initiate L user_id device_id s =
     sbind (s_put (\<lambda>op1. gy_op_put_session op1 s)) (\<lambda>_. gy_device_insert_session L user_id device_id (s_id s))"

text \<open>A zeroed session with the ratchet just initialised.\<close>

definition session_new :: "gy_hybrid_dr_state \<Rightarrow> bytes \<Rightarrow> gy_session" where
  "session_new ratchet ad = \<lparr>s_ratchet = ratchet, s_id = replicate GY_SESSION_ID_LEN 0, s_base = [],
     s_pq_pending = 0, s_ad = ad, s_created_at = 0, s_activated_at = 0, s_last_recv_at = 0, s_nsend = 0, s_nrecv = 0\<rparr>"

text \<open>Handshake, first session state and first frame of a classical initiation.\<close>

definition initiate_message ::
    "provider \<Rightarrow> gy_suite_desc \<Rightarrow> gy_keypair \<Rightarrow> u8 \<Rightarrow> gy_prekey_bundle \<Rightarrow> bytes \<Rightarrow> nat \<Rightarrow> (bytes \<times> gy_session) comp" where
  "initiate_message L desc local_ik aead_id bundle pt cap =
     cbind (gy_keypair_generate L desc) (\<lambda>ek.
     cbind (clift (fst (gy_x3dh_initiate L desc local_ik bundle ek))) (\<lambda>(secrets, ad, prefix).
     cbind (gy_dr_init_alice L desc aead_id secrets (pub_pk (pb_spk bundle))) (\<lambda>base.
     cbind (clift (gy_session_id desc (kp_pub local_ik) (kp_pub ek)
              (session_new ((hd_zero desc aead_id)\<lparr>hd_base := base\<rparr>) ad))) (\<lambda>s.
       emit_initial L s prefix True pt cap))))"

definition send_initiate_core ::
    "provider \<Rightarrow> bytes \<Rightarrow> bytes \<Rightarrow> gy_prekey_bundle \<Rightarrow> bytes \<Rightarrow> bool \<Rightarrow> nat \<Rightarrow> ('w sendst, upd_err, bytes) sm" where
  "send_initiate_core L user_id device_id bundle pt want cap = send_run (\<lambda>c.
     case sc_local_ik c of None \<Rightarrow> s_res (Inl (GY_ERR_STATE, None))
     | Some local_ik \<Rightarrow>
         if \<not> sc_begun c then s_res (Inl (GY_ERR_STATE, None))
         else
           sbind (gy_conditional_update L (suite_id (sc_desc c)) user_id device_id (pb_ik bundle) want) (\<lambda>_.
           sbind (plain (s_comp (initiate_message L (sc_desc c) local_ik (sc_aead_id c) bundle pt cap))) (\<lambda>(out, s).
           sbind (plain (finish_initiate L user_id device_id s)) (\<lambda>_.
             s_res (Inr out)))))"

definition gy_send_initiate ::
    "provider \<Rightarrow> bytes \<Rightarrow> bytes \<Rightarrow> gy_prekey_bundle \<Rightarrow> bytes \<Rightarrow> bool \<Rightarrow> nat \<Rightarrow> ('w sendst, upd_err, bytes) sm" where
  "gy_send_initiate L user_id device_id bundle pt want cap = send_initiate_core L user_id device_id bundle pt want cap"

definition gy_session_reinitiate ::
    "provider \<Rightarrow> bytes \<Rightarrow> bytes \<Rightarrow> gy_prekey_bundle \<Rightarrow> bytes \<Rightarrow> bool \<Rightarrow> nat \<Rightarrow> ('w sendst, upd_err, bytes) sm" where
  "gy_session_reinitiate L user_id device_id bundle pt want cap =
     send_initiate_core L user_id device_id bundle pt want cap"

subsection \<open>Hybrid initiation\<close>

definition build_hybrid_flag :: "u8 \<Rightarrow> u32 \<Rightarrow> gy_hybrid_prekey_bundle \<Rightarrow> u32" where
  "build_hybrid_flag aead_pref interval_pref bundle =
     (let mn = (ucast (and (hpb_spk_flags bundle) 0xFFFF) :: u16);
          mx = (ucast (and (drop_bit 16 (hpb_spk_flags bundle)) 0xFFFF) :: u16);
          interval = (if interval_pref < ucast mn then ucast mn else interval_pref);
          interval = (if interval > ucast mx then ucast mx else interval);
          aead = (if aead_pref < 1 \<or> aead_pref > 3 \<or>
                     and (hpb_spk_flags bundle) (push_bit (31 + unat aead_pref) 1) = 0 then 1 else aead_pref)
      in or (and interval 0xFFFF) (push_bit 16 (ucast aead)))"

definition hybrid_initiate_message ::
    "provider \<Rightarrow> gy_suite_desc \<Rightarrow> gy_hybrid_identity_keypair \<Rightarrow> u8 \<Rightarrow> u32 \<Rightarrow> gy_hybrid_prekey_bundle \<Rightarrow> bytes \<Rightarrow> nat
      \<Rightarrow> (bytes \<times> gy_session) comp" where
  "hybrid_initiate_message L desc local_hik aead_id mlkem_interval bundle pt cap =
     (let flag = build_hybrid_flag aead_id mlkem_interval bundle;
          interval = and flag 0xFFFF;
          aead = ucast (and (drop_bit 16 flag) 0xFF) in
      cbind (gy_keypair_generate L desc) (\<lambda>ek.
      cbind (ctot (\<lambda>r. case gy_hybrid_x3dh_initiate L desc local_hik bundle ek flag r of (x, _, r1) \<Rightarrow> (x, r1)))
        (\<lambda>(secrets, ad, prefix).
      cbind (gy_hybrid_dr_init_alice L desc aead secrets (hpb_spk bundle) interval (hik_mlkem_dk local_hik)) (\<lambda>ratchet.
      cbind (clift (gy_session_id desc (hp_curve (hi_base (hik_pub local_hik))) (kp_pub ek)
               ((session_new ratchet ad)\<lparr>s_pq_pending := hd_pq_state ratchet\<rparr>))) (\<lambda>s.
        emit_initial L s prefix False pt cap)))))"

definition gy_send_initiate_hybrid ::
    "provider \<Rightarrow> gy_hybrid_identity_keypair \<Rightarrow> u32 \<Rightarrow> bytes \<Rightarrow> bytes \<Rightarrow> gy_hybrid_prekey_bundle \<Rightarrow> bytes \<Rightarrow> bool \<Rightarrow> nat
      \<Rightarrow> ('w sendst, upd_err, bytes) sm" where
  "gy_send_initiate_hybrid L local_hik mlkem_interval user_id device_id bundle pt want cap = send_run (\<lambda>c.
     if \<not> sc_begun c \<or> \<not> is_hybrid (sc_desc c) then s_res (Inl (GY_ERR_STATE, None))
     else
       sbind (gy_hybrid_conditional_update L (suite_id (sc_desc c)) user_id device_id (hpb_ik bundle) want) (\<lambda>_.
       sbind (plain (s_comp (hybrid_initiate_message L (sc_desc c) local_hik (sc_aead_id c) mlkem_interval bundle pt cap)))
         (\<lambda>(out, s).
       sbind (plain (finish_initiate L user_id device_id s)) (\<lambda>_.
         s_res (Inr out)))))"

subsection \<open>The send path only stages\<close>

lemma staging_comp [staging_intros]: "staging L st view (s_comp m)"
  by (auto simp: keeps_def stage_rel_def s_comp_def)

lemma finish_initiate_staging [staging_intros]:
  "loads_keep st view \<Longrightarrow> staging L st view (finish_initiate L u i s)"
  unfolding finish_initiate_def by (intro staging_intros)

lemma prepare_staging [staging_intros]:
  assumes "loads_keep st view"
  shows "staging L st view (classify_device L c u i)" "staging L st view (prepare_devices L c u vs)"
    "staging L st view (prepare_targets L c ts)"
proof -
  show 1: "staging L st view (classify_device L c u i)" for u i
    unfolding classify_device_def by (intro staging_intros assms)
  show 2: "staging L st view (prepare_devices L c u vs)" for u vs
    by (induction vs) (auto intro!: staging_intros 1)
  show "staging L st view (prepare_targets L c ts)"
    by (induction ts) (auto intro!: staging_intros 2 assms)
qed

text \<open>A send context before and after an entry point: only its stage has moved, by staging calls.\<close>

definition send_rel ::
    "provider \<Rightarrow> ('w \<Rightarrow> 'v) \<Rightarrow> 'w sendst \<Rightarrow> 'w sendst \<Rightarrow> bool" where
  "send_rel L view s s' \<longleftrightarrow> (\<exists>op1. fst s' = (fst s)\<lparr>sc_op := op1\<rparr>) \<and>
     stage_rel L (sc_store (fst s)) view (sc_op (fst s), snd s) (sc_op (fst s'), snd s')"

lemma send_run_keeps:
  assumes "send_run f s = Some (x, s')" "loads_keep (sc_store (fst s)) view"
    and "\<And>c. loads_keep (sc_store c) view \<Longrightarrow> staging L (sc_store c) view (f c)"
  shows "send_rel L view s s'"
proof -
  obtain op1 w1 where r: "f (fst s) (sc_op (fst s), snd s) = Some (x, (op1, w1))" "s' = ((fst s)\<lparr>sc_op := op1\<rparr>, w1)"
    using assms(1) by (auto simp: send_run_def)
  have "stage_rel L (sc_store (fst s)) view (sc_op (fst s), snd s) (op1, w1)"
    using assms(3) [OF assms(2)] r(1) unfolding keeps_def by blast
  then show ?thesis using r(2) by (auto simp: send_rel_def)
qed

lemma send_entry_keeps:
  assumes "loads_keep (sc_store (fst s)) view"
  shows "gy_send_prepare L ts cap s = Some (x1, s') \<Longrightarrow> send_rel L view s s'"
    "gy_send_encrypt L u i pt cap1 s = Some (x2, s') \<Longrightarrow> send_rel L view s s'"
    "gy_send_initiate L u i bundle pt want cap1 s = Some (x3, s') \<Longrightarrow> send_rel L view s s'"
    "gy_session_reinitiate L u i bundle pt want cap1 s = Some (x3, s') \<Longrightarrow> send_rel L view s s'"
    "gy_send_initiate_hybrid L hik iv u i hbundle pt want cap1 s = Some (x3, s') \<Longrightarrow> send_rel L view s s'"
proof -
  show "send_rel L view s s'" if "gy_send_prepare L ts cap s = Some (x1, s')"
    using that unfolding gy_send_prepare_def by (rule send_run_keeps [OF _ assms], intro staging_intros)
  show "send_rel L view s s'" if "gy_send_encrypt L u i pt cap1 s = Some (x2, s')"
    using that unfolding gy_send_encrypt_def by (rule send_run_keeps [OF _ assms], intro staging_intros)
  have init: "send_rel L view s s'" if "send_initiate_core L u i bundle pt want cap1 s = Some (x3, s')"
    using that unfolding send_initiate_core_def by (rule send_run_keeps [OF _ assms], intro staging_intros)
  show "send_rel L view s s'" if "gy_send_initiate L u i bundle pt want cap1 s = Some (x3, s')"
    using init that by (simp add: gy_send_initiate_def)
  show "send_rel L view s s'" if "gy_session_reinitiate L u i bundle pt want cap1 s = Some (x3, s')"
    using init that by (simp add: gy_session_reinitiate_def)
  show "send_rel L view s s'" if "gy_send_initiate_hybrid L hik iv u i hbundle pt want cap1 s = Some (x3, s')"
    using that unfolding gy_send_initiate_hybrid_def by (rule send_run_keeps [OF _ assms], intro staging_intros)
qed

end
