(* ===== verification/GY_Recv.thy ===== *)
theory GY_Recv
  imports GY_Send
begin

text \<open>
  The Sesame receive path of \<^verbatim>\<open>src/session/recv.c\<close>: base-key deduplication, X3DH response with
  deferred consumption of the one-time prekey, trial decryption over the sessions of a device record,
  and the transaction around them.

  The clock callback reads the application's state. The error value of \<open>try_session\<close> carries the
  out-parameter \<open>owned\<close>. On an error the contents of the output buffer are not modelled.
\<close>

subsection \<open>The context\<close>

definition GY_MSG_INIT :: u8 where "GY_MSG_INIT = 0x01"
definition GY_MSG_DR :: u8 where "GY_MSG_DR = 0x02"

record 'w gy_recv_ctx =
  rx_store :: "'w gy_store"
  rx_desc :: gy_suite_desc
  rx_aead_id :: u8
  rx_expiry :: gy_expiry_cfg
  rx_local_ik :: "gy_keypair option"
  rx_spks :: "gy_keypair list"
  rx_opks :: "gy_keypair list"
  rx_clock :: "('w \<Rightarrow> u64) option"
  rx_tried :: u32
  rx_op :: "'w gy_op"

type_synonym 'w recvst = "'w gy_recv_ctx \<times> ('w \<times> rng)"

definition gy_recv_ctx_init ::
    "'w gy_store \<Rightarrow> gy_suite_desc \<Rightarrow> gy_keypair option \<Rightarrow> gy_keypair list \<Rightarrow> gy_keypair list \<Rightarrow> u8
      \<Rightarrow> gy_expiry_cfg option \<Rightarrow> ('w \<Rightarrow> u64) option \<Rightarrow> 'w gy_recv_ctx" where
  "gy_recv_ctx_init st desc local_ik spks opks aead_id expiry clock =
     \<lparr>rx_store = st, rx_desc = desc, rx_aead_id = aead_id,
      rx_expiry = (case expiry of None \<Rightarrow> gy_expiry_cfg_disable | Some e \<Rightarrow> e), rx_local_ik = local_ik,
      rx_spks = spks, rx_opks = opks, rx_clock = clock, rx_tried = 0, rx_op = op_zero st\<rparr>"

text \<open>A computation on the stage, run on the stage of the context.\<close>

definition on_op :: "('w gy_recv_ctx \<Rightarrow> ('w opst, 'e, 'a) sm) \<Rightarrow> ('w recvst, 'e, 'a) sm" where
  "on_op f s = map_option (\<lambda>(x, (op1, w1)). (x, ((fst s)\<lparr>rx_op := op1\<rparr>, w1))) (f (fst s) (rx_op (fst s), snd s))"

definition with_ctx :: "('w gy_recv_ctx \<Rightarrow> ('w recvst, 'e, 'a) sm) \<Rightarrow> ('w recvst, 'e, 'a) sm" where
  "with_ctx f s = f (fst s) s"

definition tick :: "('w recvst, 'e, unit) sm" where
  "tick s = Some (Inr (), ((fst s)\<lparr>rx_tried := rx_tried (fst s) + 1\<rparr>, snd s))"

subsection \<open>One session\<close>

definition session_position :: "gy_device_record \<Rightarrow> bytes \<Rightarrow> int" where
  "session_position d i =
     (if d_has_active d \<noteq> 0 \<and> d_active d = i then 0
      else if list_ex (\<lambda>j. j = i) (d_inactive d) then 1
      else -1)"

definition sess_decrypt ::
    "provider \<Rightarrow> gy_session \<Rightarrow> nat \<Rightarrow> bytes \<Rightarrow> rng \<Rightarrow> (bytes res \<times> bool \<times> gy_session \<times> rng) option" where
  "sess_decrypt L s cap frame r =
     (if is_hybrid (dr_desc (hd_base (s_ratchet s))) then
        map_option (\<lambda>(rc, matched, st, r1). (rc, matched,
            case rc of Inl _ \<Rightarrow> s\<lparr>s_ratchet := st\<rparr> | Inr _ \<Rightarrow> s\<lparr>s_ratchet := st, s_pq_pending := hd_pq_state st\<rparr>, r1))
          (gy_hybrid_dr_decrypt_assoc L (s_ratchet s) cap frame (s_ad s) r)
      else
        map_option (\<lambda>(rc, matched, b, r1). (rc, matched, s\<lparr>s_ratchet := (s_ratchet s)\<lparr>hd_base := b\<rparr>\<rparr>, r1))
          (gy_dr_decrypt_assoc L (hd_base (s_ratchet s)) cap frame (s_ad s) r))"

text \<open>The decryption step of \<open>try_session\<close>: no header match is not owned, a failed payload is.\<close>

definition trial :: "provider \<Rightarrow> gy_session \<Rightarrow> nat \<Rightarrow> bytes \<Rightarrow> ('w opst, gy_err \<times> bool, bytes \<times> gy_session) sm" where
  "trial L s cap frame q =
     map_option (\<lambda>(rc, matched, s1, r1).
         ((if \<not> matched then Inl (GY_ERR_VERIFY, False)
           else case rc of Inl _ \<Rightarrow> Inl (GY_ERR_VERIFY, True) | Inr pt \<Rightarrow> Inr (pt, s1)),
          (fst q, (fst (snd q), r1))))
       (sess_decrypt L s cap frame (snd (snd q)))"

definition stamp :: "'w gy_recv_ctx \<Rightarrow> gy_session \<Rightarrow> ('w opst, 'e, gy_session) sm" where
  "stamp c s q = Some (Inr (case rx_clock c of None \<Rightarrow> s | Some now \<Rightarrow> s\<lparr>s_last_recv_at := now (fst (snd q))\<rparr>), q)"

definition try_session ::
    "provider \<Rightarrow> 'w gy_recv_ctx \<Rightarrow> bytes \<Rightarrow> bytes \<Rightarrow> bytes \<Rightarrow> bool \<Rightarrow> bytes \<Rightarrow> nat \<Rightarrow> ('w opst, gy_err \<times> bool, bytes) sm" where
  "try_session L c user_id device_id i from_inactive frame cap =
     sbind (s_map_err (\<lambda>e. (e, False)) (s_load (\<lambda>op1. gy_op_load_session L op1 i))) (\<lambda>found.
     case found of None \<Rightarrow> s_res (Inl (GY_ERR_VERIFY, False))
     | Some s \<Rightarrow>
         sbind (trial L s cap frame) (\<lambda>(pt, s1).
         sbind (stamp c (s1\<lparr>s_nrecv := s_nrecv s1 + 1\<rparr>)) (\<lambda>s2.
           s_map_err (\<lambda>e. (e, True))
             (sbind (s_put (\<lambda>op1. gy_op_put_session op1 s2)) (\<lambda>_.
              sbind (if from_inactive then gy_device_activate_session L user_id device_id i else s_res (Inr ())) (\<lambda>_.
                s_res (Inr pt)))))))"

subsection \<open>Double Ratchet messages\<close>

text \<open>Only a session that owns the frame ends the search.\<close>

fun try_sessions ::
    "provider \<Rightarrow> bytes \<Rightarrow> bytes \<Rightarrow> (bytes \<times> bool) list \<Rightarrow> bytes \<Rightarrow> nat \<Rightarrow> ('w recvst, gy_err, bytes) sm" where
  "try_sessions L user_id device_id [] frame cap q = Some (Inl GY_ERR_VERIFY, q)"
| "try_sessions L user_id device_id ((i, from_inactive) # rest) frame cap q =
     (case sbind tick (\<lambda>_. on_op (\<lambda>c. try_session L c user_id device_id i from_inactive frame cap)) q of
        None \<Rightarrow> None
      | Some (Inr pt, q1) \<Rightarrow> Some (Inr pt, q1)
      | Some (Inl (e, owned), q1) \<Rightarrow>
          if owned then Some (Inl e, q1) else try_sessions L user_id device_id rest frame cap q1)"

definition recv_dr :: "provider \<Rightarrow> bytes \<Rightarrow> bytes \<Rightarrow> bytes \<Rightarrow> nat \<Rightarrow> ('w recvst, gy_err, bytes) sm" where
  "recv_dr L user_id device_id frame cap =
     sbind (s_res (gy_devrec_key L user_id device_id)) (\<lambda>dk.
     sbind (on_op (\<lambda>_. s_load (\<lambda>op1. gy_op_load_device_any L op1 dk))) (\<lambda>found.
     case found of None \<Rightarrow> s_res (Inl GY_ERR_VERIFY)
     | Some (dev, _) \<Rightarrow>
         try_sessions L user_id device_id
           ((if d_has_active (hdv_base dev) \<noteq> 0 then [(d_active (hdv_base dev), False)] else []) @
            map (\<lambda>i. (i, True)) (d_inactive (hdv_base dev))) frame cap))"

subsection \<open>Initial messages\<close>

definition parse_base_keys :: "gy_suite_desc \<Rightarrow> bytes \<Rightarrow> gy_public_key \<times> gy_public_key" where
  "parse_base_keys desc inner =
     (let cpl = curve_pk_len desc; kw = 4 + 1 + cpl in
      (\<lparr>pub_pkid = 0, pub_curve_type = inner ! (2 + 4), pub_pk = take cpl (drop (2 + 5) inner)\<rparr>,
       \<lparr>pub_pkid = 0, pub_curve_type = inner ! (2 + kw + 4), pub_pk = take cpl (drop (2 + kw + 5) inner)\<rparr>))"

text \<open>The current signed prekey, then the retained ones; the first that answers.\<close>

fun respond_first ::
    "provider \<Rightarrow> gy_suite_desc \<Rightarrow> gy_keypair option \<Rightarrow> gy_keypair list \<Rightarrow> gy_keypair list \<Rightarrow> bytes
      \<Rightarrow> ((gy_dr_secrets \<times> bytes \<times> gy_x3dh_opk_ref) \<times> gy_keypair) res" where
  "respond_first L desc local_ik opks [] inner = Inl GY_ERR_VERIFY"
| "respond_first L desc local_ik opks (spk # spks) inner =
     (case (case local_ik of None \<Rightarrow> Inl GY_ERR_ARG
            | Some ik \<Rightarrow> gy_x3dh_respond L desc \<lparr>xl_ik = ik, xl_spk = spk, xl_opks = opks\<rparr> inner) of
        Inr z \<Rightarrow> Inr (z, spk)
      | Inl _ \<Rightarrow> respond_first L desc local_ik opks spks inner)"

text \<open>Response, first session state and first frame; every failure is the uniform error.\<close>

definition respond_message ::
    "provider \<Rightarrow> 'w gy_recv_ctx \<Rightarrow> gy_public_key \<Rightarrow> gy_public_key \<Rightarrow> bytes \<Rightarrow> bytes \<Rightarrow> nat
      \<Rightarrow> (bytes \<times> gy_session \<times> gy_x3dh_opk_ref) comp" where
  "respond_message L c ika ekb inner frame cap r =
     (case respond_first L (rx_desc c) (rx_local_ik c) (rx_opks c) (rx_spks c) inner of
        Inl _ \<Rightarrow> Some (Inl GY_ERR_VERIFY, r)
      | Inr ((secrets, ad, opk_ref), spk) \<Rightarrow>
          (case gy_session_id (rx_desc c) ika ekb
                  (session_new ((hd_zero (rx_desc c) (rx_aead_id c))\<lparr>hd_base :=
                     gy_dr_init_bob (rx_desc c) (rx_aead_id c) secrets spk\<rparr>) ad) of
             Inl _ \<Rightarrow> Some (Inl GY_ERR_VERIFY, r)
           | Inr s \<Rightarrow>
               (case gy_dr_decrypt L (hd_base (s_ratchet s)) cap frame (s_ad s) r of
                  None \<Rightarrow> None
                | Some (Inl _, _, r1) \<Rightarrow> Some (Inl GY_ERR_VERIFY, r1)
                | Some (Inr pt, b, r1) \<Rightarrow>
                    Some (Inr (pt, s\<lparr>s_ratchet := (s_ratchet s)\<lparr>hd_base := b\<rparr>, s_nrecv := 1\<rparr>, opk_ref), r1))))"

text \<open>Staging of an accepted first message: session, session list, consumption of the prekey.\<close>

definition stage_accepted ::
    "provider \<Rightarrow> 'w gy_recv_ctx \<Rightarrow> bytes \<Rightarrow> bytes \<Rightarrow> bytes \<Rightarrow> gy_session \<Rightarrow> gy_x3dh_opk_ref \<Rightarrow> ('w opst, gy_err, bytes) sm" where
  "stage_accepted L c user_id device_id pt s opk_ref =
     sbind (stamp c s) (\<lambda>s1.
     sbind (s_put (\<lambda>op1. gy_op_put_session op1 s1)) (\<lambda>_.
     sbind (gy_device_insert_session L user_id device_id (s_id s1)) (\<lambda>_.
     sbind (if ref_present opk_ref \<noteq> 0 then s_put (\<lambda>op1. gy_op_consume_opk op1 (ref_pkid opk_ref)) else s_res (Inr ())) (\<lambda>_.
       s_res (Inr pt)))))"

text \<open>A known base key routes to its session; a fresh one records the sender, then answers.\<close>

definition recv_init_base ::
    "provider \<Rightarrow> 'w gy_recv_ctx \<Rightarrow> bytes \<Rightarrow> bytes \<Rightarrow> gy_public_key \<Rightarrow> gy_public_key \<Rightarrow> bytes \<Rightarrow> bytes \<Rightarrow> bytes \<Rightarrow> nat
      \<Rightarrow> ('w opst, gy_err, bytes) sm" where
  "recv_init_base L c user_id device_id ika ekb sid inner frame cap =
     sbind (s_res (gy_devrec_key L user_id device_id)) (\<lambda>dk.
     sbind (s_load (\<lambda>op1. gy_op_load_device L op1 dk)) (\<lambda>found.
     let pos = (case found of None \<Rightarrow> -1 | Some dev \<Rightarrow> session_position dev sid) in
     if pos \<ge> 0 then
       s_map_err fst (try_session L c user_id device_id sid (pos = 1) frame cap)
     else
       sbind (s_map_err fst (gy_conditional_update L (suite_id (rx_desc c)) user_id device_id ika False)) (\<lambda>_.
       sbind (s_comp (respond_message L c ika ekb inner frame cap)) (\<lambda>(pt, s, opk_ref).
         stage_accepted L c user_id device_id pt s opk_ref))))"

definition recv_init :: "provider \<Rightarrow> bytes \<Rightarrow> bytes \<Rightarrow> bytes \<Rightarrow> nat \<Rightarrow> ('w recvst, gy_err, bytes) sm" where
  "recv_init L user_id device_id inner cap = on_op (\<lambda>c.
     let desc = rx_desc c; prefix_len = 2 + 2 * (4 + 1 + curve_pk_len desc) + 16 in
     if length inner < prefix_len then s_res (Inl GY_ERR_VERIFY)
     else
       let ctlen = unat (gy_be32_get (drop (prefix_len - 4) inner)) in
       if ctlen = 0 \<or> length inner < prefix_len + ctlen then s_res (Inl GY_ERR_VERIFY)
       else
         let (ika, ekb) = parse_base_keys desc inner; frame = take ctlen (drop prefix_len inner) in
         case gy_session_id desc ika ekb (session_new (hd_zero desc 0) []) of
           Inl _ \<Rightarrow> s_res (Inl GY_ERR_VERIFY)
         | Inr s0 \<Rightarrow> recv_init_base L c user_id device_id ika ekb (s_id s0) inner frame cap)"

subsection \<open>Entry\<close>

definition recv_process :: "provider \<Rightarrow> bytes \<Rightarrow> bytes \<Rightarrow> bytes \<Rightarrow> nat \<Rightarrow> ('w recvst, gy_err, bytes) sm" where
  "recv_process L user_id device_id msg cap = with_ctx (\<lambda>c.
      if length msg < 3 then s_res (Inl GY_ERR_VERIFY)
      else if msg ! 0 \<noteq> GY_WIRE_VERSION \<or> msg ! 1 \<noteq> suite_id (rx_desc c) then s_res (Inl GY_ERR_VERIFY)
      else
        let inner = drop 3 msg in
        if length inner < 2 \<or> inner ! 0 \<noteq> msg ! 0 \<or> inner ! 1 \<noteq> msg ! 1 then s_res (Inl GY_ERR_VERIFY)
        else if msg ! 2 = GY_MSG_INIT then recv_init L user_id device_id inner cap
        else if msg ! 2 = GY_MSG_DR then recv_dr L user_id device_id inner cap
        else s_res (Inl GY_ERR_VERIFY))"

text \<open>The transaction around a receive: commit on success, abort on any error.\<close>

definition recv_begin :: "'w gy_recv_ctx \<Rightarrow> 'w gy_recv_ctx" where
  "recv_begin c = c\<lparr>rx_tried := 0, rx_op := gy_op_begin (rx_op c) (rx_store c)\<rparr>"

definition recv_end :: "(gy_err + bytes) \<times> 'w recvst \<Rightarrow> (gy_err + bytes) \<times> 'w recvst" where
  "recv_end z = (case z of
       (Inl e, (c, w)) \<Rightarrow> (Inl e, (c\<lparr>rx_op := gy_op_abort (rx_op c)\<rparr>, w))
     | (Inr pt, (c, w)) \<Rightarrow>
         (case gy_op_commit (rx_op c) w of (x, op1, w1) \<Rightarrow>
            (case x of Inl e \<Rightarrow> Inl e | Inr _ \<Rightarrow> Inr pt, (c\<lparr>rx_op := op1\<rparr>, w1))))"

definition gy_recv :: "provider \<Rightarrow> bytes \<Rightarrow> bytes \<Rightarrow> bytes \<Rightarrow> nat \<Rightarrow> ('w recvst, gy_err, bytes) sm" where
  "gy_recv L user_id device_id msg cap q =
     map_option recv_end (recv_process L user_id device_id msg cap (recv_begin (fst q), snd q))"

subsection \<open>Hybrid receive\<close>

definition hybrid_parse_base_keys ::
    "gy_suite_desc \<Rightarrow> bytes \<Rightarrow> gy_hybrid_identity_public_key \<times> gy_public_key" where
  "hybrid_parse_base_keys desc inner =
     (let cpl = curve_pk_len desc; ekl = kem_pk_len desc; dpl = dsa_pk_len desc;
          ik_wire = 4 + 1 + cpl + ekl + dpl; o1 = 2; o2 = o1 + ik_wire in
      (\<lparr>hi_base = \<lparr>hp_curve = \<lparr>pub_pkid = gy_be32_get (drop o1 inner), pub_curve_type = inner ! (o1 + 4),
            pub_pk = take cpl (drop (o1 + 5) inner)\<rparr>,
          hp_mlkem_ek = take ekl (drop (o1 + 5 + cpl) inner)\<rparr>,
        hi_mldsa_pk = take dpl (drop (o1 + 5 + cpl + ekl) inner)\<rparr>,
       \<lparr>pub_pkid = gy_be32_get (drop o2 inner), pub_curve_type = inner ! (o2 + 4),
        pub_pk = take cpl (drop (o2 + 5) inner)\<rparr>))"

fun hybrid_respond_first ::
    "provider \<Rightarrow> gy_suite_desc \<Rightarrow> gy_hybrid_identity_keypair \<Rightarrow> gy_hybrid_keypair list \<Rightarrow> gy_hybrid_signed_prekey list
      \<Rightarrow> bytes \<Rightarrow> ((gy_dr_secrets \<times> bytes \<times> gy_x3dh_opk_ref \<times> u32) \<times> gy_hybrid_keypair) res" where
  "hybrid_respond_first L desc hik hopks [] inner = Inl GY_ERR_VERIFY"
| "hybrid_respond_first L desc hik hopks (hspk # hspks) inner =
     (case gy_hybrid_x3dh_respond L desc
             \<lparr>hxl_ik = hik, hxl_spk = hspk_kp hspk, hxl_spk_flags = hspk_flags hspk, hxl_opks = hopks\<rparr> inner of
        Inr z \<Rightarrow> Inr (z, hspk_kp hspk)
      | Inl _ \<Rightarrow> hybrid_respond_first L desc hik hopks hspks inner)"

definition hybrid_respond_message ::
    "provider \<Rightarrow> gy_suite_desc \<Rightarrow> gy_hybrid_identity_keypair \<Rightarrow> gy_hybrid_signed_prekey list \<Rightarrow> gy_hybrid_keypair list
      \<Rightarrow> gy_hybrid_identity_public_key \<Rightarrow> gy_public_key \<Rightarrow> bytes \<Rightarrow> bytes \<Rightarrow> nat
      \<Rightarrow> (bytes \<times> gy_session \<times> gy_x3dh_opk_ref) comp" where
  "hybrid_respond_message L desc hik hspks hopks ika ekb inner frame cap r =
     (case hybrid_respond_first L desc hik hopks hspks inner of
        Inl _ \<Rightarrow> Some (Inl GY_ERR_VERIFY, r)
      | Inr ((secrets, ad, opk_ref, hflag), spk) \<Rightarrow>
          (case rbind (gy_hybrid_dr_init_bob desc (ucast (and (drop_bit 16 hflag) 0xFF)) secrets spk (and hflag 0xFFFF)
                        (hp_mlkem_ek (hi_base ika))) (\<lambda>ratchet.
                  gy_session_id desc (hp_curve (hi_base ika)) ekb (session_new ratchet ad)) of
             Inl _ \<Rightarrow> Some (Inl GY_ERR_VERIFY, r)
           | Inr s \<Rightarrow>
               (case gy_hybrid_dr_decrypt L (s_ratchet s) cap frame (s_ad s) r of
                  None \<Rightarrow> None
                | Some (Inl _, _, r1) \<Rightarrow> Some (Inl GY_ERR_VERIFY, r1)
                | Some (Inr pt, st, r1) \<Rightarrow>
                    Some (Inr (pt, s\<lparr>s_ratchet := st, s_pq_pending := hd_pq_state st, s_nrecv := 1\<rparr>, opk_ref), r1))))"

definition hybrid_recv_init ::
    "provider \<Rightarrow> gy_hybrid_identity_keypair \<Rightarrow> gy_hybrid_signed_prekey list \<Rightarrow> gy_hybrid_keypair list
      \<Rightarrow> bytes \<Rightarrow> bytes \<Rightarrow> bytes \<Rightarrow> nat \<Rightarrow> ('w recvst, gy_err, bytes) sm" where
  "hybrid_recv_init L hik hspks hopks user_id device_id inner cap = on_op (\<lambda>c.
     let desc = rx_desc c; prefix_len = hybrid_prefix_len desc in
     if length inner \<le> prefix_len then s_res (Inl GY_ERR_VERIFY)
     else
       let (ika, ekb) = hybrid_parse_base_keys desc inner; frame = drop prefix_len inner in
       case gy_session_id desc (hp_curve (hi_base ika)) ekb (session_new (hd_zero desc 0) []) of
         Inl _ \<Rightarrow> s_res (Inl GY_ERR_VERIFY)
       | Inr s0 \<Rightarrow>
           sbind (s_res (gy_devrec_key L user_id device_id)) (\<lambda>dk.
           sbind (s_load (\<lambda>op1. gy_op_load_hybrid_device L op1 dk)) (\<lambda>found.
           let pos = (case found of None \<Rightarrow> -1 | Some dev \<Rightarrow> session_position (hdv_base dev) (s_id s0)) in
           if pos \<ge> 0 then
             s_map_err fst (try_session L c user_id device_id (s_id s0) (pos = 1) frame cap)
           else
             sbind (s_map_err fst (gy_hybrid_conditional_update L (suite_id desc) user_id device_id ika False)) (\<lambda>_.
             sbind (s_comp (hybrid_respond_message L desc hik hspks hopks ika ekb inner frame cap)) (\<lambda>(pt, s, opk_ref).
               stage_accepted L c user_id device_id pt s opk_ref)))))"

definition gy_hybrid_recv ::
    "provider \<Rightarrow> gy_hybrid_identity_keypair \<Rightarrow> gy_hybrid_signed_prekey list \<Rightarrow> gy_hybrid_keypair list
      \<Rightarrow> bytes \<Rightarrow> bytes \<Rightarrow> bytes \<Rightarrow> nat \<Rightarrow> ('w recvst, gy_err, bytes) sm" where
  "gy_hybrid_recv L hik hspks hopks user_id device_id msg cap q =
     (if hspks = [] then Some (Inl GY_ERR_ARG, q)
      else if length msg < 3 \<or> msg ! 0 \<noteq> GY_WIRE_VERSION \<or> msg ! 1 \<noteq> suite_id (rx_desc (fst q)) then Some (Inl GY_ERR_VERIFY, q)
      else
        let inner = drop 3 msg in
        if length inner < 2 \<or> inner ! 0 \<noteq> msg ! 0 \<or> inner ! 1 \<noteq> msg ! 1 then Some (Inl GY_ERR_VERIFY, q)
        else map_option recv_end
          ((if msg ! 2 = GY_MSG_INIT then hybrid_recv_init L hik hspks hopks user_id device_id inner cap
            else if msg ! 2 = GY_MSG_DR then recv_dr L user_id device_id inner cap
            else s_res (Inl GY_ERR_VERIFY)) (recv_begin (fst q), snd q)))"

subsection \<open>A receive only stages before its commit\<close>

definition recv_rel ::
    "provider \<Rightarrow> 'w gy_store \<Rightarrow> ('w \<Rightarrow> 'v) \<Rightarrow> 'w recvst \<Rightarrow> 'w recvst \<Rightarrow> bool" where
  "recv_rel L st view s s' \<longleftrightarrow> stage_rel L st view (rx_op (fst s), snd s) (rx_op (fst s'), snd s')"

interpretation received: state_preorder "recv_rel L st view" for L st view
  by unfold_locales (auto simp: recv_rel_def staged.rel_refl elim: staged.rel_trans)

lemma on_op_keeps: "(\<And>c. staging L st view (f c)) \<Longrightarrow> keeps (recv_rel L st view) (on_op f)"
  by (fastforce simp: keeps_def recv_rel_def on_op_def)

lemma with_ctx_keeps: "(\<And>c. keeps (recv_rel L st view) (f c)) \<Longrightarrow> keeps (recv_rel L st view) (with_ctx f)"
  unfolding keeps_def with_ctx_def by blast

lemma tick_keeps: "keeps (recv_rel L st view) tick"
  by (simp add: keeps_def recv_rel_def tick_def staged.rel_refl)

lemma trial_staging [staging_intros]: "staging L st view (trial L s cap frame)"
  by (auto simp: keeps_def stage_rel_def trial_def)

lemma stamp_staging [staging_intros]: "staging L st view (stamp c s)"
  by (simp add: keeps_def stamp_def staged.rel_refl)

lemma try_session_staging [staging_intros]:
  "loads_keep st view \<Longrightarrow> staging L st view (try_session L c u i sid inactive frame cap)"
  unfolding try_session_def by (intro staging_intros)

lemma stage_accepted_staging [staging_intros]:
  "loads_keep st view \<Longrightarrow> staging L st view (stage_accepted L c u i pt s ref)"
  unfolding stage_accepted_def by (intro staging_intros)

lemma try_sessions_keeps:
  fixes st :: "'w gy_store"
  assumes "loads_keep st view"
  shows "keeps (recv_rel L st view) (try_sessions L u i ids frame cap)"
proof (induction ids)
  case Nil
  then show ?case by (simp add: keeps_def received.rel_refl)
next
  case (Cons p ids)
  obtain j inactive where p: "p = (j, inactive)" by (cases p)
  have one: "keeps (recv_rel L st view) (sbind tick (\<lambda>_. on_op (\<lambda>c. try_session L c u i j inactive frame cap)))"
    by (intro received.keeps_bind tick_keeps on_op_keeps staging_intros assms)
  show ?case
    unfolding keeps_def
  proof (intro allI impI)
    fix s s' :: "'w recvst" and x assume run: "try_sessions L u i (p # ids) frame cap s = Some (x, s')"
    then obtain y s1 where y: "sbind tick (\<lambda>_. on_op (\<lambda>c. try_session L c u i j inactive frame cap)) s = Some (y, s1)"
      by (auto simp: p split: option.splits)
    have 1: "recv_rel L st view s s1" using one y unfolding keeps_def by blast
    have "s1 = s' \<or> (\<exists>z. try_sessions L u i ids frame cap s1 = Some (z, s'))"
      using run y by (auto simp: p split: sum.splits if_splits)
    then show "recv_rel L st view s s'"
      using 1 Cons.IH received.rel_trans unfolding keeps_def by blast
  qed
qed

lemma recv_keeps:
  assumes "loads_keep st view"
  shows "keeps (recv_rel L st view) (recv_dr L u i frame cap)" "keeps (recv_rel L st view) (recv_init L u i inner cap)"
    "keeps (recv_rel L st view) (hybrid_recv_init L hik hspks hopks u i inner cap)"
    "keeps (recv_rel L st view) (recv_process L u i msg cap)"
proof -
  show 1: "keeps (recv_rel L st view) (recv_dr L u i frame cap)" for frame
    unfolding recv_dr_def by (intro received.keeps_combinators on_op_keeps staging_intros try_sessions_keeps assms)
  have base: "staging L st view (recv_init_base L c u i ika ekb sid inner frame cap)" for c ika ekb sid inner frame
    unfolding recv_init_base_def Let_def by (intro staging_intros assms)
  show 2: "keeps (recv_rel L st view) (recv_init L u i inner cap)" for inner
    unfolding recv_init_def Let_def by (intro on_op_keeps staging_intros base)
  show "keeps (recv_rel L st view) (hybrid_recv_init L hik hspks hopks u i inner cap)"
    unfolding hybrid_recv_init_def Let_def by (intro on_op_keeps staging_intros assms)
  show "keeps (recv_rel L st view) (recv_process L u i msg cap)"
    unfolding recv_process_def Let_def by (intro with_ctx_keeps received.keeps_combinators 1 2)
qed

subsection \<open>Receives are atomic\<close>

lemma recv_end_outcome:
  assumes "keeps (recv_rel L (rx_store c) view) m"
    and "map_option recv_end (m (recv_begin c, w)) = Some (x, (c', w'))"
  obtains op1 w1 where "(op_step L)\<^sup>*\<^sup>* (gy_op_begin (rx_op c) (rx_store c)) op1" "view (fst w1) = view (fst w)"
    "\<And>e. x = Inl e \<Longrightarrow> w' = w1 \<or> gy_op_commit op1 w1 = (Inl e, gy_op_abort op1, w')"
    "\<And>pt. x = Inr pt \<Longrightarrow> gy_op_commit op1 w1 = (Inr (), gy_op_abort op1, w')"
proof -
  obtain y c1 w1 where y: "m (recv_begin c, w) = Some (y, (c1, w1))" "recv_end (y, (c1, w1)) = (x, (c', w'))"
    using assms(2) by auto
  have "recv_rel L (rx_store c) view (recv_begin c, w) (c1, w1)" using assms(1) y(1) unfolding keeps_def by blast
  then have r: "(op_step L)\<^sup>*\<^sup>* (gy_op_begin (rx_op c) (rx_store c)) (rx_op c1)" "view (fst w1) = view (fst w)"
    by (simp_all add: recv_rel_def stage_rel_def recv_begin_def gy_op_begin_def)
  have commit: "\<exists>z w2. gy_op_commit (rx_op c1) w1 = (z, gy_op_abort (rx_op c1), w2)"
    by (simp add: commit_runs_plan split: prod.split)
  show ?thesis
    by (rule that [OF r]) (use y(2) commit in \<open>auto simp: recv_end_def split: sum.splits prod.splits\<close>)
qed

lemma hybrid_recv_shape:
  assumes "gy_hybrid_recv L hik hspks hopks u i msg cap (c, w) = Some (x, (c', w'))"
  obtains e where "x = Inl e" "w' = w" "c' = c"
  | m where "m \<in> {hybrid_recv_init L hik hspks hopks u i (drop 3 msg) cap, recv_dr L u i (drop 3 msg) cap,
        s_res (Inl GY_ERR_VERIFY)}" "map_option recv_end (m (recv_begin c, w)) = Some (x, (c', w'))"
proof (cases "hspks = [] \<or> (length msg < 3 \<or> msg ! 0 \<noteq> GY_WIRE_VERSION \<or> msg ! 1 \<noteq> suite_id (rx_desc c)) \<or>
    (length (drop 3 msg) < 2 \<or> drop 3 msg ! 0 \<noteq> msg ! 0 \<or> drop 3 msg ! 1 \<noteq> msg ! 1)")
  case True
  then show ?thesis using assms that(1) unfolding gy_hybrid_recv_def Let_def fst_conv by (auto split: if_splits)
next
  case False
  then have "map_option recv_end ((if msg ! 2 = GY_MSG_INIT then hybrid_recv_init L hik hspks hopks u i (drop 3 msg) cap
      else if msg ! 2 = GY_MSG_DR then recv_dr L u i (drop 3 msg) cap else s_res (Inl GY_ERR_VERIFY)) (recv_begin c, w)) =
      Some (x, (c', w'))"
    using assms unfolding gy_hybrid_recv_def Let_def fst_conv snd_conv by (simp only: de_Morgan_disj if_False simp_thms)
  then show ?thesis by (rule that(2) [rotated]) simp
qed

text \<open>
  C5. A receive is atomic, classical or hybrid. Whatever the message, a receive that fails has left
  every stored record as it was, unless the failure is a store callback's during the one commit at
  the end; a receive that delivers a plaintext has changed the store by exactly one successful commit
  of a stage that was built from scratch for this message.
\<close>

theorem receive_is_atomic:
  assumes "store_contract (rx_store c) view"
    and "gy_recv L u i msg cap (c, w) = Some (x, (c', w')) \<or>
      gy_hybrid_recv L hik hspks hopks u i msg cap (c, w) = Some (x, (c', w'))"
  shows "(\<forall>e. x = Inl e \<longrightarrow> view (fst w') = view (fst w) \<or>
      (\<exists>op1 w1. (op_step L)\<^sup>*\<^sup>* (gy_op_begin (rx_op c) (rx_store c)) op1 \<and> view (fst w1) = view (fst w) \<and>
        gy_op_commit op1 w1 = (Inl e, gy_op_abort op1, w'))) \<and>
    (\<forall>pt. x = Inr pt \<longrightarrow>
      (\<exists>op1 w1. (op_step L)\<^sup>*\<^sup>* (gy_op_begin (rx_op c) (rx_store c)) op1 \<and> view (fst w1) = view (fst w) \<and>
        gy_op_commit op1 w1 = (Inr (), gy_op_abort op1, w')))"
proof -
  have *: ?thesis if m: "keeps (recv_rel L (rx_store c) view) m"
      "map_option recv_end (m (recv_begin c, w)) = Some (x, (c', w'))" for m
  proof -
    obtain op1 w1 where o: "(op_step L)\<^sup>*\<^sup>* (gy_op_begin (rx_op c) (rx_store c)) op1" "view (fst w1) = view (fst w)"
      "\<And>e. x = Inl e \<Longrightarrow> w' = w1 \<or> gy_op_commit op1 w1 = (Inl e, gy_op_abort op1, w')"
      "\<And>pt. x = Inr pt \<Longrightarrow> gy_op_commit op1 w1 = (Inr (), gy_op_abort op1, w')"
      by (rule recv_end_outcome [OF m]) metis
    show ?thesis using o by metis
  qed
  from assms(2) show ?thesis
  proof
    assume "gy_recv L u i msg cap (c, w) = Some (x, (c', w'))"
    then have "map_option recv_end (recv_process L u i msg cap (recv_begin c, w)) = Some (x, (c', w'))"
      by (simp only: gy_recv_def fst_conv snd_conv)
    then show ?thesis by (rule * [OF recv_keeps(4) [OF contract_loads [OF assms(1)]]])
  next
    assume "gy_hybrid_recv L hik hspks hopks u i msg cap (c, w) = Some (x, (c', w'))"
    then show ?thesis
    proof (cases rule: hybrid_recv_shape)
      case (1 e)
      then show ?thesis by simp
    next
      case (2 m)
      have "keeps (recv_rel L (rx_store c) view) m"
        using 2(1) by (auto intro: recv_keeps [OF contract_loads [OF assms(1)]] received.keeps_res simp del: split_paired_All)
      then show ?thesis using * 2(2) by blast
    qed
  qed
qed

end
