(* ===== verification/GY_Delivery.thy ===== *)
theory GY_Delivery
  imports GY_Recv GY_DRSync
begin

text \<open>
  The session layer end to end: a first message that \<open>gy_send_initiate\<close> builds is delivered by
  \<open>gy_recv\<close>. The handshake, ratchet and storage theories meet here. Both ends run on a reliable store:
  one whose loads return what is stored and whose other callbacks succeed.
\<close>

subsection \<open>Reliable stores\<close>

definition reliable_store :: "'w gy_store \<Rightarrow> ('w \<Rightarrow> gy_rec_kind \<times> bytes \<Rightarrow> bytes) \<Rightarrow> bool" where
  "reliable_store st view \<longleftrightarrow> store_contract st view \<and>
     (\<forall>k i cap w. load_record st k i cap w = (Inr (view (fst w) (k, i)), w)) \<and>
     (\<forall>k i b w. \<exists>w'. store_record st k i b w = (Inr (), w')) \<and>
     (\<forall>k i w. \<exists>w'. delete_record st k i w = (Inr (), w')) \<and>
     (\<forall>p w. \<exists>w'. consume_opk st p w = (Inr (), w'))"

lemma reliable_contract: "reliable_store st view \<Longrightarrow> store_contract st view"
  by (simp add: reliable_store_def)

lemma reliable_loads: "reliable_store st view \<Longrightarrow> load_record st k i cap w = (Inr (view (fst w) (k, i)), w)"
  unfolding reliable_store_def by blast

lemma reliable_acts:
  assumes "reliable_store st view"
  shows "\<exists>w'. run_acts st as w = (Inr (), w')"
proof (induction as arbitrary: w)
  case Nil
  then show ?case by simp
next
  case (Cons a as)
  have "\<exists>w1. run_act st a w = (Inr (), w1)"
    using assms by (cases w; cases a) (auto simp: reliable_store_def run_act_def)
  then show ?case using Cons.IH by fastforce
qed

lemma reliable_commit:
  assumes "reliable_store (op_store op1) view"
  shows "\<exists>w'. gy_op_commit op1 w = (Inr (), gy_op_abort op1, w')"
proof -
  obtain w' where "run_acts (op_store op1) (commit_plan op1) w = (Inr (), w')" using reliable_acts [OF assms] by blast
  then show ?thesis by (simp add: commit_runs_plan)
qed

lemma reliable_absent:
  assumes "reliable_store (op_store op1) view" "stage_lookup op1 k i = None" "view (fst w) (k, i) = []"
  shows "load_with op1 k i dec w = (Inr None, w)"
  using assms by (simp add: load_with_def op_load_def reliable_loads [OF assms(1)])

subsection \<open>Room in the stage\<close>

lemma find_slot_None: "find_slot p n avail rs = None \<Longrightarrow> avail = None \<and> None \<notin> set rs"
  by (induction p n avail rs rule: find_slot.induct) (auto split: if_splits option.splits)

lemma in_use_room: "length (in_use rs) < length rs \<Longrightarrow> None \<in> set rs"
  by (induction rs) (auto simp: in_use_def split: if_splits)

lemma in_use_update: "length (in_use (rs[m := Some x])) \<le> Suc (length (in_use rs))"
proof (induction rs arbitrary: m)
  case Nil
  then show ?case by simp
next
  case (Cons r rs)
  then show ?case by (cases m; cases r) (auto simp: in_use_def le_SucI)
qed

lemma put_rec_room:
  assumes "op_inv op1" "length (in_use (op_rec op1)) < GY_OP_MAX_RECORDS"
  shows "\<exists>op2. put_rec op1 k i b = Inr op2 \<and> length (in_use (op_rec op2)) \<le> Suc (length (in_use (op_rec op1)))"
proof -
  have "None \<in> set (op_rec op1)" using in_use_room [of "op_rec op1"] assms by (simp add: op_inv_def)
  then obtain m where "rec_slot op1 k i = Some m"
    using find_slot_None [of _ 0 None "op_rec op1"] unfolding rec_slot_def by blast
  then show ?thesis using in_use_update by (simp add: put_rec_def)
qed

subsection \<open>A peer is recorded at the first contact\<close>

text \<open>
  The stage holds the device record of the peer under its key, with the identity \<open>ik\<close> and the sessions
  \<open>ids\<close>, at most \<open>n\<close> records in all and no deferred action.
\<close>

definition peer_staged ::
    "provider \<Rightarrow> gy_suite_desc \<Rightarrow> 'w gy_store \<Rightarrow> bytes \<Rightarrow> gy_public_key \<Rightarrow> nat \<Rightarrow> bytes list \<Rightarrow> 'w gy_op \<Rightarrow> bool" where
  "peer_staged L d st dk ik n ids op1 \<longleftrightarrow> op_inv op1 \<and> op_store op1 = st \<and> op_defer op1 = [] \<and>
     length (in_use (op_rec op1)) \<le> n \<and>
     (\<exists>b dev. find_rec GY_REC_DEVICE dk (op_rec op1) = Some b \<and> length b \<ge> 3 \<and> b ! 2 = suite_id d \<and>
        gy_device_record_decode L b = Inr dev \<and> d_suite_id dev = suite_id d \<and>
        dev_ids dev = ids \<and> dev_inv dev \<and> ik_equal d (d_ik dev) ik)"

lemma devrec_key_len: "hash_lengths L \<Longrightarrow> gy_devrec_key L u i = Inr dk \<Longrightarrow> length dk = 64"
  by (auto simp: gy_devrec_key_def gy_sha512_def hash_lengths_def split: if_splits)

lemma put_device_staged:
  assumes op1: "op_inv op1" "op_store op1 = st" "op_defer op1 = []" "length (in_use (op_rec op1)) \<le> n" "n < GY_OP_MAX_RECORDS"
    and dk: "length dk = 64" and d: "gy_suite_desc L (suite_id d) = Some d"
    and dev: "d_suite_id dev = suite_id d" "device_ok L dev" "dev_inv (device_full L dev)" "ik_equal d (d_ik (device_full L dev)) ik"
  shows "\<exists>op2. gy_op_put_device L op1 dev dk = Inr op2 \<and>
     peer_staged L d st dk ik (Suc n) (dev_ids (device_full L dev)) op2 \<and> op_sess op2 = op_sess op1"
proof -
  have d': "gy_suite_desc L (d_suite_id dev) = Some d" unfolding dev(1) by (rule d)
  define b where "b = [GY_REC_FMT_V1, 0, d_suite_id dev] @ devrec_bytes d dev"
  have enc: "gy_device_record_encode L GY_DEVICE_BLOB_MAX dev = Inr b"
    using length_devrec_bytes [OF _ d, of dev] dev(2) unfolding device_encode [OF d'] b_def Let_def device_ok_def
    by simp
  obtain op2 where op2: "put_rec op1 GY_REC_DEVICE dk b = Inr op2" "length (in_use (op_rec op2)) \<le> Suc (length (in_use (op_rec op1)))"
    using put_rec_room [OF op1(1)] op1(4,5) by (meson le_less_trans)
  have ne: "b \<noteq> []" by (simp add: b_def)
  note sp = put_rec_spec [OF op1(1) op2(1) _ ne]
  have "gy_device_record_decode L b = Inr (device_full L dev)" by (rule device_blob.dec_enc [OF dev(2) enc])
  moreover have "find_rec GY_REC_DEVICE dk (op_rec op2) = Some b" using sp(4) [of GY_REC_DEVICE dk] by simp
  moreover have "length b \<ge> 3" "b ! 2 = suite_id d" using dev(1) by (simp_all add: b_def)
  moreover have "d_suite_id (device_full L dev) = suite_id d"
    unfolding device_full_def d' using dev(1) by simp
  ultimately have "peer_staged L d st dk ik (Suc n) (dev_ids (device_full L dev)) op2"
    using sp(1-3) op1 op2(2) dev(3,4) by (auto simp: peer_staged_def)
  moreover have "gy_op_put_device L op1 dev dk = Inr op2"
    using dk enc op2(1) by (auto simp: gy_op_put_device_def session_consts)
  ultimately show ?thesis using sp(5) by auto
qed

lemma put_user_staged:
  assumes "peer_staged L d st dk ik n ids op1" "n < GY_OP_MAX_RECORDS" "user_ok usr"
  shows "\<exists>op2. gy_op_put_user op1 usr = Inr op2 \<and> peer_staged L d st dk ik (Suc n) ids op2 \<and> op_sess op2 = op_sess op1"
proof -
  have inv: "op_inv op1" "length (in_use (op_rec op1)) \<le> n" using assms(1) by (simp_all add: peer_staged_def)
  obtain b where b: "gy_user_record_encode GY_USER_BLOB_MAX usr = Inr b" using user_blob.enc_ok [OF assms(3)] by blast
  have ne: "b \<noteq> []" using b by (auto simp: user_encode user_bytes_def split: if_splits)
  obtain op2 where op2: "put_rec op1 GY_REC_USER (u_user_id usr) b = Inr op2"
      "length (in_use (op_rec op2)) \<le> Suc (length (in_use (op_rec op1)))"
    using put_rec_room [OF inv(1)] inv(2) assms(2) by (meson le_less_trans)
  have put: "gy_op_put_user op1 usr = Inr op2" using b op2(1) by (simp add: gy_op_put_user_def)
  have find: "find_rec GY_REC_DEVICE dk (op_rec op2) = find_rec GY_REC_DEVICE dk (op_rec op1)"
    by (rule put_user_keeps_devices(1) [OF inv(1) put])
  have "op_inv op2" "op_store op2 = op_store op1" "op_defer op2 = op_defer op1" "op_sess op2 = op_sess op1"
    using put_rec_spec [OF inv(1) op2(1) _ ne] by simp_all
  then show ?thesis using put find assms(1) op2(2) inv(2) by (auto simp: peer_staged_def)
qed

lemma fingerprint_total:
  assumes "suite_ok d" "pub_curve_type ik = curve_type d"
  shows "\<exists>fp. gy_fingerprint d ik = Inr fp \<and> length fp = hash_len d"
proof -
  have "\<exists>e. gy_encode_ec GY_ENCODED_KEY_MAX (pub_curve_type ik) (pub_pk ik) = Inr e"
    using assms by (auto simp: encode_ec_ok suite_ok_def GY_ENCODED_KEY_MAX_def)
  moreover have "\<exists>h. op_hash d m = Inr h \<and> length h = hash_len d" for m using assms(1) by (simp add: suite_ok_def)
  ultimately show ?thesis by (auto simp: gy_fingerprint_def)
qed

lemma fresh_device:
  assumes d: "gy_suite_desc L (suite_id d) = Some d" "suite_ok d" and fp: "length fp = hash_len d"
    and ik: "pub_curve_type ik = curve_type d" "length (pub_pk ik) = curve_pk_len d" and "\<not> ids_out_of_range u i"
  shows "\<exists>dev. gy_device_record_init L (suite_id d) i ik (take (hash_len d) fp) = Inr dev \<and>
    d_suite_id dev = suite_id d \<and> device_ok L dev \<and> dev_inv (device_full L dev) \<and> dev_ids (device_full L dev) = [] \<and>
    ik_equal d (d_ik (device_full L dev)) ik"
proof -
  define dev where "dev = \<lparr>d_suite_id = suite_id d, d_device_id = i,
     d_ik = \<lparr>pub_pkid = pub_pkid ik, pub_curve_type = pub_curve_type ik, pub_pk = take (curve_pk_len d) (pub_pk ik)\<rparr>,
     d_fingerprint = take (hash_len d) fp, d_has_active = 0, d_active = [], d_inactive = [], d_stale = 0, d_stale_at = 0\<rparr>"
  have len: "i \<noteq> []" "length i \<le> 64" "hash_len d \<le> 64"
    using assms by (auto simp: ids_out_of_range_def session_consts suite_ok_def)
  have sid: "d_suite_id dev = suite_id d" by (simp add: dev_def)
  have full: "device_full L dev = devrec_full d dev" unfolding device_full_def sid d(1) by simp
  have "gy_device_record_init L (suite_id d) i ik (take (hash_len d) fp) = Inr dev"
    unfolding gy_device_record_init_def d(1) option.case dev_def using len by (simp add: session_consts)
  moreover have "device_ok L dev"
    unfolding device_ok_def sid d(1) devrec_shape_def using len by (simp add: dev_def session_consts)
  moreover have "dev_inv (devrec_full d dev)" "dev_ids (devrec_full d dev) = []" "ik_equal d (d_ik (devrec_full d dev)) ik"
    using ik by (simp_all add: dev_def devrec_full_def dev_inv_def dev_ids_def ik_equal_def arr_id)
  ultimately show ?thesis using sid full by auto
qed

lemma fresh_update:
  assumes rel: "reliable_store st view" and L: "hash_lengths L" "live_suite L d"
    and ids: "\<not> ids_out_of_range u i" "gy_devrec_key L u i = Inr dk"
    and ik: "pub_curve_type ik = curve_type d" "length (pub_pk ik) = curve_pk_len d"
    and absent: "view (fst w) (GY_REC_DEVICE, dk) = []" "view (fst w) (GY_REC_USER, u) = []"
  shows "\<exists>op2. gy_conditional_update L (suite_id d) u i ik want (gy_op_begin op0 st, w) = Some (Inr (), (op2, w)) \<and>
     peer_staged L d st dk ik 2 [] op2 \<and> op_sess op2 = replicate GY_OP_MAX_SESSIONS None"
proof -
  let ?op = "gy_op_begin op0 st"
  have d: "gy_suite_desc L (suite_id d) = Some d" "suite_ok d" using L(2) by (simp_all add: live_suite_def)
  have none: "stage_lookup ?op k j = None" for k j by (simp add: stage_lookup_slot fresh_op)
  have loads: "gy_op_load_device L ?op dk w = (Inr None, w)" "gy_op_load_user ?op u w = (Inr None, w)"
    unfolding gy_op_load_device_def gy_op_load_user_def
    by (rule reliable_absent [where view = view], simp_all add: fresh_op rel none absent)+
  obtain fp where fp: "gy_fingerprint d ik = Inr fp" "length fp = hash_len d"
    using fingerprint_total [OF d(2) ik(1)] by blast
  obtain dev where dev: "gy_device_record_init L (suite_id d) i ik (take (hash_len d) fp) = Inr dev"
      "d_suite_id dev = suite_id d" "device_ok L dev" "dev_inv (device_full L dev)" "dev_ids (device_full L dev) = []"
      "ik_equal d (d_ik (device_full L dev)) ik"
    using fresh_device [OF d fp(2) ik ids(1)] by blast
  have cd: "conditional_device L (suite_id d) d i ik want None = Inr dev"
    using fp dev(1) by (simp add: conditional_device_def)
  obtain usr where usr: "gy_user_record_init (suite_id d) u = Inr usr" "u_devices usr = []" "u_user_id usr = u"
    using ids(1) by (auto simp: gy_user_record_init_def ids_out_of_range_def)
  obtain usr1 where usr1: "gy_user_device_insert usr i = Inr (usr1, None)" "user_ok usr1"
    using usr ids(1) by (auto simp: gy_user_device_insert_def user_find_def user_ok_def ids_out_of_range_def session_consts)
  have neg: "gy_user_device_index usr i < 0" by (simp add: gy_user_device_index_def user_find_def usr(2))
  have index: "index_device L (suite_id d) u i (?op, w) = Some (Inr usr1, (?op, w))"
    using loads(2) usr(1) usr1(1) neg by (simp add: index_device_def sm_simps)
  have fresh: "length (in_use (op_rec ?op)) \<le> 0" by (simp add: fresh_op)
  obtain opa where opa: "gy_op_put_device L ?op dev dk = Inr opa" "peer_staged L d st dk ik 1 [] opa"
      "op_sess opa = op_sess ?op"
    using put_device_staged [OF fresh_op(1) fresh_op(2) fresh_op(3) fresh _ devrec_key_len [OF L(1) ids(2)] d(1) dev(2,3,4,6)]
      dev(5) by (auto simp: GY_OP_MAX_RECORDS_def)
  obtain op2 where op2: "gy_op_put_user opa usr1 = Inr op2" "peer_staged L d st dk ik 2 [] op2" "op_sess op2 = op_sess opa"
    using put_user_staged [OF opa(2) _ usr1(2)] by (auto simp: GY_OP_MAX_RECORDS_def numeral_2_eq_2)
  have "op_sess ?op = replicate GY_OP_MAX_SESSIONS None" by (simp add: gy_op_begin_def op_clear_def)
  moreover have "gy_conditional_update L (suite_id d) u i ik want (?op, w) = Some (Inr (), (op2, w))"
    unfolding gy_conditional_update_def d(1) option.case using ids ik(1) loads(1) cd index opa(1) op2(1)
    by (simp add: sm_simps)
  ultimately show ?thesis using op2(2,3) opa(3) by auto
qed

subsection \<open>The first session of a peer\<close>

lemma put_session_staged:
  assumes "peer_staged L d st dk ik n ids op1" "op_sess op1 = replicate GY_OP_MAX_SESSIONS None"
    and "session_ok L s" "length (s_id s) = GY_SESSION_ID_LEN"
  shows "\<exists>op2 b. gy_op_put_session op1 s = Inr op2 \<and> peer_staged L d st dk ik n ids op2 \<and>
     find_sess (s_id s) (op_sess op2) = Some b \<and> gy_session_decode L b = Inr (session_full s)"
proof -
  have inv: "op_inv op1" using assms(1) by (simp add: peer_staged_def)
  obtain b where b: "gy_session_encode GY_SESSION_BLOB_MAX s = Inr b" using session_blob.enc_ok [OF assms(3)] by blast
  have "find_slot p 0 None (op_sess op1) \<noteq> None" for p
    using find_slot_None [of p 0 None "op_sess op1"] by (auto simp: assms(2) GY_OP_MAX_SESSIONS_def)
  then obtain m where "find_slot (\<lambda>e. os_id e = arr GY_SESSION_ID_LEN (s_id s)) 0 None (op_sess op1) = Some m" by blast
  then obtain op2 where put: "gy_op_put_session op1 s = Inr op2" using b by (simp add: gy_op_put_session_def)
  note sp = put_session_spec [OF inv put]
  have "find_sess (s_id s) (op_sess op2) = Some b" using sp(5) b assms(4) by (auto simp: arr_id)
  moreover have "peer_staged L d st dk ik n ids op2" using sp(1-4) assms(1) by (auto simp: peer_staged_def)
  ultimately show ?thesis using put session_blob.dec_enc [OF assms(3) b] by blast
qed

lemma insert_first_session:
  assumes peer: "peer_staged L d st dk ik n [] op1" "n < GY_OP_MAX_RECORDS"
    and dk: "gy_devrec_key L u i = Inr dk" "length dk = 64"
    and d: "gy_suite_desc L (suite_id d) = Some d" "\<not> is_hybrid d" and sid: "length sid = GY_SESSION_ID_LEN"
  shows "\<exists>op2. gy_device_insert_session L u i sid (op1, w) = Some (Inr (), (op2, w)) \<and>
     peer_staged L d st dk ik (Suc n) [sid] op2 \<and> op_sess op2 = op_sess op1"
proof -
  obtain b dev where b: "find_rec GY_REC_DEVICE dk (op_rec op1) = Some b" "length b \<ge> 3" "b ! 2 = suite_id d"
      "gy_device_record_decode L b = Inr dev" "d_suite_id dev = suite_id d" "dev_ids dev = []" "dev_inv dev"
      "ik_equal d (d_ik dev) ik"
    and op1: "op_inv op1" "op_store op1 = st" "op_defer op1 = []" "length (in_use (op_rec op1)) \<le> n"
    using peer(1) by (auto simp: peer_staged_def)
  let ?h = "\<lparr>hdv_base = dev, hdv_mlkem_ek = [], hdv_mldsa_pk = []\<rparr>"
  have "device_any_decode L b = Inr (?h, False)"
    unfolding device_any_decode_def b(3) d(1) option.case using b(2,4) d(2) by simp
  then have load: "gy_op_load_device_any L op1 dk w = (Inr (Some (?h, False)), w)"
    unfolding gy_op_load_device_any_def using b(1,2) by (intro staged_load) auto
  define dev' where "dev' = dev\<lparr>d_active := sid, d_has_active := 1\<rparr>"
  have z: "d_has_active dev = 0" "d_inactive dev = []" using b(6) by (auto simp: dev_ids_def split: if_splits)
  have ins: "gy_device_session_insert dev sid = Inr (dev', None)"
    using z by (simp add: gy_device_session_insert_def device_has_id_def dev'_def)
  have wf: "devrec_wf dev" "device_ok L dev" "device_full L dev = dev" using device_decode_wf [OF b(4)] by simp_all
  have full: "devrec_full d dev = dev" using wf(3) unfolding device_full_def b(5) d(1) by simp
  have "(d_ik dev)\<lparr>pub_pk := arr (curve_pk_len d) (pub_pk (d_ik dev))\<rparr> = d_ik dev"
    using arg_cong [OF full, of d_ik] by (simp add: devrec_full_def)
  then have "devrec_full d dev' = dev'"
    using z(2) sid by (simp add: devrec_full_def dev'_def arr_id GY_SESSION_ID_LEN_def)
  moreover have sid': "d_suite_id dev' = suite_id d" using b(5) by (simp add: dev'_def)
  ultimately have full': "device_full L dev' = dev'" unfolding device_full_def sid' d(1) option.case by simp
  have ok: "device_ok L dev'" "dev_ids dev' = [sid]" "d_suite_id dev' = suite_id d"
    using wf(2) z sid' by (simp_all add: device_ok_def dev'_def dev_ids_def devrec_shape_def)
  have "dev_inv dev'" using insert_spec(4) [OF b(7) ins] .
  then obtain op2 where op2: "gy_op_put_device L op1 dev' dk = Inr op2"
      "peer_staged L d st dk ik (Suc n) [sid] op2" "op_sess op2 = op_sess op1"
    using put_device_staged [OF op1 peer(2) dk(2) d(1) ok(3,1)] b(8) ok(2)
    unfolding full' by (auto simp: dev'_def)
  have "gy_device_insert_session L u i sid (op1, w) = Some (Inr (), (op2, w))"
    using dk(1) load ins op2(1) by (simp add: gy_device_insert_session_def sm_simps gy_op_put_device_any_def)
  then show ?thesis using op2(2,3) by blast
qed

subsection \<open>The initial message\<close>

lemma session_new_simps:
  "s_ratchet ((session_new z ad)\<lparr>s_base := b, s_id := i\<rparr>) = z" "s_ad ((session_new z ad)\<lparr>s_base := b, s_id := i\<rparr>) = ad"
  by (simp_all add: session_new_def)

lemma session_id_ok:
  assumes "gy_session_id d a e s = Inr s1"
  shows "s1 = s\<lparr>s_base := s_base s1, s_id := s_id s1\<rparr>"
    "suite_ok d \<Longrightarrow> length (s_id s1) = GY_SESSION_ID_LEN \<and> length (s_base s1) \<le> GY_SESSION_HASH_MAX"
    "pub_curve_type a' = pub_curve_type a \<Longrightarrow> pub_pk a' = pub_pk a \<Longrightarrow> pub_curve_type e' = pub_curve_type e \<Longrightarrow>
       pub_pk e' = pub_pk e \<Longrightarrow> gy_session_id d a' e' s' = Inr (s'\<lparr>s_base := s_base s1, s_id := s_id s1\<rparr>)"
proof -
  obtain x y h where o: "pub_curve_type a = curve_type d" "pub_curve_type e = curve_type d"
      "gy_encode_ec 114 (pub_curve_type a) (pub_pk a) = Inr x"
      "gy_encode_ec (114 - length x) (pub_curve_type e) (pub_pk e) = Inr y" "op_hash d (suite_id d # x @ y) = Inr h"
      "s1 = s\<lparr>s_base := take (hash_len d) h, s_id := take GY_SESSION_ID_LEN h\<rparr>"
    using assms by (auto simp: gy_session_id_def rbind_eq_Inr_iff split: if_splits)
  show "s1 = s\<lparr>s_base := s_base s1, s_id := s_id s1\<rparr>" by (simp add: o(6))
  show "length (s_id s1) = GY_SESSION_ID_LEN \<and> length (s_base s1) \<le> GY_SESSION_HASH_MAX" if "suite_ok d"
  proof -
    have "length h = hash_len d" "hash_len d = 32 \<or> hash_len d = 64"
      using that o(5) by (auto simp: suite_ok_def) (metis old.sum.inject(2))+
    then show ?thesis by (auto simp: o(6) session_consts)
  qed
  show "gy_session_id d a' e' s' = Inr (s'\<lparr>s_base := s_base s1, s_id := s_id s1\<rparr>)"
    if "pub_curve_type a' = pub_curve_type a" "pub_pk a' = pub_pk a" "pub_curve_type e' = pub_curve_type e" "pub_pk e' = pub_pk e"
    using that o by (simp add: gy_session_id_def)
qed

lemma init_alice_desc:
  assumes "gy_dr_init_alice L d aead sec rpk r = Some (Inr base, r')"
  shows "dr_desc base = d"
proof (rule init_alice_ok [OF assms])
  assume eq: "base = (dr_zero d aead)\<lparr>dr_dhr := rpk, dr_have_dhr := 1, dr_hks := sd_shared_hka sec,
     dr_nhkr := sd_shared_nhkb sec, dr_have_hks := 1, dr_have_nhkr := 1, dr_dhs := dr_dhs base, dr_rk := dr_rk base,
     dr_cks := dr_cks base, dr_nhks := dr_nhks base, dr_have_cks := 1, dr_have_nhks := 1\<rparr>"
  show "dr_desc base = d" by (subst eq) (simp add: dr_zero_def)
qed

lemma initiate_message_ok:
  assumes "initiate_message L d A aead bundle pt cap r = Some (Inr (out, s), r')" "\<not> is_hybrid d"
  obtains ek r1 sec ad prefix ek' base r2 s0 frame base' where
    "gy_keypair_generate L d r = Some (Inr ek, r1)" "gy_x3dh_initiate L d A bundle ek = (Inr (sec, ad, prefix), ek')"
    "gy_dr_init_alice L d aead sec (pub_pk (pb_spk bundle)) r1 = Some (Inr base, r2)" "dr_desc base = d"
    "gy_session_id d (kp_pub A) (kp_pub ek) (session_new ((hd_zero d aead)\<lparr>hd_base := base\<rparr>) ad) = Inr s0"
    "gy_dr_encrypt L base (cap - length prefix) pt ad r2 = (Inr frame, base', r')"
    "out = take (length prefix - 4) prefix @ gy_be32_put (word_of_nat (length frame)) @ frame"
    "s = s0\<lparr>s_ratchet := (s_ratchet s0)\<lparr>hd_base := base'\<rparr>, s_nsend := s_nsend s0 + 1\<rparr>"
proof -
  obtain ek r1 sec ad prefix base r2 s0 where o: "gy_keypair_generate L d r = Some (Inr ek, r1)"
      "fst (gy_x3dh_initiate L d A bundle ek) = Inr (sec, ad, prefix)"
      "gy_dr_init_alice L d aead sec (pub_pk (pb_spk bundle)) r1 = Some (Inr base, r2)"
      "gy_session_id d (kp_pub A) (kp_pub ek) (session_new ((hd_zero d aead)\<lparr>hd_base := base\<rparr>) ad) = Inr s0"
      "emit_initial L s0 prefix True pt cap r2 = Some (Inr (out, s), r')"
    using assms(1) by (auto simp: initiate_message_def cbind_eq_Some_Inr_iff)
  have desc: "dr_desc base = d" by (rule init_alice_desc [OF o(3)])
  have s0: "s_ratchet s0 = (hd_zero d aead)\<lparr>hd_base := base\<rparr>" "s_ad s0 = ad"
    using session_id_ok(1) [OF o(4)] by (metis session_new_simps)+
  obtain frame base' where e: "gy_dr_encrypt L base (cap - length prefix) pt ad r2 = (Inr frame, base', r')"
      "out = take (length prefix - 4) prefix @ gy_be32_put (word_of_nat (length frame)) @ frame"
      "s = s0\<lparr>s_ratchet := (s_ratchet s0)\<lparr>hd_base := base'\<rparr>, s_nsend := s_nsend s0 + 1\<rparr>"
    using o(5) s0 desc assms(2)
    by (auto simp: emit_initial_def cbind_eq_Some_Inr_iff sess_encrypt_def split: if_splits prod.splits sum.splits)
  show ?thesis using that [OF o(1) _ o(3) desc o(4) e] o(2) by (cases "gy_x3dh_initiate L d A bundle ek") auto
qed

lemma parse_base_keys_eq:
  assumes "7 + (5 + curve_pk_len d) \<le> length inner"
  shows "parse_base_keys d inner = ((parse_pubkey (drop 2 inner) (curve_pk_len d))\<lparr>pub_pkid := 0\<rparr>,
     (parse_pubkey (drop (2 + (4 + 1 + curve_pk_len d)) inner) (curve_pk_len d))\<lparr>pub_pkid := 0\<rparr>)"
  using assms by (simp add: parse_base_keys_def parse_pubkey_def Let_def add.commute)

text \<open>What the receiver reads off an initial message.\<close>

lemma initial_fields:
  assumes "length (pub_pk ik) = curve_pk_len d" "length (pub_pk ek) = curve_pk_len d"
    and prefix: "prefix = x3dh_prefix d ik ek ia ib ic" and frame: "frame \<noteq> []" "length frame < 2 ^ 32"
    and inner: "inner = take (length prefix - 4) prefix @ gy_be32_put (word_of_nat (length frame)) @ frame"
    and n: "n = 2 + 2 * (4 + 1 + curve_pk_len d) + 16"
  shows "n + length frame = length inner" "unat (gy_be32_get (drop (n - 4) inner)) = length frame"
    "take (length frame) (drop n inner) = frame" "inner ! 0 = GY_WIRE_VERSION" "inner ! 1 = suite_id d"
    "parse_base_keys d inner = (ik\<lparr>pub_pkid := 0\<rparr>, ek\<lparr>pub_pkid := 0\<rparr>)"
proof -
  let ?len = "gy_be32_put (word_of_nat (length frame))"
  have p: "length prefix = n"
    using assms(1,2) by (simp add: prefix x3dh_prefix_def length_put_pubkey n)
  have m: "inner = [GY_WIRE_VERSION, suite_id d] @ put_pubkey ik (curve_pk_len d) @ put_pubkey ek (curve_pk_len d) @
      gy_be32_put ia @ gy_be32_put ib @ gy_be32_put ic @ (?len @ frame)"
  proof -
    define hd where "hd = [GY_WIRE_VERSION, suite_id d] @ put_pubkey ik (curve_pk_len d) @ put_pubkey ek (curve_pk_len d) @
      gy_be32_put ia @ gy_be32_put ib @ gy_be32_put ic"
    have "prefix = hd @ gy_be32_put 0" by (simp add: prefix x3dh_prefix_def hd_def)
    then have "take (length prefix - 4) prefix = hd" by simp
    then show ?thesis by (simp add: inner hd_def)
  qed
  note f = x3dh_prefix_fields [OF assms(1,2) m]
  have t: "length (take (n - 4) prefix) = n - 4" "n \<ge> 4" using p n by simp_all
  have inner': "inner = take (n - 4) prefix @ ?len @ frame" using inner p by simp
  show "n + length frame = length inner" using t by (simp add: inner')
  have "gy_be32_get (drop (n - 4) inner) = word_of_nat (length frame)" using t(1) by (simp add: inner')
  then show "unat (gy_be32_get (drop (n - 4) inner)) = length frame"
    using frame(2) by (simp add: unsigned_of_nat take_bit_nat_eq_self)
  show "take (length frame) (drop n inner) = frame" using t by (simp add: inner')
  show "inner ! 0 = GY_WIRE_VERSION" "inner ! 1 = suite_id d" by (simp_all add: m)
  show "parse_base_keys d inner = (ik\<lparr>pub_pkid := 0\<rparr>, ek\<lparr>pub_pkid := 0\<rparr>)"
    using parse_base_keys_eq [of d inner] f(2,3,7) by simp
qed

subsection \<open>The responder\<close>

lemma x3dh_respond_spk:
  assumes "gy_x3dh_respond L d B msg = Inr z"
  shows "gy_be32_get (drop (2 + 2 * (4 + 1 + curve_pk_len d) + 4) msg) = pub_pkid (kp_pub (xl_spk B))"
  using assms by (auto simp: gy_x3dh_respond_def Let_def rbind_eq_Inr_iff split: if_splits)

lemma respond_first_found:
  assumes "gy_x3dh_respond L d \<lparr>xl_ik = ik, xl_spk = spk, xl_opks = opks\<rparr> inner = Inr z"
    and "\<forall>k \<in> set newer. pub_pkid (kp_pub k) \<noteq> pub_pkid (kp_pub spk)"
  shows "respond_first L d (Some ik) opks (newer @ spk # older) inner = Inr (z, spk)"
  using assms(2)
proof (induction newer)
  case Nil
  then show ?case using assms(1) by simp
next
  case (Cons k newer)
  have "\<exists>e. gy_x3dh_respond L d \<lparr>xl_ik = ik, xl_spk = k, xl_opks = opks\<rparr> inner = Inl e"
  proof (cases "gy_x3dh_respond L d \<lparr>xl_ik = ik, xl_spk = k, xl_opks = opks\<rparr> inner")
    case (Inr y)
    from x3dh_respond_spk [OF this] x3dh_respond_spk [OF assms(1)] Cons.prems show ?thesis by simp
  qed simp
  then show ?case using Cons by auto
qed

lemma bob_receives:
  assumes prov: "hash_lengths L" "aead_lengths L" "aead_correct L" "dh_commutes L" "dh_lengths L" and live: "live_suite L d"
    and spk: "keypair_of d spk"
    and alice: "gy_dr_init_alice L d aead sec (pub_pk (kp_pub spk)) r1 = Some (Inr base, r2)"
    and enc: "gy_dr_encrypt L base cap pt ad r2 = (Inr frame, base', r')"
    and gen: "gen_ratchet_keypair L d q = Some (Inr kp, q')"
    and honest: "\<And>a b. keypair_of d a \<Longrightarrow> keypair_of d b \<Longrightarrow> \<exists>x. op_dh d (kp_sk a) (pub_pk (kp_pub b)) = Inr x"
    and cap: "length pt \<le> cap'"
  shows "\<exists>B. gy_dr_decrypt L (gy_dr_init_bob d aead sec spk) cap' frame ad q = Some (Inr pt, B, q') \<and>
     dr_desc B = d \<and> store_inv (dr_skipped B)"
proof -
  let ?B = "gy_dr_init_bob d aead sec spk"
  have desc: "dr_desc base = d" by (rule init_alice_desc [OF alice])
  have sync: "turn_sync L base ?B" "dr_ns base = 0" using init_turn_sync [OF live prov(4) spk alice] by simp_all
  have kp: "keypair_of d kp" "keypair_of d (dr_dhs base)"
    using generated_keypair_of [OF gen] sync(1) desc by (simp_all add: turn_sync_def)
  obtain dhn where dhn: "op_dh d (kp_sk kp) (pub_pk (kp_pub (dr_dhs base))) = Inr dhn" using honest [OF kp] by blast
  have stray: "no_stray_epoch L ?B frame" by (simp add: no_stray_epoch_def gy_dr_init_bob_def dr_zero_def)
  have gap: "dr_have_ckr ?B \<noteq> 0 \<longrightarrow> unat (dr_pn base) - unat (dr_nr ?B) \<le> GY_MAX_SKIP"
    by (simp add: gy_dr_init_bob_def dr_zero_def)
  obtain B where B: "gy_dr_decrypt_assoc L ?B cap' frame ad q = Some (Inr pt, True, B, q')" "recv_sync L base' B"
    by (rule epoch_delivery [OF prov(1-3) live [folded desc] _ enc sync(1) stray gap _ gen [folded desc] dhn [folded desc] cap])
      (use keypair_pk_len [OF live prov(5) kp(2)] sync(2) desc in auto)
  obtain ckn where "base' = base\<lparr>dr_cks := ckn, dr_ns := dr_ns base + 1\<rparr>" by (rule dr_encrypt_ok [OF enc])
  then have "dr_desc B = d" "store_inv (dr_skipped B)" using B(2) desc by (simp_all add: recv_sync_def dr_receiver_of_def)
  then show ?thesis using B(1) by (auto simp: gy_dr_decrypt_def)
qed

lemma respond_message_ok:
  assumes resp: "gy_x3dh_respond L d \<lparr>xl_ik = ik, xl_spk = spk, xl_opks = rx_opks c\<rparr> inner = Inr (sec, ad, ref)"
    and c: "rx_desc c = d" "rx_local_ik c = Some ik" "rx_spks c = newer @ spk # older"
      "\<forall>k \<in> set newer. pub_pkid (kp_pub k) \<noteq> pub_pkid (kp_pub spk)"
    and sid: "gy_session_id d ika ekb z = Inr s0" and live: "live_suite L d" and ad: "length ad \<le> GY_X3DH_AD_MAX"
    and dec: "gy_dr_decrypt L (gy_dr_init_bob d (rx_aead_id c) sec spk) cap frame ad q = Some (Inr pt, B, q')"
      "dr_desc B = d" "store_inv (dr_skipped B)"
  shows "\<exists>s. respond_message L c ika ekb inner frame cap q = Some (Inr (pt, s, ref), q') \<and> session_ok L s \<and>
     s_id s = s_id s0 \<and> s_nrecv s = 1"
proof -
  define new where "new = session_new ((hd_zero d (rx_aead_id c))\<lparr>hd_base := gy_dr_init_bob d (rx_aead_id c) sec spk\<rparr>) ad"
  define s1 where "s1 = new\<lparr>s_base := s_base s0, s_id := s_id s0\<rparr>"
  have s1: "gy_session_id d ika ekb new = Inr s1" unfolding s1_def by (rule session_id_ok(3) [OF sid]) simp_all
  have f: "hd_base (s_ratchet s1) = gy_dr_init_bob d (rx_aead_id c) sec spk" "s_ad s1 = ad" "s_id s1 = s_id s0"
      "s_base s1 = s_base s0"
    by (simp_all add: s1_def new_def session_new_def)
  let ?s = "s1\<lparr>s_ratchet := (s_ratchet s1)\<lparr>hd_base := B\<rparr>, s_nrecv := 1\<rparr>"
  have "respond_message L c ika ekb inner frame cap q = Some (Inr (pt, ?s, ref), q')"
    using respond_first_found [OF resp c(4)] s1 dec(1)
    by (simp add: respond_message_def c(1-3) new_def [symmetric] f)
  moreover have "session_ok L ?s"
    using live ad dec(2,3) session_id_ok(2) [OF sid] store_inv_shape
    by (simp add: session_ok_def live_suite_def f GY_X3DH_AD_MAX_def GY_SESSION_AD_MAX_def)
  ultimately show ?thesis using f(3) by (intro exI [of _ ?s]) simp
qed

lemma stamp_ok: "\<exists>s1. stamp c s q = Some (Inr s1, q) \<and> (s1 = s \<or> (\<exists>t. s1 = s\<lparr>s_last_recv_at := t\<rparr>))"
  by (cases "rx_clock c") (auto simp: stamp_def)

lemma stage_accepted_ok:
  assumes peer: "peer_staged L d st dk ik 2 [] op1" "op_sess op1 = replicate GY_OP_MAX_SESSIONS None"
    and dk: "gy_devrec_key L u i = Inr dk" "length dk = 64"
    and d: "gy_suite_desc L (suite_id d) = Some d" "\<not> is_hybrid d"
    and s: "session_ok L s" "length (s_id s) = GY_SESSION_ID_LEN"
  obtains op2 op3 b s1 where "stage_accepted L c u i pt s ref (op1, w) = Some (Inr pt, (op3, w))"
    "peer_staged L d st dk ik 3 [s_id s] op2" "op3 = op2\<lparr>op_defer := op_defer op3\<rparr>"
    "op_defer op3 = (if ref_present ref \<noteq> 0 then [GY_OP_CONSUME_OPK (ref_pkid ref)] else [])"
    "find_sess (s_id s) (op_sess op3) = Some b" "gy_session_decode L b = Inr s1" "s_id s1 = s_id s" "s_nrecv s1 = s_nrecv s"
proof -
  obtain s1 where s1: "(stamp c s :: ('a opst, gy_err, gy_session) sm) (op1, w) = Some (Inr s1, (op1, w))" "s1 = s \<or> (\<exists>t. s1 = s\<lparr>s_last_recv_at := t\<rparr>)"
    using stamp_ok by blast
  have id1: "s_id s1 = s_id s" "s_nrecv s1 = s_nrecv s" "session_ok L s1"
    using s1(2) s(1) by (auto simp: session_ok_def)
  obtain opa b where a: "gy_op_put_session op1 s1 = Inr opa" "peer_staged L d st dk ik 2 [] opa"
      "find_sess (s_id s) (op_sess opa) = Some b" "gy_session_decode L b = Inr (session_full s1)"
    using put_session_staged [OF peer id1(3)] s(2) id1(1) by auto
  have two: "2 < GY_OP_MAX_RECORDS" by (simp add: GY_OP_MAX_RECORDS_def)
  obtain op2 where op2: "gy_device_insert_session L u i (s_id s) (opa, w) = Some (Inr (), (op2, w))"
      "peer_staged L d st dk ik 3 [s_id s] op2" "op_sess op2 = op_sess opa"
    using insert_first_session [OF a(2) two dk d s(2), where w = w] by (auto simp: numeral_3_eq_3 numeral_2_eq_2)
  define op3 where "op3 = op2\<lparr>op_defer := (if ref_present ref \<noteq> 0 then [GY_OP_CONSUME_OPK (ref_pkid ref)] else [])\<rparr>"
  have none: "op_defer op2 = []" using op2(2) by (simp add: peer_staged_def)
  define consume where "consume = (if ref_present ref \<noteq> 0 then s_put (\<lambda>op1 :: 'a gy_op. gy_op_consume_opk op1 (ref_pkid ref))
      else s_res (Inr ()))"
  have "consume (op2, w) = Some (Inr (), (op3, w))"
    using none by (auto simp: consume_def s_put_def s_res_def gy_op_consume_opk_def op3_def GY_OP_MAX_DEFER_def)
  then have "stage_accepted L c u i pt s ref (op1, w) = Some (Inr pt, (op3, w))"
    unfolding stage_accepted_def consume_def [symmetric] using s1(1) a(1) op2(1) id1(1) by (simp add: sm_simps)
  moreover have "s_id (session_full s1) = s_id s" "s_nrecv (session_full s1) = s_nrecv s"
    using id1 s(2) by (simp_all add: session_full_def arr_id GY_SESSION_ID_LEN_def)
  ultimately show ?thesis using that op2(2) a(3,4) op2(3) by (simp add: op3_def)
qed

subsection \<open>First contact\<close>

text \<open>Key pairs that the generator makes agree on a shared value: no honest public key is weak.\<close>

definition honest_dh :: "gy_suite_desc \<Rightarrow> bool" where
  "honest_dh d \<longleftrightarrow> (\<forall>a b. keypair_of d a \<longrightarrow> keypair_of d b \<longrightarrow> (\<exists>x. op_dh d (kp_sk a) (pub_pk (kp_pub b)) = Inr x))"

text \<open>
  The receive context holds the secrets behind the bundle: the identity, the signed prekey (the
  current one or one retained after a rotation) and the one-time prekeys.
\<close>

definition serves :: "gy_suite_desc \<Rightarrow> 'w gy_recv_ctx \<Rightarrow> gy_prekey_bundle \<Rightarrow> bool" where
  "serves d c bundle \<longleftrightarrow> rx_desc c = d \<and>
     (\<exists>ik spk newer older. rx_local_ik c = Some ik \<and> rx_spks c = newer @ spk # older \<and>
        (\<forall>k \<in> set newer. pub_pkid (kp_pub k) \<noteq> pub_pkid (kp_pub spk)) \<and>
        bundle_of_local d \<lparr>xl_ik = ik, xl_spk = spk, xl_opks = rx_opks c\<rparr> bundle)"

text \<open>Neither the user nor the device has a record yet.\<close>

definition unknown_peer :: "provider \<Rightarrow> (gy_rec_kind \<times> bytes \<Rightarrow> bytes) \<Rightarrow> bytes \<Rightarrow> bytes \<Rightarrow> bytes \<Rightarrow> bool" where
  "unknown_peer L v u i dk \<longleftrightarrow> \<not> ids_out_of_range u i \<and> gy_devrec_key L u i = Inr dk \<and>
     v (GY_REC_DEVICE, dk) = [] \<and> v (GY_REC_USER, u) = []"

lemma send_initiate_ok:
  assumes "gy_send_initiate L u i bundle pt want cap (c, w) = Some (Inr inner, (c', w'))" "sc_local_ik c = Some A"
  obtains r s r' where "initiate_message L (sc_desc c) A (sc_aead_id c) bundle pt cap r = Some (Inr (inner, s), r')"
  using assms
  by (auto simp: gy_send_initiate_def send_initiate_core_def send_run_def sm_eqs s_comp_def split: if_splits)

lemma build_ad_len: "suite_ok d \<Longrightarrow> build_ad a b = Inr ad \<Longrightarrow> length ad \<le> GY_X3DH_AD_MAX"
  by (auto simp: build_ad_def rbind_eq_Inr_iff encode_ec_ok GY_X3DH_AD_MAX_def GY_CURVE_TYPE_25519_def
      GY_CURVE_TYPE_448_def)

text \<open>The receive path on the initial message of an unknown peer, up to the commit.\<close>

lemma recv_init_fresh:
  assumes rel: "reliable_store (rx_store c) view" and L: "hash_lengths L" "live_suite L d" "\<not> is_hybrid d"
    and peer: "unknown_peer L (view (fst w)) u i dk"
    and c: "rx_desc c = d" and op: "rx_op c = gy_op_begin op0 (rx_store c)"
    and n: "n = 2 + 2 * (4 + 1 + curve_pk_len d) + 16" "n + length frame = length inner" "frame \<noteq> []"
      "unat (gy_be32_get (drop (n - 4) inner)) = length frame" "take (length frame) (drop n inner) = frame"
      "parse_base_keys d inner = (ika, ekb)"
    and ika: "pub_curve_type ika = curve_type d" "length (pub_pk ika) = curve_pk_len d"
    and sid: "gy_session_id d ika ekb (session_new (hd_zero d 0) []) = Inr s0"
    and resp: "respond_message L c ika ekb inner frame cap (snd w) = Some (Inr (pt, s, ref), q')"
      "session_ok L s" "s_id s = s_id s0"
  obtains op2 op3 b s1 where "recv_init L u i inner cap (c, w) = Some (Inr pt, (c\<lparr>rx_op := op3\<rparr>, (fst w, q')))"
    "peer_staged L d (rx_store c) dk ika 3 [s_id s] op2" "op3 = op2\<lparr>op_defer := op_defer op3\<rparr>"
    "op_defer op3 = (if ref_present ref \<noteq> 0 then [GY_OP_CONSUME_OPK (ref_pkid ref)] else [])"
    "find_sess (s_id s) (op_sess op3) = Some b" "gy_session_decode L b = Inr s1" "s_id s1 = s_id s" "s_nrecv s1 = s_nrecv s"
proof -
  let ?op = "gy_op_begin op0 (rx_store c)"
  have p: "\<not> ids_out_of_range u i" "gy_devrec_key L u i = Inr dk" "view (fst w) (GY_REC_DEVICE, dk) = []"
      "view (fst w) (GY_REC_USER, u) = []"
    using peer by (simp_all add: unknown_peer_def)
  have d: "gy_suite_desc L (suite_id d) = Some d" "suite_ok d" using L(2) by (simp_all add: live_suite_def)
  obtain op1 where op1: "gy_conditional_update L (suite_id d) u i ika False (?op, w) = Some (Inr (), (op1, w))"
      "peer_staged L d (rx_store c) dk ika 2 [] op1" "op_sess op1 = replicate GY_OP_MAX_SESSIONS None"
    using fresh_update [OF rel L(1,2) p(1,2) ika p(3,4), where want = False] by blast
  have load: "gy_op_load_device L ?op dk w = (Inr None, w)"
    unfolding gy_op_load_device_def
    by (rule reliable_absent [where view = view]) (simp_all add: fresh_op rel stage_lookup_slot p(3))
  have len: "length (s_id s) = GY_SESSION_ID_LEN" using session_id_ok(2) [OF sid d(2)] resp(3) by simp
  have comp: "s_comp (respond_message L c ika ekb inner frame cap) (op1, w) = Some (Inr (pt, s, ref), (op1, (fst w, q')))"
    by (simp add: s_comp_def resp(1))
  have upd: "s_map_err fst (gy_conditional_update L (suite_id d) u i ika False) (?op, w) = Some (Inr (), (op1, w))"
    by (simp add: s_map_err_def op1(1))
  have base: "recv_init_base L c u i ika ekb (s_id s0) inner frame cap (?op, w) =
      stage_accepted L c u i pt s ref (op1, (fst w, q'))"
    unfolding recv_init_base_def c p(2) using load upd comp by (simp add: sm_simps)
  have "length inner \<ge> n" "length frame \<noteq> 0" using n(2,3) by auto
  then have run: "recv_init L u i inner cap (c, w) =
      map_option (\<lambda>(x, op1, w1). (x, (c\<lparr>rx_op := op1\<rparr>, w1))) (stage_accepted L c u i pt s ref (op1, (fst w, q')))"
    unfolding recv_init_def on_op_def fst_conv snd_conv op c n(1) [symmetric] n(6) prod.case Let_def
    using n(2,4,5) by (simp add: sid base)
  show ?thesis
  proof (rule stage_accepted_ok [OF op1(2,3) p(2) devrec_key_len [OF L(1) p(2)] d(1) L(3) resp(2) len,
        where c = c and pt = pt and ref = ref and w = "(fst w, q')"])
    fix op2 op3 b s1
    assume a: "stage_accepted L c u i pt s ref (op1, (fst w, q')) = Some (Inr pt, (op3, (fst w, q')))"
      "peer_staged L d (rx_store c) dk ika 3 [s_id s] op2" "op3 = op2\<lparr>op_defer := op_defer op3\<rparr>"
      "op_defer op3 = (if ref_present ref \<noteq> 0 then [GY_OP_CONSUME_OPK (ref_pkid ref)] else [])"
      "find_sess (s_id s) (op_sess op3) = Some b" "gy_session_decode L b = Inr s1" "s_id s1 = s_id s" "s_nrecv s1 = s_nrecv s"
    then show thesis using that [OF _ a(2-8)] run by (simp add: on_op_def)
  qed
qed

text \<open>What the store holds once the accepted first message has been committed.\<close>

lemma commit_first_contact:
  assumes rel: "reliable_store st view" and peer: "peer_staged L d st dk ik n [sid] op2" and sid: "length sid = GY_SESSION_ID_LEN"
    and op3: "op3 = op2\<lparr>op_defer := op_defer op3\<rparr>" "op_defer op3 = (if c then [GY_OP_CONSUME_OPK p] else [])"
    and b: "find_sess sid (op_sess op3) = Some b"
  obtains w' dev where "gy_op_commit op3 w = (Inr (), gy_op_abort op3, w')"
    "gy_device_record_decode L (view (fst w') (GY_REC_DEVICE, dk)) = Inr dev" "dev_ids dev = [sid]" "ik_equal d (d_ik dev) ik"
    "view (fst w') (GY_REC_SESSION, sid) = b"
proof -
  have eq: "op_store op3 = op_store op2" "op_rec op3 = op_rec op2" "op_sess op3 = op_sess op2" by (subst op3(1), simp)+
  obtain bd dev where d: "find_rec GY_REC_DEVICE dk (op_rec op2) = Some bd" "gy_device_record_decode L bd = Inr dev"
      "dev_ids dev = [sid]" "ik_equal d (d_ik dev) ik" and inv2: "op_inv op2" "op_store op2 = st"
    using peer by (auto simp: peer_staged_def)
  have inv: "op_inv op3" using inv2(1) op3(2) by (simp add: op_inv_def eq GY_OP_MAX_DEFER_def)
  have st: "op_store op3 = st" using inv2(2) eq(1) by simp
  obtain w' where w': "gy_op_commit op3 w = (Inr (), gy_op_abort op3, w')"
    using reliable_commit [of op3 view w] rel st by auto
  note cv = commit_view [OF reliable_contract [OF rel [folded st]] inv w']
  have nodel: "\<not> find_delete k i (op_defer op3)" for k i using op3(2) by simp
  have "view (fst w') (GY_REC_DEVICE, dk) = bd" using cv [of GY_REC_DEVICE dk] nodel d(1) by (simp add: slot_blob_def eq)
  moreover have "view (fst w') (GY_REC_SESSION, sid) = b"
    using cv [of GY_REC_SESSION sid] nodel b sid by (simp add: slot_blob_def)
  ultimately show ?thesis using that [OF w'] d(2-4) by simp
qed

lemma recv_process_init:
  assumes "rx_desc c = d" "inner ! 0 = GY_WIRE_VERSION" "inner ! 1 = suite_id d" "2 \<le> length inner"
  shows "recv_process L u i ([GY_WIRE_VERSION, suite_id d, GY_MSG_INIT] @ inner) cap (c, w) = recv_init L u i inner cap (c, w)"
  using assms by (simp add: recv_process_def with_ctx_def)

text \<open>The message Alice builds, as Bob's code reads and answers it.\<close>

lemma initial_message_answered:
  assumes "hash_lengths L" "aead_lengths L" "aead_correct L" "dh_commutes L" "dh_lengths L"
    and "live_suite L d" "\<not> is_hybrid d" "honest_dh d"
    and "sc_desc ca = d" "sc_local_ik ca = Some A" "own_key L d A"
    and "gy_send_initiate L ub ib bundle pt want cap (ca, wa) = Some (Inr inner, (ca', wa'))" "length inner < 2 ^ 32"
    and "serves d cb bundle" "rx_aead_id cb = sc_aead_id ca"
    and "gen_ratchet_keypair L d q0 = Some (Inr kp, q)" "length pt \<le> cap'"
  obtains n frame ekb z s2 ref where
    "n = 2 + 2 * (4 + 1 + curve_pk_len d) + 16" "n + length frame = length inner" "frame \<noteq> []"
    "unat (gy_be32_get (drop (n - 4) inner)) = length frame" "take (length frame) (drop n inner) = frame"
    "parse_base_keys d inner = ((kp_pub A)\<lparr>pub_pkid := 0\<rparr>, ekb)" "pub_curve_type (kp_pub A) = curve_type d"
    "length (pub_pk (kp_pub A)) = curve_pk_len d"
    "gy_session_id d ((kp_pub A)\<lparr>pub_pkid := 0\<rparr>) ekb (session_new (hd_zero d 0) []) = Inr z"
    "respond_message L (recv_begin cb) ((kp_pub A)\<lparr>pub_pkid := 0\<rparr>) ekb inner frame cap' q0 = Some (Inr (pt, s2, ref), q)"
    "session_ok L s2" "s_id s2 = s_id z" "s_nrecv s2 = 1" "inner ! 0 = GY_WIRE_VERSION" "inner ! 1 = suite_id d"
proof -
  have ok: "suite_ok d" using assms(6) by (simp add: live_suite_def)
  obtain ik spk newer older where srv: "rx_desc cb = d" "rx_local_ik cb = Some ik" "rx_spks cb = newer @ spk # older"
      "\<forall>k \<in> set newer. pub_pkid (kp_pub k) \<noteq> pub_pkid (kp_pub spk)"
      "bundle_of_local d \<lparr>xl_ik = ik, xl_spk = spk, xl_opks = rx_opks cb\<rparr> bundle"
    using assms(14) by (auto simp: serves_def)
  have spk: "keypair_of d spk" "pb_spk bundle = kp_pub spk" using srv(5) by (simp_all add: bundle_of_local_def)
  obtain r s r' where msg: "initiate_message L d A (sc_aead_id ca) bundle pt cap r = Some (Inr (inner, s), r')"
    using send_initiate_ok [OF assms(12,10)] assms(9) by metis
  obtain ek r1 sec ad prefix ek' base r2 s0 frame base' where
      a: "gy_keypair_generate L d r = Some (Inr ek, r1)" "gy_x3dh_initiate L d A bundle ek = (Inr (sec, ad, prefix), ek')"
      "gy_dr_init_alice L d (sc_aead_id ca) sec (pub_pk (pb_spk bundle)) r1 = Some (Inr base, r2)" "dr_desc base = d"
      "gy_session_id d (kp_pub A) (kp_pub ek) (session_new ((hd_zero d (sc_aead_id ca))\<lparr>hd_base := base\<rparr>) ad) = Inr s0"
      "gy_dr_encrypt L base (cap - length prefix) pt ad r2 = (Inr frame, base', r')"
      "inner = take (length prefix - 4) prefix @ gy_be32_put (word_of_nat (length frame)) @ frame"
    by (rule initiate_message_ok [OF msg assms(7)])
  have ek: "own_key L d ek" using a(1) generated_own_key by (simp add: gy_keypair_generate_def)
  have pk: "length (pub_pk (kp_pub A)) = curve_pk_len d" "length (pub_pk (kp_pub ek)) = curve_pk_len d"
      "pub_curve_type (kp_pub A) = curve_type d"
    using keypair_pk_len [OF assms(6,5)] assms(11) ek by (simp_all add: own_key_def)
  obtain ia0 where pre: "prefix = x3dh_prefix d (kp_pub A) (kp_pub ek) (pub_pkid (pb_ik bundle)) (pub_pkid (pb_spk bundle)) ia0"
      and ad: "build_ad (kp_pub A) (pb_ik bundle) = Inr ad"
    by (rule x3dh_initiate_ok [OF a(2)]) metis
  have fr: "frame \<noteq> []" using dr_encrypt_ok [OF a(6)] by (metis append_is_Nil_conv gy_frame_put_def list.distinct(1))
  have flen: "length frame < 2 ^ 32" using assms(13) by (simp add: a(7))
  define n where "n = 2 + 2 * (4 + 1 + curve_pk_len d) + 16"
  note f = initial_fields [OF pk(1,2) pre fr flen a(7) n_def]
  let ?ika = "(kp_pub A)\<lparr>pub_pkid := 0\<rparr>" and ?ekb = "(kp_pub ek)\<lparr>pub_pkid := 0\<rparr>"
  define z where "z = (session_new (hd_zero d 0) [])\<lparr>s_base := s_base s0, s_id := s_id s0\<rparr>"
  have sid: "gy_session_id d ?ika ?ekb (session_new (hd_zero d 0) []) = Inr z"
    unfolding z_def by (rule session_id_ok(3) [OF a(5)]) simp_all
  have resp: "gy_x3dh_respond L d \<lparr>xl_ik = ik, xl_spk = spk, xl_opks = rx_opks cb\<rparr> inner = Inr (sec, ad,
      \<lparr>ref_present = (if pub_pkid (pb_opk bundle) \<noteq> 0 then 1 else 0), ref_pkid = pub_pkid (pb_opk bundle)\<rparr>)"
    by (rule x3dh_respond_mirror [OF assms(6,4,5,11) ek srv(5) a(2) a(7)]) simp
  have honest: "\<exists>x. op_dh d (kp_sk a) (pub_pk (kp_pub b)) = Inr x" if "keypair_of d a" "keypair_of d b" for a b
    using assms(8) that by (simp add: honest_dh_def)
  obtain B where B: "gy_dr_decrypt L (gy_dr_init_bob d (sc_aead_id ca) sec spk) cap' frame ad q0 = Some (Inr pt, B, q)"
      "dr_desc B = d" "store_inv (dr_skipped B)"
    using bob_receives [OF assms(1-6) spk(1) a(3) [unfolded spk(2)] a(6) assms(16) honest assms(17)] by blast
  let ?c = "recv_begin cb"
  have c0: "rx_desc ?c = d" "rx_local_ik ?c = Some ik" "rx_spks ?c = newer @ spk # older" "rx_opks ?c = rx_opks cb"
      "rx_aead_id ?c = sc_aead_id ca"
    using srv assms(15) by (simp_all add: recv_begin_def)
  obtain s2 where s2: "respond_message L (recv_begin cb) ?ika ?ekb inner frame cap' q0 = Some (Inr (pt, s2,
      \<lparr>ref_present = (if pub_pkid (pb_opk bundle) \<noteq> 0 then 1 else 0), ref_pkid = pub_pkid (pb_opk bundle)\<rparr>), q)"
      "session_ok L s2" "s_id s2 = s_id z" "s_nrecv s2 = 1"
    using respond_message_ok [OF resp [folded c0(4)] c0(1-3) srv(4) sid assms(6) build_ad_len [OF ok ad]
        B(1) [folded c0(5)] B(2,3)] by blast
  show ?thesis by (rule that [OF n_def f(1) fr f(2,3,6) pk(3,1) sid s2 f(4,5)])
qed

text \<open>
  C1. First contact, end to end. Alice starts a session from a bundle whose secrets Bob holds and sends
  a first message. Whatever the plaintext, when Bob receives the message from a peer he has no record
  of, his receive returns exactly Alice's plaintext, and his store then holds a device record that
  pins Alice's identity, with one session, which is stored and has received one message. The two ends
  need the same AEAD, Bob's key generator has to return, and his store must not fail.
\<close>

theorem first_message_delivered:
  assumes "hash_lengths L" "aead_lengths L" "aead_correct L" "dh_commutes L" "dh_lengths L"
    and "live_suite L d" "\<not> is_hybrid d" "honest_dh d"
    and "sc_desc ca = d" "sc_local_ik ca = Some A" "own_key L d A"
    and "gy_send_initiate L ub ib bundle pt want cap (ca, wa) = Some (Inr inner, (ca', wa'))" "length inner < 2 ^ 32"
    and "serves d cb bundle" "rx_aead_id cb = sc_aead_id ca" "reliable_store (rx_store cb) view"
    and "unknown_peer L (view (fst wb)) ua ia dk"
    and "gen_ratchet_keypair L d (snd wb) = Some (Inr kp, q)" "length pt \<le> cap'"
  shows "\<exists>c' w' dev s. gy_recv L ua ia ([GY_WIRE_VERSION, suite_id d, GY_MSG_INIT] @ inner) cap' (cb, wb) =
       Some (Inr pt, (c', w')) \<and>
     gy_device_record_decode L (view (fst w') (GY_REC_DEVICE, dk)) = Inr dev \<and>
     ik_equal d (d_ik dev) (kp_pub A) \<and> dev_ids dev = [s_id s] \<and>
     gy_session_decode L (view (fst w') (GY_REC_SESSION, s_id s)) = Inr s \<and> s_nrecv s = 1"
proof -
  let ?ika = "(kp_pub A)\<lparr>pub_pkid := 0\<rparr>" and ?c = "recv_begin cb"
  obtain n frame ekb z s2 ref where m: "n = 2 + 2 * (4 + 1 + curve_pk_len d) + 16" "n + length frame = length inner"
      "frame \<noteq> []" "unat (gy_be32_get (drop (n - 4) inner)) = length frame" "take (length frame) (drop n inner) = frame"
      "parse_base_keys d inner = (?ika, ekb)" "pub_curve_type (kp_pub A) = curve_type d"
      "length (pub_pk (kp_pub A)) = curve_pk_len d" "gy_session_id d ?ika ekb (session_new (hd_zero d 0) []) = Inr z"
      "respond_message L ?c ?ika ekb inner frame cap' (snd wb) = Some (Inr (pt, s2, ref), q)"
      "session_ok L s2" "s_id s2 = s_id z" "s_nrecv s2 = 1" "inner ! 0 = GY_WIRE_VERSION" "inner ! 1 = suite_id d"
    by (rule initial_message_answered [OF assms(1-15) assms(18,19)])
  have c: "rx_desc ?c = d" "rx_op ?c = gy_op_begin (rx_op cb) (rx_store ?c)" "rx_store ?c = rx_store cb"
    using assms(14) by (simp_all add: recv_begin_def serves_def)
  have ik: "pub_curve_type ?ika = curve_type d" "length (pub_pk ?ika) = curve_pk_len d" using m(7,8) by simp_all
  obtain op2 op3 b s1 where r: "recv_init L ua ia inner cap' (?c, wb) = Some (Inr pt, (?c\<lparr>rx_op := op3\<rparr>, (fst wb, q)))"
      "peer_staged L d (rx_store ?c) dk ?ika 3 [s_id s2] op2" "op3 = op2\<lparr>op_defer := op_defer op3\<rparr>"
      "op_defer op3 = (if ref_present ref \<noteq> 0 then [GY_OP_CONSUME_OPK (ref_pkid ref)] else [])"
      "find_sess (s_id s2) (op_sess op3) = Some b" "gy_session_decode L b = Inr s1" "s_id s1 = s_id s2" "s_nrecv s1 = s_nrecv s2"
    by (rule recv_init_fresh [OF assms(16) [folded c(3)] assms(1,6,7,17) c(1,2) m(1-6) ik m(9-12)])
  have len: "length (s_id s2) = GY_SESSION_ID_LEN"
    using session_id_ok(2) [OF m(9)] assms(6) m(12) by (simp add: live_suite_def)
  obtain w' dev where w': "gy_op_commit op3 (fst wb, q) = (Inr (), gy_op_abort op3, w')"
      "gy_device_record_decode L (view (fst w') (GY_REC_DEVICE, dk)) = Inr dev" "dev_ids dev = [s_id s2]"
      "ik_equal d (d_ik dev) ?ika" "view (fst w') (GY_REC_SESSION, s_id s2) = b"
    by (rule commit_first_contact [OF assms(16) r(2) [unfolded c(3)] len r(3,4,5)])
  have "gy_recv L ua ia ([GY_WIRE_VERSION, suite_id d, GY_MSG_INIT] @ inner) cap' (cb, wb) =
      Some (Inr pt, (?c\<lparr>rx_op := gy_op_abort op3\<rparr>, w'))"
    using recv_process_init [OF c(1) m(14,15), of L ua ia cap' wb] r(1) w'(1) m(1,2) by (simp add: gy_recv_def recv_end_def)
  moreover have "ik_equal d (d_ik dev) (kp_pub A)" using w'(4) by (simp add: ik_equal_def)
  ultimately show ?thesis using w'(2,3,5) r(6-8) m(13) by (intro exI conjI) auto
qed

end
