(* ===== verification/GY_FirstSend.thy ===== *)
theory GY_FirstSend
  imports GY_Delivery
begin

text \<open>
  The sending half of a first contact: \<open>gy_send_initiate\<close> to a peer without a record succeeds, and the
  size that \<^verbatim>\<open>send.h\<close> advertises for its buffer is enough.
\<close>

subsection \<open>The handshake and the first frame\<close>

lemma x3dh_initiate_succeeds:
  assumes live: "live_suite L d" and honest: "honest_dh d" and A: "own_key L d A" and ek: "own_key L d ek"
    and pb: "bundle_of_local d B bundle" "gy_bundle_validate L d bundle = Inr ()"
      "pub_curve_type (pb_ik bundle) = curve_type d"
  shows "\<exists>sec ad. gy_x3dh_initiate L d A bundle ek = (Inr (sec, ad,
     x3dh_prefix d (kp_pub A) (kp_pub ek) (pub_pkid (pb_ik bundle)) (pub_pkid (pb_spk bundle)) (pub_pkid (pb_opk bundle))), erase_sk ek) \<and>
     length ad \<le> GY_X3DH_AD_MAX"
proof -
  have ok: "suite_ok d" using live by (simp add: live_suite_def)
  have dh: "\<exists>x. op_dh d (kp_sk a) (pub_pk (kp_pub b)) = Inr x" if "keypair_of d a" "keypair_of d b" for a b
    using honest that by (simp add: honest_dh_def)
  have k: "keypair_of d A" "keypair_of d ek" "pub_curve_type (kp_pub A) = curve_type d" using A ek by (simp_all add: own_key_def)
  have b: "pb_spk bundle = kp_pub (xl_spk B)" "pb_ik bundle = kp_pub (xl_ik B)" "keypair_of d (xl_spk B)" "keypair_of d (xl_ik B)"
    using pb(1) by (simp_all add: bundle_of_local_def)
  obtain d0 d1 d2 where d: "op_dh d (kp_sk A) (pub_pk (pb_spk bundle)) = Inr d0" "op_dh d (kp_sk ek) (pub_pk (pb_ik bundle)) = Inr d1"
      "op_dh d (kp_sk ek) (pub_pk (pb_spk bundle)) = Inr d2"
    using dh [OF k(1) b(3)] dh [OF k(2) b(4)] dh [OF k(2) b(3)] by (auto simp: b)
  have opk: "\<exists>x. op_dh d (kp_sk ek) (pub_pk (pb_opk bundle)) = Inr x" if present: "pub_pkid (pb_opk bundle) \<noteq> 0"
  proof -
    obtain o1 where "keypair_of d o1" "kp_pub o1 = pb_opk bundle"
      using pb(1) present by (auto simp: bundle_of_local_def split: option.splits)
    with dh [OF k(2), of o1] show ?thesis by simp
  qed
  obtain d3 where d3: "(if gy_pkid_is_present (pub_pkid (pb_opk bundle))
      then rbind (op_dh d (kp_sk ek) (pub_pk (pb_opk bundle))) (\<lambda>x. Inr [x]) else Inr []) = Inr d3"
    using opk by (cases "pub_pkid (pb_opk bundle) = 0") auto
  obtain sec where sec: "derive_secrets L d ([d0, d1, d2] @ d3) = Inr sec" using derive_secrets_total(1) [OF live] by blast
  obtain ad where ad: "build_ad (kp_pub A) (pb_ik bundle) = Inr ad"
    using ok k(3) pb(3)
    by (auto simp: build_ad_def encode_ec_ok suite_ok_def GY_X3DH_AD_MAX_def rbind_eq_Inr_iff)
  have opk_id: "(if gy_pkid_is_present (pub_pkid (pb_opk bundle)) then pub_pkid (pb_opk bundle) else 0) = pub_pkid (pb_opk bundle)"
    by simp
  have "gy_x3dh_initiate L d A bundle ek = (Inr (sec, ad,
     x3dh_prefix d (kp_pub A) (kp_pub ek) (pub_pkid (pb_ik bundle)) (pub_pkid (pb_spk bundle)) (pub_pkid (pb_opk bundle))), erase_sk ek)"
    unfolding gy_x3dh_initiate_def Let_def pb(2) sum.case d d3 rbind_Inr sec ad opk_id by (rule refl)
  then show ?thesis using build_ad_len [OF ok ad] by blast
qed

lemma init_alice_succeeds:
  assumes live: "live_suite L d" and honest: "honest_dh d" and spk: "keypair_of d spk"
    and gen: "gen_ratchet_keypair L d r = Some (Inr kp, r')"
  obtains base where "gy_dr_init_alice L d aead sec (pub_pk (kp_pub spk)) r = Some (Inr base, r')"
    "dr_desc base = d" "dr_aead_id base = aead" "dr_have_cks base = 1" "dr_have_hks base = 1" "dr_dhs base = kp"
    "dr_skipped base = empty_store"
proof -
  obtain dh where dh: "op_dh d (kp_sk kp) (pub_pk (kp_pub spk)) = Inr dh"
    using honest generated_keypair_of [OF gen] spk by (auto simp: honest_dh_def)
  obtain rk ck nhk where k: "gy_drc_kdf_rk L d (sd_sk_dr sec) dh = Inr (rk, ck, nhk)" using kdf_rk_total [OF live] by blast
  show thesis
    by (rule that, simp add: gy_dr_init_alice_def Let_def gen dh k cbind_def clift_def) (simp_all add: dr_zero_def)
qed

lemma session_id_succeeds:
  assumes "suite_ok d" "pub_curve_type a = curve_type d" "pub_curve_type e = curve_type d"
    and "length (pub_pk a) = curve_pk_len d" "length (pub_pk e) = curve_pk_len d"
  shows "\<exists>s1. gy_session_id d a e s = Inr s1"
proof -
  have "\<exists>h. op_hash d m = Inr h" for m using assms(1) unfolding suite_ok_def by blast
  then show ?thesis
    using assms by (auto simp: gy_session_id_def encode_ec_ok suite_ok_def rbind_eq_Inr_iff)
qed

lemma dr_encrypt_len:
  assumes "hash_lengths L" "aead_lengths L" "gy_dr_encrypt L st cap pt ad r = (Inr msg, st', r')"
    and "length (pub_pk (kp_pub (dr_dhs st))) = curve_pk_len (dr_desc st)"
  shows "length msg = 32 + curve_pk_len (dr_desc st) + length pt + 2 * gy_aead_tag_len (dr_aead_id st)"
proof (rule dr_encrypt_ok [OF assms(3)])
  fix hdrp salt enc mk ckn key nonce ct
  assume a: "gy_dr_header_encode (dr_desc st) (dr_header_of st) GY_DR_HEADER_MAX = Inr hdrp"
    "gy_he_encrypt L (dr_desc st) (dr_aead_id st) (dr_hks st) hdrp (gy_frame_put (suite_id (dr_desc st)))
       (cap - (2 + GY_HE_SALT_LEN + 2)) r = (Inr (salt, enc), r')"
    "gy_aead_encrypt L (dr_aead_id st) (cap - (2 + (GY_HE_SALT_LEN + 2 + (length hdrp + gy_aead_tag_len (dr_aead_id st)))))
       key nonce (ad @ hdr_wire salt enc) pt = Inr ct"
    "msg = gy_frame_put (suite_id (dr_desc st)) @ hdr_wire salt enc @ ct"
  have "length hdrp = 12 + curve_pk_len (dr_desc st)"
    using a(1) assms(4) by (auto simp: gy_dr_header_encode_def Let_def dr_header_of_def split: if_splits)
  then show ?thesis
    using he_encrypt_len [OF assms(1,2) a(2)] aead_encrypt_len [OF assms(2) a(3)]
    by (simp add: a(4) hdr_wire_def gy_frame_put_def)
qed

lemma init_alice_skipped:
  assumes "gy_dr_init_alice L d aead sec rpk r = Some (Inr base, r')"
  shows "dr_skipped base = empty_store"
proof (rule init_alice_ok [OF assms])
  assume eq: "base = (dr_zero d aead)\<lparr>dr_dhr := rpk, dr_have_dhr := 1, dr_hks := sd_shared_hka sec,
     dr_nhkr := sd_shared_nhkb sec, dr_have_hks := 1, dr_have_nhkr := 1, dr_dhs := dr_dhs base, dr_rk := dr_rk base,
     dr_cks := dr_cks base, dr_nhks := dr_nhks base, dr_have_cks := 1, dr_have_nhks := 1\<rparr>"
  show ?thesis by (subst eq) (simp add: dr_zero_def)
qed

lemma initiated_session_ok:
  assumes "initiate_message L d A aead bundle pt cap r = Some (Inr (out, s), r')" "\<not> is_hybrid d" "live_suite L d"
  shows "session_ok L s \<and> length (s_id s) = GY_SESSION_ID_LEN"
proof (rule initiate_message_ok [OF assms(1,2)])
  fix ek r1 sec ad prefix ek' base r2 s0 frame base'
  assume a: "gy_x3dh_initiate L d A bundle ek = (Inr (sec, ad, prefix), ek')"
    "gy_dr_init_alice L d aead sec (pub_pk (pb_spk bundle)) r1 = Some (Inr base, r2)" "dr_desc base = d"
    "gy_session_id d (kp_pub A) (kp_pub ek) (session_new ((hd_zero d aead)\<lparr>hd_base := base\<rparr>) ad) = Inr s0"
    "gy_dr_encrypt L base (cap - length prefix) pt ad r2 = (Inr frame, base', r')"
    "s = s0\<lparr>s_ratchet := (s_ratchet s0)\<lparr>hd_base := base'\<rparr>, s_nsend := s_nsend s0 + 1\<rparr>"
  have live: "gy_suite_desc L (suite_id d) = Some d" "suite_ok d" using assms(3) by (simp_all add: live_suite_def)
  have "build_ad (kp_pub A) (pb_ik bundle) = Inr ad" by (rule x3dh_initiate_ok [OF a(1)])
  from build_ad_len [OF live(2) this] have ad: "length ad \<le> GY_X3DH_AD_MAX" .
  obtain ckn where "base' = base\<lparr>dr_cks := ckn, dr_ns := dr_ns base + 1\<rparr>" by (rule dr_encrypt_ok [OF a(5)])
  then have b: "dr_desc base' = d" "skip_shape (dr_skipped base')"
    using a(3) init_alice_skipped [OF a(2)] store_inv_shape [OF store_inv_empty] by simp_all
  have "s_ad s0 = ad" using session_id_ok(1) [OF a(4)] by (metis session_new_simps(2))
  then show ?thesis
    using session_id_ok(2) [OF a(4) live(2)] b ad unfolding session_ok_def a(6) Let_def
    by (simp add: live(1) GY_X3DH_AD_MAX_def GY_SESSION_AD_MAX_def del: suite_desc_id)
qed

text \<open>Starting a session with an unknown peer succeeds whenever the handshake does.\<close>

lemma send_initiate_fresh:
  assumes rel: "reliable_store (sc_store c) view" and L: "hash_lengths L" "live_suite L d" "\<not> is_hybrid d"
    and c: "sc_desc c = d" "sc_local_ik c = Some A"
    and peer: "unknown_peer L (view (fst w)) u i dk"
    and ik: "pub_curve_type (pb_ik bundle) = curve_type d" "length (pub_pk (pb_ik bundle)) = curve_pk_len d"
    and msg: "initiate_message L d A (sc_aead_id c) bundle pt cap (snd w) = Some (Inr (out, s), r')"
  shows "\<exists>op2. gy_send_initiate L u i bundle pt want cap (gy_send_begin c, w) =
     Some (Inr out, ((gy_send_begin c)\<lparr>sc_op := op2\<rparr>, (fst w, r')))"
proof -
  have p: "\<not> ids_out_of_range u i" "gy_devrec_key L u i = Inr dk" "view (fst w) (GY_REC_DEVICE, dk) = []"
      "view (fst w) (GY_REC_USER, u) = []"
    using peer by (simp_all add: unknown_peer_def)
  have d: "gy_suite_desc L (suite_id d) = Some d" using L(2) by (simp add: live_suite_def)
  obtain op1 where op1: "gy_conditional_update L (suite_id d) u i (pb_ik bundle) want (gy_op_begin (sc_op c) (sc_store c), w) =
      Some (Inr (), (op1, w))" "peer_staged L d (sc_store c) dk (pb_ik bundle) 2 [] op1"
      "op_sess op1 = replicate GY_OP_MAX_SESSIONS None"
    using fresh_update [OF rel L(1,2) p(1,2) ik p(3,4)] by blast
  have s: "session_ok L s" "length (s_id s) = GY_SESSION_ID_LEN" using initiated_session_ok [OF msg L(3,2)] by simp_all
  obtain opa where opa: "gy_op_put_session op1 s = Inr opa" "peer_staged L d (sc_store c) dk (pb_ik bundle) 2 [] opa"
    using put_session_staged [OF op1(2,3) s] by blast
  obtain op2 where op2: "gy_device_insert_session L u i (s_id s) (opa, (fst w, r')) = Some (Inr (), (op2, (fst w, r')))"
    using insert_first_session [OF opa(2) _ p(2) devrec_key_len [OF L(1) p(2)] d L(3) s(2)]
    by (auto simp: GY_OP_MAX_RECORDS_def)
  have "s_comp (initiate_message L d A (sc_aead_id c) bundle pt cap) (op1, w) = Some (Inr (out, s), (op1, (fst w, r')))"
    using msg by (simp add: s_comp_def)
  then show ?thesis
    using op1(1) opa(1) op2 c
    by (intro exI [of _ op2])
      (simp add: gy_send_initiate_def send_initiate_core_def send_run_def gy_send_begin_def finish_initiate_def sm_simps)
qed


lemma initiate_message_succeeds:
  assumes L: "hash_lengths L" "aead_lengths L" "aead_total L" "dh_lengths L" "live_suite L d" "\<not> is_hybrid d" "honest_dh d"
    and aead: "gy_aead_available L aead" and A: "own_key L d A"
    and pb: "bundle_of_local d B bundle" "gy_bundle_validate L d bundle = Inr ()" "pub_curve_type (pb_ik bundle) = curve_type d"
    and gen: "gy_keypair_generate L d r = Some (Inr ek, r1)" "gen_ratchet_keypair L d r1 = Some (Inr kp, r2)"
    and cap: "GY_SEND_INIT_SIZE (length pt) \<le> cap" "length pt + 200 \<le> SIZE_MAX"
  shows "\<exists>out s r'. initiate_message L d A aead bundle pt cap r = Some (Inr (out, s), r') \<and>
     length out \<le> GY_SEND_INIT_SIZE (length pt)"
proof -
  have ok: "suite_ok d" using L(5) by (simp add: live_suite_def)
  have ek: "own_key L d ek" using gen(1) generated_own_key by (simp add: gy_keypair_generate_def)
  have kp: "keypair_of d kp" by (rule generated_keypair_of [OF gen(2)])
  have pk: "length (pub_pk (kp_pub A)) = curve_pk_len d" "length (pub_pk (kp_pub ek)) = curve_pk_len d"
      "length (pub_pk (kp_pub kp)) = curve_pk_len d"
    using keypair_pk_len [OF L(5,4)] A ek kp by (simp_all add: own_key_def)
  let ?p = "x3dh_prefix d (kp_pub A) (kp_pub ek) (pub_pkid (pb_ik bundle)) (pub_pkid (pb_spk bundle)) (pub_pkid (pb_opk bundle))"
  obtain sec ad where i: "gy_x3dh_initiate L d A bundle ek = (Inr (sec, ad, ?p), erase_sk ek)" "length ad \<le> GY_X3DH_AD_MAX"
    using x3dh_initiate_succeeds [OF L(5,7) A ek pb] by blast
  have spk: "keypair_of d (xl_spk B)" "pb_spk bundle = kp_pub (xl_spk B)" using pb(1) by (simp_all add: bundle_of_local_def)
  obtain base where base: "gy_dr_init_alice L d aead sec (pub_pk (pb_spk bundle)) r1 = Some (Inr base, r2)"
      "dr_desc base = d" "dr_aead_id base = aead" "dr_have_cks base = 1" "dr_have_hks base = 1" "dr_dhs base = kp"
    unfolding spk(2) by (rule init_alice_succeeds [OF L(5,7) spk(1) gen(2)])
  let ?z = "session_new ((hd_zero d aead)\<lparr>hd_base := base\<rparr>) ad"
  obtain s0 where s0: "gy_session_id d (kp_pub A) (kp_pub ek) ?z = Inr s0"
    using session_id_succeeds [OF ok, of "kp_pub A" "kp_pub ek" ?z] A ek pk by (auto simp: own_key_def)
  have f: "s_ratchet s0 = (hd_zero d aead)\<lparr>hd_base := base\<rparr>" "s_ad s0 = ad"
    using session_id_ok(1) [OF s0] by (metis session_new_simps)+
  have t: "gy_aead_tag_len aead \<le> 32" by (rule aead_len_bounds)
  have c: "curve_pk_len d \<le> 56" using ok by (simp add: suite_ok_def)
  have plen: "length ?p = 28 + 2 * curve_pk_len d" "length ?p \<le> GY_X3DH_PREFIX_MAX"
    using pk c by (simp_all add: x3dh_prefix_def length_put_pubkey GY_X3DH_PREFIX_MAX_def GY_X3DH_KEY_WIRE_MAX_def)
  have size: "32 + curve_pk_len d + length pt + 2 * gy_aead_tag_len aead \<le> GY_SEND_MSG_SIZE (length pt)"
    using t c unfolding GY_SEND_MSG_SIZE_def GY_HE_SALT_LEN_def GY_DR_ENC_HEADER_MAX_def GY_DR_HEADER_MAX_def GY_AEAD_MAX_TAG_def
    by linarith
  have room: "32 + curve_pk_len d + length pt + 2 * gy_aead_tag_len aead \<le> cap - length ?p" "length ?p \<le> cap"
    using size plen(2) cap(1) by (simp_all add: GY_SEND_INIT_SIZE_def)
  obtain frame base' where e: "gy_dr_encrypt L base (cap - length ?p) pt ad r2 = (Inr frame, base', Suc r2)"
    using dr_encrypt_succeeds [of L base ad pt "cap - length ?p" r2] L(2,3,5) aead base(2-6) i(2) pk(3) cap(2) room(1) by auto
  have flen: "length frame \<le> GY_SEND_MSG_SIZE (length pt)"
    using dr_encrypt_len [OF L(1,2) e] base(2,3,6) pk(3) size by simp
  let ?out = "take (length ?p - 4) ?p @ gy_be32_put (word_of_nat (length frame)) @ frame"
  have "\<exists>s. emit_initial L s0 ?p True pt cap r2 = Some (Inr (?out, s), Suc r2)"
    using room(2) plen(1) e f base(2) L(6) by (simp add: emit_initial_def cbind_def clift_def sess_encrypt_def)
  then obtain s where "initiate_message L d A aead bundle pt cap r = Some (Inr (?out, s), Suc r2)"
    using gen(1) i(1) base(1) s0 by (auto simp: initiate_message_def cbind_def clift_def)
  moreover have "length ?out \<le> GY_SEND_INIT_SIZE (length pt)"
    using plen flen by (simp add: GY_SEND_INIT_SIZE_def)
  ultimately show ?thesis by blast
qed

subsection \<open>The entry point\<close>

text \<open>
  C8. A first send succeeds. In a transaction just begun, with a bundle that passes validation and is
  made of generated keys, to a peer without a record, on a store that does not fail, starting a
  session returns a message as soon as the two key generators return; a buffer of the advertised size
  is enough, the message is no longer than that size, and the store has not been written yet.
\<close>

theorem first_send_succeeds:
  assumes "hash_lengths L" "aead_lengths L" "aead_total L" "dh_lengths L" "live_suite L d" "\<not> is_hybrid d" "honest_dh d"
    and "sc_desc c = d" "sc_local_ik c = Some A" "own_key L d A" "gy_aead_available L (sc_aead_id c)"
    and "reliable_store (sc_store c) view" "unknown_peer L (view (fst w)) u i dk"
    and "bundle_of_local d B bundle" "gy_bundle_validate L d bundle = Inr ()" "pub_curve_type (pb_ik bundle) = curve_type d"
    and "gy_keypair_generate L d (snd w) = Some (Inr ek, r1)" "gen_ratchet_keypair L d r1 = Some (Inr kp, r2)"
    and "GY_SEND_INIT_SIZE (length pt) \<le> cap" "length pt + 200 \<le> SIZE_MAX"
  shows "\<exists>inner c' w'. gy_send_initiate L u i bundle pt want cap (gy_send_begin c, w) = Some (Inr inner, (c', w')) \<and>
     length inner \<le> GY_SEND_INIT_SIZE (length pt) \<and> fst w' = fst w \<and> sc_begun c'"
proof -
  obtain out s r' where m: "initiate_message L d A (sc_aead_id c) bundle pt cap (snd w) = Some (Inr (out, s), r')"
      "length out \<le> GY_SEND_INIT_SIZE (length pt)"
    using initiate_message_succeeds [OF assms(1-7,11,10,14-20)] by blast
  have "keypair_of d (xl_ik B)" "pb_ik bundle = kp_pub (xl_ik B)" using assms(14) by (simp_all add: bundle_of_local_def)
  then have "length (pub_pk (pb_ik bundle)) = curve_pk_len d" using keypair_pk_len [OF assms(5,4)] by simp
  from send_initiate_fresh [OF assms(12,1,5,6,8,9,13,16) this m(1), of want] obtain op2 where
      "gy_send_initiate L u i bundle pt want cap (gy_send_begin c, w) =
       Some (Inr out, ((gy_send_begin c)\<lparr>sc_op := op2\<rparr>, (fst w, r')))" by blast
  then show ?thesis using m(2) by (auto simp: gy_send_begin_def simp del: split_paired_Ex)
qed

end
