(* ===== verification/GY_DeliveryWitness.thy ===== *)
theory GY_DeliveryWitness
  imports GY_SessionWitness GY_FirstSend
begin

text \<open>
  The theorems about the lifecycle of records, the receive transaction and the first contact at
  concrete inputs: a store in memory, a peer with two sessions, and a message sent by one party and
  received by the other over the concrete provider.
\<close>

subsection \<open>The store in memory is reliable\<close>

lemma mem_store_reliable: "reliable_store mem_store (\<lambda>m. m)"
  using mem_store_contract by (simp add: reliable_store_def) (simp add: mem_store_def)

abbreviation empty_mem :: mem where "empty_mem \<equiv> \<lambda>_. []"

abbreviation fresh_mem_op :: "mem gy_op" where "fresh_mem_op \<equiv> gy_op_begin toy_op0 mem_store"

lemma mem_load:
  "stage_lookup op1 k i = None \<Longrightarrow> op_store op1 = mem_store \<Longrightarrow> op_load op1 k i (m, r) = (Inr (m (k, i)), (m, r))"
  by (simp add: op_load_def mem_store_def)

lemma toy_devrec_key: obtains dk where "gy_devrec_key toy [5] [4] = Inr dk"
  by (simp add: gy_devrec_key_def session_consts gy_sha512_def)

lemma toy_ids: "\<not> ids_out_of_range [5] [4]"
  by (simp add: ids_out_of_range_def session_consts)

subsection \<open>Expiry and pinning\<close>

theorem expiry_bounds_witness:
  "(\<exists>cfg. gy_expiry_cfg_init 10 100 7 = Inr cfg) \<and> \<not> (\<exists>cfg. gy_expiry_cfg_init 10 24 7 = Inr cfg)"
  using expiry_bounds [of 7 10 100 toy_session] expiry_bounds [of 7 10 24 toy_session] by simp

lemma toy_key_len: "length (pub_pk (kp_pub (toy_key 5))) = 32" "pub_curve_type (kp_pub (toy_key 5)) = 0x20"
  "length (pub_pk (kp_pub (toy_key 1))) = 32" "pub_curve_type (kp_pub (toy_key 1)) = 0x20"
  by code_simp+

lemma c25519_row: "curve_pk_len c25519 = 32" "curve_type c25519 = 0x20" "\<not> is_hybrid c25519" "suite_id c25519 = 1"
  "kem_pk_len c25519 = 0" "dsa_pk_len c25519 = 0" "op_keypair c25519 = gy_x25519_keypair toy" "op_dh c25519 = gy_x25519 toy"
  by (simp_all add: suite_row_defs wire_const_defs GY_SUITE_C25519_def)

theorem identity_pinned_witness:
  "\<exists>dk op2 d. gy_conditional_update toy 1 [5] [4] (kp_pub (toy_key 5)) True (fresh_mem_op, (empty_mem, 0)) =
       Some (Inr (), (op2, (empty_mem, 0))) \<and>
     gy_op_load_device toy op2 dk (empty_mem, 0) = (Inr (Some d), (empty_mem, 0)) \<and>
     ik_equal c25519 (d_ik d) (kp_pub (toy_key 5))"
proof -
  obtain dk where dk: "gy_devrec_key toy [5] [4] = Inr dk" by (rule toy_devrec_key)
  let ?ik = "kp_pub (toy_key 5)" and ?hik = "\<lparr>hi_base = \<lparr>hp_curve = kp_pub (toy_key 5), hp_mlkem_ek = []\<rparr>, hi_mldsa_pk = []\<rparr>"
  obtain op2 where u: "gy_conditional_update toy 1 [5] [4] ?ik True (fresh_mem_op, (empty_mem, 0)) =
      Some (Inr (), (op2, (empty_mem, 0)))"
    using fresh_update [OF mem_store_reliable toy_hash_lengths toy_live_rows(1) toy_ids dk, of ?ik "(empty_mem, 0)" True toy_op0]
    by (auto simp: toy_key_len c25519_row)
  have len: "length (pub_pk (hp_curve (hi_base ?hik))) = curve_pk_len c25519"
      "length (hp_mlkem_ek (hi_base ?hik)) = kem_pk_len c25519" "length (hi_mldsa_pk ?hik) = dsa_pk_len c25519"
    by (simp_all add: c25519_row toy_key_len)
  have ik: "?ik = hp_curve (hi_base ?hik)" by simp
  note p = identity_pinned [OF rtranclp.rtrancl_refl mem_store_contract suite_desc_lookup(1) [of toy] dk len ik,
      where ?op0.0 = toy_op0 and w = "(empty_mem, 0)" and want = True]
  from p u show ?thesis by (elim conjE allE [of _ op2] allE [of _ "(empty_mem, 0)"]) (auto simp: c25519_row)
qed

subsection \<open>Deletion\<close>

lemma toy_device_suite: "d_suite_id toy_device = 1" "u_user_id toy_user = [5]"
  by (simp_all add: toy_device_def toy_user_def)

lemma toy_user_inv: "user_ok toy_user" "user_inv toy_user"
  by (simp_all add: user_inv_def user_ok_def toy_user_def session_consts)

lemma toy_device_blob:
  obtains b h where "device_any_decode toy b = Inr (h, False)" "b \<noteq> []" "hdv_base h = device_full toy toy_device"
proof -
  have ok: "device_ok toy toy_device"
    by (simp add: device_ok_def devrec_shape_def toy_device_def session_consts)
  obtain b where b: "gy_device_record_encode toy GY_DEVICE_BLOB_MAX toy_device = Inr b"
    using device_blob.enc_ok [OF ok] by blast
  have row: "b ! 2 = 1" "3 \<le> length b"
    using b device_encode [of toy toy_device c25519 GY_DEVICE_BLOB_MAX] toy_device_suite
    by (auto simp: Let_def split: if_splits)
  have "device_any_decode toy b =
      Inr (\<lparr>hdv_base = device_full toy toy_device, hdv_mlkem_ek = [], hdv_mldsa_pk = []\<rparr>, False)"
    using row device_blob.dec_enc [OF ok b] c25519_row(3) by (simp add: device_any_decode_def)
  then show thesis by (rule that) (use row(2) in auto)
qed

lemma toy_user_blob: obtains b where "gy_user_record_decode b = Inr toy_user" "b \<noteq> []"
proof -
  obtain b where b: "gy_user_record_encode GY_USER_BLOB_MAX toy_user = Inr b"
    using user_blob.enc_ok [OF toy_user_inv(1)] by blast
  have "b \<noteq> []" using b by (auto simp: user_encode user_bytes_def split: if_splits)
  then show thesis using that user_blob.dec_enc [OF toy_user_inv(1) b] by simp
qed

text \<open>A memory that holds the user, the device and (under every other key) some other record.\<close>

definition toy_mem :: "bytes \<Rightarrow> bytes \<Rightarrow> bytes \<Rightarrow> mem" where
  "toy_mem dk bd bu = (\<lambda>_. [8])((GY_REC_DEVICE, dk) := bd, (GY_REC_USER, [5]) := bu)"

definition toy_deferred :: "bytes \<Rightarrow> gy_op_defer list" where
  "toy_deferred dk = [GY_OP_DELETE_RECORD GY_REC_SESSION [1, 1, 1, 1], GY_OP_DELETE_RECORD GY_REC_SESSION [2, 2, 2, 2],
     GY_OP_DELETE_RECORD GY_REC_DEVICE dk]"

lemma toy_full_device:
  "d_has_active (device_full toy toy_device) = 1" "d_active (device_full toy toy_device) = [1, 1, 1, 1]"
  "d_inactive (device_full toy toy_device) = [[2, 2, 2, 2]]"
  by (simp_all add: device_full_def devrec_full_def toy_device_def session_consts arr_id)

lemma toy_defer_delete:
  assumes "gy_devrec_key toy [5] [4] = Inr dk" "device_any_decode toy bd = Inr (h, False)" "bd \<noteq> []"
    and "hdv_base h = device_full toy toy_device" "m (GY_REC_DEVICE, dk) = bd"
  shows "defer_delete_device_inner toy [5] [4] (gy_op_begin op1 mem_store, (m, r)) =
     Some (Inr (), ((gy_op_begin op1 mem_store)\<lparr>op_defer := toy_deferred dk\<rparr>, (m, r)))"
proof -
  let ?op = "gy_op_begin op1 mem_store"
  have dk: "dk \<noteq> []" "length dk = 64" using devrec_key_len [OF toy_hash_lengths assms(1)] by auto
  have "stage_lookup ?op k i = None" for k i by (simp add: stage_lookup_slot fresh_op)
  then have load: "gy_op_load_device_any toy ?op dk (m, r) = (Inr (Some (h, False)), (m, r))"
    using assms(2,3,5) by (simp add: gy_op_load_device_any_def load_with_def mem_load fresh_op)
  show ?thesis
    using assms(1,4) load toy_full_device dk
    by (simp add: defer_delete_device_inner_def sm_simps delete_device_sessions_def s_put_def gy_op_delete_def fresh_op
        session_consts GY_OP_MAX_DEFER_def toy_deferred_def)
qed

lemma mem_commits: "op_store op1 = mem_store \<Longrightarrow> \<exists>w'. gy_op_commit op1 w = (Inr (), gy_op_abort op1, w')"
  using reliable_commit [of op1 "\<lambda>m. m" w] mem_store_reliable by simp

lemma toy_user_loads:
  assumes "gy_user_record_decode bu = Inr toy_user" "bu \<noteq> []" "op_store op1 = mem_store" "slot_blob op1 GY_REC_USER [5] = None"
    and "\<not> find_delete GY_REC_USER [5] (op_defer op1)"
  shows "gy_op_load_user op1 [5] (toy_mem dk bd bu, r) = (Inr (Some toy_user), (toy_mem dk bd bu, r))"
  using assms by (simp add: gy_op_load_user_def load_with_def mem_load stage_lookup_slot) (simp add: toy_mem_def)

theorem delete_device_complete_witness:
  "\<exists>dk bd bu op2 w2 op3 w3.
     gy_delete_device toy [5] [4] (fresh_mem_op, (toy_mem dk bd bu, 0)) = Some (Inr (), (op2, w2)) \<and>
     gy_op_commit op2 w2 = (Inr (), op3, w3) \<and> fst w3 (GY_REC_SESSION, [2, 2, 2, 2]) = [] \<and>
     (\<exists>usr'. gy_user_record_decode (fst w3 (GY_REC_USER, [5])) = Inr usr' \<and> [4] \<notin> ud_id ` set (u_devices usr'))"
proof -
  obtain dk where dk: "gy_devrec_key toy [5] [4] = Inr dk" by (rule toy_devrec_key)
  obtain bd h where bd: "device_any_decode toy bd = Inr (h, False)" "bd \<noteq> []" "hdv_base h = device_full toy toy_device"
    by (rule toy_device_blob)
  obtain bu where bu: "gy_user_record_decode bu = Inr toy_user" "bu \<noteq> []" by (rule toy_user_blob)
  let ?m = "toy_mem dk bd bu"
  have m: "?m (GY_REC_DEVICE, dk) = bd" "?m (GY_REC_USER, [5]) = bu" by (simp_all add: toy_mem_def)
  define opa where "opa = fresh_mem_op\<lparr>op_defer := toy_deferred dk\<rparr>"
  have opa: "op_store opa = mem_store" "slot_blob opa k i = None" "\<not> find_delete GY_REC_USER [5] (op_defer opa)" for k i
    using fresh_op(4) [of toy_op0 mem_store k i] fresh_op(2) [of toy_op0 mem_store]
    by (simp_all add: opa_def slot_blob_def toy_deferred_def split: if_splits)
  have inva: "op_inv opa" "length (in_use (op_rec opa)) < GY_OP_MAX_RECORDS"
    using fresh_op(1,5) [of toy_op0 mem_store]
    by (simp_all add: opa_def op_inv_def toy_deferred_def GY_OP_MAX_DEFER_def GY_OP_MAX_RECORDS_def)
  have a: "defer_delete_device_inner toy [5] [4] (fresh_mem_op, (?m, 0)) = Some (Inr (), (opa, (?m, 0)))"
    unfolding opa_def by (rule toy_defer_delete [where m = ?m, OF dk bd m(1)])
  have l: "gy_op_load_user opa [5] (?m, 0) = (Inr (Some toy_user), (?m, 0))"
    by (rule toy_user_loads [OF bu opa])
  obtain usr1 where usr1: "gy_user_device_remove toy_user [4] = Inr usr1" "user_ok usr1"
    using toy_user_inv(1) by (auto simp: gy_user_device_remove_def user_remove_def user_find_def toy_user_def user_ok_def session_consts)
  obtain b where "gy_user_record_encode GY_USER_BLOB_MAX usr1 = Inr b" using user_blob.enc_ok [OF usr1(2)] by blast
  then obtain op2 where op2: "gy_op_put_user opa usr1 = Inr op2"
    using put_rec_room [OF inva, of GY_REC_USER "u_user_id usr1" b] by (auto simp: gy_op_put_user_def)
  have d: "gy_delete_device toy [5] [4] (fresh_mem_op, (?m, 0)) = Some (Inr (), (op2, (?m, 0)))"
    using toy_ids a l usr1(1) op2 by (simp add: gy_delete_device_def sm_simps)
  have "op_store op2 = mem_store" using op2 opa(1) by (auto simp: gy_op_put_user_def rbind_eq_Inr_iff put_rec_def split: option.splits)
  then obtain w3 where c: "gy_op_commit op2 (?m, 0) = (Inr (), gy_op_abort op2, w3)" using mem_commits by blast
  have "(GY_REC_SESSION, [2, 2, 2, 2]) \<in> device_keys toy ?m dk"
    using bd(1,3) m(1) toy_full_device by (simp add: device_keys_def dev_ids_def)
  with delete_device_complete [OF mem_store_contract dk d c, of toy_user] bu(1) m(2) toy_user_inv(2) toy_device_suite(2)
  obtain usr' where "fst w3 (GY_REC_SESSION, [2, 2, 2, 2]) = []" "gy_user_record_decode (fst w3 (GY_REC_USER, [5])) = Inr usr'"
      "[4] \<notin> ud_id ` set (u_devices usr')"
    by auto
  with d c show ?thesis by blast
qed

theorem delete_user_complete_witness:
  "\<exists>dk bd bu op2 w2. gy_delete_user toy mem_store [5] (toy_op0, (toy_mem dk bd bu, 0)) = Some (Inr (), (op2, w2)) \<and>
     fst w2 (GY_REC_USER, [5]) = [] \<and> fst w2 (GY_REC_SESSION, [1, 1, 1, 1]) = []"
proof -
  obtain dk where dk: "gy_devrec_key toy [5] [4] = Inr dk" by (rule toy_devrec_key)
  obtain bd h where bd: "device_any_decode toy bd = Inr (h, False)" "bd \<noteq> []" "hdv_base h = device_full toy toy_device"
    by (rule toy_device_blob)
  obtain bu where bu: "gy_user_record_decode bu = Inr toy_user" "bu \<noteq> []" by (rule toy_user_blob)
  let ?m = "toy_mem dk bd bu"
  have m: "?m (GY_REC_DEVICE, dk) = bd" "?m (GY_REC_USER, [5]) = bu" by (simp_all add: toy_mem_def)
  have l: "gy_op_load_user fresh_mem_op [5] (?m, 0) = (Inr (Some toy_user), (?m, 0))"
    by (rule toy_user_loads [OF bu]) (simp_all add: fresh_op)
  define opa where "opa = gy_op_begin (gy_op_abort fresh_mem_op) mem_store"
  define opb where "opb = opa\<lparr>op_defer := toy_deferred dk\<rparr>"
  have a: "defer_delete_device_inner toy [5] [4] (opa, (?m, 0)) = Some (Inr (), (opb, (?m, 0)))"
    unfolding opa_def opb_def by (rule toy_defer_delete [where m = ?m, OF dk bd m(1)])
  have "op_store opb = mem_store" by (simp add: opb_def opa_def fresh_op)
  then obtain w1 where c1: "gy_op_commit opb (?m, 0) = (Inr (), gy_op_abort opb, w1)" using mem_commits by blast
  define opc where "opc = (gy_op_begin (gy_op_abort opb) mem_store)\<lparr>op_defer := [GY_OP_DELETE_RECORD GY_REC_USER [5]]\<rparr>"
  have p: "gy_op_delete (gy_op_begin (gy_op_abort opb) mem_store) GY_REC_USER [5] = Inr opc"
    by (simp add: gy_op_delete_def opc_def fresh_op session_consts GY_OP_MAX_DEFER_def)
  have "op_store opc = mem_store" by (simp add: opc_def fresh_op)
  then obtain w2 where c2: "gy_op_commit opc w1 = (Inr (), gy_op_abort opc, w2)" using mem_commits by blast
  have devs: "map ud_id (u_devices toy_user) = [[4]]" by (simp add: toy_user_def)
  have "delete_user_devices toy mem_store [5] [[4]] (gy_op_abort fresh_mem_op, (?m, 0)) = Some (Inr (), (gy_op_abort opb, w1))"
    using a c1 by (simp add: sm_simps s_begin_def s_or_abort_def s_commit_def opa_def [symmetric])
  then have d: "gy_delete_user toy mem_store [5] (toy_op0, (?m, 0)) = Some (Inr (), (gy_op_abort opc, w2))"
    using l p c2 devs
    by (simp add: gy_delete_user_def session_consts sm_simps s_begin_def s_or_abort_def s_abort_def s_commit_def s_load_def s_put_def
        del: delete_user_devices.simps)
  have "(GY_REC_SESSION, [1, 1, 1, 1]) \<in> device_keys toy ?m dk"
    using bd(1,3) m(1) toy_full_device by (simp add: device_keys_def dev_ids_def)
  with delete_user_complete [OF mem_store_contract d, of toy_user] bu(1) m(2) dk
  have "fst w2 (GY_REC_USER, [5]) = []" "fst w2 (GY_REC_SESSION, [1, 1, 1, 1]) = []" by (auto simp: toy_user_def)
  with d show ?thesis by blast
qed

subsection \<open>First contact\<close>

lemma toy_honest_dh: "honest_dh c25519"
proof -
  have nz: "\<not> gy_is_zero (map2 (OR) (pad 32 (clamp25519 (replicate 32 b))) (pad 32 q))" for b q
  proof -
    have "bit (map2 (OR) (pad 32 (clamp25519 (replicate 32 b))) (pad 32 q) ! 31) 6"
      by (simp add: clamp25519_def pad_def bit_simps Let_def)
    then have "map2 (OR) (pad 32 (clamp25519 (replicate 32 b))) (pad 32 q) ! 31 \<noteq> 0" by auto
    then show ?thesis by (auto simp: gy_is_zero_def list_all_length intro!: exI [of _ 31])
  qed
  show ?thesis unfolding honest_dh_def
  proof (intro allI impI)
    fix a b assume "keypair_of c25519 a" "keypair_of c25519 b"
    then obtain r r' where "gy_x25519_keypair toy r = (Inr (pub_pk (kp_pub a), kp_sk a), r')"
      unfolding keypair_of_def c25519_row by blast
    then have "kp_sk a = clamp25519 (replicate 32 (of_nat r + 7))"
      by (simp add: gy_x25519_keypair_def gy_random_bytes_def toy_fields Let_def)
    then show "\<exists>x. op_dh c25519 (kp_sk a) (pub_pk (kp_pub b)) = Inr x"
      using nz by (simp add: c25519_row gy_x25519_def) (simp add: toy_def)
  qed
qed

definition toy_alice_ctx :: "mem gy_send_ctx" where
  "toy_alice_ctx = \<lparr>sc_store = mem_store, sc_desc = c25519, sc_local_ik = Some (toy_key 5), sc_aead_id = 1,
     sc_expiry = gy_expiry_cfg_disable, sc_self_user_id = None, sc_self_device_id = None, sc_op = toy_op0, sc_begun = False\<rparr>"

text \<open>Bob has rotated his signed prekey since the bundle was published.\<close>

definition toy_bob_ctx :: "mem gy_recv_ctx" where
  "toy_bob_ctx = gy_recv_ctx_init mem_store c25519 (Some (toy_key 1)) [toy_key 6, toy_key 2] [toy_key 3, toy_key 4] 1 None None"

lemma toy_bob_fields:
  "rx_desc toy_bob_ctx = c25519" "rx_store toy_bob_ctx = mem_store" "rx_aead_id toy_bob_ctx = 1"
  "rx_local_ik toy_bob_ctx = Some (toy_key 1)" "rx_spks toy_bob_ctx = [toy_key 6, toy_key 2]"
  "rx_opks toy_bob_ctx = [toy_key 3, toy_key 4]"
  by (simp_all add: toy_bob_ctx_def gy_recv_ctx_init_def)

lemma toy_serves: "serves c25519 toy_bob_ctx toy_bundle"
proof -
  have "pub_pkid (kp_pub (toy_key 6)) \<noteq> pub_pkid (kp_pub (toy_key 2))" by code_simp
  then show ?thesis
    using toy_bundle_local unfolding serves_def toy_bob_fields toy_local_def
    by (intro conjI exI [of _ "toy_key 1"] exI [of _ "toy_key 2"] exI [of _ "[toy_key 6]"] exI [of _ "[]"]) auto
qed

lemma toy_unknown: "\<exists>dk. unknown_peer toy empty_mem [5] [4] dk"
  using toy_ids by (auto simp: unknown_peer_def intro: toy_devrec_key)

lemma toy_generates:
  obtains ek r1 kp r2 where "gy_keypair_generate toy c25519 6 = Some (Inr ek, r1)" "gen_ratchet_keypair toy c25519 r1 = Some (Inr kp, r2)"
proof -
  have a: "case gy_keypair_generate toy c25519 6 of None \<Rightarrow> False | Some (Inl e, r) \<Rightarrow> False | Some (Inr k, r) \<Rightarrow> r = 7"
    by code_simp
  have b: "case gen_ratchet_keypair toy c25519 7 of None \<Rightarrow> False | Some (Inl e, r) \<Rightarrow> False | Some (Inr k, r) \<Rightarrow> True"
    by code_simp
  from case_Some_InrD [OF a] case_Some_InrD [OF b] show thesis using that by blast
qed

lemma toy_bundle_facts:
  "gy_bundle_validate toy c25519 toy_bundle = Inr ()" "pub_curve_type (pb_ik toy_bundle) = curve_type c25519"
  "length (pub_pk (pb_ik toy_bundle)) = curve_pk_len c25519"
proof -
  show "gy_bundle_validate toy c25519 toy_bundle = Inr ()"
    by (rule toy_initiates) (rule x3dh_initiate_ok)
  show "pub_curve_type (pb_ik toy_bundle) = curve_type c25519" "length (pub_pk (pb_ik toy_bundle)) = curve_pk_len c25519"
    unfolding toy_bundle_def gy_prekey_bundle.simps toy_key_len c25519_row by (rule refl)+
qed

lemma toy_size: "GY_SEND_INIT_SIZE (length [1, 2, 3 :: u8]) = 295"
  by (simp add: GY_SEND_INIT_SIZE_def GY_SEND_MSG_SIZE_def GY_HE_SALT_LEN_def GY_DR_ENC_HEADER_MAX_def GY_DR_HEADER_MAX_def
      GY_AEAD_MAX_TAG_def GY_X3DH_PREFIX_MAX_def GY_X3DH_KEY_WIRE_MAX_def)

lemma toy_message:
  obtains inner s r where "initiate_message toy c25519 (toy_key 5) 1 toy_bundle [1, 2, 3] 500 6 = Some (Inr (inner, s), r)"
    "length inner < 2 ^ 32"
proof -
  obtain ek r1 kp r2 where g: "gy_keypair_generate toy c25519 6 = Some (Inr ek, r1)"
      "gen_ratchet_keypair toy c25519 r1 = Some (Inr kp, r2)" by (rule toy_generates)
  have own: "own_key toy c25519 (toy_key 5)" by (simp add: toy_key_own)
  have cap: "GY_SEND_INIT_SIZE (length [1, 2, 3 :: u8]) \<le> 500" "length [1, 2, 3 :: u8] + 200 \<le> SIZE_MAX"
    unfolding toy_size by (simp_all add: SIZE_MAX_def)
  obtain inner s r where "initiate_message toy c25519 (toy_key 5) 1 toy_bundle [1, 2, 3] 500 6 = Some (Inr (inner, s), r)"
      "length inner \<le> GY_SEND_INIT_SIZE (length [1, 2, 3 :: u8])"
    using initiate_message_succeeds [OF toy_hash_lengths toy_aead_lengths toy_aead_total toy_dh_lengths toy_live_rows(1)
        c25519_row(3) toy_honest_dh toy_aead_available own toy_bundle_local toy_bundle_facts(1,2) g cap] by blast
  then show thesis using that unfolding toy_size by simp
qed

theorem first_send_succeeds_witness:
  "\<exists>inner c' w'. gy_send_initiate toy [5] [4] toy_bundle [1, 2, 3] True 295 (gy_send_begin toy_alice_ctx, (empty_mem, 6)) =
     Some (Inr inner, (c', w')) \<and> length inner \<le> 295"
proof -
  obtain ek r1 kp r2 where g: "gy_keypair_generate toy c25519 (snd (empty_mem, 6)) = Some (Inr ek, r1)"
      "gen_ratchet_keypair toy c25519 r1 = Some (Inr kp, r2)" using toy_generates by (metis snd_conv)
  obtain dk where "unknown_peer toy empty_mem [5] [4] dk" using toy_unknown by blast
  then have dk: "unknown_peer toy (fst (empty_mem, 6 :: nat)) [5] [4] dk" by simp
  have own: "own_key toy c25519 (toy_key 5)" by (simp add: toy_key_own)
  have c: "sc_desc toy_alice_ctx = c25519" "sc_local_ik toy_alice_ctx = Some (toy_key 5)"
      "gy_aead_available toy (sc_aead_id toy_alice_ctx)" "reliable_store (sc_store toy_alice_ctx) (\<lambda>m. m)"
    by (simp_all add: toy_alice_ctx_def toy_aead_available mem_store_reliable)
  have cap: "GY_SEND_INIT_SIZE (length [1, 2, 3 :: u8]) \<le> 295" "length [1, 2, 3 :: u8] + 200 \<le> SIZE_MAX"
    unfolding toy_size by (simp_all add: SIZE_MAX_def)
  from first_send_succeeds [OF toy_hash_lengths toy_aead_lengths toy_aead_total toy_dh_lengths toy_live_rows(1)
      c25519_row(3) toy_honest_dh c(1,2) own c(3,4) dk toy_bundle_local toy_bundle_facts(1,2) g cap, of True]
  show ?thesis unfolding toy_size by blast
qed

lemma toy_sends:
  obtains inner c' w' where "length inner < 2 ^ 32"
    "gy_send_initiate toy [5] [4] toy_bundle [1, 2, 3] True 500 (gy_send_begin toy_alice_ctx, (empty_mem, 6)) =
       Some (Inr inner, (c', w'))"
proof -
  obtain inner s r where m: "initiate_message toy c25519 (toy_key 5) 1 toy_bundle [1, 2, 3] 500 6 = Some (Inr (inner, s), r)"
      "length inner < 2 ^ 32" by (rule toy_message)
  obtain dk where dk: "unknown_peer toy empty_mem [5] [4] dk" using toy_unknown by blast
  have "\<exists>op2. gy_send_initiate toy [5] [4] toy_bundle [1, 2, 3] True 500 (gy_send_begin toy_alice_ctx, (empty_mem, 6)) =
      Some (Inr inner, ((gy_send_begin toy_alice_ctx)\<lparr>sc_op := op2\<rparr>, (fst (empty_mem, 6 :: nat), r)))"
    by (rule send_initiate_fresh [where view = "\<lambda>m. m" and dk = dk, OF _ toy_hash_lengths toy_live_rows(1) c25519_row(3) _ _ _ toy_bundle_facts(2,3)])
      (use mem_store_reliable dk m(1) in \<open>simp_all add: toy_alice_ctx_def\<close>)
  then show thesis using that [OF m(2)] by blast
qed

theorem first_message_delivered_witness:
  "\<exists>inner c' w' c2 w2 dk dev.
     gy_send_initiate toy [5] [4] toy_bundle [1, 2, 3] True 500 (gy_send_begin toy_alice_ctx, (empty_mem, 6)) =
       Some (Inr inner, (c', w')) \<and>
     gy_recv toy [5] [4] ([GY_WIRE_VERSION, 1, GY_MSG_INIT] @ inner) 10 (toy_bob_ctx, (empty_mem, 5)) =
       Some (Inr [1, 2, 3], (c2, w2)) \<and>
     gy_device_record_decode toy (fst w2 (GY_REC_DEVICE, dk)) = Inr dev \<and> ik_equal c25519 (d_ik dev) (kp_pub (toy_key 5))"
proof -
  obtain inner c' w' where a: "length inner < 2 ^ 32"
    "gy_send_initiate toy [5] [4] toy_bundle [1, 2, 3] True 500 (gy_send_begin toy_alice_ctx, (empty_mem, 6)) =
       Some (Inr inner, (c', w'))" by (rule toy_sends)
  obtain dk where dk: "unknown_peer toy empty_mem [5] [4] dk" using toy_unknown by blast
  obtain kp dhn where kp: "gen_ratchet_keypair toy c25519 5 = Some (Inr kp, 6)"
      "op_dh c25519 (kp_sk kp) (pub_pk (kp_pub (dr_dhs toy_alice))) = Inr dhn" by (rule toy_fresh_key)
  have c: "sc_desc (gy_send_begin toy_alice_ctx) = c25519" "sc_local_ik (gy_send_begin toy_alice_ctx) = Some (toy_key 5)"
      "rx_aead_id toy_bob_ctx = sc_aead_id (gy_send_begin toy_alice_ctx)"
    by (simp_all add: gy_send_begin_def toy_alice_ctx_def toy_bob_fields)
  have own: "own_key toy c25519 (toy_key 5)" by (simp add: toy_key_own)
  have st: "reliable_store (rx_store toy_bob_ctx) (\<lambda>m. m)" by (simp add: toy_bob_fields mem_store_reliable)
  have "unknown_peer toy (fst (empty_mem, 5 :: nat)) [5] [4] dk" "gen_ratchet_keypair toy c25519 (snd (empty_mem, 5)) = Some (Inr kp, 6)"
    using dk kp(1) by simp_all
  from first_message_delivered [OF toy_hash_lengths toy_aead_lengths toy_aead_correct toy_dh_commutes toy_dh_lengths
      toy_live_rows(1) c25519_row(3) toy_honest_dh c(1,2) own a(2,1) toy_serves c(3) st this, of 10]
  show ?thesis unfolding c25519_row(4) using a(2) by (auto simp del: split_paired_Ex)
qed

theorem receive_is_atomic_witness:
  "\<exists>c' w'. gy_recv toy [5] [4] [7, 7, 7] 10 (toy_bob_ctx, (empty_mem, 5)) = Some (Inl GY_ERR_VERIFY, (c', w')) \<and>
     fst w' = empty_mem"
proof -
  have st: "store_contract (rx_store toy_bob_ctx) (\<lambda>m. m)" by (simp add: toy_bob_fields mem_store_contract)
  have "\<exists>c' w'. gy_recv toy [5] [4] [7, 7, 7] 10 (toy_bob_ctx, (empty_mem, 5)) = Some (Inl GY_ERR_VERIFY, (c', w'))"
    by (simp add: gy_recv_def recv_process_def with_ctx_def recv_end_def s_res_def GY_WIRE_VERSION_def)
  then obtain c' w' where r: "gy_recv toy [5] [4] [7, 7, 7] 10 (toy_bob_ctx, (empty_mem, 5)) = Some (Inl GY_ERR_VERIFY, (c', w'))"
    by blast
  have "op_store op1 = mem_store" if "(op_step toy)\<^sup>*\<^sup>* (gy_op_begin (rx_op toy_bob_ctx) (rx_store toy_bob_ctx)) op1" for op1
    using op_reach_inv [OF that] by (simp add: toy_bob_fields)
  then have "\<nexists>op1 w1 e. (op_step toy)\<^sup>*\<^sup>* (gy_op_begin (rx_op toy_bob_ctx) (rx_store toy_bob_ctx)) op1 \<and>
      gy_op_commit op1 w1 = (Inl e, gy_op_abort op1, w')"
    using mem_commits by (metis Inl_Inr_False prod.inject)
  then have "fst w' = empty_mem" using receive_is_atomic [OF st disjI1 [OF r]] by auto
  with r show ?thesis by blast
qed

end
