(* ===== verification/GY_Wire.thy ===== *)
theory GY_Wire
  imports GY_Recv
begin

text \<open>
  The wire formats of \<^verbatim>\<open>src/proto/envelope.c\<close>: the typed envelope, published prekey bundles, batches of
  one-time prekeys and certificates of application signing keys, classical and hybrid. The reading
  pointer of the source is the rest of the buffer; the parsers test the length before they read.
\<close>

subsection \<open>Local endian helpers\<close>

definition put_be32 :: "u32 \<Rightarrow> bytes" where
  "put_be32 v = [ucast (drop_bit 24 v), ucast (drop_bit 16 v), ucast (drop_bit 8 v), ucast v]"

definition get_be32 :: "bytes \<Rightarrow> u32" where
  "get_be32 p = or (or (or (push_bit 24 (ucast (p ! 0))) (push_bit 16 (ucast (p ! 1)))) (push_bit 8 (ucast (p ! 2)))) (ucast (p ! 3))"

text \<open>The loop writes from the last byte to the first.\<close>

fun put_be64_loop :: "nat \<Rightarrow> u64 \<Rightarrow> bytes \<Rightarrow> bytes" where
  "put_be64_loop 0 v p = p"
| "put_be64_loop (Suc k) v p = put_be64_loop k (drop_bit 8 v) (ucast v # p)"

definition put_be64 :: "u64 \<Rightarrow> bytes" where
  "put_be64 v = put_be64_loop 8 v []"

definition get_be64 :: "bytes \<Rightarrow> u64" where
  "get_be64 p = foldl (\<lambda>v b. or (push_bit 8 v) (ucast b)) 0 (take 8 p)"

subsection \<open>The envelope\<close>

definition GY_ENVELOPE_HDR_LEN :: nat where "GY_ENVELOPE_HDR_LEN = 3"

definition gy_envelope_put :: "nat \<Rightarrow> u8 \<Rightarrow> u8 \<Rightarrow> bytes \<Rightarrow> bytes res" where
  "gy_envelope_put cap suite msg_type inner =
     (if msg_type \<noteq> GY_MSG_INIT \<and> msg_type \<noteq> GY_MSG_DR then Inl GY_ERR_ARG
      else if cap < GY_ENVELOPE_HDR_LEN + length inner then Inl GY_ERR_ARG
      else Inr ([GY_WIRE_VERSION, suite, msg_type] @ inner))"

definition gy_envelope_parse :: "u8 \<Rightarrow> bytes \<Rightarrow> (u8 \<times> bytes) res" where
  "gy_envelope_parse expected_suite buf =
     (if length buf < GY_ENVELOPE_HDR_LEN then Inl GY_ERR_ARG
      else if buf ! 0 \<noteq> GY_WIRE_VERSION then Inl GY_ERR_ARG
      else if buf ! 1 \<noteq> expected_suite then Inl GY_ERR_STATE
      else if buf ! 2 \<noteq> GY_MSG_INIT \<and> buf ! 2 \<noteq> GY_MSG_DR then Inl GY_ERR_ARG
      else
        let inner = drop GY_ENVELOPE_HDR_LEN buf in
        if length inner < 2 \<or> inner ! 0 \<noteq> buf ! 0 \<or> inner ! 1 \<noteq> buf ! 1 then Inl GY_ERR_ARG
        else Inr (buf ! 2, inner))"

subsection \<open>Keys\<close>

definition put_key :: "nat \<Rightarrow> gy_public_key \<Rightarrow> bytes" where
  "put_key cpl k = put_be32 (pub_pkid k) @ [pub_curve_type k] @ take cpl (pub_pk k)"

definition get_key :: "nat \<Rightarrow> bytes \<Rightarrow> gy_public_key \<times> bytes" where
  "get_key cpl p =
     (let p4 = drop 4 p; p5 = drop 1 p4 in
      (\<lparr>pub_pkid = get_be32 p, pub_curve_type = p4 ! 0, pub_pk = take cpl p5\<rparr>, drop cpl p5))"

definition put_hpub :: "nat \<Rightarrow> nat \<Rightarrow> gy_hybrid_public_key \<Rightarrow> bytes" where
  "put_hpub cpl ekl k =
     put_be32 (pub_pkid (hp_curve k)) @ [pub_curve_type (hp_curve k)] @ take cpl (pub_pk (hp_curve k)) @
     take ekl (hp_mlkem_ek k)"

definition get_hpub :: "nat \<Rightarrow> nat \<Rightarrow> bytes \<Rightarrow> gy_hybrid_public_key \<times> bytes" where
  "get_hpub cpl ekl p =
     (let p4 = drop 4 p; p5 = drop 1 p4; p6 = drop cpl p5 in
      (\<lparr>hp_curve = \<lparr>pub_pkid = get_be32 p, pub_curve_type = p4 ! 0, pub_pk = take cpl p5\<rparr>, hp_mlkem_ek = take ekl p6\<rparr>,
       drop ekl p6))"

text \<open>The loop that fills an array of keys.\<close>

fun get_loop :: "(bytes \<Rightarrow> 'k \<times> bytes) \<Rightarrow> nat \<Rightarrow> bytes \<Rightarrow> 'k list \<times> bytes" where
  "get_loop get 0 p = ([], p)"
| "get_loop get (Suc n) p = (let (k, p1) = get p; (ks, p2) = get_loop get n p1 in (k # ks, p2))"

subsection \<open>Prekey bundles\<close>

definition gy_bundle_wire_len :: "gy_suite_desc \<Rightarrow> bool \<Rightarrow> nat" where
  "gy_bundle_wire_len desc with_opk =
     (let kw = 4 + 1 + curve_pk_len desc in 2 + 2 * kw + 8 + sig_len desc + 1 + (if with_opk then kw else 0))"

definition gy_bundle_put :: "nat \<Rightarrow> gy_suite_desc \<Rightarrow> gy_prekey_bundle \<Rightarrow> bytes res" where
  "gy_bundle_put cap desc b =
     (let cpl = curve_pk_len desc; present = (pub_pkid (pb_opk b) \<noteq> 0) in
      if cap < gy_bundle_wire_len desc present then Inl GY_ERR_ARG
      else Inr ([GY_WIRE_VERSION, suite_id desc] @ put_key cpl (pb_ik b) @ put_key cpl (pb_spk b) @
             put_be64 (pb_spk_timestamp b) @ take (sig_len desc) (pb_spk_sig b) @
             (if present then 1 # put_key cpl (pb_opk b) else [0])))"

text \<open>A key whose structure has been zeroed.\<close>

definition absent_key :: "nat \<Rightarrow> gy_public_key" where
  "absent_key cpl = \<lparr>pub_pkid = 0, pub_curve_type = 0, pub_pk = replicate cpl 0\<rparr>"

definition gy_bundle_parse :: "gy_suite_desc \<Rightarrow> bytes \<Rightarrow> gy_prekey_bundle res" where
  "gy_bundle_parse desc buf =
     (let cpl = curve_pk_len desc; siglen = sig_len desc; kw = 4 + 1 + cpl; need = 2 + 2 * kw + 8 + siglen + 1 in
      if length buf < need then Inl GY_ERR_ARG
      else if buf ! 0 \<noteq> GY_WIRE_VERSION then Inl GY_ERR_ARG
      else if buf ! 1 \<noteq> suite_id desc then Inl GY_ERR_STATE
      else
        let (ik, p1) = get_key cpl (drop 2 buf);
            (spk, p2) = get_key cpl p1;
            ts = get_be64 p2; p3 = drop 8 p2;
            sig = take siglen p3; p4 = drop siglen p3;
            present = p4 ! 0; p5 = drop 1 p4 in
        if present \<noteq> 0 \<and> length buf < need + kw then Inl GY_ERR_ARG
        else
          let (opk, p6) = (if present \<noteq> 0 then get_key cpl p5 else (absent_key cpl, p5)) in
          if p6 \<noteq> [] then Inl GY_ERR_ARG
          else Inr \<lparr>pb_ik = ik, pb_spk = spk, pb_spk_timestamp = ts, pb_spk_sig = sig, pb_opk = opk\<rparr>)"

definition gy_proto_fingerprint :: "gy_suite_desc \<Rightarrow> gy_public_key \<Rightarrow> bytes res" where
  "gy_proto_fingerprint desc ik = gy_identity_fingerprint desc ik"

definition gy_hybrid_bundle_wire_len :: "gy_suite_desc \<Rightarrow> nat" where
  "gy_hybrid_bundle_wire_len desc =
     (let hpub = 4 + 1 + curve_pk_len desc + kem_pk_len desc; ik = hpub + dsa_pk_len desc;
          spk = hpub + 4 + 8 + 8 + sig_len desc + dsa_sig_len desc in 2 + ik + spk + hpub)"

definition gy_hybrid_bundle_put :: "nat \<Rightarrow> gy_suite_desc \<Rightarrow> gy_hybrid_prekey_bundle \<Rightarrow> bytes res" where
  "gy_hybrid_bundle_put cap desc b =
     (if \<not> is_hybrid desc then Inl GY_ERR_STATE
      else
        let cpl = curve_pk_len desc; ekl = kem_pk_len desc in
        if cap < gy_hybrid_bundle_wire_len desc then Inl GY_ERR_ARG
        else Inr ([GY_WIRE_VERSION, suite_id desc] @ put_hpub cpl ekl (hi_base (hpb_ik b)) @
               take (dsa_pk_len desc) (hi_mldsa_pk (hpb_ik b)) @ put_hpub cpl ekl (hpb_spk b) @
               put_be32 (hpb_spk_ik_id b) @ put_be64 (hpb_spk_timestamp b) @ put_be64 (hpb_spk_flags b) @
               take (sig_len desc) (hpb_spk_ed_sig b) @ take (dsa_sig_len desc) (hpb_spk_mldsa_sig b) @
               put_hpub cpl ekl (hpb_opk b)))"

definition gy_hybrid_bundle_parse :: "gy_suite_desc \<Rightarrow> bytes \<Rightarrow> gy_hybrid_prekey_bundle res" where
  "gy_hybrid_bundle_parse desc buf =
     (if \<not> is_hybrid desc then Inl GY_ERR_STATE
      else if length buf \<noteq> gy_hybrid_bundle_wire_len desc then Inl GY_ERR_ARG
      else if buf ! 0 \<noteq> GY_WIRE_VERSION then Inl GY_ERR_ARG
      else if buf ! 1 \<noteq> suite_id desc then Inl GY_ERR_STATE
      else
        let cpl = curve_pk_len desc; ekl = kem_pk_len desc; dpl = dsa_pk_len desc; siglen = sig_len desc; dsiglen = dsa_sig_len desc;
            (ik, p1) = get_hpub cpl ekl (drop 2 buf);
            mldsa_pk = take dpl p1; p2 = drop dpl p1;
            (spk, p3) = get_hpub cpl ekl p2;
            ik_id = get_be32 p3; p4 = drop 4 p3;
            ts = get_be64 p4; p5 = drop 8 p4;
            flags = get_be64 p5; p6 = drop 8 p5;
            ed_sig = take siglen p6; p7 = drop siglen p6;
            mldsa_sig = take dsiglen p7; p8 = drop dsiglen p7;
            (opk, p9) = get_hpub cpl ekl p8 in
        Inr \<lparr>hpb_ik = \<lparr>hi_base = ik, hi_mldsa_pk = mldsa_pk\<rparr>, hpb_spk = spk, hpb_spk_timestamp = ts, hpb_spk_flags = flags,
              hpb_spk_ik_id = ik_id, hpb_spk_ed_sig = ed_sig, hpb_spk_mldsa_sig = mldsa_sig, hpb_opk = opk\<rparr>)"

subsection \<open>Batches of one-time prekeys\<close>

definition put_count :: "nat \<Rightarrow> bytes" where
  "put_count n = [word_of_nat (drop_bit 8 n), word_of_nat n]"

definition get_count :: "bytes \<Rightarrow> nat" where
  "get_count buf = or (push_bit 8 (unat (buf ! 2))) (unat (buf ! 3))"

definition gy_opk_batch_wire_len :: "gy_suite_desc \<Rightarrow> nat \<Rightarrow> nat" where
  "gy_opk_batch_wire_len desc n = (let kw = 4 + 1 + curve_pk_len desc in 2 + 2 + n * kw)"

definition gy_opk_batch_put :: "nat \<Rightarrow> gy_suite_desc \<Rightarrow> gy_public_key list \<Rightarrow> bytes res" where
  "gy_opk_batch_put cap desc keys =
     (if cap < gy_opk_batch_wire_len desc (length keys) then Inl GY_ERR_ARG
      else if length keys > 0xFFFF then Inl GY_ERR_TOOLONG
      else Inr ([GY_WIRE_VERSION, suite_id desc] @ put_count (length keys) @ concat (map (put_key (curve_pk_len desc)) keys)))"

definition gy_opk_batch_parse :: "nat \<Rightarrow> gy_suite_desc \<Rightarrow> bytes \<Rightarrow> gy_public_key list res" where
  "gy_opk_batch_parse out_cap desc buf =
     (if length buf < 4 then Inl GY_ERR_ARG
      else if buf ! 0 \<noteq> GY_WIRE_VERSION then Inl GY_ERR_ARG
      else if buf ! 1 \<noteq> suite_id desc then Inl GY_ERR_STATE
      else
        let cpl = curve_pk_len desc; kw = 4 + 1 + cpl; count = get_count buf in
        if count > out_cap then Inl GY_ERR_TOOLONG
        else if length buf \<noteq> 4 + count * kw then Inl GY_ERR_ARG
        else Inr (fst (get_loop (get_key cpl) count (drop 4 buf))))"

definition gy_hybrid_opk_batch_wire_len :: "gy_suite_desc \<Rightarrow> nat \<Rightarrow> nat" where
  "gy_hybrid_opk_batch_wire_len desc n = (let hpub = 4 + 1 + curve_pk_len desc + kem_pk_len desc in 2 + 2 + n * hpub)"

definition gy_hybrid_opk_batch_put :: "nat \<Rightarrow> gy_suite_desc \<Rightarrow> gy_hybrid_public_key list \<Rightarrow> bytes res" where
  "gy_hybrid_opk_batch_put cap desc keys =
     (if \<not> is_hybrid desc then Inl GY_ERR_STATE
      else if length keys > 0xFFFF then Inl GY_ERR_TOOLONG
      else if cap < gy_hybrid_opk_batch_wire_len desc (length keys) then Inl GY_ERR_ARG
      else Inr ([GY_WIRE_VERSION, suite_id desc] @ put_count (length keys) @
             concat (map (put_hpub (curve_pk_len desc) (kem_pk_len desc)) keys)))"

definition gy_hybrid_opk_batch_parse :: "nat \<Rightarrow> gy_suite_desc \<Rightarrow> bytes \<Rightarrow> gy_hybrid_public_key list res" where
  "gy_hybrid_opk_batch_parse out_cap desc buf =
     (if \<not> is_hybrid desc then Inl GY_ERR_STATE
      else if length buf < 4 then Inl GY_ERR_ARG
      else if buf ! 0 \<noteq> GY_WIRE_VERSION then Inl GY_ERR_ARG
      else if buf ! 1 \<noteq> suite_id desc then Inl GY_ERR_STATE
      else
        let cpl = curve_pk_len desc; ekl = kem_pk_len desc; hpub = 4 + 1 + cpl + ekl; count = get_count buf in
        if count > out_cap then Inl GY_ERR_TOOLONG
        else if length buf \<noteq> 4 + count * hpub then Inl GY_ERR_ARG
        else Inr (fst (get_loop (get_hpub cpl ekl) count (drop 4 buf))))"

subsection \<open>Certificates of application signing keys\<close>

text \<open>The out-parameters of the two parsers.\<close>

record gy_appkey_cert =
  ac_sak_pub :: gy_public_key
  ac_issued_at :: u64
  ac_expiry :: u64
  ac_identity_pkid :: u32
  ac_identity_sig :: bytes

record gy_hybrid_appkey_cert = gy_appkey_cert +
  ac_sak_mldsa_pk :: bytes
  ac_identity_mldsa_sig :: bytes

definition gy_appkey_cert_wire_len :: "gy_suite_desc \<Rightarrow> nat" where
  "gy_appkey_cert_wire_len desc = (let kw = 4 + 1 + curve_pk_len desc in 1 + 1 + kw + 8 + 8 + 4 + sig_len desc)"

definition gy_appkey_cert_put :: "nat \<Rightarrow> gy_suite_desc \<Rightarrow> gy_appkey_cert \<Rightarrow> bytes res" where
  "gy_appkey_cert_put cap desc c =
     (if cap < gy_appkey_cert_wire_len desc then Inl GY_ERR_ARG
      else Inr ([GY_WIRE_VERSION, suite_id desc] @ put_key (curve_pk_len desc) (ac_sak_pub c) @ put_be64 (ac_issued_at c) @
             put_be64 (ac_expiry c) @ put_be32 (ac_identity_pkid c) @ take (sig_len desc) (ac_identity_sig c)))"

definition gy_appkey_cert_parse :: "gy_suite_desc \<Rightarrow> bytes \<Rightarrow> gy_appkey_cert res" where
  "gy_appkey_cert_parse desc buf =
     (let cpl = curve_pk_len desc; siglen = sig_len desc; kw = 4 + 1 + cpl in
      if length buf \<noteq> 1 + 1 + kw + 8 + 8 + 4 + siglen then Inl GY_ERR_ARG
      else if buf ! 0 \<noteq> GY_WIRE_VERSION then Inl GY_ERR_ARG
      else if buf ! 1 \<noteq> suite_id desc then Inl GY_ERR_STATE
      else
        let (sak, p1) = get_key cpl (drop 2 buf); p2 = drop 8 p1; p3 = drop 8 p2; p4 = drop 4 p3 in
        Inr \<lparr>ac_sak_pub = sak, ac_issued_at = get_be64 p1, ac_expiry = get_be64 p2, ac_identity_pkid = get_be32 p3,
             ac_identity_sig = take siglen p4\<rparr>)"

definition gy_hybrid_appkey_cert_wire_len :: "gy_suite_desc \<Rightarrow> nat" where
  "gy_hybrid_appkey_cert_wire_len desc =
     (let kw = 4 + 1 + curve_pk_len desc in 1 + 1 + kw + dsa_pk_len desc + 8 + 8 + 4 + sig_len desc + dsa_sig_len desc)"

definition gy_hybrid_appkey_cert_put :: "nat \<Rightarrow> gy_suite_desc \<Rightarrow> gy_hybrid_appkey_cert \<Rightarrow> bytes res" where
  "gy_hybrid_appkey_cert_put cap desc c =
     (if \<not> is_hybrid desc then Inl GY_ERR_STATE
      else if cap < gy_hybrid_appkey_cert_wire_len desc then Inl GY_ERR_ARG
      else Inr ([GY_WIRE_VERSION, suite_id desc] @ put_key (curve_pk_len desc) (ac_sak_pub c) @
             take (dsa_pk_len desc) (ac_sak_mldsa_pk c) @ put_be64 (ac_issued_at c) @ put_be64 (ac_expiry c) @
             put_be32 (ac_identity_pkid c) @ take (sig_len desc) (ac_identity_sig c) @
             take (dsa_sig_len desc) (ac_identity_mldsa_sig c)))"

definition gy_hybrid_appkey_cert_parse :: "gy_suite_desc \<Rightarrow> bytes \<Rightarrow> gy_hybrid_appkey_cert res" where
  "gy_hybrid_appkey_cert_parse desc buf =
     (if \<not> is_hybrid desc then Inl GY_ERR_STATE
      else
        let cpl = curve_pk_len desc; dpl = dsa_pk_len desc; siglen = sig_len desc; dsiglen = dsa_sig_len desc; kw = 4 + 1 + cpl in
        if length buf \<noteq> 1 + 1 + kw + dpl + 8 + 8 + 4 + siglen + dsiglen then Inl GY_ERR_ARG
        else if buf ! 0 \<noteq> GY_WIRE_VERSION then Inl GY_ERR_ARG
        else if buf ! 1 \<noteq> suite_id desc then Inl GY_ERR_STATE
        else
          let (sak, p0) = get_key cpl (drop 2 buf); p1 = drop dpl p0; p2 = drop 8 p1; p3 = drop 8 p2; p4 = drop 4 p3;
              p5 = drop siglen p4 in
          Inr \<lparr>ac_sak_pub = sak, ac_issued_at = get_be64 p1, ac_expiry = get_be64 p2, ac_identity_pkid = get_be32 p3,
               ac_identity_sig = take siglen p4, ac_sak_mldsa_pk = take dpl p0, ac_identity_mldsa_sig = take dsiglen p5\<rparr>)"

subsection \<open>The helpers are those of the core\<close>

lemma local_be32: "put_be32 = gy_be32_put" "get_be32 = gy_be32_get"
  by (simp_all add: fun_eq_iff put_be32_def gy_be32_put_def get_be32_def gy_be32_get_def or.assoc)

lemma local_put_be64: "put_be64 = gy_be64_put"
  by (simp add: fun_eq_iff put_be64_def gy_be64_put_def numeral_eq_Suc drop_bit_drop_bit)

lemma local_get_be64:
  assumes "8 \<le> length p"
  shows "get_be64 p = gy_be64_get p"
proof -
  obtain a b c d e f g h r where p: "p = a # b # c # d # e # f # g # h # r"
    using assms by (auto simp: Suc_le_length_iff numeral_eq_Suc)
  show ?thesis
    by (simp add: p get_be64_def gy_be64_get_def or.assoc push_bit_or push_bit_push_bit)
qed

lemma local_be64_get_put: "get_be64 (gy_be64_put v @ xs) = v"
  by (simp add: local_get_be64)

lemma length_put_count: "length (put_count n) = 2"
  by (simp add: put_count_def)

lemma get_put_count:
  assumes "n \<le> 0xFFFF"
  shows "get_count (a # b # put_count n @ xs) = n"
proof -
  have n: "drop_bit 8 n < 256" using assms by (simp add: drop_bit_eq_div)
  have "or (push_bit 8 (drop_bit 8 n)) (take_bit 8 n) = n"
    by (rule bit_eqI) (auto simp: bit_simps)
  then show ?thesis
    using n by (simp add: get_count_def put_count_def unsigned_of_nat take_bit_nat_eq_self)
qed

subsection \<open>Keys on the wire\<close>

text \<open>
  What the formats rely on: a well-formed key is written in a fixed number of bytes and read back,
  and whatever is read is the key of the bytes read.
\<close>

locale wire_key =
  fixes put :: "'k \<Rightarrow> bytes" and get :: "bytes \<Rightarrow> 'k \<times> bytes" and wf :: "'k \<Rightarrow> bool" and width :: nat
  assumes put_len: "wf k \<Longrightarrow> length (put k) = width"
    and get_put: "wf k \<Longrightarrow> get (put k @ rest) = (k, rest)"
    and put_get: "width \<le> length p \<Longrightarrow> wf (fst (get p)) \<and> put (fst (get p)) @ snd (get p) = p"
begin

lemma concat_len: "\<forall>k \<in> set ks. wf k \<Longrightarrow> length (concat (map put ks)) = length ks * width"
  by (induction ks) (simp_all add: put_len)

lemma get_loop_put: "\<forall>k \<in> set ks. wf k \<Longrightarrow> get_loop get (length ks) (concat (map put ks) @ rest) = (ks, rest)"
  by (induction ks) (simp_all add: get_put)

lemma slice: "\<forall>k \<in> set ks. wf k \<Longrightarrow> i < length ks \<Longrightarrow> take width (drop (i * width) (concat (map put ks))) = put (ks ! i)"
proof (induction ks arbitrary: i)
  case (Cons k ks)
  then show ?case by (cases i) (simp_all add: put_len)
qed simp

lemma put_get_loop:
  "n * width \<le> length p \<Longrightarrow> (\<forall>k \<in> set (fst (get_loop get n p)). wf k) \<and> length (fst (get_loop get n p)) = n \<and>
     concat (map put (fst (get_loop get n p))) @ snd (get_loop get n p) = p"
proof (induction n arbitrary: p)
  case (Suc n)
  obtain k p1 where g: "get p = (k, p1)" by (cases "get p")
  have k: "wf k" "put k @ p1 = p" using put_get [of p] Suc.prems g by simp_all
  then have "length p = width + length p1" using put_len [of k] by (metis length_append)
  with Suc.prems Suc.IH [of p1] k g show ?case by (auto simp: Let_def split: prod.splits)
qed simp

end

definition key_wf :: "nat \<Rightarrow> gy_public_key \<Rightarrow> bool" where
  "key_wf cpl k \<longleftrightarrow> length (pub_pk k) = cpl"

definition hpub_wf :: "nat \<Rightarrow> nat \<Rightarrow> gy_hybrid_public_key \<Rightarrow> bool" where
  "hpub_wf cpl ekl k \<longleftrightarrow> key_wf cpl (hp_curve k) \<and> length (hp_mlkem_ek k) = ekl"

interpretation curve_key: wire_key "put_key cpl" "get_key cpl" "key_wf cpl" "4 + 1 + cpl" for cpl
proof
  fix k rest p
  assume "key_wf cpl k"
  then show "length (put_key cpl k) = 4 + 1 + cpl" "get_key cpl (put_key cpl k @ rest) = (k, rest)"
    by (simp_all add: key_wf_def put_key_def get_key_def local_be32 Let_def)
next
  fix p :: bytes assume p: "4 + 1 + cpl \<le> length p"
  then obtain b r where "drop 4 p = b # r" by (cases "drop 4 p") auto
  then have "gy_be32_put (gy_be32_get p) @ b # r = p" using be32_put_get [of p] p by (metis append_take_drop_id add_leD1)
  moreover have "cpl \<le> length r" using p \<open>drop 4 p = b # r\<close> by (metis Suc_le_mono add.commute add_le_imp_le_diff length_Cons length_drop plus_1_eq_Suc group_cancel.add1)
  ultimately show "key_wf cpl (fst (get_key cpl p)) \<and> put_key cpl (fst (get_key cpl p)) @ snd (get_key cpl p) = p"
    using \<open>drop 4 p = b # r\<close> by (simp add: key_wf_def put_key_def get_key_def local_be32 Let_def)
qed

lemma hpub_split: "put_hpub cpl ekl k = put_key cpl (hp_curve k) @ take ekl (hp_mlkem_ek k)"
  "get_hpub cpl ekl p = (\<lparr>hp_curve = fst (get_key cpl p), hp_mlkem_ek = take ekl (snd (get_key cpl p))\<rparr>,
     drop ekl (snd (get_key cpl p)))"
  by (simp_all add: put_hpub_def put_key_def get_hpub_def get_key_def Let_def ac_simps)

interpretation hybrid_key: wire_key "put_hpub cpl ekl" "get_hpub cpl ekl" "hpub_wf cpl ekl" "4 + 1 + cpl + ekl" for cpl ekl
proof
  fix k rest
  assume "hpub_wf cpl ekl k"
  then show "length (put_hpub cpl ekl k) = 4 + 1 + cpl + ekl" "get_hpub cpl ekl (put_hpub cpl ekl k @ rest) = (k, rest)"
    using curve_key.put_len curve_key.get_put by (simp_all add: hpub_wf_def hpub_split)
next
  fix p :: bytes assume p: "4 + 1 + cpl + ekl \<le> length p"
  then have k: "key_wf cpl (fst (get_key cpl p))" "put_key cpl (fst (get_key cpl p)) @ snd (get_key cpl p) = p"
    using curve_key.put_get [of cpl p] by simp_all
  have "length p = 4 + 1 + cpl + length (snd (get_key cpl p))"
    using curve_key.put_len [OF k(1)] k(2) by (metis length_append)
  then show "hpub_wf cpl ekl (fst (get_hpub cpl ekl p)) \<and> put_hpub cpl ekl (fst (get_hpub cpl ekl p)) @ snd (get_hpub cpl ekl p) = p"
    using k p by (simp add: hpub_wf_def hpub_split)
qed

subsection \<open>Bundles\<close>

text \<open>
  A bundle with keys and signatures of the lengths of the suite; an absent one-time prekey is the
  zeroed key.
\<close>

definition bundle_wf :: "gy_suite_desc \<Rightarrow> gy_prekey_bundle \<Rightarrow> bool" where
  "bundle_wf d b \<longleftrightarrow> key_wf (curve_pk_len d) (pb_ik b) \<and> key_wf (curve_pk_len d) (pb_spk b) \<and>
     length (pb_spk_sig b) = sig_len d \<and>
     (if pub_pkid (pb_opk b) = 0 then pb_opk b = absent_key (curve_pk_len d) else key_wf (curve_pk_len d) (pb_opk b))"

definition hybrid_bundle_wf :: "gy_suite_desc \<Rightarrow> gy_hybrid_prekey_bundle \<Rightarrow> bool" where
  "hybrid_bundle_wf d b \<longleftrightarrow> hpub_wf (curve_pk_len d) (kem_pk_len d) (hi_base (hpb_ik b)) \<and>
     length (hi_mldsa_pk (hpb_ik b)) = dsa_pk_len d \<and> hpub_wf (curve_pk_len d) (kem_pk_len d) (hpb_spk b) \<and>
     length (hpb_spk_ed_sig b) = sig_len d \<and> length (hpb_spk_mldsa_sig b) = dsa_sig_len d \<and>
     hpub_wf (curve_pk_len d) (kem_pk_len d) (hpb_opk b)"

lemma absent_pkid [simp]: "pub_pkid (absent_key n) = 0"
  by (simp add: absent_key_def)

lemma bundle_put_ok:
  assumes "gy_bundle_put cap d b = Inr w" "bundle_wf d b"
  shows "length w = gy_bundle_wire_len d (pub_pkid (pb_opk b) \<noteq> 0)" "length w \<le> cap"
    "w = [GY_WIRE_VERSION, suite_id d] @ put_key (curve_pk_len d) (pb_ik b) @ put_key (curve_pk_len d) (pb_spk b) @
       gy_be64_put (pb_spk_timestamp b) @ pb_spk_sig b @
       (if pub_pkid (pb_opk b) \<noteq> 0 then 1 # put_key (curve_pk_len d) (pb_opk b) else [0])"
proof -
  note len = curve_key.put_len [of "curve_pk_len d"]
  show w: "w = [GY_WIRE_VERSION, suite_id d] @ put_key (curve_pk_len d) (pb_ik b) @ put_key (curve_pk_len d) (pb_spk b) @
       gy_be64_put (pb_spk_timestamp b) @ pb_spk_sig b @
       (if pub_pkid (pb_opk b) \<noteq> 0 then 1 # put_key (curve_pk_len d) (pb_opk b) else [0])"
    using assms by (auto simp: gy_bundle_put_def Let_def bundle_wf_def local_put_be64 split: if_splits)
  show l: "length w = gy_bundle_wire_len d (pub_pkid (pb_opk b) \<noteq> 0)"
    unfolding w using assms(2) len by (simp add: bundle_wf_def gy_bundle_wire_len_def Let_def)
  show "length w \<le> cap" unfolding l using assms(1) by (simp add: gy_bundle_put_def Let_def split: if_splits)
qed

lemma bundle_parse_put:
  assumes "gy_bundle_put cap d b = Inr w" "bundle_wf d b"
  shows "gy_bundle_parse d w = Inr b"
proof -
  note w = bundle_put_ok [OF assms]
  have k: "key_wf (curve_pk_len d) (pb_ik b)" "key_wf (curve_pk_len d) (pb_spk b)" "length (pb_spk_sig b) = sig_len d"
    using assms(2) by (simp_all add: bundle_wf_def)
  note get = curve_key.get_put [of "curve_pk_len d"]
  have l: "\<not> length w < 2 + 2 * (4 + 1 + curve_pk_len d) + 8 + sig_len d + 1"
      "pub_pkid (pb_opk b) \<noteq> 0 \<Longrightarrow> \<not> length w < 2 + 2 * (4 + 1 + curve_pk_len d) + 8 + sig_len d + 1 + (4 + 1 + curve_pk_len d)"
    unfolding w(1) by (simp_all add: gy_bundle_wire_len_def Let_def)
  have hd: "w ! 0 = GY_WIRE_VERSION" "w ! 1 = suite_id d" by (simp_all add: w(3))
  have dr: "drop 2 w = put_key (curve_pk_len d) (pb_ik b) @ put_key (curve_pk_len d) (pb_spk b) @
       gy_be64_put (pb_spk_timestamp b) @ pb_spk_sig b @
       (if pub_pkid (pb_opk b) \<noteq> 0 then 1 # put_key (curve_pk_len d) (pb_opk b) else [0])" by (simp add: w(3))
  show ?thesis
  proof (cases "pub_pkid (pb_opk b) = 0")
    case True
    then have "pb_opk b = absent_key (curve_pk_len d)" using assms(2) by (simp add: bundle_wf_def)
    then show ?thesis
      using l(1) hd unfolding gy_bundle_parse_def dr Let_def
      by (simp add: True get [OF k(1)] get [OF k(2)] local_be64_get_put k(3))
  next
    case False
    then have "key_wf (curve_pk_len d) (pb_opk b)" using assms(2) by (simp add: bundle_wf_def)
    then show ?thesis
      using l hd get [of "pb_opk b" "[]"] False unfolding gy_bundle_parse_def dr Let_def
      by (simp add: get [OF k(1)] get [OF k(2)] local_be64_get_put k(3))
  qed
qed

lemma hybrid_bundle_put_ok:
  assumes "gy_hybrid_bundle_put cap d b = Inr w" "hybrid_bundle_wf d b"
  shows "is_hybrid d" "length w = gy_hybrid_bundle_wire_len d" "length w \<le> cap"
    "w = [GY_WIRE_VERSION, suite_id d] @ put_hpub (curve_pk_len d) (kem_pk_len d) (hi_base (hpb_ik b)) @ hi_mldsa_pk (hpb_ik b) @
       put_hpub (curve_pk_len d) (kem_pk_len d) (hpb_spk b) @ gy_be32_put (hpb_spk_ik_id b) @
       gy_be64_put (hpb_spk_timestamp b) @ gy_be64_put (hpb_spk_flags b) @ hpb_spk_ed_sig b @ hpb_spk_mldsa_sig b @
       put_hpub (curve_pk_len d) (kem_pk_len d) (hpb_opk b)"
proof -
  note len = hybrid_key.put_len [of "curve_pk_len d" "kem_pk_len d"]
  show "is_hybrid d" using assms(1) by (simp add: gy_hybrid_bundle_put_def split: if_splits)
  show w: "w = [GY_WIRE_VERSION, suite_id d] @ put_hpub (curve_pk_len d) (kem_pk_len d) (hi_base (hpb_ik b)) @ hi_mldsa_pk (hpb_ik b) @
       put_hpub (curve_pk_len d) (kem_pk_len d) (hpb_spk b) @ gy_be32_put (hpb_spk_ik_id b) @
       gy_be64_put (hpb_spk_timestamp b) @ gy_be64_put (hpb_spk_flags b) @ hpb_spk_ed_sig b @ hpb_spk_mldsa_sig b @
       put_hpub (curve_pk_len d) (kem_pk_len d) (hpb_opk b)"
    using assms by (auto simp: gy_hybrid_bundle_put_def Let_def hybrid_bundle_wf_def local_put_be64 local_be32 split: if_splits)
  show l: "length w = gy_hybrid_bundle_wire_len d"
    unfolding w using assms(2) len by (simp add: hybrid_bundle_wf_def gy_hybrid_bundle_wire_len_def Let_def)
  show "length w \<le> cap" unfolding l using assms(1) by (simp add: gy_hybrid_bundle_put_def Let_def split: if_splits)
qed

lemma hybrid_bundle_parse_put:
  assumes "gy_hybrid_bundle_put cap d b = Inr w" "hybrid_bundle_wf d b"
  shows "gy_hybrid_bundle_parse d w = Inr b"
proof -
  note w = hybrid_bundle_put_ok [OF assms]
  note k = assms(2) [unfolded hybrid_bundle_wf_def]
  note get = hybrid_key.get_put [of "curve_pk_len d" "kem_pk_len d"]
  have hd: "w ! 0 = GY_WIRE_VERSION" "w ! 1 = suite_id d" by (simp_all add: w(4))
  have dr: "drop 2 w = put_hpub (curve_pk_len d) (kem_pk_len d) (hi_base (hpb_ik b)) @ hi_mldsa_pk (hpb_ik b) @
       put_hpub (curve_pk_len d) (kem_pk_len d) (hpb_spk b) @ gy_be32_put (hpb_spk_ik_id b) @
       gy_be64_put (hpb_spk_timestamp b) @ gy_be64_put (hpb_spk_flags b) @ hpb_spk_ed_sig b @ hpb_spk_mldsa_sig b @
       put_hpub (curve_pk_len d) (kem_pk_len d) (hpb_opk b)" by (simp add: w(4))
  show ?thesis
    using w(1,2) hd k get [of "hpb_opk b" "[]"] unfolding gy_hybrid_bundle_parse_def dr Let_def
    by (simp add: get local_be64_get_put local_be32)
qed

lemma bundle_put_total:
  "gy_bundle_wire_len d (pub_pkid (pb_opk b) \<noteq> 0) \<le> cap \<Longrightarrow> \<exists>w. gy_bundle_put cap d b = Inr w"
  "is_hybrid d \<Longrightarrow> gy_hybrid_bundle_wire_len d \<le> cap \<Longrightarrow> \<exists>w. gy_hybrid_bundle_put cap d h = Inr w"
  by (auto simp: gy_bundle_put_def gy_hybrid_bundle_put_def Let_def)

text \<open>
  C26. Published bundles survive the wire. A bundle with keys and signatures of the suite's lengths is
  serialised whenever the buffer has the advertised length, takes exactly that length and parses to
  itself: classical, where an absent one-time prekey takes a flag byte, and hybrid, where it takes a
  slot.
\<close>

theorem bundle_wire_roundtrip:
  shows "(bundle_wf d b \<and> gy_bundle_wire_len d (pub_pkid (pb_opk b) \<noteq> 0) \<le> cap \<longrightarrow>
      (\<exists>w. gy_bundle_put cap d b = Inr w \<and> length w = gy_bundle_wire_len d (pub_pkid (pb_opk b) \<noteq> 0) \<and>
        gy_bundle_parse d w = Inr b)) \<and>
    (hybrid_bundle_wf d h \<and> is_hybrid d \<and> gy_hybrid_bundle_wire_len d \<le> cap \<longrightarrow>
      (\<exists>w. gy_hybrid_bundle_put cap d h = Inr w \<and> length w = gy_hybrid_bundle_wire_len d \<and>
        gy_hybrid_bundle_parse d w = Inr h))"
  using bundle_put_total(1) [of d b cap] bundle_put_total(2) [of d cap h] bundle_put_ok(1) [of cap d b] bundle_parse_put [of cap d b]
    hybrid_bundle_put_ok(2) [of cap d h] hybrid_bundle_parse_put [of cap d h]
  by metis

subsection \<open>Batches and certificates\<close>

lemma batch_ok:
  assumes "gy_opk_batch_put cap d ks = Inr w" "\<forall>k \<in> set ks. key_wf (curve_pk_len d) k"
  shows "length ks \<le> 0xFFFF" "length w = gy_opk_batch_wire_len d (length ks)"
    "w = GY_WIRE_VERSION # suite_id d # put_count (length ks) @ concat (map (put_key (curve_pk_len d)) ks)"
  using assms curve_key.concat_len [OF assms(2)]
  by (auto simp: gy_opk_batch_put_def gy_opk_batch_wire_len_def length_put_count split: if_splits)

lemma hybrid_batch_ok:
  assumes "gy_hybrid_opk_batch_put cap d ks = Inr w" "\<forall>k \<in> set ks. hpub_wf (curve_pk_len d) (kem_pk_len d) k"
  shows "is_hybrid d" "length ks \<le> 0xFFFF" "length w = gy_hybrid_opk_batch_wire_len d (length ks)"
    "w = GY_WIRE_VERSION # suite_id d # put_count (length ks) @ concat (map (put_hpub (curve_pk_len d) (kem_pk_len d)) ks)"
  using assms hybrid_key.concat_len [OF assms(2)]
  by (auto simp: gy_hybrid_opk_batch_put_def gy_hybrid_opk_batch_wire_len_def length_put_count split: if_splits)

text \<open>
  Batches of one-time prekeys survive the wire: what is serialised parses to the same list, in
  order, in every array that is large enough, and a smaller array is refused.
\<close>

lemma opk_batch_roundtrip:
  shows "(\<forall>w. gy_opk_batch_put cap d ks = Inr w \<and> (\<forall>k \<in> set ks. key_wf (curve_pk_len d) k) \<longrightarrow>
      gy_opk_batch_parse n d w = (if length ks \<le> n then Inr ks else Inl GY_ERR_TOOLONG)) \<and>
    (\<forall>w. gy_hybrid_opk_batch_put cap d hks = Inr w \<and> (\<forall>k \<in> set hks. hpub_wf (curve_pk_len d) (kem_pk_len d) k) \<longrightarrow>
      gy_hybrid_opk_batch_parse n d w = (if length hks \<le> n then Inr hks else Inl GY_ERR_TOOLONG))"
proof (intro conjI allI impI)
  fix w assume a: "gy_opk_batch_put cap d ks = Inr w \<and> (\<forall>k \<in> set ks. key_wf (curve_pk_len d) k)"
  note b = batch_ok [OF conjunct1 [OF a] conjunct2 [OF a]]
  have dr: "drop 4 w = concat (map (put_key (curve_pk_len d)) ks)" by (simp add: b(3) put_count_def)
  have "get_count w = length ks" unfolding b(3) by (rule get_put_count [OF b(1)])
  then show "gy_opk_batch_parse n d w = (if length ks \<le> n then Inr ks else Inl GY_ERR_TOOLONG)"
    using b(2) curve_key.get_loop_put [of ks "curve_pk_len d" "[]"] a
    unfolding gy_opk_batch_parse_def dr by (simp add: gy_opk_batch_wire_len_def Let_def) (simp add: b(3))
next
  fix w assume a: "gy_hybrid_opk_batch_put cap d hks = Inr w \<and> (\<forall>k \<in> set hks. hpub_wf (curve_pk_len d) (kem_pk_len d) k)"
  note b = hybrid_batch_ok [OF conjunct1 [OF a] conjunct2 [OF a]]
  have dr: "drop 4 w = concat (map (put_hpub (curve_pk_len d) (kem_pk_len d)) hks)" by (simp add: b(4) put_count_def)
  have "get_count w = length hks" unfolding b(4) by (rule get_put_count [OF b(2)])
  then show "gy_hybrid_opk_batch_parse n d w = (if length hks \<le> n then Inr hks else Inl GY_ERR_TOOLONG)"
    using b(1,3) hybrid_key.get_loop_put [of hks "curve_pk_len d" "kem_pk_len d" "[]"] a
    unfolding gy_hybrid_opk_batch_parse_def dr by (simp add: gy_hybrid_opk_batch_wire_len_def Let_def) (simp add: b(4))
qed

definition cert_wf :: "gy_suite_desc \<Rightarrow> gy_appkey_cert \<Rightarrow> bool" where
  "cert_wf d c \<longleftrightarrow> key_wf (curve_pk_len d) (ac_sak_pub c) \<and> length (ac_identity_sig c) = sig_len d"

definition hybrid_cert_wf :: "gy_suite_desc \<Rightarrow> gy_hybrid_appkey_cert \<Rightarrow> bool" where
  "hybrid_cert_wf d c \<longleftrightarrow> key_wf (curve_pk_len d) (ac_sak_pub c) \<and> length (ac_identity_sig c) = sig_len d \<and>
     length (ac_sak_mldsa_pk c) = dsa_pk_len d \<and> length (ac_identity_mldsa_sig c) = dsa_sig_len d"

lemma cert_parse_put:
  assumes "gy_appkey_cert_put cap d c = Inr w" "cert_wf d c"
  shows "gy_appkey_cert_parse d w = Inr c" "length w = gy_appkey_cert_wire_len d" "w ! 0 = GY_WIRE_VERSION" "w ! 1 = suite_id d"
proof -
  have k: "key_wf (curve_pk_len d) (ac_sak_pub c)" "length (ac_identity_sig c) = sig_len d"
    using assms(2) by (simp_all add: cert_wf_def)
  have w: "w = GY_WIRE_VERSION # suite_id d # put_key (curve_pk_len d) (ac_sak_pub c) @ gy_be64_put (ac_issued_at c) @
      gy_be64_put (ac_expiry c) @ gy_be32_put (ac_identity_pkid c) @ ac_identity_sig c"
    using assms(1) k by (auto simp: gy_appkey_cert_put_def local_put_be64 local_be32 split: if_splits)
  show l: "length w = gy_appkey_cert_wire_len d"
    using k curve_key.put_len [OF k(1)] by (simp add: w gy_appkey_cert_wire_len_def)
  show "w ! 0 = GY_WIRE_VERSION" "w ! 1 = suite_id d" by (simp_all add: w)
  have dr: "drop 2 w = put_key (curve_pk_len d) (ac_sak_pub c) @ gy_be64_put (ac_issued_at c) @
      gy_be64_put (ac_expiry c) @ gy_be32_put (ac_identity_pkid c) @ ac_identity_sig c" by (simp add: w)
  show "gy_appkey_cert_parse d w = Inr c"
    using l k \<open>w ! 0 = GY_WIRE_VERSION\<close> \<open>w ! 1 = suite_id d\<close> curve_key.get_put [OF k(1)]
    unfolding gy_appkey_cert_parse_def dr by (simp add: gy_appkey_cert_wire_len_def Let_def local_be64_get_put local_be32)
qed

lemma hybrid_cert_parse_put:
  assumes "gy_hybrid_appkey_cert_put cap d c = Inr w" "hybrid_cert_wf d c"
  shows "gy_hybrid_appkey_cert_parse d w = Inr c" "length w = gy_hybrid_appkey_cert_wire_len d"
    "w ! 0 = GY_WIRE_VERSION" "w ! 1 = suite_id d"
proof -
  have k: "key_wf (curve_pk_len d) (ac_sak_pub c)" "length (ac_identity_sig c) = sig_len d"
      "length (ac_sak_mldsa_pk c) = dsa_pk_len d" "length (ac_identity_mldsa_sig c) = dsa_sig_len d" "is_hybrid d"
    using assms by (simp_all add: hybrid_cert_wf_def gy_hybrid_appkey_cert_put_def split: if_splits)
  have w: "w = GY_WIRE_VERSION # suite_id d # put_key (curve_pk_len d) (ac_sak_pub c) @ ac_sak_mldsa_pk c @
      gy_be64_put (ac_issued_at c) @ gy_be64_put (ac_expiry c) @ gy_be32_put (ac_identity_pkid c) @ ac_identity_sig c @
      ac_identity_mldsa_sig c"
    using assms(1) k by (auto simp: gy_hybrid_appkey_cert_put_def local_put_be64 local_be32 split: if_splits)
  show l: "length w = gy_hybrid_appkey_cert_wire_len d"
    using k curve_key.put_len [OF k(1)] by (simp add: w gy_hybrid_appkey_cert_wire_len_def)
  show "w ! 0 = GY_WIRE_VERSION" "w ! 1 = suite_id d" by (simp_all add: w)
  have dr: "drop 2 w = put_key (curve_pk_len d) (ac_sak_pub c) @ ac_sak_mldsa_pk c @
      gy_be64_put (ac_issued_at c) @ gy_be64_put (ac_expiry c) @ gy_be32_put (ac_identity_pkid c) @ ac_identity_sig c @
      ac_identity_mldsa_sig c" by (simp add: w)
  show "gy_hybrid_appkey_cert_parse d w = Inr c"
    using l k \<open>w ! 0 = GY_WIRE_VERSION\<close> \<open>w ! 1 = suite_id d\<close> curve_key.get_put [OF k(1)]
    unfolding gy_hybrid_appkey_cert_parse_def dr
    by (simp add: gy_hybrid_appkey_cert_wire_len_def Let_def local_be64_get_put local_be32)
qed

subsection \<open>The envelope is exact\<close>

text \<open>
  C27. The envelope is exact. A buffer is accepted by the parser, with a type and an inner message,
  exactly if it is what the writer makes of that type and inner message and the inner message repeats
  the version and the suite; and whatever the receive path of the session layer delivers came in an
  envelope that the parser accepts.
\<close>

theorem envelope_exact:
  shows "(gy_envelope_parse sid buf = Inr (t, inner) \<longleftrightarrow>
      gy_envelope_put (length buf) sid t inner = Inr buf \<and> 2 \<le> length inner \<and>
      inner ! 0 = GY_WIRE_VERSION \<and> inner ! 1 = sid) \<and>
    (gy_recv L u i buf cap (c, w) = Some (Inr pt, q) \<or>
     gy_hybrid_recv L hik hspks hopks u i buf cap (c, w) = Some (Inr pt, q) \<longrightarrow>
      (\<exists>t' inner'. gy_envelope_parse (suite_id (rx_desc c)) buf = Inr (t', inner')))"
proof -
  have shape: "buf = [buf ! 0, buf ! 1, buf ! 2] @ drop 3 buf" if "3 \<le> length buf"
    using that by (cases buf rule: remdups_adj.cases; cases "tl (tl buf)") auto
  have "gy_envelope_put (length buf) sid t inner = Inr buf \<and> 2 \<le> length inner \<and> inner ! 0 = GY_WIRE_VERSION \<and> inner ! 1 = sid"
    if a: "gy_envelope_parse sid buf = Inr (t, inner)"
  proof -
    have p: "3 \<le> length buf" "buf ! 0 = GY_WIRE_VERSION" "buf ! 1 = sid" "buf ! 2 = GY_MSG_INIT \<or> buf ! 2 = GY_MSG_DR"
        "inner = drop 3 buf" "t = buf ! 2" "2 \<le> length inner" "inner ! 0 = buf ! 0" "inner ! 1 = buf ! 1"
      using a unfolding gy_envelope_parse_def GY_ENVELOPE_HDR_LEN_def Let_def by (auto split: if_splits)
    have "buf = [GY_WIRE_VERSION, sid, t] @ inner" using shape [OF p(1)] p(2,3,5,6) by metis
    moreover have "t = GY_MSG_INIT \<or> t = GY_MSG_DR" using p(4,6) by simp
    ultimately show ?thesis using p(2,3,7-9) by (auto simp: gy_envelope_put_def GY_ENVELOPE_HDR_LEN_def)
  qed
  moreover have "gy_envelope_parse sid buf = Inr (t, inner)"
    if a: "gy_envelope_put (length buf) sid t inner = Inr buf" "2 \<le> length inner" "inner ! 0 = GY_WIRE_VERSION" "inner ! 1 = sid"
  proof -
    have "buf = [GY_WIRE_VERSION, sid, t] @ inner" "t = GY_MSG_INIT \<or> t = GY_MSG_DR"
      using a(1) by (auto simp: gy_envelope_put_def split: if_splits)
    then show ?thesis using a(2-4) by (auto simp: gy_envelope_parse_def GY_ENVELOPE_HDR_LEN_def Let_def)
  qed
  moreover have "\<exists>t' inner'. gy_envelope_parse (suite_id (rx_desc c)) buf = Inr (t', inner')"
    if "gy_recv L u i buf cap (c, w) = Some (Inr pt, q) \<or> gy_hybrid_recv L hik hspks hopks u i buf cap (c, w) = Some (Inr pt, q)"
  proof -
    have g: "3 \<le> length buf" "buf ! 0 = GY_WIRE_VERSION" "buf ! 1 = suite_id (rx_desc c)" "2 \<le> length (drop 3 buf)"
        "drop 3 buf ! 0 = buf ! 0" "drop 3 buf ! 1 = buf ! 1" "buf ! 2 = GY_MSG_INIT \<or> buf ! 2 = GY_MSG_DR"
      using that unfolding gy_recv_def gy_hybrid_recv_def recv_process_def with_ctx_def Let_def
      by (auto simp: recv_begin_def recv_end_def s_res_def split: if_splits)
    then show ?thesis by (simp add: gy_envelope_parse_def GY_ENVELOPE_HDR_LEN_def Let_def)
  qed
  ultimately show ?thesis by blast
qed

end
