(* ===== verification/GY_Directory.thy ===== *)
theory GY_Directory
  imports GY_Wire
begin

text \<open>
  The directory side of \<^verbatim>\<open>src/proto/bundle_assemble.c\<close>: a server combines a published registration with
  one key of a published batch into the bundle that an initiator fetches. Everything is a function of
  published bytes; the slices that the source returns as pointers into the input are byte lists.
\<close>

definition GY_PROTOCOL_VERSION :: u8 where "GY_PROTOCOL_VERSION = 0x01"

subsection \<open>Assembly\<close>

text \<open>The one-time prekey as it is cut from a batch; the absent marker is refused.\<close>

definition opk_slice :: "gy_suite_desc \<Rightarrow> bytes \<Rightarrow> gy_public_key res" where
  "opk_slice desc opk_pub =
     (if length opk_pub \<noteq> 4 + 1 + curve_pk_len desc then Inl GY_ERR_ARG
      else if get_be32 opk_pub = 0 then Inl GY_ERR_ARG
      else Inr \<lparr>pub_pkid = get_be32 opk_pub, pub_curve_type = opk_pub ! 4, pub_pk = take (curve_pk_len desc) (drop 5 opk_pub)\<rparr>)"

definition hybrid_opk_slice :: "gy_suite_desc \<Rightarrow> bytes \<Rightarrow> gy_hybrid_public_key res" where
  "hybrid_opk_slice desc opk_pub =
     (if length opk_pub \<noteq> 4 + 1 + curve_pk_len desc + kem_pk_len desc then Inl GY_ERR_ARG
      else if get_be32 opk_pub = 0 then Inl GY_ERR_ARG
      else Inr \<lparr>hp_curve = \<lparr>pub_pkid = get_be32 opk_pub, pub_curve_type = opk_pub ! 4,
                  pub_pk = take (curve_pk_len desc) (drop 5 opk_pub)\<rparr>,
                hp_mlkem_ek = take (kem_pk_len desc) (drop (5 + curve_pk_len desc) opk_pub)\<rparr>)"

text \<open>The suite and the bundle to be written, classical or hybrid.\<close>

definition assembled ::
    "provider \<Rightarrow> bytes \<Rightarrow> bytes option \<Rightarrow> (gy_suite_desc \<times> (gy_prekey_bundle + gy_hybrid_prekey_bundle)) res" where
  "assembled L registration opk_pub =
     (if length registration < 2 then Inl GY_ERR_ARG
      else
        case gy_suite_desc L (registration ! 1) of None \<Rightarrow> Inl GY_ERR_ARG
        | Some desc \<Rightarrow>
            if is_hybrid desc then
              rbind (gy_hybrid_bundle_parse desc registration) (\<lambda>hb.
              if pub_pkid (hp_curve (hpb_opk hb)) \<noteq> 0 then Inl GY_ERR_ARG
              else
                case opk_pub of None \<Rightarrow> Inr (desc, Inr hb)
                | Some b \<Rightarrow> rbind (hybrid_opk_slice desc b) (\<lambda>k. Inr (desc, Inr (hb\<lparr>hpb_opk := k\<rparr>))))
            else
              rbind (gy_bundle_parse desc registration) (\<lambda>b.
              if pub_pkid (pb_opk b) \<noteq> 0 then Inl GY_ERR_ARG
              else
                case opk_pub of None \<Rightarrow> Inr (desc, Inl b)
                | Some o1 \<Rightarrow> rbind (opk_slice desc o1) (\<lambda>k. Inr (desc, Inl (b\<lparr>pb_opk := k\<rparr>)))))"

definition gy_bundle_assemble :: "provider \<Rightarrow> bytes \<Rightarrow> bytes option \<Rightarrow> nat \<Rightarrow> bytes res" where
  "gy_bundle_assemble L registration opk_pub cap =
     rbind (assembled L registration opk_pub) (\<lambda>(desc, x).
       case x of Inl b \<Rightarrow> gy_bundle_put cap desc b | Inr hb \<Rightarrow> gy_hybrid_bundle_put cap desc hb)"

definition gy_bundle_assemble_size :: "provider \<Rightarrow> bytes \<Rightarrow> bytes option \<Rightarrow> nat res" where
  "gy_bundle_assemble_size L registration opk_pub =
     rbind (assembled L registration opk_pub) (\<lambda>(desc, x).
       case x of Inl b \<Rightarrow> Inr (gy_bundle_wire_len desc (opk_pub \<noteq> None)) | Inr hb \<Rightarrow> Inr (gy_hybrid_bundle_wire_len desc))"

subsection \<open>What a directory shows of an identity\<close>

definition gy_registration_identity_pub :: "provider \<Rightarrow> bytes \<Rightarrow> bytes res" where
  "gy_registration_identity_pub L registration =
     (if length registration < 2 then Inl GY_ERR_ARG
      else
        case gy_suite_desc L (registration ! 1) of None \<Rightarrow> Inl GY_ERR_ARG
        | Some desc \<Rightarrow>
            if is_hybrid desc then
              rbind (gy_hybrid_bundle_parse desc registration) (\<lambda>_.
                Inr (take (1 + curve_pk_len desc + kem_pk_len desc + dsa_pk_len desc) (drop (2 + 4) registration)))
            else
              rbind (gy_bundle_parse desc registration) (\<lambda>_.
                Inr (take (curve_pk_len desc) (drop (2 + 4 + 1) registration))))"

definition gy_bundle_fingerprint :: "provider \<Rightarrow> bytes \<Rightarrow> nat \<Rightarrow> bytes res" where
  "gy_bundle_fingerprint L bundle1 cap =
     (if length bundle1 < 2 then Inl GY_ERR_ARG
      else
        case gy_suite_desc L (bundle1 ! 1) of None \<Rightarrow> Inl GY_ERR_ARG
        | Some desc \<Rightarrow>
            if is_hybrid desc then
              rbind (gy_hybrid_bundle_parse desc bundle1) (\<lambda>hb.
                if cap < hash_len desc then Inl GY_ERR_ARG else gy_hybrid_identity_fingerprint desc (hpb_ik hb))
            else
              rbind (gy_bundle_parse desc bundle1) (\<lambda>b.
                if cap < hash_len desc then Inl GY_ERR_ARG else gy_proto_fingerprint desc (pb_ik b)))"

subsection \<open>Batches\<close>

definition opk_batch_dims :: "provider \<Rightarrow> bytes \<Rightarrow> (gy_suite_desc \<times> nat \<times> nat) res" where
  "opk_batch_dims L batch =
     (if length batch < 4 then Inl GY_ERR_ARG
      else if batch ! 0 \<noteq> GY_PROTOCOL_VERSION then Inl GY_ERR_ARG
      else
        case gy_suite_desc L (batch ! 1) of None \<Rightarrow> Inl GY_ERR_ARG
        | Some d \<Rightarrow>
            let keyw = 4 + 1 + curve_pk_len d + (if is_hybrid d then kem_pk_len d else 0); n = get_count batch in
            if length batch \<noteq> 4 + n * keyw then Inl GY_ERR_ARG else Inr (d, keyw, n))"

definition gy_opk_batch_count :: "provider \<Rightarrow> bytes \<Rightarrow> nat res" where
  "gy_opk_batch_count L batch = rbind (opk_batch_dims L batch) (\<lambda>(desc, kw, n). Inr n)"

definition gy_opk_batch_get :: "provider \<Rightarrow> bytes \<Rightarrow> nat \<Rightarrow> bytes res" where
  "gy_opk_batch_get L batch index =
     rbind (opk_batch_dims L batch) (\<lambda>(desc, kw, n).
       if index \<ge> n then Inl GY_ERR_NOT_FOUND else Inr (take kw (drop (4 + index * kw) batch)))"

subsection \<open>Slices\<close>

lemma put_key_parts:
  "get_be32 (put_key cpl k) = pub_pkid k" "put_key cpl k ! 4 = pub_curve_type k" "drop 5 (put_key cpl k) = take cpl (pub_pk k)"
  "get_be32 (put_key cpl k @ r) = pub_pkid k" "key_wf cpl k \<Longrightarrow> (put_key cpl k @ r) ! 4 = pub_curve_type k"
  by (simp_all add: put_key_def local_be32 nth_append)

lemma opk_slice_put:
  assumes "key_wf (curve_pk_len d) k" "pub_pkid k \<noteq> 0"
  shows "opk_slice d (put_key (curve_pk_len d) k) = Inr k"
  using assms(2) curve_key.put_len [OF assms(1)] assms(1) [unfolded key_wf_def]
  by (simp add: opk_slice_def put_key_parts)

lemma hybrid_opk_slice_put:
  assumes "hpub_wf (curve_pk_len d) (kem_pk_len d) k" "pub_pkid (hp_curve k) \<noteq> 0"
  shows "hybrid_opk_slice d (put_hpub (curve_pk_len d) (kem_pk_len d) k) = Inr k"
proof -
  have k: "key_wf (curve_pk_len d) (hp_curve k)" "length (pub_pk (hp_curve k)) = curve_pk_len d" "length (hp_mlkem_ek k) = kem_pk_len d"
    using assms(1) by (simp_all add: hpub_wf_def key_wf_def)
  have "drop 5 (put_hpub (curve_pk_len d) (kem_pk_len d) k) = pub_pk (hp_curve k) @ hp_mlkem_ek k"
    using k by (simp add: put_hpub_def local_be32)
  moreover from this have "drop (5 + curve_pk_len d) (put_hpub (curve_pk_len d) (kem_pk_len d) k) = hp_mlkem_ek k"
    using k by (metis add.commute append_eq_conv_conj drop_drop)
  ultimately show ?thesis
    using k assms(2) hybrid_key.put_len [OF assms(1)] unfolding hybrid_opk_slice_def
    by (simp add: hpub_split put_key_parts)
qed

lemma version_code: "GY_PROTOCOL_VERSION = GY_WIRE_VERSION"
  by (simp add: GY_PROTOCOL_VERSION_def GY_WIRE_VERSION_def)

lemma batch_dims:
  assumes "gy_suite_desc L (suite_id d) = Some d" "\<not> is_hybrid d"
    and "gy_opk_batch_put cap d ks = Inr batch" "\<forall>k \<in> set ks. key_wf (curve_pk_len d) k"
  shows "opk_batch_dims L batch = Inr (d, 4 + 1 + curve_pk_len d, length ks)"
    "drop 4 batch = concat (map (put_key (curve_pk_len d)) ks)"
proof -
  note b = batch_ok [OF assms(3,4)]
  have i: "batch ! 0 = GY_WIRE_VERSION" "batch ! 1 = suite_id d" by (simp_all add: b(3))
  have "get_count batch = length ks" unfolding b(3) by (rule get_put_count [OF b(1)])
  then show "opk_batch_dims L batch = Inr (d, 4 + 1 + curve_pk_len d, length ks)"
    unfolding opk_batch_dims_def i assms(1) option.case Let_def version_code b(2) gy_opk_batch_wire_len_def
    using assms(2) by simp
  show "drop 4 batch = concat (map (put_key (curve_pk_len d)) ks)" by (simp add: b(3) put_count_def)
qed

lemma hybrid_batch_dims:
  assumes "gy_suite_desc L (suite_id d) = Some d"
    and "gy_hybrid_opk_batch_put cap d ks = Inr batch" "\<forall>k \<in> set ks. hpub_wf (curve_pk_len d) (kem_pk_len d) k"
  shows "opk_batch_dims L batch = Inr (d, 4 + 1 + curve_pk_len d + kem_pk_len d, length ks)"
    "drop 4 batch = concat (map (put_hpub (curve_pk_len d) (kem_pk_len d)) ks)"
proof -
  note b = hybrid_batch_ok [OF assms(2,3)]
  have i: "batch ! 0 = GY_WIRE_VERSION" "batch ! 1 = suite_id d" by (simp_all add: b(4))
  have "get_count batch = length ks" unfolding b(4) by (rule get_put_count [OF b(2)])
  then show "opk_batch_dims L batch = Inr (d, 4 + 1 + curve_pk_len d + kem_pk_len d, length ks)"
    unfolding opk_batch_dims_def i assms(1) option.case Let_def version_code b(3) gy_hybrid_opk_batch_wire_len_def
    using b(1) by simp
  show "drop 4 batch = concat (map (put_hpub (curve_pk_len d) (kem_pk_len d)) ks)" by (simp add: b(4) put_count_def)
qed

subsection \<open>Serving a bundle\<close>

lemma bundle_head:
  assumes "gy_bundle_put cap d b = Inr w" "bundle_wf d b"
  shows "\<not> length w < 2" "w ! 1 = suite_id d" "drop 2 w = put_key (curve_pk_len d) (pb_ik b) @ drop (2 + 4 + 1 + curve_pk_len d) w"
proof -
  note w = bundle_put_ok [OF assms]
  show "\<not> length w < 2" by (simp add: w(1) gy_bundle_wire_len_def Let_def)
  show "w ! 1 = suite_id d" by (simp add: w(3))
  have k: "length (put_key (curve_pk_len d) (pb_ik b)) = 4 + 1 + curve_pk_len d"
    using assms(2) by (intro curve_key.put_len) (simp add: bundle_wf_def)
  have d: "drop (4 + 1 + curve_pk_len d) (drop 2 w) = drop (2 + 4 + 1 + curve_pk_len d) w" by (simp add: add.commute)
  then show "drop 2 w = put_key (curve_pk_len d) (pb_ik b) @ drop (2 + 4 + 1 + curve_pk_len d) w"
    using k unfolding d [symmetric] w(3) by simp
qed

lemma hybrid_bundle_head:
  assumes "gy_hybrid_bundle_put cap d b = Inr w" "hybrid_bundle_wf d b"
  shows "\<not> length w < 2" "w ! 1 = suite_id d"
  using hybrid_bundle_put_ok [OF assms] by (simp_all add: gy_hybrid_bundle_wire_len_def Let_def)

lemma assembled_classical:
  assumes d: "gy_suite_desc L (suite_id d) = Some d" "\<not> is_hybrid d"
    and reg: "gy_bundle_put cap d b = Inr reg" "bundle_wf d b"
  shows "pub_pkid (pb_opk b) \<noteq> 0 \<Longrightarrow> assembled L reg x = Inl GY_ERR_ARG"
    "pub_pkid (pb_opk b) = 0 \<Longrightarrow> assembled L reg None = Inr (d, Inl b)"
    "pub_pkid (pb_opk b) = 0 \<Longrightarrow> key_wf (curve_pk_len d) k \<Longrightarrow> pub_pkid k \<noteq> 0 \<Longrightarrow>
      assembled L reg (Some (put_key (curve_pk_len d) k)) = Inr (d, Inl (b\<lparr>pb_opk := k\<rparr>))"
    "gy_bundle_fingerprint L reg m = (if m < hash_len d then Inl GY_ERR_ARG else gy_proto_fingerprint d (pb_ik b))"
  unfolding assembled_def gy_bundle_fingerprint_def bundle_head(2) [OF reg] d(1) option.case bundle_parse_put [OF reg]
  using bundle_head(1) [OF reg] d(2) by (simp_all add: opk_slice_put split: option.splits)

lemma assembled_hybrid:
  assumes d: "gy_suite_desc L (suite_id d) = Some d"
    and reg: "gy_hybrid_bundle_put cap d b = Inr reg" "hybrid_bundle_wf d b"
  shows "pub_pkid (hp_curve (hpb_opk b)) \<noteq> 0 \<Longrightarrow> assembled L reg x = Inl GY_ERR_ARG"
    "pub_pkid (hp_curve (hpb_opk b)) = 0 \<Longrightarrow> assembled L reg None = Inr (d, Inr b)"
    "pub_pkid (hp_curve (hpb_opk b)) = 0 \<Longrightarrow> hpub_wf (curve_pk_len d) (kem_pk_len d) k \<Longrightarrow> pub_pkid (hp_curve k) \<noteq> 0 \<Longrightarrow>
      assembled L reg (Some (put_hpub (curve_pk_len d) (kem_pk_len d) k)) = Inr (d, Inr (b\<lparr>hpb_opk := k\<rparr>))"
    "gy_bundle_fingerprint L reg m = (if m < hash_len d then Inl GY_ERR_ARG else gy_hybrid_identity_fingerprint d (hpb_ik b))"
  unfolding assembled_def gy_bundle_fingerprint_def hybrid_bundle_head(2) [OF reg] d(1) option.case hybrid_bundle_parse_put [OF reg]
  using hybrid_bundle_head(1) [OF reg] hybrid_bundle_put_ok(1) [OF reg] by (simp_all add: hybrid_opk_slice_put split: option.splits)

lemma drop_slice: "drop (4 + i * kw) batch = drop (i * kw) (drop 4 batch)"
  by (simp add: add.commute)

lemma batch_get:
  assumes d: "gy_suite_desc L (suite_id d) = Some d" "\<not> is_hybrid d"
    and b: "gy_opk_batch_put cap d ks = Inr batch" "\<forall>k \<in> set ks. key_wf (curve_pk_len d) k"
  shows "gy_opk_batch_count L batch = Inr (length ks)"
    "gy_opk_batch_get L batch i = (if i < length ks then Inr (put_key (curve_pk_len d) (ks ! i)) else Inl GY_ERR_NOT_FOUND)"
proof -
  note dims = batch_dims [OF d b]
  show "gy_opk_batch_count L batch = Inr (length ks)" by (simp add: gy_opk_batch_count_def dims(1))
  show "gy_opk_batch_get L batch i = (if i < length ks then Inr (put_key (curve_pk_len d) (ks ! i)) else Inl GY_ERR_NOT_FOUND)"
    using curve_key.slice [OF b(2), of i] drop_slice [of i "4 + 1 + curve_pk_len d" batch] dims(2)
    by (simp add: gy_opk_batch_get_def dims(1))
qed

lemma hybrid_batch_get:
  assumes d: "gy_suite_desc L (suite_id d) = Some d"
    and b: "gy_hybrid_opk_batch_put cap d ks = Inr batch" "\<forall>k \<in> set ks. hpub_wf (curve_pk_len d) (kem_pk_len d) k"
  shows "gy_opk_batch_count L batch = Inr (length ks)"
    "gy_opk_batch_get L batch i =
      (if i < length ks then Inr (put_hpub (curve_pk_len d) (kem_pk_len d) (ks ! i)) else Inl GY_ERR_NOT_FOUND)"
proof -
  note dims = hybrid_batch_dims [OF d b]
  show "gy_opk_batch_count L batch = Inr (length ks)" by (simp add: gy_opk_batch_count_def dims(1))
  show "gy_opk_batch_get L batch i =
      (if i < length ks then Inr (put_hpub (curve_pk_len d) (kem_pk_len d) (ks ! i)) else Inl GY_ERR_NOT_FOUND)"
    using hybrid_key.slice [OF b(2), of i] drop_slice [of i "4 + 1 + curve_pk_len d + kem_pk_len d" batch] dims(2)
    by (simp add: gy_opk_batch_get_def dims(1))
qed

lemma served_classical:
  assumes d: "gy_suite_desc L (suite_id d) = Some d" "\<not> is_hybrid d"
    and reg: "gy_bundle_put cap d b = Inr reg" "bundle_wf d b" "pub_pkid (pb_opk b) = 0"
    and k: "key_wf (curve_pk_len d) k" "pub_pkid k \<noteq> 0" "gy_bundle_wire_len d True \<le> n"
  shows "\<exists>w. gy_bundle_assemble L reg (Some (put_key (curve_pk_len d) k)) n = Inr w \<and>
    gy_bundle_assemble_size L reg (Some (put_key (curve_pk_len d) k)) = Inr (length w) \<and>
    gy_bundle_parse d w = Inr (b\<lparr>pb_opk := k\<rparr>) \<and> gy_bundle_fingerprint L w m = gy_bundle_fingerprint L reg m \<and>
    gy_bundle_assemble L w x n' = Inl GY_ERR_ARG"
proof -
  note a = assembled_classical(3) [OF d reg(1,2,3) k(1,2)]
  have wf: "bundle_wf d (b\<lparr>pb_opk := k\<rparr>)" using reg(2) k(1,2) by (simp add: bundle_wf_def)
  obtain w where w: "gy_bundle_put n d (b\<lparr>pb_opk := k\<rparr>) = Inr w"
    using bundle_put_total(1) [of d "b\<lparr>pb_opk := k\<rparr>" n] k(2,3) by auto
  have l: "length w = gy_bundle_wire_len d True" using bundle_put_ok(1) [OF w wf] k(2) by simp
  have "gy_bundle_assemble L w x n' = Inl GY_ERR_ARG"
    using assembled_classical(1) [OF d w wf, of x] k(2) by (simp add: gy_bundle_assemble_def)
  moreover have "gy_bundle_fingerprint L w m = gy_bundle_fingerprint L reg m"
    using assembled_classical(4) [OF d w wf, of m] assembled_classical(4) [OF d reg(1,2), of m] by simp
  ultimately show ?thesis
    using bundle_parse_put [OF w wf] l w a by (auto simp: gy_bundle_assemble_def gy_bundle_assemble_size_def)
qed

lemma served_hybrid:
  assumes d: "gy_suite_desc L (suite_id d) = Some d"
    and reg: "gy_hybrid_bundle_put cap d b = Inr reg" "hybrid_bundle_wf d b" "pub_pkid (hp_curve (hpb_opk b)) = 0"
    and k: "hpub_wf (curve_pk_len d) (kem_pk_len d) k" "pub_pkid (hp_curve k) \<noteq> 0" "gy_hybrid_bundle_wire_len d \<le> n"
  shows "\<exists>w. gy_bundle_assemble L reg (Some (put_hpub (curve_pk_len d) (kem_pk_len d) k)) n = Inr w \<and>
    gy_bundle_assemble_size L reg (Some (put_hpub (curve_pk_len d) (kem_pk_len d) k)) = Inr (length w) \<and>
    gy_hybrid_bundle_parse d w = Inr (b\<lparr>hpb_opk := k\<rparr>) \<and> gy_bundle_fingerprint L w m = gy_bundle_fingerprint L reg m \<and>
    gy_bundle_assemble L w x n' = Inl GY_ERR_ARG"
proof -
  note a = assembled_hybrid(3) [OF d reg(1,2,3) k(1,2)]
  have wf: "hybrid_bundle_wf d (b\<lparr>hpb_opk := k\<rparr>)" using reg(2) k(1) by (simp add: hybrid_bundle_wf_def)
  obtain w where w: "gy_hybrid_bundle_put n d (b\<lparr>hpb_opk := k\<rparr>) = Inr w"
    using bundle_put_total(2) [of d n "b\<lparr>hpb_opk := k\<rparr>"] k(3) hybrid_bundle_put_ok(1) [OF reg(1,2)] by auto
  have "gy_bundle_assemble L w x n' = Inl GY_ERR_ARG"
    using assembled_hybrid(1) [OF d w wf, of x] k(2) by (simp add: gy_bundle_assemble_def)
  moreover have "gy_bundle_fingerprint L w m = gy_bundle_fingerprint L reg m"
    using assembled_hybrid(4) [OF d w wf, of m] assembled_hybrid(4) [OF d reg(1,2), of m] by simp
  ultimately show ?thesis
    using hybrid_bundle_parse_put [OF w wf] hybrid_bundle_put_ok(2) [OF w wf] w a
    by (auto simp: gy_bundle_assemble_def gy_bundle_assemble_size_def)
qed

text \<open>
  C25. The directory serves what was published. For a published registration without one-time prekey
  and a published batch of one-time prekeys, the batch is counted right; every index in range yields a
  key with which the assembly succeeds in the size it announced, and the served bundle parses to the
  registration with exactly that key, shows the fingerprint of the registration and is not itself
  accepted as a registration; an index out of range is not found. Classical and hybrid suites alike.
\<close>

theorem directory_serves_published:
  assumes "gy_suite_desc L (suite_id d) = Some d"
    and "if is_hybrid d
      then gy_hybrid_bundle_put cap d hb = Inr reg \<and> hybrid_bundle_wf d hb \<and> pub_pkid (hp_curve (hpb_opk hb)) = 0 \<and>
        gy_hybrid_opk_batch_put cap' d hks = Inr batch \<and>
        (\<forall>k \<in> set hks. hpub_wf (curve_pk_len d) (kem_pk_len d) k \<and> pub_pkid (hp_curve k) \<noteq> 0) \<and>
        gy_hybrid_bundle_wire_len d \<le> n \<and> cnt = length hks
      else gy_bundle_put cap d b = Inr reg \<and> bundle_wf d b \<and> pub_pkid (pb_opk b) = 0 \<and>
        gy_opk_batch_put cap' d ks = Inr batch \<and>
        (\<forall>k \<in> set ks. key_wf (curve_pk_len d) k \<and> pub_pkid k \<noteq> 0) \<and>
        gy_bundle_wire_len d True \<le> n \<and> cnt = length ks"
  shows "gy_opk_batch_count L batch = Inr cnt \<and>
    (if i < cnt then
       \<exists>opk w. gy_opk_batch_get L batch i = Inr opk \<and> gy_bundle_assemble L reg (Some opk) n = Inr w \<and>
         gy_bundle_assemble_size L reg (Some opk) = Inr (length w) \<and>
         (if is_hybrid d then gy_hybrid_bundle_parse d w = Inr (hb\<lparr>hpb_opk := hks ! i\<rparr>)
          else gy_bundle_parse d w = Inr (b\<lparr>pb_opk := ks ! i\<rparr>)) \<and>
         gy_bundle_fingerprint L w m = gy_bundle_fingerprint L reg m \<and> gy_bundle_assemble L w x n' = Inl GY_ERR_ARG
     else gy_opk_batch_get L batch i = Inl GY_ERR_NOT_FOUND)"
proof (cases "is_hybrid d")
  case True
  note a = assms(2) [unfolded if_P [OF True]]
  have wf: "\<forall>k \<in> set hks. hpub_wf (curve_pk_len d) (kem_pk_len d) k" using a by blast
  note get = hybrid_batch_get [OF assms(1) _ wf, of cap' batch]
  show ?thesis
    using a get served_hybrid [OF assms(1), of cap hb reg "hks ! i" n m x n'] True nth_mem [of i hks] by (auto simp del: nth_mem)
next
  case False
  note a = assms(2) [unfolded if_not_P [OF False]]
  have wf: "\<forall>k \<in> set ks. key_wf (curve_pk_len d) k" using a by blast
  note get = batch_get [OF assms(1) False _ wf, of cap' batch]
  show ?thesis
    using a get served_classical [OF assms(1) False, of cap b reg "ks ! i" n m x n'] False nth_mem [of i ks] by (auto simp del: nth_mem)
qed

end
