(* ===== verification/GY_AppKey.thy ===== *)
theory GY_AppKey
  imports GY_Directory
begin

text \<open>
  Verification of application signing keys, \<^verbatim>\<open>src/proto/appkey_verify.c\<close>: the certificate that an identity
  issues over a signing key, its expiry, and the signature over a request, for classical suites and,
  with both schemes required, for hybrid ones. The bytes to be signed are built as the custodian builds
  them.
\<close>

definition GY_APPKEY_INFO_MAX :: nat where "GY_APPKEY_INFO_MAX = 64"
definition GY_APPKEY_SIGN_MAX :: nat where "GY_APPKEY_SIGN_MAX = 8000"
definition GY_CURVE_PK_MAX :: nat where "GY_CURVE_PK_MAX = 56"
definition GY_DSA_PK_MAX :: nat where "GY_DSA_PK_MAX = 2592"

lemmas appkey_const_defs = GY_APPKEY_INFO_MAX_def GY_APPKEY_SIGN_MAX_def GY_CURVE_PK_MAX_def GY_DSA_PK_MAX_def

subsection \<open>The signed bytes\<close>

definition cert_signed_data ::
    "provider \<Rightarrow> nat \<Rightarrow> gy_suite_desc \<Rightarrow> gy_public_key \<Rightarrow> u64 \<Rightarrow> u64 \<Rightarrow> u32 \<Rightarrow> bytes res" where
  "cert_signed_data L cap desc sak_pub issued_at expiry identity_pkid =
     rbind (gy_info L GY_APPKEY_INFO_MAX (suite_id desc) ''appkey-cert'') (\<lambda>info.
     if length info + 1 + curve_pk_len desc + 8 + 8 + 4 > cap then Inl GY_ERR_TOOLONG
     else Inr (info @ [pub_curve_type sak_pub] @ take (curve_pk_len desc) (pub_pk sak_pub) @
            put_be64 issued_at @ put_be64 expiry @ put_be32 identity_pkid))"

definition hybrid_cert_signed_data ::
    "provider \<Rightarrow> nat \<Rightarrow> gy_suite_desc \<Rightarrow> gy_public_key \<Rightarrow> bytes \<Rightarrow> u64 \<Rightarrow> u64 \<Rightarrow> u32 \<Rightarrow> bytes res" where
  "hybrid_cert_signed_data L cap desc sak_curve_pub sak_mldsa_pk issued_at expiry identity_pkid =
     rbind (gy_info L GY_APPKEY_INFO_MAX (suite_id desc) ''appkey-cert'') (\<lambda>info.
     if length info + 1 + curve_pk_len desc + dsa_pk_len desc + 8 + 8 + 4 > cap then Inl GY_ERR_TOOLONG
     else Inr (info @ [pub_curve_type sak_curve_pub] @ take (curve_pk_len desc) (pub_pk sak_curve_pub) @
            take (dsa_pk_len desc) sak_mldsa_pk @ put_be64 issued_at @ put_be64 expiry @ put_be32 identity_pkid))"

text \<open>A request: the length of the context separates it from the message.\<close>

definition appkey_request :: "bytes \<Rightarrow> bytes \<Rightarrow> bytes \<Rightarrow> bytes" where
  "appkey_request info app_ctx msg = info @ put_be32 (word_of_nat (length app_ctx)) @ app_ctx @ msg"

definition request_too_long :: "bytes \<Rightarrow> bytes \<Rightarrow> bool" where
  "request_too_long app_ctx msg \<longleftrightarrow>
     length app_ctx > GY_APPKEY_SIGN_MAX \<or> length msg > GY_APPKEY_SIGN_MAX - length app_ctx"

subsection \<open>Verification\<close>

definition appkey_verify_hybrid ::
    "provider \<Rightarrow> gy_suite_desc \<Rightarrow> bytes \<Rightarrow> bytes \<Rightarrow> bytes \<Rightarrow> bytes \<Rightarrow> bytes \<Rightarrow> u64 \<Rightarrow> unit res" where
  "appkey_verify_hybrid L desc identity_pub cert app_ctx msg sig now =
     (let cpl = curve_pk_len desc; ekl = kem_pk_len desc; dpl = dsa_pk_len desc in
      if length identity_pub \<noteq> 1 + cpl + ekl + dpl then Inl GY_ERR_ARG
      else if length sig \<noteq> sig_len desc + dsa_sig_len desc then Inl GY_ERR_ARG
      else if request_too_long app_ctx msg then Inl GY_ERR_TOOLONG
      else
        let id_curve_pk = take cpl (drop 1 identity_pub); id_mldsa_pk = drop (1 + cpl + ekl) identity_pub in
        rbind (gy_hybrid_appkey_cert_parse desc cert) (\<lambda>c.
        rbind (hybrid_cert_signed_data L (GY_APPKEY_INFO_MAX + 1 + GY_CURVE_PK_MAX + GY_DSA_PK_MAX + 8 + 8 + 4) desc
                 (ac_sak_pub c) (ac_sak_mldsa_pk c) (ac_issued_at c) (ac_expiry c) (ac_identity_pkid c)) (\<lambda>signed_data.
        if op_verify desc (ac_identity_sig c) id_curve_pk signed_data \<noteq> Inr () then Inl GY_ERR_VERIFY
        else
          rbind (gy_info L GY_APPKEY_INFO_MAX (suite_id desc) ''appkey-cert'') (\<lambda>info.
          if the (op_dsa_verify desc) (ac_identity_mldsa_sig c) id_mldsa_pk signed_data info \<noteq> Inr () then Inl GY_ERR_VERIFY
          else if ac_expiry c \<noteq> 0 \<and> now > ac_expiry c then Inl GY_ERR_EXPIRED
          else
            rbind (gy_info L GY_APPKEY_INFO_MAX (suite_id desc) ''appkey'') (\<lambda>info.
            let req_data = appkey_request info app_ctx msg in
            if op_verify desc (take (sig_len desc) sig) (pub_pk (ac_sak_pub c)) req_data \<noteq> Inr () then Inl GY_ERR_VERIFY
            else if the (op_dsa_verify desc) (drop (sig_len desc) sig) (ac_sak_mldsa_pk c) req_data info \<noteq> Inr ()
            then Inl GY_ERR_VERIFY
            else Inr ())))))"

definition gy_appkey_verify ::
    "provider \<Rightarrow> bytes \<Rightarrow> bytes \<Rightarrow> bytes \<Rightarrow> bytes \<Rightarrow> bytes \<Rightarrow> u64 \<Rightarrow> unit res" where
  "gy_appkey_verify L identity_pub cert app_ctx msg sig now =
     (if length cert < 2 then Inl GY_ERR_ARG
      else
        case gy_suite_desc L (cert ! 1) of None \<Rightarrow> Inl GY_ERR_ARG
        | Some desc \<Rightarrow>
            if is_hybrid desc then appkey_verify_hybrid L desc identity_pub cert app_ctx msg sig now
            else if length identity_pub \<noteq> curve_pk_len desc \<or> length sig \<noteq> sig_len desc then Inl GY_ERR_ARG
            else if request_too_long app_ctx msg then Inl GY_ERR_TOOLONG
            else
              rbind (gy_appkey_cert_parse desc cert) (\<lambda>c.
              rbind (cert_signed_data L (GY_APPKEY_INFO_MAX + 1 + GY_CURVE_PK_MAX + 8 + 8 + 4) desc
                       (ac_sak_pub c) (ac_issued_at c) (ac_expiry c) (ac_identity_pkid c)) (\<lambda>signed_data.
              if op_verify desc (ac_identity_sig c) identity_pub signed_data \<noteq> Inr () then Inl GY_ERR_VERIFY
              else if ac_expiry c \<noteq> 0 \<and> now > ac_expiry c then Inl GY_ERR_EXPIRED
              else
                rbind (gy_info L GY_APPKEY_INFO_MAX (suite_id desc) ''appkey'') (\<lambda>info.
                if op_verify desc sig (pub_pk (ac_sak_pub c)) (appkey_request info app_ctx msg) \<noteq> Inr () then Inl GY_ERR_VERIFY
                else Inr ()))))"

subsection \<open>What keys sign\<close>

text \<open>
  Everything an identity or an application key signs, with the bytes that the code has it sign. The
  identifier of a prekey is not part of them.
\<close>

datatype signed_object =
    SO_prekey u8 bytes u64
  | SO_hybrid_prekey u8 bytes bytes u64 u64
  | SO_cert u8 bytes u64 u64 u32
  | SO_hybrid_cert u8 bytes bytes u64 u64 u32
  | SO_request bytes bytes

fun signed_bytes :: "provider \<Rightarrow> gy_suite_desc \<Rightarrow> signed_object \<Rightarrow> bytes res" where
  "signed_bytes L d (SO_prekey ct pk ts) = spk_signed_data \<lparr>pub_pkid = 0, pub_curve_type = ct, pub_pk = pk\<rparr> ts GY_SPK_SIGNED_MAX"
| "signed_bytes L d (SO_hybrid_prekey ct pk ek ts fl) =
     hybrid_signed_data d \<lparr>hp_curve = \<lparr>pub_pkid = 0, pub_curve_type = ct, pub_pk = pk\<rparr>, hp_mlkem_ek = ek\<rparr> ts fl GY_HYBRID_SIGNED_MAX"
| "signed_bytes L d (SO_cert ct pk i e k) =
     cert_signed_data L (GY_APPKEY_INFO_MAX + 1 + GY_CURVE_PK_MAX + 8 + 8 + 4) d \<lparr>pub_pkid = 0, pub_curve_type = ct, pub_pk = pk\<rparr> i e k"
| "signed_bytes L d (SO_hybrid_cert ct pk dpk i e k) =
     hybrid_cert_signed_data L (GY_APPKEY_INFO_MAX + 1 + GY_CURVE_PK_MAX + GY_DSA_PK_MAX + 8 + 8 + 4) d
       \<lparr>pub_pkid = 0, pub_curve_type = ct, pub_pk = pk\<rparr> dpk i e k"
| "signed_bytes L d (SO_request c m) =
     rbind (gy_info L GY_APPKEY_INFO_MAX (suite_id d) ''appkey'') (\<lambda>info. Inr (appkey_request info c m))"

text \<open>Fields of the lengths of the suite; a hybrid identity signs hybrid objects only.\<close>

fun object_wf :: "gy_suite_desc \<Rightarrow> signed_object \<Rightarrow> bool" where
  "object_wf d (SO_prekey ct pk ts) \<longleftrightarrow> \<not> is_hybrid d \<and> ct = curve_type d \<and> length pk = curve_pk_len d"
| "object_wf d (SO_hybrid_prekey ct pk ek ts fl) \<longleftrightarrow>
     is_hybrid d \<and> ct = curve_type d \<and> length pk = curve_pk_len d \<and> length ek = kem_pk_len d"
| "object_wf d (SO_cert ct pk i e k) \<longleftrightarrow> \<not> is_hybrid d \<and> length pk = curve_pk_len d"
| "object_wf d (SO_hybrid_cert ct pk dpk i e k) \<longleftrightarrow> is_hybrid d \<and> length pk = curve_pk_len d \<and> length dpk = dsa_pk_len d"
| "object_wf d (SO_request c m) \<longleftrightarrow> \<not> request_too_long c m"

fun is_prekey :: "signed_object \<Rightarrow> bool" where
  "is_prekey (SO_prekey ct pk ts) = True"
| "is_prekey (SO_hybrid_prekey ct pk ek ts fl) = True"
| "is_prekey _ = False"

lemma split_at:
  "n @ x # p = n' @ x # p' \<Longrightarrow> x \<notin> set n \<Longrightarrow> x \<notin> set n' \<Longrightarrow> n = n' \<and> p = p'"
proof (induction n arbitrary: n')
  case Nil
  then show ?case by (cases n') auto
next
  case (Cons a n)
  then show ?case by (cases n') auto
qed

lemma ascii_mem: "word_of_nat (of_char c) \<in> set (ascii s) \<longleftrightarrow> c \<in> set s"
  unfolding ascii_def by (induction s) (simp_all only: list.simps set_simps ascii_char_inj insert_iff empty_iff)

lemma ascii_cons: "ascii (c # s) = word_of_nat (of_char c) # ascii s"
  by (simp only: ascii_def list.map)

text \<open>The suite can be read off every string that starts with an info string.\<close>

lemma info_prefix:
  assumes "gy_suite_desc L sid = Some d" "gy_suite_desc L sid' = Some d'"
    and "ascii (''geryon.1.'' @ suite_name d @ ''.'' @ p) @ u = ascii (''geryon.1.'' @ suite_name d' @ ''.'' @ p') @ u'"
  shows "d = d' \<and> ascii p @ u = ascii p' @ u'"
proof -
  have e: "ascii (suite_name d) @ word_of_nat (of_char CHR ''.'') # ascii p @ u =
      ascii (suite_name d') @ word_of_nat (of_char CHR ''.'') # ascii p' @ u'"
    using assms(3) by (simp only: ascii_append append_assoc same_append_eq ascii_cons append_Cons append_Nil list.inject simp_thms)
  have "ascii (suite_name d) = ascii (suite_name d') \<and> ascii p @ u = ascii p' @ u'"
    by (rule split_at [OF e]) (simp_all only: ascii_mem suite_name_no_dot [OF assms(1)] suite_name_no_dot [OF assms(2)] simp_thms)
  then have n: "suite_name d = suite_name d'" "ascii p @ u = ascii p' @ u'" by (simp_all only: ascii_inj simp_thms)
  from suite_name_inj [OF assms(1,2) n(1)] have "sid = sid'" .
  then show ?thesis using assms(1,2) n(2) by simp
qed

text \<open>What follows the common part of the info string.\<close>

fun object_tail :: "signed_object \<Rightarrow> bytes" where
  "object_tail (SO_cert ct pk i e k) = ascii ''-cert'' @ [ct] @ pk @ gy_be64_put i @ gy_be64_put e @ gy_be32_put k"
| "object_tail (SO_hybrid_cert ct pk dpk i e k) =
     ascii ''-cert'' @ [ct] @ pk @ dpk @ gy_be64_put i @ gy_be64_put e @ gy_be32_put k"
| "object_tail (SO_request c m) = gy_be32_put (word_of_nat (length c)) @ c @ m"
| "object_tail _ = []"

definition appkey_prefix :: "gy_suite_desc \<Rightarrow> bytes" where
  "appkey_prefix d = ascii (''geryon.1.'' @ suite_name d @ ''.'' @ ''appkey'')"

lemma appkey_infos:
  assumes "gy_suite_desc L sid = Some d"
  shows "gy_info L GY_APPKEY_INFO_MAX (suite_id d) ''appkey'' = Inr (appkey_prefix d)"
    "gy_info L GY_APPKEY_INFO_MAX (suite_id d) ''appkey-cert'' = Inr (appkey_prefix d @ ascii ''-cert'')"
    "length (appkey_prefix d) = 16 + length (suite_name d)"
proof -
  have d: "gy_suite_desc L (suite_id d) = Some d" using suite_desc_id [OF assms] assms by (simp del: suite_desc_id)
  have p: "appkey_prefix d @ ascii ''-cert'' = ascii (''geryon.1.'' @ suite_name d @ ''.'' @ ''appkey-cert'')"
    unfolding appkey_prefix_def ascii_append [symmetric] by simp
  show "gy_info L GY_APPKEY_INFO_MAX (suite_id d) ''appkey'' = Inr (appkey_prefix d)"
    "gy_info L GY_APPKEY_INFO_MAX (suite_id d) ''appkey-cert'' = Inr (appkey_prefix d @ ascii ''-cert'')"
    unfolding p info_ok d using suite_name_len [OF assms] by (auto simp: GY_APPKEY_INFO_MAX_def appkey_prefix_def)
  show "length (appkey_prefix d) = 16 + length (suite_name d)" by (simp add: appkey_prefix_def)
qed

lemma signed_info:
  assumes "signed_bytes L d x = Inr b" "gy_suite_desc L sid = Some d" "object_wf d x" "\<not> is_prekey x"
  shows "b = appkey_prefix d @ object_tail x"
  using assms(1,3,4)
  by (cases x) (auto simp: cert_signed_data_def hybrid_cert_signed_data_def appkey_infos [OF assms(2)] appkey_request_def
      local_be32 local_put_be64 split: if_splits)

lemma curve_len: "gy_suite_desc L sid = Some d \<Longrightarrow> unat (curve_type d) = curve_pk_len d"
  by (erule suite_desc_cases) (simp_all add: suite_row_defs wire_const_defs)

lemma signed_prekey:
  assumes "signed_bytes L d x = Inr b" "gy_suite_desc L sid = Some d" "object_wf d x" "is_prekey x"
  shows "b = curve_type d # (case x of SO_prekey ct pk ts \<Rightarrow> pk @ gy_be64_put ts
    | SO_hybrid_prekey ct pk ek ts fl \<Rightarrow> pk @ ek @ gy_be64_put ts @ gy_be64_put fl)"
  using assms(1,3,4) curve_len [OF assms(2)]
  by (cases x) (auto simp: spk_signed_data_def hybrid_signed_data_def gy_hybrid_encode_pub_def rbind_eq_Inr_iff encode_ec_ok split: if_splits)

lemma hybrid_by_curve:
  "gy_suite_desc L sid = Some d \<Longrightarrow> gy_suite_desc L sid' = Some d' \<Longrightarrow> curve_type d = curve_type d' \<Longrightarrow>
     is_hybrid d \<Longrightarrow> is_hybrid d' \<Longrightarrow> d = d'"
  by (erule suite_desc_cases; erule suite_desc_cases) (simp_all add: suite_row_defs wire_const_defs)

lemma prekey_inj:
  assumes "gy_suite_desc L sid = Some d" "gy_suite_desc L sid' = Some d'"
    and "signed_bytes L d x = Inr b" "signed_bytes L d' y = Inr b" "object_wf d x" "object_wf d' y" "is_prekey x" "is_prekey y"
  shows "x = y"
proof -
  note s = signed_prekey [OF assms(3,1,5,7)] signed_prekey [OF assms(4,2,6,8)]
  have ct: "curve_type d = curve_type d'" using s by simp
  then have cl: "curve_pk_len d = curve_pk_len d'" using curve_len [OF assms(1)] curve_len [OF assms(2)] by simp
  have "is_hybrid d \<Longrightarrow> is_hybrid d' \<Longrightarrow> kem_pk_len d = kem_pk_len d'" using hybrid_by_curve [OF assms(1,2) ct] by simp
  with s ct cl assms(5-8) show ?thesis
    by (cases x; cases y) (auto dest: arg_cong [where f = length])
qed

lemma short_length_byte:
  assumes "n \<le> 8000"
  shows "\<exists>r. gy_be32_put (word_of_nat n) = 0 # r"
proof -
  have "(ucast (drop_bit 24 (word_of_nat n :: u32)) :: u8) = word_of_nat (drop_bit 24 (take_bit 32 n))"
    by (rule bit_word_eqI) (auto simp: bit_simps)
  also have "drop_bit 24 (take_bit 32 n) = 0" using assms by (simp add: take_bit_nat_eq_self drop_bit_eq_div)
  finally show ?thesis by (simp add: gy_be32_put_def)
qed

lemma tail_inj:
  assumes "object_tail x = object_tail y" "object_wf d x" "object_wf d y" "\<not> is_prekey x" "\<not> is_prekey y"
  shows "x = y"
proof -
  have req: "ascii ''-cert'' @ u \<noteq> gy_be32_put (word_of_nat (length c)) @ v" if "\<not> request_too_long c m" for u v c m
    using that short_length_byte [of "length c"] by (auto simp: request_too_long_def GY_APPKEY_SIGN_MAX_def ascii_def)
  have len: "length c = length c'"
    if "gy_be32_put (word_of_nat (length c)) = gy_be32_put (word_of_nat (length c'))" "\<not> request_too_long c m" "\<not> request_too_long c' m'"
    for c c' m m'
  proof -
    have "(word_of_nat (length c) :: u32) = word_of_nat (length c')" using that(1) by (simp add: be32.enc_inject)
    then show ?thesis
      using that(2,3) by (simp add: word_of_nat_eq_iff take_bit_nat_eq_self request_too_long_def GY_APPKEY_SIGN_MAX_def)
  qed
  show ?thesis
    using assms req req [symmetric] len by (cases x; cases y) (auto simp: be32.enc_inject)
qed

text \<open>
  C24. Signing roles are separate. Let two objects of known suites, each with fields of the lengths of
  its suite, lead to the same bytes to be signed: prekeys, hybrid prekeys, certificates of application
  keys and requests. Then they are the same object, so that no signature can be taken for one of
  another role or for another split of context and message; unless they are prekeys, the suites agree
  too. The strings ``appkey'' and ``appkey-cert'' are prefixes of one another, and it is the bound on
  the context that keeps requests and certificates apart.
\<close>

theorem signing_roles_separate:
  assumes "gy_suite_desc L sid = Some d" "gy_suite_desc L sid' = Some d'"
    and "object_wf d x" "object_wf d' y" "signed_bytes L d x = Inr b" "signed_bytes L d' y = Inr b"
  shows "x = y \<and> (is_prekey x \<or> d = d')"
proof -
  have g: "\<exists>r. appkey_prefix e = 0x67 # r" for e by (simp add: appkey_prefix_def ascii_def)
  have c: "curve_type e \<noteq> 0x67" if "gy_suite_desc L s = Some e" for e s
    using that by (rule suite_desc_cases) (simp_all add: suite_row_defs wire_const_defs)
  have mixed: False if "is_prekey u" "\<not> is_prekey v" "signed_bytes L e u = Inr b" "signed_bytes L f v = Inr b"
      "gy_suite_desc L s = Some e" "gy_suite_desc L t = Some f" "object_wf e u" "object_wf f v" for u v e f s t
    using signed_prekey [OF that(3,5,7,1)] signed_info [OF that(4,6,8,2)] g [of f] c [OF that(5)] by auto
  show ?thesis
  proof (cases "is_prekey x")
    case True
    then have "is_prekey y" using mixed [OF True _ assms(5,6,1,2,3,4)] by blast
    with True show ?thesis using prekey_inj [OF assms(1,2,5,6,3,4)] by simp
  next
    case False
    then have y: "\<not> is_prekey y" using mixed [OF _ False assms(6,5,2,1,4,3)] by blast
    have "appkey_prefix d @ object_tail x = appkey_prefix d' @ object_tail y"
      using signed_info [OF assms(5,1,3) False] signed_info [OF assms(6,2,4) y] by simp
    then have "d = d' \<and> object_tail x = object_tail y"
      unfolding appkey_prefix_def using info_prefix [OF assms(1,2)] by (metis same_append_eq)
    then show ?thesis using tail_inj [of x y d] assms(3,4) False y by simp
  qed
qed

end
