(* ===== verification/GY_Custody.thy ===== *)
theory GY_Custody
  imports GY_AppKey
begin

text \<open>
  The custodian of \<^verbatim>\<open>src/proto/custodian.[ch]\<close>, its state and the parts its operations share: the bootstrap
  header, the table of handles, the pool of one-time prekeys, and the sealing of the private material
  into the one blob that the application stores.

  The classical and the hybrid material of an object are two fields here; an object of a classical
  suite has no hybrid part and does not look at it. The arrays with a count are lists of that count.
  The sealed material is the memory image of a C structure, so its layout, the sizes of structures and
  the success of \<open>calloc\<close> are a parameter, the platform. The send and receive contexts hold pointers
  into the object and are functions of it (\<open>cust_recv_ctx\<close>, \<open>cust_send_ctx\<close>).
\<close>

subsection \<open>Data\<close>

definition GY_CUSTODIAN_MAX_SLOTS :: nat where "GY_CUSTODIAN_MAX_SLOTS = 48"
definition GY_CUSTODIAN_SPK_HISTORY_MAX :: nat where "GY_CUSTODIAN_SPK_HISTORY_MAX = 4"
definition GY_CUSTODIAN_SAK_HISTORY_MAX :: nat where "GY_CUSTODIAN_SAK_HISTORY_MAX = 4"
definition GY_CUSTODIAN_SIGN_MAX :: nat where "GY_CUSTODIAN_SIGN_MAX = 8000"
definition GY_CUSTODIAN_WRAP_ALG :: u8 where "GY_CUSTODIAN_WRAP_ALG = GY_SEAL_ALG_AEGIS256"
definition GY_CUSTODIAN_OPSLIMIT :: u32 where "GY_CUSTODIAN_OPSLIMIT = GY_PWHASH_OPSLIMIT_MIN"
definition GY_CUSTODIAN_MEMLIMIT :: u64 where "GY_CUSTODIAN_MEMLIMIT = GY_PWHASH_MEMLIMIT_MIN"
definition GY_SLOT_IDENTITY :: nat where "GY_SLOT_IDENTITY = 1"
definition GY_SLOT_SPK :: nat where "GY_SLOT_SPK = 2"
definition GY_SLOT_OPK :: nat where "GY_SLOT_OPK = 3"
definition GY_SLOT_SAK :: nat where "GY_SLOT_SAK = 4"
definition GY_KEY_HANDLE_INVALID :: u32 where "GY_KEY_HANDLE_INVALID = 0"
definition GY_KEYSTORE_WRAP_MAX :: nat where "GY_KEYSTORE_WRAP_MAX = GY_KEKPROT_MAX_BLOB"

lemmas slot_type_defs = GY_SLOT_IDENTITY_def GY_SLOT_SPK_def GY_SLOT_OPK_def GY_SLOT_SAK_def
lemmas history_defs = GY_CUSTODIAN_SPK_HISTORY_MAX_def GY_CUSTODIAN_SAK_HISTORY_MAX_def

record gy_key_slot =
  sl_in_use :: bool
  sl_type :: nat
  sl_key_id :: u32

record gy_cust_header =
  ch_suite_id :: u8
  ch_self_uid :: bytes
  ch_self_did :: bytes
  ch_wrap :: bytes

record gy_cust_sak =
  sak_kp :: gy_keypair
  sak_issued_at :: u64
  sak_expiry :: u64
  sak_identity_pkid :: u32
  sak_identity_sig :: bytes

record gy_cust_hsak =
  hsak_kp :: gy_keypair
  hsak_mldsa_pk :: bytes
  hsak_mldsa_sk :: bytes
  hsak_issued_at :: u64
  hsak_expiry :: u64
  hsak_identity_pkid :: u32
  hsak_identity_ed_sig :: bytes
  hsak_identity_mldsa_sig :: bytes

text \<open>An entry of the pool: the key and its two flags.\<close>

record 'k pool_entry =
  pe_key :: 'k
  pe_used :: bool
  pe_consumed :: bool

record ('i, 's, 'k, 'a) material =
  mt_ik :: 'i
  mt_spks :: "'s list"
  mt_opks :: "'k pool_entry list"
  mt_saks :: "'a list"

type_synonym classical_material = "(gy_keypair, gy_signed_prekey, gy_keypair, gy_cust_sak) material"
type_synonym hybrid_material =
  "(gy_hybrid_identity_keypair, gy_hybrid_signed_prekey, gy_hybrid_keypair, gy_cust_hsak) material"

text \<open>The structure that is sealed, with its arrays of fixed size and their counts.\<close>

record ('i, 's, 'k, 'a) idmat =
  im_ik :: 'i
  im_spks :: "'s list"
  im_n_spks :: u64
  im_opks :: "'k list"
  im_opk_used :: "u8 list"
  im_opk_consumed :: "u8 list"
  im_n_opks :: u64
  im_saks :: "'a list"
  im_n_saks :: u64

type_synonym gy_cust_idmat = "(gy_keypair, gy_signed_prekey, gy_keypair, gy_cust_sak) idmat"
type_synonym gy_cust_hybrid_idmat =
  "(gy_hybrid_identity_keypair, gy_hybrid_signed_prekey, gy_hybrid_keypair, gy_cust_hsak) idmat"

record platform =
  idmat_image :: "gy_cust_idmat \<Rightarrow> bytes"
  idmat_read :: "bytes \<Rightarrow> gy_cust_idmat"
  hybrid_idmat_image :: "gy_cust_hybrid_idmat \<Rightarrow> bytes"
  hybrid_idmat_read :: "bytes \<Rightarrow> gy_cust_hybrid_idmat"
  sizeof_idmat :: nat
  sizeof_hybrid_idmat :: nat
  sizeof_keypair :: nat
  sizeof_hybrid_keypair :: nat
  sizeof_hybrid_public_key :: nat
  sizeof_hsak :: nat
  sizeof_custodian :: nat
  sizeof_hybrid_custodian :: nat
  calloc_ok :: "nat \<Rightarrow> bool"
  runtime_ok :: bool

record 'w gy_custodian =
  cu_ks :: gy_keystore
  cu_app_store :: "'w gy_store"
  cu_desc :: gy_suite_desc
  cu_suite_id :: u8
  cu_self_uid :: bytes
  cu_self_did :: bytes
  cu_wrap :: bytes
  cu_clock :: "('w \<Rightarrow> u64) option"
  cu_expiry :: gy_expiry_cfg
  cu_mat :: classical_material
  cu_hmat :: hybrid_material
  cu_have_identity :: bool
  cu_send_open :: bool
  cu_slots :: "gy_key_slot list"
  cu_unlocked :: bool

type_synonym 'w custst = "'w gy_custodian \<times> ('w \<times> rng)"

subsection \<open>Zeroed values\<close>

definition zero_public_key :: gy_public_key where
  "zero_public_key = \<lparr>pub_pkid = 0, pub_curve_type = 0, pub_pk = []\<rparr>"

definition zero_hybrid_public_key :: gy_hybrid_public_key where
  "zero_hybrid_public_key = \<lparr>hp_curve = zero_public_key, hp_mlkem_ek = []\<rparr>"

definition zero_hybrid_keypair :: gy_hybrid_keypair where
  "zero_hybrid_keypair = \<lparr>hk_pub = zero_hybrid_public_key, hk_curve_sk = [], hk_mlkem_dk = []\<rparr>"

definition zero_signed_prekey :: gy_signed_prekey where
  "zero_signed_prekey = \<lparr>spk_kp = zero_keypair, spk_ts = 0, spk_sig = []\<rparr>"

definition zero_hybrid_signed_prekey :: gy_hybrid_signed_prekey where
  "zero_hybrid_signed_prekey = \<lparr>hspk_kp = zero_hybrid_keypair, hspk_timestamp = 0, hspk_flags = 0, hspk_ik_id = 0,
     hspk_ed_sig = [], hspk_mldsa_sig = []\<rparr>"

definition zero_hybrid_identity :: gy_hybrid_identity_keypair where
  "zero_hybrid_identity = \<lparr>hik_pub = \<lparr>hi_base = zero_hybrid_public_key, hi_mldsa_pk = []\<rparr>, hik_curve_sk = [],
     hik_mlkem_dk = [], hik_mldsa_sk = []\<rparr>"

definition zero_sak :: gy_cust_sak where
  "zero_sak = \<lparr>sak_kp = zero_keypair, sak_issued_at = 0, sak_expiry = 0, sak_identity_pkid = 0, sak_identity_sig = []\<rparr>"

definition zero_hsak :: gy_cust_hsak where
  "zero_hsak = \<lparr>hsak_kp = zero_keypair, hsak_mldsa_pk = [], hsak_mldsa_sk = [], hsak_issued_at = 0, hsak_expiry = 0,
     hsak_identity_pkid = 0, hsak_identity_ed_sig = [], hsak_identity_mldsa_sig = []\<rparr>"

definition zero_slot :: gy_key_slot where
  "zero_slot = \<lparr>sl_in_use = False, sl_type = 0, sl_key_id = 0\<rparr>"

definition zero_material :: "'i \<Rightarrow> ('i, 's, 'k, 'a) material" where
  "zero_material z = \<lparr>mt_ik = z, mt_spks = [], mt_opks = [], mt_saks = []\<rparr>"

subsection \<open>Bootstrap header\<close>

definition GY_CUST_HDR_VERSION :: u8 where "GY_CUST_HDR_VERSION = 1"

definition GY_CUST_HDR_MAX :: nat where
  "GY_CUST_HDR_MAX = 1 + 1 + 1 + GY_USER_ID_MAX + 1 + GY_DEVICE_ID_MAX + 2 + GY_KEYSTORE_WRAP_MAX"

definition put_be16 :: "u16 \<Rightarrow> bytes" where
  "put_be16 v = [ucast (drop_bit 8 v), ucast v]"

definition get_be16 :: "bytes \<Rightarrow> u16" where
  "get_be16 p = or (push_bit 8 (ucast (p ! 0))) (ucast (p ! 1))"

definition gy_cust_header_encode :: "nat \<Rightarrow> gy_cust_header \<Rightarrow> bytes res" where
  "gy_cust_header_encode cap h =
     (if length (ch_self_uid h) > GY_USER_ID_MAX \<or> length (ch_self_did h) > GY_DEVICE_ID_MAX \<or>
         length (ch_wrap h) > GY_KEYSTORE_WRAP_MAX then Inl GY_ERR_ARG
      else if 1 + 1 + 1 + length (ch_self_uid h) + 1 + length (ch_self_did h) + 2 + length (ch_wrap h) > cap
      then Inl GY_ERR_TOOLONG
      else Inr ([GY_CUST_HDR_VERSION, ch_suite_id h] @ [word_of_nat (length (ch_self_uid h))] @ ch_self_uid h @
             [word_of_nat (length (ch_self_did h))] @ ch_self_did h @ put_be16 (word_of_nat (length (ch_wrap h))) @ ch_wrap h))"

text \<open>The tests are on the offset, the reads on the rest of the buffer at that offset.\<close>

definition gy_cust_header_decode :: "bytes \<Rightarrow> (gy_cust_header \<times> nat) res" where
  "gy_cust_header_decode inp =
     (let in_len = length inp in
      if in_len < 2 then Inl GY_ERR_ARG
      else if inp ! 0 \<noteq> GY_CUST_HDR_VERSION then Inl GY_ERR_ARG
      else if 2 + 1 > in_len then Inl GY_ERR_ARG
      else
        let ulen = unat (inp ! 2); off = 3 in
        if ulen > GY_USER_ID_MAX \<or> off + ulen > in_len then Inl GY_ERR_ARG
        else
          let uid = take ulen (drop off inp); off = off + ulen in
          if off + 1 > in_len then Inl GY_ERR_ARG
          else
            let dlen = unat (inp ! off); off = off + 1 in
            if dlen > GY_DEVICE_ID_MAX \<or> off + dlen > in_len then Inl GY_ERR_ARG
            else
              let did = take dlen (drop off inp); off = off + dlen in
              if off + 2 > in_len then Inl GY_ERR_ARG
              else
                let wlen = unat (get_be16 (drop off inp)); off = off + 2 in
                if wlen > GY_KEYSTORE_WRAP_MAX \<or> off + wlen > in_len then Inl GY_ERR_ARG
                else Inr (\<lparr>ch_suite_id = inp ! 1, ch_self_uid = uid, ch_self_did = did, ch_wrap = take wlen (drop off inp)\<rparr>,
                       off + wlen))"

subsection \<open>Computations on a custodian\<close>

definition cu_with :: "('w gy_custodian \<Rightarrow> ('w custst, 'e, 'a) sm) \<Rightarrow> ('w custst, 'e, 'a) sm" where
  "cu_with f s = f (fst s) s"

definition cu_upd :: "('w gy_custodian \<Rightarrow> 'w gy_custodian) \<Rightarrow> ('w custst, 'e, unit) sm" where
  "cu_upd g s = Some (Inr (), (g (fst s), snd s))"

definition cu_gen :: "'a comp \<Rightarrow> ('w custst, gy_err, 'a) sm" where
  "cu_gen m s = map_option (\<lambda>(x, r1). (x, (fst s, (fst (snd s), r1)))) (m (snd (snd s)))"

definition cu_tot :: "('w custst \<Rightarrow> 'a res \<times> 'w custst) \<Rightarrow> ('w custst, gy_err, 'a) sm" where
  "cu_tot f s = Some (f s)"

text \<open>The idiom "when this fails, restore the object and return the code".\<close>

definition cu_undo :: "('w gy_custodian \<Rightarrow> 'w gy_custodian) \<Rightarrow> ('w custst, 'e, 'a) sm \<Rightarrow> ('w custst, 'e, 'a) sm" where
  "cu_undo g m s = (case m s of Some (Inl e, s1) \<Rightarrow> Some (Inl e, (g (fst s1), snd s1)) | z \<Rightarrow> z)"

subsection \<open>Persistence of the bootstrap blob\<close>

definition GY_CUST_IDMAT_SEALED_MAX :: "platform \<Rightarrow> nat" where
  "GY_CUST_IDMAT_SEALED_MAX P = sizeof_idmat P + GY_SEAL_MAX_OVERHEAD"

definition GY_CUST_HYBRID_IDMAT_SEALED_MAX :: "platform \<Rightarrow> nat" where
  "GY_CUST_HYBRID_IDMAT_SEALED_MAX P = sizeof_hybrid_idmat P + GY_SEAL_MAX_OVERHEAD"

definition GY_CUST_BLOB_MAX :: "platform \<Rightarrow> nat" where
  "GY_CUST_BLOB_MAX P = GY_CUST_HDR_MAX + GY_CUST_HYBRID_IDMAT_SEALED_MAX P"

definition cust_header :: "'w gy_custodian \<Rightarrow> gy_cust_header" where
  "cust_header c = \<lparr>ch_suite_id = cu_suite_id c, ch_self_uid = cu_self_uid c, ch_self_did = cu_self_did c, ch_wrap = cu_wrap c\<rparr>"

definition cust_persist_header :: "platform \<Rightarrow> bytes \<Rightarrow> 'w custst \<Rightarrow> unit res \<times> 'w custst" where
  "cust_persist_header P tail s =
     (case s of (c, w) \<Rightarrow>
        if length tail > GY_CUST_HYBRID_IDMAT_SEALED_MAX P then (Inl GY_ERR_ARG, s)
        else if \<not> calloc_ok P (GY_CUST_BLOB_MAX P) then (Inl GY_ERR_CRYPTO, s)
        else
          case gy_cust_header_encode (GY_CUST_BLOB_MAX P) (cust_header c) of Inl e \<Rightarrow> (Inl e, s)
          | Inr hdr \<Rightarrow> (let (x, w1) = store_identity (cu_app_store c) (hdr @ tail) w in (x, (c, w1))))"

definition IDMAT_AD :: bytes where "IDMAT_AD = [0x10]"
definition IDMAT_HYBRID_AD :: bytes where "IDMAT_HYBRID_AD = [0x11]"

definition pack_array :: "nat \<Rightarrow> 'x \<Rightarrow> 'x list \<Rightarrow> 'x list" where
  "pack_array n z xs = xs @ replicate (n - length xs) z"

definition pack_idmat :: "'s \<Rightarrow> 'k \<Rightarrow> 'a \<Rightarrow> ('i, 's, 'k, 'a) material \<Rightarrow> ('i, 's, 'k, 'a) idmat" where
  "pack_idmat zs zk za m =
     \<lparr>im_ik = mt_ik m,
      im_spks = pack_array GY_CUSTODIAN_SPK_HISTORY_MAX zs (mt_spks m), im_n_spks = word_of_nat (length (mt_spks m)),
      im_opks = pack_array GY_OPK_BATCH_MAX zk (map pe_key (mt_opks m)),
      im_opk_used = pack_array GY_OPK_BATCH_MAX 0 (map (\<lambda>e. if pe_used e then 1 else 0) (mt_opks m)),
      im_opk_consumed = pack_array GY_OPK_BATCH_MAX 0 (map (\<lambda>e. if pe_consumed e then 1 else 0) (mt_opks m)),
      im_n_opks = word_of_nat (length (mt_opks m)),
      im_saks = pack_array GY_CUSTODIAN_SAK_HISTORY_MAX za (mt_saks m), im_n_saks = word_of_nat (length (mt_saks m))\<rparr>"

definition unpack_idmat :: "('i, 's, 'k, 'a) idmat \<Rightarrow> ('i, 's, 'k, 'a) material" where
  "unpack_idmat im =
     \<lparr>mt_ik = im_ik im, mt_spks = take (unat (im_n_spks im)) (im_spks im),
      mt_opks = map (\<lambda>i. \<lparr>pe_key = im_opks im ! i, pe_used = (im_opk_used im ! i \<noteq> 0), pe_consumed = (im_opk_consumed im ! i \<noteq> 0)\<rparr>)
        [0..<unat (im_n_opks im)],
      mt_saks = take (unat (im_n_saks im)) (im_saks im)\<rparr>"

text \<open>Counts past the arrays are refused before they are used as bounds.\<close>

definition idmat_counts_bad :: "('i, 's, 'k, 'a) idmat \<Rightarrow> bool" where
  "idmat_counts_bad im \<longleftrightarrow> im_n_spks im > word_of_nat GY_CUSTODIAN_SPK_HISTORY_MAX \<or>
     im_n_opks im > word_of_nat GY_OPK_BATCH_MAX \<or> im_n_saks im > word_of_nat GY_CUSTODIAN_SAK_HISTORY_MAX"

definition classical_image :: "platform \<Rightarrow> classical_material \<Rightarrow> bytes" where
  "classical_image P m = idmat_image P (pack_idmat zero_signed_prekey zero_keypair zero_sak m)"

definition hybrid_image :: "platform \<Rightarrow> hybrid_material \<Rightarrow> bytes" where
  "hybrid_image P m = hybrid_idmat_image P (pack_idmat zero_hybrid_signed_prekey zero_hybrid_keypair zero_hsak m)"

definition seal_and_persist ::
    "provider \<Rightarrow> platform \<Rightarrow> nat \<Rightarrow> bytes \<Rightarrow> bytes \<Rightarrow> 'w custst \<Rightarrow> unit res \<times> 'w custst" where
  "seal_and_persist L P sz ad img s =
     (case s of (c, (w, r)) \<Rightarrow>
        if \<not> sodium_malloc L sz then (Inl GY_ERR_CRYPTO, s)
        else if \<not> calloc_ok P (sz + GY_SEAL_MAX_OVERHEAD) then (Inl GY_ERR_CRYPTO, s)
        else
          case gy_keystore_seal L (cu_ks c) GY_CUSTODIAN_WRAP_ALG ad img (sz + GY_SEAL_MAX_OVERHEAD) r of
            (Inl e, r1) \<Rightarrow> (Inl e, (c, (w, r1)))
          | (Inr sealed, r1) \<Rightarrow> cust_persist_header P sealed (c, (w, r1)))"

definition cust_seal_and_persist_idmat :: "provider \<Rightarrow> platform \<Rightarrow> 'w custst \<Rightarrow> unit res \<times> 'w custst" where
  "cust_seal_and_persist_idmat L P s =
     seal_and_persist L P (sizeof_idmat P) IDMAT_AD (classical_image P (cu_mat (fst s))) s"

definition cust_seal_and_persist_hybrid_idmat :: "provider \<Rightarrow> platform \<Rightarrow> 'w custst \<Rightarrow> unit res \<times> 'w custst" where
  "cust_seal_and_persist_hybrid_idmat L P s =
     seal_and_persist L P (sizeof_hybrid_idmat P) IDMAT_HYBRID_AD (hybrid_image P (cu_hmat (fst s))) s"

subsection \<open>Handles\<close>

definition cust_slot_register :: "nat \<Rightarrow> u32 \<Rightarrow> gy_key_slot list \<Rightarrow> u32 \<times> gy_key_slot list" where
  "cust_slot_register ty key_id slots =
     (case first_index (\<lambda>s. \<not> sl_in_use s) slots of
        Some i \<Rightarrow> (word_of_nat (i + 1), slots[i := \<lparr>sl_in_use = True, sl_type = ty, sl_key_id = key_id\<rparr>])
      | None \<Rightarrow> (GY_KEY_HANDLE_INVALID, slots))"

definition cust_slot_find :: "nat \<Rightarrow> u32 \<Rightarrow> gy_key_slot list \<Rightarrow> u32" where
  "cust_slot_find ty key_id slots =
     (case first_index (\<lambda>s. sl_in_use s \<and> sl_type s = ty \<and> sl_key_id s = key_id) slots of
        Some i \<Rightarrow> word_of_nat (i + 1) | None \<Rightarrow> GY_KEY_HANDLE_INVALID)"

definition slot_free :: "u32 \<Rightarrow> gy_key_slot list \<Rightarrow> gy_key_slot list" where
  "slot_free h slots =
     (if h = GY_KEY_HANDLE_INVALID \<or> unat h > GY_CUSTODIAN_MAX_SLOTS then slots else slots[unat h - 1 := zero_slot])"

fun register_all :: "nat \<Rightarrow> u32 list \<Rightarrow> gy_key_slot list \<Rightarrow> gy_key_slot list" where
  "register_all ty [] slots = slots"
| "register_all ty (k # ks) slots = register_all ty ks (snd (cust_slot_register ty k slots))"

definition gy_custodian_slot_alloc :: "'w gy_custodian \<Rightarrow> nat \<Rightarrow> u32 \<Rightarrow> u32 res \<times> 'w gy_custodian" where
  "gy_custodian_slot_alloc c ty key_id =
     (if \<not> cu_unlocked c then (Inl GY_ERR_STATE, c)
      else
        case first_index (\<lambda>s. \<not> sl_in_use s) (cu_slots c) of
          Some i \<Rightarrow> (Inr (word_of_nat (i + 1)),
            c\<lparr>cu_slots := (cu_slots c)[i := \<lparr>sl_in_use = True, sl_type = ty, sl_key_id = key_id\<rparr>]\<rparr>)
        | None \<Rightarrow> (Inl GY_ERR_NO_SPACE, c))"

definition gy_custodian_slot_get :: "'w gy_custodian \<Rightarrow> u32 \<Rightarrow> (nat \<times> u32) res" where
  "gy_custodian_slot_get c h =
     (if \<not> cu_unlocked c then Inl GY_ERR_STATE
      else if h = GY_KEY_HANDLE_INVALID \<or> unat h > GY_CUSTODIAN_MAX_SLOTS then Inl GY_ERR_NOT_FOUND
      else
        let s = cu_slots c ! (unat h - 1) in
        if \<not> sl_in_use s then Inl GY_ERR_NOT_FOUND else Inr (sl_type s, sl_key_id s))"

definition gy_custodian_slot_free :: "u32 \<Rightarrow> 'w gy_custodian \<Rightarrow> 'w gy_custodian" where
  "gy_custodian_slot_free h c = c\<lparr>cu_slots := slot_free h (cu_slots c)\<rparr>"

subsection \<open>Histories and pools\<close>

text \<open>The newest first; a full history loses its last.\<close>

definition history_push :: "nat \<Rightarrow> 'x \<Rightarrow> 'x list \<Rightarrow> 'x list" where
  "history_push cap x xs = x # (if length xs = cap then butlast xs else xs)"

definition evict_handle :: "nat \<Rightarrow> nat \<Rightarrow> u32 list \<Rightarrow> gy_key_slot list \<Rightarrow> u32" where
  "evict_handle cap ty ids slots =
     (if length ids = cap then cust_slot_find ty (ids ! (cap - 1)) slots else GY_KEY_HANDLE_INVALID)"

definition zero_entry :: "'k \<Rightarrow> 'k pool_entry" where
  "zero_entry z = \<lparr>pe_key = z, pe_used = False, pe_consumed = False\<rparr>"

definition fresh_entry :: "'k \<Rightarrow> 'k pool_entry" where
  "fresh_entry k = \<lparr>pe_key = k, pe_used = True, pe_consumed = False\<rparr>"

function next_free :: "nat \<Rightarrow> 'k pool_entry list \<Rightarrow> nat" where
  "next_free slot ps =
     (if slot < GY_OPK_BATCH_MAX \<and> slot < length ps \<and> pe_used (ps ! slot) then next_free (Suc slot) ps else slot)"
  by pat_completeness auto
termination by (relation "measure (\<lambda>(slot, ps). length ps - slot)") auto

declare next_free.simps [simp del]

text \<open>The first free place at or after the cursor takes the next key; the places taken are recorded.\<close>

fun pool_fill :: "nat \<Rightarrow> 'k list \<Rightarrow> 'k pool_entry list \<Rightarrow> 'k pool_entry list \<times> nat list" where
  "pool_fill slot [] ps = (ps, [])"
| "pool_fill slot (k # ks) ps =
     (let i = next_free slot ps;
          ps1 = (if i < length ps then ps[i := fresh_entry k] else ps @ [fresh_entry k]);
          (ps2, touched) = pool_fill (Suc i) ks ps1 in
      (ps2, i # touched))"

fun unregister_touched :: "('k \<Rightarrow> u32) \<Rightarrow> 'k pool_entry list \<Rightarrow> nat list \<Rightarrow> gy_key_slot list \<Rightarrow> gy_key_slot list" where
  "unregister_touched pkid ps [] slots = slots"
| "unregister_touched pkid ps (i # is) slots =
     unregister_touched pkid ps is (slot_free (cust_slot_find GY_SLOT_OPK (pkid (pe_key (ps ! i))) slots) slots)"

fun wipe_touched :: "'k \<Rightarrow> nat list \<Rightarrow> 'k pool_entry list \<Rightarrow> 'k pool_entry list" where
  "wipe_touched z [] ps = ps"
| "wipe_touched z (i # is) ps = wipe_touched z is (ps[i := zero_entry z])"

definition pool_ids :: "('k \<Rightarrow> u32) \<Rightarrow> 'k pool_entry list \<Rightarrow> u32 list" where
  "pool_ids pkid ps = map (\<lambda>e. pkid (pe_key e)) (filter pe_used ps)"

definition pool_find :: "('k \<Rightarrow> u32) \<Rightarrow> u32 \<Rightarrow> 'k pool_entry list \<Rightarrow> nat option" where
  "pool_find pkid i ps = first_index (\<lambda>e. pe_used e \<and> pkid (pe_key e) = i) ps"

definition first_reservable :: "'k pool_entry list \<Rightarrow> nat option" where
  "first_reservable ps = first_index (\<lambda>e. pe_used e \<and> \<not> pe_consumed e) ps"

definition publishable :: "'k pool_entry list \<Rightarrow> 'k list" where
  "publishable ps = map pe_key (filter (\<lambda>e. pe_used e \<and> \<not> pe_consumed e) ps)"

abbreviation kp_id :: "gy_keypair \<Rightarrow> u32" where "kp_id k \<equiv> pub_pkid (kp_pub k)"
abbreviation hk_id :: "gy_hybrid_keypair \<Rightarrow> u32" where "hk_id k \<equiv> pub_pkid (hp_curve (hk_pub k))"
abbreviation spk_id :: "gy_signed_prekey \<Rightarrow> u32" where "spk_id k \<equiv> kp_id (spk_kp k)"
abbreviation hspk_id :: "gy_hybrid_signed_prekey \<Rightarrow> u32" where "hspk_id k \<equiv> hk_id (hspk_kp k)"
abbreviation sak_id :: "gy_cust_sak \<Rightarrow> u32" where "sak_id k \<equiv> kp_id (sak_kp k)"
abbreviation hsak_id :: "gy_cust_hsak \<Rightarrow> u32" where "hsak_id k \<equiv> kp_id (hsak_kp k)"

end
