(* ===== verification/GY_Custodian.thy ===== *)
theory GY_Custodian
  imports GY_Custody
begin

text \<open>
  The operations of the custodian, \<^verbatim>\<open>src/proto/custodian.c\<close>: creation and reopening, generation and rotation
  of keys, publication and deletion of prekeys, application signing keys and their signatures,
  classical and hybrid; and the store that the session layer sees, whose callbacks run on the
  custodian. An operation that fails to persist restores the object, except for the consumption of a
  one-time prekey. The variants of the C functions that only report a size have their own names.
\<close>

abbreviation on_mat :: "(classical_material \<Rightarrow> classical_material) \<Rightarrow> 'w gy_custodian \<Rightarrow> 'w gy_custodian" where
  "on_mat f c \<equiv> c\<lparr>cu_mat := f (cu_mat c)\<rparr>"

abbreviation on_hmat :: "(hybrid_material \<Rightarrow> hybrid_material) \<Rightarrow> 'w gy_custodian \<Rightarrow> 'w gy_custodian" where
  "on_hmat f c \<equiv> c\<lparr>cu_hmat := f (cu_hmat c)\<rparr>"

subsection \<open>The store of the session layer\<close>

definition cust_sealed_store :: "provider \<Rightarrow> 'w gy_custodian \<Rightarrow> 'w gy_store" where
  "cust_sealed_store L c = gy_sealed_store_bind L (cu_ks c) (cu_app_store c) GY_CUSTODIAN_WRAP_ALG"

text \<open>A callback of the application, run below the custodian.\<close>

definition tr_call :: "('w gy_custodian \<Rightarrow> ('w, 'a) cb) \<Rightarrow> ('w gy_custodian \<times> 'w, 'a) cb" where
  "tr_call f v = (case v of ((c, w), r) \<Rightarrow> (case f c (w, r) of (x, (w1, r1)) \<Rightarrow> (x, ((c, w1), r1))))"

definition tr_load_record :: "provider \<Rightarrow> gy_rec_kind \<Rightarrow> bytes \<Rightarrow> nat \<Rightarrow> ('w gy_custodian \<times> 'w, bytes) cb" where
  "tr_load_record L k i cap = tr_call (\<lambda>c. load_record (cust_sealed_store L c) k i cap)"

definition tr_store_record :: "provider \<Rightarrow> gy_rec_kind \<Rightarrow> bytes \<Rightarrow> bytes \<Rightarrow> ('w gy_custodian \<times> 'w, unit) cb" where
  "tr_store_record L k i b = tr_call (\<lambda>c. store_record (cust_sealed_store L c) k i b)"

definition tr_delete_record :: "provider \<Rightarrow> gy_rec_kind \<Rightarrow> bytes \<Rightarrow> ('w gy_custodian \<times> 'w, unit) cb" where
  "tr_delete_record L k i = tr_call (\<lambda>c. delete_record (cust_sealed_store L c) k i)"

definition tr_load_identity :: "provider \<Rightarrow> nat \<Rightarrow> ('w gy_custodian \<times> 'w, bytes) cb" where
  "tr_load_identity L cap = tr_call (\<lambda>c. load_identity (cust_sealed_store L c) cap)"

definition tr_store_identity :: "provider \<Rightarrow> bytes \<Rightarrow> ('w gy_custodian \<times> 'w, unit) cb" where
  "tr_store_identity L b = tr_call (\<lambda>c. store_identity (cust_sealed_store L c) b)"

definition tr_load_prekey :: "provider \<Rightarrow> gy_prekey_kind \<Rightarrow> u32 \<Rightarrow> nat \<Rightarrow> ('w gy_custodian \<times> 'w, bytes) cb" where
  "tr_load_prekey L k i cap = tr_call (\<lambda>c. load_prekey (cust_sealed_store L c) k i cap)"

text \<open>The object without a used key: its handle freed and its place wiped.\<close>

definition drop_opk :: "u32 \<Rightarrow> nat \<Rightarrow> 'w gy_custodian \<Rightarrow> 'w gy_custodian" where
  "drop_opk pkid i c =
     on_mat (\<lambda>m. m\<lparr>mt_opks := (mt_opks m)[i := zero_entry zero_keypair]\<rparr>)
       (c\<lparr>cu_slots := slot_free (cust_slot_find GY_SLOT_OPK pkid (cu_slots c)) (cu_slots c)\<rparr>)"

definition drop_hybrid_opk :: "u32 \<Rightarrow> nat \<Rightarrow> 'w gy_custodian \<Rightarrow> 'w gy_custodian" where
  "drop_hybrid_opk pkid i c =
     on_hmat (\<lambda>m. m\<lparr>mt_opks := (mt_opks m)[i := zero_entry zero_hybrid_keypair]\<rparr>)
       (c\<lparr>cu_slots := slot_free (cust_slot_find GY_SLOT_OPK pkid (cu_slots c)) (cu_slots c)\<rparr>)"

definition tr_consume_opk :: "provider \<Rightarrow> platform \<Rightarrow> u32 \<Rightarrow> ('w gy_custodian \<times> 'w, unit) cb" where
  "tr_consume_opk L P pkid v =
     (case v of ((c, w), r) \<Rightarrow>
        case consume_opk (cust_sealed_store L c) pkid (w, r) of
          (Inl e, (w1, r1)) \<Rightarrow> (Inl e, ((c, w1), r1))
        | (Inr _, (w1, r1)) \<Rightarrow>
            if is_hybrid (cu_desc c) then
              case pool_find hk_id pkid (mt_opks (cu_hmat c)) of
                None \<Rightarrow> (Inr (), ((c, w1), r1))
              | Some i \<Rightarrow>
                  (case cust_seal_and_persist_hybrid_idmat L P (drop_hybrid_opk pkid i c, (w1, r1)) of
                     (x, (c2, (w2, r2))) \<Rightarrow> (x, ((c2, w2), r2)))
            else
              case pool_find kp_id pkid (mt_opks (cu_mat c)) of
                None \<Rightarrow> (Inr (), ((c, w1), r1))
              | Some i \<Rightarrow>
                  (case cust_seal_and_persist_idmat L P (drop_opk pkid i c, (w1, r1)) of
                     (x, (c2, (w2, r2))) \<Rightarrow> (x, ((c2, w2), r2))))"

definition cust_wire_store :: "provider \<Rightarrow> platform \<Rightarrow> ('w gy_custodian \<times> 'w) gy_store" where
  "cust_wire_store L P =
     \<lparr>load_record = tr_load_record L, store_record = tr_store_record L, delete_record = tr_delete_record L,
      load_identity = tr_load_identity L, store_identity = tr_store_identity L, load_prekey = tr_load_prekey L,
      consume_opk = tr_consume_opk L P\<rparr>"

definition gy_default_aead :: "gy_suite_desc \<Rightarrow> u8" where
  "gy_default_aead desc = GY_AEAD_CHACHA20POLY1305"

definition cust_send_ctx :: "provider \<Rightarrow> platform \<Rightarrow> 'w gy_custodian \<Rightarrow> ('w gy_custodian \<times> 'w) gy_send_ctx res" where
  "cust_send_ctx L P c =
     gy_send_ctx_init (cust_wire_store L P) (cu_desc c) (if is_hybrid (cu_desc c) then None else Some (mt_ik (cu_mat c)))
       (gy_default_aead (cu_desc c)) (Some (cu_expiry c)) (Some (cu_self_uid c)) (Some (cu_self_did c))"

definition cust_rebuild_spk_view :: "'w gy_custodian \<Rightarrow> gy_keypair list" where
  "cust_rebuild_spk_view c = map spk_kp (mt_spks (cu_mat c))"

definition cust_recv_ctx :: "provider \<Rightarrow> platform \<Rightarrow> 'w gy_custodian \<Rightarrow> ('w gy_custodian \<times> 'w) gy_recv_ctx" where
  "cust_recv_ctx L P c =
     (if is_hybrid (cu_desc c)
      then gy_recv_ctx_init (cust_wire_store L P) (cu_desc c) None [] [] (gy_default_aead (cu_desc c)) (Some (cu_expiry c))
             (map_option (\<lambda>f v. f (snd v)) (cu_clock c))
      else gy_recv_ctx_init (cust_wire_store L P) (cu_desc c) (Some (mt_ik (cu_mat c))) (cust_rebuild_spk_view c)
             (map pe_key (mt_opks (cu_mat c))) (gy_default_aead (cu_desc c)) (Some (cu_expiry c))
             (map_option (\<lambda>f v. f (snd v)) (cu_clock c)))"

definition cust_wire_ctxs :: "provider \<Rightarrow> platform \<Rightarrow> ('w custst, gy_err, unit) sm" where
  "cust_wire_ctxs L P = cu_with (\<lambda>c. s_res (rbind (cust_send_ctx L P c) (\<lambda>_. Inr ())))"

subsection \<open>Lifecycle\<close>

definition zero_custodian :: "'w gy_store \<Rightarrow> gy_suite_desc \<Rightarrow> u8 \<Rightarrow> bytes \<Rightarrow> bytes \<Rightarrow> 'w gy_custodian" where
  "zero_custodian st desc sid uid did =
     \<lparr>cu_ks = \<lparr>ks_kek = None, ks_unlocked = False\<rparr>, cu_app_store = st, cu_desc = desc, cu_suite_id = sid,
      cu_self_uid = uid, cu_self_did = did, cu_wrap = [], cu_clock = None, cu_expiry = gy_expiry_cfg_disable,
      cu_mat = zero_material zero_keypair, cu_hmat = zero_material zero_hybrid_identity, cu_have_identity = False,
      cu_send_open = False, cu_slots = replicate GY_CUSTODIAN_MAX_SLOTS zero_slot, cu_unlocked = False\<rparr>"

definition CUST_SIZE :: "platform \<Rightarrow> gy_suite_desc \<Rightarrow> nat" where
  "CUST_SIZE P desc = (if is_hybrid desc then sizeof_hybrid_custodian P else sizeof_custodian P)"

text \<open>The optional policy has the three limits; one that is not enabled is absent.\<close>

definition gy_custodian_create ::
    "provider \<Rightarrow> platform \<Rightarrow> u8 \<Rightarrow> 'w gy_store \<Rightarrow> bytes \<Rightarrow> bytes \<Rightarrow> bytes \<Rightarrow> ('w \<Rightarrow> u64) option \<Rightarrow> (u32 \<times> u32 \<times> u64) option
      \<Rightarrow> 'w \<times> rng \<Rightarrow> 'w gy_custodian res \<times> ('w \<times> rng)" where
  "gy_custodian_create L P sid st cred self_uid self_did clock cfg v =
     (if length self_uid > GY_USER_ID_MAX \<or> length self_did > GY_DEVICE_ID_MAX then (Inl GY_ERR_ARG, v)
      else if \<not> runtime_ok P then (Inl GY_ERR_CRYPTO, v)
      else
        case gy_suite_desc L sid of None \<Rightarrow> (Inl GY_ERR_ARG, v)
        | Some desc \<Rightarrow>
            if \<not> sodium_malloc L (CUST_SIZE P desc) then (Inl GY_ERR_CRYPTO, v)
            else
              case (case cfg of None \<Rightarrow> Inr gy_expiry_cfg_disable | Some (a, b, l) \<Rightarrow> gy_expiry_cfg_init a b l) of
                Inl e \<Rightarrow> (Inl e, v)
              | Inr ex \<Rightarrow>
                  let c0 = (zero_custodian st desc sid self_uid self_did)\<lparr>cu_clock := clock, cu_expiry := ex\<rparr> in
                  case gy_keystore_create L (cu_ks c0) GY_CUSTODIAN_WRAP_ALG GY_CUSTODIAN_OPSLIMIT GY_CUSTODIAN_MEMLIMIT
                         cred GY_KEYSTORE_WRAP_MAX (snd v) of
                    (Inl e, ks, r1) \<Rightarrow> (Inl e, (fst v, r1))
                  | (Inr wrap, ks, r1) \<Rightarrow>
                      (case cust_persist_header P [] (c0\<lparr>cu_ks := ks, cu_wrap := wrap\<rparr>, (fst v, r1)) of
                         (Inl e, (c, v1)) \<Rightarrow> (Inl e, v1)
                       | (Inr _, (c, v1)) \<Rightarrow> (Inr (c\<lparr>cu_unlocked := True\<rparr>), v1)))"

definition cust_load_idmat :: "provider \<Rightarrow> platform \<Rightarrow> bytes \<Rightarrow> 'w gy_custodian \<Rightarrow> 'w gy_custodian res" where
  "cust_load_idmat L P sealed c =
     (if \<not> sodium_malloc L (sizeof_idmat P) then Inl GY_ERR_CRYPTO
      else
        rbind (gy_keystore_unseal L (cu_ks c) IDMAT_AD sealed (sizeof_idmat P)) (\<lambda>pt.
        if length pt \<noteq> sizeof_idmat P then Inl GY_ERR_VERIFY
        else
          let im = idmat_read P pt in
          if idmat_counts_bad im then Inl GY_ERR_VERIFY
          else
            let m = unpack_idmat im;
                sl1 = register_all GY_SLOT_SPK (map spk_id (mt_spks m)) (cu_slots c);
                sl2 = register_all GY_SLOT_OPK (pool_ids kp_id (mt_opks m)) sl1;
                sl3 = register_all GY_SLOT_SAK (map sak_id (mt_saks m)) sl2;
                c1 = c\<lparr>cu_mat := m, cu_slots := sl3\<rparr> in
            rbind (cust_send_ctx L P c1) (\<lambda>_. Inr (c1\<lparr>cu_have_identity := True\<rparr>))))"

definition cust_load_hybrid_idmat :: "provider \<Rightarrow> platform \<Rightarrow> bytes \<Rightarrow> 'w gy_custodian \<Rightarrow> 'w gy_custodian res" where
  "cust_load_hybrid_idmat L P sealed c =
     (if \<not> sodium_malloc L (sizeof_hybrid_idmat P) then Inl GY_ERR_CRYPTO
      else
        rbind (gy_keystore_unseal L (cu_ks c) IDMAT_HYBRID_AD sealed (sizeof_hybrid_idmat P)) (\<lambda>pt.
        if length pt \<noteq> sizeof_hybrid_idmat P then Inl GY_ERR_VERIFY
        else
          let im = hybrid_idmat_read P pt in
          if idmat_counts_bad im then Inl GY_ERR_VERIFY
          else
            let m = unpack_idmat im;
                sl1 = register_all GY_SLOT_SPK (map hspk_id (mt_spks m)) (cu_slots c);
                sl2 = register_all GY_SLOT_OPK (pool_ids hk_id (mt_opks m)) sl1;
                sl3 = register_all GY_SLOT_SAK (map hsak_id (mt_saks m)) sl2;
                c1 = c\<lparr>cu_hmat := m, cu_slots := sl3\<rparr> in
            rbind (cust_send_ctx L P c1) (\<lambda>_. Inr (c1\<lparr>cu_have_identity := True\<rparr>))))"

definition gy_custodian_open ::
    "provider \<Rightarrow> platform \<Rightarrow> 'w gy_store \<Rightarrow> bytes \<Rightarrow> 'w \<times> rng \<Rightarrow> 'w gy_custodian res \<times> ('w \<times> rng)" where
  "gy_custodian_open L P st cred v =
     (if \<not> runtime_ok P then (Inl GY_ERR_CRYPTO, v)
      else if \<not> calloc_ok P (GY_CUST_BLOB_MAX P) then (Inl GY_ERR_CRYPTO, v)
      else
        case load_identity st (GY_CUST_BLOB_MAX P) v of
          (Inl e, v1) \<Rightarrow> (Inl e, v1)
        | (Inr buf, v1) \<Rightarrow>
            if buf = [] then (Inl GY_ERR_STATE, v1)
            else
              (rbind (gy_cust_header_decode buf) (\<lambda>(hdr, consumed).
               case gy_suite_desc L (ch_suite_id hdr) of None \<Rightarrow> Inl GY_ERR_ARG
               | Some desc \<Rightarrow>
                   if \<not> sodium_malloc L (CUST_SIZE P desc) then Inl GY_ERR_CRYPTO
                   else
                     let c0 = zero_custodian st desc (ch_suite_id hdr) (ch_self_uid hdr) (ch_self_did hdr) in
                     case gy_keystore_open L (cu_ks c0) cred (ch_wrap hdr) of
                       (Inl e, ks) \<Rightarrow> Inl e
                     | (Inr _, ks) \<Rightarrow>
                         let c1 = c0\<lparr>cu_ks := ks, cu_wrap := ch_wrap hdr\<rparr>; tail = drop consumed buf in
                         rbind (if tail = [] then Inr c1
                                else if is_hybrid desc then cust_load_hybrid_idmat L P tail c1
                                else cust_load_idmat L P tail c1) (\<lambda>c2.
                         Inr (c2\<lparr>cu_unlocked := True\<rparr>))), v1))"

text \<open>After closing there is no object; what remains is the keystore, without its key.\<close>

definition gy_custodian_close :: "'w gy_custodian \<Rightarrow> gy_keystore" where
  "gy_custodian_close c = gy_keystore_close (cu_ks c)"

definition gy_custodian_reset :: "'w custst \<Rightarrow> unit res \<times> ('w \<times> rng)" where
  "gy_custodian_reset s =
     (case s of (c, v) \<Rightarrow> if \<not> cu_unlocked c then (Inl GY_ERR_STATE, v) else store_identity (cu_app_store c) [] v)"

definition gy_custodian_change_credential ::
    "provider \<Rightarrow> platform \<Rightarrow> bytes \<Rightarrow> 'w custst \<Rightarrow> unit res \<times> 'w custst" where
  "gy_custodian_change_credential L P new_cred s =
     (case s of (c, v) \<Rightarrow>
        if \<not> cu_unlocked c then (Inl GY_ERR_STATE, s)
        else if \<not> calloc_ok P (GY_CUST_BLOB_MAX P) then (Inl GY_ERR_CRYPTO, s)
        else
          case load_identity (cu_app_store c) (GY_CUST_BLOB_MAX P) v of
            (Inl e, v1) \<Rightarrow> (Inl e, (c, v1))
          | (Inr buf, v1) \<Rightarrow>
              (case gy_cust_header_decode buf of
                 Inl e \<Rightarrow> (Inl e, (c, v1))
               | Inr (old_hdr, consumed) \<Rightarrow>
                   (case gy_keystore_change_credential L (cu_ks c) GY_CUSTODIAN_WRAP_ALG GY_CUSTODIAN_OPSLIMIT
                           GY_CUSTODIAN_MEMLIMIT new_cred GY_KEYSTORE_WRAP_MAX (snd v1) of
                      (Inl e, r1) \<Rightarrow> (Inl e, (c, (fst v1, r1)))
                    | (Inr new_wrap, r1) \<Rightarrow>
                        cust_persist_header P (drop consumed buf) (c\<lparr>cu_wrap := new_wrap\<rparr>, (fst v1, r1)))))"

subsection \<open>Identity\<close>

definition CUST_HYBRID_SPK_FLAGS :: u64 where
  "CUST_HYBRID_SPK_FLAGS = or (or 1 (push_bit 16 100)) (push_bit 32 1)"

definition cust_gen_hybrid_identity :: "provider \<Rightarrow> platform \<Rightarrow> u64 \<Rightarrow> nat \<Rightarrow> ('w custst, gy_err, unit) sm" where
  "cust_gen_hybrid_identity L P spk_timestamp n_opks =
     cu_with (\<lambda>c.
     sbind (cu_gen (gy_hybrid_identity_keypair_generate L (cu_desc c))) (\<lambda>ik.
     sbind (cu_upd (on_hmat (\<lambda>m. m\<lparr>mt_ik := ik\<rparr>))) (\<lambda>_.
     sbind (cu_undo (on_hmat (\<lambda>m. m\<lparr>mt_ik := zero_hybrid_identity\<rparr>))
              (cu_gen (gy_hybrid_spk_create L (cu_desc c) ik spk_timestamp CUST_HYBRID_SPK_FLAGS))) (\<lambda>spk.
     sbind (cu_upd (on_hmat (\<lambda>m. m\<lparr>mt_spks := [spk]\<rparr>))) (\<lambda>_.
     sbind (if n_opks > 0
            then cu_undo (on_hmat (\<lambda>m. m\<lparr>mt_ik := zero_hybrid_identity, mt_spks := []\<rparr>))
                   (cu_gen (gy_hybrid_opk_batch L (cu_desc c) n_opks []))
            else s_res (Inr [])) (\<lambda>opks.
     sbind (cu_upd (on_hmat (\<lambda>m. m\<lparr>mt_opks := map fresh_entry opks\<rparr>))) (\<lambda>_.
     sbind (cu_undo (on_hmat (\<lambda>m. m\<lparr>mt_ik := zero_hybrid_identity, mt_spks := [], mt_opks := []\<rparr>))
              (cu_tot (cust_seal_and_persist_hybrid_idmat L P))) (\<lambda>_.
     sbind (cu_upd (\<lambda>c. c\<lparr>cu_slots := register_all GY_SLOT_OPK (map hk_id opks)
              (snd (cust_slot_register GY_SLOT_SPK (hspk_id spk) (cu_slots c)))\<rparr>)) (\<lambda>_.
     sbind (cust_wire_ctxs L P) (\<lambda>_.
       cu_upd (\<lambda>c. c\<lparr>cu_have_identity := True\<rparr>)))))))))))"

definition gy_custodian_generate_identity :: "provider \<Rightarrow> platform \<Rightarrow> u64 \<Rightarrow> nat \<Rightarrow> ('w custst, gy_err, unit) sm" where
  "gy_custodian_generate_identity L P spk_timestamp n_opks =
     cu_with (\<lambda>c.
     if \<not> cu_unlocked c then s_res (Inl GY_ERR_STATE)
     else if cu_have_identity c then s_res (Inl GY_ERR_STATE)
     else if n_opks > GY_OPK_BATCH_MAX then s_res (Inl GY_ERR_ARG)
     else if is_hybrid (cu_desc c) then cust_gen_hybrid_identity L P spk_timestamp n_opks
     else
       sbind (cu_gen (gy_keypair_generate L (cu_desc c))) (\<lambda>ik.
       sbind (cu_upd (on_mat (\<lambda>m. m\<lparr>mt_ik := ik\<rparr>))) (\<lambda>_.
       sbind (cu_undo (on_mat (\<lambda>m. m\<lparr>mt_ik := zero_keypair\<rparr>))
                (cu_gen (gy_spk_create L (cu_desc c) (kp_sk ik) spk_timestamp))) (\<lambda>spk.
       sbind (cu_upd (on_mat (\<lambda>m. m\<lparr>mt_spks := [spk]\<rparr>))) (\<lambda>_.
       sbind (if n_opks > 0
              then cu_undo (on_mat (\<lambda>m. m\<lparr>mt_ik := zero_keypair, mt_spks := []\<rparr>))
                     (cu_gen (gy_opk_batch L (cu_desc c) n_opks []))
              else s_res (Inr [])) (\<lambda>opks.
       sbind (cu_upd (on_mat (\<lambda>m. m\<lparr>mt_opks := map fresh_entry opks\<rparr>))) (\<lambda>_.
       sbind (cu_undo (on_mat (\<lambda>m. m\<lparr>mt_ik := zero_keypair, mt_spks := [], mt_opks := []\<rparr>))
                (cu_tot (cust_seal_and_persist_idmat L P))) (\<lambda>_.
       sbind (cu_upd (\<lambda>c. c\<lparr>cu_slots := register_all GY_SLOT_OPK (map kp_id opks)
                (snd (cust_slot_register GY_SLOT_SPK (spk_id spk) (cu_slots c)))\<rparr>)) (\<lambda>_.
       sbind (cust_wire_ctxs L P) (\<lambda>_.
         cu_upd (\<lambda>c. c\<lparr>cu_have_identity := True\<rparr>)))))))))))"

subsection \<open>Signed prekeys\<close>

definition cust_rotate_hybrid_spk :: "provider \<Rightarrow> platform \<Rightarrow> u64 \<Rightarrow> ('w custst, gy_err, unit) sm" where
  "cust_rotate_hybrid_spk L P spk_timestamp =
     cu_with (\<lambda>c.
     sbind (cu_gen (gy_hybrid_spk_create L (cu_desc c) (mt_ik (cu_hmat c)) spk_timestamp CUST_HYBRID_SPK_FLAGS)) (\<lambda>newspk.
     let backup = mt_spks (cu_hmat c);
         evict_h = evict_handle GY_CUSTODIAN_SPK_HISTORY_MAX GY_SLOT_SPK (map hspk_id backup) (cu_slots c) in
     sbind (cu_upd (on_hmat (\<lambda>m. m\<lparr>mt_spks := history_push GY_CUSTODIAN_SPK_HISTORY_MAX newspk backup\<rparr>))) (\<lambda>_.
     sbind (cu_undo (on_hmat (\<lambda>m. m\<lparr>mt_spks := backup\<rparr>)) (cu_tot (cust_seal_and_persist_hybrid_idmat L P))) (\<lambda>_.
     sbind (cu_upd (gy_custodian_slot_free evict_h)) (\<lambda>_.
       cu_upd (\<lambda>c. c\<lparr>cu_slots := snd (cust_slot_register GY_SLOT_SPK (hspk_id newspk) (cu_slots c))\<rparr>))))))"

definition gy_custodian_rotate_signed_prekey :: "provider \<Rightarrow> platform \<Rightarrow> u64 \<Rightarrow> ('w custst, gy_err, unit) sm" where
  "gy_custodian_rotate_signed_prekey L P spk_timestamp =
     cu_with (\<lambda>c.
     if \<not> cu_unlocked c then s_res (Inl GY_ERR_STATE)
     else if \<not> cu_have_identity c then s_res (Inl GY_ERR_STATE)
     else if is_hybrid (cu_desc c) then cust_rotate_hybrid_spk L P spk_timestamp
     else
       sbind (cu_gen (gy_spk_create L (cu_desc c) (kp_sk (mt_ik (cu_mat c))) spk_timestamp)) (\<lambda>newspk.
       let backup_spks = mt_spks (cu_mat c);
           evict_h = evict_handle GY_CUSTODIAN_SPK_HISTORY_MAX GY_SLOT_SPK (map spk_id backup_spks) (cu_slots c) in
       sbind (cu_upd (on_mat (\<lambda>m. m\<lparr>mt_spks := history_push GY_CUSTODIAN_SPK_HISTORY_MAX newspk backup_spks\<rparr>))) (\<lambda>_.
       sbind (cu_undo (on_mat (\<lambda>m. m\<lparr>mt_spks := backup_spks\<rparr>)) (cu_tot (cust_seal_and_persist_idmat L P))) (\<lambda>_.
       sbind (cu_upd (gy_custodian_slot_free evict_h)) (\<lambda>_.
         cu_upd (\<lambda>c. c\<lparr>cu_slots := snd (cust_slot_register GY_SLOT_SPK (spk_id newspk) (cu_slots c))\<rparr>))))))"

subsection \<open>One-time prekeys\<close>

text \<open>The object with the keys placed and registered, and the rollback of that.\<close>

definition cust_replenish_opks :: "provider \<Rightarrow> platform \<Rightarrow> nat \<Rightarrow> ('w custst, gy_err, unit) sm" where
  "cust_replenish_opks L P count =
     cu_with (\<lambda>c.
     let pool = mt_opks (cu_mat c); existing = pool_ids kp_id pool in
     if count = 0 \<or> count > GY_OPK_BATCH_MAX then s_res (Inl GY_ERR_ARG)
     else if count > GY_OPK_BATCH_MAX - length existing then s_res (Inl GY_ERR_NO_SPACE)
     else if \<not> sodium_malloc L (count * sizeof_keypair P) then s_res (Inl GY_ERR_CRYPTO)
     else
       sbind (cu_gen (gy_opk_batch L (cu_desc c) count existing)) (\<lambda>gen.
       let (filled, touched) = pool_fill 0 gen pool in
       sbind (cu_upd (\<lambda>c. on_mat (\<lambda>m. m\<lparr>mt_opks := filled\<rparr>)
                (c\<lparr>cu_slots := register_all GY_SLOT_OPK (map kp_id gen) (cu_slots c)\<rparr>))) (\<lambda>_.
       cu_undo (\<lambda>c. on_mat (\<lambda>m. m\<lparr>mt_opks := take (length pool) (wipe_touched zero_keypair touched filled)\<rparr>)
                (c\<lparr>cu_slots := unregister_touched kp_id filled touched (cu_slots c)\<rparr>))
         (cu_tot (cust_seal_and_persist_idmat L P)))))"

definition cust_replenish_hybrid_opks :: "provider \<Rightarrow> platform \<Rightarrow> nat \<Rightarrow> ('w custst, gy_err, unit) sm" where
  "cust_replenish_hybrid_opks L P count =
     cu_with (\<lambda>c.
     let pool = mt_opks (cu_hmat c); existing = pool_ids hk_id pool in
     if count = 0 \<or> count > GY_OPK_BATCH_MAX then s_res (Inl GY_ERR_ARG)
     else if count > GY_OPK_BATCH_MAX - length existing then s_res (Inl GY_ERR_NO_SPACE)
     else if \<not> sodium_malloc L (count * sizeof_hybrid_keypair P) then s_res (Inl GY_ERR_CRYPTO)
     else
       sbind (cu_gen (gy_hybrid_opk_batch L (cu_desc c) count existing)) (\<lambda>gen.
       let (filled, touched) = pool_fill 0 gen pool in
       sbind (cu_upd (\<lambda>c. on_hmat (\<lambda>m. m\<lparr>mt_opks := filled\<rparr>)
                (c\<lparr>cu_slots := register_all GY_SLOT_OPK (map hk_id gen) (cu_slots c)\<rparr>))) (\<lambda>_.
       cu_undo (\<lambda>c. on_hmat (\<lambda>m. m\<lparr>mt_opks := take (length pool) (wipe_touched zero_hybrid_keypair touched filled)\<rparr>)
                (c\<lparr>cu_slots := unregister_touched hk_id filled touched (cu_slots c)\<rparr>))
         (cu_tot (cust_seal_and_persist_hybrid_idmat L P)))))"

definition gy_custodian_generate_onetime_prekeys :: "provider \<Rightarrow> platform \<Rightarrow> nat \<Rightarrow> ('w custst, gy_err, unit) sm" where
  "gy_custodian_generate_onetime_prekeys L P count =
     cu_with (\<lambda>c.
     if \<not> cu_unlocked c then s_res (Inl GY_ERR_STATE)
     else if \<not> cu_have_identity c then s_res (Inl GY_ERR_STATE)
     else if is_hybrid (cu_desc c) then cust_replenish_hybrid_opks L P count
     else cust_replenish_opks L P count)"

subsection \<open>Publication\<close>

definition cust_build_bundle :: "'w gy_custodian \<Rightarrow> gy_public_key \<Rightarrow> gy_prekey_bundle" where
  "cust_build_bundle c opk =
     (let m = cu_mat c; spk = mt_spks m ! 0 in
      \<lparr>pb_ik = kp_pub (mt_ik m), pb_spk = kp_pub (spk_kp spk), pb_spk_timestamp = spk_ts spk,
       pb_spk_sig = take (sig_len (cu_desc c)) (spk_sig spk), pb_opk = opk\<rparr>)"

definition cust_build_hybrid_bundle :: "'w gy_custodian \<Rightarrow> gy_hybrid_public_key \<Rightarrow> gy_hybrid_prekey_bundle" where
  "cust_build_hybrid_bundle c opk =
     (let m = cu_hmat c; spk = mt_spks m ! 0 in
      \<lparr>hpb_ik = hik_pub (mt_ik m), hpb_spk = hk_pub (hspk_kp spk), hpb_spk_timestamp = hspk_timestamp spk,
       hpb_spk_flags = hspk_flags spk, hpb_spk_ik_id = hspk_ik_id spk, hpb_spk_ed_sig = take (sig_len (cu_desc c)) (hspk_ed_sig spk),
       hpb_spk_mldsa_sig = take (dsa_sig_len (cu_desc c)) (hspk_mldsa_sig spk), hpb_opk = opk\<rparr>)"

text \<open>A zeroed hybrid key as it is written to the wire.\<close>

definition absent_hybrid_key :: "gy_suite_desc \<Rightarrow> gy_hybrid_public_key" where
  "absent_hybrid_key desc = \<lparr>hp_curve = absent_key (curve_pk_len desc), hp_mlkem_ek = replicate (kem_pk_len desc) 0\<rparr>"

definition reserve :: "nat \<Rightarrow> ('i, 's, 'k, 'a) material \<Rightarrow> ('i, 's, 'k, 'a) material" where
  "reserve i m = m\<lparr>mt_opks := (mt_opks m)[i := (mt_opks m ! i)\<lparr>pe_consumed := True\<rparr>]\<rparr>"

definition unreserve :: "nat \<Rightarrow> ('i, 's, 'k, 'a) material \<Rightarrow> ('i, 's, 'k, 'a) material" where
  "unreserve i m = m\<lparr>mt_opks := (mt_opks m)[i := (mt_opks m ! i)\<lparr>pe_consumed := False\<rparr>]\<rparr>"

definition reservable_opk :: "provider \<Rightarrow> platform \<Rightarrow> ('w custst, gy_err, nat) sm" where
  "reservable_opk L P =
     cu_with (\<lambda>c.
     case first_reservable (mt_opks (cu_mat c)) of Some i \<Rightarrow> s_res (Inr i)
     | None \<Rightarrow>
         sbind (cust_replenish_opks L P 1) (\<lambda>_.
         cu_with (\<lambda>c. case first_reservable (mt_opks (cu_mat c)) of Some i \<Rightarrow> s_res (Inr i) | None \<Rightarrow> s_res (Inl GY_ERR_CRYPTO))))"

definition reservable_hybrid_opk :: "provider \<Rightarrow> platform \<Rightarrow> ('w custst, gy_err, nat) sm" where
  "reservable_hybrid_opk L P =
     cu_with (\<lambda>c.
     case first_reservable (mt_opks (cu_hmat c)) of Some i \<Rightarrow> s_res (Inr i)
     | None \<Rightarrow>
         sbind (cust_replenish_hybrid_opks L P 1) (\<lambda>_.
         cu_with (\<lambda>c. case first_reservable (mt_opks (cu_hmat c)) of Some i \<Rightarrow> s_res (Inr i) | None \<Rightarrow> s_res (Inl GY_ERR_CRYPTO))))"

definition cust_publish_hybrid_bundle :: "provider \<Rightarrow> platform \<Rightarrow> nat \<Rightarrow> ('w custst, gy_err, bytes) sm" where
  "cust_publish_hybrid_bundle L P cap =
     sbind (reservable_hybrid_opk L P) (\<lambda>idx.
     sbind (cu_upd (on_hmat (reserve idx))) (\<lambda>_.
     sbind (cu_undo (on_hmat (unreserve idx)) (cu_tot (cust_seal_and_persist_hybrid_idmat L P))) (\<lambda>_.
     cu_with (\<lambda>c. s_res (gy_hybrid_bundle_put cap (cu_desc c)
       (cust_build_hybrid_bundle c (hk_pub (pe_key (mt_opks (cu_hmat c) ! idx)))))))))"

definition gy_custodian_publish_bundle :: "provider \<Rightarrow> platform \<Rightarrow> nat \<Rightarrow> ('w custst, gy_err, bytes) sm" where
  "gy_custodian_publish_bundle L P cap =
     cu_with (\<lambda>c.
     if \<not> cu_unlocked c then s_res (Inl GY_ERR_STATE)
     else if \<not> cu_have_identity c then s_res (Inl GY_ERR_STATE)
     else if is_hybrid (cu_desc c) then cust_publish_hybrid_bundle L P cap
     else
       sbind (reservable_opk L P) (\<lambda>idx.
       sbind (cu_upd (on_mat (reserve idx))) (\<lambda>_.
       sbind (cu_undo (on_mat (unreserve idx)) (cu_tot (cust_seal_and_persist_idmat L P))) (\<lambda>_.
       cu_with (\<lambda>c. s_res (gy_bundle_put cap (cu_desc c)
         (cust_build_bundle c (kp_pub (pe_key (mt_opks (cu_mat c) ! idx)))))))))) "

definition gy_custodian_publish_bundle_size :: "'w gy_custodian \<Rightarrow> nat res" where
  "gy_custodian_publish_bundle_size c =
     (if \<not> cu_unlocked c then Inl GY_ERR_STATE
      else if \<not> cu_have_identity c then Inl GY_ERR_STATE
      else if is_hybrid (cu_desc c) then Inr (gy_hybrid_bundle_wire_len (cu_desc c))
      else Inr (gy_bundle_wire_len (cu_desc c) True))"

definition gy_custodian_opk_stats :: "'w gy_custodian \<Rightarrow> (nat \<times> nat \<times> nat) res" where
  "gy_custodian_opk_stats c =
     (if \<not> cu_unlocked c then Inl GY_ERR_STATE
      else
        let flags = (if is_hybrid (cu_desc c) then map (\<lambda>e. (pe_used e, pe_consumed e)) (mt_opks (cu_hmat c))
                     else map (\<lambda>e. (pe_used e, pe_consumed e)) (mt_opks (cu_mat c)));
            t = length (filter fst flags); u = length (filter (\<lambda>f. fst f \<and> snd f) flags) in
        Inr (t, u, t - u))"

definition gy_custodian_publish_registration :: "'w gy_custodian \<Rightarrow> nat \<Rightarrow> bytes res" where
  "gy_custodian_publish_registration c cap =
     (if \<not> cu_unlocked c then Inl GY_ERR_STATE
      else if \<not> cu_have_identity c then Inl GY_ERR_STATE
      else if is_hybrid (cu_desc c)
      then gy_hybrid_bundle_put cap (cu_desc c) (cust_build_hybrid_bundle c (absent_hybrid_key (cu_desc c)))
      else gy_bundle_put cap (cu_desc c) (cust_build_bundle c (absent_key (curve_pk_len (cu_desc c)))))"

definition cust_publish_hybrid_opk_batch :: "platform \<Rightarrow> 'w gy_custodian \<Rightarrow> nat \<Rightarrow> bytes res" where
  "cust_publish_hybrid_opk_batch P c cap =
     (let pubs = map hk_pub (publishable (mt_opks (cu_hmat c))) in
      if \<not> calloc_ok P ((if length pubs = 0 then 1 else length pubs) * sizeof_hybrid_public_key P) then Inl GY_ERR_CRYPTO
      else gy_hybrid_opk_batch_put cap (cu_desc c) pubs)"

definition gy_custodian_publish_opk_batch :: "platform \<Rightarrow> 'w gy_custodian \<Rightarrow> nat \<Rightarrow> bytes res" where
  "gy_custodian_publish_opk_batch P c cap =
     (if \<not> cu_unlocked c then Inl GY_ERR_STATE
      else if \<not> cu_have_identity c then Inl GY_ERR_STATE
      else if is_hybrid (cu_desc c) then cust_publish_hybrid_opk_batch P c cap
      else gy_opk_batch_put cap (cu_desc c) (map kp_pub (publishable (mt_opks (cu_mat c)))))"

subsection \<open>Lookup and deletion\<close>

definition GY_PK_SPK :: nat where "GY_PK_SPK = 1"
definition GY_PK_OPK :: nat where "GY_PK_OPK = 2"

definition gy_custodian_find_prekey :: "'w gy_custodian \<Rightarrow> nat \<Rightarrow> u32 \<Rightarrow> u32" where
  "gy_custodian_find_prekey c kind pkid =
     (if \<not> cu_unlocked c then GY_KEY_HANDLE_INVALID
      else if kind = GY_PK_SPK then cust_slot_find GY_SLOT_SPK pkid (cu_slots c)
      else if kind = GY_PK_OPK then cust_slot_find GY_SLOT_OPK pkid (cu_slots c)
      else GY_KEY_HANDLE_INVALID)"

text \<open>The history without the superseded entry of the identifier.\<close>

definition history_delete :: "('s \<Rightarrow> u32) \<Rightarrow> u32 \<Rightarrow> 's list \<Rightarrow> 's list option" where
  "history_delete pkid key_id xs =
     (case xs of [] \<Rightarrow> None
      | x # rest \<Rightarrow> map_option (\<lambda>i. x # take i rest @ drop (Suc i) rest) (first_index (\<lambda>s. pkid s = key_id) rest))"

definition delete_material ::
    "('s \<Rightarrow> u32) \<Rightarrow> ('k \<Rightarrow> u32) \<Rightarrow> 'k \<Rightarrow> nat \<Rightarrow> u32 \<Rightarrow> ('i, 's, 'k, 'a) material \<Rightarrow> ('i, 's, 'k, 'a) material res" where
  "delete_material sid kid z ty key_id m =
     (if ty = GY_SLOT_SPK then
        if mt_spks m \<noteq> [] \<and> sid (mt_spks m ! 0) = key_id then Inl GY_ERR_STATE
        else
          case history_delete sid key_id (mt_spks m) of None \<Rightarrow> Inl GY_ERR_NOT_FOUND
          | Some spks \<Rightarrow> Inr (m\<lparr>mt_spks := spks\<rparr>)
      else if ty = GY_SLOT_OPK then
        case pool_find kid key_id (mt_opks m) of None \<Rightarrow> Inl GY_ERR_NOT_FOUND
        | Some i \<Rightarrow> Inr (m\<lparr>mt_opks := (mt_opks m)[i := zero_entry z]\<rparr>)
      else Inl GY_ERR_ARG)"

definition cust_delete_hybrid_prekey ::
    "provider \<Rightarrow> platform \<Rightarrow> u32 \<Rightarrow> nat \<Rightarrow> u32 \<Rightarrow> ('w custst, gy_err, unit) sm" where
  "cust_delete_hybrid_prekey L P h ty key_id =
     cu_with (\<lambda>c.
     sbind (s_res (delete_material hspk_id hk_id zero_hybrid_keypair ty key_id (cu_hmat c))) (\<lambda>m1.
     sbind (cu_upd (on_hmat (\<lambda>_. m1))) (\<lambda>_.
     sbind (cu_undo (on_hmat (\<lambda>_. cu_hmat c)) (cu_tot (cust_seal_and_persist_hybrid_idmat L P))) (\<lambda>_.
       cu_upd (gy_custodian_slot_free h)))))"

definition gy_custodian_delete_prekey :: "provider \<Rightarrow> platform \<Rightarrow> u32 \<Rightarrow> ('w custst, gy_err, unit) sm" where
  "gy_custodian_delete_prekey L P h =
     cu_with (\<lambda>c.
     if \<not> cu_unlocked c then s_res (Inl GY_ERR_STATE)
     else
       sbind (s_res (gy_custodian_slot_get c h)) (\<lambda>(ty, key_id).
       if is_hybrid (cu_desc c) then cust_delete_hybrid_prekey L P h ty key_id
       else
         sbind (s_res (delete_material spk_id kp_id zero_keypair ty key_id (cu_mat c))) (\<lambda>m1.
         sbind (cu_upd (on_mat (\<lambda>_. m1))) (\<lambda>_.
         sbind (cu_undo (on_mat (\<lambda>_. cu_mat c)) (cu_tot (cust_seal_and_persist_idmat L P))) (\<lambda>_.
           cu_upd (gy_custodian_slot_free h))))))"

subsection \<open>Application signing keys\<close>

definition cust_appkey_cert_signed_data ::
    "provider \<Rightarrow> nat \<Rightarrow> gy_suite_desc \<Rightarrow> gy_public_key \<Rightarrow> u64 \<Rightarrow> u64 \<Rightarrow> u32 \<Rightarrow> bytes res" where
  "cust_appkey_cert_signed_data L cap desc sak_pub issued_at expiry identity_pkid =
     rbind (gy_info L GY_APPKEY_INFO_MAX (suite_id desc) ''appkey-cert'') (\<lambda>info.
     let need = length info + 1 + curve_pk_len desc + 8 + 8 + 4 in
     if need > cap then Inl GY_ERR_TOOLONG
     else Inr (info @ [pub_curve_type sak_pub] @ take (curve_pk_len desc) (pub_pk sak_pub) @
            put_be64 issued_at @ put_be64 expiry @ put_be32 identity_pkid))"

definition cust_hybrid_appkey_cert_signed_data ::
    "provider \<Rightarrow> nat \<Rightarrow> gy_suite_desc \<Rightarrow> gy_public_key \<Rightarrow> bytes \<Rightarrow> u64 \<Rightarrow> u64 \<Rightarrow> u32 \<Rightarrow> bytes res" where
  "cust_hybrid_appkey_cert_signed_data L cap desc sak_curve_pub sak_mldsa_pk issued_at expiry identity_pkid =
     rbind (gy_info L GY_APPKEY_INFO_MAX (suite_id desc) ''appkey-cert'') (\<lambda>info.
     let need = length info + 1 + curve_pk_len desc + dsa_pk_len desc + 8 + 8 + 4 in
     if need > cap then Inl GY_ERR_TOOLONG
     else Inr (info @ [pub_curve_type sak_curve_pub] @ take (curve_pk_len desc) (pub_pk sak_curve_pub) @
            take (dsa_pk_len desc) sak_mldsa_pk @ put_be64 issued_at @ put_be64 expiry @ put_be32 identity_pkid))"

definition cust_now :: "'w gy_custodian \<Rightarrow> 'w \<Rightarrow> u64" where
  "cust_now c w = (case cu_clock c of None \<Rightarrow> 0 | Some f \<Rightarrow> f w)"

definition cust_certify_sak :: "provider \<Rightarrow> gy_keypair \<Rightarrow> u64 \<Rightarrow> ('w custst, gy_err, gy_cust_sak) sm" where
  "cust_certify_sak L kp expiry =
     cu_with (\<lambda>c s.
     let issued_at = cust_now c (fst (snd s)); identity_pkid = kp_id (mt_ik (cu_mat c)) in
     sbind (s_res (cust_appkey_cert_signed_data L (GY_APPKEY_INFO_MAX + 1 + GY_CURVE_PK_MAX + 8 + 8 + 4) (cu_desc c) (kp_pub kp)
              issued_at expiry identity_pkid)) (\<lambda>signed_data.
     sbind (cu_gen (ctot (op_sign (cu_desc c) (kp_sk (mt_ik (cu_mat c))) signed_data))) (\<lambda>sig.
       s_res (Inr \<lparr>sak_kp = kp, sak_issued_at = issued_at, sak_expiry = expiry, sak_identity_pkid = identity_pkid,
                   sak_identity_sig = sig\<rparr>))) s)"

definition cust_certify_hsak ::
    "provider \<Rightarrow> gy_keypair \<Rightarrow> bytes \<Rightarrow> bytes \<Rightarrow> u64 \<Rightarrow> ('w custst, gy_err, gy_cust_hsak) sm" where
  "cust_certify_hsak L kp mldsa_pk mldsa_sk expiry =
     cu_with (\<lambda>c s.
     let issued_at = cust_now c (fst (snd s)); ik = mt_ik (cu_hmat c);
         identity_pkid = pub_pkid (hp_curve (hi_base (hik_pub ik))) in
     sbind (s_res (cust_hybrid_appkey_cert_signed_data L (GY_APPKEY_INFO_MAX + 1 + GY_CURVE_PK_MAX + GY_DSA_PK_MAX + 8 + 8 + 4)
              (cu_desc c) (kp_pub kp) mldsa_pk issued_at expiry identity_pkid)) (\<lambda>signed_data.
     sbind (cu_gen (ctot (op_sign (cu_desc c) (hik_curve_sk ik) signed_data))) (\<lambda>ed_sig.
     sbind (s_res (gy_info L GY_APPKEY_INFO_MAX (suite_id (cu_desc c)) ''appkey-cert'')) (\<lambda>ctx.
     sbind (cu_gen (ctot (the (op_dsa_sign (cu_desc c)) (hik_mldsa_sk ik) signed_data ctx))) (\<lambda>mldsa_sig.
       s_res (Inr \<lparr>hsak_kp = kp, hsak_mldsa_pk = mldsa_pk, hsak_mldsa_sk = mldsa_sk, hsak_issued_at = issued_at,
                   hsak_expiry = expiry, hsak_identity_pkid = identity_pkid, hsak_identity_ed_sig = ed_sig,
                   hsak_identity_mldsa_sig = mldsa_sig\<rparr>))))) s)"

definition cust_mint_sak :: "provider \<Rightarrow> u64 \<Rightarrow> ('w custst, gy_err, gy_cust_sak) sm" where
  "cust_mint_sak L expiry =
     cu_with (\<lambda>c. sbind (cu_gen (gy_keypair_generate L (cu_desc c))) (\<lambda>kp. cust_certify_sak L kp expiry))"

definition cust_mint_hsak :: "provider \<Rightarrow> u64 \<Rightarrow> ('w custst, gy_err, gy_cust_hsak) sm" where
  "cust_mint_hsak L expiry =
     cu_with (\<lambda>c.
     sbind (cu_gen (gy_keypair_generate L (cu_desc c))) (\<lambda>kp.
     sbind (cu_gen (ctot (the (op_dsa_keypair (cu_desc c))))) (\<lambda>(mldsa_pk, mldsa_sk).
       cust_certify_hsak L kp mldsa_pk mldsa_sk expiry)))"

text \<open>Registers a key and returns its handle, valid or not.\<close>

definition register_sak :: "u32 \<Rightarrow> ('w custst, gy_err, u32) sm" where
  "register_sak key_id s =
     (let (h, slots) = cust_slot_register GY_SLOT_SAK key_id (cu_slots (fst s)) in
      Some (Inr h, ((fst s)\<lparr>cu_slots := slots\<rparr>, snd s)))"

definition cust_generate_hybrid_appkey :: "provider \<Rightarrow> platform \<Rightarrow> u64 \<Rightarrow> ('w custst, gy_err, u32) sm" where
  "cust_generate_hybrid_appkey L P expiry =
     cu_with (\<lambda>c.
     if mt_saks (cu_hmat c) \<noteq> [] then s_res (Inl GY_ERR_STATE)
     else if \<not> sodium_malloc L (sizeof_hsak P) then s_res (Inl GY_ERR_CRYPTO)
     else
       sbind (cust_mint_hsak L expiry) (\<lambda>sak.
       sbind (cu_upd (on_hmat (\<lambda>m. m\<lparr>mt_saks := [sak]\<rparr>))) (\<lambda>_.
       sbind (cu_undo (on_hmat (\<lambda>m. m\<lparr>mt_saks := []\<rparr>)) (cu_tot (cust_seal_and_persist_hybrid_idmat L P))) (\<lambda>_.
         register_sak (hsak_id sak)))))"

definition gy_custodian_generate_appkey :: "provider \<Rightarrow> platform \<Rightarrow> u64 \<Rightarrow> ('w custst, gy_err, u32) sm" where
  "gy_custodian_generate_appkey L P expiry =
     cu_with (\<lambda>c.
     if \<not> cu_unlocked c then s_res (Inl GY_ERR_STATE)
     else if \<not> cu_have_identity c then s_res (Inl GY_ERR_STATE)
     else if is_hybrid (cu_desc c) then cust_generate_hybrid_appkey L P expiry
     else if mt_saks (cu_mat c) \<noteq> [] then s_res (Inl GY_ERR_STATE)
     else
       sbind (cust_mint_sak L expiry) (\<lambda>sak.
       sbind (cu_upd (on_mat (\<lambda>m. m\<lparr>mt_saks := [sak]\<rparr>))) (\<lambda>_.
       sbind (cu_undo (on_mat (\<lambda>m. m\<lparr>mt_saks := []\<rparr>)) (cu_tot (cust_seal_and_persist_idmat L P))) (\<lambda>_.
         register_sak (sak_id sak)))))"

definition cust_rotate_hybrid_appkey :: "provider \<Rightarrow> platform \<Rightarrow> u64 \<Rightarrow> ('w custst, gy_err, u32) sm" where
  "cust_rotate_hybrid_appkey L P expiry =
     cu_with (\<lambda>c.
     let backup = mt_saks (cu_hmat c) in
     if backup = [] then s_res (Inl GY_ERR_STATE)
     else if \<not> sodium_malloc L (sizeof_hsak P) \<or> \<not> sodium_malloc L (sizeof_hsak P * GY_CUSTODIAN_SAK_HISTORY_MAX)
     then s_res (Inl GY_ERR_CRYPTO)
     else
       sbind (cust_mint_hsak L expiry) (\<lambda>newsak.
       let evict_h = evict_handle GY_CUSTODIAN_SAK_HISTORY_MAX GY_SLOT_SAK (map hsak_id backup) (cu_slots c) in
       sbind (cu_upd (on_hmat (\<lambda>m. m\<lparr>mt_saks := history_push GY_CUSTODIAN_SAK_HISTORY_MAX newsak backup\<rparr>))) (\<lambda>_.
       sbind (cu_undo (on_hmat (\<lambda>m. m\<lparr>mt_saks := backup\<rparr>)) (cu_tot (cust_seal_and_persist_hybrid_idmat L P))) (\<lambda>_.
       sbind (cu_upd (gy_custodian_slot_free evict_h)) (\<lambda>_.
         register_sak (hsak_id newsak))))))"

definition gy_custodian_rotate_appkey :: "provider \<Rightarrow> platform \<Rightarrow> u64 \<Rightarrow> ('w custst, gy_err, u32) sm" where
  "gy_custodian_rotate_appkey L P expiry =
     cu_with (\<lambda>c.
     if \<not> cu_unlocked c then s_res (Inl GY_ERR_STATE)
     else if is_hybrid (cu_desc c) then cust_rotate_hybrid_appkey L P expiry
     else
       let backup_saks = mt_saks (cu_mat c) in
       if backup_saks = [] then s_res (Inl GY_ERR_STATE)
       else
         sbind (cust_mint_sak L expiry) (\<lambda>newsak.
         let evict_h = evict_handle GY_CUSTODIAN_SAK_HISTORY_MAX GY_SLOT_SAK (map sak_id backup_saks) (cu_slots c) in
         sbind (cu_upd (on_mat (\<lambda>m. m\<lparr>mt_saks := history_push GY_CUSTODIAN_SAK_HISTORY_MAX newsak backup_saks\<rparr>))) (\<lambda>_.
         sbind (cu_undo (on_mat (\<lambda>m. m\<lparr>mt_saks := backup_saks\<rparr>)) (cu_tot (cust_seal_and_persist_idmat L P))) (\<lambda>_.
         sbind (cu_upd (gy_custodian_slot_free evict_h)) (\<lambda>_.
           register_sak (sak_id newsak))))))"

definition sak_find :: "('a \<Rightarrow> u32) \<Rightarrow> u32 \<Rightarrow> 'a list \<Rightarrow> 'a option" where
  "sak_find sid key_id saks = map_option (\<lambda>i. saks ! i) (first_index (\<lambda>s. sid s = key_id) saks)"

definition cust_export_hybrid_appkey_cert :: "'w gy_custodian \<Rightarrow> u32 \<Rightarrow> nat \<Rightarrow> bytes res" where
  "cust_export_hybrid_appkey_cert c key_id cap =
     (case sak_find hsak_id key_id (mt_saks (cu_hmat c)) of None \<Rightarrow> Inl GY_ERR_NOT_FOUND
      | Some s \<Rightarrow>
          gy_hybrid_appkey_cert_put cap (cu_desc c)
            \<lparr>ac_sak_pub = kp_pub (hsak_kp s), ac_issued_at = hsak_issued_at s, ac_expiry = hsak_expiry s,
             ac_identity_pkid = hsak_identity_pkid s, ac_identity_sig = hsak_identity_ed_sig s,
             ac_sak_mldsa_pk = hsak_mldsa_pk s, ac_identity_mldsa_sig = hsak_identity_mldsa_sig s\<rparr>)"

definition gy_custodian_export_appkey_cert :: "'w gy_custodian \<Rightarrow> u32 \<Rightarrow> nat \<Rightarrow> bytes res" where
  "gy_custodian_export_appkey_cert c h cap =
     (if \<not> cu_unlocked c then Inl GY_ERR_STATE
      else
        rbind (gy_custodian_slot_get c h) (\<lambda>(ty, key_id).
        if ty \<noteq> GY_SLOT_SAK then Inl GY_ERR_ARG
        else if is_hybrid (cu_desc c) then cust_export_hybrid_appkey_cert c key_id cap
        else
          case sak_find sak_id key_id (mt_saks (cu_mat c)) of None \<Rightarrow> Inl GY_ERR_NOT_FOUND
          | Some s \<Rightarrow>
              gy_appkey_cert_put cap (cu_desc c)
                \<lparr>ac_sak_pub = kp_pub (sak_kp s), ac_issued_at = sak_issued_at s, ac_expiry = sak_expiry s,
                 ac_identity_pkid = sak_identity_pkid s, ac_identity_sig = sak_identity_sig s\<rparr>))"

definition cust_hybrid_sign :: "provider \<Rightarrow> 'w gy_custodian \<Rightarrow> u32 \<Rightarrow> bytes \<Rightarrow> bytes \<Rightarrow> nat \<Rightarrow> bytes comp" where
  "cust_hybrid_sign L c key_id app_ctx msg cap =
     (case sak_find hsak_id key_id (mt_saks (cu_hmat c)) of None \<Rightarrow> clift (Inl GY_ERR_NOT_FOUND)
      | Some s \<Rightarrow>
          if cap < sig_len (cu_desc c) + dsa_sig_len (cu_desc c) then clift (Inl GY_ERR_ARG)
          else
            cbind (clift (gy_info L GY_APPKEY_INFO_MAX (suite_id (cu_desc c)) ''appkey'')) (\<lambda>info.
            let signed_data = appkey_request info app_ctx msg in
            cbind (ctot (op_sign (cu_desc c) (kp_sk (hsak_kp s)) signed_data)) (\<lambda>ed_sig.
            cbind (ctot (the (op_dsa_sign (cu_desc c)) (hsak_mldsa_sk s) signed_data info)) (\<lambda>mldsa_sig.
              clift (Inr (ed_sig @ mldsa_sig))))))"

definition gy_custodian_sign :: "provider \<Rightarrow> 'w gy_custodian \<Rightarrow> u32 \<Rightarrow> bytes \<Rightarrow> bytes \<Rightarrow> nat \<Rightarrow> bytes comp" where
  "gy_custodian_sign L c h app_ctx msg cap =
     (if \<not> cu_unlocked c then clift (Inl GY_ERR_STATE)
      else if length app_ctx > GY_CUSTODIAN_SIGN_MAX \<or> length msg > GY_CUSTODIAN_SIGN_MAX - length app_ctx
      then clift (Inl GY_ERR_TOOLONG)
      else
        cbind (clift (gy_custodian_slot_get c h)) (\<lambda>(ty, key_id).
        if ty \<noteq> GY_SLOT_SAK then clift (Inl GY_ERR_ARG)
        else if is_hybrid (cu_desc c) then cust_hybrid_sign L c key_id app_ctx msg cap
        else
          case sak_find sak_id key_id (mt_saks (cu_mat c)) of None \<Rightarrow> clift (Inl GY_ERR_NOT_FOUND)
          | Some s \<Rightarrow>
              if cap < sig_len (cu_desc c) then clift (Inl GY_ERR_ARG)
              else
                cbind (clift (gy_info L GY_APPKEY_INFO_MAX (suite_id (cu_desc c)) ''appkey'')) (\<lambda>info.
                ctot (op_sign (cu_desc c) (kp_sk (sak_kp s)) (appkey_request info app_ctx msg)))))"

subsection \<open>Identity certification for the post-quantum groups\<close>

definition GY_KR44_VKB :: nat where "GY_KR44_VKB = 2976"
definition GY_KR87_VKB :: nat where "GY_KR87_VKB = 5920"
definition GY_QSPGS_MASTER_KEY_255 :: nat where "GY_QSPGS_MASTER_KEY_255 = 32"
definition GY_QSPGS_MASTER_KEY_448 :: nat where "GY_QSPGS_MASTER_KEY_448 = 56"
definition GY_QSPGS_UID_LEN :: nat where "GY_QSPGS_UID_LEN = 16"
definition GY_QSPGS_GID_LEN :: nat where "GY_QSPGS_GID_LEN = 16"
definition GY_QSPGS_CTX_REGUSER :: string where "GY_QSPGS_CTX_REGUSER = ''qspgs-reguser''"
definition GY_QSPGS_CTX_INVACCEPT :: string where "GY_QSPGS_CTX_INVACCEPT = ''qspgs-invaccept''"

definition cust_qspgs_vkb_len :: "u8 \<Rightarrow> nat" where
  "cust_qspgs_vkb_len sid =
     (if sid = GY_SUITE_H25519_512 then GY_KR44_VKB else if sid = GY_SUITE_H448_1024 then GY_KR87_VKB else 0)"

definition cust_qspgs_mkey_len :: "u8 \<Rightarrow> nat" where
  "cust_qspgs_mkey_len sid =
     (if sid = GY_SUITE_H25519_512 then GY_QSPGS_MASTER_KEY_255
      else if sid = GY_SUITE_H448_1024 then GY_QSPGS_MASTER_KEY_448 else 0)"

definition cust_qspgs_identity_dual_sign :: "provider \<Rightarrow> 'w gy_custodian \<Rightarrow> string \<Rightarrow> bytes \<Rightarrow> (bytes \<times> bytes) comp" where
  "cust_qspgs_identity_dual_sign L c purpose obj =
     (if \<not> cu_unlocked c then clift (Inl GY_ERR_STATE)
      else if \<not> is_hybrid (cu_desc c) then clift (Inl GY_ERR_UNSUPPORTED)
      else if \<not> cu_have_identity c then clift (Inl GY_ERR_STATE)
      else if length obj > GY_CUSTODIAN_SIGN_MAX then clift (Inl GY_ERR_TOOLONG)
      else
        cbind (clift (gy_info L GY_APPKEY_INFO_MAX (suite_id (cu_desc c)) purpose)) (\<lambda>info.
        cbind (ctot (op_sign (cu_desc c) (hik_curve_sk (mt_ik (cu_hmat c))) (info @ obj))) (\<lambda>ed_sig.
        cbind (ctot (the (op_dsa_sign (cu_desc c)) (hik_mldsa_sk (mt_ik (cu_hmat c))) obj info)) (\<lambda>mldsa_sig.
          clift (Inr (ed_sig, mldsa_sig))))))"

definition gy_custodian_qspgs_sign_reguser :: "provider \<Rightarrow> 'w gy_custodian \<Rightarrow> bytes \<Rightarrow> bytes \<Rightarrow> (bytes \<times> bytes) comp" where
  "gy_custodian_qspgs_sign_reguser L c vkb acq =
     (let vkblen = cust_qspgs_vkb_len (suite_id (cu_desc c)); mklen = cust_qspgs_mkey_len (suite_id (cu_desc c)) in
      if vkblen = 0 \<or> mklen = 0 then clift (Inl GY_ERR_UNSUPPORTED)
      else cust_qspgs_identity_dual_sign L c GY_QSPGS_CTX_REGUSER (take vkblen vkb @ take mklen acq))"

definition gy_custodian_qspgs_sign_invaccept ::
    "provider \<Rightarrow> 'w gy_custodian \<Rightarrow> bytes \<Rightarrow> bytes \<Rightarrow> bytes \<Rightarrow> (bytes \<times> bytes) comp" where
  "gy_custodian_qspgs_sign_invaccept L c uid uk gid =
     (if length uid \<noteq> GY_QSPGS_UID_LEN then clift (Inl GY_ERR_ARG)
      else
        let mklen = cust_qspgs_mkey_len (suite_id (cu_desc c)) in
        if mklen = 0 then clift (Inl GY_ERR_UNSUPPORTED)
        else cust_qspgs_identity_dual_sign L c GY_QSPGS_CTX_INVACCEPT
               ([word_of_nat (length uid)] @ uid @ take mklen uk @ take GY_QSPGS_GID_LEN gid))"

definition gy_custodian_identity_dual_pub :: "'w gy_custodian \<Rightarrow> (bytes \<times> bytes) res" where
  "gy_custodian_identity_dual_pub c =
     (if \<not> cu_unlocked c then Inl GY_ERR_STATE
      else if \<not> is_hybrid (cu_desc c) then Inl GY_ERR_UNSUPPORTED
      else if \<not> cu_have_identity c then Inl GY_ERR_STATE
      else Inr (pub_pk (hp_curve (hi_base (hik_pub (mt_ik (cu_hmat c))))), hi_mldsa_pk (hik_pub (mt_ik (cu_hmat c)))))"

end
