(* ===== verification/GY_Api.thy ===== *)
theory GY_Api
  imports GY_Custodian
begin

text \<open>
  The public operations on an open custodian, \<^verbatim>\<open>src/proto/api.c\<close>: the send transaction with its fan-out,
  the receive, and the management of peer records. They run the session layer on the custodian's own
  store, whose callbacks seal the records and use up one-time prekeys of the custodian. The state is the
  send context of the object together with the custodian, the application's world and the random draws;
  the receive context points into the custodian and starts every operation with an empty stage, so it is
  taken from the custodian at each call.
\<close>

type_synonym 'w apist = "('w gy_custodian \<times> 'w) sendst"

abbreviation cust_of :: "'w apist \<Rightarrow> 'w gy_custodian" where "cust_of s \<equiv> fst (fst (snd s))"
abbreviation app_of :: "'w apist \<Rightarrow> 'w" where "app_of s \<equiv> snd (fst (snd s))"

definition with_cust :: "('w gy_custodian \<Rightarrow> ('w apist, 'e, 'a) sm) \<Rightarrow> ('w apist, 'e, 'a) sm" where
  "with_cust f s = f (cust_of s) s"

definition set_open :: "bool \<Rightarrow> 'w apist \<Rightarrow> 'w apist" where
  "set_open b s = (case s of (sx, ((c, w), r)) \<Rightarrow> (sx, ((c\<lparr>cu_send_open := b\<rparr>, w), r)))"

subsection \<open>Fingerprint\<close>

definition gy_self_fingerprint_size :: "'w gy_custodian \<Rightarrow> nat res" where
  "gy_self_fingerprint_size c = (if \<not> cu_have_identity c then Inl GY_ERR_STATE else Inr (hash_len (cu_desc c)))"

definition gy_self_fingerprint :: "'w gy_custodian \<Rightarrow> nat \<Rightarrow> bytes res" where
  "gy_self_fingerprint c cap =
     (if \<not> cu_have_identity c then Inl GY_ERR_STATE
      else if cap < hash_len (cu_desc c) then Inl GY_ERR_ARG
      else if is_hybrid (cu_desc c) then gy_hybrid_identity_fingerprint (cu_desc c) (hik_pub (mt_ik (cu_hmat c)))
      else gy_proto_fingerprint (cu_desc c) (kp_pub (mt_ik (cu_mat c))))"

subsection \<open>Sending\<close>

definition GY_HYBRID_MLKEM_INTERVAL :: u32 where "GY_HYBRID_MLKEM_INTERVAL = 20"

definition gy_send_open :: "('w apist, gy_err, unit) sm" where
  "gy_send_open = with_cust (\<lambda>c.
     if \<not> cu_have_identity c then s_res (Inl GY_ERR_STATE)
     else if cu_send_open c then s_res (Inl GY_ERR_STATE)
     else (\<lambda>s. Some (Inr (), set_open True (gy_send_begin (fst s), snd s))))"

definition gy_prepare ::
    "provider \<Rightarrow> bytes list \<Rightarrow> nat option \<Rightarrow> ('w apist, gy_err \<times> nat option, nat \<times> gy_send_desc list) sm" where
  "gy_prepare L targets cap = gy_send_prepare L targets cap"

definition frame_envelope :: "'w gy_custodian \<Rightarrow> u8 \<Rightarrow> bytes \<Rightarrow> bytes" where
  "frame_envelope c msg_type inner = [GY_PROTOCOL_VERSION, suite_id (cu_desc c), msg_type] @ inner"

definition gy_encrypt_size :: "'w apist \<Rightarrow> nat \<Rightarrow> nat" where
  "gy_encrypt_size s ptlen = gy_send_encrypt_size (fst s) ptlen + GY_ENVELOPE_HDR_LEN"

definition gy_encrypt :: "provider \<Rightarrow> bytes \<Rightarrow> bytes \<Rightarrow> bytes \<Rightarrow> nat \<Rightarrow> ('w apist, gy_err, bytes) sm" where
  "gy_encrypt L user_id device_id pt cap =
     (if cap < GY_ENVELOPE_HDR_LEN then s_res (Inl GY_ERR_ARG)
      else
        sbind (gy_send_encrypt L user_id device_id pt (cap - GY_ENVELOPE_HDR_LEN)) (\<lambda>inner.
        with_cust (\<lambda>c. s_res (Inr (frame_envelope c GY_MSG_DR inner)))))"

text \<open>A bundle that does not parse, before anything else is looked at.\<close>

definition parsed :: "'b res \<Rightarrow> ('b \<Rightarrow> ('w apist, upd_err, 'a) sm) \<Rightarrow> ('w apist, upd_err, 'a) sm" where
  "parsed x k = (case x of Inl e \<Rightarrow> s_res (Inl (e, None)) | Inr b \<Rightarrow> k b)"

definition api_initiate_hybrid ::
    "provider \<Rightarrow> bytes \<Rightarrow> bytes \<Rightarrow> bytes \<Rightarrow> bytes \<Rightarrow> bool \<Rightarrow> nat \<Rightarrow> ('w apist, upd_err, bytes) sm" where
  "api_initiate_hybrid L user_id device_id bundle pt want cap = with_cust (\<lambda>c.
     parsed (gy_hybrid_bundle_parse (cu_desc c) bundle) (\<lambda>b.
     if cap < GY_ENVELOPE_HDR_LEN then s_res (Inl (GY_ERR_ARG, None))
     else
       sbind (gy_send_initiate_hybrid L (mt_ik (cu_hmat c)) GY_HYBRID_MLKEM_INTERVAL user_id device_id b pt want
                (cap - GY_ENVELOPE_HDR_LEN)) (\<lambda>inner.
       with_cust (\<lambda>c. s_res (Inr (frame_envelope c GY_MSG_INIT inner))))))"

definition api_initiate ::
    "provider \<Rightarrow> bool \<Rightarrow> bytes \<Rightarrow> bytes \<Rightarrow> bytes \<Rightarrow> bytes \<Rightarrow> bool \<Rightarrow> nat \<Rightarrow> ('w apist, upd_err, bytes) sm" where
  "api_initiate L reinit user_id device_id bundle pt want cap = with_cust (\<lambda>c.
     if is_hybrid (cu_desc c) then api_initiate_hybrid L user_id device_id bundle pt want cap
     else
       parsed (gy_bundle_parse (cu_desc c) bundle) (\<lambda>b.
       if cap < GY_ENVELOPE_HDR_LEN then s_res (Inl (GY_ERR_ARG, None))
       else
         sbind ((if reinit then gy_session_reinitiate else gy_send_initiate) L user_id device_id b pt want
                  (cap - GY_ENVELOPE_HDR_LEN)) (\<lambda>inner.
         with_cust (\<lambda>c. s_res (Inr (frame_envelope c GY_MSG_INIT inner))))))"

definition gy_initiate_size :: "'w gy_custodian \<Rightarrow> nat \<Rightarrow> nat" where
  "gy_initiate_size c ptlen =
     (if is_hybrid (cu_desc c) then GY_SEND_INIT_HYBRID_SIZE ptlen else GY_SEND_INIT_SIZE ptlen) + GY_ENVELOPE_HDR_LEN"

definition gy_initiate :: "provider \<Rightarrow> bytes \<Rightarrow> bytes \<Rightarrow> bytes \<Rightarrow> bytes \<Rightarrow> bool \<Rightarrow> nat \<Rightarrow> ('w apist, upd_err, bytes) sm" where
  "gy_initiate L user_id device_id bundle pt want cap = api_initiate L False user_id device_id bundle pt want cap"

definition gy_reinitiate :: "provider \<Rightarrow> bytes \<Rightarrow> bytes \<Rightarrow> bytes \<Rightarrow> bytes \<Rightarrow> bool \<Rightarrow> nat \<Rightarrow> ('w apist, upd_err, bytes) sm" where
  "gy_reinitiate L user_id device_id bundle pt want cap = api_initiate L True user_id device_id bundle pt want cap"

definition gy_commit :: "('w apist, gy_err, unit) sm" where
  "gy_commit = with_cust (\<lambda>c.
     if \<not> cu_send_open c then s_res (Inl GY_ERR_STATE)
     else (\<lambda>s. map_option (\<lambda>(x, s1). (x, set_open False s1)) (gy_send_commit s)))"

definition gy_rollback :: "'w apist \<Rightarrow> 'w apist" where
  "gy_rollback s = (if cu_send_open (cust_of s) then set_open False (gy_send_abort (fst s), snd s) else s)"

subsection \<open>Receiving\<close>

definition gy_receive_size :: "bytes \<Rightarrow> nat" where
  "gy_receive_size msg = length msg"

definition gy_receive :: "provider \<Rightarrow> platform \<Rightarrow> bytes \<Rightarrow> bytes \<Rightarrow> bytes \<Rightarrow> nat \<Rightarrow> ('w apist, gy_err, bytes) sm" where
  "gy_receive L P user_id device_id msg cap = with_cust (\<lambda>c.
     if \<not> cu_have_identity c then s_res (Inl GY_ERR_STATE)
     else (\<lambda>s. map_option (\<lambda>(x, (rx, v)). (x, (fst s, v)))
       (if is_hybrid (cu_desc c)
        then gy_hybrid_recv L (mt_ik (cu_hmat c)) (mt_spks (cu_hmat c)) (map pe_key (mt_opks (cu_hmat c))) user_id device_id msg cap
               (cust_recv_ctx L P c, snd s)
        else gy_recv L user_id device_id msg cap (cust_recv_ctx L P c, snd s))))"

subsection \<open>Peer records\<close>

text \<open>A computation on the stage of the receive context; the operation is begun, committed and aborted in it.\<close>

definition on_recv_op :: "provider \<Rightarrow> platform \<Rightarrow> (('w gy_custodian \<times> 'w) opst, 'e, 'a) sm \<Rightarrow> ('w apist, 'e, 'a) sm" where
  "on_recv_op L P m s =
     map_option (\<lambda>(x, (op1, v)). (x, (fst s, v))) (m (rx_op (cust_recv_ctx L P (cust_of s)), snd s))"

definition one_transaction :: "'w gy_store \<Rightarrow> ('w opst, gy_err, 'a) sm \<Rightarrow> ('w opst, gy_err, unit) sm" where
  "one_transaction st m = sbind (s_begin st) (\<lambda>_. sbind (s_or_abort m) (\<lambda>_. s_commit))"

definition gy_accept_identity :: "provider \<Rightarrow> platform \<Rightarrow> bytes \<Rightarrow> bytes \<Rightarrow> bytes \<Rightarrow> ('w apist, gy_err, unit) sm" where
  "gy_accept_identity L P user_id device_id bundle = with_cust (\<lambda>c.
     if is_hybrid (cu_desc c) then
       case gy_hybrid_bundle_parse (cu_desc c) bundle of Inl e \<Rightarrow> s_res (Inl e)
       | Inr hb \<Rightarrow> on_recv_op L P (one_transaction (cust_wire_store L P)
           (gy_hybrid_accept_key_change L (suite_id (cu_desc c)) user_id device_id (hpb_ik hb)))
     else
       case gy_bundle_parse (cu_desc c) bundle of Inl e \<Rightarrow> s_res (Inl e)
       | Inr b \<Rightarrow> on_recv_op L P (one_transaction (cust_wire_store L P)
           (gy_accept_key_change L (suite_id (cu_desc c)) user_id device_id (pb_ik b))))"

definition gy_purge_device :: "provider \<Rightarrow> platform \<Rightarrow> bytes \<Rightarrow> bytes \<Rightarrow> ('w apist, gy_err, unit) sm" where
  "gy_purge_device L P user_id device_id =
     on_recv_op L P (one_transaction (cust_wire_store L P) (gy_delete_device L user_id device_id))"

definition gy_purge_user :: "provider \<Rightarrow> platform \<Rightarrow> bytes \<Rightarrow> ('w apist, gy_err, unit) sm" where
  "gy_purge_user L P user_id = on_recv_op L P (gy_delete_user L (cust_wire_store L P) user_id)"

datatype gy_pq_status = GY_PQ_NOT_APPLICABLE | GY_PQ_PENDING | GY_PQ_CONFIRMED

definition gy_pq_pending :: "provider \<Rightarrow> platform \<Rightarrow> bytes \<Rightarrow> bytes \<Rightarrow> ('w apist, gy_err, gy_pq_status) sm" where
  "gy_pq_pending L P user_id device_id = with_cust (\<lambda>c.
     if \<not> is_hybrid (cu_desc c) then s_res (Inr GY_PQ_NOT_APPLICABLE)
     else on_recv_op L P (sbind (s_begin (cust_wire_store L P)) (\<lambda>_.
       sbind (s_or_abort (gy_device_pq_state L user_id device_id)) (\<lambda>found.
       sbind s_abort (\<lambda>_. s_res (Inr (if found = Some True then GY_PQ_CONFIRMED else GY_PQ_PENDING)))))))"

end
