(* ===== verification/GY_CustodyInv.thy ===== *)
theory GY_CustodyInv
  imports GY_Custodian
begin

text \<open>
  What the custodian keeps: the bootstrap header survives the store, the handle table names held keys
  only, an operation that fails restores the object, and the blob in the store always carries the
  material in memory.
\<close>

subsection \<open>The bootstrap header\<close>

lemma local_be16: "put_be16 = gy_be16_put"
  by (simp add: fun_eq_iff put_be16_def gy_be16_put_def)

lemma header_decode_encode:
  assumes "gy_cust_header_encode cap h = Inr hdr"
  shows "gy_cust_header_decode (hdr @ tail) = Inr (h, length hdr)"
proof -
  have b: "length (ch_self_uid h) \<le> 64" "length (ch_self_did h) \<le> 64" "length (ch_wrap h) \<le> 126"
    using assms by (auto simp: gy_cust_header_encode_def GY_USER_ID_MAX_def GY_DEVICE_ID_MAX_def GY_KEYSTORE_WRAP_MAX_def
        GY_KEKPROT_MAX_BLOB_def GY_KEKPROT_HDR_LEN_def GY_PWHASH_SALT_LEN_def GY_SEAL_MAX_OVERHEAD_def GY_KEKPROT_KEK_LEN_def
        GY_SEAL_KEY_LEN_def split: if_splits)
  have lens: "unat (word_of_nat (length (ch_self_uid h)) :: u8) = length (ch_self_uid h)"
      "unat (word_of_nat (length (ch_self_did h)) :: u8) = length (ch_self_did h)"
      "unat (word_of_nat (length (ch_wrap h)) :: u16) = length (ch_wrap h)"
    using b by (simp_all add: unsigned_of_nat take_bit_nat_eq_self)
  have get: "get_be16 (gy_be16_put v @ xs) = v" for v xs
    using be16_get_put_append [of v xs] by (simp add: get_be16_def gy_be16_get_def)
  define u d wr where "u = ch_self_uid h" and "d = ch_self_did h" and "wr = ch_wrap h"
  have h: "h = \<lparr>ch_suite_id = ch_suite_id h, ch_self_uid = u, ch_self_did = d, ch_wrap = wr\<rparr>" by (simp add: u_def d_def wr_def)
  have e: "hdr @ tail = GY_CUST_HDR_VERSION # ch_suite_id h # word_of_nat (length u) #
      u @ word_of_nat (length d) # d @ gy_be16_put (word_of_nat (length wr)) @ wr @ tail"
    using assms by (auto simp: gy_cust_header_encode_def local_be16 u_def d_def wr_def split: if_splits)
  have l: "length hdr = 6 + length u + length d + length wr"
    using assms by (auto simp: gy_cust_header_encode_def local_be16 u_def d_def wr_def split: if_splits)
  define B where "B = hdr @ tail"
  have n: "length B = 6 + length u + length d + length wr + length tail" by (simp add: B_def l)
  have f: "B ! 0 = GY_CUST_HDR_VERSION" "B ! 1 = ch_suite_id h" "B ! 2 = word_of_nat (length u)"
      "B ! (3 + length u) = word_of_nat (length d)"
    unfolding B_def e by (simp_all add: numeral_eq_Suc)
  have dr: "drop 3 B = u @ word_of_nat (length d) # d @ gy_be16_put (word_of_nat (length wr)) @ wr @ tail"
      "drop (3 + length u + 1) B = d @ gy_be16_put (word_of_nat (length wr)) @ wr @ tail"
      "drop (3 + length u + 1 + length d) B = gy_be16_put (word_of_nat (length wr)) @ wr @ tail"
      "drop (3 + length u + 1 + length d + 2) B = wr @ tail"
    unfolding B_def e by (simp_all add: numeral_eq_Suc)
  note b' = b [folded u_def d_def wr_def] and lens' = lens [folded u_def d_def wr_def]
  show ?thesis
    unfolding B_def [symmetric] gy_cust_header_decode_def Let_def f dr get lens' session_consts
    using n b' by (subst h) (simp add: l GY_KEYSTORE_WRAP_MAX_def
        GY_KEKPROT_MAX_BLOB_def GY_KEKPROT_HDR_LEN_def GY_PWHASH_SALT_LEN_def GY_SEAL_MAX_OVERHEAD_def GY_KEKPROT_KEK_LEN_def
        GY_SEAL_KEY_LEN_def)
qed

subsection \<open>The handle table\<close>

lemma first_index_SomeD: "first_index p xs = Some i \<Longrightarrow> i < length xs \<and> p (xs ! i)"
  using first_index_split [of p xs i] by simp

lemma first_index_nth: "first_index p xs = None \<longleftrightarrow> (\<forall>i < length xs. \<not> p (xs ! i))"
  unfolding first_index_None by (metis in_set_conv_nth)

text \<open>A table of the fixed size whose free places are zero.\<close>

definition slots_wf :: "gy_key_slot list \<Rightarrow> bool" where
  "slots_wf S \<longleftrightarrow> length S = GY_CUSTODIAN_MAX_SLOTS \<and> (\<forall>i < length S. \<not> sl_in_use (S ! i) \<longrightarrow> S ! i = zero_slot)"

definition names :: "gy_key_slot \<Rightarrow> nat \<Rightarrow> u32 \<Rightarrow> bool" where
  "names s ty k \<longleftrightarrow> sl_in_use s \<and> sl_type s = ty \<and> sl_key_id s = k"

text \<open>No identifier of the type has two handles.\<close>

definition one_handle :: "nat \<Rightarrow> gy_key_slot list \<Rightarrow> bool" where
  "one_handle ty S \<longleftrightarrow> (\<forall>i j k. i < length S \<and> j < length S \<and> names (S ! i) ty k \<and> names (S ! j) ty k \<longrightarrow> i = j)"

lemma names_zero [simp]: "\<not> names zero_slot ty k" "\<not> sl_in_use zero_slot"
  by (simp_all add: names_def zero_slot_def)

lemma handle_num: "i < 48 \<Longrightarrow> unat (word_of_nat (i + 1) :: u32) = i + 1"
  by (simp only: unsigned_of_nat) (simp add: take_bit_nat_eq_self)

lemma handle_zero: "i < 48 \<Longrightarrow> word_of_nat (i + 1) \<noteq> (0 :: u32)"
  using handle_num [of i] by (metis add_is_0 one_neq_zero unsigned_0)

lemma register_cases:
  assumes "slots_wf S"
  obtains (full) "cust_slot_register ty k S = (0, S)" "\<forall>i < length S. sl_in_use (S ! i)"
  | (placed) i where "i < length S" "S ! i = zero_slot" "fst (cust_slot_register ty k S) = word_of_nat (i + 1)"
      "snd (cust_slot_register ty k S) = S[i := \<lparr>sl_in_use = True, sl_type = ty, sl_key_id = k\<rparr>]"
proof (cases "first_index (\<lambda>s. \<not> sl_in_use s) S")
  case None
  then show ?thesis
    using full None by (auto simp: cust_slot_register_def GY_KEY_HANDLE_INVALID_def first_index_nth)
next
  case (Some i)
  then show ?thesis
    using placed [of i] first_index_SomeD [OF Some] assms by (auto simp: cust_slot_register_def slots_wf_def)
qed

lemma register_wf: "slots_wf S \<Longrightarrow> slots_wf (snd (cust_slot_register ty k S))"
  by (rule register_cases [of S ty k]) (auto simp: slots_wf_def nth_list_update)

lemma register_nth:
  assumes "slots_wf S" "i < length S"
  shows "snd (cust_slot_register ty k S) ! i = S ! i \<or> S ! i = zero_slot \<and> names (snd (cust_slot_register ty k S) ! i) ty k"
  using assms(2) by (rule_tac register_cases [OF assms(1), of ty k]) (auto simp: nth_list_update names_def)

lemma register_len: "length (snd (cust_slot_register ty k S)) = length S"
  by (auto simp: cust_slot_register_def split: option.splits)

lemma register_one:
  assumes "slots_wf S" "one_handle ty' S" "ty = ty' \<Longrightarrow> \<forall>i < length S. \<not> names (S ! i) ty' k"
  shows "one_handle ty' (snd (cust_slot_register ty k S))"
proof (rule register_cases [OF assms(1), of ty k])
  fix i assume "i < length S" "S ! i = zero_slot"
    and p: "snd (cust_slot_register ty k S) = S[i := \<lparr>sl_in_use = True, sl_type = ty, sl_key_id = k\<rparr>]"
  have n: "a = i \<and> ty = ty' \<and> x = k \<or> a \<noteq> i \<and> names (S ! a) ty' x"
    if "a < length S" "names (snd (cust_slot_register ty k S) ! a) ty' x" for a x
    using that unfolding p by (cases "a = i") (auto simp: names_def)
  show ?thesis
    unfolding one_handle_def register_len
  proof (intro allI impI, elim conjE)
    fix a b x assume ab: "a < length S" "b < length S" "names (snd (cust_slot_register ty k S) ! a) ty' x"
      "names (snd (cust_slot_register ty k S) ! b) ty' x"
    show "a = b" using n [OF ab(1,3)] n [OF ab(2,4)] ab(1,2) assms(2,3) unfolding one_handle_def by blast
  qed
qed (use assms(2) in simp)

lemma register_all_len [simp]: "length (register_all ty ks S) = length S"
  by (induction ks arbitrary: S) (simp_all add: register_len)

lemma register_all_wf: "slots_wf S \<Longrightarrow> slots_wf (register_all ty ks S)"
  by (induction ks arbitrary: S) (simp_all add: register_wf)

lemma register_all_nth:
  assumes "slots_wf S" "i < length S"
  shows "register_all ty ks S ! i = S ! i \<or> S ! i = zero_slot \<and> (\<exists>k \<in> set ks. names (register_all ty ks S ! i) ty k)"
  using assms
proof (induction ks arbitrary: S)
  case (Cons k ks)
  define S1 where "S1 = snd (cust_slot_register ty k S)"
  have w: "slots_wf S1" "i < length S1" using register_wf [OF Cons.prems(1)] Cons.prems(2) by (simp_all add: S1_def register_len)
  have a: "S1 ! i = S ! i \<or> S ! i = zero_slot \<and> names (S1 ! i) ty k" unfolding S1_def by (rule register_nth [OF Cons.prems])
  from Cons.IH [OF w] a show ?case unfolding register_all.simps S1_def [symmetric] by (auto simp: names_def)
qed simp

lemma register_all_one:
  assumes "slots_wf S" "one_handle ty S" "distinct ks" "\<forall>i < length S. \<forall>k \<in> set ks. \<not> names (S ! i) ty k"
  shows "one_handle ty (register_all ty ks S)"
  using assms
proof (induction ks arbitrary: S)
  case (Cons k ks)
  define S1 where "S1 = snd (cust_slot_register ty k S)"
  have w: "slots_wf S1" "one_handle ty S1" using register_wf [OF Cons.prems(1)] register_one [OF Cons.prems(1,2), of ty k] Cons.prems(4)
    by (simp_all add: S1_def)
  have "\<forall>i < length S1. \<forall>x \<in> set ks. \<not> names (S1 ! i) ty x"
  proof (intro allI ballI impI)
    fix i x assume x: "i < length S1" "x \<in> set ks"
    then have "S1 ! i = S ! i \<or> names (S1 ! i) ty k" using register_nth [OF Cons.prems(1), of i ty k] by (auto simp: S1_def register_len)
    moreover have "\<not> names (S ! i) ty x" using Cons.prems(4) x by (simp add: S1_def register_len)
    ultimately show "\<not> names (S1 ! i) ty x" using Cons.prems(3) x(2) by (auto simp: names_def)
  qed
  then show ?case using Cons.IH [OF w] Cons.prems(3) by (simp add: S1_def)
qed simp

lemma free_find_nth:
  assumes "slots_wf S" "one_handle ty S" "i < length S"
  shows "slot_free (cust_slot_find ty k S) S ! i = (if names (S ! i) ty k then zero_slot else S ! i)"
proof (cases "first_index (\<lambda>s. sl_in_use s \<and> sl_type s = ty \<and> sl_key_id s = k) S")
  case None
  then show ?thesis
    using None [unfolded first_index_nth] assms(3) None
    by (auto simp: cust_slot_find_def slot_free_def names_def GY_KEY_HANDLE_INVALID_def)
next
  case (Some j)
  have j: "j < length S" "names (S ! j) ty k" "j < 48"
    using first_index_SomeD [OF Some] assms(1) by (auto simp: names_def slots_wf_def GY_CUSTODIAN_MAX_SLOTS_def)
  have "names (S ! i) ty k \<Longrightarrow> i = j" using assms(2,3) j(1,2) by (auto simp: one_handle_def)
  then show ?thesis
    using j handle_num [OF j(3)] handle_zero [OF j(3)] assms(3) Some
    by (cases "i = j") (auto simp: cust_slot_find_def slot_free_def GY_KEY_HANDLE_INVALID_def GY_CUSTODIAN_MAX_SLOTS_def)
qed

lemma free_len [simp]: "length (slot_free h S) = length S"
  by (simp add: slot_free_def)

lemma free_wf: "slots_wf S \<Longrightarrow> slots_wf (slot_free h S)"
  by (auto simp: slots_wf_def slot_free_def nth_list_update zero_slot_def)

lemma free_sub: "i < length S \<Longrightarrow> slot_free h S ! i = S ! i \<or> slot_free h S ! i = zero_slot"
  by (cases "i = unat h - 1") (simp_all add: slot_free_def)

lemma free_one: "one_handle ty S \<Longrightarrow> one_handle ty (slot_free h S)"
  unfolding one_handle_def using free_sub [of _ S h] by (metis free_len names_zero(1))

lemma register_all_undone:
  assumes "slots_wf S" "one_handle GY_SLOT_OPK S" "distinct ks" "\<forall>i < length S. \<forall>k \<in> set ks. \<not> names (S ! i) GY_SLOT_OPK k"
    and "map (\<lambda>i. pkid (pe_key (ps ! i))) touched = ks"
  shows "unregister_touched pkid ps touched (register_all GY_SLOT_OPK ks S) = S"
proof -
  have u: "unregister_touched pkid ps touched T ! i =
      (if \<exists>k \<in> set (map (\<lambda>i. pkid (pe_key (ps ! i))) touched). names (T ! i) GY_SLOT_OPK k then zero_slot else T ! i) \<and>
      length (unregister_touched pkid ps touched T) = length T"
    if "slots_wf T" "one_handle GY_SLOT_OPK T" "i < length T" for T i
    using that
  proof (induction touched arbitrary: T)
    case (Cons j js)
    define T1 where "T1 = slot_free (cust_slot_find GY_SLOT_OPK (pkid (pe_key (ps ! j))) T) T"
    have t: "slots_wf T1" "one_handle GY_SLOT_OPK T1" "i < length T1"
        "T1 ! i = (if names (T ! i) GY_SLOT_OPK (pkid (pe_key (ps ! j))) then zero_slot else T ! i)"
      using free_find_nth [OF Cons.prems] Cons.prems by (simp_all add: T1_def free_wf free_one)
    show ?case using Cons.IH [OF t(1-3)] t(4) by (auto simp: T1_def [symmetric]) (simp_all add: T1_def)
  qed simp
  note w = register_all_wf [OF assms(1), of GY_SLOT_OPK ks] register_all_one [OF assms(1-4)]
  show ?thesis
  proof (cases "length S = 0")
    case False
    show ?thesis
    proof (rule nth_equalityI)
      show "length (unregister_touched pkid ps touched (register_all GY_SLOT_OPK ks S)) = length S"
        using u [OF w, of 0] False by simp
      fix i assume "i < length (unregister_touched pkid ps touched (register_all GY_SLOT_OPK ks S))"
      then have i: "i < length S" using u [OF w, of 0] False by simp
      from register_all_nth [OF assms(1) i, of GY_SLOT_OPK ks]
      show "unregister_touched pkid ps touched (register_all GY_SLOT_OPK ks S) ! i = S ! i"
      proof
        assume e: "register_all GY_SLOT_OPK ks S ! i = S ! i"
        show ?thesis using u [OF w, of i] i assms(4,5) by (simp add: e)
      next
        assume "S ! i = zero_slot \<and> (\<exists>k \<in> set ks. names (register_all GY_SLOT_OPK ks S ! i) GY_SLOT_OPK k)"
        then show ?thesis using u [OF w, of i] i assms(5) by simp
      qed
    qed
  qed (use assms(1) in \<open>simp add: slots_wf_def GY_CUSTODIAN_MAX_SLOTS_def\<close>)
qed

subsection \<open>The pool\<close>

definition pool_inv :: "'k \<Rightarrow> 'k pool_entry list \<Rightarrow> bool" where
  "pool_inv z ps \<longleftrightarrow> length ps \<le> GY_OPK_BATCH_MAX \<and> (\<forall>i < length ps. \<not> pe_used (ps ! i) \<longrightarrow> ps ! i = zero_entry z)"

lemma next_free_spec:
  assumes "slot \<le> length ps" "length ps \<le> GY_OPK_BATCH_MAX"
  shows "slot \<le> next_free slot ps \<and> next_free slot ps \<le> length ps \<and>
    (next_free slot ps < length ps \<longrightarrow> \<not> pe_used (ps ! next_free slot ps)) \<and>
    (\<forall>j. slot \<le> j \<and> j < next_free slot ps \<longrightarrow> pe_used (ps ! j))"
  using assms
proof (induction slot ps rule: next_free.induct)
  case (1 slot ps)
  show ?case
  proof (cases "slot < length ps \<and> pe_used (ps ! slot)")
    case True
    then have c: "slot < GY_OPK_BATCH_MAX \<and> slot < length ps \<and> pe_used (ps ! slot)" using 1(3) by simp
    then have "next_free slot ps = next_free (Suc slot) ps" by (subst next_free.simps) simp
    with 1(1) [OF c] 1(3) True show ?thesis by (metis Suc_leI le_antisym not_less_eq_eq le_SucI order_less_imp_le Suc_leD)
  next
    case False
    then have "next_free slot ps = slot" by (subst next_free.simps) auto
    with False 1(2) show ?thesis by auto
  qed
qed

lemma used_update:
  assumes "i < length ps" "\<not> pe_used (ps ! i)" "pe_used e"
  shows "length (filter pe_used (ps[i := e])) = Suc (length (filter pe_used ps))"
proof -
  have "filter pe_used (ps[i := e]) = filter pe_used (take i ps) @ e # filter pe_used (drop (Suc i) ps)"
    using assms by (simp add: upd_conv_take_nth_drop)
  moreover have "filter pe_used ps = filter pe_used (take i ps) @ filter pe_used (drop (Suc i) ps)"
    using assms by (subst id_take_nth_drop [of i ps]) auto
  ultimately show ?thesis by simp
qed

lemma fresh_used [simp]: "pe_used (fresh_entry k)" "pe_key (fresh_entry k) = k" "\<not> pe_consumed (fresh_entry k)"
    "\<not> pe_used (zero_entry z)" "\<not> pe_consumed (zero_entry z)"
  by (simp_all add: fresh_entry_def zero_entry_def)

text \<open>
  What filling does to a pool: the new keys stand, in order, at the places it reports, which were
  unused or past the end; the other places are as before, and the pool stays within its array.
\<close>

lemma pool_fill_spec:
  assumes "pool_fill slot ks ps = (ps2, t)" "slot \<le> length ps" "length ps \<le> GY_OPK_BATCH_MAX"
    and "\<forall>j < slot. pe_used (ps ! j)" "length ks \<le> GY_OPK_BATCH_MAX - length (filter pe_used ps)"
  shows "length ps \<le> length ps2" "length ps2 \<le> GY_OPK_BATCH_MAX" "map (\<lambda>j. ps2 ! j) t = map fresh_entry ks"
    and "\<forall>j \<in> set t. slot \<le> j \<and> j < length ps2 \<and> (j < length ps \<longrightarrow> \<not> pe_used (ps ! j))"
    and "\<forall>j < length ps2. j \<notin> set t \<longrightarrow> j < length ps \<and> ps2 ! j = ps ! j" "distinct t"
proof -
  have "length ps \<le> length ps2 \<and> length ps2 \<le> GY_OPK_BATCH_MAX \<and> map (\<lambda>j. ps2 ! j) t = map fresh_entry ks \<and>
      (\<forall>j \<in> set t. slot \<le> j \<and> j < length ps2 \<and> (j < length ps \<longrightarrow> \<not> pe_used (ps ! j))) \<and>
      (\<forall>j < length ps2. j \<notin> set t \<longrightarrow> j < length ps \<and> ps2 ! j = ps ! j) \<and> distinct t"
    using assms
  proof (induction ks arbitrary: slot ps ps2 t)
    case (Cons k ks)
    define i where "i = next_free slot ps"
    define ps1 where "ps1 = (if i < length ps then ps[i := fresh_entry k] else ps @ [fresh_entry k])"
    obtain t1 where r: "pool_fill (Suc i) ks ps1 = (ps2, t1)" "t = i # t1"
      using Cons(2) unfolding ps1_def i_def by (auto simp: Let_def split: prod.splits)
    have n: "slot \<le> i" "i \<le> length ps" "i < length ps \<Longrightarrow> \<not> pe_used (ps ! i)" "\<forall>j. slot \<le> j \<and> j < i \<longrightarrow> pe_used (ps ! j)"
      using next_free_spec [OF Cons(3,4)] by (simp_all add: i_def)
    have n4: "\<forall>j < i. pe_used (ps ! j)" using n(4) Cons(5) by (meson linorder_not_le)
    have full: "filter pe_used ps = ps" if "\<not> i < length ps"
      using n(2) n4 that by (intro filter_True) (auto simp: in_set_conv_nth)
    have room: "length ps < GY_OPK_BATCH_MAX" if "\<not> i < length ps" using Cons(6) full [OF that] by auto
    have l1: "Suc i \<le> length ps1" "length ps \<le> length ps1" "length ps1 \<le> GY_OPK_BATCH_MAX"
      using n(2) Cons(4) room by (auto simp: ps1_def)
    have u1: "\<forall>j < Suc i. pe_used (ps1 ! j)"
      using n(2) n4 by (auto simp: ps1_def nth_list_update nth_append less_Suc_eq)
    have at: "ps1 ! i = fresh_entry k" using n(2) by (cases "i < length ps") (simp_all add: ps1_def nth_append)
    have other: "ps1 ! j = ps ! j" if "j \<noteq> i" "j < length ps" for j using that by (simp add: ps1_def nth_append)
    have c1: "length ks \<le> GY_OPK_BATCH_MAX - length (filter pe_used ps1)"
      using Cons(6) used_update [of i ps "fresh_entry k"] n(3) by (auto simp: ps1_def)
    note IH = Cons(1) [OF r(1) l1(1,3) u1 c1]
    have it: "i \<notin> set t1" using IH by auto
    have in2: "i < length ps2" using IH l1(1) by linarith
    have "ps2 ! i = fresh_entry k" using IH it in2 at by auto
    moreover have "\<forall>j \<in> set t1. slot \<le> j \<and> j < length ps2 \<and> (j < length ps \<longrightarrow> \<not> pe_used (ps ! j))"
    proof
      fix j assume j: "j \<in> set t1"
      then have "Suc i \<le> j" "j < length ps2" "j < length ps1 \<longrightarrow> \<not> pe_used (ps1 ! j)" using IH by auto
      then show "slot \<le> j \<and> j < length ps2 \<and> (j < length ps \<longrightarrow> \<not> pe_used (ps ! j))"
        using n(1) other [of j] l1(2) by auto
    qed
    moreover have "j < length ps \<and> ps2 ! j = ps ! j" if "j < length ps2" "j \<notin> set (i # t1)" for j
    proof -
      have "j < length ps1" "ps2 ! j = ps1 ! j" using IH that by auto
      moreover have "j < length ps" using \<open>j < length ps1\<close> that n(2) by (auto simp: ps1_def split: if_splits)
      ultimately show ?thesis using other that by simp
    qed
    ultimately show ?case using IH r(2) l1(2) n(1,3) it in2 by auto
  qed auto
  then show "length ps \<le> length ps2" "length ps2 \<le> GY_OPK_BATCH_MAX" "map (\<lambda>j. ps2 ! j) t = map fresh_entry ks"
    "\<forall>j \<in> set t. slot \<le> j \<and> j < length ps2 \<and> (j < length ps \<longrightarrow> \<not> pe_used (ps ! j))"
    "\<forall>j < length ps2. j \<notin> set t \<longrightarrow> j < length ps \<and> ps2 ! j = ps ! j" "distinct t" by simp_all
qed

lemma wipe_nth:
  "length (wipe_touched z t ps) = length ps \<and>
   (j < length ps \<longrightarrow> wipe_touched z t ps ! j = (if j \<in> set t then zero_entry z else ps ! j))"
  by (induction t arbitrary: ps) (auto simp: nth_list_update)

lemma pool_fill_undone:
  assumes "pool_fill 0 ks ps = (ps2, t)" "pool_inv z ps" "length ks \<le> GY_OPK_BATCH_MAX - length (filter pe_used ps)"
  shows "take (length ps) (wipe_touched z t ps2) = ps"
proof (rule nth_equalityI)
  note s = pool_fill_spec [OF assms(1) _ _ _ assms(3)]
  show "length (take (length ps) (wipe_touched z t ps2)) = length ps"
    using s(1) assms(2) by (simp add: wipe_nth pool_inv_def)
  fix j assume "j < length (take (length ps) (wipe_touched z t ps2))"
  then have "j < length ps" "j < length ps2" by (simp_all add: wipe_nth)
  then show "take (length ps) (wipe_touched z t ps2) ! j = ps ! j"
    using s(4,5) assms(2) by (auto simp: wipe_nth pool_inv_def)
qed

lemma pool_fill_inv:
  assumes "pool_fill 0 ks ps = (ps2, t)" "pool_inv z ps" "length ks \<le> GY_OPK_BATCH_MAX - length (filter pe_used ps)"
  shows "pool_inv z ps2"
proof -
  note s = pool_fill_spec [OF assms(1) _ _ _ assms(3)]
  have "pe_used (ps2 ! j)" if "j \<in> set t" for j
    using s(3) assms(2) that by (metis (no_types, lifting) fresh_used(1) image_iff list.set_map pool_inv_def zero_le not_less_zero)
  then show ?thesis using s(2,5) assms(2) by (auto simp: pool_inv_def)
qed

end
