(* ===== verification/GY_CustodyDurable.thy ===== *)
theory GY_CustodyDurable
  imports GY_CustodyInv
begin

text \<open>
  The custodian and its blob in the application's store: after every operation, failed ones included,
  the blob holds the header and the sealed image of the material in memory, so that reopening it
  with the credential gives the same keys. The contract of the two persisting functions is a locale,
  interpreted for the classical and the hybrid one.
\<close>

subsection \<open>Postconditions\<close>

definition post :: "('s, 'e, 'a) sm \<Rightarrow> 's \<Rightarrow> ('e + 'a \<Rightarrow> 's \<Rightarrow> bool) \<Rightarrow> bool" where
  "post m s Q \<longleftrightarrow> (\<forall>x s1. m s = Some (x, s1) \<longrightarrow> Q x s1)"

lemma post_res [simp]: "post (s_res x) s Q \<longleftrightarrow> Q x s"
  by (simp add: post_def s_res_def)

lemma post_with [simp]: "post (cu_with f) s Q \<longleftrightarrow> post (f (fst s)) s Q"
  by (simp add: post_def cu_with_def)

lemma post_upd [simp]: "post (cu_upd g) s Q \<longleftrightarrow> Q (Inr ()) (g (fst s), snd s)"
  by (cases s) (auto simp: post_def cu_upd_def)

lemma post_tot [simp]: "post (cu_tot f) s Q \<longleftrightarrow> (case f s of (x, s1) \<Rightarrow> Q x s1)"
  by (auto simp: post_def cu_tot_def split: prod.splits)

lemma post_gen [simp]:
  "post (cu_gen m) s Q \<longleftrightarrow> (\<forall>x r1. m (snd (snd s)) = Some (x, r1) \<longrightarrow> Q x (fst s, (fst (snd s), r1)))"
  by (auto simp: post_def cu_gen_def)

lemma post_bind [simp]:
  "post (sbind m k) s Q \<longleftrightarrow> post m s (\<lambda>x s1. case x of Inl e \<Rightarrow> Q (Inl e) s1 | Inr a \<Rightarrow> post (k a) s1 Q)"
  by (auto simp: post_def sbind_def split: option.splits sum.splits prod.splits)

lemma post_undo [simp]:
  "post (cu_undo g m) s Q \<longleftrightarrow>
     post m s (\<lambda>x s1. case x of Inl e \<Rightarrow> Q (Inl e) (g (fst s1), snd s1) | Inr a \<Rightarrow> Q (Inr a) s1)"
  by (auto simp: post_def cu_undo_def split: option.splits sum.splits prod.splits)

lemma post_if [simp]: "post (if b then m else m') s Q \<longleftrightarrow> (if b then post m s Q else post m' s Q)"
  by simp

lemma postI: "(\<And>x s1. m s = Some (x, s1) \<Longrightarrow> Q x s1) \<Longrightarrow> post m s Q"
  by (simp add: post_def)

lemma postD: "post m s Q \<Longrightarrow> m s = Some (x, s1) \<Longrightarrow> Q x s1"
  by (simp add: post_def)

lemma post_mono: "post m s Q \<Longrightarrow> (\<And>x s1. Q x s1 \<Longrightarrow> R x s1) \<Longrightarrow> post m s R"
  by (simp add: post_def)

subsection \<open>The blob\<close>

text \<open>
  What the custodian relies on from the application: the identity slot of its store reads back what
  was stored last, a refused store leaves it, and consuming a prekey record does not touch it.
\<close>

definition identity_slot :: "'w gy_store \<Rightarrow> ('w \<Rightarrow> bytes) \<Rightarrow> bool" where
  "identity_slot st view \<longleftrightarrow>
     (\<forall>cap w r. length (view w) \<le> cap \<longrightarrow>
        (\<exists>w1 r1. load_identity st cap (w, r) = (Inr (view w), (w1, r1)) \<and> view w1 = view w)) \<and>
     (\<forall>b w r x w1 r1. store_identity st b (w, r) = (x, (w1, r1)) \<longrightarrow>
        view w1 = (case x of Inl _ \<Rightarrow> view w | Inr _ \<Rightarrow> b)) \<and>
     (\<forall>i w r x w1 r1. consume_opk st i (w, r) = (x, (w1, r1)) \<longrightarrow> view w1 = view w)"

lemma slot_store:
  assumes "identity_slot st view"
  shows "store_identity st b (w, r) = (Inl e, (w1, r1)) \<Longrightarrow> view w1 = view w"
    and "store_identity st b (w, r) = (Inr u, (w1, r1)) \<Longrightarrow> view w1 = b"
  using assms by (simp_all add: identity_slot_def split: sum.splits) blast+

lemma slot_consume: "identity_slot st view \<Longrightarrow> consume_opk st i (w, r) = (x, (w1, r1)) \<Longrightarrow> view w1 = view w"
  unfolding identity_slot_def by blast

lemma slot_load:
  assumes "identity_slot st view" "length (view w) \<le> cap"
  obtains w1 r1 where "load_identity st cap (w, r) = (Inr (view w), (w1, r1))" "view w1 = view w"
  using assms unfolding identity_slot_def by blast

definition seal_provider :: "provider \<Rightarrow> bool" where
  "seal_provider L \<longleftrightarrow> hash_lengths L \<and> aead_lengths L \<and> aead_correct L"

definition blob_holds :: "platform \<Rightarrow> ('w \<Rightarrow> bytes) \<Rightarrow> 'w gy_custodian \<Rightarrow> 'w \<Rightarrow> bytes \<Rightarrow> bool" where
  "blob_holds P view c w tail \<longleftrightarrow>
     (\<exists>hdr. gy_cust_header_encode (GY_CUST_BLOB_MAX P) (cust_header c) = Inr hdr \<and> view w = hdr @ tail) \<and>
     length tail \<le> GY_CUST_HYBRID_IDMAT_SEALED_MAX P"

definition tail_opens :: "provider \<Rightarrow> platform \<Rightarrow> 'w gy_custodian \<Rightarrow> bytes \<Rightarrow> bool" where
  "tail_opens L P c tail \<longleftrightarrow>
     (if is_hybrid (cu_desc c)
      then gy_keystore_unseal L (cu_ks c) IDMAT_HYBRID_AD tail (sizeof_hybrid_idmat P) = Inr (hybrid_image P (cu_hmat c))
      else gy_keystore_unseal L (cu_ks c) IDMAT_AD tail (sizeof_idmat P) = Inr (classical_image P (cu_mat c)))"

definition sealed_disk :: "provider \<Rightarrow> platform \<Rightarrow> ('w \<Rightarrow> bytes) \<Rightarrow> 'w gy_custodian \<Rightarrow> 'w \<Rightarrow> bool" where
  "sealed_disk L P view c w \<longleftrightarrow>
     (\<exists>tail. blob_holds P view c w tail \<and> tail \<noteq> [] \<and>
        tail_opens L P c tail)"

lemma persist_header_spec:
  assumes "cust_persist_header P tail (c, (w, r)) = (x, s1)" "identity_slot (cu_app_store c) view"
  shows "fst s1 = c \<and>
    (case x of Inl _ \<Rightarrow> view (fst (snd s1)) = view w | Inr _ \<Rightarrow> blob_holds P view c (fst (snd s1)) tail)"
  using assms(1) slot_store [OF assms(2)]
  by (auto simp: cust_persist_header_def blob_holds_def split: if_splits sum.splits prod.splits)

lemma sealed_image:
  assumes "gy_seal L (sz + GY_SEAL_MAX_OVERHEAD) key GY_CUSTODIAN_WRAP_ALG ad img r = (Inr blob, r1)" "seal_provider L"
  shows "gy_unseal L sz key ad blob = Inr img" "blob \<noteq> []"
proof -
  note p = assms(2) [unfolded seal_provider_def]
  have a: "seal_alg_lengths GY_CUSTODIAN_WRAP_ALG = Inr (32, 32)"
    by (simp add: seal_alg_cases GY_CUSTODIAN_WRAP_ALG_def GY_SEAL_ALG_AEGIS256_def)
  have len: "length img \<le> sz"
    using assms(1) a by (auto simp: gy_seal_def GY_SEAL_MAX_OVERHEAD_def SEAL_HDR_LEN_def split: if_splits)
  show "gy_unseal L sz key ad blob = Inr img" using seal_roundtrip(1) [OF _ _ _ assms(1) len] p by blast
  show "blob \<noteq> []" using seal_roundtrip(2) [OF _ _ _ assms(1) len] p by auto
qed

lemma seal_and_persist_spec:
  assumes "seal_and_persist L P sz ad img (c, (w, r)) = (x, s1)" "identity_slot (cu_app_store c) view" "seal_provider L"
  shows "fst s1 = c \<and>
    (case x of Inl _ \<Rightarrow> view (fst (snd s1)) = view w
     | Inr _ \<Rightarrow> \<exists>tail. blob_holds P view c (fst (snd s1)) tail \<and> tail \<noteq> [] \<and> gy_keystore_unseal L (cu_ks c) ad tail sz = Inr img)"
proof (cases "\<exists>sealed r1. sodium_malloc L sz \<and> calloc_ok P (sz + GY_SEAL_MAX_OVERHEAD) \<and>
    gy_keystore_seal L (cu_ks c) GY_CUSTODIAN_WRAP_ALG ad img (sz + GY_SEAL_MAX_OVERHEAD) r = (Inr sealed, r1)")
  case True
  then obtain sealed r1 where s: "sodium_malloc L sz" "calloc_ok P (sz + GY_SEAL_MAX_OVERHEAD)"
      "gy_keystore_seal L (cu_ks c) GY_CUSTODIAN_WRAP_ALG ad img (sz + GY_SEAL_MAX_OVERHEAD) r = (Inr sealed, r1)" by blast
  have "ks_unlocked (cu_ks c)" "gy_seal L (sz + GY_SEAL_MAX_OVERHEAD) (the (ks_kek (cu_ks c))) GY_CUSTODIAN_WRAP_ALG ad img r = (Inr sealed, r1)"
    using s(3) by (auto simp: gy_keystore_seal_def split: if_splits)
  then have u: "gy_keystore_unseal L (cu_ks c) ad sealed sz = Inr img" "sealed \<noteq> []"
    using sealed_image [OF _ assms(3)] by (auto simp: gy_keystore_unseal_def)
  have "cust_persist_header P sealed (c, (w, r1)) = (x, s1)" using assms(1) s by (simp add: seal_and_persist_def)
  from persist_header_spec [OF this assms(2)] u show ?thesis by (auto split: sum.splits)
next
  case False
  then show ?thesis using assms(1) by (auto simp: seal_and_persist_def split: if_splits sum.splits prod.splits)
qed

subsection \<open>The contract of the persisting functions\<close>

definition storable :: "provider \<Rightarrow> ('w \<Rightarrow> bytes) \<Rightarrow> 'w gy_custodian \<Rightarrow> bool" where
  "storable L view c \<longleftrightarrow> seal_provider L \<and> identity_slot (cu_app_store c) view"

locale persisting =
  fixes persist :: "'w custst \<Rightarrow> unit res \<times> 'w custst"
    and disk :: "'w gy_custodian \<Rightarrow> 'w \<Rightarrow> bool"
    and view :: "'w \<Rightarrow> bytes"
    and serves :: "'w gy_custodian \<Rightarrow> bool"
  assumes object: "serves c \<Longrightarrow> persist (c, v) = (x, s1) \<Longrightarrow> fst s1 = c"
    and refused: "serves c \<Longrightarrow> persist (c, v) = (Inl e, s1) \<Longrightarrow> view (fst (snd s1)) = view (fst v)"
    and stored: "serves c \<Longrightarrow> persist (c, v) = (Inr u, s1) \<Longrightarrow> disk c (fst (snd s1))"
begin

text \<open>Store the object, or restore it by \<open>g\<close> when the store is refused.\<close>

lemma persist_or_restore:
  assumes "serves c" "\<And>e v1. view (fst v1) = view (fst v) \<Longrightarrow> Q (Inl e) (g c, v1)"
    and "\<And>v1. disk c (fst v1) \<Longrightarrow> Q (Inr ()) (c, v1)"
  shows "post (cu_undo g (cu_tot persist)) (c, v) Q"
proof -
  obtain x c1 v1 where p: "persist (c, v) = (x, (c1, v1))" by (cases "persist (c, v)") auto
  have "c1 = c" using object [OF assms(1) p] by simp
  then show ?thesis
    using refused [OF assms(1), of v _ "(c, v1)"] stored [OF assms(1), of v _ "(c, v1)"] assms(2,3) p
    by (cases x) auto
qed

text \<open>The idiom of the operations: change the object, persist it or restore it, go on.\<close>

lemma change_persist_or_restore:
  assumes "serves (f c)" "\<And>e v1. view (fst v1) = view (fst v) \<Longrightarrow> Q (Inl e) (g (f c), v1)"
    and "\<And>v1. disk (f c) (fst v1) \<Longrightarrow> post (k ()) (f c, v1) Q"
  shows "post (sbind (cu_upd f) (\<lambda>_. sbind (cu_undo g (cu_tot persist)) k)) (c, v) Q"
  unfolding post_bind post_upd fst_conv snd_conv sum.case
  by (rule persist_or_restore) (use assms in simp_all)

end

interpretation classical: persisting "cust_seal_and_persist_idmat L P" "sealed_disk L P view" view
    "\<lambda>c. storable L view c \<and> \<not> is_hybrid (cu_desc c)" for L P view
proof (unfold_locales, goal_cases)
  case (1 c v x s1)
  then show ?case using seal_and_persist_spec [of L P _ _ _ c "fst v" "snd v" x s1 view] by (simp add: cust_seal_and_persist_idmat_def storable_def)
next
  case (2 c v e s1)
  then show ?case using seal_and_persist_spec [of L P _ _ _ c "fst v" "snd v" "Inl e" s1 view] by (simp add: cust_seal_and_persist_idmat_def storable_def)
next
  case (3 c v u s1)
  then show ?case using seal_and_persist_spec [of L P _ _ _ c "fst v" "snd v" "Inr u" s1 view]
    by (auto simp: cust_seal_and_persist_idmat_def sealed_disk_def tail_opens_def storable_def)
qed

interpretation hybrid: persisting "cust_seal_and_persist_hybrid_idmat L P" "sealed_disk L P view" view
    "\<lambda>c. storable L view c \<and> is_hybrid (cu_desc c)" for L P view
proof (unfold_locales, goal_cases)
  case (1 c v x s1)
  then show ?case using seal_and_persist_spec [of L P _ _ _ c "fst v" "snd v" x s1 view] by (simp add: cust_seal_and_persist_hybrid_idmat_def storable_def)
next
  case (2 c v e s1)
  then show ?case using seal_and_persist_spec [of L P _ _ _ c "fst v" "snd v" "Inl e" s1 view] by (simp add: cust_seal_and_persist_hybrid_idmat_def storable_def)
next
  case (3 c v u s1)
  then show ?case using seal_and_persist_spec [of L P _ _ _ c "fst v" "snd v" "Inr u" s1 view]
    by (auto simp: cust_seal_and_persist_hybrid_idmat_def sealed_disk_def tail_opens_def storable_def)
qed

subsection \<open>Memory and store agree\<close>

definition material_inv :: "'k \<Rightarrow> ('i, 's, 'k, 'a) material \<Rightarrow> bool" where
  "material_inv z m \<longleftrightarrow> length (mt_spks m) \<le> GY_CUSTODIAN_SPK_HISTORY_MAX \<and>
     length (mt_saks m) \<le> GY_CUSTODIAN_SAK_HISTORY_MAX \<and> pool_inv z (mt_opks m)"

lemma zero_material_simps: "mt_saks (zero_material i) = []" "mt_spks (zero_material i) = []" "mt_opks (zero_material i) = []"
    "mt_ik (zero_material i) = i"
  by (simp_all add: zero_material_def)

lemma zero_material_inv [simp]: "material_inv z (zero_material i)"
  by (simp add: material_inv_def zero_material_def pool_inv_def)

abbreviation locked_keystore :: gy_keystore where "locked_keystore \<equiv> \<lparr>ks_kek = None, ks_unlocked = False\<rparr>"

text \<open>An open object of a suite, whose wrap blob opens with the credential to the key it works with.\<close>

definition cust_inv :: "provider \<Rightarrow> 'w gy_store \<Rightarrow> bytes \<Rightarrow> 'w gy_custodian \<Rightarrow> bool" where
  "cust_inv L st cred c \<longleftrightarrow>
     cu_app_store c = st \<and> cu_unlocked c \<and> gy_suite_desc L (cu_suite_id c) = Some (cu_desc c) \<and>
     length (cu_self_uid c) \<le> GY_USER_ID_MAX \<and> length (cu_self_did c) \<le> GY_DEVICE_ID_MAX \<and>
     length (cu_slots c) = GY_CUSTODIAN_MAX_SLOTS \<and>
     gy_keystore_open L locked_keystore cred (cu_wrap c) = (Inr (), cu_ks c) \<and>
     material_inv zero_keypair (cu_mat c) \<and> material_inv zero_hybrid_keypair (cu_hmat c) \<and>
     (is_hybrid (cu_desc c) \<or> \<not> cu_have_identity c \<longrightarrow> cu_mat c = zero_material zero_keypair) \<and>
     (\<not> is_hybrid (cu_desc c) \<or> \<not> cu_have_identity c \<longrightarrow> cu_hmat c = zero_material zero_hybrid_identity)"

definition mirrored :: "provider \<Rightarrow> platform \<Rightarrow> ('w \<Rightarrow> bytes) \<Rightarrow> 'w gy_custodian \<Rightarrow> 'w \<Rightarrow> bool" where
  "mirrored L P view c w \<longleftrightarrow> (if cu_have_identity c then sealed_disk L P view c w else blob_holds P view c w [])"

definition kept :: "provider \<Rightarrow> platform \<Rightarrow> 'w gy_store \<Rightarrow> ('w \<Rightarrow> bytes) \<Rightarrow> bytes \<Rightarrow> 'w custst \<Rightarrow> bool" where
  "kept L P st view cred s \<longleftrightarrow> cust_inv L st cred (fst s) \<and> mirrored L P view (fst s) (fst (snd s))"

lemma disk_view: "view w1 = view w \<Longrightarrow> mirrored L P view c w1 = mirrored L P view c w"
  by (simp add: mirrored_def sealed_disk_def tail_opens_def blob_holds_def)

lemma kept_view: "kept L P st view cred (c, v) \<Longrightarrow> view (fst v1) = view (fst v) \<Longrightarrow> kept L P st view cred (c, v1)"
  using disk_view [of view "fst v1" "fst v"] by (simp add: kept_def)

lemma header_slots [simp]: "cust_header (c\<lparr>cu_slots := S\<rparr>) = cust_header c" "cust_header (c\<lparr>cu_mat := m\<rparr>) = cust_header c"
    "cust_header (c\<lparr>cu_hmat := h\<rparr>) = cust_header c" "cust_header (c\<lparr>cu_have_identity := b\<rparr>) = cust_header c"
  by (simp_all add: cust_header_def)

lemma kept_slots: "length S = length (cu_slots c) \<Longrightarrow> kept L P st view cred (c\<lparr>cu_slots := S\<rparr>, v) = kept L P st view cred (c, v)"
  by (simp add: kept_def cust_inv_def mirrored_def sealed_disk_def tail_opens_def blob_holds_def)

lemma kept_slots_mat:
  "length S = length (cu_slots c) \<Longrightarrow> kept L P st view cred (c\<lparr>cu_slots := S, cu_mat := m\<rparr>, v) = kept L P st view cred (c\<lparr>cu_mat := m\<rparr>, v)"
  "length S = length (cu_slots c) \<Longrightarrow> kept L P st view cred (c\<lparr>cu_slots := S, cu_hmat := h\<rparr>, v) = kept L P st view cred (c\<lparr>cu_hmat := h\<rparr>, v)"
  by (simp_all add: kept_def cust_inv_def mirrored_def sealed_disk_def tail_opens_def blob_holds_def)

lemma register_length [simp]: "length (snd (cust_slot_register ty k S)) = length S"
  by (simp add: cust_slot_register_def split: option.splits)

lemma register_all_length [simp]: "length (register_all ty ks S) = length S"
  by (induction ks arbitrary: S) simp_all

lemma free_length [simp]: "length (slot_free h S) = length S"
  by (simp add: slot_free_def)

lemma unregister_length [simp]: "length (unregister_touched pkid ps t S) = length S"
  by (induction t arbitrary: S) simp_all

lemma kept_free [simp]: "kept L P st view cred (gy_custodian_slot_free h c, v) = kept L P st view cred (c, v)"
  by (simp add: gy_custodian_slot_free_def kept_slots)

text \<open>The new material of an operation, once it is on the disk.\<close>

lemma kept_mat:
  assumes "kept L P st view cred (c, v)" "material_inv zero_keypair m" "\<not> is_hybrid (cu_desc c)" "cu_have_identity c"
    and "sealed_disk L P view (c\<lparr>cu_mat := m\<rparr>) (fst v1)"
  shows "kept L P st view cred (c\<lparr>cu_mat := m\<rparr>, v1)"
  using assms by (simp add: kept_def cust_inv_def mirrored_def)

lemma kept_hmat:
  assumes "kept L P st view cred (c, v)" "material_inv zero_hybrid_keypair m" "is_hybrid (cu_desc c)" "cu_have_identity c"
    and "sealed_disk L P view (c\<lparr>cu_hmat := m\<rparr>) (fst v1)"
  shows "kept L P st view cred (c\<lparr>cu_hmat := m\<rparr>, v1)"
  using assms by (simp add: kept_def cust_inv_def mirrored_def)

lemma disk_slots [simp]: "sealed_disk L P view (c\<lparr>cu_slots := S\<rparr>) w = sealed_disk L P view c w"
    "sealed_disk L P view (c\<lparr>cu_slots := S, cu_mat := m\<rparr>) w = sealed_disk L P view (c\<lparr>cu_mat := m\<rparr>) w"
    "sealed_disk L P view (c\<lparr>cu_slots := S, cu_hmat := h\<rparr>) w = sealed_disk L P view (c\<lparr>cu_hmat := h\<rparr>) w"
  by (simp_all add: sealed_disk_def tail_opens_def blob_holds_def)

lemma storable_upd [simp]: "storable L view (c\<lparr>cu_mat := m\<rparr>) = storable L view c" "storable L view (c\<lparr>cu_hmat := h\<rparr>) = storable L view c"
    "storable L view (c\<lparr>cu_slots := S\<rparr>) = storable L view c"
  by (simp_all add: storable_def)

subsection \<open>The operations keep the agreement\<close>

lemma push_inv:
  assumes "material_inv z m"
  shows "material_inv z (m\<lparr>mt_spks := history_push GY_CUSTODIAN_SPK_HISTORY_MAX x (mt_spks m)\<rparr>)"
    and "material_inv z (m\<lparr>mt_saks := history_push GY_CUSTODIAN_SAK_HISTORY_MAX y (mt_saks m)\<rparr>)"
  using assms by (auto simp: material_inv_def history_push_def history_defs)

lemma one_sak_inv: "material_inv z m \<Longrightarrow> material_inv z (m\<lparr>mt_saks := [x]\<rparr>)"
  by (simp add: material_inv_def history_defs)

lemma fill_inv:
  assumes "material_inv z m" "pool_fill 0 ks (mt_opks m) = (ps2, t)" "length ks \<le> GY_OPK_BATCH_MAX - length (pool_ids pkid (mt_opks m))"
  shows "material_inv z (m\<lparr>mt_opks := ps2\<rparr>)" "take (length (mt_opks m)) (wipe_touched z t ps2) = mt_opks m"
proof -
  have i: "pool_inv z (mt_opks m)" using assms(1) by (simp add: material_inv_def)
  have l: "length ks \<le> GY_OPK_BATCH_MAX - length (filter pe_used (mt_opks m))" using assms(3) by (simp add: pool_ids_def)
  show "material_inv z (m\<lparr>mt_opks := ps2\<rparr>)" using pool_fill_inv [OF assms(2) i l] assms(1) by (simp add: material_inv_def)
  show "take (length (mt_opks m)) (wipe_touched z t ps2) = mt_opks m" by (rule pool_fill_undone [OF assms(2) i l])
qed

lemma delete_inv:
  assumes "delete_material sid kid z ty k m = Inr m1" "material_inv z m"
  shows "material_inv z m1"
proof -
  have "length spks \<le> length (mt_spks m)" if "history_delete sid k (mt_spks m) = Some spks" for spks
    using that by (auto simp: history_delete_def split: list.splits dest!: first_index_SomeD)
  moreover have "pool_inv z ((mt_opks m)[i := zero_entry z])" for i
    using assms(2) unfolding material_inv_def pool_inv_def by (metis length_list_update nth_list_update_eq nth_list_update_neq)
  ultimately show ?thesis
    using assms by (fastforce simp: delete_material_def material_inv_def split: if_splits option.splits)
qed

lemma delete_zero: "delete_material sid kid z ty k (zero_material i) = Inr m1 \<Longrightarrow> False"
  by (auto simp: delete_material_def zero_material_def history_delete_def pool_find_def split: if_splits)

lemma reserve_inv: "material_inv z m \<Longrightarrow> i < length (mt_opks m) \<Longrightarrow> pe_used (mt_opks m ! i) \<Longrightarrow> material_inv z (reserve i m)"
  by (auto simp: material_inv_def reserve_def pool_inv_def nth_list_update)

lemma unreserve_reserve:
  "i < length (mt_opks m) \<Longrightarrow> \<not> pe_consumed (mt_opks m ! i) \<Longrightarrow> unreserve i (reserve i m) = m"
  by (cases "mt_opks m ! i") (simp add: unreserve_def reserve_def list_update_same_conv)

lemma batch_length: "gy_opk_batch L d n ex r = Some (Inr out, r1) \<Longrightarrow> length out = n"
  by (auto simp: gy_opk_batch_def split: if_splits dest!: opk_batch_loop_ok)

lemma hybrid_loop_length: "hybrid_opk_batch_loop L d n ex out r = Some (Inr res, r1) \<Longrightarrow> length res = length out + n"
  by (induction n arbitrary: out r) (auto simp: cbind_eq_Some_Inr_iff)

lemma hybrid_batch_length: "gy_hybrid_opk_batch L d n ex r = Some (Inr out, r1) \<Longrightarrow> length out = n"
  by (auto simp: gy_hybrid_opk_batch_def split: if_splits dest: hybrid_loop_length)

lemma keptD:
  assumes "kept L P st view cred (c, v)"
  shows "material_inv zero_keypair (cu_mat c)" "material_inv zero_hybrid_keypair (cu_hmat c)" "cu_unlocked c" "cu_app_store c = st"
    and "\<not> cu_have_identity c \<Longrightarrow> cu_mat c = zero_material zero_keypair"
    and "\<not> cu_have_identity c \<Longrightarrow> cu_hmat c = zero_material zero_hybrid_identity"
  using assms by (simp_all add: kept_def cust_inv_def)

text \<open>What follows a successful store only moves handles.\<close>

lemma register_sak_post [simp]:
  "post (register_sak k) (c, v) (\<lambda>x. kept L P st view cred) \<longleftrightarrow> kept L P st view cred (c, v)"
  using kept_slots [of "snd (cust_slot_register GY_SLOT_SAK k (cu_slots c))" c L P st view cred v]
  by (cases v) (auto simp: post_def register_sak_def split: prod.splits)

lemma mat_swap:
  assumes "kept L P st view cred (c, v)" "storable L view c" "\<not> is_hybrid (cu_desc c)" "cu_have_identity c"
    and "material_inv zero_keypair (F (cu_mat c))" "G (F (cu_mat c)) = cu_mat c" "fst v' = fst v"
    and "\<And>v1. kept L P st view cred (on_mat F c, v1) \<Longrightarrow> post (k ()) (on_mat F c, v1) (\<lambda>x. kept L P st view cred)"
  shows "post (sbind (cu_upd (on_mat F)) (\<lambda>_. sbind (cu_undo (on_mat G) (cu_tot (cust_seal_and_persist_idmat L P))) k)) (c, v') (\<lambda>x. kept L P st view cred)"
proof (rule classical.change_persist_or_restore)
  show "storable L view (on_mat F c) \<and> \<not> is_hybrid (cu_desc (on_mat F c))" using assms(2,3) by simp
  show "kept L P st view cred (on_mat G (on_mat F c), v1)" if "view (fst v1) = view (fst v')" for v1
    using kept_view [OF assms(1)] that assms(6,7) by simp
  show "post (k ()) (on_mat F c, v1) (\<lambda>x. kept L P st view cred)" if "sealed_disk L P view (on_mat F c) (fst v1)" for v1
    by (rule assms(8), rule kept_mat [OF assms(1,5,3,4)]) (use that in simp)
qed

lemma hmat_swap:
  assumes "kept L P st view cred (c, v)" "storable L view c" "is_hybrid (cu_desc c)" "cu_have_identity c"
    and "material_inv zero_hybrid_keypair (F (cu_hmat c))" "G (F (cu_hmat c)) = cu_hmat c" "fst v' = fst v"
    and "\<And>v1. kept L P st view cred (on_hmat F c, v1) \<Longrightarrow> post (k ()) (on_hmat F c, v1) (\<lambda>x. kept L P st view cred)"
  shows "post (sbind (cu_upd (on_hmat F)) (\<lambda>_. sbind (cu_undo (on_hmat G) (cu_tot (cust_seal_and_persist_hybrid_idmat L P))) k)) (c, v') (\<lambda>x. kept L P st view cred)"
proof (rule hybrid.change_persist_or_restore)
  show "storable L view (on_hmat F c) \<and> is_hybrid (cu_desc (on_hmat F c))" using assms(2,3) by simp
  show "kept L P st view cred (on_hmat G (on_hmat F c), v1)" if "view (fst v1) = view (fst v')" for v1
    using kept_view [OF assms(1)] that assms(6,7) by simp
  show "post (k ()) (on_hmat F c, v1) (\<lambda>x. kept L P st view cred)" if "sealed_disk L P view (on_hmat F c) (fst v1)" for v1
    by (rule assms(8), rule kept_hmat [OF assms(1,5,3,4)]) (use that in simp)
qed

lemma kept_gen:
  assumes "kept L P st view cred (c, v)"
    and "\<And>a r1. m (snd v) = Some (Inr a, r1) \<Longrightarrow> post (k a) (c, (fst v, r1)) (\<lambda>x. kept L P st view cred)"
  shows "post (sbind (cu_gen m) k) (c, v) (\<lambda>x. kept L P st view cred)"
  using assms kept_view [OF assms(1)] by (auto split: sum.splits)

lemma rotate_tail:
  "kept L P st view cred (c, v) \<Longrightarrow> post (sbind (cu_upd (gy_custodian_slot_free h)) (\<lambda>_. register_sak k)) (c, v) (\<lambda>x. kept L P st view cred)"
  "kept L P st view cred (c, v) \<Longrightarrow> post (sbind (cu_upd (gy_custodian_slot_free h))
     (\<lambda>_. cu_upd (\<lambda>c. c\<lparr>cu_slots := snd (cust_slot_register ty k (cu_slots c))\<rparr>))) (c, v) (\<lambda>x. kept L P st view cred)"
  by (simp_all add: kept_slots)

lemma kept_rotate_spk:
  assumes "kept L P st view cred (c, v)" "storable L view c"
  shows "post (gy_custodian_rotate_signed_prekey L P ts) (c, v) (\<lambda>x. kept L P st view cred)"
proof -
  note k = keptD [OF assms(1)]
  have h: "post (cust_rotate_hybrid_spk L P ts) (c, v) (\<lambda>x. kept L P st view cred)"
    if "is_hybrid (cu_desc c)" "cu_have_identity c"
    unfolding cust_rotate_hybrid_spk_def post_with Let_def fst_conv
    by (rule kept_gen [OF assms(1)], rule hmat_swap [OF assms that]) (simp_all add: kept_slots push_inv k)
  show ?thesis
    unfolding gy_custodian_rotate_signed_prekey_def post_with Let_def fst_conv post_if post_res
    by (auto simp: push_inv k simp del: post_bind intro!: assms(1) h kept_gen [OF assms(1)] mat_swap [OF assms] rotate_tail)
qed

lemma kept_delete:
  assumes "kept L P st view cred (c, v)" "storable L view c"
  shows "post (gy_custodian_delete_prekey L P h) (c, v) (\<lambda>x. kept L P st view cred)"
proof -
  note k = keptD [OF assms(1)]
  have hy: "post (cust_delete_hybrid_prekey L P h ty key) (c, v) (\<lambda>x. kept L P st view cred)" if "is_hybrid (cu_desc c)" for ty key
  proof (cases "delete_material hspk_id hk_id zero_hybrid_keypair ty key (cu_hmat c)")
    case (Inr m1)
    have "cu_have_identity c" using Inr k(6) delete_zero by metis
    then show ?thesis
      unfolding cust_delete_hybrid_prekey_def post_with fst_conv Inr post_bind [where m = "s_res _"] post_res sum.case
      by (rule hmat_swap [OF assms that]) (simp_all add: delete_inv [OF Inr k(2)])
  qed (simp add: cust_delete_hybrid_prekey_def assms(1))
  have cl: "post (sbind (s_res (delete_material spk_id kp_id zero_keypair ty key (cu_mat c))) (\<lambda>m1.
         sbind (cu_upd (on_mat (\<lambda>_. m1))) (\<lambda>_.
         sbind (cu_undo (on_mat (\<lambda>_. cu_mat c)) (cu_tot (cust_seal_and_persist_idmat L P))) (\<lambda>_.
           cu_upd (gy_custodian_slot_free h))))) (c, v) (\<lambda>x. kept L P st view cred)" if "\<not> is_hybrid (cu_desc c)" for ty key
  proof (cases "delete_material spk_id kp_id zero_keypair ty key (cu_mat c)")
    case (Inr m1)
    have "cu_have_identity c" using Inr k(5) delete_zero by metis
    then show ?thesis
      unfolding Inr post_bind [where m = "s_res _"] post_res sum.case
      by (rule mat_swap [OF assms that]) (simp_all add: delete_inv [OF Inr k(1)])
  qed (simp add: assms(1))
  show ?thesis
    unfolding gy_custodian_delete_prekey_def post_with fst_conv post_if post_res
    by (cases "gy_custodian_slot_get c h") (use hy cl assms(1) in \<open>simp_all del: post_bind add: post_bind [where m = "s_res _"] split: prod.splits\<close>)
qed

lemma mint_frame:
  "cust_mint_sak L ex (c, v) = Some (x, s1) \<Longrightarrow> \<exists>r1. s1 = (c, (fst v, r1))"
  "cust_mint_hsak L ex (c, v) = Some (y, s1) \<Longrightarrow> \<exists>r1. s1 = (c, (fst v, r1))"
  by (auto simp: cust_mint_sak_def cust_certify_sak_def cust_mint_hsak_def cust_certify_hsak_def Let_def cu_with_def sbind_def
      cu_gen_def s_res_def split: option.splits sum.splits prod.splits)

lemma kept_mint_sak:
  assumes "kept L P st view cred (c, v)" "\<And>a r1. post (k a) (c, (fst v, r1)) (\<lambda>x. kept L P st view cred)"
  shows "post (sbind (cust_mint_sak L ex) k) (c, v) (\<lambda>x. kept L P st view cred)"
  unfolding post_bind by (rule postI) (use assms(2) kept_view [OF assms(1)] in \<open>auto dest!: mint_frame split: sum.splits\<close>)

lemma kept_mint_hsak:
  assumes "kept L P st view cred (c, v)" "\<And>a r1. post (k a) (c, (fst v, r1)) (\<lambda>x. kept L P st view cred)"
  shows "post (sbind (cust_mint_hsak L ex) k) (c, v) (\<lambda>x. kept L P st view cred)"
  unfolding post_bind by (rule postI) (use assms(2) kept_view [OF assms(1)] in \<open>auto dest!: mint_frame split: sum.splits\<close>)

lemma kept_generate_appkey:
  assumes "kept L P st view cred (c, v)" "storable L view c"
  shows "post (gy_custodian_generate_appkey L P ex) (c, v) (\<lambda>x. kept L P st view cred)"
proof -
  note k = keptD [OF assms(1)]
  have h: "post (cust_generate_hybrid_appkey L P ex) (c, v) (\<lambda>x. kept L P st view cred)"
    if "is_hybrid (cu_desc c)" "cu_have_identity c"
    unfolding cust_generate_hybrid_appkey_def post_with fst_conv post_if post_res
    by (auto simp: one_sak_inv k that simp del: post_bind intro!: assms(1) kept_mint_hsak [OF assms(1)] hmat_swap [OF assms])
  show ?thesis
    unfolding gy_custodian_generate_appkey_def post_with fst_conv post_if post_res
    by (auto simp: one_sak_inv k simp del: post_bind intro!: assms(1) h kept_mint_sak [OF assms(1)] mat_swap [OF assms])
qed

lemma kept_rotate_appkey:
  assumes "kept L P st view cred (c, v)" "storable L view c"
  shows "post (gy_custodian_rotate_appkey L P ex) (c, v) (\<lambda>x. kept L P st view cred)"
proof -
  note k = keptD [OF assms(1)]
  have h: "post (cust_rotate_hybrid_appkey L P ex) (c, v) (\<lambda>x. kept L P st view cred)"
    if "is_hybrid (cu_desc c)"
  proof -
    have "mt_saks (cu_hmat c) \<noteq> [] \<Longrightarrow> cu_have_identity c" using k(6) by (metis zero_material_simps)
    then show ?thesis
      unfolding cust_rotate_hybrid_appkey_def post_with fst_conv Let_def post_if post_res
      by (auto simp: push_inv k that simp del: post_bind intro!: assms(1) kept_mint_hsak [OF assms(1)] hmat_swap [OF assms] rotate_tail)
  qed
  have "mt_saks (cu_mat c) \<noteq> [] \<Longrightarrow> cu_have_identity c" using k(5) by (metis zero_material_simps)
  then show ?thesis
    unfolding gy_custodian_rotate_appkey_def post_with fst_conv Let_def post_if post_res
    by (auto simp: push_inv k simp del: post_bind intro!: assms(1) h kept_mint_sak [OF assms(1)] mat_swap [OF assms] rotate_tail)
qed

text \<open>Operations that are followed by another one keep the suite and the identity flag as well.\<close>

definition kept_as :: "provider \<Rightarrow> platform \<Rightarrow> 'w gy_store \<Rightarrow> ('w \<Rightarrow> bytes) \<Rightarrow> bytes \<Rightarrow> 'w gy_custodian \<Rightarrow> 'w custst \<Rightarrow> bool" where
  "kept_as L P st view cred c s \<longleftrightarrow> kept L P st view cred s \<and> cu_desc (fst s) = cu_desc c \<and> cu_have_identity (fst s) = cu_have_identity c"

lemma kept_as_gen:
  assumes "kept L P st view cred (c, v)"
    and "\<And>a r1. m (snd v) = Some (Inr a, r1) \<Longrightarrow> post (k a) (c, (fst v, r1)) (\<lambda>x. kept_as L P st view cred c)"
  shows "post (sbind (cu_gen m) k) (c, v) (\<lambda>x. kept_as L P st view cred c)"
  using assms(2) kept_view [OF assms(1)] by (auto simp: kept_as_def split: sum.splits)

lemma kept_replenish:
  assumes "kept L P st view cred (c, v)" "storable L view c" "\<not> is_hybrid (cu_desc c)" "cu_have_identity c"
  shows "post (cust_replenish_opks L P n) (c, v) (\<lambda>x. kept_as L P st view cred c)"
proof -
  note k = keptD [OF assms(1)] and same = kept_view [OF assms(1)]
  let ?pool = "mt_opks (cu_mat c)"
  have main: "post (sbind (cu_upd (\<lambda>c. on_mat (\<lambda>m. m\<lparr>mt_opks := ps2\<rparr>) (c\<lparr>cu_slots := register_all GY_SLOT_OPK (map kp_id gen) (cu_slots c)\<rparr>))) (\<lambda>_.
       cu_undo (\<lambda>c. on_mat (\<lambda>m. m\<lparr>mt_opks := take (length ?pool) (wipe_touched zero_keypair t ps2)\<rparr>)
                (c\<lparr>cu_slots := unregister_touched kp_id ps2 t (cu_slots c)\<rparr>)) (cu_tot (cust_seal_and_persist_idmat L P))))
       (c, (fst v, r1)) (\<lambda>x. kept_as L P st view cred c)"
    if fill: "pool_fill 0 gen ?pool = (ps2, t)" and room: "length gen \<le> GY_OPK_BATCH_MAX - length (pool_ids kp_id ?pool)"
    for gen ps2 t r1
  proof -
    note f = fill_inv [OF k(1) fill room]
    show ?thesis
      unfolding post_bind post_upd fst_conv snd_conv sum.case
    proof (rule classical.persist_or_restore [where view = view], goal_cases)
      case (3 v1)
      then show ?case using kept_mat [OF assms(1) f(1) assms(3,4), of v1] by (simp add: kept_as_def kept_slots_mat)
    qed (use assms f(2) same in \<open>simp_all add: kept_as_def kept_slots kept_slots_mat\<close>)
  qed
  show ?thesis
    unfolding cust_replenish_opks_def post_with fst_conv Let_def post_if post_res if_bool_eq_conj
  proof (intro conjI impI kept_as_gen [OF assms(1)], goal_cases)
    case (4 gen r1)
    then have "length gen \<le> GY_OPK_BATCH_MAX - length (pool_ids kp_id ?pool)" using batch_length by fastforce
    then show ?case using main by (simp del: post_bind split: prod.splits)
  qed (use assms(1) in \<open>simp_all add: kept_as_def\<close>)
qed

lemma kept_replenish_hybrid:
  assumes "kept L P st view cred (c, v)" "storable L view c" "is_hybrid (cu_desc c)" "cu_have_identity c"
  shows "post (cust_replenish_hybrid_opks L P n) (c, v) (\<lambda>x. kept_as L P st view cred c)"
proof -
  note k = keptD [OF assms(1)] and same = kept_view [OF assms(1)]
  let ?pool = "mt_opks (cu_hmat c)"
  have main: "post (sbind (cu_upd (\<lambda>c. on_hmat (\<lambda>m. m\<lparr>mt_opks := ps2\<rparr>) (c\<lparr>cu_slots := register_all GY_SLOT_OPK (map hk_id gen) (cu_slots c)\<rparr>))) (\<lambda>_.
       cu_undo (\<lambda>c. on_hmat (\<lambda>m. m\<lparr>mt_opks := take (length ?pool) (wipe_touched zero_hybrid_keypair t ps2)\<rparr>)
                (c\<lparr>cu_slots := unregister_touched hk_id ps2 t (cu_slots c)\<rparr>)) (cu_tot (cust_seal_and_persist_hybrid_idmat L P))))
       (c, (fst v, r1)) (\<lambda>x. kept_as L P st view cred c)"
    if fill: "pool_fill 0 gen ?pool = (ps2, t)" and room: "length gen \<le> GY_OPK_BATCH_MAX - length (pool_ids hk_id ?pool)"
    for gen ps2 t r1
  proof -
    note f = fill_inv [OF k(2) fill room]
    show ?thesis
      unfolding post_bind post_upd fst_conv snd_conv sum.case
    proof (rule hybrid.persist_or_restore [where view = view], goal_cases)
      case (3 v1)
      then show ?case using kept_hmat [OF assms(1) f(1) assms(3,4), of v1] by (simp add: kept_as_def kept_slots_mat)
    qed (use assms f(2) same in \<open>simp_all add: kept_as_def kept_slots kept_slots_mat\<close>)
  qed
  show ?thesis
    unfolding cust_replenish_hybrid_opks_def post_with fst_conv Let_def post_if post_res if_bool_eq_conj
  proof (intro conjI impI kept_as_gen [OF assms(1)], goal_cases)
    case (4 gen r1)
    then have "length gen \<le> GY_OPK_BATCH_MAX - length (pool_ids hk_id ?pool)" using hybrid_batch_length by fastforce
    then show ?case using main by (simp del: post_bind split: prod.splits)
  qed (use assms(1) in \<open>simp_all add: kept_as_def\<close>)
qed

lemma kept_of: "post m s (\<lambda>x. kept_as L P st view cred c) \<Longrightarrow> post m s (\<lambda>x. kept L P st view cred)"
  by (erule post_mono) (simp add: kept_as_def)

lemma kept_onetime:
  assumes "kept L P st view cred (c, v)" "storable L view c"
  shows "post (gy_custodian_generate_onetime_prekeys L P n) (c, v) (\<lambda>x. kept L P st view cred)"
  using kept_replenish [OF assms, of n] kept_replenish_hybrid [OF assms, of n] assms(1)
  by (auto simp: gy_custodian_generate_onetime_prekeys_def intro: kept_of)

lemma reservable: "first_reservable ps = Some i \<Longrightarrow> i < length ps \<and> pe_used (ps ! i) \<and> \<not> pe_consumed (ps ! i)"
  unfolding first_reservable_def by (drule first_index_SomeD) simp

lemma kept_reservable:
  assumes "kept L P st view cred (c, v)" "storable L view c" "cu_have_identity c"
  shows "\<not> is_hybrid (cu_desc c) \<Longrightarrow> post (reservable_opk L P) (c, v) (\<lambda>x s1. kept_as L P st view cred c s1 \<and>
      (\<forall>i. x = Inr i \<longrightarrow> first_reservable (mt_opks (cu_mat (fst s1))) = Some i))"
    and "is_hybrid (cu_desc c) \<Longrightarrow> post (reservable_hybrid_opk L P) (c, v) (\<lambda>x s1. kept_as L P st view cred c s1 \<and>
      (\<forall>i. x = Inr i \<longrightarrow> first_reservable (mt_opks (cu_hmat (fst s1))) = Some i))"
  using kept_replenish [OF assms(1,2) _ assms(3), of 1] kept_replenish_hybrid [OF assms(1,2) _ assms(3), of 1] assms(1)
  by (auto simp: reservable_opk_def reservable_hybrid_opk_def kept_as_def split: option.splits sum.splits elim!: post_mono)

lemma kept_publish:
  assumes "kept L P st view cred (c, v)" "storable L view c"
  shows "post (gy_custodian_publish_bundle L P cap) (c, v) (\<lambda>x. kept L P st view cred)"
proof -
  have st: "storable L view c1" if "kept L P st view cred (c1, v1)" for c1 v1
    using assms(2) keptD(4) [OF assms(1)] keptD(4) [OF that] by (simp add: storable_def)
  have h: "post (cust_publish_hybrid_bundle L P cap) (c, v) (\<lambda>x. kept L P st view cred)"
    if d: "is_hybrid (cu_desc c)" "cu_have_identity c"
    unfolding cust_publish_hybrid_bundle_def post_bind [where m = "reservable_hybrid_opk _ _"]
  proof (rule post_mono [OF kept_reservable(2) [OF assms d(2,1)]], goal_cases)
    case (1 x s1)
    obtain c1 v1 where s1: "s1 = (c1, v1)" by (rule prod.exhaust)
    have k: "kept L P st view cred (c1, v1)" "is_hybrid (cu_desc c1)" "cu_have_identity c1" using 1 d by (auto simp: s1 kept_as_def)
    show ?case
    proof (cases x)
      case (Inr i)
      then have r: "i < length (mt_opks (cu_hmat c1)) \<and> pe_used (mt_opks (cu_hmat c1) ! i) \<and> \<not> pe_consumed (mt_opks (cu_hmat c1) ! i)"
        using 1 reservable by (auto simp: s1)
      show ?thesis unfolding Inr sum.case s1
        by (rule hmat_swap [OF k(1) st [OF k(1)] k(2,3)]) (use r keptD(2) [OF k(1)] in \<open>simp_all add: reserve_inv unreserve_reserve\<close>)
    qed (use k s1 in simp)
  qed
  have c: "post (sbind (reservable_opk L P) (\<lambda>idx.
       sbind (cu_upd (on_mat (reserve idx))) (\<lambda>_.
       sbind (cu_undo (on_mat (unreserve idx)) (cu_tot (cust_seal_and_persist_idmat L P))) (\<lambda>_.
       cu_with (\<lambda>c. s_res (f c idx)))))) (c, v) (\<lambda>x. kept L P st view cred)"
    if d: "\<not> is_hybrid (cu_desc c)" "cu_have_identity c" for f
    unfolding post_bind [where m = "reservable_opk _ _"]
  proof (rule post_mono [OF kept_reservable(1) [OF assms d(2,1)]], goal_cases)
    case (1 x s1)
    obtain c1 v1 where s1: "s1 = (c1, v1)" by (rule prod.exhaust)
    have k: "kept L P st view cred (c1, v1)" "\<not> is_hybrid (cu_desc c1)" "cu_have_identity c1" using 1 d by (auto simp: s1 kept_as_def)
    show ?case
    proof (cases x)
      case (Inr i)
      then have r: "i < length (mt_opks (cu_mat c1)) \<and> pe_used (mt_opks (cu_mat c1) ! i) \<and> \<not> pe_consumed (mt_opks (cu_mat c1) ! i)"
        using 1 reservable by (auto simp: s1)
      show ?thesis unfolding Inr sum.case s1
        by (rule mat_swap [OF k(1) st [OF k(1)] k(2,3)]) (use r keptD(1) [OF k(1)] in \<open>simp_all add: reserve_inv unreserve_reserve\<close>)
    qed (use k s1 in simp)
  qed
  show ?thesis
    unfolding gy_custodian_publish_bundle_def post_with fst_conv post_if post_res
    using h c [of "\<lambda>c i. gy_bundle_put cap (cu_desc c) (cust_build_bundle c (kp_pub (pe_key (mt_opks (cu_mat c) ! i))))"] assms(1)
    by simp
qed

text \<open>The first identity: the material is built up in memory and stored last.\<close>

lemma fresh_inv: "length ks \<le> GY_OPK_BATCH_MAX \<Longrightarrow>
    material_inv z ((zero_material i)\<lparr>mt_ik := a, mt_spks := [b], mt_opks := map fresh_entry ks\<rparr>)"
  by (simp add: material_inv_def history_defs pool_inv_def zero_material_def)

lemma wire_ctxs_ok:
  "length (cu_self_uid c) \<le> GY_USER_ID_MAX \<Longrightarrow> length (cu_self_did c) \<le> GY_DEVICE_ID_MAX \<Longrightarrow> \<exists>ctx. cust_send_ctx L P c = Inr ctx"
  by (simp add: cust_send_ctx_def gy_send_ctx_init_def id_len_def)

lemma identity_kept:
  assumes "kept L P st view cred (c, v)" "\<not> cu_have_identity c"
  shows "\<not> is_hybrid (cu_desc c) \<Longrightarrow> sealed_disk L P view (c\<lparr>cu_mat := m\<rparr>) (fst v1) \<Longrightarrow> material_inv zero_keypair m \<Longrightarrow>
      kept L P st view cred (c\<lparr>cu_mat := m, cu_have_identity := True\<rparr>, v1)"
    and "is_hybrid (cu_desc c) \<Longrightarrow> sealed_disk L P view (c\<lparr>cu_hmat := h\<rparr>) (fst v1) \<Longrightarrow> material_inv zero_hybrid_keypair h \<Longrightarrow>
      kept L P st view cred (c\<lparr>cu_hmat := h, cu_have_identity := True\<rparr>, v1)"
  using assms by (simp_all add: kept_def cust_inv_def mirrored_def sealed_disk_def tail_opens_def blob_holds_def)

lemma slots_then_identity:
  "c\<lparr>cu_mat := m, cu_slots := S, cu_have_identity := b\<rparr> = c\<lparr>cu_mat := m, cu_have_identity := b, cu_slots := S\<rparr>"
  "c\<lparr>cu_hmat := h, cu_slots := S, cu_have_identity := b\<rparr> = c\<lparr>cu_hmat := h, cu_have_identity := b, cu_slots := S\<rparr>"
  by simp_all

lemma step_upd: "post (sbind (cu_upd f) k) (c, v) Q \<longleftrightarrow> post (k ()) (f c, v) Q"
  by simp

lemma step_draw:
  assumes "\<And>e r1. Q (Inl e) (c, (fst v, r1))" "\<And>a r1. m (snd v) = Some (Inr a, r1) \<Longrightarrow> post (k a) (c, (fst v, r1)) Q"
  shows "post (sbind (cu_gen m) k) (c, v) Q"
  using assms by (auto split: sum.splits)

lemma step_gen:
  assumes "\<And>e r1. Q (Inl e) (g c, (fst v, r1))" "\<And>a r1. m (snd v) = Some (Inr a, r1) \<Longrightarrow> post (k a) (c, (fst v, r1)) Q"
  shows "post (sbind (cu_undo g (cu_gen m)) k) (c, v) Q"
  using assms by (auto split: sum.splits)

lemma step_gen_if:
  assumes "\<And>e r1. Q (Inl e) (g c, (fst v, r1))" "\<And>a r1. b \<Longrightarrow> m (snd v) = Some (Inr a, r1) \<Longrightarrow> post (k a) (c, (fst v, r1)) Q"
    and "\<not> b \<Longrightarrow> post (k d) (c, v) Q"
  shows "post (sbind (if b then cu_undo g (cu_gen m) else s_res (Inr d)) k) (c, v) Q"
  using assms by (auto split: sum.splits)

lemma identity_post:
  assumes c: "storable L view c" "\<not> is_hybrid (cu_desc c)" "\<not> cu_have_identity c \<Longrightarrow> cu_mat c = zero_material zero_keypair"
      "length (cu_self_uid c) \<le> GY_USER_ID_MAX" "length (cu_self_did c) \<le> GY_DEVICE_ID_MAX"
    and refused: "\<And>e v1. view (fst v1) = view (fst v) \<Longrightarrow> Q (Inl e) (c, v1)"
    and stored: "\<And>ik spk ks m v1. \<not> cu_have_identity c \<Longrightarrow> length ks \<le> GY_OPK_BATCH_MAX \<Longrightarrow>
      ks = [] \<or> (\<exists>r r1. gy_opk_batch L (cu_desc c) n [] r = Some (Inr ks, r1)) \<Longrightarrow>
      m = (zero_material zero_keypair)\<lparr>mt_ik := ik, mt_spks := [spk], mt_opks := map fresh_entry ks\<rparr> \<Longrightarrow>
      sealed_disk L P view (c\<lparr>cu_mat := m\<rparr>) (fst v1) \<Longrightarrow>
      Q (Inr ()) (c\<lparr>cu_mat := m, cu_slots := register_all GY_SLOT_OPK (map kp_id ks)
        (snd (cust_slot_register GY_SLOT_SPK (spk_id spk) (cu_slots c))), cu_have_identity := True\<rparr>, v1)"
  shows "post (gy_custodian_generate_identity L P ts n) (c, v) Q"
proof (cases "\<not> cu_unlocked c \<or> cu_have_identity c \<or> n > GY_OPK_BATCH_MAX")
  case False
  then have id: "\<not> cu_have_identity c" and n: "cu_unlocked c" "\<not> n > GY_OPK_BATCH_MAX" by simp_all
  note z = c(3) [OF id]
  have zc: "c\<lparr>cu_mat := zero_material zero_keypair\<rparr> = c" using z by simp
  have undone: "Q (Inl e) (c\<lparr>cu_mat := zero_material zero_keypair\<rparr>, v1)" if "view (fst v1) = view (fst v)" for v1 e
    using refused [of v1 e] that zc by simp
  have fin: "post (sbind (cu_upd (on_mat (\<lambda>m. m\<lparr>mt_opks := map fresh_entry ks\<rparr>))) (\<lambda>_.
       sbind (cu_undo (on_mat (\<lambda>m. m\<lparr>mt_ik := zero_keypair, mt_spks := [], mt_opks := []\<rparr>)) (cu_tot (cust_seal_and_persist_idmat L P))) (\<lambda>_.
       sbind (cu_upd (\<lambda>c. c\<lparr>cu_slots := register_all GY_SLOT_OPK (map kp_id ks)
                (snd (cust_slot_register GY_SLOT_SPK (spk_id spk) (cu_slots c)))\<rparr>)) (\<lambda>_.
       sbind (cust_wire_ctxs L P) (\<lambda>_. cu_upd (\<lambda>c. c\<lparr>cu_have_identity := True\<rparr>))))))
      (on_mat (\<lambda>m. m\<lparr>mt_spks := [spk]\<rparr>) (on_mat (\<lambda>m. m\<lparr>mt_ik := ik\<rparr>) c), (fst v, r1)) Q"
    if ks: "length ks \<le> GY_OPK_BATCH_MAX" "ks = [] \<or> (\<exists>r r1. gy_opk_batch L (cu_desc c) n [] r = Some (Inr ks, r1))" for ik spk ks r1
    unfolding step_upd post_bind [where m = "cu_undo _ _"]
  proof (rule classical.persist_or_restore [where view = view], goal_cases)
    case (2 e v1)
    then show ?case using undone [of v1 e] by (simp add: z zero_material_def)
  next
    case (3 v1)
    define m :: classical_material where "m = (zero_material zero_keypair)\<lparr>mt_ik := ik, mt_spks := [spk], mt_opks := map fresh_entry ks\<rparr>"
    let ?S = "register_all GY_SLOT_OPK (map kp_id ks) (snd (cust_slot_register GY_SLOT_SPK (spk_id spk) (cu_slots c)))"
    have "\<exists>ctx. cust_send_ctx L P (c\<lparr>cu_mat := m, cu_slots := ?S\<rparr>) = Inr ctx" using c(4,5) by (intro wire_ctxs_ok) simp_all
    moreover have "Q (Inr ()) (c\<lparr>cu_mat := m, cu_slots := ?S, cu_have_identity := True\<rparr>, v1)"
      using stored [OF id ks m_def, of v1] 3 by (simp add: m_def z)
    ultimately show ?case by (auto simp: cust_wire_ctxs_def m_def z)
  qed (use c in simp)
  show ?thesis
    unfolding gy_custodian_generate_identity_def post_with fst_conv if_not_P [OF n(2)] if_not_P [OF id] if_not_P [OF c(2)]
    apply (simp only: n(1) not_True_eq_False if_False post_with fst_conv)
    apply (rule step_draw)
     apply (use refused in simp)
    apply (subst step_upd, rule step_gen)
     apply (use undone in \<open>simp add: z zero_material_def\<close>)
    apply (subst step_upd, rule step_gen_if)
      apply (use undone in \<open>simp add: z zero_material_def\<close>)
     apply (simp only: fst_conv snd_conv, rule fin)
      apply (frule batch_length, use n(2) in simp)
     apply blast
    apply (use fin [of "[]"] in \<open>simp del: post_bind post_undo\<close>)
    done
qed (use refused in \<open>auto simp: gy_custodian_generate_identity_def\<close>)

lemma hybrid_identity_post:
  assumes c: "storable L view c" "is_hybrid (cu_desc c)" "\<not> cu_have_identity c \<Longrightarrow> cu_hmat c = zero_material zero_hybrid_identity"
      "length (cu_self_uid c) \<le> GY_USER_ID_MAX" "length (cu_self_did c) \<le> GY_DEVICE_ID_MAX"
    and refused: "\<And>e v1. view (fst v1) = view (fst v) \<Longrightarrow> Q (Inl e) (c, v1)"
    and stored: "\<And>ik spk ks m v1. \<not> cu_have_identity c \<Longrightarrow> length ks \<le> GY_OPK_BATCH_MAX \<Longrightarrow>
      ks = [] \<or> (\<exists>r r1. gy_hybrid_opk_batch L (cu_desc c) n [] r = Some (Inr ks, r1)) \<Longrightarrow>
      m = (zero_material zero_hybrid_identity)\<lparr>mt_ik := ik, mt_spks := [spk], mt_opks := map fresh_entry ks\<rparr> \<Longrightarrow>
      sealed_disk L P view (c\<lparr>cu_hmat := m\<rparr>) (fst v1) \<Longrightarrow>
      Q (Inr ()) (c\<lparr>cu_hmat := m, cu_slots := register_all GY_SLOT_OPK (map hk_id ks)
        (snd (cust_slot_register GY_SLOT_SPK (hspk_id spk) (cu_slots c))), cu_have_identity := True\<rparr>, v1)"
  shows "post (gy_custodian_generate_identity L P ts n) (c, v) Q"
proof (cases "\<not> cu_unlocked c \<or> cu_have_identity c \<or> n > GY_OPK_BATCH_MAX")
  case False
  then have id: "\<not> cu_have_identity c" and n: "cu_unlocked c" "\<not> n > GY_OPK_BATCH_MAX" by simp_all
  note z = c(3) [OF id]
  have zc: "c\<lparr>cu_hmat := zero_material zero_hybrid_identity\<rparr> = c" using z by simp
  have undone: "Q (Inl e) (c\<lparr>cu_hmat := zero_material zero_hybrid_identity\<rparr>, v1)" if "view (fst v1) = view (fst v)" for v1 e
    using refused [of v1 e] that zc by simp
  have fin: "post (sbind (cu_upd (on_hmat (\<lambda>m. m\<lparr>mt_opks := map fresh_entry ks\<rparr>))) (\<lambda>_.
       sbind (cu_undo (on_hmat (\<lambda>m. m\<lparr>mt_ik := zero_hybrid_identity, mt_spks := [], mt_opks := []\<rparr>)) (cu_tot (cust_seal_and_persist_hybrid_idmat L P))) (\<lambda>_.
       sbind (cu_upd (\<lambda>c. c\<lparr>cu_slots := register_all GY_SLOT_OPK (map hk_id ks)
                (snd (cust_slot_register GY_SLOT_SPK (hspk_id spk) (cu_slots c)))\<rparr>)) (\<lambda>_.
       sbind (cust_wire_ctxs L P) (\<lambda>_. cu_upd (\<lambda>c. c\<lparr>cu_have_identity := True\<rparr>))))))
      (on_hmat (\<lambda>m. m\<lparr>mt_spks := [spk]\<rparr>) (on_hmat (\<lambda>m. m\<lparr>mt_ik := ik\<rparr>) c), (fst v, r1)) Q"
    if ks: "length ks \<le> GY_OPK_BATCH_MAX" "ks = [] \<or> (\<exists>r r1. gy_hybrid_opk_batch L (cu_desc c) n [] r = Some (Inr ks, r1))" for ik spk ks r1
    unfolding step_upd post_bind [where m = "cu_undo _ _"]
  proof (rule hybrid.persist_or_restore [where view = view], goal_cases)
    case (2 e v1)
    then show ?case using undone [of v1 e] by (simp add: z zero_material_def)
  next
    case (3 v1)
    define m :: hybrid_material where "m = (zero_material zero_hybrid_identity)\<lparr>mt_ik := ik, mt_spks := [spk], mt_opks := map fresh_entry ks\<rparr>"
    let ?S = "register_all GY_SLOT_OPK (map hk_id ks) (snd (cust_slot_register GY_SLOT_SPK (hspk_id spk) (cu_slots c)))"
    have "\<exists>ctx. cust_send_ctx L P (c\<lparr>cu_hmat := m, cu_slots := ?S\<rparr>) = Inr ctx" using c(4,5) by (intro wire_ctxs_ok) simp_all
    moreover have "Q (Inr ()) (c\<lparr>cu_hmat := m, cu_slots := ?S, cu_have_identity := True\<rparr>, v1)"
      using stored [OF id ks m_def, of v1] 3 by (simp add: m_def z)
    ultimately show ?case by (auto simp: cust_wire_ctxs_def m_def z)
  qed (use c in simp)
  show ?thesis
    unfolding gy_custodian_generate_identity_def cust_gen_hybrid_identity_def post_with fst_conv if_not_P [OF n(2)] if_not_P [OF id] if_P [OF c(2)]
    apply (simp only: n(1) not_True_eq_False if_False post_with fst_conv)
    apply (rule step_draw)
     apply (use refused in simp)
    apply (subst step_upd, rule step_gen)
     apply (use undone in \<open>simp add: z zero_material_def\<close>)
    apply (subst step_upd, rule step_gen_if)
      apply (use undone in \<open>simp add: z zero_material_def\<close>)
     apply (simp only: fst_conv snd_conv, rule fin)
      apply (frule hybrid_batch_length, use n(2) in simp)
     apply blast
    apply (use fin [of "[]"] in \<open>simp del: post_bind post_undo\<close>)
    done
qed (use refused in \<open>auto simp: gy_custodian_generate_identity_def\<close>)

lemma kept_identity:
  assumes "kept L P st view cred (c, v)" "storable L view c"
  shows "post (gy_custodian_generate_identity L P ts n) (c, v) (\<lambda>x. kept L P st view cred)"
proof -
  have ids: "length (cu_self_uid c) \<le> GY_USER_ID_MAX" "length (cu_self_did c) \<le> GY_DEVICE_ID_MAX"
    using assms(1) by (simp_all add: kept_def cust_inv_def)
  note kd = keptD(5,6) [OF assms(1)]
  show ?thesis
  proof (cases "is_hybrid (cu_desc c)")
    case True
    show ?thesis
      by (rule hybrid_identity_post [OF assms(2) True kd(2) ids])
        (simp_all add: slots_then_identity(2) kept_slots kept_view [OF assms(1)] identity_kept(2) [OF assms(1) _ True] fresh_inv)
  next
    case False
    show ?thesis
      by (rule identity_post [OF assms(2) False kd(1) ids])
        (simp_all add: slots_then_identity(1) kept_slots kept_view [OF assms(1)] identity_kept(1) [OF assms(1) _ False] fresh_inv)
  qed
qed

lemma wipe_inv: "material_inv z m \<Longrightarrow> material_inv z (m\<lparr>mt_opks := (mt_opks m)[i := zero_entry z]\<rparr>)"
  unfolding material_inv_def pool_inv_def
  by simp (metis nth_list_update_eq nth_list_update_neq)

lemma pool_find_zero: "pool_find f k (mt_opks (zero_material i)) = None"
  by (simp add: pool_find_def zero_material_def)

text \<open>A one-time prekey that a receive consumed is gone from memory and store together.\<close>

lemma kept_consume:
  assumes "kept L P st view cred (c, (w, r))" "storable L view c" "tr_consume_opk L P k ((c, w), r) = (Inr u, ((c1, w1), r1))"
  shows "kept L P st view cred (c1, (w1, r1))"
proof -
  note kd = keptD [OF assms(1)]
  have slot: "identity_slot (cu_app_store c) view" using assms(2) by (simp add: storable_def)
  obtain x w2 r2 where x: "consume_opk (cust_sealed_store L c) k (w, r) = (x, (w2, r2))" by (metis prod.exhaust)
  then have "view w2 = view w"
    using slot_consume [OF slot] by (simp add: cust_sealed_store_def gy_sealed_store_bind_def ss_consume_opk_def Let_def)
  then have k2: "kept L P st view cred (c, (w2, r2))" using kept_view [OF assms(1)] by simp
  show ?thesis
  proof (cases "is_hybrid (cu_desc c)")
    case True
    show ?thesis
    proof (cases "pool_find hk_id k (mt_opks (cu_hmat c))")
      case None
      then show ?thesis using assms(3) x k2 True by (auto simp: tr_consume_opk_def split: sum.splits)
    next
      case (Some i)
      then have id: "cu_have_identity c" using kd(6) pool_find_zero by (metis option.distinct(1))
      have p: "cust_seal_and_persist_hybrid_idmat L P (drop_hybrid_opk k i c, (w2, r2)) = (Inr u, (c1, (w1, r1)))"
        using assms(3) x True Some by (auto simp: tr_consume_opk_def split: sum.splits prod.splits)
      have "c1 = drop_hybrid_opk k i c" "sealed_disk L P view (drop_hybrid_opk k i c) w1"
        using hybrid.object [OF _ p, of view] hybrid.stored [OF _ p, of view] assms(2) True by (simp_all add: drop_hybrid_opk_def)
      then show ?thesis
        using kept_hmat [OF k2 wipe_inv [OF kd(2)] True id, of i "(w1, r1)"] by (simp add: drop_hybrid_opk_def kept_slots_mat)
    qed
  next
    case False
    show ?thesis
    proof (cases "pool_find kp_id k (mt_opks (cu_mat c))")
      case None
      then show ?thesis using assms(3) x k2 False by (auto simp: tr_consume_opk_def split: sum.splits)
    next
      case (Some i)
      then have id: "cu_have_identity c" using kd(5) pool_find_zero by (metis option.distinct(1))
      have p: "cust_seal_and_persist_idmat L P (drop_opk k i c, (w2, r2)) = (Inr u, (c1, (w1, r1)))"
        using assms(3) x False Some by (auto simp: tr_consume_opk_def split: sum.splits prod.splits)
      have "c1 = drop_opk k i c" "sealed_disk L P view (drop_opk k i c) w1"
        using classical.object [OF _ p, of view] classical.stored [OF _ p, of view] assms(2) False by (simp_all add: drop_opk_def)
      then show ?thesis
        using kept_mat [OF k2 wipe_inv [OF kd(1)] False id, of i "(w1, r1)"] by (simp add: drop_opk_def kept_slots_mat)
    qed
  qed
qed

subsection \<open>Creation, change of credential and reopening\<close>

lemma blob_length:
  assumes "blob_holds P view c w tail"
  shows "length (view w) \<le> GY_CUST_BLOB_MAX P"
  using assms by (auto simp: blob_holds_def gy_cust_header_encode_def GY_CUST_BLOB_MAX_def GY_CUST_HDR_MAX_def cust_header_def
      put_be16_def split: if_splits)

lemma created_kept:
  assumes "gy_custodian_create L P sid st cred uid did clock cfg v = (Inr c, v1)" "seal_provider L" "identity_slot st view"
  shows "kept L P st view cred (c, v1)"
proof -
  obtain desc ex wrap ks r1 c1 u where a: "length uid \<le> GY_USER_ID_MAX" "length did \<le> GY_DEVICE_ID_MAX"
      "gy_suite_desc L sid = Some desc"
      "gy_keystore_create L locked_keystore GY_CUSTODIAN_WRAP_ALG GY_CUSTODIAN_OPSLIMIT GY_CUSTODIAN_MEMLIMIT cred GY_KEYSTORE_WRAP_MAX (snd v)
         = (Inr wrap, ks, r1)"
      "cust_persist_header P [] ((zero_custodian st desc sid uid did)\<lparr>cu_clock := clock, cu_expiry := ex, cu_ks := ks, cu_wrap := wrap\<rparr>, (fst v, r1))
         = (Inr u, (c1, v1))" "c = c1\<lparr>cu_unlocked := True\<rparr>"
    using assms(1) by (auto simp: gy_custodian_create_def Let_def zero_custodian_def split: if_splits option.splits sum.splits prod.splits)
  let ?c = "(zero_custodian st desc sid uid did)\<lparr>cu_clock := clock, cu_expiry := ex, cu_ks := ks, cu_wrap := wrap\<rparr>"
  have slot: "identity_slot (cu_app_store ?c) view" using assms(3) by (simp add: zero_custodian_def)
  have p: "c1 = ?c" "blob_holds P view ?c (fst v1) []" using persist_header_spec [OF a(5) slot] by simp_all
  obtain kek r0 where k: "ks = locked_keystore\<lparr>ks_kek := Some kek, ks_unlocked := True\<rparr>" "length kek = GY_KEKPROT_KEK_LEN"
      "gy_kekprot_wrap L GY_KEYSTORE_WRAP_MAX GY_CUSTODIAN_WRAP_ALG GY_CUSTODIAN_OPSLIMIT GY_CUSTODIAN_MEMLIMIT cred [] kek r0 = (Inr wrap, r1)"
    using a(4) assms(2) [unfolded seal_provider_def, THEN conjunct1] by (cases rule: create_cases) auto
  have m: "sodium_malloc L GY_KEKPROT_KEK_LEN" using a(4) by (auto simp: gy_keystore_create_def split: if_splits)
  have o: "gy_keystore_open L locked_keystore cred wrap = (Inr (), ks)"
    using unwrap_wrap(1) [OF _ _ _ k(2,3)] assms(2) m by (simp add: gy_keystore_open_def k(1) seal_provider_def)
  show ?thesis
    using p a o by (simp add: kept_def cust_inv_def mirrored_def blob_holds_def zero_custodian_def cust_header_def)
qed

lemma opened_keystore:
  assumes "gy_keystore_open L locked_keystore cred wrap = (Inr (), ks)"
  shows "sodium_malloc L GY_KEKPROT_KEK_LEN" "ks = \<lparr>ks_kek = Some (the (ks_kek ks)), ks_unlocked = True\<rparr>"
    "length (the (ks_kek ks)) = GY_KEKPROT_KEK_LEN"
  using assms by (auto simp: gy_keystore_open_def dest: unwrap_len split: if_splits sum.splits)

lemma kept_blob:
  assumes "kept L P st view cred (c, (w, r))"
  obtains hdr tail where "view w = hdr @ tail" "gy_cust_header_encode (GY_CUST_BLOB_MAX P) (cust_header c) = Inr hdr"
    "blob_holds P view c w tail" "tail = [] \<longleftrightarrow> \<not> cu_have_identity c"
    "cu_have_identity c \<longrightarrow> tail_opens L P c tail"
  using assms by (auto simp: kept_def mirrored_def sealed_disk_def blob_holds_def split: if_splits)

lemma credential_kept:
  assumes "kept L P st view cred (c, (w, r))" "seal_provider L" "identity_slot st view"
    and "gy_custodian_change_credential L P new_cred (c, (w, r)) = (Inr u, s1)"
  shows "kept L P st view new_cred s1"
proof -
  obtain hdr tail where b: "view w = hdr @ tail" "gy_cust_header_encode (GY_CUST_BLOB_MAX P) (cust_header c) = Inr hdr"
      "blob_holds P view c w tail" "tail = [] \<longleftrightarrow> \<not> cu_have_identity c"
      "cu_have_identity c \<longrightarrow> tail_opens L P c tail"
    by (rule kept_blob [OF assms(1)])
  have inv: "cust_inv L st cred c" using assms(1) by (simp add: kept_def)
  then have st: "cu_app_store c = st" and op: "gy_keystore_open L locked_keystore cred (cu_wrap c) = (Inr (), cu_ks c)"
    by (simp_all add: cust_inv_def)
  obtain w1 r1 where l: "load_identity st (GY_CUST_BLOB_MAX P) (w, r) = (Inr (view w), (w1, r1))" "view w1 = view w"
    by (rule slot_load [OF assms(3) blob_length [OF b(3)]])
  have d: "gy_cust_header_decode (view w) = Inr (cust_header c, length hdr)" "drop (length hdr) (view w) = tail"
    using header_decode_encode [OF b(2)] b(1) by simp_all
  obtain wrap r2 where k: "gy_keystore_change_credential L (cu_ks c) GY_CUSTODIAN_WRAP_ALG GY_CUSTODIAN_OPSLIMIT GY_CUSTODIAN_MEMLIMIT
        new_cred GY_KEYSTORE_WRAP_MAX r1 = (Inr wrap, r2)"
      "cust_persist_header P tail (c\<lparr>cu_wrap := wrap\<rparr>, (w1, r2)) = (Inr u, s1)"
    using assms(4) l d st by (auto simp: gy_custodian_change_credential_def split: if_splits sum.splits prod.splits)
  note ks = opened_keystore [OF op]
  have "gy_kekprot_unwrap L new_cred [] wrap = Inr (the (ks_kek (cu_ks c)))"
    using unwrap_wrap(1) [OF _ _ _ ks(3)] k(1) assms(2) by (auto simp: gy_keystore_change_credential_def seal_provider_def split: if_splits)
  then have o: "gy_keystore_open L locked_keystore new_cred wrap = (Inr (), cu_ks c)" using ks by (simp add: gy_keystore_open_def)
  have p: "fst s1 = c\<lparr>cu_wrap := wrap\<rparr>" "blob_holds P view (c\<lparr>cu_wrap := wrap\<rparr>) (fst (snd s1)) tail"
    using persist_header_spec [OF k(2), of view] assms(3) st by simp_all
  show ?thesis
    using p inv o b(4,5) by (auto simp: kept_def cust_inv_def mirrored_def sealed_disk_def tail_opens_def)
qed

text \<open>The handles of an object that is read back.\<close>

definition rebuilt_slots :: "'w gy_custodian \<Rightarrow> gy_key_slot list" where
  "rebuilt_slots c =
     (let S = replicate GY_CUSTODIAN_MAX_SLOTS zero_slot; m = cu_mat c; h = cu_hmat c in
      if is_hybrid (cu_desc c)
      then register_all GY_SLOT_SAK (map hsak_id (mt_saks h))
             (register_all GY_SLOT_OPK (pool_ids hk_id (mt_opks h)) (register_all GY_SLOT_SPK (map hspk_id (mt_spks h)) S))
      else register_all GY_SLOT_SAK (map sak_id (mt_saks m))
             (register_all GY_SLOT_OPK (pool_ids kp_id (mt_opks m)) (register_all GY_SLOT_SPK (map spk_id (mt_spks m)) S)))"

definition reopened :: "'w gy_custodian \<Rightarrow> 'w gy_custodian" where
  "reopened c = c\<lparr>cu_slots := rebuilt_slots c, cu_clock := None, cu_expiry := gy_expiry_cfg_disable, cu_send_open := False\<rparr>"

text \<open>What reopening needs of the machine: memory, and structure images that read back.\<close>

definition machine_reads :: "provider \<Rightarrow> platform \<Rightarrow> 'w gy_custodian \<Rightarrow> bool" where
  "machine_reads L P c \<longleftrightarrow>
     runtime_ok P \<and> calloc_ok P (GY_CUST_BLOB_MAX P) \<and> sodium_malloc L (CUST_SIZE P (cu_desc c)) \<and>
     (if is_hybrid (cu_desc c)
      then sodium_malloc L (sizeof_hybrid_idmat P) \<and> length (hybrid_image P (cu_hmat c)) = sizeof_hybrid_idmat P \<and>
        hybrid_idmat_read P (hybrid_image P (cu_hmat c)) = pack_idmat zero_hybrid_signed_prekey zero_hybrid_keypair zero_hsak (cu_hmat c)
      else sodium_malloc L (sizeof_idmat P) \<and> length (classical_image P (cu_mat c)) = sizeof_idmat P \<and>
        idmat_read P (classical_image P (cu_mat c)) = pack_idmat zero_signed_prekey zero_keypair zero_sak (cu_mat c))"

lemma unat_count: "n \<le> 100 \<Longrightarrow> unat (word_of_nat n :: u64) = n"
  by (simp add: unsigned_of_nat take_bit_nat_eq_self)

lemma take_pack: "take (length xs) (pack_array n y xs) = xs"
  by (simp add: pack_array_def)

lemma unpack_pack:
  assumes "material_inv z m"
  shows "unpack_idmat (pack_idmat zs zk za m) = m" "\<not> idmat_counts_bad (pack_idmat zs zk za m)"
proof -
  have b: "length (mt_spks m) \<le> 4" "length (mt_saks m) \<le> 4" "length (mt_opks m) \<le> 100"
    using assms by (simp_all add: material_inv_def history_defs pool_inv_def GY_OPK_BATCH_MAX_def)
  then have u: "unat (word_of_nat (length (mt_spks m)) :: u64) = length (mt_spks m)" "unat (word_of_nat (length (mt_saks m)) :: u64) = length (mt_saks m)"
      "unat (word_of_nat (length (mt_opks m)) :: u64) = length (mt_opks m)" by (simp_all add: unat_count)
  have "map (\<lambda>i. \<lparr>pe_key = pack_array n k (map pe_key ps) ! i, pe_used = (pack_array n' 0 (map (\<lambda>e. if pe_used e then 1 else 0) ps) ! i \<noteq> (0 :: u8)),
      pe_consumed = (pack_array n'' 0 (map (\<lambda>e. if pe_consumed e then 1 else 0) ps) ! i \<noteq> (0 :: u8))\<rparr>) [0..<length ps] = ps" for n n' n'' k ps
    by (rule nth_equalityI) (simp_all add: pack_array_def nth_append)
  then show "unpack_idmat (pack_idmat zs zk za m) = m"
    by (intro material.equality) (simp_all add: unpack_idmat_def pack_idmat_def u take_pack)
  show "\<not> idmat_counts_bad (pack_idmat zs zk za m)"
    using b u by (simp add: idmat_counts_bad_def pack_idmat_def word_less_nat_alt history_defs GY_OPK_BATCH_MAX_def)
qed

lemma load_material:
  assumes "cust_inv L st cred c" "machine_reads L P c" "cu_have_identity c"
    and c1: "c1 = (zero_custodian st (cu_desc c) (cu_suite_id c) (cu_self_uid c) (cu_self_did c))\<lparr>cu_ks := cu_ks c, cu_wrap := cu_wrap c\<rparr>"
  shows "\<not> is_hybrid (cu_desc c) \<Longrightarrow> gy_keystore_unseal L (cu_ks c) IDMAT_AD tail (sizeof_idmat P) = Inr (classical_image P (cu_mat c)) \<Longrightarrow>
      \<exists>c2. cust_load_idmat L P tail c1 = Inr c2 \<and> c2\<lparr>cu_unlocked := True\<rparr> = reopened c"
    and "is_hybrid (cu_desc c) \<Longrightarrow>
      gy_keystore_unseal L (cu_ks c) IDMAT_HYBRID_AD tail (sizeof_hybrid_idmat P) = Inr (hybrid_image P (cu_hmat c)) \<Longrightarrow>
      \<exists>c2. cust_load_hybrid_idmat L P tail c1 = Inr c2 \<and> c2\<lparr>cu_unlocked := True\<rparr> = reopened c"
proof -
  have ids: "length (cu_self_uid c) \<le> GY_USER_ID_MAX" "length (cu_self_did c) \<le> GY_DEVICE_ID_MAX"
    using assms(1) by (simp_all add: cust_inv_def)
  have inv: "material_inv zero_keypair (cu_mat c)" "material_inv zero_hybrid_keypair (cu_hmat c)" "cu_app_store c = st" "cu_unlocked c"
    using assms(1) by (simp_all add: cust_inv_def)
  have ctx: "\<exists>ctx. cust_send_ctx L P (c1\<lparr>cu_mat := m, cu_slots := S\<rparr>) = Inr ctx"
      "\<exists>ctx. cust_send_ctx L P (c1\<lparr>cu_hmat := h, cu_slots := S\<rparr>) = Inr ctx" for m h S
    using ids by (auto intro!: wire_ctxs_ok simp: c1 zero_custodian_def)
  show "\<exists>c2. cust_load_idmat L P tail c1 = Inr c2 \<and> c2\<lparr>cu_unlocked := True\<rparr> = reopened c"
    if d: "\<not> is_hybrid (cu_desc c)" and t: "gy_keystore_unseal L (cu_ks c) IDMAT_AD tail (sizeof_idmat P) = Inr (classical_image P (cu_mat c))"
  proof -
    have h: "cu_hmat c = zero_material zero_hybrid_identity" using assms(1) d by (simp add: cust_inv_def)
    let ?c2 = "c1\<lparr>cu_mat := cu_mat c, cu_slots := rebuilt_slots c\<rparr>"
    have "cust_load_idmat L P tail c1 = rbind (cust_send_ctx L P ?c2) (\<lambda>_. Inr (?c2\<lparr>cu_have_identity := True\<rparr>))"
      using assms(2) d t by (simp add: cust_load_idmat_def Let_def machine_reads_def c1 unpack_pack [OF inv(1)] rebuilt_slots_def zero_custodian_def)
    moreover have "?c2\<lparr>cu_have_identity := True, cu_unlocked := True\<rparr> = reopened c"
      using inv assms(3) h by (intro gy_custodian.equality) (simp_all add: c1 zero_custodian_def reopened_def)
    ultimately show ?thesis using ctx(1) [where m = "cu_mat c" and S = "rebuilt_slots c"] by auto
  qed
  show "\<exists>c2. cust_load_hybrid_idmat L P tail c1 = Inr c2 \<and> c2\<lparr>cu_unlocked := True\<rparr> = reopened c"
    if d: "is_hybrid (cu_desc c)" and t: "gy_keystore_unseal L (cu_ks c) IDMAT_HYBRID_AD tail (sizeof_hybrid_idmat P) = Inr (hybrid_image P (cu_hmat c))"
  proof -
    have h: "cu_mat c = zero_material zero_keypair" using assms(1) d by (simp add: cust_inv_def)
    let ?c2 = "c1\<lparr>cu_hmat := cu_hmat c, cu_slots := rebuilt_slots c\<rparr>"
    have "cust_load_hybrid_idmat L P tail c1 = rbind (cust_send_ctx L P ?c2) (\<lambda>_. Inr (?c2\<lparr>cu_have_identity := True\<rparr>))"
      using assms(2) d t by (simp add: cust_load_hybrid_idmat_def Let_def machine_reads_def c1 unpack_pack [OF inv(2)] rebuilt_slots_def zero_custodian_def)
    moreover have "?c2\<lparr>cu_have_identity := True, cu_unlocked := True\<rparr> = reopened c"
      using inv assms(3) h by (intro gy_custodian.equality) (simp_all add: c1 zero_custodian_def reopened_def)
    ultimately show ?thesis using ctx(2) [where h = "cu_hmat c" and S = "rebuilt_slots c"] by auto
  qed
qed

lemma kept_opens:
  assumes "kept L P st view cred (c, (w, r))" "identity_slot st view" "machine_reads L P c"
  shows "\<exists>w1 r1. gy_custodian_open L P st cred (w, r) = (Inr (reopened c), (w1, r1)) \<and> view w1 = view w"
proof -
  obtain hdr tail where b: "view w = hdr @ tail" "gy_cust_header_encode (GY_CUST_BLOB_MAX P) (cust_header c) = Inr hdr"
      "blob_holds P view c w tail" "tail = [] \<longleftrightarrow> \<not> cu_have_identity c"
      "cu_have_identity c \<longrightarrow> tail_opens L P c tail"
    by (rule kept_blob [OF assms(1)])
  have inv: "cust_inv L st cred c" using assms(1) by (simp add: kept_def)
  obtain w1 r1 where l: "load_identity st (GY_CUST_BLOB_MAX P) (w, r) = (Inr (view w), (w1, r1))" "view w1 = view w"
    by (rule slot_load [OF assms(2) blob_length [OF b(3)]])
  have d: "gy_cust_header_decode (view w) = Inr (cust_header c, length hdr)" "drop (length hdr) (view w) = tail" "view w \<noteq> []"
    using header_decode_encode [OF b(2)] b(1,2) by (auto simp: gy_cust_header_encode_def split: if_splits)
  let ?c1 = "(zero_custodian st (cu_desc c) (cu_suite_id c) (cu_self_uid c) (cu_self_did c))\<lparr>cu_ks := cu_ks c, cu_wrap := cu_wrap c\<rparr>"
  let ?load = "if tail = [] then Inr ?c1 else if is_hybrid (cu_desc c) then cust_load_hybrid_idmat L P tail ?c1 else cust_load_idmat L P tail ?c1"
  have "gy_custodian_open L P st cred (w, r) = (rbind ?load (\<lambda>c2. Inr (c2\<lparr>cu_unlocked := True\<rparr>)), (w1, r1))"
    using assms(3) inv l(1) d by (simp add: gy_custodian_open_def Let_def machine_reads_def cust_header_def cust_inv_def zero_custodian_def del: drop_eq_Nil drop_eq_Nil2)
  moreover have "\<exists>c2. ?load = Inr c2 \<and> c2\<lparr>cu_unlocked := True\<rparr> = reopened c"
  proof (cases "cu_have_identity c")
    case True
    then show ?thesis using load_material [OF inv assms(3) True refl, of tail] b(4,5) by (auto simp: tail_opens_def)
  next
    case False
    then have "cu_mat c = zero_material zero_keypair" "cu_hmat c = zero_material zero_hybrid_identity" "cu_app_store c = st" "cu_unlocked c"
      using inv by (simp_all add: cust_inv_def)
    then have "?c1\<lparr>cu_unlocked := True\<rparr> = reopened c"
      using False by (intro gy_custodian.equality) (simp_all add: zero_custodian_def reopened_def rebuilt_slots_def Let_def zero_material_def pool_ids_def)
    then show ?thesis using False b(4) by simp
  qed
  ultimately show ?thesis using l(2) by auto
qed

lemma kept_reopened:
  assumes "kept L P st view cred (c, v)" "view (fst v1) = view (fst v)"
  shows "kept L P st view cred (reopened c, v1)"
proof -
  have "mirrored L P view (reopened c) w = mirrored L P view c w" for w
    by (simp add: mirrored_def sealed_disk_def tail_opens_def blob_holds_def reopened_def cust_header_def)
  moreover have "cust_inv L st cred (reopened c)"
    using assms(1) by (simp add: kept_def cust_inv_def reopened_def rebuilt_slots_def Let_def)
  ultimately show ?thesis using assms disk_view [of view "fst v1" "fst v"] by (simp add: kept_def)
qed

subsection \<open>The life of a custodian\<close>

text \<open>The calls that change the material, with their results dropped.\<close>

datatype cust_call = Generate_identity u64 nat | Rotate_signed_prekey u64 | Generate_onetime_prekeys nat | Publish_bundle nat
  | Delete_prekey u32 | Generate_appkey u64 | Rotate_appkey u64

fun run_call :: "provider \<Rightarrow> platform \<Rightarrow> cust_call \<Rightarrow> ('w custst, gy_err, unit) sm" where
  "run_call L P (Generate_identity ts n) = gy_custodian_generate_identity L P ts n"
| "run_call L P (Rotate_signed_prekey ts) = gy_custodian_rotate_signed_prekey L P ts"
| "run_call L P (Generate_onetime_prekeys n) = gy_custodian_generate_onetime_prekeys L P n"
| "run_call L P (Publish_bundle cap) = sbind (gy_custodian_publish_bundle L P cap) (\<lambda>_. s_res (Inr ()))"
| "run_call L P (Delete_prekey h) = gy_custodian_delete_prekey L P h"
| "run_call L P (Generate_appkey ex) = sbind (gy_custodian_generate_appkey L P ex) (\<lambda>_. s_res (Inr ()))"
| "run_call L P (Rotate_appkey ex) = sbind (gy_custodian_rotate_appkey L P ex) (\<lambda>_. s_res (Inr ()))"

lemma kept_unit:
  "post m s (\<lambda>x. kept L P st view cred) \<Longrightarrow> post (sbind m (\<lambda>_. s_res (Inr ()))) s (\<lambda>x. kept L P st view cred)"
  unfolding post_bind by (erule post_mono) (simp split: sum.splits)

lemma kept_call:
  assumes "kept L P st view cred (c, v)" "storable L view c"
  shows "post (run_call L P a) (c, v) (\<lambda>x. kept L P st view cred)"
  using kept_identity [OF assms] kept_rotate_spk [OF assms] kept_onetime [OF assms] kept_publish [OF assms] kept_delete [OF assms]
    kept_generate_appkey [OF assms] kept_rotate_appkey [OF assms]
  by (cases a) (simp_all del: post_bind add: kept_unit)

text \<open>
  A custodian on its store: created, called with any result, a prekey consumed by a receive, the
  credential changed, closed and reopened, the application storing other things in between.
\<close>

inductive custody :: "provider \<Rightarrow> platform \<Rightarrow> 'w gy_store \<Rightarrow> ('w \<Rightarrow> bytes) \<Rightarrow> bytes \<Rightarrow> 'w custst \<Rightarrow> bool" for L P st view where
  created: "gy_custodian_create L P sid st cred uid did clock cfg v = (Inr c, v1) \<Longrightarrow> custody L P st view cred (c, v1)"
| called: "custody L P st view cred s \<Longrightarrow> run_call L P a s = Some (x, s1) \<Longrightarrow> custody L P st view cred s1"
| consumed: "custody L P st view cred (c, (w, r)) \<Longrightarrow> tr_consume_opk L P k ((c, w), r) = (Inr u, ((c1, w1), r1)) \<Longrightarrow>
    custody L P st view cred (c1, (w1, r1))"
| new_credential: "custody L P st view cred s \<Longrightarrow> gy_custodian_change_credential L P cred1 s = (Inr u, s1) \<Longrightarrow> custody L P st view cred1 s1"
| reopen: "custody L P st view cred (c, v) \<Longrightarrow> machine_reads L P c \<Longrightarrow> gy_custodian_open L P st cred v = (Inr c1, v1) \<Longrightarrow>
    custody L P st view cred (c1, v1)"
| other: "custody L P st view cred (c, v) \<Longrightarrow> view (fst v1) = view (fst v) \<Longrightarrow> custody L P st view cred (c, v1)"

lemma custody_kept:
  assumes "custody L P st view cred s" "seal_provider L" "identity_slot st view"
  shows "kept L P st view cred s"
  using assms
proof (induction rule: custody.induct)
  case (created sid cred uid did clock cfg v c v1)
  then show ?case by (rule created_kept)
next
  case (called cred s a x s1)
  obtain c v where s: "s = (c, v)" by (rule prod.exhaust)
  have "kept L P st view cred (c, v)" using called s by simp
  moreover then have "storable L view c" using called.prems keptD(4) by (fastforce simp: storable_def)
  ultimately show ?case using postD [OF kept_call] called(2) s by blast
next
  case (consumed cred c w r k u c1 w1 r1)
  then have k: "kept L P st view cred (c, (w, r))" by simp
  have "storable L view c" using consumed.prems keptD(4) [OF k] by (simp add: storable_def)
  then show ?case using kept_consume [OF k] consumed(2) by blast
next
  case (new_credential cred s cred1 u s1)
  then show ?case by (metis credential_kept prod.exhaust)
next
  case (reopen cred c v c1 v1)
  then have "kept L P st view cred (c, v)" by simp
  then show ?case using kept_opens [of L P st view cred c "fst v" "snd v"] reopen kept_reopened by fastforce
next
  case (other cred c v v1)
  then show ?case using kept_view by simp
qed

subsection \<open>Properties\<close>


end
