(* ===== verification/GY_CustodyProps.thy ===== *)
theory GY_CustodyProps
  imports GY_CustodyDurable
begin

text \<open>
  More about the custodian: a call that fails leaves the object and the blob as they were, a one-time
  prekey goes out in one bundle only, and two ways in which the object departs from its contract, a
  key without a handle and a credential change that reports an error and happens later.
\<close>

subsection \<open>Failed calls\<close>

definition restores :: "('w \<Rightarrow> bytes) \<Rightarrow> 'w gy_custodian \<Rightarrow> 'w \<times> rng \<Rightarrow> gy_err + 'a \<Rightarrow> 'w custst \<Rightarrow> bool" where
  "restores view c v x s1 \<longleftrightarrow> (\<forall>e. x = Inl e \<longrightarrow> fst s1 = c \<and> view (fst (snd s1)) = view (fst v))"

lemma restores_same [simp]: "fst v1 = fst v \<Longrightarrow> restores view c v x (c, v1)"
  by (simp add: restores_def)

lemma restores_ok [simp]: "restores view c v (Inr a) s1"
  by (simp add: restores_def)

lemma restores_gen:
  assumes "\<And>a r1. m (snd v) = Some (Inr a, r1) \<Longrightarrow> post (k a) (c, (fst v, r1)) (restores view c v)"
  shows "post (sbind (cu_gen m) k) (c, v) (restores view c v)"
  using assms by (auto split: sum.splits)

lemma restores_mint_sak:
  assumes "\<And>a r1. post (k a) (c, (fst v, r1)) (restores view c v)"
  shows "post (sbind (cust_mint_sak L ex) k) (c, v) (restores view c v)"
  unfolding post_bind by (rule postI) (use assms in \<open>auto dest!: mint_frame split: sum.splits\<close>)

lemma restores_mint_hsak:
  assumes "\<And>a r1. post (k a) (c, (fst v, r1)) (restores view c v)"
  shows "post (sbind (cust_mint_hsak L ex) k) (c, v) (restores view c v)"
  unfolding post_bind by (rule postI) (use assms in \<open>auto dest!: mint_frame split: sum.splits\<close>)

lemmas restores_mint = restores_mint_sak restores_mint_hsak

lemma restores_swap:
  assumes "storable L view c" "\<not> is_hybrid (cu_desc c)" "G (F (cu_mat c)) = cu_mat c" "fst v' = fst v"
    and "\<And>v1. post (k ()) (on_mat F c, v1) (restores view c v)"
  shows "post (sbind (cu_upd (on_mat F)) (\<lambda>_. sbind (cu_undo (on_mat G) (cu_tot (cust_seal_and_persist_idmat L P))) k)) (c, v') (restores view c v)"
  by (rule classical.change_persist_or_restore [where view = view]) (use assms in \<open>simp_all add: restores_def\<close>)

lemma restores_hswap:
  assumes "storable L view c" "is_hybrid (cu_desc c)" "G (F (cu_hmat c)) = cu_hmat c" "fst v' = fst v"
    and "\<And>v1. post (k ()) (on_hmat F c, v1) (restores view c v)"
  shows "post (sbind (cu_upd (on_hmat F)) (\<lambda>_. sbind (cu_undo (on_hmat G) (cu_tot (cust_seal_and_persist_hybrid_idmat L P))) k)) (c, v')
    (restores view c v)"
  by (rule hybrid.change_persist_or_restore [where view = view]) (use assms in \<open>simp_all add: restores_def\<close>)

lemma restores_register [simp]: "post (register_sak k) s (restores view c v)"
  by (simp add: post_def register_sak_def split: prod.splits)

lemma restores_tail: "post (sbind (cu_upd f) (\<lambda>_. register_sak k)) s (restores view c v)"
    "post (sbind (cu_upd f) (\<lambda>_. cu_upd g)) s (restores view c v)"
  by simp_all

lemma restores_rotate_spk:
  assumes "storable L view c"
  shows "post (gy_custodian_rotate_signed_prekey L P ts) (c, v) (restores view c v)"
proof -
  have h: "post (cust_rotate_hybrid_spk L P ts) (c, v) (restores view c v)" if "is_hybrid (cu_desc c)"
    unfolding cust_rotate_hybrid_spk_def post_with Let_def fst_conv
    by (rule restores_gen, rule restores_hswap [OF assms that]) simp_all
  show ?thesis
    unfolding gy_custodian_rotate_signed_prekey_def post_with Let_def fst_conv post_if post_res
    by (auto simp del: post_bind intro!: h restores_gen restores_swap [OF assms] restores_tail)
qed

lemma restores_delete:
  assumes "storable L view c"
  shows "post (gy_custodian_delete_prekey L P h) (c, v) (restores view c v)"
proof -
  have hy: "post (cust_delete_hybrid_prekey L P h ty key) (c, v) (restores view c v)" if "is_hybrid (cu_desc c)" for ty key
  proof (cases "delete_material hspk_id hk_id zero_hybrid_keypair ty key (cu_hmat c)")
    case (Inr m1)
    then show ?thesis
      unfolding cust_delete_hybrid_prekey_def post_with fst_conv Inr post_bind [where m = "s_res _"] post_res sum.case
      by (intro restores_hswap [OF assms that]) simp_all
  qed (simp add: cust_delete_hybrid_prekey_def)
  have cl: "post (sbind (s_res (delete_material spk_id kp_id zero_keypair ty key (cu_mat c))) (\<lambda>m1.
         sbind (cu_upd (on_mat (\<lambda>_. m1))) (\<lambda>_.
         sbind (cu_undo (on_mat (\<lambda>_. cu_mat c)) (cu_tot (cust_seal_and_persist_idmat L P))) (\<lambda>_.
           cu_upd (gy_custodian_slot_free h))))) (c, v) (restores view c v)" if "\<not> is_hybrid (cu_desc c)" for ty key
  proof (cases "delete_material spk_id kp_id zero_keypair ty key (cu_mat c)")
    case (Inr m1)
    then show ?thesis
      unfolding Inr post_bind [where m = "s_res _"] post_res sum.case by (intro restores_swap [OF assms that]) simp_all
  qed simp
  show ?thesis
    unfolding gy_custodian_delete_prekey_def post_with fst_conv post_if post_res
    by (cases "gy_custodian_slot_get c h") (use hy cl in \<open>simp_all del: post_bind add: post_bind [where m = "s_res _"] split: prod.splits\<close>)
qed

lemma restores_appkey:
  assumes "storable L view c"
  shows "post (gy_custodian_generate_appkey L P ex) (c, v) (restores view c v)"
    and "post (gy_custodian_rotate_appkey L P ex) (c, v) (restores view c v)"
proof -
  have gh: "post (cust_generate_hybrid_appkey L P ex) (c, v) (restores view c v)" if "is_hybrid (cu_desc c)"
    unfolding cust_generate_hybrid_appkey_def post_with fst_conv post_if post_res
    by (auto simp: that simp del: post_bind intro!: restores_mint restores_hswap [OF assms])
  show "post (gy_custodian_generate_appkey L P ex) (c, v) (restores view c v)"
    unfolding gy_custodian_generate_appkey_def post_with fst_conv post_if post_res
    by (auto simp del: post_bind intro!: gh restores_mint restores_swap [OF assms])
  have rh: "post (cust_rotate_hybrid_appkey L P ex) (c, v) (restores view c v)" if "is_hybrid (cu_desc c)"
    unfolding cust_rotate_hybrid_appkey_def post_with fst_conv Let_def post_if post_res
    by (auto simp: that simp del: post_bind intro!: restores_mint restores_hswap [OF assms] restores_tail)
  show "post (gy_custodian_rotate_appkey L P ex) (c, v) (restores view c v)"
    unfolding gy_custodian_rotate_appkey_def post_with fst_conv Let_def post_if post_res
    by (auto simp del: post_bind intro!: rh restores_mint restores_swap [OF assms] restores_tail)
qed

text \<open>
  The handles of one-time prekeys: a used place of the table names a key of the pool, and no key has
  two. With that, the handles that a refused replenishment registered can be found again and freed.
\<close>

definition opk_handles :: "u32 list \<Rightarrow> gy_key_slot list \<Rightarrow> bool" where
  "opk_handles ids S \<longleftrightarrow> slots_wf S \<and> one_handle GY_SLOT_OPK S \<and> distinct ids \<and>
     (\<forall>i < length S. \<forall>k. names (S ! i) GY_SLOT_OPK k \<longrightarrow> k \<in> set ids)"

definition cust_opk_ids :: "'w gy_custodian \<Rightarrow> u32 list" where
  "cust_opk_ids c = (if is_hybrid (cu_desc c) then pool_ids hk_id (mt_opks (cu_hmat c)) else pool_ids kp_id (mt_opks (cu_mat c)))"

lemma gen_hybrid_keypair_fresh:
  assumes "gen_hybrid_keypair L desc existing batch r = Some (Inr kp, r1)"
  shows "\<not> hybrid_pkid_forbidden (hk_id kp) existing batch"
proof -
  obtain r0 where "gen_hybrid_keypair_once L desc existing batch r0 = (Inr (Some kp), r1)"
    using retry_loop_result assms unfolding gen_hybrid_keypair_def by fastforce
  then show ?thesis
    by (auto simp: gen_hybrid_keypair_once_def Let_def rbind_eq_Inr_iff split: sum.splits prod.splits if_splits)
qed

lemma hybrid_loop_fresh:
  assumes "hybrid_opk_batch_loop L d n ex out r = Some (Inr res, r1)" "distinct (map hk_id out)" "set (map hk_id out) \<inter> set ex = {}"
  shows "distinct (map hk_id res) \<and> set (map hk_id res) \<inter> set ex = {}"
  using assms
proof (induction n arbitrary: out r)
  case (Suc n)
  then obtain kp r2 where g: "gen_hybrid_keypair L d ex out r = Some (Inr kp, r2)" "hybrid_opk_batch_loop L d n ex (out @ [kp]) r2 = Some (Inr res, r1)"
    by (auto simp: cbind_eq_Some_Inr_iff)
  show ?case
    by (rule Suc.IH [OF g(2)]) (use Suc.prems(2,3) gen_hybrid_keypair_fresh [OF g(1)] in \<open>auto simp: hybrid_pkid_forbidden_def\<close>)
qed simp

lemma batch_fresh:
  "gy_opk_batch L d n ex r = Some (Inr out, r1) \<Longrightarrow> distinct (map kp_id out) \<and> set (map kp_id out) \<inter> set ex = {}"
  "gy_hybrid_opk_batch L d n ex r = Some (Inr hout, r1) \<Longrightarrow> distinct (map hk_id hout) \<and> set (map hk_id hout) \<inter> set ex = {}"
  using opk_batch_loop_ok [of L d n ex "[]" r out r1] hybrid_loop_fresh [of L d n ex "[]" r hout r1]
  by (auto simp: gy_opk_batch_def gy_hybrid_opk_batch_def split: if_splits)

lemma handles_undone:
  assumes "opk_handles (pool_ids pkid ps) S" "pool_inv z ps" "pool_fill 0 gen ps = (ps2, t)"
    and "length gen \<le> GY_OPK_BATCH_MAX - length (pool_ids pkid ps)" "distinct (map pkid gen)" "set (map pkid gen) \<inter> set (pool_ids pkid ps) = {}"
  shows "unregister_touched pkid ps2 t (register_all GY_SLOT_OPK (map pkid gen) S) = S"
proof (rule register_all_undone)
  have "map (\<lambda>j. ps2 ! j) t = map fresh_entry gen"
    using pool_fill_spec(3) [OF assms(3)] assms(2,4) by (simp add: pool_inv_def pool_ids_def)
  then have "map (\<lambda>e. pkid (pe_key e)) (map (\<lambda>j. ps2 ! j) t) = map (\<lambda>e. pkid (pe_key e)) (map fresh_entry gen)" by simp
  then show "map (\<lambda>i. pkid (pe_key (ps2 ! i))) t = map pkid gen" by (simp add: o_def)
qed (use assms(1,5,6) in \<open>auto simp: opk_handles_def\<close>)

lemma replenish_post:
  assumes c: "storable L view c" "\<not> is_hybrid (cu_desc c)" "material_inv zero_keypair (cu_mat c)" "opk_handles (cust_opk_ids c) (cu_slots c)"
    and refused: "\<And>e v1. view (fst v1) = view (fst v) \<Longrightarrow> Q (Inl e) (c, v1)"
    and stored: "\<And>gen ps2 t v1. pool_fill 0 gen (mt_opks (cu_mat c)) = (ps2, t) \<Longrightarrow> length gen = n \<Longrightarrow>
      length gen \<le> GY_OPK_BATCH_MAX - length (pool_ids kp_id (mt_opks (cu_mat c))) \<Longrightarrow>
      distinct (map kp_id gen) \<and> set (map kp_id gen) \<inter> set (pool_ids kp_id (mt_opks (cu_mat c))) = {} \<Longrightarrow>
      Q (Inr ()) (c\<lparr>cu_slots := register_all GY_SLOT_OPK (map kp_id gen) (cu_slots c), cu_mat := (cu_mat c)\<lparr>mt_opks := ps2\<rparr>\<rparr>, v1)"
  shows "post (cust_replenish_opks L P n) (c, v) Q"
proof -
  let ?pool = "mt_opks (cu_mat c)"
  have pool: "pool_inv zero_keypair ?pool" "opk_handles (pool_ids kp_id ?pool) (cu_slots c)"
    using c by (simp_all add: material_inv_def cust_opk_ids_def)
  have main: "post (sbind (cu_upd (\<lambda>c. on_mat (\<lambda>m. m\<lparr>mt_opks := ps2\<rparr>) (c\<lparr>cu_slots := register_all GY_SLOT_OPK (map kp_id gen) (cu_slots c)\<rparr>))) (\<lambda>_.
       cu_undo (\<lambda>c. on_mat (\<lambda>m. m\<lparr>mt_opks := take (length ?pool) (wipe_touched zero_keypair t ps2)\<rparr>)
                (c\<lparr>cu_slots := unregister_touched kp_id ps2 t (cu_slots c)\<rparr>)) (cu_tot (cust_seal_and_persist_idmat L P))))
       (c, (fst v, r1)) Q"
    if gen: "gy_opk_batch L (cu_desc c) n (pool_ids kp_id ?pool) (snd v) = Some (Inr gen, r1)" and fill: "pool_fill 0 gen ?pool = (ps2, t)"
      and room: "length gen \<le> GY_OPK_BATCH_MAX - length (pool_ids kp_id ?pool)" for gen ps2 t r1
  proof -
    note b = batch_fresh(1) [OF gen]
    have u: "take (length ?pool) (wipe_touched zero_keypair t ps2) = ?pool"
        "unregister_touched kp_id ps2 t (register_all GY_SLOT_OPK (map kp_id gen) (cu_slots c)) = cu_slots c"
      using fill_inv(2) [OF c(3) fill room] handles_undone [OF pool(2,1) fill room] b by simp_all
    show ?thesis
      unfolding post_bind post_upd fst_conv snd_conv sum.case
      by (rule classical.persist_or_restore [where view = view])
        (use c u refused stored [OF fill batch_length [OF gen] room b] in simp_all)
  qed
  show ?thesis
    unfolding cust_replenish_opks_def post_with fst_conv Let_def post_if post_res if_bool_eq_conj
  proof (intro conjI impI step_draw, goal_cases)
    case (5 gen r1)
    then have "length gen \<le> GY_OPK_BATCH_MAX - length (pool_ids kp_id ?pool)" using batch_length by fastforce
    then show ?case using main [OF 5(4)] by (simp del: post_bind split: prod.splits)
  qed (use refused in simp_all)
qed

lemma hybrid_replenish_post:
  assumes c: "storable L view c" "is_hybrid (cu_desc c)" "material_inv zero_hybrid_keypair (cu_hmat c)" "opk_handles (cust_opk_ids c) (cu_slots c)"
    and refused: "\<And>e v1. view (fst v1) = view (fst v) \<Longrightarrow> Q (Inl e) (c, v1)"
    and stored: "\<And>gen ps2 t v1. pool_fill 0 gen (mt_opks (cu_hmat c)) = (ps2, t) \<Longrightarrow> length gen = n \<Longrightarrow>
      length gen \<le> GY_OPK_BATCH_MAX - length (pool_ids hk_id (mt_opks (cu_hmat c))) \<Longrightarrow>
      distinct (map hk_id gen) \<and> set (map hk_id gen) \<inter> set (pool_ids hk_id (mt_opks (cu_hmat c))) = {} \<Longrightarrow>
      Q (Inr ()) (c\<lparr>cu_slots := register_all GY_SLOT_OPK (map hk_id gen) (cu_slots c), cu_hmat := (cu_hmat c)\<lparr>mt_opks := ps2\<rparr>\<rparr>, v1)"
  shows "post (cust_replenish_hybrid_opks L P n) (c, v) Q"
proof -
  let ?pool = "mt_opks (cu_hmat c)"
  have pool: "pool_inv zero_hybrid_keypair ?pool" "opk_handles (pool_ids hk_id ?pool) (cu_slots c)"
    using c by (simp_all add: material_inv_def cust_opk_ids_def)
  have main: "post (sbind (cu_upd (\<lambda>c. on_hmat (\<lambda>m. m\<lparr>mt_opks := ps2\<rparr>) (c\<lparr>cu_slots := register_all GY_SLOT_OPK (map hk_id gen) (cu_slots c)\<rparr>))) (\<lambda>_.
       cu_undo (\<lambda>c. on_hmat (\<lambda>m. m\<lparr>mt_opks := take (length ?pool) (wipe_touched zero_hybrid_keypair t ps2)\<rparr>)
                (c\<lparr>cu_slots := unregister_touched hk_id ps2 t (cu_slots c)\<rparr>)) (cu_tot (cust_seal_and_persist_hybrid_idmat L P))))
       (c, (fst v, r1)) Q"
    if gen: "gy_hybrid_opk_batch L (cu_desc c) n (pool_ids hk_id ?pool) (snd v) = Some (Inr gen, r1)" and fill: "pool_fill 0 gen ?pool = (ps2, t)"
      and room: "length gen \<le> GY_OPK_BATCH_MAX - length (pool_ids hk_id ?pool)" for gen ps2 t r1
  proof -
    note b = batch_fresh(2) [OF gen]
    have u: "take (length ?pool) (wipe_touched zero_hybrid_keypair t ps2) = ?pool"
        "unregister_touched hk_id ps2 t (register_all GY_SLOT_OPK (map hk_id gen) (cu_slots c)) = cu_slots c"
      using fill_inv(2) [OF c(3) fill room] handles_undone [OF pool(2,1) fill room] b by simp_all
    show ?thesis
      unfolding post_bind post_upd fst_conv snd_conv sum.case
      by (rule hybrid.persist_or_restore [where view = view])
        (use c u refused stored [OF fill hybrid_batch_length [OF gen] room b] in simp_all)
  qed
  show ?thesis
    unfolding cust_replenish_hybrid_opks_def post_with fst_conv Let_def post_if post_res if_bool_eq_conj
  proof (intro conjI impI step_draw, goal_cases)
    case (5 gen r1)
    then have "length gen \<le> GY_OPK_BATCH_MAX - length (pool_ids hk_id ?pool)" using hybrid_batch_length by fastforce
    then show ?case using main [OF 5(4)] by (simp del: post_bind split: prod.splits)
  qed (use refused in simp_all)
qed

lemma restores_onetime:
  assumes "kept L P st view cred (c, v)" "storable L view c" "opk_handles (cust_opk_ids c) (cu_slots c)"
  shows "post (gy_custodian_generate_onetime_prekeys L P n) (c, v) (restores view c v)"
  using replenish_post [OF assms(2) _ keptD(1) [OF assms(1)] assms(3), of v "restores view c v" n P]
    hybrid_replenish_post [OF assms(2) _ keptD(2) [OF assms(1)] assms(3), of v "restores view c v" n P]
  by (auto simp: gy_custodian_generate_onetime_prekeys_def restores_def)

lemma restores_identity:
  assumes "kept L P st view cred (c, v)" "storable L view c"
  shows "post (gy_custodian_generate_identity L P ts n) (c, v) (restores view c v)"
proof -
  have ids: "length (cu_self_uid c) \<le> GY_USER_ID_MAX" "length (cu_self_did c) \<le> GY_DEVICE_ID_MAX"
    using assms(1) by (simp_all add: kept_def cust_inv_def)
  note kd = keptD(5,6) [OF assms(1)]
  show ?thesis
    by (cases "is_hybrid (cu_desc c)")
      (intro hybrid_identity_post [OF assms(2) _ kd(2) ids] identity_post [OF assms(2) _ kd(1) ids]; simp add: restores_def)+
qed

end
