(* ===== verification/GY_CustodyHandles.thy ===== *)
theory GY_CustodyHandles
  imports GY_CustodyProps
begin

text \<open>
  The handles of one-time prekeys through the life of a custodian: the table never names a one-time
  prekey that is not in the pool, never names one twice, and the identifiers of the pool stay
  different. From it follow that failed calls undo everything and that bundles never share a one-time
  prekey.
\<close>

subsection \<open>The table\<close>

lemma handles_free: "opk_handles ids S \<Longrightarrow> opk_handles ids (slot_free h S)"
  unfolding opk_handles_def using free_wf [of S h] free_one [of GY_SLOT_OPK S h] free_sub [of _ S h]
  by (metis free_len names_zero(1))

lemma handles_register:
  assumes "opk_handles ids S" "ty \<noteq> GY_SLOT_OPK"
  shows "opk_handles ids (snd (cust_slot_register ty k S))"
proof -
  have wf: "slots_wf S" "one_handle GY_SLOT_OPK S" using assms(1) by (simp_all add: opk_handles_def)
  have "names (snd (cust_slot_register ty k S) ! i) GY_SLOT_OPK x \<Longrightarrow> i < length S \<Longrightarrow> names (S ! i) GY_SLOT_OPK x" for i x
    using register_nth [OF wf(1), of i ty k] assms(2) by (auto simp: names_def)
  then show ?thesis using assms register_wf [OF wf(1)] register_one [OF wf, of ty k] by (auto simp: opk_handles_def register_len)
qed

lemma handles_register_all: "opk_handles ids S \<Longrightarrow> ty \<noteq> GY_SLOT_OPK \<Longrightarrow> opk_handles ids (register_all ty ks S)"
  by (induction ks arbitrary: S) (simp_all add: handles_register)

lemma handles_grow:
  assumes "opk_handles ids S" "distinct ks" "set ks \<inter> set ids = {}" "distinct ids1" "set ids1 = set ids \<union> set ks"
  shows "opk_handles ids1 (register_all GY_SLOT_OPK ks S)"
proof -
  have wf: "slots_wf S" "one_handle GY_SLOT_OPK S" and n: "\<forall>i < length S. \<forall>k. names (S ! i) GY_SLOT_OPK k \<longrightarrow> k \<in> set ids"
    using assms(1) by (simp_all add: opk_handles_def)
  have "k \<in> set ids1" if "i < length S" "names (register_all GY_SLOT_OPK ks S ! i) GY_SLOT_OPK k" for i k
    using register_all_nth [OF wf(1) that(1), of GY_SLOT_OPK ks] n that assms(5) by (auto simp: names_def)
  moreover have "\<forall>i < length S. \<forall>k \<in> set ks. \<not> names (S ! i) GY_SLOT_OPK k" using n assms(3) by blast
  ultimately show ?thesis
    using register_all_wf [OF wf(1)] register_all_one [OF wf assms(2)] assms(4) by (simp add: opk_handles_def)
qed

lemma handles_drop:
  assumes "opk_handles ids S" "distinct ids1" "set ids1 = set ids - {k}"
  shows "opk_handles ids1 (slot_free (cust_slot_find GY_SLOT_OPK k S) S)"
proof -
  have wf: "slots_wf S" "one_handle GY_SLOT_OPK S" and n: "\<forall>i < length S. \<forall>k. names (S ! i) GY_SLOT_OPK k \<longrightarrow> k \<in> set ids"
    using assms(1) by (simp_all add: opk_handles_def)
  have "x \<in> set ids1" if "i < length S" "names (slot_free (cust_slot_find GY_SLOT_OPK k S) S ! i) GY_SLOT_OPK x" for i x
    using free_find_nth [OF wf that(1), of k] n that assms(3) by (auto simp: names_def split: if_splits)
  then show ?thesis using free_wf [OF wf(1)] free_one [OF wf(2)] assms(2) by (simp add: opk_handles_def)
qed

lemma handles_drop_at:
  assumes "opk_handles ids (cu_slots c)" "gy_custodian_slot_get c h = Inr (GY_SLOT_OPK, k)" "distinct ids1" "set ids1 = set ids - {k}"
  shows "opk_handles ids1 (slot_free h (cu_slots c))"
proof -
  let ?S = "cu_slots c" and ?j = "unat h - 1"
  have wf: "slots_wf ?S" "one_handle GY_SLOT_OPK ?S" and n: "\<forall>i < length ?S. \<forall>k. names (?S ! i) GY_SLOT_OPK k \<longrightarrow> k \<in> set ids"
    using assms(1) by (simp_all add: opk_handles_def)
  have j: "names (?S ! ?j) GY_SLOT_OPK k" "slot_free h ?S = ?S[?j := zero_slot]" "?j < length ?S"
    using assms(2) wf(1)
    by (auto simp: gy_custodian_slot_get_def Let_def names_def slot_free_def slots_wf_def GY_KEY_HANDLE_INVALID_def unat_eq_zero split: if_splits)
      (simp add: GY_CUSTODIAN_MAX_SLOTS_def)
  have "x \<in> set ids1" if x: "i < length ?S" "names (slot_free h ?S ! i) GY_SLOT_OPK x" for i x
  proof -
    have "i \<noteq> ?j" "names (?S ! i) GY_SLOT_OPK x" using x j(2,3) by (auto simp: nth_list_update split: if_splits)
    moreover then have "x \<noteq> k" using wf(2) j(1,3) x(1) unfolding one_handle_def by blast
    ultimately show ?thesis using n x(1) assms(4) by blast
  qed
  then show ?thesis using free_wf [OF wf(1)] free_one [OF wf(2)] assms(3) by (simp add: opk_handles_def)
qed

subsection \<open>The identifiers of the pool\<close>

lemma pool_ids_set: "set (pool_ids pkid ps) = {pkid (pe_key (ps ! i)) |i. i < length ps \<and> pe_used (ps ! i)}"
  by (auto simp: pool_ids_def in_set_conv_nth image_iff)

lemma pool_ids_distinct:
  "distinct (pool_ids pkid ps) \<longleftrightarrow>
     (\<forall>i < length ps. \<forall>j < length ps. pe_used (ps ! i) \<and> pe_used (ps ! j) \<and> pkid (pe_key (ps ! i)) = pkid (pe_key (ps ! j)) \<longrightarrow> i = j)"
proof (induction ps)
  case (Cons e ps)
  have c: "pool_ids pkid (e # ps) = (if pe_used e then [pkid (pe_key e)] else []) @ pool_ids pkid ps" by (simp add: pool_ids_def)
  show ?case
  proof (cases "pe_used e")
    case True
    then have "distinct (pool_ids pkid (e # ps)) \<longleftrightarrow>
        (\<forall>i < length ps. pe_used (ps ! i) \<longrightarrow> pkid (pe_key (ps ! i)) \<noteq> pkid (pe_key e)) \<and> distinct (pool_ids pkid ps)"
      unfolding c by (auto simp: pool_ids_set)
    then show ?thesis using Cons.IH True by (auto simp: All_less_Suc2)
  next
    case False
    then show ?thesis using Cons.IH unfolding c by (auto simp: All_less_Suc2)
  qed
qed (simp add: pool_ids_def)

lemma ids_wipe:
  assumes "pool_find pkid k ps = Some i" "distinct (pool_ids pkid ps)"
  shows "distinct (pool_ids pkid (ps[i := zero_entry z])) \<and> set (pool_ids pkid (ps[i := zero_entry z])) = set (pool_ids pkid ps) - {k}"
proof -
  have i: "i < length ps" "pe_used (ps ! i)" "pkid (pe_key (ps ! i)) = k"
    using assms(1) by (auto simp: pool_find_def dest!: first_index_SomeD)
  have o: "j \<noteq> i" "ps[i := zero_entry z] ! j = ps ! j" if "pe_used (ps[i := zero_entry z] ! j)" "j < length ps" for j
    using that i(1) by (auto simp: nth_list_update split: if_splits)
  note d = assms(2) [unfolded pool_ids_distinct, rule_format]
  have "distinct (pool_ids pkid (ps[i := zero_entry z]))"
    unfolding pool_ids_distinct using o d by (metis length_list_update)
  moreover have "set (pool_ids pkid (ps[i := zero_entry z])) = set (pool_ids pkid ps) - {k}"
  proof (intro equalityI subsetI)
    fix x assume "x \<in> set (pool_ids pkid (ps[i := zero_entry z]))"
    then obtain j where j: "j < length ps" "pe_used (ps[i := zero_entry z] ! j)" "x = pkid (pe_key (ps[i := zero_entry z] ! j))"
      by (auto simp: pool_ids_set)
    then have "j \<noteq> i" "pe_used (ps ! j)" "x = pkid (pe_key (ps ! j))" using o by auto
    then show "x \<in> set (pool_ids pkid ps) - {k}" using d [OF j(1) i(1)] i j(1) by (auto simp: pool_ids_set)
  next
    fix x assume "x \<in> set (pool_ids pkid ps) - {k}"
    then obtain j where j: "j < length ps" "pe_used (ps ! j)" "x = pkid (pe_key (ps ! j))" "x \<noteq> k" by (auto simp: pool_ids_set)
    then have "ps[i := zero_entry z] ! j = ps ! j" using i(3) by (metis nth_list_update_neq)
    then show "x \<in> set (pool_ids pkid (ps[i := zero_entry z]))" using j by (auto simp: pool_ids_set intro!: exI [of _ j])
  qed
  ultimately show ?thesis ..
qed

lemma ids_fill:
  assumes "pool_fill 0 gen ps = (ps2, t)" "pool_inv z ps" "length gen \<le> GY_OPK_BATCH_MAX - length (pool_ids pkid ps)"
    and "distinct (pool_ids pkid ps)" "distinct (map pkid gen)" "set (map pkid gen) \<inter> set (pool_ids pkid ps) = {}"
  shows "distinct (pool_ids pkid ps2) \<and> set (pool_ids pkid ps2) = set (pool_ids pkid ps) \<union> set (map pkid gen)"
proof -
  let ?id = "\<lambda>j. pkid (pe_key (ps2 ! j))"
  have pre: "0 \<le> length ps" "length ps \<le> GY_OPK_BATCH_MAX" "\<forall>j < 0. pe_used (ps ! j)"
      "length gen \<le> GY_OPK_BATCH_MAX - length (filter pe_used ps)"
    using assms(2,3) by (simp_all add: pool_inv_def pool_ids_def)
  note s = pool_fill_spec [OF assms(1) pre]
  have sp: "length ps \<le> length ps2" "map (\<lambda>j. ps2 ! j) t = map fresh_entry gen"
      "\<forall>j \<in> set t. j < length ps2 \<and> (j < length ps \<longrightarrow> \<not> pe_used (ps ! j))"
      "\<forall>j < length ps2. j \<notin> set t \<longrightarrow> j < length ps \<and> ps2 ! j = ps ! j" "distinct t"
    using s by blast+
  have ids: "map ?id t = map pkid gen"
    using arg_cong [OF sp(2), of "map (\<lambda>e. pkid (pe_key e))"] by (simp add: o_def)
  have used: "pe_used (ps2 ! j)" if "j \<in> set t" for j
  proof -
    have "ps2 ! j \<in> set (map fresh_entry gen)" using that unfolding sp(2) [symmetric] by simp
    then show ?thesis by auto
  qed
  have new: "?id j \<in> set (map pkid gen)" if "j \<in> set t" for j using that unfolding ids [symmetric] by simp
  have old: "?id j \<in> set (pool_ids pkid ps)" "j < length ps" "ps2 ! j = ps ! j" if "j < length ps2" "j \<notin> set t" "pe_used (ps2 ! j)" for j
    using sp(4) that by (auto simp: pool_ids_set)
  have inj: "inj_on ?id (set t)" using assms(5) unfolding ids [symmetric] by (simp add: distinct_map)
  have "distinct (pool_ids pkid ps2)"
    unfolding pool_ids_distinct
  proof (intro allI impI, elim conjE)
    fix i j assume ij: "i < length ps2" "j < length ps2" "pe_used (ps2 ! i)" "pe_used (ps2 ! j)" "?id i = ?id j"
    show "i = j"
    proof (cases "i \<in> set t"; cases "j \<in> set t")
      assume "i \<in> set t" "j \<in> set t"
      then show ?thesis using inj ij(5) by (simp add: inj_on_def)
    next
      assume "i \<in> set t" "j \<notin> set t"
      then show ?thesis using new [of i] old(1) [of j] ij assms(6) by auto
    next
      assume "i \<notin> set t" "j \<in> set t"
      then show ?thesis using new [of j] old(1) [of i] ij assms(6) by auto
    next
      assume "i \<notin> set t" "j \<notin> set t"
      then show ?thesis using old [of i] old [of j] ij assms(4) [unfolded pool_ids_distinct] by metis
    qed
  qed
  moreover have "set (pool_ids pkid ps2) = set (pool_ids pkid ps) \<union> set (map pkid gen)"
  proof (intro equalityI subsetI)
    fix x assume "x \<in> set (pool_ids pkid ps2)"
    then obtain j where "j < length ps2" "pe_used (ps2 ! j)" "x = ?id j" by (auto simp: pool_ids_set)
    then show "x \<in> set (pool_ids pkid ps) \<union> set (map pkid gen)" using new old(1) by blast
  next
    fix x assume "x \<in> set (pool_ids pkid ps) \<union> set (map pkid gen)"
    then consider j where "j < length ps" "pe_used (ps ! j)" "x = pkid (pe_key (ps ! j))" | j where "j \<in> set t" "x = ?id j"
      unfolding ids [symmetric] by (auto simp: pool_ids_set)
    then show "x \<in> set (pool_ids pkid ps2)"
    proof cases
      case (1 j)
      then have "ps2 ! j = ps ! j" "j < length ps2" using sp(1,3,4) by auto
      then show ?thesis using 1 by (auto simp: pool_ids_set intro!: exI [of _ j])
    next
      case (2 j)
      then show ?thesis using used [of j] sp(3) by (auto simp: pool_ids_set)
    qed
  qed
  ultimately show ?thesis ..
qed

lemma ids_flag: "pool_ids pkid (ps[i := (ps ! i)\<lparr>pe_consumed := b\<rparr>]) = pool_ids pkid ps"
  unfolding pool_ids_def by (induction ps arbitrary: i) (auto split: nat.splits)

subsection \<open>The calls\<close>

definition handled :: "'w gy_custodian \<Rightarrow> bool" where
  "handled c \<longleftrightarrow> opk_handles (cust_opk_ids c) (cu_slots c)"

abbreviation handled_post :: "gy_err + 'a \<Rightarrow> 'w custst \<Rightarrow> bool" where "handled_post \<equiv> \<lambda>x s1. handled (fst s1)"

lemma handled_slots [simp]: "cust_opk_ids (c\<lparr>cu_slots := S\<rparr>) = cust_opk_ids c" "cust_opk_ids (c\<lparr>cu_have_identity := b\<rparr>) = cust_opk_ids c"
  by (simp_all add: cust_opk_ids_def)

lemma handled_free: "handled c \<Longrightarrow> handled (gy_custodian_slot_free h c)"
  by (simp add: handled_def gy_custodian_slot_free_def handles_free)

lemma slot_types [simp]: "GY_SLOT_SPK \<noteq> GY_SLOT_OPK" "GY_SLOT_SAK \<noteq> GY_SLOT_OPK"
  by (simp_all add: slot_type_defs)

lemma handled_register: "handled c \<Longrightarrow> ty \<noteq> GY_SLOT_OPK \<Longrightarrow> handled (c\<lparr>cu_slots := snd (cust_slot_register ty k (cu_slots c))\<rparr>)"
  by (simp add: handled_def handles_register)

lemma handled_register_sak: "handled c \<Longrightarrow> post (register_sak k) (c, v) handled_post"
  using handled_register [of c GY_SLOT_SAK k] by (auto simp: post_def register_sak_def split: prod.splits)

lemma handled_tail: "handled c \<Longrightarrow> post (sbind (cu_upd (gy_custodian_slot_free h)) (\<lambda>_. register_sak k)) (c, v) handled_post"
    "handled c \<Longrightarrow> post (sbind (cu_upd (gy_custodian_slot_free h))
       (\<lambda>_. cu_upd (\<lambda>c. c\<lparr>cu_slots := snd (cust_slot_register GY_SLOT_SPK k (cu_slots c))\<rparr>))) (c, v) handled_post"
  by (simp_all add: handled_register_sak handled_free handled_register)

lemma handled_swap:
  assumes "handled c" "storable L view c" "\<not> is_hybrid (cu_desc c)" "G (F (cu_mat c)) = cu_mat c"
    and "\<And>v1. post (k ()) (on_mat F c, v1) handled_post"
  shows "post (sbind (cu_upd (on_mat F)) (\<lambda>_. sbind (cu_undo (on_mat G) (cu_tot (cust_seal_and_persist_idmat L P))) k)) (c, v) handled_post"
  by (rule classical.change_persist_or_restore [where view = view]) (use assms in simp_all)

lemma handled_hswap:
  assumes "handled c" "storable L view c" "is_hybrid (cu_desc c)" "G (F (cu_hmat c)) = cu_hmat c"
    and "\<And>v1. post (k ()) (on_hmat F c, v1) handled_post"
  shows "post (sbind (cu_upd (on_hmat F)) (\<lambda>_. sbind (cu_undo (on_hmat G) (cu_tot (cust_seal_and_persist_hybrid_idmat L P))) k)) (c, v) handled_post"
  by (rule hybrid.change_persist_or_restore [where view = view]) (use assms in simp_all)

lemma handled_mint_sak:
  assumes "handled c" "\<And>a r1. post (k a) (c, (fst v, r1)) handled_post"
  shows "post (sbind (cust_mint_sak L ex) k) (c, v) handled_post"
  unfolding post_bind by (rule postI) (use assms in \<open>auto dest!: mint_frame split: sum.splits\<close>)

lemma handled_mint_hsak:
  assumes "handled c" "\<And>a r1. post (k a) (c, (fst v, r1)) handled_post"
  shows "post (sbind (cust_mint_hsak L ex) k) (c, v) handled_post"
  unfolding post_bind by (rule postI) (use assms in \<open>auto dest!: mint_frame split: sum.splits\<close>)

lemma handled_mat:
  "mt_opks m = mt_opks (cu_mat c) \<Longrightarrow> handled (c\<lparr>cu_mat := m\<rparr>) = handled c"
  "mt_opks h = mt_opks (cu_hmat c) \<Longrightarrow> handled (c\<lparr>cu_hmat := h\<rparr>) = handled c"
  by (simp_all add: handled_def cust_opk_ids_def)

lemma handled_rotate_spk:
  assumes "handled c" "storable L view c"
  shows "post (gy_custodian_rotate_signed_prekey L P ts) (c, v) handled_post"
proof -
  have h: "post (cust_rotate_hybrid_spk L P ts) (c, v) handled_post" if "is_hybrid (cu_desc c)"
    unfolding cust_rotate_hybrid_spk_def post_with Let_def fst_conv
    by (rule step_draw, use assms(1) in simp, rule handled_hswap [OF assms that]) (simp, rule handled_tail, simp add: handled_mat assms(1))
  show ?thesis
    unfolding gy_custodian_rotate_signed_prekey_def post_with Let_def fst_conv post_if post_res
    by (auto simp: assms(1) handled_mat simp del: post_bind intro!: h step_draw handled_swap [OF assms] handled_tail)
qed

lemma handled_appkey:
  assumes "handled c" "storable L view c"
  shows "post (gy_custodian_generate_appkey L P ex) (c, v) handled_post" "post (gy_custodian_rotate_appkey L P ex) (c, v) handled_post"
proof -
  note a = assms(1)
  have gh: "post (cust_generate_hybrid_appkey L P ex) (c, v) handled_post" if "is_hybrid (cu_desc c)"
    unfolding cust_generate_hybrid_appkey_def post_with fst_conv post_if post_res
    by (auto simp: that a handled_mat simp del: post_bind intro!: handled_mint_hsak handled_hswap [OF assms] handled_register_sak)
  show "post (gy_custodian_generate_appkey L P ex) (c, v) handled_post"
    unfolding gy_custodian_generate_appkey_def post_with fst_conv post_if post_res
    by (auto simp: a handled_mat simp del: post_bind intro!: gh handled_mint_sak handled_swap [OF assms] handled_register_sak)
  have rh: "post (cust_rotate_hybrid_appkey L P ex) (c, v) handled_post" if "is_hybrid (cu_desc c)"
    unfolding cust_rotate_hybrid_appkey_def post_with fst_conv Let_def post_if post_res
    by (auto simp: that a handled_mat simp del: post_bind intro!: handled_mint_hsak handled_hswap [OF assms] handled_tail)
  show "post (gy_custodian_rotate_appkey L P ex) (c, v) handled_post"
    unfolding gy_custodian_rotate_appkey_def post_with fst_conv Let_def post_if post_res
    by (auto simp: a handled_mat simp del: post_bind intro!: rh handled_mint_sak handled_swap [OF assms] handled_tail)
qed

text \<open>Deletion frees the handle of the key it removes.\<close>

lemma delete_handles:
  assumes "opk_handles (pool_ids kid (mt_opks m)) (cu_slots c)" "delete_material sid kid z ty k m = Inr m1" "gy_custodian_slot_get c h = Inr (ty, k)"
  shows "opk_handles (pool_ids kid (mt_opks m1)) (slot_free h (cu_slots c))"
proof (cases "ty = GY_SLOT_OPK")
  case True
  then obtain i where i: "pool_find kid k (mt_opks m) = Some i" "mt_opks m1 = (mt_opks m)[i := zero_entry z]"
    using assms(2) by (auto simp: delete_material_def slot_type_defs split: option.splits)
  have "distinct (pool_ids kid (mt_opks m))" using assms(1) by (simp add: opk_handles_def)
  then show ?thesis using handles_drop_at [OF assms(1)] assms(3) True ids_wipe [OF i(1), of z] i(2) by simp
next
  case False
  then have "mt_opks m1 = mt_opks m" using assms(2) by (auto simp: delete_material_def split: if_splits option.splits)
  then show ?thesis using handles_free [OF assms(1)] by simp
qed

lemma handled_delete:
  assumes "handled c" "storable L view c"
  shows "post (gy_custodian_delete_prekey L P h) (c, v) handled_post"
proof -
  have hy: "post (cust_delete_hybrid_prekey L P h ty key) (c, v) handled_post"
    if d: "is_hybrid (cu_desc c)" "gy_custodian_slot_get c h = Inr (ty, key)" for ty key
  proof (cases "delete_material hspk_id hk_id zero_hybrid_keypair ty key (cu_hmat c)")
    case (Inr m1)
    show ?thesis
      unfolding cust_delete_hybrid_prekey_def post_with fst_conv Inr post_bind [where m = "s_res _"] post_res sum.case
      by (rule handled_hswap [OF assms d(1)])
        (use delete_handles [OF _ Inr d(2)] assms(1) d(1) in \<open>simp_all add: handled_def cust_opk_ids_def gy_custodian_slot_free_def\<close>)
  qed (simp add: cust_delete_hybrid_prekey_def assms(1))
  have cl: "post (sbind (s_res (delete_material spk_id kp_id zero_keypair ty key (cu_mat c))) (\<lambda>m1.
         sbind (cu_upd (on_mat (\<lambda>_. m1))) (\<lambda>_.
         sbind (cu_undo (on_mat (\<lambda>_. cu_mat c)) (cu_tot (cust_seal_and_persist_idmat L P))) (\<lambda>_.
           cu_upd (gy_custodian_slot_free h))))) (c, v) handled_post"
    if d: "\<not> is_hybrid (cu_desc c)" "gy_custodian_slot_get c h = Inr (ty, key)" for ty key
  proof (cases "delete_material spk_id kp_id zero_keypair ty key (cu_mat c)")
    case (Inr m1)
    show ?thesis
      unfolding Inr post_bind [where m = "s_res _"] post_res sum.case
      by (rule handled_swap [OF assms d(1)])
        (use delete_handles [OF _ Inr d(2)] assms(1) d(1) in \<open>simp_all add: handled_def cust_opk_ids_def gy_custodian_slot_free_def\<close>)
  qed (simp add: assms(1))
  show ?thesis
    unfolding gy_custodian_delete_prekey_def post_with fst_conv post_if post_res
    by (cases "gy_custodian_slot_get c h") (use hy cl assms(1) in \<open>simp_all del: post_bind add: post_bind [where m = "s_res _"] split: prod.splits\<close>)
qed

text \<open>A replenished pool: the new keys are fresh and get their handles, or all is undone.\<close>

lemma grown_handles:
  assumes "opk_handles (pool_ids pkid ps) S" "pool_fill 0 gen ps = (ps2, t)" "pool_inv z ps" "length gen \<le> GY_OPK_BATCH_MAX - length (pool_ids pkid ps)"
    and "distinct (map pkid gen) \<and> set (map pkid gen) \<inter> set (pool_ids pkid ps) = {}"
  shows "opk_handles (pool_ids pkid ps2) (register_all GY_SLOT_OPK (map pkid gen) S)"
proof -
  have d: "distinct (pool_ids pkid ps)" using assms(1) by (simp add: opk_handles_def)
  note f = assms(5) [THEN conjunct1] assms(5) [THEN conjunct2]
  show ?thesis using handles_grow [OF assms(1) f] ids_fill [OF assms(2-4) d f] by blast
qed

lemma handled_replenish:
  assumes "handled c" "storable L view c" "\<not> is_hybrid (cu_desc c)" "material_inv zero_keypair (cu_mat c)"
  shows "post (cust_replenish_opks L P n) (c, v) handled_post"
proof (rule replenish_post [OF assms(2-4) assms(1) [unfolded handled_def]], use assms(1) in simp)
  fix gen ps2 t v1
  assume g: "pool_fill 0 gen (mt_opks (cu_mat c)) = (ps2, t)" "length gen \<le> GY_OPK_BATCH_MAX - length (pool_ids kp_id (mt_opks (cu_mat c)))"
    "distinct (map kp_id gen) \<and> set (map kp_id gen) \<inter> set (pool_ids kp_id (mt_opks (cu_mat c))) = {}"
  have "opk_handles (pool_ids kp_id ps2) (register_all GY_SLOT_OPK (map kp_id gen) (cu_slots c))"
    by (rule grown_handles [OF _ g(1) _ g(2,3), where z = zero_keypair]) (use assms in \<open>simp_all add: handled_def cust_opk_ids_def material_inv_def\<close>)
  then show "handled (fst (c\<lparr>cu_slots := register_all GY_SLOT_OPK (map kp_id gen) (cu_slots c), cu_mat := (cu_mat c)\<lparr>mt_opks := ps2\<rparr>\<rparr>, v1))"
    using assms(3) by (simp add: handled_def cust_opk_ids_def)
qed

lemma handled_replenish_hybrid:
  assumes "handled c" "storable L view c" "is_hybrid (cu_desc c)" "material_inv zero_hybrid_keypair (cu_hmat c)"
  shows "post (cust_replenish_hybrid_opks L P n) (c, v) handled_post"
proof (rule hybrid_replenish_post [OF assms(2-4) assms(1) [unfolded handled_def]], use assms(1) in simp)
  fix gen ps2 t v1
  assume g: "pool_fill 0 gen (mt_opks (cu_hmat c)) = (ps2, t)" "length gen \<le> GY_OPK_BATCH_MAX - length (pool_ids hk_id (mt_opks (cu_hmat c)))"
    "distinct (map hk_id gen) \<and> set (map hk_id gen) \<inter> set (pool_ids hk_id (mt_opks (cu_hmat c))) = {}"
  have "opk_handles (pool_ids hk_id ps2) (register_all GY_SLOT_OPK (map hk_id gen) (cu_slots c))"
    by (rule grown_handles [OF _ g(1) _ g(2,3), where z = zero_hybrid_keypair]) (use assms in \<open>simp_all add: handled_def cust_opk_ids_def material_inv_def\<close>)
  then show "handled (fst (c\<lparr>cu_slots := register_all GY_SLOT_OPK (map hk_id gen) (cu_slots c), cu_hmat := (cu_hmat c)\<lparr>mt_opks := ps2\<rparr>\<rparr>, v1))"
    using assms(3) by (simp add: handled_def cust_opk_ids_def)
qed

lemma handled_onetime:
  assumes "handled c" "storable L view c" "kept L P st view cred (c, v)"
  shows "post (gy_custodian_generate_onetime_prekeys L P n) (c, v) handled_post"
  using handled_replenish [OF assms(1,2) _ keptD(1) [OF assms(3)]] handled_replenish_hybrid [OF assms(1,2) _ keptD(2) [OF assms(3)]] assms(1)
  by (auto simp: gy_custodian_generate_onetime_prekeys_def)

lemma first_handles:
  assumes "opk_handles [] S" "distinct (map pkid ks)"
  shows "opk_handles (pool_ids pkid (map fresh_entry ks)) (register_all GY_SLOT_OPK (map pkid ks) (snd (cust_slot_register GY_SLOT_SPK k S)))"
proof -
  have "pool_ids pkid (map fresh_entry ks) = map pkid ks" by (induction ks) (simp_all add: pool_ids_def)
  then show ?thesis using handles_grow [OF handles_register [OF assms(1) slot_types(1)] assms(2)] assms(2) by simp
qed

lemma handled_identity:
  assumes "handled c" "storable L view c" "kept L P st view cred (c, v)"
  shows "post (gy_custodian_generate_identity L P ts n) (c, v) handled_post"
proof -
  have ids: "length (cu_self_uid c) \<le> GY_USER_ID_MAX" "length (cu_self_did c) \<le> GY_DEVICE_ID_MAX"
    using assms(3) by (simp_all add: kept_def cust_inv_def)
  note kd = keptD(5,6) [OF assms(3)]
  have none: "\<not> cu_have_identity c \<Longrightarrow> opk_handles [] (cu_slots c)"
    using assms(1) kd by (simp add: handled_def cust_opk_ids_def zero_material_def pool_ids_def split: if_splits)
  show ?thesis
  proof (cases "is_hybrid (cu_desc c)")
    case True
    show ?thesis
      by (rule hybrid_identity_post [OF assms(2) True kd(2) ids])
        (use assms(1) True none batch_fresh(2) in \<open>force simp: handled_def cust_opk_ids_def intro!: first_handles\<close>)+
  next
    case False
    show ?thesis
      by (rule identity_post [OF assms(2) False kd(1) ids])
        (use assms(1) False none batch_fresh(1) in \<open>force simp: handled_def cust_opk_ids_def intro!: first_handles\<close>)+
  qed
qed

subsection \<open>Bundles\<close>

text \<open>The identifiers a bundle or a batch may still carry.\<close>

definition offered :: "('k \<Rightarrow> u32) \<Rightarrow> 'k pool_entry list \<Rightarrow> u32 list" where
  "offered pkid ps = map pkid (publishable ps)"

lemma offered_set: "set (offered pkid ps) = {pkid (pe_key (ps ! i)) |i. i < length ps \<and> pe_used (ps ! i) \<and> \<not> pe_consumed (ps ! i)}"
  by (auto simp: offered_def publishable_def in_set_conv_nth image_iff)

lemma reserve_offered:
  assumes "distinct (pool_ids pkid ps)" "first_reservable ps = Some i" "ps1 = ps[i := (ps ! i)\<lparr>pe_consumed := True\<rparr>]"
  shows "pkid (pe_key (ps ! i)) \<in> set (offered pkid ps)" "set (offered pkid ps1) = set (offered pkid ps) - {pkid (pe_key (ps ! i))}"
proof -
  note i = reservable [OF assms(2)]
  show "pkid (pe_key (ps ! i)) \<in> set (offered pkid ps)" using i by (auto simp: offered_set)
  have o: "ps1 ! j = ps ! j" if "j \<noteq> i" for j using that by (simp add: assms(3))
  have c: "pe_consumed (ps1 ! i)" using i by (simp add: assms(3))
  show "set (offered pkid ps1) = set (offered pkid ps) - {pkid (pe_key (ps ! i))}"
  proof (intro equalityI subsetI)
    fix x assume "x \<in> set (offered pkid ps1)"
    then obtain j where j: "j < length ps" "pe_used (ps1 ! j)" "\<not> pe_consumed (ps1 ! j)" "x = pkid (pe_key (ps1 ! j))"
      by (auto simp: offered_set assms(3))
    then have "j \<noteq> i" using c by auto
    then show "x \<in> set (offered pkid ps) - {pkid (pe_key (ps ! i))}"
      using j o [OF \<open>j \<noteq> i\<close>] i assms(1) [unfolded pool_ids_distinct] by (auto simp: offered_set)
  next
    fix x assume "x \<in> set (offered pkid ps) - {pkid (pe_key (ps ! i))}"
    then obtain j where j: "j < length ps" "pe_used (ps ! j)" "\<not> pe_consumed (ps ! j)" "x = pkid (pe_key (ps ! j))" "j \<noteq> i"
      by (auto simp: offered_set)
    then show "x \<in> set (offered pkid ps1)" using o [OF j(5)] by (auto simp: offered_set assms(3) intro!: exI [of _ j])
  qed
qed

lemma fill_offered:
  assumes "first_reservable ps = None" "pool_fill 0 gen ps = (ps2, t)" "pool_inv z ps" "length gen \<le> GY_OPK_BATCH_MAX - length (pool_ids pkid ps)"
  shows "set (offered pkid ps2) \<subseteq> set (map pkid gen)"
proof
  fix x assume "x \<in> set (offered pkid ps2)"
  then obtain j where j: "j < length ps2" "pe_used (ps2 ! j)" "\<not> pe_consumed (ps2 ! j)" "x = pkid (pe_key (ps2 ! j))"
    by (auto simp: offered_set)
  have pre: "0 \<le> length ps" "length ps \<le> GY_OPK_BATCH_MAX" "\<forall>j < 0. pe_used (ps ! j)" "length gen \<le> GY_OPK_BATCH_MAX - length (filter pe_used ps)"
    using assms(3,4) by (simp_all add: pool_inv_def pool_ids_def)
  note s = pool_fill_spec [OF assms(2) pre]
  have "j \<in> set t"
    using s(5) j assms(1) [unfolded first_reservable_def first_index_nth] by force
  then have "ps2 ! j \<in> set (map fresh_entry gen)" unfolding s(3) [symmetric] by simp
  then show "x \<in> set (map pkid gen)" using j(4) by auto
qed

text \<open>What a pool looks like when a key is about to be reserved: as it was, or with one new key if none was left.\<close>

definition ready :: "('k \<Rightarrow> u32) \<Rightarrow> 'k pool_entry list \<Rightarrow> 'k pool_entry list \<Rightarrow> bool" where
  "ready pkid ps ps1 \<longleftrightarrow> ps1 = ps \<or> (\<exists>k. k \<notin> set (pool_ids pkid ps) \<and> set (offered pkid ps1) \<subseteq> {k})"

lemma ready_fill:
  assumes "first_reservable ps = None" "pool_fill 0 gen ps = (ps2, t)" "pool_inv z ps" "length gen \<le> GY_OPK_BATCH_MAX - length (pool_ids pkid ps)"
    and "length gen = 1" "distinct (map pkid gen) \<and> set (map pkid gen) \<inter> set (pool_ids pkid ps) = {}"
  shows "ready pkid ps ps2"
proof -
  obtain g where "gen = [g]" using assms(5) by (auto simp: length_Suc_conv)
  then show ?thesis using fill_offered [OF assms(1-4)] assms(6) by (auto simp: ready_def)
qed

lemma ready_reserved:
  assumes "ready pkid ps ps1" "distinct (pool_ids pkid ps1)" "first_reservable ps1 = Some i"
    and "ps2 = ps1[i := (ps1 ! i)\<lparr>pe_consumed := True\<rparr>]" "k = pkid (pe_key (ps1 ! i))"
  shows "k \<in> set (pool_ids pkid ps2) \<and> k \<notin> set (offered pkid ps2) \<and> (k \<in> set (offered pkid ps) \<or> k \<notin> set (pool_ids pkid ps)) \<and>
    set (offered pkid ps2) \<subseteq> set (offered pkid ps)"
proof -
  note r = reserve_offered [OF assms(2,3,4), folded assms(5)]
  have "k \<in> set (pool_ids pkid ps2)" using reservable [OF assms(3)] by (auto simp: assms(4,5) ids_flag pool_ids_set)
  then show ?thesis using r assms(1) by (auto simp: ready_def)
qed

lemma handled_reserve: "handled (on_mat (reserve i) c) = handled c" "handled (on_hmat (reserve i) c) = handled c"
  by (simp_all add: handled_def cust_opk_ids_def reserve_def ids_flag)

lemma reservable_post:
  assumes "kept L P st view cred (c, v)" "storable L view c" "handled c" "\<not> is_hybrid (cu_desc c)"
  shows "post (reservable_opk L P) (c, v) (\<lambda>x s1. handled (fst s1) \<and>
    (\<forall>i. x = Inr i \<longrightarrow> ready kp_id (mt_opks (cu_mat c)) (mt_opks (cu_mat (fst s1)))))"
proof (cases "first_reservable (mt_opks (cu_mat c))")
  case None
  have inv: "pool_inv zero_keypair (mt_opks (cu_mat c))" using keptD(1) [OF assms(1)] by (simp add: material_inv_def)
  have "post (cust_replenish_opks L P 1) (c, v) (\<lambda>x s1. handled (fst s1) \<and>
      (\<forall>u. x = Inr u \<longrightarrow> ready kp_id (mt_opks (cu_mat c)) (mt_opks (cu_mat (fst s1)))))"
    using handled_replenish [OF assms(3,2,4) keptD(1) [OF assms(1)], of P 1 v]
      replenish_post [OF assms(2,4) keptD(1) [OF assms(1)] assms(3) [unfolded handled_def], of v
        "\<lambda>x s1. \<forall>u. x = Inr u \<longrightarrow> ready kp_id (mt_opks (cu_mat c)) (mt_opks (cu_mat (fst s1)))" 1 P]
    by (simp add: post_def ready_fill [OF None _ inv])
  then show ?thesis
    unfolding reservable_opk_def post_with post_bind fst_conv None option.case
    by (rule post_mono) (auto split: sum.splits option.splits)
qed (simp add: reservable_opk_def assms(3) ready_def)

lemma hybrid_reservable_post:
  assumes "kept L P st view cred (c, v)" "storable L view c" "handled c" "is_hybrid (cu_desc c)"
  shows "post (reservable_hybrid_opk L P) (c, v) (\<lambda>x s1. handled (fst s1) \<and>
    (\<forall>i. x = Inr i \<longrightarrow> ready hk_id (mt_opks (cu_hmat c)) (mt_opks (cu_hmat (fst s1)))))"
proof (cases "first_reservable (mt_opks (cu_hmat c))")
  case None
  have inv: "pool_inv zero_hybrid_keypair (mt_opks (cu_hmat c))" using keptD(2) [OF assms(1)] by (simp add: material_inv_def)
  have "post (cust_replenish_hybrid_opks L P 1) (c, v) (\<lambda>x s1. handled (fst s1) \<and>
      (\<forall>u. x = Inr u \<longrightarrow> ready hk_id (mt_opks (cu_hmat c)) (mt_opks (cu_hmat (fst s1)))))"
    using handled_replenish_hybrid [OF assms(3,2,4) keptD(2) [OF assms(1)], of P 1 v]
      hybrid_replenish_post [OF assms(2,4) keptD(2) [OF assms(1)] assms(3) [unfolded handled_def], of v
        "\<lambda>x s1. \<forall>u. x = Inr u \<longrightarrow> ready hk_id (mt_opks (cu_hmat c)) (mt_opks (cu_hmat (fst s1)))" 1 P]
    by (simp add: post_def ready_fill [OF None _ inv])
  then show ?thesis
    unfolding reservable_hybrid_opk_def post_with post_bind fst_conv None option.case
    by (rule post_mono) (auto split: sum.splits option.splits)
qed (simp add: reservable_hybrid_opk_def assms(3) ready_def)

definition carries :: "nat \<Rightarrow> 'w gy_custodian \<Rightarrow> bytes \<Rightarrow> u32 \<Rightarrow> bool" where
  "carries cap c b k \<longleftrightarrow>
     (if is_hybrid (cu_desc c)
      then \<exists>h. hk_id h = k \<and> gy_hybrid_bundle_put cap (cu_desc c) (cust_build_hybrid_bundle c (hk_pub h)) = Inr b
      else \<exists>kp. kp_id kp = k \<and> gy_bundle_put cap (cu_desc c) (cust_build_bundle c (kp_pub kp)) = Inr b)"

definition cust_offered :: "'w gy_custodian \<Rightarrow> u32 list" where
  "cust_offered c = (if is_hybrid (cu_desc c) then offered hk_id (mt_opks (cu_hmat c)) else offered kp_id (mt_opks (cu_mat c)))"

definition spent :: "nat \<Rightarrow> 'w gy_custodian \<Rightarrow> gy_err + bytes \<Rightarrow> 'w custst \<Rightarrow> bool" where
  "spent cap c x s1 \<longleftrightarrow> handled (fst s1) \<and>
     (\<forall>b. x = Inr b \<longrightarrow> (\<exists>k. carries cap (fst s1) b k \<and> k \<in> set (cust_opk_ids (fst s1)) \<and> k \<notin> set (cust_offered (fst s1)) \<and>
        (k \<in> set (cust_offered c) \<or> k \<notin> set (cust_opk_ids c)) \<and> set (cust_offered (fst s1)) \<subseteq> set (cust_offered c)))"

lemma post_conj: "post m s Q \<Longrightarrow> post m s R \<Longrightarrow> post m s (\<lambda>x s1. Q x s1 \<and> R x s1)"
  by (simp add: post_def)

lemma publish_spent_classical:
  assumes "kept L P st view cred (c, v)" "storable L view c" "handled c" "\<not> is_hybrid (cu_desc c)" "cu_have_identity c"
  shows "post (sbind (reservable_opk L P) (\<lambda>idx.
       sbind (cu_upd (on_mat (reserve idx))) (\<lambda>_.
       sbind (cu_undo (on_mat (unreserve idx)) (cu_tot (cust_seal_and_persist_idmat L P))) (\<lambda>_.
       cu_with (\<lambda>c. s_res (gy_bundle_put cap (cu_desc c) (cust_build_bundle c (kp_pub (pe_key (mt_opks (cu_mat c) ! idx)))))))))) (c, v) (spent cap c)"
  unfolding post_bind [where m = "reservable_opk _ _"]
proof (rule post_mono [OF post_conj [OF kept_reservable(1) [OF assms(1,2,5,4)] reservable_post [OF assms(1-4)]]], goal_cases)
  case (1 x s1)
  obtain c1 v1 where s1: "s1 = (c1, v1)" by (rule prod.exhaust)
  have c1: "storable L view c1" "\<not> is_hybrid (cu_desc c1)" "handled c1" "cu_desc c1 = cu_desc c"
    using 1 assms(2,4) keptD(4) [OF assms(1)] by (auto simp: s1 kept_as_def kept_def cust_inv_def storable_def)
  show ?case
  proof (cases x)
    case (Inr i)
    then have r: "first_reservable (mt_opks (cu_mat c1)) = Some i" "ready kp_id (mt_opks (cu_mat c)) (mt_opks (cu_mat c1))"
      using 1 by (auto simp: s1)
    have d: "distinct (pool_ids kp_id (mt_opks (cu_mat c1)))" using c1 by (simp add: handled_def cust_opk_ids_def opk_handles_def)
    note u = ready_reserved [OF r(2) d r(1) refl refl]
    have q: "spent cap c (gy_bundle_put cap (cu_desc c1) (cust_build_bundle (on_mat (reserve i) c1) (kp_pub (pe_key (mt_opks (cu_mat c1) ! i))))) (on_mat (reserve i) c1, v2)" for v2
      using u c1(2,3) assms(4) handled_reserve(1) [of i c1]
      by (auto simp: spent_def carries_def cust_opk_ids_def cust_offered_def reserve_def cust_build_bundle_def Let_def
          intro!: exI [of _ "kp_id (pe_key (mt_opks (cu_mat c1) ! i))"] exI [of _ "pe_key (mt_opks (cu_mat c1) ! i)"])
    show ?thesis
      unfolding Inr sum.case s1
      by (rule classical.change_persist_or_restore [where view = view])
        (use c1 q reservable [OF r(1)] in \<open>simp_all add: unreserve_reserve\<close>, simp_all add: spent_def reserve_def)
  qed (use c1 s1 in \<open>simp add: spent_def\<close>)
qed

lemma publish_spent_hybrid:
  assumes "kept L P st view cred (c, v)" "storable L view c" "handled c" "is_hybrid (cu_desc c)" "cu_have_identity c"
  shows "post (sbind (reservable_hybrid_opk L P) (\<lambda>idx.
       sbind (cu_upd (on_hmat (reserve idx))) (\<lambda>_.
       sbind (cu_undo (on_hmat (unreserve idx)) (cu_tot (cust_seal_and_persist_hybrid_idmat L P))) (\<lambda>_.
       cu_with (\<lambda>c. s_res (gy_hybrid_bundle_put cap (cu_desc c) (cust_build_hybrid_bundle c (hk_pub (pe_key (mt_opks (cu_hmat c) ! idx)))))))))) (c, v) (spent cap c)"
  unfolding post_bind [where m = "reservable_hybrid_opk _ _"]
proof (rule post_mono [OF post_conj [OF kept_reservable(2) [OF assms(1,2,5,4)] hybrid_reservable_post [OF assms(1-4)]]], goal_cases)
  case (1 x s1)
  obtain c1 v1 where s1: "s1 = (c1, v1)" by (rule prod.exhaust)
  have c1: "storable L view c1" "is_hybrid (cu_desc c1)" "handled c1" "cu_desc c1 = cu_desc c"
    using 1 assms(2,4) keptD(4) [OF assms(1)] by (auto simp: s1 kept_as_def kept_def cust_inv_def storable_def)
  show ?case
  proof (cases x)
    case (Inr i)
    then have r: "first_reservable (mt_opks (cu_hmat c1)) = Some i" "ready hk_id (mt_opks (cu_hmat c)) (mt_opks (cu_hmat c1))"
      using 1 by (auto simp: s1)
    have d: "distinct (pool_ids hk_id (mt_opks (cu_hmat c1)))" using c1 by (simp add: handled_def cust_opk_ids_def opk_handles_def)
    note u = ready_reserved [OF r(2) d r(1) refl refl]
    have q: "spent cap c (gy_hybrid_bundle_put cap (cu_desc c1) (cust_build_hybrid_bundle (on_hmat (reserve i) c1) (hk_pub (pe_key (mt_opks (cu_hmat c1) ! i))))) (on_hmat (reserve i) c1, v2)" for v2
      using u c1(2,3) assms(4) handled_reserve(2) [of i c1]
      by (auto simp: spent_def carries_def cust_opk_ids_def cust_offered_def reserve_def cust_build_hybrid_bundle_def Let_def
          intro!: exI [of _ "hk_id (pe_key (mt_opks (cu_hmat c1) ! i))"] exI [of _ "pe_key (mt_opks (cu_hmat c1) ! i)"])
    show ?thesis
      unfolding Inr sum.case s1
      by (rule hybrid.change_persist_or_restore [where view = view])
        (use c1 q reservable [OF r(1)] in \<open>simp_all add: unreserve_reserve\<close>, simp_all add: spent_def reserve_def)
  qed (use c1 s1 in \<open>simp add: spent_def\<close>)
qed

lemma publish_spent:
  assumes "kept L P st view cred (c, v)" "storable L view c" "handled c"
  shows "post (gy_custodian_publish_bundle L P cap) (c, v) (spent cap c)"
proof -
  have e: "spent cap c (Inl e) (c, v)" for e using assms(3) by (simp add: spent_def)
  show ?thesis
    unfolding gy_custodian_publish_bundle_def cust_publish_hybrid_bundle_def post_with fst_conv post_if post_res
    using publish_spent_classical [OF assms, of cap] publish_spent_hybrid [OF assms, of cap] e by simp
qed

subsection \<open>The handles through the life of a custodian\<close>

lemma handled_call:
  assumes "handled c" "storable L view c" "kept L P st view cred (c, v)"
  shows "post (run_call L P a) (c, v) handled_post"
proof -
  have p: "post (gy_custodian_publish_bundle L P cap) (c, v) handled_post" for cap
    by (rule post_mono [OF publish_spent [OF assms(3,2,1)]]) (simp add: spent_def)
  have u: "post m (c, v) handled_post \<Longrightarrow> post (sbind m (\<lambda>_. s_res (Inr ()))) (c, v) handled_post" for m :: "('a custst, gy_err, 'b) sm"
    unfolding post_bind by (erule post_mono) (simp split: sum.splits)
  show ?thesis
    using handled_identity [OF assms] handled_rotate_spk [OF assms(1,2)] handled_onetime [OF assms] u [OF p] handled_delete [OF assms(1,2)]
      u [OF handled_appkey(1) [OF assms(1,2)]] u [OF handled_appkey(2) [OF assms(1,2)]]
    by (cases a) (simp_all del: post_bind)
qed

lemma handled_consume:
  assumes "handled c" "storable L view c" "tr_consume_opk L P k ((c, w), r) = (Inr u, ((c1, w1), r1))"
  shows "handled c1"
proof -
  obtain x w2 r2 where x: "consume_opk (cust_sealed_store L c) k (w, r) = (x, (w2, r2))" by (metis prod.exhaust)
  have d: "distinct (cust_opk_ids c)" using assms(1) by (simp add: handled_def opk_handles_def)
  show ?thesis
  proof (cases "is_hybrid (cu_desc c)")
    case True
    show ?thesis
    proof (cases "pool_find hk_id k (mt_opks (cu_hmat c))")
      case None
      then show ?thesis using assms(1,3) x True by (auto simp: tr_consume_opk_def split: sum.splits)
    next
      case (Some i)
      have p: "cust_seal_and_persist_hybrid_idmat L P (drop_hybrid_opk k i c, (w2, r2)) = (Inr u, (c1, (w1, r1)))"
        using assms(3) x True Some by (auto simp: tr_consume_opk_def split: sum.splits prod.splits)
      have "c1 = drop_hybrid_opk k i c" using hybrid.object [OF _ p, of view] assms(2) True by (simp add: drop_hybrid_opk_def)
      then show ?thesis
        using handles_drop [of "cust_opk_ids c" "cu_slots c"] assms(1) ids_wipe [OF Some] d True
        by (simp add: handled_def drop_hybrid_opk_def cust_opk_ids_def)
    qed
  next
    case False
    show ?thesis
    proof (cases "pool_find kp_id k (mt_opks (cu_mat c))")
      case None
      then show ?thesis using assms(1,3) x False by (auto simp: tr_consume_opk_def split: sum.splits)
    next
      case (Some i)
      have p: "cust_seal_and_persist_idmat L P (drop_opk k i c, (w2, r2)) = (Inr u, (c1, (w1, r1)))"
        using assms(3) x False Some by (auto simp: tr_consume_opk_def split: sum.splits prod.splits)
      have "c1 = drop_opk k i c" using classical.object [OF _ p, of view] assms(2) False by (simp add: drop_opk_def)
      then show ?thesis
        using handles_drop [of "cust_opk_ids c" "cu_slots c"] assms(1) ids_wipe [OF Some] d False
        by (simp add: handled_def drop_opk_def cust_opk_ids_def)
    qed
  qed
qed

lemma empty_handles: "opk_handles [] (replicate GY_CUSTODIAN_MAX_SLOTS zero_slot)"
  by (auto simp: opk_handles_def slots_wf_def one_handle_def)

lemma handled_created:
  assumes "gy_custodian_create L P sid st cred uid did clock cfg v = (Inr c, v1)" "identity_slot st view"
  shows "handled c"
proof -
  obtain desc ex wrap ks r1 c1 u where a:
      "cust_persist_header P [] ((zero_custodian st desc sid uid did)\<lparr>cu_clock := clock, cu_expiry := ex, cu_ks := ks, cu_wrap := wrap\<rparr>, (fst v, r1))
         = (Inr u, (c1, v1))" "c = c1\<lparr>cu_unlocked := True\<rparr>"
    using assms(1) by (auto simp: gy_custodian_create_def Let_def split: if_splits option.splits sum.splits prod.splits)
  have "c1 = (zero_custodian st desc sid uid did)\<lparr>cu_clock := clock, cu_expiry := ex, cu_ks := ks, cu_wrap := wrap\<rparr>"
    using persist_header_spec [OF a(1), of view] assms(2) by (simp add: zero_custodian_def)
  then show ?thesis using empty_handles by (simp add: a(2) handled_def cust_opk_ids_def zero_custodian_def zero_material_def pool_ids_def)
qed

lemma handled_reopened: "handled c \<Longrightarrow> handled (reopened c)"
proof -
  assume "handled c"
  then have d: "distinct (cust_opk_ids c)" by (simp add: handled_def opk_handles_def)
  have "opk_handles (cust_opk_ids c) (rebuilt_slots c)"
    using handles_register_all [OF handles_grow [OF handles_register_all [OF empty_handles slot_types(1)] d _ d] slot_types(2)]
    by (auto simp: rebuilt_slots_def Let_def cust_opk_ids_def)
  moreover have "cust_opk_ids (reopened c) = cust_opk_ids c" "cu_slots (reopened c) = rebuilt_slots c"
    by (simp_all add: reopened_def cust_opk_ids_def)
  ultimately show ?thesis by (simp add: handled_def)
qed

lemma custody_handled:
  assumes "custody L P st view cred s" "seal_provider L" "identity_slot st view"
  shows "handled (fst s)"
  using assms
proof (induction rule: custody.induct)
  case (created sid cred uid did clock cfg v c v1)
  then show ?case using handled_created by fastforce
next
  case (called cred s a x s1)
  obtain c v where s: "s = (c, v)" by (rule prod.exhaust)
  have k: "kept L P st view cred (c, v)" using custody_kept [OF called(1) called.prems] s by simp
  then have st: "storable L view c" using called.prems keptD(4) by (fastforce simp: storable_def)
  show ?case using postD [OF handled_call [OF _ st k]] called s by fastforce
next
  case (consumed cred c w r k u c1 w1 r1)
  have "kept L P st view cred (c, (w, r))" by (rule custody_kept [OF consumed(1) consumed.prems])
  then have st: "storable L view c" using consumed.prems keptD(4) by (fastforce simp: storable_def)
  show ?case using handled_consume [OF _ st consumed(2)] consumed by simp
next
  case (new_credential cred s cred1 u s1)
  have "kept L P st view cred s" by (rule custody_kept [OF new_credential(1) new_credential.prems])
  then have st: "cu_app_store (fst s) = st" by (simp add: kept_def cust_inv_def)
  have "\<exists>wr. fst s1 = (fst s)\<lparr>cu_wrap := wr\<rparr>"
    using new_credential(2) persist_header_spec [of P _ "(fst s)\<lparr>cu_wrap := _\<rparr>" _ _ "Inr u" s1 view] new_credential.prems(2) st
    by (auto simp: gy_custodian_change_credential_def split: if_splits sum.splits prod.splits)
  then show ?case using new_credential by (auto simp: handled_def cust_opk_ids_def)
next
  case (reopen cred c v c1 v1)
  have k: "kept L P st view cred (c, (fst v, snd v))" using custody_kept [OF reopen(1) reopen.prems] by simp
  have "c1 = reopened c" using kept_opens [OF k reopen.prems(2) reopen(2)] reopen(3) by auto
  then show ?case using reopen handled_reopened by simp
next
  case (other cred c v v1)
  then show ?case by simp
qed

subsection \<open>Properties\<close>

text \<open>
  C22. A failed call leaves no trace. When a call of a custodian fails (the generation of an identity, of
  one-time prekeys or of an application key, a rotation, a deletion), whatever the reason and however
  far it had come, the object is exactly what it was, handles included, and so is the blob in the
  store. The publication of a bundle is apart: it may have replenished the pool before it failed.
\<close>

theorem failed_call_restores:
  assumes "seal_provider L" "identity_slot st view" "custody L P st view cred (c, (w, r))"
    and "run_call L P a (c, (w, r)) = Some (Inl e, (c1, (w1, r1)))" "\<And>cap. a \<noteq> Publish_bundle cap"
  shows "c1 = c \<and> view w1 = view w"
proof -
  have k: "kept L P st view cred (c, (w, r))" and h: "handled c"
    using custody_kept [OF assms(3,1,2)] custody_handled [OF assms(3,1,2)] by simp_all
  have st: "storable L view c" using keptD(4) [OF k] assms(1,2) by (simp add: storable_def)
  note h' = h [unfolded handled_def]
  have u: "post m (c, (w, r)) (restores view c (w, r)) \<Longrightarrow> post (sbind m (\<lambda>_. s_res (Inr ()))) (c, (w, r)) (restores view c (w, r))"
    for m :: "('a custst, gy_err, 'b) sm"
    unfolding post_bind by (erule post_mono) (simp add: restores_def split: sum.splits)
  have "post (run_call L P a) (c, (w, r)) (restores view c (w, r))"
    using restores_identity [OF k st] restores_rotate_spk [OF st] restores_onetime [OF k st h'] restores_delete [OF st]
      u [OF restores_appkey(1) [OF st]] u [OF restores_appkey(2) [OF st]]
      assms(5) [of "case a of Publish_bundle n \<Rightarrow> n | _ \<Rightarrow> 0"]
    by (cases a) (simp_all del: post_bind)
  from postD [OF this assms(4)] show ?thesis by (simp add: restores_def)
qed

text \<open>
  C23. One bundle per one-time prekey. A published bundle carries a one-time prekey that was still on
  offer, or a new one if there was none; afterwards the key is still held but no longer on offer, for
  bundles or for batches, and nothing else has come on offer. The next bundle therefore carries
  another key.
\<close>

theorem bundle_spends_opk:
  assumes "seal_provider L" "identity_slot st view" "custody L P st view cred (c, v)"
    and "gy_custodian_publish_bundle L P cap (c, v) = Some (Inr b, (c1, v1))"
  shows "\<exists>k. carries cap c1 b k \<and> k \<in> set (cust_opk_ids c1) \<and> k \<notin> set (cust_offered c1) \<and>
    (k \<in> set (cust_offered c) \<or> k \<notin> set (cust_opk_ids c)) \<and> set (cust_offered c1) \<subseteq> set (cust_offered c)"
proof -
  have k: "kept L P st view cred (c, v)" and h: "handled c"
    using custody_kept [OF assms(3,1,2)] custody_handled [OF assms(3,1,2)] by simp_all
  have st: "storable L view c" using keptD(4) [OF k] assms(1,2) by (simp add: storable_def)
  from postD [OF publish_spent [OF k st h] assms(4)] show ?thesis by (simp add: spent_def)
qed

end
