(* ===== verification/GY_CustodyFaults.thy ===== *)
theory GY_CustodyFaults
  imports GY_CustodyHandles
begin

text \<open>
  Two departures of the custodian from its contract. The table of handles has 48 places, the pool of
  one-time prekeys 100: with a full table a new application key gets no handle, yet the call succeeds.
  And a change of the credential that the store refuses stays in the object and takes effect with the
  next blob.
\<close>

lemma persist_object:
  "cust_persist_header P tail (c, v) = (x, (c1, v1)) \<Longrightarrow> c1 = c"
  by (auto simp: cust_persist_header_def split: if_splits sum.splits prod.splits)

lemma seal_persist_object:
  "cust_seal_and_persist_idmat L P (c, v) = (x, (c1, v1)) \<Longrightarrow> c1 = c"
  "cust_seal_and_persist_hybrid_idmat L P (c, v) = (x, (c1, v1)) \<Longrightarrow> c1 = c"
  by (auto simp: cust_seal_and_persist_idmat_def cust_seal_and_persist_hybrid_idmat_def seal_and_persist_def
      dest: persist_object split: if_splits sum.splits prod.splits)

lemma full_register: "\<forall>i < length S. sl_in_use (S ! i) \<Longrightarrow> cust_slot_register ty k S = (GY_KEY_HANDLE_INVALID, S)"
  using first_index_nth [of "\<lambda>s. \<not> sl_in_use s" S] by (simp add: cust_slot_register_def)

definition has_appkey :: "'w gy_custodian \<Rightarrow> bool" where
  "has_appkey c \<longleftrightarrow> (if is_hybrid (cu_desc c) then mt_saks (cu_hmat c) \<noteq> [] else mt_saks (cu_mat c) \<noteq> [])"

definition handle_lost :: "'w gy_custodian \<Rightarrow> gy_err + u32 \<Rightarrow> 'w custst \<Rightarrow> bool" where
  "handle_lost c x s1 \<longleftrightarrow> (\<forall>h. x = Inr h \<longrightarrow> h = GY_KEY_HANDLE_INVALID \<and> has_appkey (fst s1) \<and> cu_unlocked (fst s1) \<and> cu_have_identity (fst s1))"

lemma register_full:
  assumes "\<forall>i < length (cu_slots c). sl_in_use (cu_slots c ! i)" "has_appkey c" "cu_unlocked c" "cu_have_identity c"
  shows "post (register_sak k) (c, v) (handle_lost c0)"
  using assms full_register [OF assms(1)] by (simp add: post_def register_sak_def handle_lost_def has_appkey_def)

lemma appkey_full:
  assumes "\<forall>i < length (cu_slots c). sl_in_use (cu_slots c ! i)"
  shows "post (gy_custodian_generate_appkey L P ex) (c, v) (handle_lost c)"
proof -
  have e: "handle_lost c (Inl e) s1" for e s1 by (simp add: handle_lost_def)
  have tail: "post (sbind (cu_upd F) (\<lambda>_. sbind (cu_undo G (cu_tot p)) (\<lambda>_. register_sak k))) (c, v1) (handle_lost c)"
    if "\<And>c v x c1 v1. p (c, v) = (x, (c1, v1)) \<Longrightarrow> c1 = c" "has_appkey (F c)" "cu_slots (F c) = cu_slots c" "cu_unlocked (F c)" "cu_have_identity (F c)"
    for F G p k v1
  proof -
    obtain x c1 v2 where "p (F c, v1) = (x, (c1, v2))" by (metis prod.exhaust)
    then show ?thesis using that(1) [of "F c" v1 x c1 v2] register_full [of "F c"] assms that(2-5) e by (cases x) auto
  qed
  have mint: "post (sbind (cust_mint_sak L ex) k) (c, v) (handle_lost c)" if "\<And>a v1. post (k a) (c, v1) (handle_lost c)" for k
    unfolding post_bind by (rule postI) (use that e in \<open>auto dest!: mint_frame split: sum.splits\<close>)
  have hmint: "post (sbind (cust_mint_hsak L ex) k) (c, v) (handle_lost c)" if "\<And>a v1. post (k a) (c, v1) (handle_lost c)" for k
    unfolding post_bind by (rule postI) (use that e in \<open>auto dest!: mint_frame split: sum.splits\<close>)
  have h: "post (cust_generate_hybrid_appkey L P ex) (c, v) (handle_lost c)"
    if "is_hybrid (cu_desc c)" "cu_unlocked c" "cu_have_identity c"
    unfolding cust_generate_hybrid_appkey_def post_with fst_conv post_if post_res if_bool_eq_conj
    by (intro conjI impI e hmint tail seal_persist_object(2)) (use that in \<open>simp_all add: has_appkey_def\<close>)
  show ?thesis
    unfolding gy_custodian_generate_appkey_def post_with fst_conv post_if post_res if_bool_eq_conj
    by (intro conjI impI e h mint tail seal_persist_object(1)) (simp_all add: has_appkey_def)
qed

text \<open>
  C28. A key without a handle. With every place of the table taken, which one identity with 47 one-time
  prekeys does, the generation of an application key that reports success returns the invalid handle:
  the key is stored but can neither be exported nor used, and a second attempt is refused because
  there is a key already.
\<close>

theorem appkey_handle_lost:
  assumes "\<forall>i < length (cu_slots c). sl_in_use (cu_slots c ! i)"
    and "gy_custodian_generate_appkey L P ex (c, v) = Some (Inr h, (c1, v1))"
  shows "h = GY_KEY_HANDLE_INVALID \<and> gy_custodian_export_appkey_cert c1 h cap = Inl GY_ERR_NOT_FOUND \<and>
    gy_custodian_generate_appkey L P ex1 (c1, v1) = Some (Inl GY_ERR_STATE, (c1, v1))"
proof -
  have p: "h = GY_KEY_HANDLE_INVALID" "has_appkey c1" "cu_unlocked c1" "cu_have_identity c1"
    using postD [OF appkey_full [OF assms(1)] assms(2)] by (simp_all add: handle_lost_def)
  then show ?thesis
    by (auto simp: gy_custodian_export_appkey_cert_def gy_custodian_slot_get_def gy_custodian_generate_appkey_def cust_generate_hybrid_appkey_def
        has_appkey_def cu_with_def s_res_def split: if_splits)
qed

text \<open>
  C29. A credential change that fails and still happens. When the store refuses the blob of a credential
  change, the call returns the error and the store keeps the old blob; but the object keeps the new
  wrap blob, and the next blob that is stored, by any other operation, opens with the new credential.
\<close>

theorem credential_change_lingers:
  assumes "seal_provider L" "identity_slot st view" "custody L P st view cred (c, (w, r))" "cu_have_identity c"
    and "gy_custodian_change_credential L P new_cred (c, (w, r)) = (Inl e, (c1, (w1, r1)))" "c1 \<noteq> c"
    and "(if is_hybrid (cu_desc c) then cust_seal_and_persist_hybrid_idmat L P (c1, (w1, r1)) else cust_seal_and_persist_idmat L P (c1, (w1, r1)))
      = (Inr u, (c2, (w2, r2)))"
    and "machine_reads L P c1"
  shows "view w1 = view w \<and> (\<exists>v3. gy_custodian_open L P st new_cred (w2, r2) = (Inr (reopened c1), v3))"
proof -
  have k: "kept L P st view cred (c, (w, r))" by (rule custody_kept [OF assms(3,1,2)])
  obtain hdr tail where b: "view w = hdr @ tail" "gy_cust_header_encode (GY_CUST_BLOB_MAX P) (cust_header c) = Inr hdr" "blob_holds P view c w tail"
    by (rule kept_blob [OF k])
  have inv: "cust_inv L st cred c" using k by (simp add: kept_def)
  then have st: "cu_app_store c = st" and op: "gy_keystore_open L locked_keystore cred (cu_wrap c) = (Inr (), cu_ks c)"
    by (simp_all add: cust_inv_def)
  obtain w0 r0 where l: "load_identity st (GY_CUST_BLOB_MAX P) (w, r) = (Inr (view w), (w0, r0))" "view w0 = view w"
    by (rule slot_load [OF assms(2) blob_length [OF b(3)]])
  have d: "gy_cust_header_decode (view w) = Inr (cust_header c, length hdr)" "drop (length hdr) (view w) = tail"
    using header_decode_encode [OF b(2)] b(1) by simp_all
  obtain wrap r3 where kc: "gy_keystore_change_credential L (cu_ks c) GY_CUSTODIAN_WRAP_ALG GY_CUSTODIAN_OPSLIMIT GY_CUSTODIAN_MEMLIMIT
        new_cred GY_KEYSTORE_WRAP_MAX r0 = (Inr wrap, r3)"
      "cust_persist_header P tail (c\<lparr>cu_wrap := wrap\<rparr>, (w0, r3)) = (Inl e, (c1, (w1, r1)))"
    using assms(5,6) l d st by (auto simp: gy_custodian_change_credential_def split: if_splits sum.splits prod.splits)
  note ks = opened_keystore [OF op]
  have "gy_kekprot_unwrap L new_cred [] wrap = Inr (the (ks_kek (cu_ks c)))"
    using unwrap_wrap(1) [OF _ _ _ ks(3)] kc(1) assms(1) by (auto simp: gy_keystore_change_credential_def seal_provider_def split: if_splits)
  then have o: "gy_keystore_open L locked_keystore new_cred wrap = (Inr (), cu_ks c)" using ks by (simp add: gy_keystore_open_def)
  have p: "c1 = c\<lparr>cu_wrap := wrap\<rparr>" "view w1 = view w"
    using persist_header_spec [OF kc(2), of view] assms(2) st l(2) by simp_all
  have inv1: "cust_inv L st new_cred c1" using inv o by (simp add: cust_inv_def p(1))
  have s: "storable L view c1" using assms(1,2) st by (simp add: storable_def p(1))
  have "c2 = c1" "sealed_disk L P view c1 w2"
    using assms(7) s hybrid.object [of L view c1 P] hybrid.stored [of L view c1 P] classical.object [of L view c1 P] classical.stored [of L view c1 P]
    by (auto simp: p(1) split: if_splits)
  then have "kept L P st view new_cred (c1, (w2, r2))"
    using inv1 assms(4) by (simp add: kept_def mirrored_def p(1))
  from kept_opens [OF this assms(2,8)] p(2) show ?thesis by blast
qed

end
