(* ===== verification/GY_ApiProps.thy ===== *)
theory GY_ApiProps
  imports GY_Api GY_CustodyFaults
begin

text \<open>
  What the public operations do to the object and to the application: the send transaction is a machine of
  two states, a rollback leaves nothing behind, and the API keeps the agreement of the custodian with
  its blob. A call before its commit only loads, a commit is a sequence of callbacks of the wired store;
  both are followed through the session layer by what they leave alone.
\<close>

subsection \<open>What the callbacks of the wired store move\<close>

text \<open>What the operations before a commit leave alone: the custodian, and the observed part of its application's state.\<close>

definition observed :: "'w gy_store \<Rightarrow> ('w \<Rightarrow> 'v) \<Rightarrow> 'w gy_custodian \<times> 'w \<Rightarrow> 'w gy_custodian \<times> 'v option" where
  "observed st view v = (fst v, if cu_app_store (fst v) = st then Some (view (snd v)) else None)"

lemma observed_eq:
  "observed st view (c1, w1) = observed st view (c, w) \<longleftrightarrow> c1 = c \<and> (cu_app_store c = st \<longrightarrow> view w1 = view w)"
  by (auto simp: observed_def)

lemma sealed_loads_keep:
  assumes "loads_keep (cu_app_store c) view" "load_record (cust_sealed_store L c) k i cap v = (x, v1)"
  shows "view (fst v1) = view (fst v)"
proof -
  obtain y v2 where y: "load_record (cu_app_store c) k i SS_SCRATCH v = (y, v2)" by (metis prod.exhaust)
  then have "view (fst v2) = view (fst v)" using assms(1) unfolding loads_keep_def by (metis snd_conv)
  then show ?thesis
    using assms(2) y by (auto simp: cust_sealed_store_def gy_sealed_store_bind_def ss_load_record_def ss_open_def Let_def
      split: if_splits sum.splits)
qed

lemma wire_loads_keep:
  assumes "loads_keep st view"
  shows "loads_keep (cust_wire_store L P) (observed st view)"
  unfolding loads_keep_def
proof (intro allI)
  fix k i cap and v :: "('a gy_custodian \<times> 'a) \<times> rng"
  obtain c w r where v: "v = ((c, w), r)" by (metis prod.exhaust)
  obtain x w1 r1 where l: "load_record (cust_sealed_store L c) k i cap (w, r) = (x, (w1, r1))" by (metis prod.exhaust)
  have "cu_app_store c = st \<Longrightarrow> view w1 = view w" using sealed_loads_keep [OF _ l] assms by simp
  then show "observed st view (fst (snd (load_record (cust_wire_store L P) k i cap v))) = observed st view (fst v)"
    using l by (simp add: v cust_wire_store_def tr_load_record_def tr_call_def observed_def)
qed

text \<open>
  The steps of a commit: storing and deleting records leaves the custodian, a used prekey is taken out of
  it; the context of the object stays.
\<close>

lemma wire_act:
  assumes "run_act (cust_wire_store L P) a ((c, w), r) = (x, ((c1, w1), r1))"
  shows "cu_send_open c1 = cu_send_open c"
    and "(\<And>p. a \<noteq> Act_Consume p) \<Longrightarrow> c1 = c"
  using assms
  by (auto simp: run_act_def cust_wire_store_def tr_store_record_def tr_delete_record_def tr_call_def tr_consume_opk_def
      drop_opk_def drop_hybrid_opk_def dest!: seal_persist_object
      split: store_act.splits prod.splits sum.splits if_splits option.splits)

definition acted :: "bool \<Rightarrow> provider \<Rightarrow> platform \<Rightarrow> ('w gy_custodian \<times> 'w) \<times> rng \<Rightarrow> ('w gy_custodian \<times> 'w) \<times> rng \<Rightarrow> bool" where
  "acted ok L P v v1 \<longleftrightarrow> (\<exists>a x. run_act (cust_wire_store L P) a v = (x, v1) \<and> (ok \<longrightarrow> x = Inr ()))"

text \<open>What an operation may do to the world: loads, and steps of commits, all of them successful or not.\<close>

definition moves :: "bool \<Rightarrow> provider \<Rightarrow> platform \<Rightarrow> ('w gy_custodian \<times> 'w \<Rightarrow> 'o) \<Rightarrow> ('w gy_custodian \<times> 'w) \<times> rng \<Rightarrow>
    ('w gy_custodian \<times> 'w) \<times> rng \<Rightarrow> bool" where
  "moves ok L P obs = (\<lambda>v v1. obs (fst v1) = obs (fst v) \<or> acted ok L P v v1)\<^sup>*\<^sup>*"

lemma moves_refl [simp]: "moves ok L P obs v v"
  by (simp add: moves_def)

lemma moves_trans: "moves ok L P obs v v1 \<Longrightarrow> moves ok L P obs v1 v2 \<Longrightarrow> moves ok L P obs v v2"
  unfolding moves_def by (rule rtranclp_trans)

lemma moves_obs: "obs (fst v1) = obs (fst v) \<Longrightarrow> moves ok L P obs v v1"
  unfolding moves_def by blast

lemma moves_weaken: "moves True L P obs v v1 \<Longrightarrow> moves ok L P obs v v1"
  unfolding moves_def acted_def by (erule rtranclp_mono [THEN predicate2D, rotated]) auto

lemma moves_acts:
  "run_acts (cust_wire_store L P) as v = (x, v1) \<Longrightarrow> (ok \<Longrightarrow> x = Inr ()) \<Longrightarrow> moves ok L P obs v v1"
proof (induction as arbitrary: v)
  case (Cons a as)
  obtain y v2 where y: "run_act (cust_wire_store L P) a v = (y, v2)" by (metis prod.exhaust)
  have "moves ok L P obs v v2"
    using Cons.prems y by (cases y) (auto simp: moves_def acted_def intro!: r_into_rtranclp)
  then show ?case using Cons.prems Cons.IH [of v2] y moves_trans [of ok L P obs v v2 v1] by (cases y) auto
qed simp

lemma moves_commit:
  assumes "gy_op_commit op1 v = (x, op2, v1)" "op_store op1 = cust_wire_store L P" "ok \<Longrightarrow> x = Inr ()"
  shows "moves ok L P obs v v1"
  using assms moves_acts [of L P "commit_plan op1" v x v1 ok obs] by (auto simp: commit_runs_plan split: prod.splits)

subsection \<open>Transactions of the receive context\<close>

text \<open>A computation on a stage over the wired store moves the world; if it succeeds, without a failed callback.\<close>

definition moving :: "provider \<Rightarrow> platform \<Rightarrow> ('w gy_custodian \<times> 'w \<Rightarrow> 'o) \<Rightarrow> (('w gy_custodian \<times> 'w) opst, 'e, 'a) sm \<Rightarrow> bool" where
  "moving L P obs m \<longleftrightarrow> (\<forall>s x s1. m s = Some (x, s1) \<longrightarrow> op_store (fst s) = cust_wire_store L P \<longrightarrow>
     op_store (fst s1) = cust_wire_store L P \<and> moves (\<not> isl x) L P obs (snd s) (snd s1))"

named_theorems moving_intros \<open>computations that move the world\<close>

lemma moving_stage:
  "staging L (cust_wire_store L P) obs m \<Longrightarrow> moving L P obs m"
  unfolding moving_def by (intro allI impI) (drule stagingD, auto intro: moves_obs)

lemma moving_bind [moving_intros]:
  assumes "moving L P obs m" "\<And>x. moving L P obs (k x)"
  shows "moving L P obs (sbind m k)"
  unfolding moving_def
proof (intro allI impI)
  fix s x s1 assume r: "sbind m k s = Some (x, s1)" and st: "op_store (fst s) = cust_wire_store L P"
  obtain y s2 where y: "m s = Some (y, s2)" using r by (cases "m s") (auto simp: sbind_def)
  have 1: "op_store (fst s2) = cust_wire_store L P" "moves (\<not> isl y) L P obs (snd s) (snd s2)"
    using assms(1) y st unfolding moving_def by blast+
  show "op_store (fst s1) = cust_wire_store L P \<and> moves (\<not> isl x) L P obs (snd s) (snd s1)"
  proof (cases y)
    case (Inl e)
    then show ?thesis using r y 1 by (auto simp: sbind_def)
  next
    case (Inr z)
    then have "k z s2 = Some (x, s1)" using r y by (simp add: sbind_def)
    then have "op_store (fst s1) = cust_wire_store L P" "moves (\<not> isl x) L P obs (snd s2) (snd s1)"
      using assms(2) 1(1) unfolding moving_def by blast+
    moreover have "moves (\<not> isl x) L P obs (snd s) (snd s2)" using 1(2) Inr moves_weaken by (simp del: split_paired_All)
    ultimately show ?thesis using moves_trans by blast
  qed
qed

lemma moving_steps [moving_intros]:
  "moving L P obs (s_begin (cust_wire_store L P))" "moving L P obs s_abort" "moving L P obs (s_res x)"
  "moving L P obs m \<Longrightarrow> moving L P obs (s_or_abort m)"
  "moving L P obs a \<Longrightarrow> (\<And>y. moving L P obs (f y)) \<Longrightarrow> moving L P obs (case z of None \<Rightarrow> a | Some y \<Rightarrow> f y)"
  "moving L P obs a \<Longrightarrow> moving L P obs b \<Longrightarrow> moving L P obs (if q then a else b)"
  by (fastforce simp: moving_def s_begin_def gy_op_begin_def s_abort_def gy_op_abort_def op_clear_def s_res_def s_or_abort_def
      split: option.splits sum.splits prod.splits)+

lemma moving_commit [moving_intros]: "moving L P obs s_commit"
proof -
  have "op_store op2 = op_store op1" if "gy_op_commit op1 v = (x, op2, v1)" for op1 op2 :: "('a gy_custodian \<times> 'a) gy_op" and v x v1
    using that by (auto simp: commit_runs_plan gy_op_abort_def op_clear_def split: prod.splits)
  then show ?thesis
    unfolding moving_def s_commit_def by (auto intro!: moves_commit simp: isl_def) (metis old.unit.exhaust sum.exhaust)
qed

lemma moving_transaction [moving_intros]:
  "staging L (cust_wire_store L P) obs m \<Longrightarrow> moving L P obs (one_transaction (cust_wire_store L P) m)"
  unfolding one_transaction_def by (intro moving_intros moving_stage)

lemma moving_delete_user:
  assumes "loads_keep (cust_wire_store L P) obs"
  shows "moving L P obs (gy_delete_user L (cust_wire_store L P) u)"
proof -
  have d: "moving L P obs (defer_delete_device_inner L u i)" for i by (intro moving_stage staging_intros assms)
  have l: "moving L P obs (s_load (\<lambda>op1. gy_op_load_user op1 u))" "moving L P obs (s_put (\<lambda>op1. gy_op_delete op1 GY_REC_USER u))"
    by (intro moving_stage staging_intros assms)+
  have "moving L P obs (delete_user_devices L (cust_wire_store L P) u is)" for "is"
    by (induction "is") (auto intro!: moving_intros d)
  then show ?thesis
    unfolding gy_delete_user_def by (intro moving_intros l)
qed

lemma on_recv_op_moves:
  assumes "moving L P obs m" "on_recv_op L P m s = Some (x, s1)"
  shows "fst s1 = fst s" "moves (\<not> isl x) L P obs (snd s) (snd s1)"
proof -
  have "op_store (rx_op (cust_recv_ctx L P c)) = cust_wire_store L P" for c
    by (simp add: cust_recv_ctx_def gy_recv_ctx_init_def op_zero_def)
  then show "fst s1 = fst s" "moves (\<not> isl x) L P obs (snd s) (snd s1)"
    using assms unfolding moving_def on_recv_op_def by fastforce+
qed

lemma recv_moves:
  assumes "gy_recv L u i msg cap (rx, v) = Some (x, (rx1, v1)) \<or> gy_hybrid_recv L hik hspks hopks u i msg cap (rx, v) = Some (x, (rx1, v1))"
    and "rx_store rx = cust_wire_store L P" "loads_keep (cust_wire_store L P) obs"
  shows "moves (\<not> isl x) L P obs v v1"
proof -
  have *: ?thesis if m: "keeps (recv_rel L (rx_store rx) obs) m" "map_option recv_end (m (recv_begin rx, v)) = Some (x, (rx1, v1))" for m
  proof -
    obtain op1 v2 where o: "(op_step L)\<^sup>*\<^sup>* (gy_op_begin (rx_op rx) (rx_store rx)) op1" "obs (fst v2) = obs (fst v)"
        "\<And>e. x = Inl e \<Longrightarrow> v1 = v2 \<or> gy_op_commit op1 v2 = (Inl e, gy_op_abort op1, v1)"
        "\<And>pt. x = Inr pt \<Longrightarrow> gy_op_commit op1 v2 = (Inr (), gy_op_abort op1, v1)"
      by (rule recv_end_outcome [OF m]) metis
    have "op_store op1 = cust_wire_store L P" using op_reach_inv [OF o(1)] assms(2) by simp
    then have "moves (\<not> isl x) L P obs v2 v1"
      using o(3,4) by (cases x) (auto intro: moves_commit)
    then show ?thesis using moves_obs [OF o(2)] moves_trans by blast
  qed
  from assms(1) show ?thesis
  proof
    assume "gy_recv L u i msg cap (rx, v) = Some (x, (rx1, v1))"
    then show ?thesis
      by (intro * [OF recv_keeps(4)]) (use assms in \<open>simp_all add: gy_recv_def\<close>)
  next
    assume "gy_hybrid_recv L hik hspks hopks u i msg cap (rx, v) = Some (x, (rx1, v1))"
    then show ?thesis
    proof (cases rule: hybrid_recv_shape)
      case (2 m)
      have "keeps (recv_rel L (rx_store rx) obs) m"
        using 2(1) assms(2,3) by (auto intro: recv_keeps received.keeps_res simp del: split_paired_All)
      then show ?thesis using * 2(2) by blast
    qed simp
  qed
qed

lemma receive_moves:
  assumes "gy_receive L P u i msg cap s = Some (x, s1)" "loads_keep (cust_wire_store L P) obs"
  shows "fst s1 = fst s" "moves (\<not> isl x) L P obs (snd s) (snd s1)"
proof -
  have st: "rx_store (cust_recv_ctx L P c) = cust_wire_store L P" for c by (simp add: cust_recv_ctx_def gy_recv_ctx_init_def)
  show "fst s1 = fst s"
    using assms(1) by (auto simp: gy_receive_def with_cust_def s_res_def split: if_splits)
  show "moves (\<not> isl x) L P obs (snd s) (snd s1)"
    using assms(1) recv_moves [OF _ st assms(2)]
    by (fastforce simp: gy_receive_def with_cust_def s_res_def split: if_splits)
qed

subsection \<open>Calls\<close>

datatype api_call = Send_open | Prepare "bytes list" "nat option" | Encrypt bytes bytes bytes nat
  | Initiate bool bytes bytes bytes bytes bool nat | Commit | Rollback
  | Receive bytes bytes bytes nat | Accept_identity bytes bytes bytes | Purge_device bytes bytes | Purge_user bytes | Pq_pending bytes bytes

definition outcome :: "(('e + 'a) \<times> 's) option \<Rightarrow> (bool \<times> 's) option" where
  "outcome z = map_option (\<lambda>(x, s). (\<not> isl x, s)) z"

text \<open>Whether a call succeeds, and the state it leaves.\<close>

fun api_run :: "provider \<Rightarrow> platform \<Rightarrow> api_call \<Rightarrow> 'w apist \<Rightarrow> (bool \<times> 'w apist) option" where
  "api_run L P Send_open s = outcome (gy_send_open s)"
| "api_run L P (Prepare ts cap) s = outcome (gy_prepare L ts cap s)"
| "api_run L P (Encrypt u i pt cap) s = outcome (gy_encrypt L u i pt cap s)"
| "api_run L P (Initiate again u i b pt want cap) s = outcome ((if again then gy_reinitiate else gy_initiate) L u i b pt want cap s)"
| "api_run L P Commit s = outcome (gy_commit s)"
| "api_run L P Rollback s = Some (True, gy_rollback s)"
| "api_run L P (Receive u i msg cap) s = outcome (gy_receive L P u i msg cap s)"
| "api_run L P (Accept_identity u i b) s = outcome (gy_accept_identity L P u i b s)"
| "api_run L P (Purge_device u i) s = outcome (gy_purge_device L P u i s)"
| "api_run L P (Purge_user u) s = outcome (gy_purge_user L P u s)"
| "api_run L P (Pq_pending u i) s = outcome (gy_pq_pending L P u i s)"

fun sending :: "api_call \<Rightarrow> bool" where
  "sending (Prepare ts cap) = True" | "sending (Encrypt u i pt cap) = True" | "sending (Initiate again u i b pt want cap) = True"
| "sending a = False"

fun managing :: "api_call \<Rightarrow> bool" where
  "managing (Receive u i msg cap) = True" | "managing (Accept_identity u i b) = True" | "managing (Purge_device u i) = True"
| "managing (Purge_user u) = True" | "managing (Pq_pending u i) = True" | "managing a = False"

lemma outcome_eq: "outcome z = Some (ok, s) \<longleftrightarrow> (\<exists>x. z = Some (x, s) \<and> ok = (\<not> isl x))"
  by (auto simp: outcome_def)

lemma outcome_res [simp]: "outcome (s_res x s) = Some (\<not> isl x, s)"
  by (simp add: outcome_def s_res_def)

lemma on_recv_op_outcome:
  assumes "outcome (on_recv_op L P m s) = Some (ok, s1)" "moving L P obs m"
  shows "fst s1 = fst s \<and> moves ok L P obs (snd s) (snd s1)"
proof -
  obtain x where "on_recv_op L P m s = Some (x, s1)" "ok = (\<not> isl x)" using assms(1) by (auto simp: outcome_eq)
  then show ?thesis using on_recv_op_moves [OF assms(2)] by simp
qed

lemma framed_run: "sbind m (\<lambda>inner. with_cust (\<lambda>c. s_res (Inr (f c inner)))) s = Some (x, s1) \<Longrightarrow> \<exists>y. m s = Some (y, s1)"
  by (auto simp: sbind_def with_cust_def s_res_def split: option.splits sum.splits)

lemmas entry_defs = gy_encrypt_def api_initiate_hybrid_def api_initiate_def with_cust_def parsed_def s_res_def

text \<open>Between opening and closing, the calls of a send transaction only move its stage.\<close>

lemma sending_rel:
  assumes "api_run L P a s = Some (ok, s1)" "sending a" "loads_keep (sc_store (fst s)) obs"
  shows "send_rel L obs s s1"
proof -
  have refl: "send_rel L obs s s" by (simp add: send_rel_def staged.rel_refl) (metis gy_send_ctx.surjective gy_send_ctx.update_convs(8))
  note k = send_entry_keeps [OF assms(3)]
  have enc: "send_rel L obs s s1" if "gy_encrypt L u i pt cap s = Some (x, s1)" for u i pt cap x
    using that refl by (auto simp: entry_defs split: if_splits dest!: framed_run dest: k(2))
  have hyb: "send_rel L obs s s1" if "api_initiate_hybrid L u i b pt want cap s = Some (x, s1)" for u i b pt want cap x
    using that refl by (auto simp: entry_defs split: if_splits sum.splits dest!: framed_run dest: k(5))
  have init: "send_rel L obs s s1" if "api_initiate L re u i b pt want cap s = Some (x, s1)" for re u i b pt want cap x
    using that refl hyb [of u i b pt want cap x] by (auto simp: entry_defs split: if_splits sum.splits dest!: framed_run dest: k(3,4))
  show ?thesis
    using assms(1,2) enc init k(1) [where s' = s1] by (cases a) (auto simp: outcome_eq gy_prepare_def gy_initiate_def gy_reinitiate_def split: if_splits)
qed

lemma managing_moves:
  assumes "api_run L P a s = Some (ok, s1)" "managing a" "loads_keep (cust_wire_store L P) obs"
  shows "fst s1 = fst s \<and> moves ok L P obs (snd s) (snd s1)"
proof -
  have acc: "moving L P obs (one_transaction (cust_wire_store L P) (gy_accept_key_change L sid u i ik))"
      "moving L P obs (one_transaction (cust_wire_store L P) (gy_hybrid_accept_key_change L sid u i hik))"
      "moving L P obs (one_transaction (cust_wire_store L P) (gy_delete_device L u i))" for sid u i ik hik
    by (intro moving_intros staging_intros assms(3))+
  have pq: "moving L P obs (gy_device_pq_state L u i)" for u i by (intro moving_stage staging_intros assms(3))
  show ?thesis
  proof (cases a)
    case (Receive u i msg cap)
    then obtain x where "gy_receive L P u i msg cap s = Some (x, s1)" "ok = (\<not> isl x)" using assms(1) by (auto simp: outcome_eq)
    then show ?thesis using receive_moves [OF _ assms(3)] by simp
  next
    case (Accept_identity u i b)
    show ?thesis
    proof (cases "is_hybrid (cu_desc (cust_of s))")
      case True
      then show ?thesis using Accept_identity assms(1) on_recv_op_outcome [OF _ acc(2)]
        by (cases "gy_hybrid_bundle_parse (cu_desc (cust_of s)) b") (simp_all add: gy_accept_identity_def with_cust_def)
    next
      case False
      then show ?thesis using Accept_identity assms(1) on_recv_op_outcome [OF _ acc(1)]
        by (cases "gy_bundle_parse (cu_desc (cust_of s)) b") (simp_all add: gy_accept_identity_def with_cust_def)
    qed
  next
    case (Purge_device u i)
    then show ?thesis using assms(1) on_recv_op_outcome [OF _ acc(3)] by (simp add: gy_purge_device_def)
  next
    case (Purge_user u)
    then show ?thesis using assms(1) on_recv_op_outcome [OF _ moving_delete_user [OF assms(3)]] by (simp add: gy_purge_user_def)
  next
    case (Pq_pending u i)
    have m: "moving L P obs (sbind (s_begin (cust_wire_store L P)) (\<lambda>_. sbind (s_or_abort (gy_device_pq_state L u i)) (\<lambda>found.
        sbind s_abort (\<lambda>_. s_res (Inr (f found))))))" for f :: "bool option \<Rightarrow> gy_pq_status" by (intro moving_intros pq)
    show ?thesis using Pq_pending assms(1) on_recv_op_outcome [OF _ m]
      by (cases "is_hybrid (cu_desc (cust_of s))") (simp_all add: gy_pq_pending_def with_cust_def)
  qed (use assms(2) in simp_all)
qed

subsection \<open>The machine of the send transaction\<close>

text \<open>The send context of the object works on the wired store.\<close>

definition wired :: "provider \<Rightarrow> platform \<Rightarrow> 'w apist \<Rightarrow> bool" where
  "wired L P s \<longleftrightarrow> sc_store (fst s) = cust_wire_store L P \<and> op_store (sc_op (fst s)) = cust_wire_store L P"

inductive api_reach :: "provider \<Rightarrow> platform \<Rightarrow> 'w apist \<Rightarrow> bool" for L P where
  ready: "cust_send_ctx L P c = Inr sx \<Longrightarrow> \<not> cu_send_open c \<Longrightarrow> api_reach L P (sx, ((c, w), r))"
| call: "api_reach L P s \<Longrightarrow> api_run L P a s = Some (ok, s1) \<Longrightarrow> api_reach L P s1"

lemma send_ctx_wired: "cust_send_ctx L P c = Inr sx \<Longrightarrow> wired L P (sx, v) \<and> \<not> sc_begun sx"
  by (auto simp: cust_send_ctx_def gy_send_ctx_init_def wired_def op_zero_def split: if_splits)

lemma set_open_simps [simp]:
  "fst (set_open b s) = fst s" "cust_of (set_open b s) = (cust_of s)\<lparr>cu_send_open := b\<rparr>" "app_of (set_open b s) = app_of s"
  "snd (snd (set_open b s)) = snd (snd s)"
  by (simp_all add: set_open_def split: prod.splits)

lemma reset_open: "\<not> cu_send_open c \<Longrightarrow> c\<lparr>cu_send_open := False\<rparr> = c"
  by (cases c) simp

lemma plain_loads: "loads_keep (cust_wire_store L P) (observed st (\<lambda>_. ()))"
  by (rule wire_loads_keep) (simp add: loads_keep_def)

lemma moves_open:
  assumes "moves ok L P (observed st view) v v1"
  shows "cu_send_open (fst (fst v1)) = cu_send_open (fst (fst v))"
  using assms unfolding moves_def
proof (induction rule: rtranclp_induct)
  case (step y z)
  obtain c w r c1 w1 r1 where p: "y = ((c, w), r)" "z = ((c1, w1), r1)" by (metis prod.exhaust)
  have "cu_send_open c1 = cu_send_open c" using step.hyps(2) by (auto simp: p observed_eq acted_def dest: wire_act(1))
  then show ?case using step.IH by (simp add: p)
qed simp

text \<open>A call of an open transaction moves the stage alone.\<close>

lemma sending_world:
  assumes "api_run L P a s = Some (ok, s1)" "sending a" "wired L P s" "loads_keep (cu_app_store (cust_of s)) view"
  shows "wired L P s1" "\<exists>op1. fst s1 = (fst s)\<lparr>sc_op := op1\<rparr>" "cust_of s1 = cust_of s" "view (app_of s1) = view (app_of s)"
proof -
  have st: "sc_store (fst s) = cust_wire_store L P" "op_store (sc_op (fst s)) = cust_wire_store L P"
    using assms(3) by (simp_all add: wired_def)
  have r: "send_rel L (observed (cu_app_store (cust_of s)) view) s s1"
    by (rule sending_rel [OF assms(1,2)]) (use wire_loads_keep [OF assms(4)] st in simp)
  then show "\<exists>op1. fst s1 = (fst s)\<lparr>sc_op := op1\<rparr>" unfolding send_rel_def by blast
  then obtain op1 where o: "fst s1 = (fst s)\<lparr>sc_op := op1\<rparr>" by blast
  have "op_store (sc_op (fst s1)) = cust_wire_store L P" and b: "observed (cu_app_store (cust_of s)) view (fst (snd s1)) =
      observed (cu_app_store (cust_of s)) view (fst (snd s))"
    using r st by (auto simp: send_rel_def stage_rel_def simp del: split_paired_Ex)
  then show "wired L P s1" using o st by (simp add: wired_def)
  show "cust_of s1 = cust_of s" "view (app_of s1) = view (app_of s)" using b by (auto simp: observed_def split: if_splits)
qed

lemma closed_refuses:
  assumes "api_run L P a s = Some (ok, s1)" "sending a" "\<not> sc_begun (fst s)"
  shows "\<not> ok \<and> s1 = s"
  using assms
  by (cases a) (auto simp: outcome_eq gy_prepare_def gy_send_prepare_def gy_encrypt_def gy_send_encrypt_def gy_initiate_def gy_reinitiate_def
      api_initiate_def api_initiate_hybrid_def gy_send_initiate_def gy_session_reinitiate_def send_initiate_core_def gy_send_initiate_hybrid_def
      with_cust_def parsed_def send_run_def s_res_def sbind_def prod_eq_iff split: if_splits sum.splits option.splits)

lemma wired_step:
  assumes "wired L P s" "api_run L P a s = Some (ok, s1)"
  shows "wired L P s1"
proof -
  have m: "managing a \<Longrightarrow> fst s1 = fst s" using managing_moves [OF assms(2) _ plain_loads] by blast
  have s: "sending a \<Longrightarrow> wired L P s1" by (rule sending_world [OF assms(2) _ assms(1), of "\<lambda>_. ()"]) (simp_all add: loads_keep_def)
  show ?thesis
    using assms m s
    by (cases a) (auto simp: outcome_eq wired_def gy_send_open_def gy_commit_def gy_send_commit_def gy_rollback_def with_cust_def s_res_def
        gy_send_begin_def gy_send_abort_def gy_op_begin_def gy_op_abort_def op_clear_def commit_runs_plan Let_def split: if_splits prod.splits)
qed

lemma flag_step:
  assumes "wired L P s" "sc_begun (fst s) = cu_send_open (cust_of s)" "api_run L P a s = Some (ok, s1)"
  shows "sc_begun (fst s1) = cu_send_open (cust_of s1)"
proof -
  have m: "managing a \<Longrightarrow> fst s1 = fst s \<and> cu_send_open (cust_of s1) = cu_send_open (cust_of s)"
    using managing_moves [OF assms(3) _ plain_loads] moves_open by blast
  have s: "sending a \<Longrightarrow> (\<exists>op1. fst s1 = (fst s)\<lparr>sc_op := op1\<rparr>) \<and> cust_of s1 = cust_of s"
    using sending_world(2,3) [OF assms(3) _ assms(1), of "\<lambda>_. ()"] by (simp add: loads_keep_def)
  show ?thesis
    using assms(2,3) m s
    by (cases a) (auto simp: outcome_eq gy_send_open_def gy_commit_def gy_send_commit_def gy_rollback_def with_cust_def s_res_def
        gy_send_begin_def gy_send_abort_def Let_def split: if_splits prod.splits)
qed

lemma reach_inv:
  assumes "api_reach L P s"
  shows "wired L P s \<and> sc_begun (fst s) = cu_send_open (cust_of s)"
  using assms
proof (induction rule: api_reach.induct)
  case (ready c sx w r)
  then show ?case using send_ctx_wired by fastforce
next
  case (call s a ok s1)
  then show ?case using wired_step flag_step by blast
qed

text \<open>
  C19. The send transaction is a machine of two states. In every state that any calls of the public API
  lead to, with any results, the flag of the object and the stage of its send context agree. While no
  transaction is open, every call that would stage a message and every commit is refused and changes
  nothing; opening succeeds exactly then, if there is an identity; a commit, whatever its result, and a
  rollback close the transaction. Receives and the management of peers neither need a transaction nor
  are kept out by one, and they leave its stage as it is.
\<close>

theorem send_transactions:
  assumes "api_reach L P s"
  shows "(sc_begun (fst s) \<longleftrightarrow> cu_send_open (cust_of s)) \<and>
    (\<forall>a ok s1. api_run L P a s = Some (ok, s1) \<longrightarrow>
       ((sending a \<or> a = Commit) \<and> \<not> cu_send_open (cust_of s) \<longrightarrow> \<not> ok \<and> s1 = s) \<and>
       (a = Send_open \<longrightarrow> (ok \<longleftrightarrow> cu_have_identity (cust_of s) \<and> \<not> cu_send_open (cust_of s)) \<and> (ok \<longrightarrow> cu_send_open (cust_of s1))) \<and>
       (a = Commit \<or> a = Rollback \<longrightarrow> \<not> cu_send_open (cust_of s1)) \<and>
       (sending a \<or> managing a \<longrightarrow> cu_send_open (cust_of s1) = cu_send_open (cust_of s)) \<and>
       (managing a \<longrightarrow> fst s1 = fst s))"
proof (intro conjI allI impI)
  note inv = reach_inv [OF assms]
  show flag: "sc_begun (fst s) \<longleftrightarrow> cu_send_open (cust_of s)" using inv by simp
  fix a ok s1 assume run: "api_run L P a s = Some (ok, s1)"
  have m: "managing a \<Longrightarrow> fst s1 = fst s \<and> cu_send_open (cust_of s1) = cu_send_open (cust_of s)"
    using managing_moves [OF run _ plain_loads] moves_open by blast
  have sd: "sending a \<Longrightarrow> cust_of s1 = cust_of s"
    using sending_world(3) [OF run, of "\<lambda>_. ()"] inv by (simp add: loads_keep_def)
  show "\<not> ok" "s1 = s" if "(sending a \<or> a = Commit) \<and> \<not> cu_send_open (cust_of s)"
    using that closed_refuses [OF run] flag run by (auto simp: gy_commit_def with_cust_def)
  show "ok = (cu_have_identity (cust_of s) \<and> \<not> cu_send_open (cust_of s))" "ok \<Longrightarrow> cu_send_open (cust_of s1)" if "a = Send_open"
    using run that by (auto simp: gy_send_open_def with_cust_def outcome_def s_res_def set_open_def split: if_splits prod.splits)
  show "\<not> cu_send_open (cust_of s1)" if "a = Commit \<or> a = Rollback"
    using run that by (auto simp: outcome_eq gy_commit_def gy_rollback_def with_cust_def s_res_def split: if_splits)
  show "cu_send_open (cust_of s1) = cu_send_open (cust_of s)" if "sending a \<or> managing a" using that m sd by auto
  show "fst s1 = fst s" if "managing a" using that m by blast
qed

text \<open>
  C20. A rollback discards everything. A transaction is opened, any calls are made in it, whatever they
  returned, and it is rolled back: the object, its keys and handles, the observed part of the
  application's state, which loads do not change, and the send context are those of a transaction
  that was opened and closed at once.
\<close>

theorem rollback_discards:
  assumes "api_reach L P s" "api_run L P Send_open s = Some (True, s1)" "loads_keep (cu_app_store (cust_of s)) view"
    and "(\<lambda>x y. \<exists>a ok. sending a \<and> api_run L P a x = Some (ok, y))\<^sup>*\<^sup>* s1 s2"
  shows "cust_of (gy_rollback s2) = cust_of s \<and> view (app_of (gy_rollback s2)) = view (app_of s) \<and>
    fst (gy_rollback s2) = fst (gy_rollback s1)"
proof -
  note inv = reach_inv [OF assms(1)]
  have o: "s1 = set_open True (gy_send_begin (fst s), snd s)" "\<not> cu_send_open (cust_of s)"
    using assms(2) by (auto simp: outcome_eq gy_send_open_def with_cust_def s_res_def split: if_splits)
  have w: "wired L P s1" using wired_step [OF _ assms(2)] inv by blast
  have "wired L P s2 \<and> (\<exists>op1. fst s2 = (fst s1)\<lparr>sc_op := op1\<rparr>) \<and> cust_of s2 = cust_of s1 \<and> view (app_of s2) = view (app_of s1)"
    using assms(4)
  proof (induction rule: rtranclp_induct)
    case base
    have "fst s1 = (fst s1)\<lparr>sc_op := sc_op (fst s1)\<rparr>" by simp
    then show ?case using w by blast
  next
    case (step y z)
    then obtain a ok where r: "sending a" "api_run L P a y = Some (ok, z)" by blast
    have l: "loads_keep (cu_app_store (cust_of y)) view" using step.IH assms(3) o(1) by simp
    from sending_world [OF r(2,1) _ l] step.IH show ?case by auto
  qed
  then obtain op1 where s2: "fst s2 = (fst s1)\<lparr>sc_op := op1\<rparr>" "op_store op1 = cust_wire_store L P" "cust_of s2 = cust_of s1"
      "view (app_of s2) = view (app_of s1)" by (auto simp: wired_def)
  have "op_store (sc_op (fst s1)) = cust_wire_store L P" using w by (simp add: wired_def)
  then have "gy_op_abort op1 = gy_op_abort (sc_op (fst s1))" using s2(2) by (simp add: gy_op_abort_def op_clear_def)
  moreover have "(cust_of s)\<lparr>cu_send_open := False\<rparr> = cust_of s" using o(2) by (rule reset_open)
  ultimately show ?thesis using s2(1,3,4) by (simp add: gy_rollback_def gy_send_abort_def o(1))
qed

subsection \<open>Durability through the public API\<close>

text \<open>
  The application keeps the records and the identity blob apart: no record callback, failed or not,
  touches the identity slot.
\<close>

definition records_apart :: "'w gy_store \<Rightarrow> ('w \<Rightarrow> bytes) \<Rightarrow> bool" where
  "records_apart st view \<longleftrightarrow> loads_keep st view \<and>
     (\<forall>k i b v. view (fst (snd (store_record st k i b v))) = view (fst v)) \<and>
     (\<forall>k i v. view (fst (snd (delete_record st k i v))) = view (fst v))"

text \<open>
  The life of a custodian with an identity under the public API: calls that succeeded, calls of a send
  transaction with any result, and calls of the custodian itself, also failed ones.
\<close>

inductive live :: "provider \<Rightarrow> platform \<Rightarrow> 'w gy_store \<Rightarrow> ('w \<Rightarrow> bytes) \<Rightarrow> bytes \<Rightarrow> 'w apist \<Rightarrow> bool" for L P st view cred where
  opened: "custody L P st view cred (c, (w, r)) \<Longrightarrow> cust_send_ctx L P c = Inr sx \<Longrightarrow> live L P st view cred (sx, ((c, w), r))"
| call: "live L P st view cred s \<Longrightarrow> api_run L P a s = Some (ok, s1) \<Longrightarrow> ok \<or> sending a \<Longrightarrow> live L P st view cred s1"
| custodian: "live L P st view cred (sx, ((c, w), r)) \<Longrightarrow> run_call L P a (c, (w, r)) = Some (x, (c1, (w1, r1))) \<Longrightarrow>
    live L P st view cred (sx, ((c1, w1), r1))"

abbreviation api_kept :: "provider \<Rightarrow> platform \<Rightarrow> 'w gy_store \<Rightarrow> ('w \<Rightarrow> bytes) \<Rightarrow> bytes \<Rightarrow> ('w gy_custodian \<times> 'w) \<times> rng \<Rightarrow> bool" where
  "api_kept L P st view cred v \<equiv> kept L P st view cred (fst (fst v), (snd (fst v), snd v))"

lemma kept_open [simp]: "kept L P st view cred (c\<lparr>cu_send_open := b\<rparr>, v) = kept L P st view cred (c, v)"
  by (simp add: kept_def cust_inv_def mirrored_def sealed_disk_def tail_opens_def blob_holds_def cust_header_def)

lemma apart_act:
  assumes "records_apart (cu_app_store c) view" "\<And>p. a \<noteq> Act_Consume p"
    and "run_act (cust_wire_store L P) a ((c, w), r) = (x, ((c1, w1), r1))"
  shows "view w1 = view w"
proof -
  have s: "view (fst v1) = view (fst v)" if "store_record (cu_app_store c) k i b v = (y, v1)" for k i b v y v1
    using assms(1) that unfolding records_apart_def by (metis snd_conv)
  have d: "view (fst v1) = view (fst v)" if "delete_record (cu_app_store c) k i v = (y, v1)" for k i v y v1
    using assms(1) that unfolding records_apart_def by (metis snd_conv)
  have c: "c1 = c" using wire_act(2) [OF assms(3)] assms(2) by blast
  show ?thesis
  proof (cases a)
    case (Act_Store k i b)
    then show ?thesis using assms(3) unfolding c
      by (auto simp: run_act_def cust_wire_store_def tr_store_record_def tr_call_def cust_sealed_store_def gy_sealed_store_bind_def
          ss_store_record_def Let_def split: if_splits sum.splits prod.splits dest!: s)
  next
    case (Act_Delete k i)
    then show ?thesis using assms(3) unfolding c
      by (auto simp: run_act_def cust_wire_store_def tr_delete_record_def tr_call_def cust_sealed_store_def gy_sealed_store_bind_def
          ss_delete_record_def Let_def split: prod.splits dest!: d)
  qed (use assms(2) in blast)
qed

lemma moves_kept:
  assumes "moves True L P (observed st view) v v1" "api_kept L P st view cred v" "seal_provider L" "identity_slot st view" "records_apart st view"
  shows "api_kept L P st view cred v1"
  using assms(1) unfolding moves_def
proof (induction rule: rtranclp_induct)
  case base
  then show ?case by (rule assms(2))
next
  case (step y z)
  obtain c w r c1 w1 r1 where p: "y = ((c, w), r)" "z = ((c1, w1), r1)" by (metis prod.exhaust)
  have k: "kept L P st view cred (c, (w, r))" using step.IH by (simp add: p)
  have a: "cu_app_store c = st" by (rule keptD(4) [OF k])
  show ?case
  proof (cases "observed st view (fst z) = observed st view (fst y)")
    case True
    then show ?thesis using kept_view [OF k] a by (simp add: p observed_eq)
  next
    case False
    then obtain b where b: "run_act (cust_wire_store L P) b ((c, w), r) = (Inr (), ((c1, w1), r1))"
      using step.hyps(2) by (auto simp: p acted_def)
    show ?thesis
    proof (cases "\<exists>q. b = Act_Consume q")
      case True
      then obtain q where "tr_consume_opk L P q ((c, w), r) = (Inr (), ((c1, w1), r1))" using b by (auto simp: run_act_def cust_wire_store_def)
      then show ?thesis using kept_consume [OF k] assms(3,4) a by (simp add: p storable_def)
    next
      case False
      then have "c1 = c" "view w1 = view w" using wire_act(2) [OF b] apart_act [OF _ _ b] assms(5) a by auto
      then show ?thesis using kept_view [OF k] by (simp add: p)
    qed
  qed
qed

lemma call_kept:
  assumes "api_run L P a s = Some (ok, s1)" "ok \<or> sending a" "wired L P s" "api_kept L P st view cred (snd s)"
    and "seal_provider L" "identity_slot st view" "records_apart st view"
  shows "api_kept L P st view cred (snd s1)"
proof -
  have a: "cu_app_store (cust_of s) = st" using keptD(4) [OF assms(4)] by simp
  have l: "loads_keep st view" using assms(7) by (simp add: records_apart_def)
  have m: "api_kept L P st view cred (snd s1)" if "managing a" "ok"
    using managing_moves [OF assms(1) that(1) wire_loads_keep [OF l]] that(2) moves_kept [OF _ assms(4-7)] by simp
  have sd: "api_kept L P st view cred (snd s1)" if "sending a"
    using sending_world(3,4) [OF assms(1) that assms(3), of view] kept_view [OF assms(4)] a l by simp
  have cm: "api_kept L P st view cred (snd s1)" if g: "a = Commit" "ok"
  proof -
    obtain y op2 v2 where c: "gy_op_commit (sc_op (fst s)) (snd s) = (y, op2, v2)" by (metis prod.exhaust)
    obtain x where "gy_commit s = Some (x, s1)" "\<not> isl x" using assms(1) g by (auto simp: outcome_eq)
    then have "y = Inr ()" "s1 = set_open False ((fst s)\<lparr>sc_op := op2, sc_begun := False\<rparr>, v2)"
      using c by (cases y; auto simp: gy_commit_def with_cust_def s_res_def gy_send_commit_def Let_def split: if_splits)+
    then show ?thesis
      using c moves_kept [OF moves_commit assms(4-7), of "sc_op (fst s)" "Inr ()" op2 v2] assms(3) by (auto simp: wired_def set_open_def split: prod.splits)
  qed
  show ?thesis
    using assms(1,2,4) m sd cm
    by (cases a) (auto simp: outcome_eq gy_send_open_def gy_rollback_def with_cust_def s_res_def set_open_def split: if_splits prod.splits)
qed

lemma live_kept:
  assumes "live L P st view cred s" "seal_provider L" "identity_slot st view" "records_apart st view"
  shows "wired L P s \<and> api_kept L P st view cred (snd s)"
  using assms(1)
proof (induction rule: live.induct)
  case (opened c w r sx)
  then show ?case using send_ctx_wired custody_kept [OF opened(1) assms(2,3)] by fastforce
next
  case (call s a ok s1)
  then show ?case using wired_step call_kept [OF _ _ _ _ assms(2-4)] by blast
next
  case (custodian sx c w r a x c1 w1 r1)
  have k: "kept L P st view cred (c, (w, r))" using custodian.IH by simp
  have "storable L view c" using keptD(4) [OF k] assms(2,3) by (simp add: storable_def)
  then have "kept L P st view cred (c1, (w1, r1))" using postD [OF kept_call [OF k] custodian.hyps(2)] by simp
  then show ?case using custodian.IH by (simp add: wired_def)
qed

text \<open>
  C21. The public API keeps the device. Whatever succeeded through the API since the custodian was
  created or opened, receives that used up one-time prekeys, commits, accepted identities and purges
  included, whatever was staged or rolled back, and whatever calls the custodian had in between, failed
  ones included: opening the blob in the application's store with the credential gives an object with
  the same identity, prekeys, application keys and identifiers.
\<close>

theorem api_reopens:
  assumes "seal_provider L" "identity_slot st view" "records_apart st view"
    and "live L P st view cred (sx, ((c, w), r))" "machine_reads L P c"
  shows "\<exists>w1 r1. gy_custodian_open L P st cred (w, r) = (Inr (reopened c), (w1, r1)) \<and> view w1 = view w"
  using kept_opens [OF _ assms(2,5)] live_kept [OF assms(4,1,2,3)] by simp

end
