(* ===== verification/GY_WireWitness.thy ===== *)
theory GY_WireWitness
  imports GY_AppKey GY_DeliveryWitness
begin

text \<open>
  The theorems about the wire formats, the directory and the signing roles at concrete inputs, over the
  concrete provider.
\<close>

definition toy_pub :: "u32 \<Rightarrow> gy_public_key" where
  "toy_pub i = \<lparr>pub_pkid = i, pub_curve_type = 0x20, pub_pk = replicate 32 (ucast i)\<rparr>"

definition toy_hpub :: "u32 \<Rightarrow> gy_hybrid_public_key" where
  "toy_hpub i = \<lparr>hp_curve = toy_pub i, hp_mlkem_ek = replicate 800 (ucast i)\<rparr>"

definition toy_registration :: gy_prekey_bundle where
  "toy_registration = \<lparr>pb_ik = toy_pub 1, pb_spk = toy_pub 2, pb_spk_timestamp = 9, pb_spk_sig = replicate 64 3,
     pb_opk = absent_key 32\<rparr>"

definition toy_hybrid_registration :: gy_hybrid_prekey_bundle where
  "toy_hybrid_registration = \<lparr>hpb_ik = \<lparr>hi_base = toy_hpub 1, hi_mldsa_pk = replicate 1312 1\<rparr>, hpb_spk = toy_hpub 2,
     hpb_spk_timestamp = 9, hpb_spk_flags = 5, hpb_spk_ik_id = 1, hpb_spk_ed_sig = replicate 64 0,
     hpb_spk_mldsa_sig = replicate 2420 0, hpb_opk = toy_hpub 0\<rparr>"

lemma toy_lens:
  "curve_pk_len c25519 = 32" "sig_len c25519 = 64" "\<not> is_hybrid c25519" "suite_id c25519 = 1"
  "curve_pk_len h25519 = 32" "sig_len h25519 = 64" "is_hybrid h25519" "kem_pk_len h25519 = 800" "dsa_pk_len h25519 = 1312"
  "dsa_sig_len h25519 = 2420" "suite_id h25519 = 2"
  by (simp_all add: suite_row_defs suite_id_defs)

lemma toy_pub_wf: "key_wf 32 (toy_pub i)" "hpub_wf 32 800 (toy_hpub i)" "pub_pkid (toy_pub i) = i"
    "pub_pkid (hp_curve (toy_hpub i)) = i"
  by (simp_all add: key_wf_def hpub_wf_def toy_pub_def toy_hpub_def)

lemma toy_registration_wf:
  "bundle_wf c25519 toy_registration" "pub_pkid (pb_opk toy_registration) = 0" "hybrid_bundle_wf h25519 toy_hybrid_registration"
  "pub_pkid (hp_curve (hpb_opk toy_hybrid_registration)) = 0"
  by (simp_all add: bundle_wf_def hybrid_bundle_wf_def toy_lens toy_registration_def toy_hybrid_registration_def toy_pub_wf)

lemma toy_lookup: "gy_suite_desc toy (suite_id c25519) = Some c25519" "gy_suite_desc toy (suite_id h25519) = Some h25519"
  by (simp_all del: suite_desc_id)

theorem bundle_wire_roundtrip_witness:
  "(\<exists>w. gy_bundle_put 200 c25519 toy_registration = Inr w \<and> gy_bundle_parse c25519 w = Inr toy_registration) \<and>
   (\<exists>w. gy_hybrid_bundle_put 9000 h25519 toy_hybrid_registration = Inr w \<and>
      gy_hybrid_bundle_parse h25519 w = Inr toy_hybrid_registration)"
proof -
  have "gy_bundle_wire_len c25519 (pub_pkid (pb_opk toy_registration) \<noteq> 0) \<le> 200" "gy_hybrid_bundle_wire_len h25519 \<le> 9000"
    by (simp_all add: gy_bundle_wire_len_def gy_hybrid_bundle_wire_len_def toy_lens toy_registration_wf Let_def)
  then show ?thesis
    using bundle_wire_roundtrip [of c25519 toy_registration 200] bundle_wire_roundtrip [of h25519 _ 9000 toy_hybrid_registration]
      toy_registration_wf toy_lens by blast
qed

theorem envelope_exact_witness:
  "gy_envelope_parse 1 [1, 1, 2, 1, 1, 9] = Inr (2, [1, 1, 9]) \<and> gy_envelope_put 6 1 2 [1, 1, 9] = Inr [1, 1, 2, 1, 1, 9]"
proof -
  have p: "gy_envelope_put 6 1 2 [1, 1, 9] = Inr [1, 1, 2, 1, 1, 9]" and l: "length [1, 1, 2, 1, 1, 9 :: u8] = 6"
    by (simp_all add: gy_envelope_put_def GY_MSG_INIT_def GY_MSG_DR_def GY_ENVELOPE_HDR_LEN_def GY_WIRE_VERSION_def)
  have "gy_envelope_parse 1 [1, 1, 2, 1, 1, 9] = Inr (2, [1, 1, 9])"
    by (rule iffD2 [OF conjunct1 [OF envelope_exact]]) (simp only: l p, simp add: GY_WIRE_VERSION_def)
  with p show ?thesis by blast
qed

theorem directory_serves_published_witness:
  "\<exists>reg batch opk w. gy_bundle_put 200 c25519 toy_registration = Inr reg \<and>
     gy_opk_batch_put 200 c25519 [toy_pub 3, toy_pub 4] = Inr batch \<and> gy_opk_batch_count toy batch = Inr 2 \<and>
     gy_opk_batch_get toy batch 1 = Inr opk \<and> gy_bundle_assemble toy reg (Some opk) 200 = Inr w \<and>
     gy_bundle_parse c25519 w = Inr (toy_registration\<lparr>pb_opk := toy_pub 4\<rparr>)"
proof -
  obtain reg where reg: "gy_bundle_put 200 c25519 toy_registration = Inr reg"
    using bundle_put_total(1) [of c25519 toy_registration 200]
    by (auto simp: gy_bundle_wire_len_def toy_lens toy_registration_wf Let_def)
  obtain batch where b: "gy_opk_batch_put 200 c25519 [toy_pub 3, toy_pub 4] = Inr batch"
    by (simp add: gy_opk_batch_put_def gy_opk_batch_wire_len_def toy_lens Let_def)
  have h: "if is_hybrid c25519
      then gy_hybrid_bundle_put 200 c25519 toy_hybrid_registration = Inr reg \<and> hybrid_bundle_wf c25519 toy_hybrid_registration \<and>
        pub_pkid (hp_curve (hpb_opk toy_hybrid_registration)) = 0 \<and> gy_hybrid_opk_batch_put 200 c25519 [] = Inr batch \<and>
        (\<forall>k \<in> set []. hpub_wf (curve_pk_len c25519) (kem_pk_len c25519) k \<and> pub_pkid (hp_curve k) \<noteq> 0) \<and>
        gy_hybrid_bundle_wire_len c25519 \<le> 200 \<and> 2 = length ([] :: gy_hybrid_public_key list)
      else gy_bundle_put 200 c25519 toy_registration = Inr reg \<and> bundle_wf c25519 toy_registration \<and>
        pub_pkid (pb_opk toy_registration) = 0 \<and> gy_opk_batch_put 200 c25519 [toy_pub 3, toy_pub 4] = Inr batch \<and>
        (\<forall>k \<in> set [toy_pub 3, toy_pub 4]. key_wf (curve_pk_len c25519) k \<and> pub_pkid k \<noteq> 0) \<and>
        gy_bundle_wire_len c25519 True \<le> 200 \<and> 2 = length [toy_pub 3, toy_pub 4]"
    using reg b by (simp add: toy_lens toy_registration_wf toy_pub_wf gy_bundle_wire_len_def Let_def)
  from directory_serves_published [OF toy_lookup(1) h, of 1 0 None 0]
  show ?thesis using reg b by (auto simp: toy_lens)
qed

theorem signing_roles_separate_witness:
  "\<exists>b. signed_bytes toy c25519 (SO_request [1] [2, 3]) = Inr b \<and> signed_bytes toy c25519 (SO_request [1, 2] [3]) \<noteq> Inr b"
proof -
  have wf: "object_wf c25519 (SO_request [1] [2, 3])" "object_wf c25519 (SO_request [1, 2] [3])"
    by (simp_all add: request_too_long_def GY_APPKEY_SIGN_MAX_def)
  have "case signed_bytes toy c25519 (SO_request [1] [2, 3]) of Inl e \<Rightarrow> False | Inr b \<Rightarrow> True" by code_simp
  then obtain b where "signed_bytes toy c25519 (SO_request [1] [2, 3]) = Inr b" by (auto split: sum.splits)
  with signing_roles_separate [OF toy_lookup(1) toy_lookup(1) wf, of b] show ?thesis by auto
qed

end
