(* ===== verification/GY_CustodyWitness.thy ===== *)
theory GY_CustodyWitness
  imports GY_CustodyFaults GY_WireWitness
begin

text \<open>
  The theorems about the custodian at concrete inputs: a store with one slot and a
  schedule of refusals, a machine with one-byte structure images, and a custodian with an identity and a one-time
  prekey.
\<close>

definition slot_store :: "(bytes \<times> bool list) gy_store" where
  "slot_store =
     \<lparr>load_record = (\<lambda>k i cap v. (Inr [], v)), store_record = (\<lambda>k i b v. (Inr (), v)), delete_record = (\<lambda>k i v. (Inr (), v)),
      load_identity = (\<lambda>cap v. if length (fst (fst v)) \<le> cap then (Inr (fst (fst v)), v) else (Inl GY_ERR_ARG, v)),
      store_identity = (\<lambda>b v. case snd (fst v) of False # q \<Rightarrow> (Inl GY_ERR_CRYPTO, ((fst (fst v), q), snd v))
        | True # q \<Rightarrow> (Inr (), ((b, q), snd v)) | [] \<Rightarrow> (Inr (), ((b, []), snd v))),
      load_prekey = (\<lambda>k i cap v. (Inr [], v)), consume_opk = (\<lambda>i v. (Inr (), v))\<rparr>"

lemma slot_store_ok: "identity_slot slot_store fst"
  by (auto simp: identity_slot_def slot_store_def split: if_splits sum.splits list.splits bool.splits)

definition toy_hybrid_idmat :: gy_cust_hybrid_idmat where
  "toy_hybrid_idmat = pack_idmat zero_hybrid_signed_prekey zero_hybrid_keypair zero_hsak (zero_material zero_hybrid_identity)"

definition toy_machine :: "gy_cust_idmat \<Rightarrow> platform" where
  "toy_machine im0 =
     \<lparr>idmat_image = (\<lambda>im. [9]), idmat_read = (\<lambda>b. im0), hybrid_idmat_image = (\<lambda>im. [9]), hybrid_idmat_read = (\<lambda>b. toy_hybrid_idmat),
      sizeof_idmat = 1, sizeof_hybrid_idmat = 1, sizeof_keypair = 1, sizeof_hybrid_keypair = 1, sizeof_hybrid_public_key = 1, sizeof_hsak = 1,
      sizeof_custodian = 1, sizeof_hybrid_custodian = 1, calloc_ok = (\<lambda>n. True), runtime_ok = True\<rparr>"

lemma slot_store_simps [simp]:
  "store_identity slot_store b ((b0, True # q), r) = (Inr (), ((b, q), r))"
  "store_identity slot_store b ((b0, False # q), r) = (Inl GY_ERR_CRYPTO, ((b0, q), r))"
  by (simp_all add: slot_store_def)

lemma toy_machine_simps [simp]:
  "idmat_image (toy_machine im0) im = [9]" "idmat_read (toy_machine im0) b = im0" "sizeof_idmat (toy_machine im0) = 1"
  "sizeof_hybrid_idmat (toy_machine im0) = 1" "calloc_ok (toy_machine im0) n" "runtime_ok (toy_machine im0)"
  by (simp_all add: toy_machine_def)

lemma c25519_classical [simp]: "\<not> is_hybrid c25519"
  by (simp add: suite_c25519_def)

lemma toy_seal_provider: "seal_provider toy"
  by (simp add: seal_provider_def toy_facts)

subsection \<open>The seal of the provider\<close>

lemma toy_random_seal:
  "randombytes_buf toy r n = replicate n (of_nat r + 7)" "crypto_aead_encrypt toy p k x ad pt = Some (pt @ pad (aead_abytes p) k)"
  by (simp_all add: toy_def toy_aead_enc_def)

lemma toy_seal:
  assumes "length ad \<le> 96" "length pt + 66 \<le> cap" "length pt < 1000"
  shows "\<exists>blob. gy_seal toy cap key GY_CUSTODIAN_WRAP_ALG ad pt r = (Inr blob, Suc r) \<and> length blob = length pt + 66"
  using assms
  by (simp add: gy_seal_def seal_alg_lengths_def seal_const_defs GY_CUSTODIAN_WRAP_ALG_def gy_random_bytes_def gy_aead_encrypt_def toy_random_seal
      aead_prim_of_def gy_aead_nonce_len_def gy_aead_tag_len_def aead_id_defs Let_def SIZE_MAX_def)

lemma toy_wrap:
  assumes "length kek = 32"
  shows "\<exists>blob. gy_kekprot_wrap toy GY_KEYSTORE_WRAP_MAX GY_CUSTODIAN_WRAP_ALG GY_CUSTODIAN_OPSLIMIT GY_CUSTODIAN_MEMLIMIT cred [] kek r
    = (Inr blob, Suc (Suc r)) \<and> length blob = GY_KEYSTORE_WRAP_MAX \<and> hd blob = of_nat r + 7"
proof -
  obtain blob where "gy_seal toy 98 (pad 32 cred) GY_CUSTODIAN_WRAP_ALG [] kek (Suc r) = (Inr blob, Suc (Suc r))" "length blob = length kek + 66"
    using toy_seal [of "[]" kek 98 "pad 32 cred" "Suc r"] assms by auto
  then show ?thesis using assms toy_malloc toy_pwhash
    by (simp add: gy_kekprot_wrap_def GY_KEYSTORE_WRAP_MAX_def GY_KEKPROT_MAX_BLOB_def GY_KEKPROT_HDR_LEN_def GY_KEKPROT_KEK_LEN_def
        GY_PWHASH_SALT_LEN_def GY_CUSTODIAN_OPSLIMIT_def GY_CUSTODIAN_MEMLIMIT_def GY_PWHASH_OPSLIMIT_MIN_def GY_PWHASH_MEMLIMIT_MIN_def
        seal_const_defs gy_random_bytes_def toy_random_seal)
qed

subsection \<open>A custodian on the slot\<close>

text \<open>An object of the classical suite over the store, open, with a keystore key.\<close>

definition at_slot :: "(bytes \<times> bool list) gy_custodian \<Rightarrow> bool" where
  "at_slot c \<longleftrightarrow> cu_app_store c = slot_store \<and> cu_unlocked c \<and> cu_desc c = c25519 \<and> cu_self_uid c = [2] \<and> cu_self_did c = [3] \<and>
     length (cu_wrap c) = GY_KEYSTORE_WRAP_MAX \<and> ks_unlocked (cu_ks c) \<and> cu_expiry c = gy_expiry_cfg_disable \<and> length (cu_slots c) = 48 \<and>
     length (the (ks_kek (cu_ks c))) = 32"

lemma header_fits:
  assumes "at_slot c"
  shows "\<exists>hdr. gy_cust_header_encode (GY_CUST_BLOB_MAX P) (cust_header c) = Inr hdr"
  using assms by (simp add: at_slot_def gy_cust_header_encode_def cust_header_def GY_CUST_BLOB_MAX_def GY_CUST_HDR_MAX_def GY_USER_ID_MAX_def GY_DEVICE_ID_MAX_def)

lemma slot_persists:
  assumes "at_slot c"
  shows "\<exists>b1. cust_seal_and_persist_idmat toy (toy_machine im0) (c, ((b, True # q), r)) = (Inr (), (c, ((b1, q), Suc r)))"
    and "cust_seal_and_persist_idmat toy (toy_machine im0) (c, ((b, False # q), r)) = (Inl GY_ERR_CRYPTO, (c, ((b, q), Suc r)))"
proof -
  obtain blob where "gy_seal toy 67 (the (ks_kek (cu_ks c))) GY_CUSTODIAN_WRAP_ALG IDMAT_AD [9] r = (Inr blob, Suc r)" "length blob = 67"
    using toy_seal [of IDMAT_AD "[9]" 67] by (auto simp: IDMAT_AD_def)
  moreover obtain hdr where "gy_cust_header_encode (GY_CUST_BLOB_MAX (toy_machine im0)) (cust_header c) = Inr hdr" using header_fits [OF assms(1)] by blast
  ultimately show "\<exists>b1. cust_seal_and_persist_idmat toy (toy_machine im0) (c, ((b, True # q), r)) = (Inr (), (c, ((b1, q), Suc r)))"
    and "cust_seal_and_persist_idmat toy (toy_machine im0) (c, ((b, False # q), r)) = (Inl GY_ERR_CRYPTO, (c, ((b, q), Suc r)))"
    using assms
    by (simp_all add: cust_seal_and_persist_idmat_def seal_and_persist_def cust_persist_header_def classical_image_def at_slot_def
      toy_malloc gy_keystore_seal_def GY_CUST_IDMAT_SEALED_MAX_def GY_CUST_HYBRID_IDMAT_SEALED_MAX_def GY_SEAL_MAX_OVERHEAD_def)
qed

text \<open>A new object, whatever the machine reads back.\<close>

lemma slot_create:
  "\<exists>c b. gy_custodian_create toy (toy_machine im0) 1 slot_store [1] [2] [3] None None (([], True # q), 0) = (Inr c, ((b, q), 3)) \<and>
     at_slot c \<and> \<not> cu_have_identity c \<and> cu_clock c = None \<and> cu_mat c = zero_material zero_keypair \<and> cu_slots c = replicate 48 zero_slot \<and>
     hd (cu_wrap c) = 8"
proof -
  obtain wrap where w: "gy_kekprot_wrap toy GY_KEYSTORE_WRAP_MAX GY_CUSTODIAN_WRAP_ALG GY_CUSTODIAN_OPSLIMIT GY_CUSTODIAN_MEMLIMIT [1] [] (replicate 32 7) 1
      = (Inr wrap, 3)" "length wrap = GY_KEYSTORE_WRAP_MAX" "hd wrap = 8"
    using toy_wrap [of "replicate 32 7" "[1]" 1] by (auto simp: numeral_3_eq_3)
  have k: "gy_keystore_create toy locked_keystore GY_CUSTODIAN_WRAP_ALG GY_CUSTODIAN_OPSLIMIT GY_CUSTODIAN_MEMLIMIT [1] GY_KEYSTORE_WRAP_MAX 0
      = (Inr wrap, \<lparr>ks_kek = Some (replicate 32 7), ks_unlocked = True\<rparr>, 3)"
    using w(1) by (simp add: gy_keystore_create_def toy_malloc gy_random_bytes_def GY_KEKPROT_KEK_LEN_def GY_SEAL_KEY_LEN_def toy_random_seal)
  let ?c = "(zero_custodian slot_store c25519 1 [2] [3])\<lparr>cu_ks := \<lparr>ks_kek = Some (replicate 32 7), ks_unlocked = True\<rparr>,
      cu_wrap := wrap, cu_unlocked := True\<rparr>"
  have a: "at_slot ?c" using w(2) by (simp add: at_slot_def zero_custodian_def GY_CUSTODIAN_MAX_SLOTS_def)
  obtain hdr where h: "gy_cust_header_encode (GY_CUST_BLOB_MAX (toy_machine im0)) (cust_header ?c) = Inr hdr" using header_fits [OF a] by blast
  have "gy_custodian_create toy (toy_machine im0) 1 slot_store [1] [2] [3] None None (([], True # q), 0) = (Inr ?c, ((hdr, q), 3))"
    using k h by (simp add: gy_custodian_create_def zero_custodian_def cust_persist_header_def cust_header_def toy_malloc
        GY_USER_ID_MAX_def GY_DEVICE_ID_MAX_def suite_desc_lookup)
  then show ?thesis using a w(3) by (auto simp: zero_custodian_def GY_CUSTODIAN_MAX_SLOTS_def)
qed

text \<open>The keys of an identity, and the ones that later calls draw.\<close>

definition draws :: "(('e + 'a) \<times> rng) option \<Rightarrow> ('a \<Rightarrow> rng \<Rightarrow> bool) \<Rightarrow> bool" where
  "draws x P = (case x of Some (Inr a, r) \<Rightarrow> P a r | _ \<Rightarrow> False)"

lemma drawsD: "draws x P \<Longrightarrow> \<exists>a r. x = Some (Inr a, r) \<and> P a r"
  by (cases x; cases "fst (the x)") (auto simp: draws_def)

lemma toy_keys:
  "draws (gy_keypair_generate toy c25519 3) (\<lambda>ik r1. draws (gy_spk_create toy c25519 (kp_sk ik) 5 r1) (\<lambda>spk r2.
   draws (gy_opk_batch toy c25519 1 [] r2) (\<lambda>ks r3. length ks = 1 \<and>
   draws (gy_spk_create toy c25519 (kp_sk ik) 6 (Suc r3)) (\<lambda>spk1 r4. (word_of_nat (Suc r3) :: u8) + 7 \<noteq> 8))))"
  by code_simp

lemma toy_appkey:
  "draws (gy_keypair_generate toy c25519 3) (\<lambda>ik r1. draws (gy_spk_create toy c25519 (kp_sk ik) 5 r1) (\<lambda>spk r2.
   draws (gy_opk_batch toy c25519 1 [] r2) (\<lambda>ks r3. draws (gy_keypair_generate toy c25519 (Suc r3)) (\<lambda>kp r4.
   case cust_appkey_cert_signed_data toy (GY_APPKEY_INFO_MAX + 1 + GY_CURVE_PK_MAX + 8 + 8 + 4) c25519 (kp_pub kp) 0 100 (kp_id ik) of
     Inl e \<Rightarrow> False | Inr sd \<Rightarrow> draws (Some (op_sign c25519 (kp_sk ik) sd r4)) (\<lambda>sig r5. True)))))"
  by code_simp

text \<open>The custodian of the examples: one identity, one signed prekey, one one-time prekey.\<close>

definition with_keys :: "gy_keypair \<Rightarrow> gy_signed_prekey \<Rightarrow> gy_keypair \<Rightarrow> (bytes \<times> bool list) gy_custodian \<Rightarrow> bool" where
  "with_keys ik spk k c \<longleftrightarrow> at_slot c \<and> cu_have_identity c \<and> cu_clock c = None \<and> hd (cu_wrap c) = 8 \<and>
     cu_mat c = (zero_material ik)\<lparr>mt_spks := [spk], mt_opks := [fresh_entry k]\<rparr>"

lemma slot_identity:
  assumes "gy_keypair_generate toy c25519 3 = Some (Inr ik, r1)" "gy_spk_create toy c25519 (kp_sk ik) 5 r1 = Some (Inr spk, r2)"
    and "gy_opk_batch toy c25519 1 [] r2 = Some (Inr [k], r3)"
  shows "\<exists>c b. custody toy (toy_machine im0) slot_store fst [1] (c, ((b, q), Suc r3)) \<and> with_keys ik spk k c"
proof -
  obtain c b where c: "gy_custodian_create toy (toy_machine im0) 1 slot_store [1] [2] [3] None None (([], True # True # q), 0) = (Inr c, ((b, True # q), 3))"
      "at_slot c" "\<not> cu_have_identity c" "cu_clock c = None" "cu_mat c = zero_material zero_keypair" "cu_slots c = replicate 48 zero_slot"
      "hd (cu_wrap c) = 8"
    using slot_create [of im0 "True # q"] by blast
  let ?c1 = "c\<lparr>cu_mat := (zero_material ik)\<lparr>mt_spks := [spk], mt_opks := [fresh_entry k]\<rparr>\<rparr>"
  have a: "at_slot ?c1" using c(2) by (simp add: at_slot_def)
  obtain b1 where p: "cust_seal_and_persist_idmat toy (toy_machine im0) (?c1, ((b, True # q), r3)) = (Inr (), (?c1, ((b1, q), Suc r3)))"
    using slot_persists(1) [OF a] by blast
  let ?c2 = "?c1\<lparr>cu_slots := register_all GY_SLOT_OPK [kp_id k] (snd (cust_slot_register GY_SLOT_SPK (spk_id spk) (cu_slots c))), cu_have_identity := True\<rparr>"
  have "gy_custodian_generate_identity toy (toy_machine im0) 5 1 (c, ((b, True # q), 3)) = Some (Inr (), (?c2, ((b1, q), Suc r3)))"
    using c assms p
    by (simp add: gy_custodian_generate_identity_def cu_with_def cu_gen_def cu_upd_def cu_undo_def cu_tot_def s_res_def sbind_def at_slot_def
        zero_material_def cust_wire_ctxs_def cust_send_ctx_def gy_send_ctx_init_def id_len_def GY_USER_ID_MAX_def GY_DEVICE_ID_MAX_def GY_OPK_BATCH_MAX_def)
  then have "custody toy (toy_machine im0) slot_store fst [1] (?c2, ((b1, q), Suc r3))"
    by (intro custody.called [OF custody.created [OF c(1)], of "Generate_identity 5 1"]) simp
  moreover have "with_keys ik spk k ?c2" using a c(4,7) by (simp add: with_keys_def at_slot_def)
  ultimately show ?thesis by blast
qed

lemma toy_custodian:
  "\<exists>ik spk k r3 spk1 r4. (\<forall>im0 q. \<exists>c b. custody toy (toy_machine im0) slot_store fst [1] (c, ((b, q), Suc r3)) \<and> with_keys ik spk k c) \<and>
     gy_spk_create toy c25519 (kp_sk ik) 6 (Suc r3) = Some (Inr spk1, r4) \<and> (word_of_nat (Suc r3) :: u8) + 7 \<noteq> 8"
proof -
  obtain ik r1 spk r2 ks r3 spk1 r4 where t: "gy_keypair_generate toy c25519 3 = Some (Inr ik, r1)"
      "gy_spk_create toy c25519 (kp_sk ik) 5 r1 = Some (Inr spk, r2)" "gy_opk_batch toy c25519 1 [] r2 = Some (Inr ks, r3)" "length ks = 1"
      "gy_spk_create toy c25519 (kp_sk ik) 6 (Suc r3) = Some (Inr spk1, r4)" "(word_of_nat (Suc r3) :: u8) + 7 \<noteq> 8"
    using toy_keys by (blast dest!: drawsD)
  obtain k where "ks = [k]" using t(4) by (auto simp: length_Suc_conv)
  with slot_identity [OF t(1,2)] t(3,5,6) show ?thesis by blast
qed

text \<open>The image of the material, as the machine reads it back.\<close>

abbreviation image_of :: "gy_keypair \<Rightarrow> gy_signed_prekey \<Rightarrow> gy_keypair \<Rightarrow> gy_cust_idmat" where
  "image_of ik spk k \<equiv> pack_idmat zero_signed_prekey zero_keypair zero_sak ((zero_material ik)\<lparr>mt_spks := [spk], mt_opks := [fresh_entry k]\<rparr>)"

lemma toy_machine_reads:
  assumes "with_keys ik spk k c"
  shows "machine_reads toy (toy_machine (image_of ik spk k)) c"
  using assms by (simp add: machine_reads_def with_keys_def at_slot_def classical_image_def toy_malloc)

subsection \<open>The properties\<close>


theorem failed_call_restores_witness:
  "\<exists>im0 c w r w1 r1. custody toy (toy_machine im0) slot_store fst [1] (c, (w, r)) \<and> cu_have_identity c \<and>
     run_call toy (toy_machine im0) (Rotate_signed_prekey 6) (c, (w, r)) = Some (Inl GY_ERR_CRYPTO, (c, (w1, r1))) \<and> fst w1 = fst w"
proof -
  obtain ik spk k r3 spk1 r4 where t: "\<forall>im0 q. \<exists>c b. custody toy (toy_machine im0) slot_store fst [1] (c, ((b, q), Suc r3)) \<and> with_keys ik spk k c"
      "gy_spk_create toy c25519 (kp_sk ik) 6 (Suc r3) = Some (Inr spk1, r4)"
    using toy_custodian by blast
  let ?P = "toy_machine (image_of ik spk k)"
  obtain c b where c: "custody toy ?P slot_store fst [1] (c, ((b, [False]), Suc r3))" "with_keys ik spk k c"
    using t(1) by blast
  note d = c(2) [unfolded with_keys_def at_slot_def]
  let ?m = "(cu_mat c)\<lparr>mt_spks := history_push GY_CUSTODIAN_SPK_HISTORY_MAX spk1 [spk]\<rparr>"
  have "at_slot (c\<lparr>cu_mat := ?m\<rparr>)" using d by (simp add: at_slot_def)
  from slot_persists(2) [OF this] have "cust_seal_and_persist_idmat toy ?P (c\<lparr>cu_mat := ?m\<rparr>, ((b, [False]), r4))
      = (Inl GY_ERR_CRYPTO, (c\<lparr>cu_mat := ?m\<rparr>, ((b, []), Suc r4)))" .
  then have "\<exists>c1. run_call toy ?P (Rotate_signed_prekey 6) (c, ((b, [False]), Suc r3)) = Some (Inl GY_ERR_CRYPTO, (c1, ((b, []), Suc r4)))"
    using d t(2) by (simp add: gy_custodian_rotate_signed_prekey_def cu_with_def cu_gen_def cu_upd_def cu_undo_def cu_tot_def s_res_def sbind_def Let_def zero_material_simps)
  then obtain c1 where r: "run_call toy ?P (Rotate_signed_prekey 6) (c, ((b, [False]), Suc r3)) = Some (Inl GY_ERR_CRYPTO, (c1, ((b, []), Suc r4)))"
    by blast
  from failed_call_restores [OF toy_seal_provider slot_store_ok c(1) r] have "c1 = c" by simp
  moreover have "cu_have_identity c" using d by simp
  ultimately show ?thesis using c(1) r by (metis fst_conv)
qed

theorem bundle_spends_opk_witness:
  "\<exists>im0 c w r b c1 w1 r1 k. custody toy (toy_machine im0) slot_store fst [1] (c, (w, r)) \<and>
     gy_custodian_publish_bundle toy (toy_machine im0) 1000 (c, (w, r)) = Some (Inr b, (c1, (w1, r1))) \<and>
     carries 1000 c1 b k \<and> k \<in> set (cust_opk_ids c1) \<and> k \<notin> set (cust_offered c1)"
proof -
  obtain ik spk k r3 where t: "\<forall>im0 q. \<exists>c b. custody toy (toy_machine im0) slot_store fst [1] (c, ((b, q), Suc r3)) \<and> with_keys ik spk k c"
    using toy_custodian by blast
  let ?P = "toy_machine (image_of ik spk k)"
  obtain c b where c: "custody toy ?P slot_store fst [1] (c, ((b, [True]), Suc r3))" "with_keys ik spk k c"
    using t(1) by blast
  note d = c(2) [unfolded with_keys_def at_slot_def]
  let ?c1 = "c\<lparr>cu_mat := reserve 0 (cu_mat c)\<rparr>"
  have "at_slot ?c1" using d by (simp add: at_slot_def)
  then obtain b1 where p: "cust_seal_and_persist_idmat toy ?P (?c1, ((b, [True]), Suc r3)) = (Inr (), (?c1, ((b1, []), Suc (Suc r3))))"
    using slot_persists(1) by blast
  have "gy_bundle_wire_len c25519 x \<le> 1000" for x by (simp add: gy_bundle_wire_len_def suite_c25519_def)
  then have "\<exists>w. gy_bundle_put 1000 c25519 y = Inr w" for y by (simp add: gy_bundle_put_def Let_def not_less)
  then obtain out where "gy_bundle_put 1000 c25519 (cust_build_bundle ?c1 (kp_pub k)) = Inr out" by blast
  then have "gy_custodian_publish_bundle toy ?P 1000 (c, ((b, [True]), Suc r3)) = Some (Inr out, (?c1, ((b1, []), Suc (Suc r3))))"
    using d p by (simp add: gy_custodian_publish_bundle_def reservable_opk_def first_reservable_def fresh_entry_def reserve_def
        cu_with_def cu_upd_def cu_undo_def cu_tot_def s_res_def sbind_def)
  from bundle_spends_opk [OF toy_seal_provider slot_store_ok c(1) this] c(1) this show ?thesis by blast
qed

text \<open>A table in which every place is taken.\<close>

abbreviation full_table :: "gy_key_slot list" where
  "full_table \<equiv> replicate 48 \<lparr>sl_in_use = True, sl_type = GY_SLOT_OPK, sl_key_id = 7\<rparr>"

theorem appkey_handle_lost_witness:
  "\<exists>im0 (c :: (bytes \<times> bool list) gy_custodian) v c1 v1. cu_slots c = full_table \<and>
     gy_custodian_generate_appkey toy (toy_machine im0) 100 (c, v) = Some (Inr GY_KEY_HANDLE_INVALID, (c1, v1)) \<and>
     gy_custodian_export_appkey_cert c1 GY_KEY_HANDLE_INVALID 1000 = Inl GY_ERR_NOT_FOUND \<and>
     gy_custodian_generate_appkey toy (toy_machine im0) 100 (c1, v1) = Some (Inl GY_ERR_STATE, (c1, v1))"
proof -
  obtain ik r1 spk r2 ks r3 kp r4 where t: "gy_keypair_generate toy c25519 3 = Some (Inr ik, r1)"
      "gy_spk_create toy c25519 (kp_sk ik) 5 r1 = Some (Inr spk, r2)" "gy_opk_batch toy c25519 1 [] r2 = Some (Inr ks, r3)"
      "gy_keypair_generate toy c25519 (Suc r3) = Some (Inr kp, r4)"
      "case cust_appkey_cert_signed_data toy (GY_APPKEY_INFO_MAX + 1 + GY_CURVE_PK_MAX + 8 + 8 + 4) c25519 (kp_pub kp) 0 100 (kp_id ik) of
         Inl e \<Rightarrow> False | Inr sd \<Rightarrow> draws (Some (op_sign c25519 (kp_sk ik) sd r4)) (\<lambda>sig r5. True)"
    using toy_appkey by (blast dest!: drawsD)
  then obtain sd sig r5 where s: "op_sign c25519 (kp_sk ik) sd r4 = (Inr sig, r5)"
      "cust_appkey_cert_signed_data toy (GY_APPKEY_INFO_MAX + 1 + GY_CURVE_PK_MAX + 8 + 8 + 4) c25519 (kp_pub kp) 0 100 (kp_id ik) = Inr sd"
    by (auto split: sum.splits dest!: drawsD)
  obtain k where "ks = [k]" using batch_length [OF t(3)] by (auto simp: length_Suc_conv)
  with slot_identity [OF t(1,2)] t(3) obtain im0 c b where c: "with_keys ik spk k c"
      "custody toy (toy_machine im0) slot_store fst [1] (c, ((b, [True]), Suc r3))" by blast
  note d = c(1) [unfolded with_keys_def at_slot_def]
  let ?sak = "\<lparr>sak_kp = kp, sak_issued_at = 0, sak_expiry = 100, sak_identity_pkid = kp_id ik, sak_identity_sig = sig\<rparr>"
  let ?c = "c\<lparr>cu_slots := full_table\<rparr>" and ?c1 = "c\<lparr>cu_slots := full_table, cu_mat := (cu_mat c)\<lparr>mt_saks := [?sak]\<rparr>\<rparr>"
  have "at_slot ?c1" using d by (simp add: at_slot_def)
  then obtain b1 where p: "cust_seal_and_persist_idmat toy (toy_machine im0) (?c1, ((b, [True]), r5)) = (Inr (), (?c1, ((b1, []), Suc r5)))"
    using slot_persists(1) by blast
  have f: "\<forall>i < length (cu_slots ?c). sl_in_use (cu_slots ?c ! i)" by simp
  have g: "gy_custodian_generate_appkey toy (toy_machine im0) 100 (?c, ((b, [True]), Suc r3)) = Some (Inr GY_KEY_HANDLE_INVALID, (?c1, ((b1, []), Suc r5)))"
    using d t(4) s p full_register [of full_table GY_SLOT_SAK]
    by (simp add: gy_custodian_generate_appkey_def cust_mint_sak_def cust_certify_sak_def cust_now_def register_sak_def ctot_def
        cu_with_def cu_gen_def cu_upd_def cu_undo_def cu_tot_def s_res_def sbind_def Let_def zero_material_simps)
  have "cu_slots ?c = full_table" by simp
  with g appkey_handle_lost [OF f g, of 1000 100] show ?thesis by blast
qed

theorem credential_change_lingers_witness:
  "\<exists>im0 c w r c1 w1 r1 w2 r2 v3. custody toy (toy_machine im0) slot_store fst [1] (c, (w, r)) \<and>
     gy_custodian_change_credential toy (toy_machine im0) [4] (c, (w, r)) = (Inl GY_ERR_CRYPTO, (c1, (w1, r1))) \<and> fst w1 = fst w \<and>
     cust_seal_and_persist_idmat toy (toy_machine im0) (c1, (w1, r1)) = (Inr (), (c1, (w2, r2))) \<and>
     gy_custodian_open toy (toy_machine im0) slot_store [4] (w2, r2) = (Inr (reopened c1), v3)"
proof -
  obtain ik spk k r3 where t: "\<forall>im0 q. \<exists>c b. custody toy (toy_machine im0) slot_store fst [1] (c, ((b, q), Suc r3)) \<and> with_keys ik spk k c"
      "(word_of_nat (Suc r3) :: u8) + 7 \<noteq> 8"
    using toy_custodian by blast
  let ?P = "toy_machine (image_of ik spk k)"
  obtain c b where c: "custody toy ?P slot_store fst [1] (c, ((b, [False, True]), Suc r3))" "with_keys ik spk k c"
    using t(1) by blast
  note d = c(2) [unfolded with_keys_def at_slot_def]
  obtain hdr tail where h0: "fst (b, [False, True]) = hdr @ tail" and h: "gy_cust_header_encode (GY_CUST_BLOB_MAX ?P) (cust_header c) = Inr hdr"
      "blob_holds ?P fst c (b, [False, True]) tail"
    using kept_blob [OF custody_kept [OF c(1) toy_seal_provider slot_store_ok]] by blast
  then have b: "b = hdr @ tail" by simp
  obtain wrap where w: "gy_kekprot_wrap toy GY_KEYSTORE_WRAP_MAX GY_CUSTODIAN_WRAP_ALG GY_CUSTODIAN_OPSLIMIT GY_CUSTODIAN_MEMLIMIT [4] []
      (the (ks_kek (cu_ks c))) (Suc r3) = (Inr wrap, Suc (Suc (Suc r3)))" "length wrap = GY_KEYSTORE_WRAP_MAX" "hd wrap \<noteq> hd (cu_wrap c)"
    using toy_wrap [of "the (ks_kek (cu_ks c))" "[4]" "Suc r3"] d t(2) by auto
  let ?c1 = "c\<lparr>cu_wrap := wrap\<rparr>"
  have a: "at_slot ?c1" using d w(2) by (simp add: at_slot_def)
  obtain hdr1 where e: "gy_cust_header_encode (GY_CUST_BLOB_MAX ?P) (cust_header ?c1) = Inr hdr1" using header_fits [OF a] by blast
  have l: "load_identity slot_store (GY_CUST_BLOB_MAX ?P) ((b, q), r) = (Inr b, ((b, q), r))" for q r
    using blob_length [OF h(2)] by (simp add: slot_store_def)
  have x: "gy_cust_header_decode b = Inr (cust_header c, length hdr)" "drop (length hdr) b = tail" "\<not> GY_CUST_HYBRID_IDMAT_SEALED_MAX ?P < length tail"
    using h(2) header_decode_encode [OF h(1), of tail] by (simp_all add: b blob_holds_def)
  have ch: "gy_custodian_change_credential toy ?P [4] (c, ((b, [False, True]), Suc r3)) = (Inl GY_ERR_CRYPTO, (?c1, ((b, [True]), Suc (Suc (Suc r3)))))"
    using d l w(1) e x
    by (simp add: gy_custodian_change_credential_def gy_keystore_change_credential_def cust_persist_header_def)
  obtain b1 where p: "cust_seal_and_persist_idmat toy ?P (?c1, ((b, [True]), Suc (Suc (Suc r3)))) = (Inr (), (?c1, ((b1, []), Suc (Suc (Suc (Suc r3))))))"
    using slot_persists(1) [OF a] by blast
  have n: "?c1 \<noteq> c"
  proof
    assume "?c1 = c"
    then have "cu_wrap ?c1 = cu_wrap c" by (rule arg_cong)
    with w(3) show False by simp
  qed
  have m: "machine_reads toy ?P ?c1" using d by (simp add: machine_reads_def classical_image_def toy_malloc)
  have "\<exists>v3. gy_custodian_open toy ?P slot_store [4] ((b1, []), Suc (Suc (Suc (Suc r3)))) = (Inr (reopened ?c1), v3)"
    using credential_change_lingers [OF toy_seal_provider slot_store_ok c(1) _ ch n _ m] p d by simp
  moreover have "fst (b, [True]) = fst (b, [False, True])" by simp
  ultimately show ?thesis using c(1) ch p by blast
qed

end
