(* ===== verification/GY_ApiWitness.thy ===== *)
theory GY_ApiWitness
  imports GY_ApiProps GY_CustodyWitness
begin

text \<open>The theorems about the public API at concrete inputs: a custodian with an identity over the one-slot store.\<close>

lemma toy_send_ctx: "at_slot c \<Longrightarrow> \<exists>sx. cust_send_ctx toy P c = Inr sx"
  by (simp add: at_slot_def cust_send_ctx_def gy_send_ctx_init_def id_len_def GY_USER_ID_MAX_def GY_DEVICE_ID_MAX_def)

lemma slot_apart: "records_apart slot_store fst"
  by (simp add: records_apart_def loads_keep_def slot_store_def)

lemma opens_once:
  assumes "cu_have_identity c" "\<not> cu_send_open c"
  shows "api_run L P Send_open (sx, ((c, w), r)) = Some (True, (gy_send_begin sx, ((c\<lparr>cu_send_open := True\<rparr>, w), r)))"
  using assms by (simp add: gy_send_open_def with_cust_def set_open_def outcome_def)

text \<open>A user without a record contributes nothing to the fan-out.\<close>

lemma prepares:
  assumes "at_slot c" "cust_send_ctx toy P c = Inr sx"
  shows "api_run toy P (Prepare [[5]] None) (gy_send_begin sx, ((c, w), r)) = Some (True, (gy_send_begin sx, ((c, w), r)))"
proof -
  have l: "load_record (cust_wire_store toy P) k [5] cap ((c, w), r) = (Inr [], ((c, w), r))" for k cap
    using assms(1) by (simp add: at_slot_def cust_wire_store_def tr_load_record_def tr_call_def cust_sealed_store_def gy_sealed_store_bind_def
        ss_load_record_def ss_open_def slot_store_def GY_DEVICE_ID_MAX_def Let_def)
  have "sc_store sx = cust_wire_store toy P" using send_ctx_wired [OF assms(2)] by (simp add: wired_def)
  then have "gy_op_load_user (sc_op (gy_send_begin sx)) [5] ((c, w), r) = (Inr None, ((c, w), r))"
    using l by (simp add: gy_send_begin_def gy_op_begin_def op_clear_def gy_op_load_user_def load_with_def op_load_def stage_lookup_def find_rec_in_use)
  moreover have "sc_begun (gy_send_begin sx)" by (simp add: gy_send_begin_def)
  ultimately show ?thesis
    by (simp add: gy_prepare_def gy_send_prepare_def outcome_def send_run_def s_load_def s_map_err_def sbind_def s_res_def)
qed

theorem send_transactions_witness:
  "\<exists>im0 (s :: (bytes \<times> bool list) apist) s1. api_reach toy (toy_machine im0) s \<and> api_run toy (toy_machine im0) Send_open s = Some (True, s1) \<and>
     cu_send_open (cust_of s1) \<and> sc_begun (fst s1)"
proof -
  obtain im0 c b r where c: "custody toy (toy_machine im0) slot_store fst [1] (c, ((b, []), r))" "at_slot c" "cu_have_identity c"
    using toy_custodian unfolding with_keys_def by blast
  let ?c = "c\<lparr>cu_send_open := False\<rparr>" and ?P = "toy_machine im0"
  have "at_slot ?c" using c(2) by (simp add: at_slot_def)
  then obtain sx where sx: "cust_send_ctx toy ?P ?c = Inr sx" using toy_send_ctx by blast
  have r: "api_reach toy ?P (sx, ((?c, (b, [])), r))" by (rule api_reach.ready [OF sx]) simp
  have o: "api_run toy ?P Send_open (sx, ((?c, (b, [])), r)) = Some (True, (gy_send_begin sx, ((?c\<lparr>cu_send_open := True\<rparr>, (b, [])), r)))"
    by (rule opens_once) (use c(3) in simp_all)
  have "sc_begun (gy_send_begin sx) = cu_send_open (?c\<lparr>cu_send_open := True\<rparr>)"
    using send_transactions [OF api_reach.call [OF r o]] by simp
  then show ?thesis using r o by (intro exI conjI) auto
qed

theorem rollback_discards_witness:
  "\<exists>im0 (s :: (bytes \<times> bool list) apist) s1 s2. api_run toy (toy_machine im0) Send_open s = Some (True, s1) \<and>
     api_run toy (toy_machine im0) (Prepare [[5]] None) s1 = Some (True, s2) \<and>
     cust_of (gy_rollback s2) = cust_of s \<and> fst (app_of (gy_rollback s2)) = fst (app_of s) \<and> fst (gy_rollback s2) = fst (gy_rollback s1)"
proof -
  obtain im0 c b r where c: "custody toy (toy_machine im0) slot_store fst [1] (c, ((b, []), r))" "at_slot c" "cu_have_identity c"
    using toy_custodian unfolding with_keys_def by blast
  let ?c = "c\<lparr>cu_send_open := False\<rparr>" and ?c1 = "c\<lparr>cu_send_open := True\<rparr>" and ?P = "toy_machine im0" and ?w = "(b, []) :: bytes \<times> bool list"
  have a: "at_slot ?c" "at_slot ?c1" using c(2) by (simp_all add: at_slot_def)
  obtain sx where sx: "cust_send_ctx toy ?P ?c = Inr sx" using toy_send_ctx [OF a(1)] by blast
  then have sx1: "cust_send_ctx toy ?P ?c1 = Inr sx" by (simp add: cust_send_ctx_def split: if_splits)
  have rd: "api_reach toy ?P (sx, ((?c, ?w), r))" by (rule api_reach.ready [OF sx]) simp
  have o: "api_run toy ?P Send_open (sx, ((?c, ?w), r)) = Some (True, (gy_send_begin sx, ((?c1, ?w), r)))"
    using opens_once [of ?c toy ?P sx ?w r] c(3) by simp
  note p = prepares [OF a(2) sx1, of ?w r]
  have l: "loads_keep (cu_app_store (cust_of (sx, ((?c, ?w), r)))) fst"
    using a(1) slot_apart by (simp add: at_slot_def records_apart_def)
  have "(\<lambda>x y. \<exists>a ok. sending a \<and> api_run toy ?P a x = Some (ok, y))\<^sup>*\<^sup>* (gy_send_begin sx, ((?c1, ?w), r)) (gy_send_begin sx, ((?c1, ?w), r))"
    using p sending.simps(1) by (intro r_into_rtranclp) blast
  from rollback_discards [OF rd o l this] show ?thesis using o p by blast
qed

theorem api_reopens_witness:
  "\<exists>im0 sx c w r w1 r1. live toy (toy_machine im0) slot_store fst [1] (sx, ((c, w), r)) \<and> cu_send_open c \<and> mt_opks (cu_mat c) \<noteq> [] \<and>
     gy_custodian_open toy (toy_machine im0) slot_store [1] (w, r) = (Inr (reopened c), (w1, r1)) \<and> fst w1 = fst w"
proof -
  obtain ik spk k r where "\<forall>im0 q. \<exists>c b. custody toy (toy_machine im0) slot_store fst [1] (c, ((b, q), Suc r)) \<and> with_keys ik spk k c"
    using toy_custodian by blast
  then obtain c b where c: "custody toy (toy_machine (image_of ik spk k)) slot_store fst [1] (c, ((b, []), Suc r))" "with_keys ik spk k c" by blast
  let ?P = "toy_machine (image_of ik spk k)" and ?c = "c\<lparr>cu_send_open := True\<rparr>"
  have a: "at_slot c" "cu_have_identity c" "mt_opks (cu_mat c) \<noteq> []" using c(2) by (simp_all add: with_keys_def)
  obtain sx where sx: "cust_send_ctx toy ?P c = Inr sx" using toy_send_ctx [OF a(1)] by blast
  have l: "live toy ?P slot_store fst [1] (sx, ((c, (b, [])), Suc r))" by (rule live.opened [OF c(1) sx])
  have "\<exists>sy. live toy ?P slot_store fst [1] (sy, ((?c, (b, [])), Suc r))"
  proof (cases "cu_send_open c")
    case True
    then have "?c = c" by (cases c) simp
    then show ?thesis using l by auto
  next
    case False
    then show ?thesis using live.call [OF l opens_once [OF a(2)]] by auto
  qed
  then obtain sy where sy: "live toy ?P slot_store fst [1] (sy, ((?c, (b, [])), Suc r))" by blast
  have "machine_reads toy ?P ?c" using c(2) by (simp add: with_keys_def at_slot_def machine_reads_def classical_image_def toy_malloc)
  note op = api_reopens [OF toy_seal_provider slot_store_ok slot_apart sy this]
  moreover have "cu_send_open ?c" "mt_opks (cu_mat ?c) \<noteq> []" using a(3) by simp_all
  ultimately show ?thesis using sy op by blast
qed

end
