(* ===== verification/Spec2Isabelle.thy ===== *)
theory Spec2Isabelle
  imports GY_HybridWitness GY_DeliveryWitness GY_ApiWitness
begin

text \<open>
  A verification of the Geryon messaging library (\<^verbatim>\<open>src/src\<close>): an end-to-end encrypted messenger core
  with four cipher suites, two of them hybrid (a Montgomery curve together with ML-KEM and ML-DSA).

  \<^bold>\<open>The program and its model.\<close> The library is layered. \<^verbatim>\<open>core/\<close> wraps primitives of third-party
  libraries and fixes encodings; \<^verbatim>\<open>kex/\<close> makes prekeys and runs the X3DH handshake; \<^verbatim>\<open>ratchet/\<close> is the
  Double Ratchet with header encryption, classical and hybrid; \<^verbatim>\<open>session/\<close> keeps sessions, device and
  user records and a transactional stage over application callbacks; \<^verbatim>\<open>proto/\<close> is the layer the
  application calls. One theory models one source file or one part of it:

  \<^item> \<open>GY_Encode\<close>: \<^verbatim>\<open>core/encode.c\<close>, \<^verbatim>\<open>core/error.[ch]\<close>. \<open>GY_Provider\<close>: the third-party entry points, as a
    record of functions, with the documented behaviour the code relies on as named predicates.
    \<open>GY_Primitives\<close>: \<^verbatim>\<open>core/aead.c\<close>, \<^verbatim>\<open>hash.c\<close>, \<^verbatim>\<open>x25519.c\<close>, \<^verbatim>\<open>x448.c\<close>, \<^verbatim>\<open>ed25519.c\<close>, \<^verbatim>\<open>mlkem*.c\<close>, \<^verbatim>\<open>mldsa*.c\<close>,
    \<^verbatim>\<open>rng.c\<close>. \<open>GY_Ed448\<close>: \<^verbatim>\<open>core/ed448.c\<close>. \<open>GY_Suite\<close>: \<^verbatim>\<open>core/suite.c\<close>, \<^verbatim>\<open>kdf.c\<close>.
  \<^item> \<open>GY_Prekeys\<close>: \<^verbatim>\<open>kex/prekeys.c\<close>. \<open>GY_X3DH\<close>: \<^verbatim>\<open>kex/x3dh.c\<close>. \<open>GY_KeyAgree\<close>: key agreement on generated keys.
  \<^item> \<open>GY_Header\<close>, \<open>GY_HeaderEnc\<close>, \<open>GY_SkipStore\<close>, \<open>GY_DoubleRatchet\<close>, \<open>GY_HybridRatchet\<close>: \<^verbatim>\<open>ratchet/header.c\<close>,
    \<^verbatim>\<open>he.c\<close>, \<^verbatim>\<open>dr_common.c\<close>, \<^verbatim>\<open>double_ratchet.c\<close>, \<^verbatim>\<open>hybrid_double_ratchet.c\<close>. \<open>GY_DRSync\<close>, \<open>GY_HybridSync\<close>: what two
    states in step deliver to each other.
  \<^item> \<open>GY_Seal\<close>: \<^verbatim>\<open>core/seal.c\<close>, \<^verbatim>\<open>pwhash.c\<close>, \<^verbatim>\<open>kekprot.c\<close>, \<^verbatim>\<open>session/keystore.c\<close>.
  \<^item> \<open>GY_Session\<close>, \<open>GY_SessionList\<close>: \<^verbatim>\<open>session/session.c\<close>. \<open>GY_Store\<close>: \<^verbatim>\<open>session/store.c\<close>,
    \<^verbatim>\<open>proto/sealed_store.c\<close>. \<open>GY_Lifecycle\<close>: \<^verbatim>\<open>session/lifecycle.c\<close>. \<open>GY_Send\<close>: \<^verbatim>\<open>session/send.c\<close>.
    \<open>GY_Recv\<close>: \<^verbatim>\<open>session/recv.c\<close>. These run on the stage and the application's world, threaded by the
    combinators at the start of \<open>GY_Lifecycle\<close>. \<open>GY_Delivery\<close>, \<open>GY_FirstSend\<close>: a first contact through all
    the layers.
  \<^item> \<open>GY_Wire\<close>: \<^verbatim>\<open>proto/envelope.c\<close>, the wire forms of messages, bundles, prekey batches and certificates.
    \<open>GY_Directory\<close>: \<^verbatim>\<open>proto/bundle_assemble.c\<close>, what a directory serves. \<open>GY_AppKey\<close>: \<^verbatim>\<open>proto/appkey_verify.c\<close>.
  \<^item> \<open>GY_Custody\<close>, \<open>GY_Custodian\<close>: \<^verbatim>\<open>proto/custodian.c\<close>, the object that holds a device's keys: the bootstrap
    header, the key material and its sealed image, handles, prekey pools; then every operation on it. An
    operation runs on the object, the application's world and the random draws (\<open>custst\<close>). A C structure
    written as raw memory is a parameter of the model (\<open>platform\<close>), with the sizes and allocations.
    \<open>GY_CustodyInv\<close>, \<open>GY_CustodyProps\<close>: codec, handle and pool lemmas. \<open>GY_CustodyDurable\<close>: memory and store
    agree; the contract of the two persisting functions is the locale \<open>persisting\<close>, interpreted for both.
    \<open>GY_CustodyHandles\<close>: rollback and the use of one-time prekeys. \<open>GY_CustodyFaults\<close>: two departures from
    the contract.
  \<^item> \<open>GY_Api\<close>: \<^verbatim>\<open>proto/api.c\<close>, the public operations on an open custodian: the send transaction, the receive
    and the peer records, run by the session layer on the custodian's own store. The state is the send
    context with the custodian, the world and the draws (\<open>apist\<close>). \<open>GY_ApiProps\<close>: what a call before its commit
    leaves alone, what a commit does, and the states that calls of the API reach.
  \<^item> \<open>GY_Toy\<close> is a concrete provider, a store in memory is in \<open>GY_SessionWitness\<close>; the theories named
    \<open>_Witness\<close> apply the theorems at concrete inputs over them.

  \<^bold>\<open>Conventions.\<close> A function that returns \<open>GY_OK\<close> or a negative code returns a sum (\<open>Inl\<close> the code); a
  mutated structure is returned updated. Buffers are byte lists; a capacity is kept as an argument where
  the code tests it; NULL checks have no counterpart. Randomness is a draw counter into the provider's
  generator, threaded in the order of the C calls. The key-generation loops of the code may run for ever;
  they are values of option type, \<open>None\<close> is "does not return", and where a theorem says that something is
  delivered or produced the value is shown to be \<open>Some\<close>. All other loops are total functions. Counters,
  flags and identifiers keep their machine width; list positions are naturals. The wiping of temporaries
  is modelled only where a later read could see it.

  \<^bold>\<open>What the theorems show.\<close> Codecs: decoding inverts encoding for headers, sessions, device and user
  records, and blobs fit their advertised buffers. Key agreement: initiator and responder of both
  handshakes compute the same secrets, and a bundle is validated before a private key is used. Ratchets:
  messages on a new epoch, on the current chain after losses, and overtaken ones are delivered, a replay is
  refused, a failed decryption changes nothing, the invariants hold in every reachable state, the
  post-quantum confirmation moves forward only, the skipped-key store implements a bounded queue. Storage:
  a commit runs in the pinned order and makes exactly the staged view durable, sealing preserves the
  store's contract, the keystore holds its key exactly while unlocked. Sessions: an identity key once
  recorded is pinned, deletion is complete, a receive is atomic, and a first contact works end to end: the
  send succeeds in a buffer of the advertised size and the receive delivers the plaintext. Application
  layer: envelopes and bundles survive the wire, a directory serves what was published, no signature
  of one role can be taken for another, a custodian reopened from its blob has the keys it had after any
  history of calls, a failed call leaves no trace, a one-time prekey goes into one bundle. Through
  the public operations, the send transaction is a machine of two states, a rollback leaves the object and
  the application's records as the opening found them, and the object still reopens from its blob. Two
  theorems state faults of the custodian: a full handle table, and a refused change of the credential.

  \<^bold>\<open>Not modelled.\<close> The re-exports of \<^verbatim>\<open>session/facade.c\<close>, \<^verbatim>\<open>group/\<close> and \<^verbatim>\<open>qspgs/\<close> (the group
  protocols, over group arithmetic of third-party libraries), the example clients (terminal and socket I/O),
  the ML-DSA key-registration variants of \<^verbatim>\<open>core/krmldsa*\<close>, and constant-time execution. Secrecy and
  unforgeability of the primitives are not stated.
\<close>

end
